(* ===== verification/Prelude.thy ===== *)
theory Prelude
  imports Main "HOL-Library.Word" "HOL-Library.Monad_Syntax"
begin

unbundle bit_operations_syntax

text \<open>
  What every component of the development shares: the names of the machine types, checked
  array accesses (an access outside an array is undefined behaviour of the C program and is the
  value \<open>None\<close> here), C strings, and the arithmetic of 32-bit words split into two 16-bit halves.
\<close>

section \<open>Machine types\<close>

type_synonym u8 = "8 word"
type_synonym u16 = "16 word"
type_synonym u32 = "32 word"
type_synonym u64 = "64 word"

named_theorems cmem \<comment> \<open>what a checked access or a guarded step returns\<close>
named_theorems u32_arith \<comment> \<open>words of the C code read as natural numbers\<close>

section \<open>Checked arrays\<close>

definition load :: "'a list \<Rightarrow> nat \<Rightarrow> 'a option" where
  "load xs i = (if i < length xs then Some (xs ! i) else None)"

definition store :: "'a list \<Rightarrow> nat \<Rightarrow> 'a \<Rightarrow> 'a list option" where
  "store xs i v = (if i < length xs then Some (xs[i := v]) else None)"

lemma load_Some [cmem]: "i < length xs \<Longrightarrow> load xs i = Some (xs ! i)"
  by (simp add: load_def)

lemma store_Some [cmem]: "i < length xs \<Longrightarrow> store xs i v = Some (xs[i := v])"
  by (simp add: store_def)

lemma load_append_length [simp]: "load (xs @ y # ys) (length xs) = Some y"
  by (simp add: load_def)

lemma bind_eq_SomeD: "Option.bind m f = Some y \<Longrightarrow> \<exists>x. m = Some x \<and> f x = Some y"
  by (cases m) auto

section \<open>Halves of a 32-bit word\<close>

lemma unat_lo16 [u32_arith]: "unat (x AND 0xFFFF :: u32) = unat x mod 65536"
proof -
  have "x AND 0xFFFF = take_bit 16 x"
    by (simp add: take_bit_eq_mask mask_numeral)
  then have "unat (x AND 0xFFFF) = take_bit 16 (unat x)"
    by (simp only: unsigned_take_bit_eq)
  then show ?thesis by (simp add: take_bit_eq_mod)
qed

lemma unat_hi16 [u32_arith]: "unat (drop_bit 16 (x :: u32)) = unat x div 65536"
  unfolding unat_drop_bit_eq by (simp add: drop_bit_eq_div)

lemma unat_u32_lt: "unat (x :: u32) < 4294967296"
  using unsigned_less [of x] by simp

lemma unat_lo16_lt: "unat (x AND 0xFFFF :: u32) < 65536"
  by (simp add: unat_lo16)

lemma unat_hi16_lt: "unat (drop_bit 16 (x :: u32)) < 65536"
  using unat_u32_lt [of x] by (simp add: unat_hi16 less_mult_imp_div_less)

lemma unat_push16 [u32_arith]: "unat (push_bit 16 (x :: u32)) = (unat x mod 65536) * 65536"
proof -
  have "unat (push_bit 16 x) = take_bit 32 (push_bit 16 (unat x))"
    by (simp add: unsigned_push_bit_eq)
  also have "\<dots> = (unat x * 65536) mod (65536 * 65536)"
    by (simp add: take_bit_eq_mod push_bit_eq_mult)
  also have "\<dots> = (unat x mod 65536) * 65536"
    by (simp only: mod_mult_mult2)
  finally show ?thesis .
qed

lemma unat_push_no_wrap:
  assumes "unat (x :: u32) * 2 ^ n < 2 ^ 32"
  shows "unat (push_bit n x) = unat x * 2 ^ n"
proof -
  have "unat (push_bit n x) = take_bit 32 (push_bit n (unat x))"
    by (simp only: unsigned_push_bit_eq len_bit0 len_num1) simp
  also have "\<dots> = unat x * 2 ^ n"
    using assms by (simp only: push_bit_eq_mult take_bit_nat_eq_self_iff)
  finally show ?thesis .
qed

lemma unat_drop_exact:
  assumes "2 ^ n dvd unat (x :: u32)"
  shows "unat (drop_bit n x) * 2 ^ n = unat x"
  unfolding unat_drop_bit_eq using assms by (simp only: drop_bit_eq_div dvd_div_mult_self)

lemma unat_add_no_wrap: "unat a + unat b < 4294967296 \<Longrightarrow> unat (a + b :: u32) = unat a + unat b"
  by (simp add: unat_word_ariths)

lemma unat_mult_no_wrap: "unat a * unat b < 4294967296 \<Longrightarrow> unat (a * b :: u32) = unat a * unat b"
  by (simp add: unat_word_ariths)

lemma push16_and_lo16_disjoint: "push_bit 16 (a :: u32) AND (b AND 0xFFFF) = 0"
proof -
  have "b AND 0xFFFF = take_bit 16 b" by (simp add: take_bit_eq_mask mask_numeral)
  then show ?thesis
    by (intro bit_eqI) (auto simp add: bit_and_iff bit_push_bit_iff bit_take_bit_iff)
qed

text \<open>The macro \<open>Storeinc\<close> of dtoa.c joins two halves.\<close>

definition join16 :: "u32 \<Rightarrow> u32 \<Rightarrow> u32" where
  "join16 b c = (push_bit 16 b OR (c AND 0xFFFF))"

lemma unat_join16 [u32_arith]:
  "unat (join16 b c) = (unat b mod 65536) * 65536 + unat c mod 65536"
proof -
  let ?p = "push_bit 16 b" and ?q = "c AND 0xFFFF"
  have bnd: "unat ?p + unat ?q < 4294967296"
  proof -
    have "unat b mod 65536 \<le> 65535" "unat c mod 65536 \<le> 65535" by (simp_all add: less_Suc_eq_le [symmetric])
    then show ?thesis by (simp add: unat_push16 unat_lo16)
  qed
  have "join16 b c = ?p + ?q"
    unfolding join16_def by (rule disjunctive_add_eq_or [symmetric]) (rule push16_and_lo16_disjoint)
  then show ?thesis
    using unat_add_no_wrap [OF bnd] by (simp add: unat_push16 unat_lo16)
qed

text \<open>Two halves and the carry between them: how a product of 16-bit digits fits into 32 bits.\<close>

lemma half_mult_bound:
  fixes x y c d :: nat
  assumes "x < 65536" "y < 65536" "c < 65536" "d < 65536"
  shows "x * y + c + d < 4294967296"
proof -
  have "x * y \<le> 65535 * 65535"
    using assms by (intro mult_le_mono) auto
  with assms show ?thesis by simp
qed

lemma u32_halves: "unat (x :: u32) = unat x div 65536 * 65536 + unat x mod 65536"
  by simp

lemma nat_shift_halves: "(n :: nat) * 65536 = n mod 65536 * 65536 + 4294967296 * (n div 65536)"
proof -
  define q r where "q = n div 65536" and "r = n mod 65536"
  have "n = q * 65536 + r" by (simp add: q_def r_def)
  then show ?thesis unfolding q_def [symmetric] r_def [symmetric] by simp
qed

section \<open>C strings\<close>

text \<open>
  A C string is the list of its bytes before the terminating NUL. \<open>strlen\<close> is \<open>length\<close>;
  \<open>strchr\<close> is the offset of the first occurrence; \<open>strncmp s t n = 0\<close> is agreement up to the
  first NUL or \<open>n\<close> bytes.
\<close>

abbreviation NUL :: char where "NUL \<equiv> CHR 0x00"
abbreviation NL :: char where "NL \<equiv> CHR 0x0A"

text \<open>\<open>isspace\<close> of the C locale.\<close>

definition is_space :: "char \<Rightarrow> bool" where
  "is_space c \<longleftrightarrow> c = CHR '' '' \<or> (9 \<le> (of_char c :: nat) \<and> (of_char c :: nat) \<le> 13)"

fun strchr :: "string \<Rightarrow> char \<Rightarrow> nat option" where
  "strchr [] c = None"
| "strchr (x # xs) c = (if x = c then Some 0 else map_option Suc (strchr xs c))"

definition strrchr :: "string \<Rightarrow> char \<Rightarrow> nat option" where
  "strrchr s c = map_option (\<lambda>i. length s - 1 - i) (strchr (rev s) c)"

definition strncmp_eq :: "string \<Rightarrow> string \<Rightarrow> nat \<Rightarrow> bool" where
  "strncmp_eq s t n = (take n s = take n t)"

lemma strchr_Some: "strchr s c = Some i \<Longrightarrow> i < length s \<and> s ! i = c \<and> c \<notin> set (take i s)"
  by (induction s c arbitrary: i rule: strchr.induct) (auto split: if_splits)

lemma strchr_None: "strchr s c = None \<longleftrightarrow> c \<notin> set s"
  by (induction s c rule: strchr.induct) auto

lemma strchr_append: "c \<notin> set s \<Longrightarrow> strchr (s @ c # t) c = Some (length s)"
  by (induction s) auto

lemma strrchr_Some:
  assumes "strrchr s c = Some i"
  shows "i < length s \<and> s ! i = c \<and> c \<notin> set (drop (Suc i) s)"
proof -
  from assms obtain j where j: "strchr (rev s) c = Some j" "i = length s - 1 - j"
    by (auto simp: strrchr_def)
  from strchr_Some [OF j(1)] have lt: "j < length s" and at: "rev s ! j = c"
    and nin: "c \<notin> set (take j (rev s))" by auto
  from nin lt have "c \<notin> set (drop (length s - j) s)" by (simp add: take_rev)
  with lt at j(2) show ?thesis by (simp add: rev_nth Suc_diff_Suc)
qed

lemma strrchr_None: "strrchr s c = None \<longleftrightarrow> c \<notin> set s"
  by (simp add: strrchr_def strchr_None)

section \<open>Decimal digits\<close>

definition digit_val :: "char \<Rightarrow> nat" where
  "digit_val c = (of_char c :: nat) - 48"

definition is_digit :: "char \<Rightarrow> bool" where
  "is_digit c \<longleftrightarrow> 48 \<le> (of_char c :: nat) \<and> (of_char c :: nat) \<le> 57"

text \<open>The value of a string of decimal digits, from a start value on.\<close>

fun dec_val :: "nat \<Rightarrow> string \<Rightarrow> nat" where
  "dec_val v [] = v"
| "dec_val v (c # cs) = dec_val (v * 10 + digit_val c) cs"

lemma dec_val_append: "dec_val v (xs @ ys) = dec_val (dec_val v xs) ys"
  by (induction xs arbitrary: v) simp_all

lemma digit_val_of_char: "is_digit c \<Longrightarrow> (of_char c - 48 :: int) = int (digit_val c)"
proof -
  assume "is_digit c"
  moreover have "(of_char c :: int) = int (of_char c)" by (simp only: of_nat_of_char)
  ultimately show ?thesis unfolding is_digit_def digit_val_def by linarith
qed

lemma digit_val_le: "is_digit c \<Longrightarrow> digit_val c \<le> 9"
  unfolding is_digit_def digit_val_def by linarith

text \<open>What is printed for a number.\<close>

fun dec_str :: "nat \<Rightarrow> string" where
  "dec_str n = (if n < 10 then [char_of (48 + n)] else dec_str (n div 10) @ [char_of (48 + n mod 10)])"

declare dec_str.simps [simp del]

definition int_str :: "int \<Rightarrow> string" where
  "int_str i = (if i < 0 then CHR ''-'' # dec_str (nat (- i)) else dec_str (nat i))"

section \<open>Wrap-around of signed integers\<close>

text \<open>Integers that do not fit their C type wrap around.\<close>

definition int32 :: "int \<Rightarrow> int" where
  "int32 i = sint (word_of_int i :: 32 word)"

lemma int32_id: "- 2147483648 \<le> i \<Longrightarrow> i < 2147483648 \<Longrightarrow> int32 i = i"
  unfolding int32_def by (simp add: signed_of_int signed_take_bit_int_eq_self)

definition vlong :: "int \<Rightarrow> int" where
  "vlong i = sint (word_of_int i :: 64 word)"

lemma vlong_id: "- 9223372036854775808 \<le> i \<Longrightarrow> i < 9223372036854775808 \<Longrightarrow> vlong i = i"
  unfolding vlong_def by (simp add: signed_of_int signed_take_bit_int_eq_self)

section \<open>Runs with fuel that may end the program\<close>

text \<open>
  The result of a recursion on fuel: \<open>None\<close> when the fuel is used up, \<open>Inl\<close> when the program has ended
  (or its behaviour is undefined), \<open>Inr\<close> the value.
\<close>

type_synonym ('e, 'a) res = "('e + 'a) option"

abbreviation ret :: "'a \<Rightarrow> ('e, 'a) res" where "ret x \<equiv> Some (Inr x)"

definition rbind :: "('e, 'a) res \<Rightarrow> ('a \<Rightarrow> ('e, 'b) res) \<Rightarrow> ('e, 'b) res" where
  "rbind m f = (case m of None \<Rightarrow> None | Some (Inl x) \<Rightarrow> Some (Inl x) | Some (Inr v) \<Rightarrow> f v)"

lemma rbind_simps [simp]: "rbind None f = None" "rbind (Some (Inl x)) f = Some (Inl x)" "rbind (ret v) f = f v"
  by (simp_all add: rbind_def)

lemma rbind_eq_ret: "rbind m f = ret y \<longleftrightarrow> (\<exists>x. m = ret x \<and> f x = ret y)"
  by (auto simp: rbind_def split: option.splits sum.splits)

lemma rbind_eq_None: "rbind m f = None \<longleftrightarrow> m = None \<or> (\<exists>x. m = ret x \<and> f x = None)"
  by (auto simp: rbind_def split: option.splits sum.splits)

end
