(* ===== verification/Bigint.thy ===== *)
theory Bigint
  imports Prelude
begin

text \<open>
  The multi-precision integers of src/src/libstdio/dtoa.c (\<open>Balloc\<close> to \<open>d2b\<close>), on which its
  conversions between decimal strings and binary floating point rest. A \<open>Bigint\<close> is its C
  struct; its array \<open>x\<close> has \<open>maxwds = 2 ^ k\<close> words, of which the first \<open>wds\<close> are in use and
  the rest hold whatever the memory held before. The allocator keeps a free list per \<open>k\<close> and
  hands recycled blocks out with their old words. \<open>None\<close> is undefined behaviour (an access
  outside an array). The theorems show that, whatever the allocator returns, each operation
  stays inside its arrays and computes the integer it is meant to.
\<close>

section \<open>The struct and the allocator\<close>

definition Kmax :: nat where "Kmax = 15"

definition PRIVATE_mem :: nat where "PRIVATE_mem = (2000 + 8 - 1) div 8"

text \<open>On the 386 targets \<open>sizeof(Bigint)\<close> is 24: a pointer, four ints and one word.\<close>

definition sizeof_Bigint :: nat where "sizeof_Bigint = 24"

record bigint =
  bk :: nat
  maxwds :: nat
  bsign :: nat
  wds :: nat
  bx :: "u32 list"

text \<open>
  The file's static state: the free lists, how many doubles of \<open>private_mem\<close> are used, the
  chain \<open>p5s\<close> of cached powers of 5 (linked by \<open>next\<close>), and what a block fresh from \<open>malloc\<close>
  holds, which C leaves open.
\<close>

record dtoa_state =
  freelist :: "nat \<Rightarrow> bigint list"
  pmem_next :: nat
  p5s :: "bigint list"
  junk :: "nat \<Rightarrow> u32"

text \<open>The size of a block of \<open>x\<close> words, in doubles.\<close>

definition Balloc_len :: "nat \<Rightarrow> nat" where
  "Balloc_len x = (sizeof_Bigint + (x - 1) * 4 + 8 - 1) div 8"

definition Balloc :: "nat \<Rightarrow> dtoa_state \<Rightarrow> (bigint \<times> dtoa_state) option" where
  "Balloc k s =
     (if Kmax < k then None
      else (case freelist s k of
              rv # rest \<Rightarrow>
                Some (rv\<lparr>bsign := 0, wds := 0\<rparr>, s\<lparr>freelist := (freelist s)(k := rest)\<rparr>)
            | [] \<Rightarrow>
                (let x = 2 ^ k; len = Balloc_len x
                 in if pmem_next s + len \<le> PRIVATE_mem
                    then Some (\<lparr>bk = k, maxwds = x, bsign = 0, wds = 0, bx = replicate x 0\<rparr>,
                               s\<lparr>pmem_next := pmem_next s + len\<rparr>)
                    else Some (\<lparr>bk = k, maxwds = x, bsign = 0, wds = 0, bx = map (junk s) [0..<x]\<rparr>, s))))"

definition Bfree :: "bigint option \<Rightarrow> dtoa_state \<Rightarrow> dtoa_state" where
  "Bfree v s = (case v of None \<Rightarrow> s
                | Some b \<Rightarrow> s\<lparr>freelist := (freelist s)(bk b := b # freelist s (bk b))\<rparr>)"

text \<open>\<open>Bcopy(x,y)\<close>: a \<open>memcpy\<close> of \<open>sign\<close>, \<open>wds\<close> and the \<open>wds\<close> words in use.\<close>

definition Bcopy :: "bigint \<Rightarrow> bigint \<Rightarrow> bigint option" where
  "Bcopy x y =
     (if wds y \<le> length (bx x) \<and> wds y \<le> length (bx y)
      then Some (x\<lparr>bsign := bsign y, wds := wds y, bx := take (wds y) (bx y) @ drop (wds y) (bx x)\<rparr>)
      else None)"

text \<open>Each \<open>Bigint\<close> owns an array of \<open>2 ^ k\<close> words; the values are little endian.\<close>

definition shape :: "bigint \<Rightarrow> bool" where
  "shape b \<longleftrightarrow> bk b \<le> Kmax \<and> maxwds b = 2 ^ bk b \<and> length (bx b) = maxwds b \<and> wds b \<le> maxwds b"

definition wf :: "bigint \<Rightarrow> bool" where
  "wf b \<longleftrightarrow> shape b \<and> 1 \<le> wds b"

definition digits :: "bigint \<Rightarrow> u32 list" where
  "digits b = take (wds b) (bx b)"

fun wval :: "u32 list \<Rightarrow> nat" where
  "wval [] = 0"
| "wval (w # ws) = unat w + 4294967296 * wval ws"

definition bval :: "bigint \<Rightarrow> nat" where
  "bval b = wval (digits b)"

text \<open>No leading zero word: what \<open>cmp\<close> relies on.\<close>

definition normal :: "bigint \<Rightarrow> bool" where
  "normal b \<longleftrightarrow> wds b = 1 \<or> (digits b \<noteq> [] \<and> last (digits b) \<noteq> 0)"

definition alloc_inv :: "dtoa_state \<Rightarrow> bool" where
  "alloc_inv s \<longleftrightarrow> (\<forall>k \<le> Kmax. \<forall>v \<in> set (freelist s k). bk v = k \<and> shape v)"

lemmas shape_defs = shape_def wf_def

section \<open>Values of word lists\<close>

lemma wval_append: "wval (xs @ ys) = wval xs + 4294967296 ^ length xs * wval ys"
  by (induction xs) (simp_all add: algebra_simps)

lemma wval_replicate_zero [simp]: "wval (replicate n 0) = 0"
  by (induction n) simp_all

lemma wval_lt: "wval xs < 4294967296 ^ length xs"
proof (induction xs)
  case Nil
  then show ?case by simp
next
  case (Cons w ws)
  have "unat w < 4294967296" by (rule unat_u32_lt)
  moreover from Cons.IH have "Suc (wval ws) \<le> 4294967296 ^ length ws" by simp
  then have "4294967296 * Suc (wval ws) \<le> 4294967296 * 4294967296 ^ length ws"
    by (rule mult_le_mono2)
  ultimately show ?case by simp
qed

lemma wval_ge_last: "xs \<noteq> [] \<Longrightarrow> last xs \<noteq> 0 \<Longrightarrow> 4294967296 ^ (length xs - 1) \<le> wval xs"
proof (induction xs rule: rev_induct)
  case Nil
  then show ?case by simp
next
  case (snoc w ws)
  from snoc.prems have "unat w \<noteq> 0" by (simp add: unat_eq_zero)
  then have "4294967296 ^ length ws * 1 \<le> 4294967296 ^ length ws * unat w"
    by (intro mult_le_mono2) simp
  then show ?case by (simp add: wval_append trans_le_add2)
qed

lemma wval_butlast_zero: "xs \<noteq> [] \<Longrightarrow> last xs = 0 \<Longrightarrow> wval (butlast xs) = wval xs"
  by (induction xs rule: rev_induct) (simp_all add: wval_append)

lemma length_digits [simp]: "shape b \<Longrightarrow> length (digits b) = wds b"
  by (simp add: digits_def shape_def)

lemma bval_lt: "shape b \<Longrightarrow> bval b < 4294967296 ^ wds b"
  using wval_lt [of "digits b"] by (simp add: bval_def)

lemma wf_shape: "wf b \<Longrightarrow> shape b"
  by (simp add: wf_def)

lemma wf_updI:
  "bk c \<le> Kmax \<Longrightarrow> maxwds c = 2 ^ bk c \<Longrightarrow> length x = maxwds c \<Longrightarrow> 1 \<le> n \<Longrightarrow> n \<le> maxwds c
   \<Longrightarrow> wf (c\<lparr>bx := x, wds := n\<rparr>)"
  by (simp add: wf_def shape_def)

lemma digits_nonempty: "wf b \<Longrightarrow> digits b \<noteq> []"
  by (auto simp: wf_def shape_def digits_def)

section \<open>The allocator hands out blocks of the right size\<close>

lemma alloc_inv_pmem_next [simp]: "alloc_inv (s\<lparr>pmem_next := n\<rparr>) = alloc_inv s"
  by (simp add: alloc_inv_def)

lemma alloc_inv_p5s [simp]: "alloc_inv (s\<lparr>p5s := ps\<rparr>) = alloc_inv s"
  by (simp add: alloc_inv_def)

lemma Balloc_Some:
  assumes "alloc_inv s" "k \<le> Kmax"
  shows "\<exists>b s'. Balloc k s = Some (b, s') \<and> bk b = k \<and> shape b \<and> wds b = 0 \<and> bsign b = 0
                \<and> alloc_inv s' \<and> p5s s' = p5s s"
proof (cases "freelist s k")
  case Nil
  let ?fresh = "\<lambda>x. \<lparr>bk = k, maxwds = 2 ^ k, bsign = 0, wds = 0, bx = x\<rparr>"
  have fresh: "\<exists>x s'. Balloc k s = Some (?fresh x, s') \<and> length x = 2 ^ k \<and> alloc_inv s' \<and> p5s s' = p5s s"
  proof (cases "pmem_next s + Balloc_len (2 ^ k) \<le> PRIVATE_mem")
    case True
    have "Balloc k s = Some (?fresh (replicate (2 ^ k) 0), s\<lparr>pmem_next := pmem_next s + Balloc_len (2 ^ k)\<rparr>)"
      using Nil assms(2) True by (simp add: Balloc_def Let_def)
    with assms(1) show ?thesis by fastforce
  next
    case False
    have "Balloc k s = Some (?fresh (map (junk s) [0..<2 ^ k]), s)"
      using Nil assms(2) False by (simp add: Balloc_def Let_def)
    with assms(1) show ?thesis by fastforce
  qed
  then obtain x s' where "Balloc k s = Some (?fresh x, s')" "length x = 2 ^ k" "alloc_inv s'"
      "p5s s' = p5s s" by blast
  moreover have "shape (?fresh x)" if "length x = 2 ^ k" for x :: "u32 list"
    using that assms(2) by (simp add: shape_def)
  ultimately show ?thesis by (intro exI [of _ "?fresh x"] exI [of _ s']) simp
next
  case (Cons rv rest)
  let ?b = "rv\<lparr>bsign := 0, wds := 0\<rparr>" and ?s = "s\<lparr>freelist := (freelist s)(k := rest)\<rparr>"
  have "rv \<in> set (freelist s k)" using Cons by simp
  with assms have "bk rv = k" "shape rv" unfolding alloc_inv_def by blast+
  then have "bk ?b = k" "shape ?b" by (simp_all add: shape_def)
  moreover have "Balloc k s = Some (?b, ?s)"
    using Cons assms(2) by (simp add: Balloc_def)
  moreover have "alloc_inv ?s"
    using assms(1) Cons by (fastforce simp: alloc_inv_def)
  ultimately show ?thesis by (intro exI [of _ ?b] exI [of _ ?s]) simp
qed

lemma alloc_inv_Bfree [simp]: "alloc_inv s \<Longrightarrow> shape b \<Longrightarrow> alloc_inv (Bfree (Some b) s)"
  by (auto simp: alloc_inv_def Bfree_def)

lemma p5s_Bfree [simp]: "p5s (Bfree v s) = p5s s"
  by (cases v) (simp_all add: Bfree_def)

section \<open>multadd: multiply by a small number and add\<close>

text \<open>
  The \<open>do\<close> loop of \<open>multadd\<close> over the words: the new words and the final carry. Like the loop
  it is unsigned arithmetic modulo \<open>2 ^ 32\<close>.
\<close>

fun multadd_loop :: "u32 \<Rightarrow> u32 \<Rightarrow> u32 list \<Rightarrow> u32 list \<times> u32" where
  "multadd_loop m carry [] = ([], carry)"
| "multadd_loop m carry (xi # xs) =
     (let y = (xi AND 0xFFFF) * m + carry;
          z = drop_bit 16 xi * m + drop_bit 16 y;
          (ws, c) = multadd_loop m (drop_bit 16 z) xs
      in ((push_bit 16 z + (y AND 0xFFFF)) # ws, c))"

definition multadd :: "bigint \<Rightarrow> int \<Rightarrow> int \<Rightarrow> dtoa_state \<Rightarrow> (bigint \<times> dtoa_state) option" where
  "multadd b m a s =
     (let n = max 1 (wds b); \<comment> \<open>a \<open>do\<close> loop: one word at least\<close>
          (ws, carry) = multadd_loop (word_of_int m) (word_of_int a) (take n (bx b));
          b0 = b\<lparr>bx := ws @ drop n (bx b)\<rparr>
      in if carry \<noteq> 0
         then do {
           (b1, s1) \<leftarrow> (if maxwds b \<le> wds b
                        then do {
                          (b1, s1) \<leftarrow> Balloc (bk b + 1) s;
                          b1 \<leftarrow> Bcopy b1 b0;
                          Some (b1, Bfree (Some b0) s1)
                        }
                        else Some (b0, s));
           x \<leftarrow> store (bx b1) (wds b) carry;
           Some (b1\<lparr>bx := x, wds := wds b + 1\<rparr>, s1)
         }
         else Some (b0, s))"

lemma multadd_loop_step:
  fixes xi m carry :: u32
  assumes "unat m < 65536" "unat carry < 65536"
  defines "y \<equiv> (xi AND 0xFFFF) * m + carry"
  defines "z \<equiv> drop_bit 16 xi * m + drop_bit 16 y"
  shows "unat (push_bit 16 z + (y AND 0xFFFF)) + 4294967296 * unat (drop_bit 16 z)
           = unat xi * unat m + unat carry"
    and "unat (drop_bit 16 z) < 65536"
proof -
  have lo: "unat (xi AND 0xFFFF) < 65536" and hi: "unat (drop_bit 16 xi) < 65536"
    by (rule unat_lo16_lt, rule unat_hi16_lt)
  have y: "unat y = unat (xi AND 0xFFFF) * unat m + unat carry"
    unfolding y_def using half_mult_bound [OF lo assms(1) assms(2), of 0]
    by (simp add: unat_add_no_wrap unat_mult_no_wrap)
  have yhi: "unat (drop_bit 16 y) < 65536" by (rule unat_hi16_lt)
  have z: "unat z = unat (drop_bit 16 xi) * unat m + unat (drop_bit 16 y)"
    unfolding z_def using half_mult_bound [OF hi assms(1) yhi, of 0]
    by (simp add: unat_add_no_wrap unat_mult_no_wrap)
  have w: "unat (push_bit 16 z + (y AND 0xFFFF)) = (unat z mod 65536) * 65536 + unat y mod 65536"
  proof -
    have "unat z mod 65536 \<le> 65535" "unat y mod 65536 \<le> 65535"
      by (simp_all add: less_Suc_eq_le [symmetric])
    then show ?thesis
      by (subst unat_add_no_wrap) (simp_all add: unat_push16 unat_lo16)
  qed
  have "unat xi * unat m + unat carry = unat z * 65536 + unat y mod 65536"
  proof -
    have "unat xi = unat (drop_bit 16 xi) * 65536 + unat (xi AND 0xFFFF)"
      by (simp add: unat_hi16 unat_lo16)
    then have "unat xi * unat m + unat carry
        = unat (drop_bit 16 xi) * unat m * 65536 + unat y"
      by (simp add: y algebra_simps)
    also have "\<dots> = unat z * 65536 + unat y mod 65536"
      using div_mult_mod_eq [of "unat y" 65536] by (simp add: z unat_hi16 algebra_simps)
    finally show ?thesis .
  qed
  moreover have "unat z = unat (drop_bit 16 z) * 65536 + unat z mod 65536"
    by (simp add: unat_hi16)
  ultimately show "unat (push_bit 16 z + (y AND 0xFFFF)) + 4294967296 * unat (drop_bit 16 z)
           = unat xi * unat m + unat carry"
    using w by simp
  show "unat (drop_bit 16 z) < 65536" by (rule unat_hi16_lt)
qed

lemma multadd_loop_correct:
  assumes "multadd_loop m carry xs = (ws, c)" "unat m < 65536" "unat carry < 65536"
  shows "length ws = length xs \<and> unat c < 65536
         \<and> wval ws + 4294967296 ^ length xs * unat c = unat m * wval xs + unat carry"
  using assms
proof (induction xs arbitrary: carry ws c)
  case Nil
  then show ?case by simp
next
  case (Cons xi xs)
  let ?y = "(xi AND 0xFFFF) * m + carry"
  let ?z = "drop_bit 16 xi * m + drop_bit 16 ?y"
  note step = multadd_loop_step [OF Cons.prems(2,3), of xi]
  obtain ws' where ws': "multadd_loop m (drop_bit 16 ?z) xs = (ws', c)"
      and ws: "ws = (push_bit 16 ?z + (?y AND 0xFFFF)) # ws'"
    using Cons.prems(1) by (auto simp: Let_def split: prod.splits)
  have IH: "length ws' = length xs \<and> unat c < 65536
         \<and> wval ws' + 4294967296 ^ length xs * unat c = unat m * wval xs + unat (drop_bit 16 ?z)"
    by (rule Cons.IH [OF ws' Cons.prems(2) step(2)])
  have "wval ws + 4294967296 ^ length (xi # xs) * unat c
      = unat (push_bit 16 ?z + (?y AND 0xFFFF))
        + 4294967296 * (wval ws' + 4294967296 ^ length xs * unat c)"
    by (simp add: ws algebra_simps)
  also have "\<dots> = unat xi * unat m + unat carry + 4294967296 * (unat m * wval xs)"
    using IH step(1) by (simp add: algebra_simps)
  finally show ?case using IH by (simp add: ws algebra_simps)
qed

lemma normal_iff:
  assumes "wf b"
  shows "normal b \<longleftrightarrow> wds b = 1 \<or> 4294967296 ^ (wds b - 1) \<le> bval b"
proof -
  let ?d = "digits b"
  have len: "length ?d = wds b" and ne: "?d \<noteq> []"
    using assms by (simp_all add: wf_shape digits_nonempty)
  have "last ?d = 0 \<Longrightarrow> bval b < 4294967296 ^ (wds b - 1)"
    using wval_lt [of "butlast ?d"] wval_butlast_zero [OF ne] by (simp add: bval_def len)
  moreover have "last ?d \<noteq> 0 \<Longrightarrow> 4294967296 ^ (wds b - 1) \<le> bval b"
    using wval_ge_last [OF ne] by (simp add: bval_def len)
  ultimately show ?thesis using ne by (fastforce simp: normal_def)
qed

text \<open>
  What the operations promise of a result: a well-formed number of the given value, with the
  allocator's invariant kept and the cache of powers of 5 untouched.
\<close>

definition result_ok :: "(bigint \<times> dtoa_state) option \<Rightarrow> nat \<Rightarrow> dtoa_state \<Rightarrow> bool" where
  "result_ok r v s \<longleftrightarrow>
     (case r of None \<Rightarrow> False
      | Some (b, s') \<Rightarrow> wf b \<and> normal b \<and> bval b = v \<and> alloc_inv s' \<and> p5s s' = p5s s)"

lemma result_okI:
  "r = Some (b, s') \<Longrightarrow> wf b \<Longrightarrow> normal b \<Longrightarrow> bval b = v \<Longrightarrow> alloc_inv s' \<Longrightarrow> p5s s' = p5s s
   \<Longrightarrow> result_ok r v s"
  by (simp add: result_ok_def)

lemma result_okE:
  assumes "result_ok r v s"
  obtains b s' where "r = Some (b, s')" "wf b" "normal b" "bval b = v" "alloc_inv s'" "p5s s' = p5s s"
  using assms by (auto simp: result_ok_def split: option.splits)

lemma take_max1_wds: "wf b \<Longrightarrow> take (max 1 (wds b)) (bx b) = digits b"
  by (simp add: wf_def digits_def)

lemma Bcopy_Some:
  assumes "shape x" "wds y \<le> length (bx y)" "wds y \<le> maxwds x"
  shows "\<exists>x'. Bcopy x y = Some x' \<and> shape x' \<and> bk x' = bk x \<and> maxwds x' = maxwds x \<and> wds x' = wds y
              \<and> take (wds y) (bx x') = take (wds y) (bx y) \<and> bsign x' = bsign y"
  using assms by (auto simp: Bcopy_def shape_def)

text \<open>
  \<open>multadd\<close> in full: where no carry is left, or the array has a free word, the result is in the
  same block; otherwise in a block of the next size.
\<close>

lemma multadd_Some:
  assumes "wf b" "alloc_inv s" "0 \<le> m" "m < 65536" "0 \<le> a" "a < 65536"
    and "wds b = maxwds b \<longrightarrow> bk b < Kmax"
  obtains b' s' where "multadd b m a s = Some (b', s')" "wf b'" "alloc_inv s'" "p5s s' = p5s s"
    "bval b' = bval b * nat m + nat a" "bk b \<le> bk b'"
    "bk b' \<le> (if wds b = maxwds b then bk b + 1 else bk b)" "wds b \<le> wds b'" "wds b' \<le> wds b + 1"
    "wds b' = wds b + 1 \<longrightarrow> normal b'" "wds b' = wds b \<longrightarrow> bk b' = bk b"
proof -
  define M A :: u32 where "M = word_of_int m" and "A = word_of_int a"
  have M: "unat M = nat m" "unat M < 65536" and A: "unat A = nat a" "unat A < 65536"
    using assms(3-6) by (simp_all add: M_def A_def unsigned_of_int take_bit_int_eq_self nat_less_iff
        flip: nat_take_bit_eq)
  obtain ws c where loop: "multadd_loop M A (digits b) = (ws, c)" by fastforce
  have sh: "shape b" and lend: "length (digits b) = wds b" and w1: "1 \<le> wds b"
    and wmax: "wds b \<le> maxwds b" and lx: "length (bx b) = maxwds b"
    using assms(1) by (auto simp: wf_def shape_def digits_def)
  from multadd_loop_correct [OF loop M(2) A(2)] lend
  have lws: "length ws = wds b" and val: "wval ws + 4294967296 ^ wds b * unat c = nat m * bval b + nat a"
    by (simp_all add: M(1) A(1) bval_def)
  let ?b0 = "b\<lparr>bx := ws @ drop (wds b) (bx b)\<rparr>"
  have sh0: "shape ?b0" using sh lws by (simp add: shape_def)
  have mx: "max 1 (wds b) = wds b" using w1 by simp
  show thesis
  proof (cases "c = 0")
    case True
    have "multadd b m a s = Some (?b0, s)"
      using loop True mx by (simp add: multadd_def Let_def digits_def M_def A_def)
    moreover have "bval ?b0 = bval b * nat m + nat a"
      using val True lws by (simp add: bval_def digits_def algebra_simps)
    ultimately show thesis
      using sh0 w1 assms(2) by (intro that [of ?b0 s]) (simp_all add: wf_def)
  next
    case False
    have "\<exists>b1 s1. (if maxwds b \<le> wds b
            then Balloc (bk b + 1) s \<bind> (\<lambda>(b1, s1). Bcopy b1 ?b0 \<bind> (\<lambda>b1. Some (b1, Bfree (Some ?b0) s1)))
            else Some (?b0, s)) = Some (b1, s1) \<and> shape b1 \<and> wds b < maxwds b1 \<and> alloc_inv s1
         \<and> p5s s1 = p5s s \<and> take (wds b) (bx b1) = ws \<and> bk b \<le> bk b1
         \<and> bk b1 \<le> (if wds b = maxwds b then bk b + 1 else bk b)"
    proof (cases "maxwds b \<le> wds b")
      case True
      with wmax assms(7) have full: "wds b = maxwds b" and k: "bk b + 1 \<le> Kmax" by auto
      from Balloc_Some [OF assms(2) k] obtain b1 s1 where al: "Balloc (bk b + 1) s = Some (b1, s1)"
          "bk b1 = bk b + 1" "shape b1" "alloc_inv s1" "p5s s1 = p5s s" by blast
      have mb1: "maxwds b1 = 2 * maxwds b" using al sh by (simp add: shape_def)
      obtain b2 where b2: "Bcopy b1 ?b0 = Some b2" "shape b2" "bk b2 = bk b1" "maxwds b2 = maxwds b1"
          "take (wds b) (bx b2) = take (wds b) (bx ?b0)"
        using Bcopy_Some [OF al(3), of ?b0] lws lx wmax mb1 by auto
      have "alloc_inv (Bfree (Some ?b0) s1)" using al(4) sh0 by simp
      with True full al b2 mb1 lws w1 show ?thesis
        by (intro exI [of _ b2] exI [of _ "Bfree (Some ?b0) s1"]) simp
    next
      case False
      with sh0 assms(2) lws show ?thesis by simp
    qed
    then obtain b1 s1 where gr: "(if maxwds b \<le> wds b
            then Balloc (bk b + 1) s \<bind> (\<lambda>(b1, s1). Bcopy b1 ?b0 \<bind> (\<lambda>b1. Some (b1, Bfree (Some ?b0) s1)))
            else Some (?b0, s)) = Some (b1, s1)" and b1: "shape b1" "wds b < maxwds b1" "alloc_inv s1"
         "p5s s1 = p5s s" "take (wds b) (bx b1) = ws" "bk b \<le> bk b1"
         "bk b1 \<le> (if wds b = maxwds b then bk b + 1 else bk b)" by blast
    let ?r = "b1\<lparr>bx := (bx b1)[wds b := c], wds := wds b + 1\<rparr>"
    have lb1: "wds b < length (bx b1)" using b1 by (simp add: shape_def)
    have "multadd b m a s = Some (?r, s1)"
      using loop False mx gr lb1
      by (simp add: multadd_def Let_def digits_def M_def A_def store_Some)
    moreover have dr: "digits ?r = ws @ [c]"
      using lb1 b1(5) lws by (simp add: digits_def take_Suc_conv_app_nth)
    then have "bval ?r = bval b * nat m + nat a"
      using val lws by (simp add: bval_def wval_append algebra_simps)
    moreover have "normal ?r" using dr False by (simp add: normal_def)
    moreover have "wf ?r" using b1 by (simp add: wf_def shape_def)
    ultimately show thesis
      using b1 by (intro that [of ?r s1]) (simp_all split: if_splits)
  qed
qed

section \<open>mult: schoolbook multiplication by 16-bit digits\<close>

text \<open>
  The inner loop for the low half \<open>y\<close> of a digit of \<open>b\<close>: \<open>x\<close> runs over the words of \<open>a\<close>, \<open>xc\<close>
  over the words of \<open>c\<close>, which are read and replaced; at the end \<open>*xc = carry\<close>.
\<close>

fun mul_lo :: "u32 \<Rightarrow> u32 \<Rightarrow> u32 list \<Rightarrow> u32 list \<Rightarrow> u32 list option" where
  "mul_lo y carry [] (c # cs) = Some (carry # cs)"
| "mul_lo y carry (x # xs) (c # cs) =
     (let z = (x AND 0xFFFF) * y + (c AND 0xFFFF) + carry;
          carry1 = drop_bit 16 z;
          z2 = drop_bit 16 x * y + drop_bit 16 c + carry1;
          carry2 = drop_bit 16 z2
      in map_option ((#) (join16 z2 z)) (mul_lo y carry2 xs cs))"
| "mul_lo y carry xs [] = None"

text \<open>
  The inner loop for the high half: \<open>z2\<close> is carried from one iteration to the next, because the
  product is shifted by 16 bits against the words of \<open>c\<close>; at the end \<open>*xc = z2\<close>.
\<close>

fun mul_hi :: "u32 \<Rightarrow> u32 \<Rightarrow> u32 \<Rightarrow> u32 list \<Rightarrow> u32 list \<Rightarrow> u32 list option" where
  "mul_hi y carry z2 [] (c # cs) = Some (z2 # cs)"
| "mul_hi y carry z2 (x # xs) (c # d # cs) =
     (let z = (x AND 0xFFFF) * y + drop_bit 16 c + carry;
          carry1 = drop_bit 16 z;
          z2' = drop_bit 16 x * y + (d AND 0xFFFF) + carry1;
          carry2 = drop_bit 16 z2'
      in map_option ((#) (join16 z z2)) (mul_hi y carry2 z2' xs (d # cs)))"
| "mul_hi y carry z2 xs cs = None"

text \<open>
  The outer loop over the words of \<open>b\<close>; \<open>cs\<close> are the words of \<open>c\<close> from \<open>xc0\<close> on. Its body is
  \<open>mult_digit\<close>.
\<close>

definition mult_digit :: "u32 \<Rightarrow> u32 list \<Rightarrow> u32 list \<Rightarrow> u32 list option" where
  "mult_digit b xa cs = do {
     cs1 \<leftarrow> (let y = b AND 0xFFFF in if y \<noteq> 0 then mul_lo y 0 xa cs else Some cs);
     (let y = drop_bit 16 b in if y \<noteq> 0 then do { c \<leftarrow> load cs1 0; mul_hi y 0 c xa cs1 } else Some cs1)
   }"

fun mult_loop :: "u32 list \<Rightarrow> u32 list \<Rightarrow> u32 list \<Rightarrow> u32 list option" where
  "mult_loop xa [] cs = Some cs"
| "mult_loop xa (b # xb) cs = do {
     cs2 \<leftarrow> mult_digit b xa cs;
     (case cs2 of [] \<Rightarrow> None | c # cs3 \<Rightarrow> map_option ((#) c) (mult_loop xa xb cs3))
   }"

text \<open>The last loop drops leading zero words.\<close>

fun trim_wc :: "u32 list \<Rightarrow> nat \<Rightarrow> nat" where
  "trim_wc x 0 = 0"
| "trim_wc x (Suc n) = (if x ! n = 0 then trim_wc x n else Suc n)"

definition mult :: "bigint \<Rightarrow> bigint \<Rightarrow> dtoa_state \<Rightarrow> (bigint \<times> dtoa_state) option" where
  "mult a0 b0 s =
     (let (a, b) = (if wds a0 < wds b0 then (b0, a0) else (a0, b0));
          wc = wds a + wds b;
          k = (if maxwds a < wc then bk a + 1 else bk a)
      in do {
        (c, s) \<leftarrow> Balloc k s;
        cs \<leftarrow> (if wc \<le> length (bx c) then mult_loop (digits a) (digits b) (replicate wc 0) else None);
        Some (c\<lparr>bx := cs @ drop wc (bx c), wds := trim_wc cs wc\<rparr>, s)
      })"

lemma mul_lo_step:
  fixes x y c carry :: u32
  assumes "unat y < 65536" "unat carry < 65536"
  defines "z \<equiv> (x AND 0xFFFF) * y + (c AND 0xFFFF) + carry"
  defines "z2 \<equiv> drop_bit 16 x * y + drop_bit 16 c + drop_bit 16 z"
  shows "unat (join16 z2 z) + 4294967296 * unat (drop_bit 16 z2) = unat x * unat y + unat c + unat carry"
proof -
  note lo = unat_lo16_lt [of x] and lc = unat_lo16_lt [of c]
  note hi = unat_hi16_lt [of x] and hc = unat_hi16_lt [of c] and hz = unat_hi16_lt [of z]
  have z: "unat z = unat (x AND 0xFFFF) * unat y + unat (c AND 0xFFFF) + unat carry"
    unfolding z_def using half_mult_bound [OF lo assms(1) lc assms(2)]
    by (simp add: unat_add_no_wrap unat_mult_no_wrap)
  have z2: "unat z2 = unat (drop_bit 16 x) * unat y + unat (drop_bit 16 c) + unat (drop_bit 16 z)"
    unfolding z2_def using half_mult_bound [OF hi assms(1) hc hz]
    by (simp add: unat_add_no_wrap unat_mult_no_wrap)
  define xh xl ch cl where "xh = unat x div 65536" and "xl = unat x mod 65536"
    and "ch = unat c div 65536" and "cl = unat c mod 65536"
  have x: "unat x = xh * 65536 + xl" and c: "unat c = ch * 65536 + cl"
    by (simp_all add: xh_def xl_def ch_def cl_def)
  have z': "unat z = xl * unat y + cl + unat carry"
    by (simp only: z unat_lo16 xl_def cl_def)
  have "unat x * unat y + unat c + unat carry = (xh * unat y + ch) * 65536 + unat z"
    unfolding z' x c
    by (simp only: distrib_left distrib_right mult.assoc mult.commute mult.left_commute add.assoc add.commute add.left_commute)
  also have "\<dots> = (xh * unat y + ch + unat z div 65536) * 65536 + unat z mod 65536"
    by (simp add: add_mult_distrib)
  also have "\<dots> = unat z2 * 65536 + unat z mod 65536"
    by (simp only: z2 unat_hi16 xh_def ch_def)
  finally have "unat x * unat y + unat c + unat carry = unat z2 * 65536 + unat z mod 65536" .
  moreover have "unat z2 * 65536 = unat z2 mod 65536 * 65536 + 4294967296 * (unat z2 div 65536)"
    by (rule nat_shift_halves)
  ultimately show ?thesis by (simp add: unat_join16 unat_hi16)
qed

lemma mul_lo_correct:
  assumes "unat y < 65536" "unat carry < 65536" "length cs = length xs"
  shows "\<exists>r. mul_lo y carry xs (cs @ 0 # rest) = Some (r @ rest) \<and> length r = length xs + 1
           \<and> wval r = wval cs + unat y * wval xs + unat carry \<and> unat (last r) < 65536"
  using assms
proof (induction xs arbitrary: cs carry)
  case Nil
  then show ?case by (intro exI [of _ "[carry]"]) simp
next
  case (Cons x xs)
  obtain c cs' where cs: "cs = c # cs'" using Cons.prems(3) by (cases cs) auto
  let ?z = "(x AND 0xFFFF) * y + (c AND 0xFFFF) + carry"
  let ?z2 = "drop_bit 16 x * y + drop_bit 16 c + drop_bit 16 ?z"
  have "length cs' = length xs" using Cons.prems(3) cs by simp
  from Cons.IH [OF Cons.prems(1) unat_hi16_lt [of ?z2] this]
  obtain r where r: "mul_lo y (drop_bit 16 ?z2) xs (cs' @ 0 # rest) = Some (r @ rest)"
      "length r = length xs + 1" "wval r = wval cs' + unat y * wval xs + unat (drop_bit 16 ?z2)"
      "unat (last r) < 65536" by blast
  have "wval (join16 ?z2 ?z # r)
      = unat (join16 ?z2 ?z) + 4294967296 * unat (drop_bit 16 ?z2)
        + 4294967296 * (wval cs' + unat y * wval xs)"
    using r(3) by (simp add: algebra_simps)
  also have "\<dots> = wval cs + unat y * wval (x # xs) + unat carry"
    unfolding mul_lo_step [OF Cons.prems(1,2), of x c] by (simp add: cs algebra_simps)
  finally have val: "wval (join16 ?z2 ?z # r) = wval cs + unat y * wval (x # xs) + unat carry" .
  have "r \<noteq> []" using r(2) by auto
  then show ?case
    using r val by (intro exI [of _ "join16 ?z2 ?z # r"]) (simp add: cs Let_def)
qed

lemma mul_hi_step:
  fixes x y c d z2 carry :: u32
  assumes "unat y < 65536" "unat carry < 65536"
  defines "z \<equiv> (x AND 0xFFFF) * y + drop_bit 16 c + carry"
  defines "z2' \<equiv> drop_bit 16 x * y + (d AND 0xFFFF) + drop_bit 16 z"
  shows "unat (join16 z z2) + 4294967296 * (unat z2' mod 65536 + 65536 * unat (drop_bit 16 z2')
           + 65536 * (unat d div 65536))
         = unat z2 mod 65536 + 65536 * unat carry + 65536 * (unat c div 65536)
           + 65536 * unat y * unat x + 4294967296 * unat d"
proof -
  note lo = unat_lo16_lt [of x] and hc = unat_hi16_lt [of c]
  note hi = unat_hi16_lt [of x] and ld = unat_lo16_lt [of d] and hz = unat_hi16_lt [of z]
  have z: "unat z = unat (x AND 0xFFFF) * unat y + unat (drop_bit 16 c) + unat carry"
    unfolding z_def using half_mult_bound [OF lo assms(1) hc assms(2)]
    by (simp add: unat_add_no_wrap unat_mult_no_wrap)
  have z2: "unat z2' = unat (drop_bit 16 x) * unat y + unat (d AND 0xFFFF) + unat (drop_bit 16 z)"
    unfolding z2'_def using half_mult_bound [OF hi assms(1) ld hz]
    by (simp add: unat_add_no_wrap unat_mult_no_wrap)
  define xh xl where "xh = unat x div 65536" and "xl = unat x mod 65536"
  have x: "unat x = xh * 65536 + xl" by (simp add: xh_def xl_def)
  have z': "unat z = xl * unat y + unat c div 65536 + unat carry"
    by (simp only: z unat_lo16 unat_hi16 xl_def)
  have zz: "unat z mod 65536 + 65536 * (unat z div 65536) = unat z"
    and dd: "unat d mod 65536 + 65536 * (unat d div 65536) = unat d"
    by simp_all
  have "unat (join16 z z2) + 4294967296 * (unat z2' + 65536 * (unat d div 65536))
      = unat z2 mod 65536 + 65536 * (unat z mod 65536 + 65536 * (unat z div 65536))
        + 4294967296 * (xh * unat y + (unat d mod 65536 + 65536 * (unat d div 65536)))"
    unfolding unat_join16 z2 unat_hi16 unat_lo16 xh_def [symmetric] by (simp only: distrib_left)
  also have "\<dots> = unat z2 mod 65536 + 65536 * unat z + 4294967296 * (xh * unat y + unat d)"
    by (simp only: zz dd)
  also have "\<dots> = unat z2 mod 65536 + 65536 * unat carry + 65536 * (unat c div 65536)
           + 65536 * unat y * unat x + 4294967296 * unat d"
    unfolding z' x
    by (simp only: distrib_left distrib_right mult.assoc mult.commute mult.left_commute add.assoc add.commute add.left_commute)
  finally show ?thesis by (simp add: unat_hi16)
qed

lemma mul_hi_correct:
  assumes "unat y < 65536" "unat carry < 65536" "length cs = length xs"
    and "xs = [] \<Longrightarrow> unat carry = unat z2 div 65536 \<and> unat c < 65536"
    and "cs \<noteq> [] \<Longrightarrow> unat (last cs) < 65536"
  shows "\<exists>r. mul_hi y carry z2 xs (c # cs @ rest) = Some (r @ rest) \<and> length r = length xs + 1
           \<and> wval r = unat z2 mod 65536 + 65536 * unat carry + 65536 * (unat c div 65536)
                + 4294967296 * wval cs + 65536 * unat y * wval xs"
  using assms
proof (induction xs arbitrary: c cs carry z2)
  case Nil
  then have "unat z2 mod 65536 + 65536 * unat carry = unat z2" "unat c div 65536 = 0" by simp_all
  with Nil show ?case by (intro exI [of _ "[z2]"]) simp
next
  case (Cons x xs)
  obtain d cs' where cs: "cs = d # cs'" using Cons.prems(3) by (cases cs) auto
  let ?z = "(x AND 0xFFFF) * y + drop_bit 16 c + carry"
  let ?z2 = "drop_bit 16 x * y + (d AND 0xFFFF) + drop_bit 16 ?z"
  have 1: "length cs' = length xs" using Cons.prems(3) cs by simp
  have 2: "unat (drop_bit 16 ?z2) = unat ?z2 div 65536 \<and> unat d < 65536" if "xs = []"
    using that 1 Cons.prems(5) cs by (simp add: unat_hi16)
  have 3: "unat (last cs') < 65536" if "cs' \<noteq> []" using that Cons.prems(5) cs by simp
  from Cons.IH [OF Cons.prems(1) unat_hi16_lt [of ?z2] 1 2 3]
  obtain r where r: "mul_hi y (drop_bit 16 ?z2) ?z2 xs (d # cs' @ rest) = Some (r @ rest)"
      "length r = length xs + 1"
      "wval r = unat ?z2 mod 65536 + 65536 * unat (drop_bit 16 ?z2) + 65536 * (unat d div 65536)
                + 4294967296 * wval cs' + 65536 * unat y * wval xs" by blast
  define J P where "J = unat (join16 ?z z2)"
    and "P = unat ?z2 mod 65536 + 65536 * unat (drop_bit 16 ?z2) + 65536 * (unat d div 65536)"
  have step: "J + 4294967296 * P = unat z2 mod 65536 + 65536 * unat carry + 65536 * (unat c div 65536)
           + 65536 * unat y * unat x + 4294967296 * unat d"
    unfolding J_def P_def by (rule mul_hi_step [OF Cons.prems(1,2)])
  have "wval (join16 ?z z2 # r)
      = J + 4294967296 * P + 4294967296 * (4294967296 * wval cs' + 65536 * unat y * wval xs)"
    unfolding wval.simps r(3) J_def P_def by (simp only: distrib_left add.assoc)
  also have "\<dots> = unat z2 mod 65536 + 65536 * unat carry + 65536 * (unat c div 65536)
                + 4294967296 * wval cs + 65536 * unat y * wval (x # xs)"
    unfolding step by (simp add: cs algebra_simps)
  finally show ?case
    using r by (intro exI [of _ "join16 ?z z2 # r"]) (simp add: cs Let_def)
qed

text \<open>
  One digit \<open>b\<close>: both inner loops together add \<open>b\<close> times \<open>a\<close> to the words from \<open>xc0\<close> on and use
  one word more.
\<close>

lemma mult_digit_correct:
  assumes "length lo = length xa" "xa \<noteq> []"
  shows "\<exists>r. mult_digit b xa (lo @ 0 # rest) = Some (r @ rest) \<and> length r = length xa + 1 \<and> wval r = wval lo + unat b * wval xa"
proof -
  let ?yl = "b AND 0xFFFF" and ?yh = "drop_bit 16 b"
  have "\<exists>r1. (if ?yl \<noteq> 0 then mul_lo ?yl 0 xa (lo @ 0 # rest) else Some (lo @ 0 # rest)) = Some (r1 @ rest)
      \<and> length r1 = length xa + 1 \<and> wval r1 = wval lo + unat ?yl * wval xa \<and> unat (last r1) < 65536"
  proof (cases "?yl = 0")
    case True
    with assms(1) show ?thesis
      by (intro exI [of _ "lo @ [0]"]) (simp add: wval_append)
  next
    case False
    with mul_lo_correct [OF unat_lo16_lt [of b], of 0 lo xa rest] assms(1) show ?thesis by simp
  qed
  then obtain r1 where r1: "(if ?yl \<noteq> 0 then mul_lo ?yl 0 xa (lo @ 0 # rest) else Some (lo @ 0 # rest)) = Some (r1 @ rest)"
      "length r1 = length xa + 1" "wval r1 = wval lo + unat ?yl * wval xa" "unat (last r1) < 65536" by blast
  have b: "unat b = unat ?yl + 65536 * unat ?yh" by (simp add: unat_lo16 unat_hi16)
  show ?thesis
  proof (cases "?yh = 0")
    case True
    then have "unat b = unat ?yl" using b by simp
    with True r1 show ?thesis by (intro exI [of _ r1]) (simp add: mult_digit_def)
  next
    case False
    obtain c cs where cs: "r1 = c # cs" "length cs = length xa"
      using r1(2) by (cases r1) auto
    with assms(2) have "cs \<noteq> []" by auto
    have "\<exists>r. mul_hi ?yh 0 c xa (c # cs @ rest) = Some (r @ rest) \<and> length r = length xa + 1
           \<and> wval r = unat c mod 65536 + 65536 * unat (0 :: u32) + 65536 * (unat c div 65536)
                + 4294967296 * wval cs + 65536 * unat ?yh * wval xa"
      by (rule mul_hi_correct) (use cs \<open>cs \<noteq> []\<close> r1 assms unat_hi16_lt [of b] in auto)
    then obtain r where r: "mul_hi ?yh 0 c xa (c # cs @ rest) = Some (r @ rest)" "length r = length xa + 1"
        "wval r = unat c mod 65536 + 65536 * (unat c div 65536) + 4294967296 * wval cs
           + 65536 * unat ?yh * wval xa" by auto
    have "wval r = wval r1 + 65536 * unat ?yh * wval xa"
      unfolding r(3) cs(1) by simp
    also have "\<dots> = wval lo + unat b * wval xa"
      unfolding r1(3) b by (simp add: algebra_simps)
    finally show ?thesis
      using False r1(1) r(1,2) cs(1) by (intro exI [of _ r]) (simp add: mult_digit_def load_def)
  qed
qed

lemma mult_loop_correct:
  assumes "length lo = length xa" "xa \<noteq> []"
  shows "\<exists>r. mult_loop xa xb (lo @ replicate (length xb) 0) = Some r
           \<and> length r = length xa + length xb \<and> wval r = wval lo + wval xa * wval xb"
  using assms(1)
proof (induction xb arbitrary: lo)
  case Nil
  then show ?case by simp
next
  case (Cons b xb)
  let ?rest = "replicate (length xb) 0"
  from mult_digit_correct [OF Cons.prems assms(2), of b ?rest]
  obtain r where r: "mult_digit b xa (lo @ 0 # ?rest) = Some (r @ ?rest)" "length r = length xa + 1" "wval r = wval lo + unat b * wval xa" by blast
  obtain c lo' where lo': "r = c # lo'" "length lo' = length xa"
    using r(2) by (cases r) auto
  from Cons.IH [OF lo'(2)] obtain r' where r': "mult_loop xa xb (lo' @ ?rest) = Some r'"
      "length r' = length xa + length xb" "wval r' = wval lo' + wval xa * wval xb" by blast
  have "mult_loop xa (b # xb) (lo @ replicate (length (b # xb)) 0) = Some (c # r')"
    using r(1) lo'(1) r'(1) by simp
  moreover have "wval (c # r') = wval lo + wval xa * wval (b # xb)"
    using r(3) lo'(1) r'(3) by (simp add: algebra_simps)
  ultimately show ?case using r'(2) by simp
qed

lemma trim_wc_le: "trim_wc x n \<le> n"
  by (induction x n rule: trim_wc.induct) auto

lemma trim_wc_wval: "n \<le> length x \<Longrightarrow> wval (take (trim_wc x n) x) = wval (take n x)"
  by (induction x n rule: trim_wc.induct) (simp_all add: take_Suc_conv_app_nth wval_append)

lemma trim_wc_last: "trim_wc x n \<noteq> 0 \<Longrightarrow> x ! (trim_wc x n - 1) \<noteq> 0"
  by (induction x n rule: trim_wc.induct) (auto split: if_splits)

lemma trim_wc_zero: "trim_wc x n = 0 \<Longrightarrow> n \<le> length x \<Longrightarrow> wval (take n x) = 0"
  using trim_wc_wval [of n x] by simp

text \<open>
  \<open>mult\<close> computes the product into a block of the larger operand's size or the next one, and
  frees none of its operands.
\<close>

lemma mult_Some:
  assumes "wf a" "wf b" "alloc_inv s" "0 < bval a" "0 < bval b" "max (bk a) (bk b) < Kmax"
  obtains c s' where "mult a b s = Some (c, s')" "wf c" "normal c" "bval c = bval a * bval b"
    "alloc_inv s'" "p5s s' = p5s s" "bk c \<le> max (bk a) (bk b) + 1"
    "wds c \<le> wds a + wds b"
    "\<And>K. max (bk a) (bk b) \<le> K \<Longrightarrow> wds a + wds b \<le> 2 ^ K \<Longrightarrow> bk c \<le> K"
proof -
  obtain p q where pq: "(if wds a < wds b then (b, a) else (a, b)) = (p, q)" by fastforce
  have p: "wf p" and q: "wf q" and ord: "wds q \<le> wds p" and pos: "0 < bval p" "0 < bval q"
    and val: "bval p * bval q = bval a * bval b" and sum: "wds p + wds q = wds a + wds b"
    and kp: "bk p \<le> max (bk a) (bk b)"
    using pq assms by (auto split: if_splits)
  let ?wc = "wds p + wds q"
  define k where "k = (if maxwds p < ?wc then bk p + 1 else bk p)"
  have kK: "k \<le> Kmax" and kle: "k \<le> max (bk a) (bk b) + 1"
    using kp assms(6) by (auto simp: k_def)
  have fits: "?wc \<le> 2 ^ k"
    using p q ord by (auto simp: k_def wf_def shape_def)
  from Balloc_Some [OF assms(3) kK] obtain c s' where al: "Balloc k s = Some (c, s')" "bk c = k"
      "shape c" "alloc_inv s'" "p5s s' = p5s s" by blast
  have lc: "length (bx c) = 2 ^ k" using al by (simp add: shape_def)
  have "replicate ?wc (0 :: u32) = replicate (wds p) 0 @ replicate (length (digits q)) 0"
    using q by (simp add: wf_shape replicate_add)
  with mult_loop_correct [of "replicate (wds p) 0" "digits p" "digits q"] p
  obtain r where r: "mult_loop (digits p) (digits q) (replicate ?wc 0) = Some r"
      "length r = ?wc" "wval r = bval p * bval q"
    using q by (auto simp: wf_shape digits_nonempty bval_def)
  let ?c = "c\<lparr>bx := r @ drop ?wc (bx c), wds := trim_wc r ?wc\<rparr>"
  have eq: "mult a b s = Some (?c, s')"
    using al r fits lc unfolding mult_def Let_def pq by (simp flip: k_def)
  have le: "trim_wc r ?wc \<le> ?wc" by (rule trim_wc_le)
  have dc: "digits ?c = take (trim_wc r ?wc) r"
    using r(2) le by (simp add: digits_def)
  have vc: "bval ?c = bval a * bval b"
    using trim_wc_wval [of ?wc r] r val by (simp add: bval_def dc)
  have pos': "0 < bval ?c" using vc assms(4,5) by simp
  have nz: "trim_wc r ?wc \<noteq> 0"
  proof
    assume "trim_wc r ?wc = 0"
    from trim_wc_zero [OF this] r(2) have "wval r = 0" by simp
    with r(3) pos show False by simp
  qed
  have wfc: "wf ?c"
  proof -
    have "maxwds c = 2 ^ k" using al by (simp add: shape_def)
    moreover have "length (r @ drop ?wc (bx c)) = 2 ^ k" using r(2) fits lc by simp
    moreover have "trim_wc r ?wc \<le> 2 ^ k" using le fits by (rule le_trans)
    moreover have "1 \<le> trim_wc r ?wc" using nz by linarith
    ultimately show ?thesis
      using al(2) kK by (intro wf_updI) simp_all
  qed
  have "digits ?c \<noteq> []" using wfc by (rule digits_nonempty)
  moreover have "last (digits ?c) = r ! (trim_wc r ?wc - 1)"
    using nz le r(2) by (subst dc) (subst last_conv_nth, auto simp: min_def)
  ultimately have nc: "normal ?c"
    using trim_wc_last [OF nz] by (simp add: normal_def)
  have kc: "bk ?c \<le> K" if "max (bk a) (bk b) \<le> K" "wds a + wds b \<le> 2 ^ K" for K
  proof (cases "maxwds p < ?wc")
    case True
    then have "2 ^ bk p < wds a + wds b" using p sum by (simp add: wf_def shape_def)
    also note that(2)
    finally have "bk p < K" by (rule power_less_imp_less_exp [rotated]) simp
    with True al(2) show ?thesis by (simp add: k_def)
  next
    case False
    with le_trans [OF kp that(1)] al(2) show ?thesis by (simp add: k_def)
  qed
  have "wds ?c \<le> wds a + wds b" using le sum by simp
  with kc show thesis
    using eq wfc nc vc al kle by (intro that [of ?c s']) simp_all
qed

section \<open>lshift\<close>

text \<open>The \<open>for\<close> loop that looks for a big enough block; with \<open>maxwds = 0\<close> it would not end.\<close>

function lshift_k :: "nat \<Rightarrow> nat \<Rightarrow> nat \<Rightarrow> nat option" where
  "lshift_k i n1 k1 = (if i < n1 then (if i = 0 then None else lshift_k (2 * i) n1 (k1 + 1)) else Some k1)"
  by pat_completeness auto
termination
  by (relation "measure (\<lambda>(i, n1, k1). n1 - i)") auto

declare lshift_k.simps [simp del]

text \<open>The \<open>do\<close> loop that shifts by \<open>k\<close> bits, \<open>0 < k < 32\<close>: the shifted words and the last \<open>z\<close>.\<close>

fun lshift_loop :: "nat \<Rightarrow> u32 \<Rightarrow> u32 list \<Rightarrow> u32 list \<times> u32" where
  "lshift_loop k z [] = ([], z)"
| "lshift_loop k z (x # xs) =
     (let (ws, z') = lshift_loop k (drop_bit (32 - k) x) xs in ((push_bit k x OR z) # ws, z'))"

definition lshift :: "bigint \<Rightarrow> nat \<Rightarrow> dtoa_state \<Rightarrow> (bigint \<times> dtoa_state) option" where
  "lshift b k s =
     (let n = k div 32; n1 = n + wds b + 1; kb = k mod 32
      in do {
        k1 \<leftarrow> lshift_k (maxwds b) n1 (bk b);
        (b1, s) \<leftarrow> Balloc k1 s;
        (let xs = take (max 1 (wds b)) (bx b);
             (ws, z) = lshift_loop kb 0 xs;
             out = replicate n 0 @ (if kb \<noteq> 0 then ws @ [z] else xs);
             n1' = (if kb \<noteq> 0 \<and> z \<noteq> 0 then n1 + 1 else n1)
         in if length out \<le> length (bx b1)
            then Some (b1\<lparr>bx := out @ drop (length out) (bx b1), wds := n1' - 1\<rparr>, Bfree (Some b) s)
            else None)
      })"

lemma lshift_k_Some:
  assumes "0 < i" "n1 \<le> i * 2 ^ j"
  shows "\<exists>d \<le> j. lshift_k i n1 k1 = Some (k1 + d) \<and> n1 \<le> i * 2 ^ d"
  using assms
proof (induction i n1 k1 arbitrary: j rule: lshift_k.induct)
  case (1 i n1 k1)
  show ?case
  proof (cases "i < n1")
    case False
    then show ?thesis by (intro exI [of _ 0]) (simp add: lshift_k.simps [of i])
  next
    case True
    with "1.prems" obtain j' where j: "j = Suc j'" by (cases j) auto
    from "1.IH" [OF True, of j'] True "1.prems" j
    obtain d where "d \<le> j'" "lshift_k (2 * i) n1 (k1 + 1) = Some (k1 + 1 + d)" "n1 \<le> 2 * i * 2 ^ d"
      by (auto simp: mult.assoc mult.left_commute)
    with True "1.prems"(1) j show ?thesis
      by (intro exI [of _ "Suc d"]) (simp add: lshift_k.simps [of i])
  qed
qed

lemma push_or_value:
  fixes x z :: u32
  assumes "0 < k" "k < 32" "unat z < 2 ^ k"
  shows "unat (push_bit k x OR z) + 4294967296 * unat (drop_bit (32 - k) x) = 2 ^ k * unat x + unat z"
    and "unat (drop_bit (32 - k) x) < 2 ^ k"
proof -
  have z: "take_bit k z = z"
    using assms(3) by (intro word_unat_eq_iff [THEN iffD2]) (simp add: unsigned_take_bit_eq take_bit_nat_eq_self)
  have disj: "push_bit k x AND z = 0"
    by (subst z [symmetric], intro bit_eqI) (auto simp: bit_and_iff bit_push_bit_iff bit_take_bit_iff)
  have hi: "unat (drop_bit (32 - k) x) = unat x div 2 ^ (32 - k)"
    unfolding unat_drop_bit_eq by (simp add: drop_bit_eq_div)
  have p: "(2 :: nat) ^ 32 = 2 ^ (32 - k) * 2 ^ k"
    using assms(2) by (simp flip: power_add)
  have push: "unat (push_bit k x) = 2 ^ k * (unat x mod 2 ^ (32 - k))"
  proof -
    have "unat (push_bit k x) = take_bit 32 (push_bit k (unat x))"
      unfolding unsigned_push_bit_eq by simp
    also have "\<dots> = (unat x * 2 ^ k) mod 2 ^ 32"
      by (simp add: take_bit_eq_mod push_bit_eq_mult)
    also have "\<dots> = (unat x mod 2 ^ (32 - k)) * 2 ^ k"
      unfolding p by (rule mod_mult_mult2)
    finally show ?thesis by simp
  qed
  have "unat x mod 2 ^ (32 - k) \<le> 2 ^ (32 - k) - 1" by (simp add: less_Suc_eq_le [symmetric])
  then have "2 ^ k * (unat x mod 2 ^ (32 - k)) \<le> 2 ^ k * (2 ^ (32 - k) - 1)"
    by (rule mult_le_mono2)
  also have "\<dots> = 2 ^ 32 - 2 ^ k"
    using p by (simp add: diff_mult_distrib2 mult.commute)
  finally have "unat (push_bit k x) + unat z < 4294967296"
    using assms(2,3) push power_strict_increasing [of k 32 "2 :: nat"] by simp
  moreover have "push_bit k x OR z = push_bit k x + z"
    using disj by (rule disjunctive_add_eq_or [symmetric])
  ultimately have or: "unat (push_bit k x OR z) = 2 ^ k * (unat x mod 2 ^ (32 - k)) + unat z"
    by (simp add: unat_add_no_wrap push)
  define Q R where "Q = unat x div 2 ^ (32 - k)" and "R = unat x mod 2 ^ (32 - k)"
  have xqr: "unat x = Q * 2 ^ (32 - k) + R" by (simp only: Q_def R_def div_mult_mod_eq)
  have qp: "4294967296 * Q = 2 ^ k * (Q * 2 ^ (32 - k))"
    using p by (simp add: mult.assoc mult.commute mult.left_commute)
  have "2 ^ k * R + unat z + 4294967296 * Q = 2 ^ k * (Q * 2 ^ (32 - k) + R) + unat z"
    unfolding qp by (simp only: distrib_left add.assoc add.commute add.left_commute)
  then show "unat (push_bit k x OR z) + 4294967296 * unat (drop_bit (32 - k) x) = 2 ^ k * unat x + unat z"
    unfolding or hi by (simp only: Q_def [symmetric] R_def [symmetric] xqr [symmetric])
  have "unat x < 2 ^ k * 2 ^ (32 - k)" using unat_u32_lt [of x] p by (simp add: mult.commute)
  then show "unat (drop_bit (32 - k) x) < 2 ^ k"
    unfolding hi by (rule less_mult_imp_div_less)
qed

lemma lshift_loop_correct:
  assumes "lshift_loop k z xs = (ws, z')" "0 < k" "k < 32" "unat z < 2 ^ k"
  shows "length ws = length xs \<and> wval ws + 4294967296 ^ length xs * unat z' = 2 ^ k * wval xs + unat z"
  using assms
proof (induction xs arbitrary: z ws)
  case Nil
  then show ?case by simp
next
  case (Cons x xs)
  obtain ws' where ws': "lshift_loop k (drop_bit (32 - k) x) xs = (ws', z')" "ws = (push_bit k x OR z) # ws'"
    using Cons.prems(1) by (auto simp: Let_def split: prod.splits)
  note step = push_or_value [OF Cons.prems(2-4), of x]
  have IH: "length ws' = length xs \<and> wval ws' + 4294967296 ^ length xs * unat z'
      = 2 ^ k * wval xs + unat (drop_bit (32 - k) x)"
    by (rule Cons.IH [OF ws'(1) Cons.prems(2,3) step(2)])
  have "wval ws + 4294967296 ^ length (x # xs) * unat z'
      = unat (push_bit k x OR z) + 4294967296 * (wval ws' + 4294967296 ^ length xs * unat z')"
    by (simp add: ws'(2) algebra_simps)
  also have "\<dots> = 2 ^ k * wval (x # xs) + unat z"
    using IH step(1) by (simp add: algebra_simps)
  finally show ?case using IH ws'(2) by simp
qed

lemma lshift_Some:
  assumes "wf b" "normal b" "alloc_inv s" "0 < bval b" "k div 32 + wds b + 1 \<le> 2 ^ Kmax"
  obtains b' s' where "lshift b k s = Some (b', s')" "wf b'" "normal b'" "bval b' = bval b * 2 ^ k"
    "alloc_inv s'" "p5s s' = p5s s"
proof -
  let ?n = "k div 32" and ?kb = "k mod 32"
  let ?n1 = "?n + wds b + 1"
  have sh: "shape b" and w1: "1 \<le> wds b" and xs: "take (max 1 (wds b)) (bx b) = digits b"
    using assms(1) by (simp_all add: wf_def digits_def)
  have kb: "bk b \<le> Kmax" and mw: "maxwds b = 2 ^ bk b" using sh by (simp_all add: shape_def)
  have "?n1 \<le> maxwds b * 2 ^ (Kmax - bk b)"
    using assms(5) kb mw by (simp flip: power_add)
  with lshift_k_Some [of "maxwds b" ?n1 "Kmax - bk b" "bk b"] mw
  obtain d where d: "d \<le> Kmax - bk b" "lshift_k (maxwds b) ?n1 (bk b) = Some (bk b + d)"
      "?n1 \<le> maxwds b * 2 ^ d" by auto
  have k1: "bk b + d \<le> Kmax" using d(1) kb by simp
  from Balloc_Some [OF assms(3) k1] obtain b1 s1 where al: "Balloc (bk b + d) s = Some (b1, s1)"
      "bk b1 = bk b + d" "shape b1" "alloc_inv s1" "p5s s1 = p5s s" by blast
  have m1: "maxwds b1 = 2 ^ bk b1" "length (bx b1) = maxwds b1"
    using al(3) by (simp_all add: shape_def)
  have n1: "?n1 \<le> maxwds b1"
    using d(3) m1(1) al(2) mw by (simp add: power_add)
  obtain ws z where loop: "lshift_loop ?kb 0 (digits b) = (ws, z)" by fastforce
  have ld: "length (digits b) = wds b" using sh by simp
  define out where "out = replicate ?n (0 :: u32) @ (if ?kb \<noteq> 0 then ws @ [z] else digits b)"
  define n1' where "n1' = (if ?kb \<noteq> 0 \<and> z \<noteq> 0 then ?n1 + 1 else ?n1)"
  let ?r = "b1\<lparr>bx := out @ drop (length out) (bx b1), wds := n1' - 1\<rparr>"
  have shifted: "length ws = wds b \<and> wval ws + 4294967296 ^ wds b * unat z = 2 ^ ?kb * bval b" if "?kb \<noteq> 0"
    using lshift_loop_correct [OF loop] that by (simp add: bval_def ld)
  have lout: "length out = ?n + wds b + (if ?kb \<noteq> 0 then 1 else 0)"
    using shifted by (simp add: out_def ld)
  have fit: "length out \<le> length (bx b1)" using lout n1 m1(2) by (simp split: if_splits)
  have eq: "lshift b k s = Some (?r, Bfree (Some b) s1)"
    unfolding lshift_def Let_def d(2) xs loop using al fit
    by (simp add: out_def n1'_def)
  have wle: "n1' - 1 \<le> length out" using lout by (simp add: n1'_def)
  have w1': "1 \<le> n1' - 1" using w1 by (simp add: n1'_def)
  have wfr: "wf ?r"
    by (rule wf_updI) (use al m1 fit wle w1' n1 lout k1 in \<open>auto simp: n1'_def\<close>)
  have dr: "digits ?r = take (n1' - 1) out"
    using wle by (simp add: digits_def)
  have pow: "4294967296 ^ ?n * 2 ^ ?kb = (2 :: nat) ^ k"
  proof -
    have "(4294967296 :: nat) ^ ?n = 2 ^ (32 * ?n)" by (simp add: power_mult)
    then show ?thesis by (simp flip: power_add)
  qed
  have val: "wval (take (n1' - 1) out) = bval b * 2 ^ k"
  proof (cases "?kb = 0")
    case True
    then have "wval (take (n1' - 1) out) = 4294967296 ^ ?n * bval b"
      by (simp add: out_def n1'_def wval_append bval_def ld)
    with True pow show ?thesis by simp
  next
    case False
    then have lws: "length ws = wds b"
      and vws: "wval ws + 4294967296 ^ wds b * unat z = 2 ^ ?kb * bval b" using shifted by auto
    have "wval (take (n1' - 1) out) = 4294967296 ^ ?n * (wval ws + 4294967296 ^ wds b * unat z)"
      using lws False by (simp add: out_def n1'_def wval_append distrib_left)
    also have "\<dots> = 4294967296 ^ ?n * 2 ^ ?kb * bval b" by (simp only: vws mult.assoc)
    finally show ?thesis unfolding pow by (simp only: mult.commute)
  qed
  then have valr: "bval ?r = bval b * 2 ^ k" by (simp only: bval_def dr)
  have "normal ?r"
  proof (cases "?kb \<noteq> 0 \<and> z \<noteq> 0")
    case True
    then have "digits ?r = out" unfolding dr using lout by (simp add: n1'_def)
    then have "last (digits ?r) = z" using True by (simp add: out_def)
    then show ?thesis using True digits_nonempty [OF wfr] by (simp add: normal_def)
  next
    case False
    then have w: "wds ?r = ?n + wds b" by (auto simp: n1'_def)
    have "4294967296 ^ (wds b - 1) \<le> bval b"
      using assms(2,4) normal_iff [OF assms(1)] by auto
    then have "4294967296 ^ ?n * 4294967296 ^ (wds b - 1) \<le> 4294967296 ^ ?n * bval b"
      by (rule mult_le_mono2)
    moreover have "4294967296 ^ ?n * bval b \<le> bval ?r"
      unfolding valr pow [symmetric] by simp
    ultimately have "4294967296 ^ (wds ?r - 1) \<le> bval ?r"
      unfolding w using w1 by (simp flip: power_add)
    then show ?thesis using normal_iff [OF wfr] by blast
  qed
  with eq wfr valr al sh show thesis by (intro that [of ?r "Bfree (Some b) s1"]) simp_all
qed

section \<open>cmp and diff\<close>

text \<open>The loop of \<open>cmp\<close> from the top words down; the lists are the words from the top.\<close>

fun cmp_words :: "u32 list \<Rightarrow> u32 list \<Rightarrow> int" where
  "cmp_words (x # xs) (y # ys) = (if x \<noteq> y then (if x < y then -1 else 1) else cmp_words xs ys)"
| "cmp_words xs ys = 0"

definition cmp :: "bigint \<Rightarrow> bigint \<Rightarrow> int option" where
  "cmp a b =
     (let i = int (wds a) - int (wds b)
      in if i \<noteq> 0 then Some i
         else if wds b = 0 then None \<comment> \<open>reads below the array\<close>
         else Some (cmp_words (rev (digits a)) (rev (digits b))))"

text \<open>
  The two loops of \<open>diff\<close>: the second has no word of \<open>b\<close>. Differences of halves wrap around, and
  the borrow is bit 16 of the difference.
\<close>

fun diff_loop :: "u32 \<Rightarrow> u32 list \<Rightarrow> u32 list \<Rightarrow> u32 list" where
  "diff_loop borrow (x # xs) (w # ws) =
     (let y = (x AND 0xFFFF) - (w AND 0xFFFF) - borrow;
          borrow1 = drop_bit 16 (y AND 0x10000);
          z = drop_bit 16 x - drop_bit 16 w - borrow1;
          borrow2 = drop_bit 16 (z AND 0x10000)
      in join16 z y # diff_loop borrow2 xs ws)"
| "diff_loop borrow (x # xs) [] =
     (let y = (x AND 0xFFFF) - borrow;
          borrow1 = drop_bit 16 (y AND 0x10000);
          z = drop_bit 16 x - borrow1;
          borrow2 = drop_bit 16 (z AND 0x10000)
      in join16 z y # diff_loop borrow2 xs [])"
| "diff_loop borrow [] ws = []"

definition diff :: "bigint \<Rightarrow> bigint \<Rightarrow> dtoa_state \<Rightarrow> (bigint \<times> dtoa_state) option" where
  "diff a0 b0 s = do {
     i \<leftarrow> cmp a0 b0;
     if i = 0
     then do {
       (c, s) \<leftarrow> Balloc 0 s;
       x \<leftarrow> store (bx c) 0 0;
       Some (c\<lparr>bx := x, wds := 1\<rparr>, s)
     }
     else do {
       let (a, b, sg) = (if i < 0 then (b0, a0, 1) else (a0, b0, 0));
       (c, s) \<leftarrow> Balloc (bk a) s;
       let out = diff_loop 0 (digits a) (digits b);
       if length out \<le> length (bx c)
       then Some (c\<lparr>bsign := sg, bx := out @ drop (length out) (bx c),
                    wds := trim_wc out (length out)\<rparr>, s)
       else None
     }
   }"

lemma cmp_words_value:
  "length xs = length ys \<Longrightarrow>
   (cmp_words xs ys < 0 \<longleftrightarrow> wval (rev xs) < wval (rev ys)) \<and>
   (cmp_words xs ys = 0 \<longleftrightarrow> wval (rev xs) = wval (rev ys))"
proof (induction xs ys rule: list_induct2)
  case Nil
  then show ?case by simp
next
  case (Cons x xs y ys)
  have ltx: "wval (rev xs) < 4294967296 ^ length xs" and lty: "wval (rev ys) < 4294967296 ^ length xs"
    using wval_lt [of "rev xs"] wval_lt [of "rev ys"] Cons.hyps by simp_all
  have vx: "wval (rev (x # xs)) = wval (rev xs) + 4294967296 ^ length xs * unat x"
    and vy: "wval (rev (y # ys)) = wval (rev ys) + 4294967296 ^ length xs * unat y"
    using Cons.hyps by (simp_all add: wval_append)
  have less: "wval (rev p) + 4294967296 ^ length xs * unat u < wval (rev q) + 4294967296 ^ length xs * unat v"
    if "unat u < unat v" "wval (rev p) < 4294967296 ^ length xs" for p q and u v :: u32
  proof -
    have "4294967296 ^ length xs * (unat u + 1) \<le> 4294967296 ^ length xs * unat v"
      using that(1) by (intro mult_le_mono2) simp
    with that(2) show ?thesis by simp
  qed
  show ?case
  proof (cases "x = y")
    case True
    with Cons.IH vx vy show ?thesis by simp
  next
    case False
    then consider "x < y" | "y < x" by fastforce
    then show ?thesis
    proof cases
      case 1
      then have "wval (rev (x # xs)) < wval (rev (y # ys))"
        unfolding vx vy by (intro less ltx) (simp add: word_less_nat_alt)
      with 1 False show ?thesis by simp
    next
      case 2
      then have "wval (rev (y # ys)) < wval (rev (x # xs))"
        unfolding vx vy by (intro less lty) (simp add: word_less_nat_alt)
      with 2 show ?thesis by auto
    qed
  qed
qed

text \<open>On numbers without leading zeros \<open>cmp\<close> compares the values.\<close>

lemma wval_lt_of_wds:
  assumes "wf a" "wf b" "normal b" "wds a < wds b"
  shows "bval a < bval b"
proof -
  have "bval a < 4294967296 ^ wds a" using assms(1) by (intro bval_lt wf_shape)
  also have "(4294967296 :: nat) ^ wds a \<le> 4294967296 ^ (wds b - 1)"
    using assms(4) by (intro power_increasing) auto
  also have "\<dots> \<le> bval b"
    using assms normal_iff [OF assms(2)] by (auto simp: wf_def)
  finally show ?thesis .
qed

lemma cmp_Some:
  assumes "wf a" "wf b" "normal a" "normal b"
  shows "\<exists>i. cmp a b = Some i \<and> (i < 0 \<longleftrightarrow> bval a < bval b) \<and> (i = 0 \<longleftrightarrow> bval a = bval b)"
proof (cases "wds a = wds b")
  case True
  have "length (rev (digits a)) = length (rev (digits b))"
    using assms True by (simp add: wf_shape)
  from cmp_words_value [OF this] True assms(2) show ?thesis
    by (auto simp: cmp_def bval_def wf_def)
next
  case False
  then consider "wds a < wds b" | "wds b < wds a" by linarith
  then show ?thesis
  proof cases
    case 1
    with wval_lt_of_wds [OF assms(1,2,4)] show ?thesis by (simp add: cmp_def)
  next
    case 2
    with wval_lt_of_wds [OF assms(2,1,3)] show ?thesis by (simp add: cmp_def)
  qed
qed

lemma half_sub:
  fixes p q b :: u32
  assumes "unat p < 65536" "unat q < 65536" "unat b \<le> 1"
  defines "y \<equiv> p - q - b"
  defines "bor \<equiv> drop_bit 16 (y AND 0x10000)"
  shows "unat bor \<le> 1" and "unat y mod 65536 + unat q + unat b = unat p + 65536 * unat bor"
proof -
  have "bor = drop_bit 16 y AND 1"
    by (simp add: bor_def drop_bit_and)
  then have "unat bor = unat (drop_bit 16 y) AND unat (1 :: u32)"
    by (simp only: unsigned_and_eq)
  then have "unat bor = unat (drop_bit 16 y) mod 2"
    by (simp add: and_one_eq)
  then have bor: "unat bor = unat y div 65536 mod 2" by (simp add: unat_hi16)
  then show "unat bor \<le> 1" by simp
  have "uint y = (uint p - uint q - uint b) mod 4294967296"
    unfolding y_def by (simp add: uint_word_ariths mod_simps)
  then have y: "int (unat y) = (int (unat p) - int (unat q) - int (unat b)) mod 4294967296"
    by simp
  show "unat y mod 65536 + unat q + unat b = unat p + 65536 * unat bor"
  proof (cases "unat q + unat b \<le> unat p")
    case True
    then have "int (unat y) = int (unat p) - int (unat q) - int (unat b)"
      unfolding y using assms(1) True by (intro mod_pos_pos_trivial) linarith+
    then have "unat y + unat q + unat b = unat p" by linarith
    with assms(1) bor show ?thesis by simp
  next
    case False
    let ?a = "int (unat p) - int (unat q) - int (unat b)"
    have "int (unat y) = ?a + 4294967296"
      unfolding y using False assms by (subst mod_add_self2 [symmetric], intro mod_pos_pos_trivial) linarith+
    then have eq: "unat y + unat q + unat b = unat p + 4294967296" by linarith
    then have "65535 * 65536 \<le> unat y" "unat y < 65536 * 65536" using False assms by linarith+
    then have d: "unat y div 65536 = 65535" by (intro div_nat_eqI) simp_all
    have "unat y = unat y div 65536 * 65536 + unat y mod 65536" by (rule u32_halves)
    moreover have "unat bor = 1" by (simp add: bor d)
    ultimately show ?thesis using eq d by simp
  qed
qed

lemma diff_step:
  fixes x w borrow :: u32
  assumes "unat borrow \<le> 1"
  defines "y \<equiv> (x AND 0xFFFF) - (w AND 0xFFFF) - borrow"
  defines "borrow1 \<equiv> drop_bit 16 (y AND 0x10000)"
  defines "z \<equiv> drop_bit 16 x - drop_bit 16 w - borrow1"
  defines "borrow2 \<equiv> drop_bit 16 (z AND 0x10000)"
  shows "unat (join16 z y) + unat w + unat borrow = unat x + 4294967296 * unat borrow2"
    and "unat borrow2 \<le> 1"
proof -
  have y: "unat borrow1 \<le> 1"
      "unat y mod 65536 + unat (w AND 0xFFFF) + unat borrow = unat (x AND 0xFFFF) + 65536 * unat borrow1"
    unfolding borrow1_def y_def by (rule half_sub [OF unat_lo16_lt unat_lo16_lt assms(1)])+
  have z: "unat borrow2 \<le> 1"
      "unat z mod 65536 + unat (drop_bit 16 w) + unat borrow1 = unat (drop_bit 16 x) + 65536 * unat borrow2"
    unfolding borrow2_def z_def by (rule half_sub [OF unat_hi16_lt unat_hi16_lt y(1)])+
  show "unat borrow2 \<le> 1" by (rule z(1))
  define xh xl wh wl where "xh = unat x div 65536" and "xl = unat x mod 65536"
    and "wh = unat w div 65536" and "wl = unat w mod 65536"
  have x: "unat x = xh * 65536 + xl" and w: "unat w = wh * 65536 + wl"
    by (simp_all add: xh_def xl_def wh_def wl_def)
  have "unat y mod 65536 + wl + unat borrow = xl + 65536 * unat borrow1"
    using y(2) by (simp only: unat_lo16 [of x] unat_lo16 [of w] xl_def wl_def)
  moreover have "unat z mod 65536 + wh + unat borrow1 = xh + 65536 * unat borrow2"
    using z(2) by (simp only: unat_hi16 [of x] unat_hi16 [of w] xh_def wh_def)
  ultimately show "unat (join16 z y) + unat w + unat borrow = unat x + 4294967296 * unat borrow2"
    unfolding unat_join16 x w by linarith
qed

lemma diff_loop_correct:
  assumes "unat borrow \<le> 1" "length ws \<le> length xs"
  shows "length (diff_loop borrow xs ws) = length xs \<and>
    (\<exists>\<beta>. wval (diff_loop borrow xs ws) + wval ws + unat borrow = wval xs + 4294967296 ^ length xs * \<beta>)"
  using assms
proof (induction borrow xs ws rule: diff_loop.induct)
  case (1 borrow x xs w ws)
  let ?y = "(x AND 0xFFFF) - (w AND 0xFFFF) - borrow"
  let ?b1 = "drop_bit 16 (?y AND 0x10000)"
  let ?z = "drop_bit 16 x - drop_bit 16 w - ?b1"
  let ?b2 = "drop_bit 16 (?z AND 0x10000)"
  note st = diff_step [OF "1.prems"(1), of x w]
  from "1.IH" [OF refl refl refl refl st(2)] "1.prems"(2)
  obtain \<beta> where len: "length (diff_loop ?b2 xs ws) = length xs"
    and IH: "wval (diff_loop ?b2 xs ws) + wval ws + unat ?b2 = wval xs + 4294967296 ^ length xs * \<beta>"
    by auto
  have "wval (diff_loop borrow (x # xs) (w # ws)) + wval (w # ws) + unat borrow
      = (unat (join16 ?z ?y) + unat w + unat borrow)
        + 4294967296 * (wval (diff_loop ?b2 xs ws) + wval ws)"
    by (simp add: Let_def)
  also have "\<dots> = unat x + 4294967296 * (wval (diff_loop ?b2 xs ws) + wval ws + unat ?b2)"
    unfolding st(1) by simp
  also have "\<dots> = wval (x # xs) + 4294967296 ^ length (x # xs) * \<beta>"
    unfolding IH by simp
  finally show ?case using len by (auto simp: Let_def)
next
  case (2 borrow x xs)
  let ?y = "(x AND 0xFFFF) - borrow"
  let ?b1 = "drop_bit 16 (?y AND 0x10000)"
  let ?z = "drop_bit 16 x - ?b1"
  let ?b2 = "drop_bit 16 (?z AND 0x10000)"
  have st: "unat (join16 ?z ?y) + unat borrow = unat x + 4294967296 * unat ?b2" "unat ?b2 \<le> 1"
    using diff_step [OF "2.prems"(1), of x 0] by simp_all
  from "2.IH" [OF refl refl refl refl st(2)]
  obtain \<beta> where len: "length (diff_loop ?b2 xs []) = length xs"
    and IH: "wval (diff_loop ?b2 xs []) + unat ?b2 = wval xs + 4294967296 ^ length xs * \<beta>"
    by auto
  have "wval (diff_loop borrow (x # xs) []) + wval [] + unat borrow
      = (unat (join16 ?z ?y) + unat borrow) + 4294967296 * wval (diff_loop ?b2 xs [])"
    by (simp add: Let_def)
  also have "\<dots> = unat x + 4294967296 * (wval (diff_loop ?b2 xs []) + unat ?b2)"
    unfolding st(1) by simp
  also have "\<dots> = wval (x # xs) + 4294967296 ^ length (x # xs) * \<beta>"
    unfolding IH by simp
  finally show ?case using len by (auto simp: Let_def)
next
  case (3 borrow ws)
  then show ?case by (intro conjI exI [of _ "unat borrow"]) simp_all
qed

text \<open>\<open>diff\<close> computes the distance and records in \<open>sign\<close> which operand was smaller.\<close>

lemma diff_Some:
  assumes "wf a" "wf b" "normal a" "normal b" "alloc_inv s"
  obtains c s' where "diff a b s = Some (c, s')" "wf c" "normal c" "alloc_inv s'" "p5s s' = p5s s"
    "int (bval c) = \<bar>int (bval a) - int (bval b)\<bar>" "bsign c = (if bval a < bval b then 1 else 0)"
proof -
  from cmp_Some [OF assms(1-4)] obtain i where i: "cmp a b = Some i"
      "i < 0 \<longleftrightarrow> bval a < bval b" "i = 0 \<longleftrightarrow> bval a = bval b" by blast
  show thesis
  proof (cases "i = 0")
    case True
    from Balloc_Some [OF assms(5), of 0] obtain c s' where al: "Balloc 0 s = Some (c, s')" "bk c = 0"
        "shape c" "bsign c = 0" "alloc_inv s'" "p5s s' = p5s s" by auto
    have lc: "length (bx c) = 1" "maxwds c = 1" using al(2,3) by (simp_all add: shape_def)
    let ?r = "c\<lparr>bx := (bx c)[0 := 0], wds := 1\<rparr>"
    have "diff a b s = Some (?r, s')"
      using i(1) True al(1) lc by (simp add: diff_def store_Some)
    moreover have "wf ?r" by (rule wf_updI) (use al lc in simp_all)
    moreover have "digits ?r = [0]" using lc(1) by (cases "bx c") (simp_all add: digits_def)
    then have "bval ?r = 0" by (simp add: bval_def)
    ultimately show thesis
      using True i al by (intro that [of ?r s']) (simp_all add: normal_def)
  next
    case False
    obtain p q sg where pq: "(if i < 0 then (b, a, 1) else (a, b, 0)) = (p, q, sg :: nat)"
      by (metis prod_cases3)
    then have p: "wf p" "normal p" and q: "wf q" "normal q" and lt: "bval q < bval p"
      and val: "int (bval p - bval q) = \<bar>int (bval a) - int (bval b)\<bar>"
      and sg: "sg = (if bval a < bval b then 1 else 0)"
      using assms False i(2,3) by (auto split: if_splits)
    have wle: "wds q \<le> wds p"
      using wval_lt_of_wds [OF p(1) q(1,2)] lt by linarith
    have "bk p \<le> Kmax" using p(1) by (simp add: wf_def shape_def)
    from Balloc_Some [OF assms(5) this] obtain c s' where al: "Balloc (bk p) s = Some (c, s')"
        "bk c = bk p" "shape c" "bsign c = 0" "alloc_inv s'" "p5s s' = p5s s" by blast
    define out where "out = diff_loop 0 (digits p) (digits q)"
    have lp: "length (digits p) = wds p" and lq: "length (digits q) = wds q"
      using p(1) q(1) by (simp_all add: wf_shape)
    from diff_loop_correct [of 0 "digits q" "digits p"] lp lq wle
    obtain \<beta> where lout: "length out = wds p"
      and sub: "wval out + bval q = bval p + 4294967296 ^ wds p * \<beta>"
      by (auto simp: out_def bval_def)
    have "\<beta> = 0"
    proof (rule ccontr)
      assume "\<beta> \<noteq> 0"
      then have "4294967296 ^ wds p * 1 \<le> 4294967296 ^ wds p * \<beta>" by (intro mult_le_mono2) simp
      with sub lt wval_lt [of out] lout show False by simp
    qed
    with sub have vout: "wval out = bval p - bval q" by simp
    have mc: "maxwds c = maxwds p" "length (bx c) = maxwds c"
      using al(2,3) p(1) by (simp_all add: wf_def shape_def)
    have wp: "wds p \<le> maxwds p" using p(1) by (simp add: wf_def shape_def)
    let ?n = "trim_wc out (length out)"
    let ?r = "c\<lparr>bsign := sg, bx := out @ drop (length out) (bx c), wds := ?n\<rparr>"
    have le: "?n \<le> length out" by (rule trim_wc_le)
    have nz: "?n \<noteq> 0"
    proof
      assume "?n = 0"
      from trim_wc_zero [OF this] vout lt show False by simp
    qed
    have eq: "diff a b s = Some (?r, s')"
      using i(1) False pq al(1) lout mc wp by (simp add: diff_def out_def Let_def)
    have wfr: "wf ?r"
      using al(2,3) mc lout wp le nz by (simp add: wf_def shape_def)
    have dr: "digits ?r = take ?n out" using le by (simp add: digits_def)
    have vr: "bval ?r = bval p - bval q"
      unfolding bval_def dr using trim_wc_wval [of "length out" out] vout by (simp add: bval_def)
    have "last (digits ?r) = out ! (?n - 1)"
      unfolding dr using nz le by (subst last_conv_nth) (auto simp: min_def)
    then have nr: "normal ?r"
      using trim_wc_last [OF nz] digits_nonempty [OF wfr] by (simp add: normal_def)
    show thesis
      using eq wfr nr al(5,6) vr val sg by (intro that [of ?r s']) simp_all
  qed
qed

lemma multadd_keeps_normal:
  assumes "wf b" "normal b" "wf b'" "bval b' = bval b * m + a" "1 \<le> m" "wds b' = wds b"
  shows "normal b'"
proof -
  have "bval b \<le> bval b'" using assms(4,5) by (simp add: trans_le_add1)
  then show ?thesis using assms normal_iff [OF assms(1)] normal_iff [OF assms(3)] by auto
qed

section \<open>Small integers, decimal strings, powers of 5\<close>

definition i2b :: "int \<Rightarrow> dtoa_state \<Rightarrow> (bigint \<times> dtoa_state) option" where
  "i2b i s = do {
     (b, s) \<leftarrow> Balloc 1 s;
     x \<leftarrow> store (bx b) 0 (word_of_int i);
     Some (b\<lparr>bx := x, wds := 1\<rparr>, s)
   }"

function s2b_k :: "nat \<Rightarrow> nat \<Rightarrow> nat \<Rightarrow> nat" where
  "s2b_k x y k = (if y < x \<and> 0 < y then s2b_k x (2 * y) (k + 1) else k)"
  by pat_completeness auto
termination
  by (relation "measure (\<lambda>(x, y, k). x - y)") auto

declare s2b_k.simps [simp del]

text \<open>\<open>n\<close> iterations of \<open>b = multadd(b, 10, *s++ - '0')\<close>.\<close>

fun s2b_loop :: "string \<Rightarrow> nat \<Rightarrow> bigint \<Rightarrow> dtoa_state \<Rightarrow> (bigint \<times> dtoa_state) option" where
  "s2b_loop s 0 b st = Some (b, st)"
| "s2b_loop [] (Suc n) b st = None"
| "s2b_loop (c # s) (Suc n) b st = do {
     (b, st) \<leftarrow> multadd b 10 (of_char c - 48) st;
     s2b_loop s n b st
   }"

definition s2b :: "string \<Rightarrow> nat \<Rightarrow> nat \<Rightarrow> u32 \<Rightarrow> dtoa_state \<Rightarrow> (bigint \<times> dtoa_state) option" where
  "s2b s nd0 nd y9 st = do {
     (b, st) \<leftarrow> Balloc (s2b_k ((nd + 8) div 9) 1 0) st;
     x \<leftarrow> store (bx b) 0 y9;
     let b = b\<lparr>bx := x, wds := 1\<rparr>;
     if 9 < nd0
     then do {
       (b, st) \<leftarrow> s2b_loop (drop 9 s) (nd0 - 9) b st;
       s2b_loop (drop (nd0 + 1) s) (nd - nd0) b st
     }
     else s2b_loop (drop 10 s) (nd - 9) b st
   }"

text \<open>
  The block \<open>s2b\<close> asks for is big enough for all \<open>nd\<close> digits, so the loop stays in it: \<open>n\<close> digits
  of a number below \<open>10 ^ j\<close> make one below \<open>10 ^ (j + n)\<close>.
\<close>

lemma s2b_loop_Some:
  assumes "wf b" "normal b" "alloc_inv st" "bk b < Kmax" "bval b < 10 ^ j"
    and "10 ^ (j + n) \<le> (4294967296 :: nat) ^ maxwds b" "n \<le> length s" "list_all is_digit (take n s)"
  shows "\<exists>b' st'. s2b_loop s n b st = Some (b', st') \<and> wf b' \<and> normal b' \<and> alloc_inv st' \<and> p5s st' = p5s st
           \<and> bk b' = bk b \<and> bval b' = dec_val (bval b) (take n s) \<and> bval b' < 10 ^ (j + n)"
  using assms
proof (induction s n b st arbitrary: j rule: s2b_loop.induct)
  case (1 s b st)
  then show ?case by simp
next
  case (2 n b st)
  then show ?case by simp
next
  case (3 c s n b st)
  have dig: "is_digit c" and dv: "digit_val c \<le> 9" using "3.prems"(8) digit_val_le by auto
  note arg = digit_val_of_char [OF dig]
  obtain b1 st1 where m: "multadd b 10 (of_char c - 48) st = Some (b1, st1)" "wf b1" "alloc_inv st1"
      "p5s st1 = p5s st" "bval b1 = bval b * 10 + digit_val c"
      "bk b1 \<le> (if wds b = maxwds b then bk b + 1 else bk b)" "bk b \<le> bk b1" "wds b \<le> wds b1" "wds b1 \<le> wds b + 1"
      "wds b1 = wds b + 1 \<longrightarrow> normal b1" "wds b1 = wds b \<longrightarrow> bk b1 = bk b"
    by (rule multadd_Some [OF "3.prems"(1,3), of 10 "of_char c - 48"])
       (use arg dv "3.prems"(4) in auto)
  have n1: "normal b1"
    using m(8-10) multadd_keeps_normal [OF "3.prems"(1,2) m(2,5)] by fastforce
  have lt: "bval b1 < 10 ^ (j + 1)"
  proof -
    have "bval b + 1 \<le> 10 ^ j" using "3.prems"(5) by simp
    then have "(bval b + 1) * 10 \<le> 10 ^ j * 10" by (rule mult_le_mono1)
    then show ?thesis using m(5) dv by simp
  qed
  have "bk b1 = bk b"
  proof (cases "wds b1 = wds b + 1 \<and> wds b = maxwds b")
    case True
    with normal_iff [OF m(2)] m(10) "3.prems"(1) have "4294967296 ^ maxwds b \<le> bval b1"
      by (auto simp: wf_def)
    moreover have "(10 :: nat) ^ (j + 1) \<le> 10 ^ (j + Suc n)" by (intro power_increasing) simp_all
    ultimately show ?thesis using lt "3.prems"(6) by linarith
  next
    case False
    with m(6-9,11) show ?thesis by (auto split: if_splits)
  qed
  moreover have "maxwds b1 = maxwds b"
    using calculation m(2) "3.prems"(1) by (simp add: wf_def shape_def)
  ultimately have "\<exists>b' st'. s2b_loop s n b1 st1 = Some (b', st') \<and> wf b' \<and> normal b' \<and> alloc_inv st'
           \<and> p5s st' = p5s st1 \<and> bk b' = bk b1 \<and> bval b' = dec_val (bval b1) (take n s) \<and> bval b' < 10 ^ (j + 1 + n)"
    using "3.prems" m(2,3) n1 lt by (intro "3.IH" [OF m(1) refl]) simp_all
  with m(1,4,5) \<open>bk b1 = bk b\<close> show ?case by (auto simp: add.commute)
qed

lemma s2b_k_ge: "0 < y \<Longrightarrow> x \<le> y * 2 ^ (s2b_k x y k - k) \<and> k \<le> s2b_k x y k"
proof (induction x y k rule: s2b_k.induct)
  case (1 x y k)
  show ?case
  proof (cases "y < x")
    case False
    then show ?thesis by (simp add: s2b_k.simps [of x y k])
  next
    case True
    with "1.prems" "1.IH" have IH: "x \<le> 2 * y * 2 ^ (s2b_k x (2 * y) (k + 1) - (k + 1))"
        "k + 1 \<le> s2b_k x (2 * y) (k + 1)" by auto
    have "(2 :: nat) * 2 ^ (s2b_k x (2 * y) (k + 1) - (k + 1)) = 2 ^ (s2b_k x (2 * y) (k + 1) - k)"
      using IH(2) by (simp add: Suc_diff_Suc flip: power_Suc)
    with IH True "1.prems" show ?thesis
      by (simp add: s2b_k.simps [of x y k] mult.assoc mult.left_commute)
  qed
qed

end
