(* ===== verification/Dtoa.thy ===== *)
theory Dtoa
  imports Bigint
begin

text \<open>
  The parts of src/src/libstdio/dtoa.c that convert with the big integers of theory Bigint:
  counting zero bits, multiplying by powers of 5 with a cached chain of squares, taking a
  double apart (\<open>d2b\<close>) and the division step that produces a digit (\<open>quorem\<close>). The
  properties of all of these and of Bigint's operations are stated here.
\<close>

section \<open>Leading and trailing zero bits\<close>

definition hi0_step :: "u32 \<Rightarrow> nat \<Rightarrow> u32 \<times> nat \<Rightarrow> u32 \<times> nat" where
  "hi0_step mk sh p = (if fst p AND mk = 0 then (push_bit sh (fst p), snd p + sh) else p)"

definition hi0bits :: "u32 \<Rightarrow> nat" where
  "hi0bits x =
     (let (x, k) = hi0_step 0xC0000000 2 (hi0_step 0xF0000000 4
                     (hi0_step 0xFF000000 8 (hi0_step 0xFFFF0000 16 (x, 0))))
      in if x AND 0x80000000 = 0 then (if x AND 0x40000000 = 0 then 32 else k + 1) else k)"

definition lo0_step :: "u32 \<Rightarrow> nat \<Rightarrow> u32 \<times> nat \<Rightarrow> u32 \<times> nat" where
  "lo0_step mk sh p = (if fst p AND mk = 0 then (drop_bit sh (fst p), snd p + sh) else p)"

text \<open>The count, and what \<open>*y\<close> holds afterwards.\<close>

definition lo0bits :: "u32 \<Rightarrow> nat \<times> u32" where
  "lo0bits y =
     (if y AND 7 \<noteq> 0
      then (if y AND 1 \<noteq> 0 then (0, y)
            else if y AND 2 \<noteq> 0 then (1, drop_bit 1 y)
            else (2, drop_bit 2 y))
      else (let (x, k) = lo0_step 0x3 2 (lo0_step 0xF 4 (lo0_step 0xFF 8 (lo0_step 0xFFFF 16 (y, 0))))
            in if x AND 1 = 0
               then (let x = drop_bit 1 x in if x = 0 then (32, y) else (k + 1, x))
               else (k, x)))"

lemma and_not_mask_zero: "x AND NOT (mask n) = 0 \<longleftrightarrow> unat (x :: u32) < 2 ^ n"
proof -
  have "x AND NOT (mask n) = 0 \<longleftrightarrow> take_bit n x = x"
    by (auto simp: bit_eq_iff bit_simps)
  also have "\<dots> \<longleftrightarrow> take_bit n (unat x) = unat x"
    by (metis unsigned_take_bit_eq word_eq_iff_unsigned)
  also have "\<dots> \<longleftrightarrow> unat x < 2 ^ n"
    by (rule take_bit_nat_eq_self_iff)
  finally show ?thesis .
qed

lemma hi_masks:
  "(0xFFFF0000 :: u32) = NOT (mask 16)" "(0xFF000000 :: u32) = NOT (mask 24)"
  "(0xF0000000 :: u32) = NOT (mask 28)" "(0xC0000000 :: u32) = NOT (mask 30)"
  "(0x80000000 :: u32) = NOT (mask 31)"
  by (simp_all add: mask_numeral)

lemma lo_masks:
  "(0xFFFF :: u32) = mask 16" "(0xFF :: u32) = mask 8" "(0xF :: u32) = mask 4"
  "(0x3 :: u32) = mask 2" "(0x7 :: u32) = mask 3" "(0x1 :: u32) = mask 1"
  by (simp_all add: mask_numeral)

lemma and_mask_zero: "(x :: u32) AND mask n = 0 \<longleftrightarrow> 2 ^ n dvd unat x"
proof -
  have "x AND mask n = take_bit n x" by (simp add: take_bit_eq_mask)
  moreover have "take_bit n x = 0 \<longleftrightarrow> take_bit n (unat x) = 0"
    by (metis unat_eq_zero unsigned_take_bit_eq)
  ultimately show ?thesis by (simp add: take_bit_eq_mod mod_eq_0_iff_dvd)
qed

text \<open>The invariant of the steps: \<open>x\<close> is the argument shifted left by the count, nothing lost.\<close>

lemma hi0_step_inv:
  assumes "mk = NOT (mask (32 - sh))" "sh \<le> 32" "unat (fst p) = v * 2 ^ snd p"
  shows "unat (fst (hi0_step mk sh p)) = v * 2 ^ snd (hi0_step mk sh p)"
proof (cases "fst p AND mk = 0")
  case True
  then have "unat (fst p) < 2 ^ (32 - sh)" by (simp only: assms(1) and_not_mask_zero)
  then have "unat (fst p) * 2 ^ sh < 2 ^ (32 - sh) * 2 ^ sh" by simp
  then have "unat (fst p) * 2 ^ sh < 2 ^ 32" using assms(2) by (simp flip: power_add)
  then have "unat (push_bit sh (fst p)) = unat (fst p) * 2 ^ sh"
    by (rule unat_push_no_wrap)
  with True assms(3) show ?thesis by (simp add: hi0_step_def power_add)
qed (simp add: hi0_step_def assms(3))

lemma hi0_step_ge:
  assumes "mk = NOT (mask (32 - sh))" "sh \<le> 32" "2 ^ (32 - 2 * sh) \<le> unat (fst p)" "2 * sh \<le> 32"
  shows "2 ^ (32 - sh) \<le> unat (fst (hi0_step mk sh p))"
proof (cases "fst p AND mk = 0")
  case True
  then have "unat (fst p) < 2 ^ (32 - sh)" by (simp only: assms(1) and_not_mask_zero)
  then have "unat (fst p) * 2 ^ sh < 2 ^ (32 - sh) * 2 ^ sh" by simp
  then have "unat (fst p) * 2 ^ sh < 2 ^ 32" using assms(2) by (simp flip: power_add)
  then have "unat (push_bit sh (fst p)) = unat (fst p) * 2 ^ sh"
    by (rule unat_push_no_wrap)
  moreover have "2 ^ (32 - 2 * sh) * 2 ^ sh \<le> unat (fst p) * 2 ^ sh"
    using assms(3) by simp
  then have "2 ^ (32 - sh) \<le> unat (fst p) * 2 ^ sh"
    using assms(4) by (simp flip: power_add)
  ultimately show ?thesis using True by (simp add: hi0_step_def)
next
  case False
  then show ?thesis by (simp add: hi0_step_def assms(1) and_not_mask_zero)
qed

lemma hi0bits_nonzero:
  assumes "x \<noteq> 0"
  shows "2 ^ 31 \<le> unat x * 2 ^ hi0bits x" "unat x * 2 ^ hi0bits x < 2 ^ 32"
proof -
  define p1 where "p1 = hi0_step 0xFFFF0000 16 (x, 0)"
  define p2 where "p2 = hi0_step 0xFF000000 8 p1"
  define p3 where "p3 = hi0_step 0xF0000000 4 p2"
  define p4 where "p4 = hi0_step 0xC0000000 2 p3"
  have x1: "1 \<le> unat x" using assms by (simp add: unat_gt_0 Suc_leI)
  have e: "unat (fst p1) = unat x * 2 ^ snd p1"
    unfolding p1_def by (rule hi0_step_inv) (simp_all add: mask_numeral)
  have g: "2 ^ 16 \<le> unat (fst p1)"
    unfolding p1_def using hi0_step_ge [of "0xFFFF0000" 16 "(x, 0)"] x1 by (simp add: mask_numeral)
  have e: "unat (fst p2) = unat x * 2 ^ snd p2"
    unfolding p2_def by (rule hi0_step_inv [OF _ _ e]) (simp_all add: mask_numeral)
  have g: "2 ^ 24 \<le> unat (fst p2)"
    unfolding p2_def using hi0_step_ge [of "0xFF000000" 8 p1] g by (simp add: mask_numeral)
  have e: "unat (fst p3) = unat x * 2 ^ snd p3"
    unfolding p3_def by (rule hi0_step_inv [OF _ _ e]) (simp_all add: mask_numeral)
  have g: "2 ^ 28 \<le> unat (fst p3)"
    unfolding p3_def using hi0_step_ge [of "0xF0000000" 4 p2] g by (simp add: mask_numeral)
  have e: "unat (fst p4) = unat x * 2 ^ snd p4"
    unfolding p4_def by (rule hi0_step_inv [OF _ _ e]) (simp_all add: mask_numeral)
  have g: "2 ^ 30 \<le> unat (fst p4)"
    unfolding p4_def using hi0_step_ge [of "0xC0000000" 2 p3] g by (simp add: mask_numeral)
  have top: "fst p4 AND 0x80000000 = 0 \<longleftrightarrow> unat (fst p4) < 2 ^ 31"
    using and_not_mask_zero [of "fst p4" 31] by (simp add: hi_masks)
  have nz: "fst p4 AND 0x40000000 \<noteq> 0" if "unat (fst p4) < 2 ^ 31"
  proof
    assume z: "fst p4 AND 0x40000000 = 0"
    have "fst p4 AND 0x80000000 = 0" using that top by simp
    then have "fst p4 AND (0x80000000 OR 0x40000000) = 0" using z
      by (simp only: bit.conj_disj_distrib) simp
    then have "fst p4 AND 0xC0000000 = 0" by simp
    then show False using g by (simp only: hi_masks and_not_mask_zero)
  qed
  have k: "hi0bits x = (if unat (fst p4) < 2 ^ 31 then snd p4 + 1 else snd p4)"
    unfolding hi0bits_def p1_def [symmetric] p2_def [symmetric] p3_def [symmetric] p4_def [symmetric]
    using top nz by (simp add: case_prod_beta)
  have "unat (fst p4) < 2 ^ 32" using unat_u32_lt [of "fst p4"] by simp
  then show "2 ^ 31 \<le> unat x * 2 ^ hi0bits x" "unat x * 2 ^ hi0bits x < 2 ^ 32"
    using k e g by (simp_all split: if_splits)
qed

lemma lo0_step_inv:
  assumes "mk = mask sh" "v = unat (fst p) * 2 ^ snd p"
  shows "v = unat (fst (lo0_step mk sh p)) * 2 ^ snd (lo0_step mk sh p)"
proof (cases "fst p AND mk = 0")
  case True
  then have "2 ^ sh dvd unat (fst p)" by (simp only: assms(1) and_mask_zero)
  then have "unat (fst p) = unat (drop_bit sh (fst p)) * 2 ^ sh"
    by (rule unat_drop_exact [symmetric])
  with True assms(2) show ?thesis by (simp add: lo0_step_def power_add)
qed (simp add: lo0_step_def assms(2))


lemma lo0_step_nz:
  assumes "mk = mask sh" "\<not> 2 ^ (2 * sh) dvd unat (fst p)"
  shows "\<not> 2 ^ sh dvd unat (fst (lo0_step mk sh p))"
proof (cases "fst p AND mk = 0")
  case True
  then have d: "2 ^ sh dvd unat (fst p)" by (simp only: assms(1) and_mask_zero)
  show ?thesis
  proof
    assume "2 ^ sh dvd unat (fst (lo0_step mk sh p))"
    then have "2 ^ sh dvd unat (drop_bit sh (fst p))" using True by (simp only: lo0_step_def if_True fst_conv simp_thms)
    then have "2 ^ sh * 2 ^ sh dvd unat (drop_bit sh (fst p)) * 2 ^ sh" by (intro mult_dvd_mono) simp_all
    then have "2 ^ (2 * sh) dvd unat (fst p)"
      by (simp only: unat_drop_exact [OF d] mult_2 power_add)
    with assms(2) show False ..
  qed
next
  case False
  then show ?thesis using and_mask_zero [of "fst p" sh] by (simp add: lo0_step_def assms(1))
qed

lemma lo0bits_nonzero:
  assumes "y \<noteq> 0"
  shows "unat y = unat (snd (lo0bits y)) * 2 ^ fst (lo0bits y)" "odd (unat (snd (lo0bits y)))"
proof -
  have bit0: "x AND 1 = 0 \<longleftrightarrow> even (unat x)" for x :: u32
    using and_mask_zero [of x 1] by (simp add: mask_numeral flip: lo_masks)
  have main: "unat y = unat (snd (lo0bits y)) * 2 ^ fst (lo0bits y) \<and> odd (unat (snd (lo0bits y)))"
  proof (cases "y AND 7 = 0")
    case True
    define p1 where "p1 = lo0_step 0xFFFF 16 (y, 0)"
    define p2 where "p2 = lo0_step 0xFF 8 p1"
    define p3 where "p3 = lo0_step 0xF 4 p2"
    define p4 where "p4 = lo0_step 0x3 2 p3"
    have e: "unat y = unat (fst p1) * 2 ^ snd p1"
      unfolding p1_def by (rule lo0_step_inv) (simp_all add: lo_masks)
    have e: "unat y = unat (fst p2) * 2 ^ snd p2"
      unfolding p2_def by (rule lo0_step_inv [OF _ e]) (simp_all add: lo_masks)
    have e: "unat y = unat (fst p3) * 2 ^ snd p3"
      unfolding p3_def by (rule lo0_step_inv [OF _ e]) (simp_all add: lo_masks)
    have e: "unat y = unat (fst p4) * 2 ^ snd p4"
      unfolding p4_def by (rule lo0_step_inv [OF _ e]) (simp_all add: lo_masks)
    have y0: "0 < unat y" "unat y < 4294967296" using assms unat_u32_lt [of y] by (simp_all add: unat_gt_0)
    have n: "\<not> 2 ^ (2 * 16) dvd unat (fst (y, 0 :: nat))"
      using y0 nat_dvd_not_less [of "unat y" "4294967296"] by simp
    have n: "\<not> 2 ^ 16 dvd unat (fst p1)"
      unfolding p1_def by (rule lo0_step_nz [OF _ n]) (simp add: lo_masks)
    have n: "\<not> 2 ^ 8 dvd unat (fst p2)"
      unfolding p2_def by (rule lo0_step_nz) (use n in \<open>simp_all add: lo_masks\<close>)
    have n: "\<not> 2 ^ 4 dvd unat (fst p3)"
      unfolding p3_def by (rule lo0_step_nz) (use n in \<open>simp_all add: lo_masks\<close>)
    have n: "\<not> 2 ^ 2 dvd unat (fst p4)"
      unfolding p4_def by (rule lo0_step_nz) (use n in \<open>simp_all add: lo_masks\<close>)
    show ?thesis
    proof (cases "even (unat (fst p4))")
      case False
      then have "lo0bits y = (snd p4, fst p4)"
        unfolding lo0bits_def p1_def [symmetric] p2_def [symmetric] p3_def [symmetric] p4_def [symmetric]
        using True bit0 by (simp add: case_prod_beta)
      with e False show ?thesis by simp
    next
      case ev: True
      then have h: "unat (drop_bit 1 (fst p4)) * 2 = unat (fst p4)"
        using unat_drop_exact [of 1 "fst p4"] by simp
      have odd: "odd (unat (drop_bit 1 (fst p4)))"
      proof
        assume "even (unat (drop_bit 1 (fst p4)))"
        then have "2 * 2 dvd unat (drop_bit 1 (fst p4)) * 2" by (intro mult_dvd_mono) simp_all
        then show False unfolding h using n by simp
      qed
      then have "unat (drop_bit 1 (fst p4)) \<noteq> 0" by (metis even_zero)
      then have "drop_bit 1 (fst p4) \<noteq> 0" by (metis unsigned_0)
      then have "lo0bits y = (snd p4 + 1, drop_bit 1 (fst p4))"
        unfolding lo0bits_def p1_def [symmetric] p2_def [symmetric] p3_def [symmetric] p4_def [symmetric]
        using True bit0 ev by (simp add: case_prod_beta)
      moreover have "unat y = unat (drop_bit 1 (fst p4)) * 2 ^ (snd p4 + 1)"
        using e by (simp only: h [symmetric] power_add power_one_right mult_ac)
      ultimately show ?thesis using odd by (simp only: fst_conv snd_conv simp_thms)
    qed
  next
    case False
    then have n: "\<not> 8 dvd unat y" using and_mask_zero [of y 3] by (simp add: mask_numeral flip: lo_masks)
    have and2: "y AND 2 = 0 \<longleftrightarrow> \<not> bit y 1"
      using and_exp_eq_0_iff_not_bit [of y 1] by simp
    have "bit y 1 \<longleftrightarrow> bit (unat y) 1" by (simp add: bit_unsigned_iff)
    then have b1: "bit y 1 \<longleftrightarrow> odd (unat y div 2)" by (simp add: bit_iff_odd)
    have d1: "unat (drop_bit 1 y) = unat y div 2" and d2: "unat (drop_bit 2 y) = unat y div 4"
      unfolding unat_drop_bit_eq by (simp_all add: drop_bit_eq_div)
    consider "odd (unat y)" | "even (unat y)" "odd (unat y div 2)" | "even (unat y)" "even (unat y div 2)"
      by blast
    then show ?thesis
    proof cases
      case 1
      with False bit0 show ?thesis by (simp add: lo0bits_def)
    next
      case 2
      then have "lo0bits y = (1, drop_bit 1 y)" using False bit0 and2 b1 by (simp add: lo0bits_def)
      with 2 show ?thesis by (simp only: fst_conv snd_conv d1 simp_thms power_one_right dvd_div_mult_self)
    next
      case 3
      then have "lo0bits y = (2, drop_bit 2 y)" using False bit0 and2 b1 by (simp add: lo0bits_def)
      moreover from 3 have "4 dvd unat y" by presburger
      moreover from this n have "odd (unat y div 4)" by presburger
      ultimately show ?thesis by (simp only: fst_conv snd_conv d2 simp_thms) simp
    qed
  qed
  from main show "unat y = unat (snd (lo0bits y)) * 2 ^ fst (lo0bits y)" by blast
  from main show "odd (unat (snd (lo0bits y)))" by blast
qed


section \<open>s2b: reading decimal digits\<close>

lemma s2b_k_le: "0 < y \<Longrightarrow> x \<le> y * 2 ^ j \<Longrightarrow> s2b_k x y k \<le> k + j"
proof (induction x y k arbitrary: j rule: s2b_k.induct)
  case (1 x y k)
  show ?case
  proof (cases "y < x")
    case False
    then show ?thesis by (simp add: s2b_k.simps [of x y k])
  next
    case True
    with "1.prems" obtain i where j: "j = Suc i" by (cases j) auto
    have "s2b_k x (2 * y) (k + 1) \<le> (k + 1) + i"
      by (rule "1.IH") (use True "1.prems" j in \<open>auto simp: mult_ac\<close>)
    with True "1.prems" j show ?thesis by (simp add: s2b_k.simps [of x y k])
  qed
qed

text \<open>The digits after the ninth: they surround the decimal point, or follow it.\<close>

definition s2b_tail :: "string \<Rightarrow> nat \<Rightarrow> nat \<Rightarrow> string" where
  "s2b_tail s nd0 nd =
     (if 9 < nd0 then take (nd0 - 9) (drop 9 s) @ take (nd - nd0) (drop (nd0 + 1) s)
      else take (nd - 9) (drop 10 s))"

lemma s2b_Some:
  assumes "alloc_inv st" "9 \<le> nd" "nd0 \<le> nd" "nd \<le> 147456" "unat y9 < 10 ^ 9"
    and "length (s2b_tail s nd0 nd) = nd - 9" "list_all is_digit (s2b_tail s nd0 nd)"
  shows "\<exists>b' st'. s2b s nd0 nd y9 st = Some (b', st') \<and> wf b' \<and> normal b' \<and> alloc_inv st' \<and> p5s st' = p5s st
           \<and> bk b' < Kmax \<and> bval b' = dec_val (unat y9) (s2b_tail s nd0 nd)"
proof -
  define k where "k = s2b_k ((nd + 8) div 9) 1 0"
  have k14: "k \<le> 14"
    unfolding k_def using s2b_k_le [of 1 "(nd + 8) div 9" 14 0] assms(4) by simp
  then have kK: "k \<le> Kmax" "k < Kmax" by (simp_all add: Kmax_def)
  have kge: "nd \<le> 9 * 2 ^ k"
    unfolding k_def using s2b_k_ge [of 1 "(nd + 8) div 9" 0] by simp
  have big: "(10 :: nat) ^ nd \<le> 4294967296 ^ 2 ^ k"
  proof -
    have "(10 :: nat) ^ nd \<le> 10 ^ (9 * 2 ^ k)" using kge by (intro power_increasing) simp_all
    also have "\<dots> = (10 ^ 9) ^ 2 ^ k" by (rule power_mult)
    also have "\<dots> \<le> 4294967296 ^ 2 ^ k" by (intro power_mono) simp_all
    finally show ?thesis .
  qed
  from Balloc_Some [OF assms(1) kK(1)] obtain b s' where al: "Balloc k st = Some (b, s')" "bk b = k"
      "shape b" "alloc_inv s'" "p5s s' = p5s st" by blast
  have lb: "length (bx b) = 2 ^ k" "maxwds b = 2 ^ k" using al(2,3) by (simp_all add: shape_def)
  let ?b = "b\<lparr>bx := (bx b)[0 := y9], wds := 1\<rparr>"
  have wfb: "wf ?b" by (rule wf_updI) (use al lb kK in simp_all)
  have "digits ?b = [y9]" using lb(1) by (cases "bx b") (simp_all add: digits_def)
  then have vb: "bval ?b = unat y9" "normal ?b" by (simp_all add: bval_def normal_def)
  have st: "store (bx b) 0 y9 = Some ((bx b)[0 := y9])" using lb by (simp add: store_Some)
  note eq = s2b_def [of s nd0 nd y9 st, folded k_def, unfolded al(1), simplified st bind.simps prod.case Let_def]
  show ?thesis
  proof (cases "9 < nd0")
    case False
    with assms(6) have tl: "s2b_tail s nd0 nd = take (nd - 9) (drop 10 s)" "nd - 9 \<le> length (drop 10 s)"
      by (auto simp: s2b_tail_def)
    have "\<exists>b' st'. s2b_loop (drop 10 s) (nd - 9) ?b s' = Some (b', st') \<and> wf b' \<and> normal b' \<and> alloc_inv st'
        \<and> p5s st' = p5s s' \<and> bk b' = bk ?b \<and> bval b' = dec_val (bval ?b) (take (nd - 9) (drop 10 s))
        \<and> bval b' < 10 ^ (9 + (nd - 9))"
      by (rule s2b_loop_Some [OF wfb vb(2) al(4)])
         (use vb lb al(2) kK assms(2,5,7) big tl in simp_all)
    with False eq al(2,5) kK vb tl show ?thesis by auto
  next
    case True
    with assms(6) have tl: "s2b_tail s nd0 nd = take (nd0 - 9) (drop 9 s) @ take (nd - nd0) (drop (nd0 + 1) s)"
        "nd0 - 9 \<le> length (drop 9 s)" "nd - nd0 \<le> length (drop (nd0 + 1) s)"
      using assms(2,3) by (auto simp: s2b_tail_def min_def split: if_splits)
    have le: "(10 :: nat) ^ nd0 \<le> 4294967296 ^ 2 ^ k"
      by (rule le_trans [OF _ big]) (use assms(3) in \<open>intro power_increasing, simp_all\<close>)
    have "\<exists>b' st'. s2b_loop (drop 9 s) (nd0 - 9) ?b s' = Some (b', st') \<and> wf b' \<and> normal b' \<and> alloc_inv st'
        \<and> p5s st' = p5s s' \<and> bk b' = bk ?b \<and> bval b' = dec_val (bval ?b) (take (nd0 - 9) (drop 9 s))
        \<and> bval b' < 10 ^ (9 + (nd0 - 9))"
      by (rule s2b_loop_Some [OF wfb vb(2) al(4)])
         (use vb lb al(2) kK assms(2,5,7) big le tl True in simp_all)
    then obtain b1 s1 where b1: "s2b_loop (drop 9 s) (nd0 - 9) ?b s' = Some (b1, s1)" "wf b1" "normal b1"
        "alloc_inv s1" "p5s s1 = p5s s'" "bk b1 = bk ?b" "bval b1 = dec_val (bval ?b) (take (nd0 - 9) (drop 9 s))"
        "bval b1 < 10 ^ (9 + (nd0 - 9))" by blast
    have mb1: "maxwds b1 = 2 ^ k" using b1(2,6) al(2) by (simp add: wf_def shape_def)
    have "\<exists>b' st'. s2b_loop (drop (nd0 + 1) s) (nd - nd0) b1 s1 = Some (b', st') \<and> wf b' \<and> normal b' \<and> alloc_inv st'
        \<and> p5s st' = p5s s1 \<and> bk b' = bk b1 \<and> bval b' = dec_val (bval b1) (take (nd - nd0) (drop (nd0 + 1) s))
        \<and> bval b' < 10 ^ ((9 + (nd0 - 9)) + (nd - nd0))"
      by (rule s2b_loop_Some [OF b1(2,3,4) _ b1(8)])
         (use al(2) kK b1(6) mb1 assms(3,7) big tl True in simp_all)
    with True eq al(2,5) kK vb tl b1 show ?thesis by (auto simp: dec_val_append)
  qed
qed


section \<open>pow5mult: the chain of powers of 5\<close>

text \<open>\<open>p5s\<close> holds 625, 625^2, 625^4, ..., each made from the one before when it is first needed.\<close>

definition p5_first :: "dtoa_state \<Rightarrow> dtoa_state option" where
  "p5_first s = (case p5s s of
                   [] \<Rightarrow> do { (p5, s) \<leftarrow> i2b 625 s; Some (s\<lparr>p5s := [p5]\<rparr>) }
                 | _ # _ \<Rightarrow> Some s)"

definition p5_next :: "nat \<Rightarrow> bigint \<Rightarrow> dtoa_state \<Rightarrow> dtoa_state option" where
  "p5_next j p5 s =
     (if Suc j < length (p5s s) then Some s
      else do { (p51, s) \<leftarrow> mult p5 p5 s; Some (s\<lparr>p5s := p5s s @ [p51]\<rparr>) })"

function pow5_loop :: "nat \<Rightarrow> nat \<Rightarrow> bigint \<Rightarrow> dtoa_state \<Rightarrow> (bigint \<times> dtoa_state) option" where
  "pow5_loop k j b s = do {
     p5 \<leftarrow> load (p5s s) j;
     (b, s) \<leftarrow> (if odd k then do { (b1, s) \<leftarrow> mult b p5 s; Some (b1, Bfree (Some b) s) } else Some (b, s));
     if k div 2 = 0 then Some (b, s)
     else do {
       s \<leftarrow> p5_next j p5 s;
       pow5_loop (k div 2) (Suc j) b s
     }
   }"
  by pat_completeness auto
termination
  by (relation "measure (\<lambda>(k, j, b, s). k)") auto

declare pow5_loop.simps [simp del]

definition p05 :: "int list" where "p05 = [5, 25, 125]"

definition pow5mult :: "bigint \<Rightarrow> nat \<Rightarrow> dtoa_state \<Rightarrow> (bigint \<times> dtoa_state) option" where
  "pow5mult b k s = do {
     (b, s) \<leftarrow> (let i = k mod 4 in if i \<noteq> 0 then do { m \<leftarrow> load p05 (i - 1); multadd b m 0 s } else Some (b, s));
     if k div 4 = 0 then Some (b, s)
     else do { s \<leftarrow> p5_first s; pow5_loop (k div 4) 0 b s }
   }"

text \<open>
  The cache's invariant. Numbers of \<open>2 ^ 14\<close> words and less are in blocks the allocator has;
  \<open>big5\<close> is a bound under which every product stays below that size.
\<close>

definition p5_inv :: "dtoa_state \<Rightarrow> bool" where
  "p5_inv s \<longleftrightarrow> (\<forall>j < length (p5s s). wf (p5s s ! j) \<and> normal (p5s s ! j) \<and> bk (p5s s ! j) \<le> 14
                     \<and> bval (p5s s ! j) = 625 ^ 2 ^ j)"

definition big5 :: nat where "big5 = 4294967296 ^ 16382"

lemma wds_sum_le:
  assumes "wf a" "wf b" "normal a" "normal b" "0 < bval a" "0 < bval b" "bval a * bval b < big5"
  shows "wds a + wds b \<le> 16384"
proof -
  have p: "4294967296 ^ (wds c - 1) \<le> bval c" if "wf c" "normal c" "0 < bval c" for c
    using that normal_iff [OF that(1)] by auto
  have "(4294967296 :: nat) ^ (wds a - 1 + (wds b - 1)) \<le> bval a * bval b"
    unfolding power_add by (intro mult_le_mono p assms)
  also have "\<dots> < 4294967296 ^ 16382" using assms(7) by (simp only: big5_def)
  finally have "wds a - 1 + (wds b - 1) < 16382"
    by (rule power_less_imp_less_exp [rotated]) simp
  then show ?thesis by linarith
qed

lemma mult_below:
  assumes "wf a" "wf b" "normal a" "normal b" "alloc_inv s" "0 < bval a" "0 < bval b"
    and "bk a \<le> 14" "bk b \<le> 14" "bval a * bval b < big5"
  obtains c s' where "mult a b s = Some (c, s')" "wf c" "normal c" "bval c = bval a * bval b"
    "alloc_inv s'" "p5s s' = p5s s" "bk c \<le> 14"
proof -
  have mx: "max (bk a) (bk b) < Kmax" using assms(8,9) by (simp add: Kmax_def)
  from mult_Some [OF assms(1,2,5,6,7) mx] obtain c s' where c: "mult a b s = Some (c, s')" "wf c" "normal c"
      "bval c = bval a * bval b" "alloc_inv s'" "p5s s' = p5s s"
      "\<And>K. max (bk a) (bk b) \<le> K \<Longrightarrow> wds a + wds b \<le> 2 ^ K \<Longrightarrow> bk c \<le> K" by blast
  have "bk c \<le> 14" by (rule c(7)) (use assms wds_sum_le [of a b] in simp_all)
  with c show thesis by (intro that)
qed

lemma p5_next_Some:
  assumes "p5_inv s" "alloc_inv s" "j < length (p5s s)" "625 ^ 2 ^ Suc j < big5"
  shows "\<exists>s'. p5_next j (p5s s ! j) s = Some s' \<and> p5_inv s' \<and> alloc_inv s' \<and> Suc j < length (p5s s')"
proof (cases "Suc j < length (p5s s)")
  case True
  with assms show ?thesis by (simp add: p5_next_def)
next
  case False
  let ?p = "p5s s ! j"
  have p: "wf ?p" "normal ?p" "bk ?p \<le> 14" "bval ?p = 625 ^ 2 ^ j"
    using assms(1,3) by (simp_all add: p5_inv_def)
  have sq: "bval ?p * bval ?p = 625 ^ 2 ^ Suc j" unfolding p(4) by (simp flip: power_add)
  have pos: "0 < bval ?p" by (simp add: p(4))
  have lt: "bval ?p * bval ?p < big5" unfolding sq by (rule assms(4))
  obtain c s1 where c: "mult ?p ?p s = Some (c, s1)" "wf c" "normal c" "bval c = bval ?p * bval ?p"
      "alloc_inv s1" "p5s s1 = p5s s" "bk c \<le> 14"
    by (rule mult_below [OF p(1) p(1) p(2) p(2) assms(2) pos pos p(3) p(3) lt])
  have len: "length (p5s s) = Suc j" using assms(3) False by simp
  have "p5_inv (s1\<lparr>p5s := p5s s @ [c]\<rparr>)"
    using assms(1) c(2,3,4,7) len sq by (auto simp: p5_inv_def nth_append less_Suc_eq)
  then show ?thesis
    using False c(1,5,6) len by (intro exI [of _ "s1\<lparr>p5s := p5s s @ [c]\<rparr>"]) (simp add: p5_next_def)
qed

lemma pow5_loop_Some:
  assumes "wf b" "normal b" "0 < bval b" "bk b \<le> 14" "alloc_inv s" "p5_inv s" "j < length (p5s s)"
    and "0 < k" "bval b * (625 ^ 2 ^ j) ^ k < big5"
  shows "\<exists>b' s'. pow5_loop k j b s = Some (b', s') \<and> wf b' \<and> normal b' \<and> bk b' \<le> 14
           \<and> bval b' = bval b * (625 ^ 2 ^ j) ^ k \<and> alloc_inv s' \<and> p5_inv s'"
  using assms
proof (induction k j b s rule: pow5_loop.induct)
  case (1 k j b s)
  let ?p = "p5s s ! j"
  let ?P = "(625 :: nat) ^ 2 ^ j"
  have p: "wf ?p" "normal ?p" "bk ?p \<le> 14" "bval ?p = ?P"
    using "1.prems"(6,7) by (simp_all add: p5_inv_def)
  have ld: "load (p5s s) j = Some ?p" using "1.prems"(7) by (rule load_Some)
  have kk: "?P ^ k = (if odd k then ?P else 1) * (?P * ?P) ^ (k div 2)"
    by (cases "even k") (auto elim!: evenE oddE simp: power_mult power2_eq_square)
  have sq: "?P * ?P = 625 ^ 2 ^ Suc j" by (simp flip: power_add)
  have step: "\<exists>b1 s1. (if odd k then mult b ?p s \<bind> (\<lambda>(b1, s). Some (b1, Bfree (Some b) s)) else Some (b, s)) = Some (b1, s1)
      \<and> wf b1 \<and> normal b1 \<and> 0 < bval b1 \<and> bk b1 \<le> 14 \<and> alloc_inv s1 \<and> p5s s1 = p5s s
      \<and> bval b1 = bval b * (if odd k then ?P else 1)"
  proof (cases "odd k")
    case True
    have "bval b * bval ?p \<le> bval b * ?P ^ k"
      unfolding p(4) kk using True by simp
    then have "bval b * bval ?p < big5" using "1.prems"(9) by linarith
    moreover have "0 < bval ?p" by (simp add: p(4))
    ultimately obtain c s1 where c: "mult b ?p s = Some (c, s1)" "wf c" "normal c"
        "bval c = bval b * bval ?p" "alloc_inv s1" "p5s s1 = p5s s" "bk c \<le> 14"
      using "1.prems" p by (elim mult_below [of b ?p s])
    have "0 < bval c" using "1.prems"(3) by (simp add: c(4) p(4))
    with c True "1.prems"(1) show ?thesis
      by (intro exI [of _ c] exI [of _ "Bfree (Some b) s1"]) (simp add: p(4) wf_shape)
  next
    case False
    with "1.prems" show ?thesis by simp
  qed
  then obtain b1 s1 where s1: "(if odd k then mult b ?p s \<bind> (\<lambda>(b1, s). Some (b1, Bfree (Some b) s)) else Some (b, s)) = Some (b1, s1)"
      and b1: "wf b1" "normal b1" "0 < bval b1" "bk b1 \<le> 14" "alloc_inv s1" "p5s s1 = p5s s"
      "bval b1 = bval b * (if odd k then ?P else 1)" by blast
  have inv1: "p5_inv s1" using "1.prems"(6) b1(6) by (simp add: p5_inv_def)
  show ?case
  proof (cases "k div 2 = 0")
    case True
    then have "k = 1" using "1.prems"(8) by simp
    then have "pow5_loop k j b s = Some (b1, s1)"
      using s1 ld by (subst pow5_loop.simps) simp
    with b1 inv1 \<open>k = 1\<close> show ?thesis by (intro exI [of _ b1] exI [of _ s1]) simp
  next
    case False
    have val: "bval b1 * (625 ^ 2 ^ Suc j) ^ (k div 2) = bval b * ?P ^ k"
      unfolding kk b1(7) sq by (simp only: mult.assoc)
    have "625 ^ 2 ^ Suc j \<le> (625 ^ 2 ^ Suc j :: nat) ^ (k div 2)"
      using False by (intro self_le_power) simp_all
    also have "\<dots> \<le> bval b1 * (625 ^ 2 ^ Suc j) ^ (k div 2)" using b1(3) by simp
    finally have lt: "625 ^ 2 ^ Suc j < big5" using "1.prems"(9) val by linarith
    have j1: "j < length (p5s s1)" using "1.prems"(7) b1(6) by simp
    from p5_next_Some [OF inv1 b1(5) j1 lt] b1(6) obtain s2 where s2: "p5_next j ?p s1 = Some s2"
        "p5_inv s2" "alloc_inv s2" "Suc j < length (p5s s2)" by auto
    have "\<exists>b' s'. pow5_loop (k div 2) (Suc j) b1 s2 = Some (b', s') \<and> wf b' \<and> normal b' \<and> bk b' \<le> 14
           \<and> bval b' = bval b1 * (625 ^ 2 ^ Suc j) ^ (k div 2) \<and> alloc_inv s' \<and> p5_inv s'"
    proof (rule "1.IH" [OF ld s1 refl False s2(1)])
      show "bval b1 * (625 ^ 2 ^ Suc j) ^ (k div 2) < big5" unfolding val by (rule "1.prems"(9))
    qed (use b1(1-4) s2 False in simp_all)
    with s1 ld s2(1) False val show ?thesis by (simp add: pow5_loop.simps [of k])
  qed
qed


lemma p5_first_Some:
  assumes "p5_inv s" "alloc_inv s"
  shows "\<exists>s'. p5_first s = Some s' \<and> p5_inv s' \<and> alloc_inv s' \<and> 0 < length (p5s s')"
proof (cases "p5s s")
  case Nil
  from Balloc_Some [OF assms(2), of 1] obtain b s1 where al: "Balloc 1 s = Some (b, s1)" "bk b = 1" "shape b"
      "alloc_inv s1" by (auto simp: Kmax_def)
  let ?b = "b\<lparr>bx := (bx b)[0 := 625], wds := 1\<rparr>"
  have l: "length (bx b) = 2" "maxwds b = 2" using al(2,3) by (simp_all add: shape_def)
  have "wf ?b" by (rule wf_updI) (use al l in \<open>simp_all add: Kmax_def\<close>)
  moreover have "digits ?b = [625]" using l by (cases "bx b") (simp_all add: digits_def)
  then have "bval ?b = 625" "normal ?b" by (simp_all add: bval_def normal_def)
  ultimately have "p5_inv (s1\<lparr>p5s := [?b]\<rparr>)" using al(2) by (simp add: p5_inv_def)
  with Nil al l show ?thesis
    by (intro exI [of _ "s1\<lparr>p5s := [?b]\<rparr>"]) (simp add: p5_first_def i2b_def store_Some)
next
  case (Cons p ps)
  with assms show ?thesis by (simp add: p5_first_def)
qed

lemma pow5mult_Some:
  assumes "wf b" "normal b" "0 < bval b" "bk b \<le> 14" "alloc_inv s" "p5_inv s" "bval b * 5 ^ k < big5"
  shows "\<exists>b' s'. pow5mult b k s = Some (b', s') \<and> wf b' \<and> normal b' \<and> bk b' \<le> 14
           \<and> bval b' = bval b * 5 ^ k \<and> alloc_inv s' \<and> p5_inv s'"
proof -
  let ?i = "k mod 4"
  have kk: "(5 :: nat) ^ k = 5 ^ ?i * 625 ^ (k div 4)"
  proof -
    have "(5 :: nat) ^ k = 5 ^ (?i + 4 * (k div 4))" by simp
    also have "\<dots> = 5 ^ ?i * (5 ^ 4) ^ (k div 4)" by (simp only: power_add power_mult)
    finally show ?thesis by simp
  qed
  have first: "\<exists>b1 s1. (if ?i \<noteq> 0 then load p05 (?i - 1) \<bind> (\<lambda>m. multadd b m 0 s) else Some (b, s)) = Some (b1, s1)
      \<and> wf b1 \<and> normal b1 \<and> bk b1 \<le> 14 \<and> bval b1 = bval b * 5 ^ ?i \<and> alloc_inv s1 \<and> p5_inv s1"
  proof (cases "?i = 0")
    case True
    with assms show ?thesis by simp
  next
    case False
    then obtain m where m: "load p05 (?i - 1) = Some (int m)" "m = 5 ^ ?i" "1 \<le> m" "m < 65536"
    proof -
      have "?i < 4" by simp
      with False consider "?i = 1" | "?i = 2" | "?i = 3" by linarith
      then show thesis by cases (rule that [of "5 ^ ?i"]; simp add: p05_def load_def)+
    qed
    have kb: "wds b = maxwds b \<longrightarrow> bk b < Kmax" using assms(4) by (simp add: Kmax_def)
    obtain b1 s1 where b1: "multadd b (int m) 0 s = Some (b1, s1)" "wf b1" "alloc_inv s1" "p5s s1 = p5s s"
        "bval b1 = bval b * m + 0" "bk b1 \<le> (if wds b = maxwds b then bk b + 1 else bk b)"
        "wds b \<le> wds b1" "wds b1 \<le> wds b + 1"
        "wds b1 = wds b + 1 \<longrightarrow> normal b1" "wds b1 = wds b \<longrightarrow> bk b1 = bk b"
      by (rule multadd_Some [OF assms(1,5), of "int m" 0]) (use kb m(4) in auto)
    have n1: "normal b1"
      using b1(7-9) multadd_keeps_normal [OF assms(1,2) b1(2,5) m(3)] by fastforce
    have "bval b1 \<le> bval b * 5 ^ k" unfolding kk b1(5) m(2) by simp
    then have lt: "bval b1 < big5" using assms(7) by linarith
    have "bk b1 \<le> 14"
    proof (cases "wds b1 = wds b + 1 \<and> wds b = maxwds b")
      case True
      with normal_iff [OF b1(2)] b1(9) assms(1) have "4294967296 ^ maxwds b \<le> bval b1"
        by (auto simp: wf_def)
      with lt have "(4294967296 :: nat) ^ maxwds b < 4294967296 ^ 16382"
        unfolding big5_def by (rule le_less_trans [rotated])
      then have "maxwds b < 16382" by (rule power_less_imp_less_exp [rotated]) simp
      then have "(2 :: nat) ^ bk b < 2 ^ 14" using assms(1) by (simp add: wf_def shape_def)
      then have "bk b < 14" by (rule power_less_imp_less_exp [rotated]) simp
      with b1(6) show ?thesis by (simp split: if_splits)
    next
      case False
      with b1(6,7,8,10) assms(4) show ?thesis by (auto split: if_splits)
    qed
    moreover have "p5_inv s1" using assms(6) b1(4) by (simp add: p5_inv_def)
    ultimately show ?thesis using False m b1 n1 by (intro exI [of _ b1] exI [of _ s1]) simp
  qed
  then obtain b1 s1 where s1: "(if ?i \<noteq> 0 then load p05 (?i - 1) \<bind> (\<lambda>m. multadd b m 0 s) else Some (b, s)) = Some (b1, s1)"
    and b1: "wf b1" "normal b1" "bk b1 \<le> 14" "bval b1 = bval b * 5 ^ ?i" "alloc_inv s1" "p5_inv s1" by blast
  show ?thesis
  proof (cases "k div 4 = 0")
    case True
    then have "(5 :: nat) ^ ?i = 5 ^ k" unfolding kk by simp
    moreover have "pow5mult b k s = Some (b1, s1)"
      by (simp only: pow5mult_def Let_def s1 True bind.simps prod.case simp_thms if_True)
    ultimately show ?thesis using b1 by simp
  next
    case False
    from p5_first_Some [OF b1(6,5)] obtain s2 where s2: "p5_first s1 = Some s2" "p5_inv s2" "alloc_inv s2"
        "0 < length (p5s s2)" by blast
    have val: "bval b1 * (625 ^ 2 ^ 0) ^ (k div 4) = bval b * 5 ^ k"
      unfolding b1(4) kk by simp
    have "0 < bval b1" using assms(3) b1(4) by simp
    then have "\<exists>b' s'. pow5_loop (k div 4) 0 b1 s2 = Some (b', s') \<and> wf b' \<and> normal b' \<and> bk b' \<le> 14
           \<and> bval b' = bval b1 * (625 ^ 2 ^ 0) ^ (k div 4) \<and> alloc_inv s' \<and> p5_inv s'"
    proof (intro pow5_loop_Some)
      show "bval b1 * (625 ^ 2 ^ 0) ^ (k div 4) < big5" unfolding val by (rule assms(7))
    qed (use b1 s2 False in simp_all)
    with s1 s2(1) False val show ?thesis by (simp add: pow5mult_def Let_def)
  qed
qed


section \<open>d2b: a double as an odd integer and a power of 2\<close>

text \<open>
  A double is its two words \<open>d0\<close> (sign, exponent, upper fraction) and \<open>d1\<close>. The result is the
  integer with \<open>*e\<close> and \<open>*bits\<close>.
\<close>

definition d2b :: "u32 \<Rightarrow> u32 \<Rightarrow> dtoa_state \<Rightarrow> (bigint \<times> int \<times> int \<times> dtoa_state) option" where
  "d2b d0 d1 s = do {
     (b, s) \<leftarrow> Balloc 1 s;
     let z = d0 AND 0xFFFFF;
     let d0 = d0 AND 0x7FFFFFFF;
     let de = int (unat (drop_bit 20 d0));
     let z = z OR 0x100000;
     if d1 \<noteq> 0
     then do {
       let (k, y) = lo0bits d1;
       x \<leftarrow> (if k \<noteq> 0 then store (bx b) 0 (y OR push_bit (32 - k) z) else store (bx b) 0 y);
       let z = (if k \<noteq> 0 then drop_bit k z else z);
       x \<leftarrow> store x 1 z;
       Some (b\<lparr>bx := x, wds := (if z \<noteq> 0 then 2 else 1)\<rparr>, de - 1023 - 52 + int k, 53 - int k, s)
     }
     else do {
       let (k, z) = lo0bits z;
       x \<leftarrow> store (bx b) 0 z;
       let k = k + 32;
       Some (b\<lparr>bx := x, wds := 1\<rparr>, de - 1023 - 52 + int k, 53 - int k, s)
     }
   }"

text \<open>The 53 bits of the significand with the implicit bit, and the exponent field.\<close>

definition significand :: "u32 \<Rightarrow> u32 \<Rightarrow> nat" where
  "significand d0 d1 = 2 ^ 52 + (unat d0 mod 2 ^ 20) * 2 ^ 32 + unat d1"

definition exp_field :: "u32 \<Rightarrow> nat" where
  "exp_field d0 = unat d0 div 2 ^ 20 mod 2 ^ 11"

lemma exp_field_word: "unat (drop_bit 20 (d0 AND 0x7FFFFFFF)) = exp_field d0"
proof -
  have "d0 AND 0x7FFFFFFF = take_bit 31 d0" by (simp add: take_bit_eq_mask mask_numeral)
  then have "unat (d0 AND 0x7FFFFFFF) = take_bit 31 (unat d0)" by (simp only: unsigned_take_bit_eq)
  then have "unat (drop_bit 20 (d0 AND 0x7FFFFFFF)) = unat d0 mod 2 ^ 31 div 2 ^ 20"
    unfolding unat_drop_bit_eq by (simp only: drop_bit_eq_div take_bit_eq_mod)
  also have "\<dots> = exp_field d0"
    unfolding exp_field_def using mod_mult2_eq [of "unat d0" "2 ^ 20" "2 ^ 11"] by simp
  finally show ?thesis .
qed

lemma exp_field_uint: "uint (drop_bit 20 d0 AND 2047) = int (exp_field d0)"
  using arg_cong [OF exp_field_word [of d0], of int] by simp

lemma exp_field_uint': "uint (drop_bit 20 (d0 AND 0x7FFFFFFF)) = int (exp_field d0)"
  using arg_cong [OF exp_field_word [of d0], of int] by (simp only: uint_nat)

lemma frac_word: "unat ((d0 AND 0xFFFFF) OR 0x100000) = 2 ^ 20 + unat (d0 :: u32) mod 2 ^ 20"
proof -
  have t: "d0 AND 0xFFFFF = take_bit 20 d0" by (simp add: take_bit_eq_mask mask_numeral)
  have u: "unat (take_bit 20 d0) = unat d0 mod 2 ^ 20" unfolding unsigned_take_bit_eq by (rule take_bit_eq_mod)
  have l: "unat d0 mod 2 ^ 20 < (2 :: nat) ^ 20" by simp
  have "take_bit 20 d0 AND 0x100000 = 0"
    using and_exp_eq_0_iff_not_bit [of "take_bit 20 d0" 20] by (simp add: bit_simps)
  then have "(d0 AND 0xFFFFF) OR 0x100000 = take_bit 20 d0 + 0x100000"
    unfolding t by (rule disjunctive_add_eq_or [symmetric])
  moreover have "unat (take_bit 20 d0 + 0x100000) = unat (take_bit 20 d0) + unat (0x100000 :: u32)"
    by (rule unat_add_no_wrap) (use l in \<open>simp add: u\<close>)
  ultimately show ?thesis by (simp add: u)
qed


lemma join_bits:
  fixes y z d1 :: u32
  assumes "0 < k" "k < 32" "unat d1 = unat y * 2 ^ k"
  shows "unat (y OR push_bit (32 - k) z) + 4294967296 * unat (drop_bit k z) = unat y + unat z * 2 ^ (32 - k)"
proof -
  have e: "(2 :: nat) ^ (32 - k) * 2 ^ k = 4294967296" using assms(2) by (simp flip: power_add)
  have ylt: "unat y < 2 ^ (32 - k)"
  proof -
    have "unat y * 2 ^ k < 2 ^ (32 - k) * 2 ^ k" using unat_u32_lt [of d1] assms(3) e by simp
    then show ?thesis by simp
  qed
  have yt: "take_bit (32 - k) y = y"
    by (metis take_bit_nat_eq_self_iff unsigned_take_bit_eq word_eq_iff_unsigned ylt)
  have dis: "y AND push_bit (32 - k) z = 0"
  proof (rule bit_eqI)
    fix n
    have "bit y n = bit (take_bit (32 - k) y) n" by (simp only: yt)
    then show "bit (y AND push_bit (32 - k) z) n = bit (0 :: u32) n"
      by (auto simp: bit_and_iff bit_push_bit_iff bit_take_bit_iff)
  qed
  define q r where "q = unat z div 2 ^ k" and "r = unat z mod 2 ^ k"
  have z: "unat z = q * 2 ^ k + r" unfolding q_def r_def by (rule div_mult_mod_eq [symmetric])
  have p: "unat (push_bit (32 - k) z) = r * 2 ^ (32 - k)"
  proof -
    have "unat (push_bit (32 - k) z) = take_bit 32 (push_bit (32 - k) (unat z))"
      by (simp only: unsigned_push_bit_eq len_bit0 len_num1) simp
    also have "\<dots> = unat z * 2 ^ (32 - k) mod (2 ^ k * 2 ^ (32 - k))"
      using e by (simp add: take_bit_eq_mod push_bit_eq_mult mult.commute)
    also have "\<dots> = r * 2 ^ (32 - k)" by (simp only: mod_mult_mult2 r_def)
    finally show ?thesis .
  qed
  have "r + 1 \<le> 2 ^ k" by (simp add: r_def Suc_leI)
  then have "(r + 1) * 2 ^ (32 - k) \<le> 2 ^ k * 2 ^ (32 - k)" by (rule mult_le_mono1)
  then have "unat y + unat (push_bit (32 - k) z) < 4294967296" using ylt e by (simp add: p mult.commute)
  then have "unat (y + push_bit (32 - k) z) = unat y + r * 2 ^ (32 - k)"
    by (simp add: unat_add_no_wrap p)
  moreover have "y OR push_bit (32 - k) z = y + push_bit (32 - k) z"
    by (rule disjunctive_add_eq_or [symmetric]) (rule dis)
  moreover have "unat (drop_bit k z) = q" unfolding unat_drop_bit_eq by (simp only: drop_bit_eq_div q_def)
  moreover have "unat z * 2 ^ (32 - k) = q * 4294967296 + r * 2 ^ (32 - k)"
    unfolding z e [symmetric] by (simp add: algebra_simps)
  ultimately show ?thesis by simp
qed


text \<open>
  \<open>bval b\<close> is the significand without its trailing zero bits, \<open>*e\<close> puts them back (and the
  exponent's bias), \<open>*bits\<close> is the length of \<open>bval b\<close>.
\<close>

lemma d2b_Some:
  assumes "alloc_inv s"
  shows "\<exists>b e bits s' k. d2b d0 d1 s = Some (b, e, bits, s') \<and> wf b \<and> normal b \<and> alloc_inv s' \<and> p5s s' = p5s s
    \<and> odd (bval b) \<and> bval b * 2 ^ k = significand d0 d1 \<and> e = int (exp_field d0) - 1075 + int k \<and> bits = 53 - int k"
proof -
  from Balloc_Some [OF assms, of 1] obtain b s' where al: "Balloc 1 s = Some (b, s')" "bk b = 1" "shape b"
      "alloc_inv s'" "p5s s' = p5s s" by (auto simp: Kmax_def)
  have lb: "length (bx b) = 2" "maxwds b = 2" using al(2,3) by (simp_all add: shape_def)
  then obtain u v where uv: "bx b = [u, v]" by (auto simp: numeral_2_eq_2 length_Suc_conv)
  define z where "z = (d0 AND 0xFFFFF) OR 0x100000"
  have z: "unat z = 2 ^ 20 + unat d0 mod 2 ^ 20" unfolding z_def by (rule frac_word)
  have zpos: "z \<noteq> 0" using z by auto
  have wfr: "wf (b\<lparr>bx := x, wds := n\<rparr>)" if "length x = 2" "1 \<le> n" "n \<le> 2" for x n
    by (rule wf_updI) (use al that lb in \<open>simp_all add: Kmax_def\<close>)
  show ?thesis
  proof (cases "d1 = 0")
    case True
    obtain k y where ky: "lo0bits z = (k, y)" by fastforce
    from lo0bits_nonzero [OF zpos] ky have y: "unat z = unat y * 2 ^ k" "odd (unat y)" by simp_all
    let ?r = "b\<lparr>bx := [y, v], wds := 1\<rparr>"
    have "d2b d0 d1 s = Some (?r, int (exp_field d0) - 1023 - 52 + int (k + 32), 53 - int (k + 32), s')"
      using al(1) True ky uv by (simp add: d2b_def Let_def exp_field_uint store_def flip: z_def)
    moreover have "bval ?r = unat y" by (simp add: bval_def digits_def)
    moreover have "unat y * 2 ^ (k + 32) = significand d0 d1"
      using y(1) True z by (simp add: significand_def power_add)
    moreover have "normal ?r" by (simp add: normal_def)
    moreover have "wf ?r" by (rule wfr) simp_all
    ultimately show ?thesis using y(2) al
      by (intro exI [of _ ?r] exI [of _ "int (exp_field d0) - 1023 - 52 + int (k + 32)"]
            exI [of _ "53 - int (k + 32)"] exI [of _ s'] exI [of _ "k + 32"]) simp
  next
    case False
    obtain k y where ky: "lo0bits d1 = (k, y)" by fastforce
    from lo0bits_nonzero [OF False] ky have y: "unat d1 = unat y * 2 ^ k" "odd (unat y)" by simp_all
    have k32: "k < 32"
    proof (rule ccontr)
      assume "\<not> k < 32"
      then have "(2 :: nat) ^ 32 \<le> 2 ^ k" by (intro power_increasing) simp_all
      moreover have "2 ^ k \<le> unat d1" using y by (cases "unat y") simp_all
      ultimately show False using unat_u32_lt [of d1] by simp
    qed
    define x0 z1 where "x0 = (if k \<noteq> 0 then y OR push_bit (32 - k) z else y)"
      and "z1 = (if k \<noteq> 0 then drop_bit k z else z)"
    have sum: "unat x0 + 4294967296 * unat z1 = unat y + unat z * 2 ^ (32 - k)"
      using join_bits [OF _ k32 y(1), of z] by (cases "k = 0") (simp_all add: x0_def z1_def)
    let ?n = "if z1 \<noteq> 0 then 2 else 1 :: nat"
    let ?r = "b\<lparr>bx := [x0, z1], wds := ?n\<rparr>"
    have eq: "d2b d0 d1 s = Some (?r, int (exp_field d0) - 1023 - 52 + int k, 53 - int k, s')"
      using al(1) False ky uv
      by (cases "k = 0") (simp_all add: d2b_def Let_def exp_field_uint' store_def x0_def z1_def del: drop_bit_or drop_bit_and flip: z_def)
    have val: "bval ?r = unat y + unat z * 2 ^ (32 - k)"
      using sum by (cases "z1 = 0") (simp_all add: bval_def digits_def)
    have "(unat z * 2 ^ (32 - k)) * 2 ^ k = unat z * 4294967296"
      using k32 by (simp add: mult.assoc flip: power_add)
    then have "bval ?r * 2 ^ k = significand d0 d1"
      unfolding val using y(1) z by (simp add: significand_def add_mult_distrib)
    moreover have "odd (bval ?r)" unfolding val using y(2) k32 by simp
    moreover have "normal ?r" by (simp add: normal_def digits_def)
    moreover have "wf ?r" by (rule wfr) simp_all
    ultimately show ?thesis using eq al
      by (intro exI [of _ ?r] exI [of _ "int (exp_field d0) - 1023 - 52 + int k"]
            exI [of _ "53 - int k"] exI [of _ s'] exI [of _ k]) simp
  qed
qed


section \<open>quorem: one digit of a quotient\<close>

text \<open>
  The loop that subtracts \<open>q * S\<close> from \<open>b\<close>: two carries, one of the product, one of the
  difference. The correction that subtracts \<open>S\<close> once more has a loop of its own.
\<close>

fun quorem_loop :: "u32 \<Rightarrow> u32 \<Rightarrow> u32 \<Rightarrow> u32 list \<Rightarrow> u32 list \<Rightarrow> u32 list" where
  "quorem_loop q carry borrow (x # xs) (si # ss) =
     (let ys = (si AND 0xFFFF) * q + carry;
          zs = drop_bit 16 si * q + drop_bit 16 ys;
          carry' = drop_bit 16 zs;
          y = (x AND 0xFFFF) - (ys AND 0xFFFF) - borrow;
          borrow1 = drop_bit 16 (y AND 0x10000);
          z = drop_bit 16 x - (zs AND 0xFFFF) - borrow1;
          borrow2 = drop_bit 16 (z AND 0x10000)
      in join16 z y # quorem_loop q carry' borrow2 xs ss)"
| "quorem_loop q carry borrow xs ss = xs"

fun quorem_sub :: "u32 \<Rightarrow> u32 \<Rightarrow> u32 list \<Rightarrow> u32 list \<Rightarrow> u32 list" where
  "quorem_sub carry borrow (x # xs) (si # ss) =
     (let ys = (si AND 0xFFFF) + carry;
          zs = drop_bit 16 si + drop_bit 16 ys;
          carry' = drop_bit 16 zs;
          y = (x AND 0xFFFF) - (ys AND 0xFFFF) - borrow;
          borrow1 = drop_bit 16 (y AND 0x10000);
          z = drop_bit 16 x - (zs AND 0xFFFF) - borrow1;
          borrow2 = drop_bit 16 (z AND 0x10000)
      in join16 z y # quorem_sub carry' borrow2 xs ss)"
| "quorem_sub carry borrow xs ss = xs"

text \<open>\<open>while (--bxe > bx && !*bxe) --n;\<close> from \<open>bxe = bx + n\<close>.\<close>

fun quorem_trim :: "u32 list \<Rightarrow> nat \<Rightarrow> nat" where
  "quorem_trim x 0 = 0"
| "quorem_trim x (Suc m) = (if 0 < m \<and> x ! m = 0 then quorem_trim x m else Suc m)"

text \<open>The end of both halves: where the top word has become 0, \<open>wds\<close> is set anew.\<close>

definition quorem_top :: "bigint \<Rightarrow> u32 list \<Rightarrow> nat \<Rightarrow> (bigint \<times> nat) option" where
  "quorem_top b x n = do {
     t \<leftarrow> load x n;
     Some (if t = 0 then (b\<lparr>bx := x, wds := quorem_trim x n\<rparr>, quorem_trim x n) else (b\<lparr>bx := x\<rparr>, n))
   }"

definition quorem :: "bigint \<Rightarrow> bigint \<Rightarrow> (u32 \<times> bigint) option" where
  "quorem b S =
     (if wds b < wds S then Some (0, b)
      else if wds S = 0 then None \<comment> \<open>reads below the array\<close>
      else do {
        let n = wds S - 1;
        bt \<leftarrow> load (bx b) n;
        st \<leftarrow> load (bx S) n;
        if st + 1 = 0 then None \<comment> \<open>division by zero\<close>
        else do {
          let q = bt div (st + 1);
          (b, n) \<leftarrow> (if q \<noteq> 0 then quorem_top b (quorem_loop q 0 0 (bx b) (digits S)) n else Some (b, n));
          i \<leftarrow> cmp b S;
          if 0 \<le> i
          then do {
            (b, n) \<leftarrow> quorem_top b (quorem_sub 0 0 (bx b) (digits S)) n;
            Some (q + 1, b)
          }
          else Some (q, b)
        }
      })"

lemma product_halves:
  fixes y z :: u32
  shows "(push_bit 16 z + (y AND 0xFFFF)) AND 0xFFFF = y AND 0xFFFF"
    and "drop_bit 16 (push_bit 16 z + (y AND 0xFFFF)) = z AND 0xFFFF"
proof -
  have w: "push_bit 16 z + (y AND 0xFFFF) = join16 z y"
    unfolding join16_def by (rule disjunctive_add_eq_or) (rule push16_and_lo16_disjoint)
  show "(push_bit 16 z + (y AND 0xFFFF)) AND 0xFFFF = y AND 0xFFFF"
    unfolding w by (rule word_unat_eq_iff [THEN iffD2]) (simp only: unat_lo16 unat_join16, simp)
  show "drop_bit 16 (push_bit 16 z + (y AND 0xFFFF)) = z AND 0xFFFF"
    unfolding w by (rule word_unat_eq_iff [THEN iffD2]) (simp only: unat_lo16 unat_hi16 unat_join16)
qed

text \<open>Both loops are \<open>diff\<close>'s loop applied to the words that \<open>multadd\<close>'s loop makes.\<close>

lemma quorem_loop_eq:
  "length ss \<le> length xs \<Longrightarrow>
   quorem_loop q carry borrow xs ss
     = diff_loop borrow (take (length ss) xs) (fst (multadd_loop q carry ss)) @ drop (length ss) xs"
proof (induction q carry borrow xs ss rule: quorem_loop.induct)
  case (1 q carry borrow x xs si ss)
  let ?y = "(si AND 0xFFFF) * q + carry"
  let ?z = "drop_bit 16 si * q + drop_bit 16 ?y"
  note IH = "1.IH" [OF refl refl refl refl refl refl refl]
  show ?case
    using IH "1.prems" by (simp add: Let_def product_halves case_prod_beta)
qed simp_all

lemma quorem_sub_eq: "quorem_sub carry borrow xs ss = quorem_loop 1 carry borrow xs ss"
  by (induction carry borrow xs ss rule: quorem_sub.induct) (simp_all add: Let_def)


text \<open>Subtracting a multiple that is not too big leaves the difference.\<close>

lemma quorem_loop_value:
  assumes "length xs = length ss" "unat q < 65536" "unat q * wval ss \<le> wval xs"
  shows "length (quorem_loop q 0 0 xs ss) = length xs"
    and "wval (quorem_loop q 0 0 xs ss) = wval xs - unat q * wval ss"
proof -
  obtain ws c where m: "multadd_loop q 0 ss = (ws, c)" by fastforce
  from multadd_loop_correct [OF m assms(2)] have
    lws: "length ws = length ss" and vws: "wval ws + 4294967296 ^ length ss * unat c = unat q * wval ss"
    by simp_all
  have lt: "unat q * wval ss < 4294967296 ^ length ss"
    using assms(1,3) wval_lt [of xs] by simp
  have c0: "unat c = 0"
  proof (rule ccontr)
    assume "unat c \<noteq> 0"
    then have "4294967296 ^ length ss * 1 \<le> 4294967296 ^ length ss * unat c" by (intro mult_le_mono2) simp
    with vws lt show False by linarith
  qed
  define out where "out = diff_loop 0 xs ws"
  have eq: "quorem_loop q 0 0 xs ss = out"
    using quorem_loop_eq [of ss xs q 0 0] assms(1) m by (simp add: out_def)
  from diff_loop_correct [of 0 ws xs] lws assms(1) obtain \<beta> where
    lo: "length out = length xs" and sub: "wval out + wval ws = wval xs + 4294967296 ^ length xs * \<beta>"
    by (auto simp: out_def)
  have "\<beta> = 0"
  proof (rule ccontr)
    assume "\<beta> \<noteq> 0"
    then have "4294967296 ^ length xs * 1 \<le> 4294967296 ^ length xs * \<beta>" by (intro mult_le_mono2) simp
    moreover have "wval out < 4294967296 ^ length xs" using wval_lt [of out] lo by simp
    moreover have "wval ws = unat q * wval ss" using vws c0 by simp
    ultimately show False using sub assms(3) by linarith
  qed
  then show "length (quorem_loop q 0 0 xs ss) = length xs"
    and "wval (quorem_loop q 0 0 xs ss) = wval xs - unat q * wval ss"
    using eq lo sub vws c0 by simp_all
qed

text \<open>A number as \<open>quorem\<close> leaves it: \<open>wds = 0\<close> is possible, and then it is 0.\<close>

definition rem_ok :: "bigint \<Rightarrow> bool" where
  "rem_ok b \<longleftrightarrow> shape b \<and> (if wds b = 0 then bx b ! 0 = 0 else normal b)"

lemma quorem_trim_props:
  "quorem_trim x n \<le> n \<and> (0 < n \<longrightarrow> 0 < quorem_trim x n)
   \<and> (quorem_trim x n \<noteq> 1 \<longrightarrow> n \<noteq> 0 \<longrightarrow> x ! (quorem_trim x n - 1) \<noteq> 0)"
  by (induction n) auto

lemma quorem_trim_wval: "n \<le> length x \<Longrightarrow> wval (take (quorem_trim x n) x) = wval (take n x)"
  by (induction n) (auto simp: take_Suc_conv_app_nth wval_append)

lemma quorem_top_Some:
  assumes "wf b" "wds b = Suc n" "length x = length (bx b)"
  shows "\<exists>b' m. quorem_top b x n = Some (b', m) \<and> rem_ok b' \<and> bval b' = wval (take (Suc n) x)
          \<and> (wds b' = Suc n \<longrightarrow> m = n) \<and> wds b' \<le> Suc n \<and> bk b' = bk b \<and> maxwds b' = maxwds b \<and> length (bx b') = length (bx b)"
proof -
  have n: "n < length x" using assms by (auto simp: wf_def shape_def)
  show ?thesis
  proof (cases "x ! n = 0")
    case True
    let ?m = "quorem_trim x n"
    let ?r = "b\<lparr>bx := x, wds := ?m\<rparr>"
    have eq: "quorem_top b x n = Some (?r, ?m)"
      using True n by (simp add: quorem_top_def load_Some)
    have m: "?m \<le> n" "0 < n \<Longrightarrow> 0 < ?m" "?m \<noteq> 1 \<Longrightarrow> n \<noteq> 0 \<Longrightarrow> x ! (?m - 1) \<noteq> 0"
      using quorem_trim_props [of x n] by auto
    have sh: "shape ?r" using assms m(1) by (simp add: wf_def shape_def)
    have "bval ?r = wval (take (Suc n) x)"
      using quorem_trim_wval [of n x] n True
      by (simp add: bval_def digits_def take_Suc_conv_app_nth wval_append)
    moreover have "rem_ok ?r"
    proof (cases "n = 0")
      case True
      with \<open>x ! n = 0\<close> sh m(1) show ?thesis by (simp add: rem_ok_def)
    next
      case False
      with m have m0: "?m \<noteq> 0" by simp
      have "normal ?r"
      proof (cases "?m = 1")
        case False
        have "digits ?r = take ?m x" by (simp add: digits_def)
        moreover have "last (take ?m x) = x ! (?m - 1)"
          using m0 m(1) n by (subst last_conv_nth) (auto simp: min_def)
        ultimately show ?thesis using m(3) [OF False \<open>n \<noteq> 0\<close>] m0 n by (auto simp: normal_def)
      qed (simp add: normal_def)
      with sh m0 show ?thesis by (simp add: rem_ok_def)
    qed
    ultimately show ?thesis using eq m(1) assms(3) by (intro exI [of _ ?r] exI [of _ ?m]) simp
  next
    case False
    let ?r = "b\<lparr>bx := x\<rparr>"
    have "digits ?r = take (Suc n) x" using assms(2) by (simp add: digits_def)
    moreover have "last (take (Suc n) x) = x ! n" using n by (simp add: take_Suc_conv_app_nth)
    ultimately have "normal ?r" using False n by (auto simp: normal_def)
    then have "rem_ok ?r" using assms by (simp add: rem_ok_def wf_def shape_def)
    moreover have "quorem_top b x n = Some (?r, n)" using False n by (simp add: quorem_top_def load_Some)
    moreover have "bval ?r = wval (take (Suc n) x)" by (simp add: bval_def digits_def assms(2))
    ultimately show ?thesis using assms(2,3) by (intro exI [of _ ?r] exI [of _ n]) simp
  qed
qed


lemma quorem_loop_take:
  "length ss \<le> length xs \<Longrightarrow>
   quorem_loop q c r xs ss = quorem_loop q c r (take (length ss) xs) ss @ drop (length ss) xs"
  by (simp add: quorem_loop_eq)

text \<open>The estimate from the top words is the digit or one less.\<close>

lemma quorem_estimate:
  fixes W bn sn b' s' :: nat
  assumes "b' < W" "s' < W" "bn * W + b' < 10 * (sn * W + s')" "10 \<le> sn"
  defines "q \<equiv> bn div (sn + 1)"
  shows "q * (sn * W + s') \<le> bn * W + b'" "bn * W + b' < (q + 2) * (sn * W + s')" "q \<le> 9"
proof -
  have S: "sn * W + s' \<le> (sn + 1) * W" using assms(2) by simp
  have "q * (sn + 1) \<le> bn" unfolding q_def by (rule div_times_less_eq_dividend)
  have "q * (sn * W + s') \<le> q * ((sn + 1) * W)" using S by (rule mult_le_mono2)
  also have "\<dots> = (q * (sn + 1)) * W" by (simp only: mult.assoc)
  also have "\<dots> \<le> bn * W" using \<open>q * (sn + 1) \<le> bn\<close> by (rule mult_le_mono1)
  finally show "q * (sn * W + s') \<le> bn * W + b'" by simp
  have "bn * W < 10 * (sn * W + s')" using assms(3) by linarith
  also have "\<dots> \<le> 10 * ((sn + 1) * W)" using S by (rule mult_le_mono2)
  finally have "bn * W < 10 * ((sn + 1) * W)" .
  then have "bn < 10 * (sn + 1)" by (metis mult.assoc mult_less_cancel2)
  then have "q < 10" unfolding q_def by (simp only: less_mult_imp_div_less mult.commute)
  then show q9: "q \<le> 9" by simp
  have "bn < (q + 1) * (sn + 1)" unfolding q_def using dividend_less_div_times [of "sn + 1" bn] by simp
  then have "bn + 1 \<le> (q + 1) * (sn + 1)" by simp
  also have "\<dots> \<le> (q + 2) * sn" using q9 assms(4) by (simp add: algebra_simps)
  finally have "(bn + 1) * W \<le> ((q + 2) * sn) * W" by (rule mult_le_mono1)
  moreover have "((q + 2) * sn) * W \<le> (q + 2) * (sn * W + s')"
    unfolding mult.assoc by (rule mult_le_mono2) simp
  ultimately show "bn * W + b' < (q + 2) * (sn * W + s')" using assms(1) by simp
qed

lemma bval_top:
  assumes "wf b" "wds b = Suc n"
  shows "bval b = unat (bx b ! n) * 4294967296 ^ n + wval (take n (bx b))"
    "wval (take n (bx b)) < 4294967296 ^ n"
proof -
  have n: "n < length (bx b)" using assms by (simp add: wf_def shape_def)
  then show "bval b = unat (bx b ! n) * 4294967296 ^ n + wval (take n (bx b))"
    by (simp add: bval_def digits_def assms(2) take_Suc_conv_app_nth wval_append mult.commute)
  show "wval (take n (bx b)) < 4294967296 ^ n"
    using wval_lt [of "take n (bx b)"] n by (simp add: min_def)
qed

lemma cmp_rem:
  assumes "rem_ok b" "wf S" "normal S" "0 < bval S"
  shows "\<exists>i. cmp b S = Some i \<and> (0 \<le> i \<longleftrightarrow> bval S \<le> bval b) \<and> (0 \<le> i \<longrightarrow> wf b \<and> wds S \<le> wds b)"
proof (cases "wds b = 0")
  case True
  then have "bval b = 0" by (simp add: bval_def digits_def)
  with True assms(2,4) show ?thesis by (auto simp: cmp_def wf_def)
next
  case False
  then have b: "wf b" "normal b" using assms(1) by (simp_all add: rem_ok_def wf_def)
  from cmp_Some [OF b(1) assms(2) b(2) assms(3)] obtain i where
    i: "cmp b S = Some i" "i < 0 \<longleftrightarrow> bval b < bval S" by blast
  have "wds S \<le> wds b" if "0 \<le> i"
    using wval_lt_of_wds [OF b(1) assms(2,3)] i(2) that by linarith
  with i b(1) show ?thesis by (metis not_le)
qed

lemma quorem_pass:
  assumes "wf b" "wf S" "wds b = Suc n" "wds S = Suc n" "unat q < 65536" "unat q * bval S \<le> bval b"
  shows "\<exists>b' m. quorem_top b (quorem_loop q 0 0 (bx b) (digits S)) n = Some (b', m) \<and> rem_ok b'
          \<and> bval b' = bval b - unat q * bval S \<and> (wds b' = Suc n \<longrightarrow> m = n) \<and> wds b' \<le> Suc n"
proof -
  have lS: "length (digits S) = Suc n" using assms(2,4) by (simp add: wf_shape)
  have lb: "Suc n \<le> length (bx b)" using assms(1,3) by (simp add: wf_def shape_def)
  let ?x = "quorem_loop q 0 0 (take (Suc n) (bx b)) (digits S)"
  have v: "length ?x = Suc n" "wval ?x = bval b - unat q * bval S"
    using quorem_loop_value [of "take (Suc n) (bx b)" "digits S" q] lS lb assms(3,5,6)
    by (simp_all add: bval_def digits_def min_def)
  have eq: "quorem_loop q 0 0 (bx b) (digits S) = ?x @ drop (Suc n) (bx b)"
    using quorem_loop_take [of "digits S" "bx b" q 0 0] lS lb by simp
  have len: "length (?x @ drop (Suc n) (bx b)) = length (bx b)" using v(1) lb by simp
  have "take (Suc n) (?x @ drop (Suc n) (bx b)) = ?x" using v(1) by simp
  with quorem_top_Some [OF assms(1,3) len] v(2) show ?thesis unfolding eq by metis
qed

lemma div_mod_intro: "(b :: nat) = q * S + r \<Longrightarrow> r < S \<Longrightarrow> b div S = q \<and> b mod S = r"
  by simp

lemma quorem_Some:
  assumes "rem_ok b" "wf S" "bval b < 10 * bval S"
    and "10 \<le> unat (last (digits S))" "unat (last (digits S)) < 2 ^ 28"
  shows "\<exists>q b'. quorem b S = Some (q, b') \<and> unat q = bval b div bval S \<and> bval b' = bval b mod bval S \<and> rem_ok b'"
proof -
  obtain n where n: "wds S = Suc n" using assms(2) by (cases "wds S") (auto simp: wf_def)
  have lS: "n < length (bx S)" using assms(2) n by (simp add: wf_def shape_def)
  have top: "last (digits S) = bx S ! n"
    using lS n by (simp add: digits_def take_Suc_conv_app_nth)
  have nS: "normal S" using assms(4) digits_nonempty [OF assms(2)] by (auto simp: normal_def)
  note S = bval_top [OF assms(2) n]
  have S0: "0 < bval S" using S(1) assms(4) top by (auto intro!: Suc_leI)
  have no_sub: "\<exists>q b'. quorem b S = Some (q, b') \<and> unat q = bval b div bval S \<and> bval b' = bval b mod bval S \<and> rem_ok b'"
    if "wds b < wds S"
  proof -
    have "bval b < bval S"
    proof (cases "wds b = 0")
      case True
      then show ?thesis using S0 by (simp add: bval_def digits_def)
    next
      case False
      then have "wf b" using assms(1) by (simp add: rem_ok_def wf_def)
      from wval_lt_of_wds [OF this assms(2) nS that] show ?thesis .
    qed
    with that assms(1) show ?thesis by (simp add: quorem_def)
  qed
  show ?thesis
  proof (cases "wds b < wds S")
    case True
    then show ?thesis by (rule no_sub)
  next
    case False
    then have b: "wf b" "normal b" using assms(1) n by (auto simp: rem_ok_def wf_def)
    have "bval b < 4294967296 ^ Suc n"
    proof -
      have "bval S < (unat (bx S ! n) + 1) * 4294967296 ^ n" using S by simp
      also have "unat (bx S ! n) + 1 \<le> 268435456" using assms(5) top by simp
      then have "(unat (bx S ! n) + 1) * 4294967296 ^ n \<le> 268435456 * 4294967296 ^ n" by (rule mult_le_mono1)
      finally show ?thesis using assms(3) by simp
    qed
    moreover have "4294967296 ^ Suc n \<le> bval b" if "Suc n < wds b"
    proof -
      have "(4294967296 :: nat) ^ Suc n \<le> 4294967296 ^ (wds b - 1)"
        using that by (intro power_increasing) simp_all
      also have "\<dots> \<le> bval b" using normal_iff [OF b(1)] b(2) that by simp
      finally show ?thesis .
    qed
    ultimately have nb: "wds b = Suc n" using False n by fastforce
    note B = bval_top [OF b(1) nb]
    have lb: "n < length (bx b)" using b(1) nb by (simp add: wf_def shape_def)
    define q where "q = bx b ! n div (bx S ! n + 1)"
    have "unat (bx S ! n + 1) = unat (bx S ! n) + 1"
      using assms(5) top by (simp add: unat_add_no_wrap)
    then have uq: "unat q = unat (bx b ! n) div (unat (bx S ! n) + 1)" and nz: "bx S ! n + 1 \<noteq> 0"
      by (auto simp: q_def unat_div)
    have "10 \<le> unat (bx S ! n)" using assms(4) top by simp
    from quorem_estimate [OF B(2) S(2) assms(3) [unfolded B(1) S(1)] this]
    have est: "unat q * bval S \<le> bval b" "bval b < (unat q + 2) * bval S" "unat q \<le> 9"
      unfolding B(1) S(1) uq by simp_all
    have "\<exists>b1 m. (if q \<noteq> 0 then quorem_top b (quorem_loop q 0 0 (bx b) (digits S)) n else Some (b, n)) = Some (b1, m)
        \<and> rem_ok b1 \<and> bval b1 = bval b - unat q * bval S \<and> (wds b1 = Suc n \<longrightarrow> m = n) \<and> wds b1 \<le> Suc n"
    proof (cases "q = 0")
      case True
      with assms(1) nb show ?thesis by simp
    next
      case False
      have "unat q < 65536" using est(3) by simp
      from quorem_pass [OF b(1) assms(2) nb n this est(1)] False show ?thesis by simp
    qed
    then obtain b1 m where b1: "(if q \<noteq> 0 then quorem_top b (quorem_loop q 0 0 (bx b) (digits S)) n else Some (b, n)) = Some (b1, m)"
        "rem_ok b1" "bval b1 = bval b - unat q * bval S" "wds b1 = Suc n \<longrightarrow> m = n" "wds b1 \<le> Suc n" by blast
    from cmp_rem [OF b1(2) assms(2) nS S0] obtain i where i: "cmp b1 S = Some i"
        "0 \<le> i \<longleftrightarrow> bval S \<le> bval b1" "0 \<le> i \<longrightarrow> wf b1 \<and> wds S \<le> wds b1" by blast
    have eq: "quorem b S = (if 0 \<le> i
        then quorem_top b1 (quorem_sub 0 0 (bx b1) (digits S)) m \<bind> (\<lambda>(b, n). Some (q + 1, b)) else Some (q, b1))"
      using nb n lb lS nz i(1) b1(1) by (simp add: quorem_def load_Some flip: q_def)
    show ?thesis
    proof (cases "0 \<le> i")
      case False
      then have "bval b1 < bval S" using i(2) by simp
      then have "bval b div bval S = unat q \<and> bval b mod bval S = bval b1"
        using b1(3) est(1) by (intro div_mod_intro) simp_all
      with eq False b1(2) show ?thesis by simp
    next
      case True
      with i b1(4,5) n have m: "wf b1" "wds b1 = Suc n" "m = n" "bval S \<le> bval b1" by auto
      from quorem_pass [OF m(1) assms(2) m(2) n, of 1] m(4)
      obtain b2 m2 where b2: "quorem_top b1 (quorem_sub 0 0 (bx b1) (digits S)) m = Some (b2, m2)" "rem_ok b2"
          "bval b2 = bval b1 - bval S" by (auto simp: quorem_sub_eq m(3))
      have "unat (q + 1) = unat q + 1" using est(3) by (simp add: unat_add_no_wrap)
      moreover have "bval b = (unat q + 1) * bval S + bval b2" "bval b2 < bval S"
        using b2(3) m(4) b1(3) est(1,2) by (simp_all add: algebra_simps)
      ultimately have "bval b div bval S = unat (q + 1) \<and> bval b mod bval S = bval b2"
        by (intro div_mod_intro) simp_all
      with eq True b2 show ?thesis by simp
    qed
  qed
qed


section \<open>The properties\<close>

text \<open>Concrete numbers for the examples: one full word, and two words in a block of two.\<close>

definition st0 :: dtoa_state where
  "st0 = \<lparr>freelist = (\<lambda>_. []), pmem_next = 0, p5s = [], junk = (\<lambda>_. 0xDEADBEEF)\<rparr>"

definition one_word :: "u32 \<Rightarrow> bigint" where
  "one_word w = \<lparr>bk = 0, maxwds = 1, bsign = 0, wds = 1, bx = [w]\<rparr>"

definition two_words :: "u32 \<Rightarrow> u32 \<Rightarrow> bigint" where
  "two_words w v = \<lparr>bk = 1, maxwds = 2, bsign = 0, wds = 2, bx = [w, v]\<rparr>"

lemma st0_inv [simp]: "alloc_inv st0" "p5_inv st0"
  by (simp_all add: st0_def alloc_inv_def p5_inv_def)

lemma one_word_props [simp]: "wf (one_word w)" "normal (one_word w)" "bval (one_word w) = unat w"
    "wds (one_word w) = 1" "bk (one_word w) = 0" "rem_ok (one_word w)" "digits (one_word w) = [w]"
  by (simp_all add: one_word_def wf_def shape_def normal_def bval_def digits_def rem_ok_def)

lemma two_words_props [simp]: "wf (two_words w v)" "v \<noteq> 0 \<Longrightarrow> normal (two_words w v)"
    "bval (two_words w v) = unat w + 4294967296 * unat v" "wds (two_words w v) = 2"
    "bk (two_words w v) = 1" "digits (two_words w v) = [w, v]"
  by (simp_all add: two_words_def wf_def shape_def normal_def bval_def digits_def Kmax_def)

text \<open>\<open>multadd\<close> multiplies by a small number and adds a small number: with a factor and a
  summand below \<open>2 ^ 16\<close> it never leaves its array, growing into the next block size only when
  the array is full and a carry is left, whatever block the allocator returns.\<close>

theorem multadd_correct:
  assumes "wf b" "alloc_inv s" "0 \<le> m" "m < 65536" "0 \<le> a" "a < 65536"
    and "wds b = maxwds b \<longrightarrow> bk b < Kmax"
  shows "\<exists>b' s'. multadd b m a s = Some (b', s') \<and> wf b' \<and> alloc_inv s'
           \<and> bval b' = bval b * nat m + nat a \<and> wds b' \<le> wds b + 1
           \<and> (wds b' = wds b \<longrightarrow> bk b' = bk b)"
  using multadd_Some [OF assms] by (metis (no_types))

theorem multadd_correct_witness:
  "\<exists>b' s'. multadd (one_word 0xFFFFFFFF) 10 7 st0 = Some (b', s') \<and> bval b' = 42949672957"
  using multadd_correct [of "one_word 0xFFFFFFFF" st0 10 7] by (auto simp: Kmax_def)

text \<open>C31. \<open>mult\<close> computes the product of two nonzero numbers, without leading zero words, in a
  block that is big enough for it, and never stores outside it.\<close>

theorem mult_correct:
  assumes "wf a" "wf b" "alloc_inv s" "0 < bval a" "0 < bval b" "max (bk a) (bk b) < Kmax"
  shows "\<exists>c s'. mult a b s = Some (c, s') \<and> wf c \<and> normal c \<and> bval c = bval a * bval b \<and> alloc_inv s'"
  using mult_Some [OF assms] by (metis (no_types))

theorem mult_correct_witness:
  "\<exists>c s'. mult (one_word 0xFFFFFFFF) (two_words 5 7) st0 = Some (c, s') \<and> normal c
          \<and> bval c = 4294967295 * 30064771077"
  using mult_correct [of "one_word 0xFFFFFFFF" "two_words 5 7" st0] by (auto simp: Kmax_def)

text \<open>\<open>lshift\<close> multiplies by \<open>2 ^ k\<close>.\<close>

theorem lshift_correct:
  assumes "wf b" "normal b" "alloc_inv s" "0 < bval b" "k div 32 + wds b + 1 \<le> 2 ^ Kmax"
  shows "\<exists>b' s'. lshift b k s = Some (b', s') \<and> wf b' \<and> normal b' \<and> bval b' = bval b * 2 ^ k \<and> alloc_inv s'"
  using lshift_Some [OF assms] by (metis (no_types))

theorem lshift_correct_witness:
  "\<exists>b' s'. lshift (one_word 0x80000001) 33 st0 = Some (b', s') \<and> bval b' = 2147483649 * 2 ^ 33"
  using lshift_correct [of "one_word 0x80000001" st0 33] by (auto simp: Kmax_def)

text \<open>\<open>diff\<close> computes the distance of two numbers, and its \<open>sign\<close> says which was smaller.\<close>

theorem diff_correct:
  assumes "wf a" "wf b" "normal a" "normal b" "alloc_inv s"
  shows "\<exists>c s'. diff a b s = Some (c, s') \<and> wf c \<and> normal c \<and> alloc_inv s'
           \<and> int (bval c) = \<bar>int (bval a) - int (bval b)\<bar> \<and> bsign c = (if bval a < bval b then 1 else 0)"
  using diff_Some [OF assms] by (metis (no_types))

theorem diff_correct_witness:
  "\<exists>c s'. diff (one_word 7) (two_words 5 1) st0 = Some (c, s') \<and> bval c = 4294967294 \<and> bsign c = 1"
  using diff_correct [of "one_word 7" "two_words 5 1" st0] by auto

text \<open>\<open>s2b\<close> reads a decimal number: given the value of the first nine digits it returns the
  value of all \<open>nd\<close> digits, on both sides of the decimal point, from a block chosen once.\<close>

theorem s2b_correct:
  assumes "alloc_inv st" "9 \<le> nd" "nd0 \<le> nd" "nd \<le> 147456" "unat y9 < 10 ^ 9"
    and "length (s2b_tail s nd0 nd) = nd - 9" "list_all is_digit (s2b_tail s nd0 nd)"
  shows "\<exists>b' st'. s2b s nd0 nd y9 st = Some (b', st') \<and> wf b' \<and> normal b' \<and> alloc_inv st'
           \<and> bval b' = dec_val (unat y9) (s2b_tail s nd0 nd)"
  using s2b_Some [OF assms] by blast

theorem s2b_correct_witness:
  "\<exists>b' st'. s2b ''1234567890.12'' 10 12 123456789 st0 = Some (b', st') \<and> bval b' = 123456789012"
proof -
  have t: "s2b_tail ''1234567890.12'' 10 12 = ''012''" by (simp add: s2b_tail_def)
  have d: "list_all is_digit ''012''" "dec_val 123456789 ''012'' = 123456789012"
    by (simp_all add: is_digit_def digit_val_def)
  have "\<exists>b' st'. s2b ''1234567890.12'' 10 12 123456789 st0 = Some (b', st') \<and> wf b' \<and> normal b' \<and> alloc_inv st'
           \<and> bval b' = dec_val (unat (123456789 :: u32)) (s2b_tail ''1234567890.12'' 10 12)"
    by (rule s2b_correct) (use d t in simp_all)
  then show ?thesis unfolding t using d(2) by (auto simp del: dec_val.simps)
qed

text \<open>\<open>pow5mult\<close> multiplies by \<open>5 ^ k\<close> and keeps the cached chain 625, 625^2, 625^4, ... of
  \<open>p5s\<close> correct, for products of up to 16382 words.\<close>

theorem pow5mult_correct:
  assumes "wf b" "normal b" "0 < bval b" "bk b \<le> 14" "alloc_inv s" "p5_inv s" "bval b * 5 ^ k < big5"
  shows "\<exists>b' s'. pow5mult b k s = Some (b', s') \<and> wf b' \<and> normal b' \<and> bval b' = bval b * 5 ^ k
           \<and> alloc_inv s' \<and> p5_inv s'"
  using pow5mult_Some [OF assms] by blast

lemma big5_ge: "4294967296 ^ 2 \<le> big5"
  unfolding big5_def by (rule power_increasing) simp_all

theorem pow5mult_correct_witness:
  "\<exists>b' s'. pow5mult (one_word 3) 13 st0 = Some (b', s') \<and> bval b' = 3662109375 \<and> p5_inv s'"
proof -
  have "3 * 5 ^ 13 < big5" using big5_ge by simp
  then show ?thesis using pow5mult_correct [of "one_word 3" st0 13] by auto
qed

text \<open>\<open>d2b\<close> takes a double apart: the odd integer it returns, shifted by the number of
  zero bits it dropped, is the significand with the implicit bit; the exponent and the bit
  count are the double's, corrected by that number.\<close>

theorem d2b_correct:
  assumes "alloc_inv s"
  shows "\<exists>b e bits s' k. d2b d0 d1 s = Some (b, e, bits, s') \<and> wf b \<and> normal b \<and> alloc_inv s'
    \<and> odd (bval b) \<and> bval b * 2 ^ k = significand d0 d1 \<and> e = int (exp_field d0) - 1075 + int k \<and> bits = 53 - int k"
  using d2b_Some [OF assms] by blast

theorem d2b_correct_witness:
  "\<exists>b e bits s' k. d2b 0x3FF80000 0 st0 = Some (b, e, bits, s') \<and> odd (bval b)
     \<and> bval b * 2 ^ k = 3 * 2 ^ 51 \<and> e = int k - 52 \<and> bits = 53 - int k"
  using d2b_correct [OF st0_inv(1), of "0x3FF80000" 0]
  by (simp add: significand_def exp_field_def) blast

text \<open>C34. \<open>quorem\<close> produces one digit: for \<open>b\<close> below ten times \<open>S\<close>, whose top word leaves four
  bits free, it returns \<open>b div S\<close> and leaves \<open>b mod S\<close> in \<open>b\<close>; the estimate from the top words
  is never more than one too small.\<close>

theorem quorem_correct:
  assumes "rem_ok b" "wf S" "bval b < 10 * bval S"
    and "10 \<le> unat (last (digits S))" "unat (last (digits S)) < 2 ^ 28"
  shows "\<exists>q b'. quorem b S = Some (q, b') \<and> unat q = bval b div bval S \<and> bval b' = bval b mod bval S \<and> rem_ok b'"
  using quorem_Some [OF assms] by blast

theorem quorem_correct_witness:
  "\<exists>q b'. quorem (one_word 0x3FFFFFFF) (one_word 0x0800000F) = Some (q, b') \<and> unat q = 7 \<and> bval b' = 134217622"
  using quorem_correct [of "one_word 0x3FFFFFFF" "one_word 0x0800000F"] by auto

end
