(* ===== verification/Ramfs.thy ===== *)
theory Ramfs
  imports Prelude
begin

text \<open>
  src/src/cmd/ramfs.c: a 9P server whose files live in memory. The state is the array \<open>ram\<close> of
  files, the list of fids, the path counter, the negotiated message size and the reply \<open>rhdr\<close>,
  which is one global struct that every handler fills in. Each handler \<open>r...\<close> is a function of
  the request, the current time and the fid, and returns its error string (\<open>None\<close> for 0) and
  the new state; the outer \<open>None\<close> is the end of the server: a nil pointer, an access outside an
  array, a failed \<open>assert\<close> or \<open>error()\<close>.

  A \<open>Fid*\<close> is the index of the fid in the list \<open>fids\<close>, which holds the fids in the order in
  which they were allocated, so that the C list is its reverse; a \<open>Ram*\<close> is an index of \<open>ram\<close>.
  \<open>ulong\<close> and \<open>long\<close> have 32 bits, as on the repository's 386 targets.
\<close>

section \<open>Data\<close>

definition Nram :: nat where "Nram = 2048"
definition Maxsize :: nat where "Maxsize = 512 * 1024 * 1024"
definition Maxfdata :: nat where "Maxfdata = 8192"

text \<open>Constants of the 9P headers.\<close>

definition IOHDRSZ :: nat where "IOHDRSZ = 24"
definition MAXWELEM :: nat where "MAXWELEM = 16"
definition STATMAX :: nat where "STATMAX = 65535"

abbreviation QTDIR :: u8 where "QTDIR \<equiv> 0x80"
abbreviation DMDIR :: u32 where "DMDIR \<equiv> 0x80000000"
abbreviation DMAPPEND :: u32 where "DMAPPEND \<equiv> 0x40000000"
abbreviation DMEXCL :: u32 where "DMEXCL \<equiv> 0x20000000"
abbreviation OREAD :: u8 where "OREAD \<equiv> 0"
abbreviation OWRITE :: u8 where "OWRITE \<equiv> 1"
abbreviation ORDWR :: u8 where "ORDWR \<equiv> 2"
abbreviation OEXEC :: u8 where "OEXEC \<equiv> 3"
abbreviation OTRUNC :: u8 where "OTRUNC \<equiv> 16"
abbreviation ORCLOSE :: u8 where "ORCLOSE \<equiv> 64"
abbreviation OPERM :: u8 where "OPERM \<equiv> 3"

abbreviation Pexec :: u32 where "Pexec \<equiv> 1"
abbreviation Pwrite :: u32 where "Pwrite \<equiv> 2"
abbreviation Pread :: u32 where "Pread \<equiv> 4"
abbreviation Pother :: u32 where "Pother \<equiv> 1"
abbreviation Pgroup :: u32 where "Pgroup \<equiv> 8"
abbreviation Powner :: u32 where "Powner \<equiv> 64"

record qid =
  qpath :: u64
  qvers :: u32
  qtype :: u8

text \<open>\<open>f_ram\<close> is \<open>None\<close> for the nil pointer.\<close>

record Fid =
  f_busy :: bool
  f_open :: bool
  f_rclose :: bool
  f_fid :: u32
  f_user :: string
  f_ram :: "nat option"

text \<open>\<open>r_data\<close> is the allocated block, \<open>r_ndata\<close> what the server takes for its length.\<close>

record Ram =
  r_busy :: bool
  r_open :: u16
  r_parent :: nat
  r_qid :: qid
  r_perm :: u32
  r_name :: string
  r_atime :: u32
  r_mtime :: u32
  r_user :: string
  r_group :: string
  r_muid :: string
  r_data :: "u8 list"
  r_ndata :: int

text \<open>The \<open>Dir\<close> of a stat message.\<close>

record dir =
  d_name :: string
  d_qid :: qid
  d_mode :: u32
  d_length :: int
  d_uid :: string
  d_gid :: string
  d_muid :: string
  d_atime :: u32
  d_mtime :: u32

text \<open>The request \<open>thdr\<close> and the reply \<open>rhdr\<close>, two values of the struct \<open>Fcall\<close>.\<close>

datatype msgtype = Tversion | Tflush | Tauth | Tattach | Twalk | Topen | Tcreate | Tread | Twrite
  | Tclunk | Tremove | Tstat | Twstat | Tother

record Tcall =
  t_type :: msgtype
  t_fid :: u32
  t_msize :: u32
  t_version :: string
  t_uname :: string
  t_newfid :: u32
  t_wname :: "string list"
  t_mode :: u8
  t_perm :: u32
  t_name :: string
  t_offset :: u64
  t_count :: u32
  t_data :: "u8 list"
  t_stat :: "u8 list"

record Rcall =
  h_msize :: u32
  h_version :: string
  h_qid :: qid
  h_nwqid :: nat
  h_wqid :: "qid list"
  h_iounit :: u32
  h_count :: int
  h_data :: "u8 list"
  h_stat :: "u8 list"

record rstate =
  ram :: "Ram list"
  nram :: nat
  fids :: "Fid list"
  path :: u32
  user :: string
  messagesize :: int
  rhdr :: Rcall

text \<open>
  What the server takes from the libraries: \<open>convD2M\<close> (the bytes it stores for a \<open>Dir\<close> in a
  buffer of the given size), \<open>convM2D\<close>, the size \<open>convS2M\<close> needs for a reply, whether
  \<open>realloc\<close> gives a block of a size, and what new memory holds.
\<close>

record lib9p =
  convD2M :: "dir \<Rightarrow> nat \<Rightarrow> u8 list"
  convM2D :: "u8 list \<Rightarrow> dir"
  sizeS2M :: "string option \<Rightarrow> msgtype \<Rightarrow> Rcall \<Rightarrow> nat"
  realloc_ok :: "nat \<Rightarrow> bool"
  junkmem :: "nat \<Rightarrow> u8"

type_synonym handler = "rstate \<Rightarrow> (string option \<times> rstate) option"

definition zero_qid :: qid where "zero_qid = \<lparr>qpath = 0, qvers = 0, qtype = 0\<rparr>"

definition zero_ram :: Ram where
  "zero_ram = \<lparr>r_busy = False, r_open = 0, r_parent = 0, r_qid = zero_qid, r_perm = 0, r_name = [],
     r_atime = 0, r_mtime = 0, r_user = [], r_group = [], r_muid = [], r_data = [], r_ndata = 0\<rparr>"

definition zero_fid :: "u32 \<Rightarrow> Fid" where
  "zero_fid n = \<lparr>f_busy = False, f_open = False, f_rclose = False, f_fid = n, f_user = [], f_ram = None\<rparr>"

definition zero_rhdr :: Rcall where
  "zero_rhdr = \<lparr>h_msize = 0, h_version = [], h_qid = zero_qid, h_nwqid = 0, h_wqid = replicate MAXWELEM zero_qid,
     h_iounit = 0, h_count = 0, h_data = [], h_stat = []\<rparr>"

text \<open>The two files \<open>main\<close> sets up: the root and an empty file.\<close>

definition root0 :: "string \<Rightarrow> u32 \<Rightarrow> Ram" where
  "root0 u t = zero_ram\<lparr>r_busy := True, r_perm := DMDIR OR 0x1FD, r_qid := \<lparr>qpath = 0, qvers = 0, qtype = QTDIR\<rparr>,
     r_user := u, r_group := u, r_muid := u, r_atime := t, r_mtime := t, r_name := ''.''\<rparr>"

definition file0 :: "string \<Rightarrow> u32 \<Rightarrow> Ram" where
  "file0 u t = zero_ram\<lparr>r_busy := True, r_perm := 0x1B6, r_qid := \<lparr>qpath = 1, qvers = 0, qtype = 0\<rparr>,
     r_user := u, r_group := u, r_muid := u, r_atime := t, r_mtime := t, r_name := ''file''\<rparr>"

definition init :: "string \<Rightarrow> u32 \<Rightarrow> rstate" where
  "init u t = \<lparr>ram = root0 u t # file0 u t # replicate (Nram - 2) zero_ram, nram = 2, fids = [], path = 0,
     user = u, messagesize = int (IOHDRSZ + Maxfdata), rhdr = zero_rhdr\<rparr>"


section \<open>The handlers\<close>

definition upd_ram :: "nat \<Rightarrow> (Ram \<Rightarrow> Ram) \<Rightarrow> rstate \<Rightarrow> rstate" where
  "upd_ram i g s = s\<lparr>ram := (ram s)[i := g (ram s ! i)]\<rparr>"

definition upd_fid :: "nat \<Rightarrow> (Fid \<Rightarrow> Fid) \<Rightarrow> rstate \<Rightarrow> rstate" where
  "upd_fid f g s = s\<lparr>fids := (fids s)[f := g (fids s ! f)]\<rparr>"

definition upd_rhdr :: "(Rcall \<Rightarrow> Rcall) \<Rightarrow> rstate \<Rightarrow> rstate" where
  "upd_rhdr g s = s\<lparr>rhdr := g (rhdr s)\<rparr>"

abbreviation err :: "string \<Rightarrow> handler" where "err e s \<equiv> Some (Some e, s)"
abbreviation okay :: handler where "okay s \<equiv> Some (None, s)"

definition is_dir :: "Ram \<Rightarrow> bool" where
  "is_dir r = (qtype (r_qid r) AND QTDIR \<noteq> 0)"

definition perm :: "Fid \<Rightarrow> Ram \<Rightarrow> u32 \<Rightarrow> bool" where
  "perm f r p =
     ((p * Pother) AND r_perm r \<noteq> 0
      \<or> (f_user f = r_group r \<and> (p * Pgroup) AND r_perm r \<noteq> 0)
      \<or> (f_user f = r_user r \<and> (p * Powner) AND r_perm r \<noteq> 0))"

text \<open>\<open>newfid\<close> walks the list from the fid allocated last.\<close>

definition newfid :: "u32 \<Rightarrow> rstate \<Rightarrow> nat \<times> rstate" where
  "newfid n s =
     (let order = rev [0..<length (fids s)]
      in case find (\<lambda>i. f_fid (fids s ! i) = n) order of
           Some i \<Rightarrow> (i, s)
         | None \<Rightarrow>
             (case find (\<lambda>i. \<not> f_busy (fids s ! i)) order of
                Some i \<Rightarrow> (i, upd_fid i (\<lambda>f. f\<lparr>f_fid := n\<rparr>) s)
              | None \<Rightarrow> (length (fids s), s\<lparr>fids := fids s @ [zero_fid n]\<rparr>)))"

text \<open>The children of \<open>d\<close> among the files in use.\<close>

definition child :: "rstate \<Rightarrow> nat \<Rightarrow> nat \<Rightarrow> bool" where
  "child s d i = (r_busy (ram s ! i) \<and> r_parent (ram s ! i) = d)"

definition lookup :: "rstate \<Rightarrow> nat \<Rightarrow> string \<Rightarrow> nat option" where
  "lookup s d name = find (\<lambda>i. child s d i \<and> r_name (ram s ! i) = name) [0..<nram s]"

definition emptydir :: "rstate \<Rightarrow> nat \<Rightarrow> bool" where
  "emptydir s d = (find (\<lambda>i. child s d i) [0..<nram s] = None)"

definition realremove :: "nat \<Rightarrow> handler" where
  "realremove i s =
     (if is_dir (ram s ! i) \<and> \<not> emptydir s i then err ''directory not empty'' s
      else okay (upd_ram i (\<lambda>r. r\<lparr>r_ndata := 0, r_data := [], r_parent := 0, r_qid := zero_qid,
                                   r_name := [], r_busy := False\<rparr>) s))"

definition rclunk :: "nat \<Rightarrow> handler" where
  "rclunk f s =
     (let fd = fids s ! f
      in do {
        s \<leftarrow> (if f_open fd
              then do { i \<leftarrow> f_ram fd; Some (upd_ram i (\<lambda>r. r\<lparr>r_open := r_open r - 1\<rparr>) s) }
              else Some s);
        (e, s) \<leftarrow> (if f_rclose fd then do { i \<leftarrow> f_ram fd; realremove i s } else okay s);
        Some (e, upd_fid f (\<lambda>fd. fd\<lparr>f_busy := False, f_open := False, f_ram := None\<rparr>) s)
      })"

fun clunk_all :: "nat list \<Rightarrow> rstate \<Rightarrow> rstate option" where
  "clunk_all [] s = Some s"
| "clunk_all (f # fs) s = do {
     s \<leftarrow> (if f_busy (fids s ! f) then do { (_, s) \<leftarrow> rclunk f s; Some s } else Some s);
     clunk_all fs s
   }"

definition rversion :: "Tcall \<Rightarrow> handler" where
  "rversion t s = do {
     s \<leftarrow> clunk_all (rev [0..<length (fids s)]) s;
     let msize = (if IOHDRSZ + Maxfdata < unat (t_msize t) then of_nat (IOHDRSZ + Maxfdata) else t_msize t);
     let s = upd_rhdr (\<lambda>h. h\<lparr>h_msize := msize\<rparr>) s\<lparr>messagesize := sint msize\<rparr>;
     if \<not> strncmp_eq (t_version t) ''9P2000'' 6 then err ''unknown 9P version'' s
     else okay (upd_rhdr (\<lambda>h. h\<lparr>h_version := ''9P2000''\<rparr>) s)
   }"

definition rauth :: "nat \<Rightarrow> handler" where
  "rauth f s = (if f_busy (fids s ! f) then err ''bad fid'' s
                else err ''ramfs: no authentication required'' s)"

definition rflush :: handler where "rflush s = okay s"

definition rattach :: "Tcall \<Rightarrow> nat \<Rightarrow> handler" where
  "rattach t f s =
     (if f_busy (fids s ! f) then err ''bad fid'' s
      else (let u = (if t_uname t \<noteq> [] then t_uname t else ''none'');
                s = upd_fid f (\<lambda>fd. fd\<lparr>f_busy := True, f_rclose := False, f_ram := Some 0, f_user := u\<rparr>) s;
                s = upd_rhdr (\<lambda>h. h\<lparr>h_qid := r_qid (ram s ! 0)\<rparr>) s
            in okay (if user s = ''none'' then s\<lparr>user := u\<rparr> else s)))"

definition xclone :: "Tcall \<Rightarrow> nat \<Rightarrow> rstate \<Rightarrow> ((string + nat) \<times> rstate) option" where
  "xclone t f s =
     (if \<not> f_busy (fids s ! f) then Some (Inl ''bad fid'', s)
      else if f_open (fids s ! f) then Some (Inl ''file already open for I/O'', s)
      else do {
        i \<leftarrow> f_ram (fids s ! f);
        if \<not> r_busy (ram s ! i) then Some (Inl ''file does not exist'', s)
        else (let (nf, s) = newfid (t_newfid t) s
              in Some (Inr nf, upd_fid nf (\<lambda>fd. fd\<lparr>f_busy := True, f_open := False, f_rclose := False,
                                                  f_ram := Some i, f_user := f_user (fids s ! f)\<rparr>) s))
      })"

text \<open>
  The \<open>for\<close> loop of \<open>rwalk\<close> from element \<open>i\<close> on: the error, the \<open>i\<close> at which it stopped, and
  the file it reached.
\<close>

fun walk_loop :: "u32 \<Rightarrow> nat \<Rightarrow> string list \<Rightarrow> nat \<Rightarrow> nat \<Rightarrow> rstate \<Rightarrow> string option \<times> nat \<times> nat \<times> rstate" where
  "walk_loop now f [] i fram s = (None, i, fram, s)"
| "walk_loop now f (name # names) i fram s =
     (if MAXWELEM \<le> i then (None, i, fram, s)
      else if \<not> is_dir (ram s ! fram) then (Some ''not a directory'', i, fram, s)
      else if \<not> r_busy (ram s ! fram) then (Some ''file does not exist'', i, fram, s)
      else let s = upd_ram fram (\<lambda>r. r\<lparr>r_atime := now\<rparr>) s;
               found = (\<lambda>fram. walk_loop now f names (i + 1) fram
                          (upd_rhdr (\<lambda>h. h\<lparr>h_nwqid := h_nwqid h + 1,
                                           h_wqid := (h_wqid h)[i := r_qid (ram s ! fram)]\<rparr>) s));
               parent = r_parent (ram s ! fram)
           in if name = ''.'' then found fram
              else if \<not> perm (fids s ! f) (ram s ! parent) Pexec then (Some ''permission denied'', i, fram, s)
              else if name = ''..'' then found parent
              else (case lookup s fram name of
                      Some r \<Rightarrow> found r
                    | None \<Rightarrow> (None, i, fram, s)))"

text \<open>After the loop: a new fid that did not get there is given up, and then \<open>assert(f->busy)\<close>.\<close>

definition walk_end :: "Tcall \<Rightarrow> nat \<Rightarrow> bool \<Rightarrow> string option \<times> nat \<times> nat \<times> rstate \<Rightarrow> (string option \<times> rstate) option" where
  "walk_end t f cloned res =
     (let (e, i, fram, s) = res;
          e = (if i = 0 \<and> e = None \<and> t_wname t \<noteq> [] then Some ''file does not exist'' else e);
          n = h_nwqid (rhdr s);
          s = (if cloned \<and> (e \<noteq> None \<or> n < length (t_wname t))
               then upd_fid f (\<lambda>fd. fd\<lparr>f_busy := False, f_ram := None\<rparr>) s else s);
          s = (if n = length (t_wname t) then upd_fid f (\<lambda>fd. fd\<lparr>f_ram := Some fram\<rparr>) s else s)
      in if f_busy (fids s ! f) then Some (e, s) else None)"

definition rwalk :: "u32 \<Rightarrow> Tcall \<Rightarrow> nat \<Rightarrow> handler" where
  "rwalk now t f s =
     (if \<not> f_busy (fids s ! f) then err ''bad fid'' s
      else let s = upd_rhdr (\<lambda>h. h\<lparr>h_nwqid := 0\<rparr>) s
           in if t_newfid t \<noteq> t_fid t
              then do {
                (r, s) \<leftarrow> xclone t f s;
                (case r of
                   Inl e \<Rightarrow> err e s
                 | Inr nf \<Rightarrow> do {
                     fram \<leftarrow> f_ram (fids s ! nf);
                     walk_end t nf True (walk_loop now nf (t_wname t) 0 fram s)
                   })
              }
              else do {
                fram \<leftarrow> f_ram (fids s ! f);
                walk_end t f False (walk_loop now f (t_wname t) 0 fram s)
              })"


definition iounit :: "rstate \<Rightarrow> u32" where
  "iounit s = word_of_int (messagesize s - int IOHDRSZ)"

definition ropen :: "Tcall \<Rightarrow> nat \<Rightarrow> handler" where
  "ropen t f s =
     (if \<not> f_busy (fids s ! f) then err ''bad fid'' s
      else if f_open (fids s ! f) then err ''file already open for I/O'' s
      else do {
        i \<leftarrow> f_ram (fids s ! f);
        let r = ram s ! i;
        let mode = t_mode t;
        if \<not> r_busy r then err ''file does not exist'' s
        else if r_perm r AND DMEXCL \<noteq> 0 \<and> r_open r \<noteq> 0 then err ''exclusive use file already open'' s
        else if is_dir r
        then (if mode \<noteq> OREAD then err ''permission denied'' s
              else okay (upd_rhdr (\<lambda>h. h\<lparr>h_qid := r_qid r\<rparr>) s))
        else if mode AND ORCLOSE \<noteq> 0 \<and> (qpath (r_qid r) = 0 \<or> \<not> perm (fids s ! f) (ram s ! r_parent r) Pwrite)
        then err ''permission denied'' s
        else do {
          let s = (if mode AND ORCLOSE \<noteq> 0 then upd_fid f (\<lambda>fd. fd\<lparr>f_rclose := True\<rparr>) s else s);
          let trunc = (mode AND OTRUNC \<noteq> 0);
          let mode = mode AND OPERM;
          if (mode = OWRITE \<or> mode = ORDWR \<or> trunc) \<and> \<not> perm (fids s ! f) r Pwrite
          then err ''permission denied'' s
          else if (mode = OREAD \<or> mode = ORDWR) \<and> \<not> perm (fids s ! f) r Pread
          then err ''permission denied'' s
          else if mode = OEXEC \<and> \<not> perm (fids s ! f) r Pexec
          then err ''permission denied'' s
          else do {
            let s = (if trunc \<and> r_perm r AND DMAPPEND = 0
                     then upd_ram i (\<lambda>r. r\<lparr>r_ndata := 0, r_data := [],
                                           r_qid := (r_qid r)\<lparr>qvers := qvers (r_qid r) + 1\<rparr>\<rparr>) s
                     else s);
            let s = upd_rhdr (\<lambda>h. h\<lparr>h_qid := r_qid (ram s ! i), h_iounit := iounit s\<rparr>) s;
            let s = upd_fid f (\<lambda>fd. fd\<lparr>f_open := True\<rparr>) s;
            okay (upd_ram i (\<lambda>r. r\<lparr>r_open := r_open r + 1\<rparr>) s)
          }
        }
      })"

text \<open>The slot \<open>rcreate\<close> takes: the first that is not in use.\<close>

fun free_slot :: "Ram list \<Rightarrow> nat option" where
  "free_slot [] = None"
| "free_slot (r # rs) = (if \<not> r_busy r then Some 0 else map_option Suc (free_slot rs))"

definition create_perm :: "u32 \<Rightarrow> u32 \<Rightarrow> u32" where
  "create_perm prm dperm =
     (if prm AND DMDIR \<noteq> 0 then (prm AND NOT 0x1FF) OR (dperm AND prm AND 0x1FF)
      else (prm AND (NOT 0x1FF OR 0x49)) OR (dperm AND prm AND 0x1B6))"

definition rcreate :: "u32 \<Rightarrow> Tcall \<Rightarrow> nat \<Rightarrow> handler" where
  "rcreate now t f s =
     (if \<not> f_busy (fids s ! f) then err ''bad fid'' s
      else if f_open (fids s ! f) then err ''file already open for I/O'' s
      else do {
        parent \<leftarrow> f_ram (fids s ! f);
        let p = ram s ! parent;
        if \<not> r_busy p then err ''file does not exist'' s
        else if \<not> is_dir p then err ''not a directory'' s
        else if \<not> perm (fids s ! f) p Pwrite then err ''permission denied'' s
        else if t_name t = ''.'' \<or> t_name t = ''..'' then err ''illegal name'' s
        else if lookup s parent (t_name t) \<noteq> None then err ''file in use'' s
        else (case free_slot (ram s) of
                None \<Rightarrow> err ''no free ram resources'' s
              | Some i \<Rightarrow>
                  (let s = s\<lparr>path := path s + 1\<rparr>;
                       s = upd_ram i (\<lambda>r. r\<lparr>r_busy := True,
                             r_qid := \<lparr>qpath = ucast (path s), qvers = 0,
                                       qtype = (if t_perm t AND DMDIR \<noteq> 0 then qtype (r_qid r) OR QTDIR
                                                else qtype (r_qid r))\<rparr>,
                             r_parent := parent, r_name := t_name t, r_user := f_user (fids s ! f),
                             r_group := r_group p, r_muid := r_muid p,
                             r_perm := create_perm (t_perm t) (r_perm p), r_ndata := 0,
                             r_atime := now, r_mtime := now\<rparr>) s;
                       s = (if nram s \<le> i then s\<lparr>nram := i + 1\<rparr> else s);
                       s = upd_ram parent (\<lambda>r. r\<lparr>r_mtime := now\<rparr>) s;
                       s = upd_rhdr (\<lambda>h. h\<lparr>h_qid := r_qid (ram s ! i), h_iounit := iounit s\<rparr>) s;
                       s = upd_fid f (\<lambda>fd. fd\<lparr>f_ram := Some i, f_open := True,
                             f_rclose := (t_mode t AND ORCLOSE \<noteq> 0 \<or> f_rclose fd)\<rparr>) s
                   in okay (upd_ram i (\<lambda>r. r\<lparr>r_open := r_open r + 1\<rparr>) s)))
      })"

definition dir_of :: "Ram \<Rightarrow> dir" where
  "dir_of r = \<lparr>d_name = r_name r, d_qid = r_qid r, d_mode = r_perm r, d_length = r_ndata r, d_uid = r_user r,
     d_gid = r_group r, d_muid = r_muid r, d_atime = r_atime r, d_mtime = r_mtime r\<rparr>"

definition ramstat :: "lib9p \<Rightarrow> Ram \<Rightarrow> nat \<Rightarrow> u8 list" where
  "ramstat lib r nbuf = (let bs = convD2M lib (dir_of r) nbuf in if 2 < length bs then bs else [])"

text \<open>
  The two loops of \<open>rread\<close> over a directory. The first skips entries until \<open>off\<close> is used up and
  gives the files that are left, or \<open>None\<close> at the end; the second fills the reply.
\<close>

fun dir_skip :: "lib9p \<Rightarrow> rstate \<Rightarrow> nat \<Rightarrow> int \<Rightarrow> nat list \<Rightarrow> nat list option" where
  "dir_skip lib s d off [] = None"
| "dir_skip lib s d off (r # rs) =
     (if off \<le> 0 then Some (r # rs)
      else let off = (if child s d r then off - int (length (ramstat lib (ram s ! r) STATMAX)) else off)
           in if rs = [] then None else dir_skip lib s d off rs)"

fun dir_fill :: "lib9p \<Rightarrow> rstate \<Rightarrow> nat \<Rightarrow> int \<Rightarrow> u8 list \<Rightarrow> nat list \<Rightarrow> u8 list" where
  "dir_fill lib s d cnt bs [] = bs"
| "dir_fill lib s d cnt bs (r # rs) =
     (if cnt \<le> int (length bs) then bs
      else if \<not> child s d r then dir_fill lib s d cnt bs rs
      else let m = ramstat lib (ram s ! r) (nat cnt - length bs)
           in if m = [] then bs else dir_fill lib s d cnt (bs @ m) rs)"

definition rread :: "lib9p \<Rightarrow> u32 \<Rightarrow> Tcall \<Rightarrow> nat \<Rightarrow> handler" where
  "rread lib now t f s =
     (if \<not> f_busy (fids s ! f) then err ''bad fid'' s
      else do {
        i \<leftarrow> f_ram (fids s ! f);
        let r = ram s ! i;
        if \<not> r_busy r then err ''file does not exist'' s
        else do {
          let s = upd_rhdr (\<lambda>h. h\<lparr>h_count := 0\<rparr>) s;
          let off = sint (ucast (t_offset t) :: u32);
          let cnt = sint (t_count t);
          let cnt = (if messagesize s < cnt then messagesize s else cnt);
          if is_dir r
          then (case dir_skip lib s i off [1..<nram s] of
                  None \<Rightarrow> okay s
                | Some rs \<Rightarrow>
                    (let bs = dir_fill lib s i cnt [] rs
                     in if length bs \<le> Maxfdata \<comment> \<open>the size of \<open>rdata\<close>\<close>
                        then okay (upd_rhdr (\<lambda>h. h\<lparr>h_data := bs, h_count := int (length bs)\<rparr>) s)
                        else None))
          else if r_ndata r \<le> off then okay s
          else do {
            let s = upd_ram i (\<lambda>r. r\<lparr>r_atime := now\<rparr>) s;
            let n = (if r_ndata r < int32 (off + cnt) then r_ndata r - off else cnt);
            if 0 \<le> off \<and> 0 \<le> n \<and> off + n \<le> int (length (r_data r))
            then okay (upd_rhdr (\<lambda>h. h\<lparr>h_data := take (nat n) (drop (nat off) (r_data r)), h_count := n\<rparr>) s)
            else None \<comment> \<open>the reply would be taken from outside the file's data\<close>
          }
        }
      })"

definition erealloc :: "lib9p \<Rightarrow> u8 list \<Rightarrow> nat \<Rightarrow> u8 list option" where
  "erealloc lib p n = (if realloc_ok lib n then Some (take n p @ map (junkmem lib) [length p..<n]) else None)"

definition mem_copy :: "u8 list \<Rightarrow> nat \<Rightarrow> u8 list \<Rightarrow> u8 list option" where
  "mem_copy p off bs =
     (if off + length bs \<le> length p then Some (take off p @ bs @ drop (off + length bs) p) else None)"

text \<open>
  \<open>off\<close> is an unsigned 32-bit number, and so are the sums with it and the comparisons with
  \<open>ndata\<close>; \<open>t_data\<close> has \<open>count\<close> bytes (\<open>convM2S\<close> makes sure of that).
\<close>

definition rwrite :: "lib9p \<Rightarrow> u32 \<Rightarrow> Tcall \<Rightarrow> nat \<Rightarrow> handler" where
  "rwrite lib now t f s =
     (if \<not> f_busy (fids s ! f) then err ''bad fid'' s
      else do {
        i \<leftarrow> f_ram (fids s ! f);
        let r = ram s ! i;
        let nd = (word_of_int (r_ndata r) :: u32);
        let off = (if r_perm r AND DMAPPEND \<noteq> 0 then nd else ucast (t_offset t));
        let cnt = t_count t;
        if \<not> r_busy r then err ''file does not exist'' s
        else if is_dir r then err ''file is a directory'' s
        else if of_nat Maxsize \<le> off + cnt then err ''write too big'' s
        else do {
          d \<leftarrow> (if nd < off + cnt then erealloc lib (r_data r) (unat (off + cnt)) else Some (r_data r));
          d \<leftarrow> (if nd < off then mem_copy d (unat nd) (replicate (unat (off - nd)) 0) else Some d);
          let n = (if nd < off + cnt then sint (off + cnt) else r_ndata r);
          d \<leftarrow> mem_copy d (unat off) (take (unat cnt) (t_data t));
          let s = upd_ram i (\<lambda>r. r\<lparr>r_data := d, r_ndata := n, r_mtime := now,
                                   r_qid := (r_qid r)\<lparr>qvers := qvers (r_qid r) + 1\<rparr>\<rparr>) s;
          okay (upd_rhdr (\<lambda>h. h\<lparr>h_count := sint cnt\<rparr>) s)
        }
      })"

definition rremove :: "u32 \<Rightarrow> nat \<Rightarrow> handler" where
  "rremove now f s = do {
     let fd = fids s ! f;
     s \<leftarrow> (if f_open fd
           then do { i \<leftarrow> f_ram fd; Some (upd_ram i (\<lambda>r. r\<lparr>r_open := r_open r - 1\<rparr>) s) }
           else Some s);
     let s = upd_fid f (\<lambda>fd. fd\<lparr>f_busy := False, f_open := False, f_ram := None\<rparr>) s;
     i \<leftarrow> f_ram fd;
     let r = ram s ! i;
     if qpath (r_qid r) = 0 \<or> \<not> perm (fids s ! f) (ram s ! r_parent r) Pwrite
     then err ''permission denied'' s
     else realremove i (upd_ram (r_parent r) (\<lambda>r. r\<lparr>r_mtime := now\<rparr>) s)
   }"

definition rstat :: "lib9p \<Rightarrow> nat \<Rightarrow> handler" where
  "rstat lib f s =
     (if \<not> f_busy (fids s ! f) then err ''bad fid'' s
      else do {
        i \<leftarrow> f_ram (fids s ! f);
        if \<not> r_busy (ram s ! i) then err ''file does not exist'' s
        else okay (upd_rhdr (\<lambda>h. h\<lparr>h_stat := ramstat lib (ram s ! i) STATMAX\<rparr>) s)
      })"


text \<open>The checks of \<open>rwstat\<close> in their order, then the changes.\<close>

definition wstat_check :: "dir \<Rightarrow> Fid \<Rightarrow> nat \<Rightarrow> rstate \<Rightarrow> string option" where
  "wstat_check d fd i s =
     (let r = ram s ! i; parent = ram s ! r_parent r
      in if d_length d \<noteq> -1 \<and> d_length d \<noteq> r_ndata r \<and> \<not> perm fd r Pwrite then Some ''permission denied''
         else if d_name d \<noteq> [] \<and> d_name d \<noteq> r_name r \<and> \<not> perm fd parent Pwrite then Some ''permission denied''
         else if d_name d \<noteq> [] \<and> d_name d \<noteq> r_name r \<and> lookup s (r_parent r) (d_name d) \<noteq> None
         then Some ''file exists''
         else if d_mode d \<noteq> 0xFFFFFFFF \<and> r_perm r \<noteq> d_mode d \<and> f_user fd \<noteq> r_user r \<and> f_user fd \<noteq> r_group r
         then Some ''not owner''
         else if d_gid d \<noteq> [] \<and> r_group r \<noteq> d_gid d
                 \<and> \<not> (f_user fd = r_user r \<or> (f_user fd = r_group r \<and> f_user fd = d_gid d))
         then Some ''not owner''
         else None)"

definition wstat_resize :: "lib9p \<Rightarrow> int \<Rightarrow> Ram \<Rightarrow> Ram option" where
  "wstat_resize lib len r =
     (if len \<noteq> -1 \<and> len \<noteq> r_ndata r
      then do {
        d \<leftarrow> erealloc lib (r_data r) (unat (word_of_int len :: u32));
        d \<leftarrow> (if r_ndata r < len
              then mem_copy d (unat (word_of_int (r_ndata r) :: u32))
                     (replicate (unat (word_of_int (len - r_ndata r) :: u32)) 0)
              else Some d);
        Some (r\<lparr>r_data := d, r_ndata := int32 len\<rparr>)
      }
      else Some r)"

definition rwstat :: "lib9p \<Rightarrow> u32 \<Rightarrow> Tcall \<Rightarrow> nat \<Rightarrow> handler" where
  "rwstat lib now t f s =
     (if \<not> f_busy (fids s ! f) then err ''bad fid'' s
      else do {
        i \<leftarrow> f_ram (fids s ! f);
        if \<not> r_busy (ram s ! i) then err ''file does not exist'' s
        else (let d = convM2D lib (t_stat t)
              in case wstat_check d (fids s ! f) i s of
                   Some e \<Rightarrow> err e s
                 | None \<Rightarrow> do {
                     let r = ram s ! i;
                     let r = (if d_mode d \<noteq> 0xFFFFFFFF
                              then r\<lparr>r_perm := (d_mode d AND NOT DMDIR) OR (r_perm r AND DMDIR)\<rparr> else r);
                     let r = (if d_name d \<noteq> [] then r\<lparr>r_name := d_name d\<rparr> else r);
                     let r = (if d_gid d \<noteq> [] then r\<lparr>r_group := d_gid d\<rparr> else r);
                     r \<leftarrow> wstat_resize lib (d_length d) r;
                     let s = upd_ram i (\<lambda>_. r) s;
                     okay (upd_ram (r_parent r) (\<lambda>p. p\<lparr>r_mtime := now\<rparr>) s)
                   })
      })"

definition handle :: "lib9p \<Rightarrow> u32 \<Rightarrow> Tcall \<Rightarrow> nat \<Rightarrow> handler" where
  "handle lib now t f =
     (case t_type t of
        Tversion \<Rightarrow> rversion t
      | Tflush \<Rightarrow> rflush
      | Tauth \<Rightarrow> rauth f
      | Tattach \<Rightarrow> rattach t f
      | Twalk \<Rightarrow> rwalk now t f
      | Topen \<Rightarrow> ropen t f
      | Tcreate \<Rightarrow> rcreate now t f
      | Tread \<Rightarrow> rread lib now t f
      | Twrite \<Rightarrow> rwrite lib now t f
      | Tclunk \<Rightarrow> rclunk f
      | Tremove \<Rightarrow> rremove now f
      | Tstat \<Rightarrow> rstat lib f
      | Twstat \<Rightarrow> rwstat lib now t f
      | Tother \<Rightarrow> err ''bad fcall type'')"

text \<open>
  One round of the \<open>for\<close> loop of \<open>io\<close>: the fid of the message is looked up or made before the
  handler runs; a reply that does not fit the message size ends the server.
\<close>

definition io_step :: "lib9p \<Rightarrow> u32 \<Rightarrow> Tcall \<Rightarrow> handler" where
  "io_step lib now t s =
     (let (f, s) = (if t_type t = Tother then (0, s) else newfid (t_fid t) s)
      in do {
        (e, s) \<leftarrow> handle lib now t f s;
        if int (sizeS2M lib e (t_type t) (rhdr s)) \<le> messagesize s then Some (e, s) else None
      })"

inductive reachable :: "lib9p \<Rightarrow> rstate \<Rightarrow> bool" for lib where
  reach_init: "reachable lib (init u t)"
| reach_step: "reachable lib s \<Longrightarrow> io_step lib now msg s = Some (e, s') \<Longrightarrow> reachable lib s'"

section \<open>The invariant\<close>

text \<open>
  The files form a tree whose root is file 0: from every file in use, going from parent to parent
  ends at the root, and the parent of every file in use is a directory in use; slots not in use have no qid and no data, the recorded length is the length of the
  block. A fid in use points at a slot below \<open>nram\<close>, a fid not in use at nothing.
\<close>

definition data_ok :: "Ram \<Rightarrow> bool" where
  "data_ok r \<longleftrightarrow> r_ndata r = int (length (r_data r)) \<and> r_ndata r < 2147483648"

definition ram_ok :: "rstate \<Rightarrow> nat \<Rightarrow> bool" where
  "ram_ok s i =
     (let r = ram s ! i
      in (if r_busy r
          then i < nram s \<and> r_parent r < nram s \<and> r_busy (ram s ! r_parent r) \<and> is_dir (ram s ! r_parent r)
          else r_parent r = 0 \<and> r_qid r = zero_qid \<and> r_data r = [] \<and> r_ndata r = 0)
         \<and> data_ok r)"

inductive to_root :: "Ram list \<Rightarrow> nat \<Rightarrow> bool" for rs where
  to_root_0: "to_root rs 0"
| to_root_parent: "i < length rs \<Longrightarrow> r_busy (rs ! i) \<Longrightarrow> to_root rs (r_parent (rs ! i)) \<Longrightarrow> to_root rs i"

definition tree_inv :: "rstate \<Rightarrow> bool" where
  "tree_inv s \<longleftrightarrow>
     length (ram s) = Nram \<and> 2 \<le> nram s \<and> nram s \<le> Nram \<and> (\<forall>i < Nram. ram_ok s i)
     \<and> (\<forall>i < Nram. r_busy (ram s ! i) \<longrightarrow> to_root (ram s) i)
     \<and> r_busy (ram s ! 0) \<and> is_dir (ram s ! 0) \<and> r_parent (ram s ! 0) = 0"

definition names_inv :: "rstate \<Rightarrow> bool" where
  "names_inv s \<longleftrightarrow>
     (\<forall>i < Nram. \<forall>j < Nram. r_busy (ram s ! i) \<longrightarrow> r_busy (ram s ! j) \<longrightarrow> r_parent (ram s ! i) = r_parent (ram s ! j)
        \<longrightarrow> r_name (ram s ! i) = r_name (ram s ! j) \<longrightarrow> i = j)"

definition fid_ok :: "rstate \<Rightarrow> Fid \<Rightarrow> bool" where
  "fid_ok s fd = (if f_busy fd then \<exists>i < nram s. f_ram fd = Some i else f_ram fd = None \<and> \<not> f_open fd)"

definition fids_inv :: "rstate \<Rightarrow> bool" where
  "fids_inv s \<longleftrightarrow> (\<forall>fd \<in> set (fids s). fid_ok s fd) \<and> distinct (map f_fid (fids s))"

definition inv :: "rstate \<Rightarrow> bool" where
  "inv s \<longleftrightarrow> tree_inv s \<and> names_inv s \<and> fids_inv s"


lemma to_root_steps: "to_root rs i \<Longrightarrow> \<exists>n. ((\<lambda>k. r_parent (rs ! k)) ^^ n) i = 0"
proof (induction rule: to_root.induct)
  case to_root_0
  show ?case by (rule exI [of _ 0]) simp
next
  case (to_root_parent i)
  then obtain n where "((\<lambda>k. r_parent (rs ! k)) ^^ n) (r_parent (rs ! i)) = 0" by blast
  then show ?case by (intro exI [of _ "Suc n"]) (simp add: funpow_Suc_right del: funpow.simps)
qed

text \<open>The way to the root is not changed by an update that keeps a busy file's parent, nor by one
  of a slot no file has as its parent.\<close>

lemma to_root_keep:
  assumes "to_root rs i" "r_busy (rs ! k) \<Longrightarrow> r_busy r \<and> r_parent r = r_parent (rs ! k)"
  shows "to_root (rs[k := r]) i"
  using assms(1)
proof (induction rule: to_root.induct)
  case (to_root_parent j)
  with assms(2) show ?case by (cases "j = k") (auto intro: to_root.to_root_parent)
qed (rule to_root_0)

lemma to_root_leaf:
  assumes "to_root rs i" "i \<noteq> k" "\<And>j. j < length rs \<Longrightarrow> r_busy (rs ! j) \<Longrightarrow> r_parent (rs ! j) \<noteq> k"
  shows "to_root (rs[k := r]) i"
  using assms(1,2)
proof (induction rule: to_root.induct)
  case (to_root_parent j)
  with assms(3) [of j] show ?case by (auto intro: to_root.to_root_parent)
qed (rule to_root_0)

text \<open>Updates that do not touch the tree keep the invariant.\<close>

definition core_eq :: "Ram \<Rightarrow> Ram \<Rightarrow> bool" where
  "core_eq r r' \<longleftrightarrow>
     r_busy r' = r_busy r \<and> r_parent r' = r_parent r \<and> r_name r' = r_name r \<and> qtype (r_qid r') = qtype (r_qid r)
     \<and> (\<not> r_busy r \<longrightarrow> r_qid r' = r_qid r \<and> r_data r' = r_data r \<and> r_ndata r' = r_ndata r)
     \<and> (data_ok r \<longrightarrow> data_ok r')"

lemma upd_ram_simps [simp]:
  "length (ram (upd_ram i g s)) = length (ram s)" "nram (upd_ram i g s) = nram s" "fids (upd_ram i g s) = fids s"
  "rhdr (upd_ram i g s) = rhdr s" "messagesize (upd_ram i g s) = messagesize s" "path (upd_ram i g s) = path s"
  by (simp_all add: upd_ram_def)

lemma upd_fid_simps [simp]:
  "ram (upd_fid i h s) = ram s" "nram (upd_fid i h s) = nram s" "length (fids (upd_fid i h s)) = length (fids s)"
  "rhdr (upd_fid i h s) = rhdr s" "messagesize (upd_fid i h s) = messagesize s" "path (upd_fid i h s) = path s"
  by (simp_all add: upd_fid_def)

lemma upd_rhdr_simps [simp]:
  "ram (upd_rhdr g s) = ram s" "nram (upd_rhdr g s) = nram s" "fids (upd_rhdr g s) = fids s"
  "messagesize (upd_rhdr g s) = messagesize s" "rhdr (upd_rhdr g s) = g (rhdr s)" "path (upd_rhdr g s) = path s"
  by (simp_all add: upd_rhdr_def)

lemma ram_upd_ram: "i < length (ram s) \<Longrightarrow> ram (upd_ram i g s) ! j = (if j = i then g (ram s ! i) else ram s ! j)"
  by (simp add: upd_ram_def)

lemma tree_inv_cong:
  assumes "ram s' = ram s" "nram s' = nram s"
  shows "tree_inv s' = tree_inv s" "names_inv s' = names_inv s"
  unfolding tree_inv_def names_inv_def ram_ok_def assms by (rule refl)+

lemma inv_cong:
  assumes "ram s' = ram s" "nram s' = nram s" "fids s' = fids s"
  shows "inv s' = inv s"
  unfolding inv_def fids_inv_def fid_ok_def tree_inv_cong [OF assms(1,2)] assms by (rule refl)

lemma inv_upd_rhdr [simp]: "inv (upd_rhdr g s) = inv s"
  by (rule inv_cong) simp_all

lemma inv_messagesize [simp]: "inv (s\<lparr>messagesize := m\<rparr>) = inv s"
  by (rule inv_cong) simp_all

lemma inv_user [simp]: "inv (s\<lparr>user := u\<rparr>) = inv s"
  by (rule inv_cong) simp_all

lemma inv_path [simp]: "inv (s\<lparr>path := u\<rparr>) = inv s"
  by (rule inv_cong) simp_all

lemma ram_ok_core:
  assumes "core_eq (ram s ! i) (g (ram s ! i))" "ram_ok s j" "i < length (ram s)"
  shows "ram_ok (upd_ram i g s) j"
  using assms by (cases "i = r_parent (ram s ! j)")
    (auto simp: ram_ok_def Let_def ram_upd_ram core_eq_def is_dir_def split: if_splits)

lemma inv_upd_ram:
  assumes "inv s" "core_eq (ram s ! i) (g (ram s ! i))"
  shows "inv (upd_ram i g s)"
proof (cases "i < length (ram s)")
  case False
  then have "upd_ram i g s = s" by (simp add: upd_ram_def list_update_beyond)
  with assms(1) show ?thesis by simp
next
  case True
  have "to_root (ram (upd_ram i g s)) j" if "to_root (ram s) j" for j
    unfolding upd_ram_def using to_root_keep [OF that, of i "g (ram s ! i)"] assms(2) by (simp add: core_eq_def)
  then have "tree_inv (upd_ram i g s)"
    using assms True ram_ok_core [of s i g]
    by (auto simp: inv_def tree_inv_def ram_upd_ram core_eq_def is_dir_def)
  moreover have "r_busy (ram (upd_ram i g s) ! j) = r_busy (ram s ! j)"
      "r_parent (ram (upd_ram i g s) ! j) = r_parent (ram s ! j)"
      "r_name (ram (upd_ram i g s) ! j) = r_name (ram s ! j)" for j
    using assms(2) True by (simp_all add: ram_upd_ram core_eq_def)
  then have "names_inv (upd_ram i g s)" using assms(1) by (simp add: inv_def names_inv_def)
  moreover have "fids_inv (upd_ram i g s)" using assms(1) by (simp add: inv_def fids_inv_def fid_ok_def)
  ultimately show ?thesis by (simp add: inv_def)
qed

lemma inv_upd_fid:
  assumes "inv s" "fid_ok s (g (fids s ! f))" "f_fid (g (fids s ! f)) = f_fid (fids s ! f)"
  shows "inv (upd_fid f g s)"
proof (cases "f < length (fids s)")
  case False
  then have "upd_fid f g s = s" by (simp add: upd_fid_def list_update_beyond)
  with assms(1) show ?thesis by simp
next
  case True
  have "map f_fid ((fids s)[f := g (fids s ! f)]) = map f_fid (fids s)"
    using assms(3) by (simp add: map_update list_update_same_conv)
      (metis True length_map list_update_id nth_map)
  then have "fids_inv (upd_fid f g s)"
    using assms True set_update_subset_insert [of "fids s" f "g (fids s ! f)"]
    by (auto simp: inv_def fids_inv_def upd_fid_def fid_ok_def)
  with assms(1) show ?thesis by (simp add: inv_def tree_inv_cong [of "upd_fid f g s" s])
qed

lemma core_eq_fields [simp]:
  "core_eq r (r\<lparr>r_open := n\<rparr>)" "core_eq r (r\<lparr>r_atime := t\<rparr>)" "core_eq r (r\<lparr>r_mtime := t\<rparr>)"
  by (simp_all add: core_eq_def data_ok_def)

lemma fid_ok_nth: "inv s \<Longrightarrow> f < length (fids s) \<Longrightarrow> fid_ok s (fids s ! f)"
  by (simp add: inv_def fids_inv_def)

lemma inv_ramD: "inv s \<Longrightarrow> length (ram s) = Nram \<and> 2 \<le> nram s \<and> nram s \<le> Nram"
  by (simp add: inv_def tree_inv_def)

lemma inv_ram_ok: "inv s \<Longrightarrow> i < Nram \<Longrightarrow> ram_ok s i"
  by (simp add: inv_def tree_inv_def)

lemma inv_fid_ram:
  "inv s \<Longrightarrow> f < length (fids s) \<Longrightarrow> f_ram (fids s ! f) = Some i \<Longrightarrow> i < nram s"
  using fid_ok_nth [of s f] by (auto simp: fid_ok_def split: if_splits)

lemma find_None_upt: "find P [0..<n] = None \<longleftrightarrow> (\<forall>i < n. \<not> P i)"
  by (auto simp: find_None_iff)

lemma find_Some_upt: "find P [0..<n] = Some i \<Longrightarrow> i < n \<and> P i"
  by (auto simp: find_Some_iff)

section \<open>Every handler keeps the invariant\<close>

lemma realremove_inv:
  assumes "inv s" "i < nram s" "realremove i s = Some (e, s')"
  shows "inv s' \<and> fids s' = fids s \<and> nram s' = nram s"
proof (cases "is_dir (ram s ! i) \<and> \<not> emptydir s i")
  case True
  with assms show ?thesis by (simp add: realremove_def)
next
  case False
  have t: "tree_inv s" and len: "length (ram s) = Nram" "nram s \<le> Nram" using assms(1) by (simp_all add: inv_def tree_inv_def)
  let ?g = "\<lambda>r. r\<lparr>r_ndata := 0, r_data := [], r_parent := 0, r_qid := zero_qid, r_name := [], r_busy := False\<rparr>"
  have s': "s' = upd_ram i ?g s" using assms(3) False by (auto simp: realremove_def)
  have i: "i < length (ram s)" using assms(2) len by simp
  have nochild: "r_parent (ram s ! j) \<noteq> i" if "j < Nram" "r_busy (ram s ! j)" for j
  proof
    assume p: "r_parent (ram s ! j) = i"
    have "ram_ok s j" using t that(1) by (simp add: tree_inv_def)
    then have "j < nram s" "is_dir (ram s ! i)" using that(2) p by (auto simp: ram_ok_def Let_def)
    moreover have "\<not> emptydir s i"
      using calculation(1) that(2) p by (auto simp: emptydir_def find_None_upt child_def)
    ultimately show False using False by simp
  qed
  have "i \<noteq> 0" using nochild [of 0] t by (auto simp: tree_inv_def Nram_def)
  have "ram_ok s' j" if "j < Nram" for j
  proof (cases "j = i")
    case True
    with i show ?thesis unfolding s' by (simp add: ram_ok_def data_ok_def ram_upd_ram)
  next
    case False
    have "ram_ok s j" using t that by (simp add: tree_inv_def)
    then show ?thesis
      using nochild [OF that] False i unfolding s'
      by (cases "r_busy (ram s ! j)") (simp_all add: ram_ok_def Let_def ram_upd_ram)
  qed
  then have ok: "\<forall>j < Nram. ram_ok s' j" by blast
  have "ram s' ! 0 = ram s ! 0" using i \<open>i \<noteq> 0\<close> unfolding s' by (simp add: ram_upd_ram)
  moreover have "to_root (ram s') j" if "j < Nram" "r_busy (ram s' ! j)" for j
  proof -
    have "j \<noteq> i" using that(2) i by (auto simp: s' ram_upd_ram)
    moreover from this that i t have "to_root (ram s) j" by (simp add: s' ram_upd_ram tree_inv_def)
    ultimately show ?thesis
      unfolding s' upd_ram_def using to_root_leaf [of "ram s" j i] nochild len by simp
  qed
  ultimately have "tree_inv s'" using ok t by (simp add: tree_inv_def s')
  moreover have "names_inv s'"
    unfolding names_inv_def
  proof (intro allI impI)
    fix j k
    assume "j < Nram" "k < Nram" "r_busy (ram s' ! j)" "r_busy (ram s' ! k)"
      "r_parent (ram s' ! j) = r_parent (ram s' ! k)" "r_name (ram s' ! j) = r_name (ram s' ! k)"
    moreover from this have "j \<noteq> i" "k \<noteq> i" using i by (auto simp: s' ram_upd_ram)
    ultimately show "j = k" using assms(1) i by (auto simp: s' ram_upd_ram inv_def names_inv_def)
  qed
  moreover have "fids_inv s'" using assms(1) unfolding s' by (simp add: inv_def fids_inv_def fid_ok_def)
  ultimately show ?thesis unfolding s' by (simp add: inv_def)
qed

lemma open_dec_inv:
  assumes "(if b then m \<bind> (\<lambda>i. Some (upd_ram i (\<lambda>r. r\<lparr>r_open := r_open r - 1\<rparr>) s)) else Some s) = Some s1" "inv s"
  shows "inv s1 \<and> fids s1 = fids s \<and> nram s1 = nram s"
proof (cases b)
  case True
  with assms(1) obtain i where s1: "s1 = upd_ram i (\<lambda>r. r\<lparr>r_open := r_open r - 1\<rparr>) s"
    by (auto dest: bind_eq_SomeD)
  have "inv s1" unfolding s1 by (rule inv_upd_ram [OF assms(2)]) simp
  then show ?thesis by (simp add: s1)
qed (use assms in simp)

lemma rclunk_inv:
  assumes "inv s" "f < length (fids s)" "rclunk f s = Some (e, s')"
  shows "inv s' \<and> length (fids s') = length (fids s)"
proof -
  let ?fd = "fids s ! f"
  from assms(3) obtain s1 e1 s2 where
    1: "(if f_open ?fd then f_ram ?fd \<bind> (\<lambda>i. Some (upd_ram i (\<lambda>r. r\<lparr>r_open := r_open r - 1\<rparr>) s)) else Some s) = Some s1"
    and 2: "(if f_rclose ?fd then f_ram ?fd \<bind> (\<lambda>i. realremove i s1) else okay s1) = Some (e1, s2)"
    and s': "s' = upd_fid f (\<lambda>fd. fd\<lparr>f_busy := False, f_open := False, f_ram := None\<rparr>) s2"
    by (auto simp: rclunk_def Let_def Option.bind_eq_Some_conv)
  from open_dec_inv [OF 1 assms(1)] have s1: "inv s1" "fids s1 = fids s" "nram s1 = nram s" by simp_all
  have s2: "inv s2 \<and> fids s2 = fids s"
  proof (cases "f_rclose ?fd")
    case True
    with 2 obtain i where i: "f_ram ?fd = Some i" "realremove i s1 = Some (e1, s2)" by (auto dest: bind_eq_SomeD)
    with inv_fid_ram [OF assms(1,2)] realremove_inv [OF s1(1) _ i(2)] s1 show ?thesis by simp
  qed (use 2 s1 in simp)
  then show ?thesis unfolding s' by (auto intro!: inv_upd_fid simp: fid_ok_def)
qed


lemma clunk_all_inv:
  "clunk_all fs s = Some s' \<Longrightarrow> inv s \<Longrightarrow> \<forall>f \<in> set fs. f < length (fids s) \<Longrightarrow> inv s' \<and> length (fids s') = length (fids s)"
proof (induction fs s rule: clunk_all.induct)
  case (1 s)
  then show ?case by simp
next
  case (2 f fs s)
  from "2.prems"(1) obtain s1 where
    s1: "(if f_busy (fids s ! f) then rclunk f s \<bind> (\<lambda>(_, s). Some s) else Some s) = Some s1"
    and rest: "clunk_all fs s1 = Some s'"
    by (auto dest: bind_eq_SomeD)
  have "inv s1 \<and> length (fids s1) = length (fids s)"
  proof (cases "f_busy (fids s ! f)")
    case True
    with s1 obtain e where "rclunk f s = Some (e, s1)" by (auto dest!: bind_eq_SomeD)
    from rclunk_inv [OF "2.prems"(2) _ this] "2.prems"(3) show ?thesis by simp
  qed (use s1 "2.prems" in simp)
  with "2.IH" [OF s1 rest] "2.prems"(3) show ?case by simp
qed

lemma map_update_new:
  assumes "distinct (map h xs)" "y \<notin> set (map h xs)" "h x = y" "i < length xs"
  shows "distinct (map h (xs[i := x]))"
  using assms by (simp add: map_update distinct_list_update)

lemma newfid_inv:
  assumes "inv s" "newfid n s = (f, s')"
  shows "inv s'" "f < length (fids s')" "ram s' = ram s" "nram s' = nram s" "rhdr s' = rhdr s" "f_fid (fids s' ! f) = n"
    "\<And>g. g < length (fids s) \<Longrightarrow> f_busy (fids s ! g) \<Longrightarrow> fids s' ! g = fids s ! g"
proof -
  let ?o = "rev [0..<length (fids s)]"
  have fi: "fids_inv s" using assms(1) by (simp add: inv_def)
  have "inv s' \<and> f < length (fids s') \<and> ram s' = ram s \<and> nram s' = nram s \<and> rhdr s' = rhdr s \<and> f_fid (fids s' ! f) = n
     \<and> (\<forall>g < length (fids s). f_busy (fids s ! g) \<longrightarrow> fids s' ! g = fids s ! g)"
  proof (cases "find (\<lambda>i. f_fid (fids s ! i) = n) ?o")
    case (Some i)
    then have "i < length (fids s)" "f_fid (fids s ! i) = n" by (auto simp: find_Some_iff rev_nth)
    with Some assms show ?thesis by (simp add: newfid_def Let_def)
  next
    case None
    then have new: "\<And>j. j < length (fids s) \<Longrightarrow> f_fid (fids s ! j) \<noteq> n" by (auto simp: find_None_iff)
    then have nin: "n \<notin> set (map f_fid (fids s))" by (metis in_set_conv_nth length_map nth_map)
    show ?thesis
    proof (cases "find (\<lambda>i. \<not> f_busy (fids s ! i)) ?o")
      case (Some i)
      then have i: "i < length (fids s)" "\<not> f_busy (fids s ! i)" by (auto simp: find_Some_iff rev_nth)
      have e: "f = i" "s' = upd_fid i (\<lambda>f. f\<lparr>f_fid := n\<rparr>) s"
        using None Some assms(2) by (auto simp: newfid_def Let_def)
      have "fid_ok s ((fids s ! i)\<lparr>f_fid := n\<rparr>)"
        using fid_ok_nth [OF assms(1) i(1)] by (simp add: fid_ok_def)
      then have "fids_inv s'"
        using fi i nin set_update_subset_insert [of "fids s" i "(fids s ! i)\<lparr>f_fid := n\<rparr>"]
        unfolding e by (auto simp: fids_inv_def upd_fid_def fid_ok_def intro!: map_update_new)
      moreover have "tree_inv s'" "names_inv s'"
        using assms(1) tree_inv_cong [of s' s] by (simp_all add: e inv_def)
      ultimately have "inv s'" by (simp add: inv_def)
      then show ?thesis using i unfolding e by (auto simp: upd_fid_def nth_list_update)
    next
      case None2: None
      have e: "f = length (fids s)" "s' = s\<lparr>fids := fids s @ [zero_fid n]\<rparr>"
        using None None2 assms(2) by (simp_all add: newfid_def Let_def)
      have "fids_inv s'"
        using fi nin unfolding e by (auto simp: fids_inv_def fid_ok_def zero_fid_def)
      moreover have "tree_inv s'" "names_inv s'"
        using assms(1) tree_inv_cong [of s' s] by (simp_all add: e inv_def)
      ultimately have "inv s'" by (simp add: inv_def)
      then show ?thesis unfolding e by (simp add: zero_fid_def nth_append)
    qed
  qed
  then show "inv s'" "f < length (fids s')" "ram s' = ram s" "nram s' = nram s" "rhdr s' = rhdr s" "f_fid (fids s' ! f) = n"
    "\<And>g. g < length (fids s) \<Longrightarrow> f_busy (fids s ! g) \<Longrightarrow> fids s' ! g = fids s ! g" by simp_all
qed

lemma rversion_inv:
  assumes "inv s" "rversion t s = Some (e, s')"
  shows "inv s'"
proof -
  from assms(2) obtain s1 where s1: "clunk_all (rev [0..<length (fids s)]) s = Some s1"
    by (auto simp: rversion_def dest: bind_eq_SomeD)
  with clunk_all_inv [OF s1 assms(1)] have "inv s1" by simp
  with assms(2) s1 show ?thesis by (auto simp: rversion_def Let_def split: if_splits)
qed

lemma rattach_inv:
  assumes "inv s" "f < length (fids s)" "rattach t f s = Some (e, s')"
  shows "inv s'"
proof (cases "f_busy (fids s ! f)")
  case False
  let ?u = "if t_uname t \<noteq> [] then t_uname t else ''none''"
  have "fid_ok s ((fids s ! f)\<lparr>f_busy := True, f_rclose := False, f_ram := Some 0, f_user := ?u\<rparr>)"
    using inv_ramD [OF assms(1)] by (auto simp: fid_ok_def)
  then have "inv (upd_fid f (\<lambda>fd. fd\<lparr>f_busy := True, f_rclose := False, f_ram := Some 0, f_user := ?u\<rparr>) s)"
    by (intro inv_upd_fid [OF assms(1)]) simp_all
  with False assms(3) show ?thesis by (auto simp: rattach_def Let_def split: if_splits)
qed (use assms in \<open>simp add: rattach_def\<close>)

lemma xclone_inv:
  assumes "inv s" "f < length (fids s)" "xclone t f s = Some (r, s')"
  shows "inv s' \<and> (\<forall>nf. r = Inr nf \<longrightarrow> nf < length (fids s') \<and> f_busy (fids s' ! nf) \<and> ram s' = ram s
           \<and> \<not> f_open (fids s' ! nf) \<and> f_ram (fids s' ! nf) = f_ram (fids s ! f) \<and> f_user (fids s' ! nf) = f_user (fids s ! f))"
proof (cases "f_busy (fids s ! f) \<and> \<not> f_open (fids s ! f)")
  case False
  with assms show ?thesis by (auto simp: xclone_def split: if_splits)
next
  case True
  with assms(3) obtain i where i: "f_ram (fids s ! f) = Some i" by (auto simp: xclone_def dest: bind_eq_SomeD)
  show ?thesis
  proof (cases "r_busy (ram s ! i)")
    case False
    with assms True i show ?thesis by (auto simp: xclone_def split: if_splits)
  next
    case busy: True
    obtain nf s1 where nf: "newfid (t_newfid t) s = (nf, s1)" by fastforce
    note n = newfid_inv [OF assms(1) nf]
    let ?g = "\<lambda>fd. fd\<lparr>f_busy := True, f_open := False, f_rclose := False, f_ram := Some i, f_user := f_user (fids s1 ! f)\<rparr>"
    have e: "r = Inr nf" "s' = upd_fid nf ?g s1"
      using assms(3) True i busy nf by (simp_all add: xclone_def)
    have "i < nram s" using inv_fid_ram [OF assms(1,2) i] .
    then have "inv s'" unfolding e using n(4) by (intro inv_upd_fid [OF n(1)]) (auto simp: fid_ok_def)
    with n(2,3) n(7) [OF assms(2)] True i show ?thesis unfolding e by (simp add: upd_fid_def)
  qed
qed

lemma find_childD: "lookup s d name = Some r \<Longrightarrow> r < nram s \<and> r_busy (ram s ! r) \<and> r_parent (ram s ! r) = d \<and> r_name (ram s ! r) = name"
  by (auto simp: lookup_def child_def dest!: find_Some_upt)

lemma inv_parent:
  assumes "inv s" "i < nram s"
  shows "r_parent (ram s ! i) < nram s"
  using assms inv_ramD [OF assms(1)] inv_ram_ok [OF assms(1), of i] by (auto simp: ram_ok_def Let_def split: if_splits)

lemma walk_loop_inv:
  "walk_loop now f names i fram s = (e, j, fram', s') \<Longrightarrow> inv s \<Longrightarrow> fram < nram s
   \<Longrightarrow> inv s' \<and> fram' < nram s' \<and> fids s' = fids s \<and> nram s' = nram s"
proof (induction now f names i fram s rule: walk_loop.induct)
  case (1 now f i fram s)
  then show ?case by simp
next
  case (2 now f name names i fram s)
  let ?s = "upd_ram fram (\<lambda>r. r\<lparr>r_atime := now\<rparr>) s"
  let ?p = "r_parent (ram ?s ! fram)"
  have inv1: "inv ?s" by (rule inv_upd_ram [OF "2.prems"(2)]) simp
  have par: "?p < nram s" using inv_parent [OF inv1, of fram] "2.prems"(3) by simp
  show ?case
  proof (cases "MAXWELEM \<le> i \<or> \<not> is_dir (ram s ! fram) \<or> \<not> r_busy (ram s ! fram)")
    case True
    with "2.prems" show ?thesis by (auto split: if_splits)
  next
    case go: False
    have step: "inv s' \<and> fram' < nram s' \<and> fids s' = fids s \<and> nram s' = nram s"
      if "walk_loop now f names (i + 1) x (upd_rhdr (\<lambda>h. h\<lparr>h_nwqid := h_nwqid h + 1,
                                           h_wqid := (h_wqid h)[i := r_qid (ram ?s ! x)]\<rparr>) ?s) = (e, j, fram', s')"
        "x < nram s" for x
    proof -
      have "inv s' \<and> fram' < nram s' \<and> fids s' = fids (upd_rhdr (\<lambda>h. h\<lparr>h_nwqid := h_nwqid h + 1,
                                           h_wqid := (h_wqid h)[i := r_qid (ram ?s ! x)]\<rparr>) ?s)
          \<and> nram s' = nram (upd_rhdr (\<lambda>h. h\<lparr>h_nwqid := h_nwqid h + 1,
                                           h_wqid := (h_wqid h)[i := r_qid (ram ?s ! x)]\<rparr>) ?s)"
        using go by (intro "2.IH" [OF _ _ _ refl that(1)]) (use inv1 that(2) in simp_all)
      then show ?thesis unfolding upd_rhdr_simps upd_ram_simps .
    qed
    show ?thesis
    proof (cases "name = ''.''")
      case True
      with go "2.prems"(1,3) step [of fram] show ?thesis by (simp add: Let_def)
    next
      case nodot: False
      show ?thesis
      proof (cases "perm (fids ?s ! f) (ram ?s ! ?p) Pexec")
        case False
        with go nodot "2.prems"(1,3) inv1 show ?thesis by (simp add: Let_def) (metis upd_ram_simps(2,3))
      next
        case pm: True
        show ?thesis
        proof (cases "name = ''..''")
          case True
          with go nodot pm "2.prems"(1) step [OF _ par] show ?thesis by (simp add: Let_def)
        next
          case False
          show ?thesis
          proof (cases "lookup ?s fram name")
            case None
            with go nodot pm False "2.prems"(1,3) inv1 show ?thesis by (simp add: Let_def) (metis upd_ram_simps(2,3))
          next
            case (Some r)
            with find_childD [OF Some] have r: "r < nram s" by simp
            with Some go nodot pm False "2.prems"(1) step [OF _ r] show ?thesis by (simp add: Let_def)
          qed
        qed
      qed
    qed
  qed
qed


lemma inv_give_up: "inv s \<Longrightarrow> inv (upd_fid f (\<lambda>fd. fd\<lparr>f_busy := False, f_open := False, f_ram := None\<rparr>) s)"
  by (rule inv_upd_fid) (simp_all add: fid_ok_def)

lemma walk_end_inv:
  assumes "walk_end t f c (e0, i, fram, s) = Some (e, s')" "inv s" "fram < nram s" "f < length (fids s)"
    and "c \<Longrightarrow> \<not> f_open (fids s ! f)"
  shows "inv s'"
proof -
  define up where "up = (c \<and> ((if i = 0 \<and> e0 = None \<and> t_wname t \<noteq> [] then Some ''file does not exist'' else e0) \<noteq> None
                             \<or> h_nwqid (rhdr s) < length (t_wname t)))"
  define s1 where "s1 = (if up then upd_fid f (\<lambda>fd. fd\<lparr>f_busy := False, f_ram := None\<rparr>) s else s)"
  define s2 where "s2 = (if h_nwqid (rhdr s) = length (t_wname t) then upd_fid f (\<lambda>fd. fd\<lparr>f_ram := Some fram\<rparr>) s1 else s1)"
  have s': "s' = s2" "f_busy (fids s2 ! f)"
    using assms(1) by (auto simp: walk_end_def Let_def s2_def s1_def up_def split: if_splits)
  have "inv s1"
    using assms(2,5) by (auto simp: s1_def up_def fid_ok_def intro!: inv_upd_fid)
  moreover have "f_busy (fids s1 ! f)"
    using s'(2) assms(4) by (auto simp: s2_def upd_fid_def s1_def nth_list_update split: if_splits)
  moreover have "nram s1 = nram s" by (simp add: s1_def)
  ultimately have "inv s2"
    using assms(3) by (auto simp: s2_def fid_ok_def intro!: inv_upd_fid)
  then show ?thesis by (simp add: s')
qed

lemma rwalk_inv:
  assumes "inv s" "f < length (fids s)" "rwalk now t f s = Some (e, s')"
  shows "inv s'"
proof (cases "f_busy (fids s ! f)")
  case False
  with assms show ?thesis by (simp add: rwalk_def)
next
  case busy: True
  let ?s = "upd_rhdr (\<lambda>h. h\<lparr>h_nwqid := 0\<rparr>) s"
  have inv0: "inv ?s" using assms(1) by simp
  have f0: "f < length (fids ?s)" using assms(2) by simp
  show ?thesis
  proof (cases "t_newfid t = t_fid t")
    case True
    with busy assms(3) obtain fram where fr: "f_ram (fids s ! f) = Some fram"
      and we: "walk_end t f False (walk_loop now f (t_wname t) 0 fram ?s) = Some (e, s')"
      by (auto simp: rwalk_def Let_def dest: bind_eq_SomeD)
    obtain e1 i x s1 where l: "walk_loop now f (t_wname t) 0 fram ?s = (e1, i, x, s1)" by (metis prod_cases4)
    have "fram < nram ?s" using inv_fid_ram [OF assms(1,2) fr] by simp
    from walk_loop_inv [OF l inv0 this] have w: "inv s1" "x < nram s1" "fids s1 = fids s" by simp_all
    show ?thesis by (rule walk_end_inv [OF we [unfolded l] w(1,2)]) (use w(3) assms(2) in simp_all)
  next
    case False
    from busy False assms(3) obtain r s1 where x: "xclone t f ?s = Some (r, s1)"
      by (auto simp: rwalk_def Let_def dest: bind_eq_SomeD)
    note xi = xclone_inv [OF inv0 f0 x]
    show ?thesis
    proof (cases r)
      case (Inl er)
      with busy False assms(3) x xi show ?thesis by (simp add: rwalk_def)
    next
      case (Inr nf)
      with busy False assms(3) x obtain fram where fr: "f_ram (fids s1 ! nf) = Some fram"
        and we: "walk_end t nf True (walk_loop now nf (t_wname t) 0 fram s1) = Some (e, s')"
        by (auto simp: rwalk_def Let_def dest!: bind_eq_SomeD)
      obtain e1 i y s2 where l: "walk_loop now nf (t_wname t) 0 fram s1 = (e1, i, y, s2)" by (metis prod_cases4)
      have inv1: "inv s1" and nf: "nf < length (fids s1)" using xi Inr by simp_all
      have "fram < nram s1" by (rule inv_fid_ram [OF inv1 nf fr])
      from walk_loop_inv [OF l inv1 this] have w: "inv s2" "y < nram s2" "fids s2 = fids s1" by simp_all
      have "\<not> f_open (fids s1 ! nf)"
        using xi Inr by simp
      then show ?thesis by (intro walk_end_inv [OF we [unfolded l] w(1,2)]) (use w(3) nf in simp_all)
    qed
  qed
qed

text \<open>The common shape of a handler: its fid is in use, and points at a file.\<close>

lemma inv_same_fid_ram:
  assumes "inv s" "f < length (fids s)" "\<And>fd. f_busy (g fd) = f_busy fd" "\<And>fd. f_ram (g fd) = f_ram fd"
    "\<And>fd. f_fid (g fd) = f_fid fd" "f_busy (fids s ! f)"
  shows "inv (upd_fid f g s)"
  using fid_ok_nth [OF assms(1,2)] assms by (intro inv_upd_fid) (simp_all add: fid_ok_def)

definition open_end :: "nat \<Rightarrow> nat \<Rightarrow> rstate \<Rightarrow> rstate" where
  "open_end f i s =
     upd_ram i (\<lambda>r. r\<lparr>r_open := r_open r + 1\<rparr>)
       (upd_fid f (\<lambda>fd. fd\<lparr>f_open := True\<rparr>)
         (upd_rhdr (\<lambda>h. h\<lparr>h_qid := r_qid (ram s ! i), h_iounit := iounit s\<rparr>) s))"

lemma open_end_inv:
  assumes "inv s" "f < length (fids s)" "f_busy (fids s ! f)"
  shows "inv (open_end f i s)"
  unfolding open_end_def
  by (intro inv_upd_ram inv_same_fid_ram) (use assms in simp_all)

lemma ropen_inv:
  assumes "inv s" "f < length (fids s)" "ropen t f s = Some (e, s')"
  shows "inv s'"
proof (cases "f_busy (fids s ! f) \<and> \<not> f_open (fids s ! f)")
  case False
  with assms show ?thesis by (auto simp: ropen_def split: if_splits)
next
  case True
  with assms(3) obtain i where i: "f_ram (fids s ! f) = Some i" by (auto simp: ropen_def dest: bind_eq_SomeD)
  let ?r = "ram s ! i" and ?m = "t_mode t AND OPERM"
  define s1 where "s1 = (if t_mode t AND ORCLOSE \<noteq> 0 then upd_fid f (\<lambda>fd. fd\<lparr>f_rclose := True\<rparr>) s else s)"
  define s2 where "s2 = (if t_mode t AND OTRUNC \<noteq> 0 \<and> r_perm ?r AND DMAPPEND = 0
      then upd_ram i (\<lambda>r. r\<lparr>r_ndata := 0, r_data := [], r_qid := (r_qid r)\<lparr>qvers := qvers (r_qid r) + 1\<rparr>\<rparr>) s1 else s1)"
  have len: "f < length (fids s1)" "f < length (fids s2)" and bz: "f_busy (fids s1 ! f)" "f_busy (fids s2 ! f)"
    using True assms(2) by (simp_all add: s1_def s2_def upd_fid_def nth_list_update)
  have i1: "inv s1" using assms(1,2) True by (auto simp: s1_def intro!: inv_same_fid_ram)
  have i2: "inv s2" if "r_busy ?r"
    using i1 that by (auto simp: s2_def intro!: inv_upd_ram) (simp add: core_eq_def data_ok_def s1_def)
  have "s' = s \<or> (\<exists>g. s' = upd_rhdr g s) \<or> s' = s1 \<or> (r_busy ?r \<and> s' = open_end f i s2)"
    using assms(3) True i unfolding ropen_def Let_def s1_def [symmetric] open_end_def
    by (simp only: bind.simps if_True if_False simp_thms) (auto simp: s2_def split: if_splits)
  with assms(1) i1 i2 len bz open_end_inv [of s2 f i] show ?thesis by auto
qed


lemma free_slot_Some: "free_slot rs = Some i \<Longrightarrow> i < length rs \<and> \<not> r_busy (rs ! i) \<and> (\<forall>j < i. r_busy (rs ! j))"
proof (induction rs arbitrary: i)
  case Nil
  then show ?case by simp
next
  case (Cons r rs)
  show ?case
  proof (cases "r_busy r")
    case False
    with Cons.prems show ?thesis by simp
  next
    case True
    with Cons.prems obtain k where "free_slot rs = Some k" "i = Suc k" by auto
    with Cons.IH [of k] True show ?thesis by (auto simp: less_Suc_eq_0_disj)
  qed
qed

text \<open>\<open>rcreate\<close>'s change to the tree: a new file \<open>r\<close> in a free slot \<open>i\<close> under the directory \<open>d\<close>.\<close>

definition add_file :: "nat \<Rightarrow> Ram \<Rightarrow> rstate \<Rightarrow> rstate" where
  "add_file i r s = (let s = upd_ram i (\<lambda>_. r) s in if nram s \<le> i then s\<lparr>nram := i + 1\<rparr> else s)"

lemma add_file_inv:
  assumes "inv s" "i < Nram" "\<not> r_busy (ram s ! i)" "d < nram s" "r_busy (ram s ! d)" "is_dir (ram s ! d)"
    and "r_busy r" "r_parent r = d" "lookup s d (r_name r) = None" "data_ok r"
  shows "inv (add_file i r s)"
proof -
  let ?s = "add_file i r s"
  have t: "tree_inv s" using assms(1) by (simp add: inv_def)
  have len: "length (ram s) = Nram" "nram s \<le> Nram" "2 \<le> nram s" using t by (simp_all add: tree_inv_def)
  have i: "i < length (ram s)" using assms(2) len by simp
  have at: "ram ?s ! j = (if j = i then r else ram s ! j)" for j
    using i by (simp add: add_file_def Let_def ram_upd_ram)
  have nr: "nram s \<le> nram ?s" "i < nram ?s" "nram ?s \<le> Nram" "fids ?s = fids s" "length (ram ?s) = Nram"
    using len assms(2) by (simp_all add: add_file_def Let_def)
  have di: "d \<noteq> i" using assms(3,5) by auto
  have par: "r_parent (ram s ! j) \<noteq> i" "r_parent (ram s ! j) < nram s" "j < nram s" if "j < Nram" "r_busy (ram s ! j)" for j
    using inv_ram_ok [OF assms(1) that(1)] that(2) assms(3) by (auto simp: ram_ok_def Let_def)
  have ok: "ram_ok ?s j" if "j < Nram" for j
  proof (cases "j = i")
    case True
    then show ?thesis using assms di nr by (simp add: ram_ok_def at)
  next
    case False
    have o: "ram_ok s j" by (rule inv_ram_ok [OF assms(1) that])
    show ?thesis
    proof (cases "r_busy (ram s ! j)")
      case True
      with o par [OF that True] nr False show ?thesis by (auto simp: ram_ok_def at)
    next
      case False2: False
      with o False show ?thesis by (simp add: ram_ok_def at)
    qed
  qed
  have "i \<noteq> 0" using assms(3) t by (cases i) (simp_all add: tree_inv_def)
  moreover have "to_root (ram ?s) j" if "j < Nram" "r_busy (ram ?s ! j)" for j
  proof -
    have rm: "ram ?s = (ram s)[i := r]" by (simp add: add_file_def Let_def upd_ram_def)
    have old: "to_root (ram ?s) k" if "k < Nram" "r_busy (ram s ! k)" for k
      unfolding rm using t that assms(3) by (intro to_root_keep) (simp_all add: tree_inv_def)
    show ?thesis
    proof (cases "j = i")
      case True
      have "d < Nram" using assms(4) len(2) by simp
      from old [OF this assms(5)] have p: "to_root (ram ?s) (r_parent (ram ?s ! i))" by (simp only: at assms(8) simp_thms if_True)
      have "i < length (ram ?s)" "r_busy (ram ?s ! i)" using assms(2,7) nr(5) by (simp_all only: at if_True simp_thms)
      from to_root_parent [OF this p] show ?thesis unfolding \<open>j = i\<close> .
    next
      case False
      with that old [of j] show ?thesis by (simp add: at)
    qed
  qed
  ultimately have "tree_inv ?s" using ok t nr len by (simp add: tree_inv_def at)
  moreover have "names_inv ?s"
  proof -
    have new: "\<not> (r_parent (ram s ! j) = d \<and> r_name (ram s ! j) = r_name r)" if "j < Nram" "r_busy (ram s ! j)" for j
      using assms(9) par(3) [OF that] that(2) by (auto simp: lookup_def child_def find_None_upt)
    show ?thesis
      unfolding names_inv_def
    proof (intro allI impI)
      fix j k
      assume jk: "j < Nram" "k < Nram" "r_busy (ram ?s ! j)" "r_busy (ram ?s ! k)"
        "r_parent (ram ?s ! j) = r_parent (ram ?s ! k)" "r_name (ram ?s ! j) = r_name (ram ?s ! k)"
      show "j = k"
      proof -
        consider "j = i" "k = i" | "j = i" "k \<noteq> i" | "j \<noteq> i" "k = i" | "j \<noteq> i" "k \<noteq> i" by blast
        then show ?thesis
        proof cases
          case 1
          then show ?thesis by simp
        next
          case 2
          with jk(4-6) assms(8) have "r_busy (ram s ! k)" "r_parent (ram s ! k) = d \<and> r_name (ram s ! k) = r_name r"
            by (simp_all add: at)
          with new [OF jk(2)] show ?thesis by simp
        next
          case 3
          with jk(3,5,6) assms(8) have "r_busy (ram s ! j)" "r_parent (ram s ! j) = d \<and> r_name (ram s ! j) = r_name r"
            by (simp_all add: at)
          with new [OF jk(1)] show ?thesis by simp
        next
          case 4
          with jk assms(1) show ?thesis by (simp add: at inv_def names_inv_def)
        qed
      qed
    qed
  qed
  moreover have "fids_inv ?s"
  proof -
    have "fid_ok ?s fd" if "fid_ok s fd" for fd
      using that nr(1) by (cases "f_busy fd") (auto simp: fid_ok_def)
    then show ?thesis using assms(1) nr(4) by (simp add: inv_def fids_inv_def)
  qed
  ultimately show ?thesis by (simp add: inv_def)
qed

lemma rcreate_inv:
  assumes "inv s" "f < length (fids s)" "rcreate now t f s = Some (e, s')"
  shows "inv s'"
proof (cases "f_busy (fids s ! f) \<and> \<not> f_open (fids s ! f)")
  case False
  with assms show ?thesis by (auto simp: rcreate_def split: if_splits)
next
  case True
  with assms(3) obtain d where d: "f_ram (fids s ! f) = Some d" by (auto simp: rcreate_def dest: bind_eq_SomeD)
  let ?p = "ram s ! d"
  show ?thesis
  proof (cases "r_busy ?p \<and> is_dir ?p \<and> lookup s d (t_name t) = None \<and> free_slot (ram s) \<noteq> None")
    case False
    then have "s' = s" using assms(3) True d by (auto simp: rcreate_def Let_def split: if_splits option.splits)
    with assms(1) show ?thesis by simp
  next
    case ok: True
    then obtain i where i: "free_slot (ram s) = Some i" by auto
    from free_slot_Some [OF i] inv_ramD [OF assms(1)] have fi: "i < Nram" "\<not> r_busy (ram s ! i)" by auto
    have ri: "r_ndata (ram s ! i) = 0" "r_data (ram s ! i) = []"
      using inv_ram_ok [OF assms(1) fi(1)] fi(2) by (simp_all add: ram_ok_def Let_def)
    have dn: "d < nram s" by (rule inv_fid_ram [OF assms(1,2) d])
    let ?s0 = "s\<lparr>path := path s + 1\<rparr>"
    define r where "r = (ram s ! i)\<lparr>r_busy := True,
        r_qid := \<lparr>qpath = ucast (path s + 1), qvers = 0,
                  qtype = (if t_perm t AND DMDIR \<noteq> 0 then qtype (r_qid (ram s ! i)) OR QTDIR else qtype (r_qid (ram s ! i)))\<rparr>,
        r_parent := d, r_name := t_name t, r_user := f_user (fids s ! f), r_group := r_group ?p, r_muid := r_muid ?p,
        r_perm := create_perm (t_perm t) (r_perm ?p), r_ndata := 0, r_atime := now, r_mtime := now\<rparr>"
    let ?s1 = "add_file i r ?s0"
    have "inv ?s1"
      by (rule add_file_inv [where d = d])
        (use assms(1) ok fi ri dn in \<open>simp_all add: r_def lookup_def child_def data_ok_def\<close>)
    then have i2: "inv (upd_ram d (\<lambda>r. r\<lparr>r_mtime := now\<rparr>) ?s1)" (is "inv ?s2") by (rule inv_upd_ram) simp
    let ?s3 = "upd_rhdr (\<lambda>h. h\<lparr>h_qid := r_qid (ram ?s2 ! i), h_iounit := iounit ?s2\<rparr>) ?s2"
    let ?s4 = "upd_fid f (\<lambda>fd. fd\<lparr>f_ram := Some i, f_open := True,
                             f_rclose := (t_mode t AND ORCLOSE \<noteq> 0 \<or> f_rclose fd)\<rparr>) ?s3"
    have "i < nram ?s2" "fids ?s2 = fids s" by (simp_all add: add_file_def Let_def)
    then have "inv ?s4"
      using i2 True by (intro inv_upd_fid) (simp_all add: fid_ok_def)
    then have i5: "inv (upd_ram i (\<lambda>r. r\<lparr>r_open := r_open r + 1\<rparr>) ?s4)" by (rule inv_upd_ram) simp
    have "s' = s \<or> s' = upd_ram i (\<lambda>r. r\<lparr>r_open := r_open r + 1\<rparr>) ?s4"
      using assms(3) True d ok i
      by (auto simp: rcreate_def Let_def r_def add_file_def upd_ram_def split: if_splits)
    with assms(1) i5 show ?thesis by auto
  qed
qed


lemma rread_inv:
  assumes "inv s" "rread lib now t f s = Some (e, s')"
  shows "inv s'"
proof (cases "f_busy (fids s ! f)")
  case False
  with assms show ?thesis by (simp add: rread_def)
next
  case True
  with assms(2) obtain i where i: "f_ram (fids s ! f) = Some i" by (auto simp: rread_def dest: bind_eq_SomeD)
  have "inv (upd_ram i (\<lambda>r. r\<lparr>r_atime := now\<rparr>) s)" by (rule inv_upd_ram [OF assms(1)]) simp
  then have at: "inv (upd_ram i (\<lambda>r. r\<lparr>r_atime := now\<rparr>) (upd_rhdr g s))" for g
    by (intro inv_upd_ram) (simp_all add: assms(1))
  have "s' = s \<or> (\<exists>g. s' = upd_rhdr g s) \<or> (\<exists>g h. s' = upd_rhdr g (upd_rhdr h s))
     \<or> (\<exists>g h. s' = upd_rhdr g (upd_ram i (\<lambda>r. r\<lparr>r_atime := now\<rparr>) (upd_rhdr h s)))"
    using assms(2) True i by (auto simp: rread_def Let_def split: if_splits option.splits)
  with assms(1) at show ?thesis by auto
qed

lemma mem_copy_length: "mem_copy p off bs = Some q \<Longrightarrow> length q = length p"
  by (auto simp: mem_copy_def split: if_splits)

lemma erealloc_length: "erealloc lib p n = Some q \<Longrightarrow> length q = n"
  by (auto simp: erealloc_def split: if_splits)

lemma sint_small:
  assumes "unat (w :: u32) < 2147483648"
  shows "sint w = int (unat w)"
proof -
  have u: "uint w = int (unat w)" by simp
  have "uint w < 2147483648" unfolding u using assms by linarith
  moreover have "- 2147483648 \<le> uint w" using uint_nonnegative [of w] by linarith
  ultimately have "signed_take_bit 31 (uint w) = uint w"
    by (intro signed_take_bit_int_eq_self) simp_all
  then show ?thesis by (simp add: sint_uint)
qed

lemma rwrite_inv:
  assumes "inv s" "f < length (fids s)" "rwrite lib now t f s = Some (e, s')"
  shows "inv s'"
proof (cases "f_busy (fids s ! f)")
  case False
  with assms show ?thesis by (simp add: rwrite_def)
next
  case True
  with assms(3) obtain i where i: "f_ram (fids s ! f) = Some i" by (auto simp: rwrite_def dest: bind_eq_SomeD)
  let ?r = "ram s ! i"
  let ?nd = "word_of_int (r_ndata ?r) :: u32"
  let ?off = "if r_perm ?r AND DMAPPEND \<noteq> 0 then ?nd else ucast (t_offset t)"
  let ?sum = "?off + t_count t"
  show ?thesis
  proof (cases "r_busy ?r \<and> \<not> is_dir ?r \<and> \<not> of_nat Maxsize \<le> ?sum")
    case False
    with assms True i show ?thesis by (auto simp: rwrite_def Let_def split: if_splits)
  next
    case ok: True
    with assms(3) True i obtain d1 d2 d3 where
      d1: "(if ?nd < ?sum then erealloc lib (r_data ?r) (unat ?sum) else Some (r_data ?r)) = Some d1"
      and d2: "(if ?nd < ?off then mem_copy d1 (unat ?nd) (replicate (unat (?off - ?nd)) 0) else Some d1) = Some d2"
      and d3: "mem_copy d2 (unat ?off) (take (unat (t_count t)) (t_data t)) = Some d3"
      and s': "s' = upd_rhdr (\<lambda>h. h\<lparr>h_count := sint (t_count t)\<rparr>)
          (upd_ram i (\<lambda>r. r\<lparr>r_data := d3, r_ndata := (if ?nd < ?sum then sint ?sum else r_ndata ?r), r_mtime := now,
                            r_qid := (r_qid r)\<lparr>qvers := qvers (r_qid r) + 1\<rparr>\<rparr>) s)"
      by (simp only: rwrite_def Let_def if_True if_False simp_thms bind.simps) (auto dest!: bind_eq_SomeD)
    have l3: "length d3 = length d1"
      using mem_copy_length [OF d3] d2 mem_copy_length [of d1 _ _ d2] by (auto split: if_splits)
    have l1: "length d1 = (if ?nd < ?sum then unat ?sum else length (r_data ?r))"
      using d1 erealloc_length [of lib "r_data ?r" "unat ?sum" d1] by (auto split: if_splits)
    have lt: "unat ?sum < 2147483648"
    proof -
      from ok have "\<not> of_nat Maxsize \<le> ?sum" by blast
      then have "?sum < of_nat Maxsize" by (rule not_le_imp_less)
      then have "unat ?sum < unat (of_nat Maxsize :: u32)" by (simp only: word_less_nat_alt)
      then show ?thesis by (simp add: Maxsize_def)
    qed
    have si: "sint ?sum = int (unat ?sum)" by (rule sint_small [OF lt])
    define K where "K = (if ?nd < ?sum then sint ?sum else r_ndata ?r)"
    have K: "K = int (length d3) \<and> K < 2147483648" if "data_ok ?r"
    proof (cases "?nd < ?sum")
      case True
      show ?thesis unfolding K_def if_P [OF True] si l3 l1 using lt by linarith
    next
      case False
      show ?thesis unfolding K_def if_not_P [OF False] l3 l1 using that unfolding data_ok_def by simp
    qed
    have b: "r_busy ?r" using ok by simp
    show ?thesis unfolding s' K_def [symmetric] inv_upd_rhdr
      by (rule inv_upd_ram [OF assms(1)]) (use b K in \<open>auto simp: core_eq_def data_ok_def\<close>)
  qed
qed

lemma rremove_inv:
  assumes "inv s" "f < length (fids s)" "rremove now f s = Some (e, s')"
  shows "inv s'"
proof -
  let ?fd = "fids s ! f"
  let ?g = "\<lambda>fd. fd\<lparr>f_busy := False, f_open := False, f_ram := None\<rparr>"
  from assms(3) obtain s1 i where
    1: "(if f_open ?fd then f_ram ?fd \<bind> (\<lambda>i. Some (upd_ram i (\<lambda>r. r\<lparr>r_open := r_open r - 1\<rparr>) s)) else Some s) = Some s1"
    and i: "f_ram ?fd = Some i"
    by (auto simp: rremove_def Let_def dest!: bind_eq_SomeD)
  from open_dec_inv [OF 1 assms(1)] have s1: "inv s1" "fids s1 = fids s" "nram s1 = nram s" by simp_all
  let ?s2 = "upd_fid f ?g s1"
  have i2: "inv ?s2" by (rule inv_give_up [OF s1(1)])
  let ?s3 = "upd_ram (r_parent (ram ?s2 ! i)) (\<lambda>r. r\<lparr>r_mtime := now\<rparr>) ?s2"
  have i3: "inv ?s3" by (rule inv_upd_ram [OF i2]) simp
  have "i < nram s" by (rule inv_fid_ram [OF assms(1,2) i])
  then have lt: "i < nram ?s3" using s1(3) by simp
  have "s' = ?s2 \<or> realremove i ?s3 = Some (e, s')"
    using assms(3) 1 i by (auto simp: rremove_def Let_def split: if_splits)
  with i2 realremove_inv [OF i3 lt] show ?thesis by auto
qed

lemma rstat_inv: "inv s \<Longrightarrow> rstat lib f s = Some (e, s') \<Longrightarrow> inv s'"
  by (auto simp: rstat_def dest!: bind_eq_SomeD split: if_splits)


text \<open>
  \<open>wstat\<close> may resize a file. \<open>realloc\<close> gives no block of \<open>2 ^ 31\<close> bytes or more, so the new
  length is what the block holds.
\<close>

definition lib_ok :: "lib9p \<Rightarrow> bool" where
  "lib_ok lib \<longleftrightarrow> (\<forall>n. realloc_ok lib n \<longrightarrow> n < 2147483648)
     \<and> (\<forall>d n. length (convD2M lib d n) \<le> n)"

lemma wstat_resize_Some:
  assumes "lib_ok lib" "wstat_resize lib len r = Some r'"
  shows "r_busy r' = r_busy r \<and> r_parent r' = r_parent r \<and> r_name r' = r_name r \<and> r_qid r' = r_qid r
    \<and> (data_ok r \<longrightarrow> data_ok r')"
proof (cases "len \<noteq> -1 \<and> len \<noteq> r_ndata r")
  case False
  with assms(2) show ?thesis by (auto simp: wstat_resize_def split: if_splits)
next
  case True
  let ?n = "word_of_int len :: u32"
  from True assms(2) obtain d1 d2 where d1: "erealloc lib (r_data r) (unat ?n) = Some d1"
    and d2: "(if r_ndata r < len then mem_copy d1 (unat (word_of_int (r_ndata r) :: u32))
                (replicate (unat (word_of_int (len - r_ndata r) :: u32)) 0) else Some d1) = Some d2"
    and r': "r' = r\<lparr>r_data := d2, r_ndata := int32 len\<rparr>"
    by (auto simp: wstat_resize_def dest!: bind_eq_SomeD)
  have "length d2 = unat ?n"
    using d2 mem_copy_length [of d1 _ _ d2] erealloc_length [OF d1] by (auto split: if_splits)
  moreover have "unat ?n < 2147483648"
    using d1 assms(1) by (auto simp: erealloc_def lib_ok_def split: if_splits)
  moreover from this have i: "int32 len = int (unat ?n)" unfolding int32_def by (rule sint_small)
  moreover from calculation(2) have "int32 len < 2147483648" unfolding i by linarith
  ultimately show ?thesis by (simp add: r' data_ok_def)
qed

text \<open>Changing a file's own fields, its name to one no other file of its directory has.\<close>

lemma rename_inv:
  assumes "inv s" "i < nram s" "r_busy (ram s ! i)"
    and "r_busy r" "r_parent r = r_parent (ram s ! i)" "r_qid r = r_qid (ram s ! i)"
    and "r_name r = r_name (ram s ! i) \<or> lookup s (r_parent (ram s ! i)) (r_name r) = None"
    and "data_ok r"
  shows "inv (upd_ram i (\<lambda>_. r) s)"
proof -
  let ?s = "upd_ram i (\<lambda>_. r) s"
  let ?m = "upd_ram i (\<lambda>_. r\<lparr>r_name := r_name (ram s ! i)\<rparr>) s"
  have im: "inv ?m" by (rule inv_upd_ram [OF assms(1)]) (use assms in \<open>simp add: core_eq_def data_ok_def\<close>)
  have i: "i < length (ram s)" using assms(2) inv_ramD [OF assms(1)] by simp
  have at: "ram ?s ! j = (if j = i then r else ram s ! j)" for j using i by (simp add: ram_upd_ram)
  have atm: "ram ?m ! j = (if j = i then r\<lparr>r_name := r_name (ram s ! i)\<rparr> else ram s ! j)" for j
    using i by (simp add: ram_upd_ram)
  have same: "r_busy (ram ?s ! j) = r_busy (ram ?m ! j)" "r_parent (ram ?s ! j) = r_parent (ram ?m ! j)"
      "r_qid (ram ?s ! j) = r_qid (ram ?m ! j)" "r_data (ram ?s ! j) = r_data (ram ?m ! j)"
      "r_ndata (ram ?s ! j) = r_ndata (ram ?m ! j)" for j
    unfolding at atm by simp_all
  have "to_root (ram ?s) j" if "to_root (ram s) j" for j
    unfolding upd_ram_def using to_root_keep [OF that, of i r] assms(4,5) by simp
  then have "tree_inv ?s"
    using im assms(1) unfolding inv_def tree_inv_def ram_ok_def data_ok_def Let_def is_dir_def same
    by (simp add: same [unfolded at atm, symmetric]) (auto simp: atm assms(3))
  moreover have "fids_inv ?s" using assms(1) by (simp add: inv_def fids_inv_def fid_ok_def)
  moreover have "names_inv ?s"
    unfolding names_inv_def
  proof (intro allI impI)
    fix j k
    assume jk: "j < Nram" "k < Nram" "r_busy (ram ?s ! j)" "r_busy (ram ?s ! k)"
      "r_parent (ram ?s ! j) = r_parent (ram ?s ! k)" "r_name (ram ?s ! j) = r_name (ram ?s ! k)"
    have nm: "names_inv s" using assms(1) by (simp add: inv_def)
    have other: False if "l \<noteq> i" "l < Nram" "r_busy (ram s ! l)" "r_parent (ram s ! l) = r_parent r" "r_name (ram s ! l) = r_name r" for l
    proof -
      have "l < nram s" using inv_ram_ok [OF assms(1) that(2)] that(3) by (simp add: ram_ok_def Let_def)
      show False
      proof (cases "r_name r = r_name (ram s ! i)")
        case True
        have "i < Nram" using assms(2) inv_ramD [OF assms(1)] by simp
        with nm that assms(3,5) True have "l = i" by (simp add: names_inv_def)
        with that(1) show False ..
      next
        case False
        with assms(7) that(3-5) \<open>l < nram s\<close> assms(5) show False
          by (simp add: lookup_def find_None_upt child_def)
      qed
    qed
    consider "j = k" | "j = i" "k \<noteq> i" | "j \<noteq> i" "k = i" | "j \<noteq> i" "k \<noteq> i" by blast
    then show "j = k"
    proof cases
      case 2
      with jk other [of k] show ?thesis by (simp add: at)
    next
      case 3
      with jk other [of j] show ?thesis by (simp add: at)
    next
      case 4
      with jk nm show ?thesis by (simp add: at names_inv_def)
    qed
  qed
  ultimately show ?thesis using im by (simp add: inv_def)
qed

lemma rwstat_inv:
  assumes "inv s" "f < length (fids s)" "lib_ok lib" "rwstat lib now t f s = Some (e, s')"
  shows "inv s'"
proof (cases "f_busy (fids s ! f)")
  case False
  with assms show ?thesis by (simp add: rwstat_def)
next
  case True
  with assms(4) obtain i where i: "f_ram (fids s ! f) = Some i" by (auto simp: rwstat_def dest: bind_eq_SomeD)
  let ?d = "convM2D lib (t_stat t)"
  have lt: "i < nram s" by (rule inv_fid_ram [OF assms(1,2) i])
  show ?thesis
  proof (cases "r_busy (ram s ! i) \<and> wstat_check ?d (fids s ! f) i s = None")
    case False
    with assms True i show ?thesis by (auto simp: rwstat_def Let_def split: if_splits option.splits)
  next
    case ok: True
    define r1 where "r1 = (let r = ram s ! i;
           r = (if d_mode ?d \<noteq> 0xFFFFFFFF then r\<lparr>r_perm := (d_mode ?d AND NOT DMDIR) OR (r_perm r AND DMDIR)\<rparr> else r);
           r = (if d_name ?d \<noteq> [] then r\<lparr>r_name := d_name ?d\<rparr> else r)
       in if d_gid ?d \<noteq> [] then r\<lparr>r_group := d_gid ?d\<rparr> else r)"
    have r1: "r_busy r1" "r_parent r1 = r_parent (ram s ! i)" "r_qid r1 = r_qid (ram s ! i)"
        "r_ndata r1 = r_ndata (ram s ! i)" "r_data r1 = r_data (ram s ! i)"
        "r_name r1 = (if d_name ?d \<noteq> [] then d_name ?d else r_name (ram s ! i))"
      using ok by (simp_all add: r1_def Let_def)
    from assms(4) True i ok obtain r where r: "wstat_resize lib (d_length ?d) r1 = Some r"
      and s': "s' = upd_ram (r_parent r) (\<lambda>p. p\<lparr>r_mtime := now\<rparr>) (upd_ram i (\<lambda>_. r) s)"
      by (auto simp: rwstat_def r1_def Let_def dest!: bind_eq_SomeD)
    note res = wstat_resize_Some [OF assms(3) r]
    have "data_ok (ram s ! i)"
      using inv_ram_ok [OF assms(1), of i] lt inv_ramD [OF assms(1)] by (simp add: ram_ok_def Let_def)
    then have nd: "data_ok r1" using r1(4,5) by (simp add: data_ok_def)
    have uniq: "r_name r = r_name (ram s ! i) \<or> lookup s (r_parent (ram s ! i)) (r_name r) = None"
      using ok res r1(6) by (auto simp: wstat_check_def Let_def split: if_splits)
    have "inv (upd_ram i (\<lambda>_. r) s)"
      by (rule rename_inv [OF assms(1) lt]) (use ok res r1 nd uniq in simp_all)
    then show ?thesis unfolding s' by (rule inv_upd_ram) simp
  qed
qed

lemma handle_inv:
  assumes "inv s" "lib_ok lib" "t_type t \<noteq> Tother \<Longrightarrow> f < length (fids s)" "handle lib now t f s = Some (e, s')"
  shows "inv s'"
proof (cases "t_type t")
  case Tversion
  with assms(4) have "rversion t s = Some (e, s')" by (simp add: handle_def)
  then show ?thesis by (rule rversion_inv [OF assms(1)])
next
  case Tflush
  with assms show ?thesis by (auto simp: handle_def rauth_def rflush_def split: if_splits)
next
  case Tauth
  with assms show ?thesis by (auto simp: handle_def rauth_def rflush_def split: if_splits)
next
  case Tattach
  with assms(4) have "rattach t f s = Some (e, s')" by (simp add: handle_def)
  with Tattach assms(3) rattach_inv [OF assms(1)] show ?thesis by simp
next
  case Twalk
  with assms(4) have "rwalk now t f s = Some (e, s')" by (simp add: handle_def)
  with Twalk assms(3) rwalk_inv [OF assms(1)] show ?thesis by simp
next
  case Topen
  with assms(4) have "ropen t f s = Some (e, s')" by (simp add: handle_def)
  with Topen assms(3) ropen_inv [OF assms(1)] show ?thesis by simp
next
  case Tcreate
  with assms(4) have "rcreate now t f s = Some (e, s')" by (simp add: handle_def)
  with Tcreate assms(3) rcreate_inv [OF assms(1)] show ?thesis by simp
next
  case Tread
  with assms(4) have "rread lib now t f s = Some (e, s')" by (simp add: handle_def)
  then show ?thesis by (rule rread_inv [OF assms(1)])
next
  case Twrite
  with assms(4) have "rwrite lib now t f s = Some (e, s')" by (simp add: handle_def)
  with Twrite assms(3) rwrite_inv [OF assms(1)] show ?thesis by simp
next
  case Tclunk
  with assms(4) have "rclunk f s = Some (e, s')" by (simp add: handle_def)
  with Tclunk assms(3) rclunk_inv [OF assms(1)] show ?thesis by simp
next
  case Tremove
  with assms(4) have "rremove now f s = Some (e, s')" by (simp add: handle_def)
  with Tremove assms(3) rremove_inv [OF assms(1)] show ?thesis by simp
next
  case Tstat
  with assms(4) have "rstat lib f s = Some (e, s')" by (simp add: handle_def)
  then show ?thesis by (rule rstat_inv [OF assms(1)])
next
  case Twstat
  with assms(4) have "rwstat lib now t f s = Some (e, s')" by (simp add: handle_def)
  with Twstat assms(3) rwstat_inv [OF assms(1) _ assms(2)] show ?thesis by simp
next
  case Tother
  with assms show ?thesis by (auto simp: handle_def rauth_def rflush_def split: if_splits)
qed

lemma io_step_inv:
  assumes "inv s" "lib_ok lib" "io_step lib now t s = Some (e, s')"
  shows "inv s'"
proof -
  obtain f s1 where n: "(if t_type t = Tother then (0, s) else newfid (t_fid t) s) = (f, s1)" by fastforce
  have i1: "inv s1" and f: "t_type t \<noteq> Tother \<Longrightarrow> f < length (fids s1)"
    using n assms(1) newfid_inv(1,2) [OF assms(1), of "t_fid t" f s1] by (auto split: if_splits)
  from assms(3) n obtain e1 where "handle lib now t f s1 = Some (e1, s')"
    by (auto simp: io_step_def dest!: bind_eq_SomeD split: if_splits)
  with handle_inv [OF i1 assms(2) f] show ?thesis by blast
qed

lemma init_inv: "inv (init u t)"
proof -
  let ?s = "init u t"
  have at: "ram ?s ! j = (if j = 0 then root0 u t else if j = 1 then file0 u t else zero_ram)" if "j < Nram" for j
    using that by (auto simp: init_def nth_Cons nth_replicate Nram_def split: nat.splits)
  have "ram_ok ?s j" if "j < Nram" for j
    using that by (simp add: ram_ok_def at Nram_def is_dir_def root0_def file0_def zero_ram_def zero_qid_def data_ok_def Let_def)
      (simp add: init_def)
  moreover have "to_root (ram ?s) j" if "j < Nram" "r_busy (ram ?s ! j)" for j
  proof (cases "j = 0")
    case False
    with that at [OF that(1)] have j: "j = 1" "ram ?s ! j = file0 u t" by (auto simp: zero_ram_def split: if_splits)
    have "r_parent (ram ?s ! j) = 0" unfolding j(2) by (simp add: file0_def zero_ram_def)
    moreover have "length (ram ?s) = Nram" by (simp add: init_def Nram_def)
    ultimately have "to_root (ram ?s) (r_parent (ram ?s ! j))" "j < length (ram ?s)" using that by (simp_all only: to_root_0)
    from to_root_parent [OF this(2) that(2) this(1)] show ?thesis .
  qed (simp add: to_root_0)
  ultimately have "tree_inv ?s"
    by (simp add: tree_inv_def) (simp add: init_def root0_def is_dir_def Nram_def zero_ram_def)
  moreover have "names_inv ?s"
    unfolding names_inv_def by (auto simp: at root0_def file0_def zero_ram_def split: if_splits)
  moreover have "fids_inv ?s" by (simp add: fids_inv_def init_def)
  ultimately show ?thesis by (simp add: inv_def)
qed

lemma reachable_inv: "reachable lib s \<Longrightarrow> lib_ok lib \<Longrightarrow> inv s"
  by (induction rule: reachable.induct) (auto intro: init_inv io_step_inv)


section \<open>What a file holds\<close>

text \<open>The bytes of a file after \<open>bs\<close> was written at \<open>off\<close>: a gap is filled with zeros.\<close>

definition overwrite :: "u8 list \<Rightarrow> nat \<Rightarrow> u8 list \<Rightarrow> u8 list" where
  "overwrite d off bs =
     take off (d @ replicate (off - length d) 0) @ bs @ drop (off + length bs) d"

definition write_msg :: "Tcall \<Rightarrow> nat \<Rightarrow> u8 list \<Rightarrow> bool" where
  "write_msg t off bs \<longleftrightarrow> t_offset t = of_nat off \<and> t_count t = of_nat (length bs) \<and> t_data t = bs
     \<and> off + length bs < Maxsize"

text \<open>The fid points at a plain file in use.\<close>

definition file_fid :: "rstate \<Rightarrow> nat \<Rightarrow> nat \<Rightarrow> bool" where
  "file_fid s f i \<longleftrightarrow> f < length (fids s) \<and> f_busy (fids s ! f) \<and> f_ram (fids s ! f) = Some i
     \<and> r_busy (ram s ! i) \<and> \<not> is_dir (ram s ! i)"

lemma unat_of_small: "n < 4294967296 \<Longrightarrow> unat (of_nat n :: u32) = n"
  by (simp add: unsigned_of_nat take_bit_nat_eq_self_iff)

lemma ucast_of_small: "n < 4294967296 \<Longrightarrow> (ucast (of_nat n :: u64) :: u32) = of_nat n"
  by (rule word_unat_eq_iff [THEN iffD2]) (simp add: unsigned_ucast_eq unsigned_of_nat take_bit_nat_eq_self_iff)

lemma grow_and_fill:
  fixes nd off len :: nat
  assumes "length p = nd" "\<forall>n < Maxsize. realloc_ok lib n" "off + length bs < Maxsize"
  shows "\<exists>d1 d2. (if nd < off + length bs then erealloc lib p (off + length bs) else Some p) = Some d1
     \<and> (if nd < off then mem_copy d1 nd (replicate (off - nd) 0) else Some d1) = Some d2
     \<and> mem_copy d2 off bs = Some (overwrite p off bs)"
proof (cases "nd < off + length bs")
  case False
  with assms(1) show ?thesis by (simp add: mem_copy_def overwrite_def)
next
  case True
  let ?d1 = "p @ map (junkmem lib) [nd..<off + length bs]"
  have 1: "erealloc lib p (off + length bs) = Some ?d1"
    using True assms by (simp add: erealloc_def)
  show ?thesis
  proof (cases "nd < off")
    case True2: True
    let ?d2 = "p @ replicate (off - nd) 0 @ drop (nd + (off - nd)) ?d1"
    have "mem_copy ?d1 nd (replicate (off - nd) 0) = Some ?d2"
      using assms(1) True2 by (simp add: mem_copy_def)
    moreover have "mem_copy ?d2 off bs = Some (overwrite p off bs)"
      using assms(1) True2 by (simp add: mem_copy_def overwrite_def)
    ultimately show ?thesis using 1 True True2 by auto
  next
    case False
    have "mem_copy ?d1 off bs = Some (overwrite p off bs)"
      using assms(1) True False by (simp add: mem_copy_def overwrite_def)
    with 1 True False show ?thesis by auto
  qed
qed

lemma rwrite_Some:
  assumes "inv s" "file_fid s f i" "r_perm (ram s ! i) AND DMAPPEND = 0" "write_msg t off bs"
    and "\<forall>n < Maxsize. realloc_ok lib n"
  shows "\<exists>s'. rwrite lib now t f s = Some (None, s') \<and> fids s' = fids s \<and> nram s' = nram s \<and> messagesize s' = messagesize s
     \<and> (\<forall>j. j \<noteq> i \<longrightarrow> ram s' ! j = ram s ! j)
     \<and> r_data (ram s' ! i) = overwrite (r_data (ram s ! i)) off bs
     \<and> r_ndata (ram s' ! i) = int (length (r_data (ram s' ! i)))
     \<and> r_busy (ram s' ! i) \<and> \<not> is_dir (ram s' ! i) \<and> h_count (rhdr s') = int (length bs)"
proof -
  let ?r = "ram s ! i"
  have lt: "i < length (ram s)"
    using assms(1,2) inv_fid_ram [of s f i] inv_ramD [of s] by (simp add: file_fid_def)
  have dk: "data_ok ?r" using inv_ram_ok [OF assms(1), of i] lt inv_ramD [OF assms(1)] by (simp add: ram_ok_def Let_def)
  let ?n = "length (r_data ?r)"
  have n: "r_ndata ?r = int ?n" "?n < 2147483648" using dk by (auto simp: data_ok_def)
  have off: "off + length bs < 536870912" using assms(4) by (simp add: write_msg_def Maxsize_def)
  have o: "ucast (t_offset t) = (of_nat off :: u32)" using assms(4) off by (simp add: write_msg_def ucast_of_small)
  have c: "t_count t = of_nat (length bs)" using assms(4) by (simp add: write_msg_def)
  have e: "of_nat off + of_nat (length bs) = (of_nat (off + length bs) :: u32)" by simp
  have u: "unat (of_nat (off + length bs) :: u32) = off + length bs" "unat (of_nat off :: u32) = off"
      "unat (of_nat ?n :: u32) = ?n" "unat (of_nat (length bs) :: u32) = length bs"
    using off n(2) by (intro unat_of_small; simp)+
  have nd: "word_of_int (int ?n) = (of_nat ?n :: u32)" by simp
  have small: "\<not> (of_nat Maxsize :: u32) \<le> of_nat (off + length bs)"
    using off unfolding word_le_nat_alt u(1) by (simp add: Maxsize_def)
  have c1: "(of_nat ?n :: u32) < of_nat (off + length bs) \<longleftrightarrow> ?n < off + length bs"
    unfolding word_less_nat_alt u by (rule refl)
  have c2: "(of_nat ?n :: u32) < of_nat off \<longleftrightarrow> ?n < off"
    unfolding word_less_nat_alt u by (rule refl)
  have sub: "unat (of_nat off - of_nat ?n :: u32) = off - ?n" if "?n < off"
    using that unat_sub [of "of_nat ?n :: u32" "of_nat off"] c2 u by simp
  have si: "sint (of_nat (off + length bs) :: u32) = int (off + length bs)"
      "sint (of_nat (length bs) :: u32) = int (length bs)"
    using off u(1,4) sint_small [of "of_nat (off + length bs)"] sint_small [of "of_nat (length bs)"] by simp_all
  from grow_and_fill [OF refl assms(5), of off bs "r_data ?r"] assms(4) obtain d1 d2 where
    d1: "(if ?n < off + length bs then erealloc lib (r_data ?r) (off + length bs) else Some (r_data ?r)) = Some d1"
    and d2: "(if ?n < off then mem_copy d1 ?n (replicate (off - ?n) 0) else Some d1) = Some d2"
    and d3: "mem_copy d2 off bs = Some (overwrite (r_data ?r) off bs)"
    by (auto simp: write_msg_def)
  have d2': "(if ?n < off then mem_copy d1 ?n (replicate (unat (of_nat off - of_nat ?n :: u32)) 0) else Some d1) = Some d2"
    using d2 sub by (cases "?n < off") simp_all
  define N where "N = (if ?n < off + length bs then int (off + length bs) else int ?n)"
  have N: "N = int (length (overwrite (r_data ?r) off bs))" by (auto simp: N_def overwrite_def)
  let ?g = "\<lambda>r. r\<lparr>r_data := overwrite (r_data ?r) off bs, r_ndata := N, r_mtime := now,
                   r_qid := (r_qid r)\<lparr>qvers := qvers (r_qid r) + 1\<rparr>\<rparr>"
  let ?s = "upd_rhdr (\<lambda>h. h\<lparr>h_count := int (length bs)\<rparr>) (upd_ram i ?g s)"
  have tk: "take (length bs) (t_data t) = bs" using assms(4) by (simp add: write_msg_def)
  have "rwrite lib now t f s = Some (None, ?s)"
    using assms(2,3) small
    by (simp only: rwrite_def file_fid_def Let_def bind.simps if_True if_False simp_thms o e nd c1 c2 u si c d1 d2' d3 tk
          n(1) N_def)
  then show ?thesis
    using assms(2) lt N by (intro exI [of _ ?s]) (simp add: ram_upd_ram file_fid_def is_dir_def)
qed


definition read_msg :: "Tcall \<Rightarrow> nat \<Rightarrow> nat \<Rightarrow> bool" where
  "read_msg t off cnt \<longleftrightarrow> t_offset t = of_nat off \<and> t_count t = of_nat cnt \<and> off + cnt < 2147483648"

text \<open>The bytes of an \<open>Rread\<close>: \<open>count\<close> bytes from \<open>data\<close> on.\<close>

definition read_reply :: "rstate \<Rightarrow> u8 list" where
  "read_reply s = take (nat (h_count (rhdr s))) (h_data (rhdr s))"

lemma rread_Some:
  assumes "data_ok (ram s ! i)" "i < length (ram s)" "file_fid s f i" "read_msg t off cnt" "int cnt \<le> messagesize s"
  shows "\<exists>s'. rread lib now t f s = Some (None, s') \<and> read_reply s' = take cnt (drop off (r_data (ram s ! i)))"
proof -
  let ?r = "ram s ! i" and ?n = "length (r_data (ram s ! i))"
  have n: "r_ndata ?r = int ?n" using assms(1) by (simp add: data_ok_def)
  have lt: "off + cnt < 2147483648" using assms(4) by (simp add: read_msg_def)
  have o: "sint (ucast (t_offset t) :: u32) = int off"
    using assms(4) lt sint_small [of "of_nat off"] by (simp add: read_msg_def ucast_of_small unat_of_small)
  have c: "sint (t_count t) = int cnt"
    using assms(4) lt sint_small [of "of_nat cnt"] by (simp add: read_msg_def unat_of_small)
  have cl: "(if messagesize s < int cnt then messagesize s else int cnt) = int cnt" using assms(5) by simp
  have w: "int32 (int off + int cnt) = int off + int cnt" by (rule int32_id) (use lt in simp_all)
  show ?thesis
  proof (cases "?n \<le> off")
    case True
    then have "rread lib now t f s = Some (None, upd_rhdr (\<lambda>h. h\<lparr>h_count := 0\<rparr>) s)"
      using assms(3) by (simp add: rread_def file_fid_def Let_def o n)
    with True show ?thesis by (simp add: read_reply_def)
  next
    case False
    let ?m = "if ?n < off + cnt then int ?n - int off else int cnt"
    let ?s = "upd_rhdr (\<lambda>h. h\<lparr>h_data := take (nat ?m) (drop off (r_data ?r)), h_count := ?m\<rparr>)
               (upd_ram i (\<lambda>r. r\<lparr>r_atime := now\<rparr>) (upd_rhdr (\<lambda>h. h\<lparr>h_count := 0\<rparr>) s))"
    have m: "0 \<le> ?m" "int off + ?m \<le> int ?n" using False by auto
    have if_eq: "(if int ?n < int off + int cnt then int ?n - int off else int cnt) = ?m" by simp
    have "rread lib now t f s = Some (None, ?s)"
      using assms(3) False m
      by (simp only: rread_def file_fid_def Let_def bind.simps if_False if_True simp_thms o c n upd_rhdr_simps cl w if_eq
            nat_int of_nat_0_le_iff of_nat_le_iff)
    moreover have "read_reply ?s = take cnt (drop off (r_data ?r))"
      using False by (auto simp: read_reply_def)
    ultimately show ?thesis by blast
  qed
qed

section \<open>The properties\<close>

text \<open>An example: the fresh server with one fid attached as \<open>glenda\<close> and walked to file \<open>i\<close>.\<close>

definition ex_fid :: "nat \<Rightarrow> Fid" where
  "ex_fid i = \<lparr>f_busy = True, f_open = False, f_rclose = False, f_fid = 1, f_user = ''glenda'', f_ram = Some i\<rparr>"

definition ex_state :: "nat \<Rightarrow> rstate" where
  "ex_state i = (init ''glenda'' 0)\<lparr>fids := [ex_fid i]\<rparr>"

definition ex_call :: Tcall where
  "ex_call = \<lparr>t_type = Tother, t_fid = 1, t_msize = 0, t_version = [], t_uname = [], t_newfid = 2, t_wname = [],
     t_mode = 0, t_perm = 0, t_name = [], t_offset = 0, t_count = 0, t_data = [], t_stat = []\<rparr>"

definition ex_lib :: lib9p where
  "ex_lib = \<lparr>convD2M = (\<lambda>d n. []), convM2D = (\<lambda>_. \<lparr>d_name = [], d_qid = zero_qid, d_mode = 0, d_length = -1, d_uid = [],
     d_gid = [], d_muid = [], d_atime = 0, d_mtime = 0\<rparr>), sizeS2M = (\<lambda>_ _ _. 0), realloc_ok = (\<lambda>n. n < 2147483648),
     junkmem = (\<lambda>_. 0xA5)\<rparr>"

lemma ex_lib_ok: "lib_ok ex_lib" "\<forall>n < Maxsize. realloc_ok ex_lib n"
  by (simp_all add: ex_lib_def lib_ok_def Maxsize_def)

lemma ex_state_simps [simp]:
  "ram (ex_state i) ! 0 = root0 ''glenda'' 0" "ram (ex_state i) ! 1 = file0 ''glenda'' 0" "ram (ex_state i) ! Suc 0 = file0 ''glenda'' 0"
  "nram (ex_state i) = 2" "fids (ex_state i) = [ex_fid i]" "messagesize (ex_state i) = 8216" "path (ex_state i) = 0"
  by (simp_all add: ex_state_def init_def IOHDRSZ_def Maxfdata_def)

lemma ex_state_inv [simp]: "i < 2 \<Longrightarrow> inv (ex_state i)"
  using init_inv [of "''glenda''" 0] tree_inv_cong [of "ex_state i" "init ''glenda'' 0"]
  by (simp add: inv_def fids_inv_def fid_ok_def ex_fid_def) (simp add: ex_state_def init_def)

text \<open>C2. Whatever messages arrive in whatever order, as long as the server runs its files form a
  tree: going from a file in use to its parent, to the parent's parent and so on ends at the root,
  slot 0, the parent of a file in use is a directory in use, two files of a directory have
  different names, and a fid in use points at a slot of the array.\<close>

theorem reachable_tree:
  assumes "reachable lib s" "lib_ok lib" "i < Nram" "r_busy (ram s ! i)"
  shows "(\<exists>n. ((\<lambda>k. r_parent (ram s ! k)) ^^ n) i = 0)
    \<and> r_busy (ram s ! r_parent (ram s ! i)) \<and> is_dir (ram s ! r_parent (ram s ! i))
    \<and> (\<forall>j < Nram. r_busy (ram s ! j) \<and> r_parent (ram s ! j) = r_parent (ram s ! i)
         \<and> r_name (ram s ! j) = r_name (ram s ! i) \<longrightarrow> j = i)
    \<and> (\<forall>fd \<in> set (fids s). f_busy fd \<longrightarrow> (\<exists>k < Nram. f_ram fd = Some k))"
proof -
  have iv: "inv s" by (rule reachable_inv [OF assms(1,2)])
  have "to_root (ram s) i" using iv assms(3,4) by (simp add: inv_def tree_inv_def)
  moreover have "r_busy (ram s ! r_parent (ram s ! i))" "is_dir (ram s ! r_parent (ram s ! i))"
    using inv_ram_ok [OF iv assms(3)] assms(4) by (simp_all add: ram_ok_def Let_def)
  moreover have "\<exists>k < Nram. f_ram fd = Some k" if "fd \<in> set (fids s)" "f_busy fd" for fd
  proof -
    have "fid_ok s fd" using iv that(1) by (simp add: inv_def fids_inv_def)
    with that(2) inv_ramD [OF iv] show ?thesis by (auto simp: fid_ok_def intro: less_le_trans)
  qed
  ultimately show ?thesis using iv assms(3,4) to_root_steps [of "ram s" i] by (auto simp: inv_def names_inv_def)
qed

theorem reachable_tree_witness:
  "r_busy (ram (init ''glenda'' 0) ! r_parent (ram (init ''glenda'' 0) ! 1))
    \<and> (\<exists>n. ((\<lambda>k. r_parent (ram (init ''glenda'' 0) ! k)) ^^ n) 1 = 0)"
proof -
  have "r_busy (ram (init ''glenda'' 0) ! 1)" by (simp add: init_def file0_def)
  with reachable_tree [OF reach_init ex_lib_ok(1), of 1 "''glenda''" 0] show ?thesis by (simp add: Nram_def)
qed

text \<open>C5. A write stores its bytes and a read gives them back: after a write at \<open>off\<close>, every fid
  on the file reads the old bytes overwritten from \<open>off\<close> on, a gap being filled with zeros
  although the memory \<open>realloc\<close> returned held something else.\<close>

theorem write_then_read:
  assumes "inv s" "file_fid s f i" "file_fid s g i" "r_perm (ram s ! i) AND DMAPPEND = 0"
    and "write_msg t off bs" "\<forall>n < Maxsize. realloc_ok lib n"
    and "read_msg r pos cnt" "int cnt \<le> messagesize s"
  shows "\<exists>s1 s2. rwrite lib now t f s = Some (None, s1) \<and> rread lib now' r g s1 = Some (None, s2)
     \<and> read_reply s2 = take cnt (drop pos (overwrite (r_data (ram s ! i)) off bs))"
proof -
  from rwrite_Some [OF assms(1,2,4,5,6), of now] obtain s1 where s1: "rwrite lib now t f s = Some (None, s1)"
      "fids s1 = fids s" "messagesize s1 = messagesize s" "r_data (ram s1 ! i) = overwrite (r_data (ram s ! i)) off bs"
      "r_busy (ram s1 ! i)" "\<not> is_dir (ram s1 ! i)" by blast
  have f: "f < length (fids s)" using assms(2) by (simp add: file_fid_def)
  have iv: "inv s1" by (rule rwrite_inv [OF assms(1) f s1(1)])
  have g: "file_fid s1 g i" using assms(3) s1 by (simp add: file_fid_def)
  then have "i < nram s1" using inv_fid_ram [OF iv, of g i] by (simp add: file_fid_def)
  then have i: "i < Nram" "i < length (ram s1)" using inv_ramD [OF iv] by simp_all
  have "data_ok (ram s1 ! i)" using inv_ram_ok [OF iv i(1)] by (simp add: ram_ok_def Let_def)
  from rread_Some [OF this i(2) g assms(7), of lib now'] assms(8) s1(3,4)
  obtain s2 where "rread lib now' r g s1 = Some (None, s2)"
      "read_reply s2 = take cnt (drop pos (overwrite (r_data (ram s ! i)) off bs))" by auto
  with s1(1) show ?thesis by blast
qed

theorem write_then_read_witness:
  "\<exists>s1 s2. rwrite ex_lib 5 (ex_call\<lparr>t_offset := 2, t_count := 3, t_data := [7, 8, 9]\<rparr>) 0 (ex_state 1) = Some (None, s1)
     \<and> rread ex_lib 6 (ex_call\<lparr>t_offset := 1, t_count := 3\<rparr>) 0 s1 = Some (None, s2) \<and> read_reply s2 = [0, 7, 8]"
proof -
  have f: "file_fid (ex_state 1) 0 1"
    by (simp add: file_fid_def ex_fid_def file0_def is_dir_def)
  have w: "write_msg (ex_call\<lparr>t_offset := 2, t_count := 3, t_data := [7, 8, 9]\<rparr>) 2 [7, 8, 9]"
    and r: "read_msg (ex_call\<lparr>t_offset := 1, t_count := 3\<rparr>) 1 3"
    by (simp_all add: write_msg_def read_msg_def Maxsize_def)
  have "take 3 (drop 1 (overwrite (r_data (ram (ex_state 1) ! 1)) 2 [7, 8, 9])) = [0, 7, 8]"
    by (simp add: overwrite_def file0_def zero_ram_def numeral_2_eq_2 numeral_3_eq_3)
  moreover have "r_perm (ram (ex_state 1) ! 1) AND DMAPPEND = 0" by (simp add: file0_def)
  ultimately show ?thesis
    using write_then_read [OF ex_state_inv f f _ w ex_lib_ok(2) r, of 5 6] by simp
qed


text \<open>C11. \<open>open\<close> checks the permissions: if it succeeds on a plain file, the fid's user has the
  permissions the mode asks for, write permission if the file is truncated, and write
  permission in the directory if the file is to be removed on close.\<close>

theorem ropen_checks_perm:
  assumes "ropen t f s = Some (None, s')" "f_ram (fids s ! f) = Some i" "\<not> is_dir (ram s ! i)"
  shows "let fd = fids s ! f; r = ram s ! i; m = t_mode t AND OPERM
    in (m = OREAD \<or> m = ORDWR \<longrightarrow> perm fd r Pread) \<and> (m = OWRITE \<or> m = ORDWR \<longrightarrow> perm fd r Pwrite)
       \<and> (m = OEXEC \<longrightarrow> perm fd r Pexec) \<and> (t_mode t AND OTRUNC \<noteq> 0 \<longrightarrow> perm fd r Pwrite)
       \<and> (t_mode t AND ORCLOSE \<noteq> 0 \<longrightarrow> perm fd (ram s ! r_parent r) Pwrite)
       \<and> f_busy fd \<and> \<not> f_open fd \<and> r_busy r"
proof -
  have pf: "perm (fids (upd_fid f (\<lambda>fd. fd\<lparr>f_rclose := True\<rparr>) s) ! f) r p = perm (fids s ! f) r p" for r p
    by (cases "f < length (fids s)") (simp_all add: perm_def upd_fid_def list_update_beyond)
  show ?thesis
    using assms by (simp add: ropen_def Let_def pf split: if_split_asm) auto
qed

theorem ropen_checks_perm_witness:
  "\<exists>s'. ropen (ex_call\<lparr>t_mode := 2\<rparr>) 0 (ex_state 1) = Some (None, s') \<and> perm (ex_fid 1) (file0 ''glenda'' 0) Pwrite"
proof -
  have d: "\<not> is_dir (ram (ex_state 1) ! 1)" by (simp add: file0_def is_dir_def)
  have "\<exists>s'. ropen (ex_call\<lparr>t_mode := 2\<rparr>) 0 (ex_state 1) = Some (None, s')"
    by (simp add: ropen_def Let_def ex_fid_def file0_def zero_ram_def is_dir_def perm_def)
  then obtain s' where o: "ropen (ex_call\<lparr>t_mode := 2\<rparr>) 0 (ex_state 1) = Some (None, s')" ..
  have "f_ram (fids (ex_state 1) ! 0) = Some 1" by (simp add: ex_fid_def)
  from ropen_checks_perm [OF o this d] o show ?thesis by (simp add: Let_def)
qed





text \<open>A walk to a name that does not exist ends the server when it asks for a new fid: the new
  fid is given up and then \<open>assert(f->busy)\<close> fails on it.\<close>

theorem failed_walk_ends_server:
  assumes "inv s" "f < length (fids s)" "f_busy (fids s ! f)" "\<not> f_open (fids s ! f)" "f_ram (fids s ! f) = Some d"
    and "r_busy (ram s ! d)" "is_dir (ram s ! d)" "perm (fids s ! f) (ram s ! r_parent (ram s ! d)) Pexec"
    and "t_newfid t \<noteq> t_fid t" "t_wname t = [name]" "name \<noteq> ''.''" "name \<noteq> ''..''" "lookup s d name = None"
  shows "rwalk now t f s = None"
proof -
  let ?s = "upd_rhdr (\<lambda>h. h\<lparr>h_nwqid := 0\<rparr>) s"
  have i0: "inv ?s" "f < length (fids ?s)" using assms(1,2) by simp_all
  obtain nf s0 where n0: "newfid (t_newfid t) ?s = (nf, s0)" by fastforce
  define s1 where "s1 = upd_fid nf (\<lambda>fd. fd\<lparr>f_busy := True, f_open := False, f_rclose := False,
                                     f_ram := Some d, f_user := f_user (fids s0 ! f)\<rparr>) s0"
  have x: "xclone t f ?s = Some (Inr nf, s1)"
    using assms(3-6) n0 by (simp add: xclone_def s1_def)
  from xclone_inv [OF i0 x] have nf: "nf < length (fids s1)" "f_busy (fids s1 ! nf)" "ram s1 = ram s"
      "f_ram (fids s1 ! nf) = Some d" "f_user (fids s1 ! nf) = f_user (fids s ! f)" "inv s1"
    using assms(5) by simp_all
  have h: "h_nwqid (rhdr s1) = 0" "nram s1 = nram s"
    using newfid_inv(4,5) [OF i0(1) n0] by (simp_all add: s1_def)
  let ?s2 = "upd_ram d (\<lambda>r. r\<lparr>r_atime := now\<rparr>) s1"
  have dl: "d < length (ram s1)" using inv_fid_ram [OF nf(6,1,4)] inv_ramD [OF nf(6)] by simp
  have pm: "perm (fids ?s2 ! nf) (ram ?s2 ! r_parent (ram ?s2 ! d)) Pexec"
    using assms(8) nf(3,5) dl by (auto simp: perm_def ram_upd_ram)
  have "lookup ?s2 d name = lookup s d name"
    unfolding lookup_def upd_ram_simps h(2)
    by (rule arg_cong [where f = "\<lambda>P. find P [0..<nram s]"]) (use dl nf(3) in \<open>auto simp: child_def ram_upd_ram\<close>)
  then have lk: "lookup ?s2 d name = None" using assms(13) by simp
  have "walk_loop now nf [name] 0 d s1 = (None, 0, d, ?s2)"
    using assms(6,7,11,12) nf(3) pm lk by (simp add: MAXWELEM_def Let_def)
  then have "walk_end t nf True (walk_loop now nf (t_wname t) 0 d s1) = None"
    using assms(10) h(1) nf(1) by (simp add: walk_end_def Let_def upd_fid_def)
  with x assms(3,9) nf(4) show ?thesis by (simp add: rwalk_def Let_def)
qed

theorem failed_walk_ends_server_witness:
  "rwalk 0 (ex_call\<lparr>t_wname := [''x'']\<rparr>) 0 (ex_state 0) = None"
proof -
  have "lookup (ex_state 0) 0 ''x'' = None"
    by (simp add: lookup_def find_None_upt child_def less_Suc_eq numeral_2_eq_2 root0_def file0_def)
  then show ?thesis
    by (intro failed_walk_ends_server [where d = 0 and name = "''x''"])
      (simp_all add: ex_fid_def root0_def is_dir_def perm_def ex_call_def zero_ram_def)
qed

text \<open>The size checks do not cover the 32-bit arithmetic they are made with: a write whose
  offset and count wrap around to a small sum passes the check and then clears memory beyond
  the block, and a read at an offset of \<open>2 ^ 31\<close> or more takes its reply from before it.\<close>

theorem huge_offset_leaves_block:
  assumes "inv s" "file_fid s f i" "r_perm (ram s ! i) AND DMAPPEND = 0"
    and "2147483648 \<le> unat (ucast (t_offset t) :: u32)"
    and "4294967296 \<le> unat (ucast (t_offset t) :: u32) + unat (t_count t)"
    and "unat (ucast (t_offset t) :: u32) + unat (t_count t) < 4294967296 + Maxsize"
  shows "rwrite lib now t f s = None \<and> rread lib now t f s = None"
proof -
  let ?r = "ram s ! i" and ?off = "ucast (t_offset t) :: u32" and ?n = "length (r_data (ram s ! i))"
  have f: "f < length (fids s)" "f_ram (fids s ! f) = Some i" using assms(2) by (simp_all add: file_fid_def)
  have "i < Nram" using inv_fid_ram [OF assms(1) f] inv_ramD [OF assms(1)] by simp
  then have dk: "data_ok ?r" using inv_ram_ok [OF assms(1), of i] by (simp add: ram_ok_def Let_def)
  have n: "r_ndata ?r = int ?n" "?n < 2147483648" using dk by (auto simp: data_ok_def)
  have nd: "unat (word_of_int (r_ndata ?r) :: u32) = ?n" using n unat_of_small [of ?n] by simp
  define nd' where "nd' = (word_of_int (r_ndata ?r) :: u32)"
  define fin where "fin = ?off + t_count t"
  have fin: "unat fin = unat ?off + unat (t_count t) - 4294967296"
  proof -
    have "unat fin = (unat ?off + unat (t_count t)) mod 4294967296" by (simp add: fin_def unat_word_ariths)
    also have "\<dots> = unat ?off + unat (t_count t) - 4294967296"
      using assms(5,6) by (subst le_mod_geq) (simp_all add: Maxsize_def)
    finally show ?thesis .
  qed
  have lt: "unat fin < unat ?off" using fin unat_u32_lt [of "t_count t"] assms(5) by linarith
  have small: "\<not> of_nat Maxsize \<le> fin"
    unfolding word_le_nat_alt fin using assms(5,6) by (simp add: Maxsize_def)
  have gap: "nd' < ?off" unfolding word_less_nat_alt nd'_def nd using n(2) assms(4) by simp
  have sub: "unat (?off - nd') = unat ?off - ?n"
    using gap nd by (simp add: nd'_def unat_sub less_imp_le)
  have mc: "mem_copy d (unat nd') (replicate (unat (?off - nd')) 0) = None" if "length d < unat ?off" for d
    using that sub nd n(2) assms(4) by (simp add: mem_copy_def nd'_def)
  have "rwrite lib now t f s
      = (if nd' < fin then erealloc lib (r_data ?r) (unat fin) else Some (r_data ?r)) \<bind>
        (\<lambda>d. None)"
  proof (cases "nd' < fin")
    case True
    have "mem_copy d (unat nd') (replicate (unat (?off - nd')) 0) = None"
      if "erealloc lib (r_data ?r) (unat fin) = Some d" for d
      using mc [of d] erealloc_length [OF that] lt by simp
    with True show ?thesis
      using assms(2,3) small gap
      by (cases "erealloc lib (r_data ?r) (unat fin)")
        (simp_all add: rwrite_def file_fid_def Let_def flip: fin_def nd'_def)
  next
    case False
    have "mem_copy (r_data ?r) (unat nd') (replicate (unat (?off - nd')) 0) = None"
      using mc [of "r_data ?r"] n(2) assms(4) by simp
    with False show ?thesis
      using assms(2,3) small gap by (simp add: rwrite_def file_fid_def Let_def flip: fin_def nd'_def)
  qed
  moreover have "sint ?off < 0"
  proof (rule ccontr)
    assume "\<not> sint ?off < 0"
    moreover have l: "sint ?off < 2147483648" using sint_lt [of ?off] by simp
    ultimately have "take_bit 32 (sint ?off) = sint ?off" by (intro take_bit_int_eq_self) simp_all
    then have "uint ?off = sint ?off" using uint_sint [of ?off] by simp
    note l this
    moreover have "uint ?off = int (unat ?off)" by simp
    ultimately show False using assms(4) by linarith
  qed
  then have "rread lib now t f s = None"
    using assms(2) n by (simp add: rread_def file_fid_def Let_def)
  ultimately show ?thesis by simp
qed

theorem huge_offset_leaves_block_witness:
  "rwrite ex_lib 0 (ex_call\<lparr>t_offset := 0xFFFFFFFF, t_count := 1, t_data := [7]\<rparr>) 0 (ex_state 1) = None
   \<and> rread ex_lib 0 (ex_call\<lparr>t_offset := 0xFFFFFFFF, t_count := 1, t_data := [7]\<rparr>) 0 (ex_state 1) = None"
  by (rule huge_offset_leaves_block [where i = 1])
    (simp_all add: file_fid_def ex_fid_def file0_def is_dir_def Maxsize_def)

end
