(* ===== verification/Stdio.thy ===== *)
theory Stdio
  imports Prelude
begin

text \<open>
  The streams of src/src/libstdio. A \<open>FILE\<close> is its C struct; the pointers \<open>rp\<close>, \<open>wp\<close> and \<open>lp\<close> are
  offsets into the block \<open>buf\<close> points at, which is the stream's own \<open>unbuf\<close> where \<open>s_unbuf\<close> is
  set. The system calls and the allocator are a parameter, the record \<open>sys\<close>, over a state \<open>'os\<close>
  that the model does not look into. Operations return \<open>None\<close> where the C program has no defined
  result: an access outside a block, or a lock that is never released.

  The properties: whatever the buffering mode, what a stream has written and what it holds
  back are together exactly the characters put into it; what \<open>fread\<close> returns and what the
  buffer still holds are exactly what was read.
\<close>

section \<open>Data\<close>

datatype iostate = CLOSED | OPEN | RDWR | RD | WR | ERR | END

record FILE =
  s_fd :: int
  s_balloc :: bool
  s_linebuf :: bool
  s_string :: bool
  s_append :: bool
  s_state :: iostate
  s_buf :: "string option"
  s_unbuf :: bool
  s_rp :: int
  s_wp :: int
  s_lp :: int
  s_bufl :: int

text \<open>
  What the library calls: \<open>write\<close>, \<open>read\<close> (\<open>None\<close> for -1), \<open>seek\<close>, \<open>open\<close>, \<open>create\<close>, \<open>close\<close>;
  \<open>malloc\<close> (the block with whatever it holds, or \<open>None\<close>), \<open>realloc\<close> (also whether the block
  moved); and \<open>sys_tty\<close>, what \<open>isatty\<close> makes of its uninitialised buffer.
\<close>

record 'os sys =
  sys_write :: "int \<Rightarrow> string \<Rightarrow> 'os \<Rightarrow> int \<times> 'os"
  sys_read :: "int \<Rightarrow> nat \<Rightarrow> 'os \<Rightarrow> string option \<times> 'os"
  sys_seek :: "int \<Rightarrow> int \<Rightarrow> int \<Rightarrow> 'os \<Rightarrow> int \<times> 'os"
  sys_open :: "string \<Rightarrow> nat \<Rightarrow> 'os \<Rightarrow> int \<times> 'os"
  sys_create :: "string \<Rightarrow> nat \<Rightarrow> 'os \<Rightarrow> int \<times> 'os"
  sys_close :: "int \<Rightarrow> 'os \<Rightarrow> int \<times> 'os"
  sys_malloc :: "nat \<Rightarrow> 'os \<Rightarrow> string option \<times> 'os"
  sys_realloc :: "string \<Rightarrow> nat \<Rightarrow> 'os \<Rightarrow> (bool \<times> string) option \<times> 'os"
  sys_tty :: bool

definition BUFSIZ :: int where "BUFSIZ = 4096"
definition FOPEN_MAX :: nat where "FOPEN_MAX = 128"

datatype bufmode = IOFBF | IOLBF | IONBF


text \<open>Loads and stores through a pointer into the buffer.\<close>

definition poke :: "FILE \<Rightarrow> int \<Rightarrow> char \<Rightarrow> FILE option" where
  "poke f i c = (case s_buf f of
                   None \<Rightarrow> None
                 | Some b \<Rightarrow> if 0 \<le> i \<and> i < int (length b) then Some (f\<lparr>s_buf := Some (b[nat i := c])\<rparr>) else None)"

definition peek :: "FILE \<Rightarrow> int \<Rightarrow> char option" where
  "peek f i = (case s_buf f of
                 None \<Rightarrow> None
               | Some b \<Rightarrow> if 0 \<le> i \<and> i < int (length b) then Some (b ! nat i) else None)"

text \<open>The \<open>n\<close> bytes from offset \<open>i\<close> on.\<close>

definition buf_range :: "FILE \<Rightarrow> int \<Rightarrow> int \<Rightarrow> string option" where
  "buf_range f i n = (case s_buf f of
                        None \<Rightarrow> if n = 0 then Some [] else None
                      | Some b \<Rightarrow> if 0 \<le> i \<and> 0 \<le> n \<and> i + n \<le> int (length b)
                                  then Some (take (nat n) (drop (nat i) b)) else None)"

definition poke_range :: "FILE \<Rightarrow> int \<Rightarrow> string \<Rightarrow> FILE option" where
  "poke_range f i bs = (case s_buf f of
                          None \<Rightarrow> if bs = [] then Some f else None
                        | Some b \<Rightarrow> if 0 \<le> i \<and> nat i + length bs \<le> length b
                                    then Some (f\<lparr>s_buf := Some (take (nat i) b @ bs @ drop (nat i + length bs) b)\<rparr>)
                                    else None)"

section \<open>Buffers\<close>

definition setvbuf :: "'os sys \<Rightarrow> FILE \<Rightarrow> string option \<Rightarrow> bufmode \<Rightarrow> int \<Rightarrow> 'os \<Rightarrow> int \<times> FILE \<times> 'os" where
  "setvbuf sys f ub mode sz os =
     (if s_state f \<noteq> OPEN then (-1, f\<lparr>s_state := ERR\<rparr>, os)
      else let f = f\<lparr>s_state := RDWR\<rparr>
           in case mode of
                IONBF \<Rightarrow> (0, f\<lparr>s_bufl := 0, s_buf := Some [NUL], s_unbuf := True, s_rp := 0, s_wp := 0, s_lp := 0\<rparr>, os)
              | _ \<Rightarrow>
                (let f = (if mode = IOLBF then f\<lparr>s_linebuf := True\<rparr> else f)
                 in case ub of
                      Some b \<Rightarrow> (0, f\<lparr>s_bufl := sz, s_buf := Some b, s_unbuf := False, s_rp := 0, s_wp := 0, s_lp := 0\<rparr>, os)
                    | None \<Rightarrow>
                      (case sys_malloc sys (nat sz) os of
                         (None, os) \<Rightarrow> (-1, f\<lparr>s_state := ERR\<rparr>, os)
                       | (Some b, os) \<Rightarrow>
                           (0, f\<lparr>s_balloc := True, s_bufl := sz, s_buf := Some b, s_unbuf := False,
                                 s_rp := 0, s_wp := 0, s_lp := 0\<rparr>, os))))"

text \<open>\<open>who\<close> is the index of the stream in \<open>_IO_stream\<close>: 1 is stdout, 2 is stderr.\<close>

definition IO_setvbuf :: "'os sys \<Rightarrow> nat \<Rightarrow> FILE \<Rightarrow> 'os \<Rightarrow> int \<times> FILE \<times> 'os" where
  "IO_setvbuf sys who f os =
     setvbuf sys f None (if who = 2 \<or> (who = 1 \<and> sys_tty sys) then IOLBF else IOFBF) BUFSIZ os"

definition setbuf :: "FILE \<Rightarrow> string option \<Rightarrow> FILE" where
  "setbuf f ub =
     (if s_state f = OPEN
      then (case ub of
              Some b \<Rightarrow> f\<lparr>s_bufl := BUFSIZ, s_buf := Some b, s_unbuf := False, s_rp := 0, s_wp := 0, s_lp := 0, s_state := RDWR\<rparr>
            | None \<Rightarrow> f\<lparr>s_bufl := 0, s_buf := Some [NUL], s_unbuf := True, s_rp := 0, s_wp := 0, s_lp := 0, s_state := RDWR\<rparr>)
      else f)"

section \<open>Putting characters\<close>

text \<open>\<open>if(APPEND) seek; if(cnt!=0 && write(fd, buf, cnt)!=cnt)\<close>: whether the write went well.\<close>

definition drain :: "'os sys \<Rightarrow> FILE \<Rightarrow> int \<Rightarrow> 'os \<Rightarrow> (bool \<times> 'os) option" where
  "drain sys f cnt os = do {
     let os = (if s_append f then snd (sys_seek sys (s_fd f) 0 2 os) else os);
     if cnt = 0 then Some (True, os)
     else do {
       bs \<leftarrow> buf_range f 0 cnt;
       let (n, os) = sys_write sys (s_fd f) bs os;
       Some (n = cnt, os)
     }
   }"

text \<open>The four ways \<open>_IO_putc\<close> stores a character: \<open>False\<close> is the error return.\<close>

definition putc_string :: "'os sys \<Rightarrow> char \<Rightarrow> FILE \<Rightarrow> 'os \<Rightarrow> (bool \<times> FILE \<times> 'os) option" where
  "putc_string sys c f os =
     (let f = f\<lparr>s_rp := s_bufl f\<rparr>
      in if s_wp f = s_rp f
         then (if \<not> s_balloc f then Some (False, f\<lparr>s_state := ERR\<rparr>, os)
               else (case sys_realloc sys (case s_buf f of None \<Rightarrow> [] | Some b \<Rightarrow> b) (nat (s_bufl f + BUFSIZ)) os of
                       (None, os) \<Rightarrow> Some (False, f\<lparr>s_buf := None, s_state := ERR\<rparr>, os)
                     | (Some (moved, b), os) \<Rightarrow>
                         (if moved then None \<comment> \<open>\<open>wp\<close> still points into the old block\<close>
                          else do {
                            f \<leftarrow> poke (f\<lparr>s_buf := Some b, s_rp := s_bufl f, s_bufl := s_bufl f + BUFSIZ\<rparr>) (s_wp f) c;
                            Some (True, f\<lparr>s_wp := s_wp f + 1\<rparr>, os)
                          })))
         else do {
           f \<leftarrow> poke f (s_wp f) c;
           Some (True, f\<lparr>s_wp := s_wp f + 1\<rparr>, os)
         })"

definition putc_line :: "'os sys \<Rightarrow> char \<Rightarrow> FILE \<Rightarrow> 'os \<Rightarrow> (bool \<times> FILE \<times> 'os) option" where
  "putc_line sys c f os = do {
     (good, f, os) \<leftarrow> (if s_lp f = s_rp f
                       then do { (good, os) \<leftarrow> drain sys f (s_lp f) os;
                                 Some (good, if good then f\<lparr>s_lp := 0\<rparr> else f\<lparr>s_state := ERR\<rparr>, os) }
                       else Some (True, f, os));
     if \<not> good then Some (False, f, os)
     else do {
       f \<leftarrow> poke f (s_lp f) c;
       let f = f\<lparr>s_lp := s_lp f + 1\<rparr>;
       if c = NL
       then do { (good, os) \<leftarrow> drain sys f (s_lp f) os;
                 Some (good, if good then f\<lparr>s_lp := 0\<rparr> else f\<lparr>s_state := ERR\<rparr>, os) }
       else Some (True, f, os)
     }
   }"

definition putc_unbuf :: "'os sys \<Rightarrow> char \<Rightarrow> FILE \<Rightarrow> 'os \<Rightarrow> (bool \<times> FILE \<times> 'os) option" where
  "putc_unbuf sys c f os = do {
     f \<leftarrow> poke f 0 c;
     (good, os) \<leftarrow> drain sys f 1 os;
     Some (good, if good then f else f\<lparr>s_state := ERR\<rparr>, os)
   }"

definition putc_block :: "'os sys \<Rightarrow> char \<Rightarrow> FILE \<Rightarrow> 'os \<Rightarrow> (bool \<times> FILE \<times> 'os) option" where
  "putc_block sys c f os = do {
     (good, f, os) \<leftarrow> (if s_wp f = s_rp f
                       then do { (good, os) \<leftarrow> drain sys f (s_wp f) os;
                                 Some (good, if good then f\<lparr>s_wp := 0, s_rp := s_bufl f\<rparr> else f\<lparr>s_state := ERR\<rparr>, os) }
                       else Some (True, f, os));
     if \<not> good then Some (False, f, os)
     else do {
       f \<leftarrow> poke f (s_wp f) c;
       Some (True, f\<lparr>s_wp := s_wp f + 1\<rparr>, os)
     }
   }"

text \<open>The \<open>switch\<close> at the start: the stream made ready for output, unless it is not open for it.\<close>

definition putc_start :: "'os sys \<Rightarrow> nat \<Rightarrow> FILE \<Rightarrow> 'os \<Rightarrow> FILE \<times> 'os" where
  "putc_start sys who f os =
     (if s_state f = WR then (f, os)
      else let (f, os) = (if s_state f = OPEN then snd (IO_setvbuf sys who f os) else (f, os));
               f = f\<lparr>s_rp := s_bufl f\<rparr>
           in (if s_linebuf f then f\<lparr>s_wp := s_rp f, s_lp := 0\<rparr> else f\<lparr>s_wp := 0\<rparr>, os))"

definition IO_putc :: "'os sys \<Rightarrow> nat \<Rightarrow> char \<Rightarrow> FILE \<Rightarrow> 'os \<Rightarrow> (char option \<times> FILE \<times> 'os) option" where
  "IO_putc sys who c f os =
     (if s_state f = RD then Some (None, f\<lparr>s_state := ERR\<rparr>, os)
      else if s_state f = ERR \<or> s_state f = CLOSED then Some (None, f, os)
      else do {
        let (f, os) = putc_start sys who f os;
        (good, f, os) \<leftarrow> (if s_string f then putc_string sys c f os
                          else if s_linebuf f then putc_line sys c f os
                          else if s_unbuf f then putc_unbuf sys c f os
                          else putc_block sys c f os);
        Some (if good then (Some c, f\<lparr>s_state := WR\<rparr>, os) else (None, f, os))
      })"

text \<open>The macro \<open>putc\<close>.\<close>

definition putc :: "'os sys \<Rightarrow> nat \<Rightarrow> char \<Rightarrow> FILE \<Rightarrow> 'os \<Rightarrow> (char option \<times> FILE \<times> 'os) option" where
  "putc sys who c f os =
     (if s_rp f \<le> s_wp f then IO_putc sys who c f os
      else do {
        f \<leftarrow> poke f (s_wp f) c;
        Some (Some c, f\<lparr>s_wp := s_wp f + 1\<rparr>, os)
      })"

fun put_string :: "'os sys \<Rightarrow> nat \<Rightarrow> string \<Rightarrow> FILE \<Rightarrow> 'os \<Rightarrow> (FILE \<times> 'os) option" where
  "put_string sys who [] f os = Some (f, os)"
| "put_string sys who (c # cs) f os = do {
     (_, f, os) \<leftarrow> putc sys who c f os;
     put_string sys who cs f os
   }"

definition ferror :: "FILE \<Rightarrow> bool" where "ferror f = (s_state f = ERR)"
definition feof :: "FILE \<Rightarrow> bool" where "feof f = (s_state f = END)"

definition fputs :: "'os sys \<Rightarrow> nat \<Rightarrow> string \<Rightarrow> FILE \<Rightarrow> 'os \<Rightarrow> (int \<times> FILE \<times> 'os) option" where
  "fputs sys who s f os = do {
     (f, os) \<leftarrow> put_string sys who s f os;
     Some (if ferror f then -1 else 0, f, os)
   }"

text \<open>One stream of \<open>fflush\<close>.\<close>

definition fflush1 :: "'os sys \<Rightarrow> FILE \<Rightarrow> 'os \<Rightarrow> (int \<times> FILE \<times> 'os) option" where
  "fflush1 sys f os =
     (if s_string f then Some (-1, f, os)
      else case s_state f of
             CLOSED \<Rightarrow> Some (-1, f, os)
           | ERR \<Rightarrow> Some (-1, f, os)
           | WR \<Rightarrow>
               (let cnt = (if s_linebuf f then s_lp f else s_wp f)
                in if cnt = 0 then Some (0, f\<lparr>s_rp := 0, s_wp := 0, s_state := RDWR\<rparr>, os)
                   else do {
                     bs \<leftarrow> buf_range f 0 cnt;
                     let (n, os) = sys_write sys (s_fd f) bs os;
                     Some (if n \<noteq> cnt then (-1, f\<lparr>s_state := ERR\<rparr>, os)
                           else (0, f\<lparr>s_rp := 0, s_wp := 0, s_state := RDWR\<rparr>, os))
                   })
           | _ \<Rightarrow> Some (0, f, os))"


section \<open>What output promises\<close>

text \<open>
  A device that takes all it is given: \<open>out fd os\<close> is what has been written to \<open>fd\<close>; memory is
  there.
\<close>

definition good_dev :: "'os sys \<Rightarrow> (int \<Rightarrow> 'os \<Rightarrow> string) \<Rightarrow> bool" where
  "good_dev sys out \<longleftrightarrow>
     (\<forall>fd bs os. fst (sys_write sys fd bs os) = int (length bs)
        \<and> (\<forall>fd'. out fd' (snd (sys_write sys fd bs os)) = (if fd' = fd then out fd os @ bs else out fd' os)))
     \<and> (\<forall>fd o1 w os fd'. out fd' (snd (sys_seek sys fd o1 w os)) = out fd' os)
     \<and> (\<forall>n os. \<exists>b os'. sys_malloc sys n os = (Some b, os') \<and> length b = n \<and> (\<forall>fd'. out fd' os' = out fd' os))"

text \<open>An output stream in each of its states, and the characters it holds back.\<close>

definition line_ready :: "FILE \<Rightarrow> bool" where
  "line_ready f \<longleftrightarrow> (\<exists>b. s_buf f = Some b \<and> int (length b) = s_bufl f \<and> 0 < s_bufl f) \<and> \<not> s_unbuf f \<and> s_linebuf f
     \<and> s_rp f = s_bufl f \<and> s_wp f = s_rp f \<and> 0 \<le> s_lp f \<and> s_lp f \<le> s_bufl f"

definition block_ready :: "FILE \<Rightarrow> bool" where
  "block_ready f \<longleftrightarrow> (\<exists>b. s_buf f = Some b \<and> int (length b) = s_bufl f \<and> 0 < s_bufl f) \<and> \<not> s_unbuf f \<and> \<not> s_linebuf f
     \<and> (s_rp f = s_bufl f \<or> s_rp f = 0) \<and> 0 \<le> s_wp f \<and> s_wp f \<le> s_rp f"

definition unbuf_ready :: "FILE \<Rightarrow> bool" where
  "unbuf_ready f \<longleftrightarrow> (\<exists>x. s_buf f = Some [x]) \<and> s_unbuf f \<and> \<not> s_linebuf f \<and> s_bufl f = 0 \<and> s_rp f = 0 \<and> s_wp f = 0"

definition has_buf :: "FILE \<Rightarrow> bool" where
  "has_buf f \<longleftrightarrow> (if s_unbuf f then (\<exists>x. s_buf f = Some [x]) \<and> \<not> s_linebuf f \<and> s_bufl f = 0
                  else \<exists>b. s_buf f = Some b \<and> int (length b) = s_bufl f \<and> 0 < s_bufl f)"

definition wf_out :: "FILE \<Rightarrow> bool" where
  "wf_out f \<longleftrightarrow> \<not> s_string f \<and>
     (case s_state f of
        OPEN \<Rightarrow> s_rp f \<le> s_wp f
      | RDWR \<Rightarrow> has_buf f \<and> s_rp f \<le> s_wp f
      | END \<Rightarrow> has_buf f \<and> s_rp f \<le> s_wp f
      | WR \<Rightarrow> line_ready f \<or> block_ready f \<or> unbuf_ready f
      | _ \<Rightarrow> False)"

definition held :: "FILE \<Rightarrow> string" where
  "held f = (case s_buf f of None \<Rightarrow> []
             | Some b \<Rightarrow> if s_linebuf f then take (nat (s_lp f)) b
                         else if s_unbuf f then [] else take (nat (s_wp f)) b)"

definition pending :: "FILE \<Rightarrow> string" where
  "pending f = (if s_state f = WR then held f else [])"

lemma good_dev_write:
  assumes "good_dev sys out"
  shows "fst (sys_write sys fd bs os) = int (length bs)" "out fd (snd (sys_write sys fd bs os)) = out fd os @ bs"
proof -
  from assms have "\<forall>fd bs os. fst (sys_write sys fd bs os) = int (length bs)
        \<and> (\<forall>fd'. out fd' (snd (sys_write sys fd bs os)) = (if fd' = fd then out fd os @ bs else out fd' os))"
    unfolding good_dev_def by (rule conjunct1)
  then show "fst (sys_write sys fd bs os) = int (length bs)" "out fd (snd (sys_write sys fd bs os)) = out fd os @ bs"
    by simp_all
qed

lemma good_dev_seek: "good_dev sys out \<Longrightarrow> out fd' (snd (sys_seek sys fd o1 w os)) = out fd' os"
  unfolding good_dev_def by (elim conjE) (rule allE, assumption, simp)

lemma good_dev_malloc:
  "good_dev sys out \<Longrightarrow> \<exists>b os'. sys_malloc sys n os = (Some b, os') \<and> length b = n \<and> (\<forall>fd'. out fd' os' = out fd' os)"
  unfolding good_dev_def by (elim conjE) blast

lemma drain_ok:
  assumes "good_dev sys out" "s_buf f = Some b" "0 \<le> n" "n \<le> int (length b)"
  shows "\<exists>os'. drain sys f n os = Some (True, os') \<and> out (s_fd f) os' = out (s_fd f) os @ take (nat n) b"
proof -
  define os1 where "os1 = (if s_append f then snd (sys_seek sys (s_fd f) 0 2 os) else os)"
  have o1: "out (s_fd f) os1 = out (s_fd f) os" by (simp add: os1_def good_dev_seek [OF assms(1)])
  show ?thesis
  proof (cases "n = 0")
    case True
    with o1 show ?thesis by (intro exI [of _ os1]) (simp add: drain_def os1_def)
  next
    case False
    have r: "buf_range f 0 n = Some (take (nat n) b)" using assms by (simp add: buf_range_def)
    obtain k os2 where w: "sys_write sys (s_fd f) (take (nat n) b) os1 = (k, os2)" by fastforce
    note W = good_dev_write [OF assms(1), of "s_fd f" "take (nat n) b" os1]
    from W w have "k = int (length (take (nat n) b))" "out (s_fd f) os2 = out (s_fd f) os1 @ take (nat n) b" by simp_all
    then have k: "k = n" and o2: "out (s_fd f) os2 = out (s_fd f) os1 @ take (nat n) b"
      using assms(3,4) by simp_all
    have "drain sys f n os = Some (True, os2)"
      using False r w k by (simp add: drain_def flip: os1_def)
    with o1 o2 show ?thesis by auto
  qed
qed

lemma putc_line_ok:
  assumes "good_dev sys out" "line_ready f"
  shows "\<exists>f' os'. putc_line sys c f os = Some (True, f', os') \<and> line_ready f' \<and> s_fd f' = s_fd f \<and> s_string f' = s_string f
    \<and> out (s_fd f) os' @ held f' = (out (s_fd f) os @ held f) @ [c]"
proof -
  obtain b where b: "s_buf f = Some b" "int (length b) = s_bufl f" "0 < s_bufl f"
    using assms(2) by (auto simp: line_ready_def)
  have lp: "0 \<le> s_lp f" "s_lp f \<le> int (length b)" "s_rp f = s_bufl f" "s_linebuf f" "\<not> s_unbuf f" "s_wp f = s_rp f"
    using assms(2) b by (auto simp: line_ready_def)
  text \<open>After the first half there is room, and nothing is lost.\<close>
  have "\<exists>f1 os1. (if s_lp f = s_rp f
                       then drain sys f (s_lp f) os \<bind> (\<lambda>(good, os).
                                 Some (good, if good then f\<lparr>s_lp := 0\<rparr> else f\<lparr>s_state := ERR\<rparr>, os))
                       else Some (True, f, os)) = Some (True, f1, os1)
      \<and> (\<exists>l. f1 = f\<lparr>s_lp := l\<rparr> \<and> 0 \<le> l \<and> l < s_bufl f) \<and> out (s_fd f) os1 @ held f1 = out (s_fd f) os @ held f"
  proof (cases "s_lp f = s_rp f")
    case False
    with lp b show ?thesis by (intro exI [of _ f] exI [of _ os]) (auto intro: exI [of _ "s_lp f"])
  next
    case True
    from drain_ok [OF assms(1) b(1) lp(1,2)] obtain os1 where
      d: "drain sys f (s_lp f) os = Some (True, os1)" "out (s_fd f) os1 = out (s_fd f) os @ take (nat (s_lp f)) b" by blast
    have h: "held (f\<lparr>s_lp := 0\<rparr>) = []" "held f = take (nat (s_lp f)) b"
      using b(1) lp(4) by (simp_all add: held_def)
    show ?thesis
      using True d h b(3) by (intro exI [of _ "f\<lparr>s_lp := 0\<rparr>"] exI [of _ os1] conjI exI [of _ 0]) simp_all
  qed
  then obtain f1 os1 l where 1: "(if s_lp f = s_rp f
                       then drain sys f (s_lp f) os \<bind> (\<lambda>(good, os).
                                 Some (good, if good then f\<lparr>s_lp := 0\<rparr> else f\<lparr>s_state := ERR\<rparr>, os))
                       else Some (True, f, os)) = Some (True, f1, os1)"
    and f1: "f1 = f\<lparr>s_lp := l\<rparr>" "0 \<le> l" "l < s_bufl f" and o1: "out (s_fd f) os1 @ held f1 = out (s_fd f) os @ held f"
    by auto
  let ?b = "b[nat l := c]"
  let ?f2 = "f\<lparr>s_buf := Some ?b, s_lp := l + 1\<rparr>"
  have pk: "poke f1 (s_lp f1) c = Some (f\<lparr>s_buf := Some ?b, s_lp := l\<rparr>)"
    using f1 b by (simp add: poke_def)
  have nl: "nat (l + 1) = Suc (nat l)" "nat l < length b" using f1 b by linarith+
  have h2: "take (nat (l + 1)) ?b = take (nat l) b @ [c]"
    using nl by (simp add: take_Suc_conv_app_nth)
  have h1: "held f1 = take (nat l) b" using lp b f1 by (simp add: held_def)
  have r2: "line_ready ?f2" using lp b f1 by (simp add: line_ready_def)
  show ?thesis
  proof (cases "c = NL")
    case False
    have "putc_line sys c f os = Some (True, ?f2, os1)"
      using 1 f1(1) pk False by (simp add: putc_line_def)
    moreover have "held ?f2 = held f1 @ [c]" using h1 h2 lp by (simp add: held_def)
    ultimately show ?thesis using r2 o1 by (intro exI [of _ ?f2] exI [of _ os1]) simp
  next
    case True
    have "s_buf ?f2 = Some ?b" "0 \<le> l + 1" "l + 1 \<le> int (length ?b)" using f1 b by simp_all
    from drain_ok [OF assms(1) this] obtain os2 where
      d: "drain sys ?f2 (l + 1) os1 = Some (True, os2)" "out (s_fd f) os2 = out (s_fd f) os1 @ take (nat (l + 1)) ?b" by auto
    have "putc_line sys c f os = Some (True, ?f2\<lparr>s_lp := 0\<rparr>, os2)"
      using 1 f1(1) pk True d(1) by (simp add: putc_line_def)
    moreover have "line_ready (?f2\<lparr>s_lp := 0\<rparr>)" using r2 b by (simp add: line_ready_def)
    moreover have "out (s_fd f) os2 @ held (?f2\<lparr>s_lp := 0\<rparr>) = (out (s_fd f) os @ held f) @ [c]"
      using d(2) h1 h2 o1 lp by (simp add: held_def)
    ultimately show ?thesis by (intro exI [of _ "?f2\<lparr>s_lp := 0\<rparr>"] exI [of _ os2]) simp
  qed
qed


lemma putc_unbuf_ok:
  assumes "good_dev sys out" "unbuf_ready f"
  shows "\<exists>f' os'. putc_unbuf sys c f os = Some (True, f', os') \<and> unbuf_ready f' \<and> s_fd f' = s_fd f \<and> s_string f' = s_string f
    \<and> out (s_fd f) os' @ held f' = (out (s_fd f) os @ held f) @ [c]"
proof -
  obtain x where x: "s_buf f = Some [x]" "s_unbuf f" "\<not> s_linebuf f" using assms(2) by (auto simp: unbuf_ready_def)
  let ?f = "f\<lparr>s_buf := Some [c]\<rparr>"
  have pk: "poke f 0 c = Some ?f" using x by (simp add: poke_def)
  from drain_ok [OF assms(1), of ?f "[c]" 1 os] obtain os1 where
    d: "drain sys ?f 1 os = Some (True, os1)" "out (s_fd f) os1 = out (s_fd f) os @ [c]" by auto
  have "putc_unbuf sys c f os = Some (True, ?f, os1)" by (simp add: putc_unbuf_def pk d(1))
  moreover have "held ?f = []" "held f = []" using x by (simp_all add: held_def)
  moreover have "unbuf_ready ?f" using assms(2) by (simp add: unbuf_ready_def)
  ultimately show ?thesis using d(2) by (intro exI [of _ ?f] exI [of _ os1]) simp
qed

lemma putc_block_ok:
  assumes "good_dev sys out" "block_ready f"
  shows "\<exists>f' os'. putc_block sys c f os = Some (True, f', os') \<and> block_ready f' \<and> s_fd f' = s_fd f \<and> s_string f' = s_string f
    \<and> out (s_fd f) os' @ held f' = (out (s_fd f) os @ held f) @ [c]"
proof -
  obtain b where b: "s_buf f = Some b" "int (length b) = s_bufl f" "0 < s_bufl f"
    using assms(2) by (auto simp: block_ready_def)
  have wp: "0 \<le> s_wp f" "s_wp f \<le> s_rp f" "s_rp f = s_bufl f \<or> s_rp f = 0" "\<not> s_linebuf f" "\<not> s_unbuf f"
    using assms(2) by (auto simp: block_ready_def)
  have hf: "held g = take (nat (s_wp g)) b'" if "s_buf g = Some b'" "\<not> s_linebuf g" "\<not> s_unbuf g" for g b'
    using that by (simp add: held_def)
  have "\<exists>f1 os1. (if s_wp f = s_rp f
                       then drain sys f (s_wp f) os \<bind> (\<lambda>(good, os).
                                 Some (good, if good then f\<lparr>s_wp := 0, s_rp := s_bufl f\<rparr> else f\<lparr>s_state := ERR\<rparr>, os))
                       else Some (True, f, os)) = Some (True, f1, os1)
      \<and> (\<exists>l. f1 = f\<lparr>s_wp := l, s_rp := s_bufl f\<rparr> \<and> 0 \<le> l \<and> l < s_bufl f) \<and> out (s_fd f) os1 @ held f1 = out (s_fd f) os @ held f"
  proof (cases "s_wp f = s_rp f")
    case False
    then have "s_rp f = s_bufl f" "s_wp f < s_bufl f" using wp by linarith+
    with wp(1) False show ?thesis by (intro exI [of _ f] exI [of _ os] conjI exI [of _ "s_wp f"]) simp_all
  next
    case True
    have "s_wp f \<le> int (length b)" using wp b by linarith
    from drain_ok [OF assms(1) b(1) wp(1) this] obtain os1 where
      d: "drain sys f (s_wp f) os = Some (True, os1)" "out (s_fd f) os1 = out (s_fd f) os @ take (nat (s_wp f)) b" by blast
    have h: "held (f\<lparr>s_wp := 0, s_rp := s_bufl f\<rparr>) = []" "held f = take (nat (s_wp f)) b"
      using b(1) wp(4,5) by (simp_all add: held_def)
    show ?thesis
      using True d h b(3)
      by (intro exI [of _ "f\<lparr>s_wp := 0, s_rp := s_bufl f\<rparr>"] exI [of _ os1] conjI exI [of _ 0]) simp_all
  qed
  then obtain f1 os1 l where 1: "(if s_wp f = s_rp f
                       then drain sys f (s_wp f) os \<bind> (\<lambda>(good, os).
                                 Some (good, if good then f\<lparr>s_wp := 0, s_rp := s_bufl f\<rparr> else f\<lparr>s_state := ERR\<rparr>, os))
                       else Some (True, f, os)) = Some (True, f1, os1)"
    and f1: "f1 = f\<lparr>s_wp := l, s_rp := s_bufl f\<rparr>" "0 \<le> l" "l < s_bufl f"
    and o1: "out (s_fd f) os1 @ held f1 = out (s_fd f) os @ held f" by auto
  let ?b = "b[nat l := c]"
  let ?f2 = "f\<lparr>s_buf := Some ?b, s_wp := l + 1, s_rp := s_bufl f\<rparr>"
  have pk: "poke f1 (s_wp f1) c = Some (f\<lparr>s_buf := Some ?b, s_wp := l, s_rp := s_bufl f\<rparr>)"
    using f1 b by (simp add: poke_def)
  have nl: "nat (l + 1) = Suc (nat l)" "nat l < length b" using f1 b by linarith+
  have "putc_block sys c f os = Some (True, ?f2, os1)"
    using 1 f1(1) pk by (simp add: putc_block_def)
  moreover have "held ?f2 = held f1 @ [c]"
    using hf [of ?f2 ?b] hf [of f1 b] b(1) wp(4,5) f1(1) nl by (simp add: take_Suc_conv_app_nth)
  moreover have "block_ready ?f2" using b wp f1 by (simp add: block_ready_def)
  ultimately show ?thesis using o1 by (intro exI [of _ ?f2] exI [of _ os1]) simp
qed

text \<open>Getting ready keeps what is held back, and starts with nothing otherwise.\<close>

lemma setvbuf_ok:
  assumes "good_dev sys out" "s_state f = OPEN"
  shows "\<exists>f' os'. IO_setvbuf sys who f os = (0, f', os') \<and> has_buf f' \<and> \<not> s_unbuf f' \<and> s_state f' = RDWR \<and> s_fd f' = s_fd f
     \<and> s_string f' = s_string f \<and> s_append f' = s_append f \<and> s_rp f' = 0 \<and> s_wp f' = 0 \<and> s_bufl f' = BUFSIZ
     \<and> (\<forall>fd'. out fd' os' = out fd' os)"
proof -
  from good_dev_malloc [OF assms(1), of "nat BUFSIZ" os] obtain b os' where
    m: "sys_malloc sys (nat BUFSIZ) os = (Some b, os')" "length b = nat BUFSIZ" "\<forall>fd'. out fd' os' = out fd' os" by blast
  then show ?thesis
    using assms(2) by (auto simp: IO_setvbuf_def setvbuf_def has_buf_def BUFSIZ_def)
qed

lemma putc_start_ok:
  assumes "good_dev sys out" "wf_out f" "putc_start sys who f os = (f1, os1)"
  shows "(line_ready f1 \<or> block_ready f1 \<or> unbuf_ready f1) \<and> held f1 = pending f \<and> s_fd f1 = s_fd f
     \<and> out (s_fd f) os1 = out (s_fd f) os \<and> \<not> s_string f1"
proof (cases "s_state f = WR")
  case True
  with assms show ?thesis by (auto simp: putc_start_def wf_out_def pending_def)
next
  case False
  define g os' where "g = fst (if s_state f = OPEN then snd (IO_setvbuf sys who f os) else (f, os))"
    and "os' = snd (if s_state f = OPEN then snd (IO_setvbuf sys who f os) else (f, os))"
  have ns: "\<not> s_string f" using assms(2) by (simp add: wf_out_def)
  have g: "has_buf g" "s_fd g = s_fd f" "\<not> s_string g" "out (s_fd f) os' = out (s_fd f) os"
  proof -
    have "has_buf g \<and> s_fd g = s_fd f \<and> \<not> s_string g \<and> out (s_fd f) os' = out (s_fd f) os"
    proof (cases "s_state f = OPEN")
      case True
      from setvbuf_ok [OF assms(1) True, of who os] obtain h oh where
        "IO_setvbuf sys who f os = (0, h, oh)" "has_buf h" "s_fd h = s_fd f" "s_string h = s_string f"
        "\<forall>fd'. out fd' oh = out fd' os" by blast
      with True ns show ?thesis by (simp add: g_def os'_def)
    next
      case False2: False
      with False assms(2) have "has_buf f" by (auto simp: wf_out_def split: iostate.splits)
      with False2 ns show ?thesis by (simp add: g_def os'_def)
    qed
    then show "has_buf g" "s_fd g = s_fd f" "\<not> s_string g" "out (s_fd f) os' = out (s_fd f) os" by simp_all
  qed
  have e: "f1 = (let f = g\<lparr>s_rp := s_bufl g\<rparr> in if s_linebuf f then f\<lparr>s_wp := s_rp f, s_lp := 0\<rparr> else f\<lparr>s_wp := 0\<rparr>)"
      "os1 = os'"
    using assms(3) False by (simp_all add: putc_start_def Let_def case_prod_beta g_def os'_def)
  have "(line_ready f1 \<or> block_ready f1 \<or> unbuf_ready f1) \<and> held f1 = [] \<and> s_fd f1 = s_fd g \<and> \<not> s_string f1"
    using g(1,3) unfolding e
    by (cases "s_unbuf g"; cases "s_linebuf g")
      (auto simp: has_buf_def line_ready_def block_ready_def unbuf_ready_def held_def Let_def)
  with g e False show ?thesis by (simp add: pending_def)
qed

lemma held_state [simp]: "held (f\<lparr>s_state := x\<rparr>) = held f"
  by (cases "s_buf f") (simp_all add: held_def)

lemma ready_state [simp]:
  "line_ready (f\<lparr>s_state := x\<rparr>) = line_ready f" "block_ready (f\<lparr>s_state := x\<rparr>) = block_ready f"
  "unbuf_ready (f\<lparr>s_state := x\<rparr>) = unbuf_ready f"
  by (simp_all add: line_ready_def block_ready_def unbuf_ready_def)

lemma ready_kinds:
  "line_ready f \<Longrightarrow> s_linebuf f" "block_ready f \<Longrightarrow> \<not> s_linebuf f \<and> \<not> s_unbuf f" "unbuf_ready f \<Longrightarrow> \<not> s_linebuf f \<and> s_unbuf f"
  by (simp_all add: line_ready_def block_ready_def unbuf_ready_def)

lemma IO_putc_ok:
  assumes "good_dev sys out" "wf_out f"
  shows "\<exists>f' os'. IO_putc sys who c f os = Some (Some c, f', os') \<and> wf_out f' \<and> s_fd f' = s_fd f
    \<and> out (s_fd f) os' @ pending f' = (out (s_fd f) os @ pending f) @ [c]"
proof -
  obtain f1 os1 where st: "putc_start sys who f os = (f1, os1)" by fastforce
  from putc_start_ok [OF assms st] have r: "line_ready f1 \<or> block_ready f1 \<or> unbuf_ready f1"
    and h: "held f1 = pending f" "s_fd f1 = s_fd f" "out (s_fd f) os1 = out (s_fd f) os" "\<not> s_string f1" by simp_all
  have "\<exists>f' os'. (if s_string f1 then putc_string sys c f1 os1
                          else if s_linebuf f1 then putc_line sys c f1 os1
                          else if s_unbuf f1 then putc_unbuf sys c f1 os1
                          else putc_block sys c f1 os1) = Some (True, f', os')
     \<and> (line_ready f' \<or> block_ready f' \<or> unbuf_ready f') \<and> s_fd f' = s_fd f1 \<and> \<not> s_string f'
     \<and> out (s_fd f1) os' @ held f' = (out (s_fd f1) os1 @ held f1) @ [c]"
    using r
  proof (elim disjE)
    assume r: "line_ready f1"
    from putc_line_ok [OF assms(1) r, of c os1] ready_kinds(1) [OF r] h(4) show ?thesis by auto
  next
    assume r: "block_ready f1"
    from putc_block_ok [OF assms(1) r, of c os1] ready_kinds(2) [OF r] h(4) show ?thesis by auto
  next
    assume r: "unbuf_ready f1"
    from putc_unbuf_ok [OF assms(1) r, of c os1] ready_kinds(3) [OF r] h(4) show ?thesis by auto
  qed
  then obtain f2 os2 where 2: "(if s_string f1 then putc_string sys c f1 os1
                          else if s_linebuf f1 then putc_line sys c f1 os1
                          else if s_unbuf f1 then putc_unbuf sys c f1 os1
                          else putc_block sys c f1 os1) = Some (True, f2, os2)"
    and f2: "line_ready f2 \<or> block_ready f2 \<or> unbuf_ready f2" "s_fd f2 = s_fd f1" "\<not> s_string f2"
      "out (s_fd f1) os2 @ held f2 = (out (s_fd f1) os1 @ held f1) @ [c]" by blast
  have ok: "s_state f \<noteq> RD" "s_state f \<noteq> ERR" "s_state f \<noteq> CLOSED"
    using assms(2) by (auto simp: wf_out_def)
  have "IO_putc sys who c f os = Some (Some c, f2\<lparr>s_state := WR\<rparr>, os2)"
    using ok st 2 by (simp add: IO_putc_def)
  moreover have "wf_out (f2\<lparr>s_state := WR\<rparr>)" using f2 by (simp add: wf_out_def)
  ultimately show ?thesis
    using f2 h by (intro exI [of _ "f2\<lparr>s_state := WR\<rparr>"] exI [of _ os2]) (simp add: pending_def)
qed

lemma putc_ok:
  assumes "good_dev sys out" "wf_out f"
  shows "\<exists>f' os'. putc sys who c f os = Some (Some c, f', os') \<and> wf_out f' \<and> s_fd f' = s_fd f
    \<and> out (s_fd f) os' @ pending f' = (out (s_fd f) os @ pending f) @ [c]"
proof (cases "s_rp f \<le> s_wp f")
  case True
  with IO_putc_ok [OF assms, of who c os] show ?thesis by (simp add: putc_def)
next
  case False
  with assms(2) have b: "s_state f = WR" "block_ready f"
    by (auto simp: wf_out_def line_ready_def unbuf_ready_def split: iostate.splits)
  then obtain bb where bb: "s_buf f = Some bb" "int (length bb) = s_bufl f" "0 < s_bufl f"
    by (auto simp: block_ready_def)
  have wp: "0 \<le> s_wp f" "s_wp f < s_rp f" "s_rp f = s_bufl f" "\<not> s_linebuf f" "\<not> s_unbuf f"
    using b(2) False by (auto simp: block_ready_def)
  let ?b = "bb[nat (s_wp f) := c]"
  let ?f = "f\<lparr>s_buf := Some ?b, s_wp := s_wp f + 1\<rparr>"
  have "poke f (s_wp f) c = Some (f\<lparr>s_buf := Some ?b\<rparr>)" using bb wp by (simp add: poke_def)
  then have "putc sys who c f os = Some (Some c, ?f, os)" using False by (simp add: putc_def)
  moreover have "wf_out ?f" using assms(2) b bb wp by (simp add: wf_out_def block_ready_def)
  moreover have "pending ?f = pending f @ [c]"
  proof -
    have "nat (s_wp f + 1) = Suc (nat (s_wp f))" "nat (s_wp f) < length bb" using wp bb by linarith+
    then show ?thesis using b(1) bb(1) wp(4,5) by (simp add: pending_def held_def take_Suc_conv_app_nth)
  qed
  ultimately show ?thesis by (intro exI [of _ ?f] exI [of _ os]) simp
qed

lemma fflush1_ok:
  assumes "good_dev sys out" "wf_out f"
  shows "\<exists>f' os'. fflush1 sys f os = Some (0, f', os') \<and> wf_out f' \<and> s_fd f' = s_fd f \<and> pending f' = []
    \<and> out (s_fd f) os' = out (s_fd f) os @ pending f"
proof (cases "s_state f = WR")
  case False
  have "fflush1 sys f os = Some (0, f, os)"
    using assms(2) False by (cases "s_state f") (simp_all add: fflush1_def wf_out_def)
  with assms(2) False show ?thesis by (simp add: pending_def)
next
  case True
  let ?f = "f\<lparr>s_rp := 0, s_wp := 0, s_state := RDWR\<rparr>"
  let ?cnt = "if s_linebuf f then s_lp f else s_wp f"
  have ns: "\<not> s_string f" using assms(2) by (simp add: wf_out_def)
  from assms(2) True have r: "line_ready f \<or> block_ready f \<or> unbuf_ready f" by (simp add: wf_out_def)
  then obtain b where b: "s_buf f = Some b" "0 \<le> ?cnt" "?cnt \<le> int (length b)" "pending f = take (nat ?cnt) b"
    using True by (auto simp: line_ready_def block_ready_def unbuf_ready_def pending_def held_def)
  have hb: "has_buf ?f"
    using r by (elim disjE) (simp_all add: line_ready_def block_ready_def unbuf_ready_def has_buf_def)
  then have wf: "wf_out ?f" using ns by (simp add: wf_out_def)
  show ?thesis
  proof (cases "?cnt = 0")
    case z: True
    then have "fflush1 sys f os = Some (0, ?f, os)" using True ns by (simp add: fflush1_def Let_def)
    moreover have "pending f = []" using b(4) z by simp
    ultimately show ?thesis using wf by (intro exI [of _ ?f] exI [of _ os]) (simp add: pending_def)
  next
    case nz: False
    obtain n os1 where w: "sys_write sys (s_fd f) (take (nat ?cnt) b) os = (n, os1)" by fastforce
    from good_dev_write [OF assms(1), of "s_fd f" "take (nat ?cnt) b" os] w b
    have n: "n = ?cnt" "out (s_fd f) os1 = out (s_fd f) os @ pending f" by (simp_all only: fst_conv snd_conv) simp_all
    have "buf_range f 0 ?cnt = Some (take (nat ?cnt) b)" using b by (simp add: buf_range_def)
    then have "fflush1 sys f os = Some (0, ?f, os1)"
      using True ns nz w n(1) by (simp add: fflush1_def Let_def)
    then show ?thesis using wf n by (intro exI [of _ ?f] exI [of _ os1]) (simp add: pending_def)
  qed
qed


section \<open>Getting characters\<close>

definition IO_getc :: "'os sys \<Rightarrow> nat \<Rightarrow> FILE \<Rightarrow> 'os \<Rightarrow> (char option \<times> FILE \<times> 'os) option" where
  "IO_getc sys who f os =
     (if s_state f \<in> {CLOSED, WR, ERR, END} then Some (None, f, os)
      else let (f, os) = (if s_state f = OPEN then snd (IO_setvbuf sys who f os) else (f, os))
           in if s_string f then Some (None, f, os)
              else (case sys_read sys (s_fd f) (if s_unbuf f then 1 else nat (s_bufl f)) os of
                      (None, os) \<Rightarrow> Some (None, f\<lparr>s_state := ERR\<rparr>, os)
                    | (Some bs, os) \<Rightarrow>
                        (if bs = [] then Some (None, f\<lparr>s_state := END\<rparr>, os)
                         else do {
                           f \<leftarrow> poke_range f 0 bs;
                           c \<leftarrow> peek f 0;
                           Some (Some c, f\<lparr>s_state := RD, s_rp := 1, s_wp := int (length bs)\<rparr>, os)
                         })))"

text \<open>The macro \<open>getc\<close>.\<close>

definition getc :: "'os sys \<Rightarrow> nat \<Rightarrow> FILE \<Rightarrow> 'os \<Rightarrow> (char option \<times> FILE \<times> 'os) option" where
  "getc sys who f os =
     (if s_wp f \<le> s_rp f then IO_getc sys who f os
      else do { c \<leftarrow> peek f (s_rp f); Some (Some c, f\<lparr>s_rp := s_rp f + 1\<rparr>, os) })"

text \<open>\<open>ungetc(c, f)\<close> for \<open>c\<close> other than EOF; \<open>False\<close> is the EOF return.\<close>

definition ungetc :: "'os sys \<Rightarrow> nat \<Rightarrow> char \<Rightarrow> FILE \<Rightarrow> 'os \<Rightarrow> (bool \<times> FILE \<times> 'os) option" where
  "ungetc sys who c f os =
     (case s_state f of
        WR \<Rightarrow> Some (False, f\<lparr>s_state := ERR\<rparr>, os)
      | CLOSED \<Rightarrow> Some (False, f, os)
      | ERR \<Rightarrow> Some (False, f, os)
      | _ \<Rightarrow>
        (let (f, os) = (if s_state f = OPEN then snd (IO_setvbuf sys who f os) else (f, os));
             f = (if s_state f \<noteq> RD
                  then (let e = (if s_bufl f = 0 then 1 else s_bufl f) in f\<lparr>s_rp := e, s_wp := e, s_state := RD\<rparr>)
                  else f)
         in if s_rp f = 0 then Some (False, f, os)
            else if s_string f then Some (True, f\<lparr>s_rp := s_rp f - 1\<rparr>, os)
            else do {
              f \<leftarrow> poke f (s_rp f - 1) c;
              Some (True, f\<lparr>s_rp := s_rp f - 1\<rparr>, os)
            }))"

text \<open>\<open>fgets\<close>: the characters stored before the NUL, or \<open>None\<close> for NULL.\<close>

fun fgets_loop :: "'os sys \<Rightarrow> nat \<Rightarrow> nat \<Rightarrow> FILE \<Rightarrow> 'os \<Rightarrow> (string \<times> bool \<times> FILE \<times> 'os) option" where
  "fgets_loop sys who n f os =
     (if n \<le> 1 then Some ([], n = 0, f, os)
      else do {
        (r, f, os) \<leftarrow> getc sys who f os;
        (case r of
           None \<Rightarrow> Some ([], True, f, os)
         | Some c \<Rightarrow>
             if c = NL then Some ([c], False, f, os)
             else do {
               (cs, eof, f, os) \<leftarrow> fgets_loop sys who (n - 1) f os;
               Some (c # cs, eof, f, os)
             })
      })"

declare fgets_loop.simps [simp del]

text \<open>\<open>c\<close> is EOF at the end when the last \<open>getc\<close> returned it, or when none was made.\<close>

definition fgets :: "'os sys \<Rightarrow> nat \<Rightarrow> nat \<Rightarrow> FILE \<Rightarrow> 'os \<Rightarrow> (string option \<times> FILE \<times> 'os) option" where
  "fgets sys who n f os = do {
     (cs, eof, f, os) \<leftarrow> fgets_loop sys who n f os;
     Some (if ((eof \<or> n \<le> 1) \<and> cs = []) \<or> ferror f then None else Some cs, f, os)
   }"

section \<open>Blocks\<close>

definition BIGN :: int where "BIGN = BUFSIZ div 2"

text \<open>The value of both: the bytes moved divided by \<open>recl?recl:1\<close>, towards zero.\<close>

definition records :: "nat \<Rightarrow> int \<Rightarrow> int" where
  "records n recl = (if recl = 0 then int n else sgn recl * (int n div \<bar>recl\<bar>))"

lemma records_le: "0 \<le> recl \<Longrightarrow> records n recl = int n div (if recl \<noteq> 0 then recl else 1)"
  by (auto simp: records_def sgn_if)

text \<open>The loop of \<open>fwrite\<close>: what is left when it stops. A write of the caller's bytes that goes
  on without progress would not end; each round takes at least one.\<close>

function fwrite_loop :: "'os sys \<Rightarrow> nat \<Rightarrow> string \<Rightarrow> FILE \<Rightarrow> 'os \<Rightarrow> (string \<times> FILE \<times> 'os) option" where
  "fwrite_loop sys who s f os =
     (if s = [] then Some ([], f, os)
      else if 0 < s_rp f - s_wp f
      then (let d = min (s_rp f - s_wp f) (int (length s))
            in do {
              f \<leftarrow> poke_range f (s_wp f) (take (nat d) s);
              fwrite_loop sys who (drop (nat d) s) (f\<lparr>s_wp := s_wp f + d\<rparr>) os
            })
      else if BIGN \<le> int (length s) \<and> s_state f = WR \<and> \<not> s_string f \<and> \<not> s_linebuf f \<and> \<not> s_unbuf f
      then do {
        (good, f, os) \<leftarrow> (if 0 < s_wp f
                          then do { (good, os) \<leftarrow> drain sys f (s_wp f) os;
                                    Some (good, if good then f\<lparr>s_wp := 0, s_rp := 0\<rparr> else f\<lparr>s_state := ERR\<rparr>, os) }
                          else Some (True, f, os));
        if \<not> good then Some (s, f, os)
        else (let os = (if s_append f then snd (sys_seek sys (s_fd f) 0 2 os) else os);
                  (d, os) = sys_write sys (s_fd f) s os
              in if d \<le> 0 then Some (s, f\<lparr>s_state := ERR\<rparr>, os)
                 else fwrite_loop sys who (drop (nat d) s) f os)
      }
      else do {
        (r, f, os) \<leftarrow> IO_putc sys who (hd s) f os;
        if r = None then Some (s, f, os) else fwrite_loop sys who (tl s) f os
      })"
  by pat_completeness auto
termination
  by (relation "measure (\<lambda>(sys, who, s, f, os). length s)") auto

declare fwrite_loop.simps [simp del]

text \<open>\<open>recl\<close> and \<open>nrec\<close> are \<open>long\<close>s and their product is kept in an \<open>int\<close>, where it wraps: a product of
  \<open>2\<^sup>31\<close> bytes and more is taken modulo \<open>2\<^sup>32\<close>, and nothing is written when the \<open>int\<close> is not positive. \<open>p\<close> holds the caller's
  bytes; to read beyond them has no result.\<close>

definition fwrite :: "'os sys \<Rightarrow> nat \<Rightarrow> string \<Rightarrow> int \<Rightarrow> int \<Rightarrow> FILE \<Rightarrow> 'os \<Rightarrow> (int \<times> FILE \<times> 'os) option" where
  "fwrite sys who p recl nrec f os =
     (let n = int32 (recl * nrec)
      in if int (length p) < n then None
         else do {
           (rest, f, os) \<leftarrow> fwrite_loop sys who (take (nat n) p) f os;
           Some (records (nat n - length rest) recl, f, os)
         })"

text \<open>The loop of \<open>fread\<close> for \<open>n\<close> bytes: the bytes stored.\<close>

function fread_loop :: "'os sys \<Rightarrow> nat \<Rightarrow> nat \<Rightarrow> FILE \<Rightarrow> 'os \<Rightarrow> (string \<times> FILE \<times> 'os) option" where
  "fread_loop sys who n f os =
     (if n = 0 then Some ([], f, os)
      else if 0 < s_wp f - s_rp f
      then (let d = min (s_wp f - s_rp f) (int n)
            in do {
              bs \<leftarrow> buf_range f (s_rp f) d;
              (rest, f, os) \<leftarrow> fread_loop sys who (n - nat d) (f\<lparr>s_rp := s_rp f + d\<rparr>) os;
              Some (bs @ rest, f, os)
            })
      else if BIGN \<le> int n \<and> s_state f = RD \<and> \<not> s_string f \<and> \<not> s_unbuf f
      then (case sys_read sys (s_fd f) n os of
              (None, os) \<Rightarrow> Some ([], f\<lparr>s_state := ERR\<rparr>, os)
            | (Some bs, os) \<Rightarrow>
                (if bs = [] then Some ([], f\<lparr>s_state := END\<rparr>, os)
                 else do {
                   (rest, f, os) \<leftarrow> fread_loop sys who (n - length bs) f os;
                   Some (bs @ rest, f, os)
                 }))
      else do {
        (r, f, os) \<leftarrow> IO_getc sys who f os;
        (case r of
           None \<Rightarrow> Some ([], f, os)
         | Some c \<Rightarrow> do {
             (rest, f, os) \<leftarrow> fread_loop sys who (n - 1) f os;
             Some (c # rest, f, os)
           })
      })"
  by pat_completeness auto
termination
  by (relation "measure (\<lambda>(sys, who, n, f, os). n)") auto

declare fread_loop.simps [simp del]

definition fread :: "'os sys \<Rightarrow> nat \<Rightarrow> int \<Rightarrow> int \<Rightarrow> FILE \<Rightarrow> 'os \<Rightarrow> (int \<times> string \<times> FILE \<times> 'os) option" where
  "fread sys who recl nrec f os =
     (let n = int32 (recl * nrec)
      in do {
        (bs, f, os) \<leftarrow> fread_loop sys who (nat n) f os;
        Some (records (length bs) recl, bs, f, os)
      })"

text \<open>65536 records of 65536 bytes are none: nothing is moved and 0 is returned, as at the end of a file.\<close>

lemma block_size_wraps:
  "fread sys who 65536 65536 f os = Some (0, [], f, os)"
  "fwrite sys who p 65536 65536 f os = Some (0, f, os)"
proof -
  have "int32 (65536 * 65536) = 0" by (simp add: int32_def)
  then show "fread sys who 65536 65536 f os = Some (0, [], f, os)" "fwrite sys who p 65536 65536 f os = Some (0, f, os)"
    by (simp_all add: fread_def fwrite_def fread_loop.simps fwrite_loop.simps records_def)
qed

section \<open>Positions and errors\<close>

definition clearerr :: "FILE \<Rightarrow> FILE" where
  "clearerr f = (case s_state f of
                   ERR \<Rightarrow> f\<lparr>s_state := (if s_buf f \<noteq> None then RDWR else OPEN)\<rparr>
                 | END \<Rightarrow> f\<lparr>s_state := RDWR\<rparr>
                 | _ \<Rightarrow> f)"

text \<open>\<open>ftello\<close> computes in a \<open>vlong\<close>, \<open>ftell\<close> in a \<open>long\<close> of 32 bits, which cuts the answer of \<open>seek\<close>.\<close>

definition tell :: "(int \<Rightarrow> int) \<Rightarrow> 'os sys \<Rightarrow> FILE \<Rightarrow> 'os \<Rightarrow> int \<times> 'os" where
  "tell wrap sys f os =
     (let (seekp, os) = sys_seek sys (s_fd f) 0 1 os;
          seekp = wrap seekp
      in if seekp < 0 then (-1, os)
         else (case s_state f of
                 RD \<Rightarrow> wrap (seekp - (s_wp f - s_rp f))
               | WR \<Rightarrow> wrap ((if s_linebuf f then s_lp f else s_wp f) + seekp)
               | _ \<Rightarrow> seekp, os))"

definition ftello :: "'os sys \<Rightarrow> FILE \<Rightarrow> 'os \<Rightarrow> int \<times> 'os" where
  "ftello sys f os = tell vlong sys f os"

end
