(* ===== verification/Streams.thy ===== *)
theory Streams
  imports Stdio
begin

text \<open>
  The table \<open>_IO_stream\<close> of src/src/libstdio and what works on it: \<open>fopen\<close>, \<open>freopen\<close>, \<open>fdopen\<close>,
  \<open>fclose\<close>, \<open>fflush\<close>, the streams on strings \<open>sopenr\<close>, \<open>sopenw\<close>, \<open>sclose\<close>, and the operations that
  name a standard stream. A \<open>FILE *\<close> is an index into the table. The lock \<open>_stdiolk\<close> is part of the
  state: taking it while it is held never returns, which is the value \<open>None\<close>.

  The interfaces: \<open>char_sink\<close>, what a stream that is written to promises, and \<open>char_source\<close>, what
  one that is read from promises, each with its instances on the model's streams.
\<close>

section \<open>The table\<close>

record 'os stdio =
  st_tab :: "FILE list"
  st_lock :: bool
  st_os :: 'os

definition mk_FILE :: "int \<Rightarrow> iostate \<Rightarrow> FILE" where
  "mk_FILE fd st = \<lparr>s_fd = fd, s_balloc = False, s_linebuf = False, s_string = False, s_append = False, s_state = st,
                    s_buf = None, s_unbuf = False, s_rp = 0, s_wp = 0, s_lp = 0, s_bufl = 0\<rparr>"

definition IO_stream :: "FILE list" where
  "IO_stream = [mk_FILE 0 OPEN, mk_FILE 1 OPEN, mk_FILE 2 OPEN] @ replicate (FOPEN_MAX - 3) (mk_FILE 0 CLOSED)"

definition qlock :: "'os stdio \<Rightarrow> 'os stdio option" where
  "qlock s = (if st_lock s then None else Some (s\<lparr>st_lock := True\<rparr>))"

definition qunlock :: "'os stdio \<Rightarrow> 'os stdio" where
  "qunlock s = s\<lparr>st_lock := False\<rparr>"

text \<open>An operation on one stream, applied to the stream of index \<open>i\<close>.\<close>

definition on_stream :: "nat \<Rightarrow> (FILE \<Rightarrow> 'os \<Rightarrow> ('r \<times> FILE \<times> 'os) option) \<Rightarrow> 'os stdio \<Rightarrow> ('r \<times> 'os stdio) option" where
  "on_stream i op s = do {
     f \<leftarrow> load (st_tab s) i;
     (r, f, os) \<leftarrow> op f (st_os s);
     Some (r, s\<lparr>st_tab := (st_tab s)[i := f], st_os := os\<rparr>)
   }"

fun find_closed :: "nat \<Rightarrow> FILE list \<Rightarrow> nat option" where
  "find_closed i [] = None"
| "find_closed i (f # fs) = (if s_state f = CLOSED then Some i else find_closed (Suc i) fs)"

section \<open>Flushing and closing\<close>

fun fflush_each :: "'os sys \<Rightarrow> FILE list \<Rightarrow> 'os \<Rightarrow> (int \<times> FILE list \<times> 'os) option" where
  "fflush_each sys [] os = Some (0, [], os)"
| "fflush_each sys (f # fs) os =
     (if s_state f = WR
      then do {
        (r, f, os) \<leftarrow> fflush1 sys f os;
        (rs, fs, os) \<leftarrow> fflush_each sys fs os;
        Some (if r = -1 then -1 else rs, f # fs, os)
      }
      else do {
        (rs, fs, os) \<leftarrow> fflush_each sys fs os;
        Some (rs, f # fs, os)
      })"

text \<open>\<open>fflush(f)\<close>, and \<open>fflush(NULL)\<close> for \<open>None\<close>.\<close>

definition fflush :: "'os sys \<Rightarrow> nat option \<Rightarrow> 'os stdio \<Rightarrow> (int \<times> 'os stdio) option" where
  "fflush sys i s = do {
     s \<leftarrow> qlock s;
     (r, s) \<leftarrow> (case i of
                  Some i \<Rightarrow> on_stream i (fflush1 sys) s
                | None \<Rightarrow> do {
                    (r, fs, os) \<leftarrow> fflush_each sys (st_tab s) (st_os s);
                    Some (r, s\<lparr>st_tab := fs, st_os := os\<rparr>)
                  });
     Some (r, qunlock s)
   }"

definition fclose :: "'os sys \<Rightarrow> nat \<Rightarrow> 'os stdio \<Rightarrow> (int \<times> 'os stdio) option" where
  "fclose sys i s = do {
     f \<leftarrow> load (st_tab s) i;
     if s_state f = CLOSED then Some (-1, s)
     else do {
       (err, s) \<leftarrow> fflush sys (Some i) s;
       f \<leftarrow> load (st_tab s) i;
       let (err, os) = (if s_string f then (err, st_os s)
                        else let (r, os) = sys_close sys (s_fd f) (st_os s) in (if r < 0 then -1 else err, os));
       let f = f\<lparr>s_state := CLOSED, s_balloc := False, s_linebuf := False, s_string := False, s_append := False\<rparr>;
       Some (err, s\<lparr>st_tab := (st_tab s)[i := f], st_os := os\<rparr>)
     }
   }"

section \<open>Opening\<close>

definition ORDWR_mode :: nat where "ORDWR_mode = 2"
definition OWRITE_mode :: nat where "OWRITE_mode = 1"
definition OREAD_mode :: nat where "OREAD_mode = 0"

text \<open>The character a C string pointer points at.\<close>

definition first_char :: "string \<Rightarrow> char" where
  "first_char s = (case s of [] \<Rightarrow> NUL | c # _ \<Rightarrow> c)"

text \<open>The \<open>switch(m)\<close>: the descriptor, or \<open>None\<close> where the mode is none of the three letters.\<close>

definition open_mode :: "'os sys \<Rightarrow> string \<Rightarrow> char \<Rightarrow> string \<Rightarrow> 'os \<Rightarrow> int option \<times> 'os" where
  "open_mode sys name m mode os =
     (let rw = (first_char mode = CHR ''+'')
      in if m = CHR ''r'' then (let (fd, os) = sys_open sys name (if rw then ORDWR_mode else OREAD_mode) os in (Some fd, os))
         else if m = CHR ''w'' then (let (fd, os) = sys_create sys name (if rw then ORDWR_mode else OWRITE_mode) os in (Some fd, os))
         else if m = CHR ''a''
         then (let md = (if rw then ORDWR_mode else OWRITE_mode);
                   (fd, os) = sys_open sys name md os;
                   (fd, os) = (if fd < 0 then sys_create sys name md os else (fd, os));
                   (_, os) = sys_seek sys fd 0 2 os
               in (Some fd, os))
         else (None, os))"

definition opened :: "FILE \<Rightarrow> bool \<Rightarrow> FILE" where
  "opened f app = f\<lparr>s_balloc := False, s_linebuf := False, s_string := False, s_append := app, s_state := OPEN,
                    s_buf := None, s_unbuf := False, s_rp := 0, s_wp := 0, s_lp := 0\<rparr>"

definition freopen :: "'os sys \<Rightarrow> string \<Rightarrow> string \<Rightarrow> nat \<Rightarrow> 'os stdio \<Rightarrow> (nat option \<times> 'os stdio) option" where
  "freopen sys name mode i s = do {
     f \<leftarrow> load (st_tab s) i;
     (_, s) \<leftarrow> (if s_state f \<noteq> CLOSED then fclose sys i s else Some (0, s));
     f \<leftarrow> load (st_tab s) i;
     (case mode of
        [] \<Rightarrow> Some (None, s)
      | m # mode \<Rightarrow>
        (let mode = (if first_char mode = CHR ''b'' then tl mode else mode)
         in (case open_mode sys name m mode (st_os s) of
               (None, os) \<Rightarrow> Some (None, s\<lparr>st_os := os\<rparr>)
             | (Some fd, os) \<Rightarrow>
                 (let f = f\<lparr>s_fd := fd\<rparr>
                  in if fd = -1 then Some (None, s\<lparr>st_tab := (st_tab s)[i := f], st_os := os\<rparr>)
                     else Some (Some i, s\<lparr>st_tab := (st_tab s)[i := opened f (first_char mode = CHR ''a'')], st_os := os\<rparr>)))))
   }"

definition fopen :: "'os sys \<Rightarrow> string \<Rightarrow> string \<Rightarrow> 'os stdio \<Rightarrow> (nat option \<times> 'os stdio) option" where
  "fopen sys name mode s = do {
     s \<leftarrow> qlock s;
     (case find_closed 0 (st_tab s) of
        None \<Rightarrow> Some (None, qunlock s)
      | Some i \<Rightarrow> freopen sys name mode i (qunlock s))
   }"

definition fdopen :: "'os sys \<Rightarrow> int \<Rightarrow> string \<Rightarrow> 'os stdio \<Rightarrow> (nat option \<times> 'os stdio) option" where
  "fdopen sys fd mode s = do {
     s \<leftarrow> qlock s;
     (case find_closed 0 (st_tab s) of
        None \<Rightarrow> Some (None, qunlock s)
      | Some i \<Rightarrow> do {
          f \<leftarrow> load (st_tab s) i;
          let f = f\<lparr>s_fd := fd\<rparr>;
          let os = (if first_char mode = CHR ''a'' then snd (sys_seek sys fd 0 2 (st_os s)) else st_os s);
          if fd = -1 then Some (None, s\<lparr>st_tab := (st_tab s)[i := f], st_os := os\<rparr>)
          else Some (Some i, qunlock (s\<lparr>st_tab := (st_tab s)[i := opened f False], st_os := os\<rparr>))
        })
   }"

section \<open>Streams on strings\<close>

definition sopenr :: "string \<Rightarrow> 'os stdio \<Rightarrow> (nat option \<times> 'os stdio) option" where
  "sopenr str s = do {
     s \<leftarrow> qlock s;
     (case find_closed 0 (st_tab s) of
        None \<Rightarrow> Some (None, qunlock s)
      | Some i \<Rightarrow> do {
          f \<leftarrow> load (st_tab s) i;
          let f = f\<lparr>s_buf := Some (str @ [NUL]), s_unbuf := False, s_rp := 0, s_bufl := int (length str),
                    s_wp := int (length str), s_state := RD, s_balloc := False, s_linebuf := False,
                    s_string := True, s_append := False, s_fd := -1\<rparr>;
          Some (Some i, qunlock (s\<lparr>st_tab := (st_tab s)[i := f]\<rparr>))
        })
   }"

definition sopenw :: "'os stdio \<Rightarrow> (nat option \<times> 'os stdio) option" where
  "sopenw s = do {
     s \<leftarrow> qlock s;
     (case find_closed 0 (st_tab s) of
        None \<Rightarrow> Some (None, qunlock s)
      | Some i \<Rightarrow> do {
          f \<leftarrow> load (st_tab s) i;
          let f = f\<lparr>s_buf := None, s_unbuf := False, s_rp := 0, s_wp := 0, s_state := OPEN, s_balloc := False,
                    s_linebuf := False, s_string := True, s_append := False, s_fd := -1\<rparr>;
          Some (Some i, qunlock (s\<lparr>st_tab := (st_tab s)[i := f]\<rparr>))
        })
   }"

text \<open>\<open>sclose\<close>: the block it returns, \<open>None\<close> for NULL.\<close>

definition no_flags :: "FILE \<Rightarrow> FILE" where
  "no_flags f = f\<lparr>s_balloc := False, s_linebuf := False, s_string := False, s_append := False\<rparr>"

definition sclose1 :: "'os sys \<Rightarrow> FILE \<Rightarrow> 'os \<Rightarrow> (string option \<times> FILE \<times> 'os) option" where
  "sclose1 sys f os =
     (if s_state f = ERR \<or> s_state f = CLOSED then Some (None, no_flags f, os)
      else if s_state f = OPEN
      then (case sys_malloc sys 1 os of
              (None, os) \<Rightarrow> None \<comment> \<open>the store through a null pointer\<close>
            | (Some b, os) \<Rightarrow> do {
                f \<leftarrow> poke (f\<lparr>s_buf := Some b, s_unbuf := False\<rparr>) 0 NUL;
                Some (s_buf f, (no_flags f)\<lparr>s_state := CLOSED\<rparr>, os)
              })
      else if s_state f = RD \<or> s_state f = END then Some (s_buf f, (no_flags f)\<lparr>s_state := CLOSED\<rparr>, os)
      else do {
        (f, os) \<leftarrow> (if s_wp f = s_rp f \<and> s_balloc f
                    then (case sys_realloc sys (case s_buf f of None \<Rightarrow> [] | Some b \<Rightarrow> b) (nat (s_bufl f + 1)) os of
                            (None, os) \<Rightarrow> Some (f\<lparr>s_buf := None\<rparr>, os)
                          | (Some (moved, b), os) \<Rightarrow>
                              (if moved then None \<comment> \<open>\<open>wp\<close> still points into the old block\<close>
                               else Some (f\<lparr>s_buf := Some b\<rparr>, os)))
                    else Some (f, os));
        if s_wp f = s_rp f \<and> s_buf f = None then Some (None, f, os)
        else do {
          f \<leftarrow> poke f (s_wp f) NUL;
          Some (s_buf f, (no_flags f)\<lparr>s_state := CLOSED\<rparr>, os)
        }
      })"

definition sclose :: "'os sys \<Rightarrow> nat \<Rightarrow> 'os stdio \<Rightarrow> (string option \<times> 'os stdio) option" where
  "sclose sys i = on_stream i (sclose1 sys)"

section \<open>The standard streams\<close>

definition stdin :: nat where "stdin = 0"
definition stdout :: nat where "stdout = 1"
definition stderr :: nat where "stderr = 2"

definition fputc :: "'os sys \<Rightarrow> char \<Rightarrow> nat \<Rightarrow> 'os stdio \<Rightarrow> (char option \<times> 'os stdio) option" where
  "fputc sys c i = on_stream i (putc sys i c)"

definition fgetc :: "'os sys \<Rightarrow> nat \<Rightarrow> 'os stdio \<Rightarrow> (char option \<times> 'os stdio) option" where
  "fgetc sys i = on_stream i (getc sys i)"

definition puts :: "'os sys \<Rightarrow> string \<Rightarrow> 'os stdio \<Rightarrow> (int \<times> 'os stdio) option" where
  "puts sys str s = do {
     (_, s) \<leftarrow> on_stream stdout (fputs sys stdout str) s;
     (_, s) \<leftarrow> fputc sys NL stdout s;
     f \<leftarrow> load (st_tab s) stdin;
     Some (if ferror f then -1 else 0, s)
   }"

text \<open>\<open>gets\<close> into an array of \<open>cap\<close> bytes; storing past its end is undefined.\<close>

fun gets_loop :: "'os sys \<Rightarrow> nat \<Rightarrow> 'os stdio \<Rightarrow> (string \<times> bool \<times> 'os stdio) option" where
  "gets_loop sys cap s = do {
     (r, s) \<leftarrow> fgetc sys stdin s;
     (case r of
        None \<Rightarrow> Some ([], False, s)
      | Some c \<Rightarrow>
          if c = NL then Some ([], True, s)
          else (case cap of
                  0 \<Rightarrow> None
                | Suc cap \<Rightarrow> do { (cs, nl, s) \<leftarrow> gets_loop sys cap s; Some (c # cs, nl, s) }))
   }"

declare gets_loop.simps [simp del]

definition gets :: "'os sys \<Rightarrow> nat \<Rightarrow> 'os stdio \<Rightarrow> (string option \<times> 'os stdio) option" where
  "gets sys cap s = do {
     (cs, nl, s) \<leftarrow> gets_loop sys cap s;
     if \<not> nl \<and> cs = [] then Some (None, s)
     else if length cs < cap then Some (Some cs, s) else None
   }"

text \<open>\<open>fseeko\<close> and \<open>fseek\<close> differ in the width of the offset.\<close>

definition seek_stream :: "(int \<Rightarrow> int) \<Rightarrow> 'os sys \<Rightarrow> nat \<Rightarrow> int \<Rightarrow> int \<Rightarrow> 'os stdio \<Rightarrow> (int \<times> 'os stdio) option" where
  "seek_stream wrap sys i offs type s = do {
     f \<leftarrow> load (st_tab s) i;
     if s_state f = ERR \<or> s_state f = CLOSED then Some (-1, s)
     else do {
       (_, s) \<leftarrow> (if s_state f = WR then fflush sys (Some i) s else Some (0, s));
       let offs = (if s_state f = RD \<and> type = 1 \<and> \<not> s_unbuf f then wrap (offs - (s_wp f - s_rp f)) else offs);
       f \<leftarrow> load (st_tab s) i;
       if s_string f then Some (-1, s)
       else (let (r, os) = sys_seek sys (s_fd f) offs type (st_os s);
                 s = s\<lparr>st_os := os\<rparr>
             in if r = -1 then Some (-1, s)
                else (let f = (if s_state f = RD then f\<lparr>s_rp := 0, s_wp := 0\<rparr> else f);
                          f = (if s_state f \<noteq> OPEN then f\<lparr>s_state := RDWR\<rparr> else f)
                      in Some (0, s\<lparr>st_tab := (st_tab s)[i := f]\<rparr>)))
     }
   }"

definition fseeko :: "'os sys \<Rightarrow> nat \<Rightarrow> int \<Rightarrow> int \<Rightarrow> 'os stdio \<Rightarrow> (int \<times> 'os stdio) option" where
  "fseeko sys i offs type s = seek_stream vlong sys i (vlong offs) type s"

definition fseek :: "'os sys \<Rightarrow> nat \<Rightarrow> int \<Rightarrow> int \<Rightarrow> 'os stdio \<Rightarrow> (int \<times> 'os stdio) option" where
  "fseek sys i offs type s = seek_stream int32 sys i (int32 offs) type s"

definition ftell :: "'os sys \<Rightarrow> nat \<Rightarrow> 'os stdio \<Rightarrow> (int \<times> 'os stdio) option" where
  "ftell sys i = on_stream i (\<lambda>f os. let (r, os) = tell int32 sys f os in Some (r, f, os))"

definition fgetpos :: "'os sys \<Rightarrow> nat \<Rightarrow> 'os stdio \<Rightarrow> (int \<times> int \<times> 'os stdio) option" where
  "fgetpos sys i s = do { (pos, s) \<leftarrow> ftell sys i s; Some (if pos = -1 then -1 else 0, pos, s) }"

definition fsetpos :: "'os sys \<Rightarrow> nat \<Rightarrow> int \<Rightarrow> 'os stdio \<Rightarrow> (int \<times> 'os stdio) option" where
  "fsetpos sys i pos s = fseek sys i pos 0 s"

definition rewind :: "'os sys \<Rightarrow> nat \<Rightarrow> 'os stdio \<Rightarrow> 'os stdio option" where
  "rewind sys i s = do { (_, s) \<leftarrow> fseek sys i 0 0 s; Some s }"

section \<open>What a stream promises its writer\<close>

text \<open>
  Putting a character never goes wrong and leaves the stream ready for the next; \<open>content\<close> is what has
  gone in so far, of which a stream of bounded room keeps what \<open>clip\<close> leaves.
\<close>

locale char_sink =
  fixes put :: "char \<Rightarrow> 's \<Rightarrow> ('r \<times> 's) option"
    and inv :: "'s \<Rightarrow> bool"
    and content :: "'s \<Rightarrow> string"
    and clip :: "string \<Rightarrow> string"
  assumes put_ok: "inv s \<Longrightarrow> \<exists>r s'. put c s = Some (r, s') \<and> inv s' \<and> content s' = clip (content s @ [c])"
    and clip_content: "inv s \<Longrightarrow> clip (content s) = content s"
    and clip_clip: "clip (clip x @ y) = clip (x @ y)"

fun put_each :: "(char \<Rightarrow> 's \<Rightarrow> ('r \<times> 's) option) \<Rightarrow> string \<Rightarrow> 's \<Rightarrow> 's option" where
  "put_each put [] s = Some s"
| "put_each put (c # cs) s = do { (_, s) \<leftarrow> put c s; put_each put cs s }"

context char_sink begin

lemma put_each_ok:
  assumes "inv s"
  shows "\<exists>s'. put_each put cs s = Some s' \<and> inv s' \<and> content s' = clip (content s @ cs)"
  using assms
proof (induction cs arbitrary: s)
  case Nil
  then show ?case by (simp add: clip_content)
next
  case (Cons c cs)
  from put_ok [OF Cons.prems, of c] obtain r s1
    where 1: "put c s = Some (r, s1)" "inv s1" "content s1 = clip (content s @ [c])" by blast
  from Cons.IH [OF 1(2)] obtain s2
    where 2: "put_each put cs s1 = Some s2" "inv s2" "content s2 = clip (content s1 @ cs)" by blast
  have "content s2 = clip (content s @ c # cs)" using 2(3) 1(3) clip_clip [of "content s @ [c]" cs] by simp
  then show ?case using 1 2 by simp
qed

end

lemma put_string_put_each:
  "put_string sys who cs f os = put_each (\<lambda>c (f, os). putc sys who c f os) cs (f, os)"
  by (induction cs arbitrary: f os) (auto intro!: Option.bind_cong)

text \<open>A file, in any buffering mode, over a device that takes what it is given.\<close>

interpretation file_sink: char_sink
  "\<lambda>c (f, os). putc sys who c f os" "\<lambda>(f, os). good_dev sys out \<and> wf_out f \<and> s_fd f = fd"
  "\<lambda>(f, os). out fd os @ pending f" "\<lambda>x. x"
  for sys :: "'os sys" and out who fd
proof
  fix s :: "FILE \<times> 'os" and c
  assume "case s of (f, os) \<Rightarrow> good_dev sys out \<and> wf_out f \<and> s_fd f = fd"
  then obtain f os where s: "s = (f, os)" "good_dev sys out" "wf_out f" "s_fd f = fd" by (cases s) auto
  from putc_ok [OF s(2,3), of who c os] obtain f' os' where p: "putc sys who c f os = Some (Some c, f', os')"
    "wf_out f'" "s_fd f' = s_fd f" "out (s_fd f) os' @ pending f' = (out (s_fd f) os @ pending f) @ [c]" by blast
  show "\<exists>r s'. (case s of (f, os) \<Rightarrow> putc sys who c f os) = Some (r, s') \<and>
       (case s' of (f, os) \<Rightarrow> good_dev sys out \<and> wf_out f \<and> s_fd f = fd) \<and>
       (case s' of (f, os) \<Rightarrow> out fd os @ pending f) = (case s of (f, os) \<Rightarrow> out fd os @ pending f) @ [c]"
    using s p by (intro exI [of _ "Some c"] exI [of _ "(f', os')"]) simp
qed simp_all

text \<open>A stream on an array of the caller of \<open>L\<close> bytes, of which it may use the first \<open>n\<close>.\<close>

definition wf_str :: "nat \<Rightarrow> nat \<Rightarrow> FILE \<Rightarrow> bool" where
  "wf_str n L f \<longleftrightarrow> s_string f \<and> \<not> s_balloc f \<and> \<not> s_linebuf f \<and> \<not> s_unbuf f \<and> s_bufl f = int n
     \<and> (\<exists>b. s_buf f = Some b \<and> n \<le> length b \<and> length b = L)
     \<and> (case s_state f of
          RDWR \<Rightarrow> s_rp f = 0 \<and> s_wp f = 0
        | WR \<Rightarrow> s_rp f = int n \<and> 0 < s_wp f \<and> s_wp f \<le> int n
        | ERR \<Rightarrow> s_rp f = int n \<and> s_wp f = int n
        | _ \<Rightarrow> False)"

definition str_text :: "FILE \<Rightarrow> string" where
  "str_text f = (case s_buf f of None \<Rightarrow> [] | Some b \<Rightarrow> take (nat (s_wp f)) b)"

lemma wf_str_putc:
  assumes "wf_str n L f"
  shows "\<exists>r f'. putc sys who c f os = Some (r, f', os) \<and> wf_str n L f' \<and> str_text f' = take n (str_text f @ [c])
    \<and> (s_state f' = ERR \<longleftrightarrow> s_state f = ERR \<or> length (str_text f) = n)"
proof -
  from assms have k: "s_string f" "\<not> s_balloc f" "\<not> s_linebuf f" "\<not> s_unbuf f" "s_bufl f = int n"
    by (simp_all add: wf_str_def)
  from assms obtain b where b: "s_buf f = Some b" "n \<le> length b" "length b = L" by (auto simp: wf_str_def)
  from assms have "s_state f = RDWR \<or> s_state f = WR \<or> s_state f = ERR"
    by (cases "s_state f") (simp_all add: wf_str_def)
  then consider (fresh) "s_state f = RDWR" | (room) "s_state f = WR" "s_wp f < int n"
    | (full) "s_state f = WR" "s_wp f = int n" | (bad) "s_state f = ERR"
    using assms by (fastforce simp: wf_str_def)
  then show ?thesis
  proof cases
    case fresh
    then have z: "s_rp f = 0" "s_wp f = 0" using assms by (simp_all add: wf_str_def)
    show ?thesis
    proof (cases "n = 0")
      case True
      then have "putc sys who c f os = Some (None, f\<lparr>s_rp := 0, s_wp := 0, s_state := ERR\<rparr>, os)"
        using fresh z k by (simp add: putc_def IO_putc_def putc_start_def putc_string_def)
      then show ?thesis using k b z True by (simp add: wf_str_def str_text_def)
    next
      case False
      let ?f = "f\<lparr>s_rp := int n, s_wp := 1, s_buf := Some (b[0 := c]), s_state := WR\<rparr>"
      have nb: "b \<noteq> []" using b False by auto
      have "putc sys who c f os = Some (Some c, ?f, os)"
        using fresh z k b False nb by (simp add: putc_def IO_putc_def putc_start_def putc_string_def poke_def)
      moreover have "wf_str n L ?f" using k b False by (simp add: wf_str_def)
      moreover have "str_text ?f = take n (str_text f @ [c])"
        using z b False by (cases b) (auto simp: str_text_def)
      moreover have "(s_state ?f = ERR) = (s_state f = ERR \<or> length (str_text f) = n)"
        using z b False fresh by (simp add: str_text_def)
      ultimately show ?thesis by blast
    qed
  next
    case room
    then have w: "s_rp f = int n" "0 < s_wp f" using assms by (simp_all add: wf_str_def)
    let ?i = "nat (s_wp f)"
    have i: "?i < n" "s_wp f = int ?i" using room w by linarith+
    let ?f = "f\<lparr>s_wp := s_wp f + 1, s_buf := Some (b[?i := c])\<rparr>"
    have lt: "s_wp f < int (length b)" using room b by linarith
    have "putc sys who c f os = Some (Some c, ?f, os)"
      using room(2) lt w k b by (simp add: putc_def poke_def)
    moreover have "wf_str n L ?f" using k b w room by (simp add: wf_str_def)
    moreover have "str_text ?f = take n (str_text f @ [c])"
    proof -
      have "nat (s_wp f + 1) = Suc ?i" "?i < length b" using w i b by linarith+
      then show ?thesis using b i by (simp add: str_text_def take_Suc_conv_app_nth)
    qed
    moreover have "(s_state ?f = ERR) = (s_state f = ERR \<or> length (str_text f) = n)"
      using b room(1) i(1) by (simp add: str_text_def)
    ultimately show ?thesis by blast
  next
    case full
    then have w: "s_rp f = int n" "0 < n" using assms by (simp_all add: wf_str_def)
    have "putc sys who c f os = Some (None, f\<lparr>s_state := ERR\<rparr>, os)"
      using full w k by (simp add: putc_def IO_putc_def putc_start_def putc_string_def)
    then show ?thesis using k b w full by (simp add: wf_str_def str_text_def)
  next
    case bad
    then have w: "s_rp f = int n" "s_wp f = int n" using assms by (simp_all add: wf_str_def)
    have "putc sys who c f os = Some (None, f, os)" using bad w by (simp add: putc_def IO_putc_def)
    then show ?thesis using assms w b bad by (simp add: str_text_def)
  qed
qed

lemma str_text_le: "wf_str n L f \<Longrightarrow> length (str_text f) \<le> n"
  by (cases "s_state f") (auto simp: wf_str_def str_text_def)

interpretation str_sink: char_sink
  "\<lambda>c (f, os). putc sys who c f os" "\<lambda>(f, os). wf_str n L f" "\<lambda>(f, os). str_text f" "take n"
  for sys :: "'os sys" and who n L
proof
  fix s :: "FILE \<times> 'os" and c
  assume "case s of (f, os) \<Rightarrow> wf_str n L f"
  then obtain f os where s: "s = (f, os)" "wf_str n L f" by (cases s) auto
  from wf_str_putc [OF s(2), of sys who c os] obtain r f' where p: "putc sys who c f os = Some (r, f', os)"
    "wf_str n L f'" "str_text f' = take n (str_text f @ [c])" by blast
  show "\<exists>r s'. (case s of (f, os) \<Rightarrow> putc sys who c f os) = Some (r, s') \<and> (case s' of (f, os) \<Rightarrow> wf_str n L f) \<and>
       (case s' of (f, os) \<Rightarrow> str_text f) = take n ((case s of (f, os) \<Rightarrow> str_text f) @ [c])"
    using s p by (intro exI [of _ r] exI [of _ "(f', os)"]) simp
next
  fix s :: "FILE \<times> 'os"
  assume "case s of (f, os) \<Rightarrow> wf_str n L f"
  then show "take n (case s of (f, os) \<Rightarrow> str_text f) = (case s of (f, os) \<Rightarrow> str_text f)"
    by (cases s) (simp add: str_text_le)
qed (simp add: min_def)

lemma put_string_file:
  assumes "good_dev sys out" "wf_out f"
  shows "\<exists>f' os'. put_string sys who cs f os = Some (f', os') \<and> wf_out f' \<and> s_fd f' = s_fd f
    \<and> out (s_fd f) os' @ pending f' = out (s_fd f) os @ pending f @ cs"
  using file_sink.put_each_ok [where s = "(f, os)" and fd = "s_fd f" and sys = sys and out = out and who = who and cs = cs] assms
  by (auto simp: put_string_put_each)

lemma put_string_str:
  assumes "wf_str n L f"
  shows "\<exists>f' os'. put_string sys who cs f os = Some (f', os') \<and> wf_str n L f' \<and> str_text f' = take n (str_text f @ cs)"
  using str_sink.put_each_ok [where s = "(f, os)" and n = n and L = L and sys = sys and who = who and cs = cs] assms
  by (auto simp: put_string_put_each)

text \<open>The stream is in error exactly when not all has found room.\<close>

lemma put_string_str_state:
  assumes "wf_str n L f" "put_string sys who cs f os = Some (f', os')"
  shows "s_state f' = ERR \<longleftrightarrow> s_state f = ERR \<and> cs = [] \<or> n < length (str_text f) + length cs"
  using assms
proof (induction cs arbitrary: f os)
  case Nil
  then show ?case using str_text_le [OF Nil.prems(1)] by simp
next
  case (Cons c cs)
  from wf_str_putc [OF Cons.prems(1), of sys who c os] obtain r f1
    where 1: "putc sys who c f os = Some (r, f1, os)" "wf_str n L f1" "str_text f1 = take n (str_text f @ [c])"
      "s_state f1 = ERR \<longleftrightarrow> s_state f = ERR \<or> length (str_text f) = n" by blast
  have "put_string sys who cs f1 os = Some (f', os')" using Cons.prems(2) 1(1) by simp
  from Cons.IH [OF 1(2) this] have 2: "s_state f' = ERR \<longleftrightarrow> s_state f1 = ERR \<and> cs = [] \<or> n < length (str_text f1) + length cs" .
  have l: "length (str_text f1) = min n (Suc (length (str_text f)))" using 1(3) by simp
  have full: "s_state f = ERR \<Longrightarrow> length (str_text f) = n"
    using Cons.prems(1) by (auto simp: wf_str_def str_text_def)
  show ?case using 2 l 1(4) full str_text_le [OF Cons.prems(1)] by (cases cs) auto
qed

section \<open>What a stream promises its reader\<close>

text \<open>\<open>left\<close> is what is still to come. A character just got can be put back.\<close>

locale char_source =
  fixes get :: "'s \<Rightarrow> (char option \<times> 's) option"
    and unget :: "char \<Rightarrow> 's \<Rightarrow> (bool \<times> 's) option"
    and inv :: "'s \<Rightarrow> bool"
    and left :: "'s \<Rightarrow> string"
  assumes get_nil: "inv s \<Longrightarrow> left s = [] \<Longrightarrow> \<exists>s'. get s = Some (None, s') \<and> inv s' \<and> left s' = []"
    and get_cons: "inv s \<Longrightarrow> left s = c # cs \<Longrightarrow>
      \<exists>s'. get s = Some (Some c, s') \<and> inv s' \<and> left s' = cs \<and> (\<exists>s''. unget c s' = Some (True, s'') \<and> inv s'' \<and> left s'' = c # cs)"

text \<open>A device to read from: \<open>inp fd os\<close> is what it has yet to deliver, in pieces of any size.\<close>

definition good_src :: "'os sys \<Rightarrow> (int \<Rightarrow> 'os \<Rightarrow> string) \<Rightarrow> bool" where
  "good_src sys inp \<longleftrightarrow>
     (\<forall>fd n os. 0 < n \<longrightarrow> (\<exists>bs os'. sys_read sys fd n os = (Some bs, os') \<and> length bs \<le> n
        \<and> inp fd os = bs @ inp fd os' \<and> (bs = [] \<longrightarrow> inp fd os = [])))
     \<and> (\<forall>n os. \<exists>b os'. sys_malloc sys n os = (Some b, os') \<and> length b = n \<and> (\<forall>fd. inp fd os' = inp fd os))"

lemma good_src_read:
  assumes "good_src sys inp" "0 < n"
  shows "\<exists>bs os'. sys_read sys fd n os = (Some bs, os') \<and> length bs \<le> n
        \<and> inp fd os = bs @ inp fd os' \<and> (bs = [] \<longrightarrow> inp fd os = [])"
  using assms unfolding good_src_def by (elim conjE) blast

lemma good_src_malloc:
  "good_src sys inp \<Longrightarrow> \<exists>b os'. sys_malloc sys n os = (Some b, os') \<and> length b = n \<and> (\<forall>fd. inp fd os' = inp fd os)"
  unfolding good_src_def by (elim conjE) blast

text \<open>A stream that reads from a file, with what it has read ahead.\<close>

definition rd_buf :: "FILE \<Rightarrow> bool" where
  "rd_buf f \<longleftrightarrow> (\<exists>b. s_buf f = Some b \<and> 0 < length b \<and> (if s_unbuf f then length b = 1 else int (length b) = s_bufl f))"

definition wf_in :: "FILE \<Rightarrow> string \<Rightarrow> bool" where
  "wf_in f rest \<longleftrightarrow> \<not> s_string f \<and>
     (case s_state f of
        OPEN \<Rightarrow> s_wp f \<le> s_rp f
      | RDWR \<Rightarrow> rd_buf f \<and> s_wp f \<le> s_rp f
      | RD \<Rightarrow> rd_buf f \<and> 0 \<le> s_rp f \<and> s_rp f \<le> s_wp f \<and> (\<exists>b. s_buf f = Some b \<and> s_wp f \<le> int (length b))
      | END \<Rightarrow> s_wp f \<le> s_rp f \<and> rest = []
      | _ \<Rightarrow> False)"

definition ahead :: "FILE \<Rightarrow> string" where
  "ahead f = (case s_buf f of None \<Rightarrow> []
              | Some b \<Rightarrow> if s_rp f < s_wp f then take (nat (s_wp f - s_rp f)) (drop (nat (s_rp f)) b) else [])"

lemma rd_setvbuf:
  assumes "good_src sys inp" "s_state f = OPEN"
  shows "\<exists>f' os'. snd (IO_setvbuf sys who f os) = (f', os') \<and> rd_buf f' \<and> \<not> s_unbuf f' \<and> s_fd f' = s_fd f
    \<and> s_string f' = s_string f \<and> s_state f' = RDWR \<and> s_rp f' = 0 \<and> s_wp f' = 0 \<and> (\<forall>fd. inp fd os' = inp fd os)"
proof -
  from good_src_malloc [OF assms(1), of "nat BUFSIZ" os] obtain b os'
    where "sys_malloc sys (nat BUFSIZ) os = (Some b, os')" "length b = nat BUFSIZ" "\<forall>fd. inp fd os' = inp fd os" by blast
  with assms(2) show ?thesis by (auto simp: IO_setvbuf_def setvbuf_def Let_def rd_buf_def BUFSIZ_def)
qed

text \<open>Where \<open>rp\<close> and \<open>wp\<close> point after \<open>getc\<close> has read anew.\<close>

lemma rd_fill:
  assumes "rd_buf f" "bs \<noteq> []" "length bs \<le> (if s_unbuf f then 1 else nat (s_bufl f))" "\<not> s_string f"
  shows "\<exists>f'. poke_range f 0 bs = Some f' \<and> peek f' 0 = Some (hd bs)
    \<and> (let g = f'\<lparr>s_state := RD, s_rp := 1, s_wp := int (length bs)\<rparr> in
        wf_in g rest \<and> s_fd g = s_fd f \<and> ahead g = tl bs \<and> s_state g = RD \<and> s_rp g = 1 \<and> s_buf g = s_buf f')
    \<and> (\<exists>b'. s_buf f' = Some (bs @ b'))"
proof -
  from assms(1) obtain b where b: "s_buf f = Some b" "0 < length b"
    "if s_unbuf f then length b = 1 else int (length b) = s_bufl f" by (auto simp: rd_buf_def)
  then have le: "length bs \<le> length b" using assms(3) by (cases "s_unbuf f") auto
  let ?f = "f\<lparr>s_buf := Some (bs @ drop (length bs) b)\<rparr>"
  have "poke_range f 0 bs = Some ?f" using b le by (simp add: poke_range_def)
  moreover have "peek ?f 0 = Some (hd bs)" using assms(2) by (cases bs) (simp_all add: peek_def)
  moreover have "wf_in (?f\<lparr>s_state := RD, s_rp := 1, s_wp := int (length bs)\<rparr>) rest"
    using assms(2,4) b le by (cases bs) (auto simp: wf_in_def rd_buf_def)
  moreover have "ahead (?f\<lparr>s_state := RD, s_rp := 1, s_wp := int (length bs)\<rparr>) = tl bs"
    using assms(2) by (cases bs) (auto simp: ahead_def)
  ultimately show ?thesis by (intro exI [of _ ?f]) (simp add: Let_def)
qed

definition got :: "FILE \<Rightarrow> char \<Rightarrow> bool" where
  "got f c \<longleftrightarrow> s_state f = RD \<and> 0 < s_rp f \<and> (\<exists>b. s_buf f = Some b \<and> s_rp f \<le> int (length b) \<and> b ! nat (s_rp f - 1) = c)"

definition got_spec :: "string \<Rightarrow> char option \<Rightarrow> FILE \<Rightarrow> string \<Rightarrow> bool" where
  "got_spec before r f after \<longleftrightarrow>
     (case before of [] \<Rightarrow> r = None \<and> after = []
      | c # cs \<Rightarrow> r = Some c \<and> after = cs \<and> got f c)"

lemma IO_getc_ok:
  assumes "good_src sys inp" "wf_in f (inp (s_fd f) os)" "s_wp f \<le> s_rp f"
  shows "\<exists>r f' os'. IO_getc sys who f os = Some (r, f', os') \<and> wf_in f' (inp (s_fd f) os') \<and> s_fd f' = s_fd f
    \<and> got_spec (inp (s_fd f) os) r f' (ahead f' @ inp (s_fd f) os')"
proof -
  have ns: "\<not> s_string f" using assms(2) by (simp add: wf_in_def)
  show ?thesis
  proof (cases "s_state f = END")
    case True
    then have e: "inp (s_fd f) os = []" using assms(2) by (simp add: wf_in_def)
    have "IO_getc sys who f os = Some (None, f, os)" using True by (simp add: IO_getc_def)
    moreover have "ahead f = []" using assms(3) by (simp add: ahead_def split: option.splits)
    ultimately show ?thesis using assms(2) e by (simp add: got_spec_def)
  next
    case False
    with assms(2) have st: "s_state f \<in> {OPEN, RDWR, RD}" by (cases "s_state f") (simp_all add: wf_in_def)
    obtain f1 os1 where 1: "(if s_state f = OPEN then snd (IO_setvbuf sys who f os) else (f, os)) = (f1, os1)"
      "rd_buf f1" "s_fd f1 = s_fd f" "\<not> s_string f1" "inp (s_fd f) os1 = inp (s_fd f) os"
      "s_wp f1 \<le> s_rp f1"
    proof (cases "s_state f = OPEN")
      case True
      from rd_setvbuf [OF assms(1) True, of who os] that ns show ?thesis by (auto simp: True)
    next
      case False
      then have "rd_buf f" using st assms(2) by (auto simp: wf_in_def)
      with False ns assms(3) that show ?thesis by auto
    qed
    let ?n = "if s_unbuf f1 then 1 else nat (s_bufl f1)"
    have n: "0 < ?n"
    proof -
      from 1(2) obtain b :: string where "0 < int (length b)" "if s_unbuf f1 then length b = 1 else int (length b) = s_bufl f1"
        unfolding rd_buf_def by (elim exE conjE) simp
      then show ?thesis by (cases "s_unbuf f1") auto
    qed
    from good_src_read [OF assms(1) n, of "s_fd f" os1] obtain bs os2
      where r: "sys_read sys (s_fd f) ?n os1 = (Some bs, os2)" "length bs \<le> ?n"
        "inp (s_fd f) os1 = bs @ inp (s_fd f) os2" "bs = [] \<longrightarrow> inp (s_fd f) os1 = []" by blast
    have unf: "IO_getc sys who f os = (if bs = [] then Some (None, f1\<lparr>s_state := END\<rparr>, os2)
                         else do {
                           f \<leftarrow> poke_range f1 0 bs;
                           c \<leftarrow> peek f 0;
                           Some (Some c, f\<lparr>s_state := RD, s_rp := 1, s_wp := int (length bs)\<rparr>, os2)
                         })"
      using st 1(1,3,4) r(1) by (auto simp: IO_getc_def)
    show ?thesis
    proof (cases "bs = []")
      case True
      then have e: "inp (s_fd f) os = []" "inp (s_fd f) os2 = []" using r 1(5) by auto
      have "wf_in (f1\<lparr>s_state := END\<rparr>) []" using 1 by (simp add: wf_in_def)
      moreover have "ahead (f1\<lparr>s_state := END\<rparr>) = []" using 1(6) by (simp add: ahead_def split: option.splits)
      ultimately show ?thesis using unf True e 1(3)
        by (intro exI [of _ None] exI [of _ "f1\<lparr>s_state := END\<rparr>"] exI [of _ os2]) (simp add: got_spec_def)
    next
      case False
      from rd_fill [OF 1(2) False r(2) 1(4), of "inp (s_fd f) os2"] obtain f2 b'
        where 2: "poke_range f1 0 bs = Some f2" "peek f2 0 = Some (hd bs)" "s_buf f2 = Some (bs @ b')"
          and g: "let g = f2\<lparr>s_state := RD, s_rp := 1, s_wp := int (length bs)\<rparr> in
             wf_in g (inp (s_fd f) os2) \<and> s_fd g = s_fd f1 \<and> ahead g = tl bs \<and> s_state g = RD \<and> s_rp g = 1 \<and> s_buf g = s_buf f2" by blast
      define g where "g = f2\<lparr>s_state := RD, s_rp := 1, s_wp := int (length bs)\<rparr>"
      from g have g1: "wf_in g (inp (s_fd f) os2)" "s_fd g = s_fd f" "ahead g = tl bs" "s_state g = RD" "s_rp g = 1"
        "s_buf g = s_buf f2" using 1(3) unfolding g_def Let_def by auto
      obtain c cs where bs: "bs = c # cs" using False by (cases bs) auto
      have "IO_getc sys who f os = Some (Some c, g, os2)" using unf False 2 bs by (simp add: g_def)
      moreover have "got_spec (inp (s_fd f) os) (Some c) g (ahead g @ inp (s_fd f) os2)"
      proof -
        have "inp (s_fd f) os = c # cs @ inp (s_fd f) os2" using 1(5) r(3) bs by simp
        moreover have "got g c" using bs g1 2(3) by (simp add: got_def)
        ultimately show ?thesis using bs g1(3) by (simp add: got_spec_def)
      qed
      ultimately show ?thesis using g1 by blast
    qed
  qed
qed

lemma getc_ok:
  assumes "good_src sys inp" "wf_in f (inp (s_fd f) os)"
  shows "\<exists>r f' os'. getc sys who f os = Some (r, f', os') \<and> wf_in f' (inp (s_fd f) os') \<and> s_fd f' = s_fd f
    \<and> got_spec (ahead f @ inp (s_fd f) os) r f' (ahead f' @ inp (s_fd f) os')"
proof (cases "s_wp f \<le> s_rp f")
  case True
  then have "ahead f = []" by (simp add: ahead_def split: option.splits)
  with IO_getc_ok [OF assms True, of who] True show ?thesis by (simp add: getc_def)
next
  case False
  with assms(2) have st: "s_state f = RD" by (cases "s_state f") (simp_all add: wf_in_def)
  then obtain b where b: "s_buf f = Some b" "rd_buf f" "0 \<le> s_rp f" "s_wp f \<le> int (length b)"
    using assms(2) by (auto simp: wf_in_def)
  let ?i = "nat (s_rp f)" and ?f = "f\<lparr>s_rp := s_rp f + 1\<rparr>"
  have i: "?i < length b" "nat (s_rp f + 1) = Suc ?i" "nat (s_wp f - s_rp f) = Suc (nat (s_wp f - s_rp f - 1))"
    using False b by linarith+
  have "peek f (s_rp f) = Some (b ! ?i)" using b False by (simp add: peek_def)
  then have g: "getc sys who f os = Some (Some (b ! ?i), ?f, os)" using False by (simp add: getc_def)
  have a: "ahead f = b ! ?i # ahead ?f"
  proof -
    have "ahead f = take (Suc (nat (s_wp f - s_rp f - 1))) (drop ?i b)" using b(1) False i(3) by (simp add: ahead_def)
    also have "\<dots> = b ! ?i # take (nat (s_wp f - s_rp f - 1)) (drop (Suc ?i) b)"
      using i(1) by (simp add: Cons_nth_drop_Suc [symmetric])
    also have "take (nat (s_wp f - s_rp f - 1)) (drop (Suc ?i) b) = ahead ?f"
      using b(1) i(2) False by (simp add: ahead_def algebra_simps)
    finally show ?thesis .
  qed
  have "wf_in ?f (inp (s_fd f) os)" using assms(2) st b False by (simp add: wf_in_def rd_buf_def)
  moreover have "got ?f (b ! ?i)" using st b False by (simp add: got_def)
  ultimately show ?thesis using g a
    by (intro exI [of _ "Some (b ! ?i)"] exI [of _ ?f] exI [of _ os]) (simp add: got_spec_def)
qed

lemma ungetc_ok:
  assumes "wf_in f rest" "got f c"
  shows "\<exists>f'. ungetc sys who c f os = Some (True, f', os) \<and> wf_in f' rest \<and> s_fd f' = s_fd f \<and> ahead f' = c # ahead f"
proof -
  from assms(2) obtain b where b: "s_state f = RD" "0 < s_rp f" "s_buf f = Some b" "s_rp f \<le> int (length b)"
    "b ! nat (s_rp f - 1) = c" by (auto simp: got_def)
  from assms(1) b have w: "\<not> s_string f" "rd_buf f" "s_rp f \<le> s_wp f" "s_wp f \<le> int (length b)" by (auto simp: wf_in_def)
  let ?i = "nat (s_rp f - 1)" and ?f = "f\<lparr>s_rp := s_rp f - 1\<rparr>"
  have i: "?i < length b" "nat (s_rp f) = Suc ?i" using b by linarith+
  have upd: "b[?i := c] = b" using b(5) by auto
  have "ungetc sys who c f os = Some (True, ?f, os)"
    using b w i upd by (simp add: ungetc_def poke_def)
  moreover have "wf_in ?f rest" using assms(1) b w by (simp add: wf_in_def rd_buf_def)
  moreover have "ahead ?f = c # ahead f"
  proof -
    have n: "nat (s_wp f - (s_rp f - 1)) = Suc (nat (s_wp f - s_rp f))" using w by linarith
    have "ahead ?f = take (Suc (nat (s_wp f - s_rp f))) (drop ?i b)" using b(3) w n by (simp add: ahead_def)
    also have "\<dots> = c # take (nat (s_wp f - s_rp f)) (drop (Suc ?i) b)"
      using i(1) b(5) by (simp add: Cons_nth_drop_Suc [symmetric])
    also have "take (nat (s_wp f - s_rp f)) (drop (Suc ?i) b) = ahead f"
      using b(3) i(2) w by (auto simp: ahead_def)
    finally show ?thesis .
  qed
  ultimately show ?thesis by (intro exI [of _ ?f]) simp
qed

interpretation file_source: char_source
  "\<lambda>(f, os). getc sys who f os" "\<lambda>c (f, os). ungetc sys who c f os"
  "\<lambda>(f, os). good_src sys inp \<and> wf_in f (inp fd os) \<and> s_fd f = fd" "\<lambda>(f, os). ahead f @ inp fd os"
  for sys :: "'os sys" and inp who fd
proof
  fix s :: "FILE \<times> 'os"
  assume "case s of (f, os) \<Rightarrow> good_src sys inp \<and> wf_in f (inp fd os) \<and> s_fd f = fd"
    and d: "(case s of (f, os) \<Rightarrow> ahead f @ inp fd os) = []"
  then obtain f os where s: "s = (f, os)" "good_src sys inp" "wf_in f (inp (s_fd f) os)" "s_fd f = fd" by (cases s) auto
  from getc_ok [OF s(2,3), of who] s d obtain f' os' where
    "getc sys who f os = Some (None, f', os')" "wf_in f' (inp fd os')" "s_fd f' = fd" "ahead f' @ inp fd os' = []"
    by (auto simp: got_spec_def)
  with s show "\<exists>s'. (case s of (f, os) \<Rightarrow> getc sys who f os) = Some (None, s') \<and>
       (case s' of (f, os) \<Rightarrow> good_src sys inp \<and> wf_in f (inp fd os) \<and> s_fd f = fd) \<and>
       (case s' of (f, os) \<Rightarrow> ahead f @ inp fd os) = []"
    by (intro exI [of _ "(f', os')"]) simp
next
  fix s :: "FILE \<times> 'os" and c cs
  assume "case s of (f, os) \<Rightarrow> good_src sys inp \<and> wf_in f (inp fd os) \<and> s_fd f = fd"
    and d: "(case s of (f, os) \<Rightarrow> ahead f @ inp fd os) = c # cs"
  then obtain f os where s: "s = (f, os)" "good_src sys inp" "wf_in f (inp (s_fd f) os)" "s_fd f = fd" by (cases s) auto
  from getc_ok [OF s(2,3), of who] s d obtain f' os' where
    g: "getc sys who f os = Some (Some c, f', os')" "wf_in f' (inp fd os')" "s_fd f' = fd" "ahead f' @ inp fd os' = cs" "got f' c"
    by (auto simp: got_spec_def)
  from ungetc_ok [OF g(2,5), of sys who os'] obtain f2
    where u: "ungetc sys who c f' os' = Some (True, f2, os')" "wf_in f2 (inp fd os')" "s_fd f2 = fd" "ahead f2 = c # ahead f'"
    using g(3) by auto
  show "\<exists>s'. (case s of (f, os) \<Rightarrow> getc sys who f os) = Some (Some c, s') \<and>
       (case s' of (f, os) \<Rightarrow> good_src sys inp \<and> wf_in f (inp fd os) \<and> s_fd f = fd) \<and>
       (case s' of (f, os) \<Rightarrow> ahead f @ inp fd os) = cs \<and>
       (\<exists>s''. (case s' of (f, os) \<Rightarrow> ungetc sys who c f os) = Some (True, s'') \<and>
         (case s'' of (f, os) \<Rightarrow> good_src sys inp \<and> wf_in f (inp fd os) \<and> s_fd f = fd) \<and>
         (case s'' of (f, os) \<Rightarrow> ahead f @ inp fd os) = c # cs)"
    using s g u by (intro exI [of _ "(f', os')"] conjI exI [of _ "(f2, os')"]) simp_all
qed

text \<open>A stream opened by \<open>sopenr\<close>.\<close>

definition wf_strin :: "FILE \<Rightarrow> bool" where
  "wf_strin f \<longleftrightarrow> s_string f \<and> s_state f = RD \<and> 0 \<le> s_rp f \<and> s_rp f \<le> s_wp f
     \<and> (\<exists>b. s_buf f = Some b \<and> s_wp f \<le> int (length b))"

lemma wf_strin_getc:
  assumes "wf_strin f" "ahead f = c # cs"
  shows "\<exists>f'. getc sys who f os = Some (Some c, f', os) \<and> wf_strin f' \<and> ahead f' = cs
    \<and> (\<exists>f''. ungetc sys who c f' os = Some (True, f'', os) \<and> wf_strin f'' \<and> ahead f'' = c # cs)"
proof -
  from assms(1) obtain b where b: "s_string f" "s_state f = RD" "0 \<le> s_rp f" "s_buf f = Some b" "s_wp f \<le> int (length b)"
    by (auto simp: wf_strin_def)
  have lt: "s_rp f < s_wp f" using assms(2) b(4) by (simp add: ahead_def split: if_splits)
  let ?i = "nat (s_rp f)" and ?f = "f\<lparr>s_rp := s_rp f + 1\<rparr>"
  have i: "?i < length b" "nat (s_rp f + 1) = Suc ?i" "nat (s_wp f - s_rp f) = Suc (nat (s_wp f - s_rp f - 1))"
    using lt b by linarith+
  have "c # cs = take (Suc (nat (s_wp f - s_rp f - 1))) (drop ?i b)" using assms(2) b(4) lt i(3) by (simp add: ahead_def)
  also have "\<dots> = b ! ?i # take (nat (s_wp f - s_rp f - 1)) (drop (Suc ?i) b)"
    using i(1) by (simp add: Cons_nth_drop_Suc [symmetric])
  finally have c: "c = b ! ?i" "cs = take (nat (s_wp f - s_rp f - 1)) (drop (Suc ?i) b)" by simp_all
  have "peek f (s_rp f) = Some c" using b lt c by (simp add: peek_def)
  then have "getc sys who f os = Some (Some c, ?f, os)" using lt by (simp add: getc_def)
  moreover have "wf_strin ?f" using assms(1) lt b by (simp add: wf_strin_def)
  moreover have "ahead ?f = cs" using b(4) i(2) lt c(2) by (simp add: ahead_def algebra_simps)
  moreover have "ungetc sys who c ?f os = Some (True, f, os)" using b by (simp add: ungetc_def)
  ultimately show ?thesis using assms by blast
qed

interpretation str_source: char_source
  "\<lambda>(f, os). getc sys who f os" "\<lambda>c (f, os). ungetc sys who c f os"
  "\<lambda>(f, os :: 'os). wf_strin f" "\<lambda>(f, os). ahead f"
  for sys :: "'os sys" and who
proof
  fix s :: "FILE \<times> 'os"
  assume "case s of (f, os) \<Rightarrow> wf_strin f" and d: "(case s of (f, os) \<Rightarrow> ahead f) = []"
  then obtain f os where s: "s = (f, os)" "wf_strin f" "ahead f = []" by (cases s) auto
  then obtain b where b: "s_string f" "s_state f = RD" "s_rp f \<le> s_wp f" "s_buf f = Some b" "s_wp f \<le> int (length b)" "0 \<le> s_rp f"
    by (auto simp: wf_strin_def)
  have "s_wp f \<le> s_rp f"
  proof (rule ccontr)
    assume "\<not> s_wp f \<le> s_rp f"
    then have "length (ahead f) = nat (s_wp f - s_rp f)" "0 < nat (s_wp f - s_rp f)" using b by (simp_all add: ahead_def)
    with s(3) show False by simp
  qed
  then have "getc sys who f os = Some (None, f, os)" using b by (simp add: getc_def IO_getc_def)
  with s show "\<exists>s'. (case s of (f, os) \<Rightarrow> getc sys who f os) = Some (None, s') \<and> (case s' of (f, os) \<Rightarrow> wf_strin f) \<and>
       (case s' of (f, os) \<Rightarrow> ahead f) = []"
    by (intro exI [of _ "(f, os)"]) simp
next
  fix s :: "FILE \<times> 'os" and c cs
  assume "case s of (f, os) \<Rightarrow> wf_strin f" and d: "(case s of (f, os) \<Rightarrow> ahead f) = c # cs"
  then obtain f os where s: "s = (f, os)" "wf_strin f" "ahead f = c # cs" by (cases s) auto
  from wf_strin_getc [OF s(2,3), of sys who os] obtain f' f2
    where g: "getc sys who f os = Some (Some c, f', os)" "wf_strin f'" "ahead f' = cs"
      "ungetc sys who c f' os = Some (True, f2, os)" "wf_strin f2" "ahead f2 = c # cs" by blast
  show "\<exists>s'. (case s of (f, os) \<Rightarrow> getc sys who f os) = Some (Some c, s') \<and> (case s' of (f, os) \<Rightarrow> wf_strin f) \<and>
       (case s' of (f, os) \<Rightarrow> ahead f) = cs \<and>
       (\<exists>s''. (case s' of (f, os) \<Rightarrow> ungetc sys who c f os) = Some (True, s'') \<and> (case s'' of (f, os) \<Rightarrow> wf_strin f) \<and>
         (case s'' of (f, os) \<Rightarrow> ahead f) = c # cs)"
    using s g by (intro exI [of _ "(f', os)"] conjI exI [of _ "(f2, os)"]) simp_all
qed

section \<open>Reading a block\<close>

lemma rd_buf_rp [simp]: "rd_buf (f\<lparr>s_rp := x\<rparr>) = rd_buf f"
  by (simp add: rd_buf_def)

lemma ahead_take:
  assumes "wf_in f rest" "s_rp f < s_wp f" "0 \<le> d" "d \<le> s_wp f - s_rp f"
  shows "buf_range f (s_rp f) d = Some (take (nat d) (ahead f))"
    "wf_in (f\<lparr>s_rp := s_rp f + d\<rparr>) rest" "ahead (f\<lparr>s_rp := s_rp f + d\<rparr>) = drop (nat d) (ahead f)"
    "length (ahead f) = nat (s_wp f - s_rp f)"
proof -
  from assms(1,2) have st: "s_state f = RD" by (cases "s_state f") (simp_all add: wf_in_def)
  with assms(1) obtain b where b: "s_buf f = Some b" "0 \<le> s_rp f" "s_wp f \<le> int (length b)" by (auto simp: wf_in_def)
  have n: "nat d \<le> nat (s_wp f - s_rp f)" "s_rp f + d \<le> int (length b)" "nat (s_rp f + d) = nat (s_rp f) + nat d"
    "nat (s_wp f - (s_rp f + d)) = nat (s_wp f - s_rp f) - nat d"
    using assms(3,4) b by linarith+
  show "buf_range f (s_rp f) d = Some (take (nat d) (ahead f))"
    using b assms(2,3) n by (simp add: buf_range_def ahead_def min_def)
  show "wf_in (f\<lparr>s_rp := s_rp f + d\<rparr>) rest" using assms st by (simp add: wf_in_def)
  show "ahead (f\<lparr>s_rp := s_rp f + d\<rparr>) = drop (nat d) (ahead f)"
    using b(1) assms(2) n by (auto simp: ahead_def drop_take add.commute)
  show "length (ahead f) = nat (s_wp f - s_rp f)"
    using b assms(2) by (simp add: ahead_def)
qed

lemma ahead_nil: "s_wp f \<le> s_rp f \<Longrightarrow> ahead f = []"
  by (simp add: ahead_def split: option.splits)

lemma fread_loop_ok:
  assumes "good_src sys inp" "wf_in f (inp fd os)" "s_fd f = fd"
  shows "\<exists>f' os'. fread_loop sys who n f os = Some (take n (ahead f @ inp fd os), f', os')
    \<and> wf_in f' (inp fd os') \<and> s_fd f' = fd \<and> ahead f' @ inp fd os' = drop n (ahead f @ inp fd os)"
  using assms(2,3)
proof (induction n arbitrary: f os rule: less_induct)
  case (less n)
  let ?data = "ahead f @ inp fd os"
  consider (none) "n = 0" | (buf) "n \<noteq> 0" "0 < s_wp f - s_rp f"
    | (big) "n \<noteq> 0" "\<not> 0 < s_wp f - s_rp f" "BIGN \<le> int n \<and> s_state f = RD \<and> \<not> s_string f \<and> \<not> s_unbuf f"
    | (one) "n \<noteq> 0" "\<not> 0 < s_wp f - s_rp f" "\<not> (BIGN \<le> int n \<and> s_state f = RD \<and> \<not> s_string f \<and> \<not> s_unbuf f)"
    by blast
  then show ?case
  proof cases
    case none
    with less.prems show ?thesis by (simp add: fread_loop.simps)
  next
    case buf
    define d where "d = min (s_wp f - s_rp f) (int n)"
    have d: "0 \<le> d" "d \<le> s_wp f - s_rp f" "nat d \<le> n" "0 < nat d" and lt: "s_rp f < s_wp f"
      using buf by (auto simp: d_def)
    note a = ahead_take [OF less.prems(1) lt d(1,2)]
    have dl: "nat d \<le> length (ahead f)" unfolding a(4) using d(2) by linarith
    let ?f = "f\<lparr>s_rp := s_rp f + d\<rparr>"
    have "n - nat d < n" using d buf by simp
    from less.IH [OF this a(2)] less.prems(2) a(3) obtain f' os'
      where r: "fread_loop sys who (n - nat d) ?f os = Some (take (n - nat d) (drop (nat d) (ahead f) @ inp fd os), f', os')"
        "wf_in f' (inp fd os')" "s_fd f' = fd"
        "ahead f' @ inp fd os' = drop (n - nat d) (drop (nat d) (ahead f) @ inp fd os)" by auto
    have sp: "drop (nat d) (ahead f) @ inp fd os = drop (nat d) ?data" "take (nat d) (ahead f) = take (nat d) ?data"
      using dl by simp_all
    have "fread_loop sys who n f os = Some (take (nat d) ?data @ take (n - nat d) (drop (nat d) ?data), f', os')"
      unfolding fread_loop.simps [of sys who n f os] if_not_P [OF buf(1)] if_P [OF buf(2)] Let_def d_def [symmetric] a(1)
      by (simp only: r(1) sp bind.bind_lunit option.simps prod.case)
    moreover have "take (nat d) ?data @ take (n - nat d) (drop (nat d) ?data) = take n ?data"
      using d(3) take_add [of "nat d" "n - nat d" ?data] by simp
    moreover have "drop (n - nat d) (drop (nat d) ?data) = drop n ?data"
      using d(3) by (simp only: drop_drop le_add_diff_inverse2)
    ultimately show ?thesis using r sp(1) by auto
  next
    case big
    then have e: "ahead f = []" by (simp add: ahead_nil)
    from good_src_read [OF assms(1), of n fd os] big(1) obtain bs os1
      where r: "sys_read sys fd n os = (Some bs, os1)" "length bs \<le> n" "inp fd os = bs @ inp fd os1"
        "bs = [] \<longrightarrow> inp fd os = []" by blast
    show ?thesis
    proof (cases "bs = []")
      case True
      then have "inp fd os1 = []" "inp fd os = []" using r by auto
      moreover have "wf_in (f\<lparr>s_state := END\<rparr>) []" "ahead (f\<lparr>s_state := END\<rparr>) = []"
        using big less.prems by (simp_all add: wf_in_def ahead_def split: option.splits)
      ultimately show ?thesis using big r True less.prems e by (simp add: fread_loop.simps)
    next
      case False
      then have lt: "n - length bs < n" using big(1) by (cases bs) auto
      have "wf_in f (inp fd os1)" using big(3) less.prems by (simp add: wf_in_def)
      from less.IH [OF lt this less.prems(2)] e obtain f' os'
        where q: "fread_loop sys who (n - length bs) f os1 = Some (take (n - length bs) (inp fd os1), f', os')"
          "wf_in f' (inp fd os')" "s_fd f' = fd" "ahead f' @ inp fd os' = drop (n - length bs) (inp fd os1)" by auto
      have "fread_loop sys who n f os = Some (bs @ take (n - length bs) (inp fd os1), f', os')"
        unfolding fread_loop.simps [of sys who n f os] using big r(1) q(1) less.prems False by simp
      then show ?thesis using q e r(2,3) by simp
    qed
  next
    case one
    then have le: "s_wp f \<le> s_rp f" by simp
    then have e: "ahead f = []" by (rule ahead_nil)
    from IO_getc_ok [OF assms(1) _ le, of os who] less.prems obtain r f1 os1
      where g: "IO_getc sys who f os = Some (r, f1, os1)" "wf_in f1 (inp fd os1)" "s_fd f1 = fd"
        "got_spec (inp fd os) r f1 (ahead f1 @ inp fd os1)" by auto
    show ?thesis
    proof (cases "inp fd os")
      case Nil
      then have "r = None" "ahead f1 @ inp fd os1 = []" using g(4) by (simp_all add: got_spec_def)
      then show ?thesis unfolding fread_loop.simps [of sys who n f os] if_not_P [OF one(2)] if_not_P [OF one(3)] using one(1) g e Nil by simp
    next
      case (Cons c cs)
      then have c: "r = Some c" "ahead f1 @ inp fd os1 = cs" using g(4) by (simp_all add: got_spec_def)
      have "n - 1 < n" using one(1) by simp
      from less.IH [OF this g(2,3)] c(2) obtain f' os'
        where q: "fread_loop sys who (n - 1) f1 os1 = Some (take (n - 1) cs, f', os')"
          "wf_in f' (inp fd os')" "s_fd f' = fd" "ahead f' @ inp fd os' = drop (n - 1) cs" by auto
      have "fread_loop sys who n f os = Some (c # take (n - 1) cs, f', os')"
        unfolding fread_loop.simps [of sys who n f os] if_not_P [OF one(2)] if_not_P [OF one(3)] using one(1) g(1) c(1) q(1) by simp
      then show ?thesis using q e Cons one(1) by (cases n) simp_all
    qed
  qed
qed

section \<open>Writing a block\<close>

lemma wf_out_room:
  assumes "wf_out f" "0 < s_rp f - s_wp f"
  shows "s_state f = WR" "block_ready f"
proof -
  show st: "s_state f = WR" using assms by (cases "s_state f") (simp_all add: wf_out_def)
  then show "block_ready f" using assms by (auto simp: wf_out_def line_ready_def unbuf_ready_def)
qed

lemma fwrite_room:
  assumes "wf_out f" "0 \<le> d" "0 < s_rp f - s_wp f" "d \<le> s_rp f - s_wp f" "length bs = nat d"
  shows "\<exists>f'. poke_range f (s_wp f) bs = Some f' \<and> s_wp f' = s_wp f \<and> s_fd f' = s_fd f
    \<and> wf_out (f'\<lparr>s_wp := s_wp f' + d\<rparr>) \<and> pending (f'\<lparr>s_wp := s_wp f' + d\<rparr>) = pending f @ bs"
proof -
  note r = wf_out_room [OF assms(1,3)]
  from r(2) obtain b where b: "s_buf f = Some b" "int (length b) = s_bufl f" "0 < s_bufl f" "\<not> s_unbuf f" "\<not> s_linebuf f"
    "s_rp f = s_bufl f \<or> s_rp f = 0" "0 \<le> s_wp f" "s_wp f \<le> s_rp f" by (auto simp: block_ready_def)
  then have rp: "s_rp f = int (length b)" using assms(3) by auto
  let ?i = "nat (s_wp f)"
  have i: "?i + length bs \<le> length b" "nat (s_wp f + d) = ?i + length bs" using rp assms b(7) by linarith+
  let ?f = "f\<lparr>s_buf := Some (take ?i b @ bs @ drop (?i + length bs) b)\<rparr>"
  have "poke_range f (s_wp f) bs = Some ?f" using b i by (simp add: poke_range_def)
  moreover have "wf_out (?f\<lparr>s_wp := s_wp ?f + d\<rparr>)"
    using assms(1,2,4) r b rp i by (auto simp: wf_out_def block_ready_def)
  moreover have "pending (?f\<lparr>s_wp := s_wp ?f + d\<rparr>) = pending f @ bs"
    using r(1) b i by (simp add: pending_def held_def)
  ultimately show ?thesis by (intro exI [of _ ?f]) simp
qed

lemma fwrite_big:
  assumes "good_dev sys out" "wf_out f" "s_state f = WR" "\<not> s_string f" "\<not> s_linebuf f" "\<not> s_unbuf f" "\<not> 0 < s_rp f - s_wp f"
  shows "\<exists>f' os'. (if 0 < s_wp f
                   then do { (good, os) \<leftarrow> drain sys f (s_wp f) os;
                             Some (good, if good then f\<lparr>s_wp := 0, s_rp := 0\<rparr> else f\<lparr>s_state := ERR\<rparr>, os) }
                   else Some (True, f, os)) = Some (True, f', os')
     \<and> wf_out f' \<and> s_fd f' = s_fd f \<and> s_state f' = WR \<and> pending f' = [] \<and> out (s_fd f) os' = out (s_fd f) os @ pending f"
proof -
  from assms have "block_ready f" by (auto simp: wf_out_def line_ready_def unbuf_ready_def)
  then obtain b where b: "s_buf f = Some b" "int (length b) = s_bufl f" "0 < s_bufl f"
    "s_rp f = s_bufl f \<or> s_rp f = 0" "0 \<le> s_wp f" "s_wp f \<le> s_rp f" by (auto simp: block_ready_def)
  have p: "pending f = take (nat (s_wp f)) b" using assms b by (simp add: pending_def held_def)
  show ?thesis
  proof (cases "0 < s_wp f")
    case True
    from drain_ok [OF assms(1) b(1,5), of os] b obtain os'
      where d: "drain sys f (s_wp f) os = Some (True, os')" "out (s_fd f) os' = out (s_fd f) os @ take (nat (s_wp f)) b" by auto
    let ?f = "f\<lparr>s_wp := 0, s_rp := 0\<rparr>"
    have "wf_out ?f" using assms b by (simp add: wf_out_def block_ready_def)
    moreover have "pending ?f = []" using assms b by (simp add: pending_def held_def)
    ultimately show ?thesis using True d p assms(3) by (intro exI [of _ ?f] exI [of _ os']) simp
  next
    case False
    with p have "pending f = []" by simp
    then show ?thesis using False assms(2,3) by (intro exI [of _ f] exI [of _ os]) simp
  qed
qed

lemma fwrite_loop_ok:
  assumes "good_dev sys out" "wf_out f" "s_fd f = fd"
  shows "\<exists>f' os'. fwrite_loop sys who p f os = Some ([], f', os') \<and> wf_out f' \<and> s_fd f' = fd
    \<and> out fd os' @ pending f' = out fd os @ pending f @ p"
  using assms(2,3)
proof (induction p arbitrary: f os rule: length_induct)
  case (1 p)
  note IH = 1(1) [rule_format] and wf = 1(2) and fd = 1(3)
  let ?big = "BIGN \<le> int (length p) \<and> s_state f = WR \<and> \<not> s_string f \<and> \<not> s_linebuf f \<and> \<not> s_unbuf f"
  consider (none) "p = []" | (buf) "p \<noteq> []" "0 < s_rp f - s_wp f" | (big) "p \<noteq> []" "\<not> 0 < s_rp f - s_wp f" ?big
    | (one) "p \<noteq> []" "\<not> 0 < s_rp f - s_wp f" "\<not> ?big" by blast
  then show ?case
  proof cases
    case none
    with wf fd show ?thesis by (simp add: fwrite_loop.simps)
  next
    case buf
    define d where "d = min (s_rp f - s_wp f) (int (length p))"
    have d: "0 \<le> d" "d \<le> s_rp f - s_wp f" "nat d \<le> length p" "0 < nat d" using buf by (auto simp: d_def)
    have "length (take (nat d) p) = nat d" using d by simp
    from fwrite_room [OF wf d(1) buf(2) d(2) this] obtain f1
      where f1: "poke_range f (s_wp f) (take (nat d) p) = Some f1" "s_fd f1 = s_fd f"
        "wf_out (f1\<lparr>s_wp := s_wp f1 + d\<rparr>)" "pending (f1\<lparr>s_wp := s_wp f1 + d\<rparr>) = pending f @ take (nat d) p" by blast
    have l: "length (drop (nat d) p) < length p" using d(4) buf(1) by simp
    have e: "s_fd (f1\<lparr>s_wp := s_wp f1 + d\<rparr>) = fd" using f1(2) fd by simp
    from IH [OF l f1(3) e, of os] obtain f' os'
      where r: "fwrite_loop sys who (drop (nat d) p) (f1\<lparr>s_wp := s_wp f1 + d\<rparr>) os = Some ([], f', os')"
        "wf_out f'" "s_fd f' = fd"
        "out fd os' @ pending f' = out fd os @ pending (f1\<lparr>s_wp := s_wp f1 + d\<rparr>) @ drop (nat d) p" by blast
    have "fwrite_loop sys who p f os = Some ([], f', os')"
      unfolding fwrite_loop.simps [of sys who p f os] if_not_P [OF buf(1)] if_P [OF buf(2)] Let_def d_def [symmetric] f1(1)
      by (simp only: r(1) bind.bind_lunit)
    then show ?thesis using r f1(4) by simp
  next
    case big
    from fwrite_big [OF assms(1) wf _ _ _ _ big(2), of os] big(3) obtain f1 os1
      where g: "(if 0 < s_wp f
                   then do { (good, os) \<leftarrow> drain sys f (s_wp f) os;
                             Some (good, if good then f\<lparr>s_wp := 0, s_rp := 0\<rparr> else f\<lparr>s_state := ERR\<rparr>, os) }
                   else Some (True, f, os)) = Some (True, f1, os1)"
        "wf_out f1" "s_fd f1 = fd" "pending f1 = []" "out fd os1 = out fd os @ pending f" using fd by auto
    define os2 where "os2 = (if s_append f1 then snd (sys_seek sys (s_fd f1) 0 2 os1) else os1)"
    have o2: "out fd os2 = out fd os1" by (simp add: os2_def good_dev_seek [OF assms(1)])
    obtain n os3 where w: "sys_write sys (s_fd f1) p os2 = (n, os3)" by fastforce
    from good_dev_write [OF assms(1), of fd p os2] w g(3) have n: "n = int (length p)" "out fd os3 = out fd os2 @ p" by simp_all
    have "fwrite_loop sys who p f os = fwrite_loop sys who (drop (nat n) p) f1 os3"
      unfolding fwrite_loop.simps [of sys who p f os] if_not_P [OF big(1)] if_not_P [OF big(2)] if_P [OF big(3)] g(1)
      using n(1) big(1) by (simp add: os2_def [symmetric] w)
    also have "\<dots> = Some ([], f1, os3)" using n(1) by (simp add: fwrite_loop.simps)
    finally show ?thesis using g n(2) o2 by simp
  next
    case one
    then obtain c cs where p: "p = c # cs" by (cases p) auto
    from IO_putc_ok [OF assms(1) wf, of who c os] one(2) fd obtain f1 os1
      where g: "IO_putc sys who c f os = Some (Some c, f1, os1)" "wf_out f1" "s_fd f1 = fd"
        "out fd os1 @ pending f1 = (out fd os @ pending f) @ [c]" by auto
    have "length cs < length p" using p by simp
    from IH [OF this g(2,3)] obtain f' os' where r: "fwrite_loop sys who cs f1 os1 = Some ([], f', os')" "wf_out f'" "s_fd f' = fd"
      "out fd os' @ pending f' = out fd os1 @ pending f1 @ cs" by blast
    have "fwrite_loop sys who p f os = Some ([], f', os')"
      unfolding fwrite_loop.simps [of sys who p f os] if_not_P [OF one(1)] if_not_P [OF one(2)] if_not_P [OF one(3)]
      using g(1) r(1) p by simp
    moreover have "out fd os' @ pending f' = out fd os @ pending f @ p" using r(4) g(4) p by (metis append.assoc append_Cons append_Nil)
    ultimately show ?thesis using r by blast
  qed
qed

section \<open>Streams and files\<close>

lemma find_closed_Some:
  "find_closed k fs = Some i \<Longrightarrow> k \<le> i \<and> i - k < length fs \<and> s_state (fs ! (i - k)) = CLOSED
     \<and> (\<forall>j < i - k. s_state (fs ! j) \<noteq> CLOSED)"
proof (induction k fs arbitrary: i rule: find_closed.induct)
  case (2 k f fs)
  show ?case
  proof (cases "s_state f = CLOSED")
    case False
    with 2 have "Suc k \<le> i" "i - Suc k < length fs" "s_state (fs ! (i - Suc k)) = CLOSED"
      "\<forall>j < i - Suc k. s_state (fs ! j) \<noteq> CLOSED" by auto
    moreover then have "i - k = Suc (i - Suc k)" by simp
    ultimately show ?thesis using False by (auto simp: nth_Cons split: nat.splits)
  qed (use 2 in auto)
qed simp

lemma find_closed_replicate: "0 < n \<Longrightarrow> s_state f = CLOSED \<Longrightarrow> find_closed k (replicate n f) = Some k"
  by (cases n) simp_all

text \<open>A device in memory: what each descriptor was given, and what is to be read.\<close>

definition ram_sys :: "((int \<Rightarrow> string) \<times> string) sys" where
  "ram_sys = \<lparr>sys_write = \<lambda>fd bs (o1, i1). (int (length bs), (o1(fd := o1 fd @ bs), i1)),
              sys_read = \<lambda>fd n (o1, i1). (Some (take n i1), (o1, drop n i1)),
              sys_seek = \<lambda>fd d w os. (0, os), sys_open = \<lambda>nm md os. (3, os), sys_create = \<lambda>nm md os. (3, os),
              sys_close = \<lambda>fd os. (0, os), sys_malloc = \<lambda>n os. (Some (replicate n NUL), os),
              sys_realloc = \<lambda>b n os. (Some (False, take n (b @ replicate n NUL)), os), sys_tty = False\<rparr>"

lemma ram_good_dev: "good_dev ram_sys (\<lambda>fd (o1, i1). o1 fd)"
  by (simp add: good_dev_def ram_sys_def split: prod.splits)

lemma ram_good_src: "good_src ram_sys (\<lambda>fd (o1, i1). i1)"
  by (auto simp add: good_src_def ram_sys_def)

lemma IO_stream_closed: "find_closed 0 IO_stream = Some 3"
proof -
  have "s_state (mk_FILE fd st) = st" for fd st by (simp add: mk_FILE_def)
  then show ?thesis by (simp add: IO_stream_def FOPEN_MAX_def find_closed_replicate)
qed

definition ram_start :: "string \<Rightarrow> ((int \<Rightarrow> string) \<times> string) stdio" where
  "ram_start inp = \<lparr>st_tab = IO_stream, st_lock = False, st_os = (\<lambda>_. [], inp)\<rparr>"

text \<open>C1. What is put on an open output stream, in any buffering mode, has reached the file when the
  stream is closed: behind what the file had and what the stream still held back, nothing lost,
  doubled or out of order. The slot is free again, the other streams are untouched, the lock is free.\<close>

theorem fputs_fclose_delivers:
  assumes "good_dev sys out" "\<And>fd fd' os. out fd (snd (sys_close sys fd' os)) = out fd os"
    and "i < length (st_tab s)" "wf_out (st_tab s ! i)" "\<not> st_lock s"
  shows "\<exists>s1 e s2. on_stream i (fputs sys i cs) s = Some (0, s1) \<and> fclose sys i s1 = Some (e, s2)
    \<and> out (s_fd (st_tab s ! i)) (st_os s2) = out (s_fd (st_tab s ! i)) (st_os s) @ pending (st_tab s ! i) @ cs
    \<and> s_state (st_tab s2 ! i) = CLOSED \<and> (\<forall>j. j \<noteq> i \<longrightarrow> st_tab s2 ! j = st_tab s ! j) \<and> \<not> st_lock s2"
proof -
  let ?f = "st_tab s ! i"
  from put_string_file [OF assms(1,4), of i cs "st_os s"] obtain f1 os1
    where 1: "put_string sys i cs ?f (st_os s) = Some (f1, os1)" "wf_out f1" "s_fd f1 = s_fd ?f"
      "out (s_fd ?f) os1 @ pending f1 = out (s_fd ?f) (st_os s) @ pending ?f @ cs" by blast
  let ?s1 = "s\<lparr>st_tab := (st_tab s)[i := f1], st_os := os1\<rparr>"
  have st: "\<not> ferror f1" "s_state f1 \<noteq> CLOSED" "\<not> s_string f1"
    using 1(2) by (auto simp: wf_out_def ferror_def)
  have put: "on_stream i (fputs sys i cs) s = Some (0, ?s1)"
    using assms(3) 1(1) st(1) by (simp add: on_stream_def fputs_def cmem)
  from fflush1_ok [OF assms(1) 1(2), of os1] obtain f2 os2
    where 2: "fflush1 sys f1 os1 = Some (0, f2, os2)" "wf_out f2" "s_fd f2 = s_fd f1"
      "out (s_fd f1) os2 = out (s_fd f1) os1 @ pending f1" by blast
  let ?s2 = "?s1\<lparr>st_tab := (st_tab s)[i := f2], st_os := os2\<rparr>"
  have fl: "fflush sys (Some i) ?s1 = Some (0, ?s2)"
    using assms(3,5) 2(1) by (simp add: fflush_def qlock_def qunlock_def on_stream_def cmem)
  have ns: "\<not> s_string f2" using 2(2) by (simp add: wf_out_def)
  obtain r os3 where c: "sys_close sys (s_fd f2) os2 = (r, os3)" by fastforce
  have o3: "out (s_fd ?f) os3 = out (s_fd ?f) os2" using assms(2) [of "s_fd ?f" "s_fd f2" os2] c by simp
  let ?f3 = "f2\<lparr>s_state := CLOSED, s_balloc := False, s_linebuf := False, s_string := False, s_append := False\<rparr>"
  let ?s3 = "?s1\<lparr>st_tab := (st_tab s)[i := ?f3], st_os := os3\<rparr>"
  have cl: "fclose sys i ?s1 = Some (if r < 0 then -1 else 0, ?s3)"
    using assms(3) st fl c ns by (simp add: fclose_def cmem)
  from put cl show ?thesis
    using assms(3,5) 1(3,4) 2(3,4) o3
    by (intro exI [of _ ?s1] exI [of _ "if r < 0 then -1 else 0"] exI [of _ ?s3]) simp
qed

lemma fputs_fclose_delivers_witness:
  "\<exists>s1 e s2. on_stream 1 (fputs ram_sys 1 ''hi'') (ram_start []) = Some (0, s1)
    \<and> fclose ram_sys 1 s1 = Some (e, s2) \<and> fst (st_os s2) 1 = ''hi''"
proof -
  have l: "1 < length (st_tab (ram_start []))" and w: "wf_out (st_tab (ram_start []) ! 1)"
    and f: "s_fd (st_tab (ram_start []) ! 1) = 1" "pending (st_tab (ram_start []) ! 1) = []"
    and n: "\<not> st_lock (ram_start [])" and o1: "st_os (ram_start []) = (\<lambda>_. [], [])"
    by (simp_all add: ram_start_def IO_stream_def mk_FILE_def wf_out_def pending_def)
  have c: "\<And>fd fd' os. (case snd (sys_close ram_sys fd' os) of (o1, i1) \<Rightarrow> o1 fd) = (case os of (o1, i1 :: string) \<Rightarrow> o1 fd)"
    by (simp add: ram_sys_def)
  show ?thesis
    using fputs_fclose_delivers [OF ram_good_dev c l w n, of "''hi''"] f o1 by (auto simp: case_prod_beta)
qed

text \<open>C22. \<open>fwrite\<close> of a block, whether it goes through the buffer or past it, adds exactly its \<open>nrec\<close>
  records of \<open>recl\<close> bytes to what the stream has written and holds, and returns \<open>nrec\<close>, or 0 when \<open>recl\<close>
  is 0. The block must be smaller than \<open>2\<^sup>31\<close> bytes: its size is kept in an \<open>int\<close>.\<close>

theorem fwrite_delivers:
  assumes "good_dev sys out" "wf_out f" "0 \<le> recl" "0 \<le> nrec" "recl * nrec < 2147483648" "recl * nrec \<le> int (length p)"
  shows "\<exists>f' os'. fwrite sys who p recl nrec f os = Some (if recl = 0 then 0 else nrec, f', os')
    \<and> wf_out f' \<and> out (s_fd f) os' @ pending f' = out (s_fd f) os @ pending f @ take (nat (recl * nrec)) p"
proof -
  have n: "int32 (recl * nrec) = recl * nrec" using assms(3-5) by (intro int32_id) (simp_all add: order_trans [of _ 0])
  let ?b = "take (nat (recl * nrec)) p"
  from fwrite_loop_ok [OF assms(1,2) refl, of who ?b os] obtain f' os'
    where 1: "fwrite_loop sys who ?b f os = Some ([], f', os')" "wf_out f'"
      "out (s_fd f) os' @ pending f' = out (s_fd f) os @ pending f @ ?b" by auto
  have "records (nat (recl * nrec)) recl = (if recl = 0 then 0 else nrec)"
    using assms(3,4) by (simp add: records_le)
  with 1 n assms(6) show ?thesis by (simp add: fwrite_def Let_def)
qed

lemma fwrite_delivers_witness:
  "\<exists>f' os'. fwrite ram_sys 1 ''abcd'' 2 2 (mk_FILE 1 OPEN) (\<lambda>_. [], []) = Some (2, f', os')
    \<and> fst os' 1 @ pending f' = ''abcd''"
proof -
  have w: "wf_out (mk_FILE 1 OPEN)" "pending (mk_FILE 1 OPEN) = []" "s_fd (mk_FILE 1 OPEN) = 1"
    by (simp_all add: wf_out_def mk_FILE_def pending_def)
  show ?thesis
    using fwrite_delivers [OF ram_good_dev w(1), of 2 2 "''abcd''" 1 "(\<lambda>_. [], [])"] w by (auto simp: case_prod_beta)
qed

text \<open>C18. \<open>fread\<close> returns the next bytes of the file, through the buffer or past it and however short
  the single reads are: as many as asked for, or all that is left, and leaves the rest to come. The
  block asked for must be smaller than \<open>2\<^sup>31\<close> bytes: its size is kept in an \<open>int\<close>.\<close>

theorem fread_delivers:
  assumes "good_src sys inp" "wf_in f (inp (s_fd f) os)" "0 \<le> recl" "0 \<le> nrec" "recl * nrec < 2147483648"
  shows "\<exists>f' os'. fread sys who recl nrec f os
      = Some (min (recl * nrec) (int (length (ahead f @ inp (s_fd f) os))) div (if recl \<noteq> 0 then recl else 1),
              take (nat (recl * nrec)) (ahead f @ inp (s_fd f) os), f', os')
    \<and> wf_in f' (inp (s_fd f) os') \<and> ahead f' @ inp (s_fd f) os' = drop (nat (recl * nrec)) (ahead f @ inp (s_fd f) os)"
proof -
  let ?d = "ahead f @ inp (s_fd f) os" and ?n = "nat (recl * nrec)"
  have n: "int32 (recl * nrec) = recl * nrec" using assms(3-5) by (intro int32_id) (simp_all add: order_trans [of _ 0])
  from fread_loop_ok [OF assms(1,2) refl, of who ?n] obtain f' os'
    where r: "fread_loop sys who ?n f os = Some (take ?n ?d, f', os')"
      "wf_in f' (inp (s_fd f) os')" "ahead f' @ inp (s_fd f) os' = drop ?n ?d" by blast
  have p: "0 \<le> recl * nrec" using assms(3,4) by simp
  have "int (length (take ?n ?d)) = min (recl * nrec) (int (length ?d))" unfolding length_take using p by linarith
  then have "records (length (take ?n ?d)) recl = min (recl * nrec) (int (length ?d)) div (if recl \<noteq> 0 then recl else 1)"
    by (simp only: records_le [OF assms(3)])
  then have "fread sys who recl nrec f os
      = Some (min (recl * nrec) (int (length ?d)) div (if recl \<noteq> 0 then recl else 1), take ?n ?d, f', os')"
    unfolding fread_def Let_def n r(1) by (simp only: bind.bind_lunit prod.case)
  with r(2,3) show ?thesis by blast
qed

lemma fread_delivers_witness:
  "\<exists>f' os'. fread ram_sys 0 2 2 (mk_FILE 0 OPEN) (\<lambda>_. [], ''abcde'') = Some (2, ''abcd'', f', os')
    \<and> ahead f' @ snd os' = ''e''"
proof -
  have w: "wf_in (mk_FILE 0 OPEN) ''abcde''" "ahead (mk_FILE 0 OPEN) = []" "s_fd (mk_FILE 0 OPEN) = 0"
    by (simp_all add: wf_in_def mk_FILE_def ahead_def)
  have "wf_in (mk_FILE 0 OPEN) (case ((\<lambda>_. []) :: int \<Rightarrow> string, ''abcde'') of (o1, i1) \<Rightarrow> i1)" using w(1) by simp
  then show ?thesis
    using fread_delivers [OF ram_good_src, of "mk_FILE 0 OPEN" "(\<lambda>_. [], ''abcde'')" 2 2 0] w by (auto simp: case_prod_beta)
qed

text \<open>\<open>fopen\<close> takes the first closed slot and changes no other; the lock is free afterwards. Under
  every mode that freopen.c documents the stream it returns is not in append mode: the test of the mode's
  first letter comes after the letter has been skipped.\<close>

theorem fopen_slot:
  assumes "fopen sys name mode s = Some (Some i, s')"
    and "mode \<in> {''r'', ''rb'', ''r+'', ''r+b'', ''rb+'', ''w'', ''wb'', ''w+'', ''w+b'', ''wb+'', ''a'', ''ab'', ''a+'', ''a+b'', ''ab+''}"
  shows "i < length (st_tab s) \<and> s_state (st_tab s ! i) = CLOSED \<and> (\<forall>j < i. s_state (st_tab s ! j) \<noteq> CLOSED)
    \<and> \<not> st_lock s' \<and> s_state (st_tab s' ! i) = OPEN \<and> \<not> s_append (st_tab s' ! i)
    \<and> (\<forall>j. j \<noteq> i \<longrightarrow> st_tab s' ! j = st_tab s ! j)"
proof -
  have nl: "\<not> st_lock s" using assms(1) by (auto simp: fopen_def qlock_def)
  define k where "k = find_closed 0 (st_tab s)"
  obtain i' where i': "k = Some i'"
    using assms(1) nl by (cases k) (auto simp: fopen_def qlock_def k_def)
  from find_closed_Some [OF i' [unfolded k_def]]
  have c: "i' < length (st_tab s)" "s_state (st_tab s ! i') = CLOSED" "\<forall>j < i'. s_state (st_tab s ! j) \<noteq> CLOSED" by simp_all
  define u where "u = qunlock (s\<lparr>st_lock := True\<rparr>)"
  have u: "st_tab u = st_tab s" "\<not> st_lock u" by (simp_all add: u_def qunlock_def)
  have op: "freopen sys name mode i' u = Some (Some i, s')"
    using assms(1) nl i' k_def by (simp add: fopen_def qlock_def u_def)
  obtain m md where m: "mode = m # md" using assms(2) by (cases mode) auto
  define md2 where "md2 = (if first_char md = CHR ''b'' then tl md else md)"
  have na: "first_char md2 \<noteq> CHR ''a''" using assms(2) m by (auto simp: md2_def first_char_def)
  obtain r os where o1: "open_mode sys name m md2 (st_os u) = (r, os)" by fastforce
  have "(let mode = (if first_char md = CHR ''b'' then tl md else md) in
      (case open_mode sys name m mode (st_os u) of
               (None, os) \<Rightarrow> Some (None, u\<lparr>st_os := os\<rparr>)
             | (Some fd, os) \<Rightarrow>
                 (let f = (st_tab s ! i')\<lparr>s_fd := fd\<rparr>
                  in if fd = -1 then Some (None, u\<lparr>st_tab := (st_tab u)[i' := f], st_os := os\<rparr>)
                     else Some (Some i', u\<lparr>st_tab := (st_tab u)[i' := opened f (first_char mode = CHR ''a'')], st_os := os\<rparr>))))
     = Some (Some i, s')"
    using op c(1,2) u(1) unfolding m by (simp add: freopen_def cmem)
  note this [unfolded md2_def [symmetric] Let_def]
  then obtain fd where "i = i'" "s' = u\<lparr>st_tab := (st_tab s)[i := opened ((st_tab s ! i')\<lparr>s_fd := fd\<rparr>) False], st_os := os\<rparr>"
    using o1 na u by (cases r) (auto simp: Let_def split: if_splits)
  then show ?thesis using c u by (simp add: opened_def)
qed

lemma fopen_slot_witness:
  "\<exists>s'. fopen ram_sys ''log'' ''a'' (ram_start []) = Some (Some 3, s') \<and> \<not> s_append (st_tab s' ! 3)"
proof -
  define tb where "tb = st_tab (ram_start [])"
  have tb: "find_closed 0 tb = Some 3" "load tb 3 = Some (mk_FILE 0 CLOSED)"
    unfolding tb_def ram_start_def
    by (simp_all add: IO_stream_closed) (simp add: IO_stream_def FOPEN_MAX_def load_def numeral_3_eq_3)
  have "\<exists>s'. fopen ram_sys ''log'' ''a'' (ram_start []) = Some (Some 3, s')"
    using tb unfolding tb_def
    by (simp add: fopen_def qlock_def qunlock_def freopen_def mk_FILE_def first_char_def open_mode_def ram_sys_def ram_start_def)
  then obtain s' where "fopen ram_sys ''log'' ''a'' (ram_start []) = Some (Some 3, s')" by blast
  with fopen_slot [OF this] show ?thesis by simp
qed

text \<open>C39. \<open>fdopen(-1, mode)\<close> returns NULL with the lock still held: any later \<open>fopen\<close>, \<open>fdopen\<close>,
  \<open>sopenr\<close>, \<open>sopenw\<close> or \<open>fflush\<close> never returns.\<close>

theorem fdopen_failure_blocks:
  assumes "\<not> st_lock s" "find_closed 0 (st_tab s) = Some i"
  shows "\<exists>s'. fdopen sys (-1) mode s = Some (None, s')
    \<and> fopen sys nm md s' = None \<and> fdopen sys fd md s' = None \<and> sopenr str s' = None \<and> sopenw s' = None
    \<and> fflush sys k s' = None"
proof -
  from find_closed_Some [OF assms(2)] have "i < length (st_tab s)" by simp
  with assms show ?thesis
    by (simp add: fdopen_def fopen_def sopenr_def sopenw_def fflush_def qlock_def cmem Let_def)
qed

lemma fdopen_failure_blocks_witness:
  "\<exists>s'. fdopen ram_sys (-1) ''r'' (ram_start []) = Some (None, s') \<and> sopenw s' = None"
proof -
  have "\<not> st_lock (ram_start [])" "find_closed 0 (st_tab (ram_start [])) = Some 3"
    by (simp_all add: ram_start_def IO_stream_closed)
  from fdopen_failure_blocks [OF this, of ram_sys "''r''"] show ?thesis by blast
qed

end
