(* ===== verification/Printf.thy ===== *)
theory Printf
  imports Streams
begin

text \<open>
  src/src/libstdio/vfprintf.c and the functions around it. What \<open>vfprintf\<close> does falls into two parts
  that do not depend on each other: \<open>vformat\<close> goes through the format, takes the arguments and makes the
  characters to put, the stores of \<open>%n\<close> and the count \<open>nprint\<close>; \<open>vfprintf\<close> puts the characters on the stream
  under the lock and makes the result. Each \<open>ocvt_\<close> function returns the characters it puts and its value.

  \<open>int\<close>, \<open>long\<close> and pointers are 32 bits wide, as on the 386. \<open>dtoa\<close> on a double is a parameter: the digits,
  the position of the decimal point and the sign.
\<close>

section \<open>Arguments and flags\<close>

datatype 'd arg = Aint u32 | Astr string | Adbl 'd

type_synonym 'd dtoa = "'d \<Rightarrow> int \<Rightarrow> int \<Rightarrow> string \<times> int \<times> bool"

datatype pflag = SPACE | ALT | SIGN | LEFT | ZPAD | SHORT | LONG | LDBL | PTR

definition lflag :: "char \<Rightarrow> pflag option" where
  "lflag c = (if c = CHR '' '' then Some SPACE
              else if c = CHR ''#'' then Some ALT
              else if c = CHR ''+'' then Some SIGN
              else if c = CHR ''-'' then Some LEFT
              else if c = CHR ''0'' then Some ZPAD
              else None)"

definition tflag :: "char \<Rightarrow> pflag option" where
  "tflag c = (if c = CHR ''L'' then Some LDBL
              else if c = CHR ''h'' then Some SHORT
              else if c = CHR ''l'' then Some LONG
              else None)"

text \<open>What a \<open>%n\<close> stores: the address, how wide, the value.\<close>

type_synonym pstore = "u32 \<times> pflag set \<times> int"

text \<open>What a conversion makes: the characters put, the stores, the value returned.\<close>

type_synonym emitted = "string \<times> pstore list \<times> int"

definition pads :: "char \<Rightarrow> int \<Rightarrow> string" where
  "pads c n = replicate (nat n) c"

section \<open>Characters and strings\<close>

definition ocvt_c :: "u32 \<Rightarrow> pflag set \<Rightarrow> int \<Rightarrow> emitted" where
  "ocvt_c w flags width =
     ((if LEFT \<notin> flags then pads (CHR '' '') (width - 1) else []) @ [char_of (unat w)]
        @ (if LEFT \<in> flags then pads (CHR '' '') (width - 1) else []),
      [], if width < 1 then 1 else width)"

definition ocvt_s :: "string \<Rightarrow> pflag set \<Rightarrow> int \<Rightarrow> int \<Rightarrow> emitted" where
  "ocvt_s str flags width precision =
     (let cs = (if 0 \<le> precision then take (nat precision) str else str);
          pad = pads (CHR '' '') (width - int (length cs));
          out = (if LEFT \<notin> flags then pad else []) @ cs @ (if LEFT \<in> flags then pad else [])
      in (out, [], int (length out)))"

definition ocvt_n :: "u32 \<Rightarrow> pflag set \<Rightarrow> int \<Rightarrow> emitted" where
  "ocvt_n p flags nprint =
     ([], [if SHORT \<in> flags then (p, {SHORT}, sint (word_of_int nprint :: 16 word))
           else if LONG \<in> flags then (p, {LONG}, nprint)
           else (p, {}, nprint)], 0)"

section \<open>Integers\<close>

text \<open>The loop that fills \<open>digits\<close>, the least significant one first. \<open>radix\<close> is 8, 10 or 16.\<close>

function fixed_digits :: "string \<Rightarrow> nat \<Rightarrow> nat \<Rightarrow> string" where
  "fixed_digits alphabet radix num =
     alphabet ! (num mod radix)
       # (if num div radix = 0 \<or> radix < 2 then [] else fixed_digits alphabet radix (num div radix))"
  by pat_completeness auto
termination
  by (relation "measure (\<lambda>(_, _, n). n)") (auto simp: div_eq_0_iff intro!: div_less_dividend)

declare fixed_digits.simps [simp del]

definition fixed_sign :: "pflag set \<Rightarrow> u32 \<Rightarrow> bool \<Rightarrow> string \<times> u32" where
  "fixed_sign flags w sgned =
     (if \<not> sgned then ([], w)
      else if sint w < 0 then (''-'', - w)
      else (if SIGN \<in> flags then ''+'' else if SPACE \<in> flags then '' '' else [], w))"

text \<open>The field: sign, prefix, zeros up to the precision, digits, and what fills it up to the width.\<close>

definition fixed_put :: "pflag set \<Rightarrow> int \<Rightarrow> int \<Rightarrow> string \<Rightarrow> string \<Rightarrow> int \<Rightarrow> string \<Rightarrow> emitted option" where
  "fixed_put flags width precision sg prefix nlzero digits =
     (let nout = int (length digits) + nlzero + int (length prefix) + int (length sg);
          npad = max 0 (width - nout);
          num = pads (CHR ''0'') nlzero @ rev digits
      in if 2147483647 < nout + npad then None
         else Some
           (if LEFT \<notin> flags
            then (if ZPAD \<in> flags \<and> precision \<le> 0
                  then sg @ prefix @ pads (CHR ''0'') npad
                  else pads (CHR '' '') npad @ sg @ prefix) @ num
            else sg @ prefix @ num @ pads (CHR '' '') npad, [], nout + npad))"

text \<open>\<open>ocvt_fixed\<close>. \<open>dp[-1]\<close> is read with no digit there for \<open>%#.0o\<close> and zero, before the array.\<close>

definition ocvt_fixed :: "u32 \<Rightarrow> pflag set \<Rightarrow> int \<Rightarrow> int \<Rightarrow> nat \<Rightarrow> bool \<Rightarrow> string \<Rightarrow> string \<Rightarrow> emitted option" where
  "ocvt_fixed w flags width precision radix sgned alphabet prefix =
     (let (sg, num) = fixed_sign flags w sgned;
          prefix = (if num = 0 then [] else prefix);
          digits = fixed_digits alphabet radix (unat num);
          digits = (if precision = 0 \<and> length digits = 1 \<and> last digits = CHR ''0'' then [] else digits);
          nlzero = max 0 (precision - int (length digits))
      in if ALT \<in> flags \<and> radix = 8 \<and> digits = [] then None
         else fixed_put flags width precision sg
                (if ALT \<in> flags
                 then (if radix = 8 \<and> (last digits = CHR ''0'' \<or> nlzero \<noteq> 0) then [] else prefix)
                 else [])
                nlzero digits)"

definition hex_upper :: string where "hex_upper = ''0123456789ABCDEF''"
definition hex_lower :: string where "hex_lower = ''0123456789abcdef''"

definition ocvt_X :: "u32 \<Rightarrow> pflag set \<Rightarrow> int \<Rightarrow> int \<Rightarrow> emitted option" where
  "ocvt_X w flags width precision = ocvt_fixed w flags width precision 16 False hex_upper ''0X''"

definition ocvt_d :: "u32 \<Rightarrow> pflag set \<Rightarrow> int \<Rightarrow> int \<Rightarrow> emitted option" where
  "ocvt_d w flags width precision = ocvt_fixed w flags width precision 10 True ''0123456789'' []"

definition ocvt_o :: "u32 \<Rightarrow> pflag set \<Rightarrow> int \<Rightarrow> int \<Rightarrow> emitted option" where
  "ocvt_o w flags width precision = ocvt_fixed w flags width precision 8 False ''01234567'' ''0''"

definition ocvt_p :: "u32 \<Rightarrow> pflag set \<Rightarrow> int \<Rightarrow> int \<Rightarrow> emitted option" where
  "ocvt_p w flags width precision = ocvt_fixed w (flags \<union> {PTR, ALT}) width precision 16 False hex_upper ''0X''"

definition ocvt_u :: "u32 \<Rightarrow> pflag set \<Rightarrow> int \<Rightarrow> int \<Rightarrow> emitted option" where
  "ocvt_u w flags width precision = ocvt_fixed w flags width precision 10 False ''0123456789'' []"

definition ocvt_x :: "u32 \<Rightarrow> pflag set \<Rightarrow> int \<Rightarrow> int \<Rightarrow> emitted option" where
  "ocvt_x w flags width precision = ocvt_fixed w flags width precision 16 False hex_lower ''0x''"

section \<open>Doubles\<close>

text \<open>The format chosen (whether \<open>'f'\<close>), the precision, and what \<open>dtoa\<close> gave.\<close>

definition flt_choose :: "'d dtoa \<Rightarrow> 'd \<Rightarrow> int \<Rightarrow> char \<Rightarrow> bool \<times> int \<times> string \<times> int \<times> bool" where
  "flt_choose dtoa d precision afmt =
     (if afmt = CHR ''f'' then (let (digits, exponent, sg) = dtoa d 3 precision in (True, precision, digits, exponent, sg))
      else if afmt = CHR ''e'' \<or> afmt = CHR ''E''
      then (let (digits, exponent, sg) = dtoa d 2 (1 + precision) in (False, precision, digits, exponent, sg))
      else
        (let (digits, exponent, sg) = (if 0 < precision then dtoa d 2 precision else dtoa d 0 precision);
             ndig = int (length digits);
             precision = (if 0 < precision then precision
                          else if ndig < exponent \<and> exponent \<le> ndig + 4 then exponent else ndig)
         in if -3 \<le> exponent \<and> exponent \<le> precision then (True, precision - exponent, digits, exponent, sg)
            else (False, precision - 1, digits, exponent, sg)))"

text \<open>Infinities and NaNs, then the trailing zeros of \<open>%g\<close>.\<close>

definition flt_special :: "bool \<times> int \<times> string \<times> int \<times> bool \<Rightarrow> bool \<times> int \<times> string \<times> int \<times> bool" where
  "flt_special r =
     (let (isf, precision, digits, exponent, sg) = r
      in if exponent = 9999 then (True, 0, digits, int (length digits), sg) else r)"

definition flt_trim :: "char \<Rightarrow> pflag set \<Rightarrow> bool \<Rightarrow> int \<Rightarrow> int \<Rightarrow> int \<Rightarrow> int" where
  "flt_trim afmt flags isf precision exponent ndig =
     (if (afmt = CHR ''g'' \<or> afmt = CHR ''G'') \<and> ALT \<notin> flags
      then (if isf then (if ndig < precision + exponent then max 0 (ndig - exponent) else precision)
            else (if ndig - 1 < precision then ndig - 1 else precision))
      else precision)"

text \<open>The digits of the exponent in \<open>ebuf\<close>, the least significant first, at least two.\<close>

fun exp_digits :: "nat \<Rightarrow> string" where
  "exp_digits i = (if i = 0 then [] else char_of (48 + i mod 10) # exp_digits (i div 10))"

declare exp_digits.simps [simp del]

definition flt_ebuf :: "int \<Rightarrow> string" where
  "flt_ebuf exponent =
     (let ds = exp_digits (nat (if exponent \<le> 0 then 1 - exponent else exponent - 1))
      in ds @ replicate (2 - length ds) (CHR ''0''))"

definition flt_digit :: "string \<Rightarrow> int \<Rightarrow> char" where
  "flt_digit digits i = (if 0 \<le> i \<and> i < int (length digits) then digits ! nat i else CHR ''0'')"

text \<open>The number: before and behind the point, and the exponent.\<close>

definition flt_body :: "char \<Rightarrow> pflag set \<Rightarrow> bool \<Rightarrow> int \<Rightarrow> string \<Rightarrow> int \<Rightarrow> string" where
  "flt_body echr flags isf precision digits exponent =
     (let point = (if 0 < precision \<or> ALT \<in> flags then ''.'' else [])
      in if isf
         then (if exponent \<le> 0 then ''0'' else map (flt_digit digits) [0..exponent - 1])
              @ point @ map (\<lambda>i. flt_digit digits (i + exponent)) [0..precision - 1]
         else first_char digits # point
              @ map (\<lambda>i. if i < int (length digits) - 1 then digits ! nat (i + 1) else CHR ''0'') [0..precision - 1]
              @ echr # (if exponent \<le> 0 then CHR ''-'' else CHR ''+'') # rev (flt_ebuf exponent))"

text \<open>The digits after the point, the point, those before it, the sign and the exponent, as counted
  before anything is put.\<close>

definition flt_nout :: "pflag set \<Rightarrow> bool \<Rightarrow> int \<Rightarrow> int \<Rightarrow> bool \<Rightarrow> int" where
  "flt_nout flags isf precision exponent sg =
     precision + (if precision \<noteq> 0 \<or> ALT \<in> flags then 1 else 0)
       + (if isf \<and> 0 < exponent then exponent else 1)
       + (if sg \<or> SPACE \<in> flags \<or> SIGN \<in> flags then 1 else 0)
       + (if isf then 0 else int (length (flt_ebuf exponent)) + 2)"

text \<open>What is put: with a negative precision the loops \<open>i != precision\<close> would not end.\<close>

definition flt_put :: "char \<Rightarrow> pflag set \<Rightarrow> int \<Rightarrow> bool \<Rightarrow> int \<Rightarrow> string \<Rightarrow> int \<Rightarrow> bool \<Rightarrow> emitted option" where
  "flt_put echr flags width isf precision digits exponent sg =
     (let nout = flt_nout flags isf precision exponent sg;
          lead = max 0 (if ZPAD \<notin> flags \<and> LEFT \<notin> flags then width - nout else 0);
          sgs = (if sg then ''-'' else if SIGN \<in> flags then ''+'' else if SPACE \<in> flags then '' '' else []);
          zeros = max 0 (if ZPAD \<in> flags then width - (nout + lead) else 0);
          trail = max 0 (width - (nout + lead + zeros))
      in if precision < 0 \<or> 2147483647 < max width nout then None
         else Some (pads (CHR '' '') lead @ sgs @ pads (CHR ''0'') zeros
                      @ flt_body echr flags isf precision digits exponent @ pads (CHR '' '') trail,
                    [], nout + lead + zeros + trail))"

definition ocvt_flt :: "'d dtoa \<Rightarrow> 'd \<Rightarrow> pflag set \<Rightarrow> int \<Rightarrow> int \<Rightarrow> char \<Rightarrow> emitted option" where
  "ocvt_flt dtoa d flags width precision afmt =
     (let echr = (if afmt = CHR ''E'' \<or> afmt = CHR ''G'' then CHR ''E'' else CHR ''e'');
          precision = (if precision < 0 then 6 else precision);
          (isf, precision, digits, exponent, sg) = flt_special (flt_choose dtoa d precision afmt)
      in flt_put echr flags width isf (flt_trim afmt flags isf precision exponent (int (length digits))) digits exponent sg)"

section \<open>The format\<close>

text \<open>
  The table \<open>ocvt\<close>, as the conversion of the character it is indexed with. The argument is taken and
  must be of the conversion's type. The index is a \<open>char\<close>, which is signed: a byte of 128 or more
  indexes before the table.
\<close>

definition take_int :: "'d arg list \<Rightarrow> (u32 \<times> 'd arg list) option" where
  "take_int args = (case args of Aint w # rest \<Rightarrow> Some (w, rest) | _ \<Rightarrow> None)"

definition is_ocvt :: "char \<Rightarrow> bool" where
  "is_ocvt c \<longleftrightarrow> c \<in> set ''EGXcdefginopsux''"

definition ocvt_int :: "char \<Rightarrow> u32 \<Rightarrow> pflag set \<Rightarrow> int \<Rightarrow> int \<Rightarrow> int \<Rightarrow> emitted option" where
  "ocvt_int c w flags width precision nprint =
     (if c = CHR ''X'' then ocvt_X w flags width precision
      else if c = CHR ''c'' then Some (ocvt_c w flags width)
      else if c = CHR ''d'' \<or> c = CHR ''i'' then ocvt_d w flags width precision
      else if c = CHR ''n'' then Some (ocvt_n w flags nprint)
      else if c = CHR ''o'' then ocvt_o w flags width precision
      else if c = CHR ''p'' then ocvt_p w flags width precision
      else if c = CHR ''u'' then ocvt_u w flags width precision
      else if c = CHR ''x'' then ocvt_x w flags width precision
      else None)"

definition ocvt_arg :: "'d dtoa \<Rightarrow> char \<Rightarrow> pflag set \<Rightarrow> int \<Rightarrow> int \<Rightarrow> int \<Rightarrow> 'd arg \<Rightarrow> emitted option" where
  "ocvt_arg dtoa c flags width precision nprint a =
     (case a of
        Aint w \<Rightarrow> ocvt_int c w flags width precision nprint
      | Astr str \<Rightarrow> (if c = CHR ''s'' then Some (ocvt_s str flags width precision) else None)
      | Adbl d \<Rightarrow> (if c \<in> set ''EGefg'' then ocvt_flt dtoa d flags width precision c else None))"

definition ocvt :: "'d dtoa \<Rightarrow> char \<Rightarrow> pflag set \<Rightarrow> int \<Rightarrow> int \<Rightarrow> int \<Rightarrow> 'd arg list \<Rightarrow> (emitted \<times> 'd arg list) option" where
  "ocvt dtoa c flags width precision nprint args =
     (case args of
        [] \<Rightarrow> None
      | a # rest \<Rightarrow> do { e \<leftarrow> ocvt_arg dtoa c flags width precision nprint a; Some (e, rest) })"

text \<open>The loops that crack a conversion.\<close>

fun crack_flags :: "(char \<Rightarrow> pflag option) \<Rightarrow> pflag set \<Rightarrow> string \<Rightarrow> pflag set \<times> string" where
  "crack_flags tab flags [] = (flags, [])"
| "crack_flags tab flags (c # s) = (case tab c of None \<Rightarrow> (flags, c # s) | Some x \<Rightarrow> crack_flags tab (insert x flags) s)"

fun crack_num :: "int \<Rightarrow> string \<Rightarrow> (int \<times> string) option" where
  "crack_num v [] = Some (v, [])"
| "crack_num v (c # s) =
     (if is_digit c
      then (let v = v * 10 + int (digit_val c) in if 2147483647 < v then None else crack_num v s)
      else Some (v, c # s))"

definition crack_width :: "pflag set \<Rightarrow> string \<Rightarrow> 'd arg list \<Rightarrow> (pflag set \<times> int \<times> string \<times> 'd arg list) option" where
  "crack_width flags s args =
     (if first_char s = CHR ''*''
      then do {
        (w, args) \<leftarrow> take_int args;
        let width = sint w;
        if width < 0
        then (if width = - 2147483648 then None else Some (insert LEFT flags, - width, tl s, args))
        else Some (flags, width, tl s, args)
      }
      else do { (width, s) \<leftarrow> crack_num 0 s; Some (flags, width, s, args) })"

definition crack_prec :: "string \<Rightarrow> 'd arg list \<Rightarrow> (int \<times> string \<times> 'd arg list) option" where
  "crack_prec s args =
     (if first_char s = CHR ''.''
      then (let s = tl s
            in if first_char s = CHR ''*''
               then do { (w, args) \<leftarrow> take_int args; Some (sint w, tl s, args) }
               else do { (precision, s) \<leftarrow> crack_num 0 s; Some (precision, s, args) })
      else Some (-1, s, args))"

definition crack :: "string \<Rightarrow> 'd arg list \<Rightarrow> (pflag set \<times> int \<times> int \<times> string \<times> 'd arg list) option" where
  "crack s args = do {
     let (flags, s) = crack_flags lflag {} s;
     (flags, width, s, args) \<leftarrow> crack_width flags s args;
     (precision, s, args) \<leftarrow> crack_prec s args;
     let (flags, s) = crack_flags tflag flags s;
     Some (flags, width, precision, s, args)
   }"

lemma crack_flags_length: "length (snd (crack_flags tab flags s)) \<le> length s"
  by (induction tab flags s rule: crack_flags.induct) (auto split: option.splits)

lemma crack_num_length: "crack_num v s = Some (v', s') \<Longrightarrow> length s' \<le> length s"
  by (induction v s rule: crack_num.induct) (auto simp: Let_def split: if_splits)

lemma crack_length: "crack s args = Some (flags, width, precision, s', args') \<Longrightarrow> length s' \<le> length s"
proof -
  assume a: "crack s args = Some (flags, width, precision, s', args')"
  obtain fl s1 where 1: "crack_flags lflag {} s = (fl, s1)" by fastforce
  then have l1: "length s1 \<le> length s" using crack_flags_length [of lflag "{}" s] by simp
  from a 1 obtain f2 w2 s2 a2 where 2: "crack_width fl s1 args = Some (f2, w2, s2, a2)"
    and r: "(do { (precision, s, args) \<leftarrow> crack_prec s2 a2;
                  let (flags, s) = crack_flags tflag f2 s; Some (flags, w2, precision, s, args) })
            = Some (flags, width, precision, s', args')"
    by (auto simp: crack_def dest!: bind_eq_SomeD)
  have l2: "length s2 \<le> length s1"
    using 2 by (auto simp: crack_width_def Let_def dest!: bind_eq_SomeD dest: crack_num_length split: if_splits)
  from r obtain p3 s3 a3 where 3: "crack_prec s2 a2 = Some (p3, s3, a3)" "snd (crack_flags tflag f2 s3) = s'"
    by (auto simp: case_prod_beta dest!: bind_eq_SomeD)
  have "length s3 \<le> length s2"
    using 3(1) by (fastforce simp: crack_prec_def Let_def dest!: bind_eq_SomeD dest: crack_num_length split: if_splits)
  then show ?thesis using l1 l2 3(2) crack_flags_length [of tflag f2 s3] by simp
qed

text \<open>\<open>nprint\<close> is an \<open>int\<close>: no result when the count of the characters no longer fits one.\<close>

definition add_nprint :: "int \<Rightarrow> int \<Rightarrow> int option" where
  "add_nprint nprint r = (if 2147483647 < nprint + r then None else Some (nprint + r))"

function vformat :: "'d dtoa \<Rightarrow> string \<Rightarrow> 'd arg list \<Rightarrow> int \<Rightarrow> emitted option" where
  "vformat dtoa [] args nprint = Some ([], [], nprint)"
| "vformat dtoa (c # s) args nprint =
     (if c \<noteq> CHR ''%''
      then do { np \<leftarrow> add_nprint nprint 1; (out, st, n) \<leftarrow> vformat dtoa s args np; Some (c # out, st, n) }
      else do {
        (flags, width, precision, s', args) \<leftarrow> crack s args;
        (case s' of
           [] \<Rightarrow> Some ([], [], nprint)
         | c # s'' \<Rightarrow>
             if 128 \<le> (of_char c :: nat) then None
             else if is_ocvt c
             then do {
               ((cs, st1, r), args) \<leftarrow> ocvt dtoa c flags width precision nprint args;
               np \<leftarrow> add_nprint nprint r;
               (out, st, n) \<leftarrow> vformat dtoa s'' args np;
               Some (cs @ out, st1 @ st, n)
             }
             else do { np \<leftarrow> add_nprint nprint 1; (out, st, n) \<leftarrow> vformat dtoa s'' args np; Some (c # out, st, n) })
      })"
  by pat_completeness auto
termination
  by (relation "measure (\<lambda>(_, s, _, _). length s)") (auto dest!: crack_length)

declare vformat.simps(2) [simp del]

section \<open>The functions around it\<close>

text \<open>The end of \<open>vfprintf\<close> on stream \<open>i\<close>. When a stream on a string has run out of room the last
  character put is overwritten with the NUL. Returned: the value, the stores of \<open>%n\<close>.\<close>

definition vfprintf_ret :: "nat \<Rightarrow> int \<Rightarrow> pstore list \<Rightarrow> 'os stdio \<Rightarrow> (int \<times> pstore list \<times> 'os stdio) option" where
  "vfprintf_ret i nprint st s = do {
     f \<leftarrow> load (st_tab s) i;
     if ferror f
     then (if s_string f \<and> s_wp f = s_rp f \<and> 0 < s_wp f
           then do {
             f \<leftarrow> poke f (s_wp f - 1) NUL;
             Some (nprint, st, s\<lparr>st_tab := (st_tab s)[i := f]\<rparr>)
           }
           else Some (-1, st, s))
     else Some (nprint, st, s)
   }"

definition vfprintf :: "'os sys \<Rightarrow> 'd dtoa \<Rightarrow> nat \<Rightarrow> string \<Rightarrow> 'd arg list \<Rightarrow> 'os stdio \<Rightarrow> (int \<times> pstore list \<times> 'os stdio) option" where
  "vfprintf sys dtoa i fmt args s = do {
     s \<leftarrow> qlock s;
     (out, st, nprint) \<leftarrow> vformat dtoa fmt args 0;
     (_, s) \<leftarrow> on_stream i (\<lambda>f os. do { (f, os) \<leftarrow> put_string sys i out f os; Some ((), f, os) }) s;
     vfprintf_ret i nprint st (qunlock s)
   }"

definition fprintf :: "'os sys \<Rightarrow> 'd dtoa \<Rightarrow> nat \<Rightarrow> string \<Rightarrow> 'd arg list \<Rightarrow> 'os stdio \<Rightarrow> (int \<times> pstore list \<times> 'os stdio) option" where
  "fprintf sys dtoa i fmt args s = vfprintf sys dtoa i fmt args s"

definition vprintf :: "'os sys \<Rightarrow> 'd dtoa \<Rightarrow> string \<Rightarrow> 'd arg list \<Rightarrow> 'os stdio \<Rightarrow> (int \<times> pstore list \<times> 'os stdio) option" where
  "vprintf sys dtoa fmt args s = vfprintf sys dtoa stdout fmt args s"

definition printf :: "'os sys \<Rightarrow> 'd dtoa \<Rightarrow> string \<Rightarrow> 'd arg list \<Rightarrow> 'os stdio \<Rightarrow> (int \<times> pstore list \<times> 'os stdio) option" where
  "printf sys dtoa fmt args s = vfprintf sys dtoa stdout fmt args s"

text \<open>Into the caller's array \<open>buf\<close>, of which the call is told that \<open>nbuf\<close> bytes may be used. Returned
  are the value, the array and the stores.\<close>

definition vsnprintf :: "'os sys \<Rightarrow> 'd dtoa \<Rightarrow> string \<Rightarrow> int \<Rightarrow> string \<Rightarrow> 'd arg list \<Rightarrow> 'os stdio
    \<Rightarrow> (int \<times> string option \<times> pstore list \<times> 'os stdio) option" where
  "vsnprintf sys dtoa buf nbuf fmt args s = do {
     (r, s) \<leftarrow> sopenw s;
     (case r of
        None \<Rightarrow> Some (0, Some buf, [], s)
      | Some i \<Rightarrow> do {
          (_, s) \<leftarrow> on_stream i (\<lambda>f os. Some (setvbuf sys f (Some buf) IOFBF nbuf os)) s;
          (n, st, s) \<leftarrow> vfprintf sys dtoa i fmt args s;
          (_, s) \<leftarrow> sclose sys i s;
          f \<leftarrow> load (st_tab s) i;
          Some (n, s_buf f, st, s)
        })
   }"

definition snprintf :: "'os sys \<Rightarrow> 'd dtoa \<Rightarrow> string \<Rightarrow> int \<Rightarrow> string \<Rightarrow> 'd arg list \<Rightarrow> 'os stdio
    \<Rightarrow> (int \<times> string option \<times> pstore list \<times> 'os stdio) option" where
  "snprintf sys dtoa buf nbuf fmt args s = vsnprintf sys dtoa buf nbuf fmt args s"

definition vsprintf :: "'os sys \<Rightarrow> 'd dtoa \<Rightarrow> string \<Rightarrow> string \<Rightarrow> 'd arg list \<Rightarrow> 'os stdio
    \<Rightarrow> (int \<times> string option \<times> pstore list \<times> 'os stdio) option" where
  "vsprintf sys dtoa buf fmt args s = vsnprintf sys dtoa buf 100000 fmt args s"

definition sprintf :: "'os sys \<Rightarrow> 'd dtoa \<Rightarrow> string \<Rightarrow> string \<Rightarrow> 'd arg list \<Rightarrow> 'os stdio
    \<Rightarrow> (int \<times> string option \<times> pstore list \<times> 'os stdio) option" where
  "sprintf sys dtoa buf fmt args s = vsnprintf sys dtoa buf 100000 fmt args s"

section \<open>The count\<close>

lemma length_pads [simp]: "length (pads c n) = nat n"
  by (simp add: pads_def)

lemma fixed_put_count:
  assumes "fixed_put flags width precision sg prefix nlzero digits = Some (cs, st, r)" "0 \<le> nlzero"
  shows "r = int (length cs)"
proof -
  define npad where "npad = max 0 (width - (int (length digits) + nlzero + int (length prefix) + int (length sg)))"
  have "0 \<le> npad" by (simp add: npad_def)
  with assms show ?thesis
    unfolding fixed_put_def Let_def npad_def [symmetric] by (cases "LEFT \<in> flags") (auto split: if_splits)
qed

lemma ocvt_fixed_count:
  assumes "ocvt_fixed w flags width precision radix sgned al pre = Some (cs, st, r)"
  shows "r = int (length cs)"
proof -
  obtain sg num where "fixed_sign flags w sgned = (sg, num)" by fastforce
  with assms obtain d p k where "fixed_put flags width precision sg p (max 0 k) d = Some (cs, st, r)"
    unfolding ocvt_fixed_def Let_def by (simp only: prod.case) (meson option.distinct(1))
  then show ?thesis by (rule fixed_put_count) simp
qed

lemma flt_body_count:
  assumes "0 \<le> precision"
  shows "int (length (flt_body echr flags isf precision digits exponent)) =
    precision + (if precision \<noteq> 0 \<or> ALT \<in> flags then 1 else 0)
      + (if isf \<and> 0 < exponent then exponent else 1)
      + (if isf then 0 else int (length (flt_ebuf exponent)) + 2)"
  using assms by (auto simp: flt_body_def Let_def)

lemma flt_put_count:
  assumes "flt_put echr flags width isf precision digits exponent sg = Some (cs, st, r)"
  shows "r = int (length cs)"
proof -
  define nout where "nout = flt_nout flags isf precision exponent sg"
  define lead where "lead = max 0 (if ZPAD \<notin> flags \<and> LEFT \<notin> flags then width - nout else 0)"
  define zeros where "zeros = max 0 (if ZPAD \<in> flags then width - (nout + lead) else 0)"
  define trail where "trail = max 0 (width - (nout + lead + zeros))"
  define sgs where "sgs = (if sg then ''-'' else if SIGN \<in> flags then ''+'' else if SPACE \<in> flags then '' '' else [])"
  have nn: "0 \<le> lead" "0 \<le> zeros" "0 \<le> trail" by (simp_all add: lead_def zeros_def trail_def)
  from assms have p: "0 \<le> precision"
    and cs: "cs = pads (CHR '' '') lead @ sgs @ pads (CHR ''0'') zeros
                      @ flt_body echr flags isf precision digits exponent @ pads (CHR '' '') trail"
    and r: "r = nout + lead + zeros + trail"
    unfolding flt_put_def Let_def nout_def [symmetric] lead_def [symmetric] zeros_def [symmetric] trail_def [symmetric]
      sgs_def [symmetric] by (simp_all split: if_splits)
  have "nout = int (length (flt_body echr flags isf precision digits exponent)) + int (length sgs)"
    unfolding flt_body_count [OF p] nout_def flt_nout_def sgs_def by simp
  then show ?thesis unfolding cs r using nn by simp
qed

lemma ocvt_flt_count: "ocvt_flt dtoa d flags width precision afmt = Some (cs, st, r) \<Longrightarrow> r = int (length cs)"
  unfolding ocvt_flt_def Let_def by (simp only: case_prod_beta flt_put_count)

lemma ocvt_c_count: "ocvt_c w flags width = (cs, st, r) \<Longrightarrow> r = int (length cs)"
  by (auto simp: ocvt_c_def)

lemma ocvt_s_count: "ocvt_s str flags width precision = (cs, st, r) \<Longrightarrow> r = int (length cs)"
  by (auto simp: ocvt_s_def Let_def)

lemma ocvt_n_count: "ocvt_n w flags n = (cs, st, r) \<Longrightarrow> r = int (length cs)"
  by (auto simp: ocvt_n_def)

lemmas ocvt_counts = ocvt_c_count ocvt_s_count ocvt_n_count ocvt_fixed_count ocvt_flt_count
lemmas ocvt_fixed_defs = ocvt_X_def ocvt_d_def ocvt_o_def ocvt_p_def ocvt_u_def ocvt_x_def

lemma ocvt_int_count: "ocvt_int c w flags width precision nprint = Some (cs, st, r) \<Longrightarrow> r = int (length cs)"
  unfolding ocvt_int_def ocvt_fixed_defs by (simp split: if_split_asm add: ocvt_counts)

lemma ocvt_arg_count: "ocvt_arg dtoa c flags width precision nprint a = Some (cs, st, r) \<Longrightarrow> r = int (length cs)"
  unfolding ocvt_arg_def by (cases a) (simp_all split: if_split_asm add: ocvt_counts ocvt_int_count)

lemma ocvt_count: "ocvt dtoa c flags width precision nprint args = Some ((cs, st, r), args') \<Longrightarrow> r = int (length cs)"
  by (cases args) (auto simp: ocvt_def dest!: bind_eq_SomeD ocvt_arg_count)

text \<open>
  What a format puts, told without a count: the list of its pieces, one for each character of the format that
  stands for itself and each conversion, with the characters put and, for \<open>%n\<close>, the address and the width of
  the store. The value a \<open>%n\<close> stores does not occur: the conversions are made as if nothing had been printed.
\<close>

type_synonym piece = "string \<times> (u32 \<times> pflag set) list"

function pieces :: "'d dtoa \<Rightarrow> string \<Rightarrow> 'd arg list \<Rightarrow> piece list option" where
  "pieces dtoa [] args = Some []"
| "pieces dtoa (c # s) args =
     (if c \<noteq> CHR ''%''
      then do { ps \<leftarrow> pieces dtoa s args; Some (([c], []) # ps) }
      else do {
        (flags, width, precision, s', args) \<leftarrow> crack s args;
        (case s' of
           [] \<Rightarrow> Some []
         | c # s'' \<Rightarrow>
             if 128 \<le> (of_char c :: nat) then None
             else if is_ocvt c
             then do {
               ((cs, st, r), args) \<leftarrow> ocvt dtoa c flags width precision 0 args;
               ps \<leftarrow> pieces dtoa s'' args;
               Some ((cs, map (\<lambda>(p, fl, v). (p, fl)) st) # ps)
             }
             else do { ps \<leftarrow> pieces dtoa s'' args; Some (([c], []) # ps) })
      })"
  by pat_completeness auto
termination
  by (relation "measure (\<lambda>(_, s, _). length s)") (auto dest!: crack_length)

declare pieces.simps(2) [simp del]

text \<open>The characters of the pieces, and the stores: each stores the number of characters before its piece,
  as a \<open>short\<close> with the flag \<open>h\<close>.\<close>

definition piece_text :: "piece list \<Rightarrow> string" where
  "piece_text ps = concat (map fst ps)"

fun piece_stores :: "nat \<Rightarrow> piece list \<Rightarrow> pstore list" where
  "piece_stores k [] = []"
| "piece_stores k ((cs, st) # ps) =
     map (\<lambda>(p, fl). (p, fl, if SHORT \<in> fl then sint (of_nat k :: 16 word) else int k)) st @ piece_stores (k + length cs) ps"

lemma add_nprint_Some: "add_nprint n r = Some m \<longleftrightarrow> m = n + r \<and> n + r \<le> 2147483647"
  by (auto simp: add_nprint_def)

text \<open>Only \<open>%n\<close> looks at the count and only \<open>%n\<close> stores.\<close>

lemma fixed_put_stores: "fixed_put flags width precision sg pre nz ds = Some (cs, st, r) \<Longrightarrow> st = []"
  unfolding fixed_put_def Let_def by (simp split: if_split_asm)

lemma ocvt_fixed_stores:
  assumes "ocvt_fixed w flags width precision radix sgned al pre = Some (cs, st, r)"
  shows "st = []"
proof -
  obtain sg num where "fixed_sign flags w sgned = (sg, num)" by fastforce
  with assms obtain d p k where "fixed_put flags width precision sg p k d = Some (cs, st, r)"
    unfolding ocvt_fixed_def Let_def by (simp only: prod.case) (meson option.distinct(1))
  then show ?thesis by (rule fixed_put_stores)
qed

lemma ocvt_flt_stores: "ocvt_flt dtoa d flags width precision afmt = Some (cs, st, r) \<Longrightarrow> st = []"
  unfolding ocvt_flt_def flt_put_def Let_def by (simp add: case_prod_beta split: if_split_asm)

definition restore :: "int \<Rightarrow> pstore list \<Rightarrow> pstore list" where
  "restore n st = map (\<lambda>(p, fl, _). (p, fl, if SHORT \<in> fl then sint (word_of_int n :: 16 word) else n)) st"

lemma restore_fixed:
  "map_option (\<lambda>(cs, st, r). (cs, restore n st, r)) (ocvt_fixed w flags width precision radix sgned al pre)
   = ocvt_fixed w flags width precision radix sgned al pre"
  by (cases "ocvt_fixed w flags width precision radix sgned al pre") (auto simp: restore_def dest: ocvt_fixed_stores)

lemma restore_flt:
  "map_option (\<lambda>(cs, st, r). (cs, restore n st, r)) (ocvt_flt dtoa d flags width precision c)
   = ocvt_flt dtoa d flags width precision c"
  by (cases "ocvt_flt dtoa d flags width precision c") (auto simp: restore_def dest: ocvt_flt_stores)

lemma restore_simple:
  "(case ocvt_c w flags width of (cs, st, r) \<Rightarrow> (cs, restore n st, r)) = ocvt_c w flags width"
  "(case ocvt_s str flags width precision of (cs, st, r) \<Rightarrow> (cs, restore n st, r)) = ocvt_s str flags width precision"
  "(case ocvt_n w flags 0 of (cs, st, r) \<Rightarrow> (cs, restore n st, r)) = ocvt_n w flags n"
  by (simp_all add: ocvt_c_def ocvt_s_def ocvt_n_def restore_def Let_def)

lemma ocvt_arg_nprint:
  "ocvt_arg dtoa c flags width precision n a
   = map_option (\<lambda>(cs, st, r). (cs, restore n st, r)) (ocvt_arg dtoa c flags width precision 0 a)"
  by (cases a) (simp_all add: ocvt_arg_def ocvt_int_def ocvt_fixed_defs restore_fixed restore_flt restore_simple)

lemma ocvt_nprint:
  "ocvt dtoa c flags width precision n args
   = map_option (\<lambda>((cs, st, r), args). ((cs, restore n st, r), args)) (ocvt dtoa c flags width precision 0 args)"
proof (cases args)
  case (Cons a rest)
  show ?thesis
    unfolding ocvt_def Cons list.case ocvt_arg_nprint [of dtoa c flags width precision n a]
    by (cases "ocvt_arg dtoa c flags width precision 0 a") auto
qed (simp add: ocvt_def)

lemma restore_stores:
  "restore (int k) st = map (\<lambda>(p, fl). (p, fl, if SHORT \<in> fl then sint (of_nat k :: 16 word) else int k))
     (map (\<lambda>(p, fl, v). (p, fl)) st)"
  by (simp add: restore_def case_prod_beta)

lemma piece_simps [simp]:
  "piece_text [] = []" "piece_text ((cs, st) # ps) = cs @ piece_text ps"
  by (simp_all add: piece_text_def)

definition told :: "nat \<Rightarrow> piece list option \<Rightarrow> emitted option" where
  "told k r = (case r of
     None \<Rightarrow> None
   | Some ps \<Rightarrow> if k + length (piece_text ps) \<le> 2147483647
       then Some (piece_text ps, piece_stores k ps, int (k + length (piece_text ps))) else None)"

lemma told_step:
  "do { np \<leftarrow> add_nprint (int k) (int (length cs)); (out, st', n) \<leftarrow> told (k + length cs) r;
        Some (cs @ out, restore (int k) st @ st', n) }
   = told k (do { ps \<leftarrow> r; Some ((cs, map (\<lambda>(p, fl, v). (p, fl)) st) # ps) })"
  by (cases r) (auto simp: told_def add_nprint_def restore_stores)

lemma vformat_told:
  assumes "k \<le> 2147483647"
  shows "vformat dtoa fmt args (int k) = told k (pieces dtoa fmt args)"
  using assms
proof (induction dtoa fmt args arbitrary: k rule: pieces.induct)
  case (1 dtoa args)
  then show ?case by (simp add: told_def)
next
  case (2 dtoa c s args)
  have step: "do { np \<leftarrow> add_nprint (int k) (int (length cs)); (out, st', n) \<leftarrow> vformat dtoa s1 args1 np;
                   Some (cs @ out, restore (int k) st @ st', n) }
      = told k (do { ps \<leftarrow> pieces dtoa s1 args1; Some ((cs, map (\<lambda>(p, fl, v). (p, fl)) st) # ps) })"
    if "\<And>k. k \<le> 2147483647 \<Longrightarrow> vformat dtoa s1 args1 (int k) = told k (pieces dtoa s1 args1)" for cs st s1 args1
    unfolding told_step [symmetric] using that [of "k + length cs"]
    by (cases "k + length cs \<le> 2147483647") (auto simp: add_nprint_def)
  show ?case
  proof (cases "c = CHR ''%''")
    case False
    with step [of s args "[c]" "[]"] 2(1) show ?thesis
      by (simp add: vformat.simps(2) pieces.simps(2) restore_def)
  next
    case True
    show ?thesis
    proof (cases "crack s args")
      case None
      with True show ?thesis by (simp add: vformat.simps(2) pieces.simps(2) told_def)
    next
      case (Some r)
      then obtain flags width precision s' args1 where cr: "crack s args = Some (flags, width, precision, s', args1)"
        by (cases r) auto
      show ?thesis
      proof (cases s')
        case Nil
        with True cr 2(4) show ?thesis by (simp add: vformat.simps(2) pieces.simps(2) told_def)
      next
        case (Cons d s'')
        consider "128 \<le> (of_char d :: nat)" | "\<not> 128 \<le> (of_char d :: nat)" "\<not> is_ocvt d"
          | "\<not> 128 \<le> (of_char d :: nat)" "is_ocvt d" by blast
        then show ?thesis
        proof cases
          case 1
          with True cr Cons show ?thesis by (simp add: vformat.simps(2) pieces.simps(2) told_def)
        next
          case c2: 2
          have "vformat dtoa s'' args1 (int k) = told k (pieces dtoa s'' args1)" if "k \<le> 2147483647" for k
            using 2(3) [OF _ cr refl refl refl refl Cons c2] True that by blast
          from step [of s'' args1 "[d]" "[]", OF this] c2 True cr Cons show ?thesis
            by (simp add: vformat.simps(2) pieces.simps(2) restore_def)
        next
          case c3: 3
          show ?thesis
          proof (cases "ocvt dtoa d flags width precision 0 args1")
            case None
            with c3 True cr Cons show ?thesis
              by (simp add: vformat.simps(2) pieces.simps(2) told_def ocvt_nprint [of dtoa d flags width precision "int k"])
          next
            case (Some e)
            then obtain cs st r args2 where oc: "ocvt dtoa d flags width precision 0 args1 = Some ((cs, st, r), args2)"
              by (cases e) auto
            have r: "r = int (length cs)" by (rule ocvt_count [OF oc])
            have "vformat dtoa s'' args2 (int k) = told k (pieces dtoa s'' args2)" if "k \<le> 2147483647" for k
              using 2(2) [OF _ cr refl refl refl refl Cons c3 oc refl refl refl] True that by blast
            from step [of s'' args2 cs st, OF this] c3 True cr Cons oc r show ?thesis
              by (simp add: vformat.simps(2) pieces.simps(2) ocvt_nprint [of dtoa d flags width precision "int k"])
          qed
        qed
      qed
    qed
  qed
qed

lemma vformat_count_aux: "vformat dtoa fmt args 0 = Some (out, st, n) \<Longrightarrow> n = int (length out)"
  using vformat_told [of 0 dtoa fmt args] by (auto simp: told_def split: option.splits if_splits)

lemma vformat_count_le: "vformat dtoa fmt args 0 = Some (out, st, n) \<Longrightarrow> length out \<le> 2147483647"
  using vformat_told [of 0 dtoa fmt args] by (auto simp: told_def split: option.splits if_splits)

section \<open>What integers print as\<close>

lemma dec_alphabet: "k < 10 \<Longrightarrow> digit_val (''0123456789'' ! k) = k \<and> is_digit (''0123456789'' ! k)"
proof -
  assume "k < 10"
  then have "k \<in> set [0..<10]" by simp
  moreover have "\<forall>k \<in> set [0..<10]. digit_val (''0123456789'' ! k) = k \<and> is_digit (''0123456789'' ! k)"
    by code_simp
  ultimately show ?thesis by blast
qed

lemma fixed_digits_dec: "dec_val 0 (rev (fixed_digits ''0123456789'' 10 n)) = n"
proof (induction n rule: less_induct)
  case (less n)
  show ?case
  proof (cases "n div 10 = 0")
    case True
    then show ?thesis using dec_alphabet [of "n mod 10"] by (simp add: fixed_digits.simps)
  next
    case False
    then have "n div 10 < n" by simp
    from less.IH [OF this] have "dec_val 0 (rev (fixed_digits ''0123456789'' 10 (n div 10))) = n div 10" .
    then show ?thesis using False dec_alphabet [of "n mod 10"]
      by (subst fixed_digits.simps) (simp add: dec_val_append div_mult_mod_eq)
  qed
qed

lemma fixed_digits_set: "\<forall>c \<in> set (fixed_digits ''0123456789'' 10 n). is_digit c"
proof (induction n rule: less_induct)
  case (less n)
  show ?case
    using less.IH [of "n div 10"] dec_alphabet [of "n mod 10"] by (subst fixed_digits.simps) auto
qed

lemma fixed_digits_neq: "fixed_digits al radix n \<noteq> []"
  by (subst fixed_digits.simps) simp

text \<open>No leading zero, except in \<open>0\<close> itself.\<close>

lemma fixed_digits_last: "n \<noteq> 0 \<Longrightarrow> digit_val (last (fixed_digits ''0123456789'' 10 n)) \<noteq> 0"
proof (induction n rule: less_induct)
  case (less n)
  show ?case
  proof (cases "n div 10 = 0")
    case True
    then show ?thesis using less.prems dec_alphabet [of "n mod 10"] by (simp add: fixed_digits.simps)
  next
    case False
    then have "n div 10 < n" by simp
    with less.IH [OF this False] False show ?thesis
      by (subst fixed_digits.simps) (simp add: fixed_digits_neq)
  qed
qed

definition dec_int :: "string \<Rightarrow> int" where
  "dec_int s = (if first_char s = CHR ''-'' then - int (dec_val 0 (tl s)) else int (dec_val 0 s))"

lemma unat_uminus_neg:
  assumes "sint (w :: u32) < 0"
  shows "int (unat (- w)) = - sint w"
proof -
  have r: "- 2147483648 \<le> sint w" using sint_ge [of w] by simp
  have "uint (- w) = uint (word_of_int (- sint w) :: u32)" by simp
  also have "\<dots> = (- sint w) mod 4294967296" by (simp only: uint_word_of_int take_bit_eq_mod) simp
  also have "\<dots> = - sint w" using assms r by (intro mod_pos_pos_trivial) simp_all
  finally show ?thesis by simp
qed

lemma unat_nonneg: "0 \<le> sint (w :: u32) \<Longrightarrow> int (unat w) = sint w"
proof -
  assume a: "0 \<le> sint w"
  have "sint w < 2147483648" using sint_lt [of w] by simp
  with a have "uint w = sint w" by (simp add: uint_sint take_bit_int_eq_self)
  then show ?thesis by simp
qed

lemma digit_not_minus: "is_digit c \<Longrightarrow> c \<noteq> CHR ''-'' \<and> c \<noteq> CHR ''+'' \<and> c \<noteq> CHR '' ''"
  by (auto simp: is_digit_def)

text \<open>What \<open>%d\<close> puts: the sign and the digits of the absolute value.\<close>

definition d_sign :: "u32 \<Rightarrow> string" where
  "d_sign w = (if sint w < 0 then ''-'' else [])"

definition d_digits :: "u32 \<Rightarrow> string" where
  "d_digits w = fixed_digits ''0123456789'' 10 (unat (if sint w < 0 then - w else w))"

lemma fixed_digits_length: "n < 10 ^ Suc k \<Longrightarrow> length (fixed_digits ''0123456789'' 10 n) \<le> Suc k"
proof (induction k arbitrary: n)
  case (Suc k)
  then have "n div 10 < 10 ^ Suc k" by (simp add: less_mult_imp_div_less)
  from Suc.IH [OF this] show ?case by (subst fixed_digits.simps) auto
qed (simp add: fixed_digits.simps)

lemma vformat_d:
  "vformat dtoa ''%d'' [Aint w] 0 = Some (d_sign w @ rev (d_digits w), [], int (length (d_sign w @ rev (d_digits w))))"
proof -
  define num where "num = (if sint w < 0 then - w else w)"
  let ?out = "d_sign w @ rev (d_digits w)"
  have fs: "fixed_sign {} w True = (d_sign w, num)" by (simp add: fixed_sign_def d_sign_def num_def)
  have "unat num < 10 ^ Suc 9" using unat_u32_lt [of num] by simp
  from fixed_digits_length [OF this] have le: "length (d_digits w) \<le> 10" by (simp add: d_digits_def num_def)
  have "fixed_put {} 0 (-1) (d_sign w) [] 0 (d_digits w) = Some (?out, [], int (length ?out))"
    using le by (auto simp: fixed_put_def pads_def d_sign_def)
  then have d: "ocvt_d w {} 0 (-1) = Some (?out, [], int (length ?out))"
    by (simp add: ocvt_d_def ocvt_fixed_def fs d_digits_def num_def [symmetric])
  have cr: "crack ''d'' [Aint w] = Some ({}, 0, -1, ''d'', [Aint w])"
    by (simp add: crack_def lflag_def tflag_def crack_width_def crack_prec_def first_char_def is_digit_def)
  have "ocvt dtoa (CHR ''d'') {} 0 (-1) 0 [Aint w] = Some ((?out, [], int (length ?out)), [])"
    by (simp add: ocvt_def ocvt_arg_def ocvt_int_def d)
  moreover have "length ?out \<le> 11" using le by (simp add: d_sign_def)
  ultimately show ?thesis by (simp add: vformat.simps(2) cr is_ocvt_def add_nprint_def)
qed

lemma d_digits_props:
  "\<forall>c \<in> set (rev (d_digits w)). is_digit c" "rev (d_digits w) \<noteq> []"
  "int (dec_val 0 (rev (d_digits w))) = \<bar>sint w\<bar>"
  "w \<noteq> 0 \<Longrightarrow> digit_val (hd (rev (d_digits w))) \<noteq> 0"
proof -
  let ?num = "if sint w < 0 then - w else w"
  show "\<forall>c \<in> set (rev (d_digits w)). is_digit c" using fixed_digits_set [of "unat ?num"] by (simp add: d_digits_def)
  show "rev (d_digits w) \<noteq> []" by (simp add: d_digits_def fixed_digits_neq)
  show "int (dec_val 0 (rev (d_digits w))) = \<bar>sint w\<bar>"
    using unat_uminus_neg [of w] unat_nonneg [of w] by (simp add: d_digits_def fixed_digits_dec)
  assume "w \<noteq> 0"
  then have "unat ?num \<noteq> 0" by (auto simp: unat_eq_0)
  then show "digit_val (hd (rev (d_digits w))) \<noteq> 0" using fixed_digits_last [of "unat ?num"] by (simp add: d_digits_def hd_rev)
qed

text \<open>\<open>%d\<close> prints the value of its argument, for every 32-bit argument the least one included: an
  optional minus sign and decimal digits without a leading zero that read back as the number.\<close>

theorem printf_d_value:
  "\<exists>out. vformat dtoa ''%d'' [Aint w] 0 = Some (out, [], int (length out)) \<and> dec_int out = sint w
     \<and> (\<forall>c \<in> set (if sint w < 0 then tl out else out). is_digit c)
     \<and> (w \<noteq> 0 \<longrightarrow> digit_val (if sint w < 0 then out ! 1 else hd out) \<noteq> 0)"
proof -
  obtain c cs where c: "rev (d_digits w) = c # cs" using d_digits_props(2) [of w] by (cases "rev (d_digits w)") auto
  with d_digits_props(1) [of w] have "c \<noteq> CHR ''-''" using digit_not_minus [of c] by simp
  then have "dec_int (d_sign w @ rev (d_digits w)) = sint w"
    using c d_digits_props(3) [of w] by (auto simp: dec_int_def first_char_def d_sign_def)
  then show ?thesis
    using vformat_d [of dtoa w] d_digits_props(1,4) [of w] c
    by (intro exI [of _ "d_sign w @ rev (d_digits w)"]) (simp add: d_sign_def)
qed

lemma printf_d_value_witness:
  "\<exists>out. vformat (\<lambda>_ _ _. ([], 0, False)) ''%d'' [Aint 0x80000000] 0 = Some (out, [], int (length out))
     \<and> dec_int out = - 2147483648"
proof -
  have "sint (0x80000000 :: u32) = - 2147483648" by simp
  then show ?thesis
    using printf_d_value [of "\<lambda>_ _ _. ([], 0, False)" "0x80000000"] by metis
qed

definition no_dtoa :: "unit dtoa" where "no_dtoa = (\<lambda>_ _ _. ([], 0, False))"

text \<open>C4. \<open>nprint\<close>, which \<open>%n\<close> stores and the functions return, counts the characters put: for every format
  and all arguments, whatever \<open>dtoa\<close> answers, what is put are the pieces of the format one after the other,
  each \<open>%n\<close> stores the number of characters of the pieces before it, with \<open>h\<close> as a \<open>short\<close>, and the count
  returned is the number of all characters. There is no result exactly when a conversion has none
  or the characters are more than an \<open>int\<close> can count.\<close>

theorem vformat_count:
  "vformat dtoa fmt args 0 =
     (case pieces dtoa fmt args of
        None \<Rightarrow> None
      | Some ps \<Rightarrow> if length (piece_text ps) \<le> 2147483647
          then Some (piece_text ps, piece_stores 0 ps, int (length (piece_text ps))) else None)"
  using vformat_told [of 0 dtoa fmt args] by (cases "pieces dtoa fmt args") (simp_all add: told_def)

lemma vformat_count_example:
  "pieces no_dtoa ''a%5d%nb%hn'' [Aint 42, Aint 64, Aint 68]
     = Some [(''a'', []), (''   42'', []), ([], [(64, {})]), (''b'', []), ([], [(68, {SHORT})])]
   \<and> vformat no_dtoa ''a%5d%nb%hn'' [Aint 42, Aint 64, Aint 68] 0
     = Some (''a   42b'', [(64, {}, 6), (68, {SHORT}, 7)], 7)"
  by code_simp

section \<open>Printing into an array\<close>

lemma wf_str_start:
  assumes "s_string f" "\<not> s_linebuf f" "\<not> s_balloc f" "s_state f = OPEN" "n \<le> length buf"
  shows "\<exists>f'. setvbuf sys f (Some buf) IOFBF (int n) os = (0, f', os) \<and> wf_str n (length buf) f' \<and> str_text f' = []
     \<and> s_state f' = RDWR"
  using assms by (simp add: setvbuf_def Let_def wf_str_def str_text_def)

text \<open>\<open>vsnprintf\<close> up to the end of \<open>vfprintf\<close>: the stream holds what fits.\<close>

lemma vsnprintf_put:
  assumes "\<not> st_lock s" "find_closed 0 (st_tab s) = Some i" "n \<le> length buf"
    and "vformat dtoa fmt args 0 = Some (out, st, cnt)"
  shows "\<exists>f' s1. vsnprintf sys dtoa buf (int n) fmt args s
      = do { (cnt, st, s2) \<leftarrow> vfprintf_ret i cnt st s1;
             (_, s3) \<leftarrow> sclose sys i s2; f \<leftarrow> load (st_tab s3) i; Some (cnt, s_buf f, st, s3) }
    \<and> i < length (st_tab s1) \<and> st_tab s1 ! i = f' \<and> \<not> st_lock s1
    \<and> wf_str n (length buf) f' \<and> str_text f' = take n out \<and> (s_state f' = ERR \<longleftrightarrow> n < length out)"
proof -
  from find_closed_Some [OF assms(2)] have i: "i < length (st_tab s)" by simp
  let ?f0 = "(st_tab s ! i)\<lparr>s_buf := None, s_unbuf := False, s_rp := 0, s_wp := 0, s_state := OPEN, s_balloc := False,
                    s_linebuf := False, s_string := True, s_append := False, s_fd := -1\<rparr>"
  let ?s0 = "s\<lparr>st_lock := False, st_tab := (st_tab s)[i := ?f0]\<rparr>"
  have o1: "sopenw s = Some (Some i, ?s0)"
    using assms(1,2) i by (simp add: sopenw_def qlock_def qunlock_def cmem)
  obtain f1 where f1: "setvbuf sys ?f0 (Some buf) IOFBF (int n) (st_os s) = (0, f1, st_os s)"
    "wf_str n (length buf) f1" "str_text f1 = []" "s_state f1 = RDWR"
    using wf_str_start [of ?f0 n buf sys "st_os s"] assms(3) by auto
  let ?s1 = "?s0\<lparr>st_tab := (st_tab s)[i := f1], st_os := st_os s\<rparr>"
  have o2: "on_stream i (\<lambda>f os. Some (setvbuf sys f (Some buf) IOFBF (int n) os)) ?s0 = Some (0, ?s1)"
    using i f1(1) by (simp add: on_stream_def cmem)
  from put_string_str [OF f1(2), of sys i out "st_os s"] obtain f2 os2
    where 2: "put_string sys i out f1 (st_os s) = Some (f2, os2)" "wf_str n (length buf) f2" "str_text f2 = take n out"
    using f1(3) by auto
  have st2: "s_state f2 = ERR \<longleftrightarrow> n < length out"
    using put_string_str_state [OF f1(2) 2(1)] f1(3,4) by simp
  define s2 where "s2 = qunlock (?s1\<lparr>st_lock := True, st_tab := (st_tab ?s1)[i := f2], st_os := os2\<rparr>)"
  have s2: "i < length (st_tab s2)" "st_tab s2 ! i = f2" "\<not> st_lock s2" using i by (simp_all add: s2_def qunlock_def)
  have v: "vfprintf sys dtoa i fmt args ?s1 = vfprintf_ret i cnt st s2"
    using assms(4) i 2(1) by (simp add: vfprintf_def qlock_def on_stream_def cmem s2_def)
  have "vsnprintf sys dtoa buf (int n) fmt args s
      = do { (cnt, st, s2) \<leftarrow> vfprintf_ret i cnt st s2;
             (_, s3) \<leftarrow> sclose sys i s2; f \<leftarrow> load (st_tab s3) i; Some (cnt, s_buf f, st, s3) }"
    by (simp only: vsnprintf_def o1 o2 v bind.bind_lunit prod.case option.case)
  then show ?thesis using 2(2,3) st2 s2 by blast
qed

lemma wf_str_wp:
  assumes "wf_str n L f"
  shows "s_wp f = int (length (str_text f))" "\<exists>b. s_buf f = Some b \<and> length b = L \<and> take (length (str_text f)) b = str_text f"
    "\<not> s_balloc f" "s_string f" "s_state f = ERR \<Longrightarrow> s_wp f = int n \<and> s_rp f = int n"
    "s_state f = ERR \<or> s_state f = RDWR \<or> s_state f = WR"
proof -
  from assms obtain b where b: "s_buf f = Some b" "n \<le> length b" "length b = L" by (auto simp: wf_str_def)
  have "0 \<le> s_wp f" "s_wp f \<le> int n" using assms by (cases "s_state f"; simp add: wf_str_def)+
  with b have l: "length (str_text f) = nat (s_wp f)" by (simp add: str_text_def)
  then show "s_wp f = int (length (str_text f))" using \<open>0 \<le> s_wp f\<close> by simp
  show "\<exists>b. s_buf f = Some b \<and> length b = L \<and> take (length (str_text f)) b = str_text f"
    using b l by (simp add: str_text_def)
  show "\<not> s_balloc f" "s_string f" "s_state f = ERR \<Longrightarrow> s_wp f = int n \<and> s_rp f = int n"
    using assms by (simp_all add: wf_str_def)
  show "s_state f = ERR \<or> s_state f = RDWR \<or> s_state f = WR"
    using assms by (cases "s_state f") (simp_all add: wf_str_def)
qed

text \<open>\<open>sclose\<close> of a stream that has not failed.\<close>

lemma sclose1_str:
  assumes "wf_str n L f" "s_state f \<noteq> ERR"
  shows "sclose1 sys f os = (if length (str_text f) < L
     then Some (map_option (\<lambda>b. b[length (str_text f) := NUL]) (s_buf f),
                (no_flags (f\<lparr>s_buf := map_option (\<lambda>b. b[length (str_text f) := NUL]) (s_buf f)\<rparr>))\<lparr>s_state := CLOSED\<rparr>, os)
     else None)"
proof -
  note w = wf_str_wp [OF assms(1)]
  from w(2) obtain b where b: "s_buf f = Some b" "length b = L" by blast
  have "sclose1 sys f os = do { f \<leftarrow> poke f (s_wp f) NUL; Some (s_buf f, (no_flags f)\<lparr>s_state := CLOSED\<rparr>, os) }"
    using w(3,6) assms(2) b by (auto simp: sclose1_def)
  then show ?thesis using b w(1) by (simp add: poke_def)
qed

text \<open>C12. When the result is shorter than \<open>nbuf\<close>, the array starts with it and the NUL, the number of
  characters is returned, and the stream's slot and the lock are free again.\<close>

theorem snprintf_fits:
  assumes "\<not> st_lock s" "find_closed 0 (st_tab s) = Some i" "n \<le> length buf"
    and "vformat dtoa fmt args 0 = Some (out, st, cnt)" "length out < n"
  shows "\<exists>buf' s'. vsnprintf sys dtoa buf (int n) fmt args s = Some (int (length out), Some buf', st, s')
    \<and> length buf' = length buf \<and> take (Suc (length out)) buf' = out @ [NUL]
    \<and> s_state (st_tab s' ! i) = CLOSED \<and> \<not> st_lock s'"
proof -
  from vsnprintf_put [OF assms(1-4), of sys] obtain f' s1 where
    v: "vsnprintf sys dtoa buf (int n) fmt args s
      = do { (cnt, st, s2) \<leftarrow> vfprintf_ret i cnt st s1;
             (_, s3) \<leftarrow> sclose sys i s2; f \<leftarrow> load (st_tab s3) i; Some (cnt, s_buf f, st, s3) }"
    and s1: "i < length (st_tab s1)" "st_tab s1 ! i = f'" "\<not> st_lock s1"
    and f': "wf_str n (length buf) f'" "str_text f' = take n out" "s_state f' = ERR \<longleftrightarrow> n < length out" by blast
  have ok: "s_state f' \<noteq> ERR" "str_text f' = out" using f'(2,3) assms(5) by simp_all
  have r: "vfprintf_ret i cnt st s1 = Some (cnt, st, s1)"
    using s1 ok by (simp add: vfprintf_ret_def ferror_def cmem)
  from wf_str_wp(2) [OF f'(1)] ok obtain b where b: "s_buf f' = Some b" "length b = length buf" "take (length out) b = out" by auto
  let ?b = "b[length out := NUL]"
  let ?f = "(no_flags (f'\<lparr>s_buf := Some ?b\<rparr>))\<lparr>s_state := CLOSED\<rparr>"
  have "sclose1 sys f' (st_os s1) = Some (Some ?b, ?f, st_os s1)"
    using sclose1_str [OF f'(1) ok(1), of sys "st_os s1"] ok(2) b assms(3,5) by simp
  then have c: "sclose sys i s1 = Some (Some ?b, s1\<lparr>st_tab := (st_tab s1)[i := ?f], st_os := st_os s1\<rparr>)"
    using s1 by (simp add: sclose_def on_stream_def cmem)
  have "take (Suc (length out)) ?b = out @ [NUL]"
    using b assms(3,5) by (simp add: take_Suc_conv_app_nth)
  moreover have "vsnprintf sys dtoa buf (int n) fmt args s
      = Some (cnt, Some ?b, st, s1\<lparr>st_tab := (st_tab s1)[i := ?f], st_os := st_os s1\<rparr>)"
    unfolding v r c bind.bind_lunit prod.case using s1 by (simp add: cmem no_flags_def)
  ultimately show ?thesis using vformat_count_aux [OF assms(4)] b(2) s1 by simp
qed

text \<open>When the result is longer than \<open>nbuf\<close>, the array is filled up to \<open>nbuf\<close> with the NUL at its
  end and the full count is returned, but the stream is left in error and its slot is never free again.\<close>

theorem snprintf_truncates:
  assumes "\<not> st_lock s" "find_closed 0 (st_tab s) = Some i" "n \<le> length buf"
    and "vformat dtoa fmt args 0 = Some (out, st, cnt)" "0 < n" "n < length out"
  shows "\<exists>buf' s'. vsnprintf sys dtoa buf (int n) fmt args s = Some (int (length out), Some buf', st, s')
    \<and> length buf' = length buf \<and> take n buf' = take (n - 1) out @ [NUL] \<and> s_state (st_tab s' ! i) = ERR"
proof -
  from vsnprintf_put [OF assms(1-4), of sys] obtain f' s1 where
    v: "vsnprintf sys dtoa buf (int n) fmt args s
      = do { (cnt, st, s2) \<leftarrow> vfprintf_ret i cnt st s1;
             (_, s3) \<leftarrow> sclose sys i s2; f \<leftarrow> load (st_tab s3) i; Some (cnt, s_buf f, st, s3) }"
    and s1: "i < length (st_tab s1)" "st_tab s1 ! i = f'" "\<not> st_lock s1"
    and f': "wf_str n (length buf) f'" "str_text f' = take n out" "s_state f' = ERR \<longleftrightarrow> n < length out" by blast
  have er: "s_state f' = ERR" using f'(3) assms(6) by simp
  have l: "length (str_text f') = n" using f'(2) assms(6) by simp
  note w = wf_str_wp [OF f'(1)]
  from w(2) l f'(2) obtain b where b: "s_buf f' = Some b" "length b = length buf" "take n b = take n out" by auto
  let ?b = "b[n - 1 := NUL]" and ?f = "f'\<lparr>s_buf := Some (b[n - 1 := NUL])\<rparr>"
  let ?s2 = "s1\<lparr>st_tab := (st_tab s1)[i := ?f]\<rparr>"
  have n1: "nat (int n - 1) = n - 1" "int n - 1 < int (length b)" using assms(3,5) b(2) by linarith+
  have pk: "poke f' (int n - 1) NUL = Some ?f" using b(1) n1 assms(5) by (simp add: poke_def)
  have r: "vfprintf_ret i cnt st s1 = Some (cnt, st, ?s2)"
    using s1 er w(4) w(5) [OF er] assms(5) pk by (simp add: vfprintf_ret_def ferror_def cmem)
  have c: "sclose sys i ?s2 = Some (None, ?s2\<lparr>st_tab := (st_tab s1)[i := no_flags ?f], st_os := st_os s1\<rparr>)"
    using s1 er by (simp add: sclose_def on_stream_def cmem sclose1_def)
  have tk: "take n ?b = take (n - 1) out @ [NUL]"
  proof -
    from assms(5) obtain m where m: "n = Suc m" by (cases n) auto
    have "take m b = take m out" using arg_cong [OF b(3), of "take m"] m by simp
    then show ?thesis using m assms(3) b(2) by (simp add: take_Suc_conv_app_nth)
  qed
  have "vsnprintf sys dtoa buf (int n) fmt args s
      = Some (cnt, Some ?b, st, ?s2\<lparr>st_tab := (st_tab s1)[i := no_flags ?f], st_os := st_os s1\<rparr>)"
    unfolding v r bind.bind_lunit prod.case c using s1 by (simp add: cmem no_flags_def)
  then show ?thesis using tk vformat_count_aux [OF assms(4)] b(2) s1 er by (simp add: no_flags_def)
qed

text \<open>When the result has exactly \<open>nbuf\<close> characters and the array no more room, \<open>sclose\<close> stores the
  NUL one byte behind the array.\<close>

theorem snprintf_exact_fit_overruns:
  assumes "\<not> st_lock s" "find_closed 0 (st_tab s) = Some i"
    and "vformat dtoa fmt args 0 = Some (out, st, cnt)" "length out = length buf"
  shows "vsnprintf sys dtoa buf (int (length buf)) fmt args s = None"
proof -
  from vsnprintf_put [OF assms(1,2) order_refl assms(3), of sys] obtain f' s1 where
    v: "vsnprintf sys dtoa buf (int (length buf)) fmt args s
      = do { (cnt, st, s2) \<leftarrow> vfprintf_ret i cnt st s1;
             (_, s3) \<leftarrow> sclose sys i s2; f \<leftarrow> load (st_tab s3) i; Some (cnt, s_buf f, st, s3) }"
    and s1: "i < length (st_tab s1)" "st_tab s1 ! i = f'" "\<not> st_lock s1"
    and f': "wf_str (length buf) (length buf) f'" "str_text f' = take (length buf) out"
      "s_state f' = ERR \<longleftrightarrow> length buf < length out" by blast
  have ok: "s_state f' \<noteq> ERR" "str_text f' = out" using f'(2,3) assms(4) by simp_all
  have r: "vfprintf_ret i cnt st s1 = Some (cnt, st, s1)"
    using s1 ok by (simp add: vfprintf_ret_def ferror_def cmem)
  have "sclose sys i s1 = None"
    using sclose1_str [OF f'(1) ok(1), of sys "st_os s1"] ok(2) assms(4) s1 by (simp add: sclose_def on_stream_def cmem)
  then show ?thesis unfolding v r bind.bind_lunit prod.case by simp
qed

lemma fmt_example: "vformat no_dtoa ''%s'' [Astr ''abc''] 0 = Some (''abc'', [], 3)"
  by code_simp

lemma ram_start_closed: "\<not> st_lock (ram_start inp)" "find_closed 0 (st_tab (ram_start inp)) = Some 3"
  by (simp_all add: ram_start_def IO_stream_closed)

lemma snprintf_fits_witness:
  "\<exists>buf' s'. vsnprintf ram_sys no_dtoa ''........'' 8 ''%s'' [Astr ''abc''] (ram_start []) = Some (3, Some buf', [], s')
    \<and> take 4 buf' = ''abc'' @ [NUL]"
  using snprintf_fits [OF ram_start_closed [of "[]"] _ fmt_example, where n = 8 and buf = "''........''" and sys = ram_sys]
  by (auto simp: eval_nat_numeral)

lemma snprintf_truncates_witness:
  "\<exists>buf' s'. vsnprintf ram_sys no_dtoa ''........'' 2 ''%s'' [Astr ''abc''] (ram_start []) = Some (3, Some buf', [], s')
    \<and> take 2 buf' = ''a'' @ [NUL] \<and> s_state (st_tab s' ! 3) = ERR"
  using snprintf_truncates [OF ram_start_closed [of "[]"] _ fmt_example, where n = 2 and buf = "''........''" and sys = ram_sys]
  by auto

lemma snprintf_exact_fit_overruns_witness:
  "vsnprintf ram_sys no_dtoa ''...'' 3 ''%s'' [Astr ''abc''] (ram_start []) = None"
  using snprintf_exact_fit_overruns [OF ram_start_closed [of "[]"] fmt_example, where buf = "''...''" and sys = ram_sys] by simp

text \<open>C15. \<open>fprintf\<close> on an open output stream returns the number of characters, all of which are then in the
  file or held back by the stream, in order; the lock is free. The format must have a result, which
  includes that its characters are not more than the \<open>int\<close> that counts them can hold.\<close>

theorem fprintf_delivers:
  assumes "good_dev sys out1" "i < length (st_tab s)" "wf_out (st_tab s ! i)" "\<not> st_lock s"
    and "vformat dtoa fmt args 0 = Some (out, st, cnt)"
  shows "length out \<le> 2147483647
    \<and> (\<exists>s'. fprintf sys dtoa i fmt args s = Some (int (length out), st, s') \<and> \<not> st_lock s' \<and> wf_out (st_tab s' ! i)
      \<and> out1 (s_fd (st_tab s ! i)) (st_os s') @ pending (st_tab s' ! i)
      = out1 (s_fd (st_tab s ! i)) (st_os s) @ pending (st_tab s ! i) @ out)"
proof -
  from put_string_file [OF assms(1,3), of i out "st_os s"] obtain f' os'
    where p: "put_string sys i out (st_tab s ! i) (st_os s) = Some (f', os')" "wf_out f'"
      "out1 (s_fd (st_tab s ! i)) os' @ pending f' = out1 (s_fd (st_tab s ! i)) (st_os s) @ pending (st_tab s ! i) @ out" by blast
  have ne: "\<not> ferror f'" using p(2) by (auto simp: wf_out_def ferror_def)
  let ?s = "qunlock (s\<lparr>st_lock := True, st_tab := (st_tab s)[i := f'], st_os := os'\<rparr>)"
  have "fprintf sys dtoa i fmt args s = vfprintf_ret i cnt st ?s"
    using assms(2,4,5) p(1) by (simp add: fprintf_def vfprintf_def qlock_def on_stream_def cmem)
  also have "\<dots> = Some (cnt, st, ?s)" using assms(2) ne by (simp add: vfprintf_ret_def qunlock_def cmem)
  finally show ?thesis using p(2,3) assms(2) vformat_count_aux [OF assms(5)] vformat_count_le [OF assms(5)] by (simp add: qunlock_def)
qed

lemma fprintf_delivers_witness:
  "\<exists>s'. fprintf ram_sys no_dtoa 1 ''%s'' [Astr ''abc''] (ram_start []) = Some (3, [], s')
    \<and> fst (st_os s') 1 @ pending (st_tab s' ! 1) = ''abc''"
proof -
  have l: "1 < length (st_tab (ram_start []))" and w: "wf_out (st_tab (ram_start []) ! 1)"
    and f: "s_fd (st_tab (ram_start []) ! 1) = 1" "pending (st_tab (ram_start []) ! 1) = []" "st_os (ram_start []) = (\<lambda>_. [], [])"
    by (simp_all add: ram_start_def IO_stream_def mk_FILE_def wf_out_def pending_def)
  show ?thesis
    using fprintf_delivers [OF ram_good_dev l w ram_start_closed(1) [of "[]"] fmt_example] f by (auto simp: case_prod_beta)
qed

end
