(* ===== verification/Scanf.thy ===== *)
theory Scanf
  imports Printf
begin

text \<open>
  src/src/libstdio/vfscanf.c. The input is reached through \<open>getc\<close> and \<open>ungetc\<close> alone, so every
  definition takes these two as its first arguments; \<open>vfscanf\<close> gives them those of a stream. \<open>EOF\<close> is
  \<open>None\<close>. The statics \<open>nread\<close> and \<open>ncvt\<close> are part of the state, \<open>fmtp\<close> is the rest of the format.
  The arguments are addresses; what is stored is returned as a list of addresses and values.
  A loop that reads until something else comes need not end, so these loops are partial functions.
\<close>

section \<open>State\<close>

record 's scan =
  sc_in :: 's
  nread :: int

datatype sval = S16 u16 | S32 u32 | Sflt bool string | Sstr string

type_synonym sstore = "u32 \<times> sval"
type_synonym 's getter = "'s \<Rightarrow> (char option \<times> 's) option"
type_synonym 's ungetter = "char \<Rightarrow> 's \<Rightarrow> (bool \<times> 's) option"

definition ngetc :: "'s getter \<Rightarrow> 's scan \<Rightarrow> (char option \<times> 's scan) option" where
  "ngetc get st = do { (c, s) \<leftarrow> get (sc_in st); Some (c, st\<lparr>sc_in := s, nread := nread st + 1\<rparr>) }"

text \<open>\<open>ungetc(EOF, f)\<close> does nothing.\<close>

definition nungetc :: "'s ungetter \<Rightarrow> char option \<Rightarrow> 's scan \<Rightarrow> 's scan option" where
  "nungetc unget c st =
     (let st = st\<lparr>nread := nread st - 1\<rparr>
      in case c of None \<Rightarrow> Some st
         | Some ch \<Rightarrow> do { (_, s) \<leftarrow> unget ch (sc_in st); Some (st\<lparr>sc_in := s\<rparr>) })"

text \<open>\<open>wgetc(c, f, out)\<close>: \<open>out\<close> is the code at the label, \<open>k\<close> what follows.\<close>

definition wgetc :: "'s getter \<Rightarrow> int \<Rightarrow> 's scan \<Rightarrow> ('s scan \<Rightarrow> 'r option) \<Rightarrow> (char option \<Rightarrow> int \<Rightarrow> 's scan \<Rightarrow> 'r option) \<Rightarrow> 'r option" where
  "wgetc get width st out k =
     (if width = 0 then out st else do { (c, st) \<leftarrow> ngetc get st; k c (width - 1) st })"

definition isspace :: "char option \<Rightarrow> bool" where
  "isspace c = (case c of None \<Rightarrow> False | Some ch \<Rightarrow> is_space ch)"

text \<open>\<open>do c=ngetc(f); while(isspace(c));\<close>\<close>

partial_function (option) skip_spaces :: "'s getter \<Rightarrow> 's scan \<Rightarrow> (char option \<times> 's scan) option" where
  "skip_spaces get st =
     Option.bind (ngetc get st) (\<lambda>(c, st). if isspace c then skip_spaces get st else Some (c, st))"

section \<open>Integers\<close>

definition hex_digit :: "char option \<Rightarrow> nat option" where
  "hex_digit c =
     (case c of None \<Rightarrow> None
      | Some ch \<Rightarrow>
          let n = (of_char ch :: nat)
          in if 48 \<le> n \<and> n \<le> 57 then Some (n - 48)
             else if 97 \<le> n \<and> n \<le> 102 then Some (n - 97 + 10)
             else if 65 \<le> n \<and> n \<le> 70 then Some (n - 65 + 10)
             else None)"

text \<open>The state at \<open>Done\<close>: \<open>num\<close>, \<open>sign\<close>, \<open>ndig\<close>.\<close>

type_synonym fixed_res = "u32 \<times> int \<times> nat"

partial_function (option) fixed_loop ::
  "'s getter \<Rightarrow> 's ungetter \<Rightarrow> nat \<Rightarrow> int \<Rightarrow> nat \<Rightarrow> u32 \<Rightarrow> char option \<Rightarrow> int \<Rightarrow> 's scan \<Rightarrow> (fixed_res \<times> 's scan) option" where
  "fixed_loop get unget base sg ndig num c width st =
     (case hex_digit c of
        None \<Rightarrow> do { st \<leftarrow> nungetc unget c st; Some ((num, sg, ndig), st) }
      | Some dig \<Rightarrow>
          if base \<le> dig then do { st \<leftarrow> nungetc unget c st; Some ((num, sg, ndig), st) }
          else if width = 0 then Some ((num * of_nat base + of_nat dig, sg, ndig + 1), st)
          else Option.bind (ngetc get st)
                 (\<lambda>(c, st). fixed_loop get unget base sg (ndig + 1) (num * of_nat base + of_nat dig) c (width - 1) st))"

text \<open>The \<open>switch(base)\<close>, and the digits.\<close>

definition fixed_prefix ::
  "'s getter \<Rightarrow> 's ungetter \<Rightarrow> nat \<Rightarrow> int \<Rightarrow> char option \<Rightarrow> int \<Rightarrow> 's scan \<Rightarrow> (fixed_res \<times> 's scan) option" where
  "fixed_prefix get unget base sg c width st =
     (let out = (\<lambda>st. Some ((0, sg, 0), st));
          hex = (\<lambda>c. c = Some (CHR ''x'') \<or> c = Some (CHR ''X''))
      in if base = 0
         then (if c = Some (CHR ''0'')
               then wgetc get width st out (\<lambda>c width st.
                      if hex c then wgetc get width st out (fixed_loop get unget 16 sg 0 0)
                      else fixed_loop get unget 8 sg 1 0 c width st)
               else fixed_loop get unget 10 sg 0 0 c width st)
         else if base = 16 \<and> c = Some (CHR ''0'')
         then wgetc get width st out (\<lambda>c width st.
                if hex c then wgetc get width st out (fixed_loop get unget 16 sg 0 0)
                else fixed_loop get unget 16 sg 1 0 c width st)
         else fixed_loop get unget base sg 0 0 c width st)"

definition fixed_scan :: "'s getter \<Rightarrow> 's ungetter \<Rightarrow> int \<Rightarrow> nat \<Rightarrow> 's scan \<Rightarrow> (fixed_res \<times> 's scan) option" where
  "fixed_scan get unget width base st = do {
     (c, st) \<leftarrow> skip_spaces get st;
     if width = 0 then do { st \<leftarrow> nungetc unget c st; Some ((0, 1, 0), st) }
     else if c = Some (CHR ''+'')
     then wgetc get (width - 1) st (\<lambda>st. Some ((0, 1, 0), st)) (fixed_prefix get unget base 1)
     else if c = Some (CHR ''-'')
     then wgetc get (width - 1) st (\<lambda>st. Some ((0, -1, 0), st)) (fixed_prefix get unget base (-1))
     else fixed_prefix get unget base 1 c (width - 1) st
   }"

datatype signedness = SIGNED | UNSIGNED | POINTER

text \<open>What a store takes: the next address.\<close>

definition put_arg :: "bool \<Rightarrow> sval \<Rightarrow> u32 list \<Rightarrow> (sstore list \<times> u32 list) option" where
  "put_arg sto v args =
     (if \<not> sto then Some ([], args)
      else case args of [] \<Rightarrow> None | a # rest \<Rightarrow> Some ([(a, v)], rest))"

text \<open>A store through a \<open>short *\<close> keeps the low half; \<open>int\<close>, \<open>long\<close> and pointers are 32 bits wide.\<close>

definition fixed_val :: "signedness \<Rightarrow> char \<Rightarrow> u32 \<Rightarrow> int \<Rightarrow> sval" where
  "fixed_val sgd type num sg =
     (let w = num * word_of_int sg
      in if sgd \<noteq> POINTER \<and> type = CHR ''h'' then S16 (ucast w) else S32 w)"

text \<open>The result of a conversion: whether it matched, the stores, the arguments left, the state.\<close>

type_synonym 's icvt_res = "bool \<times> sstore list \<times> u32 list \<times> 's scan"

definition icvt_fixed ::
  "'s getter \<Rightarrow> 's ungetter \<Rightarrow> bool \<Rightarrow> int \<Rightarrow> char \<Rightarrow> signedness \<Rightarrow> nat \<Rightarrow> u32 list \<Rightarrow> 's scan \<Rightarrow> 's icvt_res option" where
  "icvt_fixed get unget sto width type sgd base args st = do {
     ((num, sg, ndig), st) \<leftarrow> fixed_scan get unget width base st;
     if ndig = 0 then Some (False, [], args, st)
     else do {
       (sts, args) \<leftarrow> put_arg sto (fixed_val sgd type num sg) args;
       Some (True, sts, args, st)
     }
   }"

section \<open>Floating point\<close>

definition NBUF :: int where "NBUF = 509"

definition cat :: "string \<Rightarrow> char option \<Rightarrow> string" where
  "cat s c = (case c of None \<Rightarrow> s | Some ch \<Rightarrow> s @ [ch])"

definition is_dec :: "char option \<Rightarrow> bool" where
  "is_dec c = (case c of None \<Rightarrow> False | Some ch \<Rightarrow> is_digit ch)"

text \<open>At \<open>Done\<close>: \<open>buf\<close>, \<open>ndig\<close>, \<open>nexp\<close>.\<close>

type_synonym flt_res = "string \<times> nat \<times> nat"

partial_function (option) flt_exp ::
  "'s getter \<Rightarrow> 's ungetter \<Rightarrow> string \<Rightarrow> nat \<Rightarrow> nat \<Rightarrow> char option \<Rightarrow> int \<Rightarrow> 's scan \<Rightarrow> (flt_res \<times> 's scan) option" where
  "flt_exp get unget s ndig nexp c width st =
     (if is_dec c
      then (if width = 0 then Some ((cat s c, ndig, nexp + 1), st)
            else Option.bind (ngetc get st) (\<lambda>(c', st). flt_exp get unget (cat s c) ndig (nexp + 1) c' (width - 1) st))
      else do { st \<leftarrow> nungetc unget c st; Some ((s, ndig, nexp), st) })"

definition flt_tail ::
  "'s getter \<Rightarrow> 's ungetter \<Rightarrow> string \<Rightarrow> nat \<Rightarrow> char option \<Rightarrow> int \<Rightarrow> 's scan \<Rightarrow> (flt_res \<times> 's scan) option" where
  "flt_tail get unget s ndig c width st =
     (if c = Some (CHR ''e'') \<or> c = Some (CHR ''E'')
      then (let s = cat s c in
            wgetc get width st (\<lambda>st. Some ((s, ndig, 0), st)) (\<lambda>c width st.
              if c = Some (CHR ''+'') \<or> c = Some (CHR ''-'')
              then (let s = cat s c in
                    wgetc get width st (\<lambda>st. Some ((s, ndig, 0), st)) (flt_exp get unget s ndig 0))
              else flt_exp get unget s ndig 0 c width st))
      else do { st \<leftarrow> nungetc unget c st; Some ((s, ndig, 1), st) })"

partial_function (option) flt_mant ::
  "'s getter \<Rightarrow> 's ungetter \<Rightarrow> string \<Rightarrow> nat \<Rightarrow> nat \<Rightarrow> char option \<Rightarrow> int \<Rightarrow> 's scan \<Rightarrow> (flt_res \<times> 's scan) option" where
  "flt_mant get unget s ndig ndpt c width st =
     (if is_dec c \<or> (ndpt = 0 \<and> c = Some (CHR ''.''))
      then (let ndpt = (if c = Some (CHR ''.'') then ndpt + 1 else ndpt);
                ndig = (if c = Some (CHR ''.'') then ndig else ndig + 1)
            in if width = 0 then Some ((cat s c, ndig, 1), st)
               else Option.bind (ngetc get st) (\<lambda>(c', st). flt_mant get unget (cat s c) ndig ndpt c' (width - 1) st))
      else flt_tail get unget s ndig c width st)"

definition flt_scan :: "'s getter \<Rightarrow> 's ungetter \<Rightarrow> int \<Rightarrow> 's scan \<Rightarrow> (flt_res \<times> 's scan) option" where
  "flt_scan get unget width st =
     (let width = (if width < 0 \<or> NBUF < width then NBUF else width)
      in do {
        (c, st) \<leftarrow> skip_spaces get st;
        if width = 0 then do { st \<leftarrow> nungetc unget c st; Some (([], 0, 1), st) }
        else if c = Some (CHR ''+'') \<or> c = Some (CHR ''-'')
        then wgetc get (width - 1) st (\<lambda>st. Some ((cat [] c, 0, 1), st)) (flt_mant get unget (cat [] c) 0 0)
        else flt_mant get unget [] 0 0 c (width - 1) st
      })"

text \<open>What is stored is \<open>atof\<close> of the characters: as a float, or as a double.\<close>

definition icvt_f ::
  "'s getter \<Rightarrow> 's ungetter \<Rightarrow> bool \<Rightarrow> int \<Rightarrow> char \<Rightarrow> u32 list \<Rightarrow> 's scan \<Rightarrow> 's icvt_res option" where
  "icvt_f get unget sto width type args st = do {
     ((s, ndig, nexp), st) \<leftarrow> flt_scan get unget width st;
     if ndig = 0 \<or> nexp = 0 then Some (False, [], args, st)
     else do {
       (sts, args) \<leftarrow> put_arg sto (Sflt (type = CHR ''L'' \<or> type = CHR ''l'') s) args;
       Some (True, sts, args, st)
     }
   }"

section \<open>Strings\<close>

text \<open>The loop of \<open>icvt_s\<close>: \<open>None\<close> inside for the return of 0 at end of file.\<close>

partial_function (option) str_loop ::
  "'s getter \<Rightarrow> 's ungetter \<Rightarrow> string \<Rightarrow> char option \<Rightarrow> int \<Rightarrow> 's scan \<Rightarrow> (string option \<times> 's scan) option" where
  "str_loop get unget s c width st =
     (if isspace c then do { st \<leftarrow> nungetc unget c st; Some (Some s, st) }
      else if c = None then Some (if s = [] then None else Some s, st)
      else if width = 0 then Some (Some (cat s c), st)
      else Option.bind (ngetc get st) (\<lambda>(c', st). str_loop get unget (cat s c) c' (width - 1) st))"

text \<open>A conversion that fails has already stored characters, but its array is the caller's loss.\<close>

definition str_res :: "bool \<Rightarrow> u32 list \<Rightarrow> string option \<times> 's scan \<Rightarrow> 's icvt_res option" where
  "str_res sto args r =
     (case r of
        (None, st) \<Rightarrow> do { (_, args) \<leftarrow> put_arg sto (Sstr []) args; Some (False, [], args, st) }
      | (Some s, st) \<Rightarrow> do { (sts, args) \<leftarrow> put_arg sto (Sstr s) args; Some (True, sts, args, st) })"

definition icvt_s ::
  "'s getter \<Rightarrow> 's ungetter \<Rightarrow> bool \<Rightarrow> int \<Rightarrow> u32 list \<Rightarrow> 's scan \<Rightarrow> 's icvt_res option" where
  "icvt_s get unget sto width args st = do {
     (c, st) \<leftarrow> skip_spaces get st;
     r \<leftarrow> (if width = 0 then do { st \<leftarrow> nungetc unget c st; Some (Some [], st) }
          else str_loop get unget [] c (width - 1) st);
     str_res sto args r
   }"

text \<open>\<open>icvt_c\<close> for a width that is not negative; no NUL is stored.\<close>

fun chr_loop :: "'s getter \<Rightarrow> nat \<Rightarrow> 's scan \<Rightarrow> (string option \<times> 's scan) option" where
  "chr_loop get 0 st = Some (Some [], st)"
| "chr_loop get (Suc width) st = do {
     (c, st) \<leftarrow> ngetc get st;
     (case c of
        None \<Rightarrow> Some (None, st)
      | Some ch \<Rightarrow> do { (r, st) \<leftarrow> chr_loop get width st; Some (map_option ((#) ch) r, st) })
   }"

definition icvt_c :: "'s getter \<Rightarrow> bool \<Rightarrow> int \<Rightarrow> u32 list \<Rightarrow> 's scan \<Rightarrow> 's icvt_res option" where
  "icvt_c get sto width args st = do {
     r \<leftarrow> chr_loop get (nat (if width < 0 then 1 else width)) st;
     str_res sto args r
   }"

text \<open>\<open>match\<close>; characters compare as signed \<open>char\<close> against the \<open>int\<close> read.\<close>

definition schar :: "char \<Rightarrow> int" where
  "schar c = (let n = (of_char c :: int) in if 128 \<le> n then n - 256 else n)"

fun match_set :: "int \<Rightarrow> string \<Rightarrow> bool" where
  "match_set c [] = False"
| "match_set c (p # pat) =
     (case pat of
        d # e # rest \<Rightarrow>
          if d = CHR ''-''
          then (if (schar p \<le> c \<and> c \<le> schar e) \<or> (schar e \<le> c \<and> c \<le> schar p) then True else match_set c rest)
          else if c = schar p then True else match_set c pat
      | _ \<Rightarrow> if c = schar p then True else match_set c pat)"

definition match :: "int \<Rightarrow> string \<Rightarrow> bool" where
  "match c pat = (if first_char pat = CHR ''^'' then \<not> match_set c (tl pat) else match_set c pat)"

text \<open>The pattern, and the format behind its bracket unless the bracket is missing.\<close>

fun sq_close :: "string \<Rightarrow> string \<times> string option" where
  "sq_close [] = ([], None)"
| "sq_close (c # s) = (if c = CHR '']'' then ([], Some s) else (let (p, r) = sq_close s in (c # p, r)))"

definition sq_split :: "string \<Rightarrow> string \<times> string option" where
  "sq_split s =
     (let (p1, s) = (if first_char s = CHR ''^'' then (''^'', tl s) else ([], s));
          (p2, s) = (case s of [] \<Rightarrow> ([], []) | c # s \<Rightarrow> ([c], s));
          (p3, r) = sq_close s
      in (p1 @ p2 @ p3, r))"

partial_function (option) sq_loop ::
  "'s getter \<Rightarrow> 's ungetter \<Rightarrow> string \<Rightarrow> string \<Rightarrow> int \<Rightarrow> 's scan \<Rightarrow> (string option \<times> 's scan) option" where
  "sq_loop get unget pat s width st =
     (if width = 0 then Some (Some s, st)
      else Option.bind (ngetc get st) (\<lambda>(c, st).
        case c of
          None \<Rightarrow> Some (if s = [] then None else Some s, st)
        | Some ch \<Rightarrow>
            if \<not> match (of_char ch) pat then do { st \<leftarrow> nungetc unget c st; Some (Some s, st) }
            else sq_loop get unget pat (s @ [ch]) (width - 1) st))"

definition icvt_sq ::
  "'s getter \<Rightarrow> 's ungetter \<Rightarrow> string \<Rightarrow> bool \<Rightarrow> int \<Rightarrow> u32 list \<Rightarrow> 's scan \<Rightarrow> 's icvt_res option" where
  "icvt_sq get unget pat sto width args st = do {
     r \<leftarrow> sq_loop get unget pat [] width st;
     str_res sto args r
   }"

definition icvt_n :: "bool \<Rightarrow> char \<Rightarrow> u32 list \<Rightarrow> 's scan \<Rightarrow> 's icvt_res option" where
  "icvt_n sto type args st = do {
     (sts, args) \<leftarrow> put_arg sto (if type = CHR ''h'' then S16 (word_of_int (nread st)) else S32 (word_of_int (nread st))) args;
     Some (True, sts, args, st)
   }"

section \<open>The format\<close>

definition is_icvt :: "char \<Rightarrow> bool" where
  "is_icvt c \<longleftrightarrow> c \<in> set ''EGX[cdefginopsux''"

definition icvt ::
  "'s getter \<Rightarrow> 's ungetter \<Rightarrow> char \<Rightarrow> string \<Rightarrow> bool \<Rightarrow> int \<Rightarrow> char \<Rightarrow> u32 list \<Rightarrow> 's scan \<Rightarrow> 's icvt_res option" where
  "icvt get unget c pat sto width type args st =
     (if c \<in> set ''EGefg'' then icvt_f get unget sto width type args st
      else if c = CHR ''X'' \<or> c = CHR ''x'' then icvt_fixed get unget sto width type UNSIGNED 16 args st
      else if c = CHR ''['' then icvt_sq get unget pat sto width args st
      else if c = CHR ''c'' then icvt_c get sto width args st
      else if c = CHR ''d'' then icvt_fixed get unget sto width type SIGNED 10 args st
      else if c = CHR ''i'' then icvt_fixed get unget sto width type SIGNED 0 args st
      else if c = CHR ''n'' then icvt_n sto type args st
      else if c = CHR ''o'' then icvt_fixed get unget sto width type UNSIGNED 8 args st
      else if c = CHR ''p'' then icvt_fixed get unget sto width type POINTER 16 args st
      else if c = CHR ''s'' then icvt_s get unget sto width args st
      else icvt_fixed get unget sto width type UNSIGNED 10 args st)"

text \<open>\<open>*\<close>, the width (-1 for none) and the size letter.\<close>

definition crack_in :: "string \<Rightarrow> (bool \<times> int \<times> char \<times> string) option" where
  "crack_in s = do {
     let (sto, s) = (if first_char s = CHR ''*'' then (False, tl s) else (True, s));
     (width, s) \<leftarrow> (if is_digit (first_char s) then crack_num 0 s else Some (-1, s));
     let (type, s) = (if first_char s \<in> set ''hlL'' then (first_char s, tl s) else (CHR ''n'', s));
     Some (sto, width, type, s)
   }"

lemma crack_in_length: "crack_in s = Some (sto, width, type, s') \<Longrightarrow> length s' \<le> length s"
  by (fastforce simp: crack_in_def dest!: bind_eq_SomeD dest: crack_num_length split: if_splits prod.splits)

lemma sq_close_length: "snd (sq_close s) = Some r \<Longrightarrow> length r < length s"
  by (induction s arbitrary: r) (auto split: if_splits prod.splits simp: less_SucI)

lemma sq_split_length: "sq_split s = (pat, Some r) \<Longrightarrow> length r < length s"
  using sq_close_length [of "tl s" r] sq_close_length [of "tl (tl s)" r] sq_close_length [of s r]
  by (auto simp: sq_split_def Let_def first_char_def split: if_splits prod.splits list.splits)

lemmas sq_split_length' = sq_split_length [OF sym]

definition or_eof :: "int \<Rightarrow> int" where
  "or_eof ncvt = (if ncvt \<noteq> 0 then ncvt else -1)"

text \<open>
  The loop over the format. A character of the format is a signed \<open>char\<close> and what is read an \<open>int\<close>, so
  the two differ from 128 on. A conversion letter of 128 or more indexes before the table; after a
  bracket that is missing, or a \<open>%\<close> at the end that has matched a NUL, \<open>fmtp\<close> runs past the format.
\<close>

function vfscanf_loop ::
  "'s getter \<Rightarrow> 's ungetter \<Rightarrow> string \<Rightarrow> u32 list \<Rightarrow> int \<Rightarrow> 's scan \<Rightarrow> (int \<times> sstore list \<times> 's scan) option" where
  "vfscanf_loop get unget [] args ncvt st = Some (ncvt, [], st)"
| "vfscanf_loop get unget (f # fmt) args ncvt st =
     (let literal = (\<lambda>x k. do {
            (c, st) \<leftarrow> ngetc get st;
            if c = None then Some (or_eof ncvt, [], st)
            else if c \<noteq> Some x \<or> 128 \<le> (of_char x :: nat) then do { st \<leftarrow> nungetc unget c st; Some (ncvt, [], st) }
            else k st
          })
      in if f \<noteq> CHR ''%''
         then (if is_space f
               then do {
                 (c, st) \<leftarrow> skip_spaces get st;
                 if c = None then Some (or_eof ncvt, [], st)
                 else do { st \<leftarrow> nungetc unget c st; vfscanf_loop get unget fmt args ncvt st }
               }
               else literal f (vfscanf_loop get unget fmt args ncvt))
         else do {
           (sto, width, type, s) \<leftarrow> crack_in fmt;
           (case s of
              [] \<Rightarrow> literal NUL (\<lambda>st. None)
            | d # s \<Rightarrow>
                if 128 \<le> (of_char d :: nat) then None
                else if \<not> is_icvt d then literal d (vfscanf_loop get unget s args ncvt)
                else (case (if d = CHR ''['' then sq_split s else ([], Some s)) of
                        (pat, r) \<Rightarrow> do {
                          (good, sts, args, st) \<leftarrow> icvt get unget d pat sto width type args st;
                          if \<not> good then Some (or_eof ncvt, sts, st)
                          else (case r of
                                  None \<Rightarrow> None
                                | Some s \<Rightarrow> do {
                                    (n, sts2, st) \<leftarrow> vfscanf_loop get unget s args
                                       (if sto \<and> d \<noteq> CHR ''n'' then ncvt + 1 else ncvt) st;
                                    Some (n, sts @ sts2, st)
                                  })
                        }))
         })"
  by pat_completeness auto
termination
  by (relation "measure (\<lambda>(_, _, fmt, _, _, _). length fmt)")
    (auto dest!: crack_in_length sq_split_length' split: if_splits)

declare vfscanf_loop.simps(2) [simp del]

definition vfscanf :: "'os sys \<Rightarrow> nat \<Rightarrow> string \<Rightarrow> u32 list \<Rightarrow> 'os stdio \<Rightarrow> (int \<times> sstore list \<times> 'os stdio) option" where
  "vfscanf sys i fmt args s = do {
     ((n, sts), s) \<leftarrow> on_stream i (\<lambda>f os. do {
       (n, sts, st) \<leftarrow> vfscanf_loop (\<lambda>(f, os). getc sys i f os) (\<lambda>c (f, os). ungetc sys i c f os) fmt args 0 \<lparr>sc_in = (f, os), nread = 0\<rparr>;
       Some ((n, sts), sc_in st)
     }) s;
     Some (n, sts, s)
   }"

definition fscanf :: "'os sys \<Rightarrow> nat \<Rightarrow> string \<Rightarrow> u32 list \<Rightarrow> 'os stdio \<Rightarrow> (int \<times> sstore list \<times> 'os stdio) option" where
  "fscanf sys i fmt args s = vfscanf sys i fmt args s"

definition scanf :: "'os sys \<Rightarrow> string \<Rightarrow> u32 list \<Rightarrow> 'os stdio \<Rightarrow> (int \<times> sstore list \<times> 'os stdio) option" where
  "scanf sys fmt args s = vfscanf sys stdin fmt args s"

text \<open>\<open>sscanf\<close> does not look at what \<open>sopenr\<close> returns: with no free slot it reads through NULL.\<close>

definition sscanf :: "'os sys \<Rightarrow> string \<Rightarrow> string \<Rightarrow> u32 list \<Rightarrow> 'os stdio \<Rightarrow> (int \<times> sstore list \<times> 'os stdio) option" where
  "sscanf sys str fmt args s = do {
     (r, s) \<leftarrow> sopenr str s;
     (case r of
        None \<Rightarrow> None
      | Some i \<Rightarrow> do {
          (n, sts, s) \<leftarrow> vfscanf sys i fmt args s;
          (_, s) \<leftarrow> sclose sys i s;
          Some (n, sts, s)
        })
   }"

section \<open>Scanning a source of characters\<close>

definition hd_opt :: "string \<Rightarrow> char option" where
  "hd_opt s = (case s of [] \<Rightarrow> None | c # _ \<Rightarrow> Some c)"

lemma hd_opt_simps [simp]: "hd_opt [] = None" "hd_opt (c # s) = Some c"
  by (simp_all add: hd_opt_def)

context char_source begin

text \<open>\<open>st\<close> is the state after the first character of \<open>str\<close> has been got: it can be put back.\<close>

definition just_got :: "'s scan \<Rightarrow> string \<Rightarrow> int \<Rightarrow> bool" where
  "just_got st str k \<longleftrightarrow> inv (sc_in st) \<and> left (sc_in st) = tl str \<and> nread st = k \<and>
     (\<exists>st'. nungetc unget (hd_opt str) st = Some st' \<and> inv (sc_in st') \<and> left (sc_in st') = str \<and> nread st' = k - 1)"

lemma ngetc_ok:
  assumes "inv (sc_in st)"
  shows "\<exists>st'. ngetc get st = Some (hd_opt (left (sc_in st)), st') \<and> just_got st' (left (sc_in st)) (nread st + 1)"
proof (cases "left (sc_in st)")
  case Nil
  from get_nil [OF assms Nil] obtain s' where "get (sc_in st) = Some (None, s')" "inv s'" "left s' = []" by blast
  then show ?thesis using Nil by (simp add: ngetc_def just_got_def nungetc_def)
next
  case (Cons c cs)
  from get_cons [OF assms Cons] obtain s' s'' where "get (sc_in st) = Some (Some c, s')" "inv s'" "left s' = cs"
    "unget c s' = Some (True, s'')" "inv s''" "left s'' = c # cs" by blast
  then show ?thesis using Cons by (simp add: ngetc_def just_got_def nungetc_def)
qed

lemma skip_spaces_ok:
  assumes "inv (sc_in st)" "left (sc_in st) = ws @ rest" "\<forall>c \<in> set ws. is_space c" "rest = [] \<or> \<not> is_space (hd rest)"
  shows "\<exists>st'. skip_spaces get st = Some (hd_opt rest, st') \<and> just_got st' rest (nread st + int (length ws) + 1)"
  using assms
proof (induction ws arbitrary: st)
  case Nil
  from ngetc_ok [OF Nil(1)] Nil(2) obtain st'
    where st': "ngetc get st = Some (hd_opt rest, st')" "just_got st' rest (nread st + 1)" by auto
  have "\<not> isspace (hd_opt rest)" using Nil(4) by (cases rest) (simp_all add: isspace_def)
  then show ?case using st' by (subst skip_spaces.simps) simp
next
  case (Cons w ws)
  from ngetc_ok [OF Cons(2)] Cons(3) obtain st'
    where st': "ngetc get st = Some (Some w, st')" "just_got st' (w # ws @ rest) (nread st + 1)" by auto
  from st'(2) have j: "inv (sc_in st')" "left (sc_in st') = ws @ rest" "nread st' = nread st + 1" by (simp_all add: just_got_def)
  from Cons.IH [OF j(1,2)] Cons(4,5) obtain st2
    where st2: "skip_spaces get st' = Some (hd_opt rest, st2)" "just_got st2 rest (nread st' + int (length ws) + 1)" by auto
  have "isspace (Some w)" using Cons(4) by (simp add: isspace_def)
  then show ?case using st' st2 j(3) by (subst skip_spaces.simps) (simp add: algebra_simps)
qed

end

lemma hex_digit_dec: "is_digit c \<Longrightarrow> hex_digit (Some c) = Some (digit_val c)"
  by (simp add: hex_digit_def is_digit_def digit_val_def Let_def)

lemma hex_digit_not_dec: "\<not> is_digit c \<Longrightarrow> hex_digit (Some c) = Some d \<Longrightarrow> 10 \<le> d"
  by (auto simp: hex_digit_def is_digit_def Let_def split: if_splits)

context char_source begin

lemma fixed_loop_stop:
  assumes "just_got st rest k" "rest = [] \<or> \<not> is_digit (hd rest)"
  shows "\<exists>st'. fixed_loop get unget 10 sg ndig num (hd_opt rest) width st = Some ((num, sg, ndig), st')
    \<and> inv (sc_in st') \<and> left (sc_in st') = rest \<and> nread st' = k - 1"
proof -
  from assms(1) obtain st' where st': "nungetc unget (hd_opt rest) st = Some st'" "inv (sc_in st')" "left (sc_in st') = rest"
    "nread st' = k - 1" by (auto simp: just_got_def)
  have "hex_digit (hd_opt rest) = None \<or> (\<exists>d. hex_digit (hd_opt rest) = Some d \<and> 10 \<le> d)"
    using assms(2) hex_digit_not_dec [of "hd rest"] by (cases rest) (auto simp: hex_digit_def [of None])
  then show ?thesis using st' by (subst fixed_loop.simps) auto
qed

lemma fixed_loop_dec:
  assumes "just_got st (ds @ rest) k" "\<forall>c \<in> set ds. is_digit c" "rest = [] \<or> \<not> is_digit (hd rest)" "width < 0"
  shows "\<exists>st'. fixed_loop get unget 10 sg ndig (of_nat v) (hd_opt (ds @ rest)) width st
        = Some ((of_nat (dec_val v ds), sg, ndig + length ds), st')
    \<and> inv (sc_in st') \<and> left (sc_in st') = rest \<and> nread st' = k - 1 + int (length ds)"
  using assms
proof (induction ds arbitrary: st k v ndig width)
  case Nil
  then show ?case using fixed_loop_stop [of st rest k sg ndig "of_nat v" width] by simp
next
  case (Cons d ds)
  from Cons.prems(1) have j: "inv (sc_in st)" "left (sc_in st) = ds @ rest" "nread st = k" by (simp_all add: just_got_def)
  from ngetc_ok [OF j(1)] j obtain st1
    where 1: "ngetc get st = Some (hd_opt (ds @ rest), st1)" "just_got st1 (ds @ rest) (k + 1)" by auto
  have dg: "is_digit d" "hex_digit (Some d) = Some (digit_val d)" "digit_val d \<le> 9"
    using Cons.prems(2) hex_digit_dec [of d] digit_val_le [of d] by simp_all
  from Cons.IH [OF 1(2), of "width - 1" "ndig + 1" "v * 10 + digit_val d"] Cons.prems obtain st2
    where 2: "fixed_loop get unget 10 sg (ndig + 1) (of_nat (v * 10 + digit_val d)) (hd_opt (ds @ rest)) (width - 1) st1
        = Some ((of_nat (dec_val (v * 10 + digit_val d) ds), sg, ndig + 1 + length ds), st2)"
      "inv (sc_in st2)" "left (sc_in st2) = rest" "nread st2 = k + 1 - 1 + int (length ds)" by auto
  have "fixed_loop get unget 10 sg ndig (of_nat v) (Some d) width st
      = fixed_loop get unget 10 sg (ndig + 1) (of_nat (v * 10 + digit_val d)) (hd_opt (ds @ rest)) (width - 1) st1"
    using dg Cons.prems(4) 1(1) by (subst fixed_loop.simps) simp
  then show ?case using 2 by simp
qed

text \<open>The decimal conversion: white space, a sign, digits.\<close>

lemma fixed_scan_dec:
  assumes "inv (sc_in st)" "left (sc_in st) = ws @ sg @ ds @ rest" "\<forall>c \<in> set ws. is_space c"
    "sg = [] \<or> sg = ''-'' \<or> sg = ''+''" "\<forall>c \<in> set ds. is_digit c" "ds \<noteq> []" "rest = [] \<or> \<not> is_digit (hd rest)"
  shows "\<exists>st'. fixed_scan get unget (-1) 10 st
      = Some ((of_nat (dec_val 0 ds), if sg = ''-'' then -1 else 1, length ds), st')
    \<and> inv (sc_in st') \<and> left (sc_in st') = rest \<and> nread st' = nread st + int (length (ws @ sg @ ds))"
proof -
  obtain d ds' where ds: "ds = d # ds'" using assms(6) by (cases ds) auto
  have dd: "is_digit d" using assms(5) ds by simp
  then have dn: "d \<noteq> CHR ''-''" "d \<noteq> CHR ''+''" "\<not> is_space d"
    by (auto simp: is_digit_def is_space_def)
  have "sg @ ds @ rest = [] \<or> \<not> is_space (hd (sg @ ds @ rest))" using assms(4) ds dn by (auto simp: is_space_def)
  from skip_spaces_ok [OF assms(1,2,3) this] obtain st1
    where 1: "skip_spaces get st = Some (hd_opt (sg @ ds @ rest), st1)"
      "just_got st1 (sg @ ds @ rest) (nread st + int (length ws) + 1)" by blast
  show ?thesis
  proof (cases "sg = []")
    case True
    from fixed_loop_dec [OF _ assms(5,7), of st1 "nread st + int (length ws) + 1" "-2" 1 0 0] 1(2) True obtain st2
      where "fixed_loop get unget 10 1 0 0 (Some d) (-2) st1 = Some ((of_nat (dec_val 0 ds), 1, length ds), st2)"
        "inv (sc_in st2)" "left (sc_in st2) = rest" "nread st2 = nread st + int (length ws) + int (length ds)"
      using ds by auto
    then show ?thesis using 1(1) True ds dn by (simp add: fixed_scan_def fixed_prefix_def)
  next
    case False
    let ?s = "if sg = ''-'' then -1 else 1 :: int"
    from 1(2) False assms(4) have j: "inv (sc_in st1)" "left (sc_in st1) = ds @ rest" "nread st1 = nread st + int (length ws) + 1"
      by (auto simp: just_got_def)
    from ngetc_ok [OF j(1)] j ds obtain st2
      where 2: "ngetc get st1 = Some (Some d, st2)" "just_got st2 (ds @ rest) (nread st + int (length ws) + 1 + 1)" by auto
    from fixed_loop_dec [OF 2(2) assms(5,7), of "-3" ?s 0 0] obtain st3
      where "fixed_loop get unget 10 ?s 0 0 (Some d) (-3) st2 = Some ((of_nat (dec_val 0 ds), ?s, length ds), st3)"
        "inv (sc_in st3)" "left (sc_in st3) = rest" "nread st3 = nread st + int (length ws) + 1 + int (length ds)"
      using ds by auto
    then show ?thesis using 1(1) 2(1) False assms(4) ds by (auto simp: fixed_scan_def fixed_prefix_def wgetc_def)
  qed
qed

end

lemma crack_in_d: "crack_in ''d'' = Some (True, -1, CHR ''n'', ''d'')"
  by (simp add: crack_in_def first_char_def is_digit_def)

text \<open>One conversion that matches.\<close>

lemma vfscanf_loop_conv:
  assumes "crack_in fmt = Some (sto, width, type, d # s)" "is_icvt d" "d \<noteq> CHR ''[''" "(of_char d :: nat) < 128"
    and "icvt get unget d [] sto width type args st = Some (True, sts, args', st')"
  shows "vfscanf_loop get unget (CHR ''%'' # fmt) args ncvt st
    = do { (n, sts2, st) \<leftarrow> vfscanf_loop get unget s args' (if sto \<and> d \<noteq> CHR ''n'' then ncvt + 1 else ncvt) st';
           Some (n, sts @ sts2, st) }"
  apply (subst vfscanf_loop.simps(2))
  apply (simp only: Let_def assms(1) bind.bind_lunit prod.case not_not simp_thms if_False if_True list.case)
  apply (simp only: if_not_P [OF assms(3)] if_not_P [OF assms(4) [unfolded not_le [symmetric]]] assms(2,5) bind.bind_lunit
      prod.case option.case not_True_eq_False if_False)
  done

lemma vfscanf_loop_d:
  assumes "icvt get unget (CHR ''d'') [] True (-1) (CHR ''n'') (a # args) st = Some (True, [(a, v)], args, st')"
  shows "vfscanf_loop get unget ''%d'' (a # args) ncvt st = Some (ncvt + 1, [(a, v)], st')"
  using vfscanf_loop_conv [OF crack_in_d _ _ _ assms] by (simp add: is_icvt_def)

lemma icvt_d: "icvt get unget (CHR ''d'') pat sto width type args st = icvt_fixed get unget sto width type SIGNED 10 args st"
  by (simp add: icvt_def)

lemma put_arg_True: "put_arg True v (a # args) = Some ([(a, v)], args)"
  by (simp add: put_arg_def)

lemma n_not_h: "CHR ''n'' \<noteq> CHR ''h''"
  by simp

lemma fixed_val_d: "(type :: char) \<noteq> CHR ''h'' \<Longrightarrow> fixed_val sgd type num sg = S32 (num * word_of_int sg)"
  by (simp add: fixed_val_def)

context char_source begin

lemma vfscanf_d:
  assumes "inv (sc_in st)" "left (sc_in st) = ws @ sg @ ds @ rest" "\<forall>c \<in> set ws. is_space c"
    "sg = [] \<or> sg = ''-'' \<or> sg = ''+''" "\<forall>c \<in> set ds. is_digit c" "ds \<noteq> []" "rest = [] \<or> \<not> is_digit (hd rest)"
  shows "\<exists>st'. vfscanf_loop get unget ''%d'' (a # args) ncvt st
      = Some (ncvt + 1, [(a, S32 (of_nat (dec_val 0 ds) * (if sg = ''-'' then -1 else 1)))], st')
    \<and> inv (sc_in st') \<and> left (sc_in st') = rest"
proof -
  from fixed_scan_dec [OF assms] obtain st' where 1: "fixed_scan get unget (-1) 10 st
      = Some ((of_nat (dec_val 0 ds), if sg = ''-'' then -1 else 1, length ds), st')"
    "inv (sc_in st')" "left (sc_in st') = rest" by blast
  let ?v = "S32 (of_nat (dec_val 0 ds) * word_of_int (if sg = ''-'' then -1 else 1))"
  have "icvt get unget (CHR ''d'') [] True (-1) (CHR ''n'') (a # args) st = Some (True, [(a, ?v)], args, st')"
    unfolding icvt_d icvt_fixed_def 1(1) bind.bind_lunit prod.case fixed_val_d [OF n_not_h] put_arg_True
    using assms(6) by (simp only: length_0_conv if_False)
  from vfscanf_loop_d [OF this] have v: "vfscanf_loop get unget ''%d'' (a # args) ncvt st = Some (ncvt + 1, [(a, ?v)], st')" .
  have e: "word_of_int (if sg = ''-'' then -1 else 1) = (if sg = ''-'' then -1 else 1 :: u32)" by simp
  show ?thesis using v [unfolded e] 1(2,3) by blast
qed

text \<open>What \<open>%d\<close> has printed is read back.\<close>

lemma scan_printed_d:
  assumes "inv (sc_in st)" "left (sc_in st) = d_sign w @ rev (d_digits w) @ rest" "rest = [] \<or> \<not> is_digit (hd rest)"
  shows "\<exists>st'. vfscanf_loop get unget ''%d'' (a # args) ncvt st = Some (ncvt + 1, [(a, S32 w)], st')
    \<and> inv (sc_in st') \<and> left (sc_in st') = rest"
proof -
  let ?ds = "rev (d_digits w)"
  have "(of_nat (dec_val 0 ?ds) :: u32) = word_of_int (int (dec_val 0 ?ds))" by simp
  also have "\<dots> = word_of_int \<bar>sint w\<bar>" unfolding d_digits_props(3) ..
  finally have n: "(of_nat (dec_val 0 ?ds) :: u32) = word_of_int \<bar>sint w\<bar>" .
  have v: "of_nat (dec_val 0 ?ds) * (if d_sign w = ''-'' then -1 else 1) = w"
    unfolding n by (simp add: d_sign_def abs_if)
  have "d_sign w = [] \<or> d_sign w = ''-'' \<or> d_sign w = ''+''" by (simp add: d_sign_def)
  from vfscanf_d [OF assms(1), of "[]" "d_sign w" ?ds rest a args ncvt] this assms(2,3) d_digits_props(1,2) [of w]
  show ?thesis unfolding v by simp
qed

end

section \<open>Reading back\<close>

text \<open>A slot that \<open>sopenr\<close> has filled.\<close>

lemma sopenr_ok:
  assumes "\<not> st_lock s" "find_closed 0 (st_tab s) = Some i"
  shows "\<exists>f. sopenr str s = Some (Some i, s\<lparr>st_tab := (st_tab s)[i := f], st_lock := False\<rparr>) \<and> wf_strin f \<and> ahead f = str"
proof -
  from find_closed_Some [OF assms(2)] have i: "i < length (st_tab s)" by simp
  let ?f = "(st_tab s ! i)\<lparr>s_buf := Some (str @ [NUL]), s_unbuf := False, s_rp := 0, s_bufl := int (length str),
                    s_wp := int (length str), s_state := RD, s_balloc := False, s_linebuf := False,
                    s_string := True, s_append := False, s_fd := -1\<rparr>"
  have "sopenr str s = Some (Some i, s\<lparr>st_tab := (st_tab s)[i := ?f], st_lock := False\<rparr>)"
    using assms i by (simp add: sopenr_def qlock_def qunlock_def cmem)
  moreover have "wf_strin ?f" "ahead ?f = str" by (auto simp: wf_strin_def ahead_def)
  ultimately show ?thesis by blast
qed

text \<open>C3. What \<open>%d\<close> prints for a 32-bit integer, \<open>sscanf\<close> with \<open>%d\<close> reads back as the same integer, and
  counts one conversion; the stream it has opened is closed again and no other is touched.\<close>

theorem sscanf_sprintf_d:
  assumes "\<not> st_lock s" "find_closed 0 (st_tab s) = Some i" "vformat dtoa ''%d'' [Aint w] 0 = Some (out, st, n)"
  shows "\<exists>s'. sscanf sys out ''%d'' [a] s = Some (1, [(a, S32 w)], s') \<and> s_state (st_tab s' ! i) = CLOSED
    \<and> (\<forall>j. j \<noteq> i \<longrightarrow> st_tab s' ! j = st_tab s ! j) \<and> \<not> st_lock s'"
proof -
  have out: "out = d_sign w @ rev (d_digits w)" using assms(3) by (simp add: vformat_d)
  from find_closed_Some [OF assms(2)] have i: "i < length (st_tab s)" by simp
  from sopenr_ok [OF assms(1,2), of out] obtain f
    where 1: "sopenr out s = Some (Some i, s\<lparr>st_tab := (st_tab s)[i := f], st_lock := False\<rparr>)" "wf_strin f" "ahead f = out" by blast
  from str_source.scan_printed_d [where st = "\<lparr>sc_in = (f, st_os s), nread = 0\<rparr>" and sys = sys
      and w = w and rest = "[]" and who = i and a = a and args = "[]" and ncvt = 0] 1(2,3) out
  obtain st' where 2: "vfscanf_loop (\<lambda>(f, os). getc sys i f os) (\<lambda>c (f, os). ungetc sys i c f os) ''%d'' [a] 0
       \<lparr>sc_in = (f, st_os s), nread = 0\<rparr> = Some (1, [(a, S32 w)], st')"
    and w: "case sc_in st' of (f, os) \<Rightarrow> wf_strin f" by auto
  obtain f2 os2 where f2: "sc_in st' = (f2, os2)" by fastforce
  let ?s2 = "s\<lparr>st_tab := (st_tab s)[i := f2], st_lock := False, st_os := os2\<rparr>"
  have v: "vfscanf sys i ''%d'' [a] (s\<lparr>st_tab := (st_tab s)[i := f], st_lock := False\<rparr>) = Some (1, [(a, S32 w)], ?s2)"
    using i 2 f2 by (simp add: vfscanf_def on_stream_def cmem)
  have "sclose1 sys f2 os2 = Some (s_buf f2, (no_flags f2)\<lparr>s_state := CLOSED\<rparr>, os2)"
    using w f2 by (simp add: sclose1_def wf_strin_def)
  then have "sclose sys i ?s2 = Some (s_buf f2, ?s2\<lparr>st_tab := (st_tab s)[i := (no_flags f2)\<lparr>s_state := CLOSED\<rparr>]\<rparr>)"
    using i by (simp add: sclose_def on_stream_def cmem)
  then have "sscanf sys out ''%d'' [a] s = Some (1, [(a, S32 w)], ?s2\<lparr>st_tab := (st_tab s)[i := (no_flags f2)\<lparr>s_state := CLOSED\<rparr>]\<rparr>)"
    by (simp add: sscanf_def 1(1) v)
  then show ?thesis using i by simp
qed

lemma sscanf_sprintf_d_witness:
  "\<exists>s'. sscanf ram_sys ''-7'' ''%d'' [64] (ram_start []) = Some (1, [(64, S32 (- 7))], s')"
proof -
  have "vformat no_dtoa ''%d'' [Aint (- 7)] 0 = Some (''-7'', [], 2)" by code_simp
  from sscanf_sprintf_d [OF ram_start_closed [of "[]"] this, of ram_sys 64] show ?thesis by blast
qed

text \<open>The same through a file: what \<open>fprintf\<close> has written with \<open>%d\<close>, followed by anything but a digit,
  \<open>fscanf\<close> reads back from a file with these contents, however short its reads are, and leaves what follows.\<close>

theorem fscanf_fprintf_d:
  assumes "good_src sys inp" "i < length (st_tab s)" "wf_in (st_tab s ! i) (inp (s_fd (st_tab s ! i)) (st_os s))"
    and "vformat dtoa ''%d'' [Aint w] 0 = Some (out, st, n)"
    and "ahead (st_tab s ! i) @ inp (s_fd (st_tab s ! i)) (st_os s) = out @ rest" "rest = [] \<or> \<not> is_digit (hd rest)"
  shows "\<exists>s'. fscanf sys i ''%d'' [a] s = Some (1, [(a, S32 w)], s')
    \<and> ahead (st_tab s' ! i) @ inp (s_fd (st_tab s ! i)) (st_os s') = rest"
proof -
  have out: "out = d_sign w @ rev (d_digits w)" using assms(4) by (simp add: vformat_d)
  let ?f = "st_tab s ! i"
  from file_source.scan_printed_d [where st = "\<lparr>sc_in = (?f, st_os s), nread = 0\<rparr>" and sys = sys and inp = inp
      and fd = "s_fd ?f" and w = w and rest = rest and who = i and a = a and args = "[]" and ncvt = 0] assms out
  obtain st' where 2: "vfscanf_loop (\<lambda>(f, os). getc sys i f os) (\<lambda>c (f, os). ungetc sys i c f os) ''%d'' [a] 0
       \<lparr>sc_in = (?f, st_os s), nread = 0\<rparr> = Some (1, [(a, S32 w)], st')"
    and l: "(case sc_in st' of (f, os) \<Rightarrow> ahead f @ inp (s_fd ?f) os) = rest" by auto
  obtain f2 os2 where f2: "sc_in st' = (f2, os2)" by fastforce
  have "fscanf sys i ''%d'' [a] s = Some (1, [(a, S32 w)], s\<lparr>st_tab := (st_tab s)[i := f2], st_os := os2\<rparr>)"
    using assms(2) 2 f2 by (simp add: fscanf_def vfscanf_def on_stream_def cmem)
  then show ?thesis using l f2 assms(2) by simp
qed

lemma fscanf_fprintf_d_witness:
  "\<exists>s'. fscanf ram_sys 0 ''%d'' [64] (ram_start ''-7 x'') = Some (1, [(64, S32 (- 7))], s')"
proof -
  have v: "vformat no_dtoa ''%d'' [Aint (- 7)] 0 = Some (''-7'', [], 2)" by code_simp
  have l: "0 < length (st_tab (ram_start ''-7 x''))" and f: "st_tab (ram_start ''-7 x'') ! 0 = mk_FILE 0 OPEN"
    "st_os (ram_start ''-7 x'') = (\<lambda>_. [], ''-7 x'')"
    by (simp_all add: ram_start_def IO_stream_def)
  have w: "wf_in (mk_FILE 0 OPEN) ''-7 x''" "ahead (mk_FILE 0 OPEN) = []" by (simp_all add: wf_in_def mk_FILE_def ahead_def)
  have nd: "'' x'' = [] \<or> \<not> is_digit (hd '' x'')" by (simp add: is_digit_def)
  show ?thesis using fscanf_fprintf_d [OF ram_good_src l _ v _ nd, of 64] f w by (auto simp: case_prod_beta)
qed

section \<open>The buffer of the floating-point conversion\<close>

lemma cat_length: "int (length (cat s c)) \<le> int (length s) + 1"
  by (cases c) (simp_all add: cat_def)

lemma flt_exp_length:
  assumes "flt_exp get unget s ndig nexp c width st = Some r" "0 \<le> width"
  shows "int (length (fst (fst r))) \<le> int (length s) + width + 1"
proof -
  have "0 \<le> width \<longrightarrow> int (length (fst (fst r))) \<le> int (length s) + width + 1"
  proof (rule flt_exp.raw_induct [OF _ assms(1), where P = "\<lambda>get unget s ndig nexp c width st r. 0 \<le> width \<longrightarrow> int (length (fst (fst r))) \<le> int (length s) + width + 1"], rule impI)
    fix fe get unget s ndig nexp c width st r
    assume 1: "\<And>get unget s ndig nexp c width st r. fe get unget s ndig nexp c width st = Some r
        \<Longrightarrow> 0 \<le> width \<longrightarrow> int (length (fst (fst r))) \<le> int (length s) + width + 1"
      and 2: "(if is_dec c
      then (if width = 0 then Some ((cat s c, ndig, nexp + 1), st)
            else Option.bind (ngetc get st) (\<lambda>(c', st). fe get unget (cat s c) ndig (nexp + 1) c' (width - 1) st))
      else do { st \<leftarrow> nungetc unget c st; Some ((s, ndig, nexp), st) }) = Some r" and 3: "0 \<le> width"
    show "int (length (fst (fst r))) \<le> int (length s) + width + 1"
    proof (cases "is_dec c \<and> width \<noteq> 0")
      case True
      with 2 obtain c' st' where "fe get unget (cat s c) ndig (nexp + 1) c' (width - 1) st' = Some r"
        by (auto dest!: bind_eq_SomeD)
      from 1 [OF this] True 3 have "int (length (fst (fst r))) \<le> int (length (cat s c)) + (width - 1) + 1" by simp
      then show ?thesis using cat_length [of s c] by linarith
    next
      case False
      with 2 3 cat_length [of s c] show ?thesis by (auto dest!: bind_eq_SomeD split: if_splits)
    qed
  qed
  with assms(2) show ?thesis by simp
qed

lemma flt_tail_length:
  assumes "flt_tail get unget s ndig c width st = Some r" "0 \<le> width"
  shows "int (length (fst (fst r))) \<le> int (length s) + width + 1"
proof (cases "c = Some (CHR ''e'') \<or> c = Some (CHR ''E'')")
  case False
  with assms show ?thesis by (auto simp: flt_tail_def dest!: bind_eq_SomeD)
next
  case True
  show ?thesis
  proof (cases "width = 0")
    case z: True
    with assms(1) True cat_length [of s c] show ?thesis by (auto simp: flt_tail_def wgetc_def)
  next
    case nz: False
    have "(do { (c1, st1) \<leftarrow> ngetc get st;
           if c1 = Some (CHR ''+'') \<or> c1 = Some (CHR ''-'')
           then wgetc get (width - 1) st1 (\<lambda>st. Some ((cat (cat s c) c1, ndig, 0), st)) (flt_exp get unget (cat (cat s c) c1) ndig 0)
           else flt_exp get unget (cat s c) ndig 0 c1 (width - 1) st1 }) = Some r"
      using assms(1) unfolding flt_tail_def if_P [OF True] Let_def wgetc_def [of get width] if_not_P [OF nz] .
    then obtain c1 st1 where n1: "ngetc get st = Some (c1, st1)"
      and r: "(if c1 = Some (CHR ''+'') \<or> c1 = Some (CHR ''-'')
           then wgetc get (width - 1) st1 (\<lambda>st. Some ((cat (cat s c) c1, ndig, 0), st)) (flt_exp get unget (cat (cat s c) c1) ndig 0)
           else flt_exp get unget (cat s c) ndig 0 c1 (width - 1) st1) = Some r"
      by (auto dest!: bind_eq_SomeD)
    have l: "int (length (cat s c)) \<le> int (length s) + 1" "int (length (cat (cat s c) c1)) \<le> int (length s) + 2"
      using cat_length [of s c] cat_length [of "cat s c" c1] by linarith+
    show ?thesis
    proof (cases "c1 = Some (CHR ''+'') \<or> c1 = Some (CHR ''-'')")
      case False
      with r have "flt_exp get unget (cat s c) ndig 0 c1 (width - 1) st1 = Some r" by simp
      from flt_exp_length [OF this] nz assms(2) l show ?thesis by linarith
    next
      case sg: True
      show ?thesis
      proof (cases "width - 1 = 0")
        case True
        then have "fst (fst r) = cat (cat s c) c1" using r sg by (auto simp: wgetc_def)
        then show ?thesis using l(2) True by simp
      next
        case False
        with r sg obtain c2 st2 where "flt_exp get unget (cat (cat s c) c1) ndig 0 c2 (width - 1 - 1) st2 = Some r"
          by (auto simp: wgetc_def dest!: bind_eq_SomeD)
        from flt_exp_length [OF this] nz False assms(2) l(2) show ?thesis by linarith
      qed
    qed
  qed
qed

lemma flt_mant_length:
  assumes "flt_mant get unget s ndig ndpt c width st = Some r" "0 \<le> width"
  shows "int (length (fst (fst r))) \<le> int (length s) + width + 1"
proof -
  have "0 \<le> width \<longrightarrow> int (length (fst (fst r))) \<le> int (length s) + width + 1"
  proof (rule flt_mant.raw_induct [OF _ assms(1), where P = "\<lambda>get unget s ndig ndpt c width st r. 0 \<le> width \<longrightarrow> int (length (fst (fst r))) \<le> int (length s) + width + 1"], rule impI)
    fix fm get unget s ndig ndpt c width st r
    assume 1: "\<And>get unget s ndig ndpt c width st r. fm get unget s ndig ndpt c width st = Some r
        \<Longrightarrow> 0 \<le> width \<longrightarrow> int (length (fst (fst r))) \<le> int (length s) + width + 1"
      and 2: "(if is_dec c \<or> (ndpt = 0 \<and> c = Some (CHR ''.''))
      then (let ndpt = (if c = Some (CHR ''.'') then ndpt + 1 else ndpt);
                ndig = (if c = Some (CHR ''.'') then ndig else ndig + 1)
            in if width = 0 then Some ((cat s c, ndig, 1), st)
               else Option.bind (ngetc get st) (\<lambda>(c', st). fm get unget (cat s c) ndig ndpt c' (width - 1) st))
      else flt_tail get unget s ndig c width st) = Some r" and 3: "0 \<le> width"
    show "int (length (fst (fst r))) \<le> int (length s) + width + 1"
    proof (cases "is_dec c \<or> (ndpt = 0 \<and> c = Some (CHR ''.''))")
      case False
      have "flt_tail get unget s ndig c width st = Some r" using 2 unfolding if_not_P [OF False] .
      from flt_tail_length [OF this 3] show ?thesis .
    next
      case True
      show ?thesis
      proof (cases "width = 0")
        case True
        with \<open>is_dec c \<or> _\<close> 2 cat_length [of s c] show ?thesis by (auto simp: Let_def)
      next
        case False
        with True 2 obtain nd np c' st' where "fm get unget (cat s c) nd np c' (width - 1) st' = Some r"
          by (auto simp: Let_def dest!: bind_eq_SomeD)
        from 1 [OF this] False 3 have "int (length (fst (fst r))) \<le> int (length (cat s c)) + (width - 1) + 1" by simp
        then show ?thesis using cat_length [of s c] by linarith
      qed
    qed
  qed
  with assms(2) show ?thesis by simp
qed

text \<open>Whatever the input and the width, \<open>icvt_f\<close> collects at most 509 characters, so that they and the
  NUL fit into its array \<open>buf\<close>.\<close>

theorem icvt_f_buffer:
  assumes "flt_scan get unget width st = Some ((s, ndig, nexp), st')"
  shows "int (length s) \<le> NBUF"
proof -
  define w where "w = (if width < 0 \<or> NBUF < width then NBUF else width)"
  have w: "0 \<le> w" "w \<le> NBUF" by (auto simp: w_def NBUF_def)
  from assms obtain c st1 where c: "skip_spaces get st = Some (c, st1)"
    and r: "(if w = 0 then do { st \<leftarrow> nungetc unget c st1; Some (([], 0, 1), st) }
        else if c = Some (CHR ''+'') \<or> c = Some (CHR ''-'')
        then wgetc get (w - 1) st1 (\<lambda>st. Some ((cat [] c, 0, 1), st)) (flt_mant get unget (cat [] c) 0 0)
        else flt_mant get unget [] 0 0 c (w - 1) st1) = Some ((s, ndig, nexp), st')"
    unfolding flt_scan_def Let_def w_def [symmetric] by (auto dest!: bind_eq_SomeD)
  have l: "int (length (cat [] c)) \<le> 1" using cat_length [of "[]" c] by simp
  consider (zero) "w = 0" | (sg0) "w = 1" "c = Some (CHR ''+'') \<or> c = Some (CHR ''-'')"
    | (sg) "1 < w" "c = Some (CHR ''+'') \<or> c = Some (CHR ''-'')" | (plain) "w \<noteq> 0" "\<not> (c = Some (CHR ''+'') \<or> c = Some (CHR ''-''))"
    using w(1) by linarith
  then show ?thesis
  proof cases
    case zero
    then show ?thesis using r by (auto simp: NBUF_def dest!: bind_eq_SomeD)
  next
    case sg0
    then have "s = cat [] c" using r by (auto simp: wgetc_def)
    then show ?thesis using l w(2) sg0(1) by simp
  next
    case sg
    then obtain c2 st2 where "flt_mant get unget (cat [] c) 0 0 c2 (w - 1 - 1) st2 = Some ((s, ndig, nexp), st')"
      using r by (auto simp: wgetc_def dest!: bind_eq_SomeD)
    from flt_mant_length [OF this] sg l w(2) show ?thesis by simp
  next
    case plain
    then have "flt_mant get unget [] 0 0 c (w - 1) st1 = Some ((s, ndig, nexp), st')" using r by simp
    from flt_mant_length [OF this] plain w show ?thesis by simp
  qed
qed

definition str_get :: "string getter" where
  "str_get s = Some (hd_opt s, tl s)"

definition str_unget :: "string ungetter" where
  "str_unget c s = Some (True, c # s)"

lemmas str_access = ngetc_def nungetc_def str_get_def str_unget_def

lemma icvt_f_buffer_witness:
  "flt_scan str_get str_unget (-1) \<lparr>sc_in = ''1x'', nread = 0\<rparr> = Some ((''1'', 1, 1), \<lparr>sc_in = ''x'', nread = 1\<rparr>)
    \<and> int (length ''1'') \<le> NBUF"
proof -
  have f: "flt_mant str_get str_unget ''1'' 1 0 (Some (CHR ''x'')) 507 \<lparr>sc_in = [], nread = 2\<rparr>
     = Some ((''1'', 1, 1), \<lparr>sc_in = ''x'', nread = 1\<rparr>)"
    by (subst flt_mant.simps) (simp add: is_dec_def is_digit_def str_access flt_tail_def)
  have "flt_mant str_get str_unget [] 0 0 (Some (CHR ''1'')) 508 \<lparr>sc_in = ''x'', nread = 1\<rparr>
     = Some ((''1'', 1, 1), \<lparr>sc_in = ''x'', nread = 1\<rparr>)"
    by (subst flt_mant.simps) (simp add: is_dec_def is_digit_def cat_def str_access f [simplified])
  moreover have "skip_spaces str_get \<lparr>sc_in = ''1x'', nread = 0\<rparr> = Some (Some (CHR ''1''), \<lparr>sc_in = ''x'', nread = 1\<rparr>)"
    by (subst skip_spaces.simps) (simp add: str_access isspace_def is_space_def)
  ultimately have "flt_scan str_get str_unget (-1) \<lparr>sc_in = ''1x'', nread = 0\<rparr> = Some ((''1'', 1, 1), \<lparr>sc_in = ''x'', nread = 1\<rparr>)"
    by (simp add: flt_scan_def NBUF_def)
  with icvt_f_buffer [OF this] show ?thesis by (intro conjI)
qed

section \<open>Strings and the count of characters read\<close>

context char_source begin

lemma str_loop_eof:
  assumes "just_got st str k" "\<forall>c \<in> set str. \<not> is_space c" "width < 0" "acc @ str \<noteq> []"
  shows "\<exists>st'. str_loop get unget acc (hd_opt str) width st = Some (Some (acc @ str), st') \<and> inv (sc_in st')
    \<and> left (sc_in st') = [] \<and> nread st' = k + int (length str)"
  using assms
proof (induction str arbitrary: st k acc width)
  case Nil
  then show ?case by (subst str_loop.simps) (simp add: isspace_def just_got_def)
next
  case (Cons c str)
  from Cons.prems(1) have j: "inv (sc_in st)" "left (sc_in st) = str" "nread st = k" by (simp_all add: just_got_def)
  from ngetc_ok [OF j(1)] j obtain st1
    where 1: "ngetc get st = Some (hd_opt str, st1)" "just_got st1 str (k + 1)" by auto
  from Cons.IH [OF 1(2), of "width - 1" "acc @ [c]"] Cons.prems obtain st2
    where 2: "str_loop get unget (acc @ [c]) (hd_opt str) (width - 1) st1 = Some (Some (acc @ c # str), st2)"
      "inv (sc_in st2)" "left (sc_in st2) = []" "nread st2 = k + 1 + int (length str)" by auto
  have "\<not> isspace (Some c)" using Cons.prems(2) by (simp add: isspace_def)
  then have "str_loop get unget acc (Some c) width st = str_loop get unget (acc @ [c]) (hd_opt str) (width - 1) st1"
    using Cons.prems(3) 1(1) by (subst str_loop.simps) (simp add: cat_def)
  then show ?case using 2 by simp
qed

lemma icvt_s_eof:
  assumes "inv (sc_in st)" "left (sc_in st) = str" "\<forall>c \<in> set str. \<not> is_space c" "str \<noteq> []"
  shows "\<exists>st'. icvt_s get unget True (-1) (a # args) st = Some (True, [(a, Sstr str)], args, st') \<and> inv (sc_in st')
    \<and> nread st' = nread st + int (length str) + 1"
proof -
  have "str = [] \<or> \<not> is_space (hd str)" using assms(3,4) by simp
  from skip_spaces_ok [of st "[]" str] assms(1,2) this obtain st1
    where 1: "skip_spaces get st = Some (hd_opt str, st1)" "just_got st1 str (nread st + 1)" by auto
  from str_loop_eof [OF 1(2) assms(3), of "-2" "[]"] assms(4) obtain st2
    where "str_loop get unget [] (hd_opt str) (-2) st1 = Some (Some str, st2)" "inv (sc_in st2)"
      "nread st2 = nread st + 1 + int (length str)" by auto
  then show ?thesis using 1(1) by (simp add: icvt_s_def str_res_def put_arg_True)
qed

end

lemma icvt_sn:
  "icvt get unget (CHR ''s'') pat sto width type args st = icvt_s get unget sto width args st"
  "icvt get unget (CHR ''n'') pat sto width type args st = icvt_n sto type args st"
  by (simp_all add: icvt_def)

text \<open>\<open>%n\<close> after a \<open>%s\<close> that the end of the input has stopped stores one more than the number of
  characters read: \<open>icvt_s\<close> leaves the EOF it has read counted.\<close>

theorem sscanf_n_counts_eof:
  assumes "\<not> st_lock s" "find_closed 0 (st_tab s) = Some i" "str \<noteq> []" "\<forall>c \<in> set str. \<not> is_space c"
  shows "\<exists>s'. sscanf sys str ''%s%n'' [a, b] s = Some (1, [(a, Sstr str), (b, S32 (of_nat (length str + 1)))], s')"
proof -
  from find_closed_Some [OF assms(2)] have i: "i < length (st_tab s)" by simp
  from sopenr_ok [OF assms(1,2), of str] obtain f
    where 1: "sopenr str s = Some (Some i, s\<lparr>st_tab := (st_tab s)[i := f], st_lock := False\<rparr>)" "wf_strin f" "ahead f = str" by blast
  let ?get = "\<lambda>(f, os). getc sys i f os" and ?unget = "\<lambda>c (f, os). ungetc sys i c f os"
  let ?st = "\<lparr>sc_in = (f, st_os s), nread = 0\<rparr>"
  from str_source.icvt_s_eof [where st = ?st and sys = sys and who = i and str = str and a = a and args = "[b]"] 1(2,3) assms(3,4)
  obtain st' where 2: "icvt_s ?get ?unget True (-1) [a, b] ?st = Some (True, [(a, Sstr str)], [b], st')"
    "case sc_in st' of (f, os) \<Rightarrow> wf_strin f" "nread st' = int (length str) + 1" by auto
  obtain f2 os2 where f2: "sc_in st' = (f2, os2)" by fastforce
  have cs: "crack_in ''s%n'' = Some (True, -1, CHR ''n'', ''s%n'')" "crack_in ''n'' = Some (True, -1, CHR ''n'', ''n'')"
    by (simp_all add: crack_in_def first_char_def is_digit_def)
  have n: "icvt_n True (CHR ''n'') [b] st' = Some (True, [(b, S32 (of_nat (length str + 1)))], [], st')"
    using 2(3) by (simp add: icvt_n_def put_arg_def)
  have l2: "vfscanf_loop ?get ?unget ''%n'' [b] 1 st' = Some (1, [(b, S32 (of_nat (length str + 1)))], st')"
    using vfscanf_loop_conv [OF cs(2) _ _ _ n [unfolded icvt_sn(2) [of ?get ?unget "[]" True "-1", symmetric]], of 1] by (simp add: is_icvt_def)
  have l1: "vfscanf_loop ?get ?unget ''%s%n'' [a, b] 0 ?st = Some (1, [(a, Sstr str), (b, S32 (of_nat (length str + 1)))], st')"
    using vfscanf_loop_conv [OF cs(1) _ _ _ 2(1) [unfolded icvt_sn(1) [of ?get ?unget "[]" True "-1" "CHR ''n''", symmetric]], of 0] l2
    by (simp add: is_icvt_def)
  let ?s2 = "s\<lparr>st_tab := (st_tab s)[i := f2], st_lock := False, st_os := os2\<rparr>"
  have v: "vfscanf sys i ''%s%n'' [a, b] (s\<lparr>st_tab := (st_tab s)[i := f], st_lock := False\<rparr>)
      = Some (1, [(a, Sstr str), (b, S32 (of_nat (length str + 1)))], ?s2)"
    using i l1 f2 by (simp add: vfscanf_def on_stream_def cmem)
  have "sclose sys i ?s2 = Some (s_buf f2, ?s2\<lparr>st_tab := (st_tab s)[i := (no_flags f2)\<lparr>s_state := CLOSED\<rparr>]\<rparr>)"
    using i 2(2) f2 by (simp add: sclose_def on_stream_def cmem sclose1_def wf_strin_def)
  then show ?thesis by (simp add: sscanf_def 1(1) v)
qed

lemma sscanf_n_counts_eof_witness:
  "\<exists>s'. sscanf ram_sys ''abc'' ''%s%n'' [64, 68] (ram_start []) = Some (1, [(64, Sstr ''abc''), (68, S32 4)], s')"
  using sscanf_n_counts_eof [OF ram_start_closed [of "[]"], of "''abc''" ram_sys 64 68] by (simp add: is_space_def)

end
