(* ===== verification/Partfs.thy ===== *)
theory Partfs
  imports Printf
begin

text \<open>
  src/src/cmd/partfs.c, a file server that shows the partitions of a disk as files. The table of
  partitions and its counters are the state; a reference to a partition is its index in the table.
  The disk, the clock and the functions of lib9p and libdisk the program calls are a parameter, the
  record \<open>plib\<close>. An access outside the table, and freeing the literal \<open>"data"\<close>, have no result.

  The properties: the counter and the table agree in every reachable state, so that no lookup leaves
  the table; the directory lists exactly the partitions; on disks below 2 GB data is read and written
  only inside a partition; what the range checks let through beyond that.
\<close>

section \<open>State\<close>

definition Qdir :: int where "Qdir = 0"
definition Qctl :: int where "Qctl = 1"
definition Qdata :: int where "Qdata = 2"
definition NPART :: int where "NPART = 32"

record part =
  pt_path :: int
  pt_name :: "string option"
  pt_heap :: bool
  pt_base :: int
  pt_length :: int
  pt_mtime :: int

definition no_part :: part where
  "no_part = \<lparr>pt_path = 0, pt_name = None, pt_heap = False, pt_base = 0, pt_length = 0, pt_mtime = 0\<rparr>"

definition ptab0 :: "part list" where
  "ptab0 = no_part\<lparr>pt_path := Qdata, pt_name := Some ''data''\<rparr> # replicate 31 no_part"

record disk =
  dk_rdonly :: bool
  dk_secs :: int
  dk_secsize :: int
  dk_c :: int
  dk_h :: int
  dk_s :: int
  dk_size :: int

record dirtab_entry =
  dt_name :: string
  dt_path :: int
  dt_isdir :: bool
  dt_mode :: int

definition dirtab :: "dirtab_entry list" where
  "dirtab = [\<lparr>dt_name = ''.'', dt_path = Qdir, dt_isdir = True, dt_mode = 0x80000000 + 365\<rparr>,
             \<lparr>dt_name = ''ctl'', dt_path = Qctl, dt_isdir = False, dt_mode = 416\<rparr>,
             \<lparr>dt_name = ''data'', dt_path = Qdata, dt_isdir = False, dt_mode = 416\<rparr>]"

datatype cmd = CMpart | CMdelpart

record cmdtab_entry =
  ct_index :: cmd
  ct_cmd :: string
  ct_narg :: nat

definition cmdtab :: "cmdtab_entry list" where
  "cmdtab = [\<lparr>ct_index = CMpart, ct_cmd = ''part'', ct_narg = 4\<rparr>,
             \<lparr>ct_index = CMdelpart, ct_cmd = ''delpart'', ct_narg = 2\<rparr>]"

text \<open>
  The libraries: \<open>pread\<close> and \<open>pwrite\<close> on the disk (descriptor, how much or what, where), \<open>parsecmd\<close> to
  the fields of a command, \<open>lookupcmd\<close> in a table, \<open>readbuf\<close> (text, offset, count), \<open>time\<close>, \<open>strtoll\<close>.
\<close>

record 'os plib =
  l_pread :: "int \<Rightarrow> int \<Rightarrow> 'os \<Rightarrow> (int \<times> string) \<times> 'os"
  l_pwrite :: "string \<Rightarrow> int \<Rightarrow> 'os \<Rightarrow> int \<times> 'os"
  l_parsecmd :: "string \<Rightarrow> string list"
  l_lookupcmd :: "string list \<Rightarrow> cmdtab_entry list \<Rightarrow> cmdtab_entry option"
  l_readbuf :: "string \<Rightarrow> int \<Rightarrow> int \<Rightarrow> string"
  l_time :: "'os \<Rightarrow> int"
  l_strtoll :: "string \<Rightarrow> int"

record 'os pfs =
  ptab :: "part list"
  nparts :: int
  newpath :: int
  pf_disk :: disk
  starttime :: int
  owner :: string
  datamode :: int
  pf_os :: 'os

section \<open>Lookup\<close>

text \<open>Whether the \<open>i\<close>-th partition is the one wanted: by name, by number, or by path.\<close>

definition part_hit :: "string option \<Rightarrow> int \<Rightarrow> int \<Rightarrow> int \<Rightarrow> part \<Rightarrow> bool" where
  "part_hit name path ipart i p =
     (case name of Some nm \<Rightarrow> pt_name p = Some nm
      | None \<Rightarrow> if ipart \<noteq> -1 then ipart = i else path = pt_path p)"

text \<open>The loop of \<open>lookuppart\<close> from slot \<open>k\<close> on: the partition found, or the free slot.\<close>

fun lookup_loop :: "part list \<Rightarrow> nat \<Rightarrow> int \<Rightarrow> int \<Rightarrow> string option \<Rightarrow> int \<Rightarrow> int \<Rightarrow> nat \<Rightarrow> (nat + nat) option" where
  "lookup_loop ps k i n name path ipart pfree =
     (if n \<le> i then Some (Inr pfree)
      else case ps of
        [] \<Rightarrow> None
      | p # ps \<Rightarrow>
          if pt_name p = None then lookup_loop ps (k + 1) i n name path ipart k
          else if part_hit name path ipart i p then Some (Inl k)
          else lookup_loop ps (k + 1) (i + 1) n name path ipart pfree)"

declare lookup_loop.simps [simp del]

definition lookuppart :: "'os pfs \<Rightarrow> string option \<Rightarrow> int \<Rightarrow> int \<Rightarrow> nat option option" where
  "lookuppart s name path ipart = do {
     r \<leftarrow> lookup_loop (ptab s) 0 0 (nparts s) name path ipart (nat (nparts s));
     Some (case r of
             Inl k \<Rightarrow> Some k
           | Inr k \<Rightarrow> if nparts s = NPART \<or> name = None then None else Some k)
   }"

definition releasepart :: "nat \<Rightarrow> 'os pfs \<Rightarrow> 'os pfs option" where
  "releasepart k s = do {
     p \<leftarrow> load (ptab s) k;
     p \<leftarrow> (if pt_path p \<noteq> Qdata
          then (if pt_heap p then Some (p\<lparr>pt_name := None, pt_heap := False\<rparr>) else None \<comment> \<open>\<open>free\<close> of a literal\<close>)
          else Some p);
     tab \<leftarrow> store (ptab s) k (p\<lparr>pt_path := -1\<rparr>);
     Some (s\<lparr>ptab := tab, nparts := nparts s - 1\<rparr>)
   }"

text \<open>The file window: \<open>long\<close> and \<open>int\<close> have 32 bits, the arithmetic is made with 64.\<close>

definition updatefwin :: "part \<Rightarrow> int \<Rightarrow> int \<Rightarrow> int" where
  "updatefwin p offset count =
     (if vlong (pt_base p + pt_length p) \<le> offset then 0
      else if pt_length p < vlong (offset + count) then int32 (pt_length p - offset)
      else int32 count)"

section \<open>Requests\<close>

datatype resp = Rok int string | Rerror string

record dir =
  d_length :: int
  d_path :: int
  d_isdir :: bool
  d_mode :: int
  d_name :: string
  d_mtime :: int
  d_atime :: int
  d_uid :: string
  d_gid :: string

definition rwalk1 :: "'os pfs \<Rightarrow> string \<Rightarrow> (int \<times> bool) option option" where
  "rwalk1 s name =
     (case find (\<lambda>d. dt_name d = name) dirtab of
        Some d \<Rightarrow> Some (Some (dt_path d, dt_isdir d))
      | None \<Rightarrow> do {
          r \<leftarrow> lookuppart s (Some name) (-1) (-1);
          (case r of
             None \<Rightarrow> Some None
           | Some k \<Rightarrow> do {
               p \<leftarrow> load (ptab s) k;
               Some (if pt_name p \<noteq> None then Some (pt_path p, False) else None)
             })
        })"

text \<open>\<open>dostat\<close>: \<open>None\<close> inside where it returns without having filled \<open>dir\<close>.\<close>

definition dostat :: "'os pfs \<Rightarrow> int \<Rightarrow> bool \<Rightarrow> dir option option" where
  "dostat s n ispath =
     (if Qdata \<le> n
      then do {
        r \<leftarrow> (if ispath then lookuppart s None n (-1) else lookuppart s None (-1) (n - Qdata));
        (case r of
           None \<Rightarrow> Some None
         | Some k \<Rightarrow> do {
             p \<leftarrow> load (ptab s) k;
             nm \<leftarrow> pt_name p;
             Some (Some \<lparr>d_length = pt_length p, d_path = pt_path p, d_isdir = False,
                         d_mode = (if dk_rdonly (pf_disk s) then 288 else 416), d_name = nm, d_mtime = pt_mtime p,
                         d_atime = starttime s, d_uid = owner s, d_gid = owner s\<rparr>)
           })
      }
      else do {
        d \<leftarrow> load dirtab (nat n);
        Some (Some \<lparr>d_length = 0, d_path = dt_path d, d_isdir = dt_isdir d, d_mode = dt_mode d, d_name = dt_name d,
                    d_mtime = starttime s, d_atime = starttime s, d_uid = owner s, d_gid = owner s\<rparr>)
      })"

text \<open>\<open>dirgen\<close>: \<open>Inl\<close> for its return of -1.\<close>

definition dirgen :: "'os pfs \<Rightarrow> int \<Rightarrow> (unit + dir option) option" where
  "dirgen s n =
     (let n = n + 1
      in if int (length dirtab) + nparts s - 1 \<le> n then Some (Inl ())
         else do { d \<leftarrow> dostat s n False; Some (Inr d) })"

text \<open>What \<open>dirread9p\<close> makes of it: the entries for 0, 1, ... up to the -1.\<close>

function dir_entries :: "'os pfs \<Rightarrow> int \<Rightarrow> dir option list option" where
  "dir_entries s n =
     (case dirgen s n of
        None \<Rightarrow> None
      | Some (Inl _) \<Rightarrow> Some []
      | Some (Inr d) \<Rightarrow> (case dir_entries s (n + 1) of None \<Rightarrow> None | Some ds \<Rightarrow> Some (d # ds)))"
  by pat_completeness auto
termination
  by (relation "measure (\<lambda>(s, n). nat (int (length dirtab) + nparts s - n))")
    (auto simp: dirgen_def Let_def split: if_splits)

declare dir_entries.simps [simp del]

definition rstat :: "'os pfs \<Rightarrow> int \<Rightarrow> dir option option" where
  "rstat s path = dostat s path True"

text \<open>Appending with \<open>snprint\<close> to the 256 bytes of \<open>buf\<close>.\<close>

definition bprint :: "string \<Rightarrow> string \<Rightarrow> string" where
  "bprint buf str = take 255 (buf @ str)"

definition lld :: "int \<Rightarrow> string" where
  "lld i = (if i < 0 then ''-'' else []) @ rev (fixed_digits ''0123456789'' 10 (nat \<bar>i\<bar>))"

text \<open>C division truncates.\<close>

definition cdiv :: "int \<Rightarrow> int \<Rightarrow> int" where
  "cdiv a b = sgn a * sgn b * (\<bar>a\<bar> div \<bar>b\<bar>)"

definition ctl_line :: "disk \<Rightarrow> part \<Rightarrow> string \<Rightarrow> string" where
  "ctl_line d p nm = ''part '' @ nm @ '' '' @ lld (cdiv (pt_base p) (dk_secsize d)) @ '' ''
     @ lld (cdiv (vlong (pt_base p + pt_length p)) (dk_secsize d)) @ [NL]"

fun ctl_parts :: "disk \<Rightarrow> part list \<Rightarrow> int \<Rightarrow> int \<Rightarrow> string \<Rightarrow> string option" where
  "ctl_parts d ps i n buf =
     (if n \<le> i then Some buf
      else case ps of
        [] \<Rightarrow> None
      | p # ps \<Rightarrow> (case pt_name p of
                     None \<Rightarrow> ctl_parts d ps i n buf
                   | Some nm \<Rightarrow> ctl_parts d ps (i + 1) n (bprint buf (ctl_line d p nm))))"

declare ctl_parts.simps [simp del]

definition ctl_text :: "'os pfs \<Rightarrow> string option" where
  "ctl_text s =
     (let d = pf_disk s;
          buf = bprint [] (''geometry '' @ lld (dk_secs d) @ '' '' @ lld (dk_secsize d));
          buf = (if 0 < dk_c d then bprint buf ('' '' @ lld (dk_c d) @ '' '' @ lld (dk_h d) @ '' '' @ lld (dk_s d)) else buf);
          buf = bprint buf [NL]
      in if dk_secsize d = 0 then None else ctl_parts d (ptab s) 0 (nparts s) buf)"

datatype rread_res = Dirents "dir option list" | Resp resp

definition rread :: "'os plib \<Rightarrow> int \<Rightarrow> int \<Rightarrow> int \<Rightarrow> 'os pfs \<Rightarrow> (rread_res \<times> 'os pfs) option" where
  "rread lib path offset count s =
     (if path = Qdir then do { ds \<leftarrow> dir_entries s 0; Some (Dirents ds, s) }
      else if path = Qctl
      then do { buf \<leftarrow> ctl_text s;
                let text = l_readbuf lib buf offset count;
                Some (Resp (Rok (int (length text)) text), s) }
      else do {
        r \<leftarrow> lookuppart s None path (-1);
        (case r of
           None \<Rightarrow> Some (Resp (Rerror ''read error''), s)
         | Some k \<Rightarrow> do {
             p \<leftarrow> load (ptab s) k;
             let n = updatefwin p offset count;
             if count < n then None \<comment> \<open>past the end of the reply's buffer\<close>
             else if 0 < n
             then (let ((n, text), os) = l_pread lib n (vlong (pt_base p + offset)) (pf_os s)
                   in Some (Resp (Rok n text), s\<lparr>pf_os := os\<rparr>))
             else Some (Resp (Rok n []), s)
           })
      })"

text \<open>The command \<open>part name start end\<close> and \<open>delpart name\<close>; \<open>Some\<close> an error string, or done.\<close>

definition ctl_part :: "'os plib \<Rightarrow> string list \<Rightarrow> 'os pfs \<Rightarrow> (string option \<times> 'os pfs) option" where
  "ctl_part lib f s = do {
     name \<leftarrow> load f 1;
     r \<leftarrow> lookuppart s (Some name) (-1) (-1);
     (case r of
        None \<Rightarrow> Some (Some ''number of partitions exceeded'', s)
      | Some k \<Rightarrow> do {
          p \<leftarrow> load (ptab s) k;
          f2 \<leftarrow> load f 2;
          f3 \<leftarrow> load f 3;
          let base = l_strtoll lib f2;
          let len = vlong (l_strtoll lib f3 - base);
          let base = vlong (base * dk_secsize (pf_disk s));
          let len = vlong (len * dk_secsize (pf_disk s));
          let p = p\<lparr>pt_base := base, pt_length := len\<rparr>;
          tab \<leftarrow> store (ptab s) k p;
          p0 \<leftarrow> load tab 0;
          if base < 0 \<or> pt_length p0 \<le> base \<or> pt_length p0 < vlong (base + len)
          then Some (Some ''partition exceeds device boundaries'', s\<lparr>ptab := tab\<rparr>)
          else do {
            let (p, np) = (if pt_name p = None then (p\<lparr>pt_name := Some name, pt_heap := True\<rparr>, nparts s + 1) else (p, nparts s));
            let newp = int32 (newpath s + 1);
            let p = p\<lparr>pt_path := newp, pt_mtime := l_time lib (pf_os s)\<rparr>;
            tab \<leftarrow> store tab k p;
            Some (None, s\<lparr>ptab := tab, nparts := np, newpath := newp\<rparr>)
          }
        })
   }"

definition ctl_delpart :: "string list \<Rightarrow> 'os pfs \<Rightarrow> 'os pfs option" where
  "ctl_delpart f s = do {
     name \<leftarrow> load f 1;
     r \<leftarrow> lookuppart s (Some name) (-1) (-1);
     (case r of
        None \<Rightarrow> Some s
      | Some k \<Rightarrow> do {
          p \<leftarrow> load (ptab s) k;
          if pt_name p \<noteq> None \<and> pt_path p \<noteq> Qdata then releasepart k s else Some s
        })
   }"

definition rwrite :: "'os plib \<Rightarrow> int \<Rightarrow> int \<Rightarrow> string \<Rightarrow> 'os pfs \<Rightarrow> (resp \<times> 'os pfs) option" where
  "rwrite lib path offset bs s =
     (let count = int (length bs)
      in if path = Qctl
      then (let f = l_parsecmd lib bs
            in case l_lookupcmd lib f cmdtab of
                 None \<Rightarrow> Some (Rerror ''%r'', s)
               | Some ct \<Rightarrow>
                   (case ct_index ct of
                      CMpart \<Rightarrow> do { (e, s) \<leftarrow> ctl_part lib f s;
                                   Some (case e of None \<Rightarrow> Rok count [] | Some e \<Rightarrow> Rerror e, s) }
                    | CMdelpart \<Rightarrow> do { s \<leftarrow> ctl_delpart f s; Some (Rok count [], s) }))
      else if dk_rdonly (pf_disk s) then Some (Rerror ''write prohibited'', s)
      else do {
        r \<leftarrow> lookuppart s None path (-1);
        (case r of
           None \<Rightarrow> Some (Rerror ''partition resource lost'', s)
         | Some k \<Rightarrow> do {
             p \<leftarrow> load (ptab s) k;
             let n = updatefwin p offset count;
             if 0 < n
             then (if count < n then None \<comment> \<open>past the end of the request's data\<close>
                   else let (n, os) = l_pwrite lib (take (nat n) bs) (vlong (pt_base p + offset)) (pf_os s)
                        in do {
                          tab \<leftarrow> store (ptab s) k (p\<lparr>pt_mtime := l_time lib (pf_os s)\<rparr>);
                          Some (Rok n [], s\<lparr>ptab := tab, pf_os := os\<rparr>)
                        })
             else Some (Rok n [], s)
           })
      })"

text \<open>\<open>rend\<close>: the counter goes down while the loop counts up.\<close>

function rend_loop :: "nat \<Rightarrow> int \<Rightarrow> 'os pfs \<Rightarrow> 'os pfs option" where
  "rend_loop k i s =
     (if nparts s \<le> i then Some s
      else case load (ptab s) k of
        None \<Rightarrow> None
      | Some p \<Rightarrow>
          if pt_name p = None then rend_loop (k + 1) i s
          else (case releasepart k s of None \<Rightarrow> None | Some s' \<Rightarrow> rend_loop (k + 1) (i + 1) s'))"
  by pat_completeness auto
termination
  by (relation "measure (\<lambda>(k, i, s). length (ptab s) - k)")
    (auto simp: load_def store_def releasepart_def split: if_splits dest!: bind_eq_SomeD)

declare rend_loop.simps [simp del]

definition initptab0 :: "disk \<Rightarrow> int \<Rightarrow> string \<Rightarrow> 'os \<Rightarrow> 'os pfs" where
  "initptab0 d now own os =
     \<lparr>ptab = ptab0[0 := (ptab0 ! 0)\<lparr>pt_length := dk_size d, pt_mtime := now\<rparr>], nparts = 1, newpath = Qdata, pf_disk = d,
      starttime = now, owner = own, datamode = (if dk_rdonly d then 288 else 416), pf_os = os\<rparr>"

section \<open>The table and its counter\<close>

abbreviation named :: "part \<Rightarrow> bool" where "named p \<equiv> pt_name p \<noteq> None"

definition nnamed :: "part list \<Rightarrow> int" where
  "nnamed ps = int (length (filter named ps))"

lemma nnamed_simps [simp]:
  "nnamed [] = 0" "nnamed (p # ps) = (if named p then 1 + nnamed ps else nnamed ps)"
  by (simp_all add: nnamed_def)

lemma nnamed_ge: "0 \<le> nnamed ps"
  by (simp add: nnamed_def)

lemma nnamed_update:
  "k < length ps \<Longrightarrow> nnamed (ps[k := p]) = nnamed ps - (if named (ps ! k) then 1 else 0) + (if named p then 1 else 0)"
proof (induction ps arbitrary: k)
  case (Cons q ps)
  then show ?case by (cases k) auto
qed simp

lemma lookup_loop_stop: "n \<le> i \<Longrightarrow> lookup_loop ps k i n name path ipart pf = Some (Inr pf)"
  by (subst lookup_loop.simps) simp

lemma lookup_loop_skip:
  "i < n \<Longrightarrow> \<not> named p \<Longrightarrow> lookup_loop (p # ps) k i n name path ipart pf = lookup_loop ps (k + 1) i n name path ipart k"
  by (subst lookup_loop.simps) simp

lemma lookup_loop_hit:
  "i < n \<Longrightarrow> named p \<Longrightarrow> part_hit name path ipart i p \<Longrightarrow> lookup_loop (p # ps) k i n name path ipart pf = Some (Inl k)"
  by (subst lookup_loop.simps) auto

lemma lookup_loop_miss:
  "i < n \<Longrightarrow> named p \<Longrightarrow> \<not> part_hit name path ipart i p
     \<Longrightarrow> lookup_loop (p # ps) k i n name path ipart pf = lookup_loop ps (k + 1) (i + 1) n name path ipart pf"
  by (subst lookup_loop.simps) auto

lemmas lookup_loop_steps = lookup_loop_skip lookup_loop_hit lookup_loop_miss

lemma nth_Cons_diff: "Suc k \<le> m \<Longrightarrow> (p # ps) ! (m - k) = ps ! (m - Suc k)"
  by (simp add: nth_Cons')

lemma nnamed_pos: "named p \<Longrightarrow> i < i + nnamed (p # ps)"
  using nnamed_ge [of ps] by simp

lemma lookup_loop_total: "n = i + nnamed ps \<Longrightarrow> lookup_loop ps k i n name path ipart pf \<noteq> None"
proof (induction ps arbitrary: k i pf)
  case Nil
  then show ?case by (simp add: lookup_loop_stop)
next
  case (Cons p ps)
  show ?case
  proof (cases "i < n")
    case False
    then show ?thesis by (simp add: lookup_loop_stop)
  next
    case True
    show ?thesis
    proof (cases "named p")
      case False
      with Cons.IH [of i "k + 1" k] Cons.prems True show ?thesis by (simp add: lookup_loop_skip)
    next
      case nm: True
      with Cons.IH [of "i + 1" "k + 1" pf] Cons.prems True show ?thesis
        by (cases "part_hit name path ipart i p") (simp_all add: lookup_loop_hit lookup_loop_miss)
    qed
  qed
qed

text \<open>A lookup by name or path.\<close>

definition pt_match :: "string option \<Rightarrow> int \<Rightarrow> part \<Rightarrow> bool" where
  "pt_match name path p = (case name of Some nm \<Rightarrow> pt_name p = Some nm | None \<Rightarrow> path = pt_path p)"

lemma part_hit_match: "part_hit name path (-1) i p = pt_match name path p"
  by (simp add: part_hit_def pt_match_def)

lemma lookup_loop_Inl:
  assumes "lookup_loop ps k i n name path ipart pf = Some (Inl m)"
  shows "k \<le> m \<and> m - k < length ps \<and> named (ps ! (m - k)) \<and> (ipart = -1 \<longrightarrow> pt_match name path (ps ! (m - k)))"
  using assms
proof (induction ps arbitrary: k i pf)
  case Nil
  then show ?case by (subst (asm) lookup_loop.simps) (simp split: if_splits)
next
  case (Cons p ps)
  have lt: "i < n" using Cons.prems by (rule contrapos_pp) (simp add: lookup_loop_stop)
  have rec: "k \<le> m \<and> m - k < length (p # ps) \<and> named ((p # ps) ! (m - k)) \<and> (ipart = -1 \<longrightarrow> pt_match name path ((p # ps) ! (m - k)))"
    if "lookup_loop ps (k + 1) i' n name path ipart pf' = Some (Inl m)" for i' pf'
    using Cons.IH [OF that] nth_Cons_diff [of k m p ps] by auto
  show ?case
  proof (cases "named p")
    case False
    with Cons.prems lt show ?thesis by (intro rec) (simp add: lookup_loop_skip)
  next
    case nm: True
    show ?thesis
    proof (cases "part_hit name path ipart i p")
      case True
      with Cons.prems lt nm have "m = k" by (simp add: lookup_loop_hit)
      with nm True show ?thesis by (auto simp: part_hit_match)
    next
      case False
      with Cons.prems lt nm show ?thesis by (intro rec) (simp add: lookup_loop_miss)
    qed
  qed
qed

text \<open>Nothing matches, and the slot returned is free.\<close>

lemma lookup_loop_Inr:
  assumes "n = i + nnamed ps" "lookup_loop ps k i n name path (-1) pf = Some (Inr m)"
  shows "(\<forall>p \<in> set ps. named p \<longrightarrow> \<not> pt_match name path p)
    \<and> (m = pf \<and> (\<forall>j. int j < n - i \<longrightarrow> j < length ps \<and> named (ps ! j))
       \<or> k \<le> m \<and> m - k < length ps \<and> \<not> named (ps ! (m - k)))"
  using assms
proof (induction ps arbitrary: k i pf)
  case Nil
  then show ?case by (subst (asm) lookup_loop.simps) simp
next
  case (Cons p ps)
  show ?case
  proof (cases "n \<le> i")
    case True
    then have "nnamed (p # ps) = 0" using Cons.prems(1) nnamed_ge [of "p # ps"] by linarith
    then have "\<forall>q \<in> set (p # ps). \<not> named q"
      unfolding nnamed_def of_nat_eq_0_iff length_0_conv filter_empty_conv by blast
    moreover have "m = pf" using Cons.prems(2) True by (simp add: lookup_loop_stop)
    ultimately show ?thesis using True by auto
  next
    case ni: False
    show ?thesis
    proof (cases "named p")
      case True
      have nm: "\<not> pt_match name path p"
        using Cons.prems(2) ni True by (auto simp: lookup_loop_hit part_hit_match)
      have "lookup_loop ps (k + 1) (i + 1) n name path (-1) pf = Some (Inr m)"
        using Cons.prems(2) ni True nm by (simp add: lookup_loop_miss part_hit_match)
      from Cons.IH [OF _ this] Cons.prems(1) True
      have ih: "\<forall>p \<in> set ps. named p \<longrightarrow> \<not> pt_match name path p"
        and "m = pf \<and> (\<forall>j. int j < n - (i + 1) \<longrightarrow> j < length ps \<and> named (ps ! j))
          \<or> k + 1 \<le> m \<and> m - (k + 1) < length ps \<and> \<not> named (ps ! (m - (k + 1)))" by auto
      from this(2) show ?thesis
      proof (elim disjE conjE)
        assume a: "m = pf" "\<forall>j. int j < n - (i + 1) \<longrightarrow> j < length ps \<and> named (ps ! j)"
        have "\<forall>j. int j < n - i \<longrightarrow> j < length (p # ps) \<and> named ((p # ps) ! j)"
          using a(2) True by (auto simp: nth_Cons split: nat.splits)
        with a(1) ih nm show ?thesis by auto
      next
        assume "k + 1 \<le> m" "m - (k + 1) < length ps" "\<not> named (ps ! (m - (k + 1)))"
        then have "k \<le> m \<and> m - k < length (p # ps) \<and> \<not> named ((p # ps) ! (m - k))"
          using nth_Cons_diff [of k m p ps] by auto
        with ih nm show ?thesis by auto
      qed
    next
      case np: False
      have "lookup_loop ps (k + 1) i n name path (-1) k = Some (Inr m)"
        using Cons.prems(2) ni np by (simp add: lookup_loop_skip)
      from Cons.IH [OF _ this] Cons.prems(1) np
      have ih: "\<forall>p \<in> set ps. named p \<longrightarrow> \<not> pt_match name path p"
        and "m = k \<or> k + 1 \<le> m \<and> m - (k + 1) < length ps \<and> \<not> named (ps ! (m - (k + 1)))" by auto
      from this(2) have "k \<le> m \<and> m - k < length (p # ps) \<and> \<not> named ((p # ps) ! (m - k))"
        using np nth_Cons_diff [of k m p ps] by auto
      with ih np show ?thesis by auto
    qed
  qed
qed

section \<open>The invariant\<close>

text \<open>32 slots, of which the counter says how many are taken; slot 0 keeps the literal name; names are
  used once. While \<open>newpath\<close>, a \<open>long\<close> of 32 bits, has not wrapped around (\<open>b\<close>), paths are used once as
  well and no path has been given out that is above it.\<close>

definition tab_ok :: "bool \<Rightarrow> part list \<Rightarrow> int \<Rightarrow> int \<Rightarrow> bool" where
  "tab_ok b ps n newp \<longleftrightarrow> length ps = 32 \<and> n = nnamed ps \<and> pt_name (ps ! 0) = Some ''data'' \<and> \<not> pt_heap (ps ! 0)
     \<and> (\<forall>j < 32. \<forall>k < 32. named (ps ! j) \<and> named (ps ! k) \<and> pt_name (ps ! j) = pt_name (ps ! k) \<longrightarrow> j = k)
     \<and> (b \<longrightarrow> Qdata \<le> newp \<and> (\<forall>k < 32. named (ps ! k) \<longrightarrow> Qdata \<le> pt_path (ps ! k) \<and> pt_path (ps ! k) \<le> newp)
          \<and> (\<forall>j < 32. \<forall>k < 32. named (ps ! j) \<and> named (ps ! k) \<and> pt_path (ps ! j) = pt_path (ps ! k) \<longrightarrow> j = k))"

definition pf_ok :: "bool \<Rightarrow> 'os pfs \<Rightarrow> bool" where
  "pf_ok b s \<longleftrightarrow> tab_ok b (ptab s) (nparts s) (newpath s)"

definition pf_inv :: "'os pfs \<Rightarrow> bool" where
  "pf_inv s \<longleftrightarrow> tab_ok False (ptab s) (nparts s) (newpath s)"

lemma pf_ok_inv: "pf_ok b s \<Longrightarrow> pf_inv s"
  by (simp add: pf_ok_def pf_inv_def tab_ok_def)

lemma tab_okD:
  assumes "tab_ok b ps n newp"
  shows "length ps = 32" "n = nnamed ps" "pt_name (ps ! 0) = Some ''data''" "\<not> pt_heap (ps ! 0)" "b \<Longrightarrow> Qdata \<le> newp"
    "\<And>k. b \<Longrightarrow> k < 32 \<Longrightarrow> named (ps ! k) \<Longrightarrow> Qdata \<le> pt_path (ps ! k) \<and> pt_path (ps ! k) \<le> newp"
    "\<And>j k. b \<Longrightarrow> j < 32 \<Longrightarrow> k < 32 \<Longrightarrow> named (ps ! j) \<Longrightarrow> named (ps ! k) \<Longrightarrow> pt_path (ps ! j) = pt_path (ps ! k) \<Longrightarrow> j = k"
    "\<And>j k. j < 32 \<Longrightarrow> k < 32 \<Longrightarrow> named (ps ! j) \<Longrightarrow> named (ps ! k) \<Longrightarrow> pt_name (ps ! j) = pt_name (ps ! k) \<Longrightarrow> j = k"
  using assms unfolding tab_ok_def by blast+

lemma tab_ok_same:
  assumes "tab_ok b ps n newp" "k < 32" "pt_name p = pt_name (ps ! k)" "pt_path p = pt_path (ps ! k)" "pt_heap p = pt_heap (ps ! k)"
  shows "tab_ok b (ps[k := p]) n newp"
proof -
  note d = tab_okD [OF assms(1)]
  have nm: "pt_name (ps[k := p] ! j) = pt_name (ps ! j)" "pt_path (ps[k := p] ! j) = pt_path (ps ! j)"
    "pt_heap (ps[k := p] ! j) = pt_heap (ps ! j)" for j
    using assms(2-) d(1) by (cases "j = k"; simp)+
  have "nnamed (ps[k := p]) = nnamed ps" using assms(2,3) d(1) by (simp add: nnamed_update)
  then show ?thesis using assms(1) unfolding tab_ok_def nm by simp
qed

lemma tab_ok_put:
  assumes "tab_ok b ps n newp" "k < 32" "b \<Longrightarrow> pt_path p = newp + 1 \<and> newp' = newp + 1" "pt_name p = Some nm"
    and "named (ps ! k) \<and> pt_name (ps ! k) = Some nm \<and> pt_heap p = pt_heap (ps ! k) \<and> n' = n
       \<or> \<not> named (ps ! k) \<and> n' = n + 1 \<and> (\<forall>q \<in> set ps. named q \<longrightarrow> pt_name q \<noteq> Some nm)"
  shows "tab_ok b (ps[k := p]) n' newp'"
proof -
  note d = tab_okD [OF assms(1)]
  let ?ps = "ps[k := p]"
  have at: "?ps ! j = (if j = k then p else ps ! j)" if "j < 32" for j
    using that d(1) assms(2) by simp
  have k0: "\<not> named (ps ! k) \<Longrightarrow> k \<noteq> 0" using d(3) by (cases k) auto
  have other: "pt_name (ps ! j) \<noteq> Some nm" if "j < 32" "j \<noteq> k" "named (ps ! j)" for j
  proof
    assume e: "pt_name (ps ! j) = Some nm"
    from assms(5) show False
    proof
      assume "named (ps ! k) \<and> pt_name (ps ! k) = Some nm \<and> pt_heap p = pt_heap (ps ! k) \<and> n' = n"
      with d(8) [OF that(1) assms(2) that(3)] e that(2) show False by simp
    next
      assume "\<not> named (ps ! k) \<and> n' = n + 1 \<and> (\<forall>q \<in> set ps. named q \<longrightarrow> pt_name q \<noteq> Some nm)"
      with that e d(1) show False by auto
    qed
  qed
  have cnt: "n' = nnamed ?ps" using assms(2,4,5) d(1,2) by (auto simp: nnamed_update)
  have z: "pt_name (?ps ! 0) = Some ''data''" "\<not> pt_heap (?ps ! 0)"
    using assms(4,5) d(3,4) k0 by (auto simp: at)
  have pth: "\<forall>j < 32. named (?ps ! j) \<longrightarrow> Qdata \<le> pt_path (?ps ! j) \<and> pt_path (?ps ! j) \<le> newp'" if "b"
    using d(5,6) [OF that] assms(3) [OF that] by (fastforce simp: at)
  have un: "j = l" if "j < 32" "l < 32" "named (?ps ! j)" "named (?ps ! l)" "pt_name (?ps ! j) = pt_name (?ps ! l)" for j l
    using that other [OF that(1)] other [OF that(2)] d(8) [OF that(1,2)] assms(4) by (cases "j = k"; cases "l = k") (auto simp: at)
  have up: "j = l" if "b" "j < 32" "l < 32" "named (?ps ! j)" "named (?ps ! l)" "pt_path (?ps ! j) = pt_path (?ps ! l)" for j l
    using that d(6) [OF that(1,2)] d(6) [OF that(1,3)] d(7) [OF that(1-3)] assms(3) [OF that(1)]
    by (cases "j = k"; cases "l = k") (auto simp: at)
  have "length ?ps = 32" "b \<Longrightarrow> Qdata \<le> newp'" using d(1,5) assms(3) by auto
  then show ?thesis unfolding tab_ok_def using cnt z pth un up by blast
qed

lemma tab_ok_release:
  assumes "tab_ok b ps n newp" "k < 32" "named (ps ! k)" "pt_heap (ps ! k)" "pt_name p = None"
  shows "tab_ok b (ps[k := p]) (n - 1) newp"
proof -
  note d = tab_okD [OF assms(1)]
  have k0: "k \<noteq> 0" using assms(4) d(4) by (cases k) auto
  have at: "ps[k := p] ! j = (if j = k then p else ps ! j)" if "j < 32" for j
    using that d(1) assms(2) by simp
  have "n - 1 = nnamed (ps[k := p])" using assms d(1,2) by (simp add: nnamed_update)
  then show ?thesis
    unfolding tab_ok_def using d k0 assms(2,5) by (intro conjI) (auto simp: at)
qed

text \<open>What a lookup by name or path gives.\<close>

lemma first_free:
  assumes "\<forall>j. int j < nnamed ps \<longrightarrow> j < length ps \<and> named (ps ! j)" "nat (nnamed ps) < length ps"
  shows "\<not> named (ps ! nat (nnamed ps))"
proof
  define k where "k = nat (nnamed ps)"
  assume "named (ps ! nat (nnamed ps))"
  then have "\<forall>j < Suc k. named (ps ! j)" using assms(1) nnamed_ge [of ps] by (auto simp: k_def less_Suc_eq)
  then have "\<forall>p \<in> set (take (Suc k) ps). named p" using assms(2) by (auto simp: k_def in_set_conv_nth)
  then have "filter named (take (Suc k) ps) = take (Suc k) ps" by simp
  then have "length (filter named (take (Suc k) ps)) = Suc k" using assms(2) by (simp add: k_def)
  moreover have "length (filter named ps) = length (filter named (take (Suc k) ps)) + length (filter named (drop (Suc k) ps))"
    by (metis append_take_drop_id filter_append length_append)
  ultimately show False by (simp add: k_def nnamed_def)
qed

lemma lookuppart_spec:
  assumes "pf_inv s"
  shows "\<exists>r. lookuppart s name path (-1) = Some r \<and>
    (case r of
       None \<Rightarrow> \<forall>p \<in> set (ptab s). named p \<longrightarrow> \<not> pt_match name path p
     | Some k \<Rightarrow> k < 32 \<and> (named (ptab s ! k) \<and> pt_match name path (ptab s ! k)
          \<or> name \<noteq> None \<and> \<not> named (ptab s ! k) \<and> (\<forall>p \<in> set (ptab s). named p \<longrightarrow> \<not> pt_match name path p)))"
proof -
  from assms have t: "length (ptab s) = 32" "nparts s = nnamed (ptab s)" by (simp_all add: pf_inv_def tab_ok_def)
  have n: "nparts s = 0 + nnamed (ptab s)" using t by simp
  from lookup_loop_total [OF n, of 0 name path "-1" "nat (nparts s)"]
  obtain r where r: "lookup_loop (ptab s) 0 0 (nparts s) name path (-1) (nat (nparts s)) = Some r" by blast
  show ?thesis
  proof (cases r)
    case (Inl k)
    with lookup_loop_Inl [of "ptab s" 0 0 "nparts s" name path "-1"] r t show ?thesis by (fastforce simp: lookuppart_def)
  next
    case (Inr k)
    from lookup_loop_Inr [OF n r [unfolded Inr]]
    have nom: "\<forall>p \<in> set (ptab s). named p \<longrightarrow> \<not> pt_match name path p"
      and k: "k = nat (nparts s) \<and> (\<forall>j. int j < nparts s - 0 \<longrightarrow> j < length (ptab s) \<and> named (ptab s ! j))
         \<or> k < length (ptab s) \<and> \<not> named (ptab s ! k)" by simp_all
    show ?thesis
    proof (cases "nparts s = NPART \<or> name = None")
      case True
      with r Inr nom show ?thesis by (simp add: lookuppart_def)
    next
      case False
      have "nnamed (ptab s) \<le> 32" using t(1) length_filter_le [of named "ptab s"] by (simp add: nnamed_def)
      then have "nnamed (ptab s) < 32" using False t by (auto simp: NPART_def)
      then have "nat (nparts s) < 32" using t by simp
      with k first_free [of "ptab s"] t have "k < 32 \<and> \<not> named (ptab s ! k)" by auto
      with r Inr nom False show ?thesis by (auto simp: lookuppart_def)
    qed
  qed
qed

lemma load_Some': "load xs i = Some x \<Longrightarrow> i < length xs \<and> x = xs ! i"
  by (simp add: load_def split: if_splits)

lemma store_Some': "store xs i v = Some ys \<Longrightarrow> i < length xs \<and> ys = xs[i := v]"
  by (simp add: store_def split: if_splits)

lemma ctl_part_inv:
  assumes "pf_ok b s" "ctl_part lib f s = Some (e, s')" "b \<Longrightarrow> newpath s < 2147483647"
  shows "pf_ok b s' \<and> (b \<longrightarrow> newpath s' \<le> newpath s + 1)"
proof -
  from assms(2) obtain name where nm: "load f 1 = Some name" by (auto simp: ctl_part_def dest!: bind_eq_SomeD)
  from lookuppart_spec [OF pf_ok_inv [OF assms(1)], of "Some name" "-1"] obtain r where r: "lookuppart s (Some name) (-1) (-1) = Some r"
    "case r of None \<Rightarrow> \<forall>p \<in> set (ptab s). named p \<longrightarrow> \<not> pt_match (Some name) (-1) p
     | Some k \<Rightarrow> k < 32 \<and> (named (ptab s ! k) \<and> pt_match (Some name) (-1) (ptab s ! k)
          \<or> Some name \<noteq> None \<and> \<not> named (ptab s ! k) \<and> (\<forall>p \<in> set (ptab s). named p \<longrightarrow> \<not> pt_match (Some name) (-1) p))" by blast
  show ?thesis
  proof (cases r)
    case None
    with assms nm r(1) show ?thesis by (simp add: ctl_part_def)
  next
    case (Some k)
    have t: "tab_ok b (ptab s) (nparts s) (newpath s)" using assms(1) by (simp add: pf_ok_def)
    note len = tab_okD(1) [OF t]
    have k: "k < 32" "named (ptab s ! k) \<and> pt_name (ptab s ! k) = Some name
       \<or> \<not> named (ptab s ! k) \<and> (\<forall>p \<in> set (ptab s). named p \<longrightarrow> pt_name p \<noteq> Some name)"
      using r(2) Some by (auto simp: pt_match_def)
    from assms(2) nm r(1) Some len k(1) obtain f2 f3 where f23: "load f 2 = Some f2" "load f 3 = Some f3"
      by (auto simp: ctl_part_def cmem dest!: bind_eq_SomeD)
    define base where "base = vlong (l_strtoll lib f2 * dk_secsize (pf_disk s))"
    define ln where "ln = vlong (vlong (l_strtoll lib f3 - l_strtoll lib f2) * dk_secsize (pf_disk s))"
    define q where "q = (ptab s ! k)\<lparr>pt_base := base, pt_length := ln\<rparr>"
    define tab where "tab = (ptab s)[k := q]"
    have q: "pt_name q = pt_name (ptab s ! k)" "pt_path q = pt_path (ptab s ! k)" "pt_heap q = pt_heap (ptab s ! k)"
      by (simp_all add: q_def)
    have ltab: "length tab = 32" using len by (simp add: tab_def)
    have tk: "tab_ok b tab (nparts s) (newpath s)" unfolding tab_def by (rule tab_ok_same [OF t k(1) q])
    have st: "store (ptab s) k q = Some tab" "load (ptab s) k = Some (ptab s ! k)" "load tab 0 = Some (tab ! 0)"
      using len k(1) ltab by (simp_all add: cmem tab_def)
    show ?thesis
    proof (cases "base < 0 \<or> pt_length (tab ! 0) \<le> base \<or> pt_length (tab ! 0) < vlong (base + ln)")
      case True
      with assms(2) have "s' = s\<lparr>ptab := tab\<rparr>"
        using nm r(1) Some f23 st by (simp add: ctl_part_def base_def [symmetric] ln_def [symmetric] q_def [symmetric])
      then show ?thesis using tk by (simp add: pf_ok_def)
    next
      case False
      define p1 where "p1 = (if pt_name q = None then q\<lparr>pt_name := Some name, pt_heap := True\<rparr> else q)"
      define np where "np = (if pt_name q = None then nparts s + 1 else nparts s)"
      define p2 where "p2 = p1\<lparr>pt_path := int32 (newpath s + 1), pt_mtime := l_time lib (pf_os s)\<rparr>"
      have pr: "(if pt_name q = None then (q\<lparr>pt_name := Some name, pt_heap := True\<rparr>, nparts s + 1) else (q, nparts s)) = (p1, np)"
        by (simp add: p1_def np_def)
      have st2: "store tab k p2 = Some (tab[k := p2])" using ltab k(1) by (simp add: cmem)
      have s': "s' = s\<lparr>ptab := tab[k := p2], nparts := np, newpath := int32 (newpath s + 1)\<rparr>"
        using assms(2) False nm r(1) Some f23 st st2
        by (simp add: ctl_part_def base_def [symmetric] ln_def [symmetric] q_def [symmetric] pr p2_def [symmetric])
      have old: "named (tab ! k) \<and> pt_name (tab ! k) = Some name \<and> pt_heap p2 = pt_heap (tab ! k) \<and> np = nparts s
         \<or> \<not> named (tab ! k) \<and> np = nparts s + 1 \<and> (\<forall>x \<in> set tab. named x \<longrightarrow> pt_name x \<noteq> Some name)"
      proof -
        have tk: "tab ! k = q" using len k(1) by (simp add: tab_def)
        have "\<forall>x \<in> set tab. x = q \<or> x \<in> set (ptab s)" using set_update_subset_insert [of "ptab s" k q] by (auto simp: tab_def)
        then have "\<forall>x \<in> set tab. named x \<longrightarrow> pt_name x \<noteq> Some name"
          if "\<not> named (ptab s ! k)" "\<forall>p \<in> set (ptab s). named p \<longrightarrow> pt_name p \<noteq> Some name"
          using that q(1) by metis
        then show ?thesis using k(2) q unfolding tk by (auto simp: p2_def p1_def np_def)
      qed
      have w: "int32 (newpath s + 1) = newpath s + 1" if "b"
        using tab_okD(5) [OF t that] assms(3) [OF that] by (intro int32_id) (simp_all add: Qdata_def)
      have "pt_path p2 = newpath s + 1 \<and> int32 (newpath s + 1) = newpath s + 1" if "b" using w [OF that] by (simp add: p2_def)
      moreover have "pt_name p2 = Some name" using k(2) q by (auto simp: p2_def p1_def)
      ultimately show ?thesis using tab_ok_put [OF tk k(1) _ _ old, of "int32 (newpath s + 1)"] w
        unfolding s' by (simp add: pf_ok_def)
    qed
  qed
qed

lemma ctl_delpart_inv:
  assumes "pf_ok b s" "ctl_delpart f s = Some s'"
  shows "pf_ok b s' \<and> newpath s' = newpath s"
proof -
  from assms(2) obtain name where nm: "load f 1 = Some name" by (auto simp: ctl_delpart_def dest!: bind_eq_SomeD)
  from lookuppart_spec [OF pf_ok_inv [OF assms(1)], of "Some name" "-1"] obtain r where r: "lookuppart s (Some name) (-1) (-1) = Some r"
    "\<And>k. r = Some k \<Longrightarrow> k < 32" by (auto split: option.splits)
  have t: "tab_ok b (ptab s) (nparts s) (newpath s)" using assms(1) by (simp add: pf_ok_def)
  note len = tab_okD(1) [OF t]
  show ?thesis
  proof (cases r)
    case None
    with assms nm r(1) show ?thesis by (simp add: ctl_delpart_def)
  next
    case (Some k)
    let ?p = "ptab s ! k"
    have k: "k < 32" by (rule r(2) [OF Some])
    with assms(2) nm r(1) Some len
    have s': "(if named ?p \<and> pt_path ?p \<noteq> Qdata then releasepart k s else Some s) = Some s'"
      by (simp add: ctl_delpart_def cmem)
    show ?thesis
    proof (cases "named ?p \<and> pt_path ?p \<noteq> Qdata")
      case False
      with s' assms(1) show ?thesis by auto
    next
      case True
      with s' len k have h: "pt_heap ?p" and e: "s' = s\<lparr>ptab := (ptab s)[k := ?p\<lparr>pt_name := None, pt_heap := False, pt_path := -1\<rparr>],
          nparts := nparts s - 1\<rparr>"
        by (auto simp: releasepart_def cmem split: if_splits)
      from tab_ok_release [OF t k _ h, of "?p\<lparr>pt_name := None, pt_heap := False, pt_path := -1\<rparr>"] True
      show ?thesis unfolding e by (simp add: pf_ok_def)
    qed
  qed
qed

lemma rwrite_pf_inv:
  assumes "pf_ok b s" "rwrite lib path offset bs s = Some (r, s')" "b \<Longrightarrow> newpath s < 2147483647"
  shows "pf_ok b s' \<and> (b \<longrightarrow> newpath s' \<le> newpath s + 1)"
proof (cases "path = Qctl")
  case True
  show ?thesis
  proof (cases "l_lookupcmd lib (l_parsecmd lib bs) cmdtab")
    case None
    with assms True show ?thesis by (simp add: rwrite_def)
  next
    case (Some ct)
    show ?thesis
    proof (cases "ct_index ct")
      case CMpart
      with assms(2) True Some obtain e where "ctl_part lib (l_parsecmd lib bs) s = Some (e, s')"
        by (auto simp: rwrite_def dest!: bind_eq_SomeD)
      from ctl_part_inv [OF assms(1) this assms(3)] show ?thesis .
    next
      case CMdelpart
      with assms(2) True Some have "ctl_delpart (l_parsecmd lib bs) s = Some s'"
        by (auto simp: rwrite_def dest!: bind_eq_SomeD)
      from ctl_delpart_inv [OF assms(1) this] show ?thesis by simp
    qed
  qed
next
  case False
  have t: "tab_ok b (ptab s) (nparts s) (newpath s)" using assms(1) by (simp add: pf_ok_def)
  from assms(2) False consider "s' = s" | k p os where "k < 32" "s' = s\<lparr>ptab := (ptab s)[k := (ptab s ! k)\<lparr>pt_mtime := p\<rparr>], pf_os := os\<rparr>"
    using tab_okD(1) [OF t]
    by (auto simp: rwrite_def Let_def split: if_splits option.splits prod.splits dest!: bind_eq_SomeD load_Some' store_Some')
  then show ?thesis
  proof cases
    case 1
    with assms(1) show ?thesis by simp
  next
    case 2
    from tab_ok_same [OF t 2(1), of "(ptab s ! k)\<lparr>pt_mtime := p\<rparr>"] 2(2) show ?thesis by (simp add: pf_ok_def)
  qed
qed

lemma rread_ptab: "rread lib path offset count s = Some (r, s') \<Longrightarrow> ptab s' = ptab s \<and> nparts s' = nparts s \<and> newpath s' = newpath s"
  by (auto simp: rread_def Let_def split: if_splits option.splits prod.splits dest!: bind_eq_SomeD)

text \<open>The states of the server: from the start, through any sequence of requests.\<close>

inductive pfs_reach :: "'os plib \<Rightarrow> disk \<Rightarrow> 'os pfs \<Rightarrow> bool" for lib :: "'os plib" and d :: disk where
  pfs_start: "pfs_reach lib d (initptab0 d now own os)"
| pfs_read: "pfs_reach lib d s \<Longrightarrow> rread lib path offset count s = Some (r, s') \<Longrightarrow> pfs_reach lib d s'"
| pfs_write: "pfs_reach lib d s \<Longrightarrow> rwrite lib path offset bs s = Some (w, s') \<Longrightarrow> pfs_reach lib d s'"

lemma initptab0_ok: "pf_ok b (initptab0 d now own os)"
proof -
  define p0 where "p0 = (ptab0 ! 0)\<lparr>pt_length := dk_size d, pt_mtime := now\<rparr>"
  have p0: "pt_name p0 = Some ''data''" "pt_path p0 = Qdata" "\<not> pt_heap p0"
    by (simp_all add: p0_def ptab0_def no_part_def)
  have e: "ptab0[0 := p0] = p0 # replicate 31 no_part" by (simp add: ptab0_def)
  have at: "(p0 # replicate 31 no_part) ! j = (if j = 0 then p0 else no_part)" if "j < 32" for j
    using that by (simp add: nth_Cons')
  have "\<not> named no_part" by (simp add: no_part_def)
  then have "nnamed (p0 # replicate 31 no_part) = 1" using p0 by (simp add: nnamed_def)
  then have "tab_ok b (p0 # replicate 31 no_part) 1 Qdata"
    unfolding tab_ok_def using p0 \<open>\<not> named no_part\<close> by (auto simp: at)
  then show ?thesis by (simp add: pf_ok_def initptab0_def p0_def [symmetric] e)
qed

lemma pfs_reach_inv: "pfs_reach lib d s \<Longrightarrow> pf_inv s"
proof (induction rule: pfs_reach.induct)
  case (pfs_start now own os)
  show ?case by (rule pf_ok_inv [OF initptab0_ok])
next
  case (pfs_read s path offset count r s')
  with rread_ptab [OF pfs_read(2)] show ?case using pfs_read(3) by (simp add: pf_inv_def)
next
  case (pfs_write s path offset bs w s')
  then have "pf_ok False s" by (simp add: pf_ok_def pf_inv_def)
  from rwrite_pf_inv [OF this pfs_write(2)] show ?case by (simp add: pf_ok_def pf_inv_def)
qed

text \<open>The same with the number of write requests, each of which can take at most one new path.\<close>

inductive pfs_after :: "'os plib \<Rightarrow> disk \<Rightarrow> nat \<Rightarrow> 'os pfs \<Rightarrow> bool" for lib :: "'os plib" and d :: disk where
  after_start: "pfs_after lib d 0 (initptab0 d now own os)"
| after_read: "pfs_after lib d n s \<Longrightarrow> rread lib path offset count s = Some (r, s') \<Longrightarrow> pfs_after lib d n s'"
| after_write: "pfs_after lib d n s \<Longrightarrow> rwrite lib path offset bs s = Some (w, s') \<Longrightarrow> pfs_after lib d (Suc n) s'"

lemma pfs_after_reach: "pfs_reach lib d s \<longleftrightarrow> (\<exists>n. pfs_after lib d n s)"
proof
  show "pfs_reach lib d s \<Longrightarrow> \<exists>n. pfs_after lib d n s"
    by (induction rule: pfs_reach.induct) (blast intro: pfs_after.intros)+
  have "pfs_after lib d n s \<Longrightarrow> pfs_reach lib d s" for n
    by (induction rule: pfs_after.induct) (blast intro: pfs_reach.intros)+
  then show "\<exists>n. pfs_after lib d n s \<Longrightarrow> pfs_reach lib d s" by blast
qed

lemma pfs_after_ok: "pfs_after lib d n s \<Longrightarrow> n < 2147483646 \<Longrightarrow> pf_ok True s \<and> newpath s \<le> Qdata + int n"
proof (induction rule: pfs_after.induct)
  case (after_start now own os)
  have "newpath (initptab0 d now own os) = Qdata" by (simp add: initptab0_def)
  then show ?case by (simp add: initptab0_ok)
next
  case (after_read n s path offset count r s')
  with rread_ptab [OF after_read(2)] show ?case by (simp add: pf_ok_def)
next
  case (after_write n s path offset bs w s')
  then have i: "pf_ok True s" "newpath s \<le> Qdata + int n" by simp_all
  then have "newpath s < 2147483647" using after_write(4) by (simp add: Qdata_def)
  with rwrite_pf_inv [OF i(1) after_write(2)] i(2) show ?case by auto
qed

section \<open>Properties\<close>

lemma lookup_name_path:
  assumes "pf_inv s"
  shows "lookuppart s name path (-1) \<noteq> None"
  using lookuppart_spec [OF assms, of name path] by auto

text \<open>C16. In every state that requests can lead to, the table has 32 slots, the counter is the number of
  taken slots, slot 0 is the whole disk under its literal name, no two partitions have the same name, and a
  lookup by name or by path never runs past the end of the table. No two partitions have the same path
  as long as there were fewer than \<open>2\<^sup>31 - 2\<close> write requests: after that the counter \<open>newpath\<close>, a \<open>long\<close>
  of 32 bits, can have wrapped around.\<close>

theorem partfs_safe:
  assumes "pfs_after lib d n s"
  shows "length (ptab s) = 32 \<and> nparts s = nnamed (ptab s) \<and> pt_name (ptab s ! 0) = Some ''data''
    \<and> (\<forall>j < 32. \<forall>k < 32. named (ptab s ! j) \<and> named (ptab s ! k) \<and> pt_name (ptab s ! j) = pt_name (ptab s ! k) \<longrightarrow> j = k)
    \<and> (\<forall>name path. lookuppart s name path (-1) \<noteq> None)
    \<and> (n < 2147483646 \<longrightarrow>
        (\<forall>j < 32. \<forall>k < 32. named (ptab s ! j) \<and> named (ptab s ! k) \<and> pt_path (ptab s ! j) = pt_path (ptab s ! k) \<longrightarrow> j = k))"
proof -
  have i: "pf_inv s" using assms pfs_reach_inv pfs_after_reach by blast
  have "pf_ok True s" if "n < 2147483646" using pfs_after_ok [OF assms that] ..
  with i lookup_name_path [OF i] show ?thesis by (simp add: pf_inv_def pf_ok_def tab_ok_def)
qed

definition disk1 :: disk where
  "disk1 = \<lparr>dk_rdonly = False, dk_secs = 100, dk_secsize = 512, dk_c = 0, dk_h = 0, dk_s = 0, dk_size = 51200\<rparr>"

text \<open>A library to run the server with: the fields of a command are separated by blanks, numbers are decimal,
  and the disk is what \<open>pf_os\<close> holds.\<close>

fun fields :: "string \<Rightarrow> string \<Rightarrow> string list" where
  "fields [] w = [rev w]"
| "fields (c # cs) w = (if c = CHR '' '' then rev w # fields cs [] else fields cs (c # w))"

definition plib1 :: "string plib" where
  "plib1 = \<lparr>l_pread = (\<lambda>n off os. ((n, take (nat n) (drop (nat off) os)), os)),
            l_pwrite = (\<lambda>bs off os. (int (length bs), take (nat off) os @ bs @ drop (nat off + length bs) os)),
            l_parsecmd = (\<lambda>bs. fields bs []),
            l_lookupcmd = (\<lambda>f t. find (\<lambda>c. f \<noteq> [] \<and> ct_cmd c = hd f \<and> length f = ct_narg c) t),
            l_readbuf = (\<lambda>t off n. take (nat n) (drop (nat off) t)),
            l_time = (\<lambda>_. 7), l_strtoll = (\<lambda>s. int (dec_val 0 s))\<rparr>"

abbreviation pfs0 :: "string pfs" where
  "pfs0 \<equiv> initptab0 disk1 3 ''glenda'' (replicate 60 CHR ''x'')"

text \<open>The state after the command \<open>part a 1 2\<close>.\<close>

definition pfs1 :: "string pfs" where
  "pfs1 = pfs0\<lparr>ptab := (ptab pfs0)[1 := \<lparr>pt_path = 3, pt_name = Some ''a'', pt_heap = True, pt_base = 512, pt_length = 512, pt_mtime = 7\<rparr>],
     nparts := 2, newpath := 3\<rparr>"

lemma pfs0_lookup: "lookuppart pfs0 (Some ''a'') (-1) (-1) = Some (Some 1)"
  by (simp add: lookuppart_def initptab0_def ptab0_def lookup_loop_miss lookup_loop_stop part_hit_def NPART_def)

lemma pfs0_fields: "fields ''part a 1 2'' [] = [''part'', ''a'', ''1'', ''2'']"
  by simp

lemma pfs0_part: "ctl_part plib1 [''part'', ''a'', ''1'', ''2''] pfs0 = Some (None, pfs1)"
  unfolding ctl_part_def load_def using pfs0_lookup
  by (simp add: pfs1_def plib1_def disk1_def initptab0_def ptab0_def no_part_def store_def load_def vlong_id int32_id digit_val_def Qdata_def)

lemma pfs1_run: "rwrite plib1 Qctl 0 ''part a 1 2'' pfs0 = Some (Rok 10 [], pfs1)"
proof -
  have "l_parsecmd plib1 ''part a 1 2'' = [''part'', ''a'', ''1'', ''2'']" by (simp add: plib1_def)
  moreover have "l_lookupcmd plib1 [''part'', ''a'', ''1'', ''2''] cmdtab = Some \<lparr>ct_index = CMpart, ct_cmd = ''part'', ct_narg = 4\<rparr>"
    by (simp add: plib1_def cmdtab_def)
  ultimately show ?thesis using pfs0_part by (simp add: rwrite_def)
qed

lemma pfs1_reach: "pfs_reach plib1 disk1 pfs1"
  by (rule pfs_write [OF pfs_start pfs1_run])

lemma pfs1_after: "pfs_after plib1 disk1 1 pfs1"
  using after_write [OF after_start pfs1_run] by simp

lemma partfs_safe_witness:
  "length (ptab pfs1) = 32 \<and> nparts pfs1 = nnamed (ptab pfs1) \<and> (\<forall>name path. lookuppart pfs1 name path (-1) \<noteq> None)
   \<and> pt_path (ptab pfs1 ! 0) \<noteq> pt_path (ptab pfs1 ! 1)"
proof -
  have "named (ptab pfs1 ! 0)" "named (ptab pfs1 ! 1)" by (simp_all add: pfs1_def initptab0_def ptab0_def)
  moreover note c = partfs_safe [OF pfs1_after]
  from c have "\<forall>j < 32. \<forall>k < 32. named (ptab pfs1 ! j) \<and> named (ptab pfs1 ! k)
    \<and> pt_path (ptab pfs1 ! j) = pt_path (ptab pfs1 ! k) \<longrightarrow> j = k" by (elim conjE) simp
  moreover have "(0 :: nat) < 32" "(1 :: nat) < 32" "(0 :: nat) \<noteq> 1" by simp_all
  ultimately have "pt_path (ptab pfs1 ! 0) \<noteq> pt_path (ptab pfs1 ! 1)" by blast
  then show ?thesis using c by (elim conjE) (intro conjI)
qed

text \<open>The \<open>i\<close>-th partition of the table is found by its number.\<close>

lemma lookup_loop_number:
  assumes "n = i + nnamed ps" "0 \<le> i" "i \<le> j" "j < n"
  shows "\<exists>m. lookup_loop ps k i n None path j pf = Some (Inl (k + m)) \<and> m < length ps \<and> ps ! m = filter named ps ! nat (j - i)"
  using assms
proof (induction ps arbitrary: k i pf)
  case Nil
  then show ?case by simp
next
  case (Cons p ps)
  then have lt: "i < n" by simp
  show ?case
  proof (cases "named p")
    case False
    with Cons.IH [of i "k + 1" k] Cons.prems obtain m where
      "lookup_loop ps (k + 1) i n None path j k = Some (Inl (k + 1 + m))" "m < length ps" "ps ! m = filter named ps ! nat (j - i)" by auto
    with lt False show ?thesis by (intro exI [of _ "Suc m"]) (simp add: lookup_loop_skip)
  next
    case nm: True
    show ?thesis
    proof (cases "j = i")
      case True
      with lt nm Cons.prems(2) show ?thesis by (intro exI [of _ 0]) (auto simp: lookup_loop_hit part_hit_def)
    next
      case False
      with Cons.IH [of "i + 1" "k + 1" pf] Cons.prems nm obtain m where
        "lookup_loop ps (k + 1) (i + 1) n None path j pf = Some (Inl (k + 1 + m))" "m < length ps"
        "ps ! m = filter named ps ! nat (j - (i + 1))" by auto
      moreover have "nat (j - i) = Suc (nat (j - (i + 1)))" using False Cons.prems(3) by linarith
      moreover have "\<not> part_hit None path j i p" using False Cons.prems(2,3) by (simp add: part_hit_def)
      ultimately show ?thesis using lt nm by (intro exI [of _ "Suc m"]) (auto simp: lookup_loop_miss)
    qed
  qed
qed

definition part_dir :: "'os pfs \<Rightarrow> part \<Rightarrow> dir" where
  "part_dir s p = \<lparr>d_length = pt_length p, d_path = pt_path p, d_isdir = False,
     d_mode = (if dk_rdonly (pf_disk s) then 288 else 416), d_name = the (pt_name p), d_mtime = pt_mtime p,
     d_atime = starttime s, d_uid = owner s, d_gid = owner s\<rparr>"

definition ctl_dir :: "'os pfs \<Rightarrow> dir" where
  "ctl_dir s = \<lparr>d_length = 0, d_path = Qctl, d_isdir = False, d_mode = 416, d_name = ''ctl'',
     d_mtime = starttime s, d_atime = starttime s, d_uid = owner s, d_gid = owner s\<rparr>"

lemma dostat_number:
  assumes "pf_inv s" "0 \<le> j" "j < nparts s"
  shows "dostat s (Qdata + j) False = Some (Some (part_dir s (filter named (ptab s) ! nat j)))"
proof -
  have n: "nparts s = 0 + nnamed (ptab s)" using assms(1) by (simp add: pf_inv_def tab_ok_def)
  from lookup_loop_number [OF n _ assms(2,3), of 0 "-1" "nat (nparts s)"] obtain m where
    m: "lookup_loop (ptab s) 0 0 (nparts s) None (-1) j (nat (nparts s)) = Some (Inl m)" "m < length (ptab s)"
    "ptab s ! m = filter named (ptab s) ! nat j" by auto
  have "nat j < length (filter named (ptab s))" using assms(2,3) n by (simp add: nnamed_def)
  then have "named (filter named (ptab s) ! nat j)" using nth_mem by fastforce
  then show ?thesis using assms(2) m by (auto simp: dostat_def lookuppart_def cmem part_dir_def)
qed

lemma dir_entries_from:
  assumes "pf_inv s" "0 \<le> j" "j \<le> nparts s"
  shows "dir_entries s (1 + j) = Some (map (\<lambda>p. Some (part_dir s p)) (drop (nat j) (filter named (ptab s))))"
  using assms(2,3)
proof (induction "nat (nparts s - j)" arbitrary: j)
  case 0
  then have "j = nparts s" by simp
  moreover have "nat (nparts s) = length (filter named (ptab s))"
    using assms(1) by (simp add: pf_inv_def tab_ok_def nnamed_def)
  ultimately show ?case by (subst dir_entries.simps) (simp add: dirgen_def Let_def dirtab_def)
next
  case (Suc k)
  then have lt: "j < nparts s" by simp
  have "dirgen s (1 + j) = Some (Inr (Some (part_dir s (filter named (ptab s) ! nat j))))"
    using lt dostat_number [OF assms(1) Suc.prems(1) lt] by (simp add: dirgen_def Let_def dirtab_def Qdata_def)
  moreover have "dir_entries s (1 + (j + 1)) = Some (map (\<lambda>p. Some (part_dir s p)) (drop (nat (j + 1)) (filter named (ptab s))))"
    by (rule Suc.hyps(1)) (use Suc lt in auto)
  moreover have "drop (nat j) (filter named (ptab s)) = filter named (ptab s) ! nat j # drop (nat (j + 1)) (filter named (ptab s))"
  proof -
    have "nat j < length (filter named (ptab s))"
      using lt Suc.prems(1) assms(1) by (simp add: pf_inv_def tab_ok_def nnamed_def)
    moreover have "nat (j + 1) = Suc (nat j)" using Suc.prems(1) by simp
    ultimately show ?thesis by (simp add: Cons_nth_drop_Suc)
  qed
  ultimately show ?case by (subst dir_entries.simps) (simp add: add.assoc)
qed

text \<open>In every reachable state the directory consists of \<open>ctl\<close> and one entry for every partition, in the
  order of the table, each with the name, path, length and time of its partition: the listing by number skips
  the free slots and ends after the last partition.
\<close>

theorem directory_lists_partitions:
  assumes "pfs_reach lib d s"
  shows "dir_entries s 0 = Some (Some (ctl_dir s) # map (\<lambda>p. Some (part_dir s p)) (filter named (ptab s)))"
proof -
  have i: "pf_inv s" by (rule pfs_reach_inv [OF assms])
  then have "0 \<le> nparts s" using nnamed_ge by (simp add: pf_inv_def tab_ok_def)
  with dir_entries_from [OF i, of 0]
  have "dir_entries s 1 = Some (map (\<lambda>p. Some (part_dir s p)) (filter named (ptab s)))" by simp
  moreover have "1 \<le> nparts s"
  proof -
    have "ptab s ! 0 \<in> set (filter named (ptab s))" using i by (auto simp: pf_inv_def tab_ok_def)
    then have "filter named (ptab s) \<noteq> []" by (metis empty_iff empty_set)
    then show ?thesis using i by (simp add: pf_inv_def tab_ok_def nnamed_def Suc_leI)
  qed
  ultimately show ?thesis
    by (subst dir_entries.simps) (simp add: dirgen_def Let_def dostat_def dirtab_def Qdata_def ctl_dir_def load_def)
qed

lemma pfs1_ptab: "ptab pfs1 = (ptab0 ! 0)\<lparr>pt_length := 51200, pt_mtime := 3\<rparr>
    # \<lparr>pt_path = 3, pt_name = Some ''a'', pt_heap = True, pt_base = 512, pt_length = 512, pt_mtime = 7\<rparr> # replicate 30 no_part"
proof -
  have "replicate 31 no_part = no_part # replicate 30 no_part" by (simp only: numeral_eq_Suc pred_numeral_simps replicate.simps)
  then show ?thesis by (simp add: pfs1_def initptab0_def ptab0_def disk1_def)
qed

lemma directory_lists_partitions_witness:
  "map_option (map (map_option (\<lambda>e. (d_name e, d_path e, d_length e)))) (dir_entries pfs1 0)
     = Some [Some (''ctl'', 1, 0), Some (''data'', 2, 51200), Some (''a'', 3, 512)]"
  unfolding directory_lists_partitions [OF pfs1_reach] pfs1_ptab
  by (simp add: ptab0_def no_part_def part_dir_def ctl_dir_def Qctl_def Qdata_def)

text \<open>A library whose \<open>pread\<close> and \<open>pwrite\<close> refuse what is not inside a partition.\<close>

definition inside :: "part \<Rightarrow> int \<Rightarrow> int \<Rightarrow> bool" where
  "inside p off n \<longleftrightarrow> pt_base p \<le> off \<and> off + n \<le> pt_base p + pt_length p"

definition confine :: "part \<Rightarrow> 'os plib \<Rightarrow> 'os plib" where
  "confine p lib = lib\<lparr>l_pread := (\<lambda>n off os. if inside p off n then l_pread lib n off os else ((-1, []), os)),
     l_pwrite := (\<lambda>bs off os. if inside p off (int (length bs)) then l_pwrite lib bs off os else (-1, os))\<rparr>"

lemma confine_pwrite:
  "l_pwrite (confine p lib) bs off os = (if inside p off (int (length bs)) then l_pwrite lib bs off os else (-1, os))"
  by (simp add: confine_def)

lemma updatefwin_bounds:
  assumes "0 \<le> pt_base p" "0 \<le> pt_length p" "pt_base p + pt_length p < 2147483648"
    and "0 \<le> offset" "offset < 9223372034707292160" "0 \<le> count" "count < 2147483648"
    and "0 < updatefwin p offset count"
  shows "updatefwin p offset count \<le> count \<and> inside p (vlong (pt_base p + offset)) (updatefwin p offset count)"
proof -
  have v: "vlong (pt_base p + pt_length p) = pt_base p + pt_length p" "vlong (offset + count) = offset + count"
    "vlong (pt_base p + offset) = pt_base p + offset" using assms by (auto intro!: vlong_id)
  have lt: "offset < pt_base p + pt_length p" using assms(8) by (auto simp: updatefwin_def v split: if_splits)
  show ?thesis
  proof (cases "pt_length p < offset + count")
    case True
    have "int32 (pt_length p - offset) = pt_length p - offset" using assms lt by (intro int32_id) linarith+
    then have "updatefwin p offset count = pt_length p - offset" using True lt by (simp add: updatefwin_def v)
    then show ?thesis using True assms by (simp add: v inside_def)
  next
    case False
    have "int32 count = count" using assms by (intro int32_id) linarith+
    then have "updatefwin p offset count = count" using False lt by (simp add: updatefwin_def v)
    then show ?thesis using False assms by (simp add: v inside_def)
  qed
qed

text \<open>C23. Below 2 GB a partition confines its file: whatever the offset and the count of a request for the path of
  a partition, reading and writing touch the disk only inside \<open>[base, base + length)\<close> and never more bytes than
  asked for, so that a disk that refuses every other access cannot be told apart.
\<close>

theorem partition_confined:
  assumes "lookuppart s None path (-1) = Some (Some k)" "load (ptab s) k = Some p" "path \<noteq> Qdir" "path \<noteq> Qctl"
    and "0 \<le> pt_base p" "0 \<le> pt_length p" "pt_base p + pt_length p < 2147483648"
    and "0 \<le> offset" "offset < 9223372034707292160" "0 \<le> count" "count < 2147483648" "int (length bs) < 2147483648"
  shows "rread lib path offset count s = rread (confine p lib) path offset count s
    \<and> rread lib path offset count s \<noteq> None
    \<and> rwrite lib path offset bs s = rwrite (confine p lib) path offset bs s
    \<and> rwrite lib path offset bs s \<noteq> None"
proof -
  note b = updatefwin_bounds [OF assms(5-9)]
  have k: "store (ptab s) k q \<noteq> None" for q using assms(2) by (auto simp: store_def load_def split: if_splits)
  have len: "0 \<le> int (length bs)" by simp
  have nb: "count \<ge> updatefwin p offset count" if "0 < updatefwin p offset count" using b [OF assms(10,11) that] by simp
  have nc: "\<not> count < updatefwin p offset count" using nb assms(10) by fastforce
  have "rread lib path offset count s = rread (confine p lib) path offset count s"
    using assms(1-4) b [OF assms(10,11)] by (simp add: rread_def confine_def Let_def)
  moreover have "rread lib path offset count s \<noteq> None"
    using assms(1-4) nc by (simp add: rread_def Let_def split: prod.splits)
  moreover have "rwrite lib path offset bs s = rwrite (confine p lib) path offset bs s \<and> rwrite lib path offset bs s \<noteq> None"
  proof (cases "dk_rdonly (pf_disk s) \<or> \<not> 0 < updatefwin p offset (int (length bs))")
    case True
    then show ?thesis using assms(1-4) by (cases "dk_rdonly (pf_disk s)") (simp_all add: rwrite_def Let_def)
  next
    case False
    define w where "w = updatefwin p offset (int (length bs))"
    have w: "0 < w" "w \<le> int (length bs)" "inside p (vlong (pt_base p + offset)) w"
      using False b [OF len assms(12)] by (simp_all add: w_def)
    then have "int (length (take (nat w) bs)) = w" by simp
    with w have "l_pwrite (confine p lib) (take (nat w) bs) (vlong (pt_base p + offset)) os
        = l_pwrite lib (take (nat w) bs) (vlong (pt_base p + offset)) os" for os
      by (simp only: confine_pwrite if_True)
    moreover have "l_time (confine p lib) = l_time lib" by (simp add: confine_def)
    ultimately have e: "rwrite (confine p lib) path offset bs s = rwrite lib path offset bs s"
      using False assms(1-4) w(1,2) by (simp add: rwrite_def Let_def w_def [symmetric])
    obtain nn os where pw: "l_pwrite lib (take (nat w) bs) (vlong (pt_base p + offset)) (pf_os s) = (nn, os)" by fastforce
    have "rwrite lib path offset bs s \<noteq> None"
      using False assms(1-4) w(1,2) pw k by (simp add: rwrite_def Let_def w_def [symmetric] split: bind_splits)
    then show ?thesis using e by simp
  qed
  ultimately show ?thesis by blast
qed

lemma pfs1_path3: "lookuppart pfs1 None 3 (-1) = Some (Some 1)"
  unfolding lookuppart_def pfs1_ptab
  by (simp add: pfs1_def ptab0_def lookup_loop_hit lookup_loop_miss part_hit_def Qdata_def)

lemma pfs1_part: "load (ptab pfs1) 1 = Some \<lparr>pt_path = 3, pt_name = Some ''a'', pt_heap = True, pt_base = 512, pt_length = 512, pt_mtime = 7\<rparr>"
  unfolding pfs1_ptab by (simp add: load_def)

definition part_a :: part where
  "part_a = \<lparr>pt_path = 3, pt_name = Some ''a'', pt_heap = True, pt_base = 512, pt_length = 512, pt_mtime = 7\<rparr>"

lemma partition_confined_witness:
  "rread plib1 3 500 100 pfs1 = rread (confine part_a plib1) 3 500 100 pfs1 \<and> rread plib1 3 500 100 pfs1 \<noteq> None
    \<and> rwrite plib1 3 500 ''xyz'' pfs1 = rwrite (confine part_a plib1) 3 500 ''xyz'' pfs1 \<and> rwrite plib1 3 500 ''xyz'' pfs1 \<noteq> None"
  by (rule partition_confined [OF pfs1_path3 pfs1_part [folded part_a_def]]) (simp_all add: Qdir_def Qctl_def part_a_def)

text \<open>A partition that begins at 4 GB or later is not confined: the window is compared with \<open>base + length\<close>
  although offsets are relative to the partition, and the count computed from the negative rest is cut to 32
  bits. For an offset just below \<open>length + 2^32\<close> the server asks the disk for more bytes than the request has
  room for, and the reply's buffer, or on a write the request's data, is overrun.
\<close>

theorem far_partition_overruns:
  assumes "lookuppart s None path (-1) = Some (Some k)" "load (ptab s) k = Some p" "path \<noteq> Qdir" "path \<noteq> Qctl"
    and "4294967296 \<le> pt_base p" "0 \<le> pt_length p" "pt_base p + pt_length p < 9223372034707292160"
    and "0 \<le> count" "count < n" "n < 2147483648" "int (length bs) < n" "\<not> dk_rdonly (pf_disk s)"
  shows "rread lib path (pt_length p + 4294967296 - n) count s = None
    \<and> rwrite lib path (pt_length p + 4294967296 - n) bs s = None"
proof -
  have w: "updatefwin p (pt_length p + 4294967296 - n) c = n" if "0 \<le> c" "c < n" for c
  proof -
    have v: "vlong (pt_base p + pt_length p) = pt_base p + pt_length p"
      "vlong (pt_length p + 4294967296 - n + c) = pt_length p + 4294967296 - n + c"
      using assms that by (auto intro!: vlong_id)
    have "int32 (n - 4294967296) = n"
    proof -
      have "word_of_int (n - 4294967296) = (word_of_int n :: 32 word)" unfolding word_of_int_eq_iff take_bit_eq_mod by simp
      then have "int32 (n - 4294967296) = int32 n" unfolding int32_def by (rule arg_cong)
      then show ?thesis using assms(8,9,10) int32_id [of n] by simp
    qed
    then show ?thesis using assms that by (simp add: updatefwin_def v)
  qed
  have "updatefwin p (pt_length p + 4294967296 - n) count = n" using assms by (intro w)
  moreover have "updatefwin p (pt_length p + 4294967296 - n) (int (length bs)) = n" using assms by (intro w) simp_all
  ultimately show ?thesis using assms by (simp add: rread_def rwrite_def Let_def)
qed

text \<open>A disk of 8 GB with a partition of one sector at 4 GB.\<close>

definition pfs_far :: "string pfs" where
  "pfs_far = pfs1\<lparr>ptab := (ptab pfs1)[1 := (ptab pfs1 ! 1)\<lparr>pt_base := 4294967296\<rparr>]\<rparr>"

lemma far_partition_overruns_witness:
  "rread plib1 3 4294966808 8 pfs_far = None"
proof -
  have t: "ptab pfs_far = (ptab0 ! 0)\<lparr>pt_length := 51200, pt_mtime := 3\<rparr>
    # \<lparr>pt_path = 3, pt_name = Some ''a'', pt_heap = True, pt_base = 4294967296, pt_length = 512, pt_mtime = 7\<rparr> # replicate 30 no_part"
    unfolding pfs_far_def by (simp add: pfs1_ptab)
  have "lookuppart pfs_far None 3 (-1) = Some (Some 1)"
    unfolding lookuppart_def t by (simp add: pfs_far_def pfs1_def ptab0_def lookup_loop_hit lookup_loop_miss part_hit_def Qdata_def)
  moreover have "load (ptab pfs_far) 1
    = Some \<lparr>pt_path = 3, pt_name = Some ''a'', pt_heap = True, pt_base = 4294967296, pt_length = 512, pt_mtime = 7\<rparr>"
    unfolding t by (simp add: load_def)
  ultimately show ?thesis
    using far_partition_overruns [of pfs_far 3 1 _ 8 1000 "[]" plib1]
    by (simp add: Qdir_def Qctl_def pfs_far_def pfs1_def initptab0_def disk1_def)
qed

text \<open>A \<open>part\<close> command that is answered with the error that the partition exceeds the device has stored the new
  bounds all the same: an existing partition of that name, \<open>data\<close> included, keeps its place in the table and its
  path, and its file now has the bounds that were refused.
\<close>

theorem rejected_part_is_stored:
  assumes "pf_inv s" "lookuppart s (Some name) (-1) (-1) = Some (Some k)" "named (ptab s ! k)" "f = [cmd, name, f2, f3]"
    and "b = vlong (l_strtoll lib f2 * dk_secsize (pf_disk s))"
    and "n = vlong (vlong (l_strtoll lib f3 - l_strtoll lib f2) * dk_secsize (pf_disk s))"
    and "0 < k" "b < 0 \<or> pt_length (ptab s ! 0) \<le> b \<or> pt_length (ptab s ! 0) < vlong (b + n)"
  shows "ctl_part lib f s = Some (Some ''partition exceeds device boundaries'',
    s\<lparr>ptab := (ptab s)[k := (ptab s ! k)\<lparr>pt_base := b, pt_length := n\<rparr>]\<rparr>)"
proof -
  have t: "tab_ok False (ptab s) (nparts s) (newpath s)" using assms(1) by (simp add: pf_inv_def)
  have k: "k < 32" using lookuppart_spec [OF assms(1), of "Some name" "-1"] assms(2) by auto
  have z: "(ptab s)[k := p] ! 0 = ptab s ! 0" for p using assms(7) by simp
  have l: "load (ptab s) k = Some (ptab s ! k)" "load ((ptab s)[k := p]) 0 = Some (ptab s ! 0)"
    "store (ptab s) k p = Some ((ptab s)[k := p])" for p
    using k tab_okD(1) [OF t] z by (simp_all add: cmem)
  have f: "load f 1 = Some name" "load f 2 = Some f2" "load f 3 = Some f3" using assms(4) by (simp_all add: load_def)
  show ?thesis unfolding ctl_part_def f using assms(2,8) by (simp add: l assms(5,6) [symmetric])
qed

lemma pfs1_lookup_a: "lookuppart pfs1 (Some ''a'') (-1) (-1) = Some (Some 1)"
  unfolding lookuppart_def pfs1_ptab
  by (simp add: pfs1_def ptab0_def lookup_loop_hit lookup_loop_miss part_hit_def Qdata_def)

lemma rejected_part_is_stored_witness:
  "map_option (\<lambda>(e, s). (e, ptab s ! 1)) (ctl_part plib1 [''part'', ''a'', ''1'', ''900''] pfs1)
     = Some (Some ''partition exceeds device boundaries'', part_a\<lparr>pt_length := 460288\<rparr>)"
proof -
  have a: "ptab pfs1 ! 1 = part_a" "ptab pfs1 ! 0 = (ptab0 ! 0)\<lparr>pt_length := 51200, pt_mtime := 3\<rparr>" "length (ptab pfs1) = 32"
    by (simp_all add: pfs1_ptab part_a_def)
  have v: "vlong (l_strtoll plib1 ''1'' * dk_secsize (pf_disk pfs1)) = 512"
    "vlong (vlong (l_strtoll plib1 ''900'' - l_strtoll plib1 ''1'') * dk_secsize (pf_disk pfs1)) = 460288"
    by (simp_all add: plib1_def pfs1_def initptab0_def disk1_def digit_val_def vlong_id)
  have n: "named (ptab pfs1 ! 1)" unfolding a by (simp add: part_a_def)
  have "pt_length (ptab pfs1 ! 0) < vlong (512 + 460288)" unfolding a by (simp add: vlong_id)
  then have "ctl_part plib1 [''part'', ''a'', ''1'', ''900''] pfs1 = Some (Some ''partition exceeds device boundaries'',
      pfs1\<lparr>ptab := (ptab pfs1)[1 := (ptab pfs1 ! 1)\<lparr>pt_base := 512, pt_length := 460288\<rparr>]\<rparr>)"
    by (intro rejected_part_is_stored [OF pfs_reach_inv [OF pfs1_reach] pfs1_lookup_a n refl v [symmetric]]) simp_all
  then show ?thesis unfolding a by (simp add: a(3) part_a_def)
qed

text \<open>What an accepted \<open>part\<close> leaves in the table.\<close>

lemma ctl_part_accepted:
  assumes "pf_inv s" "ctl_part lib f s = Some (None, s')" "load f 1 = Some name"
  shows "\<exists>k < 32. pt_name (ptab s' ! k) = Some name \<and> pt_path (ptab s' ! k) = int32 (newpath s + 1)"
proof -
  have t: "tab_ok False (ptab s) (nparts s) (newpath s)" using assms(1) by (simp add: pf_inv_def)
  note len = tab_okD(1) [OF t]
  from lookuppart_spec [OF assms(1), of "Some name" "-1"] obtain r where r: "lookuppart s (Some name) (-1) (-1) = Some r"
    "\<And>k. r = Some k \<Longrightarrow> k < 32 \<and> (\<not> named (ptab s ! k) \<or> pt_name (ptab s ! k) = Some name)"
    by (auto simp: pt_match_def split: option.splits)
  show ?thesis
  proof (cases r)
    case None
    with assms r(1) show ?thesis by (simp add: ctl_part_def)
  next
    case (Some k)
    with r(2) have k: "k < 32" "\<not> named (ptab s ! k) \<or> pt_name (ptab s ! k) = Some name" by blast+
    from assms(2) r(1) Some k(1) len assms(3) obtain f2 f3 where f23: "load f 2 = Some f2" "load f 3 = Some f3"
      by (auto simp: ctl_part_def cmem dest!: bind_eq_SomeD)
    have "\<exists>p. ptab s' = (ptab s)[k := p] \<and> pt_name p = Some name \<and> pt_path p = int32 (newpath s + 1)"
      using assms(2) r(1) Some k len assms(3) f23
      by (cases "pt_name (ptab s ! k)") (fastforce simp: ctl_part_def cmem Let_def split: if_splits)+
    with k(1) len show ?thesis by (intro exI [of _ k]) auto
  qed
qed

text \<open>After a \<open>part\<close> command that succeeds, walking to its name finds the partition, with a path that no
  partition had before unless \<open>newpath\<close> has wrapped around.
\<close>

theorem part_then_walk:
  assumes "pfs_after lib d n s" "n < 2147483645" "ctl_part lib f s = Some (None, s')" "load f 1 = Some name"
    and "name \<noteq> ''.''" "name \<noteq> ''ctl''" "name \<noteq> ''data''"
  shows "rwalk1 s' name = Some (Some (newpath s + 1, False))
    \<and> (\<forall>p \<in> set (ptab s). named p \<longrightarrow> pt_path p \<noteq> newpath s + 1)"
proof -
  have i: "pf_ok True s" "newpath s \<le> Qdata + int n" using pfs_after_ok [OF assms(1)] assms(2) by simp_all
  then have lt: "newpath s < 2147483647" using assms(2) by (simp add: Qdata_def)
  have i': "pf_ok True s'" using ctl_part_inv [OF i(1) assms(3)] lt by simp
  have t: "tab_ok True (ptab s) (nparts s) (newpath s)" and t': "tab_ok True (ptab s') (nparts s') (newpath s')"
    using i i' by (simp_all add: pf_ok_def)
  have w: "int32 (newpath s + 1) = newpath s + 1"
    using tab_okD(5) [OF t] lt by (intro int32_id) (simp_all add: Qdata_def)
  from ctl_part_accepted [OF pf_ok_inv [OF i(1)] assms(3,4)] w obtain k where k: "k < 32" "pt_name (ptab s' ! k) = Some name"
    "pt_path (ptab s' ! k) = newpath s + 1" by auto
  have ks: "ptab s' ! k \<in> set (ptab s')" using k(1) tab_okD(1) [OF t'] by simp
  from lookuppart_spec [OF pf_ok_inv [OF i'], of "Some name" "-1"] ks k(2) obtain m where
    m: "lookuppart s' (Some name) (-1) (-1) = Some (Some m)" "m < 32" "named (ptab s' ! m)" "pt_name (ptab s' ! m) = Some name"
    by (fastforce simp: pt_match_def split: option.splits)
  have "m = k" using tab_okD(8) [OF t' m(2) k(1) m(3)] k(2) m(4) by simp
  then have "rwalk1 s' name = Some (Some (newpath s + 1, False))"
    using assms(5-7) m(1,4) k tab_okD(1) [OF t'] by (simp add: rwalk1_def dirtab_def cmem)
  moreover have "\<forall>p \<in> set (ptab s). named p \<longrightarrow> pt_path p \<noteq> newpath s + 1"
    using tab_okD(1,6) [OF t] by (fastforce simp: in_set_conv_nth)
  ultimately show ?thesis by blast
qed

lemma part_then_walk_witness: "rwalk1 pfs1 ''a'' = Some (Some (3, False))"
  using part_then_walk [OF after_start _ pfs0_part, of "''a''"]
  by (simp add: load_def initptab0_def Qdata_def)

end
