(* ===== verification/Strtol.thy ===== *)
theory Strtol
  imports Prelude
begin

text \<open>
  The standard library's \<open>strtol\<close>, \<open>strtoul\<close> and \<open>strtoull\<close> as the programs use them: white space, a sign, digits of
  the base, and the rest of the string; values that do not fit are cut to the largest or smallest. \<open>long\<close> has 32
  bits. The rest is never longer than the string.
\<close>

section \<open>Reading a number\<close>

fun skip_ws :: "string \<Rightarrow> string" where
  "skip_ws [] = []"
| "skip_ws (c # cs) = (if is_space c then skip_ws cs else c # cs)"

definition num_digit :: "nat \<Rightarrow> char \<Rightarrow> nat option" where
  "num_digit base c =
     (let k = (of_char c :: nat);
          d = (if 48 \<le> k \<and> k \<le> 57 then k - 48 else if 97 \<le> k \<and> k \<le> 122 then k - 87
               else if 65 \<le> k \<and> k \<le> 90 then k - 55 else 99)
      in if d < base then Some d else None)"

fun num_digits :: "nat \<Rightarrow> nat \<Rightarrow> string \<Rightarrow> nat \<times> string" where
  "num_digits base v [] = (v, [])"
| "num_digits base v (c # cs) =
     (case num_digit base c of None \<Rightarrow> (v, c # cs) | Some d \<Rightarrow> num_digits base (v * base + d) cs)"

text \<open>What \<open>strtol\<close> and \<open>strtoul\<close> read with base 0: the sign, the number and the rest, or nothing.\<close>

definition num_sign :: "string \<Rightarrow> bool \<times> string" where
  "num_sign s = (case s of [] \<Rightarrow> (False, [])
     | c # cs \<Rightarrow> if c = CHR ''-'' then (True, cs) else if c = CHR ''+'' then (False, cs) else (False, s))"

definition num_scan :: "string \<Rightarrow> (bool \<times> nat \<times> string) option" where
  "num_scan s =
     (let (neg, p) = num_sign (skip_ws s)
      in case p of
        [] \<Rightarrow> None
      | c # cs \<Rightarrow>
          if c = CHR ''0'' \<and> 2 \<le> length cs \<and> (cs ! 0 = CHR ''x'' \<or> cs ! 0 = CHR ''X'') \<and> num_digit 16 (cs ! 1) \<noteq> None
          then Some (neg, num_digits 16 0 (drop 1 cs))
          else (let base = (if c = CHR ''0'' then 8 else 10)
                in if num_digit base c = None then None else Some (neg, num_digits base 0 p)))"

definition strtoul0 :: "string \<Rightarrow> u32 \<times> string" where
  "strtoul0 s = (case num_scan s of None \<Rightarrow> (0, s)
     | Some (neg, v, rest) \<Rightarrow> (if 4294967295 < v then - 1 else if neg then - of_nat v else of_nat v, rest))"

definition strtol0 :: "string \<Rightarrow> int \<times> string" where
  "strtol0 s = (case num_scan s of None \<Rightarrow> (0, s)
     | Some (neg, v, rest) \<Rightarrow>
         (if neg then max (- int v) (- 2147483648) else min (int v) 2147483647, rest))"

text \<open>With base 8, into \<open>bits\<close> bits: \<open>strtoul\<close> and \<open>strtoull\<close>, \<open>strtol\<close>. Only the value.\<close>

definition oct_scan :: "string \<Rightarrow> bool \<times> nat" where
  "oct_scan s = (let (neg, p) = num_sign (skip_ws s) in (neg, fst (num_digits 8 0 p)))"

definition strtoul8 :: "nat \<Rightarrow> string \<Rightarrow> nat" where
  "strtoul8 bits s =
     (let (neg, v) = oct_scan s
      in if 2 ^ bits \<le> v then 2 ^ bits - 1 else if neg then (2 ^ bits - v) mod 2 ^ bits else v)"

definition strtol8 :: "string \<Rightarrow> int" where
  "strtol8 s =
     (let (neg, v) = oct_scan s in if neg then max (- int v) (- 2147483648) else min (int v) 2147483647)"

text \<open>With base 10: \<open>strtoul\<close>, \<open>strtol\<close>; \<open>atoi\<close> and \<open>atol\<close> are the value of \<open>strtol\<close>, \<open>atoll\<close> has 64 bits.\<close>

definition dec_scan :: "string \<Rightarrow> (bool \<times> nat \<times> string) option" where
  "dec_scan s =
     (let (neg, p) = num_sign (skip_ws s)
      in if p = [] \<or> num_digit 10 (hd p) = None then None else Some (neg, num_digits 10 0 p))"

definition strtoul10 :: "string \<Rightarrow> nat \<times> string" where
  "strtoul10 s = (case dec_scan s of None \<Rightarrow> (0, s)
     | Some (neg, v, rest) \<Rightarrow> (if 4294967295 < v then 4294967295 else if neg then (4294967296 - v) mod 4294967296 else v, rest))"

definition sat :: "nat \<Rightarrow> bool \<Rightarrow> nat \<Rightarrow> int" where
  "sat bits neg v = (if neg then max (- int v) (- (2 ^ (bits - 1))) else min (int v) (2 ^ (bits - 1) - 1))"

definition strtol10 :: "string \<Rightarrow> int \<times> string" where
  "strtol10 s = (case dec_scan s of None \<Rightarrow> (0, s) | Some (neg, v, rest) \<Rightarrow> (sat 32 neg v, rest))"

definition atoi :: "string \<Rightarrow> int" where
  "atoi s = fst (strtol10 s)"

definition atoll :: "string \<Rightarrow> int" where
  "atoll s = (case dec_scan s of None \<Rightarrow> 0 | Some (neg, v, rest) \<Rightarrow> sat 64 neg v)"

section \<open>The rest of the string\<close>

lemma num_digits_length: "length (snd (num_digits base v s)) \<le> length s"
  by (induction base v s rule: num_digits.induct) (auto split: option.splits)

lemma skip_ws_length: "length (skip_ws s) \<le> length s"
  by (induction s) auto

lemma num_sign_length: "num_sign s = (b, t) \<Longrightarrow> length t \<le> length s"
  by (auto simp: num_sign_def split: list.splits if_splits)

lemma num_scan_length:
  assumes "num_scan s = Some (neg, v, t)"
  shows "length t \<le> length s"
proof -
  obtain b p where p: "num_sign (skip_ws s) = (b, p)" by fastforce
  have "length p \<le> length s" using num_sign_length [OF p] skip_ws_length [of s] by simp
  moreover have "length t \<le> length p"
  proof (cases p)
    case Nil
    with assms p show ?thesis by (simp add: num_scan_def)
  next
    case (Cons c cs)
    with assms p have "num_digits 16 0 (drop 1 cs) = (v, t) \<or> (\<exists>base. num_digits base 0 p = (v, t))"
      unfolding num_scan_def Let_def p by (auto simp del: num_digits.simps split: if_splits)
    then show ?thesis
    proof (elim disjE exE)
      assume "num_digits 16 0 (drop 1 cs) = (v, t)"
      then show ?thesis using num_digits_length [of 16 0 "drop 1 cs"] Cons by simp
    next
      fix base assume "num_digits base 0 p = (v, t)"
      then show ?thesis using num_digits_length [of base 0 p] by (simp only: snd_conv)
    qed
  qed
  ultimately show ?thesis by simp
qed

lemma strtoul0_length: "strtoul0 s = (m, t) \<Longrightarrow> length t \<le> length s"
  using num_scan_length by (fastforce simp: strtoul0_def split: option.splits)

section \<open>Numbers are read back\<close>

lemma of_char_digit: "d < 10 \<Longrightarrow> of_char (char_of (48 + d :: nat)) = 48 + d"
  by simp

lemma num_digit_10: "d < 10 \<Longrightarrow> num_digit 10 (char_of (48 + d :: nat)) = Some d"
  unfolding num_digit_def Let_def of_char_digit by simp

lemma num_digits_dec: "\<exists>k. num_digits 10 v (dec_str n @ r) = num_digits 10 (v * 10 ^ k + n) r"
proof (induction n arbitrary: r rule: dec_str.induct)
  case (1 n)
  show ?case
  proof (cases "n < 10")
    case True
    then show ?thesis by (subst dec_str.simps) (auto simp: num_digit_10 intro: exI [where x = 1])
  next
    case False
    obtain k where k: "num_digits 10 v (dec_str (n div 10) @ char_of (48 + n mod 10) # r) = num_digits 10 (v * 10 ^ k + n div 10) (char_of (48 + n mod 10) # r)"
      using "1.IH" [OF False] by blast
    have "num_digits 10 (v * 10 ^ k + n div 10) (char_of (48 + n mod 10) # r) = num_digits 10 (v * 10 ^ Suc k + n) r"
      by (simp add: num_digit_10 algebra_simps)
    then show ?thesis using k False by (subst dec_str.simps) (auto intro: exI [where x = "Suc k"])
  qed
qed

lemma dec_str_first: "0 < n \<Longrightarrow> \<exists>d r. dec_str n = char_of (48 + d :: nat) # r \<and> 0 < d \<and> d < 10"
proof (induction n rule: dec_str.induct)
  case (1 n)
  show ?case
  proof (cases "n < 10")
    case False
    then have "0 < n div 10" by simp
    from "1.IH" [OF False this] obtain d r where "dec_str (n div 10) = char_of (48 + d :: nat) # r" "0 < d" "d < 10" by blast
    then have "dec_str n = char_of (48 + d) # r @ [char_of (48 + n mod 10)]" using False by (subst dec_str.simps) simp
    then show ?thesis using \<open>0 < d\<close> \<open>d < 10\<close> by blast
  next
    case True
    then have "dec_str n = char_of (48 + n) # []" by (subst dec_str.simps) simp
    then show ?thesis using 1 True by blast
  qed
qed

lemma digit_char:
  assumes "d < 10"
  shows "\<not> is_space (char_of (48 + d :: nat))" "char_of (48 + d :: nat) \<noteq> CHR ''-''" "char_of (48 + d :: nat) \<noteq> CHR ''+''"
    "0 < d \<Longrightarrow> char_of (48 + d :: nat) \<noteq> CHR ''0''"
proof -
  have "d \<in> set [0..<10]" using assms by simp
  moreover have "\<forall>d\<in>set [0..<10]. \<not> is_space (char_of (48 + d :: nat)) \<and> char_of (48 + d :: nat) \<noteq> CHR ''-'' \<and> char_of (48 + d :: nat) \<noteq> CHR ''+''
     \<and> (0 < d \<longrightarrow> char_of (48 + d :: nat) \<noteq> CHR ''0'')" by code_simp
  ultimately show "\<not> is_space (char_of (48 + d :: nat))" "char_of (48 + d :: nat) \<noteq> CHR ''-''" "char_of (48 + d :: nat) \<noteq> CHR ''+''"
    "0 < d \<Longrightarrow> char_of (48 + d :: nat) \<noteq> CHR ''0''" by blast+
qed

lemma strtol0_dec: "n < 2147483648 \<Longrightarrow> strtol0 (dec_str n) = (int n, [])"
proof (cases "n = 0")
  case True
  have "strtol0 (dec_str 0) = (0, [])" by code_simp
  then show ?thesis using True by simp
next
  case False
  assume l: "n < 2147483648"
  obtain d r where d: "dec_str n = char_of (48 + d :: nat) # r" "0 < d" "d < 10" using dec_str_first [of n] False by blast
  obtain k where "num_digits 10 0 (dec_str n @ []) = num_digits 10 (0 * 10 ^ k + n) []" using num_digits_dec by blast
  then have "num_digits 10 0 (dec_str n) = (n, [])" by simp
  then have "num_scan (dec_str n) = Some (False, n, [])"
    using d digit_char [OF d(3)] num_digit_10 [OF d(3)] by (simp add: num_scan_def num_sign_def)
  then show ?thesis using l by (simp add: strtol0_def)
qed

lemma dec_str_length: "n < 10 ^ Suc k \<Longrightarrow> length (dec_str n) \<le> Suc k"
proof (induction k arbitrary: n)
  case 0
  then show ?case by (subst dec_str.simps) simp
next
  case (Suc k)
  have "n div 10 < 10 ^ Suc k" using Suc.prems by (simp add: less_mult_imp_div_less)
  then show ?case using Suc.IH [of "n div 10"] by (subst dec_str.simps) simp
qed

lemma dec_str_digits: "list_all is_digit (dec_str n)"
proof (induction n rule: dec_str.induct)
  case (1 n)
  have "is_digit (char_of (48 + d))" if "d < 10" for d :: nat using that unfolding is_digit_def of_char_digit [OF that] by simp
  then show ?case using 1 by (subst dec_str.simps) auto
qed

lemma dec_str_nonempty: "dec_str n \<noteq> []"
  by (subst dec_str.simps) simp

end
