(* ===== verification/TestCmd.thy ===== *)
theory TestCmd
  imports Strtol
begin

text \<open>
  src/src/cmd/test.c, the command \<open>test\<close>: a recursive descent over the arguments that evaluates while
  it parses. The arguments before \<open>ac\<close> are a list, \<open>ap\<close> an index into it that may run past its end. The
  files, the terminal and the clock are a parameter, the record \<open>tenv\<close>; \<open>strtol\<close> and \<open>strtoul\<close> are the
  standard library's, for a \<open>long\<close> of 32 bits. \<open>exits\<close> ends the program: an \<open>Inl\<close> on the way out. The
  recursion has fuel; 4 units for every argument are enough.

  The properties: the program always ends; on expressions that are evaluated to their end the result is
  that of the abstract syntax; a short circuit leaves its right-hand side unread.
\<close>

section \<open>Integers\<close>

definition isint :: "string \<Rightarrow> int option" where
  "isint s = (case strtol0 s of (v, rest) \<Rightarrow> if rest = [] then Some v else None)"

section \<open>Files\<close>

definition DMDIR :: u32 where "DMDIR = 0x80000000"
definition DMAPPEND :: u32 where "DMAPPEND = 0x40000000"
definition DMEXCL :: u32 where "DMEXCL = 0x20000000"
definition DMTMP :: u32 where "DMTMP = 0x04000000"

record tdir =
  td_type :: nat
  td_dev :: nat
  td_path :: nat
  td_mode :: u32
  td_mtime :: u32
  td_length :: int

record tenv =
  t_dirstat :: "string \<Rightarrow> tdir option"
  t_dirfstat :: "int \<Rightarrow> tdir option"
  t_access :: "string \<Rightarrow> int \<Rightarrow> int"
  t_time :: u32

definition tio :: "tenv \<Rightarrow> string \<Rightarrow> int \<Rightarrow> bool" where
  "tio env a f = (0 \<le> t_access env a f)"

definition hasmode :: "tenv \<Rightarrow> string \<Rightarrow> u32 \<Rightarrow> bool" where
  "hasmode env f m = (case t_dirstat env f of None \<Rightarrow> False | Some d \<Rightarrow> td_mode d AND m \<noteq> 0)"

definition isdir :: "tenv \<Rightarrow> string \<Rightarrow> bool" where
  "isdir env f = hasmode env f DMDIR"

definition isreg :: "tenv \<Rightarrow> string \<Rightarrow> bool" where
  "isreg env f = (case t_dirstat env f of None \<Rightarrow> False | Some d \<Rightarrow> td_mode d AND DMDIR = 0)"

definition isatty :: "tenv \<Rightarrow> int \<Rightarrow> bool" where
  "isatty env fd =
     (case (t_dirfstat env fd, t_dirstat env ''/dev/cons'') of
        (Some d1, Some d2) \<Rightarrow> td_type d1 = td_type d2 \<and> td_dev d1 = td_dev d2 \<and> td_path d1 = td_path d2
      | _ \<Rightarrow> False)"

definition fsizep :: "tenv \<Rightarrow> string \<Rightarrow> bool" where
  "fsizep env f = (case t_dirstat env f of None \<Rightarrow> False | Some d \<Rightarrow> 0 < td_length d)"

text \<open>\<open>a\<close> is newer, or older, than \<open>b\<close>.\<close>

definition isolderthan :: "tenv \<Rightarrow> string \<Rightarrow> string \<Rightarrow> bool" where
  "isolderthan env a b =
     (case (t_dirstat env a, t_dirstat env b) of (Some ad, Some bd) \<Rightarrow> td_mtime bd < td_mtime ad | _ \<Rightarrow> False)"

definition isnewerthan :: "tenv \<Rightarrow> string \<Rightarrow> string \<Rightarrow> bool" where
  "isnewerthan env a b =
     (case (t_dirstat env a, t_dirstat env b) of (Some ad, Some bd) \<Rightarrow> td_mtime ad < td_mtime bd | _ \<Rightarrow> False)"

section \<open>The outcome of a step\<close>

text \<open>The exit status and what was written to the standard error.\<close>

type_synonym texit = "string \<times> string"
type_synonym 'a tres = "(texit, 'a) res"

definition synbad :: "string \<Rightarrow> string \<Rightarrow> 'a tres" where
  "synbad s1 s2 = Some (Inl (''bad syntax'', ''test: '' @ s1 @ s2 @ [NL]))"

section \<open>Times\<close>

text \<open>The cases of the switch fall through; products wrap around.\<close>

definition time_unit :: "char \<Rightarrow> u32 option" where
  "time_unit c =
     (if c = CHR ''y'' then Some (12 * 30 * 24 * 60 * 60) else if c = CHR ''M'' then Some (30 * 24 * 60 * 60)
      else if c = CHR ''d'' then Some (24 * 60 * 60) else if c = CHR ''h'' then Some (60 * 60)
      else if c = CHR ''m'' then Some 60 else if c = CHR ''s'' then Some 1 else None)"

function parse_time :: "string \<Rightarrow> u32 \<Rightarrow> string \<Rightarrow> u32 tres" where
  "parse_time pin n p =
     (if p = [] then ret n
      else case strtoul0 p of (m, q) \<Rightarrow>
        (case q of
           [] \<Rightarrow> ret m
         | c # q \<Rightarrow> (case time_unit c of
                      None \<Rightarrow> synbad ''bad time syntax, '' pin
                    | Some k \<Rightarrow> parse_time pin (n + m * k) q)))"
  by pat_completeness auto
termination
  apply (relation "measure (\<lambda>(pin, n, p). length p)")
   apply simp
  apply clarsimp
  apply (drule strtoul0_length [OF sym])
  apply simp
  done

declare parse_time.simps [simp del]

definition isolder :: "tenv \<Rightarrow> string \<Rightarrow> string \<Rightarrow> bool tres" where
  "isolder env pin f =
     (case t_dirstat env f of
        None \<Rightarrow> ret False
      | Some d \<Rightarrow> rbind (parse_time pin 0 pin) (\<lambda>n. ret (td_mtime d + n < t_time env)))"

section \<open>Arguments\<close>

text \<open>\<open>nxtarg(0)\<close> insists on an argument; \<open>nxtarg(1)\<close> steps past the end.\<close>

definition nxtarg0 :: "string list \<Rightarrow> nat \<Rightarrow> (string \<times> nat) tres" where
  "nxtarg0 av ap = (if length av \<le> ap then synbad ''argument expected'' [] else ret (av ! ap, ap + 1))"

definition nxtarg1 :: "string list \<Rightarrow> nat \<Rightarrow> string option \<times> nat" where
  "nxtarg1 av ap = (if length av \<le> ap then (None, ap + 1) else (Some (av ! ap), ap + 1))"

definition nxtintarg :: "string list \<Rightarrow> nat \<Rightarrow> (int \<times> nat) option" where
  "nxtintarg av ap = (if ap < length av then map_option (\<lambda>i. (i, ap + 1)) (isint (av ! ap)) else None)"

section \<open>Primaries\<close>

text \<open>The operators with one operand.\<close>

definition e3_unary :: "tenv \<Rightarrow> string \<Rightarrow> (string \<Rightarrow> bool) option" where
  "e3_unary env a =
     (if a = ''-A'' then Some (\<lambda>f. hasmode env f DMAPPEND) else if a = ''-L'' then Some (\<lambda>f. hasmode env f DMEXCL)
      else if a = ''-T'' then Some (\<lambda>f. hasmode env f DMTMP) else if a = ''-f'' then Some (isreg env)
      else if a = ''-d'' then Some (isdir env) else if a = ''-r'' then Some (\<lambda>f. tio env f 4)
      else if a = ''-w'' then Some (\<lambda>f. tio env f 2) else if a = ''-x'' then Some (\<lambda>f. tio env f 1)
      else if a = ''-e'' then Some (\<lambda>f. tio env f 0) else if a = ''-s'' then Some (fsizep env)
      else if a = ''-n'' then Some (\<lambda>x. x \<noteq> []) else if a = ''-z'' then Some (\<lambda>x. x = []) else None)"

definition e3_int :: "string \<Rightarrow> int \<Rightarrow> int \<Rightarrow> bool option" where
  "e3_int p2 int1 int2 =
     (if p2 = ''-eq'' then Some (int1 = int2) else if p2 = ''-ne'' then Some (int1 \<noteq> int2)
      else if p2 = ''-gt'' then Some (int1 > int2) else if p2 = ''-lt'' then Some (int1 < int2)
      else if p2 = ''-ge'' then Some (int1 \<ge> int2) else if p2 = ''-le'' then Some (int1 \<le> int2) else None)"

text \<open>The operators between two operands, or a string alone; \<open>a\<close> has been read.\<close>

definition e3_binary :: "tenv \<Rightarrow> string list \<Rightarrow> string \<Rightarrow> nat \<Rightarrow> (bool \<times> nat) tres" where
  "e3_binary env av a ap =
     (case nxtarg1 av ap of
        (None, ap) \<Rightarrow> ret (a \<noteq> [], ap)
      | (Some p2, ap) \<Rightarrow>
          if p2 = ''='' then rbind (nxtarg0 av ap) (\<lambda>(x, ap). ret (x = a, ap))
          else if p2 = ''!='' then rbind (nxtarg0 av ap) (\<lambda>(x, ap). ret (x \<noteq> a, ap))
          else if p2 = ''-older'' then rbind (nxtarg0 av ap) (\<lambda>(x, ap). rbind (isolder env x a) (\<lambda>b. ret (b, ap)))
          else if p2 = ''-ot'' then rbind (nxtarg0 av ap) (\<lambda>(x, ap). ret (isolderthan env x a, ap))
          else if p2 = ''-nt'' then rbind (nxtarg0 av ap) (\<lambda>(x, ap). ret (isnewerthan env x a, ap))
          else (case isint a of
                  None \<Rightarrow> synbad ''unexpected operator/operand: '' p2
                | Some int1 \<Rightarrow>
                    (case nxtintarg av ap of
                       None \<Rightarrow> synbad ''unknown operator '' p2
                     | Some (int2, ap) \<Rightarrow>
                         (case e3_int p2 int1 int2 of None \<Rightarrow> synbad ''unknown operator '' p2 | Some b \<Rightarrow> ret (b, ap)))))"

definition e3_tty :: "tenv \<Rightarrow> string list \<Rightarrow> nat \<Rightarrow> (bool \<times> nat) tres" where
  "e3_tty env av ap =
     (if length av \<le> ap then ret (isatty env 1, ap)
      else case nxtintarg av ap of
        Some (int1, ap) \<Rightarrow> ret (isatty env int1, ap)
      | None \<Rightarrow> synbad ''not a valid file descriptor number '' [])"

section \<open>Expressions\<close>

fun test_e :: "tenv \<Rightarrow> string list \<Rightarrow> nat \<Rightarrow> nat \<Rightarrow> (bool \<times> nat) tres"
  and test_e1 :: "tenv \<Rightarrow> string list \<Rightarrow> nat \<Rightarrow> nat \<Rightarrow> (bool \<times> nat) tres"
  and test_e2 :: "tenv \<Rightarrow> string list \<Rightarrow> nat \<Rightarrow> nat \<Rightarrow> (bool \<times> nat) tres"
  and test_e3 :: "tenv \<Rightarrow> string list \<Rightarrow> nat \<Rightarrow> nat \<Rightarrow> (bool \<times> nat) tres" where
  "test_e env av 0 ap = None"
| "test_e1 env av 0 ap = None"
| "test_e2 env av 0 ap = None"
| "test_e3 env av 0 ap = None"
| "test_e env av (Suc n) ap =
     rbind (test_e1 env av n ap) (\<lambda>(p1, ap).
       case nxtarg1 av ap of (x, ap) \<Rightarrow>
         if x = Some ''-o'' then (if p1 then ret (True, ap) else test_e env av n ap)
         else ret (p1, ap - 1))"
| "test_e1 env av (Suc n) ap =
     rbind (test_e2 env av n ap) (\<lambda>(p1, ap).
       case nxtarg1 av ap of (x, ap) \<Rightarrow>
         if x = Some ''-a'' then (if p1 then test_e1 env av n ap else ret (False, ap))
         else ret (p1, ap - 1))"
| "test_e2 env av (Suc n) ap =
     rbind (nxtarg0 av ap) (\<lambda>(x, ap).
       if x = ''!'' then rbind (test_e2 env av n ap) (\<lambda>(r, ap). ret (\<not> r, ap))
       else test_e3 env av n (ap - 1))"
| "test_e3 env av (Suc n) ap =
     rbind (nxtarg0 av ap) (\<lambda>(a, ap).
       if a = ''('' then
         rbind (test_e env av n ap) (\<lambda>(p1, ap).
           rbind (nxtarg0 av ap) (\<lambda>(c, ap). if c \<noteq> '')'' then synbad '') expected'' [] else ret (p1, ap)))
       else case e3_unary env a of
         Some f \<Rightarrow> rbind (nxtarg0 av ap) (\<lambda>(x, ap). ret (f x, ap))
       | None \<Rightarrow>
           if a = ''-c'' \<or> a = ''-b'' \<or> a = ''-u'' \<or> a = ''-g'' then ret (False, ap)
           else if a = ''-t'' then e3_tty env av ap
           else e3_binary env av a ap)"

text \<open>\<open>main\<close>: the exit status and what is on the standard error.\<close>

definition test_run :: "tenv \<Rightarrow> string list \<Rightarrow> texit option" where
  "test_run env av =
     (if length av \<le> 1 then Some (''usage'', [])
      else case test_e env av (4 * length av + 4) 1 of
        None \<Rightarrow> None
      | Some (Inl x) \<Rightarrow> Some x
      | Some (Inr (r, _)) \<Rightarrow> Some (if r then [] else ''false'', []))"

definition test_main :: "tenv \<Rightarrow> string list \<Rightarrow> texit option" where
  "test_main env argv =
     (if argv \<noteq> [] \<and> hd argv = ''[''
      then (if last argv \<noteq> '']''
            then (case synbad ''] missing'' [] :: unit tres of Some (Inl x) \<Rightarrow> Some x | _ \<Rightarrow> None)
            else test_run env (butlast argv))
      else test_run env argv)"

section \<open>The program ends\<close>

lemma nxtarg1_eq: "nxtarg1 av ap = (if ap < length av then Some (av ! ap) else None, ap + 1)"
  by (simp add: nxtarg1_def)

lemma nxtarg0_ret: "nxtarg0 av ap = ret (x, ap') \<longleftrightarrow> ap < length av \<and> x = av ! ap \<and> ap' = ap + 1"
  by (auto simp: nxtarg0_def synbad_def)

lemma nxtarg0_total: "nxtarg0 av ap \<noteq> None"
  by (simp add: nxtarg0_def synbad_def)

lemma nxtintarg_Some: "nxtintarg av ap = Some (i, ap') \<Longrightarrow> ap' = ap + 1"
  by (auto simp: nxtintarg_def split: if_splits)

lemma parse_time_total: "parse_time pin n p \<noteq> None"
  by (induction pin n p rule: parse_time.induct)
    (subst parse_time.simps, auto simp: synbad_def split: list.splits option.splits prod.splits)

lemma isolder_total: "isolder env pin f \<noteq> None"
  by (auto simp del: not_None_eq simp add: isolder_def rbind_eq_None parse_time_total split: option.splits)

lemma e3_binary_total: "e3_binary env av a ap \<noteq> None"
  by (auto simp del: not_None_eq simp add: e3_binary_def nxtarg1_eq rbind_eq_None synbad_def isolder_total nxtarg0_total
      split: option.splits prod.splits if_splits)

lemma e3_tty_total: "e3_tty env av ap \<noteq> None"
  by (simp add: e3_tty_def synbad_def split: option.splits prod.splits)

lemma e3_binary_mono: "e3_binary env av a ap = ret (b, ap') \<Longrightarrow> ap \<le> ap'"
  by (auto simp: e3_binary_def nxtarg1_eq rbind_eq_ret nxtarg0_ret synbad_def dest!: nxtintarg_Some
      split: option.splits prod.splits if_splits)

lemma e3_tty_mono: "e3_tty env av ap = ret (b, ap') \<Longrightarrow> ap \<le> ap'"
  by (auto simp: e3_tty_def synbad_def dest!: nxtintarg_Some split: option.splits prod.splits if_splits)

lemma test_mono:
  "test_e env av n ap = ret (b, ap') \<Longrightarrow> ap \<le> ap'"
  "test_e1 env av n ap = ret (b, ap') \<Longrightarrow> ap \<le> ap'"
  "test_e2 env av n ap = ret (b, ap') \<Longrightarrow> ap \<le> ap'"
  "test_e3 env av n ap = ret (b, ap') \<Longrightarrow> ap \<le> ap'"
proof (induction n arbitrary: ap b ap')
  case (Suc n)
  {
    case 1
    then show ?case
      by (auto simp: rbind_eq_ret nxtarg1_eq split: if_splits prod.splits dest!: Suc.IH(1,2))
  next
    case 2
    then show ?case
      by (auto simp: rbind_eq_ret nxtarg1_eq split: if_splits prod.splits dest!: Suc.IH(2,3))
  next
    case 3
    then show ?case
      by (auto simp: rbind_eq_ret nxtarg0_ret split: if_splits prod.splits dest!: Suc.IH(3,4))
  next
    case 4
    then show ?case
      by (auto simp: rbind_eq_ret nxtarg0_ret synbad_def split: if_splits prod.splits option.splits
          dest!: Suc.IH(1) e3_binary_mono e3_tty_mono)
  }
qed simp_all

lemma test_total:
  "4 * (length av - ap) + 4 \<le> n \<Longrightarrow> test_e env av n ap \<noteq> None"
  "4 * (length av - ap) + 3 \<le> n \<Longrightarrow> test_e1 env av n ap \<noteq> None"
  "4 * (length av - ap) + 2 \<le> n \<Longrightarrow> test_e2 env av n ap \<noteq> None"
  "4 * (length av - ap) + 1 \<le> n \<Longrightarrow> test_e3 env av n ap \<noteq> None"
proof (induction n arbitrary: ap)
  case (Suc n)
  {
    case 1
    have "test_e env av n (Suc j) \<noteq> None" if "j < length av" "ap \<le> j" for j
      using that 1 by (intro Suc.IH(1)) arith
    moreover have "test_e1 env av n ap \<noteq> None" using 1 by (intro Suc.IH(2)) arith
    ultimately show ?case by (auto simp del: not_None_eq simp add: rbind_eq_None nxtarg1_eq dest: test_mono(2) split: if_splits)
  next
    case 2
    have "test_e1 env av n (Suc j) \<noteq> None" if "j < length av" "ap \<le> j" for j
      using that 2 by (intro Suc.IH(2)) arith
    moreover have "test_e2 env av n ap \<noteq> None" using 2 by (intro Suc.IH(3)) arith
    ultimately show ?case by (auto simp del: not_None_eq simp add: rbind_eq_None nxtarg1_eq dest: test_mono(3) split: if_splits)
  next
    case 3
    have "test_e2 env av n (Suc ap) \<noteq> None" if "ap < length av"
      using that 3 by (intro Suc.IH(3)) arith
    moreover have "test_e3 env av n ap \<noteq> None" using 3 by (intro Suc.IH(4)) arith
    ultimately show ?case by (auto simp del: not_None_eq simp add: rbind_eq_None nxtarg0_ret nxtarg0_total)
  next
    case 4
    have "test_e env av n (Suc ap) \<noteq> None" if "ap < length av"
      using that 4 by (intro Suc.IH(1)) arith
    then show ?case
      by (auto simp del: not_None_eq simp add: rbind_eq_None nxtarg0_ret nxtarg0_total e3_binary_total e3_tty_total synbad_def
          split: option.splits)
  }
qed simp_all

text \<open>C35. \<open>test\<close> always ends with an exit status, whatever its arguments and the files are: the descent uses at most
  four calls for every argument, and the loop that reads a time for \<open>-older\<close> ends on every string.
\<close>

theorem test_returns: "\<exists>status msg. test_main env argv = Some (status, msg)"
proof -
  have "test_run env av \<noteq> None" for av
    using test_total(1) [of av 1 "4 * length av + 4" env]
    by (auto simp: test_run_def split: option.splits sum.splits prod.splits)
  then have "test_main env argv \<noteq> None" by (simp add: test_main_def synbad_def)
  then show ?thesis by auto
qed

section \<open>Abstract syntax\<close>

text \<open>
  Expressions by precedence: alternatives of conjunctions of negations. A primary is an operator with its
  operand, two strings or files, or two numbers.
\<close>

datatype tprim = TUn string string | TBin string string string | TInt string string string

datatype tor = Or1 tand | OrS tand tor
  and tand = And1 tnot | AndS tnot tand
  and tnot = Neg tnot | Prim tprim | Paren tor

fun prim_toks :: "tprim \<Rightarrow> string list" where
  "prim_toks (TUn opr x) = [opr, x]"
| "prim_toks (TBin a opr b) = [a, opr, b]"
| "prim_toks (TInt a opr b) = [a, opr, b]"

primrec or_toks :: "tor \<Rightarrow> string list"
  and and_toks :: "tand \<Rightarrow> string list"
  and not_toks :: "tnot \<Rightarrow> string list" where
  "or_toks (Or1 a) = and_toks a"
| "or_toks (OrS a x) = and_toks a @ ''-o'' # or_toks x"
| "and_toks (And1 t) = not_toks t"
| "and_toks (AndS t a) = not_toks t @ ''-a'' # and_toks a"
| "not_toks (Neg t) = ''!'' # not_toks t"
| "not_toks (Prim p) = prim_toks p"
| "not_toks (Paren x) = ''('' # or_toks x @ ['')'']"

text \<open>A first operand that is no operator.\<close>

definition plain_operand :: "tenv \<Rightarrow> string \<Rightarrow> bool" where
  "plain_operand env a \<longleftrightarrow> a \<notin> {''!'', ''('', '')'', ''-o'', ''-a'', ''-c'', ''-b'', ''-u'', ''-g'', ''-t''} \<and> e3_unary env a = None"

fun prim_ok :: "tenv \<Rightarrow> tprim \<Rightarrow> bool" where
  "prim_ok env (TUn opr x) \<longleftrightarrow> e3_unary env opr \<noteq> None"
| "prim_ok env (TBin a opr b) \<longleftrightarrow> opr \<in> {''='', ''!='', ''-ot'', ''-nt''} \<and> plain_operand env a"
| "prim_ok env (TInt a opr b) \<longleftrightarrow> e3_int opr 0 0 \<noteq> None \<and> isint a \<noteq> None \<and> isint b \<noteq> None \<and> plain_operand env a"

fun prim_val :: "tenv \<Rightarrow> tprim \<Rightarrow> bool" where
  "prim_val env (TUn opr x) = the (e3_unary env opr) x"
| "prim_val env (TBin a opr b) =
     (if opr = ''='' then a = b else if opr = ''!='' then a \<noteq> b
      else if opr = ''-ot'' then isolderthan env b a else isnewerthan env b a)"
| "prim_val env (TInt a opr b) = the (e3_int opr (the (isint a)) (the (isint b)))"

primrec or_val :: "tenv \<Rightarrow> tor \<Rightarrow> bool"
  and and_val :: "tenv \<Rightarrow> tand \<Rightarrow> bool"
  and not_val :: "tenv \<Rightarrow> tnot \<Rightarrow> bool" where
  "or_val env (Or1 a) = and_val env a"
| "or_val env (OrS a x) = (and_val env a \<or> or_val env x)"
| "and_val env (And1 t) = not_val env t"
| "and_val env (AndS t a) = (not_val env t \<and> and_val env a)"
| "not_val env (Neg t) = (\<not> not_val env t)"
| "not_val env (Prim p) = prim_val env p"
| "not_val env (Paren x) = or_val env x"

primrec or_wf :: "tenv \<Rightarrow> tor \<Rightarrow> bool"
  and and_wf :: "tenv \<Rightarrow> tand \<Rightarrow> bool"
  and not_wf :: "tenv \<Rightarrow> tnot \<Rightarrow> bool" where
  "or_wf env (Or1 a) = and_wf env a"
| "or_wf env (OrS a x) = (and_wf env a \<and> or_wf env x)"
| "and_wf env (And1 t) = not_wf env t"
| "and_wf env (AndS t a) = (not_wf env t \<and> and_wf env a)"
| "not_wf env (Neg t) = not_wf env t"
| "not_wf env (Prim p) = prim_ok env p"
| "not_wf env (Paren x) = or_wf env x"

text \<open>No short circuit: every conjunct but the last is true, every alternative but the last false.\<close>

primrec or_full :: "tenv \<Rightarrow> tor \<Rightarrow> bool"
  and and_full :: "tenv \<Rightarrow> tand \<Rightarrow> bool"
  and not_full :: "tenv \<Rightarrow> tnot \<Rightarrow> bool" where
  "or_full env (Or1 a) = and_full env a"
| "or_full env (OrS a x) = (and_full env a \<and> \<not> and_val env a \<and> or_full env x)"
| "and_full env (And1 t) = not_full env t"
| "and_full env (AndS t a) = (not_full env t \<and> not_val env t \<and> and_full env a)"
| "not_full env (Neg t) = not_full env t"
| "not_full env (Prim p) = True"
| "not_full env (Paren x) = or_full env x"

text \<open>At the top a short circuit may come last.\<close>

primrec and_ok :: "tenv \<Rightarrow> tand \<Rightarrow> bool" where
  "and_ok env (And1 t) = not_full env t"
| "and_ok env (AndS t a) = (not_full env t \<and> (\<not> not_val env t \<or> and_ok env a))"

primrec or_ok :: "tenv \<Rightarrow> tor \<Rightarrow> bool" where
  "or_ok env (Or1 a) = and_ok env a"
| "or_ok env (OrS a x) = (and_full env a \<and> (and_val env a \<or> or_ok env x))"

text \<open>Reading tokens.\<close>

lemma drop_eq_Cons: "drop k xs = y # ys \<Longrightarrow> k < length xs \<and> xs ! k = y \<and> drop (Suc k) xs = ys"
  by (metis Cons_nth_drop_Suc drop_eq_Nil leI list.discI list.inject)

lemma drop_append: "drop k xs = ys @ zs \<Longrightarrow> drop (k + length ys) xs = zs"
  by (metis add.commute append_eq_conv_conj drop_drop)

lemma nxtarg0_drop: "drop ap av = x # rest \<Longrightarrow> nxtarg0 av ap = ret (x, Suc ap)"
  using drop_eq_Cons [of ap av x rest] by (simp add: nxtarg0_def)

lemma nxtarg1_drop: "nxtarg1 av ap = (case drop ap av of [] \<Rightarrow> None | x # _ \<Rightarrow> Some x, Suc ap)"
  by (auto simp: nxtarg1_eq split: list.splits dest: drop_eq_Cons)

lemma e3_unary_not: "e3_unary env a \<noteq> None \<Longrightarrow> a \<notin> {''!'', ''('', '')'', ''-o'', ''-a''}"
  by (auto simp: e3_unary_def)

lemma prim_e3:
  assumes "prim_ok env p" "drop ap av = prim_toks p @ rest"
  shows "test_e3 env av (Suc n) ap = ret (prim_val env p, ap + length (prim_toks p))"
proof (cases p)
  case (TUn opr x)
  with assms obtain f where f: "e3_unary env opr = Some f" by auto
  have "drop ap av = opr # x # rest" "drop (Suc ap) av = x # rest"
    using assms(2) TUn drop_eq_Cons [of ap av opr "x # rest"] by auto
  then show ?thesis using TUn f e3_unary_not [of env opr] by (simp add: nxtarg0_drop)
next
  case (TBin a opr b)
  have d: "drop ap av = a # opr # b # rest" using assms(2) TBin by simp
  then have d1: "drop (Suc ap) av = opr # b # rest" by (auto dest: drop_eq_Cons)
  then have d2: "drop (Suc (Suc ap)) av = b # rest" by (auto dest: drop_eq_Cons)
  show ?thesis using TBin assms(1) nxtarg0_drop [OF d] nxtarg0_drop [OF d2]
    by (auto simp: plain_operand_def e3_binary_def nxtarg1_drop d1)
next
  case (TInt a opr b)
  have d: "drop ap av = a # opr # b # rest" using assms(2) TInt by simp
  then have d1: "drop (Suc ap) av = opr # b # rest" by (auto dest: drop_eq_Cons)
  then have d2: "drop (Suc (Suc ap)) av = b # rest" by (auto dest: drop_eq_Cons)
  from TInt assms(1) obtain i j where ij: "isint a = Some i" "isint b = Some j" by auto
  have "nxtintarg av (Suc (Suc ap)) = Some (j, Suc (Suc (Suc ap)))"
    using drop_eq_Cons [OF d2] ij by (simp add: nxtintarg_def)
  moreover obtain r where "e3_int opr i j = Some r" "opr \<notin> {''='', ''!='', ''-older'', ''-ot'', ''-nt''}"
    using TInt assms(1) by (auto simp: e3_int_def split: if_splits)
  ultimately show ?thesis using TInt assms(1) nxtarg0_drop [OF d] ij
    by (auto simp: plain_operand_def e3_binary_def nxtarg1_drop d1)
qed

text \<open>One level on top of another.\<close>

abbreviation hd_is :: "string list \<Rightarrow> string \<Rightarrow> bool" where
  "hd_is ts t \<equiv> ts \<noteq> [] \<and> hd ts = t"

lemma test_e_last: "test_e1 env av n ap = ret (b, ap') \<Longrightarrow> \<not> hd_is (drop ap' av) ''-o'' \<Longrightarrow> test_e env av (Suc n) ap = ret (b, ap')"
  by (cases "drop ap' av") (simp_all add: nxtarg1_drop)

lemma test_e_or:
  "test_e1 env av n ap = ret (b, ap') \<Longrightarrow> drop ap' av = ''-o'' # rest
     \<Longrightarrow> test_e env av (Suc n) ap = (if b then ret (True, Suc ap') else test_e env av n (Suc ap'))"
  by (simp add: nxtarg1_drop)

lemma test_e1_last: "test_e2 env av n ap = ret (b, ap') \<Longrightarrow> \<not> hd_is (drop ap' av) ''-a'' \<Longrightarrow> test_e1 env av (Suc n) ap = ret (b, ap')"
  by (cases "drop ap' av") (simp_all add: nxtarg1_drop)

lemma test_e1_and:
  "test_e2 env av n ap = ret (b, ap') \<Longrightarrow> drop ap' av = ''-a'' # rest
     \<Longrightarrow> test_e1 env av (Suc n) ap = (if b then test_e1 env av n (Suc ap') else ret (False, Suc ap'))"
  by (simp add: nxtarg1_drop)

lemma prim_toks_hd:
  "prim_ok env p \<Longrightarrow> \<exists>x ts. prim_toks p = x # ts \<and> x \<notin> {''!'', ''('', '')'', ''-o'', ''-a''}"
  using e3_unary_not by (cases p) (auto simp: plain_operand_def)

lemma toks_hd:
  "or_wf env x \<Longrightarrow> \<exists>t ts. or_toks x = t # ts \<and> t \<notin> {'')'', ''-o'', ''-a''}"
  "and_wf env a \<Longrightarrow> \<exists>t ts. and_toks a = t # ts \<and> t \<notin> {'')'', ''-o'', ''-a''}"
  "not_wf env t \<Longrightarrow> \<exists>u ts. not_toks t = u # ts \<and> u \<notin> {'')'', ''-o'', ''-a''}"
proof (induction x and a and t)
  case (Prim p)
  then show ?case using prim_toks_hd [of env p] by auto
qed (force)+

text \<open>An expression without short circuits is read to its end.\<close>

lemma test_full:
  "or_wf env x \<Longrightarrow> or_full env x \<Longrightarrow> drop ap av = or_toks x @ rest \<Longrightarrow> \<not> hd_is rest ''-o'' \<Longrightarrow> \<not> hd_is rest ''-a''
     \<Longrightarrow> 4 * length (or_toks x) + 4 \<le> n \<Longrightarrow> test_e env av n ap = ret (or_val env x, ap + length (or_toks x))"
  "and_wf env a \<Longrightarrow> and_full env a \<Longrightarrow> drop ap av = and_toks a @ rest \<Longrightarrow> \<not> hd_is rest ''-a''
     \<Longrightarrow> 4 * length (and_toks a) + 3 \<le> n \<Longrightarrow> test_e1 env av n ap = ret (and_val env a, ap + length (and_toks a))"
  "not_wf env t \<Longrightarrow> not_full env t \<Longrightarrow> drop ap av = not_toks t @ rest
     \<Longrightarrow> 4 * length (not_toks t) + 2 \<le> n \<Longrightarrow> test_e2 env av n ap = ret (not_val env t, ap + length (not_toks t))"
proof (induction x and a and t arbitrary: ap rest n and ap rest n and ap rest n)
  case (Or1 a)
  then obtain m where n: "n = Suc m" by (cases n) auto
  with Or1 have "test_e1 env av m ap = ret (and_val env a, ap + length (and_toks a))" by (intro Or1.IH) auto
  then show ?case unfolding n using Or1.prems(3,4) by (simp only: or_val.simps or_toks.simps) (rule test_e_last, simp_all add: drop_append)
next
  case (OrS a x)
  then obtain m where n: "n = Suc m" by (cases n) auto
  have d: "drop (ap + length (and_toks a)) av = ''-o'' # or_toks x @ rest" using OrS.prems(3) by (simp add: drop_append)
  then have d1: "drop (Suc (ap + length (and_toks a))) av = or_toks x @ rest" by (auto dest: drop_eq_Cons)
  have "test_e1 env av m ap = ret (and_val env a, ap + length (and_toks a))"
    using OrS.prems n by (intro OrS.IH(1) [where rest = "''-o'' # or_toks x @ rest"]) auto
  moreover have "test_e env av m (Suc (ap + length (and_toks a))) = ret (or_val env x, Suc (ap + length (and_toks a)) + length (or_toks x))"
    using OrS.prems n by (intro OrS.IH(2) [OF _ _ d1]) auto
  ultimately show ?case unfolding n using OrS.prems(2) by (subst test_e_or [OF _ d]) auto
next
  case (And1 t)
  then obtain m where n: "n = Suc m" by (cases n) auto
  with And1 have "test_e2 env av m ap = ret (not_val env t, ap + length (not_toks t))" by (intro And1.IH) auto
  then show ?case unfolding n using And1.prems(3,4) by (simp only: and_val.simps and_toks.simps) (rule test_e1_last, simp_all add: drop_append)
next
  case (AndS t a)
  then obtain m where n: "n = Suc m" by (cases n) auto
  have d: "drop (ap + length (not_toks t)) av = ''-a'' # and_toks a @ rest" using AndS.prems(3) by (simp add: drop_append)
  then have d1: "drop (Suc (ap + length (not_toks t))) av = and_toks a @ rest" by (auto dest: drop_eq_Cons)
  have "test_e2 env av m ap = ret (not_val env t, ap + length (not_toks t))"
    using AndS.prems n by (intro AndS.IH(1) [where rest = "''-a'' # and_toks a @ rest"]) auto
  moreover have "test_e1 env av m (Suc (ap + length (not_toks t))) = ret (and_val env a, Suc (ap + length (not_toks t)) + length (and_toks a))"
    using AndS.prems n by (intro AndS.IH(2) [OF _ _ d1]) auto
  ultimately show ?case unfolding n using AndS.prems(2) by (subst test_e1_and [OF _ d]) auto
next
  case (Neg t)
  then obtain m where n: "n = Suc m" by (cases n) auto
  have d: "drop ap av = ''!'' # not_toks t @ rest" using Neg.prems(3) by simp
  then have "drop (Suc ap) av = not_toks t @ rest" by (auto dest: drop_eq_Cons)
  then have "test_e2 env av m (Suc ap) = ret (not_val env t, Suc ap + length (not_toks t))"
    using Neg.prems n by (intro Neg.IH) auto
  then show ?case unfolding n by (simp add: nxtarg0_drop [OF d])
next
  case (Prim p)
  then obtain m where n: "n = Suc (Suc m)" by (cases n; cases "n - 1") auto
  from Prim.prems(1) obtain x ts where x: "prim_toks p = x # ts" "x \<noteq> ''!''" using prim_toks_hd [of env p] by auto
  have d: "drop ap av = x # ts @ rest" using Prim.prems(3) x by simp
  have "test_e3 env av (Suc m) ap = ret (prim_val env p, ap + length (prim_toks p))"
    using Prim.prems by (intro prim_e3) auto
  then show ?case unfolding n using x by (simp add: nxtarg0_drop [OF d] del: test_e3.simps)
next
  case (Paren x)
  then obtain m where n: "n = Suc (Suc m)" by (cases n; cases "n - 1") auto
  have d: "drop ap av = ''('' # or_toks x @ '')'' # rest" using Paren.prems(3) by simp
  then have d1: "drop (Suc ap) av = or_toks x @ '')'' # rest" by (auto dest: drop_eq_Cons)
  have "test_e env av m (Suc ap) = ret (or_val env x, Suc ap + length (or_toks x))"
    using Paren.prems n by (intro Paren.IH [OF _ _ d1]) auto
  moreover have "drop (Suc ap + length (or_toks x)) av = '')'' # rest" by (rule drop_append [OF d1])
  ultimately show ?case unfolding n by (simp add: nxtarg0_drop [OF d] nxtarg0_drop)
qed

text \<open>An expression whose short circuits come last; the third part only makes the induction go.\<close>

lemma test_ok:
  "or_wf env x \<Longrightarrow> or_ok env x \<Longrightarrow> drop ap av = or_toks x \<Longrightarrow> 4 * length (or_toks x) + 4 \<le> n
     \<Longrightarrow> \<exists>ap'. test_e env av n ap = ret (or_val env x, ap')"
  "and_wf env a \<Longrightarrow> and_ok env a \<Longrightarrow> drop ap av = and_toks a \<Longrightarrow> 4 * length (and_toks a) + 3 \<le> n
     \<Longrightarrow> \<exists>ap'. test_e1 env av n ap = ret (and_val env a, ap') \<and> \<not> hd_is (drop ap' av) ''-o''"
  "t = (t :: tnot)"
proof (induction x and a and t arbitrary: ap n and ap n)
  case (Or1 a)
  then obtain m where n: "n = Suc m" by (cases n) auto
  with Or1.prems Or1.IH [of ap m] obtain ap' where
    "test_e1 env av m ap = ret (and_val env a, ap')" "\<not> hd_is (drop ap' av) ''-o''" by auto
  from test_e_last [OF this] show ?case unfolding n by auto
next
  case (OrS a x)
  then obtain m where n: "n = Suc m" by (cases n) auto
  have d: "drop (ap + length (and_toks a)) av = ''-o'' # or_toks x" using OrS.prems(3) by (simp add: drop_append)
  then have d1: "drop (Suc (ap + length (and_toks a))) av = or_toks x" by (auto dest: drop_eq_Cons)
  have a: "test_e1 env av m ap = ret (and_val env a, ap + length (and_toks a))"
    using OrS.prems n by (intro test_full(2) [where rest = "''-o'' # or_toks x"]) auto
  show ?case
  proof (cases "and_val env a")
    case True
    then show ?thesis unfolding n by (subst test_e_or [OF a d]) auto
  next
    case False
    with OrS.prems n d1 obtain ap' where "test_e env av m (Suc (ap + length (and_toks a))) = ret (or_val env x, ap')"
      using OrS.IH(2) [of "Suc (ap + length (and_toks a))" m] by auto
    then show ?thesis unfolding n using False by (subst test_e_or [OF a d]) auto
  qed
next
  case (And1 t)
  then have "test_e1 env av n ap = ret (and_val env (And1 t), ap + length (and_toks (And1 t)))"
    by (intro test_full(2) [where rest = "[]"]) auto
  moreover have "drop (ap + length (and_toks (And1 t))) av = []" using And1.prems(3) drop_append [of ap av "and_toks (And1 t)" "[]"] by simp
  ultimately show ?case by auto
next
  case (AndS t a)
  then obtain m where n: "n = Suc m" by (cases n) auto
  have d: "drop (ap + length (not_toks t)) av = ''-a'' # and_toks a" using AndS.prems(3) by (simp add: drop_append)
  then have d1: "drop (Suc (ap + length (not_toks t))) av = and_toks a" by (auto dest: drop_eq_Cons)
  have t: "test_e2 env av m ap = ret (not_val env t, ap + length (not_toks t))"
    using AndS.prems n by (intro test_full(3) [where rest = "''-a'' # and_toks a"]) auto
  show ?case
  proof (cases "not_val env t")
    case True
    with AndS.prems n d1 obtain ap' where "test_e1 env av m (Suc (ap + length (not_toks t))) = ret (and_val env a, ap')"
      "\<not> hd_is (drop ap' av) ''-o''" using AndS.IH(2) [of "Suc (ap + length (not_toks t))" m] by auto
    then show ?thesis unfolding n using True by (subst test_e1_and [OF t d]) auto
  next
    case False
    then show ?thesis unfolding n using AndS.prems(1) toks_hd(2) [of env a] d1 by (subst test_e1_and [OF t d]) auto
  qed
qed simp_all

lemma or_toks_length: "0 < length (or_toks x)" "0 < length (and_toks a)" "0 < length (not_toks t)"
proof (induction x and a and t)
  case (Prim p)
  then show ?case by (cases p) simp_all
qed simp_all

lemma test_main_toks:
  assumes "test_e env (cmd # ts) (4 * length (cmd # ts) + 4) 1 = r" "cmd \<noteq> ''[''" "ts \<noteq> []"
  shows "test_main env (cmd # ts) = (case r of None \<Rightarrow> None | Some (Inl x) \<Rightarrow> Some x
     | Some (Inr (r, _)) \<Rightarrow> Some (if r then [] else ''false'', []))"
  using assms(2,3) by (simp only: assms(1) [symmetric] test_main_def test_run_def) (simp add: Suc_le_eq)

text \<open>C25. On a well-formed expression in which an \<open>-a\<close> with a false left side, or an \<open>-o\<close> with a true one, occurs only
  where nothing has to be read after it, the exit status of \<open>test\<close> is the value of the abstract syntax tree: \<open>!\<close>
  binds tighter than \<open>-a\<close>, \<open>-a\<close> tighter than \<open>-o\<close>, and parentheses group.
\<close>

theorem test_refines_syntax:
  assumes "or_wf env x" "or_ok env x"
  shows "test_main env (''test'' # or_toks x) = Some (if or_val env x then [] else ''false'', [])"
proof -
  have "drop 1 (''test'' # or_toks x) = or_toks x" by simp
  from test_ok(1) [OF assms this, of "4 * length (''test'' # or_toks x) + 4"] obtain ap' where
    "test_e env (''test'' # or_toks x) (4 * length (''test'' # or_toks x) + 4) 1 = ret (or_val env x, ap')" by auto
  from test_main_toks [OF this] or_toks_length(1) [of x] show ?thesis by auto
qed

definition env0 :: tenv where
  "env0 = \<lparr>t_dirstat = (\<lambda>f. None), t_dirfstat = (\<lambda>_. None), t_access = (\<lambda>_ _. -1), t_time = 0\<rparr>"

lemma test_refines_syntax_witness:
  "test_main env0 [''test'', ''!'', ''('', ''-n'', ''x'', ''-a'', ''a'', ''='', ''b'', '')'', ''-o'', ''-z'', ''y''] = Some ([], [])"
  using test_refines_syntax [of env0 "OrS (And1 (Neg (Paren (Or1 (AndS (Prim (TUn ''-n'' ''x'')) (And1 (Prim (TBin ''a'' ''='' ''b''))))))))
      (Or1 (And1 (Prim (TUn ''-z'' ''y''))))"]
  by (simp add: e3_unary_def plain_operand_def)

text \<open>A short circuit leaves its right-hand side unread. So the value of \<open>p -a q -o r\<close> with a false \<open>p\<close> is false
  whatever \<open>r\<close> is, and a parenthesized alternative with a true left side is a syntax error, because the closing
  parenthesis is looked for right after the \<open>-o\<close>.
\<close>

theorem short_circuit_leaves_rest:
  assumes "prim_ok env p" "prim_ok env q" "prim_ok env r"
  shows "(\<not> prim_val env p \<longrightarrow>
      test_main env (''test'' # prim_toks p @ ''-a'' # prim_toks q @ ''-o'' # prim_toks r) = Some (''false'', []))
    \<and> (prim_val env p \<longrightarrow>
      test_main env (''test'' # ''('' # prim_toks p @ ''-o'' # prim_toks q @ ['')''])
        = Some (''bad syntax'', ''test: ) expected'' @ [NL]))"
proof (intro conjI impI)
  assume p: "\<not> prim_val env p"
  define ts where "ts = prim_toks p @ ''-a'' # prim_toks q @ ''-o'' # prim_toks r"
  define n where "n = 4 * length ts + 7"
  have d: "drop 1 (''test'' # ts) = not_toks (Prim p) @ ''-a'' # prim_toks q @ ''-o'' # prim_toks r" by (simp add: ts_def)
  have "test_e2 env (''test'' # ts) (n - 1) 1 = ret (not_val env (Prim p), 1 + length (not_toks (Prim p)))"
    using assms(1) by (intro test_full(3) [OF _ _ d]) (simp_all add: n_def ts_def)
  from test_e1_and [OF this drop_append [OF d]] p
  have e1: "test_e1 env (''test'' # ts) n 1 = ret (False, Suc (1 + length (prim_toks p)))"
    by (simp add: n_def add.commute del: test_e1.simps)
  have "drop (Suc (1 + length (prim_toks p))) (''test'' # ts) = prim_toks q @ ''-o'' # prim_toks r" by (simp add: ts_def)
  with prim_toks_hd [OF assms(2)] have "\<not> hd_is (drop (Suc (1 + length (prim_toks p))) (''test'' # ts)) ''-o''" by auto
  from test_e_last [OF e1 this] have "test_e env (''test'' # ts) (4 * length (''test'' # ts) + 4) 1 = ret (False, Suc (1 + length (prim_toks p)))"
    by (simp add: n_def)
  from test_main_toks [OF this] show "test_main env (''test'' # ts) = Some (''false'', [])" by (simp add: ts_def)
next
  assume p: "prim_val env p"
  define ts where "ts = ''('' # prim_toks p @ ''-o'' # prim_toks q @ ['')'']"
  define av where "av = ''test'' # ts"
  define n where "n = 4 * length ts"
  define m where "m = n + 4"
  have d: "drop 2 av = and_toks (And1 (Prim p)) @ ''-o'' # prim_toks q @ ['')'']" by (simp add: av_def ts_def)
  have "test_e1 env av (n + 3) 2 = ret (and_val env (And1 (Prim p)), 2 + length (and_toks (And1 (Prim p))))"
    using assms(1) by (intro test_full(2) [OF _ _ d]) (simp_all add: n_def ts_def)
  from test_e_or [OF this drop_append [OF d]] p
  have e: "test_e env av m 2 = ret (True, Suc (2 + length (prim_toks p)))" by (simp add: m_def eval_nat_numeral)
  have d2: "drop (Suc (2 + length (prim_toks p))) av = prim_toks q @ ['')'']" by (simp add: av_def ts_def)
  from prim_toks_hd [OF assms(2)] obtain x qs where "prim_toks q = x # qs" "x \<noteq> '')''"
    using toks_hd(3) [of env "Prim q"] assms(2) by auto
  with d2 have "nxtarg0 av (Suc (2 + length (prim_toks p))) = ret (x, Suc (Suc (2 + length (prim_toks p))))" by (simp add: nxtarg0_drop)
  moreover have d1: "drop 1 av = ''('' # prim_toks p @ ''-o'' # prim_toks q @ ['')'']" by (simp add: av_def ts_def)
  ultimately have "test_e3 env av (Suc m) 1 = synbad '') expected'' []"
    using e \<open>x \<noteq> '')''\<close> nxtarg0_drop [OF d1] by (simp add: numeral_2_eq_2)
  then have "test_e2 env av (Suc (Suc m)) 1 = synbad '') expected'' []"
    using nxtarg0_drop [OF d1] by (simp del: test_e3.simps)
  then have "test_e1 env av (Suc (Suc (Suc m))) 1 = synbad '') expected'' []" by (simp add: synbad_def)
  then have "test_e env av (Suc (Suc (Suc (Suc m)))) 1 = synbad '') expected'' []" by (simp add: synbad_def)
  then have "test_e env (''test'' # ts) (4 * length (''test'' # ts) + 4) 1 = synbad '') expected'' []"
    by (simp add: n_def m_def av_def del: test_e.simps)
  from test_main_toks [OF this] show "test_main env (''test'' # ts) = Some (''bad syntax'', ''test: ) expected'' @ [NL])"
    by (simp add: ts_def synbad_def)
qed

lemma short_circuit_leaves_rest_witness:
  "test_main env0 [''test'', ''-z'', ''x'', ''-a'', ''-n'', ''x'', ''-o'', ''-n'', ''x''] = Some (''false'', [])
    \<and> test_main env0 [''test'', ''('', ''-n'', ''x'', ''-o'', ''-n'', ''y'', '')''] = Some (''bad syntax'', ''test: ) expected'' @ [NL])"
  using short_circuit_leaves_rest [of env0 "TUn ''-z'' ''x''" "TUn ''-n'' ''x''" "TUn ''-n'' ''x''"]
    short_circuit_leaves_rest [of env0 "TUn ''-n'' ''x''" "TUn ''-n'' ''y''" "TUn ''-n'' ''y''"]
  by (simp add: e3_unary_def)

end
