(* ===== verification/Mk.thy ===== *)
theory Mk
  imports Prelude "HOL-Library.Sublist"
begin

text \<open>
  The parts of \<open>mk\<close> in src/src/cmd/mk: word.c (breaking a line into words), mod/varsub.c (variable
  substitution) and mod/rc.c (the quoting of \<open>rc\<close>). A pointer into a string is the suffix it points at, a
  list of words the list of their strings, the null pointer the empty list. The UTF functions, the
  macros \<open>WORDCHR\<close> and \<open>PERCENT\<close> of mk.h and the symbol table are a parameter, the record \<open>mklib\<close>. The
  recursion over a string has fuel. \<open>Exit\<close> ends the program, an access outside a string is \<open>Undef\<close>.

  The quoting conventions of a shell are the interface \<open>mk_shell\<close>; mod/rc.c is interpreted as one. The
  properties: what \<open>rc\<close> quotes \<open>stow\<close> reads back; suffix substitution; the recursion ends; a suffix longer
  than the word is looked for before its start.
\<close>

section \<open>Libraries\<close>

type_synonym rune = nat

record mklib =
  u_chartorune :: "string \<Rightarrow> rune \<times> nat"
  u_runetochar :: "rune \<Rightarrow> string"
  u_utfrune :: "string \<Rightarrow> rune \<Rightarrow> bool"
  m_wordchr :: "rune \<Rightarrow> bool"
  m_percent :: "char \<Rightarrow> bool"
  m_symlook :: "string \<Rightarrow> string list option"

datatype mkstop = Exit | Undef

type_synonym 'a mkres = "(mkstop, 'a) res"

text \<open>A shell: where the first character of a set is, and a quoted token (string, quote, buffer).\<close>

record shell =
  sh_charin :: "string \<Rightarrow> string \<Rightarrow> string option"
  sh_expandquote :: "string \<Rightarrow> rune \<Rightarrow> string \<Rightarrow> (string \<times> string) option"

abbreviation rn :: "char \<Rightarrow> rune" where "rn c \<equiv> of_char c"

section \<open>mod/rc.c\<close>

text \<open>After an opening quote: the suffix at the closing quote.\<close>

fun squote :: "mklib \<Rightarrow> nat \<Rightarrow> string \<Rightarrow> string option" where
  "squote lib 0 cp = None"
| "squote lib (Suc k) cp =
     (if cp = [] then None
      else let (r, n) = u_chartorune lib cp
           in if r = rn CHR 0x27
              then (let (r, m) = u_chartorune lib (drop n cp)
                    in if r \<noteq> rn CHR 0x27 then Some cp else squote lib k (drop (n + m) cp))
              else squote lib k (drop n cp))"

fun charin_loop :: "mklib \<Rightarrow> nat \<Rightarrow> bool \<Rightarrow> string \<Rightarrow> string \<Rightarrow> string option" where
  "charin_loop lib 0 vargen cp pat = None"
| "charin_loop lib (Suc k) vargen cp pat =
     (if cp = [] then None
      else let (r, n) = u_chartorune lib cp
           in if r = rn CHR 0x27
              then (case squote lib (length cp) (drop 1 cp) of
                      None \<Rightarrow> None
                    | Some cp \<Rightarrow> charin_loop lib k vargen (drop n cp) pat)
              else if r = rn CHR ''$''
              then charin_loop lib k (vargen \<or> (2 \<le> length cp \<and> cp ! 1 = CHR ''{'')) (drop n cp) pat
              else if r = rn CHR ''}''
              then (if vargen then charin_loop lib k False (drop n cp) pat
                    else if u_utfrune lib pat r then Some cp
                    else charin_loop lib k vargen (drop n cp) pat)
              else if \<not> vargen \<and> u_utfrune lib pat r then Some cp
              else charin_loop lib k vargen (drop n cp) pat)"

definition rccharin :: "mklib \<Rightarrow> string \<Rightarrow> string \<Rightarrow> string option" where
  "rccharin lib cp pat = charin_loop lib (length cp + 1) False cp pat"

fun expandquote_loop :: "mklib \<Rightarrow> nat \<Rightarrow> string \<Rightarrow> string \<Rightarrow> (string \<times> string) option" where
  "expandquote_loop lib 0 s b = None"
| "expandquote_loop lib (Suc k) s b =
     (if s = [] then None
      else let (r, n) = u_chartorune lib s;
               s = drop n s
           in if r = rn CHR 0x27
              then (if s \<noteq> [] \<and> hd s = CHR 0x27
                    then expandquote_loop lib k (tl s) (b @ u_runetochar lib r)
                    else Some (s, b))
              else expandquote_loop lib k s (b @ u_runetochar lib r))"

definition rcexpandquote :: "mklib \<Rightarrow> string \<Rightarrow> rune \<Rightarrow> string \<Rightarrow> (string \<times> string) option" where
  "rcexpandquote lib s r b =
     (if r \<noteq> rn CHR 0x27 then Some (s, b @ u_runetochar lib r)
      else expandquote_loop lib (length s + 1) s b)"

text \<open>
  Reading a quoted token from the input: \<open>nextrune\<close>, \<open>Bgetrune\<close> and \<open>Bungetrune\<close> are arguments. Whether the
  closing quote was found, the buffer and the input.
\<close>

partial_function (option) rcescape_loop ::
  "mklib \<Rightarrow> ('b \<Rightarrow> int \<times> 'b) \<Rightarrow> ('b \<Rightarrow> int \<times> 'b) \<Rightarrow> ('b \<Rightarrow> 'b) \<Rightarrow> bool \<Rightarrow> 'b \<Rightarrow> string \<Rightarrow> (bool \<times> string \<times> 'b) option" where
  "rcescape_loop lib nextr getr ungetr pres bp buf =
     (let (c, bp) = nextr bp
      in if c \<le> 0 then Some (False, buf, bp)
         else if c = 39
         then (let buf = (if pres then buf @ u_runetochar lib (nat c) else buf);
                   (c, bp) = getr bp
               in if c < 0 then Some (False, buf, bp)
                  else if c \<noteq> 39 then Some (True, buf, ungetr bp)
                  else rcescape_loop lib nextr getr ungetr pres bp (buf @ u_runetochar lib (nat c)))
         else rcescape_loop lib nextr getr ungetr pres bp (buf @ u_runetochar lib (nat c)))"

definition rcescapetoken ::
  "mklib \<Rightarrow> ('b \<Rightarrow> int \<times> 'b) \<Rightarrow> ('b \<Rightarrow> int \<times> 'b) \<Rightarrow> ('b \<Rightarrow> 'b) \<Rightarrow> 'b \<Rightarrow> string \<Rightarrow> bool \<Rightarrow> int \<Rightarrow> (bool \<times> string \<times> 'b) option" where
  "rcescapetoken lib nextr getr ungetr bp buf pres esc =
     (if esc \<noteq> 39 then Some (True, buf, bp) else rcescape_loop lib nextr getr ungetr pres bp buf)"

text \<open>Copying a quoted string: the rest and the buffer.\<close>

fun copysingle :: "mklib \<Rightarrow> nat \<Rightarrow> string \<Rightarrow> string \<Rightarrow> string \<times> string" where
  "copysingle lib 0 s buf = (s, buf)"
| "copysingle lib (Suc k) s buf =
     (if s = [] then (s, buf)
      else let (r, n) = u_chartorune lib s;
               s = drop n s;
               buf = buf @ u_runetochar lib r
           in if r = rn CHR 0x27 then (s, buf) else copysingle lib k s buf)"

fun copyq_loop :: "mklib \<Rightarrow> nat \<Rightarrow> string \<Rightarrow> string \<Rightarrow> string \<times> string" where
  "copyq_loop lib 0 s buf = (s, buf)"
| "copyq_loop lib (Suc k) s buf =
     (if s = [] then (s, buf)
      else let (q, n) = u_chartorune lib s;
               s = drop n s;
               buf = buf @ u_runetochar lib q
           in if q = rn CHR ''}'' then (s, buf)
              else if q = rn CHR 0x27
              then (let (s, buf) = copysingle lib (length s) s buf in copyq_loop lib k s buf)
              else copyq_loop lib k s buf)"

definition rccopyq :: "mklib \<Rightarrow> string \<Rightarrow> rune \<Rightarrow> string \<Rightarrow> string \<times> string" where
  "rccopyq lib s q buf =
     (if q = rn CHR 0x27 then copysingle lib (length s) s buf
      else if q \<noteq> rn CHR 0x60 then (s, buf)
      else copyq_loop lib (length s) s buf)"

definition rcmatchname :: "string \<Rightarrow> bool" where
  "rcmatchname name =
     (let name = (case strrchr name CHR ''/'' of None \<Rightarrow> name | Some i \<Rightarrow> drop (Suc i) name)
      in 2 \<le> length name \<and> name ! 0 = CHR ''r'' \<and> name ! 1 = CHR ''c'')"

definition rcshell :: "mklib \<Rightarrow> shell" where
  "rcshell lib = \<lparr>sh_charin = rccharin lib, sh_expandquote = rcexpandquote lib\<rparr>"

section \<open>word.c: lists of words\<close>

definition newword :: "string \<Rightarrow> string list" where
  "newword s = [s]"

fun wtos :: "string list \<Rightarrow> char \<Rightarrow> string" where
  "wtos [] sep = []"
| "wtos [w] sep = w"
| "wtos (w # ws) sep = w @ sep # wtos ws sep"

fun wdup :: "string list \<Rightarrow> string list" where
  "wdup [] = []"
| "wdup (w # ws) = newword w @ wdup ws"

definition dumpw :: "string \<Rightarrow> string list \<Rightarrow> string" where
  "dumpw s ws = s @ concat (map (\<lambda>w. '' '' @ [CHR 0x27] @ w @ [CHR 0x27]) ws) @ [CHR 0x0A]"

text \<open>Text appended to the last word of a list.\<close>

definition add_last :: "string list \<Rightarrow> string \<Rightarrow> string list" where
  "add_last ws b = butlast ws @ [last ws @ b]"

definition is_blank :: "char \<Rightarrow> bool" where
  "is_blank c \<longleftrightarrow> c = CHR '' '' \<or> c = CHR 0x09"

text \<open>Where \<open>nextword\<close> leaves its loop; and where a variable has given words.\<close>

definition word_out :: "string \<Rightarrow> string list \<Rightarrow> string list" where
  "word_out b ws = (if b \<noteq> [] then (if ws \<noteq> [] then add_last ws b else newword b) else ws)"

definition word_join :: "string \<Rightarrow> string list \<Rightarrow> string list \<Rightarrow> string list" where
  "word_join b ws w =
     (let w = (if b \<noteq> [] then (b @ hd w) # tl w else w)
      in if ws \<noteq> [] then add_last ws (hd w) @ tl w else w)"

section \<open>mod/varsub.c\<close>

fun varname_loop :: "mklib \<Rightarrow> nat \<Rightarrow> string \<Rightarrow> string \<Rightarrow> string \<times> string" where
  "varname_loop lib 0 cp b = (b, cp)"
| "varname_loop lib (Suc k) cp b =
     (let (r, n) = u_chartorune lib cp
      in if \<not> m_wordchr lib r then (b, cp)
         else varname_loop lib k (drop n cp) (b @ u_runetochar lib r))"

text \<open>The name and the rest, or the error of a missing name.\<close>

definition varname :: "mklib \<Rightarrow> string \<Rightarrow> (string \<times> string) option" where
  "varname lib s = (let (b, cp) = varname_loop lib (length s + 1) s [] in if b = [] then None else Some (b, cp))"

definition varmatch :: "mklib \<Rightarrow> string \<Rightarrow> string list" where
  "varmatch lib name =
     (case m_symlook lib name of
        None \<Rightarrow> []
      | Some ws \<Rightarrow> if \<exists>w \<in> set ws. w \<noteq> [] then wdup ws else [])"

text \<open>Whether \<open>s\<close> matches a prefix of \<open>a\<close> and a suffix of \<open>b\<close>: the middle's length and where it begins.\<close>

fun match_prefix :: "string \<Rightarrow> string list \<Rightarrow> nat option" where
  "match_prefix s [] = None"
| "match_prefix s (w # ws) = (if strncmp_eq s w (length w) then Some (length w) else match_prefix s ws)"

fun match_suffix :: "string \<Rightarrow> string list \<Rightarrow> nat option mkres" where
  "match_suffix s [] = ret None"
| "match_suffix s (w # ws) =
     (if length s < length w then Some (Inl Undef) \<comment> \<open>\<open>end-n\<close> is before the string\<close>
      else if w = drop (length s - length w) s then ret (Some (length w))
      else match_suffix s ws)"

definition submatch :: "string \<Rightarrow> string list \<Rightarrow> string list \<Rightarrow> (int \<times> string) option mkres" where
  "submatch s a b =
     (case (if a = [] then Some 0 else match_prefix s a) of
        None \<Rightarrow> ret None
      | Some n \<Rightarrow>
          rbind (match_suffix s b) (\<lambda>m.
            case m of
              None \<Rightarrow> ret (if b \<noteq> [] then None else Some (int (length s) - int n, drop n s))
            | Some m \<Rightarrow> ret (Some (int (length s) - int n - int m, drop n s))))"

text \<open>
  What a word that matches becomes: the list up to the node \<open>w\<close> points at, and the nodes after it. Only
  after \<open>wdup(d)\<close> is that node not the last one; the next word of the variable is then linked in behind it.
\<close>

definition sub_word :: "string list \<Rightarrow> string list \<Rightarrow> bool \<Rightarrow> int \<times> string \<Rightarrow> string list \<times> string list" where
  "sub_word c d percent mt =
     (let (nmid, enda) = mt;
          w = wdup c;
          w = (if percent \<and> 0 < nmid
               then (if w \<noteq> [] then add_last w (take (nat nmid) enda) else newword (take (nat nmid) enda))
               else w)
      in if d \<noteq> [] \<and> hd d \<noteq> []
         then (if w \<noteq> [] then (add_last w (hd d) @ wdup (tl d), []) else (take 1 (wdup d), drop 1 (wdup d)))
         else (w, []))"

fun sub_words :: "string list \<Rightarrow> string list \<Rightarrow> string list \<Rightarrow> string list \<Rightarrow> bool \<Rightarrow> string list
    \<Rightarrow> string list \<Rightarrow> string list \<Rightarrow> string list mkres" where
  "sub_words a b c d percent [] got behind = ret (got @ behind)"
| "sub_words a b c d percent (v # vs) got behind =
     rbind (submatch v a b) (\<lambda>mt.
       let (h, h') = (case mt of None \<Rightarrow> ([], []) | Some mt \<Rightarrow> sub_word c d percent mt);
           (h, h') = (if h = [] then (newword v, []) else (h, h'))
       in sub_words a b c d percent vs (got @ h) h')"

definition hd_percent :: "mklib \<Rightarrow> string \<Rightarrow> bool" where
  "hd_percent lib cp \<longleftrightarrow> cp \<noteq> [] \<and> m_percent lib (hd cp)"

text \<open>
  The operations below call \<open>stow\<close> on a part of the pattern; what they call is their argument \<open>st\<close>, and
  \<open>stow_loop\<close> passes itself.
\<close>

definition extractpat :: "shell \<Rightarrow> (string \<Rightarrow> string list mkres) \<Rightarrow> string \<Rightarrow> string \<Rightarrow> (string list \<times> string) mkres" where
  "extractpat sh st s trm =
     (case sh_charin sh s trm of
        Some cp \<Rightarrow>
          if cp = s then ret ([], cp)
          else rbind (st (take (length s - length cp) s)) (\<lambda>w. ret (w, cp))
      | None \<Rightarrow> rbind (st s) (\<lambda>w. ret (w, [])))"

definition subsub :: "mklib \<Rightarrow> shell \<Rightarrow> (string \<Rightarrow> string list mkres) \<Rightarrow> string list \<Rightarrow> string \<Rightarrow> string list mkres" where
  "subsub lib sh st v s =
     rbind (extractpat sh st s ''=%&'') (\<lambda>(a, cp).
     rbind (if hd_percent lib cp then extractpat sh st (tl cp) ''='' else ret ([], cp)) (\<lambda>(b, cp).
     rbind (if cp \<noteq> [] \<and> hd cp = CHR ''='' then extractpat sh st (tl cp) ''&%'' else ret ([], cp)) (\<lambda>(c, cp).
     rbind (if hd_percent lib cp then st (tl cp)
            else if cp \<noteq> [] then st cp else ret []) (\<lambda>d.
       sub_words a b c d (hd_percent lib cp) v [] []))))"

definition expandvar :: "mklib \<Rightarrow> shell \<Rightarrow> (string \<Rightarrow> string list mkres) \<Rightarrow> string \<Rightarrow> (string list \<times> string) mkres" where
  "expandvar lib sh st s =
     (case varname lib (tl s) of
        None \<Rightarrow> ret ([], tl s)
      | Some (b, cp) \<Rightarrow>
          if cp \<noteq> [] \<and> hd cp = CHR ''}'' then ret (varmatch lib b, tl cp)
          else if cp = [] \<or> hd cp \<noteq> CHR '':'' then ret ([], cp)
          else (case sh_charin sh (tl cp) ''}'' of
                  None \<Rightarrow> Some (Inl Exit)
                | Some brace \<Rightarrow>
                    (let pat = take (length (tl cp) - length brace) (tl cp)
                     in case m_symlook lib b of
                          None \<Rightarrow> ret (newword b, tl brace)
                        | Some v \<Rightarrow>
                            if v = [] then ret (newword b, tl brace)
                            else rbind (subsub lib sh st v pat) (\<lambda>w. ret (w, tl brace)))))"

definition varsub :: "mklib \<Rightarrow> shell \<Rightarrow> (string \<Rightarrow> string list mkres) \<Rightarrow> string \<Rightarrow> (string list \<times> string) mkres" where
  "varsub lib sh st s =
     (if s \<noteq> [] \<and> hd s = CHR ''{'' then expandvar lib sh st s
      else case varname lib s of
        None \<Rightarrow> ret ([], s)
      | Some (b, s) \<Rightarrow> ret (varmatch lib b, s))"

section \<open>Words with substitutions\<close>

fun stow_loop :: "mklib \<Rightarrow> shell \<Rightarrow> nat \<Rightarrow> string \<Rightarrow> string list \<Rightarrow> string list mkres"
  and nextword_loop :: "mklib \<Rightarrow> shell \<Rightarrow> nat \<Rightarrow> string \<Rightarrow> string \<Rightarrow> string list \<Rightarrow> bool \<Rightarrow> (string list \<times> string) mkres" where
  "stow_loop lib sh 0 s acc = None"
| "nextword_loop lib sh 0 cp b ws hs = None"
| "stow_loop lib sh (Suc k) s acc =
     (if s = [] then ret (if acc = [] then newword [] else acc)
      else rbind (nextword_loop lib sh k (dropWhile is_blank s) [] [] False) (\<lambda>(w, s).
        if w = [] then ret (if acc = [] then newword [] else acc) else stow_loop lib sh k s (acc @ w)))"
| "nextword_loop lib sh (Suc k) cp b ws hs =
     (if cp = [] then ret (word_out b ws, cp)
      else let (r, n) = u_chartorune lib cp;
               rest = drop n cp
           in if r = rn CHR '' '' \<or> r = rn CHR 0x09 \<or> r = rn CHR 0x0A then ret (word_out b ws, rest)
              else if r = rn CHR 0x5C \<or> r = rn CHR 0x27 \<or> r = rn CHR 0x22
              then (case sh_expandquote sh rest r b of
                      None \<Rightarrow> Some (Inl Exit)
                    | Some (rest, b) \<Rightarrow> nextword_loop lib sh k rest b ws True)
              else if r = rn CHR ''$''
              then rbind (varsub lib sh (\<lambda>s. stow_loop lib sh k s []) rest) (\<lambda>(w, rest).
                if w = []
                then (let after = dropWhile is_blank rest
                      in if hs \<and> after \<noteq> rest then ret (word_out b ws, after)
                         else nextword_loop lib sh k after b ws hs)
                else nextword_loop lib sh k rest [] (word_join b ws w) True)
              else nextword_loop lib sh k rest (b @ u_runetochar lib r) ws True)"

declare stow_loop.simps(2) [simp del] nextword_loop.simps(2) [simp del]

lemmas stow_step = stow_loop.simps(2)
lemmas nextword_step = nextword_loop.simps(2)

text \<open>The fuel is two calls for every character.\<close>

definition stow :: "mklib \<Rightarrow> shell \<Rightarrow> string \<Rightarrow> string list mkres" where
  "stow lib sh s = stow_loop lib sh (2 * length s + 2) s []"

section \<open>The laws of the libraries\<close>

text \<open>
  What the manual of the UTF functions says: every character but NUL below 128 stands for itself, a rune
  takes at least one byte, and only a byte below 128 gives a rune below 128. NUL ends a variable's name.
\<close>

definition ascii :: "char \<Rightarrow> bool" where
  "ascii c \<longleftrightarrow> rn c < 128"

definition utf_ok :: "mklib \<Rightarrow> bool" where
  "utf_ok lib \<longleftrightarrow>
     (\<forall>c s. ascii c \<longrightarrow> u_chartorune lib (c # s) = (rn c, 1) \<and> u_runetochar lib (rn c) = [c])
     \<and> u_chartorune lib [] = (0, 1)
     \<and> (\<forall>s. s \<noteq> [] \<longrightarrow> 0 < snd (u_chartorune lib s) \<and> (fst (u_chartorune lib s) < 128 \<longrightarrow> fst (u_chartorune lib s) = rn (hd s)))
     \<and> (\<forall>pat c. (\<forall>d \<in> set pat. ascii d) \<and> ascii c \<longrightarrow> (u_utfrune lib pat (rn c) \<longleftrightarrow> c \<in> set pat))
     \<and> \<not> m_wordchr lib 0"

lemma rn_eq [simp]: "rn c = rn d \<longleftrightarrow> c = d"
  by simp

lemma utf_okD:
  assumes "utf_ok lib"
  shows "ascii c \<Longrightarrow> u_chartorune lib (c # s) = (rn c, 1)" "ascii c \<Longrightarrow> u_runetochar lib (rn c) = [c]"
    "u_chartorune lib [] = (0, 1)" "s \<noteq> [] \<Longrightarrow> u_chartorune lib s = (r, n) \<Longrightarrow> 0 < n"
    "\<forall>d \<in> set pat. ascii d \<Longrightarrow> ascii c \<Longrightarrow> u_utfrune lib pat (rn c) \<longleftrightarrow> c \<in> set pat" "\<not> m_wordchr lib 0"
    "s \<noteq> [] \<Longrightarrow> u_chartorune lib s = (r, n) \<Longrightarrow> r < 128 \<Longrightarrow> r = rn (hd s)"
  using assms unfolding utf_ok_def by (auto dest: spec [of _ s])

section \<open>The interface of a shell\<close>

text \<open>Characters without a meaning for the shell or for the expansion of variables.\<close>

definition plain :: "char \<Rightarrow> bool" where
  "plain c \<longleftrightarrow> ascii c \<and> c \<notin> {CHR 0x27, CHR 0x22, CHR 0x5C, CHR ''$''}"

text \<open>
  What mk needs from a shell: a search ends inside the string, and finds the first character of the set where
  nothing is quoted; a quoted token that is followed by a blank or the end is read back as it was.
\<close>

locale mk_shell =
  fixes sh :: "mklib \<Rightarrow> shell" and quote :: "string \<Rightarrow> string"
  assumes charin_suffix: "utf_ok lib \<Longrightarrow> sh_charin (sh lib) s pat = Some t \<Longrightarrow> suffix t s"
    and charin_plain: "utf_ok lib \<Longrightarrow> \<forall>c \<in> set pat. ascii c \<Longrightarrow> \<forall>c \<in> set s. plain c \<Longrightarrow>
      sh_charin (sh lib) s pat = (let t = dropWhile (\<lambda>c. c \<notin> set pat) s in if t = [] then None else Some t)"
    and expand_shorter: "utf_ok lib \<Longrightarrow> sh_expandquote (sh lib) s r b = Some (t, b') \<Longrightarrow> length t \<le> length s"
    and expand_quoted: "utf_ok lib \<Longrightarrow> \<forall>c \<in> set w. ascii c \<Longrightarrow> rest = [] \<or> is_blank (hd rest) \<Longrightarrow>
      \<exists>q body. quote w = q # body \<and> q \<in> {CHR 0x27, CHR 0x22, CHR 0x5C}
        \<and> sh_expandquote (sh lib) (body @ rest) (rn q) b = Some (rest, b @ w)"

text \<open>The rest that an operation leaves is no longer than what it was given.\<close>

lemma varname_loop_rest: "length (snd (varname_loop lib k cp b)) \<le> length cp"
proof (induction k arbitrary: cp b)
  case (Suc k)
  obtain r n where "u_chartorune lib cp = (r, n)" by fastforce
  moreover have "length (snd (varname_loop lib k (drop n cp) (b @ u_runetochar lib r))) \<le> length cp"
    using Suc [of "drop n cp" "b @ u_runetochar lib r"] by simp
  ultimately show ?case by simp
qed simp

lemma varname_rest: "varname lib s = Some (b, cp) \<Longrightarrow> length cp \<le> length s"
  using varname_loop_rest [of lib "length s + 1" s "[]"]
  by (auto simp: varname_def simp del: varname_loop.simps split: if_splits prod.splits)

lemma match_suffix_total: "match_suffix s ws \<noteq> None"
  by (induction s ws rule: match_suffix.induct) auto

lemma submatch_total: "submatch s a b \<noteq> None"
  using match_suffix_total by (auto simp del: not_None_eq simp add: submatch_def rbind_eq_None split: option.splits)

lemma sub_words_total: "sub_words a b c d percent vs got behind \<noteq> None"
  by (induction vs arbitrary: got behind)
    (auto simp del: not_None_eq simp add: rbind_eq_None submatch_total Let_def split: option.splits prod.splits if_splits)

context mk_shell
begin

lemma charin_length: "utf_ok lib \<Longrightarrow> sh_charin (sh lib) s pat = Some t \<Longrightarrow> length t \<le> length s"
  using charin_suffix [of lib s pat t] by (auto simp: suffix_def)

lemma extractpat_rest:
  "utf_ok lib \<Longrightarrow> extractpat (sh lib) st s trm = ret (w, cp) \<Longrightarrow> length cp \<le> length s"
  by (auto simp: extractpat_def rbind_eq_ret dest: charin_length split: option.splits if_splits)

lemma extractpat_total:
  assumes "\<And>t. length t \<le> length s \<Longrightarrow> st t \<noteq> None"
  shows "extractpat (sh lib) st s trm \<noteq> None"
  using assms by (auto simp del: not_None_eq simp add: extractpat_def rbind_eq_None split: option.splits if_splits)

lemma subsub_total:
  assumes "utf_ok lib" "\<And>t. length t \<le> length s \<Longrightarrow> st t \<noteq> None"
  shows "subsub lib (sh lib) st v s \<noteq> None"
proof -
  have e: "extractpat (sh lib) st t trm \<noteq> None" if "length t \<le> length s" for t trm
    using that assms(2) by (intro extractpat_total) auto
  note r = extractpat_rest [OF assms(1)]
  show ?thesis
    unfolding subsub_def
    by (auto simp del: not_None_eq simp add: rbind_eq_None rbind_eq_ret e sub_words_total assms(2) split: if_splits prod.splits
        dest!: r intro!: e assms(2))
qed

lemma varsub_rest:
  assumes "utf_ok lib" "varsub lib (sh lib) st s = ret (w, t)"
  shows "length t \<le> length s"
proof -
  have "length t \<le> length (tl u) \<Longrightarrow> length u \<le> length v \<Longrightarrow> length v \<le> length s \<Longrightarrow> length t \<le> length s" for u v by simp
  moreover have tl: "length (tl u) \<le> length u" for u :: string by simp
  ultimately show ?thesis
    using assms(2) le_trans [OF _ tl]
    by (auto simp: varsub_def expandvar_def Let_def rbind_eq_ret split: if_splits option.splits prod.splits
        dest!: varname_rest charin_length [OF assms(1)])
qed

lemma varsub_total:
  assumes "utf_ok lib" "\<And>t. length t \<le> length s \<Longrightarrow> st t \<noteq> None"
  shows "varsub lib (sh lib) st s \<noteq> None"
proof -
  have "subsub lib (sh lib) st v (take n u) \<noteq> None" if "length u \<le> length s" for v n u
    using that assms by (intro subsub_total) auto
  then show ?thesis
    by (auto iff del: not_None_eq simp add: varsub_def expandvar_def Let_def rbind_eq_None
        split: if_splits option.splits prod.splits dest!: varname_rest)
qed

lemma nextword_rest:
  assumes "utf_ok lib"
  shows "nextword_loop lib (sh lib) k cp b ws hs = ret (w, t) \<Longrightarrow> length t \<le> length cp \<and> (cp \<noteq> [] \<longrightarrow> length t < length cp)"
proof (induction k arbitrary: cp b ws hs)
  case (Suc k)
  show ?case
  proof (cases "cp = []")
    case True
    with Suc.prems show ?thesis by (auto simp: nextword_step)
  next
    case False
    obtain r n where d: "u_chartorune lib cp = (r, n)" by fastforce
    have n: "length (drop n cp) < length cp" using utf_okD(4) [OF assms False d] False by simp
    have rec: "length t < length cp" if "nextword_loop lib (sh lib) k cp' b' ws' h' = ret (w, t)" "length cp' < length cp" for cp' b' ws' h'
      using Suc.IH [OF that(1)] that(2) by simp
    have dw: "length (dropWhile is_blank u) \<le> length u" for u by (rule length_dropWhile_le)
    show ?thesis
      using Suc.prems False n d
      by (auto simp: nextword_step Let_def rbind_eq_ret split: if_splits option.splits prod.splits
          dest!: varsub_rest [OF assms] expand_shorter [OF assms] rec intro: le_less_trans [OF dw] order_trans [OF dw])
  qed
qed simp

text \<open>Two calls for every character are enough.\<close>

lemma stow_nextword_total:
  assumes "utf_ok lib"
  shows "(2 * length s + 2 \<le> k \<longrightarrow> stow_loop lib (sh lib) k s acc \<noteq> None)
    \<and> (2 * length cp + 1 \<le> k \<longrightarrow> nextword_loop lib (sh lib) k cp b ws hs \<noteq> None)"
proof (induction k arbitrary: s acc cp b ws hs)
  case (Suc k)
  have st: "stow_loop lib (sh lib) k t a \<noteq> None" if "2 * length t + 2 \<le> k" for t a using Suc that by blast
  have nw: "nextword_loop lib (sh lib) k t c x h \<noteq> None" if "2 * length t + 1 \<le> k" for t c x h using Suc that by blast
  have "stow_loop lib (sh lib) (Suc k) s acc \<noteq> None" if k: "2 * length s + 2 \<le> Suc k"
  proof (cases "s = []")
    case True
    then show ?thesis by (simp add: stow_step)
  next
    case False
    have dw: "length (dropWhile is_blank s) \<le> length s" by (rule length_dropWhile_le)
    have "nextword_loop lib (sh lib) k (dropWhile is_blank s) [] [] False \<noteq> None" using dw k by (intro nw) linarith
    moreover have "2 * length t + 2 \<le> k" if "nextword_loop lib (sh lib) k (dropWhile is_blank s) [] [] False = ret (w, t)" for w t
      using nextword_rest [OF assms that] dw k False by (cases s; cases "dropWhile is_blank s = []") auto
    ultimately show ?thesis using False
      by (auto iff del: not_None_eq simp add: stow_step rbind_eq_None st)
  qed
  moreover have "nextword_loop lib (sh lib) (Suc k) cp b ws hs \<noteq> None" if k: "2 * length cp + 1 \<le> Suc k"
  proof (cases "cp = []")
    case True
    then show ?thesis by (simp add: nextword_step)
  next
    case False
    obtain r n where d: "u_chartorune lib cp = (r, n)" by fastforce
    have n: "length (drop n cp) < length cp" using utf_okD(4) [OF assms False d] False by simp
    then have lt: "2 * length t + 2 \<le> k" if "length t \<le> length (drop n cp)" for t :: string using that k by linarith
    have vs: "varsub lib (sh lib) (\<lambda>s. stow_loop lib (sh lib) k s []) (drop n cp) \<noteq> None"
      by (rule varsub_total [OF assms]) (intro st lt)
    have nx: "nextword_loop lib (sh lib) k t c x h \<noteq> None" if "length t \<le> length (drop n cp)" for t c x h
      using lt [OF that] by (intro nw) linarith
    have dw: "length (dropWhile is_blank t) \<le> length (drop n cp)" if "length t \<le> length (drop n cp)" for t
      using that length_dropWhile_le [of is_blank t] by linarith
    show ?thesis using False d
      by (auto iff del: not_None_eq simp del: length_drop simp add: vs nx dw nextword_step Let_def rbind_eq_None
          split: option.splits prod.splits dest!: varsub_rest [OF assms] expand_shorter [OF assms])
  qed
  ultimately show ?case by blast
qed simp

lemma stow_total: "utf_ok lib \<Longrightarrow> stow lib (sh lib) s \<noteq> None"
  unfolding stow_def using stow_nextword_total [of lib s] by blast

lemma nextword_end:
  "utf_ok lib \<Longrightarrow> rest = [] \<or> is_blank (hd rest) \<Longrightarrow> nextword_loop lib sh' (Suc k) rest b ws hs = ret (word_out b ws, tl rest)"
  using utf_okD(1) [of lib "hd rest" "tl rest"] by (cases rest) (auto simp: nextword_step is_blank_def ascii_def)

lemma nextword_quoted:
  assumes "utf_ok lib" "\<forall>c \<in> set w. ascii c" "rest = [] \<or> is_blank (hd rest)"
  shows "nextword_loop lib (sh lib) (Suc (Suc k)) (quote w @ rest) [] [] False = ret (word_out w [], tl rest)"
proof -
  from expand_quoted [OF assms, of "[]"] obtain q body where q: "quote w = q # body" "q \<in> {CHR 0x27, CHR 0x22, CHR 0x5C}"
    "sh_expandquote (sh lib) (body @ rest) (rn q) [] = Some (rest, w)" by auto
  then have "u_chartorune lib (q # body @ rest) = (rn q, 1)" by (intro utf_okD(1) [OF assms(1)]) (auto simp: ascii_def)
  moreover have "rn q = rn CHR 0x5C \<or> rn q = rn CHR 0x27 \<or> rn q = rn CHR 0x22" using q(2) by auto
  moreover have "rn q \<noteq> rn CHR '' ''" "rn q \<noteq> rn CHR 0x09" "rn q \<noteq> rn CHR 0x0A" using q(2) by auto
  ultimately show ?thesis
    using nextword_end [OF assms(1,3), of "sh lib" k w "[]" True] q(1,3)
    by (subst nextword_step) (simp only: append_Cons list.distinct Let_def prod.case if_False if_True option.case drop_Suc_Cons One_nat_def drop_0 simp_thms)
qed

lemma quote_neq:
  assumes "utf_ok lib" "\<forall>c \<in> set w. ascii c"
  shows "dropWhile is_blank (quote w @ t) = quote w @ t" "quote w @ t \<noteq> []"
proof -
  obtain q body where "quote w = q # body" "q \<in> {CHR 0x27, CHR 0x22, CHR 0x5C}"
    using expand_quoted [OF assms, of "[]" "[]"] by auto
  then show "dropWhile is_blank (quote w @ t) = quote w @ t" "quote w @ t \<noteq> []" by (auto simp: is_blank_def)
qed

lemma stow_quoted_loop:
  assumes "utf_ok lib"
  shows "\<forall>w \<in> set ws. w \<noteq> [] \<and> (\<forall>c \<in> set w. ascii c) \<Longrightarrow> ws \<noteq> [] \<Longrightarrow> 2 * length (wtos (map quote ws) CHR '' '') + 2 \<le> k
    \<Longrightarrow> stow_loop lib (sh lib) k (wtos (map quote ws) CHR '' '') acc = ret (acc @ ws)"
proof (induction ws arbitrary: k acc rule: induct_list012)
  case (2 w)
  have a: "\<forall>c \<in> set w. ascii c" and w: "w \<noteq> []" using 2 by auto
  have "length (quote w) \<noteq> 0" using quote_neq(2) [OF assms a, of "[]"] by simp
  then obtain m where k: "k = Suc (Suc (Suc m))" using 2 by (cases k; cases "k - 1"; cases "k - 2") auto
  show ?case unfolding k
    using nextword_quoted [OF assms a, of "[]" m] quote_neq [OF assms a, of "[]"] w
    by (subst stow_step) (simp add: word_out_def newword_def stow_step)
next
  case (3 w w2 ws)
  have a: "\<forall>c \<in> set w. ascii c" and w: "w \<noteq> []" using 3 by auto
  let ?t = "wtos (map quote (w2 # ws)) CHR '' ''"
  have e: "wtos (map quote (w # w2 # ws)) CHR '' '' = quote w @ CHR '' '' # ?t" by simp
  obtain m where k: "k = Suc (Suc (Suc m))" using 3 by (cases k; cases "k - 1"; cases "k - 2") auto
  have "2 * length (quote w @ CHR '' '' # ?t) + 2 \<le> k" using 3(5) unfolding e .
  then have l: "2 * length ?t + 2 \<le> Suc (Suc m)" unfolding k by simp
  have "nextword_loop lib (sh lib) (Suc (Suc m)) (quote w @ CHR '' '' # ?t) [] [] False = ret ([w], ?t)"
    using nextword_quoted [OF assms a, of "CHR '' '' # ?t" m] w by (simp add: is_blank_def word_out_def newword_def)
  moreover have "stow_loop lib (sh lib) (Suc (Suc m)) ?t (acc @ [w]) = ret ((acc @ [w]) @ w2 # ws)"
    using 3 l by (intro 3(2)) (simp_all del: wtos.simps)
  ultimately show ?case unfolding k e using quote_neq [OF assms a, of "CHR '' '' # ?t"]
    by (subst stow_step) (simp del: wtos.simps)
qed simp

text \<open>What a shell quotes, \<open>stow\<close> reads back.\<close>

lemma stow_quoted:
  "utf_ok lib \<Longrightarrow> ws \<noteq> [] \<Longrightarrow> \<forall>w \<in> set ws. w \<noteq> [] \<and> (\<forall>c \<in> set w. ascii c)
     \<Longrightarrow> stow lib (sh lib) (wtos (map quote ws) CHR '' '') = ret ws"
  unfolding stow_def by (subst stow_quoted_loop) simp_all

end

section \<open>rc is such a shell\<close>

definition rcquote :: "string \<Rightarrow> string" where
  "rcquote w = CHR 0x27 # concat (map (\<lambda>c. if c = CHR 0x27 then [c, c] else [c]) w) @ [CHR 0x27]"

lemma squote_suffix: "squote lib k cp = Some t \<Longrightarrow> suffix t cp"
proof (induction k arbitrary: cp)
  case (Suc k)
  obtain r n where d: "u_chartorune lib cp = (r, n)" by fastforce
  have "suffix t cp" if "squote lib k (drop m cp) = Some t" for m
    using Suc.IH [OF that] suffix_drop [of m cp] by (rule suffix_order.trans)
  with Suc.prems d show ?case by (auto split: if_splits prod.splits)
qed simp

lemma charin_loop_suffix: "charin_loop lib k vargen cp pat = Some t \<Longrightarrow> suffix t cp"
proof (induction k arbitrary: cp vargen)
  case (Suc k)
  obtain r n where d: "u_chartorune lib cp = (r, n)" by fastforce
  have dr: "suffix t cp" if "charin_loop lib k v (drop m cp) pat = Some t" for m v
    using Suc.IH [OF that] suffix_drop [of m cp] by (rule suffix_order.trans)
  have sq: "suffix t cp" if "squote lib l (drop (Suc 0) cp) = Some u" "charin_loop lib k v (drop m u) pat = Some t" for l u m v
    using Suc.IH [OF that(2)] suffix_drop [of m u] squote_suffix [OF that(1)] suffix_drop [of "Suc 0" cp]
    by (blast intro: suffix_order.trans)
  from Suc.prems d show ?case by (auto dest: dr sq split: if_splits option.splits)
qed simp

lemma charin_loop_plain:
  assumes "utf_ok lib" "\<forall>c \<in> set pat. ascii c"
  shows "\<forall>c \<in> set s. plain c \<Longrightarrow> length s < k \<Longrightarrow>
    charin_loop lib k False s pat = (let t = dropWhile (\<lambda>c. c \<notin> set pat) s in if t = [] then None else Some t)"
proof (induction k arbitrary: s)
  case (Suc k)
  show ?case
  proof (cases s)
    case (Cons c cs)
    then have c: "ascii c" "c \<noteq> CHR 0x27" "c \<noteq> CHR ''$''" using Suc.prems by (auto simp: plain_def)
    then have "u_chartorune lib s = (rn c, 1)" using utf_okD(1) [OF assms(1)] Cons by blast
    moreover have "u_utfrune lib pat (rn c) \<longleftrightarrow> c \<in> set pat" by (rule utf_okD(5) [OF assms c(1)])
    moreover have "charin_loop lib k False cs pat = (let t = dropWhile (\<lambda>c. c \<notin> set pat) cs in if t = [] then None else Some t)"
      using Suc Cons by (intro Suc.IH) auto
    moreover have "rn c \<noteq> rn CHR 0x27" "rn c \<noteq> rn CHR ''$''" using c(2,3) unfolding rn_eq by blast+
    ultimately show ?thesis unfolding Cons
      by (simp only: charin_loop.simps Let_def prod.case list.distinct if_False One_nat_def drop_Suc_Cons drop_0) simp
  qed simp
qed simp

lemma expandquote_loop_shorter: "expandquote_loop lib k s b = Some (t, b') \<Longrightarrow> length t \<le> length s"
proof (induction k arbitrary: s b)
  case (Suc k)
  obtain r n where d: "u_chartorune lib s = (r, n)" by fastforce
  have rec: "length t \<le> length s" if "expandquote_loop lib k u c = Some (t, b')" "length u \<le> length s" for u c
    using Suc.IH [OF that(1)] that(2) by simp
  from Suc.prems d show ?case by (auto simp: Let_def split: if_splits dest!: rec)
qed simp

lemma expandquote_loop_quoted:
  assumes "utf_ok lib" "rest = [] \<or> hd rest \<noteq> CHR 0x27"
  shows "\<forall>c \<in> set w. ascii c \<Longrightarrow> length w < k \<Longrightarrow>
    expandquote_loop lib k (concat (map (\<lambda>c. if c = CHR 0x27 then [c, c] else [c]) w) @ CHR 0x27 # rest) b = Some (rest, b @ w)"
proof (induction w arbitrary: k b)
  case Nil
  then obtain m where "k = Suc m" by (cases k) auto
  then show ?case using utf_okD(1) [OF assms(1), of "CHR 0x27" rest] assms(2) by (auto simp: ascii_def)
next
  case (Cons c w)
  then obtain m where k: "k = Suc m" by (cases k) auto
  have c: "ascii c" using Cons.prems by simp
  let ?t = "concat (map (\<lambda>c. if c = CHR 0x27 then [c, c] else [c]) w) @ CHR 0x27 # rest"
  have "expandquote_loop lib m ?t (b @ [c]) = Some (rest, (b @ [c]) @ w)" using Cons k by (intro Cons.IH) auto
  moreover have "rn c = 39 \<longleftrightarrow> c = CHR 0x27" using rn_eq [of c "CHR 0x27"] by simp
  ultimately show ?case unfolding k
    using utf_okD(1) [OF assms(1) c] utf_okD(2) [OF assms(1) c] by (cases "c = CHR 0x27") simp_all
qed

interpretation rc: mk_shell rcshell rcquote
proof (unfold_locales, goal_cases)
  case (1 lib s pat t)
  then show ?case by (auto simp: rcshell_def rccharin_def simp del: charin_loop.simps intro: charin_loop_suffix)
next
  case (2 lib pat s)
  then show ?case using charin_loop_plain [OF 2(1,2,3), of "length s + 1"] by (simp add: rcshell_def rccharin_def del: charin_loop.simps)
next
  case (3 lib s r b t b')
  then show ?case
    by (auto simp: rcshell_def rcexpandquote_def simp del: expandquote_loop.simps split: if_splits dest: expandquote_loop_shorter)
next
  case (4 lib w rest b)
  let ?body = "concat (map (\<lambda>c. if c = CHR 0x27 then [c, c] else [c]) w) @ [CHR 0x27]"
  have r: "rest = [] \<or> hd rest \<noteq> CHR 0x27" using 4(3) by (auto simp: is_blank_def)
  have "length w \<le> length ?body" by (induction w) auto
  then have "expandquote_loop lib (length (?body @ rest) + 1) (?body @ rest) b = Some (rest, b @ w)"
    using expandquote_loop_quoted [OF 4(1) r 4(2), of "length (?body @ rest) + 1" b] by (simp del: expandquote_loop.simps)
  then have "sh_expandquote (rcshell lib) (?body @ rest) (rn CHR 0x27) b = Some (rest, b @ w)"
    by (simp add: rcshell_def rcexpandquote_def del: expandquote_loop.simps)
  then show ?case by (intro exI [of _ "CHR 0x27"] exI [of _ ?body]) (simp add: rcquote_def)
qed

section \<open>Suffix substitution\<close>

definition plain_word :: "string \<Rightarrow> bool" where
  "plain_word w \<longleftrightarrow> (\<forall>c \<in> set w. plain c \<and> c \<notin> {CHR '' '', CHR 0x09, CHR 0x0A})"

text \<open>What the pattern \<open>%x=%y\<close> makes of a word.\<close>

definition subst_suffix :: "string \<Rightarrow> string \<Rightarrow> string \<Rightarrow> string" where
  "subst_suffix x y v =
     (if suffix x v \<and> take (length v - length x) v @ y \<noteq> [] then take (length v - length x) v @ y else v)"

lemma suffix_drop_eq: "length x \<le> length v \<Longrightarrow> suffix x v \<longleftrightarrow> x = drop (length v - length x) v"
  by (metis append_eq_conv_conj append_take_drop_id length_append diff_add_inverse2 suffix_def)

lemma sub_words_suffix:
  "\<forall>v \<in> set vs. length x \<le> length v \<Longrightarrow> sub_words [] [x] [] [y] True vs got [] = ret (got @ map (subst_suffix x y) vs)"
proof (induction vs arbitrary: got)
  case (Cons v vs)
  then have l: "length x \<le> length v" by simp
  have "(case submatch v [] [x] of Some (Inr mt) \<Rightarrow>
      (let (h, h') = (case mt of None \<Rightarrow> ([], []) | Some mt \<Rightarrow> sub_word [] [y] True mt)
       in if h = [] then (newword v, []) else (h, h')) | _ \<Rightarrow> ([], [])) = ([subst_suffix x y v], [])"
    and "\<exists>mt. submatch v [] [x] = ret mt"
    using l suffix_drop_eq [OF l]
    by (auto simp: submatch_def sub_word_def subst_suffix_def newword_def add_last_def Let_def nat_diff_distrib')
  then obtain mt where "submatch v [] [x] = ret mt" "(let (h, h') = (case mt of None \<Rightarrow> ([], []) | Some mt \<Rightarrow> sub_word [] [y] True mt)
       in if h = [] then (newword v, []) else (h, h')) = ([subst_suffix x y v], [])" by auto
  moreover have "sub_words [] [x] [] [y] True vs (got @ [subst_suffix x y v]) [] = ret ((got @ [subst_suffix x y v]) @ map (subst_suffix x y) vs)"
    using Cons by (intro Cons.IH) auto
  ultimately show ?case by (simp add: Let_def split: prod.splits if_splits)
qed simp

context mk_shell
begin

lemma nextword_plain:
  assumes "utf_ok lib"
  shows "plain_word w \<Longrightarrow> length w < k \<Longrightarrow> nextword_loop lib (sh lib) k w b ws hs = ret (word_out (b @ w) ws, [])"
proof (induction w arbitrary: k b hs)
  case Nil
  then obtain m where "k = Suc m" by (cases k) auto
  then show ?case by (simp add: nextword_step)
next
  case (Cons c w)
  then obtain m where k: "k = Suc m" by (cases k) auto
  have c: "ascii c" and n: "c \<notin> {CHR 0x27, CHR 0x22, CHR 0x5C, CHR ''$'', CHR '' '', CHR 0x09, CHR 0x0A}"
    using Cons.prems by (auto simp: plain_word_def plain_def)
  then have r: "rn c \<notin> rn ` {CHR 0x27, CHR 0x22, CHR 0x5C, CHR ''$'', CHR '' '', CHR 0x09, CHR 0x0A}"
    by (simp only: image_iff bex_simps rn_eq) blast
  have "nextword_loop lib (sh lib) m w (b @ [c]) ws True = ret (word_out ((b @ [c]) @ w) ws, [])"
    using Cons k by (intro Cons.IH) (auto simp: plain_word_def)
  then show ?case unfolding k using utf_okD(1) [OF assms c] utf_okD(2) [OF assms c] r
    by (simp add: nextword_step)
qed

lemma stow_plain:
  assumes "utf_ok lib" "plain_word w" "2 * length w + 2 \<le> k"
  shows "stow_loop lib (sh lib) k w [] = ret [w]"
proof -
  obtain m where k: "k = Suc (Suc m)" using assms(3) by (cases k; cases "k - 1") auto
  show ?thesis
  proof (cases w)
    case Nil
    then show ?thesis by (simp add: k stow_step newword_def)
  next
    case (Cons c cs)
    have "\<not> is_blank c" using assms(2) Cons by (simp add: plain_word_def is_blank_def)
    then have "dropWhile is_blank w = w" using Cons by simp
    moreover have "nextword_loop lib (sh lib) (Suc m) w [] [] False = ret ([w], [])"
      using nextword_plain [OF assms(1,2), of "Suc m" "[]" "[]" False] assms(3) k Cons by (simp add: word_out_def newword_def)
    ultimately show ?thesis using Cons by (simp add: k stow_step)
  qed
qed

lemma extractpat_first:
  assumes "utf_ok lib" "\<forall>c \<in> set pat. ascii c" "\<forall>c \<in> set (c # s). plain c" "c \<in> set pat"
  shows "extractpat (sh lib) st (c # s) pat = ret ([], c # s)"
  using charin_plain [OF assms(1-3)] assms(4) by (simp add: extractpat_def)

lemma extractpat_until:
  assumes "utf_ok lib" "\<forall>c \<in> set pat. ascii c" "\<forall>c \<in> set (x @ c # s). plain c" "c \<in> set pat" "set x \<inter> set pat = {}" "x \<noteq> []"
    and "st x = ret w"
  shows "extractpat (sh lib) st (x @ c # s) pat = ret (w, c # s)"
proof -
  have "dropWhile (\<lambda>c. c \<notin> set pat) (x @ c # s) = c # s" using assms(4,5) by (auto simp: dropWhile_append)
  then have "sh_charin (sh lib) (x @ c # s) pat = Some (c # s)" using charin_plain [OF assms(1-3)] by simp
  then show ?thesis using assms(6,7) by (simp add: extractpat_def)
qed

lemma subsub_suffix:
  assumes "utf_ok lib" "m_percent lib CHR ''%''" "\<not> m_percent lib CHR ''=''" "plain_word x" "plain_word y" "x \<noteq> []" "CHR ''='' \<notin> set x"
    and "st x = ret [x]" "st y = ret [y]"
  shows "subsub lib (sh lib) st vs (CHR ''%'' # x @ CHR ''='' # CHR ''%'' # y) = sub_words [] [x] [] [y] True vs [] []"
proof -
  have pl: "\<forall>c \<in> set (CHR ''%'' # x @ CHR ''='' # CHR ''%'' # y). plain c"
    using assms(4,5) by (auto simp: plain_word_def plain_def ascii_def)
  have a: "\<forall>c \<in> set ''=%&''. ascii c" "\<forall>c \<in> set ''=''. ascii c" "\<forall>c \<in> set ''&%''. ascii c" by (simp_all add: ascii_def)
  have "extractpat (sh lib) st (CHR ''%'' # x @ CHR ''='' # CHR ''%'' # y) ''=%&'' = ret ([], CHR ''%'' # x @ CHR ''='' # CHR ''%'' # y)"
    using pl by (intro extractpat_first [OF assms(1) a(1)]) auto
  moreover have "extractpat (sh lib) st (x @ CHR ''='' # CHR ''%'' # y) ''='' = ret ([x], CHR ''='' # CHR ''%'' # y)"
    using pl assms(6,7,8) by (intro extractpat_until [OF assms(1) a(2)]) auto
  moreover have "extractpat (sh lib) st (CHR ''%'' # y) ''&%'' = ret ([], CHR ''%'' # y)"
    using pl by (intro extractpat_first [OF assms(1) a(3)]) auto
  moreover have "hd_percent lib (CHR ''='' # t) = False" "hd_percent lib (CHR ''%'' # t) = True" for t
    using assms(2,3) by (simp_all add: hd_percent_def)
  ultimately show ?thesis using assms(9) by (simp add: subsub_def del: sub_words.simps)
qed

lemma expandvar_pattern:
  assumes "utf_ok lib" "varname lib (name @ CHR '':'' # pat @ ''}'') = Some (name, CHR '':'' # pat @ ''}'')"
    and "\<forall>c \<in> set pat. plain c \<and> c \<noteq> CHR ''}''" "m_symlook lib name = Some vs" "vs \<noteq> []"
  shows "varsub lib (sh lib) st (CHR ''{'' # name @ CHR '':'' # pat @ ''}'') = rbind (subsub lib (sh lib) st vs pat) (\<lambda>ws. ret (ws, []))"
proof -
  have p: "\<forall>c \<in> set (pat @ ''}''). plain c" using assms(3) by (auto simp: plain_def ascii_def)
  have "dropWhile (\<lambda>c. c \<noteq> CHR ''}'') (pat @ ''}'') = ''}''" using assms(3) by (simp add: dropWhile_append3)
  then have "sh_charin (sh lib) (pat @ ''}'') ''}'' = Some ''}''"
    using charin_plain [OF assms(1) _ p, of "''}''"] by (simp add: ascii_def)
  then show ?thesis using assms(2,4,5) by (simp add: varsub_def expandvar_def Let_def)
qed

lemma stow_variable_stop:
  assumes "utf_ok lib" "varsub lib (sh lib) (\<lambda>s. stow_loop lib (sh lib) (2 * length t + 2) s []) t = Some (Inl e)"
  shows "stow lib (sh lib) (CHR ''$'' # t) = Some (Inl e)"
proof -
  have "u_chartorune lib (CHR ''$'' # t) = (rn CHR ''$'', 1)" by (intro utf_okD(1) [OF assms(1)]) (simp add: ascii_def)
  then have "nextword_loop lib (sh lib) (Suc (2 * length t + 2)) (CHR ''$'' # t) [] [] False = Some (Inl e)"
    using assms(2) by (subst nextword_step) simp
  then show ?thesis by (simp add: stow_def stow_step is_blank_def)
qed

lemma stow_variable:
  assumes "utf_ok lib" "ws \<noteq> []"
    and "varsub lib (sh lib) (\<lambda>s. stow_loop lib (sh lib) (2 * length t + 2) s []) t = ret (ws, [])"
  shows "stow lib (sh lib) (CHR ''$'' # t) = ret ws"
proof -
  have "u_chartorune lib (CHR ''$'' # t) = (rn CHR ''$'', 1)" by (intro utf_okD(1) [OF assms(1)]) (simp add: ascii_def)
  moreover have "nextword_loop lib (sh lib) (2 * length t + 2) [] [] ws True = ret (ws, [])"
    by (simp add: nextword_step word_out_def)
  ultimately have "nextword_loop lib (sh lib) (Suc (2 * length t + 2)) (CHR ''$'' # t) [] [] False = ret (ws, [])"
    using assms(2,3) by (subst nextword_step) (simp add: word_join_def)
  then show ?thesis using assms(2)
    by (simp add: stow_def stow_step is_blank_def)
qed

end

lemma varname_loop_name:
  assumes "utf_ok lib" "ascii c" "\<not> m_wordchr lib (rn c)"
  shows "\<forall>d \<in> set name. ascii d \<and> m_wordchr lib (rn d) \<Longrightarrow> length name < k
    \<Longrightarrow> varname_loop lib k (name @ c # rest) b = (b @ name, c # rest)"
proof (induction name arbitrary: k b)
  case Nil
  then obtain m where "k = Suc m" by (cases k) auto
  then show ?case using utf_okD(1) [OF assms(1,2)] assms(3) by simp
next
  case (Cons d name)
  then obtain m where "k = Suc m" by (cases k) auto
  with Cons utf_okD(1,2) [OF assms(1), of d] show ?case by simp
qed

lemma varname_name:
  assumes "utf_ok lib" "ascii c" "\<not> m_wordchr lib (rn c)" "\<forall>d \<in> set name. ascii d \<and> m_wordchr lib (rn d)" "name \<noteq> []"
  shows "varname lib (name @ c # rest) = Some (name, c # rest)"
  using varname_loop_name [OF assms(1-4), of "length (name @ c # rest) + 1" rest "[]"] assms(5)
  by (simp add: varname_def del: varname_loop.simps)

text \<open>The text behind the dollar sign.\<close>

definition suffix_text :: "string \<Rightarrow> string \<Rightarrow> string \<Rightarrow> string" where
  "suffix_text name x y = CHR ''{'' # name @ CHR '':'' # (CHR ''%'' # x @ CHR ''='' # CHR ''%'' # y) @ ''}''"

lemma varsub_suffix_text:
  assumes "utf_ok lib" "m_percent lib CHR ''%''" "\<not> m_percent lib CHR ''=''" "\<not> m_wordchr lib (rn CHR '':'')"
    and "name \<noteq> []" "\<forall>d \<in> set name. ascii d \<and> m_wordchr lib (rn d)" "m_symlook lib name = Some vs" "vs \<noteq> []"
    and "plain_word x" "plain_word y" "x \<noteq> []" "set x \<inter> set ''=}'' = {}" "CHR ''}'' \<notin> set y"
  shows "varsub lib (rcshell lib) (\<lambda>s. stow_loop lib (rcshell lib) (2 * length (suffix_text name x y) + 2) s []) (suffix_text name x y)
    = rbind (sub_words [] [x] [] [y] True vs [] []) (\<lambda>ws. ret (ws, []))"
proof -
  define pat where "pat = CHR ''%'' # x @ CHR ''='' # CHR ''%'' # y"
  let ?st = "\<lambda>s. stow_loop lib (rcshell lib) (2 * length (suffix_text name x y) + 2) s []"
  have "?st x = ret [x]" "?st y = ret [y]"
    using assms(9,10) by (auto simp: suffix_text_def intro!: rc.stow_plain [OF assms(1)])
  then have "subsub lib (rcshell lib) ?st vs pat = sub_words [] [x] [] [y] True vs [] []"
    unfolding pat_def using assms(12) by (intro rc.subsub_suffix assms) auto
  moreover have "\<forall>c \<in> set pat. plain c \<and> c \<noteq> CHR ''}''"
    using assms(9,10,12,13) by (auto simp: pat_def plain_word_def plain_def ascii_def)
  moreover have "varname lib (name @ CHR '':'' # pat @ ''}'') = Some (name, CHR '':'' # pat @ ''}'')"
    by (rule varname_name [OF assms(1) _ assms(4,6,5)]) (simp add: ascii_def)
  ultimately show ?thesis
    unfolding suffix_text_def pat_def [symmetric] by (simp only: rc.expandvar_pattern [OF assms(1) _ _ assms(7,8)])
qed

lemma sub_words_short:
  "\<exists>v \<in> set vs. length v < length x \<Longrightarrow> sub_words [] [x] [] [y] True vs got behind = Some (Inl Undef)"
proof (induction vs arbitrary: got behind)
  case (Cons v vs)
  show ?case
  proof (cases "length v < length x")
    case True
    then show ?thesis by (simp add: submatch_def)
  next
    case False
    with Cons have "sub_words [] [x] [] [y] True vs g h = Some (Inl Undef)" for g h by (intro Cons.IH) auto
    with False show ?thesis by (auto simp: submatch_def Let_def split: prod.splits if_splits)
  qed
qed simp

section \<open>Properties\<close>

text \<open>C9. What \<open>rc\<close> quotes, mk reads back: any list of words of ASCII characters, blanks, quotes and dollar signs
  included, that is written with every word quoted and a blank between them is broken by \<open>stow\<close> into the same words.
\<close>

theorem stow_reads_quoted:
  assumes "utf_ok lib" "ws \<noteq> []" "\<forall>w \<in> set ws. w \<noteq> [] \<and> (\<forall>c \<in> set w. ascii c)"
  shows "stow lib (rcshell lib) (wtos (map rcquote ws) CHR '' '') = ret ws"
  by (rule rc.stow_quoted [OF assms])

text \<open>A library for ASCII and a table with one variable.\<close>

definition mklib0 :: mklib where
  "mklib0 = \<lparr>u_chartorune = (\<lambda>s. case s of [] \<Rightarrow> (0, 1) | c # _ \<Rightarrow> (rn c, 1)),
     u_runetochar = (\<lambda>r. [char_of r]), u_utfrune = (\<lambda>pat r. \<exists>c \<in> set pat. rn c = r),
     m_wordchr = (\<lambda>r. 97 \<le> r \<and> r \<le> 122 \<or> 65 \<le> r \<and> r \<le> 90), m_percent = (\<lambda>c. c = CHR ''%'' \<or> c = CHR ''&''),
     m_symlook = (\<lambda>n. if n = ''O'' then Some [''a.c'', ''b.h'', ''lex.c''] else None)\<rparr>"

lemma mklib0_ok: "utf_ok mklib0"
  unfolding utf_ok_def
proof (intro conjI allI impI)
  fix s :: string assume "s \<noteq> []"
  then show "0 < snd (u_chartorune mklib0 s)" "fst (u_chartorune mklib0 s) = rn (hd s)"
    by (auto simp: mklib0_def split: list.splits)
qed (auto simp: mklib0_def)

lemma stow_reads_quoted_witness:
  "stow mklib0 (rcshell mklib0) (wtos (map rcquote [''it'' @ [CHR 0x27] @ ''s'', ''$x y'']) CHR '' '')
     = ret [''it'' @ [CHR 0x27] @ ''s'', ''$x y'']"
  by (rule stow_reads_quoted [OF mklib0_ok]) (auto simp: ascii_def)

text \<open>Breaking a string into words ends on every string: the recursion through variables and their patterns
  back to \<open>stow\<close> goes to shorter strings only, and two calls for every character are enough.
\<close>

theorem stow_returns:
  assumes "utf_ok lib"
  shows "\<exists>r. stow lib (rcshell lib) s = Some r"
  using rc.stow_total [OF assms] by blast

lemma stow_returns_witness: "\<exists>r. stow mklib0 (rcshell mklib0) ''${O:%.c=%.o} $x'' = Some r"
  by (rule stow_returns [OF mklib0_ok])

text \<open>C17. \<open>${name:%x=%y}\<close> is the list of the words of the variable, in order, with the suffix \<open>x\<close> replaced by \<open>y\<close>
  where a word has it and the others as they are, for words that are at least as long as \<open>x\<close>.
\<close>

theorem suffix_substitution:
  assumes "utf_ok lib" "m_percent lib CHR ''%''" "\<not> m_percent lib CHR ''=''" "\<not> m_wordchr lib (rn CHR '':'')"
    and "name \<noteq> []" "\<forall>d \<in> set name. ascii d \<and> m_wordchr lib (rn d)" "m_symlook lib name = Some vs" "vs \<noteq> []"
    and "plain_word x" "plain_word y" "x \<noteq> []" "set x \<inter> set ''=}'' = {}" "CHR ''}'' \<notin> set y"
    and "\<forall>v \<in> set vs. length x \<le> length v"
  shows "stow lib (rcshell lib) (''${'' @ name @ '':%'' @ x @ ''=%'' @ y @ ''}'') = ret (map (subst_suffix x y) vs)"
proof -
  have "varsub lib (rcshell lib) (\<lambda>s. stow_loop lib (rcshell lib) (2 * length (suffix_text name x y) + 2) s []) (suffix_text name x y)
      = ret (map (subst_suffix x y) vs, [])"
    using varsub_suffix_text [OF assms(1-13)] sub_words_suffix [OF assms(14), of y "[]"] by simp
  then have "stow lib (rcshell lib) (CHR ''$'' # suffix_text name x y) = ret (map (subst_suffix x y) vs)"
    using assms(8) by (intro rc.stow_variable [OF assms(1)]) auto
  then show ?thesis by (simp add: suffix_text_def)
qed

lemma suffix_substitution_witness:
  "stow mklib0 (rcshell mklib0) ''${O:%.c=%.o}'' = ret [''a.o'', ''b.h'', ''lex.o'']"
proof -
  have "map (subst_suffix ''.c'' ''.o'') [''a.c'', ''b.h'', ''lex.c''] = [''a.o'', ''b.h'', ''lex.o'']"
    by (simp add: subst_suffix_def suffix_drop_eq)
  moreover have "stow mklib0 (rcshell mklib0) (''${'' @ ''O'' @ '':%'' @ ''.c'' @ ''=%'' @ ''.o'' @ ''}'')
     = ret (map (subst_suffix ''.c'' ''.o'') [''a.c'', ''b.h'', ''lex.c''])"
    by (rule suffix_substitution [OF mklib0_ok]) (auto simp: mklib0_def plain_word_def plain_def ascii_def)
  ultimately show ?thesis by simp
qed

text \<open>The same substitution on a list with a word shorter than the suffix compares the suffix with what is in front
  of that word in memory: \<open>submatch\<close> subtracts the length of the suffix from the end of the word without a check.
\<close>

theorem short_word_reads_before:
  assumes "utf_ok lib" "m_percent lib CHR ''%''" "\<not> m_percent lib CHR ''=''" "\<not> m_wordchr lib (rn CHR '':'')"
    and "name \<noteq> []" "\<forall>d \<in> set name. ascii d \<and> m_wordchr lib (rn d)" "m_symlook lib name = Some vs"
    and "plain_word x" "plain_word y" "set x \<inter> set ''=}'' = {}" "CHR ''}'' \<notin> set y"
    and "\<exists>v \<in> set vs. length v < length x"
  shows "stow lib (rcshell lib) (''${'' @ name @ '':%'' @ x @ ''=%'' @ y @ ''}'') = Some (Inl Undef)"
proof -
  have n: "vs \<noteq> []" "x \<noteq> []" using assms(12) by auto
  have "varsub lib (rcshell lib) (\<lambda>s. stow_loop lib (rcshell lib) (2 * length (suffix_text name x y) + 2) s []) (suffix_text name x y)
      = Some (Inl Undef)"
    using varsub_suffix_text [OF assms(1-7) n(1) assms(8,9) n(2) assms(10,11)] sub_words_short [OF assms(12), of y "[]"] by simp
  from rc.stow_variable_stop [OF assms(1) this] show ?thesis by (simp add: suffix_text_def)
qed

lemma short_word_reads_before_witness: "stow mklib0 (rcshell mklib0) ''${O:%.class=%.o}'' = Some (Inl Undef)"
proof -
  have "stow mklib0 (rcshell mklib0) (''${'' @ ''O'' @ '':%'' @ ''.class'' @ ''=%'' @ ''.o'' @ ''}'') = Some (Inl Undef)"
    by (rule short_word_reads_before [OF mklib0_ok]) (auto simp: mklib0_def plain_word_def plain_def ascii_def)
  then show ?thesis by simp
qed

end
