(* ===== verification/Bytes.thy ===== *)
theory Bytes
  imports Prelude
begin

text \<open>
  Arrays of bytes: fields at an offset, stores of several bytes, the string that begins somewhere, \<open>strncpy\<close>.
\<close>

section \<open>Fields and strings\<close>

text \<open>The bytes of a field, and bytes stored from an offset on.\<close>

definition fld :: "nat \<Rightarrow> nat \<Rightarrow> string \<Rightarrow> string" where
  "fld k n h = take n (drop k h)"

definition put :: "nat \<Rightarrow> string \<Rightarrow> string \<Rightarrow> string" where
  "put k s h = take k h @ s @ drop (k + length s) h"

text \<open>A string ends at its first NUL. What \<open>strncpy\<close> stores.\<close>

definition cstr :: "string \<Rightarrow> string" where
  "cstr s = takeWhile (\<lambda>c. c \<noteq> NUL) s"

definition strncpy :: "string \<Rightarrow> nat \<Rightarrow> string" where
  "strncpy s n = take n s @ replicate (n - length s) NUL"

section \<open>Stores and fields\<close>

lemma length_put: "k + length s \<le> length h \<Longrightarrow> length (put k s h) = length h"
  by (simp add: put_def)

lemma fld_put_same: "k + length s \<le> length h \<Longrightarrow> fld k (length s) (put k s h) = s"
  by (simp add: fld_def put_def)

lemma fld_put_other:
  assumes "p + length s \<le> length h" "k + n \<le> p \<or> p + length s \<le> k"
  shows "fld k n (put p s h) = fld k n h"
  using assms(2)
proof
  assume "k + n \<le> p"
  then show ?thesis using assms(1) by (auto simp: fld_def put_def drop_take min_def)
next
  assume k: "p + length s \<le> k"
  have "drop k (put p s h) = drop (k - p - length s) (drop (p + length s) h)"
    using assms(1) k by (simp add: put_def)
  also have "\<dots> = drop k h" using k by simp
  finally show ?thesis by (simp add: fld_def)
qed

lemma nth_put_first: "k < length h \<Longrightarrow> put k (c # s) h ! k = c"
  by (simp add: put_def nth_append)

lemma put_over: "k + length s \<le> length h \<Longrightarrow> length t \<le> length s \<Longrightarrow> put k s (put k t h) = put k s h"
  by (simp add: put_def add.commute)

lemma drop_fld: "drop k h = fld k n h @ drop (k + n) h"
  by (simp add: fld_def) (metis append_take_drop_id drop_drop add.commute)

lemma nth_fld: "i < n \<Longrightarrow> k + n \<le> length h \<Longrightarrow> h ! (k + i) = fld k n h ! i"
  by (simp add: fld_def)

lemma cstr_id: "NUL \<notin> set s \<Longrightarrow> cstr s = s"
  by (simp add: cstr_def takeWhile_eq_all_conv) blast

lemma cstr_zeros: "NUL \<notin> set s \<Longrightarrow> cstr (s @ NUL # t) = s"
  by (induction s) (auto simp: cstr_def)

lemma strncpy_length: "length (strncpy s n) = n"
  by (simp add: strncpy_def)

end
