(* ===== verification/TarHdr.thy ===== *)
theory TarHdr
  imports Strtol Bytes
begin

text \<open>
  The header blocks of src/src/cmd/tar.c. A block is its 512 bytes; a field of \<open>Hdr\<close> is its offset and its
  length, because the code formats one field over the beginning of the next. \<open>sprint\<close> of the octal formats
  is written out. Lengths, modes and times are the numbers of \<open>Dir\<close>.

  A header that \<open>mkhdr\<close> makes is read back: the name, split or not, the length in octal or binary, the mode, the
  time and the checksum.
\<close>

section \<open>Blocks and fields\<close>

definition Tblock :: nat where "Tblock = 512"
definition Namsiz :: nat where "Namsiz = 100"
definition Maxpfx :: nat where "Maxpfx = 155"
definition Maxname :: nat where "Maxname = Namsiz + 1 + Maxpfx"
definition Binsize :: char where "Binsize = CHR 0x80"
definition Binnegsz :: char where "Binnegsz = CHR 0xFF"

type_synonym block = string

definition zblock :: block where "zblock = replicate Tblock NUL"

definition o_name :: nat where "o_name = 0"
definition o_mode :: nat where "o_mode = 100"
definition o_uid :: nat where "o_uid = 108"
definition o_gid :: nat where "o_gid = 116"
definition o_size :: nat where "o_size = 124"
definition o_mtime :: nat where "o_mtime = 136"
definition o_chksum :: nat where "o_chksum = 148"
definition o_linkflag :: nat where "o_linkflag = 156"
definition o_magic :: nat where "o_magic = 257"
definition o_version :: nat where "o_version = 263"
definition o_uname :: nat where "o_uname = 265"
definition o_gname :: nat where "o_gname = 297"
definition o_prefix :: nat where "o_prefix = 345"

lemmas hdr_offsets = o_name_def o_mode_def o_uid_def o_gid_def o_size_def o_mtime_def o_chksum_def o_linkflag_def o_magic_def
  o_version_def o_uname_def o_gname_def o_prefix_def Tblock_def Namsiz_def Maxpfx_def Maxname_def

definition tar_sstrnlen :: "string \<Rightarrow> nat \<Rightarrow> nat" where
  "tar_sstrnlen s n = (if s ! (n - 1) \<noteq> NUL then n else length (cstr s))"

section \<open>Reading a header\<close>

definition linkflag :: "block \<Rightarrow> char" where
  "linkflag h = h ! o_linkflag"

definition LF_DIR :: char where "LF_DIR = CHR ''5''"
definition LF_PLAIN1 :: char where "LF_PLAIN1 = NUL"

definition isreallink :: "char \<Rightarrow> bool" where
  "isreallink lf \<longleftrightarrow> lf = CHR ''1''"

definition issymlink :: "char \<Rightarrow> bool" where
  "issymlink lf \<longleftrightarrow> lf = CHR ''2'' \<or> lf = CHR ''s''"

definition islink :: "char \<Rightarrow> bool" where
  "islink lf \<longleftrightarrow> isreallink lf \<or> issymlink lf"

definition chksum :: "block \<Rightarrow> nat" where
  "chksum h = sum_list (map of_char (put o_chksum (replicate 8 CHR '' '') h))"

definition isustar :: "block \<Rightarrow> bool" where
  "isustar h \<longleftrightarrow> cstr (drop o_magic h) = ''ustar''"

text \<open>The full name, as the string that \<open>fullnamebuf\<close> then holds.\<close>

definition name :: "block \<Rightarrow> string" where
  "name h =
     (let namlen = tar_sstrnlen (fld o_name Namsiz h) Namsiz
      in if h ! o_prefix = NUL \<or> \<not> isustar h then cstr (take namlen (fld o_name Namsiz h))
         else let pfxlen = tar_sstrnlen (fld o_prefix Maxpfx h) Maxpfx
              in cstr (take pfxlen (fld o_prefix Maxpfx h) @ CHR ''/'' # take namlen (fld o_name Namsiz h)))"

text \<open>The byte before an empty name is the second of the two spare ones, which is 0 where this is asked.\<close>

definition isdir :: "block \<Rightarrow> bool" where
  "isdir h \<longleftrightarrow> linkflag h = LF_DIR \<or> last (NUL # name h) = CHR ''/''
     \<or> (word_of_nat (strtoul8 32 (drop o_mode h)) :: u32) AND 0xF000 = 0x4000"

definition eotar :: "block \<Rightarrow> bool" where
  "eotar h \<longleftrightarrow> name h = []"

fun getbe :: "string \<Rightarrow> nat" where
  "getbe [] = 0"
| "getbe (c # cs) = of_char c * 256 ^ length cs + getbe cs"

definition hdrsize :: "block \<Rightarrow> int" where
  "hdrsize h =
     (if h ! o_size = Binnegsz then 0
      else if h ! o_size = Binsize then vlong (int (getbe (fld (o_size + 12 - 1 - 8) 8 h)))
      else vlong (int (strtoul8 64 (drop o_size h))))"

definition arsize :: "block \<Rightarrow> int" where
  "arsize h = (if isdir h \<or> islink (linkflag h) then 0 else hdrsize h)"

text \<open>C division truncates; the sizes here are not negative unless a header says so.\<close>

definition BYTES2TBLKS :: "int \<Rightarrow> int" where
  "BYTES2TBLKS bytes = (let n = vlong (bytes + int Tblock - 1) in sgn n * (\<bar>n\<bar> div int Tblock))"

section \<open>Making a header\<close>

record tardir =
  td_mode :: u32
  td_len :: nat
  td_mtime :: u32
  td_uid :: string
  td_gid :: string
  td_isdir :: bool

record topts =
  posix :: bool
  aruid :: u32
  argid :: u32

fun oct_digits :: "nat \<Rightarrow> nat \<Rightarrow> string" where
  "oct_digits 0 n = []"
| "oct_digits (Suc k) n = (if n < 8 then [char_of (48 + n)] else oct_digits k (n div 8) @ [char_of (48 + n mod 8)])"

text \<open>\<open>sprint\<close> of \<open>%<w>o\<close> and what follows it, with the NUL. Numbers of 64 bits have at most 22 octal digits.\<close>

definition sprint_oct :: "nat \<Rightarrow> nat \<Rightarrow> string \<Rightarrow> string" where
  "sprint_oct w n after = (let ds = oct_digits 22 n in replicate (w - length ds) CHR '' '' @ ds @ after @ [NUL])"

fun putbe :: "nat \<Rightarrow> nat \<Rightarrow> string" where
  "putbe vl 0 = []"
| "putbe vl (Suc n) = putbe (vl div 256) n @ [char_of (vl mod 256)]"

text \<open>Looking for a slash from right to left, in the first \<open>n\<close> characters.\<close>

function split_loop :: "string \<Rightarrow> nat \<Rightarrow> nat option" where
  "split_loop nm n =
     (case strrchr (take n nm) CHR ''/'' of
        None \<Rightarrow> None
      | Some sl \<Rightarrow> if sl \<le> Maxpfx \<and> length nm - 1 - sl \<le> Namsiz then Some sl else split_loop nm sl)"
  by pat_completeness auto
termination
  by (relation "measure (\<lambda>(nm, n). n)") (auto dest!: strrchr_Some)

declare split_loop.simps [simp del]

definition putfullname :: "bool \<Rightarrow> string \<Rightarrow> block \<Rightarrow> bool \<times> block" where
  "putfullname psx nm h =
     (let nm = (if isdir h then nm @ ''/'' else nm)
      in if length nm \<le> Namsiz then (True, put o_prefix [NUL] (put o_name (strncpy nm Namsiz) h))
         else if \<not> psx \<or> Maxname < length nm then (False, h)
         else case split_loop nm (length nm) of
           None \<Rightarrow> (False, h)
         | Some sl \<Rightarrow> (True, put o_name (strncpy (drop (Suc sl) nm) Namsiz) (put o_prefix (strncpy (take sl nm) Maxpfx) h)))"

definition put_size :: "nat \<Rightarrow> block \<Rightarrow> block" where
  "put_size len h =
     (if 4294967296 \<le> len
      then put (o_size + 11) '' '' (put (o_size + 1) (putbe len 10) (put o_size [Binsize] h))
      else put o_size (sprint_oct 11 len '' '') h)"

definition put_posix :: "topts \<Rightarrow> tardir \<Rightarrow> block \<Rightarrow> block" where
  "put_posix op d h =
     (if posix op
      then put o_gname (strncpy (td_gid d) 32) (put o_uname (strncpy (td_uid d) 32)
             (put o_version (strncpy ''00'' 2) (put o_magic (strncpy ''ustar'' 6) h)))
      else h)"

text \<open>The fields of numbers and the link flag.\<close>

definition put_numbers :: "topts \<Rightarrow> tardir \<Rightarrow> block \<Rightarrow> block" where
  "put_numbers op d h =
     (let h = put o_mode (sprint_oct 6 (unat (td_mode d AND 0x1FF)) '' '') h;
          h = put o_uid (sprint_oct 6 (unat (aruid op)) '' '') h;
          h = put o_gid (sprint_oct 6 (unat (argid op)) '' '') h;
          h = put_size (td_len d) h;
          h = put o_mtime (sprint_oct 11 (unat (td_mtime d)) '' '') h
      in put o_linkflag [if td_mode d AND 0x80000000 \<noteq> 0 then LF_DIR else LF_PLAIN1] h)"

text \<open>The result of \<open>putfullname\<close> is not looked at; \<open>mkhdr\<close> always returns 0.\<close>

definition mkhdr :: "topts \<Rightarrow> tardir \<Rightarrow> string \<Rightarrow> block \<Rightarrow> block" where
  "mkhdr op d file h =
     (let h = put_numbers op d h;
          h = snd (putfullname (posix op) file h);
          h = put_posix op d h
      in put o_chksum (sprint_oct 6 (chksum h) []) h)"

section \<open>Octal numbers\<close>

lemma oct_char: "n < 8 \<Longrightarrow> num_digit 8 (char_of (48 + n :: nat)) = Some n"
  by (simp add: num_digit_def Let_def)

lemma num_digits_append:
  "\<forall>c \<in> set xs. num_digit b c \<noteq> None \<Longrightarrow> num_digits b v (xs @ ys) = num_digits b (fst (num_digits b v xs)) ys"
  by (induction xs arbitrary: v) auto

lemma oct_digits_valid: "\<forall>c \<in> set (oct_digits k n). num_digit 8 c \<noteq> None"
proof (induction k n rule: oct_digits.induct)
  case (2 k n)
  then show ?case using oct_char [of "n mod 8"] oct_char [of n] by auto
qed simp

lemma oct_digits_value: "n < 8 ^ k \<Longrightarrow> fst (num_digits 8 0 (oct_digits k n)) = n"
proof (induction k n rule: oct_digits.induct)
  case (2 k n)
  show ?case
  proof (cases "n < 8")
    case True
    then show ?thesis using oct_char [of n] by simp
  next
    case False
    have "n div 8 < 8 ^ k" using 2(2) by (simp add: less_mult_imp_div_less mult.commute)
    then have "fst (num_digits 8 0 (oct_digits k (n div 8))) = n div 8" using 2(1) False by simp
    then show ?thesis using False oct_char [of "n mod 8"] by (simp add: num_digits_append [OF oct_digits_valid])
  qed
qed simp

lemma oct_digits_length: "n < 8 ^ w \<Longrightarrow> 0 < w \<Longrightarrow> w \<le> k \<Longrightarrow> length (oct_digits k n) \<le> w"
proof (induction k n arbitrary: w rule: oct_digits.induct)
  case (2 k n)
  show ?case
  proof (cases "n < 8")
    case False
    then obtain v where v: "w = Suc v" "0 < v" using 2(2,3) by (cases w; cases "w - 1") auto
    have "n div 8 < 8 ^ v" using 2(2) v by (simp add: less_mult_imp_div_less mult.commute)
    then show ?thesis using 2(1) [OF False, of v] 2(4) v False by simp
  qed (use 2 in simp)
qed simp

lemma oct_digits_hd: "oct_digits (Suc k) n = c # cs \<Longrightarrow> num_digit 8 c \<noteq> None"
  using oct_digits_valid [of "Suc k" n] by (metis list.set_intros(1))

lemma oct_digits_neq: "oct_digits (Suc k) n \<noteq> []"
  by simp

lemma sprint_oct_length: "n < 8 ^ w \<Longrightarrow> 0 < w \<Longrightarrow> w \<le> 22 \<Longrightarrow> length (sprint_oct w n after) = w + length after + 1"
  using oct_digits_length [of n w 22] by (simp add: sprint_oct_def Let_def del: oct_digits.simps)

lemma octal_not_space: "num_digit 8 c = Some d \<Longrightarrow> \<not> is_space c \<and> c \<noteq> CHR ''-'' \<and> c \<noteq> CHR ''+''"
  by (auto simp: num_digit_def is_space_def Let_def split: if_splits)

lemma skip_ws_blanks: "skip_ws (replicate n CHR '' '' @ s) = skip_ws s"
  by (induction n) (simp_all add: is_space_def)

text \<open>Reading an octal number back.\<close>

definition padded :: "nat \<Rightarrow> nat \<Rightarrow> string" where
  "padded w n = replicate (w - length (oct_digits 22 n)) CHR '' '' @ oct_digits 22 n"

lemma sprint_oct_padded: "sprint_oct w n after = padded w n @ after @ [NUL]"
  by (simp add: sprint_oct_def padded_def Let_def del: oct_digits.simps)

lemma padded_length: "n < 8 ^ w \<Longrightarrow> 0 < w \<Longrightarrow> w \<le> 22 \<Longrightarrow> length (padded w n) = w"
  using oct_digits_length [of n w 22] by (simp add: padded_def del: oct_digits.simps)

lemma oct_scan_padded:
  assumes "n < 8 ^ 22" "num_digit 8 c = None"
  shows "oct_scan (padded w n @ c # rest) = (False, n)"
proof -
  obtain d ds where ds: "oct_digits 22 n = d # ds" using oct_digits_neq [of 21 n] by (cases "oct_digits 22 n") auto
  then obtain v where "num_digit 8 d = Some v" using oct_digits_valid [of 22 n] by fastforce
  note d = octal_not_space [OF this]
  have "num_digits 8 0 (oct_digits 22 n @ c # rest) = (n, c # rest)"
    using assms(2) oct_digits_value [OF assms(1)] by (simp only: num_digits_append [OF oct_digits_valid]) simp
  then show ?thesis using d ds
    by (simp add: oct_scan_def padded_def Let_def skip_ws_blanks num_sign_def)
qed

lemma nul_not_octal: "num_digit 8 NUL = None" "num_digit 8 CHR '' '' = None"
  by (simp_all add: num_digit_def)

lemma padded_hd: "0 < w \<Longrightarrow> n < 8 ^ w \<Longrightarrow> w \<le> 22 \<Longrightarrow> \<exists>c cs. padded w n = c # cs \<and> c \<noteq> Binsize \<and> c \<noteq> Binnegsz"
proof -
  obtain d ds where ds: "oct_digits 22 n = d # ds" using oct_digits_neq [of 21 n] by (cases "oct_digits 22 n") auto
  then obtain v where "num_digit 8 d = Some v" using oct_digits_valid [of 22 n] by fastforce
  then have "d \<noteq> Binsize \<and> d \<noteq> Binnegsz" by (auto simp: Binsize_def Binnegsz_def num_digit_def)
  then show ?thesis using ds
    by (cases "w - length (oct_digits 22 n)") (auto simp: padded_def Binsize_def Binnegsz_def)
qed

section \<open>Binary numbers\<close>

lemma putbe_length: "length (putbe v n) = n"
  by (induction v n rule: putbe.induct) auto

lemma putbe_split: "putbe v (m + n) = putbe (v div 256 ^ n) m @ putbe v n"
proof (induction n arbitrary: v)
  case (Suc n)
  then show ?case by (simp add: div_mult2_eq)
qed simp

lemma getbe_append: "getbe (xs @ ys) = getbe xs * 256 ^ length ys + getbe ys"
  by (induction xs) (simp_all add: algebra_simps power_add)

lemma getbe_putbe: "v < 256 ^ n \<Longrightarrow> getbe (putbe v n) = v"
proof (induction v n rule: putbe.induct)
  case (2 v n)
  have "v div 256 < 256 ^ n" using 2(2) by (simp add: less_mult_imp_div_less mult.commute)
  with 2(1) show ?case by (simp add: getbe_append of_char_of)
qed simp

section \<open>What a store leaves alone\<close>

definition keeps :: "nat \<Rightarrow> nat \<Rightarrow> block \<Rightarrow> block \<Rightarrow> bool" where
  "keeps lo hi h h' \<longleftrightarrow> length h' = length h \<and> (\<forall>k n. k + n \<le> lo \<or> hi \<le> k \<longrightarrow> fld k n h' = fld k n h)"

lemma keeps_put: "k + length s \<le> length h \<Longrightarrow> keeps k (k + length s) h (put k s h)"
  unfolding keeps_def using length_put fld_put_other by blast

lemma keeps_refl: "keeps lo hi h h"
  by (simp add: keeps_def)

lemma keeps_trans: "keeps lo hi h h' \<Longrightarrow> keeps lo' hi' h' h'' \<Longrightarrow> keeps (min lo lo') (max hi hi') h h''"
  unfolding keeps_def by auto

lemma keeps_wide: "keeps lo hi h h' \<Longrightarrow> lo' \<le> lo \<Longrightarrow> hi \<le> hi' \<Longrightarrow> keeps lo' hi' h h'"
  unfolding keeps_def by auto

lemma keeps_fld: "keeps lo hi h h' \<Longrightarrow> k + n \<le> lo \<or> hi \<le> k \<Longrightarrow> fld k n h' = fld k n h"
  unfolding keeps_def by blast

lemma keeps_length: "keeps lo hi h h' \<Longrightarrow> length h' = length h"
  unfolding keeps_def by blast

lemma keeps_put_in: "lo \<le> k \<Longrightarrow> k + length s \<le> hi \<Longrightarrow> hi \<le> length h \<Longrightarrow> keeps lo hi h (put k s h)"
  by (rule keeps_wide [OF keeps_put]) auto

lemma put_size_keeps:
  assumes "length h = 512" "len < 2 ^ 63"
  shows "keeps 124 137 h (put_size len h)"
proof (cases "4294967296 \<le> len")
  case True
  have a: "keeps 124 137 h (put 124 [Binsize] h)" using assms(1) by (intro keeps_put_in) auto
  have b: "keeps 124 137 (put 124 [Binsize] h) (put 125 (putbe len 10) (put 124 [Binsize] h))"
    using assms(1) keeps_length [OF a] by (intro keeps_put_in) (auto simp: putbe_length)
  have c: "keeps 124 137 (put 125 (putbe len 10) (put 124 [Binsize] h)) (put 135 '' '' (put 125 (putbe len 10) (put 124 [Binsize] h)))"
    using assms(1) keeps_length [OF a] keeps_length [OF b] by (intro keeps_put_in) auto
  from keeps_trans [OF keeps_trans [OF a b] c] show ?thesis using True by (simp add: put_size_def hdr_offsets)
next
  case False
  then have "length (padded 11 len) = 11" by (intro padded_length) auto
  then show ?thesis using False assms(1) by (auto simp: put_size_def hdr_offsets sprint_oct_padded intro!: keeps_put_in)
qed

lemma putfullname_keeps:
  assumes "length h = 512" "putfullname psx nm h = (r, h')"
  shows "fld k n h' = fld k n h \<or> \<not> (100 \<le> k \<and> k + n \<le> 345)" "length h' = 512"
proof -
  have k1: "fld k n (put 0 (strncpy s 100) g) = fld k n g" if "100 \<le> k" "length g = 512" for s g
    using that by (intro fld_put_other) (auto simp: strncpy_length)
  have k2: "fld k n (put 345 t g) = fld k n g" if "k + n \<le> 345" "length g = 512" "length t \<le> 155" for t g
    using that by (intro fld_put_other) auto
  have l: "length (put 0 (strncpy s 100) g) = 512" "length t \<le> 155 \<Longrightarrow> length (put 345 t g) = 512" if "length g = 512" for s t g
    using that by (auto simp: length_put strncpy_length)
  note d = putfullname_def Let_def hdr_offsets
  show "length h' = 512" using assms
    by (auto simp: d l strncpy_length split: if_splits option.splits)
  show "fld k n h' = fld k n h \<or> \<not> (100 \<le> k \<and> k + n \<le> 345)" using assms
    by (auto simp: d l k1 k2 strncpy_length split: if_splits option.splits)
qed

section \<open>Names\<close>

lemma strncpy_sstrnlen:
  assumes "NUL \<notin> set s" "length s \<le> n" "0 < n"
  shows "take (tar_sstrnlen (strncpy s n) n) (strncpy s n) = s"
proof (cases "length s = n")
  case True
  then have "s ! (n - 1) \<noteq> NUL" using assms by (metis diff_less nth_mem zero_less_one)
  then show ?thesis using True by (simp add: tar_sstrnlen_def strncpy_def)
next
  case False
  then obtain m where m: "n - length s = Suc m" using assms(2) by (metis Suc_diff_Suc le_neq_implies_less)
  then have "strncpy s n = s @ NUL # replicate m NUL" using assms(2) by (simp add: strncpy_def)
  moreover have "\<not> n - 1 < length s" "n - 1 - length s = m" using m by linarith+
  then have "(s @ NUL # replicate m NUL) ! (n - 1) = NUL" by (simp only: nth_append if_False replicate_Suc [symmetric] nth_replicate lessI)
  ultimately show ?thesis using cstr_zeros [OF assms(1)] by (simp add: tar_sstrnlen_def)
qed

lemma name_whole:
  assumes "fld 0 100 h = strncpy nm 100" "h ! 345 = NUL" "NUL \<notin> set nm" "length nm \<le> 100"
  shows "name h = nm"
  using assms strncpy_sstrnlen [OF assms(3,4)] by (simp add: name_def Let_def hdr_offsets cstr_id)

lemma name_split:
  assumes "fld 0 100 h = strncpy b 100" "fld 345 155 h = strncpy a 155" "isustar h" "345 < length h"
    and "NUL \<notin> set a" "NUL \<notin> set b" "length a \<le> 155" "length b \<le> 100" "a \<noteq> []"
  shows "name h = a @ CHR ''/'' # b"
proof -
  have "h ! 345 = fld 345 155 h ! 0" using assms(4) by (simp add: fld_def)
  also have "\<dots> \<noteq> NUL" using assms(2,5,9) by (cases a) (auto simp: strncpy_def)
  finally show ?thesis
    using assms strncpy_sstrnlen [OF assms(5,7)] strncpy_sstrnlen [OF assms(6,8)]
    by (simp add: name_def Let_def hdr_offsets cstr_id)
qed

lemma split_loop_Some:
  "split_loop nm n = Some k \<Longrightarrow> n \<le> length nm \<Longrightarrow> k < n \<and> nm ! k = CHR ''/'' \<and> k \<le> 155 \<and> length nm - 1 - k \<le> 100"
proof (induction nm n rule: split_loop.induct)
  case (1 nm n)
  from 1(2) obtain sl where sl: "strrchr (take n nm) CHR ''/'' = Some sl"
    by (subst (asm) split_loop.simps) (auto split: option.splits)
  from strrchr_Some [OF this] 1(3) have at: "sl < n" "nm ! sl = CHR ''/''" by auto
  show ?case
  proof (cases "sl \<le> Maxpfx \<and> length nm - 1 - sl \<le> Namsiz")
    case True
    with 1(2) sl have "k = sl" by (subst (asm) split_loop.simps) simp
    then show ?thesis using True at by (simp add: hdr_offsets)
  next
    case False
    with 1(2) sl have "split_loop nm sl = Some k" by (subst (asm) split_loop.simps) auto
    with 1(1) [OF sl False] at 1(3) show ?thesis by auto
  qed
qed

text \<open>The names that a header can hold. A slash at the very front is no place to split.\<close>

definition fits :: "bool \<Rightarrow> string \<Rightarrow> bool" where
  "fits psx nm \<longleftrightarrow> length nm \<le> Namsiz
     \<or> psx \<and> length nm \<le> Maxname \<and> (case split_loop nm (length nm) of None \<Rightarrow> False | Some k \<Rightarrow> 0 < k)"

text \<open>What \<open>putfullname\<close> stores is the name that is read.\<close>

lemma putfullname_name:
  assumes "length h = 512" "fits psx nm" "NUL \<notin> set nm" "nm = (if isdir h then file @ ''/'' else file)"
    and "putfullname psx file h = (r, h')" "fld 0 100 g = fld 0 100 h'" "fld 345 155 g = fld 345 155 h'" "length g = 512"
    and "psx \<Longrightarrow> isustar g"
  shows "name g = nm"
proof (cases "length nm \<le> 100")
  case True
  then have h': "h' = put 345 [NUL] (put 0 (strncpy nm 100) h)"
    using assms(4,5) by (simp add: putfullname_def Let_def hdr_offsets split: if_splits)
  have l: "length (put 0 (strncpy nm 100) h) = 512" using assms(1) by (simp add: length_put strncpy_length)
  have "fld 0 100 h' = fld 0 100 (put 0 (strncpy nm 100) h)" unfolding h' using l by (intro fld_put_other) auto
  also have "\<dots> = strncpy nm 100" using fld_put_same [of 0 "strncpy nm 100" h] assms(1) by (simp add: strncpy_length)
  finally have a: "fld 0 100 g = strncpy nm 100" using assms(6) by simp
  have "g ! (345 + 0) = fld 345 155 g ! 0" using assms(8) by (intro nth_fld) auto
  also have "\<dots> = h' ! (345 + 0)" unfolding assms(7) using putfullname_keeps(2) [OF assms(1,5)] by (intro nth_fld [symmetric]) auto
  also have "\<dots> = NUL" unfolding h' using l nth_put_first [of 345] by simp
  finally have "g ! 345 = NUL" by simp
  from name_whole [OF a this assms(3) True] show ?thesis .
next
  case False
  with assms(2) obtain k where p: "psx" "length nm \<le> 256" and k: "split_loop nm (length nm) = Some k" "0 < k"
    by (auto simp: fits_def hdr_offsets split: option.splits)
  from split_loop_Some [OF k(1)] have kk: "k < length nm" "nm ! k = CHR ''/''" "k \<le> 155" "length nm - 1 - k \<le> 100" by auto
  have h': "h' = put 0 (strncpy (drop (Suc k) nm) 100) (put 345 (strncpy (take k nm) 155) h)"
    using assms(4,5) False p k by (simp add: putfullname_def Let_def hdr_offsets split: if_splits)
  have l: "length (put 345 (strncpy (take k nm) 155) h) = 512" using assms(1) by (simp add: length_put strncpy_length)
  have "fld 345 155 h' = fld 345 155 (put 345 (strncpy (take k nm) 155) h)"
    unfolding h' using l by (intro fld_put_other) (auto simp: strncpy_length)
  also have "\<dots> = strncpy (take k nm) 155"
    using fld_put_same [of 345 "strncpy (take k nm) 155" h] assms(1) by (simp add: strncpy_length)
  finally have a: "fld 345 155 g = strncpy (take k nm) 155" using assms(7) by simp
  have "fld 0 100 h' = strncpy (drop (Suc k) nm) 100"
    unfolding h' using fld_put_same [of 0 "strncpy (drop (Suc k) nm) 100"] l by (simp add: strncpy_length)
  then have b: "fld 0 100 g = strncpy (drop (Suc k) nm) 100" using assms(6) by simp
  have "name g = take k nm @ CHR ''/'' # drop (Suc k) nm"
    using assms(3,8,9) p kk k(2) by (intro name_split [OF b a]) (auto dest: in_set_takeD in_set_dropD)
  also have "\<dots> = nm" using id_take_nth_drop [OF kk(1)] kk(2) by simp
  finally show ?thesis .
qed

section \<open>A header is read back\<close>

lemma chksum_put: "length s \<le> 8 \<Longrightarrow> o_chksum + 8 \<le> length h \<Longrightarrow> chksum (put o_chksum s h) = chksum h"
  by (simp add: chksum_def put_over)

lemma chksum_bound:
  assumes "length h = 512"
  shows "chksum h < 8 ^ 6"
proof -
  have "sum_list (map (of_char :: char \<Rightarrow> nat) xs) \<le> 255 * length xs" for xs
  proof (induction xs)
    case (Cons c xs)
    have "(of_char c :: nat) \<le> 255" using nat_of_char_less_256 [of c] by linarith
    then show ?case using Cons by simp
  qed simp
  from this [of "put o_chksum (replicate 8 CHR '' '') h"]
  show ?thesis using assms by (simp add: chksum_def length_put hdr_offsets)
qed

lemma linkflag_fld: "156 < length h \<Longrightarrow> [linkflag h] = fld 156 1 h"
  by (simp add: linkflag_def hdr_offsets fld_def take_Suc_conv_app_nth)

lemma zblock_length [simp]: "length zblock = 512"
  by (simp add: zblock_def Tblock_def)

lemma fld_zblock: "k + n \<le> 512 \<Longrightarrow> fld k n zblock = replicate n NUL"
  by (simp add: fld_def zblock_def Tblock_def)

text \<open>Every field is what the last store into it has left.\<close>

lemma put_numbers_fields:
  assumes "unat (aruid op) < 8 ^ 6" "unat (argid op) < 8 ^ 6" "td_len d < 2 ^ 63" "length h = 512"
  defines "g \<equiv> put_numbers op d h"
  shows "length g = 512" "fld 0 100 g = fld 0 100 h" "fld 345 155 g = fld 345 155 h"
    "fld 100 8 g = padded 6 (unat (td_mode d AND 0x1FF)) @ '' '' @ [NUL]"
    "linkflag g = (if td_mode d AND 0x80000000 \<noteq> 0 then LF_DIR else LF_PLAIN1)"
    "fld 124 12 g = (if 4294967296 \<le> td_len d then Binsize # putbe (td_len d) 10 @ '' '' else padded 11 (td_len d) @ '' '')"
    "fld 136 12 g = padded 11 (unat (td_mtime d)) @ '' ''"
proof -
  define h1 where "h1 = put 100 (sprint_oct 6 (unat (td_mode d AND 0x1FF)) '' '') h"
  define h2 where "h2 = put 108 (sprint_oct 6 (unat (aruid op)) '' '') h1"
  define h3 where "h3 = put 116 (sprint_oct 6 (unat (argid op)) '' '') h2"
  define h4 where "h4 = put_size (td_len d) h3"
  define h5 where "h5 = put 136 (sprint_oct 11 (unat (td_mtime d)) '' '') h4"
  have g: "g = put 156 [if td_mode d AND 0x80000000 \<noteq> 0 then LF_DIR else LF_PLAIN1] h5"
    by (simp add: g_def put_numbers_def Let_def h1_def h2_def h3_def h4_def h5_def hdr_offsets)
  have "unat (td_mode d AND 0x1FF) < 512"
  proof -
    have "td_mode d AND 0x1FF = take_bit 9 (td_mode d)" by (simp add: take_bit_eq_mask mask_numeral)
    then have "unat (td_mode d AND 0x1FF) = take_bit 9 (unat (td_mode d))" by (simp only: unsigned_take_bit_eq)
    then show ?thesis by (simp add: take_bit_eq_mod)
  qed
  then have m: "length (sprint_oct 6 (unat (td_mode d AND 0x1FF)) '' '') = 8" by (subst sprint_oct_length) auto
  have u: "length (sprint_oct 6 (unat (aruid op)) '' '') = 8" "length (sprint_oct 6 (unat (argid op)) '' '') = 8"
    using assms(1,2) by (auto simp: sprint_oct_length)
  have "unat (td_mtime d) < 8 ^ 11" using unat_u32_lt [of "td_mtime d"] by simp
  then have t: "length (sprint_oct 11 (unat (td_mtime d)) '' '') = 13" "length (padded 11 (unat (td_mtime d))) = 11"
    by (auto simp: sprint_oct_length padded_length)
  have k1: "keeps 100 108 h h1" unfolding h1_def using m assms(4) by (intro keeps_put_in) auto
  note l1 = keeps_length [OF k1, unfolded assms(4)]
  have k2: "keeps 108 116 h1 h2" unfolding h2_def using u l1 by (intro keeps_put_in) auto
  note l2 = keeps_length [OF k2, unfolded l1]
  have k3: "keeps 116 124 h2 h3" unfolding h3_def using u l2 by (intro keeps_put_in) auto
  note l3 = keeps_length [OF k3, unfolded l2]
  have k4: "keeps 124 137 h3 h4" unfolding h4_def by (rule put_size_keeps [OF l3 assms(3)])
  note l4 = keeps_length [OF k4, unfolded l3]
  have k5: "keeps 136 149 h4 h5" unfolding h5_def using t l4 by (intro keeps_put_in) auto
  note l5 = keeps_length [OF k5, unfolded l4]
  have k6: "keeps 156 157 h5 g" unfolding g using l5 by (intro keeps_put_in) auto
  show l6: "length g = 512" using keeps_length [OF k6] l5 by simp
  have all: "fld k n g = fld k n h" if "k + n \<le> 100 \<or> 157 \<le> k" for k n
    using that keeps_fld [OF k6, of k n] keeps_fld [OF k5, of k n] keeps_fld [OF k4, of k n] keeps_fld [OF k3, of k n]
      keeps_fld [OF k2, of k n] keeps_fld [OF k1, of k n] by auto
  show "fld 0 100 g = fld 0 100 h" "fld 345 155 g = fld 345 155 h" by (auto intro: all)
  have "fld 100 8 g = fld 100 8 h1"
    by (simp add: keeps_fld [OF k6] keeps_fld [OF k5] keeps_fld [OF k4] keeps_fld [OF k3] keeps_fld [OF k2])
  also have "\<dots> = sprint_oct 6 (unat (td_mode d AND 0x1FF)) '' ''"
    unfolding h1_def using fld_put_same [of 100 "sprint_oct 6 (unat (td_mode d AND 0x1FF)) '' ''" h] m assms(4) by simp
  finally show "fld 100 8 g = padded 6 (unat (td_mode d AND 0x1FF)) @ '' '' @ [NUL]" by (simp add: sprint_oct_padded)
  show "linkflag g = (if td_mode d AND 0x80000000 \<noteq> 0 then LF_DIR else LF_PLAIN1)"
    unfolding linkflag_def g o_linkflag_def using l5 by (intro nth_put_first) simp
  have "fld 124 12 g = fld 124 12 h4" by (simp add: keeps_fld [OF k6] keeps_fld [OF k5])
  also have "\<dots> = (if 4294967296 \<le> td_len d then Binsize # putbe (td_len d) 10 @ '' '' else padded 11 (td_len d) @ '' '')"
  proof (cases "4294967296 \<le> td_len d")
    case True
    then have "h4 = put 135 '' '' (put 125 (putbe (td_len d) 10) (put 124 [Binsize] h3))"
      by (simp add: h4_def put_size_def hdr_offsets)
    also have "\<dots> = take 124 h3 @ (Binsize # putbe (td_len d) 10 @ '' '') @ drop 136 h3"
      using l3 by (simp add: put_def putbe_length)
    finally show ?thesis using True l3 by (simp add: fld_def putbe_length)
  next
    case False
    then have "length (padded 11 (td_len d)) = 11" by (intro padded_length) auto
    then show ?thesis using False l3 by (simp add: h4_def put_size_def hdr_offsets fld_def put_def sprint_oct_padded)
  qed
  finally show "fld 124 12 g = (if 4294967296 \<le> td_len d then Binsize # putbe (td_len d) 10 @ '' '' else padded 11 (td_len d) @ '' '')" .
  have "fld 136 12 g = fld 136 12 h5" by (simp add: keeps_fld [OF k6])
  also have "\<dots> = padded 11 (unat (td_mtime d)) @ '' ''"
    using t l4 by (simp add: h5_def fld_def put_def sprint_oct_padded)
  finally show "fld 136 12 g = padded 11 (unat (td_mtime d)) @ '' ''" .
qed

lemma put_posix_fields:
  assumes "length h = 512"
  shows "length (put_posix op d h) = 512" "k + n \<le> 257 \<or> 329 \<le> k \<Longrightarrow> fld k n (put_posix op d h) = fld k n h"
    "posix op \<Longrightarrow> fld 257 6 (put_posix op d h) = ''ustar'' @ [NUL]"
proof -
  define h1 where "h1 = put 257 (strncpy ''ustar'' 6) h"
  define h2 where "h2 = put 263 (strncpy ''00'' 2) h1"
  define h3 where "h3 = put 265 (strncpy (td_uid d) 32) h2"
  define h4 where "h4 = put 297 (strncpy (td_gid d) 32) h3"
  have p: "put_posix op d h = (if posix op then h4 else h)"
    by (simp add: put_posix_def h1_def h2_def h3_def h4_def hdr_offsets)
  have k1: "keeps 257 263 h h1" unfolding h1_def using assms by (intro keeps_put_in) (auto simp: strncpy_length)
  note l1 = keeps_length [OF k1, unfolded assms]
  have k2: "keeps 263 265 h1 h2" unfolding h2_def using l1 by (intro keeps_put_in) (auto simp: strncpy_length)
  note l2 = keeps_length [OF k2, unfolded l1]
  have k3: "keeps 265 297 h2 h3" unfolding h3_def using l2 by (intro keeps_put_in) (auto simp: strncpy_length)
  note l3 = keeps_length [OF k3, unfolded l2]
  have k4: "keeps 297 329 h3 h4" unfolding h4_def using l3 by (intro keeps_put_in) (auto simp: strncpy_length)
  note l4 = keeps_length [OF k4, unfolded l3]
  show "length (put_posix op d h) = 512" using p l4 assms by simp
  show "fld k n (put_posix op d h) = fld k n h" if "k + n \<le> 257 \<or> 329 \<le> k"
    using that p keeps_fld [OF k4, of k n] keeps_fld [OF k3, of k n] keeps_fld [OF k2, of k n] keeps_fld [OF k1, of k n] by auto
  have "fld 257 6 h4 = fld 257 6 h1" by (simp add: keeps_fld [OF k4] keeps_fld [OF k3] keeps_fld [OF k2])
  also have "\<dots> = strncpy ''ustar'' 6" unfolding h1_def using fld_put_same [of 257 "strncpy ''ustar'' 6" h] assms by (simp add: strncpy_length)
  finally show "posix op \<Longrightarrow> fld 257 6 (put_posix op d h) = ''ustar'' @ [NUL]" using p by (simp add: strncpy_def)
qed

lemma isustar_fld: "fld 257 6 h = ''ustar'' @ [NUL] \<Longrightarrow> isustar h"
  using drop_fld [of 257 h 6] by (simp add: isustar_def hdr_offsets cstr_def)

lemma octal_fld: "fld k n h = padded w v @ c # rest \<Longrightarrow> v < 8 ^ 22 \<Longrightarrow> num_digit 8 c = None \<Longrightarrow> oct_scan (drop k h) = (False, v)"
  using drop_fld [of k h n] oct_scan_padded [of v c w] by simp

lemma strtoul8_fld: "fld k n h = padded w v @ c # rest \<Longrightarrow> v < 2 ^ bits \<Longrightarrow> bits \<le> 64 \<Longrightarrow> num_digit 8 c = None \<Longrightarrow> strtoul8 bits (drop k h) = v"
proof -
  assume a: "fld k n h = padded w v @ c # rest" "v < 2 ^ bits" "bits \<le> 64" "num_digit 8 c = None"
  have "(2 :: nat) ^ bits \<le> 2 ^ 64" using a(3) by (intro power_increasing) auto
  then have "v < 8 ^ 22" using a(2) by simp
  from octal_fld [OF a(1) this a(4)] a(2) show "strtoul8 bits (drop k h) = v" by (simp add: strtoul8_def)
qed

lemma mode_not_dir: "fld 100 8 h = padded 6 (unat ((m :: u32) AND 0x1FF)) @ '' '' @ [NUL] \<Longrightarrow>
  strtoul8 32 (drop o_mode h) = unat (m AND 0x1FF) \<and> (word_of_nat (strtoul8 32 (drop o_mode h)) :: u32) AND 0xF000 \<noteq> 0x4000"
proof -
  assume f: "fld 100 8 h = padded 6 (unat (m AND 0x1FF)) @ '' '' @ [NUL]"
  then have "strtoul8 32 (drop 100 h) = unat (m AND 0x1FF)"
    using unat_u32_lt [of "m AND 0x1FF"] by (intro strtoul8_fld [where c = "CHR '' ''"]) (auto simp: nul_not_octal)
  moreover have "(m AND 0x1FF) AND 0xF000 = 0" by (simp add: and.assoc)
  ultimately show ?thesis by (simp add: hdr_offsets)
qed

lemma fld_size: "fld 124 12 h = Binsize # putbe n 10 @ '' '' \<Longrightarrow> 136 \<le> length h \<Longrightarrow> h ! 124 = Binsize \<and> fld 127 8 h = putbe n 8"
proof -
  assume f: "fld 124 12 h = Binsize # putbe n 10 @ '' ''" and l: "136 \<le> length h"
  have "h ! (124 + 0) = fld 124 12 h ! 0" using l by (intro nth_fld) auto
  moreover have "fld 127 8 h = take 8 (drop 3 (fld 124 12 h))" by (simp add: fld_def drop_take)
  moreover have "putbe n 10 = putbe (n div 256 ^ 8) 2 @ putbe n 8" using putbe_split [of n 2 8] by simp
  ultimately show ?thesis using f by (simp add: putbe_length)
qed

text \<open>What makes a header that can be read back; the name as it is stored.\<close>

definition td_dir :: "tardir \<Rightarrow> bool" where
  "td_dir d \<longleftrightarrow> td_mode d AND 0x80000000 \<noteq> 0"

definition stored_name :: "tardir \<Rightarrow> string \<Rightarrow> string" where
  "stored_name d file = (if td_dir d then file @ ''/'' else file)"

definition hdr_ok :: "topts \<Rightarrow> tardir \<Rightarrow> string \<Rightarrow> bool" where
  "hdr_ok op d file \<longleftrightarrow>
     unat (aruid op) < 8 ^ 6 \<and> unat (argid op) < 8 ^ 6 \<and> td_len d < 2 ^ 63
     \<and> file \<noteq> [] \<and> NUL \<notin> set file \<and> fits (posix op) (stored_name d file) \<and> (td_dir d \<or> last file \<noteq> CHR ''/'')"

lemma mkhdr_fields_aux:
  assumes "unat (aruid op) < 8 ^ 6" "unat (argid op) < 8 ^ 6" "td_len d < 2 ^ 63"
    and "file \<noteq> []" "NUL \<notin> set file" "fits (posix op) nm"
    and "nm = (if td_mode d AND 0x80000000 \<noteq> 0 then file @ ''/'' else file)"
    and "td_mode d AND 0x80000000 \<noteq> 0 \<or> last file \<noteq> CHR ''/''"
    and "h = mkhdr op d file zblock"
  shows "name h = nm \<and> isdir h = (td_mode d AND 0x80000000 \<noteq> 0) \<and> hdrsize h = int (td_len d)
    \<and> arsize h = (if td_mode d AND 0x80000000 \<noteq> 0 then 0 else int (td_len d))
    \<and> strtoul8 32 (drop o_mode h) = unat (td_mode d AND 0x1FF)
    \<and> strtol8 (drop o_mtime h) = min (int (unat (td_mtime d))) 2147483647
    \<and> strtoul8 32 (drop o_chksum h) = chksum h \<and> length h = 512
    \<and> linkflag h = (if td_mode d AND 0x80000000 \<noteq> 0 then LF_DIR else LF_PLAIN1)"
proof -
  define dir where "dir \<longleftrightarrow> td_mode d AND 0x80000000 \<noteq> 0"
  define h6 where "h6 = put_numbers op d zblock"
  obtain r h7 where pf: "putfullname (posix op) file h6 = (r, h7)" by fastforce
  define h8 where "h8 = put_posix op d h7"
  have h: "h = put 148 (sprint_oct 6 (chksum h8) []) h8"
    by (simp add: assms(9) mkhdr_def Let_def h6_def [symmetric] pf h8_def [symmetric] o_chksum_def)
  note n6 = put_numbers_fields [OF assms(1,2,3) zblock_length, folded h6_def dir_def]
  note l7 = putfullname_keeps(2) [OF n6(1) pf]
  note p8 = put_posix_fields [where op = op and d = d, OF l7, folded h8_def]
  have cs: "chksum h8 < 8 ^ 6" by (rule chksum_bound [OF p8(1)])
  then have ls: "length (sprint_oct 6 (chksum h8) []) = 7" by (subst sprint_oct_length) auto
  have kh: "keeps 148 155 h8 h" unfolding h using ls p8(1) by (intro keeps_put_in) auto
  have lh: "length h = 512" using keeps_length [OF kh] p8(1) by simp
  have k7: "fld k n h7 = fld k n h6" if "100 \<le> k" "k + n \<le> 345" for k n
    using putfullname_keeps(1) [OF n6(1) pf, of k n] that by auto
  have f: "fld k n h = fld k n h7" if "k + n \<le> 148 \<or> 155 \<le> k" "k + n \<le> 257 \<or> 329 \<le> k" for k n
    using that keeps_fld [OF kh, of k n] p8(2) [of k n] by simp
  have f6: "fld k n h = fld k n h6" if "100 \<le> k" "k + n \<le> 148 \<or> 155 \<le> k" "k + n \<le> 257" for k n
    using that f [of k n] k7 [of k n] by simp
  have mode: "fld 100 8 h = padded 6 (unat (td_mode d AND 0x1FF)) @ '' '' @ [NUL]" using f6 [of 100 8] n6(4) by simp
  have "fld 156 1 h = fld 156 1 h6" using f6 [of 156 1] by simp
  then have lf: "linkflag h = (if dir then LF_DIR else LF_PLAIN1)"
  proof -
    have "[linkflag h] = [linkflag h6]" using \<open>fld 156 1 h = fld 156 1 h6\<close> lh n6(1) by (simp only: linkflag_fld)
    then show ?thesis using n6(5) by simp
  qed
  have us: "isustar h" if "posix op"
    using p8(3) [OF that] keeps_fld [OF kh, of 257 6] by (intro isustar_fld) simp
  have "name h6 = []" using n6(1,2,3) nth_fld [of 0 155 345 h6] fld_zblock [of 0 100] fld_zblock [of 345 155]
    by (simp add: name_def Let_def hdr_offsets tar_sstrnlen_def cstr_def)
  then have d6: "isdir h6 = dir"
    using n6(5) mode_not_dir [OF n6(4), THEN conjunct2] by (simp add: isdir_def LF_DIR_def LF_PLAIN1_def)
  have nm: "nm = (if isdir h6 then file @ ''/'' else file)" using assms(7) d6 by (simp add: dir_def)
  have "NUL \<notin> set nm" using assms(5,7) by auto
  from putfullname_name [OF n6(1) assms(6) this nm pf f f lh us]
  have name: "name h = nm" by simp
  have dirh: "isdir h = dir"
    using lf name mode_not_dir [OF mode, THEN conjunct2] assms(4,7,8) by (auto simp: isdir_def LF_DIR_def LF_PLAIN1_def dir_def)
  have size: "hdrsize h = int (td_len d)"
  proof (cases "4294967296 \<le> td_len d")
    case True
    then have "h ! 124 = Binsize" "fld 127 8 h = putbe (td_len d) 8"
      using fld_size [of h "td_len d"] f6 [of 124 12] n6(6) lh by auto
    then show ?thesis using assms(3) getbe_putbe [of "td_len d" 8] vlong_id [of "int (td_len d)"]
      by (simp add: hdrsize_def hdr_offsets Binsize_def Binnegsz_def)
  next
    case False
    have p: "fld 124 12 h = padded 11 (td_len d) @ '' ''" using False f6 [of 124 12] n6(6) by simp
    then have "strtoul8 64 (drop 124 h) = td_len d" using False by (intro strtoul8_fld [where c = "CHR '' ''"]) (auto simp: nul_not_octal)
    moreover obtain c cs where c: "padded 11 (td_len d) = c # cs" "c \<noteq> Binsize" "c \<noteq> Binnegsz" using padded_hd [of 11 "td_len d"] False by auto
    have "h ! 124 = c" using nth_fld [of 0 12 124 h] p c(1) lh by simp
    ultimately show ?thesis using c vlong_id [of "int (td_len d)"] False by (simp add: hdrsize_def hdr_offsets)
  qed
  have "fld 136 12 h = padded 11 (unat (td_mtime d)) @ '' ''" using f6 [of 136 12] n6(7) by simp
  then have "oct_scan (drop 136 h) = (False, unat (td_mtime d))"
    using unat_u32_lt [of "td_mtime d"] by (intro octal_fld [where c = "CHR '' ''"]) (auto simp: nul_not_octal)
  then have mt: "strtol8 (drop o_mtime h) = min (int (unat (td_mtime d))) 2147483647" by (simp add: strtol8_def hdr_offsets)
  have "chksum h = chksum h8" unfolding h using ls p8(1) chksum_put [of "sprint_oct 6 (chksum h8) []" h8] by (simp add: hdr_offsets)
  moreover have "fld 148 7 h = padded 6 (chksum h8) @ [NUL]"
    unfolding h using fld_put_same [of 148 "sprint_oct 6 (chksum h8) []" h8] ls p8(1) by (simp add: sprint_oct_padded)
  then have "strtoul8 32 (drop 148 h) = chksum h8" using cs by (intro strtoul8_fld [where c = NUL]) (auto simp: nul_not_octal)
  ultimately have ck: "strtoul8 32 (drop o_chksum h) = chksum h" by (simp add: hdr_offsets)
  have "arsize h = (if dir then 0 else int (td_len d))"
    using dirh lf size by (simp add: arsize_def islink_def isreallink_def issymlink_def LF_DIR_def LF_PLAIN1_def)
  then show ?thesis using name dirh size mt ck lh lf mode_not_dir [OF mode, THEN conjunct1] unfolding dir_def by simp
qed

lemma mkhdr_fields:
  assumes "hdr_ok op d file" "h = mkhdr op d file zblock"
  shows "name h = stored_name d file" "isdir h = td_dir d" "hdrsize h = int (td_len d)"
    "arsize h = (if td_dir d then 0 else int (td_len d))" "strtoul8 32 (drop o_mode h) = unat (td_mode d AND 0x1FF)"
    "strtol8 (drop o_mtime h) = min (int (unat (td_mtime d))) 2147483647"
    "strtoul8 32 (drop o_chksum h) = chksum h" "length h = 512" "linkflag h = (if td_dir d then LF_DIR else LF_PLAIN1)"
  using mkhdr_fields_aux [of op d "file" "stored_name d file" h] assms
  by (auto simp: hdr_ok_def stored_name_def td_dir_def)

lemma mkhdr_length:
  assumes "unat (aruid op) < 8 ^ 6" "unat (argid op) < 8 ^ 6" "td_len d < 2 ^ 63"
  shows "length (mkhdr op d file zblock) = 512"
proof -
  define h6 where "h6 = put_numbers op d zblock"
  obtain r h7 where pf: "putfullname (posix op) file h6 = (r, h7)" by fastforce
  define h8 where "h8 = put_posix op d h7"
  have h: "mkhdr op d file zblock = put 148 (sprint_oct 6 (chksum h8) []) h8"
    by (simp add: mkhdr_def Let_def h6_def [symmetric] pf h8_def [symmetric] o_chksum_def)
  note n6 = put_numbers_fields [OF assms(1,2,3) zblock_length, folded h6_def]
  note p8 = put_posix_fields [where op = op and d = d, OF putfullname_keeps(2) [OF n6(1) pf], folded h8_def]
  have "length (sprint_oct 6 (chksum h8) []) = 7" using chksum_bound [OF p8(1)] by (subst sprint_oct_length) auto
  then show ?thesis unfolding h using p8(1) by (simp add: length_put)
qed

text \<open>What \<open>mkhdr\<close> puts into an empty block is what the archive's reader gets out of it: for a name that fits, whole
  or split into prefix and name, the name (with a slash appended for a directory), the kind, the length, whether
  octal or in the binary form for 4 GB and more, the permissions, the time, and a checksum that agrees.
\<close>

theorem header_read_back:
  assumes "hdr_ok op d file" "h = mkhdr op d file zblock"
  shows "name h = stored_name d file \<and> isdir h = td_dir d \<and> hdrsize h = int (td_len d)
    \<and> arsize h = (if td_dir d then 0 else int (td_len d))
    \<and> strtoul8 32 (drop o_mode h) = unat (td_mode d AND 0x1FF)
    \<and> strtol8 (drop o_mtime h) = min (int (unat (td_mtime d))) 2147483647
    \<and> strtoul8 32 (drop o_chksum h) = chksum h \<and> length h = 512"
  using mkhdr_fields [OF assms] by simp

definition dir0 :: tardir where
  "dir0 = \<lparr>td_mode = 0x1A4, td_len = 5000000000, td_mtime = 1000000000, td_uid = ''glenda'', td_gid = ''sys'', td_isdir = False\<rparr>"

lemma header_read_back_witness:
  "let h = mkhdr \<lparr>posix = True, aruid = 0, argid = 0\<rparr> dir0 ''usr/glenda/big'' zblock
   in name h = ''usr/glenda/big'' \<and> arsize h = 5000000000 \<and> strtoul8 32 (drop o_chksum h) = chksum h"
  using header_read_back [of "\<lparr>posix = True, aruid = 0, argid = 0\<rparr>" dir0 "''usr/glenda/big''", OF _ refl]
  by (simp add: hdr_ok_def dir0_def stored_name_def td_dir_def fits_def hdr_offsets Let_def)

text \<open>C40. A name that no header can hold, longer than 256 bytes or longer than 100 without the posix format, still gets a
  header, as \<open>mkhdr\<close> does not look at what \<open>putfullname\<close> returns. The header has no name: whoever reads the archive
  takes it for the end of the archive, and what follows is lost.
\<close>

theorem long_name_ends_archive:
  assumes "unat (aruid op) < 8 ^ 6" "unat (argid op) < 8 ^ 6" "td_len d < 2 ^ 63"
    and "Maxname < length file \<or> \<not> posix op \<and> Namsiz < length file"
  shows "eotar (mkhdr op d file zblock)"
proof -
  define h6 where "h6 = put_numbers op d zblock"
  define h8 where "h8 = put_posix op d h6"
  have pf: "putfullname (posix op) file h6 = (False, h6)"
    using assms(4) by (auto simp: putfullname_def Let_def hdr_offsets)
  have h: "mkhdr op d file zblock = put 148 (sprint_oct 6 (chksum h8) []) h8"
    by (simp add: mkhdr_def Let_def h6_def [symmetric] pf h8_def [symmetric] o_chksum_def)
  note n6 = put_numbers_fields [OF assms(1,2,3) zblock_length, folded h6_def]
  note p8 = put_posix_fields [where op = op and d = d, OF n6(1), folded h8_def]
  have "length (sprint_oct 6 (chksum h8) []) = 7" using chksum_bound [OF p8(1)] by (subst sprint_oct_length) auto
  then have kh: "keeps 148 155 h8 (mkhdr op d file zblock)" unfolding h using p8(1) by (intro keeps_put_in) auto
  define h9 where "h9 = mkhdr op d file zblock"
  have f: "fld k n h9 = replicate n NUL" if "(k, n) = (0, 100) \<or> (k, n) = (345, 155)" for k n
    using that keeps_fld [OF kh, of k n] p8(2) [of k n] n6(2,3) fld_zblock [of k n] unfolding h9_def by auto
  have "length h9 = 512" using keeps_length [OF kh] p8(1) by (simp add: h9_def)
  then have "name h9 = []" using f [of 0 100] f [of 345 155] nth_fld [of 0 155 345 h9]
    by (simp add: name_def Let_def hdr_offsets tar_sstrnlen_def cstr_def)
  then show ?thesis by (simp add: eotar_def h9_def)
qed

lemma long_name_ends_archive_witness:
  "eotar (mkhdr \<lparr>posix = True, aruid = 0, argid = 0\<rparr> dir0 (replicate 257 CHR ''a'') zblock)"
  by (rule long_name_ends_archive) (simp_all add: dir0_def hdr_offsets)

end
