(* ===== verification/Tar.thy ===== *)
theory Tar
  imports TarHdr
begin

text \<open>
  The block buffer of src/src/cmd/tar.c and the commands that create, list and extract archives. The
  buffer \<open>tpblk\<close> is its bytes, \<open>curblk\<close> the index of the next block; the static variables of the file are the
  state \<open>tar\<close>, the options \<open>tarop\<close>. The system, and the filter process that \<open>push\<close> starts, are a parameter, the
  record \<open>tlib\<close>. \<open>sysfatal\<close> is \<open>Fatal\<close>; messages to the standard error are left out. The recursion into
  directories has fuel.

  What \<open>replace\<close> writes is the headers, the files and zero blocks, whatever the blocking; \<open>tar_extract\<close> creates the
  same files from it.
\<close>

section \<open>State\<close>

text \<open>How a run can stop: \<open>Stray\<close> is the point where \<open>curblk\<close> would be moved before the first block of the buffer.\<close>

datatype tstop = Fatal string | Exits string | Undef | Stray

text \<open>\<open>t_readn\<close> and \<open>t_read\<close> give the number of bytes, or -1, and the bytes.\<close>

record 'os tlib =
  t_seek :: "int \<Rightarrow> int \<Rightarrow> int \<Rightarrow> 'os \<Rightarrow> int \<times> 'os"
  t_read :: "int \<Rightarrow> nat \<Rightarrow> 'os \<Rightarrow> (int \<times> string) \<times> 'os"
  t_readn :: "int \<Rightarrow> nat \<Rightarrow> 'os \<Rightarrow> (int \<times> string) \<times> 'os"
  t_write :: "int \<Rightarrow> string \<Rightarrow> 'os \<Rightarrow> int \<times> 'os"
  t_open :: "string \<Rightarrow> int \<Rightarrow> 'os \<Rightarrow> int \<times> 'os"
  t_create :: "string \<Rightarrow> int \<Rightarrow> u32 \<Rightarrow> 'os \<Rightarrow> int \<times> 'os"
  t_close :: "int \<Rightarrow> 'os \<Rightarrow> 'os"
  t_dirfstat :: "int \<Rightarrow> 'os \<Rightarrow> tardir option"
  t_dirreadall :: "int \<Rightarrow> 'os \<Rightarrow> string list option"
  t_chdir :: "string \<Rightarrow> 'os \<Rightarrow> int \<times> 'os"
  t_access :: "string \<Rightarrow> 'os \<Rightarrow> int"
  t_wstat :: "int \<Rightarrow> int \<Rightarrow> string option \<Rightarrow> 'os \<Rightarrow> 'os"
  t_push :: "int \<Rightarrow> string \<Rightarrow> bool \<Rightarrow> 'os \<Rightarrow> int \<times> 'os"
  t_pushclose :: "'os \<Rightarrow> string \<times> 'os"
  t_cleanname :: "string \<Rightarrow> string"
  t_longline :: "u32 \<Rightarrow> int \<Rightarrow> int \<Rightarrow> string \<Rightarrow> string"

record tarop = topts +
  xtract :: bool
  relative :: bool
  settime :: bool
  verbose :: bool
  keepexisting :: bool
  docreate :: bool
  docompress :: bool
  usefile :: "string option"
  origdir :: string

record 'os tar =
  tpblk :: string
  curblk :: "nat option"
  nblock :: nat
  blkoff :: int
  nexthdr :: int
  rf_done :: bool
  rf_first :: bool
  rf_seekable :: bool
  t_lines :: "string list"
  t_os :: 'os

type_synonym ('os, 'a) tarm = "'os tar \<Rightarrow> (tstop, 'a \<times> 'os tar) res"

abbreviation fatal :: "string \<Rightarrow> (tstop, 'a) res" where "fatal msg \<equiv> Some (Inl (Fatal msg))"

definition Dblock :: nat where "Dblock = 20"

definition initblks :: "'os \<Rightarrow> 'os tar" where
  "initblks os = \<lparr>tpblk = replicate (Tblock * Dblock) NUL, curblk = None, nblock = Dblock, blkoff = 0, nexthdr = 0,
     rf_done = False, rf_first = True, rf_seekable = False, t_lines = [], t_os = os\<rparr>"

section \<open>Compression\<close>

record compress =
  comp :: string
  decomp :: string
  sfx :: "string list"

definition comps :: "compress list" where
  "comps = [\<lparr>comp = ''gzip'', decomp = ''gunzip'', sfx = [''.tar.gz'', ''.tgz'']\<rparr>,
            \<lparr>comp = ''compress'', decomp = ''uncompress'', sfx = [''.tar.Z'', ''.tz'']\<rparr>,
            \<lparr>comp = ''bzip2'', decomp = ''bunzip2'', sfx = [''.tar.bz'', ''.tbz'', ''.tar.bz2'', ''.tbz2'']\<rparr>]"

definition compmethod :: "bool \<Rightarrow> string \<Rightarrow> compress option" where
  "compmethod z nm =
     (case find (\<lambda>cp. \<exists>x \<in> set (sfx cp). length x < length nm \<and> drop (length nm - length x) nm = x) comps of
        Some cp \<Rightarrow> Some cp
      | None \<Rightarrow> if z then Some (hd comps) else None)"

section \<open>The block buffer\<close>

definition set_buf :: "string \<Rightarrow> 'os tar \<Rightarrow> 'os tar" where
  "set_buf bs s = s\<lparr>tpblk := put 0 bs (tpblk s)\<rparr>"

text \<open>The end of \<open>refill\<close>: \<open>n\<close> bytes have come of \<open>bytes\<close>. \<open>True\<close> when there are blocks.\<close>

definition refill_end :: "int \<Rightarrow> nat \<Rightarrow> ('os, bool) tarm" where
  "refill_end n bytes s =
     (if n = 0 then fatal ''unexpected EOF reading archive''
      else if n < 0 then fatal ''error reading archive''
      else if nat n mod Tblock \<noteq> 0 then fatal ''partial block read from archive''
      else if n \<noteq> int bytes
      then ret (True, s\<lparr>rf_done := True, tpblk := put (nat n) (replicate (bytes - nat n) NUL) (tpblk s)\<rparr>)
      else ret (True, s))"

text \<open>The first read of a named archive sizes the blocking.\<close>

definition refill_first :: "'os tlib \<Rightarrow> int \<Rightarrow> ('os, bool) tarm" where
  "refill_first lib ar s =
     (let bytes = Tblock * nblock s;
          ((n, bs), os) = t_read lib ar bytes (t_os s);
          s = set_buf bs (s\<lparr>t_os := os\<rparr>)
      in if n \<le> 0 then fatal ''error reading archive''
         else if nat n mod Tblock \<noteq> 0 then Some (Inl (Exits ''blocksize''))
         else let s = s\<lparr>rf_first := False, nblock := nat n div Tblock, tpblk := take (nat n) (tpblk s)\<rparr>
              in refill_end n (nat n) s)"

definition refill :: "'os tlib \<Rightarrow> tarop \<Rightarrow> int \<Rightarrow> bool \<Rightarrow> ('os, bool) tarm" where
  "refill lib op ar justhdr s =
     (if rf_done s then ret (False, s)
      else
        let bytes = Tblock * nblock s;
            (s, sk) = (if rf_first s then (let (r, os) = t_seek lib ar 0 1 (t_os s) in (s\<lparr>t_os := os, rf_seekable := 0 \<le> r\<rparr>, 0 \<le> r))
                       else (s, rf_seekable s));
            (off, os) = t_seek lib ar 0 1 (t_os s);
            s = s\<lparr>blkoff := off, t_os := os\<rparr>
        in if rf_first s \<and> usefile op \<noteq> None then refill_first lib ar s
           else
             let (here, os) = (if justhdr \<and> rf_seekable s then t_seek lib ar 0 1 (t_os s) else (0, t_os s));
                 s = s\<lparr>t_os := os\<rparr>
             in if justhdr \<and> rf_seekable s \<and> int bytes \<le> vlong (nexthdr s - here)
                then (let (r, os) = t_seek lib ar (int bytes) 1 (t_os s)
                      in if r < 0 then fatal ''can't seek on archive''
                         else refill_end (int bytes) bytes (s\<lparr>t_os := os, rf_first := False\<rparr>))
                else (let ((n, bs), os) = t_readn lib ar bytes (t_os s)
                      in refill_end n bytes (set_buf bs (s\<lparr>t_os := os, rf_first := False\<rparr>))))"

text \<open>Whether the buffer is used up; the index of the block that was got.\<close>

definition used_up :: "'os tar \<Rightarrow> bool" where
  "used_up s \<longleftrightarrow> (case curblk s of None \<Rightarrow> True | Some c \<Rightarrow> nblock s \<le> c)"

definition getblkrd :: "'os tlib \<Rightarrow> tarop \<Rightarrow> int \<Rightarrow> bool \<Rightarrow> ('os, nat option) tarm" where
  "getblkrd lib op ar justhdr s =
     (if used_up s
      then rbind (refill lib op ar justhdr s) (\<lambda>(ok, s).
        if ok then ret (Some 0, s\<lparr>curblk := Some 1\<rparr>) else ret (None, s))
      else let c = the (curblk s) in ret (Some c, s\<lparr>curblk := Some (c + 1)\<rparr>))"

definition getblke :: "'os tar \<Rightarrow> nat \<times> 'os tar" where
  "getblke s = (let c = (if used_up s then 0 else the (curblk s)) in (c, s\<lparr>curblk := Some (c + 1)\<rparr>))"

definition blk :: "'os tar \<Rightarrow> nat \<Rightarrow> block" where
  "blk s i = fld (i * Tblock) Tblock (tpblk s)"

definition getblkz :: "'os tar \<Rightarrow> nat \<times> 'os tar" where
  "getblkz s = (let (c, s) = getblke s in (c, s\<lparr>tpblk := put (c * Tblock) zblock (tpblk s)\<rparr>))"

definition cur :: "'os tar \<Rightarrow> nat" where
  "cur s = (case curblk s of None \<Rightarrow> 0 | Some c \<Rightarrow> c)"

text \<open>The count is passed to \<open>gothowmany\<close> as an \<open>int\<close>: one of \<open>2^31\<close> or more turns negative. What is
  written then is undefined; for the loops that read see \<open>back_blocks\<close>.\<close>

definition too_many :: "nat \<Rightarrow> bool" where
  "too_many blksleft \<longleftrightarrow> 2147483648 \<le> blksleft"

definition gothowmany :: "nat \<Rightarrow> 'os tar \<Rightarrow> nat" where
  "gothowmany maxb s = min maxb (nblock s + 1 - cur s)"

definition putlastblk :: "'os tlib \<Rightarrow> int \<Rightarrow> ('os, unit) tarm" where
  "putlastblk lib ar s =
     (let bytes = Tblock * nblock s;
          s = (if cur s < nblock s
               then s\<lparr>tpblk := put (cur s * Tblock) (replicate ((nblock s - cur s) * Tblock) NUL) (tpblk s)\<rparr> else s);
          (n, os) = t_write lib ar (take bytes (tpblk s)) (t_os s)
      in if n \<noteq> int bytes then fatal ''error writing archive'' else ret ((), s\<lparr>t_os := os\<rparr>))"

definition putblk :: "'os tlib \<Rightarrow> int \<Rightarrow> ('os, unit) tarm" where
  "putblk lib ar s = (if nblock s \<le> cur s then putlastblk lib ar s else ret ((), s))"

definition putbackblk :: "'os tar \<Rightarrow> 'os tar" where
  "putbackblk s = s\<lparr>curblk := Some (cur s - 1)\<rparr>"

definition putreadblks :: "nat \<Rightarrow> 'os tar \<Rightarrow> 'os tar" where
  "putreadblks blks s = s\<lparr>curblk := Some (cur s + blks - 1)\<rparr>"

text \<open>\<open>gothowmany\<close> and \<open>putreadblks\<close> on a count that is negative as an \<open>int\<close>: it is less than what is in the
  buffer and so returned, \<open>curblk\<close> is moved back by it, and nothing is left of the count. When \<open>curblk\<close>
  stays in the buffer the blocks from there on are read once more, as headers.\<close>

definition back_blocks :: "nat \<Rightarrow> ('os, unit) tarm" where
  "back_blocks blksleft s =
     (let c = int (cur s) + int32 (int blksleft) - 1
      in if c < 0 then Some (Inl Stray) else ret ((), s\<lparr>curblk := Some (nat c)\<rparr>))"

definition putblkmany :: "'os tlib \<Rightarrow> int \<Rightarrow> nat \<Rightarrow> ('os, unit) tarm" where
  "putblkmany lib ar blks s = putblk lib ar (s\<lparr>curblk := Some (cur s + blks - 1)\<rparr>)"

text \<open>\<open>ulong\<close> has 32 bits.\<close>

definition tblks :: "int \<Rightarrow> nat" where
  "tblks bytes = nat (BYTES2TBLKS bytes mod 4294967296)"

text \<open>\<open>readhdr\<close>: \<open>None\<close> at the end of the archive, else the index of the header in the buffer.\<close>

definition readhdr :: "'os tlib \<Rightarrow> tarop \<Rightarrow> int \<Rightarrow> ('os, nat option) tarm" where
  "readhdr lib op ar s =
     rbind (getblkrd lib op ar False s) (\<lambda>(r, s).
       case r of
         None \<Rightarrow> fatal ''unexpected EOF instead of archive header''
       | Some i \<Rightarrow>
           let hp = blk s i
           in if eotar hp then ret (None, s)
              else if int (chksum hp) \<noteq> int32 (int (strtoul8 32 (drop o_chksum hp))) then fatal ''bad archive header checksum''
              else ret (Some i, s\<lparr>nexthdr := vlong (nexthdr s + int Tblock * (1 + BYTES2TBLKS (arsize hp)))\<rparr>))"

section \<open>Creating an archive\<close>

definition AEXIST :: int where "AEXIST = 0"
definition OREAD :: int where "OREAD = 0"
definition OWRITE :: int where "OWRITE = 1"
definition ORDWR :: int where "ORDWR = 2"

text \<open>The data of a file: \<open>blksleft\<close> blocks, as many at once as the buffer has. \<open>fuel\<close> counts the rounds.\<close>

fun data_loop :: "'os tlib \<Rightarrow> int \<Rightarrow> int \<Rightarrow> string \<Rightarrow> nat \<Rightarrow> nat \<Rightarrow> ('os, unit) tarm" where
  "data_loop lib ar fd file 0 blksleft s = (if blksleft = 0 then ret ((), s) else None)"
| "data_loop lib ar fd file (Suc k) blksleft s =
     (if blksleft = 0 then ret ((), s)
      else if too_many blksleft then Some (Inl Undef)
      else
        let (i, s) = getblke s;
            blksread = gothowmany blksleft s;
            bytes = blksread * Tblock;
            ((n, bs), os) = t_readn lib fd bytes (t_os s);
            s = s\<lparr>t_os := os, tpblk := put (i * Tblock) bs (tpblk s)\<rparr>
        in if n < 0 then fatal (''error reading '' @ file)
           else
             let s = (if n < int Tblock
                      then s\<lparr>tpblk := put (i * Tblock + nat n) (replicate (bytes - nat n) NUL) (tpblk s)\<rparr> else s)
             in rbind (putblkmany lib ar blksread s) (\<lambda>(_, s). data_loop lib ar fd file k (blksleft - blksread) s))"

text \<open>A name that begins with \<open>#\<close> is opened as \<open>./#\<close>.\<close>

definition open_name :: "string \<Rightarrow> string" where
  "open_name shortf = (if shortf \<noteq> [] \<and> hd shortf = CHR ''#'' then ''./'' @ shortf else shortf)"

text \<open>The entries of a directory; what adds one is an argument, \<open>addtoar\<close> with less fuel.\<close>

fun addentries :: "(string \<Rightarrow> string \<Rightarrow> ('os, unit) tarm) \<Rightarrow> string \<Rightarrow> string list \<Rightarrow> ('os, unit) tarm" where
  "addentries add file [] s = ret ((), s)"
| "addentries add file (nm # ents) s = rbind (add (file @ ''/'' @ nm) nm s) (\<lambda>(_, s). addentries add file ents s)"

definition addtreetoar :: "'os tlib \<Rightarrow> (string \<Rightarrow> string \<Rightarrow> ('os, unit) tarm) \<Rightarrow> string \<Rightarrow> string \<Rightarrow> int \<Rightarrow> ('os, unit) tarm" where
  "addtreetoar lib add file shortf fd s =
     (let ents = t_dirreadall lib fd (t_os s);
          s = s\<lparr>t_os := t_close lib fd (t_os s)\<rparr>
      in if ents = Some [] then ret ((), s)
         else
           let (r, os) = t_chdir lib shortf (t_os s)
           in if r < 0 then fatal (''chdir '' @ file)
              else rbind (addentries add file (case ents of None \<Rightarrow> [] | Some es \<Rightarrow> es) (s\<lparr>t_os := os\<rparr>)) (\<lambda>(_, s).
                let (r, os) = t_chdir lib ''..'' (t_os s)
                in if r < 0 then fatal (''chdir '' @ file @ ''/..'') else ret ((), s\<lparr>t_os := os\<rparr>)))"

definition put_header :: "'os tlib \<Rightarrow> tarop \<Rightarrow> int \<Rightarrow> tardir \<Rightarrow> string \<Rightarrow> ('os, unit) tarm" where
  "put_header lib op ar d file s =
     (let (i, s) = getblkz s
      in putblk lib ar (s\<lparr>tpblk := put (i * Tblock) (mkhdr (topts.truncate op) d file (blk s i)) (tpblk s)\<rparr>))"

primrec addtoar :: "'os tlib \<Rightarrow> tarop \<Rightarrow> int \<Rightarrow> nat \<Rightarrow> string \<Rightarrow> string \<Rightarrow> ('os, unit) tarm" where
  "addtoar lib op ar 0 = (\<lambda>file shortf s. None)"
| "addtoar lib op ar (Suc k) = (\<lambda>file shortf s.
     let shortf = open_name shortf;
         (fd, os) = t_open lib shortf OREAD (t_os s);
         s = s\<lparr>t_os := os\<rparr>
     in if fd < 0 then ret ((), s)
        else case t_dirfstat lib fd os of
          None \<Rightarrow> fatal (''can't fstat '' @ file)
        | Some d \<Rightarrow>
            rbind (put_header lib op ar d file s) (\<lambda>(_, s).
              if td_isdir d then addtreetoar lib (addtoar lib op ar k) file shortf fd s
              else let blksleft = tblks (int (td_len d))
                   in rbind (data_loop lib ar fd file blksleft blksleft s) (\<lambda>(_, s).
                        ret ((), s\<lparr>t_os := t_close lib fd (t_os s)\<rparr>))))"

text \<open>Blocks passed over without being looked at.\<close>

fun skip_loop :: "'os tlib \<Rightarrow> tarop \<Rightarrow> int \<Rightarrow> nat \<Rightarrow> nat \<Rightarrow> ('os, bool) tarm" where
  "skip_loop lib op ar 0 blksleft s = (if blksleft = 0 then ret (True, s) else None)"
| "skip_loop lib op ar (Suc k) blksleft s =
     (if blksleft = 0 then ret (True, s)
      else rbind (getblkrd lib op ar True s) (\<lambda>(r, s).
        case r of
          None \<Rightarrow> ret (False, s)
        | Some _ \<Rightarrow> if too_many blksleft then rbind (back_blocks blksleft s) (\<lambda>(_, s). ret (True, s))
                    else let blksread = gothowmany blksleft s
                         in skip_loop lib op ar k (blksleft - blksread) (putreadblks blksread s)))"

text \<open>\<open>tar r\<close>: to the end of the archive. \<open>fuel\<close> counts the members.\<close>

fun find_end :: "'os tlib \<Rightarrow> tarop \<Rightarrow> int \<Rightarrow> nat \<Rightarrow> ('os, unit) tarm" where
  "find_end lib op ar 0 s = None"
| "find_end lib op ar (Suc k) s =
     rbind (readhdr lib op ar s) (\<lambda>(r, s).
       case r of
         None \<Rightarrow> ret ((), s)
       | Some i \<Rightarrow> let n = tblks (arsize (blk s i))
                   in rbind (skip_loop lib op ar n n s) (\<lambda>(_, s). find_end lib op ar k s))"

fun addall :: "'os tlib \<Rightarrow> tarop \<Rightarrow> int \<Rightarrow> nat \<Rightarrow> string list \<Rightarrow> ('os, unit) tarm" where
  "addall lib op ar k [] s = ret ((), s)"
| "addall lib op ar k (f # fs) s =
     rbind (addtoar lib op ar k f f s) (\<lambda>(_, s). addall lib op ar k fs (s\<lparr>t_os := snd (t_chdir lib (origdir op) (t_os s))\<rparr>))"

definition put_end :: "'os tlib \<Rightarrow> int \<Rightarrow> ('os, unit) tarm" where
  "put_end lib ar s =
     rbind (putblk lib ar (snd (getblkz s))) (\<lambda>(_, s). putlastblk lib ar (snd (getblkz s)))"

definition replace :: "'os tlib \<Rightarrow> tarop \<Rightarrow> nat \<Rightarrow> string list \<Rightarrow> ('os, string) tarm" where
  "replace lib op k argv s =
     (let ((ar, os), cmp) =
            (case usefile op of
               None \<Rightarrow> ((1, t_os s), None)
             | Some f \<Rightarrow> if docreate op
                         then (t_create lib f OWRITE 0x1B6 (t_os s), if docompress op then compmethod (docompress op) f else None)
                         else (t_open lib f ORDWR (t_os s), None));
          (ar, os) = (case cmp of None \<Rightarrow> (ar, os) | Some c \<Rightarrow> t_push lib ar (comp c) False os);
          s = s\<lparr>t_os := os\<rparr>
      in if ar < 0 then fatal ''can't open archive''
         else
           rbind (if usefile op \<noteq> None \<and> \<not> docreate op
                  then rbind (find_end lib op ar k s) (\<lambda>(_, s).
                    let (r, os) = t_seek lib ar (blkoff s) 0 (t_os s)
                    in if r < 0 then fatal ''can't seek back over end-of-archive'' else ret ((), putbackblk (s\<lparr>t_os := os\<rparr>)))
                  else ret ((), s)) (\<lambda>(_, s).
           rbind (addall lib op ar k argv s) (\<lambda>(_, s).
           rbind (put_end lib ar s) (\<lambda>(_, s).
             case cmp of
               Some _ \<Rightarrow> (let (msg, os) = t_pushclose lib (t_os s) in ret (msg, s\<lparr>t_os := os\<rparr>))
             | None \<Rightarrow> ret ([], if 2 < ar then s\<lparr>t_os := t_close lib ar (t_os s)\<rparr> else s)))))"

section \<open>Reading an archive\<close>

text \<open>The prefix is compared as it was given; its cleaned copy is not used.\<close>

definition prefix :: "string \<Rightarrow> string \<Rightarrow> bool" where
  "prefix nm pfx \<longleftrightarrow>
     length pfx \<le> Maxname \<and> take (length pfx) nm = pfx \<and> (length nm = length pfx \<or> nm ! length pfx = CHR ''/'')"

definition match :: "'os tlib \<Rightarrow> string \<Rightarrow> string list \<Rightarrow> bool" where
  "match lib nm argv \<longleftrightarrow> argv = [] \<or> (\<exists>a \<in> set argv. prefix (t_cleanname lib nm) a)"

definition makedir :: "'os tlib \<Rightarrow> string \<Rightarrow> 'os \<Rightarrow> int \<times> 'os" where
  "makedir lib nm os =
     (if t_access lib nm os = 0 then (-1, os)
      else let (f, os) = t_create lib nm OREAD 0x800001FF os in (f, if 0 \<le> f then t_close lib f os else os))"

text \<open>The directories above a name, from the slash after position \<open>i\<close> on; stopped by the first error.\<close>

function mkpdirs :: "'os tlib \<Rightarrow> string \<Rightarrow> nat \<Rightarrow> 'os \<Rightarrow> int \<times> 'os" where
  "mkpdirs lib nm i os =
     (case strchr (drop (Suc i) nm) CHR ''/'' of
        None \<Rightarrow> (0, os)
      | Some j \<Rightarrow>
          let p = Suc i + j;
              dn = take p nm
          in if t_access lib dn os < 0
             then (let (r, os) = makedir lib dn os in if r < 0 then (-1, os) else mkpdirs lib nm p os)
             else mkpdirs lib nm p os)"
  by pat_completeness auto
termination
  by (relation "measure (\<lambda>(lib, nm, i, os). length nm - i)") (auto dest!: strchr_Some)

declare mkpdirs.simps [simp del]

text \<open>The file or directory of a member: the descriptor, or -1.\<close>

definition make_member :: "'os tlib \<Rightarrow> tarop \<Rightarrow> bool \<Rightarrow> string \<Rightarrow> u32 \<Rightarrow> 'os \<Rightarrow> int \<times> 'os" where
  "make_member lib op dir fname mode os =
     (if keepexisting op \<and> 0 \<le> t_access lib fname os then (-1, os)
      else
        let rw = (if dir then OREAD else OWRITE);
            (fd, os) = t_create lib fname rw mode os
        in if fd < 0 then t_create lib fname rw mode (snd (mkpdirs lib fname 0 os)) else (fd, os))"

text \<open>The name as it is used: never an absolute one unless \<open>R\<close> was given.\<close>

definition member_name :: "'os tlib \<Rightarrow> tarop \<Rightarrow> string \<Rightarrow> string" where
  "member_name lib op nm =
     (let fname = (if relative op \<and> nm \<noteq> [] \<and> hd nm = CHR ''/'' then ''.'' @ nm
                   else if relative op \<and> nm \<noteq> [] \<and> hd nm = CHR ''#'' then ''./'' @ nm else nm)
      in if xtract op then t_cleanname lib fname else fname)"

text \<open>The blocks of a member, written to \<open>fd\<close> when that is open. A write of a negative count is undefined.\<close>

fun copy_loop :: "'os tlib \<Rightarrow> tarop \<Rightarrow> int \<Rightarrow> int \<Rightarrow> string \<Rightarrow> nat \<Rightarrow> nat \<Rightarrow> int \<Rightarrow> ('os, int) tarm" where
  "copy_loop lib op ar fd fname 0 blksleft bytes s = (if blksleft = 0 then ret (bytes, s) else None)"
| "copy_loop lib op ar fd fname (Suc k) blksleft bytes s =
     (if blksleft = 0 then ret (bytes, s)
      else rbind (getblkrd lib op ar (fd < 0) s) (\<lambda>(r, s).
        case r of
          None \<Rightarrow> fatal (''unexpected EOF on archive extracting '' @ fname)
        | Some i \<Rightarrow>
            let blksread = gothowmany blksleft s;
                wrbytes = min (if too_many blksleft then int32 (int (Tblock * blksleft)) else int (Tblock * blksread)) bytes
            in if 0 \<le> fd \<and> wrbytes < 0 then Some (Inl Undef)
               else
                 let (w, os) = (if 0 \<le> fd then t_write lib fd (fld (i * Tblock) (nat wrbytes) (tpblk s)) (t_os s) else (wrbytes, t_os s))
                 in if w \<noteq> wrbytes then fatal (''write error on '' @ fname)
                    else if too_many blksleft
                    then rbind (back_blocks blksleft (s\<lparr>t_os := os\<rparr>)) (\<lambda>(_, s). ret (bytes - wrbytes, s))
                    else copy_loop lib op ar fd fname k (blksleft - blksread) (bytes - wrbytes) (putreadblks blksread (s\<lparr>t_os := os\<rparr>))))"

text \<open>The times and the group. The group is read from where the header was in the buffer, after the data were
  copied: when they took a refill, other bytes are there.\<close>

definition set_times :: "'os tlib \<Rightarrow> tarop \<Rightarrow> int \<Rightarrow> int \<Rightarrow> block \<Rightarrow> 'os \<Rightarrow> 'os" where
  "set_times lib op fd mtime hp os =
     (if settime op
      then let os = t_wstat lib fd mtime None os
           in if isustar hp then t_wstat lib fd (-1) (Some (cstr (drop o_gname hp))) os else os
      else os)"

definition extract1 :: "'os tlib \<Rightarrow> tarop \<Rightarrow> int \<Rightarrow> nat \<Rightarrow> ('os, unit) tarm" where
  "extract1 lib op ar i s =
     (let hp = blk s i;
          mtime = strtol8 (drop o_mtime hp);
          dir = isdir hp;
          mode = word_of_nat (strtoul8 32 (drop o_mode hp)) AND 0x1FF;
          mode = (if dir then mode OR 0x800001C0 else mode);
          bytes = hdrsize hp;
          nodata = (islink (linkflag hp) \<or> linkflag hp = CHR ''6'');
          blksleft = (if nodata then 0 else tblks (arsize hp));
          fname = member_name lib op (name hp);
          (fd, os) = (if xtract op \<and> \<not> nodata then make_member lib op dir fname mode (t_os s) else (-1, t_os s));
          line = (if xtract op then [] else if verbose op then [t_longline lib mode bytes mtime fname] else [fname]);
          s = s\<lparr>t_os := os, t_lines := t_lines s @ line\<rparr>;
          bytes = (if blksleft = 0 then 0 else bytes)
      in rbind (copy_loop lib op ar fd fname blksleft blksleft bytes s) (\<lambda>(_, s).
           ret ((), if 0 \<le> fd then s\<lparr>t_os := t_close lib fd (set_times lib op fd mtime (blk s i) (t_os s))\<rparr> else s)))"

definition skip :: "'os tlib \<Rightarrow> tarop \<Rightarrow> int \<Rightarrow> block \<Rightarrow> ('os, unit) tarm" where
  "skip lib op ar hp s =
     (let n = tblks (arsize hp)
      in rbind (skip_loop lib op ar n n s) (\<lambda>(ok, s).
           if ok then ret ((), s) else fatal (''unexpected EOF on archive extracting '' @ name hp)))"

text \<open>The members one after the other. \<open>fuel\<close> counts them.\<close>

fun extract_loop :: "'os tlib \<Rightarrow> tarop \<Rightarrow> int \<Rightarrow> nat \<Rightarrow> string list \<Rightarrow> ('os, unit) tarm" where
  "extract_loop lib op ar 0 argv s = None"
| "extract_loop lib op ar (Suc k) argv s =
     rbind (readhdr lib op ar s) (\<lambda>(r, s).
       case r of
         None \<Rightarrow> ret ((), s)
       | Some i \<Rightarrow>
           rbind (if match lib (name (blk s i)) argv then extract1 lib op ar i s else skip lib op ar (blk s i) s) (\<lambda>(_, s).
             extract_loop lib op ar k argv s))"

definition tar_extract :: "'os tlib \<Rightarrow> tarop \<Rightarrow> nat \<Rightarrow> string list \<Rightarrow> ('os, string) tarm" where
  "tar_extract lib op k argv s =
     (let ((ar, os), cmp) =
            (case usefile op of
               None \<Rightarrow> ((0, t_os s), None)
             | Some f \<Rightarrow> (t_open lib f OREAD (t_os s), compmethod (docompress op) f));
          (ar, os) = (case cmp of None \<Rightarrow> (ar, os) | Some c \<Rightarrow> t_push lib ar (decomp c) True os);
          s = s\<lparr>t_os := os\<rparr>
      in if ar < 0 then fatal ''can't open archive''
         else rbind (extract_loop lib op ar k argv s) (\<lambda>(_, s).
           case cmp of
             Some _ \<Rightarrow> (let (msg, os) = t_pushclose lib (t_os s) in ret (msg, s\<lparr>t_os := os\<rparr>))
           | None \<Rightarrow> ret ([], if 2 < ar then s\<lparr>t_os := t_close lib ar (t_os s)\<rparr> else s)))"

end
