(* ===== verification/TarWrite.thy ===== *)
theory TarWrite
  imports Tar
begin

text \<open>
  What \<open>replace\<close> writes. The files of the system are trees; the laws of the system's calls are stated over what can be
  seen of its state: the bytes written to the archive, the rest of every open file, the directories that lead to the
  working directory.
\<close>

section \<open>Trees of files\<close>

datatype tnode = TFile tardir string | TDir tardir "(string \<times> tnode) list"

fun tn_stat :: "tnode \<Rightarrow> tardir" where
  "tn_stat (TFile d c) = d"
| "tn_stat (TDir d es) = d"

text \<open>The members of an archive in its order, and the bytes that hold them. After the last byte of a file, to the end of its
  last block, anything may stand.\<close>

type_synonym member = "string \<times> tardir \<times> string"

fun flat :: "string \<Rightarrow> tnode \<Rightarrow> member list" where
  "flat file (TFile d c) = [(file, d, c)]"
| "flat file (TDir d es) = (file, d, []) # concat (map (\<lambda>(nm, t). flat (file @ ''/'' @ nm) t) es)"

definition dblocks :: "string \<Rightarrow> nat" where
  "dblocks c = (length c + 511) div 512"

fun stream :: "topts \<Rightarrow> member list \<Rightarrow> string \<Rightarrow> bool" where
  "stream op [] bs = (bs = [])"
| "stream op ((file, d, c) # ms) bs =
     (take 512 bs = mkhdr op d file zblock \<and> take (length c) (drop 512 bs) = c \<and> 512 + 512 * dblocks c \<le> length bs
      \<and> stream op ms (drop (512 + 512 * dblocks c) bs))"

fun depth :: "tnode \<Rightarrow> nat" where
  "depth (TFile d c) = 1"
| "depth (TDir d es) = Suc (foldr (\<lambda>(nm, t). max (depth t)) es 0)"

text \<open>Names that are not taken for something else; a tree whose names are these and whose files have the length their entry
  gives, below 512 GB.\<close>

definition ok_name :: "string \<Rightarrow> string \<Rightarrow> bool" where
  "ok_name org f \<longleftrightarrow> f \<noteq> ''..'' \<and> open_name f \<noteq> org \<and> take 3 f \<noteq> ''./#''"

fun ok_tree :: "string \<Rightarrow> tnode \<Rightarrow> bool" where
  "ok_tree org (TFile d c) \<longleftrightarrow> \<not> td_isdir d \<and> td_len d = length c \<and> length c < 2 ^ 39"
| "ok_tree org (TDir d es) \<longleftrightarrow> td_isdir d \<and> td_len d < 2 ^ 39 \<and> distinct (map fst es)
     \<and> list_all (\<lambda>(nm, t). ok_name org nm \<and> ok_tree org t) es"

section \<open>The laws of the system\<close>

record 'os wviews =
  w_out :: "'os \<Rightarrow> string"
  w_rest :: "int \<Rightarrow> 'os \<Rightarrow> string"
  w_dirs :: "'os \<Rightarrow> (string \<times> tnode) list list"

text \<open>Two states that differ in the archive only.\<close>

definition same_files :: "'os tlib \<Rightarrow> 'os wviews \<Rightarrow> int \<Rightarrow> 'os \<Rightarrow> 'os \<Rightarrow> bool" where
  "same_files lib v ar os os' \<longleftrightarrow> w_dirs v os' = w_dirs v os
     \<and> (\<forall>fd. fd \<noteq> ar \<longrightarrow> w_rest v fd os' = w_rest v fd os \<and> t_dirreadall lib fd os' = t_dirreadall lib fd os)"

definition write_law :: "'os tlib \<Rightarrow> 'os wviews \<Rightarrow> int \<Rightarrow> bool" where
  "write_law lib v ar \<longleftrightarrow> (\<forall>os bs. let (n, os') = t_write lib ar bs os
     in n = int (length bs) \<and> w_out v os' = w_out v os @ bs \<and> same_files lib v ar os os')"

definition read_law :: "'os tlib \<Rightarrow> 'os wviews \<Rightarrow> int \<Rightarrow> bool" where
  "read_law lib v ar \<longleftrightarrow> (\<forall>os fd n. fd \<noteq> ar \<longrightarrow> (let (r, os') = t_readn lib fd n os; bs = take n (w_rest v fd os)
     in r = (int (length bs), bs) \<and> w_rest v fd os' = drop n (w_rest v fd os)
        \<and> w_out v os' = w_out v os \<and> w_dirs v os' = w_dirs v os))"

definition open_law :: "'os tlib \<Rightarrow> 'os wviews \<Rightarrow> string \<Rightarrow> int \<Rightarrow> bool" where
  "open_law lib v org ar \<longleftrightarrow> (\<forall>os es up f. w_dirs v os = es # up \<longrightarrow> ok_name org f \<longrightarrow>
     (let (fd, os') = t_open lib (open_name f) OREAD os
      in w_out v os' = w_out v os \<and> w_dirs v os' = w_dirs v os \<and>
         (case map_of es f of
            None \<Rightarrow> fd < 0
          | Some t \<Rightarrow> 0 \<le> fd \<and> fd \<noteq> ar \<and> t_dirfstat lib fd os' = Some (tn_stat t) \<and>
              (case t of TFile d c \<Rightarrow> w_rest v fd os' = c | TDir d es' \<Rightarrow> t_dirreadall lib fd os' = Some (map fst es')))))"

definition close_law :: "'os tlib \<Rightarrow> 'os wviews \<Rightarrow> bool" where
  "close_law lib v \<longleftrightarrow> (\<forall>os fd. w_out v (t_close lib fd os) = w_out v os \<and> w_dirs v (t_close lib fd os) = w_dirs v os)"

definition chdir_law :: "'os tlib \<Rightarrow> 'os wviews \<Rightarrow> string \<Rightarrow> (string \<times> tnode) list \<Rightarrow> bool" where
  "chdir_law lib v org root \<longleftrightarrow> (\<forall>os nm. w_out v (snd (t_chdir lib nm os)) = w_out v os)
     \<and> (\<forall>os. w_dirs v (snd (t_chdir lib org os)) = [root])
     \<and> (\<forall>os es es' up. w_dirs v os = es # es' # up \<longrightarrow>
          0 \<le> fst (t_chdir lib ''..'' os) \<and> w_dirs v (snd (t_chdir lib ''..'' os)) = es' # up)
     \<and> (\<forall>os es up f d es'. w_dirs v os = es # up \<longrightarrow> ok_name org f \<longrightarrow> map_of es f = Some (TDir d es') \<longrightarrow>
          0 \<le> fst (t_chdir lib (open_name f) os) \<and> w_dirs v (snd (t_chdir lib (open_name f) os)) = es' # es # up)"

definition src_laws :: "'os tlib \<Rightarrow> 'os wviews \<Rightarrow> string \<Rightarrow> int \<Rightarrow> (string \<times> tnode) list \<Rightarrow> bool" where
  "src_laws lib v org ar root \<longleftrightarrow> write_law lib v ar \<and> read_law lib v ar \<and> open_law lib v org ar \<and> close_law lib v
     \<and> chdir_law lib v org root"

section \<open>The bytes that have been put out\<close>

definition buf_ok :: "'os tar \<Rightarrow> bool" where
  "buf_ok s \<longleftrightarrow> 0 < nblock s \<and> length (tpblk s) = 512 * nblock s \<and> cur s \<le> nblock s"

definition at :: "'os tar \<Rightarrow> nat" where
  "at s = (if used_up s then 0 else cur s)"

definition sent :: "'os wviews \<Rightarrow> 'os tar \<Rightarrow> string" where
  "sent v s = w_out v (t_os s) @ take (at s * 512) (tpblk s)"

text \<open>How far the bytes written are from whole records.\<close>

definition recs :: "'os wviews \<Rightarrow> 'os tar \<Rightarrow> nat" where
  "recs v s = length (w_out v (t_os s)) mod (512 * nblock s)"

lemma buf_os [simp]:
  "used_up (s\<lparr>t_os := os\<rparr>) = used_up s" "cur (s\<lparr>t_os := os\<rparr>) = cur s" "at (s\<lparr>t_os := os\<rparr>) = at s"
  "buf_ok (s\<lparr>t_os := os\<rparr>) = buf_ok s"
  by (auto simp: used_up_def cur_def at_def buf_ok_def split: option.splits)

lemma at_cur: "used_up s \<Longrightarrow> buf_ok s \<Longrightarrow> cur s = 0 \<or> cur s = nblock s"
  by (auto simp: used_up_def cur_def buf_ok_def split: option.splits)

lemma at_less: "buf_ok s \<Longrightarrow> at s < nblock s"
  by (auto simp: at_def used_up_def cur_def buf_ok_def split: option.splits)

lemma getblke_at: "getblke s = (at s, s\<lparr>curblk := Some (at s + 1)\<rparr>)"
  by (auto simp: getblke_def at_def used_up_def cur_def split: option.splits)

text \<open>Blocks stored at the next place, and \<open>putblk\<close>.\<close>

lemma put_prefix: "i + length bs \<le> length h \<Longrightarrow> take (i + length bs) (put i bs h) = take i h @ bs"
  by (simp add: put_def)

lemma put_blocks:
  assumes "write_law lib v ar" "buf_ok s" "length bs = 512 * k" "at s + k \<le> nblock s"
  defines "s1 \<equiv> s\<lparr>tpblk := put (at s * 512) bs (tpblk s), curblk := Some (at s + k)\<rparr>"
  shows "\<exists>s'. putblk lib ar s1 = ret ((), s') \<and> buf_ok s' \<and> nblock s' = nblock s \<and> recs v s' = recs v s \<and> sent v s' = sent v s @ bs
    \<and> same_files lib v ar (t_os s) (t_os s') \<and> t_lines s' = t_lines s"
proof -
  have l: "length (tpblk s) = 512 * nblock s" "0 < nblock s" using assms(2) by (auto simp: buf_ok_def)
  have lp: "length (put (at s * 512) bs (tpblk s)) = 512 * nblock s" using assms(3,4) l(1) by (subst length_put) auto
  have pre: "take ((at s + k) * 512) (put (at s * 512) bs (tpblk s)) = take (at s * 512) (tpblk s) @ bs"
    using put_prefix [of "at s * 512" bs "tpblk s"] assms(3,4) l(1) by (simp add: algebra_simps)
  have c1: "cur s1 = at s + k" by (simp add: s1_def cur_def)
  show ?thesis
  proof (cases "nblock s \<le> at s + k")
    case True
    then have e: "at s + k = nblock s" using assms(4) by simp
    obtain n os' where w: "t_write lib ar (take (512 * nblock s) (tpblk s1)) (t_os s) = (n, os')" by fastforce
    have t: "take (512 * nblock s) (tpblk s1) = take (at s * 512) (tpblk s) @ bs" using pre e by (simp add: s1_def mult.commute)
    have lt: "length (take (512 * nblock s) (tpblk s1)) = 512 * nblock s" using lp by (simp add: s1_def)
    have law: "n = int (512 * nblock s)" "w_out v os' = w_out v (t_os s) @ take (512 * nblock s) (tpblk s1)" "same_files lib v ar (t_os s) os'"
      using assms(1) [unfolded write_law_def, rule_format, of "take (512 * nblock s) (tpblk s1)" "t_os s"] w lt
      by (simp_all add: s1_def Let_def)
    have lw: "w_out v os' = sent v s @ bs" using law(2) unfolding t by (simp add: sent_def)
    have p: "putblk lib ar s1 = ret ((), s1\<lparr>t_os := os'\<rparr>)"
      using True w law(1) by (simp add: putblk_def putlastblk_def Let_def c1 Tblock_def s1_def cur_def)
    have u: "used_up (s1\<lparr>t_os := os'\<rparr>)" using True by (simp add: s1_def used_up_def)
    then have se: "sent v (s1\<lparr>t_os := os'\<rparr>) = sent v s @ bs" using lw by (simp add: sent_def [of v "s1\<lparr>t_os := os'\<rparr>"] at_def [of s1])
    have "recs v (s1\<lparr>t_os := os'\<rparr>) = recs v s" using law(2) lt by (simp add: recs_def s1_def)
    with se show ?thesis
      by (intro exI [where x = "s1\<lparr>t_os := os'\<rparr>"] conjI) (use p law(3) l lp e in \<open>simp_all add: s1_def buf_ok_def cur_def\<close>)
  next
    case False
    then have p: "putblk lib ar s1 = ret ((), s1)" using c1 by (simp add: putblk_def) (simp add: s1_def)
    have u: "\<not> used_up s1" using False by (simp add: s1_def used_up_def)
    then have "sent v s1 = sent v s @ bs" using pre c1 by (simp add: sent_def at_def s1_def cur_def)
    then show ?thesis
      by (intro exI [where x = s1], use p l lp False in \<open>simp add: s1_def buf_ok_def cur_def same_files_def recs_def\<close>)
  qed
qed

text \<open>What is stored between \<open>i\<close> and \<open>i + m\<close>, seen as one store.\<close>

lemma put_region:
  assumes "length h' = length h" "take i h' = take i h" "drop (i + m) h' = drop (i + m) h" "i + m \<le> length h"
  shows "h' = put i (fld i m h') h"
proof -
  have "h' = take i h' @ fld i m h' @ drop (i + m) h'" using drop_fld [of i h' m] by (metis append_take_drop_id)
  then show ?thesis using assms by (simp add: put_def fld_def)
qed

lemma put_chunk:
  assumes "i + m \<le> length h" "length bs \<le> m" "h' = put i bs h \<or> h' = put (i + length bs) (replicate (m - length bs) NUL) (put i bs h)"
  shows "h' = put i (fld i m h') h" "take (length bs) (fld i m h') = bs" "length (fld i m h') = m"
proof -
  have l: "length (put i bs h) = length h" using assms(1,2) by (intro length_put) auto
  then have l': "length h' = length h" using assms by (auto simp: length_put)
  have t: "take i h' = take i h" using assms l by (auto simp: put_def)
  have d: "drop (i + m) h' = drop (i + m) h"
    using assms(3)
  proof
    assume "h' = put i bs h"
    then show ?thesis using assms(1,2) by (simp add: put_def add.commute)
  next
    assume "h' = put (i + length bs) (replicate (m - length bs) NUL) (put i bs h)"
    then show ?thesis using assms(1,2) l by (simp add: put_def add.commute)
  qed
  from put_region [OF l' t d assms(1)] show "h' = put i (fld i m h') h" .
  show "length (fld i m h') = m" using l' assms(1) by (simp add: fld_def)
  have "take (length bs) (fld i m h') = fld i (length bs) h'" using assms(2) by (simp add: fld_def min_def)
  also have "\<dots> = bs"
    using assms(3)
  proof
    assume "h' = put i bs h"
    then show ?thesis using assms(1,2) by (simp add: fld_put_same)
  next
    assume h': "h' = put (i + length bs) (replicate (m - length bs) NUL) (put i bs h)"
    have "fld i (length bs) h' = fld i (length bs) (put i bs h)"
      unfolding h' using assms(1,2) l by (intro fld_put_other) auto
    then show ?thesis using assms(1,2) by (simp add: fld_put_same)
  qed
  finally show "take (length bs) (fld i m h') = bs" .
qed

lemma getblke_many: "buf_ok s \<Longrightarrow> gothowmany n (s\<lparr>curblk := Some (at s + 1)\<rparr>) = min n (nblock s - at s)"
  by (simp add: gothowmany_def cur_def)

text \<open>The data of a file.\<close>

lemma data_loop_writes:
  assumes "write_law lib v ar" "read_law lib v ar" "fd \<noteq> ar"
  shows "buf_ok s \<Longrightarrow> blksleft \<le> k \<Longrightarrow> blksleft < 2147483648 \<Longrightarrow> length (w_rest v fd (t_os s)) \<le> 512 * blksleft \<Longrightarrow>
    \<exists>s' pad. data_loop lib ar fd file k blksleft s = ret ((), s') \<and> buf_ok s' \<and> nblock s' = nblock s
      \<and> recs v s' = recs v s \<and> sent v s' = sent v s @ w_rest v fd (t_os s) @ pad \<and> length (w_rest v fd (t_os s)) + length pad = 512 * blksleft
      \<and> w_dirs v (t_os s') = w_dirs v (t_os s) \<and> t_lines s' = t_lines s"
proof (induction k arbitrary: blksleft s)
  case 0
  then show ?case by simp
next
  case (Suc k)
  show ?case
  proof (cases "blksleft = 0")
    case True
    then show ?thesis using Suc.prems by simp
  next
    case False
    define c where "c = w_rest v fd (t_os s)"
    define b where "b = min blksleft (nblock s - at s)"
    have b: "0 < b" "b \<le> blksleft" "at s + b \<le> nblock s" using False at_less [OF Suc.prems(1)] by (auto simp: b_def)
    have many: "gothowmany blksleft (s\<lparr>curblk := Some (at s + 1)\<rparr>) = b" using getblke_many [OF Suc.prems(1)] by (simp add: b_def)
    obtain r os' where rd: "t_readn lib fd (b * 512) (t_os s) = (r, os')" by fastforce
    define bs where "bs = take (b * 512) c"
    have law: "r = (int (length bs), bs)" "w_rest v fd os' = drop (b * 512) c" "w_out v os' = w_out v (t_os s)" "w_dirs v os' = w_dirs v (t_os s)"
      using assms(2) [unfolded read_law_def, rule_format, OF assms(3), of "b * 512" "t_os s"] rd by (simp_all add: bs_def c_def)
    have lb: "length bs \<le> b * 512" by (simp add: bs_def)
    define t1 where "t1 = put (at s * 512) bs (tpblk s)"
    define t2 where "t2 = (if int (length bs) < 512 then put (at s * 512 + length bs) (replicate (b * 512 - length bs) NUL) t1 else t1)"
    have bound: "at s * 512 + b * 512 \<le> length (tpblk s)" using Suc.prems(1) b(3) by (simp add: buf_ok_def)
    define x where "x = fld (at s * 512) (b * 512) t2"
    have "t2 = t1 \<or> t2 = put (at s * 512 + length bs) (replicate (b * 512 - length bs) NUL) t1" by (simp add: t2_def)
    note x = put_chunk [OF bound lb this [unfolded t1_def], folded x_def]
    define s3 where "s3 = s\<lparr>t_os := os'\<rparr>"
    have s3: "buf_ok s3" "at s3 = at s" "nblock s3 = nblock s" "tpblk s3 = tpblk s" "t_os s3 = os'" "t_lines s3 = t_lines s" "sent v s3 = sent v s"
      "recs v s3 = recs v s"
      using Suc.prems(1) law(3) by (simp_all add: s3_def sent_def recs_def)
    have "length x = 512 * b" using x(3) by simp
    from put_blocks [OF assms(1) s3(1) this] b(3) obtain s' where
      s': "putblk lib ar (s3\<lparr>tpblk := put (at s * 512) x (tpblk s), curblk := Some (at s + b)\<rparr>) = ret ((), s')" "buf_ok s'"
        "nblock s' = nblock s" "sent v s' = sent v s @ x" "same_files lib v ar os' (t_os s')" "t_lines s' = t_lines s"
        "recs v s' = recs v s"
      by (auto simp: s3)
    have rest: "w_rest v fd (t_os s') = drop (b * 512) c" "w_dirs v (t_os s') = w_dirs v (t_os s)"
      using s'(5) assms(3) law(2,4) by (auto simp: same_files_def)
    have "putblkmany lib ar b (s\<lparr>curblk := Some (at s + 1), t_os := os', tpblk := t2\<rparr>) = ret ((), s')"
      using s'(1) b(1) x(1) by (simp add: putblkmany_def cur_def s3_def)
    moreover have "(if length bs < 512
         then s\<lparr>curblk := Some (at s + 1), t_os := os', tpblk := put (at s * 512 + length bs) (replicate (b * 512 - length bs) NUL) t1\<rparr>
         else s\<lparr>curblk := Some (at s + 1), t_os := os', tpblk := t1\<rparr>) = s\<lparr>curblk := Some (at s + 1), t_os := os', tpblk := t2\<rparr>"
      by (simp add: t2_def)
    ultimately have step: "data_loop lib ar fd file (Suc k) blksleft s = data_loop lib ar fd file k (blksleft - b) s'"
      using False Suc.prems(3) many rd law(1)
      by (simp add: too_many_def getblke_at Let_def Tblock_def t1_def [symmetric] del: not_gr_zero split del: if_split cong: if_cong)
    have p: "blksleft - b \<le> k" "blksleft - b < 2147483648" "length (w_rest v fd (t_os s')) \<le> 512 * (blksleft - b)"
      using rest(1) Suc.prems(2-4) b unfolding c_def by auto
    obtain s2 pad where
      s2: "data_loop lib ar fd file k (blksleft - b) s' = ret ((), s2)" "buf_ok s2" "nblock s2 = nblock s"
        "sent v s2 = sent v s' @ drop (b * 512) c @ pad" "length (drop (b * 512) c) + length pad = 512 * (blksleft - b)"
        "w_dirs v (t_os s2) = w_dirs v (t_os s)" "t_lines s2 = t_lines s" "recs v s2 = recs v s"
      using Suc.IH [OF s'(2) p] unfolding rest s'(3) s'(6) s'(7) by blast
    have "x @ drop (b * 512) c @ pad = c @ (if length c \<le> b * 512 then drop (length c) x @ pad else pad)"
    proof (cases "length c \<le> b * 512")
      case True
      then have "bs = c" by (simp add: bs_def)
      then have "x = c @ drop (length c) x" using x(2) by (metis append_take_drop_id)
      then show ?thesis using True by simp
    next
      case False
      then have "length bs = b * 512" by (simp add: bs_def)
      then have "x = take (b * 512) c" using x(2,3) by (simp add: bs_def)
      then show ?thesis using False by simp
    qed
    moreover have "length (x @ drop (b * 512) c @ pad) = 512 * blksleft" using s2(5) x(3) b(2) by simp
    ultimately show ?thesis
      using step s2 s'(4) by (intro exI [where x = s2] exI [where x = "if length c \<le> b * 512 then drop (length c) x @ pad else pad"])
        (simp add: c_def flip: length_append)
  qed
qed

section \<open>Members\<close>

lemma dblocks_bounds: "length c \<le> 512 * dblocks c" "length c < 2 ^ 39 \<Longrightarrow> dblocks c < 2147483648"
  by (auto simp: dblocks_def)

lemma stream_append: "stream op ms bs \<Longrightarrow> stream op ms' bs' \<Longrightarrow> stream op (ms @ ms') (bs @ bs')"
proof (induction op ms bs rule: stream.induct)
  case (2 op f d c ms bs)
  then show ?case using dblocks_bounds(1) [of c] by simp
qed simp

text \<open>A step that puts out the members \<open>ms\<close> and leaves the working directory as it was.\<close>

definition wrote :: "'os wviews \<Rightarrow> tarop \<Rightarrow> member list \<Rightarrow> 'os tar \<Rightarrow> 'os tar \<Rightarrow> bool" where
  "wrote v op ms s s' \<longleftrightarrow> buf_ok s' \<and> nblock s' = nblock s \<and> recs v s' = recs v s \<and> t_lines s' = t_lines s \<and> w_dirs v (t_os s') = w_dirs v (t_os s)
     \<and> (\<exists>bs. sent v s' = sent v s @ bs \<and> stream (topts.truncate op) ms bs)"

lemma wrote_trans: "wrote v op ms s s' \<Longrightarrow> wrote v op ms' s' s'' \<Longrightarrow> wrote v op (ms @ ms') s s''"
  unfolding wrote_def using stream_append by fastforce

lemma wrote_os:
  "wrote v op ms s s' \<Longrightarrow> w_out v os = w_out v (t_os s') \<Longrightarrow> w_dirs v os = w_dirs v (t_os s') \<Longrightarrow> wrote v op ms s (s'\<lparr>t_os := os\<rparr>)"
  by (auto simp: wrote_def sent_def recs_def)

definition ok_opts :: "tarop \<Rightarrow> bool" where
  "ok_opts op \<longleftrightarrow> unat (aruid op) < 8 ^ 6 \<and> unat (argid op) < 8 ^ 6"

lemma header_length: "ok_opts op \<Longrightarrow> td_len d < 2 ^ 63 \<Longrightarrow> length (mkhdr (topts.truncate op) d file zblock) = 512"
  by (intro mkhdr_length) (simp_all add: ok_opts_def topts.truncate_def)

lemma curblk_tpblk: "s\<lparr>curblk := c, tpblk := t\<rparr> = s\<lparr>tpblk := t, curblk := c\<rparr>"
  by simp

lemma put_header_writes:
  assumes "write_law lib v ar" "buf_ok s" "ok_opts op" "td_len d < 2 ^ 63"
  shows "\<exists>s'. put_header lib op ar d file s = ret ((), s') \<and> buf_ok s' \<and> nblock s' = nblock s
    \<and> recs v s' = recs v s \<and> sent v s' = sent v s @ mkhdr (topts.truncate op) d file zblock \<and> same_files lib v ar (t_os s) (t_os s') \<and> t_lines s' = t_lines s"
proof -
  define h where "h = mkhdr (topts.truncate op) d file zblock"
  have h: "length h = 512" using header_length [OF assms(3,4)] by (simp add: h_def)
  have l: "at s * 512 + 512 \<le> length (tpblk s)" using assms(2) at_less [OF assms(2)] by (simp add: buf_ok_def)
  have z: "fld (at s * 512) 512 (put (at s * 512) zblock (tpblk s)) = zblock" using fld_put_same [of "at s * 512" zblock "tpblk s"] l by simp
  have o: "put (at s * 512) h (put (at s * 512) zblock (tpblk s)) = put (at s * 512) h (tpblk s)" using l h by (intro put_over) auto
  have "put_header lib op ar d file s = putblk lib ar (s\<lparr>tpblk := put (at s * 512) h (tpblk s), curblk := Some (at s + 1)\<rparr>)"
    using z o by (simp add: put_header_def getblkz_def getblke_at Let_def Tblock_def blk_def h_def curblk_tpblk)
  then show ?thesis using put_blocks [OF assms(1,2), of h 1] h at_less [OF assms(2)] unfolding h_def by simp
qed

lemma addentries_writes:
  assumes "\<And>nm t s. (nm, t) \<in> set l \<Longrightarrow> buf_ok s \<Longrightarrow> w_dirs v (t_os s) = wd \<Longrightarrow>
    \<exists>s'. add (file @ ''/'' @ nm) nm s = ret ((), s') \<and> wrote v op (flat (file @ ''/'' @ nm) t) s s'"
  shows "buf_ok s \<Longrightarrow> w_dirs v (t_os s) = wd \<Longrightarrow> \<exists>s'. addentries add file (map fst l) s = ret ((), s')
    \<and> wrote v op (concat (map (\<lambda>(nm, t). flat (file @ ''/'' @ nm) t) l)) s s'"
  using assms
proof (induction l arbitrary: s)
  case Nil
  then show ?case by (simp add: wrote_def)
next
  case (Cons e l)
  obtain nm t where e: "e = (nm, t)" by (cases e)
  obtain s1 where s1: "add (file @ ''/'' @ nm) nm s = ret ((), s1)" "wrote v op (flat (file @ ''/'' @ nm) t) s s1"
    using Cons.prems(3) [of nm t s] Cons.prems(1,2) e by auto
  then have "buf_ok s1" "w_dirs v (t_os s1) = wd" using Cons.prems(2) by (auto simp: wrote_def)
  then obtain s2 where s2: "addentries add file (map fst l) s1 = ret ((), s2)"
    "wrote v op (concat (map (\<lambda>(nm, t). flat (file @ ''/'' @ nm) t) l)) s1 s2"
    using Cons.IH [of s1] Cons.prems(3) by auto
  show ?case using s1(1) s2(1) wrote_trans [OF s1(2) s2(2)] by (simp add: e)
qed

lemma depth_child: "(nm, t) \<in> set es \<Longrightarrow> depth t < depth (TDir d es)"
  by (induction es) auto

lemma tblks_dblocks: "length c < 2 ^ 39 \<Longrightarrow> tblks (int (length c)) = dblocks c"
proof -
  assume l: "length c < 2 ^ 39"
  then have v: "vlong (int (length c) + 512 - 1) = int (length c + 511)" by (subst vlong_id) auto
  have d: "dblocks c < 4294967296" using l by (auto simp: dblocks_def)
  have "BYTES2TBLKS (int (length c)) = int (dblocks c)"
    by (simp only: BYTES2TBLKS_def Let_def Tblock_def of_nat_numeral v dblocks_def zdiv_int) simp
  then show ?thesis using d by (simp add: tblks_def)
qed

lemma addtoar_writes:
  assumes laws: "src_laws lib v org ar root" and op: "ok_opts op"
  shows "depth t \<le> k \<Longrightarrow> buf_ok s \<Longrightarrow> w_dirs v (t_os s) = es # up \<Longrightarrow> map_of es shortf = Some t \<Longrightarrow> ok_name org shortf
    \<Longrightarrow> ok_tree org t \<Longrightarrow> \<exists>s'. addtoar lib op ar k file shortf s = ret ((), s') \<and> wrote v op (flat file t) s s'"
proof (induction k arbitrary: t s es up shortf "file")
  case 0
  then show ?case by (cases t) auto
next
  case (Suc k)
  have W: "write_law lib v ar" and R: "read_law lib v ar" and O: "open_law lib v org ar" and C: "close_law lib v"
    and D: "chdir_law lib v org root" using laws by (auto simp: src_laws_def)
  obtain fd os where op': "t_open lib (open_name shortf) OREAD (t_os s) = (fd, os)" by fastforce
  have o: "w_out v os = w_out v (t_os s)" "w_dirs v os = es # up" "0 \<le> fd" "fd \<noteq> ar" "t_dirfstat lib fd os = Some (tn_stat t)"
    "\<And>d c. t = TFile d c \<Longrightarrow> w_rest v fd os = c" "\<And>d es'. t = TDir d es' \<Longrightarrow> t_dirreadall lib fd os = Some (map fst es')"
    using O [unfolded open_law_def, rule_format, OF Suc.prems(3,5)] Suc.prems(3,4) op' by auto
  define s0 where "s0 = s\<lparr>t_os := os\<rparr>"
  have s0: "buf_ok s0" "sent v s0 = sent v s" "w_dirs v (t_os s0) = es # up" "nblock s0 = nblock s" "t_lines s0 = t_lines s" "t_os s0 = os"
    "recs v s0 = recs v s" using Suc.prems(2) o by (simp_all add: s0_def sent_def recs_def)
  have "td_len (tn_stat t) < 2 ^ 63" using Suc.prems(6) by (cases t) auto
  from put_header_writes [OF W s0(1) op this, of "file"] obtain s1 where
    s1: "put_header lib op ar (tn_stat t) file s0 = ret ((), s1)" "buf_ok s1" "nblock s1 = nblock s" "t_lines s1 = t_lines s"
      "sent v s1 = sent v s @ mkhdr (topts.truncate op) (tn_stat t) file zblock" "same_files lib v ar os (t_os s1)"
      "recs v s1 = recs v s"
    unfolding s0 by blast
  have hl: "length (mkhdr (topts.truncate op) (tn_stat t) file zblock) = 512" using op \<open>td_len (tn_stat t) < 2 ^ 63\<close> by (rule header_length)
  show ?case
  proof (cases t)
    case (TFile d c)
    have d: "\<not> td_isdir d" "td_len d = length c" "length c < 2 ^ 39" using Suc.prems(6) TFile by auto
    have rest: "w_rest v fd (t_os s1) = c" "w_dirs v (t_os s1) = es # up" using s1(6) o(2,4,6) TFile by (auto simp: same_files_def)
    have "length (w_rest v fd (t_os s1)) \<le> 512 * dblocks c" using dblocks_bounds(1) rest(1) by simp
    from data_loop_writes [OF W R o(4) s1(2) order_refl dblocks_bounds(2) [OF d(3)] this] obtain s2 pad where
      s2: "data_loop lib ar fd file (dblocks c) (dblocks c) s1 = ret ((), s2)" "buf_ok s2" "nblock s2 = nblock s"
        "sent v s2 = sent v s1 @ c @ pad" "length c + length pad = 512 * dblocks c" "w_dirs v (t_os s2) = es # up" "t_lines s2 = t_lines s"
        "recs v s2 = recs v s"
      unfolding rest s1(3,4,7) by blast
    have run: "addtoar lib op ar (Suc k) file shortf s = ret ((), s2\<lparr>t_os := t_close lib fd (t_os s2)\<rparr>)"
      using op' o(3,5) TFile s1(1) s2(1) d tblks_dblocks [OF d(3)] by (simp add: Let_def s0_def)
    have "stream (topts.truncate op) (flat file t) (mkhdr (topts.truncate op) d file zblock @ c @ pad)"
      using s2(5) hl TFile by simp
    then have "wrote v op (flat file t) s s2" using s2 s1(5) TFile Suc.prems(3) by (auto simp: wrote_def)
    then have "wrote v op (flat file t) s (s2\<lparr>t_os := t_close lib fd (t_os s2)\<rparr>)"
      using C by (intro wrote_os) (auto simp: close_law_def)
    then show ?thesis using run by blast
  next
    case (TDir d es')
    have d: "td_isdir d" "distinct (map fst es')" "\<And>nm t. (nm, t) \<in> set es' \<Longrightarrow> ok_name org nm \<and> ok_tree org t"
      using Suc.prems(6) TDir by (auto simp: list_all_iff)
    have ents: "t_dirreadall lib fd (t_os s1) = Some (map fst es')" "w_dirs v (t_os s1) = es # up"
      using s1(6) o(2,4,7) TDir by (auto simp: same_files_def)
    have "stream (topts.truncate op) [(file, d, [])] (mkhdr (topts.truncate op) d file zblock)" using hl TDir by (simp add: dblocks_def)
    then have w1: "wrote v op [(file, d, [])] s s1" using s1 TDir Suc.prems(3) ents(2) by (auto simp: wrote_def)
    define s2 where "s2 = s1\<lparr>t_os := t_close lib fd (t_os s1)\<rparr>"
    have w2: "wrote v op [(file, d, [])] s s2" unfolding s2_def using C by (intro wrote_os [OF w1]) (auto simp: close_law_def)
    have run: "addtoar lib op ar (Suc k) file shortf s = addtreetoar lib (addtoar lib op ar k) file (open_name shortf) fd s1"
      using op' o(3,5) TDir s1(1) d(1) by (simp add: Let_def s0_def)
    show ?thesis
    proof (cases "es' = []")
      case True
      then show ?thesis using run ents(1) w2 TDir by (simp add: addtreetoar_def Let_def s2_def)
    next
      case False
      have wd2: "w_dirs v (t_os s2) = es # up" using ents(2) C by (simp add: s2_def close_law_def)
      obtain r os3 where c3: "t_chdir lib (open_name shortf) (t_os s2) = (r, os3)" by fastforce
      have r3: "0 \<le> r" "w_dirs v os3 = es' # es # up" "w_out v os3 = w_out v (t_os s2)"
        using D wd2 c3 Suc.prems(4,5) TDir unfolding chdir_law_def by (metis fst_conv snd_conv)+
      define s3 where "s3 = s2\<lparr>t_os := os3\<rparr>"
      have s3: "buf_ok s3" "w_dirs v (t_os s3) = es' # es # up" "sent v s3 = sent v s2" "nblock s3 = nblock s2" "t_lines s3 = t_lines s2"
        "recs v s3 = recs v s2" using w2 r3 by (simp_all add: s3_def wrote_def sent_def recs_def)
      have "\<exists>s'. addtoar lib op ar k (file @ ''/'' @ nm) nm s = ret ((), s') \<and> wrote v op (flat (file @ ''/'' @ nm) t) s s'"
        if "(nm, t) \<in> set es'" "buf_ok s" "w_dirs v (t_os s) = es' # es # up" for nm t s
      proof (rule Suc.IH [OF _ that(2,3)])
        show "depth t \<le> k" using depth_child [OF that(1)] Suc.prems(1) TDir by (meson le_trans less_Suc_eq_le not_le)
        show "map_of es' nm = Some t" using that(1) d(2) by simp
        show "ok_name org nm" "ok_tree org t" using d(3) that(1) by auto
      qed
      from addentries_writes [where add = "addtoar lib op ar k" and l = es' and wd = "es' # es # up", OF this s3(1,2)] obtain s4 where
        s4: "addentries (addtoar lib op ar k) file (map fst es') s3 = ret ((), s4)"
          "wrote v op (concat (map (\<lambda>(nm, t). flat (file @ ''/'' @ nm) t) es')) s3 s4" by blast
      have wd4: "w_dirs v (t_os s4) = es' # es # up" using s4(2) s3(2) by (simp add: wrote_def)
      obtain r5 os5 where c5: "t_chdir lib ''..'' (t_os s4) = (r5, os5)" by fastforce
      have r5: "0 \<le> r5" "w_dirs v os5 = es # up" "w_out v os5 = w_out v (t_os s4)"
        using D wd4 c5 unfolding chdir_law_def by (metis fst_conv snd_conv)+
      have "addtreetoar lib (addtoar lib op ar k) file (open_name shortf) fd s1 = ret ((), s4\<lparr>t_os := os5\<rparr>)"
        using ents(1) False c3 r3(1) s4(1) c5 r5(1) by (simp add: addtreetoar_def Let_def s2_def s3_def)
      moreover have "wrote v op (flat file t) s (s4\<lparr>t_os := os5\<rparr>)"
      proof -
        obtain b1 b2 where "sent v s2 = sent v s @ b1" "stream (topts.truncate op) [(file, d, [])] b1"
          "sent v s4 = sent v s3 @ b2" "stream (topts.truncate op) (concat (map (\<lambda>(nm, t). flat (file @ ''/'' @ nm) t) es')) b2"
          using w2 s4(2) by (auto simp: wrote_def)
        then have b: "sent v s4 = sent v s @ b1 @ b2" "stream (topts.truncate op) (flat file t) (b1 @ b2)"
          using s3(3) stream_append [of _ "[(file, d, [])]"] TDir by auto
        moreover have "sent v (s4\<lparr>t_os := os5\<rparr>) = sent v s4" "recs v (s4\<lparr>t_os := os5\<rparr>) = recs v s4"
          using r5(3) by (simp_all add: sent_def recs_def)
        ultimately show ?thesis using w2 s4(2) s3 r5(2) Suc.prems(3) by (auto simp: wrote_def)
      qed
      ultimately show ?thesis using run by auto
    qed
  qed
qed

section \<open>The whole archive\<close>

text \<open>Arguments that name nothing are passed over; each is a name in the original directory.\<close>

definition members :: "(string \<times> tnode) list \<Rightarrow> string list \<Rightarrow> member list" where
  "members root argv = concat (map (\<lambda>f. case map_of root f of None \<Rightarrow> [] | Some t \<Rightarrow> flat f t) argv)"

definition ok_args :: "string \<Rightarrow> nat \<Rightarrow> (string \<times> tnode) list \<Rightarrow> string list \<Rightarrow> bool" where
  "ok_args org k root argv \<longleftrightarrow> 0 < k \<and> list_all (\<lambda>f. ok_name org f
     \<and> (case map_of root f of None \<Rightarrow> True | Some t \<Rightarrow> depth t \<le> k \<and> ok_tree org t)) argv"

lemma addtoar_missing:
  assumes "open_law lib v org ar" "w_dirs v (t_os s) = es # up" "map_of es f = None" "ok_name org f" "buf_ok s" "0 < k"
  shows "\<exists>s'. addtoar lib op ar k file f s = ret ((), s') \<and> wrote v op [] s s'"
proof -
  obtain fd os where o: "t_open lib (open_name f) OREAD (t_os s) = (fd, os)" by fastforce
  have l: "fd < 0" "w_out v os = w_out v (t_os s)" "w_dirs v os = w_dirs v (t_os s)"
    using assms(1) [unfolded open_law_def, rule_format, OF assms(2,4)] assms(3) o by simp_all
  obtain j where "k = Suc j" using assms(6) by (cases k) auto
  then have "addtoar lib op ar k file f s = ret ((), s\<lparr>t_os := os\<rparr>)" using o l(1) by (simp add: Let_def)
  then show ?thesis using l assms(5) by (simp add: wrote_def sent_def recs_def)
qed

lemma addall_writes:
  assumes laws: "src_laws lib v (origdir op) ar root" and op: "ok_opts op"
  shows "buf_ok s \<Longrightarrow> w_dirs v (t_os s) = [root] \<Longrightarrow> ok_args (origdir op) k root argv \<Longrightarrow>
    \<exists>s'. addall lib op ar k argv s = ret ((), s') \<and> wrote v op (members root argv) s s'"
proof (induction argv arbitrary: s)
  case Nil
  then show ?case by (simp add: wrote_def members_def)
next
  case (Cons f argv)
  have k: "0 < k" "ok_name (origdir op) f" "ok_args (origdir op) k root argv" using Cons.prems(3) by (auto simp: ok_args_def)
  obtain s1 where s1: "addtoar lib op ar k f f s = ret ((), s1)" "wrote v op (members root [f]) s s1"
  proof (cases "map_of root f")
    case None
    have "open_law lib v (origdir op) ar" using laws by (simp add: src_laws_def)
    from addtoar_missing [OF this Cons.prems(2) None k(2) Cons.prems(1) k(1), of op "f"] show ?thesis
      using that None by (auto simp: members_def)
  next
    case (Some t)
    then have "depth t \<le> k" "ok_tree (origdir op) t" using Cons.prems(3) by (auto simp: ok_args_def)
    from addtoar_writes [OF laws op this(1) Cons.prems(1,2) Some k(2) this(2), of f] show ?thesis
      using that Some by (auto simp: members_def)
  qed
  define s2 where "s2 = s1\<lparr>t_os := snd (t_chdir lib (origdir op) (t_os s1))\<rparr>"
  have dl: "w_out v (snd (t_chdir lib (origdir op) os)) = w_out v os" "w_dirs v (snd (t_chdir lib (origdir op) os)) = [root]" for os
    using laws by (auto simp: src_laws_def chdir_law_def)
  have w2: "wrote v op (members root [f]) s s2" unfolding s2_def
    using s1(2) dl Cons.prems(2) by (intro wrote_os) (auto simp: wrote_def)
  have "buf_ok s2" "w_dirs v (t_os s2) = [root]" using w2 Cons.prems(2) by (auto simp: wrote_def)
  from Cons.IH [OF this k(3)] obtain s3 where s3: "addall lib op ar k argv s2 = ret ((), s3)" "wrote v op (members root argv) s2 s3" by blast
  have "wrote v op (members root (f # argv)) s s3" using wrote_trans [OF w2 s3(2)] by (simp add: members_def)
  then show ?case using s1(1) s3(1) by (auto simp: s2_def)
qed

lemma put_tail: "length h \<le> k + length bs \<Longrightarrow> put k bs h = take k h @ bs"
  by (simp add: put_def)

text \<open>Two empty blocks, and the rest of the last record empty.\<close>

lemma put_end_writes:
  assumes "write_law lib v ar" "buf_ok s"
  shows "\<exists>s' m. put_end lib ar s = ret ((), s') \<and> w_out v (t_os s') = sent v s @ replicate m NUL \<and> 1024 \<le> m
    \<and> t_lines s' = t_lines s \<and> length (w_out v (t_os s')) mod (512 * nblock s) = recs v s"
proof -
  have g: "snd (getblkz s) = s\<lparr>tpblk := put (at s * 512) zblock (tpblk s), curblk := Some (at s + 1)\<rparr>" for s :: "'a tar"
    by (simp add: getblkz_def getblke_at Let_def Tblock_def curblk_tpblk)
  from put_blocks [OF assms, of zblock 1] at_less [OF assms(2)] obtain s1 where
    s1: "putblk lib ar (snd (getblkz s)) = ret ((), s1)" "buf_ok s1" "nblock s1 = nblock s" "sent v s1 = sent v s @ zblock" "t_lines s1 = t_lines s"
      "recs v s1 = recs v s"
    by (auto simp: g)
  define s2 where "s2 = snd (getblkz s1)"
  have s2: "cur s2 = at s1 + 1" "nblock s2 = nblock s1" "tpblk s2 = put (at s1 * 512) zblock (tpblk s1)" "t_os s2 = t_os s1" "t_lines s2 = t_lines s"
    by (simp_all add: s2_def g cur_def s1(5))
  have a: "at s1 < nblock s1" "length (tpblk s1) = 512 * nblock s1" using s1(2) at_less [OF s1(2)] by (auto simp: buf_ok_def)
  define n where "n = nblock s1 - at s1 - 1"
  define t where "t = (if cur s2 < nblock s2 then put (cur s2 * 512) (replicate ((nblock s2 - cur s2) * 512) NUL) (tpblk s2) else tpblk s2)"
  have z: "put (at s1 * 512) zblock (tpblk s1) = take (at s1 * 512) (tpblk s1) @ zblock @ drop (at s1 * 512 + 512) (tpblk s1)"
    by (simp add: put_def)
  have t: "t = take (at s1 * 512) (tpblk s1) @ zblock @ replicate (512 * n) NUL"
  proof (cases "cur s2 < nblock s2")
    case True
    then have "t = take (at s1 * 512 + 512) (put (at s1 * 512) zblock (tpblk s1)) @ replicate (512 * n) NUL"
      using a put_tail [of "put (at s1 * 512) zblock (tpblk s1)" "at s1 * 512 + 512" "replicate (512 * n) NUL"]
      by (simp add: t_def s2 n_def algebra_simps length_put)
    also have "take (at s1 * 512 + 512) (put (at s1 * 512) zblock (tpblk s1)) = take (at s1 * 512) (tpblk s1) @ zblock"
      using put_prefix [of "at s1 * 512" zblock "tpblk s1"] a by simp
    finally show ?thesis by simp
  next
    case False
    then have "n = 0" "drop (at s1 * 512 + 512) (tpblk s1) = []" using a s2 by (auto simp: n_def)
    then show ?thesis using False by (simp add: t_def s2(3) z)
  qed
  have lt: "length t = 512 * nblock s1" using a by (simp add: t n_def)
  obtain r os where w: "t_write lib ar t (t_os s1) = (r, os)" by fastforce
  have law: "r = int (512 * nblock s1)" "w_out v os = w_out v (t_os s1) @ t"
    using assms(1) [unfolded write_law_def, rule_format, of t "t_os s1"] w lt by simp_all
  have "putlastblk lib ar s2 = ret ((), s2\<lparr>tpblk := t, t_os := os\<rparr>)"
  proof -
    have "(if cur s2 < nblock s2 then s2\<lparr>tpblk := put (cur s2 * 512) (replicate ((nblock s2 - cur s2) * 512) NUL) (tpblk s2)\<rparr> else s2)
      = s2\<lparr>tpblk := t\<rparr>" by (simp add: t_def)
    then show ?thesis using w law(1) lt s2(2,4) by (simp add: putlastblk_def Let_def Tblock_def split del: if_split cong: if_cong)
  qed
  then have "put_end lib ar s = ret ((), s2\<lparr>tpblk := t, t_os := os\<rparr>)" using s1(1) by (simp add: put_end_def s2_def)
  moreover have "zblock @ zblock @ replicate (512 * n) NUL = replicate (1024 + 512 * n) NUL"
    by (simp add: zblock_def Tblock_def flip: replicate_add)
  then have "w_out v os = sent v s @ replicate (1024 + 512 * n) NUL"
    using law(2) s1(4) by (simp only: t sent_def [of v s1] append_assoc [symmetric]) simp
  moreover have "length (w_out v os) mod (512 * nblock s) = recs v s"
    using law(2) lt s1(3,6) by (simp add: recs_def)
  ultimately show ?thesis using s2(5) by (intro exI [where x = "s2\<lparr>tpblk := t, t_os := os\<rparr>"] exI [where x = "1024 + 512 * n"]) simp
qed

text \<open>\<open>replace\<close> on a new archive that is not compressed.\<close>

lemma replace_writes:
  assumes "src_laws lib v (origdir op) ar root" "ok_opts op" "ok_args (origdir op) k root argv"
    and "usefile op = None \<and> ar = 1 \<and> os' = os
      \<or> (\<exists>f. usefile op = Some f \<and> docreate op \<and> \<not> docompress op \<and> t_create lib f OWRITE 0x1B6 os = (ar, os') \<and> 0 \<le> ar)"
    and "w_out v os' = []" "w_dirs v os' = [root]"
  shows "\<exists>s' bs m. replace lib op k argv (initblks os) = ret ([], s')
    \<and> w_out v (t_os s') = bs @ replicate m NUL \<and> stream (topts.truncate op) (members root argv) bs
    \<and> 1024 \<le> m \<and> 10240 dvd length bs + m"
proof -
  define s where "s = initblks os'"
  have s: "buf_ok s" "w_dirs v (t_os s) = [root]" "sent v s = []" "recs v s = 0" "nblock s = 20"
    using assms(5,6) by (simp_all add: s_def initblks_def buf_ok_def cur_def sent_def at_def used_up_def recs_def Tblock_def Dblock_def)
  obtain s1 where s1: "addall lib op ar k argv s = ret ((), s1)" "wrote v op (members root argv) s s1"
    using addall_writes [OF assms(1,2) s(1,2) assms(3)] by blast
  then obtain bs where bs: "sent v s1 = bs" "stream (topts.truncate op) (members root argv) bs" "buf_ok s1" "nblock s1 = 20" "recs v s1 = 0"
    using s by (auto simp: wrote_def)
  have "write_law lib v ar" using assms(1) by (simp add: src_laws_def)
  from put_end_writes [OF this bs(3)] obtain s2 m where
    s2: "put_end lib ar s1 = ret ((), s2)" "w_out v (t_os s2) = bs @ replicate m NUL" "1024 \<le> m"
      "length (w_out v (t_os s2)) mod (512 * nblock s1) = recs v s1"
    unfolding bs(1) by blast
  have d: "10240 dvd length bs + m" using s2(2,4) bs(4,5) by (simp add: dvd_eq_mod_eq_0)
  have "replace lib op k argv (initblks os) = ret ([], if 2 < ar then s2\<lparr>t_os := t_close lib ar (t_os s2)\<rparr> else s2)"
    using assms(4) s1(1) s2(1) by (auto simp: replace_def Let_def s_def initblks_def)
  moreover have "w_out v (t_os (if 2 < ar then s2\<lparr>t_os := t_close lib ar (t_os s2)\<rparr> else s2)) = bs @ replicate m NUL"
    using s2(2) assms(1) by (simp add: src_laws_def close_law_def)
  ultimately show ?thesis using bs(2) s2(3) d by blast
qed

end
