(* ===== verification/TarRead.thy ===== *)
theory TarRead
  imports TarWrite
begin

text \<open>
  What \<open>tar_extract\<close> makes of an archive that \<open>replace\<close> has written and that it reads from its standard input: the files
  and directories in the order of the archive. What can be seen of the system's state is the rest of the input,
  the files that have been made with what is in them, and which one a descriptor stands for.
\<close>

section \<open>The laws of the system\<close>

record 'os rviews =
  r_in :: "'os \<Rightarrow> string"
  r_made :: "'os \<Rightarrow> (string \<times> u32 \<times> string) list"
  r_at :: "int \<Rightarrow> 'os \<Rightarrow> nat option"

definition same_made :: "'os rviews \<Rightarrow> 'os \<Rightarrow> 'os \<Rightarrow> bool" where
  "same_made v os os' \<longleftrightarrow> r_made v os' = r_made v os \<and> (\<forall>fd. r_at v fd os' = r_at v fd os)"

text \<open>The standard input cannot seek.\<close>

definition input_law :: "'os tlib \<Rightarrow> 'os rviews \<Rightarrow> bool" where
  "input_law lib v \<longleftrightarrow>
     (\<forall>os off wh. let (r, os') = t_seek lib 0 off wh os in r < 0 \<and> r_in v os' = r_in v os \<and> same_made v os os')
     \<and> (\<forall>os n. let (r, os') = t_readn lib 0 n os; bs = take n (r_in v os)
          in r = (int (length bs), bs) \<and> r_in v os' = drop n (r_in v os) \<and> same_made v os os')"

definition make_law :: "'os tlib \<Rightarrow> 'os rviews \<Rightarrow> bool" where
  "make_law lib v \<longleftrightarrow>
     (\<forall>os f rw mode. let (fd, os') = t_create lib f rw mode os
        in 0 < fd \<and> r_in v os' = r_in v os \<and> r_made v os' = r_made v os @ [(f, mode, [])] \<and> r_at v fd os' = Some (length (r_made v os)))
     \<and> (\<forall>os fd bs i f mode c. r_at v fd os = Some i \<longrightarrow> i < length (r_made v os) \<longrightarrow> r_made v os ! i = (f, mode, c) \<longrightarrow>
          (let (n, os') = t_write lib fd bs os
           in n = int (length bs) \<and> r_in v os' = r_in v os \<and> r_made v os' = (r_made v os) [i := (f, mode, c @ bs)]
              \<and> r_at v fd os' = Some i))
     \<and> (\<forall>os fd. r_in v (t_close lib fd os) = r_in v os \<and> r_made v (t_close lib fd os) = r_made v os)
     \<and> (\<forall>os fd m g. r_in v (t_wstat lib fd m g os) = r_in v os \<and> r_made v (t_wstat lib fd m g os) = r_made v os)"

section \<open>The bytes that are still to come\<close>

definition left :: "'os rviews \<Rightarrow> 'os tar \<Rightarrow> string" where
  "left v s = (if used_up s then [] else drop (cur s * 512) (tpblk s)) @ r_in v (t_os s)"

definition rd_ok :: "'os rviews \<Rightarrow> 'os tar \<Rightarrow> bool" where
  "rd_ok v s \<longleftrightarrow> buf_ok s \<and> \<not> rf_done s \<and> 512 * nblock s dvd length (r_in v (t_os s)) \<and> (rf_first s \<or> \<not> rf_seekable s)"

text \<open>A step that makes nothing.\<close>

definition idle :: "'os rviews \<Rightarrow> 'os tar \<Rightarrow> 'os tar \<Rightarrow> bool" where
  "idle v s s' \<longleftrightarrow> rd_ok v s' \<and> same_made v (t_os s) (t_os s') \<and> t_lines s' = t_lines s"

lemma idle_trans: "idle v s s' \<Longrightarrow> idle v s' s'' \<Longrightarrow> idle v s s''"
  by (simp add: idle_def same_made_def)

lemma refill_reads:
  assumes "input_law lib v" "usefile op = None" "rd_ok v s" "r_in v (t_os s) \<noteq> []"
  shows "\<exists>s'. refill lib op 0 jh s = ret (True, s') \<and> idle v s s' \<and> nblock s' = nblock s
    \<and> tpblk s' = take (512 * nblock s) (r_in v (t_os s)) \<and> r_in v (t_os s') = drop (512 * nblock s) (r_in v (t_os s))"
proof -
  define n where "n = 512 * nblock s"
  have n: "0 < n" "length (tpblk s) = n" "n dvd length (r_in v (t_os s))" "\<not> rf_done s" "cur s \<le> nblock s"
    using assms(3) by (auto simp: rd_ok_def buf_ok_def n_def)
  then have le: "n \<le> length (r_in v (t_os s))" using assms(4) by (auto intro: dvd_imp_le)
  have sk: "fst (t_seek lib 0 a b os) < 0 \<and> r_in v (snd (t_seek lib 0 a b os)) = r_in v os \<and> same_made v os (snd (t_seek lib 0 a b os))" for a b os
    using assms(1) unfolding input_law_def by (metis (mono_tags, lifting) case_prod_unfold)
  obtain r0 o0 where e0: "t_seek lib 0 0 1 (t_os s) = (r0, o0)" by fastforce
  define os1 where "os1 = (if rf_first s then o0 else t_os s)"
  obtain r1 os2 where e1: "t_seek lib 0 0 1 os1 = (r1, os2)" by fastforce
  have neg: "r0 < 0" using sk [of 0 1 "t_os s"] e0 by simp
  have os2: "r_in v os2 = r_in v (t_os s)" "same_made v (t_os s) os2"
    using sk [of 0 1 "t_os s"] sk [of 0 1 os1] e0 e1 by (auto simp: os1_def same_made_def split: if_splits)
  obtain r os3 where rd: "t_readn lib 0 n os2 = (r, os3)" by fastforce
  have r: "r = (int n, take n (r_in v (t_os s)))" "r_in v os3 = drop n (r_in v (t_os s))" "same_made v os2 os3"
    using assms(1) [unfolded input_law_def, THEN conjunct2, rule_format, of n os2] rd os2(1) le by (simp_all add: Let_def)
  define s' where "s' = s\<lparr>t_os := os3, rf_seekable := False, blkoff := r1, rf_first := False,
    tpblk := take n (r_in v (t_os s))\<rparr>"
  have b: "put 0 (take n (r_in v (t_os s))) (tpblk s) = take n (r_in v (t_os s))" using n(2) le by (simp add: put_def)
  have sk0: "rf_first s \<or> \<not> rf_seekable s" using assms(3) by (simp add: rd_ok_def)
  have fin: "refill_end (int n) n t = ret (True, t)" for t :: "'a tar"
    using n(1) by (simp add: refill_end_def n_def Tblock_def del: of_nat_mult)
  have "refill lib op 0 jh s = ret (True, s')"
  proof (cases "rf_first s")
    case True
    then show ?thesis using n(4) e0 e1 neg rd r(1) assms(2) b
      by (simp add: refill_def Let_def Tblock_def n_def [symmetric] os1_def set_buf_def fin s'_def)
  next
    case False
    then show ?thesis using n(4) sk0 e1 rd r(1) assms(2) b
      by (simp add: refill_def Let_def Tblock_def n_def [symmetric] os1_def set_buf_def fin s'_def)
  qed
  moreover have "idle v s s'"
  proof -
    have "n dvd length (r_in v os3)" using n(3) le r(2) by (simp add: dvd_diff_nat)
    then show ?thesis
      using n le assms(3) r(3) os2(2) by (simp add: idle_def rd_ok_def s'_def buf_ok_def cur_def same_made_def n_def [symmetric])
  qed
  ultimately show ?thesis using r(2) by (auto simp: s'_def n_def)
qed

text \<open>A block is got: what follows it in the buffer and in the input is what was to come.\<close>

lemma getblkrd_reads:
  assumes "input_law lib v" "usefile op = None" "rd_ok v s" "left v s \<noteq> []"
  shows "\<exists>i s'. getblkrd lib op 0 jh s = ret (Some i, s') \<and> idle v s s' \<and> curblk s' = Some (i + 1) \<and> i < nblock s'
    \<and> drop (i * 512) (tpblk s') @ r_in v (t_os s') = left v s"
proof (cases "used_up s")
  case True
  then have "r_in v (t_os s) \<noteq> []" using assms(4) by (simp add: left_def)
  from refill_reads [OF assms(1,2,3) this] obtain s' where
    s': "refill lib op 0 jh s = ret (True, s')" "idle v s s'" "nblock s' = nblock s" "tpblk s' = take (512 * nblock s) (r_in v (t_os s))"
      "r_in v (t_os s') = drop (512 * nblock s) (r_in v (t_os s))" by blast
  have "idle v s (s'\<lparr>curblk := Some 1\<rparr>)" using s'(2,3) assms(3) by (simp add: idle_def rd_ok_def buf_ok_def cur_def)
  then show ?thesis using True s' assms(3)
    by (intro exI [where x = 0] exI [where x = "s'\<lparr>curblk := Some 1\<rparr>"]) (simp add: getblkrd_def left_def rd_ok_def buf_ok_def)
next
  case False
  then obtain c where c: "curblk s = Some c" "c < nblock s" by (auto simp: used_up_def split: option.splits)
  have "idle v s (s\<lparr>curblk := Some (c + 1)\<rparr>)" using assms(3) c by (simp add: idle_def rd_ok_def buf_ok_def cur_def same_made_def)
  then show ?thesis using False c
    by (intro exI [where x = c] exI [where x = "s\<lparr>curblk := Some (c + 1)\<rparr>"]) (simp add: getblkrd_def left_def cur_def)
qed

text \<open>Then \<open>b\<close> blocks are used.\<close>

lemma putreadblks_left:
  assumes "rd_ok v s" "curblk s = Some (i + 1)" "0 < b" "i + b \<le> nblock s"
  shows "left v (putreadblks b s) = drop (b * 512) (drop (i * 512) (tpblk s) @ r_in v (t_os s))" "idle v s (putreadblks b s)"
proof -
  have l: "length (tpblk s) = 512 * nblock s" using assms(1) by (simp add: rd_ok_def buf_ok_def)
  have c: "curblk (putreadblks b s) = Some (i + b)" using assms(2,3) by (simp add: putreadblks_def cur_def)
  have o: "t_os (putreadblks b s) = t_os s" "tpblk (putreadblks b s) = tpblk s" "nblock (putreadblks b s) = nblock s"
    by (simp_all add: putreadblks_def)
  show "left v (putreadblks b s) = drop (b * 512) (drop (i * 512) (tpblk s) @ r_in v (t_os s))"
  proof (cases "i + b = nblock s")
    case True
    then have "length (drop (i * 512) (tpblk s)) = b * 512" using l by (simp add: algebra_simps flip: True)
    then show ?thesis using True by (simp add: left_def used_up_def c o)
  next
    case False
    then have "\<not> nblock s \<le> i + b" "b * 512 \<le> length (drop (i * 512) (tpblk s))" using assms(4) l by auto
    then show ?thesis by (simp add: left_def used_up_def c o cur_def algebra_simps)
  qed
  show "idle v s (putreadblks b s)"
    using assms by (simp add: idle_def rd_ok_def buf_ok_def c o cur_def same_made_def) (simp add: putreadblks_def)
qed

lemma getblk_single: "curblk s = Some (i + 1) \<Longrightarrow> putreadblks 1 s = s"
  by (simp add: putreadblks_def cur_def)

lemma rd_many: "curblk s = Some (i + 1) \<Longrightarrow> gothowmany n s = min n (nblock s - i)"
  by (simp add: gothowmany_def cur_def)

lemma run_bytes: "i * 512 + n \<le> length t \<Longrightarrow> take n (drop (i * 512) t @ r) = fld (i * 512) n t"
  by (simp add: fld_def)

section \<open>Skipping and copying\<close>

lemma skip_loop_reads:
  assumes "input_law lib v" "usefile op = None"
  shows "rd_ok v s \<Longrightarrow> n \<le> k \<Longrightarrow> n < 2147483648 \<Longrightarrow> 512 * n \<le> length (left v s) \<Longrightarrow>
    \<exists>s'. skip_loop lib op 0 k n s = ret (True, s') \<and> idle v s s' \<and> left v s' = drop (512 * n) (left v s)"
proof (induction k arbitrary: n s)
  case 0
  then show ?case by (simp add: idle_def same_made_def)
next
  case (Suc k)
  show ?case
  proof (cases "n = 0")
    case True
    then show ?thesis using Suc.prems(1) by (simp add: idle_def same_made_def)
  next
    case False
    then have "left v s \<noteq> []" using Suc.prems(4) by auto
    from getblkrd_reads [OF assms Suc.prems(1) this, of True] obtain i s1 where
      s1: "getblkrd lib op 0 True s = ret (Some i, s1)" "idle v s s1" "curblk s1 = Some (i + 1)" "i < nblock s1"
        "drop (i * 512) (tpblk s1) @ r_in v (t_os s1) = left v s" by blast
    define b where "b = min n (nblock s1 - i)"
    have b: "0 < b" "i + b \<le> nblock s1" "b \<le> n" using False s1(4) by (auto simp: b_def)
    have "rd_ok v s1" using s1(2) by (simp add: idle_def)
    note p = putreadblks_left [OF this s1(3) b(1,2), unfolded s1(5)]
    have "rd_ok v (putreadblks b s1)" using p(2) by (simp add: idle_def)
    have q: "n - b \<le> k" "n - b < 2147483648" "512 * (n - b) \<le> length (left v (putreadblks b s1))"
      using p(1) b Suc.prems(2-4) by auto
    obtain s2 where
      s2: "skip_loop lib op 0 k (n - b) (putreadblks b s1) = ret (True, s2)" "idle v (putreadblks b s1) s2"
        "left v s2 = drop (512 * (n - b)) (drop (b * 512) (left v s))"
      using Suc.IH [OF \<open>rd_ok v (putreadblks b s1)\<close> q] p(1) by auto
    have "skip_loop lib op 0 (Suc k) n s = ret (True, s2)"
      using False s1(1) rd_many [OF s1(3)] s2(1) Suc.prems(3) by (simp add: b_def too_many_def Let_def)
    moreover have "512 * (n - b) + b * 512 = 512 * n" using b(3) by (simp add: algebra_simps)
    then have "left v s2 = drop (512 * n) (left v s)" using s2(3) by (simp add: add.commute)
    ultimately show ?thesis using idle_trans [OF s1(2) idle_trans [OF p(2) s2(2)]] by blast
  qed
qed

text \<open>The same without a file to write to, and with one: \<open>c\<close> is what is left of it.\<close>

lemma copy_loop_idle:
  assumes "input_law lib v" "usefile op = None" "fd < 0"
  shows "rd_ok v s \<Longrightarrow> n \<le> k \<Longrightarrow> n < 2147483648 \<Longrightarrow> 512 * n \<le> length (left v s) \<Longrightarrow>
    \<exists>s' m. copy_loop lib op 0 fd fname k n bytes s = ret (m, s') \<and> idle v s s' \<and> left v s' = drop (512 * n) (left v s)"
proof (induction k arbitrary: n bytes s)
  case 0
  then show ?case by (simp add: idle_def same_made_def)
next
  case (Suc k)
  show ?case
  proof (cases "n = 0")
    case True
    then show ?thesis using Suc.prems(1) by (simp add: idle_def same_made_def)
  next
    case False
    then have "left v s \<noteq> []" using Suc.prems(4) by auto
    from getblkrd_reads [OF assms(1,2) Suc.prems(1) this, of True] obtain i s1 where
      s1: "getblkrd lib op 0 True s = ret (Some i, s1)" "idle v s s1" "curblk s1 = Some (i + 1)" "i < nblock s1"
        "drop (i * 512) (tpblk s1) @ r_in v (t_os s1) = left v s" by blast
    define b where "b = min n (nblock s1 - i)"
    have b: "0 < b" "i + b \<le> nblock s1" "b \<le> n" using False s1(4) by (auto simp: b_def)
    have "rd_ok v s1" using s1(2) by (simp add: idle_def)
    note p = putreadblks_left [OF this s1(3) b(1,2), unfolded s1(5)]
    have "rd_ok v (putreadblks b s1)" using p(2) by (simp add: idle_def)
    have q: "n - b \<le> k" "n - b < 2147483648" "512 * (n - b) \<le> length (left v (putreadblks b s1))"
      using p(1) b Suc.prems(2-4) by auto
    obtain s2 m where
      s2: "copy_loop lib op 0 fd fname k (n - b) (bytes - min (int (512 * b)) bytes) (putreadblks b s1) = ret (m, s2)"
        "idle v (putreadblks b s1) s2" "left v s2 = drop (512 * (n - b)) (drop (b * 512) (left v s))"
      using Suc.IH [OF \<open>rd_ok v (putreadblks b s1)\<close> q] p(1) by metis
    have "copy_loop lib op 0 fd fname (Suc k) n bytes s = ret (m, s2)"
      using False s1(1) rd_many [OF s1(3)] s2(1) Suc.prems(3) assms(3) by (simp add: b_def too_many_def Let_def Tblock_def)
    moreover have "512 * (n - b) + b * 512 = 512 * n" using b(3) by (simp add: algebra_simps)
    then have "left v s2 = drop (512 * n) (left v s)" using s2(3) by (simp add: add.commute)
    ultimately show ?thesis using idle_trans [OF s1(2) idle_trans [OF p(2) s2(2)]] by blast
  qed
qed

lemma same_entry: "xs ! j = y \<Longrightarrow> xs [j := y] = xs"
  by (metis list_update_id)

lemma copy_loop_step:
  assumes "getblkrd lib op ar (fd < 0) s = ret (Some i, s1)" "n \<noteq> 0" "n < 2147483648" "gothowmany n s1 = b"
    "min (int (Tblock * b)) bytes = int w" "0 < fd" "t_write lib fd (fld (i * Tblock) w (tpblk s1)) (t_os s1) = (int w, os')"
  shows "copy_loop lib op ar fd fname (Suc k) n bytes s =
    copy_loop lib op ar fd fname k (n - b) (bytes - int w) (putreadblks b (s1\<lparr>t_os := os'\<rparr>))"
  by (subst copy_loop.simps(2)) (use assms in \<open>simp add: too_many_def Let_def\<close>)

lemma copy_loop_copies:
  assumes "input_law lib v" "make_law lib v" "usefile op = None" "0 < fd"
  shows "rd_ok v s \<Longrightarrow> n \<le> k \<Longrightarrow> n < 2147483648 \<Longrightarrow> 512 * n \<le> length (left v s) \<Longrightarrow> length c \<le> 512 * n \<Longrightarrow>
    take (length c) (left v s) = c \<Longrightarrow> r_at v fd (t_os s) = Some j \<Longrightarrow> j < length (r_made v (t_os s)) \<Longrightarrow> r_made v (t_os s) ! j = (f, mode, x) \<Longrightarrow>
    \<exists>s' m. copy_loop lib op 0 fd fname k n (int (length c)) s = ret (m, s') \<and> rd_ok v s' \<and> t_lines s' = t_lines s
      \<and> left v s' = drop (512 * n) (left v s) \<and> r_made v (t_os s') = (r_made v (t_os s)) [j := (f, mode, x @ c)]"
proof (induction k arbitrary: n c x s)
  case 0
  then show ?case by (simp add: same_entry)
next
  case (Suc k)
  show ?case
  proof (cases "n = 0")
    case True
    then show ?thesis using Suc.prems by (simp add: same_entry)
  next
    case False
    then have "left v s \<noteq> []" using Suc.prems(4) by auto
    from getblkrd_reads [OF assms(1,3) Suc.prems(1) this, of False] obtain i s1 where
      s1: "getblkrd lib op 0 False s = ret (Some i, s1)" "idle v s s1" "curblk s1 = Some (i + 1)" "i < nblock s1"
        "drop (i * 512) (tpblk s1) @ r_in v (t_os s1) = left v s" by blast
    define b where "b = min n (nblock s1 - i)"
    have b: "0 < b" "i + b \<le> nblock s1" "b \<le> n" using False s1(4) by (auto simp: b_def)
    have ok1: "rd_ok v s1" using s1(2) by (simp add: idle_def)
    define w where "w = min (512 * b) (length c)"
    have w: "min (int (512 * b)) (int (length c)) = int w" by (simp add: w_def min_def)
    have "i * 512 + w \<le> length (tpblk s1)" using ok1 b(2) by (simp add: rd_ok_def buf_ok_def w_def)
    from run_bytes [OF this] have "fld (i * 512) w (tpblk s1) = take w (left v s)" unfolding s1(5) [symmetric] by simp
    also have "\<dots> = take w c" using Suc.prems(6) by (metis min.cobounded2 min_def take_take w_def)
    finally have d: "fld (i * 512) w (tpblk s1) = take w c" .
    obtain r os' where wr: "t_write lib fd (take w c) (t_os s1) = (r, os')" by fastforce
    have at1: "r_at v fd (t_os s1) = Some j" "j < length (r_made v (t_os s1))" "r_made v (t_os s1) ! j = (f, mode, x)"
      using s1(2) Suc.prems(7-9) by (auto simp: idle_def same_made_def)
    have law: "r = int w" "r_in v os' = r_in v (t_os s1)" "r_made v os' = (r_made v (t_os s1)) [j := (f, mode, x @ take w c)]" "r_at v fd os' = Some j"
      using assms(2) [unfolded make_law_def, THEN conjunct2, THEN conjunct1, rule_format, OF at1, of "take w c"] wr by (simp_all add: w_def)
    define s2 where "s2 = s1\<lparr>t_os := os'\<rparr>"
    have ok2: "rd_ok v s2" "curblk s2 = Some (i + 1)" "nblock s2 = nblock s1" "tpblk s2 = tpblk s1" "t_lines s2 = t_lines s" "t_os s2 = os'"
      using ok1 law(2) s1(2,3) by (simp_all add: s2_def rd_ok_def idle_def)
    note p = putreadblks_left [OF ok2(1,2) b(1), unfolded ok2, OF b(2), unfolded law(2) s1(5)]
    have s3: "rd_ok v (putreadblks b s2)" "same_made v os' (t_os (putreadblks b s2))" "t_lines (putreadblks b s2) = t_lines s"
      using p(2) ok2(5,6) by (auto simp: idle_def)
    have q: "n - b \<le> k" "n - b < 2147483648" "512 * (n - b) \<le> length (left v (putreadblks b s2))" "length (drop w c) \<le> 512 * (n - b)"
      using p(1) b Suc.prems(2-5) by (auto simp: w_def)
    have t: "take (length (drop w c)) (left v (putreadblks b s2)) = drop w c"
    proof (cases "512 * b \<le> length c")
      case True
      then have "w = b * 512" by (simp add: w_def)
      then show ?thesis using Suc.prems(6) unfolding p(1) by (metis drop_take length_drop)
    qed (simp add: w_def)
    have at3: "r_at v fd (t_os (putreadblks b s2)) = Some j" "j < length (r_made v (t_os (putreadblks b s2)))"
      "r_made v (t_os (putreadblks b s2)) ! j = (f, mode, x @ take w c)"
      using s3(2) law(3,4) at1(2) by (auto simp: same_made_def)
    obtain s4 m where
      s4: "copy_loop lib op 0 fd fname k (n - b) (int (length (drop w c))) (putreadblks b s2) = ret (m, s4)" "rd_ok v s4"
        "t_lines s4 = t_lines s" "left v s4 = drop (512 * (n - b)) (drop (b * 512) (left v s))"
        "r_made v (t_os s4) = (r_made v (t_os (putreadblks b s2))) [j := (f, mode, (x @ take w c) @ drop w c)]"
      using Suc.IH [OF s3(1) q t at3] unfolding p(1) s3(3) by blast
    have bytes: "int (length c) - int w = int (length (drop w c))" by (simp add: w_def)
    have "copy_loop lib op 0 fd fname (Suc k) n (int (length c)) s = copy_loop lib op 0 fd fname k (n - b) (int (length c) - int w) (putreadblks b s2)"
      unfolding s2_def
    proof (rule copy_loop_step)
      show "getblkrd lib op 0 (fd < 0) s = ret (Some i, s1)" using s1(1) assms(4) by simp
      show "gothowmany n s1 = b" by (simp add: rd_many [OF s1(3)] b_def)
      show "min (int (Tblock * b)) (int (length c)) = int w" using w by (simp add: Tblock_def)
      show "t_write lib fd (fld (i * Tblock) w (tpblk s1)) (t_os s1) = (int w, os')" using wr law(1) d by (simp add: Tblock_def)
    qed (use False Suc.prems(3) assms(4) in auto)
    then have "copy_loop lib op 0 fd fname (Suc k) n (int (length c)) s = ret (m, s4)" by (simp only: bytes s4(1))
    moreover have "512 * (n - b) + b * 512 = 512 * n" using b(3) by (simp add: algebra_simps)
    then have "left v s4 = drop (512 * n) (left v s)" using s4(4) by (simp add: add.commute)
    moreover have "r_made v (t_os s4) = (r_made v (t_os s)) [j := (f, mode, x @ c)]"
      using s4(5) s3(2) law(3) s1(2) by (simp add: same_made_def idle_def)
    ultimately show ?thesis using s4(2,3) by blast
  qed
qed

section \<open>Headers\<close>

lemma left_upd [simp]: "left v (s\<lparr>nexthdr := x\<rparr>) = left v s" "left v (s\<lparr>t_lines := l\<rparr>) = left v s"
  "rd_ok v (s\<lparr>nexthdr := x\<rparr>) = rd_ok v s" "rd_ok v (s\<lparr>t_lines := l\<rparr>) = rd_ok v s"
  by (auto simp: left_def rd_ok_def buf_ok_def cur_def used_up_def split: option.splits)

lemma blk_upd [simp]: "blk (s\<lparr>nexthdr := x\<rparr>) i = blk s i" "blk (s\<lparr>t_lines := l\<rparr>) i = blk s i"
  by (simp_all add: blk_def)

text \<open>A member of an archive that can be read back; what it becomes.\<close>

definition member_ok :: "topts \<Rightarrow> member \<Rightarrow> bool" where
  "member_ok wop m \<longleftrightarrow> (case m of (f, d, c) \<Rightarrow>
     hdr_ok wop d f \<and> (if td_dir d then c = [] else td_len d = length c \<and> length c < 2 ^ 39))"

definition member_mode :: "tardir \<Rightarrow> u32" where
  "member_mode d = (if td_dir d then (td_mode d AND 0x1FF) OR 0x800001C0 else td_mode d AND 0x1FF)"

definition extracted :: "'os tlib \<Rightarrow> tarop \<Rightarrow> member \<Rightarrow> string \<times> u32 \<times> string" where
  "extracted lib op m = (case m of (f, d, c) \<Rightarrow> (member_name lib op (stored_name d f), member_mode d, c))"

definition listed :: "'os tlib \<Rightarrow> tarop \<Rightarrow> member \<Rightarrow> string" where
  "listed lib op m = (case m of (f, d, c) \<Rightarrow>
     let nm = member_name lib op (stored_name d f)
     in if verbose op then t_longline lib (member_mode d) (int (td_len d)) (min (int (unat (td_mtime d))) 2147483647) nm else nm)"

lemma getblk_block:
  assumes "input_law lib v" "usefile op = None" "rd_ok v s" "left v s = h @ rest" "length h = 512"
  shows "\<exists>i s'. getblkrd lib op 0 jh s = ret (Some i, s') \<and> idle v s s' \<and> curblk s' = Some (i + 1) \<and> i < nblock s'
    \<and> blk s' i = h \<and> left v s' = rest"
proof -
  have "left v s \<noteq> []" using assms(4,5) by auto
  from getblkrd_reads [OF assms(1-3) this] obtain i s' where
    s': "getblkrd lib op 0 jh s = ret (Some i, s')" "idle v s s'" "curblk s' = Some (i + 1)" "i < nblock s'"
      "drop (i * 512) (tpblk s') @ r_in v (t_os s') = h @ rest" using assms(4) by metis
  have ok: "rd_ok v s'" using s'(2) by (simp add: idle_def)
  have "left v (putreadblks 1 s') = drop (1 * 512) (h @ rest)"
    using putreadblks_left(1) [OF ok s'(3), of 1] s'(4) unfolding s'(5) by simp
  then have "left v s' = rest" using getblk_single [OF s'(3)] assms(5) by simp
  moreover have "blk s' i = h"
    using run_bytes [of i 512 "tpblk s'" "r_in v (t_os s')"] ok s'(4) assms(5) unfolding s'(5)
    by (simp add: blk_def Tblock_def rd_ok_def buf_ok_def)
  ultimately show ?thesis using s' by blast
qed

lemma eotar_zblock: "eotar zblock"
proof -
  have "fld 0 100 zblock = replicate 100 NUL" "zblock ! 345 = NUL" using fld_zblock [of 0 100] by (auto simp: zblock_def Tblock_def)
  then show ?thesis by (simp add: eotar_def name_def Let_def hdr_offsets tar_sstrnlen_def cstr_def)
qed

lemma readhdr_end:
  assumes "input_law lib v" "usefile op = None" "rd_ok v s" "left v s = replicate m NUL" "512 \<le> m"
  shows "\<exists>s'. readhdr lib op 0 s = ret (None, s') \<and> idle v s s'"
proof -
  have "left v s = zblock @ replicate (m - 512) NUL"
    using assms(4,5) by (simp add: zblock_def Tblock_def flip: replicate_add)
  from getblk_block [OF assms(1-3) this zblock_length, of False] show ?thesis
    using eotar_zblock by (auto simp: readhdr_def Let_def)
qed

lemma readhdr_member:
  assumes "input_law lib v" "usefile op = None" "rd_ok v s" "hdr_ok wop d f" "left v s = mkhdr wop d f zblock @ rest"
  shows "\<exists>i s'. readhdr lib op 0 s = ret (Some i, s') \<and> idle v s s' \<and> blk s' i = mkhdr wop d f zblock \<and> left v s' = rest"
proof -
  note h = mkhdr_fields [OF assms(4) refl]
  have ne: "\<not> eotar (mkhdr wop d f zblock)" using assms(4) by (simp add: eotar_def h(1) stored_name_def hdr_ok_def)
  have ck: "int (chksum (mkhdr wop d f zblock)) = int32 (int (strtoul8 32 (drop o_chksum (mkhdr wop d f zblock))))"
    using chksum_bound [OF h(8)] by (simp add: h(7) int32_id)
  from getblk_block [OF assms(1-3,5) h(8), of False] obtain i s' where
    s': "getblkrd lib op 0 False s = ret (Some i, s')" "idle v s s'" "blk s' i = mkhdr wop d f zblock" "left v s' = rest" by blast
  define s2 where "s2 = s'\<lparr>nexthdr := vlong (nexthdr s' + int Tblock * (1 + BYTES2TBLKS (arsize (mkhdr wop d f zblock))))\<rparr>"
  have "readhdr lib op 0 s = ret (Some i, s2)" using s'(1,3) ne ck by (simp add: readhdr_def Let_def s2_def)
  moreover have "idle v s s2" using s'(2) by (simp add: idle_def s2_def)
  ultimately show ?thesis using s'(3,4) by (intro exI [where x = i] exI [where x = s2]) (simp add: s2_def)
qed

lemma member_facts:
  assumes "member_ok wop (f, d, c)" "h = mkhdr wop d f zblock"
  shows "word_of_nat (strtoul8 32 (drop o_mode h)) AND 0x1FF = td_mode d AND (0x1FF :: u32)"
    "\<not> islink (linkflag h)" "linkflag h \<noteq> CHR ''6''" "tblks (arsize h) = dblocks c" "dblocks c < 2147483648"
    "(if dblocks c = 0 then 0 else hdrsize h) = int (length c)"
proof -
  have ok: "hdr_ok wop d f" "td_dir d \<Longrightarrow> c = []" "\<not> td_dir d \<Longrightarrow> td_len d = length c" "length c < 2 ^ 39"
    using assms(1) by (auto simp: member_ok_def split: if_splits)
  note h = mkhdr_fields [OF ok(1) assms(2)]
  show "word_of_nat (strtoul8 32 (drop o_mode h)) AND 0x1FF = td_mode d AND (0x1FF :: u32)"
    by (simp add: h(5) and.assoc)
  show "\<not> islink (linkflag h)" "linkflag h \<noteq> CHR ''6''"
    by (simp_all add: h(9) islink_def isreallink_def issymlink_def LF_DIR_def LF_PLAIN1_def)
  show "tblks (arsize h) = dblocks c" using tblks_dblocks [OF ok(4)] ok(2,3) by (auto simp: h(4))
  show "dblocks c < 2147483648" using dblocks_bounds(2) ok(4) .
  show "(if dblocks c = 0 then 0 else hdrsize h) = int (length c)"
    using dblocks_bounds(1) [of c] ok(2,3) by (cases "td_dir d") (auto simp: h(3) dblocks_def)
qed

section \<open>Members\<close>

lemma set_times_law:
  "make_law lib v \<Longrightarrow> r_in v (set_times lib op fd t h os) = r_in v os \<and> r_made v (set_times lib op fd t h os) = r_made v os"
  by (auto simp: make_law_def set_times_def Let_def)

lemma member_mode_dir:
  assumes "word_of_nat n AND 0x1FF = td_mode d AND (0x1FF :: u32)"
  shows "(if td_dir d then (word_of_nat n AND 0x1FF) OR 0x800001C0 else word_of_nat n AND 0x1FF) = member_mode d"
  by (simp add: assms member_mode_def)

lemma extract1_makes:
  assumes "input_law lib v" "make_law lib v" "usefile op = None" "xtract op" "\<not> keepexisting op"
    and "rd_ok v s" "member_ok wop (f, d, c)" "blk s i = mkhdr wop d f zblock"
    and "left v s = body @ rest" "length body = 512 * dblocks c" "take (length c) body = c"
  shows "\<exists>s'. extract1 lib op 0 i s = ret ((), s') \<and> rd_ok v s' \<and> left v s' = rest \<and> t_lines s' = t_lines s
    \<and> r_made v (t_os s') = r_made v (t_os s) @ [extracted lib op (f, d, c)]"
proof -
  define h where "h = mkhdr wop d f zblock"
  have ok: "hdr_ok wop d f" using assms(7) by (simp add: member_ok_def)
  note h = mkhdr_fields [OF ok h_def] and m = member_facts [OF assms(7) h_def]
  define nm where "nm = member_name lib op (stored_name d f)"
  obtain fd os1 where cr: "t_create lib nm (if td_dir d then OREAD else OWRITE) (member_mode d) (t_os s) = (fd, os1)" by fastforce
  have c: "0 < fd" "r_in v os1 = r_in v (t_os s)" "r_made v os1 = r_made v (t_os s) @ [(nm, member_mode d, [])]"
    "r_at v fd os1 = Some (length (r_made v (t_os s)))"
    using assms(2) [unfolded make_law_def, THEN conjunct1, rule_format, of nm "if td_dir d then OREAD else OWRITE" "member_mode d" "t_os s"] cr
    by simp_all
  define s1 where "s1 = s\<lparr>t_os := os1, t_lines := t_lines s @ []\<rparr>"
  have s1: "rd_ok v s1" "left v s1 = body @ rest" "t_lines s1 = t_lines s" "t_os s1 = os1"
    using assms(6,9) c(2) by (simp_all add: s1_def rd_ok_def left_def) (auto simp: buf_ok_def cur_def used_up_def split: option.splits)
  have tk: "take (length c) (left v s1) = c"
    using assms(10,11) dblocks_bounds(1) [of c] by (simp add: s1(2))
  have q: "512 * dblocks c \<le> length (left v s1)" using assms(10) by (simp add: s1(2))
  have at1: "r_at v fd (t_os s1) = Some (length (r_made v (t_os s)))" "length (r_made v (t_os s)) < length (r_made v (t_os s1))"
    "r_made v (t_os s1) ! length (r_made v (t_os s)) = (nm, member_mode d, [])"
    by (simp_all add: s1(4) c nth_append)
  from copy_loop_copies [OF assms(1-3) c(1) s1(1) order_refl m(5) q dblocks_bounds(1) tk at1, of nm] obtain s2 n where
    s2: "copy_loop lib op 0 fd nm (dblocks c) (dblocks c) (int (length c)) s1 = ret (n, s2)" "rd_ok v s2" "t_lines s2 = t_lines s"
      "left v s2 = rest" "r_made v (t_os s2) = r_made v (t_os s) @ [(nm, member_mode d, c)]"
    using assms(10) by (auto simp: s1 c)
  have mk: "make_member lib op (td_dir d) nm (member_mode d) (t_os s) = (fd, os1)"
    using assms(5) c(1) cr by (simp add: make_member_def Let_def)
  define s3 where "s3 = s2\<lparr>t_os := t_close lib fd (set_times lib op fd (strtol8 (drop o_mtime h)) (blk s2 i) (t_os s2))\<rparr>"
  have "extract1 lib op 0 i s = ret ((), s3)"
    using assms(4) m h(1,2) mk s2(1) c(1) member_mode_dir [OF m(1)]
    unfolding extract1_def assms(8) h_def [symmetric]
    by (simp add: Let_def nm_def [symmetric] s1_def s3_def split del: if_split)
  moreover have "r_in v (t_os s3) = r_in v (t_os s2)" "r_made v (t_os s3) = r_made v (t_os s2)"
    using assms(2) set_times_law [OF assms(2)] by (simp_all add: s3_def make_law_def)
  then have "rd_ok v s3" "left v s3 = rest" "r_made v (t_os s3) = r_made v (t_os s) @ [extracted lib op (f, d, c)]" "t_lines s3 = t_lines s"
    using s2 by (auto simp: s3_def rd_ok_def left_def extracted_def nm_def)
  ultimately show ?thesis by blast
qed

lemma extract1_lists:
  assumes "input_law lib v" "usefile op = None" "\<not> xtract op"
    and "rd_ok v s" "member_ok wop (f, d, c)" "blk s i = mkhdr wop d f zblock"
    and "left v s = body @ rest" "length body = 512 * dblocks c"
  shows "\<exists>s'. extract1 lib op 0 i s = ret ((), s') \<and> rd_ok v s' \<and> left v s' = rest \<and> t_lines s' = t_lines s @ [listed lib op (f, d, c)]
    \<and> r_made v (t_os s') = r_made v (t_os s)"
proof -
  define h where "h = mkhdr wop d f zblock"
  have ok: "hdr_ok wop d f" using assms(5) by (simp add: member_ok_def)
  note h = mkhdr_fields [OF ok h_def] and m = member_facts [OF assms(5) h_def]
  define nm where "nm = member_name lib op (stored_name d f)"
  define s1 where "s1 = s\<lparr>t_os := t_os s, t_lines := t_lines s @ [listed lib op (f, d, c)]\<rparr>"
  have s1: "rd_ok v s1" "left v s1 = body @ rest" using assms(4,7) by (simp_all add: s1_def)
  have q: "512 * dblocks c \<le> length (left v s1)" using assms(8) by (simp add: s1(2))
  from copy_loop_idle [OF assms(1,2) _ s1(1) order_refl m(5) q, of "-1" nm "int (length c)"] obtain s2 n where
    s2: "copy_loop lib op 0 (-1) nm (dblocks c) (dblocks c) (int (length c)) s1 = ret (n, s2)" "idle v s1 s2" "left v s2 = rest"
    using assms(8) by (auto simp: s1)
  have line: "(if verbose op then [t_longline lib (member_mode d) (hdrsize h) (strtol8 (drop o_mtime h)) nm] else [nm]) = [listed lib op (f, d, c)]"
    by (simp add: listed_def Let_def h(3,6) nm_def)
  have "extract1 lib op 0 i s = ret ((), s2)"
    using assms(3) m h(1,2) line s2(1) member_mode_dir [OF m(1)]
    unfolding extract1_def assms(6) h_def [symmetric]
    by (simp add: Let_def nm_def [symmetric] s1_def split del: if_split cong: if_cong)
  then show ?thesis using s2 by (auto simp: idle_def same_made_def s1_def)
qed

section \<open>The whole archive\<close>

definition selected :: "'os tlib \<Rightarrow> string list \<Rightarrow> member list \<Rightarrow> member list" where
  "selected lib argv ms = filter (\<lambda>(f, d, c). match lib (stored_name d f) argv) ms"

text \<open>What a run over the members \<open>ms\<close> has done.\<close>

definition did :: "'os tlib \<Rightarrow> 'os rviews \<Rightarrow> tarop \<Rightarrow> string list \<Rightarrow> member list \<Rightarrow> 'os tar \<Rightarrow> 'os tar \<Rightarrow> bool" where
  "did lib v op argv ms s s' \<longleftrightarrow>
     r_made v (t_os s') = r_made v (t_os s) @ (if xtract op then map (extracted lib op) (selected lib argv ms) else [])
     \<and> t_lines s' = t_lines s @ (if xtract op then [] else map (listed lib op) (selected lib argv ms))"

lemma did_Cons: "did lib v op argv [m] s s' \<Longrightarrow> did lib v op argv ms s' s'' \<Longrightarrow> did lib v op argv (m # ms) s s''"
  by (auto simp: did_def selected_def split: if_splits)

lemma member_step:
  assumes "input_law lib v" "make_law lib v" "usefile op = None" "\<not> (xtract op \<and> keepexisting op)"
    and "rd_ok v s" "member_ok wop (f, d, c)" "blk s i = mkhdr wop d f zblock"
    and "left v s = body @ rest" "length body = 512 * dblocks c" "take (length c) body = c"
  shows "\<exists>s'. (if match lib (name (blk s i)) argv then extract1 lib op 0 i s else skip lib op 0 (blk s i) s) = ret ((), s')
    \<and> rd_ok v s' \<and> left v s' = rest \<and> did lib v op argv [(f, d, c)] s s'"
proof -
  have ok: "hdr_ok wop d f" using assms(6) by (simp add: member_ok_def)
  note nm = mkhdr_fields(1) [OF ok refl] and m = member_facts [OF assms(6) refl]
  show ?thesis
  proof (cases "match lib (stored_name d f) argv")
    case True
    note t = this
    show ?thesis
    proof (cases "xtract op")
      case True
      then have "\<not> keepexisting op" using assms(4) by simp
      from extract1_makes [OF assms(1-3) True this assms(5-10)] show ?thesis using t True
        by (auto simp: assms(7) nm did_def selected_def)
    next
      case False
      from extract1_lists [OF assms(1,3) False assms(5-9)] show ?thesis using t False
        by (auto simp: assms(7) nm did_def selected_def)
    qed
  next
    case False
    have "512 * dblocks c \<le> length (left v s)" using assms(8,9) by simp
    from skip_loop_reads [OF assms(1,3,5) order_refl m(5) this] obtain s' where
      s': "skip_loop lib op 0 (dblocks c) (dblocks c) s = ret (True, s')" "idle v s s'" "left v s' = rest"
      using assms(8,9) by auto
    then have "skip lib op 0 (blk s i) s = ret ((), s')" by (simp add: skip_def assms(7) m(4))
    then show ?thesis using False s'(2,3)
      by (intro exI [where x = s']) (simp add: assms(7) nm did_def selected_def idle_def same_made_def)
  qed
qed

lemma extract_loop_reads:
  assumes "input_law lib v" "make_law lib v" "usefile op = None" "\<not> (xtract op \<and> keepexisting op)"
  shows "stream wop ms bs \<Longrightarrow> list_all (member_ok wop) ms \<Longrightarrow> rd_ok v s \<Longrightarrow> left v s = bs @ replicate m NUL \<Longrightarrow> 512 \<le> m \<Longrightarrow>
    length ms < k \<Longrightarrow> \<exists>s'. extract_loop lib op 0 k argv s = ret ((), s') \<and> did lib v op argv ms s s'"
proof (induction ms arbitrary: bs s k)
  case Nil
  then obtain j where "k = Suc j" by (cases k) auto
  moreover have "left v s = replicate m NUL" using Nil by simp
  from readhdr_end [OF assms(1,3) Nil(3) this Nil(5)] obtain s' where "readhdr lib op 0 s = ret (None, s')" "idle v s s'" by blast
  ultimately show ?case by (auto simp: did_def selected_def idle_def same_made_def)
next
  case (Cons x ms)
  obtain f d c where x: "x = (f, d, c)" by (cases x)
  obtain j where k: "k = Suc j" "length ms < j" using Cons.prems(6) by (cases k) auto
  define h where "h = mkhdr wop d f zblock"
  define body where "body = take (512 * dblocks c) (drop 512 bs)"
  define rest where "rest = drop (512 + 512 * dblocks c) bs"
  have st: "take 512 bs = h" "take (length c) (drop 512 bs) = c" "512 + 512 * dblocks c \<le> length bs" "stream wop ms rest"
    using Cons.prems(1) by (auto simp: x h_def rest_def)
  have bs: "bs = h @ body @ rest" "length body = 512 * dblocks c" "take (length c) body = c"
  proof -
    have "rest = drop (512 * dblocks c) (drop 512 bs)" by (simp add: rest_def add.commute)
    then have "drop 512 bs = body @ rest" by (simp only: body_def append_take_drop_id)
    then show "bs = h @ body @ rest" using st(1) by (metis append_take_drop_id)
    show "length body = 512 * dblocks c" using st(3) by (simp add: body_def)
    show "take (length c) body = c" using st(2) dblocks_bounds(1) [of c] by (simp add: body_def min_def)
  qed
  have mo: "member_ok wop (f, d, c)" "hdr_ok wop d f" using Cons.prems(2) by (auto simp: x member_ok_def)
  have "left v s = mkhdr wop d f zblock @ body @ rest @ replicate m NUL" using Cons.prems(4) bs(1) by (simp add: h_def)
  from readhdr_member [OF assms(1,3) Cons.prems(3) mo(2) this] obtain i s1 where
    s1: "readhdr lib op 0 s = ret (Some i, s1)" "idle v s s1" "blk s1 i = mkhdr wop d f zblock" "left v s1 = body @ rest @ replicate m NUL"
    by blast
  have "rd_ok v s1" using s1(2) by (simp add: idle_def)
  from member_step [OF assms this mo(1) s1(3,4) bs(2,3), of argv] obtain s2 where
    s2: "(if match lib (name (blk s1 i)) argv then extract1 lib op 0 i s1 else skip lib op 0 (blk s1 i) s1) = ret ((), s2)" "rd_ok v s2"
      "left v s2 = rest @ replicate m NUL" "did lib v op argv [(f, d, c)] s1 s2" by blast
  have "list_all (member_ok wop) ms" using Cons.prems(2) by simp
  from Cons.IH [OF st(4) this s2(2,3) Cons.prems(5) k(2)] obtain s3 where
    s3: "extract_loop lib op 0 j argv s2 = ret ((), s3)" "did lib v op argv ms s2 s3" by blast
  have "extract_loop lib op 0 k argv s = ret ((), s3)" using s1(1) s2(1) s3(1) by (simp add: k(1) split del: if_split)
  moreover have "did lib v op argv [(f, d, c)] s s2" using s2(4) s1(2) by (simp add: did_def idle_def same_made_def)
  from did_Cons [OF this s3(2)] have "did lib v op argv (x # ms) s s3" by (simp add: x)
  ultimately show ?case by blast
qed

lemma extract_reads:
  assumes "input_law lib v" "make_law lib v" "usefile op = None" "\<not> (xtract op \<and> keepexisting op)"
    and "stream wop ms bs" "list_all (member_ok wop) ms" "r_in v os = bs @ replicate m NUL" "512 \<le> m" "10240 dvd length bs + m" "length ms < k"
  shows "\<exists>s'. tar_extract lib op k argv (initblks os) = ret ([], s') \<and> did lib v op argv ms (initblks os) s'"
proof -
  have "rd_ok v (initblks os)" "left v (initblks os) = bs @ replicate m NUL"
    using assms(7,9) by (simp_all add: initblks_def rd_ok_def buf_ok_def cur_def left_def used_up_def Tblock_def Dblock_def)
  from extract_loop_reads [OF assms(1-6) this assms(8,10), of argv] obtain s' where
    s': "extract_loop lib op 0 k argv (initblks os) = ret ((), s')" "did lib v op argv ms (initblks os) s'" by blast
  have i: "t_os (initblks os) = os" "(initblks os)\<lparr>t_os := x\<rparr> = initblks x" for x by (simp_all add: initblks_def)
  show ?thesis using assms(3) s' by (simp add: tar_extract_def i)
qed

section \<open>A system in memory\<close>

text \<open>Files to read are opened as 3, 4, ..., files that are made as well.\<close>

record ram =
  rm_out :: string
  rm_in :: string
  rm_dirs :: "(string \<times> tnode) list list"
  rm_open :: "(string \<times> tardir \<times> string list option) list"
  rm_made :: "(string \<times> u32 \<times> string) list"

definition fd_index :: "int \<Rightarrow> 'a list \<Rightarrow> nat option" where
  "fd_index fd xs = (if 3 \<le> fd \<and> nat fd - 3 < length xs then Some (nat fd - 3) else None)"

definition ram_rest :: "int \<Rightarrow> ram \<Rightarrow> string" where
  "ram_rest fd os = (if fd = 0 then rm_in os else case fd_index fd (rm_open os) of None \<Rightarrow> [] | Some i \<Rightarrow> fst (rm_open os ! i))"

definition ram_readn :: "int \<Rightarrow> nat \<Rightarrow> ram \<Rightarrow> (int \<times> string) \<times> ram" where
  "ram_readn fd n os =
     (let bs = take n (ram_rest fd os); left = drop n (ram_rest fd os)
      in ((int (length bs), bs),
          if fd = 0 then os\<lparr>rm_in := left\<rparr>
          else case fd_index fd (rm_open os) of
            None \<Rightarrow> os
          | Some i \<Rightarrow> os\<lparr>rm_open := (rm_open os) [i := (left, snd (rm_open os ! i))]\<rparr>))"

definition ram_write :: "int \<Rightarrow> string \<Rightarrow> ram \<Rightarrow> int \<times> ram" where
  "ram_write fd bs os =
     (int (length bs),
      if fd = 1 then os\<lparr>rm_out := rm_out os @ bs\<rparr>
      else case fd_index fd (rm_made os) of
        None \<Rightarrow> os
      | Some i \<Rightarrow> os\<lparr>rm_made := (rm_made os) [i := (case rm_made os ! i of (f, m, c) \<Rightarrow> (f, m, c @ bs))]\<rparr>)"

definition ram_find :: "string \<Rightarrow> ram \<Rightarrow> tnode option" where
  "ram_find nm os = (case rm_dirs os of [] \<Rightarrow> None | es # up \<Rightarrow> map_of es (if take 3 nm = ''./#'' then drop 2 nm else nm))"

definition ram_open :: "string \<Rightarrow> int \<Rightarrow> ram \<Rightarrow> int \<times> ram" where
  "ram_open nm mode os =
     (case ram_find nm os of
        None \<Rightarrow> (-1, os)
      | Some t \<Rightarrow> (3 + int (length (rm_open os)), os\<lparr>rm_open := rm_open os @
          [case t of TFile d c \<Rightarrow> (c, d, None) | TDir d es \<Rightarrow> ([], d, Some (map fst es))]\<rparr>))"

definition ram_chdir :: "(string \<times> tnode) list \<Rightarrow> string \<Rightarrow> string \<Rightarrow> ram \<Rightarrow> int \<times> ram" where
  "ram_chdir root org nm os =
     (if nm = org then (0, os\<lparr>rm_dirs := [root]\<rparr>)
      else if nm = ''..'' then (0, os\<lparr>rm_dirs := tl (rm_dirs os)\<rparr>)
      else case ram_find nm os of Some (TDir d es) \<Rightarrow> (0, os\<lparr>rm_dirs := es # rm_dirs os\<rparr>) | _ \<Rightarrow> (-1, os))"

definition ram_lib :: "(string \<times> tnode) list \<Rightarrow> string \<Rightarrow> ram tlib" where
  "ram_lib root org = \<lparr>t_seek = \<lambda>fd off wh os. (-1, os), t_read = ram_readn, t_readn = ram_readn, t_write = ram_write, t_open = ram_open,
     t_create = \<lambda>f rw mode os. (3 + int (length (rm_made os)), os\<lparr>rm_made := rm_made os @ [(f, mode, [])]\<rparr>),
     t_close = \<lambda>fd os. os,
     t_dirfstat = \<lambda>fd os. map_option (\<lambda>i. fst (snd (rm_open os ! i))) (fd_index fd (rm_open os)),
     t_dirreadall = \<lambda>fd os. case fd_index fd (rm_open os) of None \<Rightarrow> None | Some i \<Rightarrow> snd (snd (rm_open os ! i)),
     t_chdir = ram_chdir root org, t_access = \<lambda>nm os. -1, t_wstat = \<lambda>fd t g os. os,
     t_push = \<lambda>fd cmd inp os. (fd, os), t_pushclose = \<lambda>os. ([], os), t_cleanname = \<lambda>nm. nm, t_longline = \<lambda>m n t nm. nm\<rparr>"

definition ram_w :: "ram wviews" where
  "ram_w = \<lparr>w_out = rm_out, w_rest = ram_rest, w_dirs = rm_dirs\<rparr>"

definition ram_r :: "ram rviews" where
  "ram_r = \<lparr>r_in = rm_in, r_made = rm_made, r_at = \<lambda>fd os. fd_index fd (rm_made os)\<rparr>"

lemma fd_index_update [simp]: "fd_index fd (xs [i := x]) = fd_index fd xs"
  by (simp add: fd_index_def)

lemma fd_index_Some: "fd_index fd xs = Some i \<Longrightarrow> fd = int i + 3 \<and> i < length xs"
  by (auto simp: fd_index_def split: if_splits)

lemma fd_index_last [simp]: "fd_index (3 + int (length xs)) (xs @ [x]) = Some (length xs)"
  by (auto simp: fd_index_def nat_add_distrib)

lemma open_name_back: "take 3 f \<noteq> ''./#'' \<Longrightarrow> (if take 3 (open_name f) = ''./#'' then drop 2 (open_name f) else open_name f) = f"
  by (cases f) (auto simp: open_name_def numeral_3_eq_3 numeral_2_eq_2)

lemma ram_find_open: "ok_name org f \<Longrightarrow> rm_dirs os = es # up \<Longrightarrow> ram_find (open_name f) os = map_of es f"
  using open_name_back [of f] by (simp add: ram_find_def ok_name_def split del: if_split)

lemma open_name_dots: "f \<noteq> ''..'' \<Longrightarrow> open_name f \<noteq> ''..''"
  by (auto simp: open_name_def)

lemma ram_src_laws: "org \<noteq> ''..'' \<Longrightarrow> src_laws (ram_lib root org) ram_w org 1 root"
proof -
  assume org: "org \<noteq> ''..''"
  have "write_law (ram_lib root org) ram_w 1"
    by (auto simp: write_law_def ram_lib_def ram_write_def ram_w_def same_files_def ram_rest_def split: option.splits)
  moreover have "read_law (ram_lib root org) ram_w 1"
    by (auto simp: read_law_def ram_lib_def ram_readn_def ram_w_def ram_rest_def Let_def dest: fd_index_Some split: option.splits)
  moreover have "open_law (ram_lib root org) ram_w org 1"
    by (auto simp: open_law_def ram_lib_def ram_open_def ram_w_def ram_find_open ram_rest_def nth_append split: option.splits tnode.splits)
  moreover have "close_law (ram_lib root org) ram_w" by (simp add: close_law_def ram_lib_def)
  moreover have "chdir_law (ram_lib root org) ram_w org root"
    using org by (auto simp: chdir_law_def ram_lib_def ram_chdir_def ram_w_def ram_find_open ok_name_def open_name_dots split: option.splits tnode.splits)
  ultimately show ?thesis by (simp add: src_laws_def)
qed

lemma ram_dst_laws: "input_law (ram_lib root org) ram_r" "make_law (ram_lib root org) ram_r"
  by (auto simp: input_law_def make_law_def ram_lib_def ram_readn_def ram_write_def ram_r_def ram_rest_def same_made_def Let_def
      dest!: fd_index_Some split: option.splits)

definition fdir :: tardir where
  "fdir = \<lparr>td_mode = 0x1A4, td_len = 2, td_mtime = 1000000000, td_uid = ''glenda'', td_gid = ''sys'', td_isdir = False\<rparr>"

definition ddir :: tardir where
  "ddir = \<lparr>td_mode = 0x800001ED, td_len = 0, td_mtime = 1000000000, td_uid = ''glenda'', td_gid = ''sys'', td_isdir = True\<rparr>"

definition root0 :: "(string \<times> tnode) list" where
  "root0 = [(''d'', TDir ddir [(''#f'', TFile fdir ''hi'')])]"

definition ram0 :: ram where
  "ram0 = \<lparr>rm_out = [], rm_in = [], rm_dirs = [root0], rm_open = [], rm_made = []\<rparr>"

definition op0 :: tarop where
  "op0 = \<lparr>posix = True, aruid = 0, argid = 0, xtract = True, relative = True, settime = True, verbose = False,
     keepexisting = False, docreate = True, docompress = False, usefile = None, origdir = ''/''\<rparr>"

lemma members0: "members root0 [''d''] = [(''d'', ddir, []), (''d/#f'', fdir, ''hi'')]"
  by (simp add: members_def root0_def)

lemma args0: "ok_args ''/'' 5 root0 [''d'']"
  by (simp add: ok_args_def root0_def ok_name_def open_name_def ddir_def fdir_def)

lemma members_ok0: "list_all (member_ok (topts.truncate op0)) (members root0 [''d''])"
  by (simp add: members0 member_ok_def hdr_ok_def stored_name_def td_dir_def fits_def hdr_offsets ddir_def fdir_def op0_def topts.truncate_def)

section \<open>From files to files\<close>

text \<open>\<open>tar c\<close> writes, whatever the tree of files and however the members fall across the records, the members in the
  order of the tree, each with its header and its data in whole blocks, then at least two empty blocks; what it has
  written is a whole number of records of 20 blocks.
\<close>

theorem archive_written:
  assumes "src_laws lib v (origdir op) ar root" "ok_opts op" "ok_args (origdir op) k root argv"
    and "usefile op = None \<and> ar = 1 \<and> os' = os
      \<or> (\<exists>f. usefile op = Some f \<and> docreate op \<and> \<not> docompress op \<and> t_create lib f OWRITE 0x1B6 os = (ar, os') \<and> 0 \<le> ar)"
    and "w_out v os' = []" "w_dirs v os' = [root]"
  shows "\<exists>s' bs m. replace lib op k argv (initblks os) = ret ([], s')
    \<and> w_out v (t_os s') = bs @ replicate m NUL \<and> stream (topts.truncate op) (members root argv) bs
    \<and> 1024 \<le> m \<and> 10240 dvd length bs + m"
  using assms by (rule replace_writes)

lemma archive_written_witness:
  "\<exists>s' bs m. replace (ram_lib root0 ''/'') op0 5 [''d''] (initblks ram0) = ret ([], s')
    \<and> rm_out (t_os s') = bs @ replicate m NUL \<and> stream (topts.truncate op0) [(''d'', ddir, []), (''d/#f'', fdir, ''hi'')] bs
    \<and> 1024 \<le> m \<and> 10240 dvd length bs + m"
  using archive_written [of "ram_lib root0 ''/''" ram_w op0 1 root0 5 "[''d'']" ram0 ram0] ram_src_laws [of "''/''" root0] args0
  by (simp add: members0 op0_def ok_opts_def ram_w_def ram0_def)

text \<open>C6. What \<open>tar c\<close> has written to its standard output \<open>tar x\<close>, reading it from its standard input, turns into the same
  files and directories: for every member whose header can be read back and whose name is asked for, in order, one
  file or directory with the name, the permissions and exactly the contents. Directories get mode 0700 added, so that files can be
  made in them, and every file that is created is taken to be made. \<open>tar t\<close> prints the names instead.
\<close>

theorem create_then_extract:
  assumes "src_laws lib v (origdir op) 1 root" "ok_opts op" "ok_args (origdir op) k root argv" "usefile op = None"
    and "w_out v os = []" "w_dirs v os = [root]"
    and "list_all (member_ok (topts.truncate op)) (members root argv)"
    and "input_law lib' v'" "make_law lib' v'" "usefile op' = None" "\<not> (xtract op' \<and> keepexisting op')"
    and "length (members root argv) < k'"
  shows "\<exists>s. replace lib op k argv (initblks os) = ret ([], s)
    \<and> (\<forall>os'. r_in v' os' = w_out v (t_os s) \<longrightarrow>
         (\<exists>s'. tar_extract lib' op' k' argv' (initblks os') = ret ([], s')
            \<and> r_made v' (t_os s') = r_made v' os' @
                (if xtract op' then map (extracted lib' op') (selected lib' argv' (members root argv)) else [])
            \<and> t_lines s' = (if xtract op' then [] else map (listed lib' op') (selected lib' argv' (members root argv)))))"
proof -
  obtain s bs m where s: "replace lib op k argv (initblks os) = ret ([], s)" "w_out v (t_os s) = bs @ replicate m NUL"
    "stream (topts.truncate op) (members root argv) bs" "1024 \<le> m" "10240 dvd length bs + m"
    using replace_writes [OF assms(1-3) _ assms(5,6)] assms(4) by blast
  have "\<exists>s'. tar_extract lib' op' k' argv' (initblks os') = ret ([], s') \<and> did lib' v' op' argv' (members root argv) (initblks os') s'"
    if "r_in v' os' = w_out v (t_os s)" for os'
    using extract_reads [OF assms(8-11) s(3) assms(7) that [unfolded s(2)] _ s(5) assms(12)] s(4) by simp
  then show ?thesis using s(1) unfolding did_def by (fastforce simp: initblks_def)
qed

lemma create_then_extract_witness:
  "\<exists>s s'. replace (ram_lib root0 ''/'') op0 5 [''d''] (initblks ram0) = ret ([], s)
    \<and> tar_extract (ram_lib [] ''/'') op0 3 [] (initblks (ram0\<lparr>rm_in := rm_out (t_os s)\<rparr>)) = ret ([], s')
    \<and> rm_made (t_os s') = [(''d/'', 0x800001ED, []), (''d/#f'', 0x1A4, ''hi'')]"
proof -
  have o: "origdir op0 = ''/''" "usefile op0 = None" "xtract op0" "\<not> keepexisting op0" "ok_opts op0"
    by (simp_all add: op0_def ok_opts_def)
  have "w_out ram_w ram0 = []" "w_dirs ram_w ram0 = [root0]" "length (members root0 [''d'']) < 3"
    by (simp_all add: ram_w_def ram0_def members0)
  from create_then_extract [OF _ o(5) args0 [folded o(1)] o(2) this(1,2) members_ok0 ram_dst_laws [of "[]" "''/''"] o(2) _ this(3), of "ram_lib root0 ''/''" "[]"]
  obtain s where s: "replace (ram_lib root0 ''/'') op0 5 [''d''] (initblks ram0) = ret ([], s)"
    "\<And>os'. r_in ram_r os' = w_out ram_w (t_os s) \<Longrightarrow>
         \<exists>s'. tar_extract (ram_lib [] ''/'') op0 3 [] (initblks os') = ret ([], s')
            \<and> r_made ram_r (t_os s') = r_made ram_r os' @ map (extracted (ram_lib [] ''/'') op0) (selected (ram_lib [] ''/'') [] (members root0 [''d'']))"
    using ram_src_laws [of "''/''" root0] o by fastforce
  have "map (extracted (ram_lib [] ''/'') op0) (selected (ram_lib [] ''/'') [] (members root0 [''d''])) = [(''d/'', 0x800001ED, []), (''d/#f'', 0x1A4, ''hi'')]"
    by (simp add: members0 selected_def match_def extracted_def member_mode_def member_name_def Let_def stored_name_def td_dir_def
        ddir_def fdir_def op0_def ram_lib_def)
  with s(2) [of "ram0\<lparr>rm_in := rm_out (t_os s)\<rparr>"] s(1) show ?thesis
    by (auto simp: ram_r_def ram_w_def ram0_def)
qed

end
