(* ===== verification/Hget.thy ===== *)
theory Hget
  imports Strtol Bytes
begin

text \<open>
  src/src/cmd/hget.c, a client of web and ftp servers. The pointers of the input buffer \<open>b\<close> are offsets into its 4096
  bytes; a store beyond them is \<open>HUndef\<close>. \<open>sysfatal\<close> is \<open>HFatal\<close>, a failed assertion \<open>HAbort\<close>. Network, files, clock,
  MD5 and the functions of Plan 9's library are a parameter, the record \<open>hlib\<close>; messages to the standard error are left
  out. The process that copies the data of an ftp transfer is run before the reply is waited for.
\<close>

section \<open>State\<close>

datatype hstop = HFatal string | HAbort | HUndef

record url =
  u_method :: nat
  host :: "string option"
  port :: string
  page :: "string option"
  etag :: "string option"
  redirect :: "string option"
  postbody :: "string option"
  cred :: "string option"
  u_mtime :: int

record tm =
  tm_sec :: int
  tm_min :: int
  tm_hour :: int
  tm_mday :: int
  tm_mon :: int
  tm_year :: int
  tm_wday :: int
  tm_yday :: int

text \<open>\<open>md5_upd\<close> with no state begins a new one. Numbers of bytes and descriptors are negative for an error.\<close>

record ('os, 'd) hlib =
  h_read :: "int \<Rightarrow> nat \<Rightarrow> 'os \<Rightarrow> (int \<times> string) \<times> 'os"
  h_write :: "int \<Rightarrow> string \<Rightarrow> 'os \<Rightarrow> int \<times> 'os"
  h_close :: "int \<Rightarrow> 'os \<Rightarrow> 'os"
  h_open :: "string \<Rightarrow> int \<Rightarrow> 'os \<Rightarrow> int \<times> 'os"
  h_create :: "string \<Rightarrow> 'os \<Rightarrow> int \<times> 'os"
  h_dirstat :: "string \<Rightarrow> 'os \<Rightarrow> (int \<times> int) option"
  h_set_mtime :: "int \<Rightarrow> int \<Rightarrow> 'os \<Rightarrow> 'os"
  h_dial :: "string \<Rightarrow> 'os \<Rightarrow> int \<times> 'os"
  h_tls :: "int \<Rightarrow> 'os \<Rightarrow> int \<times> 'os"
  h_announce :: "string \<Rightarrow> 'os \<Rightarrow> (int \<times> string) \<times> 'os"
  h_listen :: "string \<Rightarrow> 'os \<Rightarrow> (int \<times> string) \<times> 'os"
  h_accept :: "int \<Rightarrow> string \<Rightarrow> 'os \<Rightarrow> int \<times> 'os"
  h_time :: "'os \<Rightarrow> int"
  h_user :: "'os \<Rightarrow> string"
  h_auth :: "string \<Rightarrow> string \<Rightarrow> 'os \<Rightarrow> (string \<times> string) option \<times> 'os"
  netmkaddr :: "string \<Rightarrow> string \<Rightarrow> string \<Rightarrow> string"
  gmtime :: "int \<Rightarrow> tm"
  tm2sec :: "tm \<Rightarrow> int"
  getfields :: "string \<Rightarrow> nat \<Rightarrow> bool \<Rightarrow> string \<Rightarrow> string list"
  gettokens :: "string \<Rightarrow> nat \<Rightarrow> string \<Rightarrow> string list"
  enc64 :: "nat \<Rightarrow> string \<Rightarrow> string option"
  v4parseip :: "string \<Rightarrow> nat list"
  md5_upd :: "string \<Rightarrow> 'd option \<Rightarrow> 'd"
  md5_sum :: "'d \<Rightarrow> string"

record hopt =
  ofile :: "string option"
  headerprint :: bool
  net :: "string option"
  tcpdir :: string
  px_host :: "string option"
  px_port :: string

record ('os, 'd) hget =
  h_url :: url
  r_start :: int
  r_end :: int
  o_fd :: int
  o_offset :: int
  o_written :: int
  o_curr :: "'d option"
  o_hiwat :: "'d option"
  b_buf :: string
  b_rp :: nat
  b_wp :: nat
  h_os :: 'os

type_synonym ('os, 'd, 'a) hm = "('os, 'd) hget \<Rightarrow> (hstop, 'a \<times> ('os, 'd) hget) res"

abbreviation hfatal :: "string \<Rightarrow> (hstop, 'a) res" where "hfatal msg \<equiv> Some (Inl (HFatal msg))"

definition Http :: nat where "Http = 0"
definition Https :: nat where "Https = 1"
definition Ftp :: nat where "Ftp = 2"
definition Other :: nat where "Other = 3"

definition Eof :: int where "Eof = 0"
definition Error :: int where "Error = -1"
definition Server :: int where "Server = -2"

definition method_names :: "string list" where
  "method_names = [''http'', ''https'', ''ftp'', ''_______'']"

section \<open>Small functions\<close>

definition to_lower :: "char \<Rightarrow> char" where
  "to_lower c = (if 65 \<le> (of_char c :: nat) \<and> (of_char c :: nat) \<le> 90 then char_of ((of_char c :: nat) + 32) else c)"

text \<open>The strings end with a NUL, which stops both loops.\<close>

definition cistrncmp :: "string \<Rightarrow> string \<Rightarrow> nat \<Rightarrow> bool" where
  "cistrncmp a b n \<longleftrightarrow> map to_lower (take n (a @ [NUL])) = map to_lower (take n (b @ [NUL]))"

definition cistrcmp :: "string \<Rightarrow> string \<Rightarrow> bool" where
  "cistrcmp a b \<longleftrightarrow> map to_lower a = map to_lower b"

definition padl :: "nat \<Rightarrow> char \<Rightarrow> string \<Rightarrow> string" where
  "padl w c s = replicate (w - length s) c @ s"

definition crlf :: string where "crlf = [CHR 0x0D, CHR 0x0A]"

section \<open>Addresses\<close>

text \<open>The method: what is in front of \<open>://\<close>, or http when there is a slash first. \<open>None\<close> when neither comes. With it where
  the system begins.\<close>

fun url_method :: "string \<Rightarrow> nat \<Rightarrow> string \<Rightarrow> (nat \<times> string) option" where
  "url_method s i [] = None"
| "url_method s i (c # cs) =
     (if c = CHR ''/'' then Some (Http, s)
      else if c = CHR '':'' \<and> take 2 cs = ''//''
      then (case find (\<lambda>m. cistrcmp (take i s) (method_names ! m)) [0..<4] of
              Some m \<Rightarrow> if m = Other then None else Some (m, drop 2 cs) | None \<Rightarrow> None)
      else url_method s (Suc i) cs)"

definition crackurl :: "url \<Rightarrow> string \<Rightarrow> bool \<times> url" where
  "crackurl u s =
     (let u = u\<lparr>host := None, page := None, u_method := Other\<rparr>
      in case url_method s 0 s of
        None \<Rightarrow> (False, u)
      | Some (m, s) \<Rightarrow>
          let (h, pg) = (case strchr s CHR ''/'' of None \<Rightarrow> (s, ''/'') | Some p \<Rightarrow> (take p s, drop p s));
              (h, pt) = (case strchr h CHR '':'' of None \<Rightarrow> (h, method_names ! m) | Some p \<Rightarrow> (take p h, drop (Suc p) h));
              u = u\<lparr>u_method := m, host := Some h, page := Some pg, port := pt\<rparr>
          in (h \<noteq> [], u))"

section \<open>The input buffer\<close>

definition initibuf :: "('os, 'd) hget \<Rightarrow> ('os, 'd) hget" where
  "initibuf s = s\<lparr>b_rp := 0, b_wp := 0\<rparr>"

text \<open>More bytes behind \<open>wp\<close>; the number that \<open>read\<close> returned.\<close>

definition fill :: "('os, 'd) hlib \<Rightarrow> int \<Rightarrow> ('os, 'd, int) hm" where
  "fill lib fd s =
     (let ((n, bs), os) = h_read lib fd 2048 (h_os s);
          s = s\<lparr>h_os := os\<rparr>
      in if n \<le> 0 then ret (n, s)
         else if 4096 < b_wp s + length bs then Some (Inl HUndef)
         else ret (n, s\<lparr>b_buf := put (b_wp s) bs (b_buf s), b_wp := b_wp s + length bs\<rparr>))"

text \<open>The characters up to the newline, at most \<open>len\<close> of them kept. \<open>None\<close> for a read error; \<open>True\<close> at the end of the
  input. \<open>fuel\<close> counts the characters.\<close>

fun line_loop :: "('os, 'd) hlib \<Rightarrow> int \<Rightarrow> nat \<Rightarrow> int \<Rightarrow> string \<Rightarrow> ('os, 'd, (bool \<times> string) option) hm" where
  "line_loop lib fd 0 len acc s = None"
| "line_loop lib fd (Suc k) len acc s =
     rbind (if b_wp s \<le> b_rp s then fill lib fd s else ret (1, s)) (\<lambda>(n, s).
       if n < 0 then ret (None, s)
       else if n = 0 then ret (Some (True, acc), s)
       else let c = b_buf s ! b_rp s;
                acc = (if 0 < len then acc @ [c] else acc)
            in if c = NL then ret (Some (False, acc), s\<lparr>b_rp := b_rp s + 1\<rparr>)
               else line_loop lib fd k (if 0 < len then len - 1 else len) acc (s\<lparr>b_rp := b_rp s + 1\<rparr>))"

definition is_white :: "char \<Rightarrow> bool" where
  "is_white c \<longleftrightarrow> c = CHR '' '' \<or> c = CHR 0x09 \<or> c = CHR 0x0D \<or> c = NL"

definition drop_white :: "string \<Rightarrow> string" where
  "drop_white s = rev (dropWhile is_white (rev s))"

text \<open>\<open>None\<close> stands for -1.\<close>

definition readline :: "('os, 'd) hlib \<Rightarrow> nat \<Rightarrow> int \<Rightarrow> int \<Rightarrow> ('os, 'd, string option) hm" where
  "readline lib k fd len s =
     rbind (line_loop lib fd k (len - 1) [] s) (\<lambda>(r, s).
       case r of
         None \<Rightarrow> ret (None, s)
       | Some (eof, line) \<Rightarrow> let line = drop_white line in ret (if eof \<and> line = [] then None else Some line, s))"

definition unreadline :: "string \<Rightarrow> ('os, 'd, unit) hm" where
  "unreadline line s =
     (let line = cstr line; i = length line; n = b_wp s - b_rp s
      in if 4096 < i + 1 + n then Some (Inl HUndef)
         else ret ((), s\<lparr>b_buf := put 0 (line @ NL # fld (b_rp s) n (b_buf s)) (b_buf s), b_rp := 0, b_wp := i + 1 + n\<rparr>))"

definition readibuf :: "('os, 'd) hlib \<Rightarrow> int \<Rightarrow> nat \<Rightarrow> ('os, 'd) hget \<Rightarrow> (int \<times> string) \<times> ('os, 'd) hget" where
  "readibuf lib fd len s =
     (let n = min (b_wp s - b_rp s) len
      in if b_rp s < b_wp s then ((int n, fld (b_rp s) n (b_buf s)), s\<lparr>b_rp := b_rp s + n\<rparr>)
         else (let (r, os) = h_read lib fd len (h_os s) in (r, s\<lparr>h_os := os\<rparr>)))"

text \<open>The line is made in 4096 bytes, NUL included; the result is not used.\<close>

definition dfprint :: "('os, 'd) hlib \<Rightarrow> int \<Rightarrow> string \<Rightarrow> ('os, 'd) hget \<Rightarrow> ('os, 'd) hget" where
  "dfprint lib fd line s = s\<lparr>h_os := snd (h_write lib fd (take 4095 line) (h_os s))\<rparr>"

section \<open>The output\<close>

definition setoffset :: "('os, 'd) hlib \<Rightarrow> int \<Rightarrow> ('os, 'd) hget \<Rightarrow> ('os, 'd) hget" where
  "setoffset lib offset s = s\<lparr>o_curr := (if offset = 0 then Some (md5_upd lib [] None) else None), o_offset := offset\<rparr>"

text \<open>The bytes behind those that have been written already.\<close>

definition output_new :: "('os, 'd) hlib \<Rightarrow> string \<Rightarrow> int \<Rightarrow> ('os, 'd, int) hm" where
  "output_new lib bs d s =
     (if bs = [] then ret (d, s)
      else let s = s\<lparr>o_hiwat := Some (md5_upd lib bs (o_hiwat s))\<rparr>;
               (n, os) = h_write lib (o_fd s) bs (h_os s);
               s = s\<lparr>h_os := os\<rparr>
           in ret (n + d, if 0 < n then s\<lparr>o_offset := int32 (o_offset s + n), o_written := int32 (o_written s + n)\<rparr> else s))"

definition hget_output :: "('os, 'd) hlib \<Rightarrow> string \<Rightarrow> ('os, 'd, int) hm" where
  "hget_output lib bs s =
     (let d = int32 (o_written s - o_offset s)
      in if d < 0 then Some (Inl HAbort)
         else if 0 < d \<and> int (length bs) < d
         then ret (int (length bs), s\<lparr>o_curr := map_option (\<lambda>c. md5_upd lib bs (Some c)) (o_curr s), o_offset := int32 (o_offset s + int (length bs))\<rparr>)
         else if 0 < d
         then (let s1 = s\<lparr>o_curr := None\<rparr>;
                   s2 = s1\<lparr>o_offset := int32 (o_offset s + d)\<rparr>
               in case o_curr s of
                    None \<Rightarrow> output_new lib (drop (nat d) bs) d s2
                  | Some c \<Rightarrow>
                      (case o_hiwat s of
                         None \<Rightarrow> Some (Inl HUndef)
                       | Some h \<Rightarrow> if md5_sum lib (md5_upd lib (take (nat d) bs) (Some c)) \<noteq> md5_sum lib h
                                   then ret (-1, s1)
                                   else output_new lib (drop (nat d) bs) d s2))
         else output_new lib bs 0 s)"

section \<open>The headers of an answer\<close>

text \<open>The code of the answer; \<open>None\<close> stands for -1. An empty line gives 0.\<close>

definition httprcode :: "('os, 'd) hlib \<Rightarrow> nat \<Rightarrow> int \<Rightarrow> ('os, 'd, int) hm" where
  "httprcode lib k fd s =
     rbind (readline lib k fd 255 s) (\<lambda>(r, s).
       case r of
         None \<Rightarrow> ret (-1, s)
       | Some line \<Rightarrow>
           if line = [] then ret (0, s)
           else let l = cstr line
                in case strchr l CHR '' '' of
                     None \<Rightarrow> ret (-1, s)
                   | Some p \<Rightarrow> if take 5 l \<noteq> ''HTTP/'' then ret (-1, s) else ret (atoi (drop (Suc p) l), s))"

text \<open>The lines of a header after the first; \<open>p\<close> is where the next one goes.\<close>

fun header_more :: "('os, 'd) hlib \<Rightarrow> nat \<Rightarrow> nat \<Rightarrow> int \<Rightarrow> string \<Rightarrow> ('os, 'd, string option) hm" where
  "header_more lib lk 0 fd acc s = None"
| "header_more lib lk (Suc k) fd acc s =
     rbind (readline lib lk fd (2047 - int (length acc)) s) (\<lambda>(r, s).
       case r of
         None \<Rightarrow> ret (None, s)
       | Some line \<Rightarrow>
           if line = [] \<or> (hd line \<noteq> CHR '' '' \<and> hd line \<noteq> CHR 0x09)
           then rbind (unreadline line s) (\<lambda>(_, s). ret (Some acc, s))
           else header_more lib lk k fd (acc @ line) s)"

text \<open>A line without a colon ends the headers; it is printed all the same.\<close>

definition getheader :: "('os, 'd) hlib \<Rightarrow> hopt \<Rightarrow> nat \<Rightarrow> int \<Rightarrow> ('os, 'd, string option) hm" where
  "getheader lib op k fd s =
     (let shown = (\<lambda>h s. if headerprint op then s\<lparr>h_os := snd (h_write lib 1 (cstr h @ [NL]) (h_os s))\<rparr> else s)
      in rbind (readline lib k fd 2047 s) (\<lambda>(r, s).
        case r of
          None \<Rightarrow> ret (None, s)
        | Some line \<Rightarrow>
            if CHR '':'' \<notin> set (cstr line) then ret (Some [], shown line s)
            else rbind (header_more lib k k fd line s) (\<lambda>(r, s).
              case r of None \<Rightarrow> ret (None, s) | Some h \<Rightarrow> ret (Some h, shown h s))))"

definition hhetag :: "string \<Rightarrow> ('os, 'd, unit) hm" where
  "hhetag p s =
     (case etag (h_url s) of
        None \<Rightarrow> ret ((), s\<lparr>h_url := (h_url s)\<lparr>etag := Some p\<rparr>\<rparr>)
      | Some e \<Rightarrow> if e \<noteq> p then hfatal ''file changed underfoot'' else ret ((), s))"

definition monthchars :: string where "monthchars = ''janfebmaraprmayjunjulaugsepoctnovdec''"

definition month_of :: "string \<Rightarrow> int \<Rightarrow> int" where
  "month_of m now =
     (if m \<noteq> [] \<and> is_digit (hd m) then (let n = atoi m - 1 in if n < 0 \<or> 11 < n then 5 else n)
      else case find (\<lambda>i. take 3 (map to_lower m) = take 3 (drop (i * 3) monthchars)) [0..<12] of None \<Rightarrow> now | Some i \<Rightarrow> int i)"

definition head_is :: "string \<Rightarrow> char \<Rightarrow> bool" where
  "head_is s c \<longleftrightarrow> (case s of [] \<Rightarrow> False | x # xs \<Rightarrow> x = c)"

text \<open>Hours, minutes and seconds, with a \<open>p\<close> for the afternoon.\<close>

definition time_of :: "string \<Rightarrow> tm \<Rightarrow> tm" where
  "time_of hms t =
     (let (h, p) = strtoul10 hms;
          t = t\<lparr>tm_hour := int32 (int h)\<rparr>;
          (t, p) = (if head_is p CHR '':''
                    then (let (m, p) = strtoul10 (tl p);
                              t = t\<lparr>tm_min := int32 (int m)\<rparr>
                          in if head_is p CHR '':'' then (let (sc, p) = strtoul10 (tl p) in (t\<lparr>tm_sec := int32 (int sc)\<rparr>, p)) else (t, p))
                    else (t, p))
      in if head_is (map to_lower p) CHR ''p'' then t\<lparr>tm_hour := int32 (tm_hour t + 12)\<rparr> else t)"

definition hhmtime :: "('os, 'd) hlib \<Rightarrow> string \<Rightarrow> ('os, 'd, unit) hm" where
  "hhmtime lib p s =
     (let f = getfields lib p 6 True ('' '' @ [CHR 0x09])
      in if length f < 5 then ret ((), s)
         else let now = gmtime lib (h_time lib (h_os s));
                  t = now\<lparr>tm_yday := 0, tm_mon := month_of (f ! 2) (tm_mon now), tm_mday := atoi (f ! 1)\<rparr>;
                  t = time_of (f ! 4) t;
                  y = atoi (f ! 3);
                  t = t\<lparr>tm_year := if 1900 \<le> y then y - 1900 else y\<rparr>
              in ret ((), s\<lparr>h_url := (h_url s)\<lparr>u_mtime := tm2sec lib t\<rparr>\<rparr>))"

definition hhclen :: "string \<Rightarrow> ('os, 'd, unit) hm" where
  "hhclen p s = ret ((), s\<lparr>r_end := atoi p\<rparr>)"

text \<open>When the total is 0 or missing, the end of the range is taken.\<close>

definition hhcrange :: "string \<Rightarrow> ('os, 'd, unit) hm" where
  "hhcrange p s =
     (let l = (case strchr p CHR ''/'' of None \<Rightarrow> 0 | Some x \<Rightarrow> atoll (drop (Suc x) p));
          x = (if l = 0 then strchr p CHR ''-'' else strchr p CHR ''/'');
          l = (case x of None \<Rightarrow> l | Some x \<Rightarrow> atoll (drop (Suc x) p))
      in ret ((), if l \<noteq> 0 then s\<lparr>r_end := int32 l\<rparr> else s))"

definition hhuri :: "string \<Rightarrow> ('os, 'd, unit) hm" where
  "hhuri p s =
     (if \<not> head_is p CHR ''<'' then ret ((), s)
      else ret ((), s\<lparr>h_url := (h_url s)\<lparr>redirect := Some (takeWhile (\<lambda>c. c \<noteq> CHR ''>'') (tl p))\<rparr>\<rparr>))"

definition hhlocation :: "string \<Rightarrow> ('os, 'd, unit) hm" where
  "hhlocation p s = ret ((), s\<lparr>h_url := (h_url s)\<lparr>redirect := Some p\<rparr>\<rparr>)"

definition hhauth :: "('os, 'd) hlib \<Rightarrow> string \<Rightarrow> ('os, 'd, unit) hm" where
  "hhauth lib p s =
     (if \<not> cistrncmp p ''basic '' 6 then hfatal ''only Basic authentication supported''
      else let f = gettokens lib p 4 [CHR 0x22]
           in if length f < 2 then hfatal ''garbled auth data''
              else let (up, os) = h_auth lib (case host (h_url s) of None \<Rightarrow> [] | Some h \<Rightarrow> h) (f ! 1) (h_os s);
                       s = s\<lparr>h_os := os\<rparr>
                   in case up of
                        None \<Rightarrow> hfatal ''cannot authenticate''
                      | Some (user, pw) \<Rightarrow>
                          (case enc64 lib 64 (user @ '':'' @ pw) of
                             None \<Rightarrow> hfatal ''enc64''
                           | Some c \<Rightarrow> ret ((), s\<lparr>h_url := (h_url s)\<lparr>cred := Some c\<rparr>\<rparr>)))"

definition header_names :: "string list" where
  "header_names = [''etag:'', ''last-modified:'', ''content-length:'', ''content-range:'', ''uri:'', ''location:'', ''WWW-Authenticate:'']"

definition header_action :: "('os, 'd) hlib \<Rightarrow> nat \<Rightarrow> string \<Rightarrow> ('os, 'd, unit) hm" where
  "header_action lib i p s =
     (if i = 0 then hhetag p s else if i = 1 then hhmtime lib p s else if i = 2 then hhclen p s else if i = 3 then hhcrange p s
      else if i = 4 then hhuri p s else if i = 5 then hhlocation p s else hhauth lib p s)"

definition do_header :: "('os, 'd) hlib \<Rightarrow> string \<Rightarrow> ('os, 'd, unit) hm" where
  "do_header lib h s =
     (case find (\<lambda>i. cistrncmp h (header_names ! i) (length (header_names ! i))) [0..<7] of
        None \<Rightarrow> ret ((), s)
      | Some i \<Rightarrow> header_action lib i (dropWhile (\<lambda>c. c = CHR '' '' \<or> c = CHR 0x09) (drop (length (header_names ! i)) h)) s)"

text \<open>Result: 0 after the empty line, -1 when the input has ended before it. \<open>fuel\<close> counts the headers.\<close>

fun httpheaders :: "('os, 'd) hlib \<Rightarrow> hopt \<Rightarrow> nat \<Rightarrow> nat \<Rightarrow> int \<Rightarrow> int \<Rightarrow> ('os, 'd, int) hm" where
  "httpheaders lib op lk 0 fd cfd s = None"
| "httpheaders lib op lk (Suc k) fd cfd s =
     rbind (getheader lib op lk fd s) (\<lambda>(r, s).
       case r of
         None \<Rightarrow> ret (-1, s)
       | Some h \<Rightarrow>
           if h = [] then ret (0, s)
           else let h = cstr h;
                    s = (if 0 \<le> cfd then s\<lparr>h_os := snd (h_write lib cfd (h @ [NL]) (h_os s))\<rparr> else s)
                in rbind (do_header lib h s) (\<lambda>(_, s). httpheaders lib op lk k fd cfd s))"

section \<open>A web transfer\<close>

definition opt_str :: "string option \<Rightarrow> string" where
  "opt_str x = (case x of None \<Rightarrow> [] | Some t \<Rightarrow> t)"

definition request_lines :: "hopt \<Rightarrow> url \<Rightarrow> string list" where
  "request_lines op u =
     (let h = opt_str (host u);
          target = (if px_host op = None then opt_str (page u) else ''http://'' @ h @ opt_str (page u))
      in case postbody u of
           None \<Rightarrow>
             (''GET '' @ target @ '' HTTP/1.0'' @ crlf @ ''Host: '' @ h @ crlf @ ''User-agent: Plan9/hget'' @ crlf
              @ ''Cache-Control: no-cache'' @ crlf @ ''Pragma: no-cache'' @ crlf)
             # (case cred u of None \<Rightarrow> [] | Some c \<Rightarrow> [''Authorization: Basic '' @ c @ crlf])
         | Some body \<Rightarrow>
             [''POST '' @ target @ '' HTTP/1.0'' @ crlf @ ''Host: '' @ h @ crlf
              @ ''Content-type: application/x-www-form-urlencoded'' @ crlf @ ''Content-length: '' @ dec_str (length body) @ crlf
              @ ''User-agent: Plan9/hget'' @ crlf @ crlf, body])"

definition day_names :: "string list" where
  "day_names = [''Sun'', ''Mon'', ''Tue'', ''Wed'', ''Thu'', ''Fri'', ''Sat'']"

definition month_names :: "string list" where
  "month_names = [''Jan'', ''Feb'', ''Mar'', ''Apr'', ''May'', ''Jun'', ''Jul'', ''Aug'', ''Sep'', ''Oct'', ''Nov'', ''Dec'']"

definition range_lines :: "('os, 'd) hlib \<Rightarrow> url \<Rightarrow> int \<Rightarrow> int \<Rightarrow> string list" where
  "range_lines lib u start mtime =
     (if start = 0 then []
      else [''Range: bytes='' @ int_str start @ ''-'' @ [NL],
            case etag u of
              Some e \<Rightarrow> ''If-range: '' @ e @ [NL]
            | None \<Rightarrow>
                let t = gmtime lib mtime; two = \<lambda>i. padl 2 CHR ''0'' (int_str i)
                in ''If-range: '' @ day_names ! nat (tm_wday t) @ '', '' @ int_str (tm_mday t) @ '' '' @ month_names ! nat (tm_mon t)
                   @ '' '' @ int_str (tm_year t + 1900) @ '' '' @ padl 2 CHR '' '' (int_str (tm_hour t)) @ '':'' @ two (tm_min t)
                   @ '':'' @ two (tm_sec t) @ '' GMT'' @ [NL]])"

text \<open>What a file server of cookies has to add; \<open>fuel\<close> counts its answers.\<close>

fun cookie_loop :: "('os, 'd) hlib \<Rightarrow> nat \<Rightarrow> int \<Rightarrow> int \<Rightarrow> ('os, 'd, unit) hm" where
  "cookie_loop lib 0 fd cfd s = None"
| "cookie_loop lib (Suc k) fd cfd s =
     (let ((n, bs), os) = h_read lib cfd 1024 (h_os s);
          s = s\<lparr>h_os := os\<rparr>
      in if n \<le> 0 then ret ((), s) else cookie_loop lib k fd cfd (s\<lparr>h_os := snd (h_write lib fd bs os)\<rparr>))"

definition ORDWR :: int where "ORDWR = 2"

definition cookies :: "('os, 'd) hlib \<Rightarrow> nat \<Rightarrow> int \<Rightarrow> ('os, 'd, int) hm" where
  "cookies lib k fd s =
     (let (cfd, os) = h_open lib ''/mnt/webcookies/http'' ORDWR (h_os s);
          s = s\<lparr>h_os := os\<rparr>
      in if cfd < 0 then ret (cfd, s)
         else let (n, os) = h_write lib cfd (''http://'' @ opt_str (host (h_url s)) @ opt_str (page (h_url s))) os;
                  s = s\<lparr>h_os := os\<rparr>
              in if 0 < n then rbind (cookie_loop lib k fd cfd s) (\<lambda>(_, s). ret (cfd, s))
                 else ret (-1, s\<lparr>h_os := h_close lib cfd os\<rparr>))"

text \<open>The descriptor for the server, or -1.\<close>

definition http_connect :: "('os, 'd) hlib \<Rightarrow> hopt \<Rightarrow> ('os, 'd) hget \<Rightarrow> int \<times> ('os, 'd) hget" where
  "http_connect lib op s =
     (let addr = (case px_host op of None \<Rightarrow> netmkaddr lib (opt_str (host (h_url s))) (tcpdir op) (port (h_url s))
                  | Some h \<Rightarrow> netmkaddr lib h (tcpdir op) (px_port op));
          (fd, os) = h_dial lib addr (h_os s)
      in if fd < 0 then (-1, s\<lparr>h_os := os\<rparr>)
         else if u_method (h_url s) = Https
         then (let (tfd, os) = h_tls lib fd os in (if tfd < 0 then -1 else tfd, s\<lparr>h_os := h_close lib fd os\<rparr>))
         else (fd, s\<lparr>h_os := os\<rparr>))"

text \<open>The answer's code: whether it is a redirection, whether it asks for a password.\<close>

definition http_code :: "('os, 'd) hlib \<Rightarrow> hopt \<Rightarrow> int \<Rightarrow> ('os, 'd, bool \<times> bool) hm" where
  "http_code lib op code s =
     (if code = 200 \<or> code = 201 \<or> code = 202
      then if ofile op = None \<and> r_start s \<noteq> 0 then hfatal ''page changed underfoot'' else ret ((False, False), s)
      else if code = 204 then hfatal ''No Content''
      else if code = 206 then ret ((False, False), setoffset lib (r_start s) s)
      else if code = 301 \<or> code = 302 then ret ((True, False), s\<lparr>h_url := (h_url s)\<lparr>postbody := None\<rparr>\<rparr>)
      else if code = 304 then ret ((False, False), s)
      else if code = 400 then hfatal ''Bad Request''
      else if code = 401 then ret ((False, True), s)
      else if code = 402 then hfatal ''Unauthorized''
      else if code = 403 then hfatal ''Forbidden by server''
      else if code = 404 then hfatal ''Not found on server''
      else if code = 407 then hfatal ''Proxy authentication required''
      else if code = 500 then hfatal ''Server choked''
      else if code = 501 then hfatal ''Server can't do it!''
      else if code = 502 then hfatal ''Bad gateway''
      else if code = 503 then hfatal ''Service unavailable''
      else hfatal ''Unknown response code'')"

text \<open>One request. It gives the result of \<open>dohttp\<close>, or the descriptor from which the page comes, or the descriptor of a
  connection after which another request is made.\<close>

datatype answer = Done int | Body int | Again int

definition http_request :: "('os, 'd) hlib \<Rightarrow> hopt \<Rightarrow> nat \<Rightarrow> int \<Rightarrow> ('os, 'd, answer) hm" where
  "http_request lib op k mtime s =
     (let (fd, s) = http_connect lib op s
      in if fd < 0 then ret (Done Error, s)
         else
           let s = fold (dfprint lib fd) (request_lines op (h_url s)) s;
               s = fold (dfprint lib fd) (range_lines lib (h_url s) (r_start s) mtime) s
           in rbind (cookies lib k fd s) (\<lambda>(cfd, s).
              rbind (httprcode lib k fd (initibuf (dfprint lib fd crlf s))) (\<lambda>(code, s).
                if code = Error \<or> code = Eof
                then ret (Done code, s\<lparr>h_os := h_close lib cfd (h_close lib fd (h_os s))\<rparr>)
                else rbind (http_code lib op code s) (\<lambda>((redir, auth), s).
                  let s = s\<lparr>h_url := (h_url s)\<lparr>redirect := None\<rparr>\<rparr>
                  in rbind (httpheaders lib op k k fd cfd s) (\<lambda>(rv, s).
                    let s = s\<lparr>h_os := h_close lib cfd (h_os s)\<rparr>
                    in if rv \<noteq> 0 then ret (Done rv, s\<lparr>h_os := h_close lib fd (h_os s)\<rparr>)
                       else if \<not> redir \<and> \<not> auth then ret (Body fd, s)
                       else if \<not> redir then ret (Again fd, s)
                       else case redirect (h_url s) of
                         None \<Rightarrow> hfatal ''redirect: no URL''
                       | Some x \<Rightarrow> (let (ok, u) = crackurl (h_url s) x
                                    in if ok then ret (Again fd, s\<lparr>h_url := u\<rparr>) else hfatal ''redirect: bad url''))))))"

text \<open>At most \<open>n\<close> requests. After the last one its page is taken, whatever it is.\<close>

primrec http_loop :: "('os, 'd) hlib \<Rightarrow> hopt \<Rightarrow> nat \<Rightarrow> int \<Rightarrow> nat \<Rightarrow> int \<Rightarrow> ('os, 'd, answer) hm" where
  "http_loop lib op k mtime 0 fd s = ret (Body fd, s)"
| "http_loop lib op k mtime (Suc n) fd s =
     rbind (http_request lib op k mtime s) (\<lambda>(a, s). case a of Again fd \<Rightarrow> http_loop lib op k mtime n fd s | _ \<Rightarrow> ret (a, s))"

text \<open>The page, in pieces of at most 1024 bytes. \<open>fuel\<close> counts them.\<close>

fun transfer :: "('os, 'd) hlib \<Rightarrow> nat \<Rightarrow> int \<Rightarrow> int \<Rightarrow> ('os, 'd, int) hm" where
  "transfer lib 0 fd tot s = None"
| "transfer lib (Suc k) fd tot s =
     (let ((n, bs), s) = readibuf lib fd 1024 s
      in if n \<le> 0 then ret (tot, s)
         else rbind (hget_output lib bs s) (\<lambda>(m, s). if m \<noteq> n then ret (tot, s) else transfer lib k fd (int32 (tot + n)) s))"

text \<open>Division of C.\<close>

definition cdiv :: "int \<Rightarrow> int \<Rightarrow> int" where
  "cdiv a b = sgn a * sgn b * (\<bar>a\<bar> div \<bar>b\<bar>)"

definition back_up :: "int \<Rightarrow> int" where
  "back_up start = (if start = 0 then 0 else int32 (cdiv (int32 (start - 1)) 512 * 512))"

definition dohttp :: "('os, 'd) hlib \<Rightarrow> hopt \<Rightarrow> nat \<Rightarrow> int \<Rightarrow> ('os, 'd, int) hm" where
  "dohttp lib op k mtime s =
     rbind (http_loop lib op k mtime 32 (-1) (s\<lparr>r_start := back_up (r_start s)\<rparr>)) (\<lambda>(a, s).
       case a of
         Done n \<Rightarrow> ret (n, s)
       | Again fd \<Rightarrow> ret (Error, s)
       | Body fd \<Rightarrow>
           rbind (transfer lib k fd 0 s) (\<lambda>(tot, s).
             let s = s\<lparr>h_os := h_close lib fd (h_os s)\<rparr>
             in ret (tot, if ofile op \<noteq> None \<and> u_mtime (h_url s) \<noteq> 0
                          then s\<lparr>h_os := h_set_mtime lib (o_fd s) (u_mtime (h_url s)) (h_os s)\<rparr> else s)))"

section \<open>An ftp transfer\<close>

definition Extra :: int where "Extra = 1"
definition Success :: int where "Success = 2"
definition Incomplete :: int where "Incomplete = 3"
definition TempFail :: int where "TempFail = 4"

text \<open>The command is made in 2044 bytes, NUL included.\<close>

definition ftpcmd :: "('os, 'd) hlib \<Rightarrow> int \<Rightarrow> string \<Rightarrow> ('os, 'd) hget \<Rightarrow> ('os, 'd) hget" where
  "ftpcmd lib ctl cmd s = s\<lparr>h_os := snd (h_write lib ctl (take 2043 cmd @ crlf) (h_os s))\<rparr>"

text \<open>A reply is over with the line that has three digits and a blank in front.\<close>

definition ftp_final :: "string \<Rightarrow> int option" where
  "ftp_final msg =
     (let (v, rest) = strtol10 msg
      in if 100 \<le> v \<and> v < 600 \<and> 3 \<le> length msg \<and> rest = drop 3 msg \<and> head_is rest CHR '' '' then Some (v div 100) else None)"

fun ftprcode :: "('os, 'd) hlib \<Rightarrow> nat \<Rightarrow> nat \<Rightarrow> int \<Rightarrow> int \<Rightarrow> ('os, 'd, int \<times> string) hm" where
  "ftprcode lib lk 0 ctl len s = None"
| "ftprcode lib lk (Suc k) ctl len s =
     rbind (readline lib lk ctl (len - 1) s) (\<lambda>(r, s).
       case r of
         None \<Rightarrow> ret ((-1, []), s)
       | Some line \<Rightarrow> (case ftp_final (cstr line) of Some c \<Rightarrow> ret ((c, cstr line), s) | None \<Rightarrow> ftprcode lib lk k ctl len s))"

abbreviation ftpreply :: "('os, 'd) hlib \<Rightarrow> nat \<Rightarrow> int \<Rightarrow> ('os, 'd, int \<times> string) hm" where
  "ftpreply lib k ctl s \<equiv> ftprcode lib k k ctl 1024 s"

text \<open>0, or \<open>Server\<close>.\<close>

definition hello :: "('os, 'd) hlib \<Rightarrow> nat \<Rightarrow> int \<Rightarrow> ('os, 'd, int) hm" where
  "hello lib k ctl s = rbind (ftpreply lib k ctl s) (\<lambda>((c, msg), s). ret (if c \<noteq> Success then Server else 0, s))"

definition logon :: "('os, 'd) hlib \<Rightarrow> nat \<Rightarrow> int \<Rightarrow> ('os, 'd, int) hm" where
  "logon lib k ctl s =
     rbind (ftpreply lib k ctl (ftpcmd lib ctl ''USER anonymous'' s)) (\<lambda>((c, msg), s).
       if c = Success then ret (0, s)
       else if c \<noteq> Incomplete then ret (Server, s)
       else rbind (ftpreply lib k ctl (ftpcmd lib ctl (''PASS '' @ h_user lib (h_os s) @ ''@closedmind.org'') s)) (\<lambda>((c, msg), s).
         ret (if c \<noteq> Success then Server else 0, s)))"

definition xfertype :: "('os, 'd) hlib \<Rightarrow> nat \<Rightarrow> int \<Rightarrow> string \<Rightarrow> ('os, 'd, int) hm" where
  "xfertype lib k ctl t s =
     rbind (ftpreply lib k ctl (ftpcmd lib ctl (''TYPE '' @ t) s)) (\<lambda>((c, msg), s). ret (if c \<noteq> Success then Server else 0, s))"

text \<open>The characters are not checked to be digits.\<close>

definition getdec :: "string \<Rightarrow> nat \<Rightarrow> int" where
  "getdec p n = fold (\<lambda>c x. x * 10 + (int (of_char c) - (if 128 \<le> (of_char c :: nat) then 256 else 0) - 48)) (take n p) 0"

definition mdtm :: "string \<Rightarrow> tm" where
  "mdtm p = \<lparr>tm_sec = getdec (drop 12 p) 2, tm_min = getdec (drop 10 p) 2, tm_hour = getdec (drop 8 p) 2, tm_mday = getdec (drop 6 p) 2,
     tm_mon = getdec (drop 4 p) 2 - 1, tm_year = getdec p 4 - 1900, tm_wday = 0, tm_yday = 0\<rparr>"

definition ftp_rest :: "('os, 'd) hlib \<Rightarrow> nat \<Rightarrow> int \<Rightarrow> ('os, 'd, int) hm" where
  "ftp_rest lib k ctl s =
     (if 0 < r_start s
      then rbind (ftpreply lib k ctl (ftpcmd lib ctl (''REST '' @ int_str (r_start s)) s)) (\<lambda>((c, msg), s).
             ret (0, if c = Incomplete then setoffset lib (r_start s) s else s\<lparr>r_start := 0\<rparr>))
      else ret (0, s))"

text \<open>1 when the file is there already.\<close>

definition ftprestart :: "('os, 'd) hlib \<Rightarrow> nat \<Rightarrow> int \<Rightarrow> int \<Rightarrow> ('os, 'd, int) hm" where
  "ftprestart lib k ctl mtime s =
     rbind (ftpreply lib k ctl (ftpcmd lib ctl (''MDTM '' @ opt_str (page (h_url s))) s)) (\<lambda>((c, msg), s).
       if c \<noteq> Success \<or> length msg < 18 then ret (0, s\<lparr>r_start := 0\<rparr>)
       else let s = (if mtime < tm2sec lib (mdtm (drop 4 msg)) then s\<lparr>r_start := 0\<rparr> else s)
            in rbind (ftpreply lib k ctl (ftpcmd lib ctl (''SIZE '' @ opt_str (page (h_url s))) s)) (\<lambda>((c, msg), s).
                 if c = Success
                 then let x = atoi (drop 4 msg)
                      in if r_start s = x then ret (1, s) else ftp_rest lib k ctl (s\<lparr>r_end := x\<rparr>)
                 else ftp_rest lib k ctl s))"

text \<open>The descriptor of the data connection, or negative.\<close>

definition ftp_passive :: "('os, 'd) hlib \<Rightarrow> hopt \<Rightarrow> nat \<Rightarrow> int \<Rightarrow> ('os, 'd, int) hm" where
  "ftp_passive lib op k ctl s =
     rbind (ftpreply lib k ctl (ftpcmd lib ctl ''PASV'' s)) (\<lambda>((c, msg), s).
       if c \<noteq> Success then ret (Error, s)
       else let p = (case strchr msg CHR ''('' of Some i \<Rightarrow> drop (Suc i) msg | None \<Rightarrow> dropWhile (\<lambda>c. \<not> is_digit c) (drop 3 msg));
                f = getfields lib p 6 False '',)''
            in if length f < 6 then ret (Server, s)
               else let ip = take 31 (f ! 0 @ ''.'' @ f ! 1 @ ''.'' @ f ! 2 @ ''.'' @ f ! 3);
                        pt = (atoi (f ! 4) mod 256) * 256 + atoi (f ! 5) mod 256;
                        (fd, os) = h_dial lib (netmkaddr lib ip (tcpdir op) (int_str pt)) (h_os s);
                        s = s\<lparr>h_os := os\<rparr>
                    in if fd < 0 then ret (Error, s)
                       else rbind (ftpreply lib k ctl (ftpcmd lib ctl (''RETR '' @ opt_str (page (h_url s))) s)) (\<lambda>((c, msg), s).
                         ret (if c \<noteq> Extra then Error else fd, s)))"

definition OREAD :: int where "OREAD = 0"

text \<open>The address and the port in the file \<open>local\<close>; without a \<open>!\<close> in it \<open>atoi\<close> gets a null pointer.\<close>

definition getaddrport :: "('os, 'd) hlib \<Rightarrow> string \<Rightarrow> ('os, 'd, (nat list \<times> nat \<times> nat) option) hm" where
  "getaddrport lib dir s =
     (let (fd, os) = h_open lib (dir @ ''/local'') OREAD (h_os s);
          s = s\<lparr>h_os := os\<rparr>
      in if fd < 0 then ret (None, s)
         else let ((n, bs), os) = h_read lib fd 255 os;
                  s = s\<lparr>h_os := h_close lib fd os\<rparr>
              in if n \<le> 0 then ret (None, s)
                 else case strchr (cstr bs) CHR ''!'' of
                   None \<Rightarrow> Some (Inl HUndef)
                 | Some i \<Rightarrow> (let pt = atoi (drop (Suc i) (cstr bs))
                             in ret (Some (v4parseip lib (take i bs), nat (pt div 256 mod 256), nat (pt mod 256)), s)))"

definition ftp_active :: "('os, 'd) hlib \<Rightarrow> hopt \<Rightarrow> nat \<Rightarrow> int \<Rightarrow> ('os, 'd, int) hm" where
  "ftp_active lib op k ctl s =
     (let ((afd, dir), os) = h_announce lib (tcpdir op @ ''!*!0'') (h_os s);
          s = s\<lparr>h_os := os\<rparr>
      in if afd < 0 then ret (Error, s)
         else rbind (getaddrport lib dir s) (\<lambda>(r, s).
           case r of
             None \<Rightarrow> ret (Error, s\<lparr>h_os := h_close lib afd (h_os s)\<rparr>)
           | Some (ip, p1, p2) \<Rightarrow>
               let cmd = ''PORT '' @ dec_str (ip ! 0) @ '','' @ dec_str (ip ! 1) @ '','' @ dec_str (ip ! 2) @ '','' @ dec_str (ip ! 3)
                         @ '','' @ dec_str p1 @ '','' @ dec_str p2
               in rbind (ftpreply lib k ctl (ftpcmd lib ctl cmd s)) (\<lambda>((c, msg), s).
                    if c \<noteq> Success then ret (Error, s\<lparr>h_os := h_close lib afd (h_os s)\<rparr>)
                    else rbind (ftpreply lib k ctl (ftpcmd lib ctl (''RETR '' @ opt_str (page (h_url s))) s)) (\<lambda>((c, msg), s).
                      if c \<noteq> Extra then ret (Server, s\<lparr>h_os := h_close lib afd (h_os s)\<rparr>)
                      else let ((lcfd, ldir), os) = h_listen lib dir (h_os s)
                           in if lcfd < 0 then ret (Error, s\<lparr>h_os := h_close lib afd os\<rparr>)
                              else let (dfd, os) = h_accept lib lcfd ldir os
                                   in ret (if dfd < 0 then Error else dfd, s\<lparr>h_os := h_close lib lcfd (h_close lib afd os)\<rparr>)))))"

text \<open>The process that takes the data; nobody looks at its result. \<open>fuel\<close> counts the pieces.\<close>

fun ftpxferproc :: "('os, 'd) hlib \<Rightarrow> nat \<Rightarrow> int \<Rightarrow> int \<Rightarrow> ('os, 'd, int) hm" where
  "ftpxferproc lib 0 fd n s = None"
| "ftpxferproc lib (Suc k) fd n s =
     (let ((i, bs), os) = h_read lib fd 1024 (h_os s);
          s = s\<lparr>h_os := os\<rparr>
      in if i = 0 then ret (n, s)
         else if i < 0 then ret (Error, s)
         else rbind (hget_output lib bs s) (\<lambda>(m, s).
           if m \<noteq> i then ret (Error, s) else ftpxferproc lib k fd (int32 (n + i)) (s\<lparr>r_start := int32 (r_start s + i)\<rparr>)))"

definition terminateftp :: "('os, 'd) hlib \<Rightarrow> int \<Rightarrow> int \<Rightarrow> ('os, 'd, int) hm" where
  "terminateftp lib ctl rv s = ret (rv, s\<lparr>h_os := h_close lib ctl (h_os s)\<rparr>)"

definition ftp_data :: "('os, 'd) hlib \<Rightarrow> nat \<Rightarrow> int \<Rightarrow> int \<Rightarrow> ('os, 'd, int) hm" where
  "ftp_data lib k ctl data s =
     rbind (ftpxferproc lib k data 0 s) (\<lambda>(_, s).
     rbind (ftprcode lib k k ctl 64 s) (\<lambda>((c, msg), s).
       ret (if c = Success then Eof else if c = TempFail then Server else Error,
            s\<lparr>h_os := h_close lib data (h_close lib ctl (h_os s))\<rparr>)))"

definition doftp :: "('os, 'd) hlib \<Rightarrow> hopt \<Rightarrow> nat \<Rightarrow> int \<Rightarrow> ('os, 'd, int) hm" where
  "doftp lib op k mtime s =
     (let addr = (case px_host op of None \<Rightarrow> netmkaddr lib (opt_str (host (h_url s))) (tcpdir op) (port (h_url s))
                  | Some h \<Rightarrow> netmkaddr lib h (tcpdir op) (px_port op));
          (ctl, os) = h_dial lib addr (h_os s);
          s = s\<lparr>h_os := os\<rparr>
      in if ctl < 0 then ret (Error, s)
         else rbind (hello lib k ctl (initibuf s)) (\<lambda>(rv, s).
           if rv < 0 then terminateftp lib ctl rv s
           else rbind (logon lib k ctl s) (\<lambda>(rv, s).
             if rv < 0 then terminateftp lib ctl rv s
             else rbind (xfertype lib k ctl ''I'' s) (\<lambda>(rv, s).
               if rv < 0 then terminateftp lib ctl rv s
               else rbind (ftprestart lib k ctl mtime s) (\<lambda>(up, s).
                 if 0 < up then terminateftp lib ctl Eof s
                 else rbind (ftp_passive lib op k ctl s) (\<lambda>(fd, s).
                   rbind (if fd < 0 then ftp_active lib op k ctl s else ret (fd, s)) (\<lambda>(fd, s).
                     if fd < 0 then ret (Error, s) else ftp_data lib k ctl fd s)))))))"

section \<open>The program\<close>

definition post_body :: "string list \<Rightarrow> string option" where
  "post_body ts = (if ts = [] then None else Some (fold (\<lambda>t b. take 4095 (if b = [] then t else b @ ''&'' @ t)) ts []))"

definition url0 :: url where
  "url0 = \<lparr>u_method = 0, host = None, port = [], page = None, etag = None, redirect = None, postbody = None, cred = None, u_mtime = 0\<rparr>"

definition init_out :: "('os, 'd) hlib \<Rightarrow> hopt \<Rightarrow> url \<Rightarrow> 'os \<Rightarrow> (hstop, int \<times> ('os, 'd) hget) res" where
  "init_out lib op u os =
     (let s = \<lparr>h_url = u, r_start = 0, r_end = -1, o_fd = 1, o_offset = 0, o_written = 0, o_curr = None, o_hiwat = None,
               b_buf = replicate 4096 NUL, b_rp = 0, b_wp = 0, h_os = os\<rparr>
      in case ofile op of
           None \<Rightarrow> ret (0, s)
         | Some f \<Rightarrow>
             (case h_dirstat lib f os of
                None \<Rightarrow> (let (fd, os) = h_create lib f os
                        in if fd < 0 then hfatal ''creating'' else ret (0, s\<lparr>o_fd := fd, h_os := os\<rparr>))
              | Some (len, mtime) \<Rightarrow>
                  (let (fd, os) = h_open lib f 1 os
                   in if fd < 0 then hfatal ''can't open'' else ret (mtime, s\<lparr>o_fd := fd, h_os := os, r_start := int32 len\<rparr>))))"

text \<open>Requests until the end of the page, or 11 errors without progress. \<open>fuel\<close> counts them.\<close>

fun get_loop :: "('os, 'd) hlib \<Rightarrow> hopt \<Rightarrow> nat \<Rightarrow> nat \<Rightarrow> int \<Rightarrow> nat \<Rightarrow> ('os, 'd, unit) hm" where
  "get_loop lib op lk 0 mtime errs s = None"
| "get_loop lib op lk (Suc k) mtime errs s =
     rbind ((if u_method (h_url s) = Ftp then doftp lib op lk mtime else dohttp lib op lk mtime) (setoffset lib 0 s)) (\<lambda>(n, s).
       if n = Eof then ret ((), s)
       else if n = Error then (if errs < 10 then get_loop lib op lk k mtime (errs + 1) s else hfatal ''too many errors with no progress'')
       else if n = Server then hfatal ''server returned''
       else let s = s\<lparr>r_start := int32 (r_start s + n)\<rparr>
            in if r_end s \<le> r_start s then ret ((), s) else get_loop lib op lk k mtime 0 s)"

text \<open>The directory of the network and the proxy.\<close>

definition set_net :: "hopt \<Rightarrow> url \<Rightarrow> hopt" where
  "set_net op px = op\<lparr>tcpdir := (case net op of None \<Rightarrow> ''tcp'' | Some n \<Rightarrow> n @ ''/tcp''), px_host := host px, px_port := port px\<rparr>"

definition hget_main :: "('os, 'd) hlib \<Rightarrow> hopt \<Rightarrow> string option \<Rightarrow> nat \<Rightarrow> string list \<Rightarrow> string \<Rightarrow> 'os \<Rightarrow> (hstop, unit \<times> ('os, 'd) hget) res" where
  "hget_main lib op proxy k bodies arg os =
     (if net op \<noteq> None \<and> 35 < length (the (net op)) then hfatal ''network mount point too long''
      else rbind (init_out lib op (url0\<lparr>postbody := post_body bodies\<rparr>) os) (\<lambda>(mtime, s).
        let (ok, u) = crackurl (h_url s) arg;
            (okx, px) = (case proxy of None \<Rightarrow> (True, url0) | Some x \<Rightarrow> crackurl url0 x)
        in if \<not> ok \<or> \<not> okx then hfatal ''bad url''
           else get_loop lib (set_net op px) k k mtime 0 (s\<lparr>h_url := u\<rparr>)))"

end
