(* ===== verification/HgetIn.thy ===== *)
theory HgetIn
  imports Hget
begin

text \<open>
  What hget reads. The input is seen as one stream, the bytes in the buffer and those that the server still sends: a
  line that is read is the next of the stream, a line that is pushed back is its next again, and after the headers the
  stream is the page.
\<close>

section \<open>The stream\<close>

record 'os hviews =
  v_in :: "'os \<Rightarrow> string"
  v_out :: "'os \<Rightarrow> string"

text \<open>Reading from the server gives some of what it sends, as long as there is any.\<close>

definition recv_law :: "('os, 'd) hlib \<Rightarrow> 'os hviews \<Rightarrow> int \<Rightarrow> bool" where
  "recv_law lib v fd \<longleftrightarrow> (\<forall>os n. let ((i, bs), os') = h_read lib fd n os
     in i = int (length bs) \<and> length bs \<le> n \<and> v_in v os = bs @ v_in v os' \<and> (bs = [] \<longrightarrow> 0 < n \<longrightarrow> v_in v os' = []) \<and> v_out v os' = v_out v os)"

definition buf_in :: "('os, 'd) hget \<Rightarrow> bool" where
  "buf_in s \<longleftrightarrow> length (b_buf s) = 4096 \<and> b_rp s \<le> b_wp s \<and> b_wp s \<le> 4096"

definition pend :: "'os hviews \<Rightarrow> ('os, 'd) hget \<Rightarrow> string" where
  "pend v s = fld (b_rp s) (b_wp s - b_rp s) (b_buf s) @ v_in v (h_os s)"

text \<open>Only the buffer and the system have changed, and the output not at all.\<close>

definition only_in :: "'os hviews \<Rightarrow> ('os, 'd) hget \<Rightarrow> ('os, 'd) hget \<Rightarrow> bool" where
  "only_in v s s' \<longleftrightarrow> buf_in s' \<and> v_out v (h_os s') = v_out v (h_os s) \<and> h_url s' = h_url s \<and> r_start s' = r_start s \<and> r_end s' = r_end s
     \<and> o_fd s' = o_fd s \<and> o_offset s' = o_offset s \<and> o_written s' = o_written s \<and> o_curr s' = o_curr s \<and> o_hiwat s' = o_hiwat s"

lemma only_in_refl: "buf_in s \<Longrightarrow> only_in v s s"
  by (simp add: only_in_def)

lemma only_in_trans: "only_in v s s' \<Longrightarrow> only_in v s' s'' \<Longrightarrow> only_in v s s''"
  by (simp add: only_in_def)

section \<open>Lines\<close>

lemma pend_byte:
  assumes "buf_in s" "b_rp s < b_wp s"
  shows "pend v s = b_buf s ! b_rp s # pend v (s\<lparr>b_rp := b_rp s + 1\<rparr>)"
proof -
  have "drop (b_rp s) (b_buf s) = b_buf s ! b_rp s # drop (b_rp s + 1) (b_buf s)"
    using assms by (simp add: buf_in_def Cons_nth_drop_Suc)
  moreover have "b_wp s - b_rp s = Suc (b_wp s - (b_rp s + 1))" using assms by simp
  ultimately show ?thesis by (simp add: pend_def fld_def)
qed

text \<open>When the buffer is empty more bytes come behind what has been read.\<close>

lemma fill_reads:
  assumes "recv_law lib v fd" "buf_in s" "b_rp s = b_wp s" "b_wp s \<le> 2048" "pend v s \<noteq> []"
  shows "\<exists>n s'. fill lib fd s = ret (n, s') \<and> 0 < n \<and> only_in v s s' \<and> pend v s' = pend v s \<and> b_rp s' = b_rp s \<and> b_rp s' < b_wp s'"
proof -
  obtain n bs os where r: "h_read lib fd 2048 (h_os s) = ((n, bs), os)" by (metis surj_pair)
  have law: "n = int (length bs)" "length bs \<le> 2048" "v_in v (h_os s) = bs @ v_in v os" "bs = [] \<longrightarrow> v_in v os = []" "v_out v os = v_out v (h_os s)"
    using assms(1) [unfolded recv_law_def, rule_format, of 2048 "h_os s"] r by simp_all
  have ne: "bs \<noteq> []" using assms(3,5) law(3,4) by (auto simp: pend_def fld_def)
  define s' where "s' = s\<lparr>h_os := os, b_buf := put (b_wp s) bs (b_buf s), b_wp := b_wp s + length bs\<rparr>"
  have l: "length (put (b_wp s) bs (b_buf s)) = 4096" using assms(2,4) law(2) by (subst length_put) (auto simp: buf_in_def)
  have "fill lib fd s = ret (n, s')" using r ne law(1,2) assms(4) by (simp add: fill_def s'_def)
  moreover have "pend v s' = pend v s"
    using assms(2-4) law(2,3) fld_put_same [of "b_wp s" bs "b_buf s"] by (simp add: pend_def s'_def buf_in_def fld_def)
  ultimately show ?thesis using l ne law assms(2-4)
    by (intro exI [where x = n] exI [where x = s']) (auto simp: s'_def only_in_def buf_in_def)
qed

lemma line_loop_reads:
  assumes "recv_law lib v fd"
  shows "buf_in s \<Longrightarrow> pend v s = l @ NL # rest \<Longrightarrow> NL \<notin> set l \<Longrightarrow> b_rp s + length l < 2048 \<Longrightarrow> length l < k \<Longrightarrow>
    \<exists>s'. line_loop lib fd k len acc s = ret (Some (False, acc @ take (nat len) (l @ [NL])), s') \<and> only_in v s s' \<and> pend v s' = rest
      \<and> b_rp s' = b_rp s + length l + 1"
proof (induction k arbitrary: l len acc s)
  case 0
  then show ?case by simp
next
  case (Suc k)
  have "\<exists>n s1. (if b_wp s \<le> b_rp s then fill lib fd s else ret (1, s)) = ret (n, s1) \<and> 0 < n \<and> only_in v s s1 \<and> pend v s1 = l @ NL # rest
    \<and> b_rp s1 = b_rp s \<and> b_rp s1 < b_wp s1"
  proof (cases "b_wp s \<le> b_rp s")
    case True
    then have "b_rp s = b_wp s" "b_wp s \<le> 2048" "pend v s \<noteq> []" using Suc.prems by (auto simp: buf_in_def)
    from fill_reads [OF assms Suc.prems(1) this] show ?thesis using True Suc.prems(2) by simp
  next
    case False
    then show ?thesis using Suc.prems(1,2) only_in_refl by fastforce
  qed
  then obtain n s1 where s1: "(if b_wp s \<le> b_rp s then fill lib fd s else ret (1, s)) = ret (n, s1)" "0 < n" "only_in v s s1"
    "pend v s1 = l @ NL # rest" "b_rp s1 = b_rp s" "b_rp s1 < b_wp s1" by blast
  have ok: "buf_in s1" using s1(3) by (simp add: only_in_def)
  define s2 where "s2 = s1\<lparr>b_rp := b_rp s1 + 1\<rparr>"
  have byte: "b_buf s1 ! b_rp s1 # pend v s2 = l @ NL # rest" using pend_byte [OF ok s1(6), of v] s1(4) by (simp add: s2_def)
  have "only_in v s1 s2" using ok s1(6) by (simp add: only_in_def s2_def buf_in_def)
  from only_in_trans [OF s1(3) this] have o2: "only_in v s s2" "buf_in s2" "b_rp s2 = b_rp s + 1"
    using s1(5) by (simp_all add: only_in_def) (simp add: s2_def)
  show ?case
  proof (cases l)
    case Nil
    then have "b_buf s1 ! b_rp s1 = NL" "pend v s2 = rest" using byte by auto
    moreover have "take (nat len) [NL] = (if 0 < len then [NL] else [])" by (cases "nat len") auto
    ultimately show ?thesis using s1(1,2) o2 Nil
      by (intro exI [where x = s2]) (simp add: s2_def split del: if_split split: if_split)
  next
    case (Cons c l')
    then have b: "b_buf s1 ! b_rp s1 = c" "pend v s2 = l' @ NL # rest" "c \<noteq> NL" "NL \<notin> set l'" using byte Suc.prems(3) by auto
    have "b_rp s2 + length l' < 2048" "length l' < k" using o2(3) Suc.prems(4,5) Cons by auto
    from Suc.IH [OF o2(2) b(2,4) this, of "if 0 < len then len - 1 else len" "if 0 < len then acc @ [c] else acc"] obtain s3 where
      s3: "line_loop lib fd k (if 0 < len then len - 1 else len) (if 0 < len then acc @ [c] else acc) s2 =
          ret (Some (False, (if 0 < len then acc @ [c] else acc) @ take (nat (if 0 < len then len - 1 else len)) (l' @ [NL])), s3)"
        "only_in v s2 s3" "pend v s3 = rest" "b_rp s3 = b_rp s2 + length l' + 1" by blast
    have t: "(if 0 < len then acc @ [c] else acc) @ take (nat (if 0 < len then len - 1 else len)) (l' @ [NL]) = acc @ take (nat len) (l @ [NL])"
    proof (cases "0 < len")
      case True
      then have "nat len = Suc (nat (len - 1))" by simp
      then show ?thesis using True Cons by simp
    qed simp
    have "line_loop lib fd (Suc k) len acc s = ret (Some (False, acc @ take (nat len) (l @ [NL])), s3)"
      using s1(1,2) b(1,3) s3(1) [unfolded t] by (simp add: s2_def del: take_append split del: if_split)
    then show ?thesis using only_in_trans [OF o2(1) s3(2)] s3(3,4) o2(3) Cons by auto
  qed
qed

lemma readline_reads:
  assumes "recv_law lib v fd" "buf_in s" "pend v s = l @ NL # rest" "NL \<notin> set l" "b_rp s + length l < 2048" "length l < k" "int (length l) < len - 1"
  shows "\<exists>s'. readline lib k fd len s = ret (Some (drop_white l), s') \<and> only_in v s s' \<and> pend v s' = rest \<and> b_rp s' = b_rp s + length l + 1"
proof -
  have "take (nat (len - 1)) (l @ [NL]) = l @ [NL]" using assms(7) by simp
  moreover have "drop_white (l @ [NL]) = drop_white l" by (simp add: drop_white_def is_white_def)
  ultimately show ?thesis using line_loop_reads [OF assms(1-6), of "len - 1" "[]"] by (auto simp: readline_def simp del: take_append)
qed

lemma unreadline_back:
  assumes "buf_in s" "NUL \<notin> set l" "length l < b_rp s"
  shows "\<exists>s'. unreadline l s = ret ((), s') \<and> only_in v s s' \<and> pend v s' = l @ NL # pend v s \<and> b_rp s' = 0"
proof -
  define n where "n = b_wp s - b_rp s"
  define x where "x = l @ NL # fld (b_rp s) n (b_buf s)"
  have c: "cstr l = l" using assms(2) by (rule cstr_id)
  have b: "length (b_buf s) = 4096" "length l + 1 + n \<le> 4096" "b_rp s + n \<le> 4096" using assms(1,3) by (auto simp: buf_in_def n_def)
  have lx: "length x = length l + 1 + n" using b(1,3) by (simp add: x_def fld_def)
  define s' where "s' = s\<lparr>b_buf := put 0 x (b_buf s), b_rp := 0, b_wp := length l + 1 + n\<rparr>"
  have "unreadline l s = ret ((), s')" using b(2) by (simp add: unreadline_def c Let_def n_def [symmetric] x_def [symmetric] s'_def)
  moreover have "fld 0 (length x) (put 0 x (b_buf s)) = x" using lx b by (intro fld_put_same) simp
  then have f: "fld 0 (length l + 1 + n) (put 0 x (b_buf s)) = x" unfolding lx .
  have "pend v s' = fld 0 (length l + 1 + n) (put 0 x (b_buf s)) @ v_in v (h_os s)" by (simp add: pend_def s'_def)
  then have "pend v s' = l @ NL # pend v s" unfolding f by (simp add: x_def pend_def n_def)
  moreover have "length (put 0 x (b_buf s)) = 4096" using lx b by (subst length_put) auto
  then have "only_in v s s'" using b by (simp add: only_in_def s'_def buf_in_def)
  ultimately show ?thesis by (auto simp: s'_def)
qed

section \<open>Headers\<close>

text \<open>A header as it is kept: one line without white space around it, with a colon. It ends with a newline, with a
  carriage return before it or not.\<close>

definition clean :: "string \<Rightarrow> bool" where
  "clean h \<longleftrightarrow> NL \<notin> set h \<and> NUL \<notin> set h \<and> h \<noteq> [] \<and> \<not> is_white (hd h) \<and> \<not> is_white (last h)"

definition header :: "string \<Rightarrow> bool" where
  "header h \<longleftrightarrow> clean h \<and> CHR '':'' \<in> set h"

lemma drop_white_clean: "clean h \<Longrightarrow> drop_white h = h \<and> drop_white (h @ [CHR 0x0D]) = h"
proof -
  assume c: "clean h"
  then obtain xs x where "h = xs @ [x]" by (cases h rule: rev_cases) (auto simp: clean_def)
  then have "dropWhile is_white (rev h) = rev h" using c by (simp add: clean_def)
  then show ?thesis by (simp add: drop_white_def is_white_def)
qed

text \<open>Lines of the stream: \<open>raw\<close> is a line as the server sends it.\<close>

definition raw :: "string \<Rightarrow> string \<Rightarrow> bool" where
  "raw l h \<longleftrightarrow> l = h \<or> l = h @ [CHR 0x0D]"

lemma raw_clean: "raw l h \<Longrightarrow> clean h \<or> h = [] \<Longrightarrow> NL \<notin> set l \<and> NUL \<notin> set l \<and> drop_white l = h \<and> length l \<le> length h + 1"
  using drop_white_clean [of h] by (auto simp: raw_def clean_def drop_white_def is_white_def)

lemma getheader_reads:
  assumes "recv_law lib v fd" "buf_in s" "pend v s = l1 @ NL # l2 @ NL # rest" "raw l1 h1" "header h1" "raw l2 h2" "header h2 \<or> h2 = []"
    and "b_rp s + length l1 + length l2 + 3 < 2048" "length l1 < k" "length l2 < k" "\<not> headerprint op"
  shows "\<exists>s'. getheader lib op k fd s = ret (Some h1, s') \<and> only_in v s s' \<and> pend v s' = h2 @ NL # rest \<and> b_rp s' = 0"
proof -
  have h1: "clean h1" "CHR '':'' \<in> set h1" using assms(5) by (auto simp: header_def)
  have h2: "clean h2 \<or> h2 = []" using assms(7) by (auto simp: header_def)
  have r1: "NL \<notin> set l1" "drop_white l1 = h1" using raw_clean [OF assms(4)] h1(1) by auto
  have r2: "NL \<notin> set l2" "drop_white l2 = h2" "length h2 \<le> length l2"
    using raw_clean [OF assms(6) h2] assms(6) by (simp_all add: raw_def) (metis le_refl length_append_singleton le_SucI)
  have "b_rp s + length l1 < 2048" "int (length l1) < 2047 - 1" using assms(8) by auto
  from readline_reads [OF assms(1-3) r1(1) this(1) assms(9) this(2)] obtain s1 where
    s1: "readline lib k fd 2047 s = ret (Some h1, s1)" "only_in v s s1" "pend v s1 = l2 @ NL # rest" "b_rp s1 = b_rp s + length l1 + 1"
    using r1(2) by auto
  have ok1: "buf_in s1" using s1(2) by (simp add: only_in_def)
  have lh: "length h1 \<le> length l1" using assms(4) by (auto simp: raw_def)
  have "b_rp s1 + length l2 < 2048" "int (length l2) < 2047 - int (length h1) - 1" using assms(8) s1(4) lh by auto
  from readline_reads [OF assms(1) ok1 s1(3) r2(1) this(1) assms(10) this(2)] obtain s2 where
    s2: "readline lib k fd (2047 - int (length h1)) s1 = ret (Some h2, s2)" "only_in v s1 s2" "pend v s2 = rest" "b_rp s2 = b_rp s1 + length l2 + 1"
    using r2(2) by auto
  have ok2: "buf_in s2" using s2(2) by (simp add: only_in_def)
  have nul: "NUL \<notin> set h1" "NUL \<notin> set h2" using h1(1) h2 by (auto simp: clean_def)
  from unreadline_back [OF ok2 nul(2)] s2(4) r2(3) obtain s3 where
    s3: "unreadline h2 s2 = ret ((), s3)" "only_in v s2 s3" "pend v s3 = h2 @ NL # rest" "b_rp s3 = 0"
    using s2(3) by auto
  obtain j where k: "k = Suc j" using assms(9) by (cases k) auto
  have "\<not> is_white (hd h2)" if "h2 \<noteq> []" using h2 that by (simp add: clean_def)
  then have e: "h2 = [] \<or> (hd h2 \<noteq> CHR '' '' \<and> hd h2 \<noteq> CHR 0x09)" by (auto simp: is_white_def)
  have "header_more lib k k fd h1 s1 = ret (Some h1, s3)" using s2(1) s3(1) e by (simp add: k)
  then have "getheader lib op k fd s = ret (Some h1, s3)"
    using s1(1) h1(2) assms(11) cstr_id [OF nul(1)] by (simp add: getheader_def Let_def)
  then show ?thesis using s3(3,4) only_in_trans [OF s1(2) only_in_trans [OF s2(2) s3(2)]] by blast
qed

lemma getheader_blank:
  assumes "recv_law lib v fd" "buf_in s" "pend v s = l @ NL # rest" "raw l []" "b_rp s + length l < 2048" "length l < k" "\<not> headerprint op"
  shows "\<exists>s'. getheader lib op k fd s = ret (Some [], s') \<and> only_in v s s' \<and> pend v s' = rest"
proof -
  have r: "NL \<notin> set l" "drop_white l = []" "int (length l) < 2047 - 1" using raw_clean [OF assms(4)] by auto
  from readline_reads [OF assms(1-3) r(1) assms(5,6) r(3)] obtain s' where
    "readline lib k fd 2047 s = ret (Some [], s')" "only_in v s s'" "pend v s' = rest" using r(2) by auto
  then show ?thesis using assms(7) by (simp add: getheader_def cstr_def Let_def)
qed

text \<open>Two states that differ in the buffer and the system only.\<close>

definition sim :: "('os, 'd) hget \<Rightarrow> ('os, 'd) hget \<Rightarrow> bool" where
  "sim s t \<longleftrightarrow> h_url t = h_url s \<and> r_start t = r_start s \<and> r_end t = r_end s \<and> o_fd t = o_fd s \<and> o_offset t = o_offset s
     \<and> o_written t = o_written s \<and> o_curr t = o_curr s \<and> o_hiwat t = o_hiwat s"

lemma only_in_sim: "only_in v s s' \<Longrightarrow> sim s s'"
  by (simp add: only_in_def sim_def)

lemma sim_trans: "sim s t \<Longrightarrow> sim t t' \<Longrightarrow> sim s t'"
  by (simp add: sim_def)

definition same_in :: "('os, 'd) hget \<Rightarrow> ('os, 'd) hget \<Rightarrow> bool" where
  "same_in s t \<longleftrightarrow> b_buf t = b_buf s \<and> b_rp t = b_rp s \<and> b_wp t = b_wp s \<and> h_os t = h_os s"

lemma same_in_pend: "same_in s t \<Longrightarrow> pend v t = pend v s \<and> buf_in t = buf_in s"
  by (simp add: same_in_def pend_def buf_in_def)

text \<open>All headers but the one that asks for a password read the clock at most.\<close>

definition auth_header :: "string \<Rightarrow> bool" where
  "auth_header h \<longleftrightarrow> cistrncmp h (header_names ! 6) (length (header_names ! 6))"

lemma do_header_sim:
  assumes "\<And>os. h_time lib os = T" "\<not> auth_header h" "sim s t" "do_header lib h s = ret ((), s')"
  shows "\<exists>t'. do_header lib h t = ret ((), t') \<and> sim s' t' \<and> same_in t t'"
proof -
  define f where "f = find (\<lambda>i. cistrncmp h (header_names ! i) (length (header_names ! i))) [0..<7]"
  show ?thesis
  proof (cases f)
    case None
    then show ?thesis using assms(3,4) by (simp add: do_header_def f_def [symmetric] same_in_def)
  next
    case (Some i)
    then have "i < 7" "cistrncmp h (header_names ! i) (length (header_names ! i))" by (auto simp: f_def find_Some_iff)
    then have "i \<noteq> 6" using assms(2) by (auto simp: auth_header_def)
    define p where "p = dropWhile (\<lambda>c. c = CHR '' '' \<or> c = CHR 0x09) (drop (length (header_names ! i)) h)"
    have d: "do_header lib h s = header_action lib i p s" for s :: "('a, 'b) hget"
      by (simp add: do_header_def f_def [symmetric] Some p_def)
    have "i = 0 \<or> i = 1 \<or> i = 2 \<or> i = 3 \<or> i = 4 \<or> i = 5" using \<open>i < 7\<close> \<open>i \<noteq> 6\<close> by auto
    then show ?thesis using assms(1,3,4) unfolding d
      by (elim disjE) (auto simp: header_action_def hhetag_def hhmtime_def hhclen_def hhcrange_def hhuri_def hhlocation_def Let_def
          sim_def same_in_def split: option.splits if_splits)
  qed
qed

fun run_headers :: "('os, 'd) hlib \<Rightarrow> string list \<Rightarrow> ('os, 'd, unit) hm" where
  "run_headers lib [] s = ret ((), s)"
| "run_headers lib (h # hs) s = rbind (do_header lib h s) (\<lambda>(_, s). run_headers lib hs s)"

fun lines :: "(string \<times> string) list \<Rightarrow> string" where
  "lines [] = []"
| "lines ((l, h) # ls) = l @ NL # lines ls"

text \<open>Headers, a blank line, and the page.\<close>

lemma httpheaders_reads:
  assumes "recv_law lib v fd" "\<And>os. h_time lib os = T" "\<not> headerprint op" "cfd < 0"
  shows "list_all (\<lambda>(l, h). raw l h \<and> header h \<and> \<not> auth_header h) ls \<Longrightarrow> raw b [] \<Longrightarrow> buf_in s \<Longrightarrow>
    pend v s = lines ls @ b @ NL # bd \<Longrightarrow> b_rp s + length (lines ls @ b) + 3 < 2048 \<Longrightarrow> 2048 < lk \<Longrightarrow> length ls < k \<Longrightarrow>
    sim s0 s \<Longrightarrow> run_headers lib (map snd ls) s0 = ret ((), t) \<Longrightarrow>
    \<exists>s'. httpheaders lib op lk k fd cfd s = ret (0, s') \<and> pend v s' = bd \<and> buf_in s' \<and> sim t s' \<and> v_out v (h_os s') = v_out v (h_os s)"
proof (induction "length ls" arbitrary: ls b k s s0)
  case 0
  have ls: "ls = []" using 0 by simp
  have "pend v s = b @ NL # bd" "b_rp s + length b < 2048" "length b < lk" using "0.prems" ls by auto
  from getheader_blank [OF assms(1) "0.prems"(3) this(1) "0.prems"(2) this(2,3) assms(3)] obtain s' where
    s': "getheader lib op lk fd s = ret (Some [], s')" "only_in v s s'" "pend v s' = bd" by blast
  obtain j where "k = Suc j" using "0.prems"(7) by (cases k) auto
  then have "httpheaders lib op lk k fd cfd s = ret (0, s')" using s'(1) by simp
  moreover have "sim t s'" using "0.prems"(8,9) ls only_in_sim [OF s'(2)] sim_trans by fastforce
  ultimately show ?case using s'(2,3) by (auto simp: only_in_def)
next
  case (Suc n xs)
  obtain l h ls where xs: "xs = (l, h) # ls" "length ls = n" using Suc.hyps(2) by (cases xs) auto
  note x = xs(1)
  have h: "raw l h" "header h" "\<not> auth_header h" using Suc.prems(1) by (auto simp: x)
  define l2 where "l2 = (case ls of [] \<Rightarrow> b | (l', h') # _ \<Rightarrow> l')"
  define h2 where "h2 = (case ls of [] \<Rightarrow> [] | (l', h') # _ \<Rightarrow> h')"
  define rest where "rest = (case ls of [] \<Rightarrow> bd | _ # ls' \<Rightarrow> lines ls' @ b @ NL # bd)"
  have split: "lines ls @ b @ NL # bd = l2 @ NL # rest" "length l2 \<le> length (lines ls @ b)"
    by (auto simp: l2_def rest_def split: list.splits)
  have r2: "raw l2 h2" "header h2 \<or> h2 = []" using Suc.prems(1,2) x by (auto simp: l2_def h2_def split: list.splits)
  have p: "pend v s = l @ NL # l2 @ NL # rest" using Suc.prems(4) split(1) by (simp add: x)
  have len: "b_rp s + length l + length l2 + 3 < 2048" "length l < lk" "length l2 < lk"
    using Suc.prems(5,6) split(2) by (auto simp: x)
  from getheader_reads [OF assms(1) Suc.prems(3) p h(1,2) r2 len assms(3)] obtain s1 where
    s1: "getheader lib op lk fd s = ret (Some h, s1)" "only_in v s s1" "pend v s1 = h2 @ NL # rest" "b_rp s1 = 0" by blast
  obtain t1 where t1: "do_header lib h s0 = ret ((), t1)" "run_headers lib (map snd ls) t1 = ret ((), t)"
    using Suc.prems(9) by (auto simp: x rbind_eq_ret)
  have "sim s0 s1" using Suc.prems(8) only_in_sim [OF s1(2)] by (rule sim_trans)
  from do_header_sim [OF assms(2) h(3) this t1(1)] obtain s2 where
    s2: "do_header lib h s1 = ret ((), s2)" "sim t1 s2" "same_in s1 s2" by blast
  have ps2: "pend v s2 = h2 @ NL # rest" "buf_in s2" "b_rp s2 = 0" "h_os s2 = h_os s1"
    using same_in_pend [OF s2(3), of v] s1 s2(3) by (auto simp: only_in_def same_in_def)
  obtain j where k: "k = Suc j" "length ls < j" using Suc.prems(7) x by (cases k) auto
  define ls' where "ls' = (case ls of [] \<Rightarrow> [] | (l', h') # r \<Rightarrow> (h', h') # r)"
  define b' where "b' = (if ls = [] then [] else b)"
  have q: "list_all (\<lambda>(l, h). raw l h \<and> header h \<and> \<not> auth_header h) ls'" "raw b' []" "pend v s2 = lines ls' @ b' @ NL # bd"
    "map snd ls' = map snd ls" "length ls' = length ls" "length (lines ls' @ b') \<le> length (lines ls @ b)"
    using Suc.prems(1,2) x ps2(1) by (auto simp: ls'_def b'_def h2_def rest_def raw_def split: list.splits)
  have len2: "b_rp s2 + length (lines ls' @ b') + 3 < 2048" using Suc.prems(5) q(6) ps2(3) by (simp add: x)
  have "n = length ls'" "length ls' < j" using q(5) xs(2) k(2) by auto
  from Suc.hyps(1) [OF this(1) q(1,2) ps2(2) q(3) len2 Suc.prems(6) this(2) s2(2)] t1(2) q(4) obtain s' where
    s': "httpheaders lib op lk j fd cfd s2 = ret (0, s')" "pend v s' = bd" "buf_in s'" "sim t s'" "v_out v (h_os s') = v_out v (h_os s2)"
    by auto
  have c: "cstr h = h" "h \<noteq> []" using h(2) by (auto simp: header_def clean_def cstr_id)
  have "httpheaders lib op lk k fd cfd s = ret (0, s')" using s1(1) s2(1) s'(1) c assms(4) by (simp add: k(1))
  moreover have "v_out v (h_os s2) = v_out v (h_os s)" using ps2(4) s1(2) by (simp add: only_in_def)
  ultimately show ?case using s'(2-5) by auto
qed

end
