(* ===== verification/HgetOut.thy ===== *)
theory HgetOut
  imports HgetIn
begin

text \<open>
  What hget writes: a page goes to the output as it comes. When a transfer begins again what has been written already is
  passed over, and compared with the new copy by its digest; and a whole transfer, from the request to the file.
\<close>

section \<open>The laws of the output and of the digest\<close>

definition send_law :: "('os, 'd) hlib \<Rightarrow> 'os hviews \<Rightarrow> int \<Rightarrow> bool" where
  "send_law lib v fd \<longleftrightarrow> (\<forall>os bs. let (n, os') = h_write lib fd bs os
     in n = int (length bs) \<and> v_out v os' = v_out v os @ bs \<and> v_in v os' = v_in v os)"

text \<open>\<open>dig\<close> are the bytes that a state has taken, \<open>H\<close> their digest.\<close>

definition md5_law :: "('os, 'd) hlib \<Rightarrow> ('d \<Rightarrow> string) \<Rightarrow> (string \<Rightarrow> string) \<Rightarrow> bool" where
  "md5_law lib dig H \<longleftrightarrow> (\<forall>bs. dig (md5_upd lib bs None) = bs) \<and> (\<forall>bs c. dig (md5_upd lib bs (Some c)) = dig c @ bs)
     \<and> (\<forall>d. md5_sum lib d = H (dig d))"

section \<open>Writing\<close>

text \<open>\<open>W\<close> has been written, the offset is \<open>off\<close>.\<close>

definition out_ok :: "'os hviews \<Rightarrow> ('d \<Rightarrow> string) \<Rightarrow> string \<Rightarrow> nat \<Rightarrow> ('os, 'd) hget \<Rightarrow> bool" where
  "out_ok v dig W off s \<longleftrightarrow> v_out v (h_os s) = W \<and> o_written s = int (length W) \<and> o_offset s = int off \<and> off \<le> length W
     \<and> (case o_hiwat s of None \<Rightarrow> W = [] | Some h \<Rightarrow> dig h = W)"

text \<open>The state of the input is not touched.\<close>

definition keeps_in :: "'os hviews \<Rightarrow> ('os, 'd) hget \<Rightarrow> ('os, 'd) hget \<Rightarrow> bool" where
  "keeps_in v s s' \<longleftrightarrow> b_buf s' = b_buf s \<and> b_rp s' = b_rp s \<and> b_wp s' = b_wp s \<and> v_in v (h_os s') = v_in v (h_os s) \<and> o_fd s' = o_fd s"

lemma keeps_in_pend: "keeps_in v s s' \<Longrightarrow> pend v s' = pend v s \<and> buf_in s' = buf_in s"
  by (simp add: keeps_in_def pend_def buf_in_def)

lemma output_new_writes:
  assumes "send_law lib v (o_fd s)" "md5_law lib dig H" "out_ok v dig W (length W) s" "length W + length bs < 2 ^ 31"
  shows "\<exists>s'. output_new lib bs d s = ret (int (length bs) + d, s') \<and> out_ok v dig (W @ bs) (length (W @ bs)) s' \<and> keeps_in v s s'"
proof (cases "bs = []")
  case True
  then show ?thesis using assms(3) by (simp add: output_new_def keeps_in_def)
next
  case False
  obtain n os where w: "h_write lib (o_fd s) bs (h_os s) = (n, os)" by fastforce
  have law: "n = int (length bs)" "v_out v os = v_out v (h_os s) @ bs" "v_in v os = v_in v (h_os s)"
    using assms(1) [unfolded send_law_def, rule_format, of bs "h_os s"] w by simp_all
  have i: "int32 (int (length W) + int (length bs)) = int (length W) + int (length bs)" using assms(4) by (intro int32_id) auto
  have "dig (md5_upd lib bs (o_hiwat s)) = W @ bs"
    using assms(2,3) by (auto simp: md5_law_def out_ok_def split: option.splits)
  then show ?thesis using False w law assms(3) i
    by (auto simp: output_new_def Let_def out_ok_def keeps_in_def)
qed

lemma output_writes:
  assumes "send_law lib v (o_fd s)" "md5_law lib dig H" "out_ok v dig W off s" "length W + length bs < 2 ^ 31" "off + length bs < 2 ^ 31"
  defines "d \<equiv> length W - off"
  shows "length bs < d \<Longrightarrow> \<exists>s'. hget_output lib bs s = ret (int (length bs), s') \<and> out_ok v dig W (off + length bs) s' \<and> keeps_in v s s'
      \<and> o_curr s' = map_option (\<lambda>c. md5_upd lib bs (Some c)) (o_curr s)"
    and "d \<le> length bs \<Longrightarrow> 0 < d \<Longrightarrow> o_curr s = Some c \<Longrightarrow> H (dig c @ take d bs) \<noteq> H W \<Longrightarrow>
      \<exists>s'. hget_output lib bs s = ret (-1, s') \<and> v_out v (h_os s') = W"
    and "d \<le> length bs \<Longrightarrow> d = 0 \<or> o_curr s = None \<or> (\<exists>c. o_curr s = Some c \<and> H (dig c @ take d bs) = H W) \<Longrightarrow>
      \<exists>s'. hget_output lib bs s = ret (int (length bs), s') \<and> out_ok v dig (W @ drop d bs) (length (W @ drop d bs)) s' \<and> keeps_in v s s'"
proof -
  have o: "o_written s = int (length W)" "o_offset s = int off" "off \<le> length W" "v_out v (h_os s) = W"
    using assms(3) by (auto simp: out_ok_def)
  have D: "int32 (o_written s - o_offset s) = int d"
  proof -
    have "int32 (int (length W) - int off) = int (length W) - int off" using assms(4) o(3) by (intro int32_id) auto
    then show ?thesis using o by (simp add: d_def of_nat_diff)
  qed
  have D2: "int32 (o_written s - int off) = int d" using D o(2) by simp
  have i: "int32 (int off + int (length bs)) = int (off + length bs)" "int32 (int off + int d) = int (length W)"
    using assms(4,5) o(3) by (simp_all add: int32_id d_def)
  show "\<exists>s'. hget_output lib bs s = ret (int (length bs), s') \<and> out_ok v dig W (off + length bs) s' \<and> keeps_in v s s'
      \<and> o_curr s' = map_option (\<lambda>c. md5_upd lib bs (Some c)) (o_curr s)" if "length bs < d"
  proof -
    define s' where "s' = s\<lparr>o_curr := map_option (\<lambda>c. md5_upd lib bs (Some c)) (o_curr s), o_offset := int (off + length bs)\<rparr>"
    have "hget_output lib bs s = ret (int (length bs), s')" using that i(1) by (simp add: hget_output_def Let_def D2 o(2) s'_def)
    moreover have "off + length bs \<le> length W" using that by (simp add: d_def)
    ultimately show ?thesis using assms(3) by (intro exI [where x = s']) (simp add: s'_def out_ok_def keeps_in_def)
  qed
  show "\<exists>s'. hget_output lib bs s = ret (-1, s') \<and> v_out v (h_os s') = W"
    if "d \<le> length bs" "0 < d" "o_curr s = Some c" "H (dig c @ take d bs) \<noteq> H W"
  proof -
    have "W \<noteq> []" using that(2) by (auto simp: d_def)
    then obtain h where h: "o_hiwat s = Some h" "dig h = W" using assms(3) by (auto simp: out_ok_def split: option.splits)
    have "md5_sum lib (md5_upd lib (take d bs) (Some c)) \<noteq> md5_sum lib h" using assms(2) that(4) h(2) by (simp add: md5_law_def)
    then show ?thesis using that(1-3) h(1) o(4) by (simp add: hget_output_def Let_def D)
  qed
  show "\<exists>s'. hget_output lib bs s = ret (int (length bs), s') \<and> out_ok v dig (W @ drop d bs) (length (W @ drop d bs)) s' \<and> keeps_in v s s'"
    if "d \<le> length bs" "d = 0 \<or> o_curr s = None \<or> (\<exists>c. o_curr s = Some c \<and> H (dig c @ take d bs) = H W)"
  proof (cases "d = 0")
    case True
    then have "out_ok v dig W (length W) s" using assms(3) o(3) by (simp add: d_def)
    from output_new_writes [OF assms(1,2) this assms(4), of 0] show ?thesis using True by (simp add: hget_output_def Let_def D)
  next
    case False
    define s2 where "s2 = s\<lparr>o_curr := None, o_offset := int (length W)\<rparr>"
    have s2: "out_ok v dig W (length W) s2" "send_law lib v (o_fd s2)" "keeps_in v s s2"
      using assms(1,3) by (auto simp: s2_def out_ok_def keeps_in_def)
    have "length W + length (drop d bs) < 2 ^ 31" using assms(4) by simp
    have e: "int (length (drop d bs)) + int d = int (length bs)" using that(1) by (simp flip: of_nat_add)
    obtain s' where
      s': "output_new lib (drop d bs) (int d) s2 = ret (int (length bs), s')" "out_ok v dig (W @ drop d bs) (length (W @ drop d bs)) s'" "keeps_in v s2 s'"
      using output_new_writes [OF s2(2) assms(2) s2(1) \<open>length W + length (drop d bs) < 2 ^ 31\<close>, of "int d"] unfolding e by blast
    have "hget_output lib bs s = output_new lib (drop d bs) (int d) s2"
    proof (cases "o_curr s")
      case None
      then show ?thesis using False that(1) i(2) by (simp add: hget_output_def Let_def D2 o(2) s2_def)
    next
      case (Some c)
      then have "W \<noteq> []" "H (dig c @ take d bs) = H W" using False that(2) by (auto simp: d_def)
      moreover from this obtain h where h: "o_hiwat s = Some h" "dig h = W" using assms(3) by (auto simp: out_ok_def split: option.splits)
      ultimately have "md5_sum lib (md5_upd lib (take d bs) (Some c)) = md5_sum lib h" using assms(2) by (simp add: md5_law_def)
      then show ?thesis using False that(1) i(2) Some h(1) by (simp add: hget_output_def Let_def D2 o(2) s2_def)
    qed
    then show ?thesis using s' s2(3) by (auto simp: keeps_in_def)
  qed
qed

lemma readibuf_reads:
  assumes "recv_law lib v fd" "buf_in s" "0 < len"
  shows "\<exists>bs s'. readibuf lib fd len s = ((int (length bs), bs), s') \<and> pend v s = bs @ pend v s' \<and> (bs = [] \<longrightarrow> pend v s = [])
    \<and> only_in v s s' \<and> length bs \<le> len"
proof (cases "b_rp s < b_wp s")
  case True
  define n where "n = min (b_wp s - b_rp s) len"
  define bs where "bs = fld (b_rp s) n (b_buf s)"
  define s' where "s' = s\<lparr>b_rp := b_rp s + n\<rparr>"
  have l: "length bs = n" using assms(2) True by (auto simp: bs_def fld_def n_def buf_in_def min_def)
  have "fld (b_rp s) (b_wp s - b_rp s) (b_buf s) = bs @ fld (b_rp s + n) (b_wp s - (b_rp s + n)) (b_buf s)"
  proof -
    have "b_wp s - b_rp s = n + (b_wp s - (b_rp s + n))" by (simp add: n_def)
    then have "fld (b_rp s) (b_wp s - b_rp s) (b_buf s) = take (n + (b_wp s - (b_rp s + n))) (drop (b_rp s) (b_buf s))" by (simp add: fld_def)
    also have "\<dots> = bs @ fld (b_rp s + n) (b_wp s - (b_rp s + n)) (b_buf s)" by (simp add: take_add bs_def fld_def add.commute)
    finally show ?thesis .
  qed
  moreover have "readibuf lib fd len s = ((int (length bs), bs), s')" using True by (simp add: readibuf_def Let_def l s'_def n_def [symmetric] bs_def [symmetric])
  moreover have "only_in v s s'" using assms(2) True by (auto simp: s'_def only_in_def buf_in_def n_def)
  moreover have "bs \<noteq> []" using l True assms(3) by (auto simp: n_def)
  ultimately show ?thesis using l by (intro exI [where x = bs] exI [where x = s']) (simp add: pend_def s'_def n_def)
next
  case False
  then have e: "b_rp s = b_wp s" using assms(2) by (simp add: buf_in_def)
  obtain n bs os where r: "h_read lib fd len (h_os s) = ((n, bs), os)" by (metis surj_pair)
  have law: "n = int (length bs)" "length bs \<le> len" "v_in v (h_os s) = bs @ v_in v os" "bs = [] \<longrightarrow> v_in v os = []" "v_out v os = v_out v (h_os s)"
    using assms(1) [unfolded recv_law_def, rule_format, of len "h_os s"] r assms(3) by simp_all
  then show ?thesis using False r e assms(2)
    by (intro exI [where x = bs] exI [where x = "s\<lparr>h_os := os\<rparr>"]) (auto simp: readibuf_def Let_def pend_def fld_def only_in_def buf_in_def)
qed

lemma only_in_out: "only_in v s s' \<Longrightarrow> out_ok v dig W off s \<Longrightarrow> out_ok v dig W off s' \<and> o_curr s' = o_curr s \<and> o_fd s' = o_fd s"
  by (simp add: only_in_def out_ok_def)

section \<open>A page\<close>

text \<open>Whether the new copy \<open>D\<close>, from \<open>off\<close> on, is taken for the old one, of which \<open>W\<close> has been written.\<close>

definition accepts :: "('d \<Rightarrow> string) \<Rightarrow> (string \<Rightarrow> string) \<Rightarrow> 'd option \<Rightarrow> string \<Rightarrow> nat \<Rightarrow> string \<Rightarrow> bool" where
  "accepts dig H cu W off D \<longleftrightarrow> (case cu of None \<Rightarrow> True
     | Some c \<Rightarrow> length W \<le> off \<or> length D < length W - off \<or> H (dig c @ take (length W - off) D) = H W)"

lemma transfer_resumes_aux:
  assumes "recv_law lib v fd" "md5_law lib dig H"
  shows "send_law lib v (o_fd s) \<Longrightarrow> out_ok v dig W off s \<Longrightarrow> buf_in s \<Longrightarrow> pend v s = D \<Longrightarrow> length W + length D < 2 ^ 31 \<Longrightarrow> length D < k \<Longrightarrow>
    0 \<le> tot \<Longrightarrow> tot + int (length D) < 2 ^ 31 \<Longrightarrow>
    \<exists>s' n. transfer lib k fd tot s = ret (n, s')
      \<and> v_out v (h_os s') = (if accepts dig H (o_curr s) W off D then W @ drop (length W - off) D else W)
      \<and> (accepts dig H (o_curr s) W off D \<longrightarrow> n = tot + int (length D))"
proof (induction k arbitrary: s W off D tot)
  case 0
  then show ?case by simp
next
  case (Suc k)
  have "0 < (1024::nat)" by simp
  from readibuf_reads [OF assms(1) Suc.prems(3) this] obtain bs s1 where
    s1: "readibuf lib fd 1024 s = ((int (length bs), bs), s1)" "D = bs @ pend v s1" "bs = [] \<longrightarrow> D = []" "only_in v s s1"
    using Suc.prems(4) by auto
  note o1 = only_in_out [OF s1(4) Suc.prems(2)]
  have b1: "buf_in s1" using s1(4) by (simp add: only_in_def)
  have off: "off \<le> length W" using Suc.prems(2) by (simp add: out_ok_def)
  show ?case
  proof (cases "bs = []")
    case True
    then show ?thesis using s1 o1 by (simp add: out_ok_def)
  next
    case False
    define D' where "D' = pend v s1"
    have D: "D = bs @ D'" using s1(2) by (simp add: D'_def)
    define d where "d = length W - off"
    have sl: "send_law lib v (o_fd s1)" using Suc.prems(1) o1 by simp
    have lens: "length W + length bs < 2 ^ 31" "off + length bs < 2 ^ 31" using Suc.prems(5) off by (auto simp: D)
    note out = output_writes [OF sl assms(2) conjunct1 [OF o1] lens, folded d_def]
    have tt: "int32 (tot + int (length bs)) = tot + int (length bs)" using Suc.prems(7,8) by (intro int32_id) (auto simp: D)
    consider (before) "length bs < d" | (bad) c where "d \<le> length bs" "0 < d" "o_curr s1 = Some c" "H (dig c @ take d bs) \<noteq> H W"
      | (good) "d \<le> length bs" "d = 0 \<or> o_curr s1 = None \<or> (\<exists>c. o_curr s1 = Some c \<and> H (dig c @ take d bs) = H W)"
      by (cases "o_curr s1") fastforce+
    then show ?thesis
    proof cases
      case before
      from out(1) [OF this] obtain s2 where s2: "hget_output lib bs s1 = ret (int (length bs), s2)" "out_ok v dig W (off + length bs) s2"
        "keeps_in v s1 s2" "o_curr s2 = map_option (\<lambda>c. md5_upd lib bs (Some c)) (o_curr s1)" by blast
      have p2: "pend v s2 = D'" "buf_in s2" "send_law lib v (o_fd s2)"
        using keeps_in_pend [OF s2(3)] b1 sl s2(3) by (auto simp: D'_def keeps_in_def)
      have l: "length W + length D' < 2 ^ 31" "length D' < k" "0 \<le> tot + int (length bs)" "tot + int (length bs) + int (length D') < 2 ^ 31"
        using Suc.prems(5-8) False unfolding D by (cases bs; simp)+
      from Suc.IH [OF p2(3) s2(2) p2(2,1) l] obtain s3 n where
        s3: "transfer lib k fd (tot + int (length bs)) s2 = ret (n, s3)"
          "v_out v (h_os s3) = (if accepts dig H (o_curr s2) W (off + length bs) D' then W @ drop (length W - (off + length bs)) D' else W)"
          "accepts dig H (o_curr s2) W (off + length bs) D' \<longrightarrow> n = tot + int (length bs) + int (length D')" by blast
      have a: "accepts dig H (o_curr s2) W (off + length bs) D' = accepts dig H (o_curr s) W off D"
      proof (cases "o_curr s")
        case (Some c)
        have "take d D = bs @ take (d - length bs) D'" using before by (simp add: D)
        moreover have "dig (md5_upd lib bs (Some c)) = dig c @ bs" using assms(2) by (simp add: md5_law_def)
        ultimately show ?thesis using Some before s2(4) o1 by (auto simp: accepts_def d_def D)
      qed (use s2(4) o1 in \<open>simp add: accepts_def\<close>)
      have "transfer lib (Suc k) fd tot s = ret (n, s3)" using False s1(1) s2(1) s3(1) tt by simp
      moreover have "drop (length W - (off + length bs)) D' = drop (length W - off) D" using before by (simp add: D d_def)
      ultimately show ?thesis using s3(2,3) a by (auto simp: D)
    next
      case bad
      from out(2) [OF bad] obtain s2 where s2: "hget_output lib bs s1 = ret (-1, s2)" "v_out v (h_os s2) = W" by blast
      have "transfer lib (Suc k) fd tot s = ret (tot, s2)" using False s1(1) s2(1) by simp
      moreover have "\<not> accepts dig H (o_curr s) W off D" using bad o1 by (auto simp: accepts_def d_def D)
      ultimately show ?thesis using s2(2) by auto
    next
      case good
      from out(3) [OF good] obtain s2 where s2: "hget_output lib bs s1 = ret (int (length bs), s2)"
        "out_ok v dig (W @ drop d bs) (length (W @ drop d bs)) s2" "keeps_in v s1 s2" by blast
      have p2: "pend v s2 = D'" "buf_in s2" "send_law lib v (o_fd s2)"
        using keeps_in_pend [OF s2(3)] b1 sl s2(3) by (auto simp: D'_def keeps_in_def)
      have l: "length (W @ drop d bs) + length D' < 2 ^ 31" "length D' < k" "0 \<le> tot + int (length bs)" "tot + int (length bs) + int (length D') < 2 ^ 31"
        using Suc.prems(5-8) False unfolding D by (cases bs; simp)+
      have acc: "accepts dig H x V (length V) E" for x :: "'b option" and V E by (simp add: accepts_def split: option.splits)
      obtain s3 n where
        s3: "transfer lib k fd (tot + int (length bs)) s2 = ret (n, s3)" "v_out v (h_os s3) = (W @ drop d bs) @ D'"
          "n = tot + int (length bs) + int (length D')"
        using Suc.IH [OF p2(3) s2(2) p2(2,1) l] by (simp only: eqTrueI [OF acc] if_True simp_thms diff_self_eq_0 drop_0) blast
      have "transfer lib (Suc k) fd tot s = ret (n, s3)" using False s1(1) s2(1) s3(1) tt by simp
      moreover have "accepts dig H (o_curr s) W off D" using good o1 by (auto simp: accepts_def d_def D split: option.splits)
      moreover have "drop (length W - off) D = drop d bs @ D'" using good(1) by (simp add: D d_def)
      ultimately show ?thesis using s3(2,3) by (auto simp: D)
    qed
  qed
qed

section \<open>A whole transfer\<close>

text \<open>Dialling gives a connection from which \<open>resp\<close> comes; there are no cookies; the other calls change nothing that is seen.\<close>

definition peer_law :: "('os, 'd) hlib \<Rightarrow> 'os hviews \<Rightarrow> int \<Rightarrow> int \<Rightarrow> string \<Rightarrow> bool" where
  "peer_law lib v ofd fd resp \<longleftrightarrow>
     (\<forall>addr os. let (n, os') = h_dial lib addr os in n = fd \<and> v_in v os' = resp \<and> v_out v os' = v_out v os)
     \<and> (\<forall>n bs os. n \<noteq> ofd \<longrightarrow> v_in v (snd (h_write lib n bs os)) = v_in v os \<and> v_out v (snd (h_write lib n bs os)) = v_out v os)
     \<and> (\<forall>os. let (n, os') = h_open lib ''/mnt/webcookies/http'' ORDWR os in n < 0 \<and> v_in v os' = v_in v os \<and> v_out v os' = v_out v os)
     \<and> (\<forall>n os. v_in v (h_close lib n os) = v_in v os \<and> v_out v (h_close lib n os) = v_out v os)
     \<and> (\<forall>n t os. v_in v (h_set_mtime lib n t os) = v_in v os \<and> v_out v (h_set_mtime lib n t os) = v_out v os)"

lemma back_up_bounds: "0 \<le> x \<Longrightarrow> x < 2 ^ 31 \<Longrightarrow> 0 \<le> back_up x \<and> back_up x \<le> x"
proof -
  assume x: "0 \<le> x" "x < 2 ^ 31"
  show ?thesis
  proof (cases "x = 0")
    case False
    have a: "int32 (x - 1) = x - 1" using x False by (intro int32_id) auto
    have b: "cdiv (x - 1) 512 = (x - 1) div 512" using x False by (auto simp: cdiv_def sgn_if)
    have c: "0 \<le> (x - 1) div 512 * 512" "(x - 1) div 512 * 512 \<le> x - 1" using x False by (auto simp: div_mult_mod_eq [symmetric] algebra_simps)
    then have "int32 ((x - 1) div 512 * 512) = (x - 1) div 512 * 512" using x by (intro int32_id) auto
    then show ?thesis using False a b c by (simp add: back_up_def)
  qed (simp add: back_up_def)
qed

lemma dfprints_sim:
  assumes "\<And>bs os. v_in v (snd (h_write lib fd bs os)) = v_in v os \<and> v_out v (snd (h_write lib fd bs os)) = v_out v os"
  shows "sim s (fold (dfprint lib fd) ls s) \<and> v_in v (h_os (fold (dfprint lib fd) ls s)) = v_in v (h_os s)
    \<and> v_out v (h_os (fold (dfprint lib fd) ls s)) = v_out v (h_os s) \<and> b_buf (fold (dfprint lib fd) ls s) = b_buf s"
proof (induction ls arbitrary: s)
  case (Cons l ls)
  have "sim s (dfprint lib fd l s) \<and> v_in v (h_os (dfprint lib fd l s)) = v_in v (h_os s) \<and> v_out v (h_os (dfprint lib fd l s)) = v_out v (h_os s)
    \<and> b_buf (dfprint lib fd l s) = b_buf s"
    using assms by (simp add: dfprint_def sim_def)
  then show ?case using Cons.IH [of "dfprint lib fd l s"] sim_trans by fastforce
qed (simp add: sim_def)

lemma httprcode_reads:
  assumes "recv_law lib v fd" "buf_in s" "pend v s = l @ NL # rest" "raw l st" "clean st" "b_rp s = 0" "length l < 253" "length l < k"
    and "take 5 st = ''HTTP/''" "strchr st CHR '' '' = Some p"
  shows "\<exists>s'. httprcode lib k fd s = ret (atoi (drop (Suc p) st), s') \<and> only_in v s s' \<and> pend v s' = rest \<and> b_rp s' = length l + 1"
proof -
  have r: "NL \<notin> set l" "drop_white l = st" using raw_clean [OF assms(4)] assms(5) by auto
  have "b_rp s + length l < 2048" "int (length l) < 255 - 1" using assms(6,7) by auto
  from readline_reads [OF assms(1-3) r(1) this(1) assms(8) this(2)] obtain s' where
    s': "readline lib k fd 255 s = ret (Some st, s')" "only_in v s s'" "pend v s' = rest" "b_rp s' = length l + 1" using r(2) assms(6) by auto
  have "cstr st = st" "st \<noteq> []" using assms(5) by (auto simp: clean_def cstr_id)
  then have "httprcode lib k fd s = ret (atoi (drop (Suc p) st), s')" using s'(1) assms(9,10) by (simp add: httprcode_def)
  then show ?thesis using s' by blast
qed

lemma http_request_body:
  assumes "recv_law lib v fd" "peer_law lib v (o_fd s) fd resp" "0 \<le> fd" "fd \<noteq> o_fd s" "\<And>os. h_time lib os = T" "\<not> headerprint op"
    and "u_method (h_url s) \<noteq> Https" "length (b_buf s) = 4096" "4096 < k" "length ls < k"
    and "resp = l0 @ NL # lines ls @ b @ NL # body" "raw l0 st" "clean st" "length l0 < 253" "raw b []"
    and "list_all (\<lambda>(l, h). raw l h \<and> header h \<and> \<not> auth_header h) ls" "length l0 + length (lines ls @ b) + 4 < 2048"
    and "take 5 st = ''HTTP/''" "strchr st CHR '' '' = Some p" "atoi (drop (Suc p) st) = code"
    and "code = 200 \<and> (ofile op = None \<longrightarrow> r_start s = 0) \<or> code = 206"
    and "run_headers lib (map snd ls) ((if code = 206 then setoffset lib (r_start s) s else s)\<lparr>h_url := (h_url s)\<lparr>redirect := None\<rparr>\<rparr>) = ret ((), t)"
  shows "\<exists>s'. http_request lib op k mtime s = ret (Body fd, s') \<and> pend v s' = body \<and> buf_in s' \<and> sim t s' \<and> v_out v (h_os s') = v_out v (h_os s)"
proof -
  have P: "v_in v (snd (h_write lib n bs os)) = v_in v os \<and> v_out v (snd (h_write lib n bs os)) = v_out v os" if "n \<noteq> o_fd s" for n bs os
    using assms(2) that by (simp add: peer_law_def)
  have C: "v_in v (h_close lib n os) = v_in v os \<and> v_out v (h_close lib n os) = v_out v os" for n os
    using assms(2) by (simp add: peer_law_def)
  obtain s1 where s1: "http_connect lib op s = (fd, s1)" "sim s s1" "v_in v (h_os s1) = resp" "v_out v (h_os s1) = v_out v (h_os s)" "b_buf s1 = b_buf s"
  proof -
    define addr where "addr = (case px_host op of None \<Rightarrow> netmkaddr lib (opt_str (host (h_url s))) (tcpdir op) (port (h_url s))
                  | Some h \<Rightarrow> netmkaddr lib h (tcpdir op) (px_port op))"
    obtain n os where d: "h_dial lib addr (h_os s) = (n, os)" by fastforce
    then have "n = fd" "v_in v os = resp" "v_out v os = v_out v (h_os s)"
      using assms(2) [unfolded peer_law_def, THEN conjunct1, rule_format, of addr "h_os s"] by simp_all
    then show ?thesis using that [of "s\<lparr>h_os := os\<rparr>"] d assms(3,7) by (simp add: http_connect_def addr_def [symmetric] sim_def)
  qed
  define s2 where "s2 = fold (dfprint lib fd) (range_lines lib (h_url (fold (dfprint lib fd) (request_lines op (h_url s1)) s1))
    (r_start (fold (dfprint lib fd) (request_lines op (h_url s1)) s1)) mtime) (fold (dfprint lib fd) (request_lines op (h_url s1)) s1)"
  note df = dfprints_sim [where v = v and lib = lib and fd = fd, OF P [OF assms(4)]]
  have s2: "sim s s2" "v_in v (h_os s2) = resp" "v_out v (h_os s2) = v_out v (h_os s)" "b_buf s2 = b_buf s"
    using df s1(2-5) sim_trans unfolding s2_def by metis+
  obtain cfd os3 where c: "h_open lib ''/mnt/webcookies/http'' ORDWR (h_os s2) = (cfd, os3)" by fastforce
  have cl: "cfd < 0" "v_in v os3 = resp" "v_out v os3 = v_out v (h_os s)"
    using assms(2) [unfolded peer_law_def, THEN conjunct2, THEN conjunct2, THEN conjunct1, rule_format, of "h_os s2"]
      c s2(2,3) by simp_all
  define s3 where "s3 = s2\<lparr>h_os := os3\<rparr>"
  have ck: "cookies lib k fd s2 = ret (cfd, s3)" using c cl(1) by (simp add: cookies_def s3_def)
  define s4 where "s4 = initibuf (dfprint lib fd crlf s3)"
  have s4: "sim s s4" "v_in v (h_os s4) = resp" "v_out v (h_os s4) = v_out v (h_os s)" "b_buf s4 = b_buf s" "b_rp s4 = 0" "b_wp s4 = 0"
    using s2(1,4) cl(2,3) P [OF assms(4)] by (simp_all add: s4_def s3_def initibuf_def dfprint_def sim_def)
  have b4: "buf_in s4" "pend v s4 = l0 @ NL # lines ls @ b @ NL # body"
    using s4 assms(8,11) by (simp_all add: buf_in_def pend_def fld_def)
  have "length l0 < k" using assms(9,14) by simp
  from httprcode_reads [OF assms(1) b4 assms(12,13) s4(5) assms(14) this assms(18,19)] obtain s5 where
    s5: "httprcode lib k fd s4 = ret (code, s5)" "only_in v s4 s5" "pend v s5 = lines ls @ b @ NL # body" "b_rp s5 = length l0 + 1"
    unfolding assms(20) by blast
  have sim5: "sim s s5" using s4(1) only_in_sim [OF s5(2)] by (rule sim_trans)
  define s6 where "s6 = (if code = 206 then setoffset lib (r_start s5) s5 else s5)\<lparr>h_url := (h_url s5)\<lparr>redirect := None\<rparr>\<rparr>"
  have hc: "http_code lib op code s5 = ret ((False, False), if code = 206 then setoffset lib (r_start s5) s5 else s5)"
    using assms(21) sim5 by (auto simp: http_code_def sim_def)
  have s6: "sim ((if code = 206 then setoffset lib (r_start s) s else s)\<lparr>h_url := (h_url s)\<lparr>redirect := None\<rparr>\<rparr>) s6" "buf_in s6" "pend v s6 = pend v s5"
    "b_rp s6 = b_rp s5" "v_out v (h_os s6) = v_out v (h_os s)"
    using sim5 s5(2) s4(3) by (auto simp: s6_def sim_def setoffset_def only_in_def buf_in_def pend_def)
  have "b_rp s6 + length (lines ls @ b) + 3 < 2048" "2048 < k" using s6(4) s5(4) assms(9,17) by auto
  from httpheaders_reads [OF assms(1,5,6) cl(1) assms(16,15) s6(2) _ this assms(10) s6(1) assms(22)] s6(3) s5(3) obtain s7 where
    s7: "httpheaders lib op k k fd cfd s6 = ret (0, s7)" "pend v s7 = body" "buf_in s7" "sim t s7" "v_out v (h_os s7) = v_out v (h_os s6)"
    by auto
  define s8 where "s8 = s7\<lparr>h_os := h_close lib cfd (h_os s7)\<rparr>"
  have s8: "pend v s8 = body" "buf_in s8" "sim t s8" "v_out v (h_os s8) = v_out v (h_os s)"
    using s7 s6(5) C by (simp_all add: s8_def pend_def buf_in_def sim_def)
  have "code \<noteq> Error" "code \<noteq> Eof" using assms(21) by (auto simp: Error_def Eof_def)
  moreover have "(if code = 206 then setoffset lib (r_start s5) s5 else s5)\<lparr>h_url := (h_url (if code = 206 then setoffset lib (r_start s5) s5 else s5))\<lparr>redirect := None\<rparr>\<rparr> = s6"
    by (simp add: s6_def setoffset_def)
  ultimately have "http_request lib op k mtime s = ret (Body fd, s8)"
    using s1(1) assms(3) ck s5(1) hc s7(1) by (simp add: http_request_def Let_def s2_def [symmetric] s4_def [symmetric] s8_def split del: if_split)
  then show ?thesis using s8 by blast
qed

end
