(* ===== verification/HgetGet.thy ===== *)
theory HgetGet
  imports HgetOut
begin

text \<open>
  Whole transfers of hget: what is in the output when \<open>dohttp\<close> and the program return, how addresses are taken apart, and
  two answers of a server for which the program fails.
\<close>

section \<open>One call of dohttp\<close>

lemma do_header_keeps:
  assumes "do_header lib h s = ret ((), s')"
  shows "o_fd s' = o_fd s \<and> o_offset s' = o_offset s \<and> o_written s' = o_written s \<and> o_curr s' = o_curr s \<and> o_hiwat s' = o_hiwat s
    \<and> r_start s' = r_start s"
  using assms
  by (auto simp: do_header_def header_action_def hhetag_def hhmtime_def hhclen_def hhcrange_def hhuri_def hhlocation_def hhauth_def Let_def
      split: option.splits if_splits prod.splits)

lemma run_headers_keeps:
  "run_headers lib hs s = ret ((), s') \<Longrightarrow> o_fd s' = o_fd s \<and> o_offset s' = o_offset s \<and> o_written s' = o_written s \<and> o_curr s' = o_curr s
    \<and> o_hiwat s' = o_hiwat s \<and> r_start s' = r_start s"
proof (induction hs arbitrary: s)
  case (Cons h hs)
  then obtain s1 where "do_header lib h s = ret ((), s1)" "run_headers lib hs s1 = ret ((), s')" by (auto simp: rbind_eq_ret)
  from do_header_keeps [OF this(1)] Cons.IH [OF this(2)] show ?case by simp
qed simp

text \<open>An answer of a web server: the line with the code, the headers, an empty line and the body.\<close>

definition answers :: "string \<Rightarrow> int \<Rightarrow> string list \<Rightarrow> string \<Rightarrow> bool" where
  "answers resp code hs body \<longleftrightarrow> (\<exists>l0 st p ls b. resp = l0 @ NL # lines ls @ b @ NL # body \<and> hs = map snd ls \<and> raw l0 st \<and> clean st
     \<and> length l0 < 253 \<and> raw b [] \<and> list_all (\<lambda>(l, h). raw l h \<and> header h \<and> \<not> auth_header h) ls
     \<and> length l0 + length (lines ls @ b) + 4 < 2048 \<and> take 5 st = ''HTTP/'' \<and> strchr st CHR '' '' = Some p \<and> atoi (drop (Suc p) st) = code)"

text \<open>The system of the transfer: the server on \<open>fd\<close> sends \<open>resp\<close>, the descriptor \<open>ofd\<close> takes what is written.\<close>

definition web_laws :: "('os, 'd) hlib \<Rightarrow> 'os hviews \<Rightarrow> ('d \<Rightarrow> string) \<Rightarrow> (string \<Rightarrow> string) \<Rightarrow> int \<Rightarrow> int \<Rightarrow> string \<Rightarrow> bool" where
  "web_laws lib v dig H ofd fd resp \<longleftrightarrow> recv_law lib v fd \<and> send_law lib v ofd \<and> md5_law lib dig H \<and> peer_law lib v ofd fd resp
     \<and> 0 \<le> fd \<and> fd \<noteq> ofd \<and> (\<exists>T. \<forall>os. h_time lib os = T)"

text \<open>The state in which the headers are looked at.\<close>

definition asked :: "('os, 'd) hlib \<Rightarrow> int \<Rightarrow> ('os, 'd) hget \<Rightarrow> ('os, 'd) hget" where
  "asked lib code s = (if code = 206 then setoffset lib (r_start s) s else s)\<lparr>h_url := (h_url s)\<lparr>redirect := None\<rparr>\<rparr>"

lemma request_answered:
  assumes "web_laws lib v dig H (o_fd s) fd resp" "\<not> headerprint op" "u_method (h_url s) \<noteq> Https" "length (b_buf s) = 4096" "4096 < k"
    and "answers resp code hs body" "code = 200 \<and> (ofile op = None \<longrightarrow> r_start s = 0) \<or> code = 206"
    and "run_headers lib hs (asked lib code s) = ret ((), t)"
  shows "\<exists>s'. http_request lib op k mtime s = ret (Body fd, s') \<and> pend v s' = body \<and> buf_in s' \<and> sim t s' \<and> v_out v (h_os s') = v_out v (h_os s)"
proof -
  obtain l0 st p ls b where a: "resp = l0 @ NL # lines ls @ b @ NL # body" "hs = map snd ls" "raw l0 st" "clean st" "length l0 < 253" "raw b []"
    "list_all (\<lambda>(l, h). raw l h \<and> header h \<and> \<not> auth_header h) ls" "length l0 + length (lines ls @ b) + 4 < 2048"
    "take 5 st = ''HTTP/''" "strchr st CHR '' '' = Some p" "atoi (drop (Suc p) st) = code"
    using assms(6) unfolding answers_def by blast
  obtain T where w: "recv_law lib v fd" "peer_law lib v (o_fd s) fd resp" "0 \<le> fd" "fd \<noteq> o_fd s" "\<And>os. h_time lib os = T"
    using assms(1) by (auto simp: web_laws_def)
  have "length ls \<le> length (lines ls)" by (induction ls rule: lines.induct) auto
  then have "length ls < k" using a(8) assms(5) by simp
  from http_request_body [OF w assms(2-5) this a(1,3-11) assms(7) assms(8) [unfolded asked_def a(2)]] show ?thesis .
qed

lemma hget_output_keeps: "hget_output lib bs s = ret (m, s') \<Longrightarrow> r_start s' = r_start s \<and> r_end s' = r_end s"
  by (auto simp: hget_output_def output_new_def Let_def split: if_splits option.splits prod.splits)

lemma transfer_keeps: "transfer lib k fd tot s = ret (n, s') \<Longrightarrow> r_start s' = r_start s \<and> r_end s' = r_end s"
proof (induction k arbitrary: tot s)
  case (Suc k)
  obtain m bs s1 where r: "readibuf lib fd 1024 s = ((m, bs), s1)" by (metis surj_pair)
  have k1: "r_start s1 = r_start s \<and> r_end s1 = r_end s" using r by (auto simp: readibuf_def Let_def split: if_splits prod.splits)
  show ?case
  proof (cases "m \<le> 0")
    case False
    then obtain j s2 where s2: "hget_output lib bs s1 = ret (j, s2)"
      "(if j \<noteq> m then ret (tot, s2) else transfer lib k fd (int32 (tot + m)) s2) = ret (n, s')"
      using Suc.prems r by (auto simp: rbind_eq_ret)
    from hget_output_keeps [OF s2(1)] show ?thesis using Suc.IH s2(2) k1 by (auto split: if_splits)
  qed (use Suc.prems r k1 in auto)
qed simp

lemma dohttp_body:
  fixes s :: "('os, 'd) hget"
  assumes "web_laws lib v dig H (o_fd s) fd resp" "\<not> headerprint op" "u_method (h_url s) \<noteq> Https" "length (b_buf s) = 4096" "4096 < k" "length body < k"
    and "answers resp code hs body" "code = 200 \<and> (ofile op = None \<longrightarrow> back_up (r_start s) = 0) \<or> code = 206"
    and "run_headers lib hs (asked lib code (s\<lparr>r_start := back_up (r_start s)\<rparr>)) = ret ((), t)"
    and "out_ok v dig W off (asked lib code (s\<lparr>r_start := back_up (r_start s)\<rparr>))" "length W + length body < 2 ^ 31"
  shows "\<exists>s' n. dohttp lib op k mtime s = ret (n, s')
    \<and> v_out v (h_os s') = (if accepts dig H (o_curr t) W off body then W @ drop (length W - off) body else W)
    \<and> (accepts dig H (o_curr t) W off body \<longrightarrow> n = int (length body)) \<and> r_start s' = back_up (r_start s) \<and> r_end s' = r_end t"
proof -
  define s0 where "s0 = s\<lparr>r_start := back_up (r_start s)\<rparr>"
  have "web_laws lib v dig H (o_fd s0) fd resp" "u_method (h_url s0) \<noteq> Https" "length (b_buf s0) = 4096"
    "code = 200 \<and> (ofile op = None \<longrightarrow> r_start s0 = 0) \<or> code = 206" using assms(1,3,4,8) by (simp_all add: s0_def)
  from request_answered [OF this(1) assms(2) this(2,3) assms(5,7) this(4) assms(9) [folded s0_def]] obtain s1 where
    s1: "http_request lib op k mtime s0 = ret (Body fd, s1)" "pend v s1 = body" "buf_in s1" "sim t s1" "v_out v (h_os s1) = v_out v (h_os s0)" by blast
  have hl: "http_loop lib op k mtime 32 (-1) s0 = ret (Body fd, s1)"
  proof -
    have "http_loop lib op k mtime (Suc n) (-1) s0 = ret (Body fd, s1)" for n using s1(1) by simp
    from this [of 31] show ?thesis by simp
  qed
  note kp = run_headers_keeps [OF assms(9)]
  have o1: "out_ok v dig W off s1" "o_fd s1 = o_fd s" "o_curr s1 = o_curr t"
    using assms(10) kp s1(4,5) by (auto simp: out_ok_def sim_def asked_def setoffset_def s0_def)
  have w: "recv_law lib v fd" "md5_law lib dig H" "send_law lib v (o_fd s1)"
    "\<And>n os. v_out v (h_close lib n os) = v_out v os" "\<And>n t os. v_out v (h_set_mtime lib n t os) = v_out v os"
    using assms(1) o1(2) by (auto simp: web_laws_def peer_law_def)
  have "0 + int (length body) < 2 ^ 31" using assms(11) by simp
  from transfer_resumes_aux [OF w(1,2,3) o1(1) s1(3,2) assms(11,6) order.refl this] obtain s2 n where
    s2: "transfer lib k fd 0 s1 = ret (n, s2)" "v_out v (h_os s2) = (if accepts dig H (o_curr s1) W off body then W @ drop (length W - off) body else W)"
      "accepts dig H (o_curr s1) W off body \<longrightarrow> n = int (length body)" by auto
  note r2 = transfer_keeps [OF s2(1)]
  have r1: "r_start s1 = back_up (r_start s)" "r_end s1 = r_end t" using s1(4) kp by (auto simp: sim_def asked_def setoffset_def)
  define s3 where "s3 = s2\<lparr>h_os := h_close lib fd (h_os s2)\<rparr>"
  define s4 where "s4 = (if ofile op \<noteq> None \<and> u_mtime (h_url s3) \<noteq> 0
                          then s3\<lparr>h_os := h_set_mtime lib (o_fd s3) (u_mtime (h_url s3)) (h_os s3)\<rparr> else s3)"
  have "dohttp lib op k mtime s = ret (n, s4)"
    unfolding dohttp_def s0_def [symmetric] hl by (simp add: s2(1) s3_def s4_def Let_def split del: if_split cong: if_cong)
  moreover have "v_out v (h_os s4) = v_out v (h_os s2)" "r_start s4 = r_start s2" "r_end s4 = r_end s2" using w(4,5) by (simp_all add: s4_def s3_def)
  ultimately show ?thesis using s2 r1 r2 o1(3) by auto
qed


section \<open>A small world for the examples\<close>

text \<open>A system of two strings: what the server on descriptor 5 still sends, and the output. The digest
  of a string is the string. The file \<open>"old"\<close> has 600 bytes.\<close>

definition web :: "int \<Rightarrow> string \<Rightarrow> (string \<times> string, string) hlib" where
  "web ofd resp = \<lparr>h_read = (\<lambda>fd n (i, p). if fd = 5 then ((int (length (take n i)), take n i), (drop n i, p)) else ((-1, []), (i, p))),
     h_write = (\<lambda>fd bs (i, p). (int (length bs), if fd = ofd then (i, p @ bs) else (i, p))),
     h_close = (\<lambda>fd os. os), h_open = (\<lambda>nm m os. (if nm = ''old'' then 4 else -1, os)), h_create = (\<lambda>nm os. (4, os)),
     h_dirstat = (\<lambda>nm os. if nm = ''old'' then Some (600, 0) else None), h_set_mtime = (\<lambda>fd t os. os),
     h_dial = (\<lambda>addr (i, p). (5, (resp, p))), h_tls = (\<lambda>fd os. (-1, os)), h_announce = (\<lambda>a os. ((-1, []), os)),
     h_listen = (\<lambda>d os. ((-1, []), os)), h_accept = (\<lambda>fd d os. (-1, os)), h_time = (\<lambda>os. 0), h_user = (\<lambda>os. ''none''),
     h_auth = (\<lambda>h r os. (None, os)), netmkaddr = (\<lambda>h n p. n @ ''!'' @ h @ ''!'' @ p),
     gmtime = (\<lambda>t. \<lparr>tm_sec = 0, tm_min = 0, tm_hour = 0, tm_mday = 1, tm_mon = 0, tm_year = 70, tm_wday = 4, tm_yday = 0\<rparr>),
     tm2sec = (\<lambda>t. 0), getfields = (\<lambda>t n m d. [t]), gettokens = (\<lambda>t n d. [t]), enc64 = (\<lambda>n t. None), v4parseip = (\<lambda>t. [0, 0, 0, 0]),
     md5_upd = (\<lambda>bs c. (case c of None \<Rightarrow> bs | Some x \<Rightarrow> x @ bs)), md5_sum = (\<lambda>x. x)\<rparr>"

definition web_views :: "(string \<times> string) hviews" where
  "web_views = \<lparr>v_in = fst, v_out = snd\<rparr>"

lemma web_web_laws: "ofd \<noteq> 5 \<Longrightarrow> web_laws (web ofd resp) web_views (\<lambda>x. x) (\<lambda>x. x) ofd 5 resp"
  by (auto simp: web_laws_def recv_law_def send_law_def md5_law_def peer_law_def web_def web_views_def Let_def)

definition page_header :: "string \<Rightarrow> string" where
  "page_header code = ''HTTP/1.0 '' @ code @ crlf @ ''Content-length: 5'' @ crlf @ crlf"

lemma page_header_answers:
  assumes "code = ''200'' \<and> c = 200 \<or> code = ''206'' \<and> c = 206"
  shows "answers (page_header code @ body) c [''Content-length: 5''] body"
proof -
  define l where "l = [(''Content-length: 5'' @ [CHR 0x0D], ''Content-length: 5'')]"
  have h: "list_all (\<lambda>(l, h). raw l h \<and> header h \<and> \<not> auth_header h) l" "map snd l = [''Content-length: 5'']"
    by (simp_all add: l_def raw_def header_def clean_def is_white_def auth_header_def cistrncmp_def header_names_def to_lower_def)
  have s: "page_header code @ body = (''HTTP/1.0 '' @ code @ [CHR 0x0D]) @ NL # lines l @ [CHR 0x0D] @ NL # body"
    by (simp add: page_header_def crlf_def l_def)
  have c: "clean (''HTTP/1.0 '' @ code)" "raw [CHR 0x0D] []" "raw (''HTTP/1.0 '' @ code @ [CHR 0x0D]) (''HTTP/1.0 '' @ code)"
    "length (''HTTP/1.0 '' @ code @ [CHR 0x0D]) < 253" "length (''HTTP/1.0 '' @ code @ [CHR 0x0D]) + length (lines l @ [CHR 0x0D]) + 4 < 2048"
    using assms by (auto simp: clean_def raw_def is_white_def l_def)
  have d: "take 5 (''HTTP/1.0 '' @ code) = ''HTTP/''" "strchr (''HTTP/1.0 '' @ code) CHR '' '' = Some 8" by (simp_all add: eval_nat_numeral)
  have e: "atoi (drop (Suc 8) (''HTTP/1.0 '' @ code)) = c"
    using assms by (elim disjE conjE; simp; code_simp)
  show ?thesis unfolding answers_def using s h c d e
    by (intro exI [where x = "''HTTP/1.0 '' @ code @ [CHR 0x0D]"] exI [where x = "''HTTP/1.0 '' @ code"] exI [where x = 8]
      exI [where x = l] exI [where x = "[CHR 0x0D]"]) simp
qed

section \<open>The properties\<close>

definition fresh :: "('os, 'd) hlib \<Rightarrow> url \<Rightarrow> 'os \<Rightarrow> ('os, 'd) hget" where
  "fresh lib u os = setoffset lib 0 \<lparr>h_url = u, r_start = 0, r_end = -1, o_fd = 1, o_offset = 0, o_written = 0, o_curr = None, o_hiwat = None,
     b_buf = replicate 4096 NUL, b_rp = 0, b_wp = 0, h_os = os\<rparr>"

text \<open>C7. hget writes the page: when the server answers the request of a web address with code 200, headers that are
  taken without an error and a body at least as long as they say, the program returns, and the output holds the body.
  The clock is taken to stand still meanwhile.\<close>

theorem hget_fetches:
  assumes "web_laws lib v dig H 1 fd resp" "answers resp 200 hs body" "v_out v os = []" "length body < 2 ^ 31"
    and "ofile op = None" "net op = None" "\<not> headerprint op" "crackurl url0 arg = (True, u)" "u_method u = Http"
    and "run_headers lib hs (asked lib 200 (fresh lib u os)) = ret ((), t)" "r_end t \<le> int (length body)" "4096 < k" "length body < k"
  shows "\<exists>s'. hget_main lib op None k [] arg os = ret ((), s') \<and> v_out v (h_os s') = body"
proof -
  define s where "s = fresh lib u os"
  define op' where "op' = set_net op url0"
  have op': "ofile op' = None" "\<not> headerprint op'" using assms(5,7) by (simp_all add: op'_def set_net_def)
  have s: "h_url s = u" "o_fd s = 1" "r_start s = 0" "length (b_buf s) = 4096" "s\<lparr>r_start := back_up (r_start s)\<rparr> = s"
    by (simp_all add: s_def fresh_def setoffset_def back_up_def)
  have m: "u_method (h_url s) \<noteq> Https" "u_method (h_url s) \<noteq> Ftp" using s(1) assms(9) by (simp_all add: Http_def Https_def Ftp_def)
  have "out_ok v dig [] 0 (asked lib 200 s)" using assms(3) by (simp add: s_def fresh_def asked_def setoffset_def out_ok_def)
  with s(5) have out: "out_ok v dig [] 0 (asked lib 200 (s\<lparr>r_start := back_up (r_start s)\<rparr>))" by simp
  have run: "run_headers lib hs (asked lib 200 (s\<lparr>r_start := back_up (r_start s)\<rparr>)) = ret ((), t)" using assms(10) s(5) by (simp add: s_def)
  have code: "(200::int) = 200 \<and> (ofile op' = None \<longrightarrow> back_up (r_start s) = 0) \<or> (200::int) = 206" using s(3) by (simp add: back_up_def)
  have "length ([]::string) + length body < 2 ^ 31" using assms(4) by simp
  from dohttp_body [OF assms(1) [folded s(2)] op'(2) m(1) s(4) assms(12,13,2) code run out this, of 0] s(3) obtain s' where
    s': "dohttp lib op' k 0 s = ret (int (length body), s')" "v_out v (h_os s') = body" "r_start s' = 0" "r_end s' = r_end t"
    by (auto simp: accepts_def back_up_def split: option.splits)
  obtain j where k: "k = Suc j" using assms(12) by (cases k) auto
  have i: "int32 (int (length body)) = int (length body)" using assms(4) by (intro int32_id) auto
  have "\<exists>s''. get_loop lib op' k (Suc j) 0 0 (s\<lparr>o_curr := None\<rparr>) = ret ((), s'') \<and> v_out v (h_os s'') = body"
  proof -
    have "setoffset lib 0 (s\<lparr>o_curr := None\<rparr>) = s" by (simp add: s_def fresh_def setoffset_def)
    then show ?thesis using s' m(2) i assms(11) by (simp add: Eof_def Error_def Server_def)
  qed
  then show ?thesis using assms(5,6,8) k
    by (simp add: hget_main_def init_out_def post_body_def Let_def op'_def s_def fresh_def setoffset_def url0_def)
qed

definition web_op :: "string option \<Rightarrow> hopt" where
  "web_op f = \<lparr>ofile = f, headerprint = False, net = None, tcpdir = [], px_host = None, px_port = []\<rparr>"

definition web_url :: url where
  "web_url = url0\<lparr>u_method := Http, host := Some ''h'', page := Some ''/p'', port := ''http''\<rparr>"

lemma web_crackurl: "crackurl url0 ''http://h/p'' = (True, web_url)"
  by (simp add: crackurl_def web_url_def method_names_def cistrcmp_def to_lower_def url0_def Http_def Other_def upt_rec numeral_nat)

lemma web_run_headers: "run_headers lib [''Content-length: 5''] s = ret ((), s\<lparr>r_end := 5\<rparr>)"
proof -
  have "find (\<lambda>i. cistrncmp ''Content-length: 5'' (header_names ! i) (length (header_names ! i))) [0..<7] = Some 2"
    by code_simp
  moreover have "atoi ''5'' = 5" by code_simp
  ultimately show ?thesis by (simp add: do_header_def header_names_def header_action_def hhclen_def)
qed

theorem hget_fetches_witness:
  "\<exists>s'. hget_main (web 1 (page_header ''200'' @ ''Hello'')) (web_op None) None 5000 [] ''http://h/p'' ([], []) = ret ((), s')
    \<and> v_out web_views (h_os s') = ''Hello''"
  by (rule hget_fetches [OF web_web_laws page_header_answers _ _ _ _ _ web_crackurl _ web_run_headers])
    (simp_all add: web_views_def web_op_def web_url_def)

text \<open>C8. What has been written is not written twice: when a transfer is begun again, with a beginning of the page in the
  output, the page is complete afterwards, whether the server sends all of it again (code 200) or what is missing from the
  block on that hget has asked for (code 206). The clock is taken to stand still meanwhile.\<close>

theorem http_resumes:
  assumes "web_laws lib v dig H (o_fd s) fd resp" "answers resp code hs body" "length pg < 2 ^ 30"
    and "out_ok v dig W 0 (setoffset lib 0 s)" "W = take (length W) pg" "0 \<le> r_start s" "r_start s \<le> int (length W)"
    and "code = 200 \<and> ofile op \<noteq> None \<and> body = pg \<or> code = 206 \<and> body = drop (nat (back_up (r_start s))) pg"
    and "\<not> headerprint op" "u_method (h_url s) \<noteq> Https" "length (b_buf s) = 4096" "4096 < k" "length body < k"
    and "run_headers lib hs (asked lib code ((setoffset lib 0 s)\<lparr>r_start := back_up (r_start s)\<rparr>)) = ret ((), t)"
  shows "\<exists>s'. dohttp lib op k mtime (setoffset lib 0 s) = ret (int (length body), s') \<and> v_out v (h_os s') = pg"
proof -
  define s0 where "s0 = setoffset lib 0 s"
  define b where "b = nat (back_up (r_start s))"
  define off where "off = (if code = 206 then b else 0)"
  have lW: "length W \<le> length pg" using assms(5) by (metis length_take min.cobounded1 min.commute)
  have "r_start s < 2 ^ 31" using assms(3,7) lW by simp
  from back_up_bounds [OF assms(6) this] have b: "back_up (r_start s) = int b" "b \<le> length W" using assms(7) by (auto simp: b_def)
  have s0: "web_laws lib v dig H (o_fd s0) fd resp" "u_method (h_url s0) \<noteq> Https" "length (b_buf s0) = 4096" "r_start s0 = r_start s"
    using assms(1,10,11) by (simp_all add: s0_def setoffset_def)
  have out: "out_ok v dig W off (asked lib code (s0\<lparr>r_start := back_up (r_start s0)\<rparr>))"
    using assms(4) b by (auto simp: s0_def s0(4) out_ok_def asked_def setoffset_def off_def split: option.splits)
  have l: "length W + length body < 2 ^ 31" "length body \<le> length pg" using assms(3,8) lW by auto
  have code: "code = 200 \<and> (ofile op = None \<longrightarrow> back_up (r_start s0) = 0) \<or> code = 206" using assms(8) by auto
  have run: "run_headers lib hs (asked lib code (s0\<lparr>r_start := back_up (r_start s0)\<rparr>)) = ret ((), t)"
    using assms(14) unfolding s0(4) unfolding s0_def .
  from dohttp_body [OF s0(1) assms(9) s0(2,3) assms(12,13,2) code run out l(1), of mtime] obtain s' n where
    s': "dohttp lib op k mtime s0 = ret (n, s')" "v_out v (h_os s') = (if accepts dig H (o_curr t) W off body then W @ drop (length W - off) body else W)"
      "accepts dig H (o_curr t) W off body \<longrightarrow> n = int (length body)"
    by blast
  have c: "dig (md5_upd lib [] None) = []" using assms(1) by (simp add: web_laws_def md5_law_def)
  have "o_curr t = o_curr (asked lib code ((setoffset lib 0 s)\<lparr>r_start := back_up (r_start s)\<rparr>))" using run_headers_keeps [OF assms(14)] by simp
  then have cu: "o_curr t = (if code = 206 \<and> b \<noteq> 0 then None else Some (md5_upd lib [] None))" using b by (auto simp: asked_def setoffset_def)
  have acc: "accepts dig H (o_curr t) W off body"
    using assms(5,8) c b(2) by (auto simp: accepts_def cu off_def b_def [symmetric] simp flip: assms(5))
  have "W @ drop (length W - off) body = pg"
  proof -
    have "drop (length W - off) body = drop (length W) pg" using assms(8) b(2) by (auto simp: off_def b_def [symmetric])
    then show ?thesis using assms(5) by (metis append_take_drop_id)
  qed
  then show ?thesis using s' acc by (simp add: s0_def)
qed

text \<open>The state after \<open>W\<close> has been written on descriptor 4.\<close>

definition half :: "string \<Rightarrow> (string \<times> string, string) hget" where
  "half W = \<lparr>h_url = web_url, r_start = int (length W), r_end = -1, o_fd = 4, o_offset = int (length W), o_written = int (length W), o_curr = None,
     o_hiwat = (if W = [] then None else Some W), b_buf = replicate 4096 NUL, b_rp = 0, b_wp = 0, h_os = ([], W)\<rparr>"

lemma half_out: "out_ok web_views (\<lambda>x. x) W 0 (setoffset lib 0 (half W))"
  by (simp add: out_ok_def half_def setoffset_def web_views_def)

theorem http_resumes_witness:
  "let W = replicate 600 CHR ''a''; resp = page_header ''206'' @ drop 512 (W @ ''tail'')
   in \<exists>s'. dohttp (web 4 resp) (web_op (Some ''f'')) 5000 0 (setoffset (web 4 resp) 0 (half W)) = ret (92, s') \<and> v_out web_views (h_os s') = W @ ''tail''"
proof -
  define W where "W = replicate 600 CHR ''a''"
  define resp where "resp = page_header ''206'' @ drop 512 (W @ ''tail'')"
  have l: "length W = 600" by (simp add: W_def)
  have b: "nat (back_up 600) = 512" by (simp add: back_up_def cdiv_def int32_def)
  have bs: "length (drop 512 (W @ ''tail'')) = 92" by (simp add: W_def)
  have a: "(206::int) = 200 \<and> ofile (web_op (Some ''f'')) \<noteq> None \<and> drop 512 (W @ ''tail'') = W @ ''tail''
      \<or> (206::int) = 206 \<and> drop 512 (W @ ''tail'') = drop (nat (back_up (r_start (half W)))) (W @ ''tail'')"
    by (simp add: half_def l b)
  have L: "web_laws (web 4 resp) web_views (\<lambda>x. x) (\<lambda>x. x) (o_fd (half W)) 5 resp" by (simp add: half_def web_web_laws)
  have A: "answers resp 206 [''Content-length: 5''] (drop 512 (W @ ''tail''))" unfolding resp_def by (rule page_header_answers) simp
  have s: "length (W @ ''tail'') < 2 ^ 30" "W = take (length W) (W @ ''tail'')" "0 \<le> r_start (half W)" "r_start (half W) \<le> int (length W)"
    "\<not> headerprint (web_op (Some ''f''))" "u_method (h_url (half W)) \<noteq> Https" "length (b_buf (half W)) = 4096" "(4096::nat) < 5000"
    "length (drop 512 (W @ ''tail'')) < 5000"
    by (simp_all add: l half_def web_op_def web_url_def Http_def Https_def)
  from http_resumes [OF L A s(1) half_out s(2-4) a s(5-9) web_run_headers, of 0]
  show ?thesis unfolding bs W_def resp_def Let_def by simp
qed

text \<open>A page that has changed is not joined to the old beginning: when the server sends all of the page again and the
  digest of its beginning is not the one of what has been written, nothing is added to the output.\<close>

theorem http_rejects_changed:
  assumes "web_laws lib v dig H (o_fd s) fd resp" "answers resp 200 hs body" "length W + length body < 2 ^ 31"
    and "out_ok v dig W 0 (setoffset lib 0 s)" "W \<noteq> []" "length W \<le> length body" "H (take (length W) body) \<noteq> H W"
    and "ofile op \<noteq> None" "\<not> headerprint op" "u_method (h_url s) \<noteq> Https" "length (b_buf s) = 4096" "4096 < k" "length body < k"
    and "run_headers lib hs (asked lib 200 ((setoffset lib 0 s)\<lparr>r_start := back_up (r_start s)\<rparr>)) = ret ((), t)"
  shows "\<exists>s' n. dohttp lib op k mtime (setoffset lib 0 s) = ret (n, s') \<and> v_out v (h_os s') = W"
proof -
  define s0 where "s0 = setoffset lib 0 s"
  have s0: "web_laws lib v dig H (o_fd s0) fd resp" "u_method (h_url s0) \<noteq> Https" "length (b_buf s0) = 4096" "r_start s0 = r_start s"
    using assms(1,10,11) by (simp_all add: s0_def setoffset_def)
  have out: "out_ok v dig W 0 (asked lib 200 (s0\<lparr>r_start := back_up (r_start s0)\<rparr>))" using assms(4) by (simp add: s0_def out_ok_def asked_def)
  have code: "(200::int) = 200 \<and> (ofile op = None \<longrightarrow> back_up (r_start s0) = 0) \<or> (200::int) = 206" using assms(8) by auto
  have run: "run_headers lib hs (asked lib 200 (s0\<lparr>r_start := back_up (r_start s0)\<rparr>)) = ret ((), t)"
    using assms(14) unfolding s0(4) unfolding s0_def .
  have "o_curr t = Some (md5_upd lib [] None)" using run_headers_keeps [OF run] by (simp add: asked_def s0_def setoffset_def)
  moreover have "dig (md5_upd lib [] None) = []" using assms(1) by (simp add: web_laws_def md5_law_def)
  ultimately have "\<not> accepts dig H (o_curr t) W 0 body" using assms(5-7) by (auto simp: accepts_def)
  with dohttp_body [OF s0(1) assms(9) s0(2,3) assms(12,13,2) code run out assms(3), of mtime] show ?thesis by (auto simp: s0_def)
qed

theorem http_rejects_changed_witness:
  "\<exists>s' n. dohttp (web 4 (page_header ''200'' @ ''Hello'')) (web_op (Some ''f'')) 5000 0 (setoffset (web 4 (page_header ''200'' @ ''Hello'')) 0 (half ''Ha''))
     = ret (n, s') \<and> v_out web_views (h_os s') = ''Ha''"
proof -
  have L: "web_laws (web 4 r) web_views (\<lambda>x. x) (\<lambda>x. x) (o_fd (half ''Ha'')) 5 r" for r by (simp add: half_def web_web_laws)
  show ?thesis by (rule http_rejects_changed [OF L page_header_answers _ half_out _ _ _ _ _ _ _ _ _ web_run_headers])
    (simp_all add: half_def web_op_def web_url_def Http_def Https_def)
qed

text \<open>\<open>crackurl\<close> finds the parts of an address: method, host, port and page, the page \<open>/\<close> and the method's own port
  where the address names none.\<close>

theorem crackurl_reads:
  assumes "m < 3" "h \<noteq> []" "CHR ''/'' \<notin> set h" "CHR '':'' \<notin> set h" "CHR ''/'' \<notin> set pt" "pg = [] \<or> head_is pg CHR ''/''"
  shows "crackurl u (method_names ! m @ ''://'' @ h @ (if pt = [] then [] else CHR '':'' # pt) @ pg)
    = (True, u\<lparr>host := Some h, page := Some (if pg = [] then ''/'' else pg), u_method := m, port := (if pt = [] then method_names ! m else pt)\<rparr>)"
proof -
  define rest where "rest = h @ (if pt = [] then [] else CHR '':'' # pt) @ pg"
  have um: "url_method (method_names ! m @ ''://'' @ rest) 0 (method_names ! m @ ''://'' @ rest) = Some (m, rest)"
  proof -
    have "m = 0 \<or> m = 1 \<or> m = 2" using assms(1) by auto
    then show ?thesis by (elim disjE) (simp_all add: method_names_def cistrcmp_def to_lower_def upt_rec Other_def eval_nat_numeral)
  qed
  define hp where "hp = h @ (if pt = [] then [] else CHR '':'' # pt)"
  have "CHR ''/'' \<notin> set hp" using assms(3,5) by (simp add: hp_def)
  moreover have r: "rest = hp @ pg" by (simp add: rest_def hp_def)
  ultimately have sl: "strchr rest CHR ''/'' = (if pg = [] then None else Some (length hp))"
    using assms(6) by (cases pg) (auto simp: head_is_def strchr_append strchr_None)
  have co: "strchr hp CHR '':'' = (if pt = [] then None else Some (length h))"
    using assms(4) by (auto simp: hp_def strchr_append strchr_None)
  have parts: "(case strchr hp CHR '':'' of None \<Rightarrow> (hp, q) | Some p \<Rightarrow> (take p hp, drop (Suc p) hp)) = (h, if pt = [] then q else pt)" for q
    by (simp add: co) (simp add: hp_def)
  have page: "(case strchr rest CHR ''/'' of None \<Rightarrow> (rest, ''/'') | Some p \<Rightarrow> (take p rest, drop p rest)) = (hp, if pg = [] then ''/'' else pg)"
    by (simp add: sl) (simp add: r)
  show ?thesis using um assms(2) unfolding crackurl_def rest_def [symmetric] by (simp add: Let_def page parts)
qed

theorem crackurl_reads_witness:
  "crackurl url0 ''ftp://h:21'' = (True, url0\<lparr>host := Some ''h'', page := Some ''/'', u_method := 2, port := ''21''\<rparr>)"
  using crackurl_reads [of 2 "''h''" "''21''" "[]" url0] by (simp add: method_names_def)

text \<open>A line that is longer than the buffer.\<close>

lemma line_loop_overruns:
  assumes "recv_law lib v fd"
  shows "buf_in s \<Longrightarrow> 4096 - b_rp s < length (pend v s) \<Longrightarrow> NL \<notin> set (pend v s) \<Longrightarrow> 4096 - b_rp s < k \<Longrightarrow>
    line_loop lib fd k len acc s = Some (Inl HUndef)"
proof (induction k arbitrary: len acc s)
  case 0
  then show ?case by simp
next
  case (Suc k)
  consider (over) "(if b_wp s \<le> b_rp s then fill lib fd s else ret (1, s)) = Some (Inl HUndef)"
    | (more) n s1 where "(if b_wp s \<le> b_rp s then fill lib fd s else ret (1, s)) = ret (n, s1)" "0 < n" "buf_in s1" "pend v s1 = pend v s"
        "b_rp s1 = b_rp s" "b_rp s1 < b_wp s1"
  proof (cases "b_wp s \<le> b_rp s")
    case True
    then have e: "b_rp s = b_wp s" using Suc.prems(1) by (simp add: buf_in_def)
    obtain n bs os where r: "h_read lib fd 2048 (h_os s) = ((n, bs), os)" by (metis surj_pair)
    have law: "n = int (length bs)" "v_in v (h_os s) = bs @ v_in v os" "bs = [] \<longrightarrow> v_in v os = []"
      using assms [unfolded recv_law_def, rule_format, of 2048 "h_os s"] r by simp_all
    have p: "pend v s = bs @ v_in v os" using e law(2) by (simp add: pend_def fld_def)
    have ne: "bs \<noteq> []" using law(3) p Suc.prems(2) by auto
    show thesis
    proof (cases "4096 < b_wp s + length bs")
      case True
      then have "fill lib fd s = Some (Inl HUndef)" using r ne law(1) by (simp add: fill_def)
      then show thesis using over e by simp
    next
      case False
      define s1 where "s1 = s\<lparr>h_os := os, b_buf := put (b_wp s) bs (b_buf s), b_wp := b_wp s + length bs\<rparr>"
      have l: "length (put (b_wp s) bs (b_buf s)) = 4096" using Suc.prems(1) False by (subst length_put) (auto simp: buf_in_def)
      have f: "fill lib fd s = ret (n, s1)" using r ne law(1) False by (simp add: fill_def s1_def)
      have "fld (b_wp s) (length bs) (put (b_wp s) bs (b_buf s)) = bs"
        using Suc.prems(1) False by (intro fld_put_same) (simp add: buf_in_def)
      then have "pend v s1 = pend v s" unfolding p by (simp add: pend_def s1_def e)
      then show thesis using more [of n s1] f ne law(1) l e False by (simp add: s1_def buf_in_def)
    qed
  next
    case False
    then show thesis using more [of 1 s] Suc.prems(1) by simp
  qed
  then show ?case
  proof cases
    case over
    then show ?thesis by simp
  next
    case more
    define s2 where "s2 = s1\<lparr>b_rp := b_rp s1 + 1\<rparr>"
    have byte: "b_buf s1 ! b_rp s1 # pend v s2 = pend v s" using pend_byte [OF more(3,6), of v] more(4) by (simp add: s2_def)
    have le: "b_rp s1 < 4096" using more(3,6) by (simp add: buf_in_def)
    have "length (pend v s) = Suc (length (pend v s2))" "NL \<notin> set (pend v s2)" "b_buf s1 ! b_rp s1 \<noteq> NL"
      using Suc.prems(3) unfolding byte [symmetric] by auto
    then have "buf_in s2" "4096 - b_rp s2 < length (pend v s2)" "NL \<notin> set (pend v s2)" "4096 - b_rp s2 < k"
      using more(3,5,6) Suc.prems(2,4) le by (auto simp: s2_def buf_in_def)
    from Suc.IH [OF this] show ?thesis using more(1,2) \<open>b_buf s1 ! b_rp s1 \<noteq> NL\<close> by (simp add: s2_def split del: if_split)
  qed
qed

text \<open>A server can make hget store beyond its buffer: when it sends 4097 bytes without a newline, in pieces of any size,
  reading a line from it puts bytes behind the 4096 of the buffer.\<close>

theorem long_line_overruns:
  assumes "recv_law lib v fd" "length (b_buf s) = 4096" "4096 < length (v_in v (h_os s))" "NL \<notin> set (v_in v (h_os s))" "4096 < k"
  shows "readline lib k fd len (initibuf s) = Some (Inl HUndef)"
proof -
  have "buf_in (initibuf s)" "pend v (initibuf s) = v_in v (h_os s)" "b_rp (initibuf s) = 0"
    using assms(2) by (simp_all add: buf_in_def initibuf_def pend_def fld_def)
  then show ?thesis using assms line_loop_overruns [OF assms(1), of "initibuf s" k] by (simp add: readline_def)
qed

theorem long_line_overruns_witness:
  "readline (web 1 []) 5000 5 255 (initibuf ((half [])\<lparr>h_os := (replicate 4097 CHR ''x'', [])\<rparr>)) = Some (Inl HUndef)"
proof -
  have "recv_law (web 1 []) web_views 5" using web_web_laws [of 1 "[]"] by (simp add: web_laws_def)
  then show ?thesis by (rule long_line_overruns) (simp_all add: half_def web_views_def)
qed

text \<open>A file that is there already cannot be completed: hget asks for what comes after it, and when the server does send
  just that (code 206), the first bytes fail the assertion that not more has been skipped than written.\<close>

theorem resume_aborts:
  assumes "ofile op = Some f" "h_dirstat lib f os = Some (len, mt)" "h_open lib f 1 os = (ofd, os')" "0 \<le> ofd" "512 < len" "len < 2 ^ 31"
    and "web_laws lib v dig H ofd fd resp" "answers resp 206 hs body" "body \<noteq> []"
    and "net op = None" "\<not> headerprint op" "crackurl url0 arg = (True, u)" "u_method u = Http" "4096 < k"
    and "\<And>s. h_url s = u\<lparr>redirect := None\<rparr> \<Longrightarrow> \<exists>t. run_headers lib hs s = ret ((), t)"
  shows "hget_main lib op None k [] arg os = Some (Inl HAbort)"
proof -
  define op' where "op' = set_net op url0"
  define s where "s = setoffset lib 0 \<lparr>h_url = u, r_start = len, r_end = -1, o_fd = ofd, o_offset = 0, o_written = 0, o_curr = None, o_hiwat = None,
     b_buf = replicate 4096 NUL, b_rp = 0, b_wp = 0, h_os = os'\<rparr>"
  define s0 where "s0 = s\<lparr>r_start := back_up (r_start s)\<rparr>"
  have s: "u_method (h_url s0) \<noteq> Https" "u_method (h_url s) \<noteq> Ftp" "length (b_buf s0) = 4096" "o_fd s0 = ofd" "r_start s = len" "o_written s0 = 0"
    using assms(13) by (simp_all add: s0_def s_def setoffset_def Http_def Https_def Ftp_def)
  have i1: "int32 (len - 1) = len - 1" using assms(5,6) by (intro int32_id) auto
  have c1: "cdiv (len - 1) 512 = (len - 1) div 512" using assms(5) by (simp add: cdiv_def)
  have "1 * 512 \<le> (len - 1) div 512 * 512" using assms(5) by (intro mult_right_mono) auto
  moreover have "(len - 1) div 512 * 512 \<le> len - 1" by (auto simp: div_mult_mod_eq [symmetric] algebra_simps)
  moreover from calculation have "int32 ((len - 1) div 512 * 512) = (len - 1) div 512 * 512" using assms(6) by (intro int32_id) auto
  ultimately have b: "512 \<le> back_up len" "back_up len < 2 ^ 31" using assms(5,6) by (simp_all add: back_up_def i1 c1)
  have "h_url (asked lib 206 s0) = u\<lparr>redirect := None\<rparr>" by (simp add: asked_def s0_def s_def setoffset_def)
  then obtain t where t: "run_headers lib hs (asked lib 206 s0) = ret ((), t)" using assms(15) by blast
  have op': "\<not> headerprint op'" using assms(11) by (simp add: op'_def set_net_def)
  have code: "(206::int) = 200 \<and> (ofile op' = None \<longrightarrow> r_start s0 = 0) \<or> (206::int) = 206" by simp
  from request_answered [OF assms(7) [folded s(4)] op' s(1,3) assms(14,8) code t, of 0] obtain s1 where
    s1: "http_request lib op' k mt s0 = ret (Body fd, s1)" "pend v s1 = body" "buf_in s1" "sim t s1"
    using request_answered [OF assms(7) [folded s(4)] op' s(1,3) assms(14,8) code t, of mt] by blast
  have hl: "http_loop lib op' k mt 32 (-1) s0 = ret (Body fd, s1)"
  proof -
    have "http_loop lib op' k mt (Suc n) (-1) s0 = ret (Body fd, s1)" for n using s1(1) by simp
    from this [of 31] show ?thesis by simp
  qed
  have o1: "o_written s1 = 0" "o_offset s1 = back_up len"
    using run_headers_keeps [OF t] s1(4) s(5,6) by (simp_all add: sim_def asked_def setoffset_def s0_def)
  have "recv_law lib v fd" "0 < (1024::nat)" using assms(7) by (simp_all add: web_laws_def)
  from readibuf_reads [OF this(1) s1(3) this(2)] obtain bs s2 where
    s2: "readibuf lib fd 1024 s1 = ((int (length bs), bs), s2)" "bs \<noteq> []" "only_in v s1 s2" using s1(2) assms(9) by blast
  have "int32 (o_written s2 - o_offset s2) = - back_up len"
    using s2(3) o1 b by (simp add: only_in_def int32_id)
  then have "hget_output lib bs s2 = Some (Inl HAbort)" using b by (simp add: hget_output_def Let_def)
  moreover obtain j where k: "k = Suc j" using assms(14) by (cases k) auto
  ultimately have "transfer lib k fd 0 s1 = Some (Inl HAbort)" using s2(1,2) by simp
  then have "dohttp lib op' k mt s = Some (Inl HAbort)" unfolding dohttp_def s0_def [symmetric] hl by simp
  moreover have "setoffset lib 0 (s\<lparr>o_curr := None\<rparr>) = s" by (simp add: s_def setoffset_def)
  ultimately have "get_loop lib op' k (Suc j) mt 0 (s\<lparr>o_curr := None\<rparr>) = Some (Inl HAbort)" using s(2) by simp
  moreover have "int32 len = len" using assms(5,6) by (intro int32_id) auto
  ultimately show ?thesis using assms(1-4,10,12) k
    by (simp add: hget_main_def init_out_def post_body_def Let_def op'_def s_def setoffset_def url0_def)
qed

theorem resume_aborts_witness:
  "hget_main (web 4 (page_header ''206'' @ ''tail'')) (web_op (Some ''old'')) None 5000 [] ''http://h/p'' ([], []) = Some (Inl HAbort)"
proof -
  have L: "web_laws (web 4 r) web_views (\<lambda>x. x) (\<lambda>x. x) 4 5 r" for r by (rule web_web_laws) simp
  have h: "h_dirstat (web 4 r) ''old'' ([], []) = Some (600, 0)" "h_open (web 4 r) ''old'' 1 ([], []) = (4, ([], []))" for r
    by (simp_all add: web_def)
  have R: "\<exists>t. run_headers lib [''Content-length: 5''] s = ret ((), t)" for lib :: "('os, 'd) hlib" and s using web_run_headers by blast
  show ?thesis by (rule resume_aborts [OF _ h _ _ _ L page_header_answers _ _ _ web_crackurl _ _ R])
    (simp_all add: web_op_def web_url_def)
qed

end
