(* ===== verification/WinStr.thy ===== *)
theory WinStr
  imports Prelude
begin

text \<open>
  Strings and paths of the Windows port, src/src/lib9/mingw: wide strings (wstr.c), white space and slashes in paths
  (misc.c), the working directory (getwd.c), the path of a program (\<open>setpath\<close> of xpath.c). A string is the list of its
  characters before the NUL, a wide string (\<open>WCHAR*\<close>) the list of its 16-bit units. The library's UTF functions are the
  parameter \<open>utf\<close>; a string is taken apart with \<open>chartorune\<close>, which gives a rune and the bytes it took.
\<close>

section \<open>Wide strings\<close>

record utf =
  chartorune :: "string \<Rightarrow> nat \<times> nat"
  runetochar :: "nat \<Rightarrow> string"
  runelen :: "nat \<Rightarrow> nat"
  utflen :: "string \<Rightarrow> nat"

definition UTFmax :: int where "UTFmax = 4"

text \<open>\<open>w\<close> is not advanced: the loop ends when the string is empty, and never else.\<close>

partial_function (option) wstrlen_loop :: "nat \<Rightarrow> nat list \<Rightarrow> nat option" where
  "wstrlen_loop n w = (if w = [] then Some n else wstrlen_loop (n + 1) w)"

definition winwstrlen :: "nat list \<Rightarrow> nat option" where
  "winwstrlen w = wstrlen_loop 0 w"

definition winwstrutflen :: "utf \<Rightarrow> nat list \<Rightarrow> nat" where
  "winwstrutflen u w = sum_list (map (runelen u) w)"

text \<open>The number that is returned, with the bytes that are stored before the NUL, at most \<open>n\<close> with it.\<close>

fun wtou_loop :: "utf \<Rightarrow> int \<Rightarrow> string \<Rightarrow> nat list \<Rightarrow> nat \<times> string" where
  "wtou_loop u n acc [] = (length acc, acc)"
| "wtou_loop u n acc (c # w) =
     (if n < UTFmax + 1 \<and> n < int (runelen u c) + 1 then (length acc + winwstrutflen u (c # w) + 1, acc)
      else wtou_loop u (n - int (length (runetochar u c))) (acc @ runetochar u c) w)"

text \<open>Without room nothing is stored, not even the NUL.\<close>

definition winwstrtoutfn :: "utf \<Rightarrow> int \<Rightarrow> nat list \<Rightarrow> nat \<times> string option" where
  "winwstrtoutfn u n w = (if n \<le> 0 then (0, None) else let (k, s) = wtou_loop u n [] w in (k, Some s))"

definition winwstrtoutfm :: "utf \<Rightarrow> nat list \<Rightarrow> string" where
  "winwstrtoutfm u w = the (snd (winwstrtoutfn u (int (winwstrutflen u w) + 1) w))"

text \<open>At most \<open>n\<close> units; a rune is cut to 16 bits.\<close>

fun utow_loop :: "utf \<Rightarrow> nat \<Rightarrow> string \<Rightarrow> nat list" where
  "utow_loop u 0 s = []"
| "utow_loop u (Suc n) s = (if s = [] then [] else let (r, k) = chartorune u s in r mod 65536 # utow_loop u n (drop k s))"

text \<open>The number of runes, and what is stored; nothing when it does not fit.\<close>

definition winutftowstr :: "utf \<Rightarrow> string \<Rightarrow> nat \<Rightarrow> nat \<times> nat list option" where
  "winutftowstr u s n = (let len = utflen u s in (len, if n \<le> len then None else Some (utow_loop u (n - 1) s)))"

definition winutf2wstr :: "utf \<Rightarrow> string \<Rightarrow> nat list" where
  "winutf2wstr u s = the (snd (winutftowstr u s (utflen u s + 1)))"

section \<open>White space and slashes\<close>

text \<open>A character that stands for a blank in file names, and one that stands for that character; none when the environment
  does not name any.\<close>

definition to_file :: "nat \<Rightarrow> nat \<Rightarrow> nat \<Rightarrow> nat" where
  "to_file wschar wsesc c = (if c = wschar then 32 else if c = wsesc then wschar else if c = 65533 then wsesc else c)"

definition from_file :: "nat \<Rightarrow> nat \<Rightarrow> nat \<Rightarrow> nat" where
  "from_file wschar wsesc c = (if c = wsesc then 65533 else if c = wschar then wsesc else if c = 32 then wschar else c)"

definition winreplacews :: "(nat \<times> nat) option \<Rightarrow> bool \<Rightarrow> nat list \<Rightarrow> nat list" where
  "winreplacews cfg rv w = (case cfg of None \<Rightarrow> w | Some (c, e) \<Rightarrow> map (if rv then to_file c e else from_file c e) w)"

definition winsl2bsl :: "nat list \<Rightarrow> nat list" where
  "winsl2bsl w = map (\<lambda>c. if c = 47 then 92 else c) w"

definition winbsl2sl :: "string \<Rightarrow> string" where
  "winbsl2sl s = map (\<lambda>c. if c = CHR 0x5C then CHR ''/'' else c) s"

definition winutf2wpath :: "utf \<Rightarrow> (nat \<times> nat) option \<Rightarrow> string \<Rightarrow> nat list" where
  "winutf2wpath u cfg s = winsl2bsl (winreplacews cfg True (winutf2wstr u s))"

section \<open>Paths\<close>

text \<open>The \<open>i\<close>th character; the terminating NUL and, for a short string, what is not looked at.\<close>

definition ch :: "string \<Rightarrow> nat \<Rightarrow> char" where
  "ch s i = (if i < length s then s ! i else NUL)"

definition letter :: "char \<Rightarrow> bool" where
  "letter c \<longleftrightarrow> 97 \<le> (of_char c :: nat) \<and> (of_char c :: nat) \<le> 122 \<or> 65 \<le> (of_char c :: nat) \<and> (of_char c :: nat) \<le> 90"

definition winisdrvspec :: "string \<Rightarrow> bool" where
  "winisdrvspec s \<longleftrightarrow> letter (ch s 0) \<and> (ch s 1 = CHR '':'' \<or> ch s 1 = CHR ''-'')"

definition iswindrvspec :: "string \<Rightarrow> bool" where
  "iswindrvspec s \<longleftrightarrow> letter (ch s 0) \<and> ch s 1 = CHR '':''"

definition slash :: "char \<Rightarrow> bool" where
  "slash c \<longleftrightarrow> c = CHR ''/'' \<or> c = CHR 0x5C"

text \<open>The directory for temporary files: \<open>t\<close> is what \<open>GetTempPath\<close> gives, empty when it fails.\<close>

definition tmp_dir :: "string \<Rightarrow> string option" where
  "tmp_dir t =
     (if t = [] \<or> 256 \<le> length t then None
      else let t = (if slash (last t) then butlast t else t)
           in Some (if iswindrvspec t \<and> take 8 (drop 3 t) = ''cygdrive'' then if ch t 12 = NUL then [] else ch t 12 # CHR '':'' # drop 13 t else t))"

fun strip_loop :: "nat \<Rightarrow> string \<Rightarrow> string" where
  "strip_loop skip [] = []"
| "strip_loop skip (c # r) = (if skip < length (c # r) \<and> c = CHR ''/'' then strip_loop skip r else c # r)"

definition strip :: "nat \<Rightarrow> string \<Rightarrow> string" where
  "strip skip s = rev (strip_loop skip (rev s))"

text \<open>A slash in front of a drive is dropped. The drive is written with a colon, and a slash follows.\<close>

definition bare :: "string \<Rightarrow> string" where
  "bare s = (if take 4 s \<noteq> ''/tmp'' \<and> ch s 0 = CHR ''/'' \<and> winisdrvspec (drop 1 s) then drop 1 s else s)"

definition drive_path :: "string \<Rightarrow> string" where
  "drive_path s = ch s 0 # CHR '':'' # (if slash (ch s 2) then [] else [CHR ''/'']) @ drop 2 s"

text \<open>With the path the size of its block.\<close>

definition winpathdup :: "string \<Rightarrow> string \<Rightarrow> string \<times> int" where
  "winpathdup t s =
     (let tmp = (if take 4 s = ''/tmp'' then tmp_dir t else None);
          ts = int (length (if slash (last t) then butlast t else t));
          reserve = 2 + (if tmp \<noteq> None then ts - 4 else 0);
          ds = int (length (bare s)) + 1 + reserve;
          (d, skip) =
            (case tmp of
               Some x \<Rightarrow> (take (nat ds - 1) (x @ drop 4 s), 1)
             | None \<Rightarrow> if winisdrvspec (bare s) then (drive_path (bare s), 3) else (bare s, 1))
      in (strip skip (winbsl2sl d), ds))"

text \<open>What \<open>p9chdir\<close> adds to it; for an empty path it looks at the byte before the block.\<close>

definition dir_slash :: "string \<Rightarrow> string option" where
  "dir_slash d = (if d = [] then None else Some (if last d \<noteq> CHR ''/'' then d @ ''/'' else d))"

text \<open>The working directory; \<open>None\<close> when the buffer has less than two bytes. \<open>wd\<close> is what \<open>_wgetcwd\<close> gives.\<close>

definition p9getwd :: "utf \<Rightarrow> (nat \<times> nat) option \<Rightarrow> nat list \<Rightarrow> int \<Rightarrow> string option" where
  "p9getwd u cfg wd ns =
     (let w = winreplacews cfg False wd
      in if ns < 2 then None
         else let s = the (snd (winwstrtoutfn u (ns - 1) w));
                  s = (if winisdrvspec s then CHR ''/'' # s[1 := CHR ''-''] else the (snd (winwstrtoutfn u ns w)));
                  s = winbsl2sl s
              in if s = [] then None else Some (if last s = CHR ''/'' then butlast s else s))"

definition pureasc :: "string \<Rightarrow> bool" where
  "pureasc s \<longleftrightarrow> list_all (\<lambda>c. (of_char c :: nat) < 128) s"

text \<open>The path of a program, \<open>None\<close> for an error. \<open>full\<close> is \<open>GetFullPathName\<close>, empty when it fails.\<close>

definition setpath :: "(string \<Rightarrow> string) \<Rightarrow> string \<Rightarrow> string option" where
  "setpath full f =
     (let tmp = map (\<lambda>c. if c = CHR ''/'' then CHR 0x5C else c) f;
          drv = ch tmp 0 = CHR 0x5C \<and> winisdrvspec (drop 1 tmp);
          tmp = (if drv then (drop 1 tmp)[1 := CHR '':''] else tmp)
      in if 260 \<le> length f \<or> (drv \<or> tmp \<noteq> [] \<and> ch tmp 1 = CHR '':'') \<and> ch tmp 2 \<noteq> NUL \<and> ch tmp 2 \<noteq> CHR 0x5C then None
         else let tmp = (if (drv \<or> tmp \<noteq> [] \<and> ch tmp 1 = CHR '':'') \<and> ch tmp 2 = NUL then tmp @ [CHR 0x5C] else tmp);
                  p = full tmp;
                  q = (if last p = CHR 0x5C then butlast p else p)
              in if 260 \<le> length p \<or> p = [] \<or> list_ex (\<lambda>c. (of_char c :: nat) < 32 \<or> c = CHR ''*'' \<or> c = CHR ''?'') p
                   \<or> last p = CHR 0x5C \<and> length p \<le> 2 \<or> ch q 1 = CHR '':'' \<and> ch q 2 = NUL
                 then None
                 else if ch q 0 \<noteq> CHR 0x5C \<or> ch q 1 \<noteq> CHR 0x5C then Some q
                 else if length (filter (\<lambda>c. c = CHR 0x5C) (drop 2 q)) \<le> 1 then None else Some q)"

section \<open>Conversions\<close>

text \<open>The runes of \<open>V\<close> are written and read back; the bytes of those that are not ASCII are not either.\<close>

definition utf_law :: "utf \<Rightarrow> nat set \<Rightarrow> bool" where
  "utf_law u V \<longleftrightarrow> (\<forall>r\<in>V. 0 < r \<and> r < 65536 \<and> runetochar u r \<noteq> [] \<and> runelen u r = length (runetochar u r)
       \<and> (\<forall>s. chartorune u (runetochar u r @ s) = (r, length (runetochar u r))) \<and> (r < 128 \<longrightarrow> runetochar u r = [char_of r])
       \<and> (128 \<le> r \<longrightarrow> list_all (\<lambda>c. 128 \<le> (of_char c :: nat)) (runetochar u r)))
     \<and> (\<forall>rs. set rs \<subseteq> V \<longrightarrow> utflen u (concat (map (runetochar u) rs)) = length rs)"

definition enc :: "utf \<Rightarrow> nat list \<Rightarrow> string" where
  "enc u rs = concat (map (runetochar u) rs)"

lemma enc_simps [simp]: "enc u [] = []" "enc u (r # rs) = runetochar u r @ enc u rs"
  by (simp_all add: enc_def)

lemma utf_lawD:
  assumes "utf_law u V" "r \<in> V"
  shows "r < 65536" "0 < r" "runetochar u r \<noteq> []" "runelen u r = length (runetochar u r)" "chartorune u (runetochar u r @ s) = (r, length (runetochar u r))"
    "r < 128 \<Longrightarrow> runetochar u r = [char_of r]" "128 \<le> r \<Longrightarrow> c \<in> set (runetochar u r) \<Longrightarrow> 128 \<le> (of_char c :: nat)"
  using assms by (auto simp: utf_law_def list_all_iff)

lemma utflen_enc: "utf_law u V \<Longrightarrow> set rs \<subseteq> V \<Longrightarrow> utflen u (enc u rs) = length rs"
  by (simp add: utf_law_def enc_def)

lemma wtou_all:
  assumes "utf_law u V"
  shows "set rs \<subseteq> V \<Longrightarrow> int (length (enc u rs)) < n \<Longrightarrow> wtou_loop u n acc rs = (length acc + length (enc u rs), acc @ enc u rs)"
proof (induction rs arbitrary: n acc)
  case (Cons r rs)
  have r: "runelen u r = length (runetochar u r)" using utf_lawD(4) [OF assms] Cons.prems(1) by simp
  have "int (length (enc u rs)) < n - int (length (runetochar u r))" using Cons.prems(2) by simp
  with Cons.IH [of "n - int (length (runetochar u r))" "acc @ runetochar u r"] show ?case using Cons.prems r by (simp add: UTFmax_def)
qed simp

lemma utow_all:
  assumes "utf_law u V"
  shows "set rs \<subseteq> V \<Longrightarrow> utow_loop u (length rs) (enc u rs) = rs"
proof (induction rs)
  case (Cons r rs)
  then have "r \<in> V" by simp
  with Cons utf_lawD [OF assms this] show ?case by simp
qed simp

lemma winwstrtoutfn_all:
  "utf_law u V \<Longrightarrow> set rs \<subseteq> V \<Longrightarrow> int (length (enc u rs)) < n \<Longrightarrow> winwstrtoutfn u n rs = (length (enc u rs), Some (enc u rs))"
  by (simp add: winwstrtoutfn_def wtou_all)

lemma winutf2wstr_enc: "utf_law u V \<Longrightarrow> set rs \<subseteq> V \<Longrightarrow> winutf2wstr u (enc u rs) = rs"
  by (simp add: winutf2wstr_def winutftowstr_def utflen_enc Let_def utow_all)

lemma winwstrutflen_enc: "utf_law u V \<Longrightarrow> set rs \<subseteq> V \<Longrightarrow> winwstrutflen u rs = length (enc u rs)"
  by (induction rs) (auto simp: winwstrutflen_def utf_lawD(4))

lemma winwstrtoutfm_enc: "utf_law u V \<Longrightarrow> set rs \<subseteq> V \<Longrightarrow> winwstrtoutfm u rs = enc u rs"
  by (simp add: winwstrtoutfm_def winwstrutflen_enc winwstrtoutfn_all)

text \<open>The length of a wide string is only found when it is 0.\<close>

lemma winwstrlen_hangs: "w \<noteq> [] \<Longrightarrow> winwstrlen w = None"
proof -
  have "wstrlen_loop n w = Some m \<Longrightarrow> w = []" for n w m
    by (rule wstrlen_loop.raw_induct [of "\<lambda>n w m. w = []"]) (auto split: if_splits)
  then show "w \<noteq> [] \<Longrightarrow> winwstrlen w = None" by (cases "winwstrlen w") (auto simp: winwstrlen_def)
qed

text \<open>A rune beyond 16 bits becomes another one.\<close>

lemma astral_rune_cut:
  assumes "chartorune u s = (65536 + r, length s)" "r < 65536" "s \<noteq> []" "utflen u s = 1"
  shows "winutf2wstr u s = [r]"
proof -
  have "winutf2wstr u s = utow_loop u (Suc 0) s" using assms(4) by (simp add: winutf2wstr_def winutftowstr_def)
  then show ?thesis using assms by simp
qed

lemma from_to_file: "c \<noteq> e \<Longrightarrow> c \<noteq> 32 \<Longrightarrow> e \<noteq> 32 \<Longrightarrow> c \<noteq> 65533 \<Longrightarrow> x \<noteq> 65533 \<Longrightarrow> to_file c e (from_file c e x) = x"
  by (simp add: to_file_def from_file_def)

section \<open>Paths\<close>

text \<open>A path has the room that \<open>chdir\<close> needs for a slash, and ends in one only if it is a root.\<close>

lemma strip_rev: "\<exists>k. strip_loop skip r = drop k r \<and> (drop k r \<noteq> [] \<longrightarrow> skip < length (drop k r) \<longrightarrow> hd (drop k r) \<noteq> CHR ''/'')"
proof (induction r)
  case (Cons c r)
  show ?case
  proof (cases "skip < length (c # r) \<and> c = CHR ''/''")
    case True
    from Cons obtain k where "strip_loop skip r = drop k r \<and> (drop k r \<noteq> [] \<longrightarrow> skip < length (drop k r) \<longrightarrow> hd (drop k r) \<noteq> CHR ''/'')" by blast
    then show ?thesis using True by (intro exI [where x = "Suc k"]) simp
  next
    case False
    then show ?thesis by (intro exI [where x = 0]) auto
  qed
qed simp

lemma strip_take: "\<exists>k. strip skip s = take k s \<and> (strip skip s \<noteq> [] \<longrightarrow> skip < length (strip skip s) \<longrightarrow> last (strip skip s) \<noteq> CHR ''/'')"
proof -
  obtain k where k: "strip_loop skip (rev s) = drop k (rev s)"
    "drop k (rev s) \<noteq> [] \<longrightarrow> skip < length (drop k (rev s)) \<longrightarrow> hd (drop k (rev s)) \<noteq> CHR ''/''"
    using strip_rev by blast
  have "strip skip s = take (length s - k) s" by (simp add: strip_def k(1) rev_drop)
  moreover have "rev (strip skip s) = drop k (rev s)" by (simp add: strip_def k(1))
  ultimately show ?thesis using k(2) by (intro exI [where x = "length s - k"]) (metis hd_rev length_rev rev_is_Nil_conv)
qed

lemma strip_same: "s \<noteq> [] \<Longrightarrow> last s \<noteq> CHR ''/'' \<Longrightarrow> strip skip s = s"
  by (cases s rule: rev_cases) (auto simp: strip_def)

lemma length_bsl2sl [simp]: "length (winbsl2sl s) = length s"
  by (simp add: winbsl2sl_def)

lemma tmp_dir_length: "tmp_dir t = Some x \<Longrightarrow> length x \<le> length (if slash (last t) then butlast t else t)"
  by (auto simp: tmp_dir_def Let_def ch_def split: if_splits)

lemma winisdrvspec_length: "winisdrvspec s \<Longrightarrow> 2 \<le> length s"
  by (auto simp: winisdrvspec_def ch_def letter_def split: if_splits)

lemma drive_path_spec: "winisdrvspec s \<Longrightarrow> iswindrvspec (drive_path s) \<and> length (drive_path s) \<le> length s + 1"
  using winisdrvspec_length [of s] by (auto simp: drive_path_def iswindrvspec_def winisdrvspec_def ch_def)

lemma winpathdup_shape:
  "\<exists>d k. winpathdup t s = (strip k (winbsl2sl d), snd (winpathdup t s)) \<and> int (length d) + 2 \<le> snd (winpathdup t s)
    \<and> (k = 1 \<or> k = 3 \<and> iswindrvspec d)"
proof (cases "take 4 s = ''/tmp'' \<and> tmp_dir t \<noteq> None")
  case True
  then obtain x where x: "tmp_dir t = Some x" by auto
  have "length (take 4 s) = 4" using True by simp
  then have l: "4 \<le> length s" by simp
  show ?thesis
    using True x tmp_dir_length [OF x] l
    by (intro exI [where x = "take (nat (snd (winpathdup t s)) - 1) (x @ drop 4 s)"] exI [where x = 1]) (simp add: winpathdup_def Let_def bare_def)
next
  case False
  then have t: "(if take 4 s = ''/tmp'' then tmp_dir t else None) = None" by auto
  show ?thesis
  proof (cases "winisdrvspec (bare s)")
    case True
    then show ?thesis using drive_path_spec [OF True]
      by (intro exI [where x = "drive_path (bare s)"] exI [where x = 3]) (simp add: winpathdup_def Let_def t)
  next
    case False
    then show ?thesis by (intro exI [where x = "bare s"] exI [where x = 1]) (simp add: winpathdup_def Let_def t)
  qed
qed

lemma winbsl2sl_clean: "CHR 0x5C \<notin> set (winbsl2sl d)"
  by (auto simp: winbsl2sl_def)

text \<open>A slash at the end is that of a root.\<close>

definition clean_end :: "string \<Rightarrow> bool" where
  "clean_end d = (if d \<noteq> [] \<and> last d = CHR ''/'' then d = ''/'' \<or> length d \<le> 3 \<and> iswindrvspec d else True)"

text \<open>A path that \<open>winpathdup\<close> has made has no backslash and ends in a slash only when it is a root, and its block has
  room for the slash that \<open>chdir\<close> adds.\<close>

theorem path_clean_and_fits:
  "(case winpathdup t s of (d, ds) \<Rightarrow> CHR 0x5C \<notin> set d \<and> (case dir_slash d of None \<Rightarrow> d = [] | Some e \<Rightarrow> int (length e) < ds)
     \<and> clean_end d)"
proof -
  obtain d k where d: "winpathdup t s = (strip k (winbsl2sl d), snd (winpathdup t s))" "int (length d) + 2 \<le> snd (winpathdup t s)"
    "k = 1 \<or> k = 3 \<and> iswindrvspec d"
    using winpathdup_shape by blast
  define p where "p = strip k (winbsl2sl d)"
  obtain j where j: "p = take j (winbsl2sl d)" "p \<noteq> [] \<longrightarrow> k < length p \<longrightarrow> last p \<noteq> CHR ''/''" using strip_take unfolding p_def by blast
  have l: "int (length p) + 2 \<le> snd (winpathdup t s)" using d(2) by (simp add: j(1))
  have c: "CHR 0x5C \<notin> set p" using winbsl2sl_clean [of d] by (auto simp: j(1) dest: in_set_takeD)
  have r: "clean_end p"
  proof (cases "p = [] \<or> k < length p")
    case True
    then show ?thesis using j(2) by (auto simp: clean_end_def)
  next
    case False
    then have p: "p \<noteq> []" "length p \<le> k" by auto
    show ?thesis
    proof (cases "k = 1")
      case True
      then have "p = [last p]" using p by (cases p) auto
      then show ?thesis by (metis clean_end_def)
    next
      case False
      then have k: "length p \<le> 3" "iswindrvspec d" using d(3) p(2) by auto
      show ?thesis
      proof (cases "length p = 1")
        case True
        then have "p = [last p]" by (cases p) auto
        then show ?thesis by (metis clean_end_def)
      next
        case False
        then have "2 \<le> length p" using p(1) by (cases p) (auto simp: Suc_le_eq)
        then have "ch p 0 = ch (winbsl2sl d) 0" "ch p 1 = ch (winbsl2sl d) 1" by (auto simp: j(1) ch_def)
        moreover have "ch (winbsl2sl d) 0 = ch d 0" "ch (winbsl2sl d) 1 = ch d 1"
          using k(2) by (auto simp: ch_def winbsl2sl_def iswindrvspec_def letter_def split: if_splits)
        ultimately have "iswindrvspec p" using k(2) by (simp add: iswindrvspec_def)
        then show ?thesis using k(1) by (simp add: clean_end_def)
      qed
    qed
  qed
  have w: "winpathdup t s = (p, snd (winpathdup t s))" using d(1) by (simp only: p_def)
  have e: "case dir_slash p of None \<Rightarrow> p = [] | Some e \<Rightarrow> int (length e) < snd (winpathdup t s)"
    using l by (simp add: dir_slash_def)
  show ?thesis by (subst w) (simp only: prod.case, intro conjI c e r)
qed

text \<open>UTF-8 of one and two bytes, for the examples.\<close>

definition utf2 :: utf where
  "utf2 = \<lparr>chartorune = (\<lambda>s. case s of [] \<Rightarrow> (0, 1)
       | c # cs \<Rightarrow> if (of_char c :: nat) < 128 then (of_char c, 1) else ((of_char c - 192) * 64 + (of_char (hd cs) - 128), 2)),
     runetochar = (\<lambda>r. if r < 128 then [char_of r] else [char_of (192 + r div 64), char_of (128 + r mod 64)]),
     runelen = (\<lambda>r. if r < 128 then 1 else 2),
     utflen = (\<lambda>s. length (filter (\<lambda>c. (of_char c :: nat) < 128 \<or> 192 \<le> (of_char c :: nat)) s))\<rparr>"

lemma utf2_law: "utf_law utf2 {1..<2048}"
proof -
  have b: "192 + r div 64 < 256" "r div 64 < 64" "128 + r mod 64 < 256" if "r < 2048" for r :: nat using that by auto
  have one: "0 < r \<and> r < 65536 \<and> runetochar utf2 r \<noteq> [] \<and> runelen utf2 r = length (runetochar utf2 r)
      \<and> (\<forall>s. chartorune utf2 (runetochar utf2 r @ s) = (r, length (runetochar utf2 r))) \<and> (r < 128 \<longrightarrow> runetochar utf2 r = [char_of r])
      \<and> (128 \<le> r \<longrightarrow> list_all (\<lambda>c. 128 \<le> (of_char c :: nat)) (runetochar utf2 r))" if "r \<in> {1..<2048}" for r
    using that b [of r] by (simp add: utf2_def)
  have len: "set rs \<subseteq> {1..<2048} \<Longrightarrow> utflen utf2 (concat (map (runetochar utf2) rs)) = length rs" for rs
  proof (induction rs)
    case (Cons r rs)
    then have "r < 2048" by auto
    moreover have "\<not> 64 \<le> r mod 64" by (simp add: not_le)
    ultimately show ?case using Cons b [of r] by (simp add: utf2_def)
  qed (simp add: utf2_def)
  show ?thesis using one len by (simp add: utf_law_def)
qed

text \<open>What becomes a wide string comes back: for every string of runes of 16 bits.\<close>

theorem wide_back:
  assumes "utf_law u V" "set rs \<subseteq> V"
  shows "winwstrtoutfm u (winutf2wstr u (enc u rs)) = enc u rs"
  using assms by (simp_all add: winutf2wstr_enc winwstrtoutfm_enc)

text \<open>Backslashes are bytes of their own.\<close>

lemma char_of_eq: "r < 128 \<Longrightarrow> char_of r = c \<longleftrightarrow> r = (of_char c :: nat)"
  by auto

lemma bsl2sl_rune:
  assumes "utf_law u V" "r \<in> V"
  shows "winbsl2sl (runetochar u r) = (if r = 92 then ''/'' else runetochar u r)"
proof (cases "r < 128")
  case True
  then have "runetochar u r = [char_of r]" using utf_lawD(6) [OF assms] by simp
  moreover have "char_of r = CHR 0x5C \<longleftrightarrow> r = 92" using char_of_eq [OF True] by simp
  ultimately show ?thesis by (simp add: winbsl2sl_def)
next
  case False
  have "map (\<lambda>c. if c = CHR 0x5C then CHR ''/'' else c) (runetochar u r) = runetochar u r"
    using utf_lawD(7) [OF assms, of "CHR 0x5C"] False by (intro map_idI) auto
  then show ?thesis using False by (simp add: winbsl2sl_def)
qed

lemma bsl2sl_enc:
  assumes "utf_law u V" "set rs \<subseteq> V" "47 \<in> V"
  shows "winbsl2sl (enc u rs) = enc u (map (\<lambda>c. if c = 92 then 47 else c) rs)"
  using assms(2)
proof (induction rs)
  case (Cons r rs)
  have "runetochar u 47 = ''/''" using utf_lawD(6) [OF assms(1,3)] char_of_eq [of 47 "CHR ''/''"] by simp
  moreover have "winbsl2sl (a @ b) = winbsl2sl a @ winbsl2sl b" for a b by (simp add: winbsl2sl_def)
  ultimately show ?case using Cons bsl2sl_rune [OF assms(1), of r] by simp
qed (simp add: winbsl2sl_def)

lemma enc_last: "utf_law u V \<Longrightarrow> set rs \<subseteq> V \<Longrightarrow> rs \<noteq> [] \<Longrightarrow> last rs \<noteq> 47 \<Longrightarrow> enc u rs \<noteq> [] \<and> last (enc u rs) \<noteq> CHR ''/''"
proof (induction rs rule: rev_induct)
  case (snoc r rs)
  have r: "r \<in> V" "r \<noteq> 47" using snoc.prems by auto
  have e: "enc u (rs @ [r]) = enc u rs @ runetochar u r" by (simp add: enc_def)
  have "last (runetochar u r) \<noteq> CHR ''/''"
  proof (cases "r < 128")
    case True
    have "char_of r \<noteq> CHR ''/''" using char_of_eq [OF True] r(2) by simp
    then show ?thesis using utf_lawD(6) [OF snoc.prems(1) r(1) True] by simp
  next
    case False
    then have "128 \<le> (of_char (last (runetochar u r)) :: nat)"
      using utf_lawD(3,7) [OF snoc.prems(1) r(1)] by simp
    then show ?thesis by auto
  qed
  then show ?case using utf_lawD(3) [OF snoc.prems(1) r(1)] by (simp add: e)
qed simp

lemma letter_char_of: "(d :: nat) < 128 \<Longrightarrow> letter (char_of d) \<longleftrightarrow> 97 \<le> d \<and> d \<le> 122 \<or> 65 \<le> d \<and> d \<le> 90"
proof -
  assume "d < 128"
  then have "(of_char (char_of d :: char) :: nat) = d" by simp
  then show ?thesis by (simp only: letter_def)
qed

text \<open>The characters that stand for a blank are not those of a drive or a separator.\<close>

definition plain_cfg :: "(nat \<times> nat) option \<Rightarrow> bool" where
  "plain_cfg cfg \<longleftrightarrow> (case cfg of None \<Rightarrow> True
     | Some (c, e) \<Rightarrow> c \<noteq> e \<and> 128 \<le> c \<and> 128 \<le> e \<and> c \<noteq> 65533)"

lemma from_plain:
  assumes "plain_cfg cfg" "x < 128" "x \<noteq> 32"
  shows "winreplacews cfg False (x # w) = x # winreplacews cfg False w"
  using assms by (auto simp: plain_cfg_def winreplacews_def from_file_def split: option.splits)

lemma units_back:
  assumes "plain_cfg cfg" "65533 \<notin> set w" "47 \<notin> set w"
  shows "winsl2bsl (winreplacews cfg True (map (\<lambda>c. if c = 92 then 47 else c) (winreplacews cfg False w))) = w"
proof (cases cfg)
  case None
  then show ?thesis using assms(3) by (auto simp: winreplacews_def winsl2bsl_def intro!: map_idI)
next
  case (Some x)
  then obtain c e where x: "cfg = Some (c, e)" "c \<noteq> e" "128 \<le> c" "128 \<le> e" "c \<noteq> 65533" using assms(1) by (auto simp: plain_cfg_def)
  have "(if to_file c e (if from_file c e x = 92 then 47 else from_file c e x) = 47 then 92
    else to_file c e (if from_file c e x = 92 then 47 else from_file c e x)) = x" if "x \<in> set w" for x
    using that assms(2,3) x(2-5) by (auto simp: to_file_def from_file_def)
  then show ?thesis by (simp add: x(1) winreplacews_def winsl2bsl_def o_def map_idI)
qed

text \<open>C26. The name that \<open>getwd\<close> gives to the working directory names it: \<open>chdir\<close> and \<open>open\<close> turn \<open>/c-/x\<close> back into
  \<open>c:\x\<close>, blanks and other characters included.\<close>

theorem getwd_names_directory:
  assumes "utf_law u V" "plain_cfg cfg" "letter (char_of d)" "d < 128" "w \<noteq> []" "last w \<noteq> 92" "47 \<notin> set w" "65533 \<notin> set w"
    and "set (winreplacews cfg False (d # 58 # 92 # w)) \<subseteq> V" "47 \<in> V" "45 \<in> V"
    and "int (length (enc u (winreplacews cfg False (d # 58 # 92 # w)))) + 1 < ns"
  shows "\<exists>s. p9getwd u cfg (d # 58 # 92 # w) ns = Some s \<and> winutf2wpath u cfg (fst (winpathdup t s)) = d # 58 # 92 # w"
proof -
  define w' where "w' = winreplacews cfg False w"
  define sw where "sw = map (\<lambda>c::nat. if c = 92 then 47 else c) w'"
  have d: "d \<noteq> 32" "d \<noteq> 92"
    using assms(3) letter_char_of [OF assms(4)] by auto
  have W: "winreplacews cfg False (d # 58 # 92 # w) = d # 58 # 92 # w'" using from_plain [OF assms(2)] assms(4) d by (simp add: w'_def)
  have V: "d \<in> V" "58 \<in> V" "92 \<in> V" "set w' \<subseteq> V" using assms(9) by (auto simp: W)
  note one = utf_lawD(6) [OF assms(1)]
  have c: "runetochar u d = [char_of d]" "runetochar u 58 = '':''" "runetochar u 92 = [CHR 0x5C]" "runetochar u 47 = ''/''" "runetochar u 45 = ''-''"
    using one [OF V(1) assms(4)] one [OF V(2)] one [OF V(3)] one [OF assms(10)] one [OF assms(11)]
      char_of_eq [of 58 "CHR '':''"] char_of_eq [of 92 "CHR 0x5C"] char_of_eq [of 47 "CHR ''/''"] char_of_eq [of 45 "CHR ''-''"] by simp_all
  define s where "s = enc u (d # 58 # 92 # w')"
  have s: "s = char_of d # CHR '':'' # CHR 0x5C # enc u w'" by (simp add: s_def c)
  have "int (length s) < ns - 1" using assms(12) by (simp add: W s_def)
  then have wf: "winwstrtoutfn u (ns - 1) (d # 58 # 92 # w') = (length s, Some s)"
    using winwstrtoutfn_all [OF assms(1), of "d # 58 # 92 # w'"] V by (simp add: s_def)
  have drv: "winisdrvspec s" using assms(3) by (simp add: s winisdrvspec_def ch_def)
  have ne: "w' \<noteq> []" using assms(5) by (auto simp: w'_def winreplacews_def split: option.splits)
  have "last w \<noteq> 47" using assms(5,7) by (metis last_in_set)
  then have "last w' \<noteq> 92 \<and> last w' \<noteq> 47"
    using assms(2,5,6)
    by (auto simp: w'_def winreplacews_def plain_cfg_def from_file_def last_map split: option.splits)
  then have lsw: "last sw \<noteq> 47" "sw \<noteq> []" using ne by (simp_all add: sw_def last_map)
  have Vs: "set sw \<subseteq> V" using V(4) assms(10) by (auto simp: sw_def)
  note el = enc_last [OF assms(1) Vs lsw(2,1)]
  have b: "winbsl2sl (CHR ''/'' # s[Suc 0 := CHR ''-'']) = CHR ''/'' # char_of d # ''-/'' @ enc u sw"
  proof -
    have "winbsl2sl (enc u w') = enc u sw" using bsl2sl_enc [OF assms(1) V(4) assms(10)] by (simp add: sw_def)
    moreover have "char_of d \<noteq> CHR 0x5C" using char_of_eq [OF assms(4)] d(2) by simp
    ultimately show ?thesis by (simp add: s winbsl2sl_def)
  qed
  have g: "p9getwd u cfg (d # 58 # 92 # w) ns = Some (CHR ''/'' # char_of d # ''-/'' @ enc u sw)"
    using \<open>int (length s) < ns - 1\<close> drv el by (simp add: p9getwd_def Let_def W wf b)
  define g' where "g' = char_of d # ''-/'' @ enc u sw"
  have bare: "bare (CHR ''/'' # g') = g'" using assms(3) by (simp add: bare_def winisdrvspec_def ch_def g'_def)
  have g'2: "winisdrvspec g'" "drive_path g' = char_of d # '':/'' @ enc u sw"
    using assms(3) by (simp_all add: winisdrvspec_def ch_def g'_def drive_path_def slash_def)
  have "take 4 (CHR ''/'' # g') \<noteq> ''/tmp''" by (simp add: g'_def)
  moreover have "winbsl2sl (char_of d # '':/'' @ enc u sw) = char_of d # '':/'' @ enc u sw"
  proof -
    have "map (\<lambda>c. if c = 92 then 47 else c) sw = sw" by (simp add: sw_def)
    then have "winbsl2sl (enc u sw) = enc u sw" using bsl2sl_enc [OF assms(1) Vs assms(10)] by simp
    moreover have "char_of d \<noteq> CHR 0x5C" using char_of_eq [OF assms(4)] d(2) by simp
    ultimately show ?thesis by (simp add: winbsl2sl_def)
  qed
  ultimately have p: "fst (winpathdup t (CHR ''/'' # g')) = char_of d # '':/'' @ enc u sw"
    using g'2 el by (simp add: winpathdup_def Let_def bare strip_same)
  have e: "char_of d # '':/'' @ enc u sw = enc u (d # 58 # 47 # sw)" by (simp add: c)
  have "set (d # 58 # 47 # sw) \<subseteq> V" using V Vs assms(10) by simp
  then have "winutf2wpath u cfg (enc u (d # 58 # 47 # sw)) = winsl2bsl (winreplacews cfg True (d # 58 # 47 # sw))"
    by (simp only: winutf2wpath_def winutf2wstr_enc [OF assms(1)])
  also have "\<dots> = d # 58 # 92 # w"
  proof -
    have "d \<noteq> 65533" "d \<noteq> 47" "(65533::nat) \<notin> set w" "(47::nat) \<notin> set w" using assms(3,7,8) letter_char_of [OF assms(4)] by auto
    then have "winsl2bsl (winreplacews cfg True (map (\<lambda>c. if c = 92 then 47 else c) (d # 58 # 92 # w'))) = d # 58 # 92 # w"
      using units_back [OF assms(2), of "d # 58 # 92 # w"] by (simp add: W)
    then show ?thesis using d(2) by (simp add: sw_def)
  qed
  finally have "winutf2wpath u cfg (char_of d # '':/'' @ enc u sw) = d # 58 # 92 # w" by (simp only: e)
  then show ?thesis using g p by (simp add: g'_def)
qed

theorem wide_back_witness: "winwstrtoutfm utf2 (winutf2wstr utf2 (enc utf2 [65, 196, 8])) = enc utf2 [65, 196, 8]"
  by (rule wide_back [OF utf2_law]) simp

theorem getwd_names_directory_witness:
  "\<exists>s. p9getwd utf2 (Some (183, 65533)) [99, 58, 92, 196, 32, 120] 64 = Some s
     \<and> winutf2wpath utf2 (Some (183, 65533)) (fst (winpathdup [] s)) = [99, 58, 92, 196, 32, 120]"
proof (rule getwd_names_directory [OF utf2_law])
  show "letter (char_of (99::nat))" by (simp add: letter_char_of)
qed (simp_all add: plain_cfg_def winreplacews_def from_file_def utf2_def)

text \<open>A name whose second character is \<open>-\<close> is taken for a drive, and \<open>/tmp\<close> need not be a whole name.\<close>

lemma dash_is_drive: "winpathdup t ''x-ray'' = (''x:/ray'', 8)"
  by (simp add: winpathdup_def bare_def winisdrvspec_def drive_path_def ch_def letter_def slash_def winbsl2sl_def strip_def Let_def)

lemma tmp_prefix: "fst (winpathdup ''C:/T'' ''/tmpfile'') = ''C:/Tfile''"
  by (simp add: winpathdup_def tmp_dir_def iswindrvspec_def bare_def winisdrvspec_def ch_def letter_def slash_def winbsl2sl_def strip_def Let_def)

end
