(* ===== verification/WinCons.thy ===== *)
theory WinCons
  imports WinStr
begin

text \<open>
  The console of the Windows port, src/src/lib9/mingw/cons.c. Windows takes and gives units of 16 bits, Plan 9 programs
  bytes of UTF-8. The static variables are the record \<open>cons\<close>: the bytes of a rune that is not complete, and the units that
  have been read and not been used. \<open>ReadConsoleW\<close> and \<open>WriteConsoleW\<close> are parameters.
\<close>

section \<open>Writing\<close>

record cons =
  c_utf :: string
  c_wbuf :: "nat list"
  c_eof :: bool

text \<open>The units of a string, and the bytes that are left because they are not a whole rune; an invalid sequence gives
  none. The fuel is the number of bytes, of which each rune takes one at least.\<close>

fun cons_units :: "utf \<Rightarrow> (string \<Rightarrow> bool) \<Rightarrow> nat \<Rightarrow> string \<Rightarrow> nat list \<times> string" where
  "cons_units u fullrune 0 s = ([], [])"
| "cons_units u fullrune (Suc k) s =
     (case s of
        [] \<Rightarrow> ([], [])
      | c # cs \<Rightarrow>
          if (of_char c :: nat) < 128 then (let (w, l) = cons_units u fullrune k cs in (of_char c # w, l))
          else if int (length s) < UTFmax \<and> \<not> fullrune s then ([], s)
          else let (r, n) = chartorune u s; (w, l) = cons_units u fullrune k (drop n s)
               in (if r \<noteq> 65533 then r mod 65536 # w else w, l))"

text \<open>\<open>wr\<close> gives the number of units that have been written, \<open>None\<close> for an error.\<close>

definition winwritecons ::
  "utf \<Rightarrow> (string \<Rightarrow> bool) \<Rightarrow> (nat list \<Rightarrow> 'os \<Rightarrow> nat option \<times> 'os) \<Rightarrow> string \<Rightarrow> cons \<Rightarrow> 'os \<Rightarrow> bool \<times> cons \<times> 'os" where
  "winwritecons u fullrune wr v c os =
     (if v = [] then (True, c, os)
      else let buf = c_utf c @ v;
               (w, l) = cons_units u fullrune (length buf) buf;
               (n, os) = wr w os
           in (n = Some (length w), c\<lparr>c_utf := l\<rparr>, os))"

section \<open>Reading\<close>

text \<open>The number that is returned, and the bytes. \<open>rd\<close> gives at most 8 units, \<open>None\<close> for an error. Control-Z is the end. A
  carriage return is a newline, and a newline after it is left out. \<open>fuel\<close> counts units and calls of \<open>rd\<close>.\<close>

fun readcons_loop ::
  "utf \<Rightarrow> ('os \<Rightarrow> nat list option \<times> 'os) \<Rightarrow> nat \<Rightarrow> nat \<Rightarrow> string \<Rightarrow> bool \<Rightarrow> bool \<Rightarrow> cons \<Rightarrow> 'os \<Rightarrow> ((int \<times> string) \<times> cons \<times> 'os) option" where
  "readcons_loop u rd 0 nwant acc wascr called c os = None"
| "readcons_loop u rd (Suc k) nwant acc wascr called c os =
     (let n = int (length acc)
      in if nwant \<le> length acc then Some ((n, acc), c, os)
         else case c_wbuf c of
           [] \<Rightarrow>
             if called \<and> acc \<noteq> [] then Some ((n, acc), c, os)
             else (let (r, os) = rd os
                   in case r of
                        None \<Rightarrow> Some ((-1, acc), c, os)
                      | Some [] \<Rightarrow> Some ((0, acc), c, os)
                      | Some (x # w) \<Rightarrow> readcons_loop u rd k nwant acc wascr True (c\<lparr>c_wbuf := x # w\<rparr>) os)
         | x # w \<Rightarrow>
             if x = 26 then Some ((n, acc), c\<lparr>c_eof := True\<rparr>, os)
             else if x = 10 \<and> wascr then readcons_loop u rd k nwant acc False called (c\<lparr>c_wbuf := w\<rparr>) os
             else let y = (if x = 13 then 10 else x); b = runetochar u y
                  in if nwant - length acc < length b then Some ((n, acc), c\<lparr>c_wbuf := y # w\<rparr>, os)
                     else readcons_loop u rd k nwant (acc @ b) (x = 13) called (c\<lparr>c_wbuf := w\<rparr>) os)"

definition winreadcons ::
  "utf \<Rightarrow> ('os \<Rightarrow> nat list option \<times> 'os) \<Rightarrow> nat \<Rightarrow> nat \<Rightarrow> cons \<Rightarrow> 'os \<Rightarrow> ((int \<times> string) \<times> cons \<times> 'os) option" where
  "winreadcons u rd k nwant c os =
     (if c_eof c \<or> nwant = 0 then Some ((0, []), c, os) else readcons_loop u rd k nwant [] False False c os)"

section \<open>The name of the console\<close>

definition GENERIC_READ :: u32 where "GENERIC_READ = 0x80000000"
definition GENERIC_WRITE :: u32 where "GENERIC_WRITE = 0x40000000"

definition OREAD :: u32 where "OREAD = 0"
definition OWRITE :: u32 where "OWRITE = 1"
definition ORDWR :: u32 where "ORDWR = 2"

definition winadjustcons :: "string \<Rightarrow> u32 \<Rightarrow> u32 \<Rightarrow> (string \<times> u32) option" where
  "winadjustcons nm rdwr da =
     (let adj = da OR (GENERIC_READ OR GENERIC_WRITE)
      in if nm = ''CONIN$'' \<or> nm = ''CONOUT$'' then Some (nm, adj)
         else if nm = ''/dev/tty'' \<or> nm = ''CON''
         then if rdwr = OREAD then Some (''CONIN$'', adj) else if rdwr = OWRITE then Some (''CONOUT$'', adj)
              else if rdwr = ORDWR then None else Some (nm, adj)
         else Some (nm, da))"

section \<open>What is shown\<close>

text \<open>A rune is complete with four bytes at the latest; then more bytes do not change it.\<close>

definition stream_law :: "utf \<Rightarrow> (string \<Rightarrow> bool) \<Rightarrow> bool" where
  "stream_law u fullrune \<longleftrightarrow> (\<forall>s. s \<noteq> [] \<longrightarrow> fullrune s \<or> 4 \<le> length s \<longrightarrow>
     0 < snd (chartorune u s) \<and> snd (chartorune u s) \<le> length s
     \<and> (\<forall>t. chartorune u (s @ t) = chartorune u s \<and> (fullrune (s @ t) \<or> 4 \<le> length (s @ t))))"

lemma stream_lawD:
  assumes "stream_law u fullrune" "s \<noteq> []" "fullrune s \<or> 4 \<le> length s" "chartorune u s = (r, n)"
  shows "0 < n" "n \<le> length s" "chartorune u (s @ t) = (r, n)" "fullrune (s @ t) \<or> 4 \<le> length (s @ t)"
  using assms unfolding stream_law_def by (metis snd_conv)+

lemma cons_units_more:
  assumes "stream_law u fr"
  shows "length s \<le> k \<Longrightarrow> length s \<le> j \<Longrightarrow> cons_units u fr k s = cons_units u fr j s"
proof (induction k arbitrary: s j)
  case 0
  then show ?case by (cases j) auto
next
  case (Suc k)
  show ?case
  proof (cases s)
    case Nil
    then show ?thesis by (cases j) simp_all
  next
    case (Cons c cs)
    obtain i where j: "j = Suc i" using Suc.prems Cons by (cases j) auto
    obtain r n where rn: "chartorune u s = (r, n)" by fastforce
    show ?thesis
    proof (cases "(of_char c :: nat) < 128")
      case True
      have "length cs \<le> k" "length cs \<le> i" using Suc.prems Cons j by auto
      from Suc.IH [OF this] show ?thesis using Cons True j by simp
    next
      case c: False
      show ?thesis
      proof (cases "int (length s) < UTFmax \<and> \<not> fr s")
        case True
        then show ?thesis using Cons c j by simp
      next
        case False
        then have "fr s \<or> 4 \<le> length s" by (auto simp: UTFmax_def)
        then have "0 < n" using stream_lawD(1) [OF assms _ _ rn] Cons by simp
        then have "length (drop n s) \<le> k" "length (drop n s) \<le> i" using Suc.prems j Cons by auto
        from Suc.IH [OF this] show ?thesis using Cons c False j rn by auto
      qed
    qed
  qed
qed

text \<open>Bytes that come in two pieces are the same units.\<close>

lemma cons_units_append:
  assumes "stream_law u fr"
  shows "length s \<le> k \<Longrightarrow> cons_units u fr k s = (w, l) \<Longrightarrow> cons_units u fr (length (l @ t)) (l @ t) = (w', l') \<Longrightarrow>
    cons_units u fr (length (s @ t)) (s @ t) = (w @ w', l')"
proof (induction k arbitrary: s w)
  case 0
  then show ?case by simp
next
  case (Suc k)
  show ?case
  proof (cases s)
    case Nil
    then show ?thesis using Suc.prems by simp
  next
    case (Cons c cs)
    obtain r n where rn: "chartorune u s = (r, n)" by fastforce
    show ?thesis
    proof (cases "(of_char c :: nat) < 128")
      case True
      then obtain v where v: "cons_units u fr k cs = (v, l)" "w = of_char c # v"
        using Suc.prems(2) Cons by (auto split: prod.splits)
      have "length cs \<le> k" using Suc.prems(1) Cons by simp
      from Suc.IH [OF this v(1) Suc.prems(3)] show ?thesis using Cons True v(2) by simp
    next
      case c: False
      show ?thesis
      proof (cases "int (length s) < UTFmax \<and> \<not> fr s")
        case True
        then have "w = []" "l = s" using Suc.prems(2) Cons c by auto
        then show ?thesis using Suc.prems(3) by simp
      next
        case False
        then have f: "fr s \<or> 4 \<le> length s" by (auto simp: UTFmax_def)
        have ne: "s \<noteq> []" using Cons by simp
        note n = stream_lawD(1,2) [OF assms ne f rn] stream_lawD(3) [OF assms ne f rn, of t]
        have f2: "\<not> (int (length (s @ t)) < UTFmax \<and> \<not> fr (s @ t))"
          using stream_lawD(4) [OF assms ne f rn, of t] by (auto simp: UTFmax_def)
        obtain v where v: "cons_units u fr k (drop n s) = (v, l)" "w = (if r \<noteq> 65533 then r mod 65536 # v else v)"
          using Suc.prems(2) Cons c False rn by (auto split: prod.splits if_splits)
        have "length (drop n s) \<le> k" using Suc.prems(1) n(1) Cons by auto
        from Suc.IH [OF this v(1) Suc.prems(3)]
        have ih: "cons_units u fr (length (drop n s @ t)) (drop n s @ t) = (v @ w', l')" .
        have d: "drop n (s @ t) = drop n s @ t" using n(2) by simp
        have "cons_units u fr (length cs + length t) (drop n s @ t) = cons_units u fr (length (drop n s @ t)) (drop n s @ t)"
          by (rule cons_units_more [OF assms]) (use n(1) Cons in auto)
        then have m: "cons_units u fr (length cs + length t) (drop n (s @ t)) = (v @ w', l')" by (simp only: ih d)
        have l: "length (s @ t) = Suc (length cs + length t)" using Cons by simp
        have s: "s @ t = c # (cs @ t)" using Cons by simp
        have "cons_units u fr (Suc (length cs + length t)) (s @ t) = (w @ w', l')"
          using c f2 n(3) m v(2) unfolding s by (auto simp del: length_Cons)
        then show ?thesis unfolding l .
      qed
    qed
  qed
qed

text \<open>Several writes, and whether all went well.\<close>

definition cons_writes ::
  "utf \<Rightarrow> (string \<Rightarrow> bool) \<Rightarrow> (nat list \<Rightarrow> 'os \<Rightarrow> nat option \<times> 'os) \<Rightarrow> string list \<Rightarrow> cons \<Rightarrow> 'os \<Rightarrow> bool \<times> cons \<times> 'os" where
  "cons_writes u fr wr vs c os = fold (\<lambda>v (ok, c, os). let (b, c, os) = winwritecons u fr wr v c os in (ok \<and> b, c, os)) vs (True, c, os)"

text \<open>C36. Text may be written to the console in pieces of any size, also in the middle of a rune: what is shown are the
  units of the whole, and what is kept are the bytes of a rune that has not ended.\<close>

theorem cons_pieces:
  assumes "stream_law u fr" "\<And>w os. fst (wr w os) = Some (length w) \<and> shown (snd (wr w os)) = shown os @ w" "c_utf c = []"
  shows "(case cons_writes u fr wr vs c os of (ok, c', os') \<Rightarrow>
    ok \<and> (shown os', c_utf c') = (case cons_units u fr (length (concat vs)) (concat vs) of (w, l) \<Rightarrow> (shown os @ w, l)))"
proof (induction vs rule: rev_induct)
  case Nil
  then show ?case using assms(3) by (simp add: cons_writes_def)
next
  case (snoc v vs)
  obtain c1 os1 w l where ih: "cons_writes u fr wr vs c os = (True, c1, os1)" "cons_units u fr (length (concat vs)) (concat vs) = (w, l)"
    "shown os1 = shown os @ w" "c_utf c1 = l"
    using snoc by (auto split: prod.splits)
  obtain w' l' where u2: "cons_units u fr (length (l @ v)) (l @ v) = (w', l')" by fastforce
  have all: "cons_units u fr (length (concat vs @ v)) (concat vs @ v) = (w @ w', l')"
    by (rule cons_units_append [OF assms(1) order.refl ih(2) u2])
  have step: "cons_writes u fr wr (vs @ [v]) c os = (let (b, c', os') = winwritecons u fr wr v c1 os1 in (b, c', os'))"
    using ih(1) by (simp add: cons_writes_def)
  show ?case
  proof (cases "v = []")
    case True
    then show ?thesis using step ih by (simp add: winwritecons_def)
  next
    case False
    obtain n os2 where wr: "wr w' os1 = (n, os2)" by fastforce
    then have "n = Some (length w')" "shown os2 = shown os1 @ w'" using assms(2) [of w' os1] by simp_all
    then show ?thesis using step False u2 wr all ih(3,4) by (simp add: winwritecons_def Let_def)
  qed
qed

text \<open>A sequence of two bytes in two writes.\<close>

definition full2 :: "string \<Rightarrow> bool" where
  "full2 s \<longleftrightarrow> s \<noteq> [] \<and> ((of_char (hd s) :: nat) < 128 \<or> 2 \<le> length s)"

lemma utf2_stream_law: "stream_law utf2 full2"
proof -
  have "0 < snd (chartorune utf2 s) \<and> snd (chartorune utf2 s) \<le> length s
     \<and> (\<forall>t. chartorune utf2 (s @ t) = chartorune utf2 s \<and> (full2 (s @ t) \<or> 4 \<le> length (s @ t)))"
    if "full2 s \<or> 4 \<le> length s" "s \<noteq> []" for s
  proof (cases s)
    case (Cons c cs)
    then show ?thesis using that by (cases cs) (auto simp: utf2_def full2_def)
  qed (use that in simp)
  then show ?thesis by (simp add: stream_law_def)
qed

theorem cons_pieces_witness:
  "(case cons_writes utf2 full2 (\<lambda>w os. (Some (length w), os @ w)) [[CHR ''A'', CHR 0xC3], [CHR 0x84]] (\<lparr>c_utf = [], c_wbuf = [], c_eof = False\<rparr>) []
    of (ok, c', os') \<Rightarrow> ok \<and> (os', c_utf c') = ([65, 196], []))"
proof -
  have "cons_units utf2 full2 (Suc (Suc (Suc 0))) [CHR ''A'', CHR 0xC3, CHR 0x84] = ([65, 196], [])"
    by (simp add: utf2_def full2_def UTFmax_def)
  then show ?thesis
    using cons_pieces [OF utf2_stream_law, where wr = "\<lambda>w os. (Some (length w), os @ w)" and shown = "\<lambda>os. os"
        and c = "\<lparr>c_utf = [], c_wbuf = [], c_eof = False\<rparr>" and vs = "[[CHR ''A'', CHR 0xC3], [CHR 0x84]]" and os = "[]"]
    by (simp split: prod.splits)
qed

text \<open>A line that ends with carriage return and newline, read in pieces of one byte as \<open>readcons\<close> does, has two ends: the
  second call does not know that a carriage return has been the last.\<close>

lemma crlf_twice:
  "winreadcons utf2 (\<lambda>os :: nat. (Some [13, 10], os + 1)) 9 1 \<lparr>c_utf = [], c_wbuf = [], c_eof = False\<rparr> 0
    = Some ((1, [NL]), \<lparr>c_utf = [], c_wbuf = [10], c_eof = False\<rparr>, 1)"
  "winreadcons utf2 (\<lambda>os :: nat. (Some [13, 10], os + 1)) 9 1 \<lparr>c_utf = [], c_wbuf = [10], c_eof = False\<rparr> 1
    = Some ((1, [NL]), \<lparr>c_utf = [], c_wbuf = [], c_eof = False\<rparr>, 1)"
  by code_simp+

text \<open>With bytes in hand a call that wants more asks the console again, and forgets them when there is nothing more.\<close>

lemma leftover_lost:
  "winreadcons utf2 (\<lambda>os. (Some [], os + 1)) 9 8 \<lparr>c_utf = [], c_wbuf = [120], c_eof = False\<rparr> (0 :: nat)
    = Some ((0, ''x''), \<lparr>c_utf = [], c_wbuf = [], c_eof = False\<rparr>, 1)"
  by code_simp

end
