(* ===== verification/WinFd.thy ===== *)
theory WinFd
  imports WinCons Bytes
begin

text \<open>
  The file descriptors of the Windows port, src/src/lib9/mingw: the table of fdtab.c and the system calls over it (open.c,
  create.c, read.c, write.c, close.c, dup.c, seek.c, pipe.c, exportfd.c, sendfd.c, chdir.c, parts of misc.c). A
  descriptor is an index of the table; the entries are addresses of \<open>Fd\<close> structures, which several descriptors share. What
  is freed is not in the heap any more, and looking at it is \<open>WUndef\<close>. \<open>sysfatal\<close> is \<open>WFatal\<close>. The functions of Windows are
  the record \<open>wlib\<close>. Locks are left out: the calls are run one after the other.
\<close>

section \<open>State\<close>

datatype wstop = WFatal string | WUndef

datatype fdtype = Fdtypenone | Fdtypesock | Fdtypepipecl | Fdtypepipesrv | Fdtypefile | Fdtypestd | Fdtypecons | Fdtypedir | Fdtypedevnull

text \<open>Handles are numbers, 0 for none and -1 for an invalid one. \<open>onclose\<close> is the handle that \<open>cleanup\<close> of exportfd.c
  closes, the only function that is ever registered.\<close>

record fdrec =
  f_name :: "string option"
  f_type :: fdtype
  f_users :: int
  f_s :: int
  f_h :: int
  ev_r :: int
  ev_w :: int
  f_dir :: int
  onclose :: "int option"

text \<open>The address of a socket: family, bytes of the host, port.\<close>

record sockaddr =
  sa_family :: nat
  sa_addr :: "nat list"
  sa_port :: nat

text \<open>What the end of a wait is: a timeout, a failure, the number of the object.\<close>

datatype wait_end = WaitTimeout | WaitFailed | WaitObject nat

text \<open>\<open>Inl\<close> is the code of an error. \<open>w_closepipe\<close> stands for \<open>FlushFileBuffers\<close> and \<open>DisconnectNamedPipe\<close>; \<open>w_overlapped\<close>
  for \<open>GetOverlappedResult\<close>, which waits; \<open>w_start\<close> for the process that serves an exported descriptor.\<close>

record 'os wlib =
  w_utf :: utf
  w_fullrune :: "string \<Rightarrow> bool"
  w_cfg :: "(nat \<times> nat) option"
  w_tmp :: "'os \<Rightarrow> string"
  w_cwd :: "'os \<Rightarrow> nat list"
  w_setcwd :: "nat list \<Rightarrow> 'os \<Rightarrow> bool \<times> 'os"
  w_close :: "int \<Rightarrow> 'os \<Rightarrow> 'os"
  w_closepipe :: "int \<Rightarrow> 'os \<Rightarrow> 'os"
  w_closesocket :: "int \<Rightarrow> 'os \<Rightarrow> 'os"
  w_closedir :: "int \<Rightarrow> 'os \<Rightarrow> 'os"
  w_event :: "'os \<Rightarrow> int \<times> 'os"
  w_std :: "nat \<Rightarrow> int"
  w_iscons :: "int \<Rightarrow> 'os \<Rightarrow> bool"
  w_fileA :: "string \<Rightarrow> u32 \<Rightarrow> u32 \<Rightarrow> nat \<Rightarrow> u32 \<Rightarrow> 'os \<Rightarrow> int \<times> 'os"
  w_fileW :: "nat list \<Rightarrow> u32 \<Rightarrow> u32 \<Rightarrow> nat \<Rightarrow> u32 \<Rightarrow> 'os \<Rightarrow> int \<times> 'os"
  w_mkdirA :: "string \<Rightarrow> 'os \<Rightarrow> bool \<times> 'os"
  w_mkdirW :: "nat list \<Rightarrow> 'os \<Rightarrow> bool \<times> 'os"
  w_isdir :: "nat list \<Rightarrow> 'os \<Rightarrow> bool"
  w_opendir :: "nat list \<Rightarrow> 'os \<Rightarrow> int \<times> 'os"
  w_read :: "int \<Rightarrow> nat \<Rightarrow> 'os \<Rightarrow> (nat + string) \<times> 'os"
  w_write :: "int \<Rightarrow> string \<Rightarrow> 'os \<Rightarrow> (nat + nat) \<times> 'os"
  w_readov :: "int \<Rightarrow> nat \<Rightarrow> int \<Rightarrow> 'os \<Rightarrow> (nat + string) \<times> 'os"
  w_writeov :: "int \<Rightarrow> string \<Rightarrow> int \<Rightarrow> 'os \<Rightarrow> (nat + nat) \<times> 'os"
  w_connect :: "int \<Rightarrow> int \<Rightarrow> 'os \<Rightarrow> (nat + unit) \<times> 'os"
  w_ovread :: "int \<Rightarrow> 'os \<Rightarrow> (nat + string) \<times> 'os"
  w_ovwrite :: "int \<Rightarrow> 'os \<Rightarrow> (nat + nat) \<times> 'os"
  w_ovconnect :: "int \<Rightarrow> 'os \<Rightarrow> (nat + unit) \<times> 'os"
  w_recv :: "int \<Rightarrow> nat \<Rightarrow> 'os \<Rightarrow> string option \<times> 'os"
  w_send :: "int \<Rightarrow> string \<Rightarrow> 'os \<Rightarrow> nat option \<times> 'os"
  w_readcons :: "int \<Rightarrow> 'os \<Rightarrow> nat list option \<times> 'os"
  w_writecons :: "int \<Rightarrow> nat list \<Rightarrow> 'os \<Rightarrow> nat option \<times> 'os"
  w_seek :: "int \<Rightarrow> int \<Rightarrow> int \<Rightarrow> nat \<Rightarrow> 'os \<Rightarrow> ((int \<times> int) \<times> nat) \<times> 'os"
  w_namedpipe :: "string \<Rightarrow> u32 \<Rightarrow> nat \<Rightarrow> 'os \<Rightarrow> int \<times> 'os"
  w_namedpipeW :: "nat list \<Rightarrow> u32 \<Rightarrow> nat \<Rightarrow> 'os \<Rightarrow> int \<times> 'os"
  w_pid :: nat
  w_start :: "int \<Rightarrow> u32 \<Rightarrow> int \<Rightarrow> 'os \<Rightarrow> 'os"
  w_take :: "string \<Rightarrow> 'os \<Rightarrow> int option \<times> 'os"
  w_hostbyname :: "string \<Rightarrow> 'os \<Rightarrow> (nat \<times> nat list) option \<times> 'os"
  w_addrinfo :: "string \<Rightarrow> 'os \<Rightarrow> sockaddr option \<times> 'os"
  w_service :: "string \<Rightarrow> string \<Rightarrow> nat option"
  w_socket :: "nat \<Rightarrow> bool \<Rightarrow> 'os \<Rightarrow> int \<times> 'os"
  w_bind :: "int \<Rightarrow> sockaddr \<Rightarrow> 'os \<Rightarrow> bool \<times> 'os"
  w_connectsock :: "int \<Rightarrow> sockaddr \<Rightarrow> 'os \<Rightarrow> bool \<times> 'os"
  w_listen :: "int \<Rightarrow> 'os \<Rightarrow> 'os"
  w_accept :: "int \<Rightarrow> 'os \<Rightarrow> int \<times> 'os"
  w_crtclose :: "int \<Rightarrow> 'os \<Rightarrow> 'os"
  w_exists :: "nat list \<Rightarrow> 'os \<Rightarrow> bool"
  w_fullpath :: "'os \<Rightarrow> string \<Rightarrow> string"
  w_unsharp :: "string \<Rightarrow> string"
  w_mktemp :: "string \<Rightarrow> 'os \<Rightarrow> string option \<times> 'os"
  w_duph :: "int \<Rightarrow> 'os \<Rightarrow> int option \<times> 'os"
  w_anonpipe :: "'os \<Rightarrow> (int \<times> int) option \<times> 'os"
  w_noinherit :: "int \<Rightarrow> 'os \<Rightarrow> 'os"
  w_rxtx :: "int \<Rightarrow> u32 \<Rightarrow> int \<Rightarrow> 'os \<Rightarrow> 'os"
  w_createproc :: "nat list \<Rightarrow> nat list \<Rightarrow> bool \<times> bool \<Rightarrow> nat list option \<Rightarrow> int list \<Rightarrow> 'os \<Rightarrow> (int \<times> int \<times> int) option \<times> 'os"
  w_waitmany :: "int list \<Rightarrow> bool \<Rightarrow> 'os \<Rightarrow> wait_end \<times> 'os"
  w_waitone :: "int \<Rightarrow> bool \<Rightarrow> 'os \<Rightarrow> wait_end \<times> 'os"
  w_openproc :: "int \<Rightarrow> 'os \<Rightarrow> int \<times> 'os"
  w_times :: "int \<Rightarrow> 'os \<Rightarrow> ((u32 \<times> u32) \<times> (u32 \<times> u32) \<times> (u32 \<times> u32) \<times> (u32 \<times> u32)) option"
  w_exit :: "int \<Rightarrow> 'os \<Rightarrow> u32 option"
  w_consmode :: "int \<Rightarrow> 'os \<Rightarrow> u32 option"
  w_setconsmode :: "int \<Rightarrow> u32 \<Rightarrow> 'os \<Rightarrow> 'os"
  w_conswindow :: "int \<Rightarrow> 'os \<Rightarrow> (int \<times> int) option"

text \<open>\<open>fresh\<close> is the address that \<open>malloc\<close> gives next. \<open>children\<close> are the numbers and the handles of the processes that have been
  started, 0 for a free place, and \<open>spawnpg\<close> says whether the next is to have a group of its own.\<close>

record 'os win =
  tab :: "nat option list"
  nfd :: int
  heap :: "nat \<Rightarrow> fdrec option"
  fresh :: nat
  npipes :: nat
  con :: cons
  children :: "(int \<times> int) list"
  spawnpg :: bool
  w_os :: 'os

type_synonym ('os, 'a) wm = "'os win \<Rightarrow> (wstop, 'a \<times> 'os win) res"

definition fd0 :: fdrec where
  "fd0 = \<lparr>f_name = None, f_type = Fdtypenone, f_users = 0, f_s = 0, f_h = 0, ev_r = 0, ev_w = 0, f_dir = 0, onclose = None\<rparr>"

definition on_os :: "('os \<Rightarrow> 'os) \<Rightarrow> 'os win \<Rightarrow> 'os win" where
  "on_os g s = s\<lparr>w_os := g (w_os s)\<rparr>"

definition fd_set :: "nat \<Rightarrow> (fdrec \<Rightarrow> fdrec) \<Rightarrow> 'os win \<Rightarrow> 'os win" where
  "fd_set a g s = s\<lparr>heap := (heap s)(a := map_option g (heap s a))\<rparr>"

section \<open>The table\<close>

text \<open>An event is made when there is none yet; -1 is an error.\<close>

definition initovev :: "'os wlib \<Rightarrow> int \<Rightarrow> 'os \<Rightarrow> int \<times> 'os" where
  "initovev lib ev os = (if ev = 0 then (let (h, os) = w_event lib os in (if h = -1 then 0 else h, os)) else (ev, os))"

definition is_pipe :: "fdtype \<Rightarrow> bool" where
  "is_pipe t \<longleftrightarrow> t = Fdtypepipesrv \<or> t = Fdtypepipecl"

text \<open>The address, \<open>None\<close> for a descriptor that is not open.\<close>

definition fdtget :: "'os wlib \<Rightarrow> int \<Rightarrow> ('os, nat option) wm" where
  "fdtget lib fd s =
     (if fd < 0 \<or> int (length (tab s)) \<le> fd then ret (None, s)
      else case tab s ! nat fd of
        None \<Rightarrow> ret (None, s)
      | Some a \<Rightarrow>
          (case heap s a of
             None \<Rightarrow> Some (Inl WUndef)
           | Some f \<Rightarrow>
               if is_pipe (f_type f)
               then (let (r, os) = initovev lib (ev_r f) (w_os s); (w, os) = initovev lib (ev_w f) os
                     in ret (Some a, s\<lparr>heap := (heap s)(a := Some (f\<lparr>ev_r := r, ev_w := w\<rparr>)), w_os := os\<rparr>))
               else ret (Some a, s)))"

text \<open>Its handles are closed and the structure is freed; \<open>t\<close> is its type.\<close>

definition release_os :: "'os wlib \<Rightarrow> fdrec \<Rightarrow> fdtype \<Rightarrow> bool \<Rightarrow> 'os \<Rightarrow> 'os" where
  "release_os lib f t closehandle os =
     (let os = (if \<not> closehandle then os
                else if t = Fdtypepipesrv then w_close lib (f_h f) (w_closepipe lib (f_h f) os)
                else if t = Fdtypefile \<or> t = Fdtypecons \<or> t = Fdtypepipecl then w_close lib (f_h f) os
                else if t = Fdtypesock then w_closesocket lib (f_s f) os
                else if t = Fdtypedir then w_closedir lib (f_dir f) os
                else os);
          os = (if ev_r f \<noteq> 0 then w_close lib (ev_r f) os else os);
          os = (if ev_w f \<noteq> 0 then w_close lib (ev_w f) os else os)
      in case onclose f of None \<Rightarrow> os | Some h \<Rightarrow> w_close lib h os)"

definition releasef :: "'os wlib \<Rightarrow> nat \<Rightarrow> fdtype \<Rightarrow> bool \<Rightarrow> ('os, unit) wm" where
  "releasef lib a t closehandle s =
     (case heap s a of
        None \<Rightarrow> Some (Inl WUndef)
      | Some f \<Rightarrow> ret ((), s\<lparr>w_os := release_os lib f t closehandle (w_os s), heap := (heap s)(a := None)\<rparr>))"

text \<open>The table grows by 32 entries.\<close>

definition need :: "nat \<Rightarrow> 'os win \<Rightarrow> 'os win" where
  "need n s = s\<lparr>tab := tab s @ replicate ((n - length (tab s) + 31) div 32 * 32) None\<rparr>"

definition first_free :: "nat option list \<Rightarrow> nat \<Rightarrow> nat" where
  "first_free t n = (case find (\<lambda>i. t ! i = None) [0..<n] of Some i \<Rightarrow> i | None \<Rightarrow> n)"

definition fdtalloc :: "nat option \<Rightarrow> ('os, int) wm" where
  "fdtalloc dupf s =
     (let s = need (nat (nfd s + 1)) s;
          i = first_free (tab s) (nat (nfd s))
      in case dupf of
           Some a \<Rightarrow>
             (if heap s a = None then Some (Inl WUndef)
              else ret (int i, (fd_set a (\<lambda>f. f\<lparr>f_users := f_users f + 1\<rparr>) s)\<lparr>tab := (tab s)[i := Some a], nfd := nfd s + 1\<rparr>))
         | None \<Rightarrow>
             ret (int i, s\<lparr>heap := (heap s)(fresh s := Some (fd0\<lparr>f_users := 1\<rparr>)), tab := (tab s)[i := Some (fresh s)],
                           nfd := nfd s + 1, fresh := fresh s + 1\<rparr>))"

text \<open>What the new descriptor has been before loses a user. A new descriptor below -1 is not looked at before it indexes the
  table.\<close>

definition dup_drop :: "nat \<Rightarrow> ('os, (nat \<times> fdtype) option) wm" where
  "dup_drop fd s =
     (case tab s ! fd of
        None \<Rightarrow> ret (None, s)
      | Some a \<Rightarrow>
          (case heap s a of
             None \<Rightarrow> Some (Inl WUndef)
           | Some f \<Rightarrow>
               let f' = f\<lparr>f_users := f_users f - 1\<rparr>;
                   f'' = (if f_users f' = 0 then f'\<lparr>f_type := Fdtypenone\<rparr> else f')
               in ret (if f_users f' = 0 then Some (a, f_type f) else None, s\<lparr>heap := (heap s)(a := Some f''), nfd := nfd s - 1\<rparr>)))"

definition fdtdup :: "'os wlib \<Rightarrow> int \<Rightarrow> int \<Rightarrow> ('os, int) wm" where
  "fdtdup lib oldfd newfd s =
     rbind (fdtget lib oldfd s) (\<lambda>(r, s).
       case r of
         None \<Rightarrow> ret (-1, s)
       | Some a \<Rightarrow>
           if newfd = -1 then fdtalloc (Some a) s
           else if newfd < 0 then Some (Inl WUndef)
           else rbind (if int (length (tab s)) \<le> newfd then ret (None, need (nat newfd + 1) s) else dup_drop (nat newfd) s) (\<lambda>(rf, s).
             let s = (fd_set a (\<lambda>f. f\<lparr>f_users := f_users f + 1\<rparr>) s)\<lparr>tab := (tab s)[nat newfd := Some a], nfd := nfd s + 1\<rparr>
             in case rf of
                  None \<Rightarrow> ret (newfd, s)
                | Some (b, t) \<Rightarrow> rbind (releasef lib b t True s) (\<lambda>(_, s). ret (newfd, s))))"

definition fdtonclose :: "'os wlib \<Rightarrow> int \<Rightarrow> int \<Rightarrow> ('os, unit) wm" where
  "fdtonclose lib fd h s =
     rbind (fdtget lib fd s) (\<lambda>(r, s). case r of None \<Rightarrow> ret ((), s) | Some a \<Rightarrow> ret ((), fd_set a (\<lambda>f. f\<lparr>onclose := Some h\<rparr>) s))"

definition fdtclose :: "'os wlib \<Rightarrow> int \<Rightarrow> bool \<Rightarrow> ('os, int) wm" where
  "fdtclose lib fd closehandle s =
     rbind (fdtget lib fd s) (\<lambda>(r, s).
       case r of
         None \<Rightarrow> ret (-1, s)
       | Some a \<Rightarrow>
           (case heap s a of
              None \<Rightarrow> Some (Inl WUndef)
            | Some f \<Rightarrow>
                let s = s\<lparr>tab := (tab s)[nat fd := None], nfd := nfd s - 1, heap := (heap s)(a := Some (f\<lparr>f_users := f_users f - 1\<rparr>))\<rparr>
                in if f_users f - 1 = 0
                   then rbind (releasef lib a (f_type f) closehandle (fd_set a (\<lambda>f. f\<lparr>f_type := Fdtypenone\<rparr>) s)) (\<lambda>(_, s). ret (0, s))
                   else if Some a \<in> set (tab s) then ret (0, s)
                   else Some (Inl (WFatal ''fdtclose''))))"

definition initstdfd :: "'os wlib \<Rightarrow> nat \<Rightarrow> string \<Rightarrow> nat \<Rightarrow> ('os, unit) wm" where
  "initstdfd lib i nm n s =
     (let h = w_std lib n
      in if h = 0 then Some (Inl (WFatal ''GetStdHandle''))
         else ret ((), s\<lparr>heap := (heap s)(fresh s := Some (fd0\<lparr>f_name := Some nm, f_h := h,
                           f_type := if w_iscons lib h (w_os s) then Fdtypecons else Fdtypestd, f_users := 1\<rparr>)),
                         tab := (tab s)[i := Some (fresh s)], fresh := fresh s + 1\<rparr>))"

definition fdtabinit :: "'os wlib \<Rightarrow> 'os \<Rightarrow> (wstop, unit \<times> 'os win) res" where
  "fdtabinit lib os =
     (let s = need 3 \<lparr>tab = [], nfd = 3, heap = (\<lambda>a. None), fresh = 0, npipes = 0, con = \<lparr>c_utf = [], c_wbuf = [], c_eof = False\<rparr>,
                   children = replicate 64 (0, 0), spawnpg = False, w_os = os\<rparr>
      in rbind (initstdfd lib 2 ''<stderr>'' 2 s) (\<lambda>(_, s).
         rbind (initstdfd lib 0 ''<stdin>'' 0 s) (\<lambda>(_, s).
         initstdfd lib 1 ''<stdout>'' 1 s)))"

definition p9close :: "'os wlib \<Rightarrow> int \<Rightarrow> ('os, int) wm" where
  "p9close lib fd s = rbind (fdtclose lib fd True s) (\<lambda>(_, s). ret (0, s))"

definition p9dup :: "'os wlib \<Rightarrow> int \<Rightarrow> int \<Rightarrow> ('os, int) wm" where
  "p9dup lib old new s = fdtdup lib old new s"

text \<open>At the exit of the program all are closed, the standard error last.\<close>

definition close_but :: "'os wlib \<Rightarrow> nat list \<Rightarrow> ('os, unit) wm" where
  "close_but lib is s = fold (\<lambda>i r. rbind r (\<lambda>(_, s). if tab s ! i \<noteq> None \<and> i \<noteq> 2 then rbind (p9close lib (int i) s) (\<lambda>(_, s). ret ((), s)) else ret ((), s)))
     is (ret ((), s))"

definition fdt_cleanup :: "'os wlib \<Rightarrow> ('os, unit) wm" where
  "fdt_cleanup lib s =
     rbind (close_but lib [0..<length (tab s)] s) (\<lambda>(_, s).
       if tab s ! 2 = None then ret ((), s)
       else if nfd s \<noteq> 1 then Some (Inl (WFatal ''fdt cleanup''))
       else rbind (p9close lib 2 s) (\<lambda>(_, s). ret ((), s)))"

end
