(* ===== verification/WinIo.thy ===== *)
theory WinIo
  imports WinFd
begin

text \<open>
  The system calls of the Windows port over the table of descriptors: \<open>open\<close>, \<open>create\<close>, \<open>read\<close>, \<open>write\<close>, \<open>seek\<close>, \<open>pipe\<close>,
  \<open>chdir\<close>, \<open>fchdir\<close>, \<open>sendfd\<close> and \<open>recvfd\<close> of src/src/lib9/mingw. The result of a call is a number, negative for an error;
  the text of the error is left out.
\<close>

section \<open>Modes\<close>

definition OTRUNC :: u32 where "OTRUNC = 16"
definition OCEXEC :: u32 where "OCEXEC = 32"
definition ORCLOSE :: u32 where "ORCLOSE = 64"
definition ODIRECT :: u32 where "ODIRECT = 128"
definition OEXCL :: u32 where "OEXCL = 0x1000"
definition OLOCK :: u32 where "OLOCK = 0x2000"
definition OAPPEND :: u32 where "OAPPEND = 0x4000"
definition DMDIR :: u32 where "DMDIR = 0x80000000"

definition FILE_APPEND_DATA :: u32 where "FILE_APPEND_DATA = 4"
definition FILE_SHARE_ALL :: u32 where "FILE_SHARE_ALL = 7"
definition FILE_FLAG_WRITE_THROUGH :: u32 where "FILE_FLAG_WRITE_THROUGH = 0x80000000"
definition FILE_FLAG_OVERLAPPED :: u32 where "FILE_FLAG_OVERLAPPED = 0x40000000"
definition FILE_FLAG_DELETE_ON_CLOSE :: u32 where "FILE_FLAG_DELETE_ON_CLOSE = 0x04000000"
definition FILE_ATTRIBUTE_NORMAL :: u32 where "FILE_ATTRIBUTE_NORMAL = 0x80"

definition CREATE_NEW :: nat where "CREATE_NEW = 1"
definition OPEN_EXISTING :: nat where "OPEN_EXISTING = 3"
definition TRUNCATE_EXISTING :: nat where "TRUNCATE_EXISTING = 5"

definition ERROR_BROKEN_PIPE :: nat where "ERROR_BROKEN_PIPE = 109"
definition ERROR_PIPE_NOT_CONNECTED :: nat where "ERROR_PIPE_NOT_CONNECTED = 233"
definition ERROR_PIPE_CONNECTED :: nat where "ERROR_PIPE_CONNECTED = 535"
definition ERROR_IO_PENDING :: nat where "ERROR_IO_PENDING = 997"

abbreviation has :: "u32 \<Rightarrow> u32 \<Rightarrow> bool" where
  "has mode flag \<equiv> mode AND flag \<noteq> 0"

text \<open>The access that a mode asks for.\<close>

definition access_of :: "u32 \<Rightarrow> u32" where
  "access_of rdwr =
     (if rdwr = OREAD then GENERIC_READ else if rdwr = ORDWR then GENERIC_READ OR GENERIC_WRITE else if rdwr = OWRITE then GENERIC_WRITE else 0)"

section \<open>Opening\<close>

definition wincreatefile :: "'os wlib \<Rightarrow> string \<Rightarrow> u32 \<Rightarrow> u32 \<Rightarrow> nat \<Rightarrow> u32 \<Rightarrow> 'os \<Rightarrow> int \<times> 'os" where
  "wincreatefile lib nm da share dis flags os =
     (if pureasc nm then w_fileA lib nm da share dis flags os
      else w_fileW lib (winutf2wpath (w_utf lib) (w_cfg lib) nm) da share dis flags os)"

definition wincreatedir :: "'os wlib \<Rightarrow> string \<Rightarrow> 'os \<Rightarrow> bool \<times> 'os" where
  "wincreatedir lib nm os =
     (if pureasc nm then w_mkdirA lib nm os else w_mkdirW lib (winutf2wpath (w_utf lib) (w_cfg lib) nm) os)"

definition fd_at :: "int \<Rightarrow> 'os win \<Rightarrow> nat" where
  "fd_at fd s = the (tab s ! nat fd)"

text \<open>The failed open gives the descriptor back.\<close>

definition give_back :: "'os wlib \<Rightarrow> int \<Rightarrow> ('os, int) wm" where
  "give_back lib fd s = rbind (fdtclose lib fd True s) (\<lambda>(_, s). ret (-1, s))"

text \<open>The part of \<open>open\<close> behind the name: \<open>nm\<close> is the name, \<open>p\<close> the path.\<close>

definition open_file :: "'os wlib \<Rightarrow> u32 \<Rightarrow> nat \<Rightarrow> u32 \<Rightarrow> string \<Rightarrow> ('os, int) wm" where
  "open_file lib da dis flags nm s =
     rbind (fdtalloc None s) (\<lambda>(fd, s).
       let a = fd_at fd s;
           p = fst (winpathdup (w_tmp lib (w_os s)) nm);
           s = fd_set a (\<lambda>f. f\<lparr>f_name := Some p\<rparr>) s;
           pipe = take 8 p = ''//./pipe'';
           wname = winutf2wpath (w_utf lib) (w_cfg lib) p
       in if nm = ''/dev/null'' then ret (fd, fd_set a (\<lambda>f. f\<lparr>f_type := Fdtypedevnull\<rparr>) s)
          else if \<not> pipe \<and> w_isdir lib wname (w_os s)
          then (let (d, os) = w_opendir lib wname (w_os s);
                    s = fd_set a (\<lambda>f. f\<lparr>f_dir := d\<rparr>) (s\<lparr>w_os := os\<rparr>)
                in if d = 0 then give_back lib fd s else ret (fd, fd_set a (\<lambda>f. f\<lparr>f_type := Fdtypedir\<rparr>) s))
          else (let s = (if pipe then fd_set a (\<lambda>f. f\<lparr>f_type := Fdtypepipecl\<rparr>) s else s);
                    flags = (if pipe then FILE_FLAG_OVERLAPPED else flags);
                    flags = (if flags = 0 then FILE_ATTRIBUTE_NORMAL else flags);
                    (h, os) = wincreatefile lib p da FILE_SHARE_ALL dis flags (w_os s);
                    s = s\<lparr>w_os := os\<rparr>
                in if h = -1 then give_back lib fd s
                   else ret (fd, fd_set a (\<lambda>f. f\<lparr>f_type := (if w_iscons lib h (w_os s) then Fdtypecons
                                                       else if f_type f = Fdtypenone then Fdtypefile else f_type f), f_h := h\<rparr>) s)))"

definition p9open :: "'os wlib \<Rightarrow> string \<Rightarrow> u32 \<Rightarrow> ('os, int) wm" where
  "p9open lib nm mode s =
     (let rdwr = mode AND 3;
          mode = mode AND NOT (3 OR OCEXEC OR OLOCK);
          dis = (if has mode OTRUNC then TRUNCATE_EXISTING else OPEN_EXISTING);
          da = (if has mode OAPPEND then FILE_APPEND_DATA else access_of rdwr);
          flags = (if has mode ODIRECT then FILE_FLAG_WRITE_THROUGH else 0) OR (if has mode ORCLOSE then FILE_FLAG_DELETE_ON_CLOSE else 0)
      in if mode AND NOT (OTRUNC OR OAPPEND OR ODIRECT OR ORCLOSE) \<noteq> 0 then ret (-1, s)
         else if nm = ''/dev/stdin'' \<or> nm = ''/dev/fd/0'' then p9dup lib 0 (-1) s
         else case winadjustcons nm rdwr da of
                None \<Rightarrow> ret (-1, s)
              | Some (nm, da) \<Rightarrow>
                  if nm = ''.''
                  then (case p9getwd (w_utf lib) (w_cfg lib) (w_cwd lib (w_os s)) 260 of
                          None \<Rightarrow> Some (Inl WUndef)
                        | Some nm \<Rightarrow> open_file lib da dis flags nm s)
                  else open_file lib da dis flags nm s)"

text \<open>A file is made when it cannot be truncated. With \<open>OREAD\<close> that is not tried.\<close>

definition create_file :: "'os wlib \<Rightarrow> u32 \<Rightarrow> u32 \<Rightarrow> bool \<Rightarrow> int \<Rightarrow> string \<Rightarrow> ('os, int) wm" where
  "create_file lib mode da trytrunc fd p s =
     (let a = fd_at fd s;
          mode = mode AND NOT (3 OR OTRUNC);
          share = (if has mode OEXCL then 0 else FILE_SHARE_ALL);
          da = (if has mode OAPPEND then FILE_APPEND_DATA else da);
          flags = (if has mode ODIRECT then FILE_FLAG_WRITE_THROUGH else 0) OR (if has mode ORCLOSE then FILE_FLAG_DELETE_ON_CLOSE else 0);
          flags = (if flags = 0 then FILE_ATTRIBUTE_NORMAL else flags)
      in if mode AND NOT (OEXCL OR OAPPEND OR ODIRECT OR ORCLOSE) \<noteq> 0 then give_back lib fd s
         else let (h, os) = (if trytrunc then wincreatefile lib p da share TRUNCATE_EXISTING flags (w_os s) else (-1, w_os s));
                  (h, os) = (if h = -1 then wincreatefile lib p da share CREATE_NEW flags os else (h, os));
                  s = s\<lparr>w_os := os\<rparr>
              in if h = -1 then give_back lib fd s
                 else ret (fd, fd_set a (\<lambda>f. f\<lparr>f_type := (if w_iscons lib h (w_os s) then Fdtypecons else Fdtypefile), f_h := h\<rparr>) s))"

definition p9create :: "'os wlib \<Rightarrow> string \<Rightarrow> u32 \<Rightarrow> u32 \<Rightarrow> ('os, int) wm" where
  "p9create lib nm mode perm s =
     (let rdwr = mode AND 3;
          mode = mode AND NOT (OCEXEC OR OLOCK)
      in case winadjustcons nm rdwr (access_of rdwr) of
           None \<Rightarrow> ret (-1, s)
         | Some (nm, da) \<Rightarrow>
             let p = fst (winpathdup (w_tmp lib (w_os s)) nm)
             in rbind (fdtalloc None s) (\<lambda>(fd, s).
                  let a = fd_at fd s;
                      s = fd_set a (\<lambda>f. f\<lparr>f_name := Some p\<rparr>) s
                  in if nm = ''/dev/null'' then ret (fd, fd_set a (\<lambda>f. f\<lparr>f_type := Fdtypedevnull\<rparr>) s)
                     else if has perm DMDIR
                     then (if mode \<noteq> OREAD then give_back lib fd s
                           else let (ok, os) = wincreatedir lib p (w_os s);
                                    s = s\<lparr>w_os := os\<rparr>
                                in if \<not> ok then give_back lib fd s
                                   else ret (fd, fd_set a (\<lambda>f. f\<lparr>f_type := (if w_iscons lib (-1) (w_os s) then Fdtypecons else Fdtypefile), f_h := -1\<rparr>) s))
                     else create_file lib mode da (rdwr = ORDWR \<or> rdwr = OWRITE) fd p s))"

section \<open>Reading, writing, seeking\<close>

definition winovresult :: "(nat + 'a) \<times> 'os \<Rightarrow> ('os \<Rightarrow> (nat + 'a) \<times> 'os) \<Rightarrow> (nat + 'a) \<times> 'os" where
  "winovresult r wait = (case r of (Inl e, os) \<Rightarrow> if e = ERROR_IO_PENDING then wait os else (Inl e, os) | _ \<Rightarrow> r)"

definition pipe_gone :: "nat \<Rightarrow> bool" where
  "pipe_gone e \<longleftrightarrow> e = ERROR_BROKEN_PIPE \<or> e = ERROR_PIPE_NOT_CONNECTED"

definition read_result :: "(nat + string) \<times> 'os \<Rightarrow> (int \<times> string) \<times> 'os" where
  "read_result r = (case r of (Inr bs, os) \<Rightarrow> ((int (length bs), bs), os) | (Inl e, os) \<Rightarrow> ((if pipe_gone e then 0 else -1, []), os))"

text \<open>\<open>fuel\<close> is for the console.\<close>

definition p9read :: "'os wlib \<Rightarrow> nat \<Rightarrow> int \<Rightarrow> nat \<Rightarrow> ('os, int \<times> string) wm" where
  "p9read lib k fd n s =
     rbind (fdtget lib fd s) (\<lambda>(r, s).
       case r of
         None \<Rightarrow> ret ((-1, []), s)
       | Some a \<Rightarrow>
           let f = the (heap s a); t = f_type f; os = w_os s
           in if t = Fdtypecons
              then (case winreadcons (w_utf lib) (w_readcons lib (f_h f)) k n (con s) os of
                      None \<Rightarrow> None
                    | Some (r, c, os) \<Rightarrow> ret (r, s\<lparr>con := c, w_os := os\<rparr>))
              else if t = Fdtypefile \<or> t = Fdtypestd then (let (r, os) = read_result (w_read lib (f_h f) n os) in ret (r, s\<lparr>w_os := os\<rparr>))
              else if is_pipe t
              then (let (r, os) = read_result (winovresult (w_readov lib (f_h f) n (ev_r f) os) (w_ovread lib (f_h f))) in ret (r, s\<lparr>w_os := os\<rparr>))
              else if t = Fdtypesock
              then (let (r, os) = w_recv lib (f_s f) n os
                    in ret (case r of None \<Rightarrow> (-1, []) | Some bs \<Rightarrow> (int (length bs), bs), s\<lparr>w_os := os\<rparr>))
              else if t = Fdtypedevnull then ret ((0, []), s)
              else ret ((-1, []), s))"

definition write_result :: "(nat + nat) \<times> 'os \<Rightarrow> int \<times> 'os" where
  "write_result r = (case r of (Inr n, os) \<Rightarrow> (int n, os) | (Inl e, os) \<Rightarrow> (-1, os))"

text \<open>For a directory, and for a descriptor without a type, the result has never been set.\<close>

definition p9write :: "'os wlib \<Rightarrow> int \<Rightarrow> string \<Rightarrow> ('os, int) wm" where
  "p9write lib fd bs s =
     rbind (fdtget lib fd s) (\<lambda>(r, s).
       case r of
         None \<Rightarrow> ret (-1, s)
       | Some a \<Rightarrow>
           let f = the (heap s a); t = f_type f; os = w_os s
           in if t = Fdtypefile \<or> t = Fdtypestd then (let (r, os) = write_result (w_write lib (f_h f) bs os) in ret (r, s\<lparr>w_os := os\<rparr>))
              else if t = Fdtypecons
              then (let (ok, c, os) = winwritecons (w_utf lib) (w_fullrune lib) (w_writecons lib (f_h f)) bs (con s) os
                    in ret (if ok then int (length bs) else -1, s\<lparr>con := c, w_os := os\<rparr>))
              else if is_pipe t
              then (let (r, os) = write_result (winovresult (w_writeov lib (f_h f) bs (ev_w f) os) (w_ovwrite lib (f_h f))) in ret (r, s\<lparr>w_os := os\<rparr>))
              else if t = Fdtypesock
              then (let (r, os) = w_send lib (f_s f) bs os in ret (case r of None \<Rightarrow> -1 | Some n \<Rightarrow> int n, s\<lparr>w_os := os\<rparr>))
              else if t = Fdtypedevnull then ret (int (length bs), s)
              else Some (Inl WUndef))"

text \<open>The two halves are \<open>LONG\<close>, signed; so is what \<open>|\<close> widens to 64 bits.\<close>

definition join_halves :: "int \<Rightarrow> int \<Rightarrow> int" where
  "join_halves h l = sint (push_bit 32 (word_of_int h :: u64) OR word_of_int l)"

definition p9seek :: "'os wlib \<Rightarrow> int \<Rightarrow> int \<Rightarrow> nat \<Rightarrow> ('os, int) wm" where
  "p9seek lib fd offset whence s =
     rbind (fdtget lib fd s) (\<lambda>(r, s).
       case r of
         None \<Rightarrow> ret (-1, s)
       | Some a \<Rightarrow>
           let f = the (heap s a)
           in if f_type f \<noteq> Fdtypefile \<or> 2 < whence then ret (-1, s)
              else let (((l, h), e), os) = w_seek lib (f_h f) (int32 offset) (int32 (offset div 4294967296)) whence (w_os s);
                       s = s\<lparr>w_os := os\<rparr>
                   in if l = -1 \<and> e \<noteq> 0 then ret (-1, s) else ret (join_halves h l, s))"

section \<open>Pipes\<close>

fun hex_digits :: "nat \<Rightarrow> nat \<Rightarrow> string" where
  "hex_digits 0 n = []"
| "hex_digits (Suc w) n = hex_digits w (n div 16) @ [''0123456789abcdef'' ! (n mod 16)]"

text \<open>The name of a new pipe. Both numbers have eight digits.\<close>

definition wincreatepipename :: "'os wlib \<Rightarrow> 'os win \<Rightarrow> string \<times> 'os win" where
  "wincreatepipename lib s =
     (let n = npipes s + 1 in (''//./pipe/p9pipe-'' @ hex_digits 8 (w_pid lib) @ ''-'' @ hex_digits 8 n, s\<lparr>npipes := n\<rparr>))"

definition createnamedpipe :: "'os wlib \<Rightarrow> string \<Rightarrow> u32 \<Rightarrow> nat \<Rightarrow> 'os \<Rightarrow> int \<times> 'os" where
  "createnamedpipe lib nm omode n os =
     (if pureasc nm then w_namedpipe lib nm omode n os else w_namedpipeW lib (winutf2wpath (w_utf lib) (w_cfg lib) nm) omode n os)"

definition PIPE_ACCESS_INBOUND :: u32 where "PIPE_ACCESS_INBOUND = 1"
definition PIPE_ACCESS_OUTBOUND :: u32 where "PIPE_ACCESS_OUTBOUND = 2"
definition PIPE_ACCESS_DUPLEX :: u32 where "PIPE_ACCESS_DUPLEX = 3"
definition PIPE_UNLIMITED_INSTANCES :: nat where "PIPE_UNLIMITED_INSTANCES = 255"

text \<open>The rest of the arguments of \<open>CreateNamedPipe\<close> never changes: bytes, waiting, buffers of 4096 bytes.\<close>

definition wincreatenamedpipe :: "'os wlib \<Rightarrow> string \<Rightarrow> u32 \<Rightarrow> nat \<Rightarrow> 'os win \<Rightarrow> int \<times> 'os win" where
  "wincreatenamedpipe lib nm mode n s =
     (let n = (if n = 0 then PIPE_UNLIMITED_INSTANCES else n);
          acc = (if mode = OREAD then PIPE_ACCESS_INBOUND else if mode = OWRITE then PIPE_ACCESS_OUTBOUND else PIPE_ACCESS_DUPLEX);
          (h, os) = createnamedpipe lib nm (acc OR FILE_FLAG_OVERLAPPED) n (w_os s)
      in (h, s\<lparr>w_os := os\<rparr>))"

text \<open>When this fails the pipe is closed, except when there is no event.\<close>

definition winconnectpipe :: "'os wlib \<Rightarrow> int \<Rightarrow> bool \<Rightarrow> 'os win \<Rightarrow> bool \<times> 'os win" where
  "winconnectpipe lib h needclient s =
     (let (ev, os) = w_event lib (w_os s)
      in if ev = -1 then (False, s\<lparr>w_os := os\<rparr>)
         else let (r, os) = winovresult (w_connect lib h ev os) (w_ovconnect lib h);
                  os = w_close lib ev os
              in if r = Inl ERROR_PIPE_CONNECTED \<or> r = Inr () \<and> \<not> needclient then (True, s\<lparr>w_os := os\<rparr>)
                 else (False, s\<lparr>w_os := w_close lib h os\<rparr>))"

definition pipe_alloc :: "int \<Rightarrow> string \<Rightarrow> fdtype \<Rightarrow> ('os, int) wm" where
  "pipe_alloc h nm t s =
     rbind (fdtalloc None s) (\<lambda>(fd, s). ret (fd, fd_set (fd_at fd s) (\<lambda>f. f\<lparr>f_h := h, f_type := t, f_name := Some nm\<rparr>) s))"

definition p9pipe :: "'os wlib \<Rightarrow> ('os, (int \<times> int) option) wm" where
  "p9pipe lib s =
     (let (nm, s) = wincreatepipename lib s;
          (h1, s) = wincreatenamedpipe lib nm ORDWR 1 s
      in if h1 = -1 then ret (None, s)
         else let (h0, os) = wincreatefile lib nm (GENERIC_READ OR GENERIC_WRITE) FILE_SHARE_ALL OPEN_EXISTING
                                (FILE_FLAG_DELETE_ON_CLOSE OR FILE_FLAG_OVERLAPPED) (w_os s);
                  s = s\<lparr>w_os := os\<rparr>
              in if h0 = -1 then ret (None, s)
                 else let (ok, s) = winconnectpipe lib h1 True s
                      in if \<not> ok then ret (None, on_os (w_close lib h0) s)
                         else rbind (pipe_alloc h0 nm Fdtypepipecl s) (\<lambda>(fd0, s).
                              rbind (pipe_alloc h1 nm Fdtypepipesrv s) (\<lambda>(fd1, s). ret (Some (fd0, fd1), s))))"

text \<open>A pipe through which another program may use a descriptor.\<close>

definition winexportfd :: "'os wlib \<Rightarrow> int \<Rightarrow> u32 \<Rightarrow> ('os, string option) wm" where
  "winexportfd lib fd mode s =
     (let (nm, s) = wincreatepipename lib s;
          (h, s) = wincreatenamedpipe lib nm (if mode = OREAD then OWRITE else OREAD) 1 s
      in if h = -1 then ret (None, s)
         else rbind (fdtonclose lib fd h s) (\<lambda>(_, s). ret (Some nm, on_os (w_start lib fd mode h) s)))"

section \<open>Directories and descriptors in messages\<close>

definition p9chdir :: "'os wlib \<Rightarrow> string \<Rightarrow> ('os, int) wm" where
  "p9chdir lib d s =
     (case dir_slash (fst (winpathdup (w_tmp lib (w_os s)) d)) of
        None \<Rightarrow> Some (Inl WUndef)
      | Some d \<Rightarrow> (let (ok, os) = w_setcwd lib (winutf2wpath (w_utf lib) (w_cfg lib) d) (w_os s) in ret (if ok then 0 else -1, s\<lparr>w_os := os\<rparr>)))"

definition p9fchdir :: "'os wlib \<Rightarrow> int \<Rightarrow> ('os, int) wm" where
  "p9fchdir lib fd s =
     rbind (fdtget lib fd s) (\<lambda>(r, s).
       case r of
         None \<Rightarrow> ret (-1, s)
       | Some a \<Rightarrow> (let f = the (heap s a) in if f_type f \<noteq> Fdtypedir then ret (-1, s) else p9chdir lib (the (f_name f)) s))"

definition le_bytes :: "nat \<Rightarrow> int \<Rightarrow> string" where
  "le_bytes n i = map (\<lambda>k. char_of (nat (i div 2 ^ (8 * k) mod 256))) [0..<n]"

definition fd_msg :: "'os wlib \<Rightarrow> int \<Rightarrow> string" where
  "fd_msg lib h = le_bytes 4 (int (w_pid lib)) @ le_bytes 4 h"

text \<open>The handle goes to the other program; here it is not closed.\<close>

definition sendfd :: "'os wlib \<Rightarrow> int \<Rightarrow> int \<Rightarrow> ('os, int) wm" where
  "sendfd lib sfd fd s =
     rbind (fdtget lib fd s) (\<lambda>(r, s).
       case r of
         None \<Rightarrow> ret (-1, s)
       | Some a \<Rightarrow>
           (let f = the (heap s a)
            in if \<not> is_pipe (f_type f) then ret (-1, s)
               else rbind (p9write lib sfd (fd_msg lib (f_h f)) s) (\<lambda>(_, s). rbind (fdtclose lib fd False s) (\<lambda>(_, s). ret (0, s)))))"

definition recvfd :: "'os wlib \<Rightarrow> nat \<Rightarrow> int \<Rightarrow> ('os, int) wm" where
  "recvfd lib k sfd s =
     rbind (p9read lib k sfd 8 s) (\<lambda>((n, bs), s).
       if n \<noteq> 8 then ret (-1, s)
       else let (h, os) = w_take lib bs (w_os s);
                s = s\<lparr>w_os := os\<rparr>
            in case h of
                 None \<Rightarrow> ret (-1, s)
               | Some h \<Rightarrow> pipe_alloc h ''recvfd'' Fdtypepipecl s)"

section \<open>A world for the examples\<close>

text \<open>A world in which every call succeeds and nothing is read.\<close>

definition still_lib :: "unit wlib" where
  "still_lib = \<lparr>w_utf = \<lparr>chartorune = (\<lambda>s. (0, 1)), runetochar = (\<lambda>r. [char_of r]), runelen = (\<lambda>r. 1), utflen = length\<rparr>,
     w_fullrune = (\<lambda>s. True), w_cfg = None, w_tmp = (\<lambda>os. ''c:/tmp''), w_cwd = (\<lambda>os. [99, 58, 92]), w_setcwd = (\<lambda>w os. (True, os)),
     w_close = (\<lambda>h os. os), w_closepipe = (\<lambda>h os. os), w_closesocket = (\<lambda>h os. os), w_closedir = (\<lambda>h os. os),
     w_event = (\<lambda>os. (4, os)), w_std = (\<lambda>n. int n + 1), w_iscons = (\<lambda>h os. False),
     w_fileA = (\<lambda>nm da sh dis fl os. (7, os)), w_fileW = (\<lambda>nm da sh dis fl os. (7, os)), w_mkdirA = (\<lambda>nm os. (True, os)),
     w_mkdirW = (\<lambda>nm os. (True, os)), w_isdir = (\<lambda>nm os. False), w_opendir = (\<lambda>nm os. (8, os)), w_read = (\<lambda>h n os. (Inr [], os)),
     w_write = (\<lambda>h bs os. (Inr (length bs), os)), w_readov = (\<lambda>h n ev os. (Inr [], os)), w_writeov = (\<lambda>h bs ev os. (Inr (length bs), os)),
     w_connect = (\<lambda>h ev os. (Inl ERROR_PIPE_CONNECTED, os)), w_ovread = (\<lambda>h os. (Inr [], os)), w_ovwrite = (\<lambda>h os. (Inr 0, os)),
     w_ovconnect = (\<lambda>h os. (Inr (), os)), w_recv = (\<lambda>h n os. (Some [], os)), w_send = (\<lambda>h bs os. (Some (length bs), os)),
     w_readcons = (\<lambda>h os. (Some [], os)), w_writecons = (\<lambda>h w os. (Some (length w), os)), w_seek = (\<lambda>h l hi wh os. (((l, hi), 0), os)),
     w_namedpipe = (\<lambda>nm m n os. (9, os)), w_namedpipeW = (\<lambda>nm m n os. (9, os)), w_pid = 1, w_start = (\<lambda>fd m h os. os), w_take = (\<lambda>bs os. (None, os)),
     w_hostbyname = (\<lambda>h os. (Some (2, [127, 0, 0, 1]), os)), w_addrinfo = (\<lambda>h os. (None, os)), w_service = (\<lambda>s n. None),
     w_socket = (\<lambda>f t os. (11, os)), w_bind = (\<lambda>s a os. (True, os)), w_connectsock = (\<lambda>s a os. (True, os)), w_listen = (\<lambda>s os. os),
     w_accept = (\<lambda>s os. (12, os)), w_crtclose = (\<lambda>s os. os), w_exists = (\<lambda>w os. True), w_fullpath = (\<lambda>os s. s), w_unsharp = (\<lambda>s. s),
     w_mktemp = (\<lambda>s os. (Some s, os)), w_duph = (\<lambda>h os. (Some (h + 20), os)), w_anonpipe = (\<lambda>os. (Some (13, 14), os)),
     w_noinherit = (\<lambda>h os. os), w_rxtx = (\<lambda>fd m h os. os), w_createproc = (\<lambda>p c f e hs os. (Some (15, 16, 17), os)),
     w_waitmany = (\<lambda>hs nh os. (WaitObject 0, os)), w_waitone = (\<lambda>h nh os. (WaitObject 0, os)), w_openproc = (\<lambda>p os. (0, os)),
     w_times = (\<lambda>h os. None), w_exit = (\<lambda>h os. Some 0), w_consmode = (\<lambda>h os. None), w_setconsmode = (\<lambda>h m os. os),
     w_conswindow = (\<lambda>h os. None)\<rparr>"

end
