(* ===== verification/WinFdInv.thy ===== *)
theory WinFdInv
  imports WinIo
begin

text \<open>
  The table of descriptors as a whole: the invariant that counts of users, of open descriptors and the allocated structures
  agree, its preservation by the operations of fdtab.c, what they do to the map from descriptors to open files, and the
  states that a program reaches.
\<close>

section \<open>The invariant\<close>

definition users_of :: "nat \<Rightarrow> nat option list \<Rightarrow> nat" where
  "users_of a t = count_list t (Some a)"

definition opened :: "nat option list \<Rightarrow> nat" where
  "opened t = length (filter (\<lambda>x. x \<noteq> None) t)"

definition fd_inv :: "'os win \<Rightarrow> bool" where
  "fd_inv s \<longleftrightarrow> nfd s = int (opened (tab s)) \<and> 3 \<le> length (tab s)
     \<and> (\<forall>a f. heap s a = Some f \<longrightarrow> a < fresh s \<and> f_users f = int (users_of a (tab s)) \<and> 0 < users_of a (tab s))
     \<and> (\<forall>a. Some a \<in> set (tab s) \<longrightarrow> heap s a \<noteq> None)"

text \<open>What a program sees: which open file a descriptor stands for.\<close>

definition fds :: "'os win \<Rightarrow> int \<Rightarrow> nat option" where
  "fds s fd = (if fd < 0 \<or> int (length (tab s)) \<le> fd then None else tab s ! nat fd)"

section \<open>Counting\<close>

lemma count_list_update:
  "i < length t \<Longrightarrow> count_list (t[i := x]) y + (if t ! i = y then 1 else 0) = count_list t y + (if x = y then 1 else 0)"
proof (induction t arbitrary: i)
  case (Cons z t)
  show ?case
  proof (cases i)
    case (Suc j)
    then show ?thesis using Cons.IH [of j] Cons.prems by auto
  qed simp
qed simp

lemma opened_update: "i < length t \<Longrightarrow> opened (t[i := x]) + (if t ! i \<noteq> None then 1 else 0) = opened t + (if x \<noteq> None then 1 else 0)"
proof (induction t arbitrary: i)
  case (Cons z t)
  show ?case
  proof (cases i)
    case (Suc j)
    then show ?thesis using Cons.IH [of j] Cons.prems by (auto simp: opened_def)
  qed (simp add: opened_def)
qed simp

lemma opened_grow [simp]: "opened (t @ replicate n None) = opened t"
  by (induction n) (auto simp: opened_def)

lemma users_grow [simp]: "users_of a (t @ replicate n None) = users_of a t"
  by (induction n) (auto simp: users_of_def)

lemma opened_le: "opened t \<le> length t"
  by (simp add: opened_def)

lemma users_pos: "Some a \<in> set t \<longleftrightarrow> 0 < users_of a t"
  unfolding users_of_def by (metis count_list_0_iff gr0I not_less_zero)

lemma need_simps [simp]: "nfd (need n s) = nfd s" "heap (need n s) = heap s" "fresh (need n s) = fresh s" "w_os (need n s) = w_os s"
  "npipes (need n s) = npipes s" "con (need n s) = con s"
  by (simp_all add: need_def)

lemma need_length: "n \<le> length (tab (need n s)) \<and> length (tab s) \<le> length (tab (need n s))"
proof -
  have "n - length (tab s) \<le> (n - length (tab s) + 31) div 32 * 32"
    using div_mult_mod_eq [of "n - length (tab s) + 31" 32] mod_less_divisor [of 32 "n - length (tab s) + 31"] by linarith
  then show ?thesis by (simp add: need_def)
qed

lemma need_new: "length (tab s) \<le> i \<Longrightarrow> i < length (tab (need n s)) \<Longrightarrow> tab (need n s) ! i = None"
  by (simp add: need_def nth_append)

lemma need_inv: "fd_inv s \<Longrightarrow> fd_inv (need n s)"
  by (auto simp: fd_inv_def need_def)

lemma need_fds [simp]: "fds (need n s) = fds s"
  by (auto simp: fds_def need_def nth_append fun_eq_iff)

section \<open>fdtget\<close>

lemma fdtget_spec:
  assumes "fd_inv s"
  shows "\<exists>s'. fdtget lib fd s = ret (fds s fd, s') \<and> fd_inv s' \<and> tab s' = tab s \<and> nfd s' = nfd s \<and> fresh s' = fresh s
    \<and> (\<forall>a. fds s fd = Some a \<longrightarrow> heap s' a \<noteq> None) \<and> (\<forall>a. map_option f_users (heap s' a) = map_option f_users (heap s a))"
proof (cases "fds s fd")
  case None
  then show ?thesis using assms by (auto simp: fdtget_def fds_def split: if_splits)
next
  case (Some a)
  then have i: "0 \<le> fd" "fd < int (length (tab s))" "tab s ! nat fd = Some a" by (auto simp: fds_def split: if_splits)
  then have "Some a \<in> set (tab s)" by (metis nat_less_iff nth_mem)
  then obtain f where f: "heap s a = Some f" using assms by (auto simp: fd_inv_def)
  show ?thesis
  proof (cases "is_pipe (f_type f)")
    case False
    then show ?thesis using assms i f Some by (auto simp: fdtget_def)
  next
    case True
    obtain r os1 where r: "initovev lib (ev_r f) (w_os s) = (r, os1)" by fastforce
    obtain w os2 where w: "initovev lib (ev_w f) os1 = (w, os2)" by fastforce
    define s' where "s' = s\<lparr>heap := (heap s)(a := Some (f\<lparr>ev_r := r, ev_w := w\<rparr>)), w_os := os2\<rparr>"
    have "fdtget lib fd s = ret (Some a, s')" using i f True r w by (simp add: fdtget_def s'_def)
    moreover have "fd_inv s'" using assms f by (auto simp: fd_inv_def s'_def)
    ultimately show ?thesis using Some f by (auto simp: s'_def)
  qed
qed

section \<open>fdtalloc\<close>

lemma first_free_spec:
  assumes "n = opened t" "n < length t"
  shows "first_free t n \<le> n" "t ! first_free t n = None" "i < first_free t n \<Longrightarrow> t ! i \<noteq> None"
proof -
  show g: "t ! first_free t n = None"
  proof (cases "find (\<lambda>i. t ! i = None) [0..<n]")
    case None
    then have all: "t ! i \<noteq> None" if "i < n" for i using that by (auto simp: find_None_iff)
    have "filter (\<lambda>x. x \<noteq> None) (take n t) = take n t" using all assms(2) by (intro filter_True) (auto simp: in_set_conv_nth)
    then have "opened t = n + opened (drop n t)"
      using assms(2) unfolding opened_def by (metis append_take_drop_id filter_append length_append length_take min.absorb4)
    then have "opened (drop n t) = 0" using assms(1) by simp
    then have "drop n t ! 0 = None" using assms(2) by (cases "drop n t") (auto simp: opened_def split: if_splits)
    then show ?thesis using None assms(2) by (simp add: first_free_def)
  next
    case (Some i)
    then have "t ! i = None" by (auto simp: find_Some_iff)
    then show ?thesis by (simp add: first_free_def Some)
  qed
  show "first_free t n \<le> n" by (auto simp: first_free_def find_Some_iff split: option.splits)
  show "i < first_free t n \<Longrightarrow> t ! i \<noteq> None"
    by (auto simp: first_free_def find_Some_iff find_None_iff split: option.splits)
qed

text \<open>The lowest descriptor that is free.\<close>

definition lowest_free :: "'os win \<Rightarrow> int \<Rightarrow> bool" where
  "lowest_free s i \<longleftrightarrow> 0 \<le> i \<and> fds s i = None \<and> (\<forall>j\<in>{0..<i}. fds s j \<noteq> None)"

lemma alloc_place:
  assumes "fd_inv s"
  defines "t \<equiv> need (nat (nfd s + 1)) s"
  shows "first_free (tab t) (nat (nfd t)) < length (tab t)" "tab t ! first_free (tab t) (nat (nfd t)) = None"
    "lowest_free s (int (first_free (tab t) (nat (nfd t))))"
proof -
  have "nfd t = int (opened (tab t))" using need_inv [OF assms(1), of "nat (nfd s + 1)"] by (simp only: fd_inv_def t_def)
  then have n: "nat (nfd t) = opened (tab t)" by simp
  have l: "nat (nfd t) < length (tab t)"
    using need_length [of "nat (nfd s + 1)" s] assms(1) by (simp add: t_def fd_inv_def nat_add_distrib)
  note f = first_free_spec [OF n l]
  show L: "first_free (tab t) (nat (nfd t)) < length (tab t)" using f(1) l by simp
  show N: "tab t ! first_free (tab t) (nat (nfd t)) = None" by (rule f(2))
  have "fds t (int (first_free (tab t) (nat (nfd t)))) = None" using L N by (simp add: fds_def)
  moreover have "fds t j \<noteq> None" if "j \<in> {0..<int (first_free (tab t) (nat (nfd t)))}" for j
    using that L f(3) [of "nat j"] by (auto simp: fds_def)
  ultimately show "lowest_free s (int (first_free (tab t) (nat (nfd t))))"
    unfolding lowest_free_def by (simp add: t_def)
qed

lemma fds_update: "tab t = (tab s)[i := x] \<Longrightarrow> i < length (tab s) \<Longrightarrow> fds t = (fds s)(int i := x)"
  by (auto simp: fds_def fun_eq_iff nth_list_update nat_eq_iff)

lemma fdtalloc_new:
  assumes "fd_inv s"
  shows "\<exists>i s'. fdtalloc None s = ret (int i, s') \<and> lowest_free s (int i) \<and> fd_inv s' \<and> fds s' = (fds s)(int i := Some (fresh s))
    \<and> heap s' = (heap s)(fresh s := Some (fd0\<lparr>f_users := 1\<rparr>)) \<and> w_os s' = w_os s \<and> fresh s' = fresh s + 1 \<and> heap s (fresh s) = None
    \<and> npipes s' = npipes s \<and> con s' = con s \<and> tab s' ! i = Some (fresh s)"
proof -
  define t where "t = need (nat (nfd s + 1)) s"
  define i where "i = first_free (tab t) (nat (nfd t))"
  note pl = alloc_place [OF assms, folded t_def i_def]
  define s' where "s' = t\<lparr>heap := (heap s)(fresh s := Some (fd0\<lparr>f_users := 1\<rparr>)), tab := (tab t)[i := Some (fresh s)], nfd := nfd s + 1, fresh := fresh s + 1\<rparr>"
  have a: "fdtalloc None s = ret (int i, s')" unfolding fdtalloc_def t_def [symmetric] Let_def i_def [symmetric] by (simp add: s'_def) (simp add: t_def)
  have T: "fd_inv t" using need_inv [OF assms] by (simp add: t_def)
  have new: "heap s (fresh s) = None" using assms by (cases "heap s (fresh s)") (auto simp: fd_inv_def)
  then have u0: "users_of (fresh s) (tab t) = 0" using T users_pos [of "fresh s" "tab t"] by (auto simp: fd_inv_def t_def)
  have cu: "users_of a ((tab t)[i := Some (fresh s)]) = users_of a (tab t) + (if a = fresh s then 1 else 0)" for a
    using count_list_update [OF pl(1), of "Some (fresh s)" "Some a"] pl(2) by (simp add: users_of_def)
  have co: "opened ((tab t)[i := Some (fresh s)]) = opened (tab t) + 1" using opened_update [OF pl(1), of "Some (fresh s)"] pl(2) by simp
  have hs: "heap t = heap s" "nfd t = nfd s" "fresh t = fresh s" by (simp_all add: t_def)
  have "fd_inv s'"
  proof -
    have "nfd s' = int (opened (tab s'))" using T co hs by (simp add: s'_def fd_inv_def)
    moreover have "x < fresh s' \<and> f_users f = int (users_of x (tab s')) \<and> 0 < users_of x (tab s')" if "heap s' x = Some f" for x f
      using that T hs u0 cu [of x] by (auto simp: s'_def fd_inv_def intro: less_SucI split: if_splits)
    moreover have "heap s' x \<noteq> None" if "Some x \<in> set (tab s')" for x
      using that T hs set_update_subset_insert [of "tab t" i "Some (fresh s)"] by (auto simp: s'_def fd_inv_def)
    moreover have "3 \<le> length (tab s')" using T by (simp add: s'_def fd_inv_def)
    ultimately show ?thesis by (auto simp: fd_inv_def)
  qed
  moreover have "fds s' = (fds s)(int i := Some (fresh s))"
    using fds_update [OF _ pl(1), of s'] need_fds [of "nat (nfd s + 1)" s, folded t_def] by (simp add: s'_def)
  ultimately show ?thesis using a pl new by (intro exI [where x = i] exI [where x = s']) (simp add: s'_def t_def)
qed

section \<open>One user more, one less\<close>

lemma add_user:
  assumes "fd_inv s" "i < length (tab s)" "tab s ! i = None" "heap s a = Some f"
  shows "fd_inv ((fd_set a (\<lambda>f. f\<lparr>f_users := f_users f + 1\<rparr>) s)\<lparr>tab := (tab s)[i := Some a], nfd := nfd s + 1\<rparr>)"
proof -
  have cu: "users_of x ((tab s)[i := Some a]) = users_of x (tab s) + (if x = a then 1 else 0)" for x
    using count_list_update [OF assms(2), of "Some a" "Some x"] assms(3) by (auto simp: users_of_def)
  have co: "opened ((tab s)[i := Some a]) = opened (tab s) + 1" using opened_update [OF assms(2), of "Some a"] assms(3) by simp
  have st: "Some x \<in> set ((tab s)[i := Some a]) \<Longrightarrow> x = a \<or> Some x \<in> set (tab s)" for x
    using set_update_subset_insert [of "tab s" i "Some a"] by auto
  show ?thesis using assms(1,4) cu co by (auto simp: fd_inv_def fd_set_def dest!: st)
qed

text \<open>The entry is taken out; \<open>h\<close> is what is left of the structure.\<close>

lemma drop_user:
  assumes "fd_inv s" "i < length (tab s)" "tab s ! i = Some a" "heap s a = Some f"
    and "h = (if f_users f = 1 then None else Some (f\<lparr>f_users := f_users f - 1\<rparr>))"
  shows "fd_inv (s\<lparr>tab := (tab s)[i := None], nfd := nfd s - 1, heap := (heap s)(a := h)\<rparr>)"
    "f_users f \<noteq> 1 \<Longrightarrow> Some a \<in> set ((tab s)[i := None])" "0 < f_users f" "0 < nfd s"
proof -
  have u: "f_users f = int (users_of a (tab s))" "0 < users_of a (tab s)" using assms(1,4) by (auto simp: fd_inv_def)
  have cu: "users_of x ((tab s)[i := None]) + (if x = a then 1 else 0) = users_of x (tab s)" for x
    using count_list_update [OF assms(2), of None "Some x"] assms(3) by (auto simp: users_of_def split: if_splits)
  have co: "opened ((tab s)[i := None]) + 1 = opened (tab s)" using opened_update [OF assms(2), of None] assms(3) by simp
  have st: "Some x \<in> set ((tab s)[i := None]) \<Longrightarrow> Some x \<in> set (tab s)" for x
    using set_update_subset_insert [of "tab s" i None] by auto
  have in2: "Some a \<in> set ((tab s)[i := None])" if "f_users f \<noteq> 1"
    using that u cu [of a] by (simp add: users_pos)
  show "f_users f \<noteq> 1 \<Longrightarrow> Some a \<in> set ((tab s)[i := None])" by (rule in2)
  show "0 < f_users f" using u by simp
  show "0 < nfd s" using assms(1) co by (simp add: fd_inv_def)
  define s' where "s' = s\<lparr>tab := (tab s)[i := None], nfd := nfd s - 1, heap := (heap s)(a := h)\<rparr>"
  have "nfd s' = int (opened (tab s'))" using assms(1) co by (simp add: s'_def fd_inv_def)
  moreover have "x < fresh s' \<and> f_users g = int (users_of x (tab s')) \<and> 0 < users_of x (tab s')" if "heap s' x = Some g" for x g
  proof (cases "x = a")
    case True
    then have "f_users f \<noteq> 1" "g = f\<lparr>f_users := f_users f - 1\<rparr>" using that assms(5) by (auto simp: s'_def split: if_splits)
    then show ?thesis using True u cu [of a] assms(1,4) by (auto simp: s'_def fd_inv_def)
  next
    case False
    then show ?thesis using that cu [of x] assms(1) by (auto simp: s'_def fd_inv_def)
  qed
  moreover have "heap s' x \<noteq> None" if "Some x \<in> set (tab s')" for x
  proof (cases "x = a")
    case True
    have "f_users f \<noteq> 1"
    proof
      assume "f_users f = 1"
      then have "users_of a ((tab s)[i := None]) = 0" using u(1) cu [of a] by simp
      then show False using that True by (simp add: s'_def users_pos)
    qed
    then show ?thesis using True assms(5) by (simp add: s'_def)
  next
    case False
    then show ?thesis using that assms(1) st by (auto simp: s'_def fd_inv_def)
  qed
  moreover have "3 \<le> length (tab s')" using assms(1) by (simp add: s'_def fd_inv_def)
  ultimately have "fd_inv s'" by (auto simp: fd_inv_def)
  then show "fd_inv (s\<lparr>tab := (tab s)[i := None], nfd := nfd s - 1, heap := (heap s)(a := h)\<rparr>)" by (simp add: s'_def)
qed

lemma fdtalloc_dup:
  assumes "fd_inv s" "heap s a \<noteq> None"
  shows "\<exists>i s'. fdtalloc (Some a) s = ret (int i, s') \<and> lowest_free s (int i) \<and> fd_inv s' \<and> fds s' = (fds s)(int i := Some a)
    \<and> (\<forall>b. heap s' b = None \<longleftrightarrow> heap s b = None) \<and> w_os s' = w_os s"
proof -
  obtain f where f: "heap s a = Some f" using assms(2) by auto
  define t where "t = need (nat (nfd s + 1)) s"
  define i where "i = first_free (tab t) (nat (nfd t))"
  note pl = alloc_place [OF assms(1), folded t_def i_def]
  have T: "fd_inv t" "heap t a = Some f" "heap t = heap s" using need_inv [OF assms(1)] f by (simp_all add: t_def)
  define s' where "s' = (fd_set a (\<lambda>f. f\<lparr>f_users := f_users f + 1\<rparr>) t)\<lparr>tab := (tab t)[i := Some a], nfd := nfd t + 1\<rparr>"
  have "fdtalloc (Some a) s = ret (int i, s')"
    unfolding fdtalloc_def t_def [symmetric] Let_def i_def [symmetric] using T(2) by (simp add: s'_def)
  moreover have "fd_inv s'" unfolding s'_def by (rule add_user [OF T(1) pl(1,2) T(2)])
  moreover have "fds s' = (fds s)(int i := Some a)"
    using fds_update [OF _ pl(1), of s'] need_fds [of "nat (nfd s + 1)" s, folded t_def] by (simp add: s'_def)
  moreover have "heap s' b = None \<longleftrightarrow> heap s b = None" "w_os s' = w_os s" for b by (auto simp: s'_def fd_set_def T(3)) (simp add: t_def)
  ultimately show ?thesis using pl(3) by blast
qed

lemma fd_inv_os [simp]: "fd_inv (s\<lparr>w_os := x\<rparr>) = fd_inv s" "fd_inv (s\<lparr>con := c\<rparr>) = fd_inv s" "fd_inv (s\<lparr>npipes := n\<rparr>) = fd_inv s"
  by (simp_all add: fd_inv_def)

lemma fds_os [simp]: "fds (s\<lparr>w_os := x\<rparr>) = fds s" "fds (s\<lparr>con := c\<rparr>) = fds s" "fds (s\<lparr>npipes := n\<rparr>) = fds s" "fds (s\<lparr>heap := h\<rparr>) = fds s"
  by (simp_all add: fds_def fun_eq_iff)

lemma fds_Some: "fds s fd = Some a \<longleftrightarrow> 0 \<le> fd \<and> nat fd < length (tab s) \<and> tab s ! nat fd = Some a"
  by (auto simp: fds_def)

section \<open>fdtclose\<close>

lemma fdtclose_none: "fd_inv s \<Longrightarrow> fds s fd = None \<Longrightarrow> fdtclose lib fd b s = ret (-1, s)"
  by (auto simp: fdtclose_def fdtget_def fds_def)

lemma fdtclose_spec:
  assumes "fd_inv s" "fds s fd = Some a"
  shows "\<exists>s'. fdtclose lib fd b s = ret (0, s') \<and> fd_inv s' \<and> fds s' = (fds s)(fd := None) \<and> length (tab s') = length (tab s)
    \<and> (heap s' a = None \<longleftrightarrow> (\<forall>d. fds s' d \<noteq> Some a)) \<and> (\<forall>x. x \<noteq> a \<longrightarrow> (heap s' x = None) = (heap s x = None))"
proof -
  obtain s1 where s1: "fdtget lib fd s = ret (Some a, s1)" "fd_inv s1" "tab s1 = tab s" "heap s1 a \<noteq> None"
    "\<And>x. map_option f_users (heap s1 x) = map_option f_users (heap s x)"
    using fdtget_spec [OF assms(1), of lib fd] assms(2) by auto
  obtain f where f: "heap s1 a = Some f" using s1(4) by auto
  have i: "0 \<le> fd" "nat fd < length (tab s1)" "tab s1 ! nat fd = Some a" using assms(2) s1(3) by (auto simp: fds_Some)
  define h where "h = (if f_users f = 1 then None else Some (f\<lparr>f_users := f_users f - 1\<rparr>))"
  define s2 where "s2 = s1\<lparr>tab := (tab s1)[nat fd := None], nfd := nfd s1 - 1, heap := (heap s1)(a := h)\<rparr>"
  note d = drop_user [OF s1(2) i(2,3) f h_def, folded s2_def]
  have same: "(heap s1 x = None) = (heap s x = None)" for x using s1(5) [of x] by (cases "heap s x"; cases "heap s1 x") auto
  have fd2: "fds s2 = (fds s)(fd := None)"
    using fds_update [of s2 s1 "nat fd" None] i s1(3) by (simp add: s2_def) (simp add: fds_def fun_eq_iff)
  have ex: "Some a \<in> set (tab s2) \<longleftrightarrow> (\<exists>d. fds s2 d = Some a)"
    by (auto simp: fds_Some in_set_conv_nth) (metis nat_int of_nat_0_le_iff)
  then have E: "(\<forall>d. d \<noteq> fd \<longrightarrow> fds s d \<noteq> Some a) = (Some a \<notin> set (tab s2))" by (auto simp: fd2 split: if_splits)
  have L: "length (tab s2) = length (tab s)" "\<forall>x. x \<noteq> a \<longrightarrow> (heap s2 x = None) = (heap s x = None)" using same by (simp_all add: s2_def s1(3))
  show ?thesis
  proof (cases "f_users f = 1")
    case True
    define g where "g = f\<lparr>f_users := f_users f - 1, f_type := Fdtypenone\<rparr>"
    define s3 where "s3 = s2\<lparr>w_os := release_os lib g (f_type f) b (w_os s1)\<rparr>"
    have "fdtclose lib fd b s = ret (0, s3)"
      using s1(1) f True by (simp add: fdtclose_def Let_def releasef_def fd_set_def s3_def s2_def h_def g_def)
    moreover have "heap s2 a = None" by (simp add: s2_def h_def True)
    then have "Some a \<notin> set (tab s2)" using d(1) by (auto simp: fd_inv_def)
    moreover have "fds s3 = fds s2" "heap s3 = heap s2" "tab s3 = tab s2" "fd_inv s3" using d(1) by (simp_all add: s3_def)
    ultimately show ?thesis using \<open>heap s2 a = None\<close> fd2 E L by (intro exI [where x = s3]) simp
  next
    case False
    have "fdtclose lib fd b s = ret (0, s2)"
      using s1(1) f False d(2) [OF False] by (simp add: fdtclose_def Let_def s2_def h_def)
    moreover have "heap s2 a \<noteq> None" "Some a \<in> set (tab s2)" using False d(2) by (simp_all add: s2_def h_def)
    moreover have H: "(heap s2 a = None) = (\<forall>d. d \<noteq> fd \<longrightarrow> fds s d \<noteq> Some a)" using \<open>heap s2 a \<noteq> None\<close> \<open>Some a \<in> set (tab s2)\<close> E by blast
    ultimately show ?thesis using d(1) fd2 L by (intro exI [where x = s2]) (simp add: H)
  qed
qed

section \<open>fdtdup\<close>

lemma two_users:
  assumes "i < length t" "j < length t" "i \<noteq> j" "t ! i = Some a" "t ! j = Some a"
  shows "2 \<le> users_of a t"
proof -
  have "users_of a (t[i := None]) + 1 = users_of a t"
    using count_list_update [OF assms(1), of None "Some a"] assms(4) by (simp add: users_of_def)
  moreover have "Some a \<in> set (t[i := None])" using assms(2,3,5) by (metis length_list_update nth_list_update_neq nth_mem)
  ultimately show ?thesis by (simp add: users_pos)
qed

lemma dup_drop_spec:
  assumes "fd_inv s" "n < length (tab s)" "m < length (tab s)" "m \<noteq> n" "tab s ! m = Some a" "heap s a = Some f"
  shows "\<exists>s'. rbind (dup_drop n s) (\<lambda>(rf, s).
             let s = (fd_set a (\<lambda>f. f\<lparr>f_users := f_users f + 1\<rparr>) s)\<lparr>tab := (tab s)[n := Some a], nfd := nfd s + 1\<rparr>
             in case rf of
                  None \<Rightarrow> ret (int n, s)
                | Some (b, t) \<Rightarrow> rbind (releasef lib b t True s) (\<lambda>(_, s). ret (int n, s))) = ret (int n, s')
    \<and> fd_inv s' \<and> tab s' = (tab s)[n := Some a]"
proof (cases "tab s ! n")
  case None
  then show ?thesis using add_user [OF assms(1,2) None assms(6)] by (simp add: dup_drop_def Let_def)
next
  case (Some b)
  obtain g where g: "heap s b = Some g" using assms(1,2) Some by (metis fd_inv_def not_None_eq nth_mem)
  define h where "h = (if f_users g = 1 then None else Some (g\<lparr>f_users := f_users g - 1\<rparr>))"
  define sD where "sD = s\<lparr>tab := (tab s)[n := None], nfd := nfd s - 1, heap := (heap s)(b := h)\<rparr>"
  note d = drop_user [OF assms(1,2) Some g h_def, folded sD_def]
  have one: "a \<noteq> b" if "f_users g = 1"
  proof
    assume "a = b"
    then have "2 \<le> users_of b (tab s)" using two_users [OF assms(2,3) _ Some] assms(4,5) by auto
    then show False using that assms(1) g by (auto simp: fd_inv_def)
  qed
  obtain f' where f': "heap sD a = Some f'" using assms(6) g one by (cases "a = b"; cases "f_users g = 1") (auto simp: sD_def h_def)
  define sA where "sA = (fd_set a (\<lambda>f. f\<lparr>f_users := f_users f + 1\<rparr>) sD)\<lparr>tab := (tab sD)[n := Some a], nfd := nfd sD + 1\<rparr>"
  have "n < length (tab sD)" "tab sD ! n = None" using assms(2) by (simp_all add: sD_def)
  from add_user [OF d(1) this f'] have A: "fd_inv sA" by (simp add: sA_def)
  have T: "tab sA = (tab s)[n := Some a]" by (simp add: sA_def sD_def)
  show ?thesis
  proof (cases "f_users g = 1")
    case True
    define g' where "g' = g\<lparr>f_users := 0, f_type := Fdtypenone\<rparr>"
    define sR where "sR = sA\<lparr>w_os := release_os lib g' (f_type g) True (w_os s)\<rparr>"
    have "a \<noteq> b" by (rule one [OF True])
    then have "rbind (dup_drop n s) (\<lambda>(rf, s).
             let s = (fd_set a (\<lambda>f. f\<lparr>f_users := f_users f + 1\<rparr>) s)\<lparr>tab := (tab s)[n := Some a], nfd := nfd s + 1\<rparr>
             in case rf of
                  None \<Rightarrow> ret (int n, s)
                | Some (b, t) \<Rightarrow> rbind (releasef lib b t True s) (\<lambda>(_, s). ret (int n, s))) = ret (int n, sR)"
      using Some g True
      by (simp add: dup_drop_def Let_def fd_set_def releasef_def sR_def sA_def sD_def h_def g'_def fun_upd_twist)
    then show ?thesis using A T by (auto simp: sR_def)
  next
    case False
    have "rbind (dup_drop n s) (\<lambda>(rf, s).
             let s = (fd_set a (\<lambda>f. f\<lparr>f_users := f_users f + 1\<rparr>) s)\<lparr>tab := (tab s)[n := Some a], nfd := nfd s + 1\<rparr>
             in case rf of
                  None \<Rightarrow> ret (int n, s)
                | Some (b, t) \<Rightarrow> rbind (releasef lib b t True s) (\<lambda>(_, s). ret (int n, s))) = ret (int n, sA)"
      using Some g False by (simp add: dup_drop_def Let_def fd_set_def sA_def sD_def h_def)
    then show ?thesis using A T by auto
  qed
qed

lemma fdtdup_spec:
  fixes s :: "'os win"
  assumes "fd_inv s" "fds s old = Some a" "0 \<le> new" "new \<noteq> old"
  shows "\<exists>s'. fdtdup lib old new s = ret (new, s') \<and> fd_inv s' \<and> fds s' = (fds s)(new := Some a)"
proof -
  obtain s1 where s1: "fdtget lib old s = ret (Some a, s1)" "fd_inv s1" "tab s1 = tab s" "heap s1 a \<noteq> None"
    using fdtget_spec [OF assms(1), of lib old] assms(2) by auto
  obtain f where f: "heap s1 a = Some f" using s1(4) by auto
  have fds1: "fds s1 = fds s" by (simp add: fds_def s1(3) fun_eq_iff)
  have o: "0 \<le> old" "nat old < length (tab s1)" "tab s1 ! nat old = Some a" using assms(2) s1(3) by (auto simp: fds_Some)
  define step where "step = (\<lambda>(rf, s :: 'os win). let s = (fd_set a (\<lambda>f. f\<lparr>f_users := f_users f + 1\<rparr>) s)\<lparr>tab := (tab s)[nat new := Some a], nfd := nfd s + 1\<rparr>
             in case rf of
                  None \<Rightarrow> ret (new, s)
                | Some (b, t) \<Rightarrow> rbind (releasef lib b t True s) (\<lambda>(_, s). ret (new, s)))"
  have e: "fdtdup lib old new s = rbind (if int (length (tab s1)) \<le> new then ret (None, need (nat new + 1) s1) else dup_drop (nat new) s1) step"
    using s1(1) assms(3) unfolding fdtdup_def step_def by simp
  have n: "int (nat new) = new" using assms(3) by simp
  show ?thesis
  proof (cases "int (length (tab s1)) \<le> new")
    case True
    define t where "t = need (nat new + 1) s1"
    have l: "nat new < length (tab t)" using need_length [of "nat new + 1" s1] by (simp add: t_def)
    have "tab t ! nat new = None" using need_new [of s1 "nat new"] True l by (simp add: t_def)
    moreover have T: "fd_inv t" "heap t a = Some f" using need_inv [OF s1(2)] f by (simp_all add: t_def)
    ultimately have A: "fd_inv ((fd_set a (\<lambda>f. f\<lparr>f_users := f_users f + 1\<rparr>) t)\<lparr>tab := (tab t)[nat new := Some a], nfd := nfd t + 1\<rparr>)"
      using add_user l by blast
    have "fds t = fds s" using fds1 by (simp add: t_def)
    then have "fds ((fd_set a (\<lambda>f. f\<lparr>f_users := f_users f + 1\<rparr>) t)\<lparr>tab := (tab t)[nat new := Some a], nfd := nfd t + 1\<rparr>) = (fds s)(new := Some a)"
      using fds_update [OF _ l, of "(fd_set a (\<lambda>f. f\<lparr>f_users := f_users f + 1\<rparr>) t)\<lparr>tab := (tab t)[nat new := Some a], nfd := nfd t + 1\<rparr>" "Some a"] n
      by simp
    moreover have "fdtdup lib old new s = step (None, t)" using e True by (simp add: t_def)
    ultimately show ?thesis using A by (simp add: step_def Let_def)
  next
    case False
    then have l: "nat new < length (tab s1)" "nat old \<noteq> nat new" using assms(3,4) o by auto
    obtain s' where s': "rbind (dup_drop (nat new) s1) step = ret (new, s')" "fd_inv s'" "tab s' = (tab s1)[nat new := Some a]"
      using dup_drop_spec [OF s1(2) l(1) o(2) l(2) o(3) f, of lib] unfolding step_def n by blast
    moreover have "fds s' = (fds s)(new := Some a)" using fds_update [OF s'(3) l(1)] n fds1 by simp
    ultimately show ?thesis using e False by auto
  qed
qed

lemma fdtdup_free:
  assumes "fd_inv s" "fds s old = Some a"
  shows "\<exists>i s'. fdtdup lib old (-1) s = ret (i, s') \<and> lowest_free s i \<and> fd_inv s' \<and> fds s' = (fds s)(i := Some a)"
proof -
  obtain s1 where s1: "fdtget lib old s = ret (Some a, s1)" "fd_inv s1" "tab s1 = tab s" "heap s1 a \<noteq> None"
    using fdtget_spec [OF assms(1), of lib old] assms(2) by auto
  have "fds s1 = fds s" by (simp add: fds_def s1(3) fun_eq_iff)
  then show ?thesis using fdtalloc_dup [OF s1(2,4)] s1(1) by (auto simp: fdtdup_def lowest_free_def)
qed

lemma fdtdup_none: "fd_inv s \<Longrightarrow> fds s old = None \<Longrightarrow> fdtdup lib old new s = ret (-1, s)"
  by (auto simp: fdtdup_def fdtget_def fds_def)

text \<open>A new descriptor below -1 indexes the table before its start.\<close>

lemma fdtdup_negative: "fd_inv s \<Longrightarrow> fds s old = Some a \<Longrightarrow> new < -1 \<Longrightarrow> fdtdup lib old new s = Some (Inl WUndef)"
  using fdtget_spec [of s lib old] by (auto simp: fdtdup_def)

text \<open>A descriptor is made a copy of itself while another stands for the same file: nothing changes.\<close>

lemma fdtdup_self:
  assumes "fd_inv s" "fds s fd = Some a" "fds s d = Some a" "d \<noteq> fd"
  shows "\<exists>s'. fdtdup lib fd fd s = ret (fd, s') \<and> fd_inv s' \<and> fds s' = fds s"
proof -
  obtain s1 where s1: "fdtget lib fd s = ret (Some a, s1)" "fd_inv s1" "tab s1 = tab s" "heap s1 a \<noteq> None"
    using fdtget_spec [OF assms(1), of lib fd] assms(2) by auto
  obtain f where f: "heap s1 a = Some f" using s1(4) by auto
  have i: "0 \<le> fd" "nat fd < length (tab s1)" "tab s1 ! nat fd = Some a" using assms(2) s1(3) by (auto simp: fds_Some)
  have j: "0 \<le> d" "nat d < length (tab s1)" "tab s1 ! nat d = Some a" using assms(3) s1(3) by (auto simp: fds_Some)
  have "nat fd \<noteq> nat d" using i(1) j(1) assms(4) by simp
  from two_users [OF i(2) j(2) this i(3) j(3)] have u: "f_users f \<noteq> 1" using s1(2) f by (auto simp: fd_inv_def)
  have T: "(tab s1)[nat fd := Some a] = tab s1" using i(3) by (metis list_update_id)
  have H: "(heap s1)(a \<mapsto> f) = heap s1" using f by (simp add: fun_upd_idem)
  have "fdtdup lib fd fd s = ret (fd, s1\<lparr>heap := (heap s1)(a \<mapsto> f)\<rparr>)"
    using s1(1) i f u by (simp add: fdtdup_def Let_def dup_drop_def fd_set_def T)
  then show ?thesis using s1(2,3) by (simp add: H fds_def fun_eq_iff)
qed

text \<open>A descriptor is made a copy of itself: the file that it stands for is closed, and freed while the table still refers to
  it. Afterwards the descriptor cannot be used any more.\<close>

lemma dup_self_frees:
  assumes "fd_inv s" "fds s fd = Some a" "\<forall>d. fds s d = Some a \<longrightarrow> d = fd"
  shows "\<exists>s'. fdtdup lib fd fd s = ret (fd, s') \<and> tab s' = tab s \<and> heap s' a = None
    \<and> (\<forall>lib'. fdtget lib' fd s' = Some (Inl WUndef))"
proof -
  obtain s1 where s1: "fdtget lib fd s = ret (Some a, s1)" "fd_inv s1" "tab s1 = tab s" "heap s1 a \<noteq> None"
    using fdtget_spec [OF assms(1), of lib fd] assms(2) by auto
  obtain f where f: "heap s1 a = Some f" using s1(4) by auto
  have i: "0 \<le> fd" "nat fd < length (tab s1)" "tab s1 ! nat fd = Some a" using assms(2) s1(3) by (auto simp: fds_Some)
  have "Some a \<notin> set ((tab s1)[nat fd := None])"
  proof
    assume "Some a \<in> set ((tab s1)[nat fd := None])"
    then obtain j where j: "j < length (tab s1)" "(tab s1)[nat fd := None] ! j = Some a" by (auto simp: in_set_conv_nth)
    then have "j \<noteq> nat fd" using i(2) by auto
    moreover have "fds s (int j) = Some a" using j \<open>j \<noteq> nat fd\<close> s1(3) by (simp add: fds_Some)
    ultimately show False using assms(3) i(1) by auto
  qed
  then have u: "f_users f = 1"
    using drop_user(2) [OF s1(2) i(2,3) f refl] by blast
  have T: "(tab s1)[nat fd := Some a] = tab s1" using i(3) by (metis list_update_id)
  define s2 where "s2 = s1\<lparr>w_os := release_os lib (f\<lparr>f_type := Fdtypenone, f_users := 1\<rparr>) (f_type f) True (w_os s1), heap := (heap s1)(a := None)\<rparr>"
  have "fdtdup lib fd fd s = ret (fd, s2)"
    using s1(1) i f u by (simp add: fdtdup_def Let_def dup_drop_def fd_set_def releasef_def s2_def T)
  moreover have "fdtget lib' fd s2 = Some (Inl WUndef)" for lib' using i by (simp add: fdtget_def s2_def nat_less_iff)
  ultimately show ?thesis using s1(3) by (intro exI [where x = s2]) (simp add: s2_def)
qed

end
