(* ===== verification/WinFdCalls.thy ===== *)
theory WinFdCalls
  imports WinFdInv
begin

text \<open>
  The system calls of the Windows port keep the table of descriptors in order: what each does to the map from descriptors
  to open files, the states that a program reaches, and its end.
\<close>

section \<open>Calls that leave the map as it is\<close>

definition same_fds :: "'os win \<Rightarrow> 'os win \<Rightarrow> bool" where
  "same_fds s s' \<longleftrightarrow> fd_inv s' \<and> fds s' = fds s"

lemma same_fds_trans: "same_fds s s' \<Longrightarrow> same_fds s' s'' \<Longrightarrow> same_fds s s''"
  by (simp add: same_fds_def)

lemma fdtget_same: "fdtget lib fd s = ret (r, s') \<Longrightarrow> fd_inv s \<Longrightarrow> same_fds s s' \<and> r = fds s fd"
  using fdtget_spec [of s lib fd] by (auto simp: same_fds_def fds_def fun_eq_iff)

lemma fd_set_inv: "(\<And>f. f_users (g f) = f_users f) \<Longrightarrow> fd_inv s \<Longrightarrow> fd_inv (fd_set a g s)"
  by (auto simp: fd_inv_def fd_set_def)

lemma fd_set_fds [simp]: "fds (fd_set a g s) = fds s"
  by (simp add: fd_set_def)

lemma fd_set_fields [simp]: "tab (fd_set a g s) = tab s" "nfd (fd_set a g s) = nfd s" "fresh (fd_set a g s) = fresh s" "w_os (fd_set a g s) = w_os s"
  by (simp_all add: fd_set_def)

lemma on_os_same: "fd_inv s \<Longrightarrow> same_fds s (on_os g s)"
  by (simp add: same_fds_def on_os_def)

lemma p9read_same:
  assumes "p9read lib k fd n s = ret (r, s')" "fd_inv s"
  shows "same_fds s s'"
proof -
  obtain x s1 where g: "fdtget lib fd s = ret (x, s1)" using assms(1) by (auto simp: p9read_def rbind_eq_ret)
  have "same_fds s s1" using fdtget_same [OF g assms(2)] by simp
  moreover have "s' = s1 \<or> (\<exists>os. s' = s1\<lparr>w_os := os\<rparr>) \<or> (\<exists>c os. s' = s1\<lparr>con := c, w_os := os\<rparr>)"
  proof (cases x)
    case (Some a)
    then show ?thesis using assms(1) unfolding p9read_def g rbind_simps
      by (cases "f_type (the (heap s1 a))") (auto simp: Let_def is_pipe_def split: option.splits prod.splits)
  qed (use assms(1) g in \<open>simp add: p9read_def\<close>)
  ultimately show ?thesis by (auto simp: same_fds_def)
qed

lemma p9write_same:
  assumes "p9write lib fd bs s = ret (r, s')" "fd_inv s"
  shows "same_fds s s'"
proof -
  obtain x s1 where g: "fdtget lib fd s = ret (x, s1)" using assms(1) by (auto simp: p9write_def rbind_eq_ret)
  have "same_fds s s1" using fdtget_same [OF g assms(2)] by simp
  moreover have "s' = s1 \<or> (\<exists>os. s' = s1\<lparr>w_os := os\<rparr>) \<or> (\<exists>c os. s' = s1\<lparr>con := c, w_os := os\<rparr>)"
  proof (cases x)
    case (Some a)
    then show ?thesis using assms(1) unfolding p9write_def g rbind_simps
      by (cases "f_type (the (heap s1 a))") (auto simp: Let_def is_pipe_def split: option.splits prod.splits)
  qed (use assms(1) g in \<open>simp add: p9write_def\<close>)
  ultimately show ?thesis by (auto simp: same_fds_def)
qed

lemma p9seek_same:
  assumes "p9seek lib fd off wh s = ret (r, s')" "fd_inv s"
  shows "same_fds s s'"
proof -
  obtain x s1 where g: "fdtget lib fd s = ret (x, s1)" using assms(1) by (auto simp: p9seek_def rbind_eq_ret)
  have "same_fds s s1" using fdtget_same [OF g assms(2)] by simp
  moreover have "s' = s1 \<or> (\<exists>os. s' = s1\<lparr>w_os := os\<rparr>)"
    using assms(1) unfolding p9seek_def g rbind_simps by (auto simp: Let_def split: option.splits if_splits prod.splits)
  ultimately show ?thesis by (auto simp: same_fds_def)
qed

lemma p9chdir_same: "p9chdir lib d s = ret (r, s') \<Longrightarrow> fd_inv s \<Longrightarrow> same_fds s s'"
  by (auto simp: p9chdir_def same_fds_def split: option.splits prod.splits)

lemma p9fchdir_same: "p9fchdir lib fd s = ret (r, s') \<Longrightarrow> fd_inv s \<Longrightarrow> same_fds s s'"
  by (auto simp: p9fchdir_def rbind_eq_ret Let_def same_fds_def dest!: fdtget_same p9chdir_same [unfolded same_fds_def]
      split: option.splits if_splits)

lemma pipename_same: "fd_inv s \<Longrightarrow> same_fds s (snd (wincreatepipename lib s))"
  by (simp add: wincreatepipename_def same_fds_def Let_def)

lemma namedpipe_same: "fd_inv s \<Longrightarrow> same_fds s (snd (wincreatenamedpipe lib nm mode n s))"
  by (simp add: wincreatenamedpipe_def Let_def same_fds_def split: prod.splits)

lemma connect_same: "fd_inv s \<Longrightarrow> same_fds s (snd (winconnectpipe lib h b s))"
  by (simp add: winconnectpipe_def same_fds_def Let_def split: prod.splits)

lemma fdtonclose_same: "fdtonclose lib fd h s = ret (r, s') \<Longrightarrow> fd_inv s \<Longrightarrow> same_fds s s'"
  by (auto simp: fdtonclose_def rbind_eq_ret same_fds_def fd_set_inv dest!: fdtget_same split: option.splits)

lemma winexportfd_same:
  assumes "winexportfd lib fd mode s = ret (r, s')" "fd_inv s"
  shows "same_fds s s'"
proof -
  obtain nm s1 where 1: "wincreatepipename lib s = (nm, s1)" by fastforce
  obtain h s2 where 2: "wincreatenamedpipe lib nm (if mode = OREAD then OWRITE else OREAD) 1 s1 = (h, s2)" by fastforce
  have a: "same_fds s s1" using pipename_same [OF assms(2), of lib] 1 by simp
  then have "fd_inv s1" by (simp add: same_fds_def)
  then have b: "same_fds s1 s2" using namedpipe_same [of s1 lib nm "if mode = OREAD then OWRITE else OREAD" 1] 2 by simp
  then have "fd_inv s2" by (simp add: same_fds_def)
  then have "same_fds s2 s'"
    using assms(1) 1 2 by (auto simp: winexportfd_def rbind_eq_ret same_fds_def on_os_def dest!: fdtonclose_same split: if_splits)
  then show ?thesis using a b same_fds_trans by blast
qed

section \<open>Opening\<close>

text \<open>The call has made \<open>fd\<close>, the lowest descriptor that was free, or has failed.\<close>

definition opens :: "'os win \<Rightarrow> int \<Rightarrow> 'os win \<Rightarrow> bool" where
  "opens s fd s' \<longleftrightarrow> fd_inv s'
     \<and> (if fd = -1 then fds s' = fds s else lowest_free s fd \<and> fds s' fd \<noteq> None \<and> fds s' = (fds s)(fd := fds s' fd))"

lemma opens_fail: "same_fds s s' \<Longrightarrow> opens s (-1) s'"
  by (simp add: opens_def same_fds_def)

lemma opens_same: "opens s fd s' \<Longrightarrow> same_fds s' s'' \<Longrightarrow> opens s fd s''"
  by (simp add: opens_def same_fds_def)

lemma opens_after: "same_fds s s' \<Longrightarrow> opens s' fd s'' \<Longrightarrow> opens s fd s''"
proof -
  assume s: "same_fds s s'" and o: "opens s' fd s''"
  have "lowest_free s' fd = lowest_free s fd" using s by (simp add: lowest_free_def same_fds_def)
  then show ?thesis using s o by (auto simp: opens_def same_fds_def split: if_splits)
qed

lemma fdtalloc_opens: "fdtalloc None s = ret (fd, s') \<Longrightarrow> fd_inv s \<Longrightarrow> opens s fd s' \<and> fd \<noteq> -1 \<and> fds s fd = None"
  using fdtalloc_new [of s] by (auto simp: opens_def lowest_free_def)

lemma fdtclose_inv: "fdtclose lib fd b s = ret (r, s') \<Longrightarrow> fd_inv s \<Longrightarrow> fd_inv s' \<and> fds s' = (fds s)(fd := None)"
  using fdtclose_spec [of s fd _ lib b] fdtclose_none [of s fd lib b] by (cases "fds s fd") (auto simp: fun_eq_iff)

lemma give_back_opens:
  assumes "give_back lib fd s' = ret (r, s'')" "opens s fd s'" "fd \<noteq> -1" "fds s fd = None"
  shows "opens s r s''"
proof -
  obtain x where x: "fdtclose lib fd True s' = ret (x, s'')" "r = -1" using assms(1) by (auto simp: give_back_def rbind_eq_ret)
  have "fd_inv s'" using assms(2) by (simp add: opens_def)
  from fdtclose_inv [OF x(1) this] have "fd_inv s''" "fds s'' = (fds s')(fd := None)" by auto
  moreover have "(fds s')(fd := None) = fds s" using assms(2-4) unfolding opens_def by (metis fun_upd_idem fun_upd_upd)
  ultimately show ?thesis by (simp add: opens_def x(2))
qed

lemma fd_set_opens: "(\<And>f. f_users (g f) = f_users f) \<Longrightarrow> opens s fd s' \<Longrightarrow> opens s fd (fd_set a g s')"
  by (auto simp: opens_def fd_set_inv)

lemma os_opens: "opens s fd s' \<Longrightarrow> opens s fd (s'\<lparr>w_os := x\<rparr>)"
  by (simp add: opens_def)

lemma open_file_opens:
  assumes "open_file lib da dis flags nm s = ret (r, s')" "fd_inv s"
  shows "opens s r s'"
proof -
  obtain fd s1 where s1: "fdtalloc None s = ret (fd, s1)" using assms(1) by (auto simp: open_file_def rbind_eq_ret)
  note o = fdtalloc_opens [OF s1 assms(2)]
  define p where "p = fst (winpathdup (w_tmp lib (w_os s1)) nm)"
  define s2 where "s2 = fd_set (fd_at fd s1) (\<lambda>f. f\<lparr>f_name := Some p\<rparr>) s1"
  have o2: "opens s fd s2" using o by (auto simp: s2_def intro: fd_set_opens)
  show ?thesis
    using assms(1) s1 o o2
    by (auto simp: open_file_def rbind_eq_ret Let_def p_def [symmetric] s2_def [symmetric] fd_set_opens os_opens
        split: if_splits prod.splits elim!: give_back_opens)
qed

lemma dup_opens: "p9dup lib old (-1) s = ret (r, s') \<Longrightarrow> fd_inv s \<Longrightarrow> opens s r s'"
proof (cases "fds s old")
  case None
  then show "p9dup lib old (-1) s = ret (r, s') \<Longrightarrow> fd_inv s \<Longrightarrow> opens s r s'"
    using fdtdup_none [of s old lib "-1"] by (simp add: p9dup_def opens_def)
next
  case (Some a)
  then show "p9dup lib old (-1) s = ret (r, s') \<Longrightarrow> fd_inv s \<Longrightarrow> opens s r s'"
    using fdtdup_free [of s old a lib] by (auto simp: p9dup_def opens_def lowest_free_def)
qed

lemma p9open_opens: "p9open lib nm mode s = ret (r, s') \<Longrightarrow> fd_inv s \<Longrightarrow> opens s r s'"
  unfolding p9open_def Let_def
  by (auto simp del: fdtdup_none simp: opens_fail same_fds_def intro: open_file_opens dup_opens split: if_splits option.splits)

lemma create_file_opens:
  assumes "create_file lib mode da tr fd p s' = ret (r, s'')" "opens s fd s'" "fd \<noteq> -1" "fds s fd = None"
  shows "opens s r s''"
  using assms unfolding create_file_def Let_def
  by (auto simp: fd_set_opens os_opens split: if_splits prod.splits elim!: give_back_opens)

lemma p9create_opens:
  assumes "p9create lib nm mode perm s = ret (r, s')" "fd_inv s"
  shows "opens s r s'"
proof (cases "winadjustcons nm (mode AND 3) (access_of (mode AND 3))")
  case None
  then show ?thesis using assms by (auto simp: p9create_def opens_def)
next
  case (Some x)
  obtain nm' da where x: "x = (nm', da)" by fastforce
  obtain fd s1 where s1: "fdtalloc None s = ret (fd, s1)" using assms(1) Some x by (auto simp: p9create_def rbind_eq_ret Let_def)
  note o = fdtalloc_opens [OF s1 assms(2)]
  define p where "p = fst (winpathdup (w_tmp lib (w_os s)) nm')"
  define s2 where "s2 = fd_set (fd_at fd s1) (\<lambda>f. f\<lparr>f_name := Some p\<rparr>) s1"
  have o2: "opens s fd s2" using o by (auto simp: s2_def intro: fd_set_opens)
  show ?thesis
    using assms(1) Some x s1 o o2
    by (auto simp: p9create_def Let_def p_def [symmetric] s2_def [symmetric] fd_set_opens os_opens
        split: if_splits prod.splits elim!: give_back_opens create_file_opens)
qed

lemma pipe_alloc_opens: "pipe_alloc h nm t s = ret (fd, s') \<Longrightarrow> fd_inv s \<Longrightarrow> opens s fd s'"
  by (auto simp: pipe_alloc_def rbind_eq_ret intro!: fd_set_opens dest!: fdtalloc_opens)

lemma recvfd_opens:
  assumes "recvfd lib k sfd s = ret (r, s')" "fd_inv s"
  shows "opens s r s'"
proof -
  obtain n bs s1 where s1: "p9read lib k sfd 8 s = ret ((n, bs), s1)" using assms(1) by (auto simp: recvfd_def rbind_eq_ret)
  have a: "same_fds s s1" by (rule p9read_same [OF s1 assms(2)])
  then have i: "fd_inv s1" by (simp add: same_fds_def)
  obtain h os where t: "w_take lib bs (w_os s1) = (h, os)" by fastforce
  show ?thesis
  proof (cases "n = 8 \<and> h \<noteq> None")
    case True
    then obtain x where "h = Some x" by auto
    then have "pipe_alloc x ''recvfd'' Fdtypepipecl (s1\<lparr>w_os := os\<rparr>) = ret (r, s')" using True assms(1) s1 t by (simp add: recvfd_def)
    then have "opens (s1\<lparr>w_os := os\<rparr>) r s'" by (rule pipe_alloc_opens) (simp add: i)
    then show ?thesis using opens_after [of s "s1\<lparr>w_os := os\<rparr>"] a by (simp add: same_fds_def)
  next
    case False
    then show ?thesis using assms(1) s1 t a i by (auto simp: recvfd_def opens_def same_fds_def split: if_splits)
  qed
qed

lemma p9pipe_opens:
  assumes "p9pipe lib s = ret (r, s')" "fd_inv s"
  shows "case r of None \<Rightarrow> same_fds s s' | Some (fda, fdb) \<Rightarrow> \<exists>m. opens s fda m \<and> opens m fdb s'"
proof -
  obtain nm s1 where 1: "wincreatepipename lib s = (nm, s1)" by fastforce
  obtain h1 s2 where 2: "wincreatenamedpipe lib nm ORDWR 1 s1 = (h1, s2)" by fastforce
  obtain h0 os where 3: "wincreatefile lib nm (GENERIC_READ OR GENERIC_WRITE) FILE_SHARE_ALL OPEN_EXISTING
                                (FILE_FLAG_DELETE_ON_CLOSE OR FILE_FLAG_OVERLAPPED) (w_os s2) = (h0, os)" by fastforce
  obtain ok s3 where 4: "winconnectpipe lib h1 True (s2\<lparr>w_os := os\<rparr>) = (ok, s3)" by fastforce
  have i1: "same_fds s s1" using pipename_same [OF assms(2), of lib] 1 by simp
  then have "fd_inv s1" by (simp add: same_fds_def)
  then have i2: "same_fds s s2" using namedpipe_same [of s1 lib nm ORDWR 1] 2 i1 same_fds_trans by force
  then have "fd_inv (s2\<lparr>w_os := os\<rparr>)" by (simp add: same_fds_def)
  then have i3: "same_fds s s3" using connect_same [of "s2\<lparr>w_os := os\<rparr>" lib h1 True] 4 i2 by (simp add: same_fds_def)
  then have j3: "fd_inv s3" by (simp add: same_fds_def)
  note d = assms(1) [unfolded p9pipe_def 1 Let_def prod.case 2 3 4]
  show ?thesis
  proof (cases "h1 = -1 \<or> h0 = -1 \<or> \<not> ok")
    case True
    then show ?thesis using d i2 i3 by (auto simp: same_fds_def on_os_def split: if_splits)
  next
    case False
    then obtain fda m where m: "pipe_alloc h0 nm Fdtypepipecl s3 = ret (fda, m)" using d by (auto simp: rbind_eq_ret)
    obtain fdb where f: "pipe_alloc h1 nm Fdtypepipesrv m = ret (fdb, s')" "r = Some (fda, fdb)"
      using d m False by (auto simp: rbind_eq_ret)
    have o: "opens s3 fda m" by (rule pipe_alloc_opens [OF m j3])
    then have "fd_inv m" by (simp add: opens_def)
    from pipe_alloc_opens [OF f(1) this] show ?thesis using f(2) opens_after [OF i3 o] by auto
  qed
qed

lemma sendfd_inv:
  assumes "sendfd lib sfd fd s = ret (r, s')" "fd_inv s"
  shows "fd_inv s' \<and> fds s' = (if r = 0 then (fds s)(fd := None) else fds s)"
proof -
  obtain x s1 where g: "fdtget lib fd s = ret (x, s1)" using assms(1) by (auto simp: sendfd_def rbind_eq_ret)
  have a: "same_fds s s1" using fdtget_same [OF g assms(2)] by simp
  show ?thesis
  proof (cases "r = 0")
    case False
    then have "s' = s1" using assms(1) g by (auto simp: sendfd_def rbind_eq_ret Let_def split: option.splits if_splits)
    then show ?thesis using a False by (simp add: same_fds_def)
  next
    case True
    then obtain bs y s2 z where w: "p9write lib sfd bs s1 = ret (y, s2)" "fdtclose lib fd False s2 = ret (z, s')"
      using assms(1) g by (auto simp: sendfd_def rbind_eq_ret Let_def split: option.splits if_splits)
    have "same_fds s1 s2" using p9write_same [OF w(1)] a by (simp add: same_fds_def)
    then show ?thesis using fdtclose_inv [OF w(2)] a True by (simp add: same_fds_def)
  qed
qed

end
