(* ===== verification/WinProc.thy ===== *)
theory WinProc
  imports WinIo Strtol "HOL-Library.Multiset"
begin

text \<open>
  Processes of a program on Windows: the table of its children (src/src/lib9/mingw/await.c) and the functions that run at
  its exit (atexit.c). A child is a number and a handle; waiting takes it out of the table.
\<close>

section \<open>The children\<close>

definition Nchild :: nat where "Nchild = 64"

definition winaddchild :: "int \<Rightarrow> int \<Rightarrow> 'os win \<Rightarrow> int \<times> 'os win" where
  "winaddchild pid h s =
     (case find (\<lambda>i. snd (children s ! i) = 0) [0..<length (children s)] of
        None \<Rightarrow> (-1, s)
      | Some i \<Rightarrow> (0, s\<lparr>children := (children s)[i := (pid, h)]\<rparr>))"

text \<open>Times of 100 nanoseconds in two words; the result is cut to 32 bits.\<close>

definition ft2ms :: "u32 \<times> u32 \<Rightarrow> u32" where
  "ft2ms ft = of_nat (unat ((ucast (fst ft) :: u64) + push_bit 32 (ucast (snd ft))) div 10000)"

definition gettimes :: "'os wlib \<Rightarrow> int \<Rightarrow> 'os \<Rightarrow> u32 \<times> u32 \<times> u32" where
  "gettimes lib h os =
     (case w_times lib h os of
        None \<Rightarrow> (0, 0, 0)
      | Some (c, ex, sy, us) \<Rightarrow> (ft2ms us, ft2ms sy, ft2ms ex - ft2ms c))"

text \<open>What is told of a child that has ended: its status and its times.\<close>

definition reap :: "'os wlib \<Rightarrow> int \<Rightarrow> 'os win \<Rightarrow> (u32 \<times> u32 \<times> u32 \<times> u32) \<times> 'os win" where
  "reap lib h s =
     (((case w_exit lib h (w_os s) of None \<Rightarrow> 1 | Some st \<Rightarrow> st), gettimes lib h (w_os s)), s\<lparr>w_os := w_close lib h (w_os s)\<rparr>)"

text \<open>The number of the child, 0 when none has ended yet, -1 for an error. A wait without end that times out is an error too.\<close>

definition wait3 :: "'os wlib \<Rightarrow> bool \<Rightarrow> 'os win \<Rightarrow> (int \<times> (u32 \<times> u32 \<times> u32 \<times> u32)) \<times> 'os win" where
  "wait3 lib nohang s =
     (let hs = filter (\<lambda>h. h \<noteq> 0) (map snd (children s))
      in if hs = [] then ((-1, 0, 0, 0, 0), s)
         else let (r, os) = w_waitmany lib hs nohang (w_os s); s = s\<lparr>w_os := os\<rparr>
              in case r of
                   WaitTimeout \<Rightarrow> ((if nohang then 0 else -1, 0, 0, 0, 0), s)
                 | WaitFailed \<Rightarrow> ((-1, 0, 0, 0, 0), s)
                 | WaitObject i \<Rightarrow>
                     let h = hs ! i;
                         (pid, cs) = (case find (\<lambda>j. snd (children s ! j) = h) [0..<length (children s)] of
                                        None \<Rightarrow> (-1, children s)
                                      | Some j \<Rightarrow> (fst (children s ! j), (children s)[j := (0, 0)]));
                         (st, s) = reap lib h (s\<lparr>children := cs\<rparr>)
                     in ((pid, st), s))"

text \<open>The child is taken out of the table before the wait, whose failure loses it.\<close>

definition wait4 :: "'os wlib \<Rightarrow> int \<Rightarrow> bool \<Rightarrow> 'os win \<Rightarrow> (int \<times> (u32 \<times> u32 \<times> u32 \<times> u32)) \<times> 'os win" where
  "wait4 lib pid nohang s =
     (if pid = 0 then ((-1, 0, 0, 0, 0), s)
      else let (h, s) = (case find (\<lambda>j. fst (children s ! j) = pid) [0..<length (children s)] of
                           None \<Rightarrow> (0, s)
                         | Some j \<Rightarrow> (snd (children s ! j), s\<lparr>children := (children s)[j := (0, 0)]\<rparr>));
               (h, s) = (if h = 0 then (let (h, os) = w_openproc lib pid (w_os s) in (h, s\<lparr>w_os := os\<rparr>)) else (h, s))
           in if h = 0 then ((-1, 0, 0, 0, 0), s)
              else let (r, os) = w_waitone lib h nohang (w_os s); s = s\<lparr>w_os := os\<rparr>
                   in case r of
                        WaitTimeout \<Rightarrow> ((if nohang then 0 else -1, 0, 0, 0, 0), s)
                      | WaitFailed \<Rightarrow> ((-1, 0, 0, 0, 0), s)
                      | WaitObject i \<Rightarrow> (let (st, s) = reap lib h s in ((pid, st), s)))"

definition wait_text :: "int \<Rightarrow> u32 \<times> u32 \<times> u32 \<times> u32 \<Rightarrow> string" where
  "wait_text pid r =
     (case r of (st, u, sy, el) \<Rightarrow>
        take 127 (int_str pid @ '' '' @ dec_str (unat u) @ '' '' @ dec_str (unat sy) @ '' '' @ dec_str (unat el) @ '' ''
                  @ (if st \<noteq> 0 then int_str (sint st) else [CHR 0x27, CHR 0x27])))"

definition await_any :: "'os wlib \<Rightarrow> int \<Rightarrow> nat \<Rightarrow> bool \<Rightarrow> 'os win \<Rightarrow> (int \<times> string) \<times> 'os win" where
  "await_any lib pid4 n nohang s =
     (let ((pid, st), s) = (if pid4 = -1 then wait3 lib nohang s else wait4 lib pid4 nohang s)
      in if pid \<le> 0 then ((-1, []), s)
         else let t = take (n - 1) (wait_text pid st) in ((int (length t), t), s))"

definition p9await :: "'os wlib \<Rightarrow> nat \<Rightarrow> 'os win \<Rightarrow> (int \<times> string) \<times> 'os win" where
  "p9await lib n s = await_any lib (-1) n False s"

definition awaitnohang :: "'os wlib \<Rightarrow> nat \<Rightarrow> 'os win \<Rightarrow> (int \<times> string) \<times> 'os win" where
  "awaitnohang lib n s = await_any lib (-1) n True s"

definition awaitfor :: "'os wlib \<Rightarrow> int \<Rightarrow> nat \<Rightarrow> 'os win \<Rightarrow> (int \<times> string) \<times> 'os win" where
  "awaitfor lib pid n s = await_any lib pid n False s"

section \<open>Exit functions\<close>

text \<open>A place of the table has a function and the process that has registered it, or is free.\<close>

definition NEXIT :: nat where "NEXIT = 33"

type_synonym 'f onex = "('f \<times> int) option list"

definition p9atexit :: "int \<Rightarrow> 'f \<Rightarrow> 'f onex \<Rightarrow> bool \<times> 'f onex" where
  "p9atexit pid f t =
     (case find (\<lambda>i. t ! i = None) [0..<length t] of None \<Rightarrow> (False, t) | Some i \<Rightarrow> (True, t[i := Some (f, pid)]))"

definition atexitdont :: "int \<Rightarrow> 'f \<Rightarrow> 'f onex \<Rightarrow> 'f onex" where
  "atexitdont pid f t = map (\<lambda>x. if x = Some (f, pid) then None else x) t"

text \<open>The functions that run, from the last place to the first. One that is running is free already.\<close>

fun exit_loop :: "int \<Rightarrow> nat \<Rightarrow> 'f onex \<Rightarrow> 'f list \<times> 'f onex" where
  "exit_loop pid 0 t = ([], t)"
| "exit_loop pid (Suc i) t =
     (case t ! i of
        None \<Rightarrow> exit_loop pid i t
      | Some (f, q) \<Rightarrow> if q = pid then (let (fs, t) = exit_loop pid i (t[i := None]) in (f # fs, t)) else exit_loop pid i t)"

definition p9exits :: "int \<Rightarrow> 'f onex \<Rightarrow> 'f list \<times> 'f onex" where
  "p9exits pid t = exit_loop pid NEXIT t"

text \<open>At the exit each function that this process has registered runs once, the last place first; those of other processes stay.\<close>

definition of_pid :: "int \<Rightarrow> ('f \<times> int) option \<Rightarrow> bool" where
  "of_pid pid x \<longleftrightarrow> (case x of None \<Rightarrow> False | Some (f, q) \<Rightarrow> q = pid)"

lemma exit_loop_runs:
  "n \<le> length t \<Longrightarrow> exit_loop pid n t =
    (rev (map (fst \<circ> the) (filter (of_pid pid) (take n t))), map (\<lambda>x. if of_pid pid x then None else x) (take n t) @ drop n t)"
proof (induction n arbitrary: t)
  case (Suc n)
  then have l: "n < length t" by simp
  note tk = take_Suc_conv_app_nth [OF l]
  have d: "drop n t = t ! n # drop (Suc n) t" using l by (simp add: Cons_nth_drop_Suc)
  show ?case
  proof (cases "of_pid pid (t ! n)")
    case False
    then have "exit_loop pid (Suc n) t = exit_loop pid n t" by (auto simp: of_pid_def split: option.splits)
    then show ?thesis using False Suc by (simp add: tk d)
  next
    case True
    then obtain f where f: "t ! n = Some (f, pid)" by (auto simp: of_pid_def split: option.splits)
    have "exit_loop pid n (t[n := None]) = (rev (map (fst \<circ> the) (filter (of_pid pid) (take n t))),
        map (\<lambda>x. if of_pid pid x then None else x) (take n t) @ None # drop (Suc n) t)"
      using Suc.IH [of "t[n := None]"] l by (simp add: drop_update_swap Cons_nth_drop_Suc flip: Cons_nth_drop_Suc)
    then show ?thesis using True f by (simp add: tk)
  qed
qed simp

lemma exits_run_all: "length t = NEXIT \<Longrightarrow> fst (p9exits pid t) = rev (map (fst \<circ> the) (filter (of_pid pid) t))"
  by (simp add: p9exits_def exit_loop_runs)

section \<open>Each child is waited for once\<close>

text \<open>The children that have not been waited for.\<close>

definition kids :: "'os win \<Rightarrow> (int \<times> int) list" where
  "kids s = filter (\<lambda>c. snd c \<noteq> 0) (children s)"

lemma find_upt_Some: "find P [0..<n] = Some i \<Longrightarrow> i < n \<and> P i"
  by (auto simp: find_Some_iff)

lemma filter_update_in:
  "i < length xs \<Longrightarrow> \<not> P (xs ! i) \<Longrightarrow> P x \<Longrightarrow> mset (filter P (xs[i := x])) = add_mset x (mset (filter P xs))"
proof (induction xs arbitrary: i)
  case (Cons y xs)
  then show ?case by (cases i) auto
qed simp

lemma filter_update_out:
  "i < length xs \<Longrightarrow> P (xs ! i) \<Longrightarrow> \<not> P x \<Longrightarrow> add_mset (xs ! i) (mset (filter P (xs[i := x]))) = mset (filter P xs)"
proof (induction xs arbitrary: i)
  case (Cons y xs)
  then show ?case by (cases i) auto
qed simp

lemma addchild_kids:
  assumes "h \<noteq> 0"
  shows "case winaddchild pid h s of (r, s') \<Rightarrow>
    r = 0 \<and> mset (kids s') = add_mset (pid, h) (mset (kids s)) \<and> length (children s') = length (children s) \<or>
    r = -1 \<and> s' = s \<and> length (kids s) = length (children s)"
proof (cases "find (\<lambda>i. snd (children s ! i) = 0) [0..<length (children s)]")
  case None
  then have "\<forall>i<length (children s). snd (children s ! i) \<noteq> 0" by (auto simp: find_None_iff)
  then have "\<forall>c\<in>set (children s). snd c \<noteq> 0" by (metis in_set_conv_nth)
  then have "kids s = children s" unfolding kids_def by (simp add: filter_id_conv)
  then show ?thesis using None by (simp add: winaddchild_def)
next
  case (Some i)
  note i = find_upt_Some [OF Some]
  have "mset (kids (s\<lparr>children := (children s)[i := (pid, h)]\<rparr>)) = add_mset (pid, h) (mset (kids s))"
    unfolding kids_def using filter_update_in [of i "children s" "\<lambda>c. snd c \<noteq> 0" "(pid, h)"] i assms by simp
  then show ?thesis using Some by (simp add: winaddchild_def)
qed

text \<open>A wait without a time limit ends with one of the objects.\<close>

definition waits :: "'os wlib \<Rightarrow> bool" where
  "waits lib \<longleftrightarrow> (\<forall>hs os. hs \<noteq> [] \<longrightarrow> (\<exists>i os'. w_waitmany lib hs False os = (WaitObject i, os') \<and> i < length hs))"

lemma wait3_kids:
  assumes "waits lib" "kids s \<noteq> []"
  shows "\<exists>c st s'. wait3 lib False s = ((fst c, st), s') \<and> mset (kids s) = add_mset c (mset (kids s'))"
proof -
  define hs where "hs = filter (\<lambda>h. h \<noteq> 0) (map snd (children s))"
  have hk: "hs = map snd (kids s)" by (simp add: hs_def kids_def filter_map comp_def)
  then have ne: "hs \<noteq> []" using assms(2) by simp
  then obtain i os where w: "w_waitmany lib hs False (w_os s) = (WaitObject i, os)" "i < length hs" using assms(1) unfolding waits_def by blast
  have h0: "hs ! i \<noteq> 0" "hs ! i \<in> snd ` set (children s)" using nth_mem [OF w(2)] by (auto simp: hs_def)
  then obtain j0 where "j0 < length (children s)" "snd (children s ! j0) = hs ! i" by (auto simp: in_set_conv_nth)
  then have "find (\<lambda>j. snd (children s ! j) = hs ! i) [0..<length (children s)] \<noteq> None" by (auto simp: find_None_iff)
  then obtain j where j: "find (\<lambda>j. snd (children s ! j) = hs ! i) [0..<length (children s)] = Some j" by blast
  note jl = find_upt_Some [OF j]
  define m where "m = s\<lparr>w_os := os, children := (children s)[j := (0, 0)]\<rparr>"
  obtain st s' where r: "reap lib (hs ! i) m = (st, s')" by fastforce
  then have c: "children s' = (children s)[j := (0, 0)]" by (auto simp: reap_def m_def)
  have "wait3 lib False s = ((fst (children s ! j), st), s')"
    using ne w(1) j r unfolding wait3_def hs_def [symmetric] by (simp add: Let_def m_def)
  moreover have "mset (kids s) = add_mset (children s ! j) (mset (kids s'))"
    unfolding kids_def c using filter_update_out [of j "children s" "\<lambda>c. snd c \<noteq> 0" "(0, 0)"] jl h0(1) by simp
  ultimately show ?thesis by blast
qed

fun awaits :: "'os wlib \<Rightarrow> nat \<Rightarrow> nat \<Rightarrow> 'os win \<Rightarrow> string list \<times> 'os win" where
  "awaits lib n 0 s = ([], s)"
| "awaits lib n (Suc k) s = (let ((r, t), s) = p9await lib n s; (ts, s) = awaits lib n k s in (t # ts, s))"

definition first_word :: "string \<Rightarrow> string" where
  "first_word t = takeWhile (\<lambda>c. c \<noteq> CHR '' '') t"

lemma wait_text_first:
  assumes "0 < pid" "pid < 2147483648" "13 \<le> n"
  shows "first_word (take (n - 1) (wait_text pid st)) = int_str pid" "take (n - 1) (wait_text pid st) \<noteq> []"
proof -
  have p: "int_str pid = dec_str (nat pid)" using assms(1) by (simp add: int_str_def)
  have "nat pid < 10 ^ Suc 9" using assms(2) by simp
  then have l: "length (int_str pid) \<le> 10" unfolding p using dec_str_length [of "nat pid" 9] by simp
  have "\<forall>c\<in>set (int_str pid). is_digit c" unfolding p using dec_str_digits [of "nat pid"] by (simp add: list_all_iff)
  moreover have "\<not> is_digit CHR '' ''" by code_simp
  ultimately have nb: "CHR '' '' \<notin> set (int_str pid)" by metis
  obtain r where "wait_text pid st = take 127 (int_str pid @ CHR '' '' # r)" by (cases st) (simp add: wait_text_def)
  then have "take (n - 1) (wait_text pid st) = int_str pid @ take (min (n - 1) 127 - length (int_str pid)) (CHR '' '' # r)"
    using l assms(3) by (simp add: min_def)
  moreover have "12 \<le> min (n - 1) 127" using assms(3) by simp
  then have "min (n - 1) 127 - length (int_str pid) = Suc (min (n - 1) 127 - length (int_str pid) - 1)" using l by linarith
  ultimately have t: "take (n - 1) (wait_text pid st) = int_str pid @ CHR '' '' # take (min (n - 1) 127 - length (int_str pid) - 1) r"
    by (metis take_Suc_Cons)
  show "first_word (take (n - 1) (wait_text pid st)) = int_str pid" unfolding t first_word_def using nb by (auto simp: takeWhile_append)
  show "take (n - 1) (wait_text pid st) \<noteq> []" unfolding t by simp
qed

lemma await_kids:
  assumes "waits lib" "kids s \<noteq> []" "\<forall>c\<in>set (kids s). 0 < fst c \<and> fst c < 2147483648" "13 \<le> n"
  shows "\<exists>c t s'. p9await lib n s = ((int (length t), t), s') \<and> first_word t = int_str (fst c) \<and> mset (kids s) = add_mset c (mset (kids s'))"
proof -
  obtain c st s' where c: "wait3 lib False s = ((fst c, st), s')" "mset (kids s) = add_mset c (mset (kids s'))"
    using wait3_kids [OF assms(1,2)] by blast
  then have "c \<in> set (kids s)" by (metis set_mset_mset union_single_eq_member)
  then have b: "0 < fst c" "fst c < 2147483648" using assms(3) by auto
  have "p9await lib n s = ((int (length (take (n - 1) (wait_text (fst c) st))), take (n - 1) (wait_text (fst c) st)), s')"
    using c(1) b by (simp add: p9await_def await_any_def Let_def)
  then show ?thesis using wait_text_first [OF b assms(4)] c(2) by blast
qed

text \<open>C29. A program on Windows that waits as often as it has children gets the number of each of them once, in whatever order they
  end; then there is none left, and a further wait fails at once.\<close>

theorem await_collects:
  assumes "waits lib" "\<forall>c\<in>set (kids s). 0 < fst c \<and> fst c < 2147483648" "13 \<le> n"
  shows "case awaits lib n (length (kids s)) s of (ts, s') \<Rightarrow>
    mset (map first_word ts) = mset (map (\<lambda>c. int_str (fst c)) (kids s)) \<and> kids s' = [] \<and> fst (p9await lib n s') = (-1, [])"
  using assms(2)
proof (induction "length (kids s)" arbitrary: s)
  case 0
  then have "filter (\<lambda>h. h \<noteq> 0) (map snd (children s)) = []" by (simp add: kids_def filter_map comp_def)
  then show ?case using 0 by (simp add: p9await_def await_any_def wait3_def)
next
  case (Suc k)
  then have ne: "kids s \<noteq> []" by auto
  obtain c t s1 where c: "p9await lib n s = ((int (length t), t), s1)" "first_word t = int_str (fst c)"
    "mset (kids s) = add_mset c (mset (kids s1))" using await_kids [OF assms(1) ne Suc.prems assms(3)] by blast
  have l: "k = length (kids s1)" using Suc.hyps(2) arg_cong [OF c(3), of size] by simp
  have sub: "set (kids s1) \<subseteq> set (kids s)" using arg_cong [OF c(3), of set_mset] by auto
  then have b: "\<forall>c\<in>set (kids s1). 0 < fst c \<and> fst c < 2147483648" using Suc.prems by blast
  obtain ts s2 where a: "awaits lib n k s1 = (ts, s2)" by fastforce
  have IH: "mset (map first_word ts) = mset (map (\<lambda>c. int_str (fst c)) (kids s1))" "kids s2 = []" "fst (p9await lib n s2) = (-1, [])"
    using Suc.hyps(1) [OF l b] a l by simp_all
  have "mset (map (\<lambda>c. int_str (fst c)) (kids s)) = add_mset (int_str (fst c)) (mset (map (\<lambda>c. int_str (fst c)) (kids s1)))"
    using arg_cong [OF c(3), of "image_mset (\<lambda>c. int_str (fst c))"] by simp
  then show ?case using Suc.hyps(2) c(1,2) a IH by (simp flip: Suc.hyps(2))
qed

definition two_kids :: "unit win" where
  "two_kids = \<lparr>tab = [], nfd = 3, heap = (\<lambda>a. None), fresh = 0, npipes = 0, con = \<lparr>c_utf = [], c_wbuf = [], c_eof = False\<rparr>,
     children = [(0, 0), (7, 70), (9, 90)], spawnpg = False, w_os = ()\<rparr>"

lemma await_collects_witness:
  "case awaits still_lib 80 2 two_kids of (ts, s') \<Rightarrow> mset (map first_word ts) = {#''7'', ''9''#} \<and> kids s' = []"
proof -
  have k: "kids two_kids = [(7, 70), (9, 90)]" by (simp add: kids_def two_kids_def)
  have w: "waits still_lib" by (simp add: waits_def still_lib_def)
  have n: "int_str 7 = ''7''" "int_str 9 = ''9''" by (simp_all add: int_str_def dec_str.simps char_of_def bit_0)
  show ?thesis using await_collects [OF w, of two_kids 80] by (simp add: k n numeral_2_eq_2 split: prod.splits del: awaits.simps)
qed

end
