(* ===== verification/WinSpawn.thy ===== *)
theory WinSpawn
  imports WinStr
begin

text \<open>
  The command line of a new process on Windows, src/src/lib9/mingw/spawn.c: \<open>dblquote\<close>, \<open>proccmd\<close>, \<open>getshargs\<close>. A process
  gets one string there, which it breaks into its arguments by the rules in the comment of that file; \<open>cl_words\<close> are these
  rules.
\<close>

section \<open>Quoting\<close>

abbreviation bsl :: char where "bsl \<equiv> CHR 0x5C"
abbreviation dqt :: char where "dqt \<equiv> CHR 0x22"
abbreviation tab_ch :: char where "tab_ch \<equiv> CHR 0x09"

definition dq_special :: "char \<Rightarrow> bool" where
  "dq_special c \<longleftrightarrow> c = CHR '' '' \<or> c = tab_ch \<or> c = CHR 0x0A \<or> c = CHR 0x0D \<or> c = dqt"

text \<open>\<open>nb\<close> counts the backslashes that have just been copied.\<close>

fun dq_loop :: "nat \<Rightarrow> string \<Rightarrow> string" where
  "dq_loop nb [] = replicate nb bsl"
| "dq_loop nb (c # s) =
     (if c = bsl then bsl # dq_loop (Suc nb) s
      else if c = dqt then replicate nb bsl @ bsl # dqt # dq_loop 0 s
      else c # dq_loop 0 s)"

definition dblquote :: "string \<Rightarrow> string" where
  "dblquote s = (if \<not> list_ex dq_special s then s else dqt # dq_loop 0 s @ [dqt])"

text \<open>The arguments one after the other, each with a blank behind it; the last blank is taken back. \<open>None\<close> when the bytes
  that are written on the way do not fit in the block.\<close>

definition cmd_size :: "string list \<Rightarrow> nat" where
  "cmd_size argv = sum_list (map (\<lambda>a. 2 * length a) argv) + 1"

definition cmd_bytes :: "string list \<Rightarrow> string" where
  "cmd_bytes argv = concat (map (\<lambda>a. dblquote a @ '' '') argv)"

definition proccmd :: "string list \<Rightarrow> string option" where
  "proccmd argv = (if max 1 (length (cmd_bytes argv)) \<le> cmd_size argv then Some (butlast (cmd_bytes argv)) else None)"

section \<open>The rules of Windows\<close>

text \<open>A word, and what follows it. \<open>q\<close> says whether a quote is open, \<open>nb\<close> counts backslashes that have not been decided.\<close>

fun cl_word :: "bool \<Rightarrow> nat \<Rightarrow> string \<Rightarrow> string \<times> string" where
  "cl_word q nb [] = (replicate nb bsl, [])"
| "cl_word q nb (c # s) =
     (if c = bsl then cl_word q (Suc nb) s
      else if c = dqt
      then if even nb then (let (w, r) = cl_word (\<not> q) 0 s in (replicate (nb div 2) bsl @ w, r))
           else (let (w, r) = cl_word q 0 s in (replicate (nb div 2) bsl @ dqt # w, r))
      else if \<not> q \<and> (c = CHR '' '' \<or> c = tab_ch) then (replicate nb bsl, s)
      else (let (w, r) = cl_word q 0 s in (replicate nb bsl @ c # w, r)))"

definition cl_blank :: "char \<Rightarrow> bool" where
  "cl_blank c \<longleftrightarrow> c = CHR '' '' \<or> c = tab_ch"

lemma cl_word_shorter: "length (snd (cl_word q nb s)) \<le> length s"
  by (induction q nb s rule: cl_word.induct) (auto simp: Let_def split: prod.splits)

lemma cl_word_less: "s \<noteq> [] \<Longrightarrow> length (snd (cl_word q nb s)) < length s"
proof (cases s)
  case (Cons c t)
  have "length (snd (cl_word q' nb' t)) < Suc (length t)" for q' nb' using cl_word_shorter [of q' nb' t] by simp
  then show ?thesis using Cons by (auto simp: Let_def split: prod.splits) (metis snd_conv)+
qed simp

function cl_words :: "string \<Rightarrow> string list" where
  "cl_words s =
     (let s = dropWhile cl_blank s
      in if s = [] then [] else (let (w, r) = cl_word False 0 s in w # cl_words r))"
  by auto

termination
proof (relation "measure length")
  fix s x :: string and p w r
  assume "x = dropWhile cl_blank s" "x \<noteq> []" "p = cl_word False 0 x" "(w, r) = p"
  then have "length r < length x" using cl_word_less [of x False 0] by (metis snd_conv)
  moreover have "length x \<le> length s" using \<open>x = _\<close> length_dropWhile_le by blast
  ultimately show "(r, s) \<in> measure length" by simp
qed simp

declare cl_words.simps [simp del]

section \<open>What is written is read\<close>

lemma cl_word_bsl: "cl_word q nb (replicate k bsl @ s) = cl_word q (nb + k) s"
  by (induction k arbitrary: nb) simp_all

lemma cl_word_quoted:
  assumes "rest = [] \<or> cl_blank (hd rest)"
  shows "cl_word True nb (dq_loop nb s @ dqt # rest) = (replicate nb bsl @ s, tl rest)"
proof (induction nb s rule: dq_loop.induct)
  case (1 nb)
  have "nb + nb = 2 * nb" by simp
  moreover have "cl_word False 0 rest = ([], tl rest)" using assms by (cases rest) (auto simp: cl_blank_def)
  ultimately show ?case using cl_word_bsl [of True nb nb "dqt # rest"] by simp
next
  case (2 nb c s)
  consider "c = bsl" | "c = dqt" | "c \<noteq> bsl" "c \<noteq> dqt" by blast
  then show ?case
  proof cases
    case 1
    then show ?thesis using "2.IH"(1) by (simp add: replicate_app_Cons_same)
  next
    case b: 2
    have "cl_word True (nb + nb) (bsl # dqt # dq_loop 0 s @ dqt # rest) = (replicate nb bsl @ dqt # s, tl rest)"
      using "2.IH"(2) b by simp
    then show ?thesis using b cl_word_bsl [of True nb nb "bsl # dqt # dq_loop 0 s @ dqt # rest"] by simp
  qed (use "2.IH"(3) in simp)
qed

lemma cl_word_plain:
  assumes "rest = [] \<or> cl_blank (hd rest)"
  shows "\<not> list_ex dq_special s \<Longrightarrow> cl_word False nb (s @ rest) = (replicate nb bsl @ s, tl rest)"
proof (induction s arbitrary: nb)
  case Nil
  then show ?case using assms by (cases rest) (auto simp: cl_blank_def)
next
  case (Cons c s)
  then show ?case using Cons.IH [of "Suc nb"] Cons.IH [of 0]
    by (cases "c = bsl") (auto simp: dq_special_def replicate_app_Cons_same)
qed

lemma cl_word_dblquote:
  assumes "rest = [] \<or> cl_blank (hd rest)"
  shows "cl_word False 0 (dblquote s @ rest) = (s, tl rest)"
  using cl_word_plain [OF assms, of s 0] cl_word_quoted [OF assms, of 0 s] by (simp add: dblquote_def)

lemma dblquote_start: "a \<noteq> [] \<Longrightarrow> dblquote a \<noteq> [] \<and> \<not> cl_blank (hd (dblquote a))"
  by (cases a) (auto simp: dblquote_def cl_blank_def dq_special_def)

lemma cl_words_Cons:
  assumes "a \<noteq> []" "rest = [] \<or> cl_blank (hd rest)"
  shows "cl_words (dblquote a @ rest) = a # cl_words (tl rest)"
proof -
  have "dropWhile cl_blank (dblquote a @ rest) = dblquote a @ rest"
    using dblquote_start [OF assms(1)] by (cases "dblquote a") auto
  then show ?thesis using dblquote_start [OF assms(1)] cl_word_dblquote [OF assms(2), of a]
    by (subst cl_words.simps) (simp add: Let_def)
qed

lemma cl_words_blank: "cl_words (CHR '' '' # s) = cl_words s"
  by (subst (1 2) cl_words.simps) (simp add: cl_blank_def)

lemma cl_words_Nil: "cl_words [] = []"
  by (simp add: cl_words.simps)

text \<open>An argument that is empty leaves no trace but its blank.\<close>

lemma cl_words_butlast: "cl_words (butlast (cmd_bytes argv)) = filter (\<lambda>a. a \<noteq> []) argv"
proof (induction argv)
  case Nil
  then show ?case by (simp add: cmd_bytes_def cl_words_Nil)
next
  case (Cons a argv)
  show ?case
  proof (cases argv)
    case Nil
    then show ?thesis using cl_words_Cons [of a "[]"]
      by (cases "a = []") (simp_all add: cmd_bytes_def butlast_append cl_words_Nil dblquote_def)
  next
    case (Cons b argv')
    have "cmd_bytes argv \<noteq> []" using Cons by (simp add: cmd_bytes_def)
    then have e: "butlast (cmd_bytes (a # argv)) = dblquote a @ CHR '' '' # butlast (cmd_bytes argv)"
      by (simp add: cmd_bytes_def butlast_append)
    show ?thesis
    proof (cases "a = []")
      case True
      then show ?thesis using e Cons.IH by (simp add: dblquote_def cl_words_blank)
    next
      case False
      then show ?thesis using e cl_words_Cons [of a "CHR '' '' # butlast (cmd_bytes argv)"] Cons.IH by (simp add: cl_blank_def)
    qed
  qed
qed

lemma dq_loop_length: "length (dq_loop nb s) \<le> nb + length s + length (filter (\<lambda>c. c = dqt \<or> c = bsl) s)"
  by (induction nb s rule: dq_loop.induct) auto

lemma cmd_bytes_length: "length (cmd_bytes argv) = sum_list (map (\<lambda>a. length (dblquote a) + 1) argv)"
  by (induction argv) (simp_all add: cmd_bytes_def)

lemma cmd_size_length: "cmd_size argv = 2 * sum_list (map length argv) + 1"
  by (induction argv) (simp_all add: cmd_size_def)

lemma quoted_fits:
  "\<forall>a\<in>set argv. a \<noteq> [] \<and> (list_ex dq_special a \<longrightarrow> 3 + length (filter (\<lambda>c. c = dqt \<or> c = bsl) a) \<le> length a)
    \<Longrightarrow> sum_list (map (\<lambda>a. length (dblquote a) + 1) argv) \<le> 2 * sum_list (map length argv)"
proof (induction argv)
  case (Cons a argv)
  have "length (dblquote a) + 1 \<le> 2 * length a"
  proof (cases "list_ex dq_special a")
    case True
    then show ?thesis using dq_loop_length [of 0 a] Cons.prems by (simp add: dblquote_def)
  next
    case False
    have "1 \<le> length a" using Cons.prems by (cases a) simp_all
    then show ?thesis using False by (simp add: dblquote_def)
  qed
  then show ?case using Cons by simp
qed simp

text \<open>C27. The arguments of a program started on Windows arrive: the command line that \<open>proccmd\<close> makes breaks into them again,
  whatever blanks, quotes and backslashes they hold, except that empty arguments are lost. The line is not made, as it is
  longer than the block for it, exactly when the quoted arguments with a blank each need more than twice the length of the
  arguments and one byte; it is made when no argument is empty and each that has to be quoted has three characters or more
  that are no quotes and no backslashes.\<close>

theorem command_line_back:
  "(\<forall>c. proccmd argv = Some c \<longrightarrow> cl_words c = filter (\<lambda>a. a \<noteq> []) argv)
   \<and> (proccmd argv = None \<longleftrightarrow> 2 * sum_list (map length argv) + 1 < sum_list (map (\<lambda>a. length (dblquote a) + 1) argv))
   \<and> ((\<forall>a\<in>set argv. a \<noteq> [] \<and> (list_ex dq_special a \<longrightarrow> 3 + length (filter (\<lambda>c. c = dqt \<or> c = bsl) a) \<le> length a))
        \<longrightarrow> proccmd argv \<noteq> None)"
proof (intro conjI impI)
  show "\<forall>c. proccmd argv = Some c \<longrightarrow> cl_words c = filter (\<lambda>a. a \<noteq> []) argv"
    using cl_words_butlast [of argv] by (auto simp: proccmd_def)
  show n: "proccmd argv = None \<longleftrightarrow> 2 * sum_list (map length argv) + 1 < sum_list (map (\<lambda>a. length (dblquote a) + 1) argv)"
    by (auto simp: proccmd_def cmd_bytes_length cmd_size_length)
  assume "\<forall>a\<in>set argv. a \<noteq> [] \<and> (list_ex dq_special a \<longrightarrow> 3 + length (filter (\<lambda>c. c = dqt \<or> c = bsl) a) \<le> length a)"
  from quoted_fits [OF this] show "proccmd argv \<noteq> None" unfolding n by linarith
qed

lemma command_line_back_witness:
  "cl_words (the (proccmd [''copy'', ''a b'', ''say '' @ [dqt] @ ''hi'' @ [dqt], ''c:'' @ [bsl]]))
    = [''copy'', ''a b'', ''say '' @ [dqt] @ ''hi'' @ [dqt], ''c:'' @ [bsl]]"
proof -
  let ?argv = "[''copy'', ''a b'', ''say '' @ [dqt] @ ''hi'' @ [dqt], ''c:'' @ [bsl]]"
  note back_again = command_line_back [of ?argv]
  have "\<forall>a\<in>set ?argv. a \<noteq> [] \<and> (list_ex dq_special a \<longrightarrow> 3 + length (filter (\<lambda>c. c = dqt \<or> c = bsl) a) \<le> length a)"
    by code_simp
  then obtain c where "proccmd ?argv = Some c" using back_again by blast
  then show ?thesis using back_again by simp
qed

section \<open>Where it fails\<close>

text \<open>The block is too small for a blank, and for two empty arguments. An empty argument is lost.\<close>

lemma proccmd_overflows: "proccmd ['' ''] = None \<and> proccmd ['''', ''''] = None"
  by code_simp

lemma proccmd_drops_empty: "proccmd [''a'', [], ''b''] = Some ''a  b'' \<and> cl_words ''a  b'' = [''a'', ''b'']"
  by code_simp

section \<open>Scripts\<close>

text \<open>The arguments of the program that runs a script: its name without the directory, the script, and what the script was
  given. \<open>None\<close> for an empty vector, whose copy gets no end.\<close>

definition after_slash :: "string \<Rightarrow> string" where
  "after_slash s = (if CHR ''/'' \<in> set s then rev (takeWhile (\<lambda>c. c \<noteq> CHR ''/'') (rev s)) else s)"

definition getshargs :: "string \<Rightarrow> string \<Rightarrow> string list \<Rightarrow> string list option" where
  "getshargs shell script shargv = (if shargv = [] then None else Some (after_slash shell # script # tl shargv))"

end
