(* ===== verification/WinEnv.thy ===== *)
theory WinEnv
  imports WinStr "HOL-Library.List_Lexorder" "HOL-Library.Multiset"
begin

text \<open>
  The environment of a program on Windows, src/src/lib9/mingw/getenv.c and \<open>exportenv\<close> of spawn.c: a table of strings
  \<open>name=value\<close> in UTF-8, made from the wide strings that the system keeps and exported to new processes as one block.
  Case does not count in names. Memory never runs out here.
\<close>

section \<open>The table\<close>

definition tolow :: "char \<Rightarrow> nat" where
  "tolow c = (let n = of_char c in if 65 \<le> n \<and> n \<le> 90 then n + 32 else n)"

definition lows :: "string \<Rightarrow> nat list" where
  "lows s = map tolow s"

text \<open>\<open>strncasecmp\<close> of \<open>p\<close> and \<open>s\<close> on the length of \<open>s\<close>.\<close>

definition low_prefix :: "string \<Rightarrow> string \<Rightarrow> bool" where
  "low_prefix s p \<longleftrightarrow> lows (take (length s) p) = lows s"

text \<open>\<open>envsz\<close> is the number of strings that there is room for.\<close>

record env =
  environ :: "string list"
  envsz :: nat

definition env_match :: "string \<Rightarrow> string \<Rightarrow> bool" where
  "env_match s p \<longleftrightarrow> low_prefix s p \<and> ch p (length s) = CHR ''=''"

definition env_get :: "string \<Rightarrow> env \<Rightarrow> (nat \<times> string) option" where
  "env_get s e =
     map_option (\<lambda>i. (i, drop (length s + 1) (environ e ! i))) (find (\<lambda>i. env_match s (environ e ! i)) [0..<length (environ e)])"

definition p9getenv :: "string \<Rightarrow> env \<Rightarrow> string option" where
  "p9getenv s e = map_option snd (env_get s e)"

definition Nmore :: nat where "Nmore = 10"

text \<open>A value of nil is meant to remove the variable; its length is taken first, which is undefined. The outer \<open>None\<close>
  stands for that.\<close>

definition p9putenv :: "string \<Rightarrow> string option \<Rightarrow> env \<Rightarrow> env option" where
  "p9putenv s v e =
     (case v of
        None \<Rightarrow> None
      | Some v \<Rightarrow>
          (case env_get s e of
             Some (i, _) \<Rightarrow> Some (e\<lparr>environ := (environ e)[i := take (length s + 1) (environ e ! i) @ v]\<rparr>)
           | None \<Rightarrow> Some (let n = length (environ e); e = (if n = envsz e then e\<lparr>envsz := n + Nmore\<rparr> else e)
                           in e\<lparr>environ := environ e @ [s @ ''='' @ v]\<rparr>)))"

definition winsortenv :: "string list \<Rightarrow> string list" where
  "winsortenv e = sort_key lows e"

section \<open>White space in paths\<close>

definition wsconvert :: "utf \<Rightarrow> (nat \<times> nat) option \<Rightarrow> string \<Rightarrow> string" where
  "wsconvert u cfg s = winwstrtoutfm u (winreplacews cfg False (winutf2wstr u s))"

definition convert_one :: "utf \<Rightarrow> (nat \<times> nat) option \<Rightarrow> string \<Rightarrow> env \<Rightarrow> env" where
  "convert_one u cfg nm e = (case p9getenv nm e of None \<Rightarrow> e | Some x \<Rightarrow> the (p9putenv nm (Some (wsconvert u cfg x)) e))"

text \<open>Once in a chain of processes.\<close>

definition convertfilews :: "utf \<Rightarrow> (nat \<times> nat) option \<Rightarrow> env \<Rightarrow> env" where
  "convertfilews u cfg e =
     (if p9getenv ''P9FILEWSDONE'' e \<noteq> None then e
      else the (p9putenv ''P9FILEWSDONE'' (Some ''1'') (convert_one u cfg ''HOME'' (convert_one u cfg ''PATH'' e))))"

section \<open>From and to the system\<close>

definition path_upper :: "string \<Rightarrow> string" where
  "path_upper s = (if ch s 0 = CHR ''P'' \<and> low_prefix ''Path='' s then ''PATH'' @ drop 4 s else s)"

definition mingwinitenv :: "utf \<Rightarrow> (nat \<times> nat) option \<Rightarrow> nat list list \<Rightarrow> env" where
  "mingwinitenv u cfg wenv = convertfilews u cfg \<lparr>environ = map (path_upper \<circ> winwstrtoutfm u) wenv, envsz = length wenv + Nmore\<rparr>"

text \<open>The block for a new process: the strings, each with a 0, and one 0 more.\<close>

definition exportenv :: "utf \<Rightarrow> string list \<Rightarrow> nat list option" where
  "exportenv u e = (if e = [] then None else Some (concat (map (\<lambda>s. winutf2wstr u s @ [0]) (winsortenv e)) @ [0]))"

text \<open>The strings for a program that replaces this one: the lengths and what is stored for each. The room that is named does
  not count the end.\<close>

definition winruneenv :: "utf \<Rightarrow> string list \<Rightarrow> (nat \<times> nat list option) list" where
  "winruneenv u e = map (\<lambda>p. winutftowstr u p (length p)) (winsortenv e)"

text \<open>How a process finds its strings in the block.\<close>

function block_strings :: "nat list \<Rightarrow> nat list list" where
  "block_strings b = (let s = takeWhile (\<lambda>c. c \<noteq> 0) b in if s = [] then [] else s # block_strings (drop (length s + 1) b))"
  by auto

termination
proof (relation "measure length")
  fix b s :: "nat list"
  assume "s = takeWhile (\<lambda>c. c \<noteq> 0) b" "s \<noteq> []"
  then show "(drop (length s + 1) b, b) \<in> measure length" by (cases b) auto
qed simp

declare block_strings.simps [simp del]

section \<open>Names and values\<close>

lemma lows_length [simp]: "length (lows s) = length s"
  by (simp add: lows_def)

text \<open>The table as a map from names, whose case does not count. Only the first entry of a name is seen.\<close>

definition env_name :: "string \<Rightarrow> nat list" where
  "env_name p = lows (takeWhile (\<lambda>c. c \<noteq> CHR ''='') p)"

definition env_value :: "string \<Rightarrow> string" where
  "env_value p = tl (dropWhile (\<lambda>c. c \<noteq> CHR ''='') p)"

fun env_map :: "string list \<Rightarrow> nat list \<Rightarrow> string option" where
  "env_map [] = Map.empty"
| "env_map (p # ps) = (if CHR ''='' \<in> set p then (env_map ps)(env_name p \<mapsto> env_value p) else env_map ps)"

lemma tolow_eq: "tolow c = 61 \<longleftrightarrow> c = CHR ''=''"
proof -
  have "char_of (61 :: nat) = CHR ''=''" by code_simp
  moreover have "char_of (of_char c :: nat) = c" by simp
  moreover have "of_char (CHR ''='') = (61 :: nat)" by simp
  ultimately have "of_char c = (61 :: nat) \<longleftrightarrow> c = CHR ''=''" by metis
  then show ?thesis by (auto simp: tolow_def Let_def)
qed

lemma lows_eq_sign: "lows t = lows s \<Longrightarrow> CHR ''='' \<notin> set s \<Longrightarrow> CHR ''='' \<notin> set t"
proof
  assume e: "lows t = lows s" and n: "CHR ''='' \<notin> set s" and "CHR ''='' \<in> set t"
  have "tolow (CHR ''='') \<in> set (lows t)" using \<open>CHR ''='' \<in> set t\<close> unfolding lows_def by simp
  then obtain c where "c \<in> set s" "tolow c = tolow (CHR ''='')" unfolding e by (auto simp: lows_def)
  then show False using n tolow_eq by metis
qed

lemma env_match_name:
  assumes "CHR ''='' \<notin> set s"
  shows "env_match s p \<longleftrightarrow> CHR ''='' \<in> set p \<and> env_name p = lows s"
proof
  assume m: "env_match s p"
  then have l: "length s < length p" "p ! length s = CHR ''=''" by (auto simp: env_match_def ch_def split: if_splits)
  have t: "lows (take (length s) p) = lows s" using m by (simp add: env_match_def low_prefix_def)
  have p: "p = take (length s) p @ CHR ''='' # drop (Suc (length s)) p" using l by (metis id_take_nth_drop)
  have "takeWhile (\<lambda>c. c \<noteq> CHR ''='') p = take (length s) p"
    using lows_eq_sign [OF t assms] by (subst p) (auto simp: takeWhile_append)
  then show "CHR ''='' \<in> set p \<and> env_name p = lows s" using t l by (simp add: env_name_def) (metis nth_mem)
next
  assume a: "CHR ''='' \<in> set p \<and> env_name p = lows s"
  define k where "k = length (takeWhile (\<lambda>c. c \<noteq> CHR ''='') p)"
  have "k = length s" using a by (metis env_name_def k_def lows_length)
  moreover have "takeWhile (\<lambda>c. c \<noteq> CHR ''='') p = take k p" unfolding k_def by (rule takeWhile_eq_take)
  moreover have "k < length p"
  proof (rule ccontr)
    assume "\<not> k < length p"
    then have "takeWhile (\<lambda>c. c \<noteq> CHR ''='') p = p" using calculation(2) by simp
    then show False using a by (auto simp: takeWhile_eq_all_conv)
  qed
  moreover have "p ! k = CHR ''=''" using calculation(3) nth_length_takeWhile [of "\<lambda>c. c \<noteq> CHR ''=''" p] by (simp add: k_def)
  ultimately show "env_match s p" using a by (simp add: env_match_def low_prefix_def ch_def env_name_def)
qed

lemma env_value_drop: "CHR ''='' \<notin> set s \<Longrightarrow> env_match s p \<Longrightarrow> drop (length s + 1) p = env_value p"
proof -
  assume s: "CHR ''='' \<notin> set s" and m: "env_match s p"
  then have "length (takeWhile (\<lambda>c. c \<noteq> CHR ''='') p) = length s" by (metis env_match_name env_name_def lows_length)
  then have "drop (length s) p = dropWhile (\<lambda>c. c \<noteq> CHR ''='') p" by (metis dropWhile_eq_drop)
  then show ?thesis by (metis Suc_eq_plus1 drop_Suc env_value_def tl_drop)
qed

lemma find_map_Suc: "find P (map f xs) = map_option f (find (P \<circ> f) xs)"
  by (induction xs) auto

lemma find_index_Cons:
  "find (\<lambda>i. P ((x # xs) ! i)) [0..<length (x # xs)] = (if P x then Some 0 else map_option Suc (find (\<lambda>i. P (xs ! i)) [0..<length xs]))"
proof -
  have "[0..<length (x # xs)] = 0 # map Suc [0..<length xs]" by (simp add: map_Suc_upt upt_conv_Cons del: upt_Suc)
  then show ?thesis by (simp add: find_map_Suc comp_def del: upt_Suc)
qed

lemma env_get_Cons:
  "env_get s \<lparr>environ = p # ps, envsz = n\<rparr> =
    (if env_match s p then Some (0, drop (length s + 1) p) else map_option (\<lambda>(i, x). (Suc i, x)) (env_get s \<lparr>environ = ps, envsz = n\<rparr>))"
  unfolding env_get_def env.select_convs find_index_Cons by (auto simp: option.map_comp comp_def)

lemma getenv_map: "CHR ''='' \<notin> set s \<Longrightarrow> p9getenv s e = env_map (environ e) (lows s)"
proof (cases e)
  case (fields ps n)
  assume s: "CHR ''='' \<notin> set s"
  have "map_option snd (env_get s \<lparr>environ = ps, envsz = n\<rparr>) = env_map ps (lows s)"
  proof (induction ps)
    case Nil
    then show ?case by (simp add: env_get_def)
  next
    case (Cons p ps)
    then show ?case
      using env_value_drop [OF s, of p] env_match_name [OF s, of p]
      by (cases "env_match s p") (auto simp: env_get_Cons option.map_comp comp_def case_prod_beta)
  qed
  then show ?thesis by (simp add: p9getenv_def fields)
qed

section \<open>Setting\<close>

lemma env_map_append: "env_map (ps @ qs) = env_map qs ++ env_map ps"
  by (induction ps) (simp_all del: fun_upd_apply)

lemma env_map_update:
  "i < length ps \<Longrightarrow> \<forall>j<i. \<not> env_match s (ps ! j) \<Longrightarrow> env_match s (ps ! i) \<Longrightarrow> env_match s q \<Longrightarrow> CHR ''='' \<notin> set s
    \<Longrightarrow> env_map (ps[i := q]) = (env_map ps)(lows s \<mapsto> env_value q)"
proof (induction ps arbitrary: i)
  case (Cons p ps)
  show ?case
  proof (cases i)
    case 0
    then show ?thesis using Cons.prems by (simp add: env_match_name fun_eq_iff)
  next
    case (Suc k)
    have "\<forall>j<k. \<not> env_match s (ps ! j)" using Cons.prems(2) Suc by auto
    then have IH: "env_map (ps[k := q]) = (env_map ps)(lows s \<mapsto> env_value q)" using Cons Suc by (simp del: fun_upd_apply)
    have "\<not> env_match s p" using Cons.prems(2) Suc by auto
    then have "CHR ''='' \<in> set p \<Longrightarrow> env_name p \<noteq> lows s" using Cons.prems(5) by (simp add: env_match_name)
    then show ?thesis using IH Suc by (auto simp: fun_upd_twist simp del: fun_upd_apply)
  qed
qed simp

lemma env_match_made: "CHR ''='' \<notin> set s \<Longrightarrow> env_match s (s @ ''='' @ v) \<and> env_value (s @ ''='' @ v) = v"
proof -
  assume s: "CHR ''='' \<notin> set s"
  have m: "env_match s (s @ ''='' @ v)" by (simp add: env_match_def low_prefix_def ch_def)
  then show ?thesis using env_value_drop [OF s m] by simp
qed

lemma env_match_kept:
  assumes "CHR ''='' \<notin> set s" "env_match s p"
  shows "env_match s (take (length s + 1) p @ v) \<and> env_value (take (length s + 1) p @ v) = v"
proof -
  have l: "length s < length p" "p ! length s = CHR ''=''" using assms(2) by (auto simp: env_match_def ch_def split: if_splits)
  have m: "env_match s (take (length s + 1) p @ v)"
    using assms(2) l by (auto simp: env_match_def low_prefix_def ch_def nth_append min_def)
  then show ?thesis using env_value_drop [OF assms(1) m] l by simp
qed

lemma putenv_map:
  assumes s: "CHR ''='' \<notin> set s"
  shows "\<exists>e'. p9putenv s (Some v) e = Some e' \<and> env_map (environ e') = (env_map (environ e))(lows s \<mapsto> v)
    \<and> (length (environ e) \<le> envsz e \<longrightarrow> length (environ e') \<le> envsz e')"
proof (cases "env_get s e")
  case None
  have "env_map (environ e) (lows s) = None" using getenv_map [OF s, of e] None by (simp add: p9getenv_def)
  then have "env_map (environ e @ [s @ ''='' @ v]) = (env_map (environ e))(lows s \<mapsto> v)"
    using env_match_made [OF s, of v] env_match_name [OF s, of "s @ ''='' @ v"]
    by (auto simp: env_map_append map_add_def fun_eq_iff split: option.splits)
  then show ?thesis using None by (auto simp: p9putenv_def Let_def Nmore_def)
next
  case (Some q)
  obtain i x where q: "q = (i, x)" by fastforce
  have f: "i < length (environ e)" "env_match s (environ e ! i)" "\<forall>j<i. \<not> env_match s (environ e ! j)"
    using Some q by (auto simp: env_get_def find_Some_iff)
  note k = env_match_kept [OF s f(2), of v]
  have "env_map ((environ e)[i := take (length s + 1) (environ e ! i) @ v]) = (env_map (environ e))(lows s \<mapsto> v)"
    using env_map_update [OF f(1,3,2) conjunct1 [OF k] s] k by simp
  then show ?thesis using Some q by (simp add: p9putenv_def)
qed

text \<open>Setting a variable on Windows sets this variable and no other, whatever the table holds, and keeps the table inside its
  array: afterwards \<open>getenv\<close> gives the new value for every spelling of the name, and for other names what it gave before.\<close>

theorem putenv_sets_one:
  assumes "CHR ''='' \<notin> set s" "length (environ e) \<le> envsz e"
  shows "\<exists>e'. p9putenv s (Some v) e = Some e' \<and> length (environ e') \<le> envsz e'
    \<and> (\<forall>t. CHR ''='' \<notin> set t \<longrightarrow> p9getenv t e' = (if lows t = lows s then Some v else p9getenv t e))"
proof -
  obtain e' where "p9putenv s (Some v) e = Some e'" "env_map (environ e') = (env_map (environ e))(lows s \<mapsto> v)" "length (environ e') \<le> envsz e'"
    using putenv_map [OF assms(1), of v e] assms(2) by blast
  then show ?thesis using getenv_map by (intro exI [where x = e']) auto
qed

lemma putenv_sets_one_witness:
  "\<exists>e'. p9putenv ''home'' (Some ''/usr'') \<lparr>environ = [''PATH=c:'', ''HOME=d:''], envsz = 2\<rparr> = Some e'
    \<and> p9getenv ''Home'' e' = Some ''/usr'' \<and> p9getenv ''path'' e' = Some ''c:''"
proof -
  have g: "p9getenv ''path'' \<lparr>environ = [''PATH=c:'', ''HOME=d:''], envsz = 2\<rparr> = Some ''c:''" by code_simp
  have l: "lows ''Home'' = lows ''home''" "lows ''path'' \<noteq> lows ''home''" by code_simp+
  obtain e' where "p9putenv ''home'' (Some ''/usr'') \<lparr>environ = [''PATH=c:'', ''HOME=d:''], envsz = 2\<rparr> = Some e'"
    "\<forall>t. CHR ''='' \<notin> set t \<longrightarrow> p9getenv t e' = (if lows t = lows ''home'' then Some ''/usr'' else p9getenv t \<lparr>environ = [''PATH=c:'', ''HOME=d:''], envsz = 2\<rparr>)"
    using putenv_sets_one [of "''home''" "\<lparr>environ = [''PATH=c:'', ''HOME=d:''], envsz = 2\<rparr>" "''/usr''"] by auto
  then show ?thesis using g l by simp
qed

text \<open>No value removes a variable.\<close>

lemma putenv_never_removes: "p9putenv s None e = None"
  by (simp add: p9putenv_def)

section \<open>A new process\<close>

lemma env_map_iff:
  assumes "inj_on env_name (set ps)"
  shows "env_map ps k = Some v \<longleftrightarrow> (\<exists>p\<in>set ps. CHR ''='' \<in> set p \<and> env_name p = k \<and> env_value p = v)"
  using assms
proof (induction ps)
  case (Cons p ps)
  then have IH: "env_map ps k = Some v \<longleftrightarrow> (\<exists>p\<in>set ps. CHR ''='' \<in> set p \<and> env_name p = k \<and> env_value p = v)" by (simp add: inj_on_insert)
  have same: "q = p" if "q \<in> set ps" "env_name q = env_name p" for q using that Cons.prems by (auto simp: inj_on_def)
  show ?case using IH same by auto
qed simp

lemma env_map_set: "set ps = set qs \<Longrightarrow> inj_on env_name (set ps) \<Longrightarrow> env_map ps = env_map qs"
proof (rule ext)
  fix k
  assume a: "set ps = set qs" "inj_on env_name (set ps)"
  then have "env_map ps k = Some v \<longleftrightarrow> env_map qs k = Some v" for v using env_map_iff [of ps k v] env_map_iff [of qs k v] by simp
  then show "env_map ps k = env_map qs k" by (metis option.exhaust)
qed

lemma path_upper_same: "CHR ''='' \<in> set (path_upper p) \<longleftrightarrow> CHR ''='' \<in> set p" "CHR ''='' \<in> set p \<Longrightarrow> env_name (path_upper p) = env_name p"
  "CHR ''='' \<in> set p \<Longrightarrow> env_value (path_upper p) = env_value p"
proof -
  have n: "CHR ''='' \<notin> set ''Path''" "lows ''PATH'' = lows ''Path''" by code_simp+
  have "(CHR ''='' \<in> set (path_upper p) \<longleftrightarrow> CHR ''='' \<in> set p) \<and> (CHR ''='' \<in> set p \<longrightarrow> env_name (path_upper p) = env_name p \<and> env_value (path_upper p) = env_value p)"
  proof (cases "ch p 0 = CHR ''P'' \<and> low_prefix ''Path='' p")
    case True
    have "length ''Path='' = 5" by simp
    then have "lows (take 5 p) = lows ''Path=''" using True unfolding low_prefix_def by metis
    then have e: "lows (take 5 p) = lows ''Path'' @ [61]" by (simp add: lows_def tolow_def)
    then have "length (lows (take 5 p)) = 5" by simp
    then have l: "length (take 5 p) = 5" by simp
    then have p5: "5 \<le> length p" by simp
    have "take 4 (lows (take 5 p)) = lows ''Path''" unfolding e by (simp add: lows_def)
    moreover have "take 4 (lows (take 5 p)) = lows (take 4 p)" by (simp add: lows_def take_map min_def)
    ultimately have t4: "lows (take 4 p) = lows ''Path''" by simp
    have "lows (take 5 p) ! 4 = 61" unfolding e by (simp add: lows_def)
    then have "tolow (p ! 4) = 61" using p5 by (simp add: lows_def)
    then have c: "p ! 4 = CHR ''=''" by (simp add: tolow_eq)
    have l4: "length ''Path'' = 4" by simp
    have m: "env_match ''Path'' p" unfolding env_match_def low_prefix_def l4 using t4 c p5 by (simp add: ch_def)
    have "take 4 (''PATH'' @ drop 4 p) = ''PATH''" "ch (''PATH'' @ drop 4 p) 4 = CHR ''=''" using c p5 by (simp_all add: ch_def nth_append)
    then have m': "env_match ''Path'' (''PATH'' @ drop 4 p)" unfolding env_match_def low_prefix_def l4 using n(2) by simp
    have "env_value (''PATH'' @ drop 4 p) = env_value p"
      using env_value_drop [OF n(1) m, unfolded l4] env_value_drop [OF n(1) m', unfolded l4] by simp
    then show ?thesis using True m m' n(1) by (simp add: path_upper_def env_match_name)
  next
    case False
    then have "path_upper p = p" unfolding path_upper_def by (rule if_not_P)
    then show ?thesis by simp
  qed
  then show "CHR ''='' \<in> set (path_upper p) \<longleftrightarrow> CHR ''='' \<in> set p" "CHR ''='' \<in> set p \<Longrightarrow> env_name (path_upper p) = env_name p"
    "CHR ''='' \<in> set p \<Longrightarrow> env_value (path_upper p) = env_value p" by auto
qed

lemma env_map_upper: "env_map (map path_upper ps) = env_map ps"
  by (induction ps) (simp_all add: path_upper_same del: fun_upd_apply)

lemma block_strings_back: "\<forall>w\<in>set ws. w \<noteq> [] \<and> 0 \<notin> set w \<Longrightarrow> block_strings (concat (map (\<lambda>w. w @ [0]) ws) @ [0]) = ws"
proof (induction ws)
  case Nil
  then show ?case by (subst block_strings.simps) simp
next
  case (Cons w ws)
  have "takeWhile (\<lambda>c. c \<noteq> 0) (w @ 0 # r) = w" for r using Cons.prems by (auto simp: takeWhile_append)
  then show ?case using Cons by (subst block_strings.simps) (simp add: Let_def)
qed

text \<open>Strings that Windows can hold: runes of \<open>V\<close>, at least one.\<close>

definition wide_env :: "utf \<Rightarrow> nat set \<Rightarrow> string list \<Rightarrow> bool" where
  "wide_env u V es \<longleftrightarrow> (\<forall>s\<in>set es. \<exists>rs. s = enc u rs \<and> rs \<noteq> [] \<and> set rs \<subseteq> V)"

lemma export_back:
  assumes "utf_law u V" "wide_env u V es" "es \<noteq> []"
  shows "\<exists>b. exportenv u es = Some b \<and> map (winwstrtoutfm u) (block_strings b) = winsortenv es"
proof -
  have w: "wide_env u V (winsortenv es)" using assms(2) by (simp add: wide_env_def winsortenv_def)
  have "winutf2wstr u s \<noteq> [] \<and> 0 \<notin> set (winutf2wstr u s) \<and> winwstrtoutfm u (winutf2wstr u s) = s" if s: "s \<in> set (winsortenv es)" for s
  proof -
    obtain rs where rs: "s = enc u rs" "rs \<noteq> []" "set rs \<subseteq> V" using w s by (auto simp: wide_env_def)
    have "0 \<notin> V" using assms(1) by (auto simp: utf_law_def)
    then have "0 \<notin> set rs" using rs(3) by blast
    then show ?thesis using rs winutf2wstr_enc [OF assms(1) rs(3)] winwstrtoutfm_enc [OF assms(1) rs(3)] by simp
  qed
  note s = this
  have "block_strings (concat (map (\<lambda>w. w @ [0]) (map (winutf2wstr u) (winsortenv es))) @ [0]) = map (winutf2wstr u) (winsortenv es)"
    by (rule block_strings_back) (use s in auto)
  moreover have "map (winwstrtoutfm u) (map (winutf2wstr u) (winsortenv es)) = winsortenv es" using s by (simp add: map_idI)
  ultimately show ?thesis using assms(3) by (auto simp: exportenv_def comp_def)
qed

text \<open>C28. The environment of a program on Windows arrives in the programs it starts: what \<open>exportenv\<close> writes and the start-up
  code of the other reads gives every variable the same value, although the strings are sorted, become wide strings and come back.
  The strings of the block are those of the table, each as often, in ascending order when case does not count.
  Blanks in the paths are not converted twice.\<close>

theorem environment_arrives:
  assumes "utf_law u V" "wide_env u V (environ e)" "inj_on env_name (set (environ e))" "p9getenv ''P9FILEWSDONE'' e \<noteq> None"
  shows "\<exists>b. exportenv u (environ e) = Some b
    \<and> mset (map (winwstrtoutfm u) (block_strings b)) = mset (environ e)
    \<and> sorted (map lows (map (winwstrtoutfm u) (block_strings b)))
    \<and> (\<forall>s. CHR ''='' \<notin> set s \<longrightarrow> p9getenv s (mingwinitenv u cfg (block_strings b)) = p9getenv s e)"
proof -
  have "environ e \<noteq> []" using assms(4) by (auto simp: p9getenv_def env_get_def)
  then obtain b where b: "exportenv u (environ e) = Some b" "map (winwstrtoutfm u) (block_strings b) = winsortenv (environ e)"
    using export_back [OF assms(1,2)] by blast
  define c where "c = \<lparr>environ = map (path_upper \<circ> winwstrtoutfm u) (block_strings b), envsz = length (block_strings b) + Nmore\<rparr>"
  have "environ c = map path_upper (winsortenv (environ e))" by (simp add: c_def flip: b(2))
  then have m: "env_map (environ c) = env_map (environ e)"
    using env_map_set [of "winsortenv (environ e)" "environ e"] assms(3) by (simp add: env_map_upper winsortenv_def)
  have g: "p9getenv s c = p9getenv s e" if "CHR ''='' \<notin> set s" for s using getenv_map [OF that] m by simp
  have "CHR ''='' \<notin> set ''P9FILEWSDONE''" by code_simp
  then have "mingwinitenv u cfg (block_strings b) = c" using g assms(4) by (simp add: mingwinitenv_def convertfilews_def c_def)
  then have "\<forall>s. CHR ''='' \<notin> set s \<longrightarrow> p9getenv s (mingwinitenv u cfg (block_strings b)) = p9getenv s e" using g by simp
  moreover have "mset (map (winwstrtoutfm u) (block_strings b)) = mset (environ e)"
    "sorted (map lows (map (winwstrtoutfm u) (block_strings b)))"
    unfolding b(2) by (simp_all add: winsortenv_def)
  ultimately show ?thesis using b(1) by blast
qed

lemma enc_ascii: "list_all (\<lambda>c. (of_char c :: nat) < 128) s \<Longrightarrow> enc utf2 (map of_char s) = s"
proof (induction s)
  case (Cons c s)
  then have "runetochar utf2 (of_char c) = [c]" by (simp add: utf2_def)
  then show ?case using Cons by simp
qed simp

lemma wide_ascii: "list_all (\<lambda>s. s \<noteq> [] \<and> list_all (\<lambda>c. 0 < (of_char c :: nat) \<and> (of_char c :: nat) < 128) s) es \<Longrightarrow> wide_env utf2 {1..<2048} es"
  unfolding wide_env_def
proof
  fix s
  assume a: "list_all (\<lambda>s. s \<noteq> [] \<and> list_all (\<lambda>c. 0 < (of_char c :: nat) \<and> (of_char c :: nat) < 128) s) es" "s \<in> set es"
  then have "s \<noteq> []" "list_all (\<lambda>c. 0 < (of_char c :: nat) \<and> (of_char c :: nat) < 128) s" by (auto simp: list_all_iff)
  then show "\<exists>rs. s = enc utf2 rs \<and> rs \<noteq> [] \<and> set rs \<subseteq> {1..<2048}"
    by (intro exI [where x = "map of_char s"]) (fastforce simp: enc_ascii list_all_iff Suc_le_eq)
qed

lemma environment_arrives_witness:
  "\<exists>b. exportenv utf2 [''P9FILEWSDONE=1'', ''Path=c:''] = Some b \<and> p9getenv ''path'' (mingwinitenv utf2 None (block_strings b)) = Some ''c:''"
proof -
  define e where "e = \<lparr>environ = [''P9FILEWSDONE=1'', ''Path=c:''], envsz = 10\<rparr>"
  have w: "wide_env utf2 {1..<2048} (environ e)" unfolding e_def by (rule wide_ascii) code_simp
  have "env_name ''P9FILEWSDONE=1'' \<noteq> env_name ''Path=c:''" by code_simp
  then have i: "inj_on env_name (set (environ e))" by (simp add: e_def)
  have g: "p9getenv ''P9FILEWSDONE'' e \<noteq> None" "p9getenv ''path'' e = Some ''c:''" unfolding e_def by code_simp+
  have "CHR ''='' \<notin> set ''path''" by code_simp
  then show ?thesis using environment_arrives [OF utf2_law w i g(1), of None] g(2) by (auto simp: e_def)
qed

text \<open>The strings that are made for a program that replaces this one are not stored when they are ASCII.\<close>

lemma runeenv_stores_nothing: "utflen u s = length s \<Longrightarrow> winutftowstr u s (length s) = (length s, None)"
  by (simp add: winutftowstr_def)

end
