(* ===== verification/WinProg.thy ===== *)
theory WinProg
  imports WinFdCalls WinProc WinSpawn WinEnv
begin

text \<open>
  Starting programs on Windows, src/src/lib9/mingw: the search for a program (xpath.c, \<open>lookupexe\<close> of spawn.c), \<open>access\<close>
  (access.c), the descriptors that a new process gets (\<open>fdexport\<close>, \<open>winspawne\<close>), \<open>exec\<close> (exec.c), posting a service
  (post9p.c, getns.c), and the console as a whole (\<open>winhascons\<close>, \<open>winconsctl\<close> of cons.c, readcons.c).
\<close>

section \<open>Finding a program\<close>

definition fexists :: "'os wlib \<Rightarrow> string \<Rightarrow> 'os \<Rightarrow> bool" where
  "fexists lib nm os = w_exists lib (winutf2wpath (w_utf lib) (w_cfg lib) nm) os"

text \<open>The interpreter that the first line of a script names, without arguments. The last byte that was read is overwritten.\<close>

definition script_shell :: "'os wlib \<Rightarrow> string \<Rightarrow> string option" where
  "script_shell lib bs =
     (let t = butlast bs
      in if 4 < length bs \<and> take 2 t = ''#!''
         then let p = takeWhile (\<lambda>c. c \<notin> {NUL, CHR '' '', CHR 0x0D, CHR 0x0A}) (dropWhile (\<lambda>c. c = CHR '' '') (drop 2 t))
              in Some (if p = ''/usr/local/plan9/bin/rc'' then w_unsharp lib ''#9/mingw/bin/rc'' else p)
         else None)"

text \<open>\<open>None\<close> when there is no such program, else its path and the interpreter. A suffix that is appended beyond the 260 bytes
  of the path is undefined, and so is a path of less than 4 bytes.\<close>

definition winexecpath :: "'os wlib \<Rightarrow> nat \<Rightarrow> string \<Rightarrow> bool \<Rightarrow> ('os, (string \<times> string option) option) wm" where
  "winexecpath lib k f wantshell s =
     (case setpath (w_fullpath lib (w_os s)) f of
        None \<Rightarrow> ret (None, s)
      | Some p \<Rightarrow>
          if length p < 4 then Some (Inl WUndef)
          else if p ! (length p - 4) = CHR ''.'' \<and> fexists lib p (w_os s) then ret (Some (p, None), s)
          else if 260 \<le> length p + 4 then Some (Inl WUndef)
          else if fexists lib (p @ ''.exe'') (w_os s) then ret (Some (p @ ''.exe'', None), s)
          else if fexists lib (p @ ''.com'') (w_os s) then ret (Some (p @ ''.com'', None), s)
          else if \<not> wantshell then ret (None, s)
          else rbind (p9open lib f OREAD s) (\<lambda>(fd, s).
            if fd = -1 then ret (None, s)
            else rbind (p9read lib k fd 80 s) (\<lambda>((n, bs), s).
              rbind (p9close lib fd s) (\<lambda>(_, s).
                if n < 1 then ret (None, s)
                else ret (map_option (\<lambda>sh. (p, Some sh)) (script_shell lib bs), s)))))"

text \<open>The directories of the path, separated by semicolons; nothing after the last one.\<close>

function path_dirs :: "string \<Rightarrow> string list" where
  "path_dirs p = (if p = [] then [] else takeWhile (\<lambda>c. c \<noteq> CHR '';'') p # path_dirs (drop 1 (dropWhile (\<lambda>c. c \<noteq> CHR '';'') p)))"
  by auto

termination
proof (relation "measure length")
  fix p :: string
  assume "p \<noteq> []"
  moreover have "length (dropWhile (\<lambda>c. c \<noteq> CHR '';'') p) \<le> length p" by (rule length_dropWhile_le)
  ultimately show "(drop 1 (dropWhile (\<lambda>c. c \<noteq> CHR '';'') p), p) \<in> measure length" by (cases p) auto
qed simp

declare path_dirs.simps [simp del]

fun search_path :: "'os wlib \<Rightarrow> nat \<Rightarrow> string \<Rightarrow> string list \<Rightarrow> ('os, (string \<times> string option) option) wm" where
  "search_path lib k f [] s = ret (None, s)"
| "search_path lib k f (d # ds) s =
     rbind (winexecpath lib k (take 259 (d @ ''/'' @ f)) True s) (\<lambda>(r, s). if r \<noteq> None then ret (r, s) else search_path lib k f ds s)"

definition full_name :: "string \<Rightarrow> bool" where
  "full_name f \<longleftrightarrow> ch f 0 = CHR 0x5C \<or> ch f 0 = CHR ''/'' \<or> ch f 0 = CHR ''.'' \<or> winisdrvspec f"

text \<open>The path and the arguments of the program to start, which is the interpreter for a script.\<close>

definition lookupexe :: "'os wlib \<Rightarrow> nat \<Rightarrow> env \<Rightarrow> string \<Rightarrow> string list \<Rightarrow> bool \<Rightarrow> ('os, (string \<times> string list) option) wm" where
  "lookupexe lib k e f argv search s =
     rbind (winexecpath lib k f True s) (\<lambda>(r, s).
     rbind (if r = None \<and> \<not> full_name f \<and> search
            then search_path lib k f (case p9getenv ''PATH'' e of None \<Rightarrow> [] | Some p \<Rightarrow> path_dirs p) s else ret (r, s)) (\<lambda>(r, s).
       case r of
         None \<Rightarrow> ret (None, s)
       | Some (p, None) \<Rightarrow> ret (Some (p, argv), s)
       | Some (p, Some sh) \<Rightarrow>
           (case getshargs sh p argv of
              None \<Rightarrow> Some (Inl WUndef)
            | Some argv \<Rightarrow>
                rbind (winexecpath lib k sh False s) (\<lambda>(r, s). ret (map_option (\<lambda>x. (fst x, argv)) r, s)))))"

definition AEXEC :: u32 where "AEXEC = 1"
definition AWRITE :: u32 where "AWRITE = 2"
definition AREAD :: u32 where "AREAD = 4"

definition p9access :: "'os wlib \<Rightarrow> nat \<Rightarrow> string \<Rightarrow> u32 \<Rightarrow> ('os, int) wm" where
  "p9access lib k nm mode s =
     (let omode = (if mode \<noteq> 0 \<and> has mode AWRITE then if has mode AREAD then ORDWR else OWRITE else OREAD)
      in rbind (if has mode AEXEC then rbind (winexecpath lib k nm True s) (\<lambda>(r, s). ret (map_option fst r, s)) else ret (Some nm, s)) (\<lambda>(r, s).
           case r of
             None \<Rightarrow> ret (-1, s)
           | Some nm \<Rightarrow>
               rbind (p9open lib nm omode s) (\<lambda>(fd, s).
                 if fd < 0 then ret (-1, s) else rbind (p9close lib fd s) (\<lambda>(_, s). ret (0, s)))))"

section \<open>Starting a program\<close>

text \<open>The handle for the new process, and whether a helper process of this program uses the descriptor from now on.\<close>

definition fdexport :: "'os wlib \<Rightarrow> int \<Rightarrow> bool \<Rightarrow> ('os, int \<times> bool) wm" where
  "fdexport lib fd tx s =
     rbind (fdtget lib fd s) (\<lambda>(r, s).
       case r of
         None \<Rightarrow> ret ((-1, False), s)
       | Some a \<Rightarrow>
           let f = the (heap s a); t = f_type f
           in if t = Fdtypefile \<or> t = Fdtypestd \<or> t = Fdtypecons
              then (let (h, os) = w_duph lib (f_h f) (w_os s)
                    in ret (case h of None \<Rightarrow> (-1, False) | Some h \<Rightarrow> (h, False), s\<lparr>w_os := os\<rparr>))
              else if t = Fdtypedevnull \<or> is_pipe t \<or> t = Fdtypesock
              then (let fd = (if t = Fdtypedevnull then -1 else fd);
                        (p, os) = w_anonpipe lib (w_os s); s = s\<lparr>w_os := os\<rparr>
                    in case p of
                         None \<Rightarrow> ret ((-1, False), s)
                       | Some (hr, hw) \<Rightarrow>
                           let (l, r) = (if tx then (hw, hr) else (hr, hw))
                           in ret ((r, fd \<noteq> -1), on_os (\<lambda>os. w_rxtx lib fd (if tx then OREAD else OWRITE) l (w_noinherit lib l os)) s))
              else ret ((-1, False), s))"

definition winhascons :: "'os wlib \<Rightarrow> ('os, bool) wm" where
  "winhascons lib s =
     rbind (p9open lib ''/dev/tty'' OWRITE s) (\<lambda>(fd, s).
       if fd < 0 then ret (False, s) else rbind (p9close lib fd s) (\<lambda>(_, s). ret (True, s)))"

definition close_unless :: "'os wlib \<Rightarrow> bool \<Rightarrow> int \<Rightarrow> ('os, unit) wm" where
  "close_unless lib b fd s = (if b then ret ((), s) else rbind (p9close lib fd s) (\<lambda>(_, s). ret ((), s)))"

text \<open>The descriptors are closed when the program has started. The flags say whether it is detached from the console or gets
  a group of its own.\<close>

definition winspawne :: "'os wlib \<Rightarrow> nat \<Rightarrow> env \<Rightarrow> int \<times> int \<times> int \<Rightarrow> string \<Rightarrow> string list \<Rightarrow> string list \<Rightarrow> bool \<Rightarrow> ('os, int) wm" where
  "winspawne lib k e fd f argv env search s =
     (case fd of (fda, fdb, fdc) \<Rightarrow>
       rbind (lookupexe lib k e f argv search s) (\<lambda>(r, s).
         case r of
           None \<Rightarrow> ret (-1, s)
         | Some (p, argv) \<Rightarrow>
             rbind (fdexport lib fda True s) (\<lambda>((ha, ua), s).
             rbind (fdexport lib fdb False s) (\<lambda>((hb, ub), s).
             rbind (fdexport lib fdc False s) (\<lambda>((hc, uc), s).
               case proccmd argv of
                 None \<Rightarrow> Some (Inl WUndef)
               | Some cmd \<Rightarrow>
                   rbind (winhascons lib s) (\<lambda>(tty, s).
                     let (pr, os) = w_createproc lib (winutf2wpath (w_utf lib) (w_cfg lib) p) (winutf2wstr (w_utf lib) cmd) (\<not> tty, tty \<and> spawnpg s)
                                      (exportenv (w_utf lib) env) [ha, hb, hc] (w_os s);
                         os = w_close lib hc (w_close lib hb (w_close lib ha os));
                         s = s\<lparr>spawnpg := spawnpg s \<and> \<not> tty, w_os := os\<rparr>
                     in case pr of
                          None \<Rightarrow> ret (-1, s)
                        | Some (pid, hproc, hthread) \<Rightarrow>
                            let (r, s) = winaddchild pid hproc (on_os (w_close lib hthread) s)
                            in if r = -1 then ret (-1, s)
                               else rbind (close_unless lib ua fda s) (\<lambda>(_, s).
                                    rbind (close_unless lib (fdb = fda \<or> ub) fdb s) (\<lambda>(_, s).
                                    rbind (close_unless lib (fdc = fdb \<or> fdc = fda \<or> uc) fdc s) (\<lambda>(_, s). ret (pid, s))))))))))"

definition winspawn :: "'os wlib \<Rightarrow> nat \<Rightarrow> env \<Rightarrow> int \<times> int \<times> int \<Rightarrow> string \<Rightarrow> string list \<Rightarrow> bool \<Rightarrow> ('os, int) wm" where
  "winspawn lib k e fd f argv search s = winspawne lib k e fd f argv (environ e) search s"

text \<open>When the program has started this one waits for it and ends with its status: \<open>None\<close>. Else -1.\<close>

definition winexecve :: "'os wlib \<Rightarrow> nat \<Rightarrow> env \<Rightarrow> string \<Rightarrow> string list \<Rightarrow> string list \<Rightarrow> ('os, int option) wm" where
  "winexecve lib k e prog argv env s =
     rbind (p9dup lib 0 (-1) s) (\<lambda>(a, s).
     rbind (p9dup lib 1 (-1) s) (\<lambda>(b, s).
     rbind (p9dup lib 2 (-1) s) (\<lambda>(c, s).
     rbind (winspawne lib k e (a, b, c) prog argv env True s) (\<lambda>(pid, s).
       if 0 \<le> pid then ret (None, s)
       else rbind (p9close lib a s) (\<lambda>(_, s).
            rbind (p9close lib b s) (\<lambda>(_, s).
            rbind (p9close lib c s) (\<lambda>(_, s). ret (Some (-1), s))))))))"

text \<open>The name space of a program; \<open>host\<close> is its machine.\<close>

definition getns :: "env \<Rightarrow> string option \<Rightarrow> string option" where
  "getns e host = (case p9getenv ''NAMESPACE'' e of Some ns \<Rightarrow> Some ns | None \<Rightarrow> map_option (\<lambda>h. ''/tmp/ns.'' @ h) host)"

text \<open>What becomes of the server that is started is not looked at.\<close>

definition post9pservice :: "'os wlib \<Rightarrow> nat \<Rightarrow> env \<Rightarrow> string option \<Rightarrow> int \<Rightarrow> string \<Rightarrow> ('os, int) wm" where
  "post9pservice lib k e host fd nm s =
     (case (if CHR ''!'' \<in> set nm then Some nm else map_option (\<lambda>ns. ''unix!'' @ ns @ ''/'' @ nm) (getns e host)) of
        None \<Rightarrow> ret (-1, s)
      | Some addr \<Rightarrow>
          rbind (p9dup lib fd (-1) s) (\<lambda>(a, s).
          rbind (p9dup lib 2 (-1) s) (\<lambda>(c, s).
          rbind (winspawn lib k e (a, a, c) ''9pserve'' [''9pserve'', ''-u'', addr] True s) (\<lambda>(_, s). ret (0, s)))))"

section \<open>The console\<close>

definition RawOn :: nat where "RawOn = 0"
definition RawOff :: nat where "RawOff = 1"

definition winconsctl :: "'os wlib \<Rightarrow> nat \<Rightarrow> ('os, unit) wm" where
  "winconsctl lib cmd s =
     rbind (fdtget lib 0 s) (\<lambda>(r, s).
       case r of
         None \<Rightarrow> ret ((), s)
       | Some a \<Rightarrow>
           let f = the (heap s a)
           in if f_type f \<noteq> Fdtypecons then ret ((), s)
              else case w_consmode lib (f_h f) (w_os s) of
                     None \<Rightarrow> ret ((), s)
                   | Some m \<Rightarrow>
                       let m = (if cmd = RawOn then m AND NOT 6 else if cmd = RawOff then m OR 6 else m)
                       in ret ((), on_os (w_setconsmode lib (f_h f) m) s))"

definition winconscolumns :: "'os wlib \<Rightarrow> ('os, int option) wm" where
  "winconscolumns lib s =
     rbind (fdtget lib 1 s) (\<lambda>(r, s).
       ret (case r of
              None \<Rightarrow> None
            | Some a \<Rightarrow> let f = the (heap s a)
                in if f_type f \<noteq> Fdtypecons then None else map_option (\<lambda>(l, r). r - l + 1) (w_conswindow lib (f_h f) (w_os s)), s))"

definition rawx :: "'os wlib \<Rightarrow> int \<Rightarrow> ('os, int) wm" where
  "rawx lib echoing s =
     (if echoing = -1 then ret (-1, s)
      else rbind (winconsctl lib (if echoing = 0 then RawOn else nat echoing) s) (\<lambda>(_, s). ret (int RawOff, s)))"

text \<open>The line that is typed: backspace takes a character back, control-U all. \<open>None\<close> when it is given up. The outer fuel counts
  the bytes.\<close>

definition cons_prompt :: "string \<Rightarrow> string option \<Rightarrow> string" where
  "cons_prompt prompt dflt = (case dflt of None \<Rightarrow> prompt @ '': '' | Some d \<Rightarrow> prompt @ ''['' @ d @ '']: '')"

definition cons_end :: "'os wlib \<Rightarrow> int \<Rightarrow> bool \<Rightarrow> int \<Rightarrow> ('os, unit) wm" where
  "cons_end lib fd secret raw s =
     rbind (if secret then rbind (rawx lib raw s) (\<lambda>(_, s). rbind (p9write lib fd [CHR 0x0A] s) (\<lambda>(_, s). ret ((), s))) else ret ((), s)) (\<lambda>(_, s).
     rbind (p9close lib fd s) (\<lambda>(_, s). ret ((), s)))"

fun readcons_lines :: "'os wlib \<Rightarrow> nat \<Rightarrow> int \<Rightarrow> string \<Rightarrow> string option \<Rightarrow> bool \<Rightarrow> int \<Rightarrow> string \<Rightarrow> ('os, string option) wm" where
  "readcons_lines lib 0 fd prompt dflt secret raw t s = None"
| "readcons_lines lib (Suc k) fd prompt dflt secret raw t s =
     rbind (p9read lib (Suc k) fd 1 s) (\<lambda>((n, bs), s).
       let c = (if bs = [] then NUL else hd bs)
       in if n < 0 \<or> 0 < n \<and> c = CHR 0x7F then rbind (cons_end lib fd secret raw s) (\<lambda>(_, s). ret (None, s))
          else if n = 0 \<or> c = CHR 0x04 \<or> c = CHR 0x0A \<or> c = CHR 0x0D
          then rbind (cons_end lib fd secret raw s) (\<lambda>(_, s). ret (Some (if t = [] then (case dflt of None \<Rightarrow> t | Some d \<Rightarrow> d) else t), s))
          else if c = CHR 0x08 then readcons_lines lib k fd prompt dflt secret raw (butlast t) s
          else if c = CHR 0x15
          then rbind (p9write lib 2 (CHR 0x0A # cons_prompt prompt dflt) s) (\<lambda>(_, s). readcons_lines lib k fd prompt dflt secret raw [] s)
          else readcons_lines lib k fd prompt dflt secret raw (t @ [c]) s)"

definition readcons :: "'os wlib \<Rightarrow> nat \<Rightarrow> string \<Rightarrow> string option \<Rightarrow> bool \<Rightarrow> ('os, string option) wm" where
  "readcons lib k prompt dflt secret s =
     rbind (p9open lib ''/dev/tty'' OREAD s) (\<lambda>(fd, s).
       if fd < 0 then ret (None, s)
       else rbind (if secret then rawx lib 0 s else ret (-1, s)) (\<lambda>(raw, s).
            if secret \<and> raw = -1 then ret (None, s)
            else rbind (p9write lib 2 (cons_prompt prompt dflt) s) (\<lambda>(_, s). readcons_lines lib k fd prompt dflt secret raw [] s)))"

end
