(* ===== verification/WinProgFds.thy ===== *)
theory WinProgFds
  imports WinProg
begin

text \<open>
  What starting a program does to the descriptors of the one that starts it: the search and the console give back the
  descriptor that they open, an \<open>exec\<close> that fails leaves all as they were.
\<close>

section \<open>A descriptor for a while\<close>

lemma fds_minus [simp]: "fds s (-1) = None"
  by (simp add: fds_def)

lemma opens_none: "opens s fd m \<Longrightarrow> fds s fd = None"
  by (auto simp: opens_def lowest_free_def split: if_splits)

lemma opens_mono: "opens s fd m \<Longrightarrow> fds m d = None \<Longrightarrow> fds s d = None"
  unfolding opens_def lowest_free_def by (metis fun_upd_other)

lemma opens_other: "opens s fd m \<Longrightarrow> d \<noteq> fd \<Longrightarrow> fds m d = fds s d"
  unfolding opens_def by (metis fun_upd_other)

lemma opens_undo: "opens s fd m \<Longrightarrow> (fds m)(fd := None) = fds s"
  using opens_none [of s fd m] opens_other [of s fd m] by (auto simp: fun_eq_iff)

lemma p9close_fds: "p9close lib fd s = ret (r, s') \<Longrightarrow> fd_inv s \<Longrightarrow> fd_inv s' \<and> fds s' = (fds s)(fd := None)"
  by (auto simp: p9close_def rbind_eq_ret dest: fdtclose_inv)

lemma open_close:
  assumes "opens s fd m" "same_fds m m'" "p9close lib fd m' = ret (r, s')"
  shows "same_fds s s'"
proof -
  have "fd_inv m'" "fds m' = fds m" using assms(2) by (simp_all add: same_fds_def)
  with p9close_fds [OF assms(3)] opens_undo [OF assms(1)] show ?thesis by (simp add: same_fds_def)
qed

lemma same_refl: "fd_inv s \<Longrightarrow> same_fds s s"
  by (simp add: same_fds_def)

lemma same_inv: "same_fds s s' \<Longrightarrow> fd_inv s'"
  by (simp add: same_fds_def)

lemma same_world [simp]: "same_fds s (m\<lparr>w_os := os\<rparr>) = same_fds s m" "same_fds s (on_os g m) = same_fds s m"
  by (simp_all add: same_fds_def on_os_def)

lemma table_apart [simp]: "fd_inv (s\<lparr>spawnpg := b\<rparr>) = fd_inv s" "fds (s\<lparr>spawnpg := b\<rparr>) = fds s"
  "fd_inv (s\<lparr>children := c\<rparr>) = fd_inv s" "fds (s\<lparr>children := c\<rparr>) = fds s"
  by (simp_all add: fd_inv_def fds_def fun_eq_iff)

section \<open>Finding a program\<close>

lemma winexecpath_same:
  assumes "winexecpath lib k f ws s = ret (r, s')" "fd_inv s"
  shows "same_fds s s'"
proof (cases "setpath (w_fullpath lib (w_os s)) f")
  case None
  then show ?thesis using assms by (simp add: winexecpath_def same_fds_def)
next
  case (Some p)
  note d = assms(1) [unfolded winexecpath_def Some option.case]
  show ?thesis
  proof (cases "s' = s")
    case True
    then show ?thesis using assms(2) by (simp add: same_fds_def)
  next
    case False
    then obtain fd m where m: "p9open lib f OREAD s = ret (fd, m)" using d by (auto simp: rbind_eq_ret split: if_splits)
    have o: "opens s fd m" by (rule p9open_opens [OF m assms(2)])
    show ?thesis
    proof (cases "fd = -1")
      case True
      then have "s' = m" using d m False by (auto split: if_splits)
      then show ?thesis using o True by (simp add: opens_def same_fds_def)
    next
      case F: False
      then obtain x m' where m': "p9read lib k fd 80 m = ret (x, m')" using d m False by (auto simp: rbind_eq_ret split: if_splits)
      then obtain y s1 where s1: "p9close lib fd m' = ret (y, s1)" using d m False F by (cases x) (auto simp: rbind_eq_ret split: if_splits)
      then have "s' = s1" using d m m' False F by (cases x) (auto split: if_splits)
      moreover have "same_fds m m'" by (rule p9read_same [OF m']) (use o in \<open>simp add: opens_def\<close>)
      ultimately show ?thesis using open_close [OF o _ s1] by simp
    qed
  qed
qed

lemma search_path_same: "search_path lib k f ds s = ret (r, s') \<Longrightarrow> fd_inv s \<Longrightarrow> same_fds s s'"
proof (induction ds arbitrary: s)
  case Nil
  then show ?case by (simp add: same_fds_def)
next
  case (Cons d ds)
  obtain x m where m: "winexecpath lib k (take 259 (d @ ''/'' @ f)) True s = ret (x, m)" using Cons.prems(1) by (auto simp: rbind_eq_ret)
  have a: "same_fds s m" by (rule winexecpath_same [OF m Cons.prems(2)])
  show ?case
  proof (cases "x = None")
    case True
    then have "search_path lib k f ds m = ret (r, s')" using Cons.prems(1) m by simp
    then have "same_fds m s'" by (rule Cons.IH) (rule same_inv [OF a])
    then show ?thesis using a same_fds_trans by blast
  next
    case False
    then show ?thesis using Cons.prems(1) m a by auto
  qed
qed

lemma lookupexe_same:
  assumes "lookupexe lib k e f argv search s = ret (r, s')" "fd_inv s"
  shows "same_fds s s'"
proof -
  obtain x m where m: "winexecpath lib k f True s = ret (x, m)" using assms(1) by (auto simp: lookupexe_def rbind_eq_ret)
  have a: "same_fds s m" by (rule winexecpath_same [OF m assms(2)])
  define ds where "ds = (case p9getenv ''PATH'' e of None \<Rightarrow> [] | Some p \<Rightarrow> path_dirs p)"
  obtain y n where n: "(if x = None \<and> \<not> full_name f \<and> search then search_path lib k f ds m else ret (x, m)) = ret (y, n)"
    using assms(1) m unfolding lookupexe_def ds_def [symmetric] by (auto simp: rbind_eq_ret)
  have b: "same_fds s n"
  proof (cases "x = None \<and> \<not> full_name f \<and> search")
    case True
    then have "search_path lib k f ds m = ret (y, n)" using n by simp
    then have "same_fds m n" by (rule search_path_same) (rule same_inv [OF a])
    then show ?thesis using a same_fds_trans by blast
  next
    case False
    then have "ret (x, m) = (ret (y, n) :: (wstop, _) res)" using n by (simp only: if_False)
    then show ?thesis using a by simp
  qed
  note d = assms(1) [unfolded lookupexe_def m rbind_simps prod.case ds_def [symmetric] n]
  consider (none) "y = None" | (exe) p where "y = Some (p, None)" | (script) p sh where "y = Some (p, Some sh)"
    by (metis option.exhaust surj_pair)
  then show ?thesis
  proof cases
    case none
    then show ?thesis using d b by auto
  next
    case exe
    then show ?thesis using d b by auto
  next
    case script
    then obtain av where av: "getshargs sh p argv = Some av" using d by (auto split: option.splits)
    then obtain z q where "winexecpath lib k sh False n = ret (z, q)" "s' = q" using d script by (auto simp: rbind_eq_ret)
    then have "same_fds n s'" using winexecpath_same same_inv [OF b] by blast
    then show ?thesis using b same_fds_trans by blast
  qed
qed

lemma p9access_same:
  assumes "p9access lib k nm mode s = ret (r, s')" "fd_inv s"
  shows "same_fds s s'"
proof -
  obtain x m where m: "(if has mode AEXEC then rbind (winexecpath lib k nm True s) (\<lambda>(r, s). ret (map_option fst r, s)) else ret (Some nm, s)) = ret (x, m)"
    using assms(1) by (auto simp: p9access_def Let_def rbind_eq_ret)
  have a: "same_fds s m"
  proof (cases "has mode AEXEC")
    case True
    then have "rbind (winexecpath lib k nm True s) (\<lambda>(r, s). ret (map_option fst r, s)) = ret (x, m)" using m by simp
    then show ?thesis using winexecpath_same assms(2) by (fastforce simp: rbind_eq_ret)
  next
    case False
    then have "ret (Some nm, s) = (ret (x, m) :: (wstop, _) res)" using m by (simp only: if_False)
    then show ?thesis using assms(2) by (simp add: same_fds_def)
  qed
  note d = assms(1) [unfolded p9access_def Let_def m rbind_simps prod.case]
  show ?thesis
  proof (cases x)
    case None
    then show ?thesis using d a by auto
  next
    case (Some q)
    obtain fd n where n: "p9open lib q (if mode \<noteq> 0 \<and> has mode AWRITE then if has mode AREAD then ORDWR else OWRITE else OREAD) m = ret (fd, n)"
      using d Some by (auto simp: rbind_eq_ret)
    have o: "opens m fd n" by (rule p9open_opens [OF n same_inv [OF a]])
    show ?thesis
    proof (cases "fd < 0")
      case True
      then have "s' = n" "fd = -1" using d Some n o by (auto simp: opens_def lowest_free_def split: if_splits)
      then have "same_fds m s'" using o by (simp add: opens_def same_fds_def)
      then show ?thesis using a same_fds_trans by blast
    next
      case False
      then obtain y where "p9close lib fd n = ret (y, s')" using d Some n by (auto simp: rbind_eq_ret)
      moreover have "fd_inv n" using o by (simp add: opens_def)
      ultimately have "same_fds m s'" using open_close [OF o same_refl] by blast
      then show ?thesis using a same_fds_trans by blast
    qed
  qed
qed

section \<open>Starting a program\<close>

lemma fdexport_same:
  assumes "fdexport lib fd tx s = ret (r, s')" "fd_inv s"
  shows "same_fds s s'"
proof -
  obtain x m where g: "fdtget lib fd s = ret (x, m)" using fdtget_spec [OF assms(2), of lib fd] by blast
  have a: "same_fds s m" using fdtget_same [OF g assms(2)] by simp
  have "s' = m \<or> (\<exists>os. s' = m\<lparr>w_os := os\<rparr>)"
  proof (cases x)
    case (Some b)
    then show ?thesis using assms(1) unfolding fdexport_def g rbind_simps
      by (auto simp: Let_def on_os_def split: if_splits option.splits prod.splits)
  qed (use assms(1) g in \<open>simp add: fdexport_def\<close>)
  then show ?thesis using a by auto
qed

lemma winhascons_same:
  assumes "winhascons lib s = ret (r, s')" "fd_inv s"
  shows "same_fds s s'"
proof -
  obtain fd n where n: "p9open lib ''/dev/tty'' OWRITE s = ret (fd, n)" using assms(1) by (auto simp: winhascons_def rbind_eq_ret)
  have o: "opens s fd n" by (rule p9open_opens [OF n assms(2)])
  show ?thesis
  proof (cases "fd < 0")
    case True
    then have "s' = n" "fd = -1" using assms(1) n o by (auto simp: winhascons_def opens_def lowest_free_def split: if_splits)
    then show ?thesis using o by (simp add: opens_def same_fds_def)
  next
    case False
    then obtain y where "p9close lib fd n = ret (y, s')" using assms(1) n by (auto simp: winhascons_def rbind_eq_ret)
    moreover have "fd_inv n" using o by (simp add: opens_def)
    ultimately show ?thesis using open_close [OF o same_refl] by blast
  qed
qed

lemma addchild_same: "fd_inv s \<Longrightarrow> same_fds s (snd (winaddchild pid h s))"
  by (auto simp: winaddchild_def same_fds_def split: option.splits)

lemma close_unless_fds: "close_unless lib b fd s = ret (u, s') \<Longrightarrow> fd_inv s \<Longrightarrow> fd_inv s' \<and> fds s' = (if b then fds s else (fds s)(fd := None))"
  by (auto simp: close_unless_def rbind_eq_ret dest: p9close_fds split: if_splits)

text \<open>The numbers of processes are not negative.\<close>

definition pids_ok :: "'os wlib \<Rightarrow> bool" where
  "pids_ok lib \<longleftrightarrow> (\<forall>p c fl eb hs os pid hp ht os'. w_createproc lib p c fl eb hs os = (Some (pid, hp, ht), os') \<longrightarrow> 0 \<le> pid)"

lemma spawn_fds:
  assumes "winspawne lib k e (fda, fdb, fdc) f argv env search s = ret (r, s')" "fd_inv s"
  shows "same_fds s s' \<and> (pids_ok lib \<longrightarrow> r = -1) \<or>
    fd_inv s' \<and> (pids_ok lib \<longrightarrow> 0 \<le> r) \<and> (\<exists>ua ub uc. fds s' = (\<lambda>d. if d = fda \<and> \<not> ua \<or> d = fdb \<and> \<not> ub \<or> d = fdc \<and> \<not> uc then None else fds s d))"
proof -
  obtain x s1 where s1: "lookupexe lib k e f argv search s = ret (x, s1)" using assms(1) by (auto simp: winspawne_def rbind_eq_ret)
  have a1: "same_fds s s1" by (rule lookupexe_same [OF s1 assms(2)])
  note d = assms(1) [unfolded winspawne_def prod.case s1 rbind_simps]
  show ?thesis
  proof (cases x)
    case None
    then show ?thesis using d a1 by auto
  next
    case (Some pa)
    obtain p av where pa: "pa = (p, av)" by fastforce
    obtain ha ua s2 where s2: "fdexport lib fda True s1 = ret ((ha, ua), s2)" using d Some pa by (auto simp: rbind_eq_ret)
    obtain hb ub s3 where s3: "fdexport lib fdb False s2 = ret ((hb, ub), s3)" using d Some pa s2 by (auto simp: rbind_eq_ret)
    obtain hc uc s4 where s4: "fdexport lib fdc False s3 = ret ((hc, uc), s4)" using d Some pa s2 s3 by (auto simp: rbind_eq_ret)
    obtain cmd where cmd: "proccmd av = Some cmd" using d Some pa s2 s3 s4 by (cases "proccmd av") auto
    obtain tty s5 where s5: "winhascons lib s4 = ret (tty, s5)" using d Some pa s2 s3 s4 cmd by (auto simp: rbind_eq_ret)
    have a2: "same_fds s s2" using fdexport_same [OF s2 same_inv [OF a1]] a1 same_fds_trans by blast
    have a3: "same_fds s s3" using fdexport_same [OF s3 same_inv [OF a2]] a2 same_fds_trans by blast
    have a4: "same_fds s s4" using fdexport_same [OF s4 same_inv [OF a3]] a3 same_fds_trans by blast
    have a5: "same_fds s s5" using winhascons_same [OF s5 same_inv [OF a4]] a4 same_fds_trans by blast
    obtain pr os where pr: "w_createproc lib (winutf2wpath (w_utf lib) (w_cfg lib) p) (winutf2wstr (w_utf lib) cmd) (\<not> tty, tty \<and> spawnpg s5)
                                      (exportenv (w_utf lib) env) [ha, hb, hc] (w_os s5) = (pr, os)" by fastforce
    define s6 where "s6 = s5\<lparr>spawnpg := spawnpg s5 \<and> \<not> tty, w_os := w_close lib hc (w_close lib hb (w_close lib ha os))\<rparr>"
    have a6: "same_fds s s6" using a5 by (simp add: s6_def same_fds_def)
    note d = d [unfolded Some option.case pa prod.case s2 s3 s4 rbind_simps cmd s5 Let_def pr s6_def [symmetric]]
    show ?thesis
    proof (cases pr)
      case None
      then show ?thesis using d a6 by auto
    next
      case (Some t)
      obtain pid hp ht where t: "t = (pid, hp, ht)" by (cases t) auto
      obtain w s7 where s7: "winaddchild pid hp (on_os (w_close lib ht) s6) = (w, s7)" by fastforce
      have "fd_inv (on_os (w_close lib ht) s6)" using same_inv [OF a6] by (simp add: on_os_def)
      from addchild_same [OF this, of pid hp] have "same_fds s6 s7" using s7 by (simp add: same_fds_def on_os_def)
      then have a7: "same_fds s s7" using a6 same_fds_trans by blast
      show ?thesis
      proof (cases "w = -1")
        case True
        then show ?thesis using d Some t s7 a7 by auto
      next
        case False
        note d = d [unfolded Some option.case t prod.case s7 if_not_P [OF False]]
        obtain s8 where s8: "close_unless lib ua fda s7 = ret ((), s8)" using d by (auto simp: rbind_eq_ret)
        obtain s9 where s9: "close_unless lib (fdb = fda \<or> ub) fdb s8 = ret ((), s9)" using d s8 by (auto simp: rbind_eq_ret)
        have s10: "close_unless lib (fdc = fdb \<or> fdc = fda \<or> uc) fdc s9 = ret ((), s')" "r = pid" using d s8 s9 by (auto simp: rbind_eq_ret)
        have f7: "fd_inv s7" "fds s7 = fds s" using a7 by (simp_all add: same_fds_def)
        note f8 = close_unless_fds [OF s8 f7(1)]
        note f9 = close_unless_fds [OF s9 conjunct1 [OF f8]]
        note f10 = close_unless_fds [OF s10(1) conjunct1 [OF f9]]
        have e: "fds s' = (\<lambda>d. if d = fda \<and> \<not> ua \<or> d = fdb \<and> \<not> (fdb = fda \<or> ub) \<or> d = fdc \<and> \<not> (fdc = fdb \<or> fdc = fda \<or> uc) then None else fds s d)"
          using f8 f9 f10 f7(2) by (auto simp: fun_eq_iff)
        have "pids_ok lib \<longrightarrow> 0 \<le> r" using pr Some t s10(2) unfolding pids_ok_def by blast
        then show ?thesis using f10 e by blast
      qed
    qed
  qed
qed

lemma exec_fds:
  assumes "winexecve lib k e prog argv env s = ret (Some (-1), s')" "fd_inv s" "pids_ok lib"
  shows "same_fds s s'"
proof -
  obtain a s1 where s1: "p9dup lib 0 (-1) s = ret (a, s1)" using assms(1) by (auto simp: winexecve_def rbind_eq_ret)
  obtain b s2 where s2: "p9dup lib 1 (-1) s1 = ret (b, s2)" using assms(1) s1 by (auto simp: winexecve_def rbind_eq_ret)
  obtain c s3 where s3: "p9dup lib 2 (-1) s2 = ret (c, s3)" using assms(1) s1 s2 by (auto simp: winexecve_def rbind_eq_ret)
  obtain pid s4 where s4: "winspawne lib k e (a, b, c) prog argv env True s3 = ret (pid, s4)" using assms(1) s1 s2 s3 by (auto simp: winexecve_def rbind_eq_ret)
  note d = assms(1) [unfolded winexecve_def s1 s2 s3 s4 rbind_simps prod.case]
  have p: "pid < 0" using d by (auto split: if_splits)
  then obtain x s5 where s5: "p9close lib a s4 = ret (x, s5)" using d by (auto simp: rbind_eq_ret)
  obtain y s6 where s6: "p9close lib b s5 = ret (y, s6)" using d p s5 by (auto simp: rbind_eq_ret)
  obtain z where s7: "p9close lib c s6 = ret (z, s')" using d p s5 s6 by (auto simp: rbind_eq_ret)
  have o1: "opens s a s1" by (rule dup_opens [OF s1 assms(2)])
  then have o2: "opens s1 b s2" using dup_opens [OF s2] by (simp add: opens_def)
  then have o3: "opens s2 c s3" using dup_opens [OF s3] by (simp add: opens_def)
  then have i3: "fd_inv s3" by (simp add: opens_def)
  from spawn_fds [OF s4 i3] p assms(3) have a4: "same_fds s3 s4" by auto
  then have f4: "fd_inv s4" "fds s4 = fds s3" by (simp_all add: same_fds_def)
  note f5 = p9close_fds [OF s5 f4(1)]
  note f6 = p9close_fds [OF s6 conjunct1 [OF f5]]
  note f7 = p9close_fds [OF s7 conjunct1 [OF f6]]
  have n: "fds s a = None" "fds s b = None" "fds s c = None"
    using opens_none [OF o1] opens_mono [OF o1 opens_none [OF o2]] opens_mono [OF o1 opens_mono [OF o2 opens_none [OF o3]]] by simp_all
  have "fds s' d = fds s d" for d
    using f5 f6 f7 f4(2) n opens_other [OF o1, of d] opens_other [OF o2, of d] opens_other [OF o3, of d] by (cases "d = a \<or> d = b \<or> d = c") auto
  then show ?thesis using f7 by (auto simp: same_fds_def fun_eq_iff)
qed

section \<open>The console\<close>

lemma winconsctl_same:
  assumes "winconsctl lib cmd s = ret (r, s')" "fd_inv s"
  shows "same_fds s s'"
proof -
  obtain x m where g: "fdtget lib 0 s = ret (x, m)" using fdtget_spec [OF assms(2), of lib 0] by blast
  have a: "same_fds s m" using fdtget_same [OF g assms(2)] by simp
  have "s' = m \<or> (\<exists>f. s' = on_os f m)"
    using assms(1) unfolding winconsctl_def g rbind_simps by (auto simp: Let_def split: option.splits if_splits)
  then show ?thesis using a by auto
qed

lemma winconscolumns_same: "winconscolumns lib s = ret (r, s') \<Longrightarrow> fd_inv s \<Longrightarrow> same_fds s s'"
  by (auto simp: winconscolumns_def rbind_eq_ret dest!: fdtget_same)

lemma rawx_same: "rawx lib e s = ret (r, s') \<Longrightarrow> fd_inv s \<Longrightarrow> same_fds s s'"
  by (auto simp: rawx_def rbind_eq_ret same_refl dest: winconsctl_same split: if_splits)

lemma cons_end_fds:
  assumes "cons_end lib fd secret raw s = ret (r, s')" "fd_inv s"
  shows "fd_inv s' \<and> fds s' = (fds s)(fd := None)"
proof -
  obtain m where m: "(if secret then rbind (rawx lib raw s) (\<lambda>(_, s). rbind (p9write lib fd [CHR 0x0A] s) (\<lambda>(_, s). ret ((), s))) else ret ((), s)) = ret ((), m)"
    using assms(1) unfolding cons_end_def by (auto simp: rbind_eq_ret)
  have a: "same_fds s m"
  proof (cases secret)
    case True
    then obtain x n y where n: "rawx lib raw s = ret (x, n)" "p9write lib fd [CHR 0x0A] n = ret (y, m)" using m by (auto simp: rbind_eq_ret)
    have "same_fds s n" by (rule rawx_same [OF n(1) assms(2)])
    then show ?thesis using p9write_same [OF n(2)] same_inv same_fds_trans by blast
  qed (use m assms(2) in \<open>simp add: same_fds_def\<close>)
  obtain z where "p9close lib fd m = ret (z, s')" using assms(1) m unfolding cons_end_def by (auto simp: rbind_eq_ret)
  from p9close_fds [OF this] a show ?thesis by (simp add: same_fds_def)
qed

lemma readcons_lines_fds:
  "readcons_lines lib k fd prompt dflt secret raw t s = ret (r, s') \<Longrightarrow> fd_inv s \<Longrightarrow> fd_inv s' \<and> fds s' = (fds s)(fd := None)"
proof (induction k arbitrary: t s)
  case (Suc k)
  obtain n bs m where m: "p9read lib (Suc k) fd 1 s = ret ((n, bs), m)" using Suc.prems(1) by (auto simp: rbind_eq_ret)
  have a: "same_fds s m" by (rule p9read_same [OF m Suc.prems(2)])
  then have i: "fd_inv m" "fds m = fds s" by (simp_all add: same_fds_def)
  define c where "c = (if bs = [] then NUL else hd bs)"
  note d = Suc.prems(1) [unfolded readcons_lines.simps m rbind_simps prod.case Let_def c_def [symmetric]]
  consider (fail) "n < 0 \<or> 0 < n \<and> c = CHR 0x7F" | (line) "\<not> (n < 0 \<or> 0 < n \<and> c = CHR 0x7F)" "n = 0 \<or> c = CHR 0x04 \<or> c = CHR 0x0A \<or> c = CHR 0x0D"
    | (more) "\<not> (n < 0 \<or> 0 < n \<and> c = CHR 0x7F)" "\<not> (n = 0 \<or> c = CHR 0x04 \<or> c = CHR 0x0A \<or> c = CHR 0x0D)" by blast
  then show ?case
  proof cases
    case fail
    then show ?thesis using d i by (auto simp: rbind_eq_ret dest!: cons_end_fds)
  next
    case line
    then show ?thesis using d i unfolding if_not_P [OF line(1)] by (auto simp: rbind_eq_ret dest!: cons_end_fds)
  next
    case more
    note d = d [unfolded if_not_P [OF more(1)] if_not_P [OF more(2)]]
    show ?thesis
    proof (cases "c = CHR 0x15")
      case True
      then obtain x q where q: "p9write lib 2 (CHR 0x0A # cons_prompt prompt dflt) m = ret (x, q)" "readcons_lines lib k fd prompt dflt secret raw [] q = ret (r, s')"
        using d by (auto simp: rbind_eq_ret)
      have "same_fds m q" by (rule p9write_same [OF q(1) i(1)])
      then show ?thesis using Suc.IH [OF q(2)] i by (simp add: same_fds_def)
    next
      case False
      then obtain u where "readcons_lines lib k fd prompt dflt secret raw u m = ret (r, s')" using d by (auto split: if_splits)
      from Suc.IH [OF this i(1)] i show ?thesis by simp
    qed
  qed
qed simp

lemma readcons_same:
  assumes "readcons lib k prompt dflt secret s = ret (r, s')" "fd_inv s"
  shows "same_fds s s'"
proof -
  obtain fd m where m: "p9open lib ''/dev/tty'' OREAD s = ret (fd, m)" using assms(1) by (auto simp: readcons_def rbind_eq_ret)
  have o: "opens s fd m" by (rule p9open_opens [OF m assms(2)])
  then have i: "fd_inv m" by (simp add: opens_def)
  show ?thesis
  proof (cases "fd < 0")
    case True
    then have "s' = m" "fd = -1" using assms(1) m o by (auto simp: readcons_def opens_def lowest_free_def split: if_splits)
    then show ?thesis using o by (simp add: opens_def same_fds_def)
  next
    case False
    obtain raw n where n: "(if secret then rawx lib 0 m else ret (-1, m)) = ret (raw, n)" using assms(1) m False by (auto simp: readcons_def rbind_eq_ret)
    have a: "same_fds m n"
    proof (cases secret)
      case True
      then have "rawx lib 0 m = ret (raw, n)" using n by simp
      then show ?thesis by (rule rawx_same) (rule i)
    qed (use n i in \<open>simp add: same_fds_def\<close>)
    have "\<not> (secret \<and> raw = -1)" using n by (cases secret) (auto simp: rawx_def RawOff_def rbind_eq_ret)
    then obtain x q where q: "p9write lib 2 (cons_prompt prompt dflt) n = ret (x, q)" "readcons_lines lib k fd prompt dflt secret raw [] q = ret (r, s')"
      using assms(1) m False n by (auto simp: readcons_def rbind_eq_ret)
    have b: "same_fds m q" using p9write_same [OF q(1) same_inv [OF a]] a same_fds_trans by blast
    then have "fd_inv s'" "fds s' = (fds m)(fd := None)" using readcons_lines_fds [OF q(2) same_inv [OF b]] by (simp_all add: same_fds_def)
    then show ?thesis using opens_undo [OF o] by (simp add: same_fds_def)
  qed
qed

end
