(* ===== verification/WinNet.thy ===== *)
theory WinNet
  imports WinFdCalls Strtol
begin

text \<open>
  Connections on Windows, src/src/lib9/mingw: addresses (_p9dialparse.c), \<open>dial\<close> (dial.c), \<open>announce\<close>, \<open>listen\<close> and \<open>accept\<close>
  (announce.c), temporary files (opentemp.c). A unix socket is a named pipe. Options of sockets are left out.
\<close>

section \<open>Addresses\<close>

definition AF_INET :: nat where "AF_INET = 2"
definition AF_INET6 :: nat where "AF_INET6 = 23"

definition inet_family :: "nat \<Rightarrow> bool" where
  "inet_family f \<longleftrightarrow> f = AF_INET \<or> f = AF_INET6"

datatype dialaddr = DUnix string | DNet string sockaddr int

definition porttbl :: "(string \<times> string \<times> int) list" where
  "porttbl = [(''tcp'', ''9fs'', 564), (''tcp'', ''whoami'', 565), (''tcp'', ''guard'', 566), (''tcp'', ''ticket'', 567),
     (''tcp'', ''exportfs'', 17007), (''tcp'', ''rexexec'', 17009), (''tcp'', ''ncpu'', 17010), (''tcp'', ''cpu'', 17013),
     (''tcp'', ''venti'', 17034), (''tcp'', ''wiki'', 17035), (''tcp'', ''secstore'', 5356), (''udp'', ''dns'', 53), (''tcp'', ''dns'', 53)]"

definition setport :: "sockaddr \<Rightarrow> int \<Rightarrow> sockaddr option" where
  "setport a p = (if inet_family (sa_family a) then Some (a\<lparr>sa_port := nat (p mod 65536)\<rparr>) else None)"

definition unix_addr :: "string \<Rightarrow> dialaddr option" where
  "unix_addr h = (if 128 < length h + 1 then None else Some (DUnix h))"

definition host_addr :: "'os wlib \<Rightarrow> string \<Rightarrow> 'os \<Rightarrow> sockaddr option \<times> 'os" where
  "host_addr lib host os =
     (if host = ''*'' then (Some \<lparr>sa_family = AF_INET6, sa_addr = replicate 16 0, sa_port = 0\<rparr>, os)
      else case w_hostbyname lib host os of
        (Some (f, b), os) \<Rightarrow> (if inet_family f then Some \<lparr>sa_family = f, sa_addr = b, sa_port = 0\<rparr> else None, os)
      | (None, os) \<Rightarrow>
          (case w_addrinfo lib host os of
             (Some a, os) \<Rightarrow> (if inet_family (sa_family a) then Some a else None, os)
           | (None, os) \<Rightarrow> (None, os)))"

text \<open>The network and the port of a service.\<close>

definition dial_port :: "'os wlib \<Rightarrow> string \<Rightarrow> string \<Rightarrow> (string \<times> int) option" where
  "dial_port lib net port =
     (case find (\<lambda>n. net = ''net'' \<and> w_service lib port n \<noteq> None) [''tcp'', ''udp''] of
        Some n \<Rightarrow> Some (n, int (the (w_service lib port n)))
      | None \<Rightarrow>
          (case find (\<lambda>(n, sv, p). (net = ''net'' \<or> n = net) \<and> sv = port) porttbl of
             Some (n, sv, p) \<Rightarrow> Some (n, p)
           | None \<Rightarrow>
               if net = ''net'' then None
               else let (i, e) = strtol0 port
                    in if e = [] then Some (net, i)
                       else map_option (\<lambda>p. (net, int p)) (w_service lib port net)))"

definition p9dialparse :: "'os wlib \<Rightarrow> string \<Rightarrow> 'os \<Rightarrow> dialaddr option \<times> 'os" where
  "p9dialparse lib addr os =
     (case strchr addr CHR ''!'' of
        None \<Rightarrow> (None, os)
      | Some i \<Rightarrow>
          let net = take i addr; host = drop (Suc i) addr
          in case strchr host CHR ''!'' of
               None \<Rightarrow> (if net = ''unix'' \<or> net = ''net'' then unix_addr host else None, os)
             | Some j \<Rightarrow>
                 let port = drop (Suc j) host; host = take j host
                 in if host = [] \<or> port = [] then (None, os)
                    else if net = ''unix'' then (unix_addr host, os)
                    else if net \<noteq> ''tcp'' \<and> net \<noteq> ''udp'' \<and> net \<noteq> ''net'' then (None, os)
                    else case host_addr lib host os of
                           (None, os) \<Rightarrow> (None, os)
                         | (Some a, os) \<Rightarrow>
                             (case dial_port lib net port of
                                None \<Rightarrow> (None, os)
                              | Some (n, p) \<Rightarrow> (map_option (\<lambda>a. DNet n a p) (setport a p), os)))"

section \<open>Connections\<close>

definition unix2winpipe :: "string \<Rightarrow> string" where
  "unix2winpipe u =
     (let nm = ''//./pipe/plan9_'' @ u in take 10 nm @ map (\<lambda>c. if c = CHR ''/'' \<or> c = CHR ''.'' then CHR ''_'' else c) (drop 10 nm))"

definition isany :: "sockaddr \<Rightarrow> bool" where
  "isany a \<longleftrightarrow> inet_family (sa_family a) \<and> list_all (\<lambda>b. b = 0) (sa_addr a)"

definition sock_alloc :: "int \<Rightarrow> string option \<Rightarrow> ('os, int) wm" where
  "sock_alloc so nm s =
     rbind (fdtalloc None s) (\<lambda>(fd, s). ret (fd, fd_set (fd_at fd s) (\<lambda>f. f\<lparr>f_type := Fdtypesock, f_s := so, f_name := nm\<rparr>) s))"

text \<open>\<open>socket\<close> and \<open>accept\<close> give an unsigned number, which is never below 0, so their failure is not seen. With a local address
  the remote one is overwritten, and an address that has not been set is bound.\<close>

definition dial_pipe :: "'os wlib \<Rightarrow> string \<Rightarrow> ('os, int) wm" where
  "dial_pipe lib u s =
     rbind (p9open lib u ORDWR s) (\<lambda>(fd, s).
       if 0 \<le> fd then ret (fd, s)
       else let nm = unix2winpipe u;
                (h, os) = wincreatefile lib nm (GENERIC_READ OR GENERIC_WRITE) 0 OPEN_EXISTING FILE_FLAG_OVERLAPPED (w_os s);
                s = s\<lparr>w_os := os\<rparr>
            in if h = -1 then ret (-1, s) else pipe_alloc h nm Fdtypepipecl s)"

definition p9dial :: "'os wlib \<Rightarrow> string \<Rightarrow> string option \<Rightarrow> ('os, int) wm" where
  "p9dial lib addr local s =
     (let (d, os) = p9dialparse lib addr (w_os s);
          s = s\<lparr>w_os := os\<rparr>
      in case d of
           None \<Rightarrow> ret (-1, s)
         | Some (DUnix u) \<Rightarrow> if local \<noteq> None then ret (-1, s) else dial_pipe lib u s
         | Some (DNet net a p) \<Rightarrow>
             let (so, os) = w_socket lib (sa_family a) (net = ''tcp'') (w_os s)
             in case local of
                  Some l \<Rightarrow>
                    (case p9dialparse lib l os of
                       (Some (DNet _ _ _), os) \<Rightarrow> Some (Inl WUndef)
                     | (_, os) \<Rightarrow> ret (-1, s\<lparr>w_os := w_closesocket lib so os\<rparr>))
                | None \<Rightarrow>
                    let (ok, os) = (if isany a then (True, os) else w_connectsock lib so a os)
                    in if ok then sock_alloc so (Some addr) (s\<lparr>w_os := os\<rparr>) else ret (-1, s\<lparr>w_os := w_closesocket lib so os\<rparr>))"

definition putfd :: "int \<Rightarrow> string" where
  "putfd fd = take 39 (''/dev/fd/'' @ int_str fd)"

definition p9netfd :: "string \<Rightarrow> int" where
  "p9netfd dir = (if take 8 dir \<noteq> ''/dev/fd/'' then -1 else let (fd, e) = strtol0 (drop 8 dir) in if e \<noteq> [] then -1 else fd)"

text \<open>With the directory, when one is written. When \<open>bind\<close> fails the socket is given to the \<open>close\<close> of the C library, which knows
  nothing of it.\<close>

definition p9announce :: "'os wlib \<Rightarrow> string \<Rightarrow> ('os, int \<times> string option) wm" where
  "p9announce lib addr s =
     (let (d, os) = p9dialparse lib addr (w_os s);
          s = s\<lparr>w_os := os\<rparr>
      in case d of
           None \<Rightarrow> ret ((-1, None), s)
         | Some (DUnix u) \<Rightarrow>
             rbind (fdtalloc None s) (\<lambda>(fd, s).
               ret ((fd, Some (putfd fd)), fd_set (fd_at fd s) (\<lambda>f. f\<lparr>f_type := Fdtypenone, f_name := Some (unix2winpipe u)\<rparr>) s))
         | Some (DNet net a p) \<Rightarrow>
             let (so, os) = w_socket lib (sa_family a) (net = ''tcp'') (w_os s);
                 (ok, os) = w_bind lib so a os
             in if \<not> ok then ret ((-1, None), s\<lparr>w_os := w_crtclose lib so os\<rparr>)
                else rbind (sock_alloc so (Some addr) (s\<lparr>w_os := os\<rparr>)) (\<lambda>(fd, s).
                  if net = ''tcp'' then ret ((fd, Some (putfd fd)), on_os (w_listen lib so) s) else ret ((fd, None), s)))"

text \<open>A descriptor that is neither announced nor a socket is given back as it is.\<close>

definition p9listen :: "'os wlib \<Rightarrow> string \<Rightarrow> ('os, int \<times> string option) wm" where
  "p9listen lib dir s =
     (let fd = p9netfd dir
      in if fd < 0 then ret ((-1, None), s)
         else rbind (fdtget lib fd s) (\<lambda>(r, s).
           case r of
             None \<Rightarrow> ret ((-1, None), s)
           | Some a \<Rightarrow>
               let f = the (heap s a)
               in if f_type f = Fdtypesock
                  then (let (so, os) = w_accept lib (f_s f) (w_os s)
                        in rbind (sock_alloc so None (s\<lparr>w_os := os\<rparr>)) (\<lambda>(fd, s). ret ((fd, Some (putfd fd)), s)))
                  else if f_type f = Fdtypenone
                  then (let (h, s) = wincreatenamedpipe lib (the (f_name f)) ORDWR 0 s
                        in if h = -1 then ret ((-1, None), s)
                           else let (ok, s) = winconnectpipe lib h False s
                                in if \<not> ok then ret ((-1, None), s)
                                   else rbind (pipe_alloc h (''<listening '' @ int_str fd @ ''>'') Fdtypepipesrv s) (\<lambda>(fd, s). ret ((fd, Some (putfd fd)), s)))
                  else ret ((fd, Some (putfd fd)), s)))"

definition p9accept :: "'os wlib \<Rightarrow> string \<Rightarrow> ('os, int) wm" where
  "p9accept lib dir s = (let fd = p9netfd dir in if fd < 0 then ret (-1, s) else p9dup lib fd (-1) s)"

text \<open>A temporary file, removed when it is closed or not.\<close>

definition opentemp :: "'os wlib \<Rightarrow> string \<Rightarrow> u32 \<Rightarrow> ('os, int) wm" where
  "opentemp lib tmpl mode s =
     (let (nm, os) = w_mktemp lib tmpl (w_os s); s = s\<lparr>w_os := os\<rparr>
      in case nm of None \<Rightarrow> ret (-1, s) | Some nm \<Rightarrow> p9create lib nm (mode OR ORCLOSE) 384 s)"

definition mingwmkstemp :: "'os wlib \<Rightarrow> string \<Rightarrow> ('os, int) wm" where
  "mingwmkstemp lib tmpl s =
     (let (nm, os) = w_mktemp lib tmpl (w_os s); s = s\<lparr>w_os := os\<rparr>
      in case nm of None \<Rightarrow> ret (-1, s) | Some nm \<Rightarrow> p9create lib nm ORDWR 384 s)"

section \<open>Directories of connections\<close>

lemma netfd_putfd: "0 \<le> fd \<Longrightarrow> fd < 2147483648 \<Longrightarrow> p9netfd (putfd fd) = fd"
proof -
  assume f: "0 \<le> fd" "fd < 2147483648"
  have "nat fd < 10 ^ Suc 9" using f by simp
  then have "length (dec_str (nat fd)) \<le> 10" using dec_str_length [of "nat fd" 9] by simp
  then have "putfd fd = ''/dev/fd/'' @ dec_str (nat fd)" using f(1) by (simp add: putfd_def int_str_def)
  moreover have "take 8 (''/dev/fd/'' @ x) = ''/dev/fd/''" "drop 8 (''/dev/fd/'' @ x) = x" for x by simp_all
  moreover have "nat fd < 2147483648" using f by simp
  ultimately show ?thesis using strtol0_dec [of "nat fd"] f(1) by (simp add: p9netfd_def)
qed

section \<open>Addresses are read\<close>

lemma strchr_first: "c \<notin> set x \<Longrightarrow> strchr (x @ c # y) c = Some (length x)"
  by (induction x) auto

lemma no_service: "find (\<lambda>(n, sv, p). (net = ''net'' \<or> n = net) \<and> sv = dec_str k) porttbl = None"
proof -
  have "\<forall>x\<in>set porttbl. \<not> list_all is_digit (fst (snd x))" by code_simp
  then have "fst (snd x) \<noteq> dec_str k" if "x \<in> set porttbl" for x using that dec_str_digits [of k] by metis
  then have "sv \<noteq> dec_str k" if "(n, sv, p) \<in> set porttbl" for n sv p using that dec_str_digits [of k] by (metis fst_conv snd_conv)
  then show ?thesis unfolding find_None_iff by blast
qed

lemma host_addr_family: "host_addr lib host os = (Some a, os') \<Longrightarrow> inet_family (sa_family a)"
  by (auto simp: host_addr_def inet_family_def split: if_splits option.splits prod.splits)

text \<open>An address of a network, a host and a number is taken apart on Windows into the network, the address of the host, and
  the number as port, of which the system gets the lower 16 bits.\<close>

theorem dialparse_number:
  assumes "net = ''tcp'' \<or> net = ''udp''" "host \<noteq> []" "CHR ''!'' \<notin> set host" "p < 2147483648" "host_addr lib host os = (Some a, os')"
  shows "p9dialparse lib (net @ ''!'' @ host @ ''!'' @ dec_str p) os = (Some (DNet net (a\<lparr>sa_port := p mod 65536\<rparr>) (int p)), os')"
proof -
  have n: "CHR ''!'' \<notin> set net" "net \<noteq> ''net''" "net \<noteq> ''unix''" using assms(1) by auto
  have "strchr (net @ CHR ''!'' # host @ CHR ''!'' # dec_str p) CHR ''!'' = Some (length net)" by (rule strchr_first [OF n(1)])
  moreover have "strchr (host @ CHR ''!'' # dec_str p) CHR ''!'' = Some (length host)" by (rule strchr_first [OF assms(3)])
  moreover have "dial_port lib net (dec_str p) = Some (net, int p)"
    unfolding dial_port_def no_service using n(2) strtol0_dec [OF assms(4)] by simp
  moreover have "setport a (int p) = Some (a\<lparr>sa_port := p mod 65536\<rparr>)"
    using host_addr_family [OF assms(5)] by (simp add: setport_def nat_mod_distrib)
  ultimately show ?thesis using assms(1,2,5) n dec_str_nonempty [of p] by (simp add: p9dialparse_def)
qed

section \<open>Descriptors\<close>

lemma same_os: "fd_inv s \<Longrightarrow> same_fds s (s\<lparr>w_os := os\<rparr>)"
  by (simp add: same_fds_def)

lemma opens_os_iff [simp]: "opens (s\<lparr>w_os := os\<rparr>) fd s' = opens s fd s'"
  by (simp add: opens_def lowest_free_def)

lemma sock_alloc_opens: "sock_alloc so nm s = ret (fd, s') \<Longrightarrow> fd_inv s \<Longrightarrow> opens s fd s'"
  by (auto simp: sock_alloc_def rbind_eq_ret intro!: fd_set_opens dest!: fdtalloc_opens)

lemma opens_then:
  assumes "opens s r m" "r < 0" "opens m fd s'"
  shows "opens s fd s'"
proof -
  have "r = -1" using assms(1,2) by (auto simp: opens_def lowest_free_def split: if_splits)
  then have "same_fds s m" using assms(1) by (simp add: opens_def same_fds_def)
  then show ?thesis using assms(3) by (rule opens_after)
qed

lemma dial_pipe_opens:
  assumes "dial_pipe lib u s = ret (r, s')" "fd_inv s"
  shows "opens s r s'"
proof -
  obtain fd m where m: "p9open lib u ORDWR s = ret (fd, m)" using assms(1) by (auto simp: dial_pipe_def rbind_eq_ret)
  have o: "opens s fd m" by (rule p9open_opens [OF m assms(2)])
  then have i: "fd_inv m" by (simp add: opens_def)
  show ?thesis
  proof (cases "0 \<le> fd")
    case True
    then show ?thesis using assms(1) m o by (simp add: dial_pipe_def)
  next
    case False
    obtain h os where h: "wincreatefile lib (unix2winpipe u) (GENERIC_READ OR GENERIC_WRITE) 0 OPEN_EXISTING FILE_FLAG_OVERLAPPED (w_os m) = (h, os)"
      by fastforce
    have "opens (m\<lparr>w_os := os\<rparr>) r s'"
    proof (cases "h = -1")
      case True
      then show ?thesis using assms(1) m h False i by (auto simp: dial_pipe_def Let_def opens_def)
    next
      case h1: False
      have "pipe_alloc h (unix2winpipe u) Fdtypepipecl (m\<lparr>w_os := os\<rparr>) = ret (r, s')"
        using assms(1) m h h1 False by (simp add: dial_pipe_def Let_def)
      then show ?thesis by (rule pipe_alloc_opens) (simp add: i)
    qed
    then show ?thesis using opens_then [OF o] False by simp
  qed
qed

lemma p9dial_opens:
  assumes "p9dial lib addr local s = ret (r, s')" "fd_inv s"
  shows "opens s r s'"
proof -
  obtain d os where d: "p9dialparse lib addr (w_os s) = (d, os)" by fastforce
  consider (none) "d = None" | (unix) u where "d = Some (DUnix u)" | (net) n a p where "d = Some (DNet n a p)"
    by (metis dialaddr.exhaust option.exhaust)
  then show ?thesis
  proof cases
    case none
    then show ?thesis using assms d by (auto simp: p9dial_def opens_def)
  next
    case unix
    show ?thesis
    proof (cases "local = None")
      case True
      then have "dial_pipe lib u (s\<lparr>w_os := os\<rparr>) = ret (r, s')" using assms(1) d unix by (simp add: p9dial_def)
      then have "opens (s\<lparr>w_os := os\<rparr>) r s'" by (rule dial_pipe_opens) (simp add: assms(2))
      then show ?thesis by simp
    qed (use assms d unix in \<open>auto simp: p9dial_def opens_def\<close>)
  next
    case net
    obtain so os1 where so: "w_socket lib (sa_family a) (n = ''tcp'') os = (so, os1)" by fastforce
    show ?thesis
    proof (cases "local")
      case None
      obtain ok os2 where ok: "(if isany a then (True, os1) else w_connectsock lib so a os1) = (ok, os2)" by fastforce
      show ?thesis
      proof (cases ok)
        case True
        then have "sock_alloc so (Some addr) (s\<lparr>w_os := os2\<rparr>) = ret (r, s')" using assms(1) d net so ok None by (simp add: p9dial_def Let_def)
        then have "opens (s\<lparr>w_os := os2\<rparr>) r s'" by (rule sock_alloc_opens) (simp add: assms(2))
        then show ?thesis by simp
      qed (use assms d net so ok None in \<open>auto simp: p9dial_def opens_def Let_def\<close>)
    next
      case (Some l)
      then show ?thesis using assms d net so by (auto simp: p9dial_def opens_def Let_def split: prod.splits option.splits dialaddr.splits)
    qed
  qed
qed

lemma p9announce_opens:
  assumes "p9announce lib addr s = ret ((r, dir), s')" "fd_inv s"
  shows "opens s r s'"
proof -
  obtain d os where d: "p9dialparse lib addr (w_os s) = (d, os)" by fastforce
  have i: "fd_inv (s\<lparr>w_os := os\<rparr>)" using assms(2) by simp
  consider (none) "d = None" | (unix) u where "d = Some (DUnix u)" | (net) n a p where "d = Some (DNet n a p)"
    by (metis dialaddr.exhaust option.exhaust)
  then show ?thesis
  proof cases
    case none
    then show ?thesis using assms d by (auto simp: p9announce_def opens_def)
  next
    case unix
    obtain fd m where m: "fdtalloc None (s\<lparr>w_os := os\<rparr>) = ret (fd, m)" using assms(1) d unix by (auto simp: p9announce_def rbind_eq_ret)
    have "opens (s\<lparr>w_os := os\<rparr>) fd m" using fdtalloc_opens [OF m i] by simp
    then have "opens s fd m" by simp
    then show ?thesis using assms(1) d unix m by (auto simp: p9announce_def intro: fd_set_opens)
  next
    case net
    obtain so os1 where so: "w_socket lib (sa_family a) (n = ''tcp'') os = (so, os1)" by fastforce
    obtain ok os2 where ok: "w_bind lib so a os1 = (ok, os2)" by fastforce
    show ?thesis
    proof (cases ok)
      case False
      then show ?thesis using assms d net so ok by (auto simp: p9announce_def opens_def)
    next
      case True
      obtain fd m where m: "sock_alloc so (Some addr) (s\<lparr>w_os := os2\<rparr>) = ret (fd, m)"
        using assms(1) d net so ok True by (auto simp: p9announce_def rbind_eq_ret)
      have "opens (s\<lparr>w_os := os2\<rparr>) fd m" by (rule sock_alloc_opens [OF m]) (simp add: assms(2))
      then have "opens s fd m" by simp
      then show ?thesis using assms(1) d net so ok True m by (auto simp: p9announce_def on_os_def intro: os_opens split: if_splits)
    qed
  qed
qed

lemma p9listen_opens:
  assumes "p9listen lib dir s = ret ((r, dir'), s')" "fd_inv s"
  shows "opens s r s' \<or> same_fds s s'"
proof (cases "p9netfd dir < 0")
  case True
  then show ?thesis using assms by (auto simp: p9listen_def same_fds_def)
next
  case False
  obtain x m where g: "fdtget lib (p9netfd dir) s = ret (x, m)" using fdtget_spec [OF assms(2), of lib "p9netfd dir"] by blast
  have sm: "same_fds s m" using fdtget_same [OF g assms(2)] by simp
  then have i: "fd_inv m" by (simp add: same_fds_def)
  show ?thesis
  proof (cases x)
    case None
    then show ?thesis using assms(1) g False sm by (auto simp: p9listen_def)
  next
    case (Some a)
    define f where "f = the (heap m a)"
    note d = assms(1) [unfolded p9listen_def Let_def if_not_P [OF False] g rbind_simps prod.case Some option.case, folded f_def]
    consider (sock) "f_type f = Fdtypesock" | (unset) "f_type f = Fdtypenone" | (other) "f_type f \<noteq> Fdtypesock" "f_type f \<noteq> Fdtypenone" by blast
    then show ?thesis
    proof cases
      case sock
      obtain so os where so: "w_accept lib (f_s f) (w_os m) = (so, os)" by fastforce
      obtain fd where "sock_alloc so None (m\<lparr>w_os := os\<rparr>) = ret (fd, s')" "r = fd"
        using d sock so by (auto simp: rbind_eq_ret)
      then have "opens (m\<lparr>w_os := os\<rparr>) r s'" using sock_alloc_opens [of so None "m\<lparr>w_os := os\<rparr>" r s'] i by simp
      then show ?thesis using opens_after [OF sm] by simp
    next
      case unset
      obtain h s1 where h: "wincreatenamedpipe lib (the (f_name f)) ORDWR 0 m = (h, s1)" by fastforce
      have s1: "same_fds m s1" using namedpipe_same [OF i, of lib "the (f_name f)" ORDWR 0] h by simp
      then have i1: "fd_inv s1" by (simp add: same_fds_def)
      obtain ok s2 where ok: "winconnectpipe lib h False s1 = (ok, s2)" by fastforce
      have s2: "same_fds s1 s2" using connect_same [OF i1, of lib h False] ok by simp
      then have i2: "fd_inv s2" by (simp add: same_fds_def)
      have s02: "same_fds s s1" "same_fds s s2" using sm s1 s2 same_fds_trans by blast+
      show ?thesis
      proof (cases "h = -1 \<or> \<not> ok")
        case True
        then show ?thesis using d unset h ok s02 by (auto split: if_splits)
      next
        case F: False
        then obtain fd where "pipe_alloc h (''<listening '' @ int_str (p9netfd dir) @ ''>'') Fdtypepipesrv s2 = ret (fd, s')" "r = fd"
          using d unset h ok by (auto simp: rbind_eq_ret)
        then show ?thesis using pipe_alloc_opens [OF _ i2] opens_after [OF s02(2)] by blast
      qed
    next
      case other
      then show ?thesis using d sm by auto
    qed
  qed
qed

lemma p9accept_opens: "p9accept lib dir s = ret (r, s') \<Longrightarrow> fd_inv s \<Longrightarrow> opens s r s'"
  by (auto simp: p9accept_def Let_def opens_fail same_fds_def intro: dup_opens split: if_splits)

lemma temp_opens:
  assumes "(case nm of None \<Rightarrow> ret (-1, s\<lparr>w_os := os\<rparr>) | Some nm \<Rightarrow> p9create lib nm mode perm (s\<lparr>w_os := os\<rparr>)) = ret (r, s')" "fd_inv s"
  shows "opens s r s'"
proof (cases nm)
  case None
  then show ?thesis using assms by (auto simp: opens_def)
next
  case (Some x)
  then have "p9create lib x mode perm (s\<lparr>w_os := os\<rparr>) = ret (r, s')" using assms(1) by simp
  then have "opens (s\<lparr>w_os := os\<rparr>) r s'" by (rule p9create_opens) (simp add: assms(2))
  then show ?thesis by simp
qed

lemma opentemp_opens: "opentemp lib t mode s = ret (r, s') \<Longrightarrow> fd_inv s \<Longrightarrow> opens s r s'"
  unfolding opentemp_def Let_def case_prod_beta by (rule temp_opens)

lemma mkstemp_opens: "mingwmkstemp lib t s = ret (r, s') \<Longrightarrow> fd_inv s \<Longrightarrow> opens s r s'"
  unfolding mingwmkstemp_def Let_def case_prod_beta by (rule temp_opens)

section \<open>Where it fails\<close>

text \<open>A directory without a number names descriptor 0. With a local address that is understood an address that has never been set
  is bound.\<close>

lemma netfd_without_number: "p9netfd ''/dev/fd/'' = 0"
  by code_simp

lemma dial_local_undefined:
  assumes "p9dialparse lib addr (w_os s) = (Some (DNet n a p), os1)" "w_socket lib (sa_family a) (n = ''tcp'') os1 = (so, os2)"
    "p9dialparse lib l os2 = (Some (DNet n' a' p'), os3)"
  shows "p9dial lib addr (Some l) s = Some (Inl WUndef)"
  using assms by (simp add: p9dial_def)

text \<open>What listens on a descriptor that is neither announced nor a socket gets this descriptor again.\<close>

lemma listen_returns_same:
  assumes "0 \<le> p9netfd dir" "fdtget lib (p9netfd dir) s = ret (Some a, s')" "f_type (the (heap s' a)) = Fdtypefile"
  shows "p9listen lib dir s = ret ((p9netfd dir, Some (putfd (p9netfd dir))), s')"
  using assms by (simp add: p9listen_def Let_def)

lemma dialparse_number_witness:
  "p9dialparse still_lib ''tcp!h!65616'' () = (Some (DNet ''tcp'' \<lparr>sa_family = AF_INET, sa_addr = [127, 0, 0, 1], sa_port = 80\<rparr> 65616), ())"
proof -
  have h: "host_addr still_lib ''h'' () = (Some \<lparr>sa_family = AF_INET, sa_addr = [127, 0, 0, 1], sa_port = 0\<rparr>, ())"
    by (simp add: host_addr_def still_lib_def inet_family_def AF_INET_def)
  have d: "''tcp'' @ ''!'' @ ''h'' @ ''!'' @ dec_str 65616 = ''tcp!h!65616''" by (simp add: dec_str.simps char_of_def bit_0)
  show ?thesis using dialparse_number [of "''tcp''" "''h''" 65616, OF _ _ _ _ h] unfolding d by simp
qed

end
