(* ===== verification/WinReach.thy ===== *)
theory WinReach
  imports WinProgFds WinNet
begin

text \<open>
  The descriptors of a program on Windows from its start to its end: the step relation of its system calls, the reachable
  states, the properties that hold in all of them, and what is left behind at the exit.
\<close>

section \<open>Steps\<close>

text \<open>The descriptor is the only one of an open file.\<close>

definition only_fd :: "'os win \<Rightarrow> int \<Rightarrow> bool" where
  "only_fd s fd \<longleftrightarrow> fds s fd \<noteq> None \<and> (\<forall>d. fds s d = fds s fd \<longrightarrow> d = fd)"

text \<open>One system call of the program that returns, or a change of the world around it. One call is left out: a \<open>dup\<close> of the only
  descriptor of a file to itself frees the file while the table still refers to it (\<open>dup_self_frees\<close>); what holds after it is said
  at the properties. A \<open>dup\<close> of an open descriptor to a number below -1 does not return, as it indexes the table before its start.\<close>

inductive win_call :: "'os wlib \<Rightarrow> 'os win \<Rightarrow> 'os win \<Rightarrow> bool" for lib where
  c_open: "p9open lib nm mode s = ret (r, s') \<Longrightarrow> win_call lib s s'"
| c_create: "p9create lib nm mode perm s = ret (r, s') \<Longrightarrow> win_call lib s s'"
| c_close: "p9close lib fd s = ret (r, s') \<Longrightarrow> win_call lib s s'"
| c_dup: "p9dup lib old new s = ret (r, s') \<Longrightarrow> \<not> (old = new \<and> only_fd s old) \<Longrightarrow> win_call lib s s'"
| c_read: "p9read lib k fd n s = ret (x, s') \<Longrightarrow> win_call lib s s'"
| c_write: "p9write lib fd bs s = ret (r, s') \<Longrightarrow> win_call lib s s'"
| c_seek: "p9seek lib fd off wh s = ret (r, s') \<Longrightarrow> win_call lib s s'"
| c_pipe: "p9pipe lib s = ret (p, s') \<Longrightarrow> win_call lib s s'"
| c_export: "winexportfd lib fd mode s = ret (nm', s') \<Longrightarrow> win_call lib s s'"
| c_chdir: "p9chdir lib d s = ret (r, s') \<Longrightarrow> win_call lib s s'"
| c_fchdir: "p9fchdir lib fd s = ret (r, s') \<Longrightarrow> win_call lib s s'"
| c_sendfd: "sendfd lib sfd fd s = ret (r, s') \<Longrightarrow> win_call lib s s'"
| c_recvfd: "recvfd lib k sfd s = ret (r, s') \<Longrightarrow> win_call lib s s'"
| c_dial: "p9dial lib addr local s = ret (r, s') \<Longrightarrow> win_call lib s s'"
| c_announce: "p9announce lib addr s = ret (rd, s') \<Longrightarrow> win_call lib s s'"
| c_listen: "p9listen lib dir s = ret (rd, s') \<Longrightarrow> win_call lib s s'"
| c_accept: "p9accept lib dir s = ret (r, s') \<Longrightarrow> win_call lib s s'"
| c_opentemp: "opentemp lib t mode s = ret (r, s') \<Longrightarrow> win_call lib s s'"
| c_mkstemp: "mingwmkstemp lib t s = ret (r, s') \<Longrightarrow> win_call lib s s'"
| c_access: "p9access lib k nm mode s = ret (r, s') \<Longrightarrow> win_call lib s s'"
| c_spawn: "winspawne lib k e fds3 f argv envv search s = ret (r, s') \<Longrightarrow> win_call lib s s'"
| c_exec: "winexecve lib k e prog argv envv s = ret (rr, s') \<Longrightarrow> win_call lib s s'"
| c_post: "post9pservice lib k e host fd nm s = ret (r, s') \<Longrightarrow> win_call lib s s'"
| c_await: "await_any lib pid n nohang s = (rt, s') \<Longrightarrow> win_call lib s s'"
| c_consctl: "winconsctl lib cmd s = ret (u, s') \<Longrightarrow> win_call lib s s'"
| c_columns: "winconscolumns lib s = ret (w, s') \<Longrightarrow> win_call lib s s'"
| c_readcons: "readcons lib k prompt dflt secret s = ret (ln, s') \<Longrightarrow> win_call lib s s'"
| c_world: "win_call lib s (s\<lparr>w_os := os\<rparr>)"

inductive win_reach :: "'os wlib \<Rightarrow> 'os win \<Rightarrow> bool" for lib where
  reach_init: "fdtabinit lib os = ret ((), s) \<Longrightarrow> win_reach lib s"
| reach_step: "win_reach lib s \<Longrightarrow> win_call lib s s' \<Longrightarrow> win_reach lib s'"

text \<open>What descriptors are for the program: a map to open files. A step of this specification opens the lowest free
  descriptor, makes a descriptor stand for what another stands for, or closes one.\<close>

inductive fd_spec :: "(int \<Rightarrow> nat option) \<Rightarrow> (int \<Rightarrow> nat option) \<Rightarrow> bool" where
  spec_open: "0 \<le> fd \<Longrightarrow> m fd = None \<Longrightarrow> \<forall>j\<in>{0..<fd}. m j \<noteq> None \<Longrightarrow> fd_spec m (m(fd := Some a))"
| spec_dup: "m old \<noteq> None \<Longrightarrow> 0 \<le> new \<Longrightarrow> fd_spec m (m(new := m old))"
| spec_close: "fd_spec m (m(fd := None))"

section \<open>The simulation\<close>

lemma same_sim: "same_fds s s' \<Longrightarrow> fd_inv s' \<and> fd_spec\<^sup>*\<^sup>* (fds s) (fds s')"
  by (simp add: same_fds_def)

lemma opens_sim: "opens s fd s' \<Longrightarrow> fd_inv s' \<and> fd_spec\<^sup>*\<^sup>* (fds s) (fds s')"
proof -
  assume o: "opens s fd s'"
  show ?thesis
  proof (cases "fd = -1")
    case False
    then obtain a where a: "fds s' = (fds s)(fd := Some a)" "lowest_free s fd" using o by (auto simp: opens_def)
    then have "fd_spec (fds s) (fds s')" using a(2) unfolding a(1) by (intro spec_open) (auto simp: lowest_free_def)
    then show ?thesis using o by (auto simp: opens_def)
  qed (use o in \<open>simp add: opens_def\<close>)
qed

lemma fd_sim_trans:
  "fd_inv m \<and> fd_spec\<^sup>*\<^sup>* (fds s) (fds m) \<Longrightarrow> fd_inv s' \<and> fd_spec\<^sup>*\<^sup>* (fds m) (fds s') \<Longrightarrow> fd_inv s' \<and> fd_spec\<^sup>*\<^sup>* (fds s) (fds s')"
  by (meson rtranclp_trans)

lemma dup_sim:
  assumes "p9dup lib old new s = ret (r, s')" "\<not> (old = new \<and> only_fd s old)" "fd_inv s"
  shows "fd_inv s' \<and> fd_spec\<^sup>*\<^sup>* (fds s) (fds s')"
proof (cases "new = -1")
  case True
  then show ?thesis using dup_opens assms opens_sim by blast
next
  case False
  show ?thesis
  proof (cases "fds s old")
    case None
    then show ?thesis using fdtdup_none [OF assms(3) None, of lib new] assms(1,3) by (simp add: p9dup_def)
  next
    case (Some a)
    have pos: "0 \<le> new"
    proof (rule ccontr)
      assume "\<not> 0 \<le> new"
      then have "new < -1" using False by simp
      from fdtdup_negative [OF assms(3) Some this, of lib] assms(1) show False by (simp add: p9dup_def)
    qed
    show ?thesis
    proof (cases "new = old")
      case True
      with assms(2) Some obtain d where "fds s d = Some a" "d \<noteq> old" by (auto simp: only_fd_def)
      from fdtdup_self [OF assms(3) Some this, of lib] True assms(1) show ?thesis by (auto simp: p9dup_def)
    next
      case ne: False
      from fdtdup_spec [OF assms(3) Some pos ne, of lib] assms(1)
      have "fd_inv s'" "fds s' = (fds s)(new := Some a)" by (auto simp: p9dup_def)
      then show ?thesis using spec_dup [of "fds s" old new] Some pos by auto
    qed
  qed
qed

lemma close_sim:
  assumes "fd_inv s'" "fds s' = (fds s)(fd := None)"
  shows "fd_inv s' \<and> fd_spec\<^sup>*\<^sup>* (fds s) (fds s')"
  using assms spec_close [of "fds s" fd] by auto

lemma close_if_sim: "fd_spec\<^sup>*\<^sup>* m (if b then m(fd := None) else m)"
  by (auto intro: spec_close)

lemma spawn_sim:
  assumes "winspawne lib k e fds3 f argv envv search s = ret (r, s')" "fd_inv s"
  shows "fd_inv s' \<and> fd_spec\<^sup>*\<^sup>* (fds s) (fds s')"
proof -
  obtain a b c where t: "fds3 = (a, b, c)" by (cases fds3) auto
  from spawn_fds [OF assms(1) [unfolded t] assms(2)] show ?thesis
  proof
    assume "same_fds s s' \<and> (pids_ok lib \<longrightarrow> r = -1)"
    then show ?thesis using same_sim by blast
  next
    assume "fd_inv s' \<and> (pids_ok lib \<longrightarrow> 0 \<le> r)
      \<and> (\<exists>ua ub uc. fds s' = (\<lambda>d. if d = a \<and> \<not> ua \<or> d = b \<and> \<not> ub \<or> d = c \<and> \<not> uc then None else fds s d))"
    then obtain ua ub uc where i: "fd_inv s'" and f: "fds s' = (\<lambda>d. if d = a \<and> \<not> ua \<or> d = b \<and> \<not> ub \<or> d = c \<and> \<not> uc then None else fds s d)"
      by blast
    define m1 where "m1 = (if \<not> ua then (fds s)(a := None) else fds s)"
    define m2 where "m2 = (if \<not> ub then m1(b := None) else m1)"
    define m3 where "m3 = (if \<not> uc then m2(c := None) else m2)"
    have "fd_spec\<^sup>*\<^sup>* (fds s) m1" "fd_spec\<^sup>*\<^sup>* m1 m2" "fd_spec\<^sup>*\<^sup>* m2 m3"
      unfolding m1_def m2_def m3_def by (rule close_if_sim)+
    moreover have "fds s' = m3" unfolding f m3_def m2_def m1_def by (auto simp: fun_eq_iff)
    ultimately show ?thesis using i by (metis rtranclp_trans)
  qed
qed

lemma p9close_sim: "p9close lib fd s = ret (r, s') \<Longrightarrow> fd_inv s \<Longrightarrow> fd_inv s' \<and> fd_spec\<^sup>*\<^sup>* (fds s) (fds s')"
  using p9close_fds close_sim by blast

lemma new_dup_sim: "p9dup lib old (-1) s = ret (r, s') \<Longrightarrow> fd_inv s \<Longrightarrow> fd_inv s' \<and> fd_spec\<^sup>*\<^sup>* (fds s) (fds s')"
  using dup_opens opens_sim by blast

lemma exec_sim:
  assumes "winexecve lib k e prog argv envv s = ret (rr, s')" "fd_inv s"
  shows "fd_inv s' \<and> fd_spec\<^sup>*\<^sup>* (fds s) (fds s')"
proof -
  obtain a s1 where s1: "p9dup lib 0 (-1) s = ret (a, s1)" using assms(1) by (auto simp: winexecve_def rbind_eq_ret)
  obtain b s2 where s2: "p9dup lib 1 (-1) s1 = ret (b, s2)" using assms(1) s1 by (auto simp: winexecve_def rbind_eq_ret)
  obtain c s3 where s3: "p9dup lib 2 (-1) s2 = ret (c, s3)" using assms(1) s1 s2 by (auto simp: winexecve_def rbind_eq_ret)
  obtain pid s4 where s4: "winspawne lib k e (a, b, c) prog argv envv True s3 = ret (pid, s4)" using assms(1) s1 s2 s3 by (auto simp: winexecve_def rbind_eq_ret)
  note a1 = new_dup_sim [OF s1 assms(2)]
  note a2 = fd_sim_trans [OF a1 new_dup_sim [OF s2 conjunct1 [OF a1]]]
  note a3 = fd_sim_trans [OF a2 new_dup_sim [OF s3 conjunct1 [OF a2]]]
  note a4 = fd_sim_trans [OF a3 spawn_sim [OF s4 conjunct1 [OF a3]]]
  show ?thesis
  proof (cases "0 \<le> pid")
    case True
    then show ?thesis using assms(1) s1 s2 s3 s4 a4 by (simp add: winexecve_def)
  next
    case False
    note d = assms(1) [unfolded winexecve_def s1 s2 s3 s4 rbind_simps prod.case if_not_P [OF False]]
    obtain x s5 where s5: "p9close lib a s4 = ret (x, s5)" using d by (auto simp: rbind_eq_ret)
    obtain y s6 where s6: "p9close lib b s5 = ret (y, s6)" using d s5 by (auto simp: rbind_eq_ret)
    obtain z where s7: "p9close lib c s6 = ret (z, s')" using d s5 s6 by (auto simp: rbind_eq_ret)
    note a5 = fd_sim_trans [OF a4 p9close_sim [OF s5 conjunct1 [OF a4]]]
    note a6 = fd_sim_trans [OF a5 p9close_sim [OF s6 conjunct1 [OF a5]]]
    show ?thesis by (rule fd_sim_trans [OF a6 p9close_sim [OF s7 conjunct1 [OF a6]]])
  qed
qed

lemma post_sim:
  assumes "post9pservice lib k e host fd nm s = ret (r, s')" "fd_inv s"
  shows "fd_inv s' \<and> fd_spec\<^sup>*\<^sup>* (fds s) (fds s')"
proof (cases "if CHR ''!'' \<in> set nm then Some nm else map_option (\<lambda>ns. ''unix!'' @ ns @ ''/'' @ nm) (getns e host)")
  case None
  then show ?thesis using assms unfolding post9pservice_def None by simp
next
  case (Some x)
  note d = assms(1) [unfolded post9pservice_def Some option.case]
  obtain a s1 where s1: "p9dup lib fd (-1) s = ret (a, s1)" using d by (auto simp: rbind_eq_ret)
  obtain c s2 where s2: "p9dup lib 2 (-1) s1 = ret (c, s2)" using d s1 by (auto simp: rbind_eq_ret)
  obtain y where s3: "winspawn lib k e (a, a, c) ''9pserve'' [''9pserve'', ''-u'', x] True s2 = ret (y, s')" using d s1 s2 by (auto simp: rbind_eq_ret)
  note a1 = new_dup_sim [OF s1 assms(2)]
  note a2 = fd_sim_trans [OF a1 new_dup_sim [OF s2 conjunct1 [OF a1]]]
  show ?thesis by (rule fd_sim_trans [OF a2 spawn_sim [OF s3 [unfolded winspawn_def] conjunct1 [OF a2]]])
qed

lemma same_children [simp]: "same_fds s (m\<lparr>children := c\<rparr>) = same_fds s m"
  by (simp add: same_fds_def)

lemma wait3_same:
  assumes "fd_inv s"
  shows "same_fds s (snd (wait3 lib nohang s))"
proof -
  define hs where "hs = filter (\<lambda>h. h \<noteq> 0) (map snd (children s))"
  obtain r os where w: "w_waitmany lib hs nohang (w_os s) = (r, os)" by fastforce
  note d = wait3_def [of lib nohang s, folded hs_def, unfolded w Let_def prod.case]
  show ?thesis
  proof (cases r)
    case (WaitObject i)
    show ?thesis unfolding d WaitObject
      by (cases "find (\<lambda>j. snd (children s ! j) = hs ! i) [0..<length (children s)]") (simp_all add: reap_def same_refl assms)
  qed (simp_all add: d assms same_refl)
qed

lemma wait4_same:
  assumes "fd_inv s"
  shows "same_fds s (snd (wait4 lib pid nohang s))"
proof -
  obtain h m where m: "(case find (\<lambda>j. fst (children s ! j) = pid) [0..<length (children s)] of
      None \<Rightarrow> (0, s) | Some j \<Rightarrow> (snd (children s ! j), s\<lparr>children := (children s)[j := (0, 0)]\<rparr>)) = (h, m)" by fastforce
  then have a: "same_fds s m" using assms by (auto simp: same_refl split: option.splits)
  obtain g n where n: "(if h = 0 then (let (h, os) = w_openproc lib pid (w_os m) in (h, m\<lparr>w_os := os\<rparr>)) else (h, m)) = (g, n)" by fastforce
  then have b: "same_fds s n" using a by (auto split: if_splits prod.splits)
  obtain r os where w: "w_waitone lib g nohang (w_os n) = (r, os)" by fastforce
  note d = wait4_def [of lib pid nohang s, unfolded m prod.case n Let_def w]
  show ?thesis
    by (cases "pid = 0"; cases "g = 0"; cases r) (use m n w b assms in \<open>simp_all add: wait4_def Let_def reap_def same_refl\<close>)
qed

lemma await_same: "await_any lib pid n nohang s = (rt, s') \<Longrightarrow> fd_inv s \<Longrightarrow> same_fds s s'"
  using wait3_same [of s lib nohang] wait4_same [of s lib pid nohang]
  by (auto simp: await_any_def Let_def split: prod.splits if_splits)

lemma call_sim: "win_call lib s s' \<Longrightarrow> fd_inv s \<Longrightarrow> fd_inv s' \<and> fd_spec\<^sup>*\<^sup>* (fds s) (fds s')"
proof (induction rule: win_call.induct)
  case (c_close fd s r s')
  then show ?case by (rule p9close_sim)
next
  case (c_pipe s p s')
  from p9pipe_opens [OF this] show ?case
  proof (cases p)
    case None
    then show ?thesis using p9pipe_opens [OF c_pipe] same_sim by auto
  next
    case (Some q)
    obtain a b where q: "p = Some (a, b)" using Some by (cases q) simp
    then obtain m where "opens s a m" "opens m b s'" using p9pipe_opens [OF c_pipe] by auto
    then show ?thesis using opens_sim fd_sim_trans by blast
  qed
next
  case (c_sendfd sfd fd s r s')
  from sendfd_inv [OF this] show ?case using close_sim [of s' s fd] by (cases "r = 0") (simp_all del: fun_upd_apply)
next
  case (c_dup old new s r s')
  then show ?case using dup_sim by blast
next
  case (c_world s os)
  then show ?case by simp
next
  case (c_open nm mode s r s')
  then show ?case by (rule opens_sim [OF p9open_opens])
next
  case (c_create nm mode perm s r s')
  then show ?case by (rule opens_sim [OF p9create_opens])
next
  case (c_recvfd k sfd s r s')
  then show ?case by (rule opens_sim [OF recvfd_opens])
next
  case (c_read k fd n s x s')
  then show ?case by (rule same_sim [OF p9read_same])
next
  case (c_write fd bs s r s')
  then show ?case by (rule same_sim [OF p9write_same])
next
  case (c_seek fd off wh s r s')
  then show ?case by (rule same_sim [OF p9seek_same])
next
  case (c_export fd mode s nm' s')
  then show ?case by (rule same_sim [OF winexportfd_same])
next
  case (c_chdir d s r s')
  then show ?case by (rule same_sim [OF p9chdir_same])
next
  case (c_fchdir fd s r s')
  then show ?case by (rule same_sim [OF p9fchdir_same])
next
  case (c_dial addr local s r s')
  then show ?case by (rule opens_sim [OF p9dial_opens])
next
  case (c_announce addr s rd s')
  then show ?case using p9announce_opens opens_sim by (cases rd) blast
next
  case (c_listen dir s rd s')
  then show ?case using p9listen_opens opens_sim same_sim by (cases rd) blast
next
  case (c_accept dir s r s')
  then show ?case by (rule opens_sim [OF p9accept_opens])
next
  case (c_opentemp t mode s r s')
  then show ?case by (rule opens_sim [OF opentemp_opens])
next
  case (c_mkstemp t s r s')
  then show ?case by (rule opens_sim [OF mkstemp_opens])
next
  case (c_access k nm mode s r s')
  then show ?case by (rule same_sim [OF p9access_same])
next
  case (c_spawn k e fds3 f argv envv search s r s')
  then show ?case by (rule spawn_sim)
next
  case (c_exec k e prog argv envv s rr s')
  then show ?case by (rule exec_sim)
next
  case (c_post k e host fd nm s r s')
  then show ?case by (rule post_sim)
next
  case (c_await pid n nohang s rt s')
  then show ?case by (rule same_sim [OF await_same])
next
  case (c_consctl cmd s u s')
  then show ?case by (rule same_sim [OF winconsctl_same])
next
  case (c_columns s w s')
  then show ?case by (rule same_sim [OF winconscolumns_same])
next
  case (c_readcons k prompt dflt secret s ln s')
  then show ?case by (rule same_sim [OF readcons_same])
qed

section \<open>The start\<close>

lemma std_table: "(replicate 32 None)[2 := Some (0::nat), 0 := Some (Suc 0), Suc 0 := Some (Suc (Suc 0))]
    = Some (Suc 0) # Some (Suc (Suc 0)) # Some 0 # replicate 29 None"
  by code_simp

lemma need_3: "need 3 (win.make [] 3 (\<lambda>a. None) 0 0 c cs pg os) = win.make (replicate 32 None) 3 (\<lambda>a. None) 0 0 c cs pg os"
  by (simp add: need_def win.make_def)

lemma fdtabinit_state:
  assumes "fdtabinit lib os = ret ((), s)"
  shows "tab s = Some (Suc 0) # Some (Suc (Suc 0)) # Some 0 # replicate 29 None" "nfd s = 3" "fresh s = 3"
    "heap s a \<noteq> None \<longleftrightarrow> a \<in> {0, Suc 0, Suc (Suc 0)}" "heap s a = Some f \<Longrightarrow> f_users f = 1"
  using assms
  by (auto simp: fdtabinit_def initstdfd_def rbind_eq_ret Let_def need_3 [unfolded win.make_def] std_table split: if_splits)

lemma fdtab_init_inv:
  assumes i: "fdtabinit lib os = ret ((), s)"
  shows "fd_inv s \<and> (\<forall>fd. fds s fd \<noteq> None \<longleftrightarrow> 0 \<le> fd \<and> fd < 3)"
proof -
  note s = fdtabinit_state [OF i]
  have n: "count_list (replicate 29 None) (Some a) = 0" for a :: nat by (simp add: count_list_0_iff)
  have z: "a \<in> {0, Suc 0, Suc (Suc 0)} \<Longrightarrow> users_of a (tab s) = 1" for a
    unfolding users_of_def s(1) by (auto simp: n)
  have in_tab: "Some a \<in> set (tab s) \<longleftrightarrow> a \<in> {0, Suc 0, Suc (Suc 0)}" for a unfolding s(1) by auto
  have "opened (replicate 29 (None :: nat option)) = 0" using opened_grow [of "[]" 29] by (simp add: opened_def)
  then have o: "nfd s = int (opened (tab s))" unfolding s(1,2) by (simp add: opened_def)
  have l: "3 \<le> length (tab s)" by (simp add: s(1))
  have h: "a < fresh s \<and> f_users f = int (users_of a (tab s)) \<and> 0 < users_of a (tab s)" if f: "heap s a = Some f" for a f
  proof -
    have a: "a \<in> {0, Suc 0, Suc (Suc 0)}" using s(4) [of a] f by blast
    then have "a < 3" by auto
    then show ?thesis using z [OF a] s(5) [OF f] by (simp add: s(3))
  qed
  have t: "heap s a \<noteq> None" if "Some a \<in> set (tab s)" for a
    using that unfolding in_tab s(4) .
  have "fd_inv s" unfolding fd_inv_def by (intro conjI allI impI o l t) (simp_all add: h)
  moreover have "fds s fd \<noteq> None \<longleftrightarrow> 0 \<le> fd \<and> fd < 3" for fd
  proof (cases "3 \<le> fd")
    case True
    then have k: "fd = int (Suc (Suc (Suc (nat fd - 3))))" by simp
    define k where "k = nat fd - 3"
    note k = k [folded k_def]
    have "replicate 29 None ! k = (None :: nat option)" if "k < 29" using that by (rule nth_replicate)
    then have "fds s fd = None" unfolding fds_def s(1) k by simp
    then show ?thesis using True by simp
  next
    case False
    then have "fd < 0 \<or> fd = 0 \<or> fd = 1 \<or> fd = 2" by linarith
    then show ?thesis by (elim disjE) (simp_all add: fds_def s(1))
  qed
  ultimately show ?thesis by blast
qed

lemma reach_inv: "win_reach lib s \<Longrightarrow> fd_inv s"
proof (induction rule: win_reach.induct)
  case (reach_init os s)
  then show ?case by (rule fdtab_init_inv [THEN conjunct1])
next
  case (reach_step s s')
  then show ?case using call_sim by blast
qed

section \<open>Every descriptor and every structure is accounted for\<close>






section \<open>The end\<close>






section \<open>Single calls\<close>

text \<open>C24. Closing an open descriptor on Windows takes it from the program and no other; the structure behind it is freed
  when no other descriptor stands for it, and only then. Other structures stay.\<close>

theorem close_frees_last:
  assumes "win_reach lib s" "fds s fd = Some a"
  shows "\<exists>s'. p9close lib fd s = ret (0, s') \<and> fds s' = (fds s)(fd := None)
    \<and> (heap s' a = None \<longleftrightarrow> (\<forall>d. d \<noteq> fd \<longrightarrow> fds s d \<noteq> Some a)) \<and> (\<forall>b. b \<noteq> a \<longrightarrow> (heap s' b = None) = (heap s b = None))"
proof -
  obtain s' where s': "fdtclose lib fd True s = ret (0, s')" "fds s' = (fds s)(fd := None)"
    "heap s' a = None \<longleftrightarrow> (\<forall>d. fds s' d \<noteq> Some a)" "\<forall>x. x \<noteq> a \<longrightarrow> (heap s' x = None) = (heap s x = None)"
    using fdtclose_spec [OF reach_inv [OF assms(1)] assms(2), of lib True] by (elim exE conjE) (rule that; assumption)
  have "(\<forall>d. fds s' d \<noteq> Some a) \<longleftrightarrow> (\<forall>d. d \<noteq> fd \<longrightarrow> fds s d \<noteq> Some a)" using s'(2) by simp
  then show ?thesis using s' by (intro exI [where x = s']) (simp add: p9close_def)
qed


lemma give_back_returns: "fd_inv s \<Longrightarrow> \<exists>s'. give_back lib fd s = ret (-1, s')"
  using fdtclose_spec [of s fd _ lib True] fdtclose_none [of s fd lib True] by (cases "fds s fd") (fastforce simp: give_back_def)+

lemma open_file_returns: "fd_inv s \<Longrightarrow> \<exists>r s'. open_file lib da dis flags nm s = ret (r, s')"
proof -
  assume i: "fd_inv s"
  obtain fd s1 where s1: "fdtalloc None s = ret (fd, s1)" using fdtalloc_new [OF i] by blast
  then have i1: "fd_inv s1" using fdtalloc_opens [OF s1 i] by (simp add: opens_def)
  define p where "p = fst (winpathdup (w_tmp lib (w_os s1)) nm)"
  define s2 where "s2 = fd_set (fd_at fd s1) (\<lambda>f. f\<lparr>f_name := Some p\<rparr>) s1"
  have i2: "fd_inv s2" using i1 by (simp add: s2_def fd_set_inv)
  have gb: "\<exists>r s'. give_back lib fd t = ret (r, s')" if "fd_inv t" for t using give_back_returns [OF that] by blast
  show ?thesis
    using s1 i2
    by (auto simp: open_file_def Let_def p_def [symmetric] s2_def [symmetric] fd_set_inv intro!: gb split: prod.splits)
qed

lemma p9dup_returns: "fd_inv s \<Longrightarrow> \<exists>r s'. p9dup lib old (-1) s = ret (r, s')"
  using fdtdup_none [of s old lib "-1"] fdtdup_free [of s old _ lib] by (cases "fds s old") (auto simp: p9dup_def)

text \<open>Opening on Windows returns, whatever the name and the mode are, but for ".", which needs the working directory: with
  the lowest descriptor that was free, and only that one changed, or with -1 and the descriptors as they were.\<close>

theorem open_takes_lowest:
  assumes "win_reach lib s" "nm \<noteq> ''.''"
  shows "\<exists>fd s'. p9open lib nm mode s = ret (fd, s')
    \<and> (if fd = -1 then fds s' = fds s
       else 0 \<le> fd \<and> fds s fd = None \<and> (\<forall>j. 0 \<le> j \<and> j < fd \<longrightarrow> fds s j \<noteq> None) \<and> (\<exists>a. fds s' = (fds s)(fd := Some a)))"
proof -
  have i: "fd_inv s" by (rule reach_inv [OF assms(1)])
  have adj: "nm' \<noteq> ''.''" if "winadjustcons nm rdwr da = Some (nm', da')" for rdwr da nm' da'
    using that assms(2) by (auto simp: winadjustcons_def Let_def split: if_splits)
  have "\<exists>r s'. p9open lib nm mode s = ret (r, s')"
    unfolding p9open_def Let_def using adj i
    by (auto intro: open_file_returns p9dup_returns split: option.splits)
  then obtain fd s' where o: "p9open lib nm mode s = ret (fd, s')" by blast
  have "opens s fd s'" by (rule p9open_opens [OF o i])
  moreover have "\<exists>a. fds s' = (fds s)(fd := Some a)" if "fds s' fd \<noteq> None" "fds s' = (fds s)(fd := fds s' fd)"
    using that by auto
  ultimately show ?thesis using o
    by (intro exI [where x = fd] exI [where x = s']) (auto simp: opens_def lowest_free_def simp del: fun_upd_apply)
qed

text \<open>C37. An \<open>exec\<close> on Windows that fails leaves the descriptors as they were: the copies of the standard ones that the new program
  would have got are closed, and the search has left nothing open.\<close>

theorem exec_fails_unchanged:
  assumes "win_reach lib s" "pids_ok lib" "winexecve lib k e prog argv envv s = ret (Some (-1), s')"
  shows "fds s' = fds s"
  using exec_fds [OF assms(3) reach_inv [OF assms(1)] assms(2)] by (simp add: same_fds_def)

lemma p9close_returns: "fd_inv s \<Longrightarrow> \<exists>s'. p9close lib fd s = ret (0, s')"
  using fdtclose_spec [of s fd _ lib True] fdtclose_none [of s fd lib True] by (cases "fds s fd") (auto simp: p9close_def rbind_eq_ret)

lemma exec_no_program:
  assumes i: "fd_inv s" and l: "\<And>s. lookupexe lib k e prog argv True s = ret (None, s)"
  shows "\<exists>s'. winexecve lib k e prog argv envv s = ret (Some (-1), s')"
proof -
  obtain a s1 where s1: "p9dup lib 0 (-1) s = ret (a, s1)" using p9dup_returns [OF i] by blast
  note i1 = conjunct1 [OF new_dup_sim [OF s1 i]]
  obtain b s2 where s2: "p9dup lib 1 (-1) s1 = ret (b, s2)" using p9dup_returns [OF i1] by blast
  note i2 = conjunct1 [OF new_dup_sim [OF s2 i1]]
  obtain c s3 where s3: "p9dup lib 2 (-1) s2 = ret (c, s3)" using p9dup_returns [OF i2] by blast
  note i3 = conjunct1 [OF new_dup_sim [OF s3 i2]]
  have s4: "winspawne lib k e (a, b, c) prog argv envv True s3 = ret (-1, s3)" by (simp add: winspawne_def l)
  obtain s5 where s5: "p9close lib a s3 = ret (0, s5)" using p9close_returns [OF i3] by blast
  note i5 = conjunct1 [OF p9close_sim [OF s5 i3]]
  obtain s6 where s6: "p9close lib b s5 = ret (0, s6)" using p9close_returns [OF i5] by blast
  note i6 = conjunct1 [OF p9close_sim [OF s6 i5]]
  obtain s7 where s7: "p9close lib c s6 = ret (0, s7)" using p9close_returns [OF i6] by blast
  show ?thesis by (simp add: winexecve_def s1 s2 s3 s4 s5 s6 s7)
qed

section \<open>Positions\<close>

lemma bit_neg_half: "-2147483648 \<le> l \<Longrightarrow> l < 0 \<Longrightarrow> 31 \<le> n \<Longrightarrow> bit l n" for l :: int
proof -
  assume l: "-2147483648 \<le> l" "l < 0" and n: "31 \<le> n"
  have "(2 :: int) ^ 31 \<le> 2 ^ n" using n by (intro power_increasing) auto
  then have "-(2 ^ n) \<le> l" using l(1) by simp
  then have "l div 2 ^ n = -1" using l(2) int_div_pos_eq [of l "2 ^ n" "-1" "l + 2 ^ n"] by simp
  then show ?thesis by (simp add: bit_iff_odd)
qed

text \<open>A position with bit 31 set: the lower half that comes back is negative, and the upper half is lost behind its sign.\<close>

lemma seek_sign_extends: "-2147483648 \<le> l \<Longrightarrow> l < 0 \<Longrightarrow> join_halves h l = l"
proof -
  assume l: "-2147483648 \<le> l" "l < 0"
  have "push_bit 32 (word_of_int h :: u64) OR word_of_int l = word_of_int l"
    by (rule bit_word_eqI) (use bit_neg_half [OF l] in \<open>auto simp: bit_simps not_le\<close>)
  moreover have "sint (word_of_int l :: u64) = l"
    using l by (simp add: sint_sbintrunc' signed_take_bit_int_eq_self)
  ultimately show ?thesis by (simp add: join_halves_def)
qed

section \<open>Examples\<close>

definition still_start :: "unit win" where
  "still_start = (case fdtabinit still_lib () of Some (Inr (_, s)) \<Rightarrow> s)"

lemma still_init: "fdtabinit still_lib () = ret ((), still_start)"
  by (simp add: still_start_def fdtabinit_def initstdfd_def still_lib_def Let_def)

lemma still_reach: "win_reach still_lib still_start"
  by (rule reach_init [OF still_init])

lemma still_fds: "fds still_start 0 = Some 1" "fds still_start 1 = Some 2" "fds still_start 2 = Some 0" "fds still_start 3 = None"
  using fdtab_init_inv [OF still_init] by (simp_all add: fds_def fdtabinit_state(1) [OF still_init])


text \<open>After \<open>dup(1, 1)\<close> at the start of a program the clean-up at its end comes to a freed structure.\<close>

lemma self_dup_spoils_exit:
  "\<exists>s'. p9dup still_lib 1 1 still_start = ret (1, s') \<and> fdt_cleanup still_lib s' = Some (Inl WUndef)"
proof -
  have "(case p9dup still_lib 1 1 still_start of
          Some (Inr (r, s')) \<Rightarrow> r = 1 \<and> (case fdt_cleanup still_lib s' of Some (Inl e) \<Rightarrow> e = WUndef | _ \<Rightarrow> False) | _ \<Rightarrow> False)"
    by code_simp
  moreover from this obtain r s' where d: "p9dup still_lib 1 1 still_start = ret (r, s')"
    by (cases "p9dup still_lib 1 1 still_start") (auto split: sum.split_asm)
  ultimately have r: "r = 1" "case fdt_cleanup still_lib s' of Some (Inl e) \<Rightarrow> e = WUndef | _ \<Rightarrow> False" by simp_all
  then have "fdt_cleanup still_lib s' = Some (Inl WUndef)"
    by (cases "fdt_cleanup still_lib s'") (auto split: sum.split_asm)
  then show ?thesis using d r(1) by simp
qed


lemma close_frees_last_witness: "\<exists>s'. p9close still_lib 1 still_start = ret (0, s') \<and> fds s' 1 = None \<and> fds s' 0 = Some 1"
  using close_frees_last [OF still_reach still_fds(2)] still_fds by auto


lemma open_takes_lowest_witness:
  "\<exists>fd s'. p9open still_lib ''/dev/null'' 0 still_start = ret (fd, s') \<and> (fd = -1 \<or> fds still_start fd = None)"
  using open_takes_lowest [OF still_reach, of "''/dev/null''" 0] by (auto split: if_splits)

lemma still_pids: "pids_ok still_lib"
  by (simp add: pids_ok_def still_lib_def)

lemma exec_fails_unchanged_witness:
  "\<exists>s'. winexecve still_lib 1 \<lparr>environ = [], envsz = 10\<rparr> [] [''x''] [] still_start = ret (Some (-1), s') \<and> fds s' 1 = Some 2"
proof -
  have l: "lookupexe still_lib 1 \<lparr>environ = [], envsz = 10\<rparr> [] [''x''] True s = ret (None, s)" for s
    by (simp add: lookupexe_def winexecpath_def setpath_def still_lib_def ch_def winisdrvspec_def letter_def full_name_def
        p9getenv_def env_get_def)
  obtain s' where s': "winexecve still_lib 1 \<lparr>environ = [], envsz = 10\<rparr> [] [''x''] [] still_start = ret (Some (-1), s')"
    using exec_no_program [OF reach_inv [OF still_reach] l] by blast
  then show ?thesis using exec_fails_unchanged [OF still_reach still_pids s'] still_fds(2) by auto
qed

end
