(* ===== verification/Mc.thy ===== *)
theory Mc
  imports Prelude Strtol "HOL-Library.Multiset"
begin

text \<open>
  The command \<open>mc\<close>, src/src/cmd/mc.c: its input in columns. Runes are numbers; the text printed is a list of runes. Memory is
  never short, and counts stay below 2 ^ 31.
\<close>

section \<open>State\<close>

text \<open>\<open>cbuf\<close> is the part of the buffer before \<open>cbufp\<close>, \<open>nalloc\<close> the size of the block. The end of the input is the rune -1.\<close>

definition RNL :: nat where "RNL = 10"
definition BLANK :: nat where "BLANK = 32"
definition RUNE_EOF :: nat where "RUNE_EOF = 4294967295"

definition mc_WIDTH :: int where "mc_WIDTH = 80"
definition mc_TAB :: nat where "mc_TAB = 4"
definition ALLOC_QUANTA :: nat where "ALLOC_QUANTA = 4096"
definition tabwid :: int where "tabwid = 0"
definition mintab :: int where "mintab = 1"
definition tabflag :: bool where "tabflag \<longleftrightarrow> False"

record mc =
  cbuf :: "nat list"
  nchars :: nat
  nalloc :: nat
  linewidth :: int
  colonflag :: bool
  bout :: "nat list"

definition mc_start :: mc where
  "mc_start = \<lparr>cbuf = [], nchars = 0, nalloc = ALLOC_QUANTA, linewidth = mc_WIDTH, colonflag = False, bout = []\<rparr>"

definition bput :: "nat list \<Rightarrow> mc \<Rightarrow> mc" where
  "bput t s = s\<lparr>bout := bout s @ t\<rparr>"

section \<open>Columns\<close>

definition nexttab :: "int \<Rightarrow> int" where
  "nexttab col = (if tabwid \<noteq> 0 then (col + tabwid) - (col + tabwid) mod tabwid else col + 1)"

lemma nexttab_eq [simp]: "nexttab col = col + 1"
  by (simp add: nexttab_def tabwid_def)

text \<open>The words with their widths, without the newline; a word that contains a 0 is printed as far as that.\<close>

fun scanwords_loop :: "nat list \<Rightarrow> nat list \<Rightarrow> nat list list" where
  "scanwords_loop q [] = []"
| "scanwords_loop q (c # cs) = (if c = RNL then q # scanwords_loop [] cs else scanwords_loop (q @ [c]) cs)"

definition scanwords :: "mc \<Rightarrow> nat list list \<times> int" where
  "scanwords s =
     (let ws = scanwords_loop [] (take (nchars s) (cbuf s))
      in (map (takeWhile (\<lambda>c. c \<noteq> 0)) ws, fold (\<lambda>w m. if m < int (length w) then int (length w) else m) ws 0))"

function mc_pad :: "int \<Rightarrow> int \<Rightarrow> nat list" where
  "mc_pad col endcol =
     (if col < endcol
      then (if tabflag then 9 # mc_pad (nexttab col) endcol else BLANK # mc_pad (col + 1) endcol)
      else [])"
  by pat_completeness auto
termination by (relation "measure (\<lambda>(c, e). nat (e - c))") auto

declare mc_pad.simps [simp del]

definition pad_end :: "int \<Rightarrow> int \<Rightarrow> int" where
  "pad_end col endcol = max col endcol"

text \<open>One line: the words \<open>i\<close>, \<open>i + nlines\<close> and so on. There is a line only when there is a word, so \<open>nlines\<close> is not 0.\<close>

function mc_row :: "nat list list \<Rightarrow> int \<Rightarrow> nat \<Rightarrow> nat \<Rightarrow> int \<Rightarrow> int \<Rightarrow> nat list" where
  "mc_row ws mw nlines j col endcol =
     (if j < length ws \<and> 0 < nlines
      then (let endcol = endcol + mw; col = col + int (length (ws ! j))
            in ws ! j @ (if j + nlines < length ws then mc_pad col endcol else [])
               @ mc_row ws mw nlines (j + nlines) (if j + nlines < length ws then pad_end col endcol else col) endcol)
      else [])"
  by pat_completeness auto
termination by (relation "measure (\<lambda>(ws, mw, n, j, c, e). length ws - j)") auto

declare mc_row.simps [simp del]

definition words_per_line :: "int \<Rightarrow> int \<Rightarrow> int" where
  "words_per_line lw mw = (if lw div mw \<le> 0 then 1 else lw div mw)"

definition columnate :: "mc \<Rightarrow> mc" where
  "columnate s =
     (let (ws, maxwidth) = scanwords s
      in if ws = [] then s
         else let mw = nexttab (maxwidth + mintab - 1);
                  wpl = words_per_line (linewidth s) mw;
                  nlines = nat ((int (length ws) + wpl - 1) div wpl)
              in bput (concat (map (\<lambda>i. mc_row ws mw nlines i 0 0 @ [RNL]) [0..<nlines])) s)"

section \<open>Reading\<close>

definition morechars :: "mc \<Rightarrow> mc" where
  "morechars s = s\<lparr>nalloc := nalloc s + ALLOC_QUANTA, cbuf := take (nchars s - 1) (cbuf s)\<rparr>"

text \<open>The bound is tested against the old count; a write behind the block is \<open>None\<close>.\<close>

definition mc_store :: "nat \<Rightarrow> mc \<Rightarrow> mc option" where
  "mc_store c s =
     (let s' = s\<lparr>nchars := nchars s + 1\<rparr>;
          s' = (if nalloc s \<le> nchars s then morechars s' else s')
      in if length (cbuf s') < nalloc s' then Some (s'\<lparr>cbuf := cbuf s' @ [c]\<rparr>) else None)"

function tab_fill :: "nat \<Rightarrow> mc \<Rightarrow> (nat \<times> mc) option" where
  "tab_fill linesiz s =
     (if linesiz mod mc_TAB \<noteq> 0 then (case mc_store BLANK s of None \<Rightarrow> None | Some s \<Rightarrow> tab_fill (linesiz + 1) s) else Some (linesiz, s))"
  by pat_completeness auto
termination
  by (relation "measure (\<lambda>(l, s). (mc_TAB - l mod mc_TAB) mod mc_TAB)") (auto simp: mc_TAB_def mod_Suc)

declare tab_fill.simps [simp del]

text \<open>A line that ends with a colon: what was read before it is put in columns, then the line itself is printed. \<open>back_line\<close> goes back
  to the newline before it.\<close>

fun back_line :: "nat list \<Rightarrow> nat \<Rightarrow> nat" where
  "back_line b 0 = 0"
| "back_line b (Suc n) = (if b ! n \<noteq> RNL then back_line b n else n)"

definition colon_line :: "mc \<Rightarrow> mc option" where
  "colon_line s =
     (if length (cbuf s) < nalloc s
      then (let n = back_line (cbuf s) (nchars s - 1);
                n = (if n \<noteq> 0 then n + 1 else n);
                s = columnate (s\<lparr>nchars := n\<rparr>);
                s = (if n \<noteq> 0 then bput [RNL] s else s);
                s = bput (takeWhile (\<lambda>c. c \<noteq> 0) (drop n (cbuf s))) s
            in Some (s\<lparr>nchars := 0, cbuf := []\<rparr>))
      else None)"

text \<open>One round, with \<open>lastwascolon\<close> and \<open>linesiz\<close>.\<close>

definition read_rune :: "nat option \<Rightarrow> bool \<times> nat \<Rightarrow> mc \<Rightarrow> ((bool \<times> nat) \<times> mc) option" where
  "read_rune r = (\<lambda>(lc, linesiz) s.
     let c = (case r of None \<Rightarrow> RUNE_EOF | Some c \<Rightarrow> c)
     in case mc_store (if r = Some 9 then BLANK else c) s of
          None \<Rightarrow> None
        | Some s \<Rightarrow>
            (case (if r = Some 9 then tab_fill (linesiz + 1) s else Some (linesiz + 1, s)) of
               None \<Rightarrow> None
             | Some (linesiz, s) \<Rightarrow>
                 (case (if colonflag s \<and> r = Some 58 then Some (True, s)
                        else if lc \<and> r = Some RNL then map_option (Pair False) (colon_line s)
                        else Some (False, s)) of
                    None \<Rightarrow> None
                  | Some (lc, s) \<Rightarrow> Some ((lc, if r = Some RNL then 0 else linesiz), s))))"

fun readbuf_loop :: "nat list \<Rightarrow> bool \<times> nat \<Rightarrow> mc \<Rightarrow> mc option" where
  "readbuf_loop [] l s = map_option snd (read_rune None l s)"
| "readbuf_loop (c # cs) l s = (case read_rune (Some c) l s of None \<Rightarrow> None | Some (l, s) \<Rightarrow> readbuf_loop cs l s)"

definition readbuf :: "nat list \<Rightarrow> mc \<Rightarrow> mc option" where
  "readbuf t s = readbuf_loop t (False, 0) s"

section \<open>The program\<close>

text \<open>The options: \<open>-\<close>, \<open>-t\<close>, which does nothing, and the width. \<open>ws\<close> is the width of the window when it is known.\<close>

fun mc_args :: "bool \<Rightarrow> string list \<Rightarrow> mc \<Rightarrow> bool \<times> string list \<times> mc" where
  "mc_args lineset [] s = (lineset, [], s)"
| "mc_args lineset (a # as) s =
     (if a \<noteq> [] \<and> hd a = CHR ''-''
      then (if tl a = [] then mc_args lineset as (s\<lparr>colonflag := True\<rparr>)
            else if hd (tl a) = CHR ''t'' then mc_args lineset as s
            else let n = atoi (tl a) in mc_args True as (s\<lparr>linewidth := (if n \<le> 1 then mc_WIDTH else n)\<rparr>))
      else (lineset, a # as, s))"

definition getwidth :: "int option \<Rightarrow> mc \<Rightarrow> mc" where
  "getwidth ws s = (case ws of None \<Rightarrow> s | Some n \<Rightarrow> s\<lparr>linewidth := n\<rparr>)"

text \<open>A file that cannot be opened is named on the standard error.\<close>

fun mc_files :: "(string \<Rightarrow> nat list option) \<Rightarrow> string list \<Rightarrow> mc \<Rightarrow> (string list \<times> mc) option" where
  "mc_files fs [] s = Some ([], s)"
| "mc_files fs (f # as) s =
     (case fs f of
        None \<Rightarrow> map_option (\<lambda>(e, s). (f # e, s)) (mc_files fs as s)
      | Some t \<Rightarrow> (case readbuf t s of None \<Rightarrow> None | Some s \<Rightarrow> mc_files fs as s))"

definition mc_main :: "int option \<Rightarrow> (string \<Rightarrow> nat list option) \<Rightarrow> nat list \<Rightarrow> string list \<Rightarrow> (string list \<times> nat list) option" where
  "mc_main ws fs stdin args =
     (let (lineset, args, s) = mc_args False args mc_start;
          s = (if lineset then s else getwidth ws s)
      in map_option (\<lambda>(e, s). (e, bout (columnate s))) (if args = [] then map_option (Pair []) (readbuf stdin s) else mc_files fs args s))"

section \<open>The lines\<close>

text \<open>The words of a line and the line they make, with columns \<open>mw\<close> wide.\<close>

function cells :: "nat list list \<Rightarrow> nat \<Rightarrow> nat \<Rightarrow> nat list list" where
  "cells ws n j = (if j < length ws \<and> 0 < n then ws ! j # cells ws n (j + n) else [])"
  by pat_completeness auto
termination by (relation "measure (\<lambda>(ws, n, j). length ws - j)") auto

declare cells.simps [simp del]

fun join_cells :: "nat \<Rightarrow> nat list list \<Rightarrow> nat list" where
  "join_cells mw [] = []"
| "join_cells mw [w] = w"
| "join_cells mw (w # v # ws) = w @ replicate (mw - length w) BLANK @ join_cells mw (v # ws)"

lemma mc_pad_blanks: "mc_pad col endcol = replicate (nat (endcol - col)) BLANK"
proof (induction col endcol rule: mc_pad.induct)
  case (1 col endcol)
  show ?case
  proof (cases "col < endcol")
    case True
    then have "nat (endcol - col) = Suc (nat (endcol - (col + 1)))" by simp
    then show ?thesis using True 1 by (subst mc_pad.simps) (simp add: tabflag_def)
  qed (subst mc_pad.simps, simp)
qed

lemma mc_row_join:
  assumes "\<forall>w\<in>set ws. length w \<le> mw" "0 < n"
  shows "mc_row ws (int mw) n j c c = join_cells mw (cells ws n j)"
proof (induction "length ws - j" arbitrary: j c rule: less_induct)
  case less
  show ?case
  proof (cases "j < length ws")
    case True
    have p: "nat (c + int mw - (c + int (length (ws ! j)))) = mw - length (ws ! j)" by simp
    have l: "length (ws ! j) \<le> mw" using assms(1) True by simp
    show ?thesis
    proof (cases "j + n < length ws")
      case more: True
      have r: "mc_row ws (int mw) n j c c = ws ! j @ replicate (mw - length (ws ! j)) BLANK @ mc_row ws (int mw) n (j + n) (c + int mw) (c + int mw)"
        using True more l assms(2) p by (subst mc_row.simps) (simp add: mc_pad_blanks pad_end_def Let_def)
      have "cells ws n j = ws ! j # cells ws n (j + n)" "cells ws n (j + n) = ws ! (j + n) # cells ws n (j + n + n)"
        using True more assms(2) by (subst cells.simps, simp)+
      moreover have "mc_row ws (int mw) n (j + n) (c + int mw) (c + int mw) = join_cells mw (cells ws n (j + n))"
        using less [of "j + n" "c + int mw"] True assms(2) by simp
      ultimately show ?thesis using r by simp
    next
      case False
      then show ?thesis using True assms(2) by (subst mc_row.simps, subst mc_row.simps, subst cells.simps, subst cells.simps) (simp add: Let_def)
    qed
  qed (subst mc_row.simps, subst cells.simps, simp)
qed

lemma length_cells_mult: "0 < n \<Longrightarrow> j + k * n < length ws \<longleftrightarrow> k < length (cells ws n j)"
proof (induction k arbitrary: j)
  case 0
  then show ?case by (subst cells.simps) simp
next
  case (Suc k)
  have "j + Suc k * n < length ws \<longleftrightarrow> k < length (cells ws n (j + n))" using Suc.IH [of "j + n"] Suc.prems by (simp add: add.assoc)
  also have "\<dots> \<longleftrightarrow> Suc k < length (cells ws n j)"
  proof (cases "j < length ws")
    case True
    then show ?thesis using Suc.prems by (subst (2) cells.simps) simp
  next
    case False
    then show ?thesis by (subst (1 2) cells.simps) simp
  qed
  finally show ?case .
qed

lemma nth_cells: "0 < n \<Longrightarrow> k < length (cells ws n j) \<Longrightarrow> cells ws n j ! k = ws ! (j + k * n)"
proof (induction k arbitrary: j)
  case 0
  then have "j < length ws" using length_cells_mult [of n j 0 ws] by simp
  then show ?case using 0 by (subst cells.simps) simp
next
  case (Suc k)
  then have "j < length ws" using length_cells_mult [of n j "Suc k" ws] by simp
  then have c: "cells ws n j = ws ! j # cells ws n (j + n)" using Suc.prems by (subst cells.simps) simp
  show ?case using Suc.IH [of "j + n"] Suc.prems by (simp add: c add.assoc)
qed

lemma set_cells: "set (cells ws n j) \<subseteq> set ws"
  by (induction ws n j rule: cells.induct) (subst cells.simps, auto)

lemma join_cells_at:
  "\<forall>w\<in>set cs. length w \<le> mw \<Longrightarrow> k < length cs \<Longrightarrow> take (length (cs ! k)) (drop (k * mw) (join_cells mw cs)) = cs ! k"
proof (induction mw cs arbitrary: k rule: join_cells.induct)
  case (3 mw w v ws)
  show ?case
  proof (cases k)
    case (Suc m)
    have "length w \<le> mw" using 3(2) by simp
    then have "drop (k * mw) (join_cells mw (w # v # ws)) = drop (m * mw) (join_cells mw (v # ws))" by (simp add: Suc)
    then show ?thesis using 3 by (simp add: Suc)
  qed simp
qed auto

lemma length_join_cells: "\<forall>w\<in>set cs. length w < mw \<Longrightarrow> cs \<noteq> [] \<Longrightarrow> length (join_cells mw cs) < length cs * mw"
  by (induction mw cs rule: join_cells.induct) auto

section \<open>What is put in columns\<close>

definition text_of :: "nat list list \<Rightarrow> nat list" where
  "text_of ls = concat (map (\<lambda>l. l @ [RNL]) ls)"

lemma text_of_Cons [simp]: "text_of (l # ls) = l @ RNL # text_of ls" "text_of [] = []"
  by (simp_all add: text_of_def)

lemma scanwords_word: "RNL \<notin> set w \<Longrightarrow> scanwords_loop q (w @ RNL # t) = (q @ w) # scanwords_loop [] t"
  by (induction w arbitrary: q) auto

lemma scanwords_tail: "RNL \<notin> set w \<Longrightarrow> scanwords_loop q w = []"
  by (induction w arbitrary: q) auto

lemma scanwords_text:
  "\<forall>w\<in>set ws. RNL \<notin> set w \<Longrightarrow> RNL \<notin> set t \<Longrightarrow> scanwords_loop [] (text_of ws @ t) = ws"
  by (induction ws) (auto simp: scanwords_word scanwords_tail)

definition longest :: "nat list list \<Rightarrow> nat" where
  "longest ws = Max (insert 0 (length ` set ws))"

lemma fold_max: "fold (\<lambda>w m. if m < int (length w) then int (length w) else m) ws (int k) = int (Max (insert k (length ` set ws)))"
proof (induction ws arbitrary: k)
  case (Cons w ws)
  have "Max (insert k (length ` set (w # ws))) = Max (insert (max k (length w)) (length ` set ws))"
  proof -
    have "insert k (length ` set (w # ws)) = insert k (insert (length w) (length ` set ws))" by simp
    then show ?thesis by (cases "set ws = {}") (simp_all add: max.assoc)
  qed
  then show ?case using Cons [of "max k (length w)"] by (auto simp: max_def)
qed simp

definition mc_columns :: "int \<Rightarrow> nat list list \<Rightarrow> nat" where
  "mc_columns lw ws = nat (words_per_line lw (int (longest ws) + 1))"

definition mc_lines :: "int \<Rightarrow> nat list list \<Rightarrow> nat" where
  "mc_lines lw ws = (length ws + mc_columns lw ws - 1) div mc_columns lw ws"

definition mc_layout :: "int \<Rightarrow> nat list list \<Rightarrow> nat list list" where
  "mc_layout lw ws = map (\<lambda>i. join_cells (longest ws + 1) (cells ws (mc_lines lw ws) i)) [0..<mc_lines lw ws]"

lemma mc_columns_pos: "0 < mc_columns lw ws"
  by (simp add: mc_columns_def words_per_line_def)

lemma int_mc_columns: "int (mc_columns lw ws) = words_per_line lw (int (longest ws) + 1)"
  by (simp add: mc_columns_def words_per_line_def)

lemma longest_ge: "w \<in> set ws \<Longrightarrow> length w \<le> longest ws"
  by (simp add: longest_def)

lemma longest_less: "\<forall>w\<in>set ws. length w < k \<Longrightarrow> 0 < k \<Longrightarrow> longest ws < k"
  by (simp add: longest_def)

lemma mc_lines_pos: "ws \<noteq> [] \<Longrightarrow> 0 < mc_lines lw ws"
  using mc_columns_pos [of lw ws] by (cases ws) (auto simp: mc_lines_def div_greater_zero_iff)

lemma ceil_mult: "0 < (m::nat) \<Longrightarrow> k \<le> ((k + m - 1) div m) * m"
proof -
  assume m: "0 < m"
  have "(k + m - 1) div m * m + (k + m - 1) mod m = k + m - 1" by simp
  moreover have "(k + m - 1) mod m \<le> m - 1" using m by (simp add: Suc_leI less_Suc_eq_le [symmetric])
  ultimately show ?thesis using m by linarith
qed

lemma mc_lines_enough: "length ws \<le> mc_lines lw ws * mc_columns lw ws"
  unfolding mc_lines_def by (rule ceil_mult [OF mc_columns_pos])

lemma columnate_layout:
  assumes "scanwords_loop [] (take (nchars s) (cbuf s)) = ws" "\<forall>w\<in>set ws. 0 \<notin> set w"
  shows "columnate s = bput (text_of (mc_layout (linewidth s) ws)) s"
proof -
  have "map (takeWhile (\<lambda>c. c \<noteq> 0)) ws = ws" using assms(2) by (intro map_idI takeWhile_eq_all_conv [THEN iffD2]) (auto intro!: gr0I)
  then have sw: "scanwords s = (ws, int (longest ws))"
    using fold_max [of ws 0] assms(1) by (simp add: scanwords_def Let_def longest_def)
  show ?thesis
  proof (cases "ws = []")
    case True
    then show ?thesis using sw mc_columns_pos [of "linewidth s" ws]
      by (simp add: columnate_def mc_layout_def mc_lines_def text_of_def bput_def)
  next
    case False
    have wpl: "words_per_line (linewidth s) (int (longest ws) + 1) = int (mc_columns (linewidth s) ws)" by (rule int_mc_columns [symmetric])
    have "1 \<le> length ws" using False by (simp add: Suc_leI)
    then have "int (length ws) + int (mc_columns (linewidth s) ws) - 1 = int (length ws + mc_columns (linewidth s) ws - 1)" by linarith
    then have nl: "nat ((int (length ws) + int (mc_columns (linewidth s) ws) - 1) div int (mc_columns (linewidth s) ws)) = mc_lines (linewidth s) ws"
      by (simp only: mc_lines_def zdiv_int [symmetric] nat_int)
    have r: "mc_row ws (int (longest ws) + 1) (mc_lines (linewidth s) ws) i 0 0 = join_cells (longest ws + 1) (cells ws (mc_lines (linewidth s) ws) i)" for i
    proof -
      have "\<forall>w\<in>set ws. length w \<le> longest ws + 1" using longest_ge le_SucI by fastforce
      from mc_row_join [OF this mc_lines_pos [OF False], of "linewidth s" i 0] show ?thesis by (simp add: add.commute)
    qed
    show ?thesis unfolding columnate_def sw using False
      by (simp add: mintab_def Let_def wpl nl r mc_layout_def text_of_def comp_def)
  qed
qed

section \<open>What is read\<close>

definition mc_ok :: "mc \<Rightarrow> bool" where
  "mc_ok s \<longleftrightarrow> nchars s = length (cbuf s) \<and> length (cbuf s) \<le> nalloc s"

definition mc_added :: "mc \<Rightarrow> nat list \<Rightarrow> mc \<Rightarrow> bool" where
  "mc_added s t s' \<longleftrightarrow> mc_ok s' \<and> cbuf s' = cbuf s @ t \<and> linewidth s' = linewidth s \<and> colonflag s' = colonflag s \<and> bout s' = bout s"

lemma mc_added_ok: "mc_added s t s' \<Longrightarrow> mc_ok s'"
  by (simp add: mc_added_def)

lemma mc_added_trans: "mc_added s t s1 \<Longrightarrow> mc_added s1 u s2 \<Longrightarrow> mc_added s (t @ u) s2"
  by (simp add: mc_added_def)

lemma mc_added_refl: "mc_ok s \<Longrightarrow> mc_added s [] s"
  by (simp add: mc_added_def)

lemma mc_store_added: "mc_ok s \<Longrightarrow> \<exists>s'. mc_store c s = Some s' \<and> mc_added s [c] s'"
  by (auto simp: mc_store_def mc_ok_def mc_added_def Let_def morechars_def ALLOC_QUANTA_def)

lemma tab_fill_added:
  "mc_ok s \<Longrightarrow> \<exists>s'. tab_fill l s = Some (l + (mc_TAB - l mod mc_TAB) mod mc_TAB, s') \<and> mc_added s (replicate ((mc_TAB - l mod mc_TAB) mod mc_TAB) BLANK) s'"
proof (induction l s rule: tab_fill.induct)
  case (1 l s)
  show ?case
  proof (cases "l mod mc_TAB = 0")
    case True
    then show ?thesis using 1(2) by (subst tab_fill.simps) (simp add: mc_added_refl mc_TAB_def)
  next
    case False
    obtain s1 where s1: "mc_store BLANK s = Some s1" "mc_added s [BLANK] s1" using mc_store_added [OF 1(2)] by blast
    obtain s2 where s2: "tab_fill (l + 1) s1 = Some (l + 1 + (mc_TAB - (l + 1) mod mc_TAB) mod mc_TAB, s2)"
      "mc_added s1 (replicate ((mc_TAB - (l + 1) mod mc_TAB) mod mc_TAB) BLANK) s2"
      using 1(1) [OF False s1(1) mc_added_ok [OF s1(2)]] by blast
    have k: "(mc_TAB - l mod mc_TAB) mod mc_TAB = Suc ((mc_TAB - (l + 1) mod mc_TAB) mod mc_TAB)"
      using False by (simp add: mc_TAB_def mod_Suc) presburger
    show ?thesis using False s1 s2 mc_added_trans [OF s1(2) s2(2)] by (subst tab_fill.simps) (simp add: k)
  qed
qed

text \<open>A tab is read as blanks up to the next multiple of 4.\<close>

fun untab :: "nat \<Rightarrow> nat list \<Rightarrow> nat list" where
  "untab l [] = []"
| "untab l (c # cs) =
     (if c = 9 then replicate (mc_TAB - l mod mc_TAB) BLANK @ untab (l + (mc_TAB - l mod mc_TAB)) cs
      else c # untab (if c = RNL then 0 else l + 1) cs)"

lemma tab_blanks: "Suc ((mc_TAB - Suc l mod mc_TAB) mod mc_TAB) = mc_TAB - l mod mc_TAB"
  by (simp add: mc_TAB_def mod_Suc) presburger

lemma read_rune_added:
  assumes "mc_ok s" "\<not> colonflag s"
  shows "\<exists>s'. read_rune (Some c) (False, l) s = Some ((False, if c = RNL then 0 else if c = 9 then l + (mc_TAB - l mod mc_TAB) else l + 1), s')
    \<and> mc_added s (if c = 9 then replicate (mc_TAB - l mod mc_TAB) BLANK else [c]) s'"
proof (cases "c = 9")
  case True
  obtain s1 where s1: "mc_store BLANK s = Some s1" "mc_added s [BLANK] s1" using mc_store_added [OF assms(1)] by blast
  obtain s2 where s2: "tab_fill (l + 1) s1 = Some (l + 1 + (mc_TAB - (l + 1) mod mc_TAB) mod mc_TAB, s2)"
    "mc_added s1 (replicate ((mc_TAB - (l + 1) mod mc_TAB) mod mc_TAB) BLANK) s2"
    using tab_fill_added [OF mc_added_ok [OF s1(2)]] by blast
  have "l + 1 + (mc_TAB - (l + 1) mod mc_TAB) mod mc_TAB = l + (mc_TAB - l mod mc_TAB)" using tab_blanks [of l] by simp
  moreover have "[BLANK] @ replicate ((mc_TAB - (l + 1) mod mc_TAB) mod mc_TAB) BLANK = replicate (mc_TAB - l mod mc_TAB) BLANK"
    using tab_blanks [of l] by (metis Suc_eq_plus1 append_Cons append_Nil replicate_Suc)
  ultimately have "tab_fill (Suc l) s1 = Some (l + (mc_TAB - l mod mc_TAB), s2)" "mc_added s (replicate (mc_TAB - l mod mc_TAB) BLANK) s2"
    using s2 mc_added_trans [OF s1(2) s2(2)] by simp_all
  then show ?thesis using s1 True assms(2) by (simp add: read_rune_def mc_added_def RNL_def)
next
  case False
  obtain s1 where "mc_store c s = Some s1" "mc_added s [c] s1" using mc_store_added [OF assms(1)] by blast
  then show ?thesis using False assms(2) by (simp add: read_rune_def mc_added_def)
qed

lemma readbuf_loop_added:
  "mc_ok s \<Longrightarrow> \<not> colonflag s \<Longrightarrow> \<exists>s'. readbuf_loop t (False, l) s = Some s' \<and> mc_added s (untab l t @ [RUNE_EOF]) s'"
proof (induction t arbitrary: l s)
  case Nil
  obtain s1 where "mc_store RUNE_EOF s = Some s1" "mc_added s [RUNE_EOF] s1" using mc_store_added [OF Nil(1)] by blast
  then show ?case using Nil(2) by (simp add: read_rune_def mc_added_def)
next
  case (Cons c t)
  obtain s1 where s1: "read_rune (Some c) (False, l) s = Some ((False, if c = RNL then 0 else if c = 9 then l + (mc_TAB - l mod mc_TAB) else l + 1), s1)"
    "mc_added s (if c = 9 then replicate (mc_TAB - l mod mc_TAB) BLANK else [c]) s1" using read_rune_added [OF Cons(2,3)] by blast
  have "mc_ok s1" "\<not> colonflag s1" using s1(2) Cons(3) by (simp_all add: mc_added_def)
  from Cons.IH [OF this] obtain s2 where s2: "readbuf_loop t (False, if c = RNL then 0 else if c = 9 then l + (mc_TAB - l mod mc_TAB) else l + 1) s1 = Some s2"
    "mc_added s1 (untab (if c = RNL then 0 else if c = 9 then l + (mc_TAB - l mod mc_TAB) else l + 1) t @ [RUNE_EOF]) s2" by blast
  then show ?case using s1 mc_added_trans [OF s1(2) s2(2)] by (auto simp: RNL_def)
qed

lemma untab_line: "RNL \<notin> set w \<Longrightarrow> untab l (w @ RNL # t) = untab l w @ RNL # untab 0 t"
  by (induction w arbitrary: l) (auto simp: RNL_def)

lemma untab_text: "\<forall>w\<in>set ws. RNL \<notin> set w \<Longrightarrow> untab 0 (text_of ws) = text_of (map (untab 0) ws)"
  by (induction ws) (auto simp: untab_line)

lemma untab_set: "set (untab l w) \<subseteq> insert BLANK (set w)"
  by (induction w arbitrary: l) (auto simp: BLANK_def)

section \<open>The whole program\<close>

lemma start_ok: "mc_ok mc_start"
  by (simp add: mc_ok_def mc_start_def)

lemma mc_main_text:
  assumes "\<forall>w\<in>set ls. RNL \<notin> set w \<and> 0 \<notin> set w" "RNL \<notin> set r"
  shows "mc_main win fs (text_of ls @ r) [] =
    Some ([], text_of (mc_layout (case win of None \<Rightarrow> mc_WIDTH | Some n \<Rightarrow> n) (map (untab 0) ls)))"
proof -
  define s where "s = getwidth win mc_start"
  have s: "mc_ok s" "\<not> colonflag s" "cbuf s = []" "bout s = []" "linewidth s = (case win of None \<Rightarrow> mc_WIDTH | Some n \<Rightarrow> n)"
    by (simp_all add: s_def getwidth_def mc_start_def mc_ok_def split: option.splits)
  obtain s' where s': "readbuf (text_of ls @ r) s = Some s'" "mc_added s (untab 0 (text_of ls @ r) @ [RUNE_EOF]) s'"
    using readbuf_loop_added [OF s(1,2)] by (auto simp: readbuf_def)
  have u: "untab 0 (text_of ls @ r) = text_of (map (untab 0) ls) @ untab 0 r"
    using assms(1) by (induction ls) (auto simp: untab_line)
  have n: "\<forall>w\<in>set (map (untab 0) ls). RNL \<notin> set w \<and> 0 \<notin> set w" using assms(1) untab_set [of 0] by (fastforce simp: RNL_def BLANK_def)
  have t: "RNL \<notin> set (untab 0 r @ [RUNE_EOF])" using assms(2) untab_set [of 0 r] by (auto simp: RNL_def BLANK_def RUNE_EOF_def)
  have "scanwords_loop [] (take (nchars s') (cbuf s')) = map (untab 0) ls"
    using s'(2) s(3) scanwords_text [of "map (untab 0) ls", OF _ t] n by (simp add: mc_added_def mc_ok_def u)
  then have "columnate s' = bput (text_of (mc_layout (linewidth s) (map (untab 0) ls))) s'"
    using columnate_layout [of s' "map (untab 0) ls"] n s'(2) by (simp add: mc_added_def)
  moreover have "bout s' = []" using s'(2) s(4) by (simp add: mc_added_def)
  ultimately show ?thesis using s'(1) s(5) by (simp add: mc_main_def s_def [symmetric] bput_def)
qed

section \<open>Where the words stand\<close>

lemma length_mc_layout: "length (mc_layout lw ws) = mc_lines lw ws"
  by (simp add: mc_layout_def)

lemma mc_layout_at:
  assumes "j < length ws"
  shows "take (length (ws ! j)) (drop ((j div mc_lines lw ws) * (longest ws + 1)) (mc_layout lw ws ! (j mod mc_lines lw ws))) = ws ! j"
proof -
  define n where "n = mc_lines lw ws"
  have n: "0 < n" using assms mc_lines_pos [of ws] by (cases ws) (auto simp: n_def)
  have k: "j div n < length (cells ws n (j mod n))" using length_cells_mult [OF n, of "j mod n" "j div n" ws] assms by simp
  have c: "cells ws n (j mod n) ! (j div n) = ws ! j" using nth_cells [OF n k] by simp
  have "\<forall>w\<in>set (cells ws n (j mod n)). length w \<le> longest ws + 1" using set_cells [of ws n "j mod n"] longest_ge le_SucI by fastforce
  from join_cells_at [OF this k] show ?thesis using n by (simp add: mc_layout_def n_def [symmetric] c)
qed

lemma mc_layout_width:
  assumes "l \<in> set (mc_layout lw ws)" "int (longest ws) < lw"
  shows "int (length l) < lw"
proof -
  define n where "n = mc_lines lw ws"
  obtain i where i: "i < n" "l = join_cells (longest ws + 1) (cells ws n i)" using assms(1) by (auto simp: mc_layout_def n_def)
  show ?thesis
  proof (cases "cells ws n i = []")
    case True
    then show ?thesis using i assms(2) by simp
  next
    case False
    have "int (longest ws) + 1 \<le> lw" using assms(2) by simp
    then have "1 \<le> lw div (int (longest ws) + 1)" by (simp add: pos_imp_zdiv_pos_iff int_one_le_iff_zero_less)
    then have q: "int (mc_columns lw ws) = lw div (int (longest ws) + 1)" by (simp add: int_mc_columns words_per_line_def)
    have "0 \<le> lw mod (int (longest ws) + 1)" by simp
    then have c: "int (mc_columns lw ws) * (int (longest ws) + 1) \<le> lw"
      unfolding q using div_mult_mod_eq [of lw "int (longest ws) + 1"] by linarith
    have n0: "0 < n" using i(1) by linarith
    have "length (cells ws n i) \<le> mc_columns lw ws"
    proof (rule ccontr)
      assume "\<not> length (cells ws n i) \<le> mc_columns lw ws"
      then have "mc_columns lw ws < length (cells ws n i)" by (simp only: not_le)
      then have "i + mc_columns lw ws * n < length ws" by (rule length_cells_mult [OF n0, THEN iffD2])
      moreover have "length ws \<le> mc_columns lw ws * n"
        unfolding mult.commute [of "mc_columns lw ws" n] unfolding n_def by (rule mc_lines_enough)
      ultimately show False by linarith
    qed
    then have m: "length (cells ws n i) * (longest ws + 1) \<le> mc_columns lw ws * (longest ws + 1)" by (rule mult_le_mono1)
    have "length w < longest ws + 1" if "w \<in> set (cells ws n i)" for w
      using longest_ge [OF subsetD [OF set_cells that]] by linarith
    then have w: "\<forall>w\<in>set (cells ws n i). length w < longest ws + 1" by blast
    have "length l < mc_columns lw ws * (longest ws + 1)"
      unfolding i(2) by (rule less_le_trans [OF length_join_cells [OF w False] m])
    then have "int (length l) < int (mc_columns lw ws * (longest ws + 1))" by (simp only: of_nat_less_iff)
    also have "\<dots> \<le> lw" using c by (simp only: of_nat_mult of_nat_add of_nat_1)
    finally show ?thesis .
  qed
qed

text \<open>Nothing but blanks is added.\<close>

lemma filter_join_cells: "filter (\<lambda>c. c \<noteq> BLANK) (join_cells mw cs) = filter (\<lambda>c. c \<noteq> BLANK) (concat cs)"
  by (induction mw cs rule: join_cells.induct) (simp_all add: filter_empty_conv)

lemma mset_cells: "0 < n \<Longrightarrow> mset (concat (map (\<lambda>i. cells ws n (a + i)) [0..<n])) = mset (drop a ws)"
proof (induction "length ws - a" arbitrary: a rule: less_induct)
  case less
  show ?case
  proof (cases "a < length ws")
    case True
    have c: "cells ws n (a + i) = (if a + i < length ws then [ws ! (a + i)] else []) @ cells ws n (a + n + i)" for i
    proof (cases "a + i < length ws")
      case True
      then show ?thesis using less(2) by (subst cells.simps) (simp add: add.assoc add.commute [of i n])
    next
      case False
      then show ?thesis by (subst (1 2) cells.simps) simp
    qed
    have t: "mset (concat (map (\<lambda>i. if a + i < length ws then [ws ! (a + i)] else []) [0..<m])) = mset (take m (drop a ws))" for m
    proof (induction m)
      case (Suc m)
      have "take (Suc m) (drop a ws) = take m (drop a ws) @ (if a + m < length ws then [ws ! (a + m)] else [])"
        by (cases "a + m < length ws") (simp_all add: take_Suc_conv_app_nth)
      then show ?case using Suc by simp
    qed simp
    have sp: "mset (concat (map (\<lambda>i. f i @ g i) xs)) = mset (concat (map f xs)) + mset (concat (map g xs))" for f g :: "nat \<Rightarrow> nat list list" and xs
      by (induction xs) simp_all
    have "mset (concat (map (\<lambda>i. cells ws n (a + i)) [0..<n])) = mset (take n (drop a ws)) + mset (concat (map (\<lambda>i. cells ws n (a + n + i)) [0..<n]))"
      unfolding c sp t by simp
    also have "mset (concat (map (\<lambda>i. cells ws n (a + n + i)) [0..<n])) = mset (drop (a + n) ws)"
      using less(1) [of "a + n"] less(2) True by simp
    also have "mset (take n (drop a ws)) + mset (drop (a + n) ws) = mset (take n (drop a ws)) + mset (drop n (drop a ws))"
      by (simp add: add.commute)
    finally show ?thesis by (metis append_take_drop_id mset_append)
  next
    case False
    then have "cells ws n (a + i) = []" for i by (subst cells.simps) simp
    then show ?thesis using False by simp
  qed
qed

lemma mset_filter_concat: "mset (filter P (concat xs)) = (\<Sum>w\<in>#mset xs. mset (filter P w))"
  by (induction xs) simp_all

lemma filter_join_map:
  "mset (filter (\<lambda>c. c \<noteq> BLANK) (concat (map (\<lambda>i. join_cells mw (f i)) xs))) = mset (filter (\<lambda>c. c \<noteq> BLANK) (concat (concat (map f xs))))"
  by (induction xs) (simp_all add: filter_join_cells)

lemma mc_layout_only: "mset (filter (\<lambda>c. c \<noteq> BLANK) (concat (mc_layout lw ws))) = mset (filter (\<lambda>c. c \<noteq> BLANK) (concat ws))"
proof (cases "ws = []")
  case True
  then have "mc_lines lw ws = 0" using mc_columns_pos [of lw ws] by (simp add: mc_lines_def)
  then show ?thesis using True by (simp add: mc_layout_def)
next
  case False
  define n where "n = mc_lines lw ws"
  have n: "0 < n" using mc_lines_pos [OF False] by (simp add: n_def)
  have "mset (filter (\<lambda>c. c \<noteq> BLANK) (concat (mc_layout lw ws))) = mset (filter (\<lambda>c. c \<noteq> BLANK) (concat (concat (map (cells ws n) [0..<n]))))"
    unfolding mc_layout_def n_def [symmetric] by (rule filter_join_map)
  also have "\<dots> = (\<Sum>w\<in>#mset (concat (map (cells ws n) [0..<n])). mset (filter (\<lambda>c. c \<noteq> BLANK) w))"
    by (rule mset_filter_concat)
  also have "\<dots> = (\<Sum>w\<in>#mset ws. mset (filter (\<lambda>c. c \<noteq> BLANK) w))" using mset_cells [OF n, of ws 0] by simp
  finally show ?thesis by (simp only: mset_filter_concat)
qed

section \<open>What holds of it\<close>

text \<open>C30. Without arguments \<open>mc\<close> prints the complete lines of its standard input as words in a table, read down its columns: word \<open>j\<close> stands in line \<open>j mod n\<close> at
  column \<open>j div n\<close>, whole, and nothing but blanks is added. Tabs are blanks up to the next multiple of 4. What follows the last
  newline is not printed.\<close>

theorem mc_prints_table:
  assumes "\<forall>w\<in>set ls. RNL \<notin> set w \<and> 0 \<notin> set w" "RNL \<notin> set r"
  shows "\<exists>L. mc_main win fs (text_of ls @ r) [] = Some ([], text_of L)
    \<and> (\<forall>j<length ls. take (length (untab 0 (ls ! j))) (drop ((j div length L) * (longest (map (untab 0) ls) + 1)) (L ! (j mod length L)))
         = untab 0 (ls ! j))
    \<and> mset (filter (\<lambda>c. c \<noteq> BLANK) (concat L)) = mset (filter (\<lambda>c. c \<noteq> BLANK) (concat (map (untab 0) ls)))"
  unfolding mc_main_text [OF assms]
  by (intro exI conjI allI impI, rule refl) (use mc_layout_at [of _ "map (untab 0) ls"] mc_layout_only in \<open>simp_all add: length_mc_layout\<close>)

text \<open>C38. Without arguments, no line of the table that \<open>mc\<close> prints is as long as the line width, when no word is.\<close>

theorem mc_fits_width:
  assumes "\<forall>w\<in>set ls. RNL \<notin> set w \<and> 0 \<notin> set w \<and> int (length (untab 0 w)) < width" "0 < width"
  shows "\<exists>L. mc_main (Some width) fs (text_of ls) [] = Some ([], text_of L) \<and> (\<forall>l\<in>set L. int (length l) < width)"
proof -
  have a: "\<forall>w\<in>set ls. RNL \<notin> set w \<and> 0 \<notin> set w" using assms(1) by blast
  have "longest (map (untab 0) ls) < nat width" using assms by (intro longest_less) auto
  then have "int (longest (map (untab 0) ls)) < width" by linarith
  then show ?thesis using mc_main_text [OF a, of "[]" "Some width" fs] mc_layout_width [of _ width "map (untab 0) ls"] by auto
qed

text \<open>Without the option \<open>-\<close> no write leaves the buffer, whatever is read.\<close>

lemma mc_files_ok:
  "mc_ok s \<Longrightarrow> \<not> colonflag s \<Longrightarrow> mc_files fs as s \<noteq> None"
proof (induction as arbitrary: s)
  case (Cons f as)
  show ?case
  proof (cases "fs f")
    case None
    then show ?thesis using Cons by simp
  next
    case (Some t)
    obtain s' where "readbuf t s = Some s'" "mc_added s (untab 0 t @ [RUNE_EOF]) s'"
      using readbuf_loop_added [OF Cons(2,3)] by (auto simp: readbuf_def)
    then show ?thesis using Some Cons by (simp add: mc_added_def)
  qed
qed simp

lemma mc_args_ok:
  "list_all (\<lambda>a. a \<noteq> ''-'') as \<Longrightarrow> mc_ok s \<Longrightarrow> \<not> colonflag s \<Longrightarrow> mc_args l as s = (l', as', s') \<Longrightarrow> mc_ok s' \<and> \<not> colonflag s'"
proof (induction l as s rule: mc_args.induct)
  case (2 l a as s)
  have "hd a = CHR ''-'' \<Longrightarrow> a \<noteq> [] \<Longrightarrow> tl a \<noteq> []" using 2(4) by (cases a) auto
  then show ?case using 2 by (auto simp: Let_def mc_ok_def split: if_splits)
qed auto

lemma mc_returns:
  assumes "list_all (\<lambda>a. a \<noteq> ''-'') args"
  shows "mc_main win fs stdin args \<noteq> None"
proof -
  obtain l as s where a: "mc_args False args mc_start = (l, as, s)" by (cases "mc_args False args mc_start") auto
  have s: "mc_ok s" "\<not> colonflag s" using mc_args_ok [OF assms start_ok _ a] by (simp_all add: mc_start_def)
  define s1 where "s1 = (if l then s else getwidth win s)"
  have s1: "mc_ok s1" "\<not> colonflag s1" using s by (auto simp: s1_def getwidth_def mc_ok_def split: option.splits)
  show ?thesis using mc_files_ok [OF s1] readbuf_loop_added [OF s1, of stdin 0] a
    by (auto simp: mc_main_def s1_def [symmetric] readbuf_def)
qed

section \<open>Where it fails\<close>

text \<open>Between two files the mark of the end of the first is part of a word.\<close>

lemma mc_two_files:
  "mc_main None (\<lambda>f. if f = ''a'' then Some [65, 10] else Some [66, 10]) [] [''a'', ''b''] = Some ([], [65, 32, 32, RUNE_EOF, 66, 10])"
  by (simp add: mc_main_def mc_start_def getwidth_def readbuf_def read_rune_def mc_store_def ALLOC_QUANTA_def RNL_def RUNE_EOF_def
      columnate_def scanwords_def words_per_line_def mintab_def mc_WIDTH_def bput_def mc_row.simps mc_pad.simps tabflag_def BLANK_def pad_end_def)

text \<open>A line that ends with a colon and fills the buffer has its final 0 stored behind it.\<close>

lemma read_plain:
  "nchars s = length (cbuf s) \<Longrightarrow> length (cbuf s) + k \<le> nalloc s
    \<Longrightarrow> readbuf_loop (replicate k 97 @ t) (False, l) s = readbuf_loop t (False, l + k) (s\<lparr>nchars := nchars s + k, cbuf := cbuf s @ replicate k 97\<rparr>)"
proof (induction k arbitrary: l s)
  case 0
  then show ?case by (cases s) simp
next
  case (Suc k)
  have "read_rune (Some 97) (False, l) s = Some ((False, l + 1), s\<lparr>nchars := nchars s + 1, cbuf := cbuf s @ [97]\<rparr>)"
    using Suc(2,3) by (simp add: read_rune_def mc_store_def RNL_def)
  then show ?case using Suc(1) [of "s\<lparr>nchars := nchars s + 1, cbuf := cbuf s @ [97]\<rparr>" "l + 1"] Suc(2,3)
    by (simp add: replicate_app_Cons_same)
qed

lemma mc_colon_overruns: "mc_main None fs (replicate (ALLOC_QUANTA - 2) 97 @ [58, 10]) [''-''] = None"
proof -
  have "ALLOC_QUANTA = 4094 + 2" by (simp add: ALLOC_QUANTA_def)
  then obtain k where k: "ALLOC_QUANTA = k + 2" by blast
  show ?thesis
    by (simp add: mc_main_def mc_start_def getwidth_def readbuf_def read_plain k read_rune_def mc_store_def colon_line_def RNL_def)
qed

text \<open>Examples.\<close>

lemma mc_prints_table_witness:
  "\<exists>L. mc_main (Some 8) (\<lambda>f. None) [97, 98, 10, 99, 10, 100, 10, 101] [] = Some ([], text_of L) \<and> take 2 (drop 0 (L ! 0)) = [97, 98]"
proof -
  define ls :: "nat list list" where "ls = [[97, 98], [99], [100]]"
  define r :: "nat list" where "r = [101]"
  have t: "text_of ls @ r = [97, 98, 10, 99, 10, 100, 10, 101]" by (simp add: ls_def r_def RNL_def)
  have "\<forall>w\<in>set ls. RNL \<notin> set w \<and> 0 \<notin> set w" "RNL \<notin> set r" by (simp_all add: ls_def r_def RNL_def)
  from mc_prints_table [OF this, of "Some 8" "\<lambda>f. None"] obtain L where L: "mc_main (Some 8) (\<lambda>f. None) (text_of ls @ r) [] = Some ([], text_of L)"
    "\<And>j. j < length ls \<Longrightarrow> take (length (untab 0 (ls ! j))) (drop ((j div length L) * (longest (map (untab 0) ls) + 1)) (L ! (j mod length L))) = untab 0 (ls ! j)"
    by blast
  have "untab 0 (ls ! 0) = [97, 98]" "0 < length ls" by (simp_all add: ls_def)
  then have "take 2 (drop 0 (L ! 0)) = [97, 98]" using L(2) [of 0] by (simp add: numeral_2_eq_2)
  then show ?thesis using L(1) unfolding t by blast
qed

lemma mc_fits_width_witness:
  "\<exists>L. mc_main (Some 8) (\<lambda>f. None) [97, 98, 10, 99, 10, 100, 10] [] = Some ([], text_of L) \<and> (\<forall>l\<in>set L. int (length l) < 8)"
  using mc_fits_width [of "[[97, 98], [99], [100]]" 8 "\<lambda>f. None"] by (simp add: RNL_def)

end
