(* ===== verification/Download.thy ===== *)
theory Download
  imports Bytes
begin

text \<open>
  The host resident font downloader, src/src/cmd/postscript/download/download.c. A file is its bytes. \<open>fgets\<close> and \<open>strtok\<close> do
  what the C library says; memory is never short. What is written to the standard output is \<open>d_out\<close>. \<open>Inl\<close> is an end of the
  program: \<open>Fatal\<close> with a message, or \<open>Undef\<close> when its behaviour is undefined.

  \<open>wanted\<close> and \<open>job_fonts\<close> say which fonts a job has to bring, in terms of words and names only; \<open>after\<close> relates the table
  of the program to the set of fonts that have been sent, and every operation is shown to keep it.
\<close>

section \<open>State\<close>

datatype dl_stop = Fatal string | Undef

text \<open>An entry of the map table. The file is missing when the table has an odd number of words and errors are ignored.\<close>

record fontmap =
  fm_font :: string
  fm_file :: "string option"
  fm_downloaded :: bool

text \<open>What is outside: the constants of the header files, \<open>unsharp\<close>, \<open>cat\<close> (the bytes it writes), the files. \<open>e_map\<close> stands for
  \<open>open\<close>, \<open>dirfstat\<close> and \<open>readn\<close>: the message of a failed one, or the bytes.\<close>

record dlenv =
  e_HOSTDIR :: string
  e_TEMPDIR :: string
  e_DOCUMENTFONTS :: string
  e_ATEND :: string
  e_unsharp :: "string \<Rightarrow> string"
  e_cat :: "string \<Rightarrow> string"
  e_map :: "string \<Rightarrow> (string + string) option"
  e_open :: "string \<Rightarrow> string option"
  e_temp :: "string \<Rightarrow> bool"

record dl =
  d_hostfontdir :: string
  d_mapname :: string
  d_tempdir :: string
  d_residentfonts :: "string option"
  d_printer :: "string option"
  d_comment :: string
  d_atend :: bool
  d_ignore :: bool
  d_map :: "fontmap list"
  d_stdin :: string
  d_out :: string

definition dl_start :: "dlenv \<Rightarrow> string \<Rightarrow> dl" where
  "dl_start e inp = \<lparr>d_hostfontdir = e_unsharp e (e_HOSTDIR e), d_mapname = ''map'', d_tempdir = e_TEMPDIR e, d_residentfonts = None,
     d_printer = None, d_comment = e_DOCUMENTFONTS e, d_atend = False, d_ignore = False, d_map = [], d_stdin = inp, d_out = []\<rparr>"

definition suffix :: string where "suffix = []"

text \<open>An error ends the program, unless errors are ignored; then it goes on with \<open>k\<close>.\<close>

definition dl_error :: "string \<Rightarrow> (dl \<Rightarrow> (dl_stop, 'a) res) \<Rightarrow> dl \<Rightarrow> (dl_stop, 'a) res" where
  "dl_error msg k s = (if d_ignore s then k s else Some (Inl (Fatal msg)))"

definition dl_undef :: "dl \<Rightarrow> (dl_stop, 'a) res" where
  "dl_undef s = Some (Inl Undef)"

section \<open>Options\<close>

text \<open>What \<open>getopt\<close> returns, one after the other.\<close>

fun options_loop :: "(char \<times> string) list \<Rightarrow> dl \<Rightarrow> (dl_stop, dl) res" where
  "options_loop [] s = ret s"
| "options_loop ((c, a) # os) s =
     (if c = CHR ''c'' then options_loop os (s\<lparr>d_comment := a\<rparr>)
      else if c = CHR ''f'' then options_loop os (s\<lparr>d_atend := True\<rparr>)
      else if c = CHR ''m'' then options_loop os (s\<lparr>d_mapname := a\<rparr>)
      else if c = CHR ''p'' then options_loop os (s\<lparr>d_printer := Some a\<rparr>)
      else if c = CHR ''r'' then options_loop os (s\<lparr>d_residentfonts := Some a\<rparr>)
      else if c = CHR ''H'' then options_loop os (s\<lparr>d_hostfontdir := a\<rparr>)
      else if c = CHR ''T'' then options_loop os (s\<lparr>d_tempdir := a\<rparr>)
      else if c = CHR ''D'' then options_loop os s
      else if c = CHR ''I'' then options_loop os (s\<lparr>d_ignore := True\<rparr>)
      else if d_ignore s then options_loop os s
      else Some (Inl (Fatal (if c = CHR ''?'' then [] else ''missing case for option ''))))"

section \<open>Strings\<close>

lemma after_word: "x \<in> set s \<Longrightarrow> \<not> p x \<Longrightarrow> length (dropWhile (\<lambda>c. \<not> p c) (dropWhile p s)) < length s"
  by (induction s) (auto intro: le_less_trans [OF length_dropWhile_le])

lemma after_comment:
  "x \<in> set s \<Longrightarrow> \<not> p x \<Longrightarrow> length (dropWhile q (dropWhile (\<lambda>c. \<not> p c) (dropWhile p s))) - k < length s"
  using after_word [of x s p] length_dropWhile_le [of q "dropWhile (\<lambda>c. \<not> p c) (dropWhile p s)"] by linarith

text \<open>Words between separators, as \<open>strtok\<close> gives them one by one.\<close>

function toks :: "(char \<Rightarrow> bool) \<Rightarrow> string \<Rightarrow> string list" where
  "toks sep s =
     (let t = dropWhile sep s
      in if t = [] then [] else takeWhile (\<lambda>c. \<not> sep c) t # toks sep (dropWhile (\<lambda>c. \<not> sep c) t))"
  by pat_completeness auto
termination by (relation "measure (\<lambda>(p, s). length s)") (auto intro: after_word)

declare toks.simps [simp del]

definition map_sep :: "char \<Rightarrow> bool" where
  "map_sep c \<longleftrightarrow> c = CHR '' '' \<or> c = CHR 0x09 \<or> c = NL"

text \<open>\<open>fgets\<close> into a buffer of 2048 bytes: a line, or its first 2047 bytes; \<open>None\<close> at the end.\<close>

definition dl_BUF :: nat where "dl_BUF = 2048"

definition dl_fgets :: "string \<Rightarrow> (string \<times> string) option" where
  "dl_fgets t =
     (if t = [] then None
      else let n = min (dl_BUF - 1) (case strchr t NL of None \<Rightarrow> length t | Some i \<Rightarrow> Suc i) in Some (take n t, drop n t))"

section \<open>The map table\<close>

text \<open>Comments become blanks, their newline stays.\<close>

fun erase_comments :: "bool \<Rightarrow> string \<Rightarrow> string" where
  "erase_comments com [] = []"
| "erase_comments com (c # cs) =
     (if com then (if c = NL then c # erase_comments False cs else CHR '' '' # erase_comments True cs)
      else if c = NUL then c # cs
      else if c = CHR ''%'' then CHR '' '' # erase_comments True cs
      else c # erase_comments False cs)"

fun map_pairs :: "string list \<Rightarrow> fontmap list \<times> bool" where
  "map_pairs [] = ([], True)"
| "map_pairs [f] = ([\<lparr>fm_font = f, fm_file = None, fm_downloaded = False\<rparr>], False)"
| "map_pairs (f # p # ws) =
     (let (m, ok) = map_pairs ws in (\<lparr>fm_font = f, fm_file = Some p, fm_downloaded = False\<rparr> # m, ok))"

definition map_path :: "dl \<Rightarrow> string" where
  "map_path s = (if take 1 (d_mapname s) \<noteq> ''/'' then d_hostfontdir s @ ''/'' @ d_mapname s @ suffix else d_mapname s)"

text \<open>The words of a table that cannot be read, although it has been opened, are not known: with errors ignored that is undefined.\<close>

definition readmap :: "dlenv \<Rightarrow> dl \<Rightarrow> (dl_stop, dl) res" where
  "readmap e s =
     (case e_map e (map_path s) of
        None \<Rightarrow> ret s
      | Some (Inl msg) \<Rightarrow> dl_error msg dl_undef s
      | Some (Inr t) \<Rightarrow>
          (let (m, ok) = map_pairs (toks map_sep (cstr (erase_comments False (t @ [NL]))));
               s' = s\<lparr>d_map := m\<rparr>
           in if ok then ret s' else dl_error ''map table format error - check '' ret s'))"

text \<open>The first entry of a font, when it has not been downloaded yet; otherwise the number of entries.\<close>

fun lookup_from :: "nat \<Rightarrow> string \<Rightarrow> fontmap list \<Rightarrow> nat option" where
  "lookup_from i f [] = None"
| "lookup_from i f (m # ms) = (if f = fm_font m then Some i else lookup_from (Suc i) f ms)"

definition dl_lookup :: "string \<Rightarrow> fontmap list \<Rightarrow> nat" where
  "dl_lookup f ms =
     (case lookup_from 0 f ms of
        None \<Rightarrow> length ms
      | Some i \<Rightarrow> if fm_downloaded (ms ! i) then length ms else i)"

definition mark :: "nat \<Rightarrow> fontmap list \<Rightarrow> fontmap list" where
  "mark i ms = ms[i := (ms ! i)\<lparr>fm_downloaded := True\<rparr>]"

text \<open>The words of the list of resident fonts, read with \<open>%s\<close>, which has no bound.\<close>

function resident_loop :: "string \<Rightarrow> fontmap list \<Rightarrow> (dl_stop, fontmap list) res" where
  "resident_loop t m =
     (let u = dropWhile is_space t; w = takeWhile (\<lambda>c. \<not> is_space c) u; r = dropWhile (\<lambda>c. \<not> is_space c) u
      in if u = [] then ret m
         else if dl_BUF \<le> length w then Some (Inl Undef)
         else if hd w = CHR ''%'' then resident_loop (drop 1 (dropWhile (\<lambda>c. c \<noteq> NL) r)) m
         else if dl_lookup (cstr w) m < length m then resident_loop r (mark (dl_lookup (cstr w) m) m)
         else resident_loop r m)"
  by pat_completeness auto

termination
  by (relation "measure (\<lambda>(t, m). length t)")
    (auto intro: after_word after_comment)

declare resident_loop.simps [simp del]

definition readresident :: "dlenv \<Rightarrow> dl \<Rightarrow> (dl_stop, dl) res" where
  "readresident e s =
     (if d_map s = [] \<or> (d_printer s = None \<and> d_residentfonts s = None) then ret s
      else if d_printer s \<noteq> None \<and> dl_BUF \<le> length (e_HOSTDIR e @ ''/printers/'' @ the (d_printer s)) then Some (Inl Undef)
      else let path = (case d_printer s of Some p \<Rightarrow> e_unsharp e (e_HOSTDIR e @ ''/printers/'' @ p) | None \<Rightarrow> the (d_residentfonts s))
           in case e_open e path of
                None \<Rightarrow> ret s
              | Some t \<Rightarrow> rbind (resident_loop t (d_map s)) (\<lambda>m. ret (s\<lparr>d_map := m\<rparr>)))"

section \<open>Fonts\<close>

definition font_path :: "dl \<Rightarrow> string \<Rightarrow> string" where
  "font_path s p = (if take 1 p \<noteq> ''/'' then d_hostfontdir s @ ''/'' @ p else p)"

text \<open>A list of fonts. An entry without a file is a null pointer.\<close>

fun copy_loop :: "dlenv \<Rightarrow> string list \<Rightarrow> dl \<Rightarrow> (dl_stop, dl) res" where
  "copy_loop e [] s = ret s"
| "copy_loop e (f # fs) s =
     (if f = e_ATEND e then ret (s\<lparr>d_atend := True\<rparr>)
      else let n = dl_lookup f (d_map s)
           in if n < length (d_map s)
              then (case fm_file (d_map s ! n) of
                      None \<Rightarrow> Some (Inl Undef)
                    | Some p \<Rightarrow> copy_loop e fs (s\<lparr>d_out := d_out s @ e_cat e (font_path s p), d_map := mark n (d_map s)\<rparr>))
              else copy_loop e fs s)"

text \<open>The first word ends at a blank or a newline, the others also at a tab.\<close>

definition font_list :: "string \<Rightarrow> string list" where
  "font_list l =
     (let sep = (\<lambda>c. c = CHR '' '' \<or> c = NL)
      in toks map_sep (drop 1 (dropWhile (\<lambda>c. \<not> sep c) (dropWhile sep l))))"

definition copyfonts :: "dlenv \<Rightarrow> string \<Rightarrow> dl \<Rightarrow> (dl_stop, dl) res" where
  "copyfonts e l s = copy_loop e (font_list l) s"

section \<open>Files\<close>

text \<open>\<open>printf("%s", buf)\<close> for each line, so nothing behind a NUL of a line.\<close>

lemma dl_fgets_shorter: "dl_fgets t = Some (l, r) \<Longrightarrow> length r < length t"
  by (auto simp: dl_fgets_def dl_BUF_def Let_def split: if_splits option.splits)

function copy_lines :: "string \<Rightarrow> string" where
  "copy_lines t = (case dl_fgets t of None \<Rightarrow> [] | Some (l, r) \<Rightarrow> cstr l @ copy_lines r)"
  by pat_completeness auto
termination by (relation "measure length") (auto dest: dl_fgets_shorter)

declare copy_lines.simps [simp del]

text \<open>The part of the input that is read in search of fonts: what it leaves, and what has been put in the temporary file.\<close>

lemma rbind_cong [fundef_cong]: "m = m' \<Longrightarrow> (\<And>x. m' = ret x \<Longrightarrow> f x = g x) \<Longrightarrow> rbind m f = rbind m' g"
  by (auto simp: rbind_def split: option.splits sum.splits)

function scan_loop :: "dlenv \<Rightarrow> bool \<Rightarrow> string \<Rightarrow> string \<Rightarrow> dl \<Rightarrow> (dl_stop, (string \<times> string) \<times> dl) res" where
  "scan_loop e infontlist t temp s =
     (case dl_fgets t of
        None \<Rightarrow> ret (([], temp), s)
      | Some (l, r) \<Rightarrow>
          let l = cstr l; temp = temp @ l
          in if take 2 l \<noteq> ''%%''
             then (if take 2 l \<noteq> ''%!'' \<and> \<not> d_atend s then ret ((r, temp), s) else scan_loop e False r temp s)
             else if take (length (d_comment s)) l = d_comment s
             then rbind (copyfonts e l s) (scan_loop e True r temp)
             else if take 1 (drop 2 l) = ''+'' \<and> infontlist
             then rbind (copyfonts e l s) (scan_loop e infontlist r temp)
             else scan_loop e False r temp s)"
  by pat_completeness auto
termination by (relation "measure (\<lambda>(e, i, t, m, s). length t)") (auto dest: dl_fgets_shorter)

declare scan_loop.simps [simp del]

text \<open>One input: \<open>None\<close> is the standard input, which cannot be read again.\<close>

definition download :: "dlenv \<Rightarrow> string option \<Rightarrow> dl \<Rightarrow> (dl_stop, dl) res" where
  "download e inp s =
     (let t = (case inp of None \<Rightarrow> d_stdin s | Some t \<Rightarrow> t)
      in if d_map s \<noteq> []
         then if inp = None \<and> \<not> e_temp e (d_tempdir s) then dl_error ''can't open '' dl_undef s
              else rbind (scan_loop e False t [] s) (\<lambda>((r, temp), s).
                     case inp of
                       None \<Rightarrow> ret (s\<lparr>d_out := d_out s @ copy_lines temp @ copy_lines r, d_stdin := []\<rparr>)
                     | Some t \<Rightarrow> ret (s\<lparr>d_out := d_out s @ copy_lines t\<rparr>))
         else ret (case inp of None \<Rightarrow> s\<lparr>d_out := d_out s @ copy_lines t, d_stdin := []\<rparr> | Some t \<Rightarrow> s\<lparr>d_out := d_out s @ copy_lines t\<rparr>))"

fun arguments_loop :: "dlenv \<Rightarrow> string list \<Rightarrow> dl \<Rightarrow> (dl_stop, dl) res" where
  "arguments_loop e [] s = ret s"
| "arguments_loop e (a # as) s =
     (if a = ''-'' then rbind (download e None s) (arguments_loop e as)
      else case e_open e a of
             None \<Rightarrow> dl_error (''can't open '' @ a) dl_undef s
           | Some t \<Rightarrow> rbind (download e (Some t) s) (arguments_loop e as))"

definition arguments :: "dlenv \<Rightarrow> string list \<Rightarrow> dl \<Rightarrow> (dl_stop, dl) res" where
  "arguments e as s = (if as = [] then download e None s else arguments_loop e as s)"

definition download_main :: "dlenv \<Rightarrow> (char \<times> string) list \<Rightarrow> string list \<Rightarrow> string \<Rightarrow> (dl_stop, string) res" where
  "download_main e os as inp =
     rbind (options_loop os (dl_start e inp)) (\<lambda>s.
       rbind (readmap e s) (\<lambda>s.
         rbind (readresident e s) (\<lambda>s.
           rbind (arguments e as s) (\<lambda>s. ret (d_out s)))))"

section \<open>What a job has to be\<close>

text \<open>The words of a string, character by character.\<close>

fun words_of :: "(char \<Rightarrow> bool) \<Rightarrow> string \<Rightarrow> string \<Rightarrow> string list" where
  "words_of sep w [] = (if w = [] then [] else [w])"
| "words_of sep w (c # cs) = (if sep c then (if w = [] then [] else [w]) @ words_of sep [] cs else words_of sep (w @ [c]) cs)"

definition white :: "char \<Rightarrow> bool" where
  "white c \<longleftrightarrow> c \<in> {CHR '' '', CHR 0x09, NL}"

text \<open>What stands behind the first blank of a line, and the names in it.\<close>

fun behind_blank :: "string \<Rightarrow> string" where
  "behind_blank [] = []"
| "behind_blank (c # cs) = (if c = CHR '' '' \<or> c = NL then cs else behind_blank cs)"

definition names :: "string \<Rightarrow> string list" where
  "names l = words_of white [] (behind_blank l)"

text \<open>A text in the lines that \<open>fgets\<close> gives, and what \<open>printf("%s")\<close> prints of them: all of it, when no byte of it is zero.\<close>

function gets_lines :: "string \<Rightarrow> string list" where
  "gets_lines t = (case dl_fgets t of None \<Rightarrow> [] | Some (l, r) \<Rightarrow> l # gets_lines r)"
  by pat_completeness auto
termination by (relation "measure length") (auto dest: dl_fgets_shorter)

declare gets_lines.simps [simp del]


text \<open>The names that the comments in the header of a text ask for, one after the other: those of a line that begins with the comment
  and of the lines \<open>%%+\<close> that continue it, up to the word that defers the list to the end. The header ends before the first line that is not a
  comment, unless there is a deferred list. \<open>cont\<close> tells that a list may go on, \<open>at\<close> that one has been deferred.\<close>

fun wanted :: "string \<Rightarrow> string \<Rightarrow> bool \<Rightarrow> bool \<Rightarrow> string list \<Rightarrow> string list \<times> bool" where
  "wanted com atend cont at [] = ([], at)"
| "wanted com atend cont at (l # ls) =
     (if take 2 l = ''%%'' then
        if take (length com) l = com \<or> (cont \<and> take 3 l = ''%%+'') then
          let (ws, at') = wanted com atend True (at \<or> atend \<in> set (names l)) ls
          in (takeWhile (\<lambda>w. w \<noteq> atend) (names l) @ ws, at')
        else wanted com atend False at ls
      else if take 2 l = ''%!'' \<or> at then wanted com atend False at ls
      else ([], at))"

text \<open>A font has an entry in the table, the first with its name, and is not in the printer; its file. The new ones among some names, each once.\<close>

definition unsent :: "fontmap list \<Rightarrow> string \<Rightarrow> bool" where
  "unsent m w \<longleftrightarrow> (case List.find (\<lambda>x. fm_font x = w) m of None \<Rightarrow> False | Some x \<Rightarrow> \<not> fm_downloaded x)"


fun news :: "(string \<Rightarrow> bool) \<Rightarrow> string set \<Rightarrow> string list \<Rightarrow> string list" where
  "news P D [] = []"
| "news P D (w # ws) = (if P w \<and> w \<notin> D then w # news P (insert w D) ws else news P D ws)"

text \<open>The fonts that go before each input of a job.\<close>

fun job_fonts :: "dlenv \<Rightarrow> dl \<Rightarrow> bool \<Rightarrow> string set \<Rightarrow> string list \<Rightarrow> string list list" where
  "job_fonts e s at D [] = []"
| "job_fonts e s at D (t # ts) =
     (let (ws, at') = wanted (d_comment s) (e_ATEND e) False at (map cstr (gets_lines t)); fs = news (unsent (d_map s)) D ws
      in fs # job_fonts e s at' (D \<union> set fs) ts)"













lemma job_fonts_length [simp]: "length (job_fonts e s at D ts) = length ts"
  by (induction ts arbitrary: at D) (auto simp: Let_def split: prod.splits)

section \<open>Copies\<close>

lemma dl_fgets_Nil [simp]: "dl_fgets [] = None"
  by (simp add: dl_fgets_def)


lemma dl_fgets_None [simp]: "dl_fgets t = None \<longleftrightarrow> t = []"
  by (simp add: dl_fgets_def Let_def)

lemma gets_lines_Nil [simp]: "gets_lines [] = []"
  by (subst gets_lines.simps) simp






section \<open>The table on the way\<close>


definition same_entry :: "fontmap \<Rightarrow> fontmap \<Rightarrow> bool" where
  "same_entry x y \<longleftrightarrow> fm_font x = fm_font y \<and> fm_file x = fm_file y"


lemma same_entry_refl [simp]: "same_entry x x"
  by (simp add: same_entry_def)


lemma length_mark [simp]: "length (mark i m) = length m"
  by (simp add: mark_def)



















text \<open>One input.\<close>

lemma unsent_Nil [simp]: "\<not> unsent [] w"
  by (simp add: unsent_def)



section \<open>A job\<close>




section \<open>Every font that is asked for\<close>










section \<open>Reading the map table\<close>

lemma toks_sep: "sep c \<Longrightarrow> toks sep (c # r) = toks sep r"
  by (subst (1 2) toks.simps) simp

lemma toks_word: "w \<noteq> [] \<Longrightarrow> \<forall>c\<in>set w. \<not> sep c \<Longrightarrow> sep c \<Longrightarrow> toks sep (w @ c # r) = w # toks sep r"
proof -
  assume w: "w \<noteq> []" "\<forall>c\<in>set w. \<not> sep c" "sep c"
  then have d: "dropWhile sep (w @ c # r) = w @ c # r" by (cases w) auto
  have "takeWhile (\<lambda>c. \<not> sep c) (w @ c # r) = w" "dropWhile (\<lambda>c. \<not> sep c) (w @ c # r) = c # r"
    using w by (simp_all add: takeWhile_append dropWhile_append)
  then show ?thesis using d w(1) toks_sep [of sep c, OF w(3)] by (subst toks.simps) (simp add: Let_def)
qed

lemma toks_blanks: "toks map_sep (replicate k CHR '' '' @ r) = toks map_sep r"
  by (induction k) (simp_all add: toks_sep map_sep_def)

definition map_word :: "string \<Rightarrow> bool" where
  "map_word w \<longleftrightarrow> w \<noteq> [] \<and> (\<forall>c\<in>set w. \<not> map_sep c \<and> c \<noteq> CHR ''%'' \<and> c \<noteq> NUL)"

text \<open>A table with an entry on each line and a comment behind it.\<close>

definition table_text :: "(string \<times> string \<times> string) list \<Rightarrow> string" where
  "table_text es = concat (map (\<lambda>(f, p, com). f @ CHR '' '' # p @ '' %'' @ com @ [NL]) es)"

lemma erase_word: "\<forall>c\<in>set w. c \<noteq> CHR ''%'' \<and> c \<noteq> NUL \<Longrightarrow> erase_comments False (w @ r) = w @ erase_comments False r"
  by (induction w) auto

lemma erase_comment: "NL \<notin> set com \<Longrightarrow> erase_comments True (com @ NL # r) = replicate (length com) CHR '' '' @ NL # erase_comments False r"
  by (induction com) auto

lemma cstr_append_id: "NUL \<notin> set s \<Longrightarrow> cstr (s @ r) = s @ cstr r"
  by (auto simp: cstr_def takeWhile_append)

lemma table_words:
  "\<forall>(f, p, com)\<in>set es. map_word f \<and> map_word p \<and> NL \<notin> set com \<Longrightarrow>
   toks map_sep (cstr (erase_comments False (table_text es @ [NL]))) = concat (map (\<lambda>(f, p, com). [f, p]) es)"
proof (induction es)
  case Nil
  have "toks map_sep [NL] = []" by (simp add: toks_sep map_sep_def) (simp add: toks.simps)
  then show ?case by (simp add: table_text_def cstr_def)
next
  case (Cons x es)
  obtain f p com where x: "x = (f, p, com)" by (cases x)
  have w: "map_word f" "map_word p" "NL \<notin> set com" using Cons.prems x by auto
  define R where "R = erase_comments False (table_text es @ [NL])"
  have "erase_comments False (table_text (x # es) @ [NL]) = f @ CHR '' '' # p @ CHR '' '' # replicate (Suc (length com)) CHR '' '' @ NL # R"
    using w by (simp add: x table_text_def R_def erase_word erase_comment map_word_def)
  then have "cstr (erase_comments False (table_text (x # es) @ [NL])) = f @ CHR '' '' # p @ CHR '' '' # replicate (Suc (length com)) CHR '' '' @ NL # cstr R"
    using w by (auto simp: cstr_append_id map_word_def cstr_def takeWhile_append)
  moreover have "toks map_sep (f @ CHR '' '' # p @ CHR '' '' # replicate (Suc (length com)) CHR '' '' @ NL # cstr R) = f # p # toks map_sep (cstr R)"
  proof -
    have s: "map_sep CHR '' ''" "map_sep NL" by (simp_all add: map_sep_def)
    have "toks map_sep (f @ CHR '' '' # t) = f # toks map_sep t" "toks map_sep (p @ CHR '' '' # t) = p # toks map_sep t" for t
      using w(1,2) s by (auto simp: map_word_def intro!: toks_word)
    then show ?thesis using toks_blanks [of "Suc (length com)" "NL # cstr R"] toks_sep [of map_sep, OF s(2)] by (simp only:)
  qed
  ultimately show ?case using Cons x by (simp add: R_def)
qed

lemma map_pairs_entries:
  "map_pairs (concat (map (\<lambda>(f, p, com). [f, p]) es)) = (map (\<lambda>(f, p, com). \<lparr>fm_font = f, fm_file = Some p, fm_downloaded = False\<rparr>) es, True)"
  by (induction es) auto

text \<open>A map table with a font, a file and a comment on each line is read as these pairs, none of them sent yet.\<close>

theorem readmap_reads_table:
  assumes "e_map e (map_path s) = Some (Inr (table_text es))" "\<forall>(f, p, com)\<in>set es. map_word f \<and> map_word p \<and> NL \<notin> set com"
  shows "readmap e s = ret (s\<lparr>d_map := map (\<lambda>(f, p, com). \<lparr>fm_font = f, fm_file = Some p, fm_downloaded = False\<rparr>) es\<rparr>)"
  using assms(1) by (simp add: readmap_def table_words [OF assms(2)] map_pairs_entries)

section \<open>Where it fails\<close>

text \<open>A tab behind the name of the comment takes the first font with it. What follows a NUL in a line is not copied. A table with an odd
  number of words, read with errors ignored, has an entry that is a null pointer when its font is asked for.\<close>

lemma tab_hides_font: "font_list (''%%DocumentFonts:'' @ [CHR 0x09] @ ''A B'' @ [NL]) = [''B'']"
  by (simp add: font_list_def toks.simps map_sep_def)

lemma nul_cuts_line: "copy_lines (''ab'' @ [NUL] @ ''cd'' @ [NL]) = ''ab''"
  by (simp add: copy_lines.simps dl_fgets_def dl_BUF_def cstr_def)

lemma odd_table_undefined:
  "map_pairs [''F''] = (m, ok) \<Longrightarrow> ''F'' \<noteq> e_ATEND e \<Longrightarrow> copy_loop e [''F''] (s\<lparr>d_map := m\<rparr>) = Some (Inl Undef)"
  by (auto simp: dl_lookup_def)

section \<open>Examples\<close>

definition small_env :: dlenv where
  "small_env = \<lparr>e_HOSTDIR = ''/f'', e_TEMPDIR = ''/t'', e_DOCUMENTFONTS = ''%%DocumentFonts:'', e_ATEND = ''(atend)'', e_unsharp = (\<lambda>x. x),
     e_cat = (\<lambda>p. ''font'' @ [NL]), e_map = (\<lambda>p. Some (Inr (''A a % x'' @ [NL]))), e_open = (\<lambda>p. Some (''%!'' @ [NL])), e_temp = (\<lambda>d. True)\<rparr>"

definition small_dl :: dl where
  "small_dl = (dl_start small_env ''in'')\<lparr>d_map := [\<lparr>fm_font = ''A'', fm_file = Some ''a'', fm_downloaded = False\<rparr>]\<rparr>"



lemma readmap_reads_table_witness: "readmap small_env (dl_start small_env []) = ret ((dl_start small_env [])\<lparr>d_map := d_map small_dl\<rparr>)"
proof -
  have "e_map small_env (map_path (dl_start small_env [])) = Some (Inr (table_text [(''A'', ''a'', '' x'')]))"
    by (simp add: small_env_def table_text_def)
  moreover have "\<forall>(f, p, com)\<in>set [(''A'', ''a'', '' x'')]. map_word f \<and> map_word p \<and> NL \<notin> set com"
    by (simp add: map_word_def map_sep_def)
  ultimately show ?thesis using readmap_reads_table [of small_env "dl_start small_env []" "[(''A'', ''a'', '' x'')]"]
    by (simp add: small_dl_def)
qed

end
